(* ===== verification/Prelude.thy ===== *)
theory Prelude
  imports
    Main
    "HOL-Library.Word"
    "HOL-Library.Char_ord"
    "HOL-Library.List_Lexorder"
    "HOL-Library.Signed_Division"
begin

unbundle bit_operations_syntax

text \<open>
  The vocabulary every component shares: bytes and machine integers, the conversions C++
  applies between them, the decimal printing of integers (\<open>std::to_string\<close>), and the
  theorem collections the component proofs draw on.

  Conventions.  An unsigned C++ integer of width \<open>w\<close> is a \<open>w word\<close>.  A signed one is an
  \<open>int\<close> together with the range predicate \<open>in_s w\<close>; a conversion to a narrower or to a
  signed type is \<open>s_wrap w\<close> (two's complement, as C++20 fixes it).  \<open>char\<close> is a byte, and
  the order of \<open>char\<close> and of \<open>string\<close> is that of \<open>std::string\<close>: lexicographic on
  unsigned bytes.
\<close>

named_theorems range_simps \<open>facts that decide whether a signed integer is in range\<close>
named_theorems bytes_simps \<open>conversions between bytes, characters and words\<close>
named_theorems access_simps \<open>the equations of field accessors of the model's records\<close>

type_synonym byte = "8 word"
type_synonym bytes = "8 word list"
type_synonym u32 = "32 word"
type_synonym u64 = "64 word"

section \<open>Code that may throw\<close>

text \<open>Sequencing of calls of which the first exception ends the function.\<close>

definition bind_e :: "'e + 'a \<Rightarrow> ('a \<Rightarrow> 'e + 'b) \<Rightarrow> 'e + 'b" where
  "bind_e m f = (case m of Inl e \<Rightarrow> Inl e | Inr x \<Rightarrow> f x)"

lemma bind_e_simps [simp]: "bind_e (Inl e) f = Inl e" "bind_e (Inr x) f = f x"
  by (simp_all add: bind_e_def)

lemma bind_e_Inr: "bind_e m f = Inr y \<longleftrightarrow> (\<exists>x. m = Inr x \<and> f x = Inr y)"
  by (cases m) simp_all

lemma bind_e_Inl: "bind_e m f = Inl e \<longleftrightarrow> m = Inl e \<or> (\<exists>x. m = Inr x \<and> f x = Inl e)"
  by (cases m) auto

section \<open>Signed machine integers\<close>

definition in_s :: "nat \<Rightarrow> int \<Rightarrow> bool" where
  "in_s w x \<longleftrightarrow> - (2 ^ (w - 1)) \<le> x \<and> x < 2 ^ (w - 1)"

definition s_wrap :: "nat \<Rightarrow> int \<Rightarrow> int" where
  "s_wrap w x = signed_take_bit (w - 1) x"

lemma s_wrap_id [range_simps]: "in_s w x \<Longrightarrow> s_wrap w x = x"
  by (simp add: in_s_def s_wrap_def signed_take_bit_int_eq_self)

lemma in_s_s_wrap [range_simps, simp]: "in_s w (s_wrap w x)"
  using signed_take_bit_int_greater_eq_minus_exp [of "w - 1" x]
    signed_take_bit_int_less_exp [of "w - 1" x]
  by (simp add: in_s_def s_wrap_def)

lemma s_wrap_idem [simp]: "s_wrap w (s_wrap w x) = s_wrap w x"
  by (simp add: s_wrap_id)

lemma s_wrap_of_minus: "s_wrap w (- s_wrap w x) = s_wrap w (- x)"
  by (simp add: s_wrap_def signed_take_bit_minus)

lemma s_wrap_of_abs: "s_wrap w \<bar>s_wrap w (- x)\<bar> = s_wrap w \<bar>s_wrap w x\<bar>"
proof (cases "in_s w (- s_wrap w x)")
  case True
  then have "s_wrap w (- x) = - s_wrap w x" using s_wrap_of_minus [of w x] by (simp add: s_wrap_id)
  then show ?thesis by simp
next
  case False
  then have least: "s_wrap w x = - (2 ^ (w - 1))" using in_s_s_wrap [of w x] by (auto simp: in_s_def)
  have "s_wrap w (2 ^ (w - 1)) = - (2 ^ (w - 1))"
    by (simp add: s_wrap_def signed_take_bit_eq_take_bit_shift take_bit_eq_mod flip: power_Suc mult_2)
  then show ?thesis using s_wrap_of_minus [of w x] least by simp
qed

lemma s_wrap_eq_iff: "s_wrap w x = x \<longleftrightarrow> in_s w x"
  by (metis in_s_s_wrap s_wrap_id)

lemma in_s_mono: "in_s v x \<Longrightarrow> v \<le> w \<Longrightarrow> in_s w x"
proof -
  assume x: "in_s v x" and "v \<le> w"
  then have "(2::int) ^ (v - 1) \<le> 2 ^ (w - 1)" by (intro power_increasing) auto
  with x show ?thesis unfolding in_s_def by linarith
qed

lemma in_s_0 [simp]: "in_s w 0"
  by (simp add: in_s_def)

section \<open>Bytes and characters\<close>

definition byte_of_char :: "char \<Rightarrow> byte" where
  "byte_of_char c = word_of_nat (of_char c)"

definition char_of_byte :: "byte \<Rightarrow> char" where
  "char_of_byte b = char_of (unat b)"

lemma char_of_byte_of_char [simp, bytes_simps]: "char_of_byte (byte_of_char c) = c"
  by (simp add: char_of_byte_def byte_of_char_def unat_of_nat)

lemma byte_of_char_of_byte [simp, bytes_simps]: "byte_of_char (char_of_byte b) = b"
proof -
  have "unat b < 256" using unsigned_less [of b, where ?'a = nat] by simp
  then show ?thesis by (simp add: char_of_byte_def byte_of_char_def)
qed

definition bytes_of_string :: "string \<Rightarrow> bytes" where
  "bytes_of_string s = map byte_of_char s"

definition string_of_bytes :: "bytes \<Rightarrow> string" where
  "string_of_bytes bs = map char_of_byte bs"

lemma string_of_bytes_of_string [simp, bytes_simps]:
  "string_of_bytes (bytes_of_string s) = s"
  by (simp add: bytes_of_string_def string_of_bytes_def comp_def)

lemma bytes_of_string_of_bytes [simp, bytes_simps]:
  "bytes_of_string (string_of_bytes bs) = bs"
  by (simp add: bytes_of_string_def string_of_bytes_def comp_def)

lemma length_bytes_of_string [simp, bytes_simps]: "length (bytes_of_string s) = length s"
  by (simp add: bytes_of_string_def)

lemma length_string_of_bytes [simp, bytes_simps]: "length (string_of_bytes s) = length s"
  by (simp add: string_of_bytes_def)

lemma string_of_bytes_append [simp, bytes_simps]:
  "string_of_bytes (xs @ ys) = string_of_bytes xs @ string_of_bytes ys"
  by (simp add: string_of_bytes_def)

lemma bytes_of_string_append [simp, bytes_simps]:
  "bytes_of_string (xs @ ys) = bytes_of_string xs @ bytes_of_string ys"
  by (simp add: bytes_of_string_def)

section \<open>Decimal printing: \<open>std::to_string\<close>\<close>

fun to_string_nat :: "nat \<Rightarrow> string" where
  "to_string_nat n =
     (if n < 10 then [char_of (48 + n)] else to_string_nat (n div 10) @ [char_of (48 + n mod 10)])"

declare to_string_nat.simps [simp del]

definition to_string_int :: "int \<Rightarrow> string" where
  "to_string_int i = (if i < 0 then CHR ''-'' # to_string_nat (nat (- i)) else to_string_nat (nat i))"

fun digits_value :: "string \<Rightarrow> nat" where
  "digits_value s = foldl (\<lambda>a c. 10 * a + (of_char c - 48)) 0 s"

lemma to_string_nat_value: "digits_value (to_string_nat n) = n"
proof (induction n rule: to_string_nat.induct)
  case (1 n)
  show ?case
  proof (cases "n < 10")
    case True
    then show ?thesis by (subst to_string_nat.simps) simp
  next
    case False
    then have "digits_value (to_string_nat (n div 10)) = n div 10" by (rule "1.IH")
    moreover have "(48 + n mod 10) mod 256 = 48 + n mod 10" by simp
    ultimately show ?thesis
      using False by (subst to_string_nat.simps) simp
  qed
qed

definition is_digit :: "char \<Rightarrow> bool" where
  "is_digit c \<longleftrightarrow> 48 \<le> (of_char c :: nat) \<and> (of_char c :: nat) \<le> 57"

lemma to_string_nat_is_digit: "list_all is_digit (to_string_nat n)"
proof (induction n rule: to_string_nat.induct)
  case (1 n)
  then show ?case by (subst to_string_nat.simps) (simp add: is_digit_def [of "char_of n" for n], linarith)
qed

lemma to_string_nat_digits: "c \<in> set (to_string_nat n) \<Longrightarrow> 48 \<le> (of_char c :: nat)"
  using to_string_nat_is_digit [of n] by (auto simp: list_all_iff is_digit_def)

lemma to_string_nat_nonempty: "to_string_nat n \<noteq> []"
  by (subst to_string_nat.simps) simp

lemma to_string_nat_inj: "to_string_nat m = to_string_nat n \<Longrightarrow> m = n"
  by (metis to_string_nat_value)

lemma to_string_int_inj: "to_string_int i = to_string_int j \<Longrightarrow> i = j"
proof -
  assume eq: "to_string_int i = to_string_int j"
  have no_minus: "to_string_nat n \<noteq> CHR ''-'' # s" for n s
    using to_string_nat_digits [of "CHR ''-''" n] by auto
  show ?thesis
    using eq no_minus by (auto simp: to_string_int_def dest: to_string_nat_inj split: if_splits)
      (metis no_minus)+
qed

end
