(* ===== verification/Std_Map.thy ===== *)
theory Std_Map
  imports Prelude
begin

text \<open>
  \<open>std::map\<close>, the container behind \<open>RpcMap\<close>, \<open>RpcIMap\<close> and \<open>RpcMetaData\<close>
  (\<open>libshvchainpack/include/shv/chainpack/rpcvalue.h\<close>): an association list that is strictly
  sorted by key, which is also its iteration order.  The locale \<open>ordered_map\<close> states what the
  rest of the library relies on; its interpretation \<open>stdmap\<close> proves it for the sorted
  lists, and the clients use the facts \<open>stdmap.\<dots>\<close>.
\<close>

type_synonym ('k, 'v) std_map = "('k \<times> 'v) list"

definition map_wf :: "('k::linorder, 'v) std_map \<Rightarrow> bool" where
  "map_wf m \<longleftrightarrow> sorted_wrt (<) (map fst m)"

definition map_find :: "('k, 'v) std_map \<Rightarrow> 'k \<Rightarrow> 'v option" where
  "map_find m k = map_of m k"

fun map_set :: "'k::linorder \<Rightarrow> 'v \<Rightarrow> ('k, 'v) std_map \<Rightarrow> ('k, 'v) std_map" where
  "map_set k v [] = [(k, v)]"
| "map_set k v ((k', v') # m) =
     (if k' < k then (k', v') # map_set k v m
      else if k' = k then (k, v) # m
      else (k, v) # (k', v') # m)"

definition map_erase :: "'k \<Rightarrow> ('k, 'v) std_map \<Rightarrow> ('k, 'v) std_map" where
  "map_erase k m = filter (\<lambda>kv. fst kv \<noteq> k) m"

definition map_emplace :: "'k::linorder \<Rightarrow> 'v \<Rightarrow> ('k, 'v) std_map \<Rightarrow> ('k, 'v) std_map" where
  "map_emplace k v m = (case map_find m k of Some _ \<Rightarrow> m | None \<Rightarrow> map_set k v m)"

definition map_keys :: "('k, 'v) std_map \<Rightarrow> 'k list" where
  "map_keys m = map fst m"

section \<open>The contract\<close>

locale ordered_map =
  fixes empty :: "'m"
    and find :: "'m \<Rightarrow> 'k::linorder \<Rightarrow> 'v option"
    and assign :: "'k \<Rightarrow> 'v \<Rightarrow> 'm \<Rightarrow> 'm"
    and erase :: "'k \<Rightarrow> 'm \<Rightarrow> 'm"
    and keys :: "'m \<Rightarrow> 'k list"
    and invar :: "'m \<Rightarrow> bool"
  assumes find_empty: "find empty k = None"
    and find_assign: "find (assign k v m) k' = (if k' = k then Some v else find m k')"
    and find_erase: "find (erase k m) k' = (if k' = k then None else find m k')"
    and invar_empty: "invar empty"
    and invar_assign: "invar m \<Longrightarrow> invar (assign k v m)"
    and invar_erase: "invar m \<Longrightarrow> invar (erase k m)"
    and keys_find: "k \<in> set (keys m) \<longleftrightarrow> find m k \<noteq> None"
    and keys_sorted: "invar m \<Longrightarrow> sorted_wrt (<) (keys m)"
    and ext: "invar m \<Longrightarrow> invar n \<Longrightarrow> (\<And>k. find m k = find n k) \<Longrightarrow> m = n"
begin

lemma assign_assign: "invar m \<Longrightarrow> assign k v (assign k w m) = assign k v m"
  by (rule ext) (simp_all add: invar_assign find_assign)

lemma assign_commute:
  "invar m \<Longrightarrow> k \<noteq> k' \<Longrightarrow> assign k v (assign k' v' m) = assign k' v' (assign k v m)"
  by (rule ext) (auto simp: invar_assign find_assign)

lemma assign_same: "invar m \<Longrightarrow> find m k = Some v \<Longrightarrow> assign k v m = m"
  by (rule ext) (simp_all add: invar_assign find_assign)

lemma erase_assign: "invar m \<Longrightarrow> erase k (assign k v m) = erase k m"
  by (rule ext) (simp_all add: invar_assign invar_erase find_assign find_erase)

lemma assign_erase: "invar m \<Longrightarrow> assign k v (erase k m) = assign k v m"
  by (rule ext) (simp_all add: invar_assign invar_erase find_assign find_erase)

lemma erase_absent: "invar m \<Longrightarrow> find m k = None \<Longrightarrow> erase k m = m"
  by (rule ext) (simp_all add: invar_erase find_erase)

lemma keys_determined: "invar m \<Longrightarrow> distinct (keys m)"
  using keys_sorted by (simp add: strict_sorted_iff)

end

section \<open>Sorted association lists satisfy it\<close>

lemma map_wf_Cons [simp]:
  "map_wf ((k, v) # m) \<longleftrightarrow> (\<forall>k' \<in> fst ` set m. k < k') \<and> map_wf m"
  by (auto simp: map_wf_def)

lemma map_wf_Nil [simp]: "map_wf []"
  by (simp add: map_wf_def)

lemma map_find_Nil [simp]: "map_find [] k = None"
  by (simp add: map_find_def)

lemma map_find_Cons [simp]:
  "map_find ((k', v) # m) k = (if k = k' then Some v else map_find m k)"
  by (simp add: map_find_def)

lemma map_find_set: "map_find (map_set k v m) k' = (if k' = k then Some v else map_find m k')"
  by (induction k v m rule: map_set.induct) auto

lemma fst_set_map_set: "fst ` set (map_set k v m) = insert k (fst ` set m)"
  by (induction k v m rule: map_set.induct) auto

lemma map_wf_set: "map_wf m \<Longrightarrow> map_wf (map_set k v m)"
  by (induction k v m rule: map_set.induct) (auto simp: fst_set_map_set)

lemma map_find_erase: "map_find (map_erase k m) k' = (if k' = k then None else map_find m k')"
  by (induction m) (auto simp: map_erase_def)

lemma map_wf_erase: "map_wf m \<Longrightarrow> map_wf (map_erase k m)"
  by (induction m) (auto simp: map_erase_def)

lemma map_find_None_iff: "map_find m k = None \<longleftrightarrow> k \<notin> fst ` set m"
  by (simp add: map_find_def map_of_eq_None_iff)

lemma map_find_above:
  "\<forall>k' \<in> fst ` set m. (k::'k::linorder) < k' \<Longrightarrow> map_find m k = None"
  by (metis less_irrefl map_find_None_iff)

lemma map_wf_head_eq:
  assumes "map_wf ((k, v) # m)" and "map_wf ((l, w) # n)"
    and eq: "\<And>x. map_find ((k, v) # m) x = map_find ((l, w) # n) x"
  shows "k = l \<and> v = w"
proof -
  have "\<not> k < l"
  proof
    assume kl: "k < l"
    then have "map_find n k = None" using assms(2) by (intro map_find_above) auto
    then show False using eq [of k] kl by (auto split: if_splits)
  qed
  moreover have "\<not> l < k"
  proof
    assume lk: "l < k"
    then have "map_find m l = None" using assms(1) by (intro map_find_above) auto
    then show False using eq [of l] lk by (auto split: if_splits)
  qed
  ultimately have "k = l" by simp
  then show ?thesis using eq [of k] by simp
qed

lemma map_wf_ext:
  "map_wf m \<Longrightarrow> map_wf n \<Longrightarrow> (\<And>k. map_find m k = map_find n k) \<Longrightarrow> m = n"
proof (induction m arbitrary: n)
  case Nil
  show ?case
  proof (cases n)
    case (Cons kv n')
    with Nil.prems(3) [of "fst kv"] show ?thesis by (cases kv) simp
  qed simp
next
  case (Cons kv m)
  obtain k v where kv: "kv = (k, v)" by fastforce
  show ?case
  proof (cases n)
    case Nil
    then show ?thesis using Cons.prems(3) [of k] kv by simp
  next
    case (Cons lw n')
    obtain l w where lw: "lw = (l, w)" by fastforce
    have hd: "k = l \<and> v = w"
      using Cons.prems(1,2) Cons.prems(3) [unfolded kv \<open>n = lw # n'\<close> lw]
      unfolding kv \<open>n = lw # n'\<close> lw by (rule map_wf_head_eq)
    have "map_find m x = map_find n' x" for x
    proof (cases "x = k")
      case True
      then show ?thesis
        using Cons.prems(1,2) kv lw hd \<open>n = lw # n'\<close> by (simp add: map_find_above)
    next
      case False
      then show ?thesis using Cons.prems(3) [of x] kv lw hd \<open>n = lw # n'\<close> by simp
    qed
    then have "m = n'" using Cons.IH Cons.prems(1,2) kv lw \<open>n = lw # n'\<close> by simp
    then show ?thesis using hd kv lw \<open>n = lw # n'\<close> by simp
  qed
qed

interpretation stdmap: ordered_map "[]" map_find map_set map_erase map_keys map_wf
proof unfold_locales
  fix m n :: "('k::linorder, 'v) std_map" and k
  show "(k \<in> set (map_keys m)) = (map_find m k \<noteq> None)"
    by (simp add: map_keys_def map_find_None_iff)
  show "map_wf m \<Longrightarrow> sorted_wrt (<) (map_keys m)"
    by (simp add: map_keys_def map_wf_def)
qed (simp_all add: map_find_set map_find_erase map_wf_set map_wf_erase map_wf_ext)

lemmas std_map_simps = map_find_set map_find_erase map_wf_set map_wf_erase

text \<open>Reading a sorted sequence of pairs back, one \<open>operator[]\<close> at a time, rebuilds the map.\<close>

lemma map_set_above: "\<forall>k' \<in> fst ` set m. k' < k \<Longrightarrow> map_set k v m = m @ [(k, v)]"
  by (induction k v m rule: map_set.induct) auto

lemma foldl_map_set_sorted:
  "map_wf (m @ n) \<Longrightarrow> foldl (\<lambda>a (k, v). map_set k v a) m n = m @ n"
proof (induction n arbitrary: m)
  case Nil
  then show ?case by simp
next
  case (Cons kv n)
  obtain k v where kv: "kv = (k, v)" by fastforce
  have "\<forall>k' \<in> fst ` set m. k' < k"
    using Cons.prems kv by (auto simp: map_wf_def sorted_wrt_append)
  then have "foldl (\<lambda>a (k, v). map_set k v a) m (kv # n) =
      foldl (\<lambda>a (k, v). map_set k v a) (m @ [kv]) n"
    by (simp add: kv map_set_above)
  also have "\<dots> = (m @ [kv]) @ n" using Cons.prems by (intro Cons.IH) simp
  finally show ?case by simp
qed

end
