(* ===== verification/Date_Time.thy ===== *)
theory Date_Time
  imports Prelude
begin

text \<open>
  \<open>RpcDateTime\<close> (\<open>rpcvalue.h\<close>, \<open>rpcvalue.cpp\<close>): a time stamp and a time zone packed into
  one 64-bit word as the signed bit-fields \<open>tz : 7\<close> (quarters of an hour) and \<open>msec : 57\<close>.
  The record keeps the two fields; \<open>date_time_wf\<close> is what the widths of the fields
  guarantee.
\<close>

record date_time =
  dt_tz :: int
  dt_msec :: int

definition date_time_wf :: "date_time \<Rightarrow> bool" where
  "date_time_wf d \<longleftrightarrow> in_s 7 (dt_tz d) \<and> in_s 57 (dt_msec d)"

definition RpcDateTime_default :: date_time where
  "RpcDateTime_default = \<lparr>dt_tz = 0, dt_msec = 0\<rparr>"

definition RpcDateTime_msecsSinceEpoch :: "date_time \<Rightarrow> int" where
  "RpcDateTime_msecsSinceEpoch d = dt_msec d"

definition RpcDateTime_utcOffsetMin :: "date_time \<Rightarrow> int" where
  "RpcDateTime_utcOffsetMin d = dt_tz d * 15"

definition RpcDateTime_setMsecsSinceEpoch :: "int \<Rightarrow> date_time \<Rightarrow> date_time" where
  "RpcDateTime_setMsecsSinceEpoch msecs d = d\<lparr>dt_msec := s_wrap 57 msecs\<rparr>"

definition RpcDateTime_setUtcOffsetMin :: "int \<Rightarrow> date_time \<Rightarrow> date_time" where
  "RpcDateTime_setUtcOffsetMin utc_offset_min d =
     d\<lparr>dt_tz := s_wrap 7 ((utc_offset_min sdiv 15) AND 0x7F)\<rparr>"

definition RpcDateTime_fromMSecsSinceEpoch :: "int \<Rightarrow> int \<Rightarrow> date_time" where
  "RpcDateTime_fromMSecsSinceEpoch msecs utc_offset_min =
     RpcDateTime_setUtcOffsetMin utc_offset_min
       (RpcDateTime_setMsecsSinceEpoch msecs RpcDateTime_default)"

text \<open>The comparison operators look at the time stamp only.\<close>

definition RpcDateTime_eq :: "date_time \<Rightarrow> date_time \<Rightarrow> bool" where
  "RpcDateTime_eq a b \<longleftrightarrow> dt_msec a = dt_msec b"

definition RpcDateTime_less :: "date_time \<Rightarrow> date_time \<Rightarrow> bool" where
  "RpcDateTime_less a b \<longleftrightarrow> dt_msec a < dt_msec b"

definition RpcDateTime_greater_eq :: "date_time \<Rightarrow> date_time \<Rightarrow> bool" where
  "RpcDateTime_greater_eq a b \<longleftrightarrow> \<not> RpcDateTime_less a b"

definition RpcDateTime_greater :: "date_time \<Rightarrow> date_time \<Rightarrow> bool" where
  "RpcDateTime_greater a b \<longleftrightarrow> dt_msec a > dt_msec b"

definition RpcDateTime_less_eq :: "date_time \<Rightarrow> date_time \<Rightarrow> bool" where
  "RpcDateTime_less_eq a b \<longleftrightarrow> \<not> RpcDateTime_greater a b"

section \<open>The bit-fields\<close>

lemma s_wrap7_and_127: "s_wrap 7 (x AND 0x7F) = s_wrap 7 x"
proof -
  have "x AND 0x7F = take_bit 7 x"
    by (simp add: take_bit_eq_mask mask_eq_exp_minus_1 and.commute)
  moreover have "signed_take_bit 6 (take_bit 7 x) = signed_take_bit 6 x"
    by (rule bit_eqI) (auto simp: bit_signed_take_bit_iff bit_take_bit_iff min_def)
  ultimately show ?thesis by (simp add: s_wrap_def)
qed

lemma sdiv_15_mult: "(t * 15) sdiv 15 = (t::int)"
  by (simp add: signed_divide_int_def abs_mult sgn_mult sgn_mult_abs)

lemma setUtcOffsetMin_tz:
  "dt_tz (RpcDateTime_setUtcOffsetMin m d) = s_wrap 7 (m sdiv 15)"
  by (simp add: RpcDateTime_setUtcOffsetMin_def s_wrap7_and_127)

lemma fromMSecsSinceEpoch_fields [access_simps]:
  "dt_msec (RpcDateTime_fromMSecsSinceEpoch ms m) = s_wrap 57 ms"
  "dt_tz (RpcDateTime_fromMSecsSinceEpoch ms m) = s_wrap 7 (m sdiv 15)"
  by (simp_all add: RpcDateTime_fromMSecsSinceEpoch_def setUtcOffsetMin_tz)
     (simp add: RpcDateTime_setUtcOffsetMin_def RpcDateTime_setMsecsSinceEpoch_def)

lemma date_time_wf_setters:
  "date_time_wf RpcDateTime_default"
  "date_time_wf d \<Longrightarrow> date_time_wf (RpcDateTime_setMsecsSinceEpoch ms d)"
  "date_time_wf d \<Longrightarrow> date_time_wf (RpcDateTime_setUtcOffsetMin m d)"
  "date_time_wf (RpcDateTime_fromMSecsSinceEpoch ms m)"
  by (simp_all add: date_time_wf_def RpcDateTime_default_def RpcDateTime_setMsecsSinceEpoch_def
      RpcDateTime_setUtcOffsetMin_def access_simps)

text \<open>Rebuilding a date-time from the two values it reports gives it back.\<close>

lemma fromMSecsSinceEpoch_readback:
  "date_time_wf d \<Longrightarrow>
   RpcDateTime_fromMSecsSinceEpoch (RpcDateTime_msecsSinceEpoch d) (RpcDateTime_utcOffsetMin d) = d"
  by (rule date_time.equality)
     (simp_all add: access_simps RpcDateTime_msecsSinceEpoch_def RpcDateTime_utcOffsetMin_def
        sdiv_15_mult date_time_wf_def s_wrap_id)

end
