(* ===== verification/Ieee_Double.thy ===== *)
theory Ieee_Double
  imports Prelude
begin

text \<open>
  The C++ type \<open>double\<close> as IEEE 754 binary64: a value is its 64 bits.  Modelled is what the
  library computes with doubles: conversion from integers, multiplication and division by a
  small integer (each one correctly rounded to nearest, ties to even), comparison, truncation
  and \<open>std::lround\<close>.  A finite double is an integer multiple of \<open>2 ^ -1074\<close>;
  \<open>dbl_units\<close> is that integer, so all of the above is exact integer arithmetic.
\<close>

type_synonym double = "64 word"

definition dbl_neg :: "double \<Rightarrow> bool" where
  "dbl_neg d = bit d 63"

definition dbl_exp :: "double \<Rightarrow> nat" where
  "dbl_exp d = (unat d div 2 ^ 52) mod 2 ^ 11"

definition dbl_frac :: "double \<Rightarrow> nat" where
  "dbl_frac d = unat d mod 2 ^ 52"

definition dbl_isnan :: "double \<Rightarrow> bool" where
  "dbl_isnan d \<longleftrightarrow> dbl_exp d = 2047 \<and> dbl_frac d \<noteq> 0"

definition dbl_isinf :: "double \<Rightarrow> bool" where
  "dbl_isinf d \<longleftrightarrow> dbl_exp d = 2047 \<and> dbl_frac d = 0"

definition dbl_finite :: "double \<Rightarrow> bool" where
  "dbl_finite d \<longleftrightarrow> dbl_exp d < 2047"

text \<open>The magnitude of a finite double in units of \<open>2 ^ -1074\<close>.\<close>

definition dbl_mag :: "double \<Rightarrow> nat" where
  "dbl_mag d = (if dbl_exp d = 0 then dbl_frac d else (2 ^ 52 + dbl_frac d) * 2 ^ (dbl_exp d - 1))"

definition dbl_units :: "double \<Rightarrow> int" where
  "dbl_units d = (if dbl_neg d then - int (dbl_mag d) else int (dbl_mag d))"

section \<open>Encoding and rounding\<close>

definition dbl_make :: "bool \<Rightarrow> nat \<Rightarrow> nat \<Rightarrow> double" where
  "dbl_make neg ex frac = word_of_nat ((if neg then 2 ^ 63 else 0) + ex * 2 ^ 52 + frac)"

definition dbl_inf :: "bool \<Rightarrow> double" where
  "dbl_inf neg = dbl_make neg 2047 0"

fun bit_length :: "nat \<Rightarrow> nat" where
  "bit_length n = (if n = 0 then 0 else Suc (bit_length (n div 2)))"

declare bit_length.simps [simp del]

text \<open>
  \<open>dbl_encode neg q x\<close> is \<open>q * 2 ^ x\<close> units, for \<open>q \<le> 2 ^ 53\<close> (and \<open>q \<ge> 2 ^ 52\<close> unless
  \<open>x = 0\<close>); a \<open>q\<close> that rounding carried to \<open>2 ^ 53\<close> moves to the next binade.
\<close>

definition dbl_encode :: "bool \<Rightarrow> nat \<Rightarrow> nat \<Rightarrow> double" where
  "dbl_encode neg q x =
     (let (q', x') = (if q = 2 ^ 53 then (2 ^ 52, Suc x) else (q, x))
      in if q' < 2 ^ 52 then dbl_make neg 0 q'
         else if 2046 \<le> x' then dbl_inf neg
         else dbl_make neg (Suc x') (q' - 2 ^ 52))"

definition round_half_even :: "nat \<Rightarrow> nat \<Rightarrow> nat" where
  "round_half_even n d =
     (let q = n div d; r = n mod d
      in if 2 * r < d then q else if d < 2 * r then Suc q else if even q then q else Suc q)"

text \<open>The double nearest to \<open>n / d\<close> units.\<close>

definition dbl_round :: "bool \<Rightarrow> nat \<Rightarrow> nat \<Rightarrow> double" where
  "dbl_round neg n d =
     (let x = bit_length (n div d) - 53
      in dbl_encode neg (round_half_even n (d * 2 ^ x)) x)"

section \<open>Operations\<close>

definition dbl_of_int :: "int \<Rightarrow> double" where
  "dbl_of_int i = dbl_round (i < 0) (nat \<bar>i\<bar> * 2 ^ 1074) 1"

definition dbl_mul_int :: "double \<Rightarrow> nat \<Rightarrow> double" where
  "dbl_mul_int d k = (if dbl_finite d then dbl_round (dbl_neg d) (dbl_mag d * k) 1 else d)"

definition dbl_div_int :: "double \<Rightarrow> nat \<Rightarrow> double" where
  "dbl_div_int d k = (if dbl_finite d then dbl_round (dbl_neg d) (dbl_mag d) k else d)"

definition dbl_lt :: "double \<Rightarrow> double \<Rightarrow> bool" where
  "dbl_lt a b \<longleftrightarrow> \<not> dbl_isnan a \<and> \<not> dbl_isnan b \<and>
     (if dbl_isinf a then dbl_neg a \<and> \<not> (dbl_isinf b \<and> dbl_neg b)
      else if dbl_isinf b then \<not> dbl_neg b
      else dbl_units a < dbl_units b)"

definition dbl_eq :: "double \<Rightarrow> double \<Rightarrow> bool" where
  "dbl_eq a b \<longleftrightarrow> \<not> dbl_isnan a \<and> \<not> dbl_isnan b \<and>
     (if dbl_isinf a \<or> dbl_isinf b then a = b else dbl_units a = dbl_units b)"

definition dbl_le :: "double \<Rightarrow> double \<Rightarrow> bool" where
  "dbl_le a b \<longleftrightarrow> dbl_lt a b \<or> dbl_eq a b"

text \<open>\<open>static_cast\<close> of a finite double to an integer type: truncation towards zero.\<close>

definition dbl_trunc :: "double \<Rightarrow> int" where
  "dbl_trunc d = (if dbl_neg d then - int (dbl_mag d div 2 ^ 1074) else int (dbl_mag d div 2 ^ 1074))"

text \<open>\<open>std::lround\<close>: halfway cases away from zero; no value where the result has no \<open>long\<close>.\<close>

definition dbl_lround :: "double \<Rightarrow> int option" where
  "dbl_lround d =
     (let a = int ((2 * dbl_mag d + 2 ^ 1074) div (2 * 2 ^ 1074)); r = (if dbl_neg d then - a else a)
      in if dbl_finite d \<and> in_s 64 r then Some r else None)"

section \<open>Facts\<close>

lemma bit_length_0 [simp]: "bit_length 0 = 0"
  by (subst bit_length.simps) simp

lemma bit_length_bounds: "0 < n \<Longrightarrow> 2 ^ (bit_length n - 1) \<le> n \<and> n < 2 ^ bit_length n"
proof (induction n rule: bit_length.induct)
  case (1 n)
  show ?case
  proof (cases "n div 2 = 0")
    case True
    with "1.prems" have "n = 1" by simp
    then show ?thesis by (simp add: bit_length.simps)
  next
    case False
    then have IH: "2 ^ (bit_length (n div 2) - 1) \<le> n div 2 \<and> n div 2 < 2 ^ bit_length (n div 2)"
      using "1.IH" "1.prems" by simp
    have len: "bit_length n = Suc (bit_length (n div 2))"
      using "1.prems" by (subst bit_length.simps) simp
    have pos: "0 < bit_length (n div 2)" using False by (subst bit_length.simps) simp
    then have "(2::nat) ^ bit_length (n div 2) = 2 * 2 ^ (bit_length (n div 2) - 1)"
      by (cases "bit_length (n div 2)") simp_all
    then show ?thesis using IH unfolding len by (simp, linarith)
  qed
qed

lemma bit_length_mult_power: "0 < n \<Longrightarrow> bit_length (n * 2 ^ k) = bit_length n + k"
proof (induction k)
  case 0
  then show ?case by simp
next
  case (Suc k)
  have "bit_length (n * 2 ^ Suc k) = Suc (bit_length (n * 2 ^ Suc k div 2))"
    using Suc.prems by (subst bit_length.simps) simp
  also have "n * 2 ^ Suc k div 2 = n * 2 ^ k" by simp
  finally show ?case using Suc by simp
qed

lemma bit_length_le: "n < 2 ^ k \<Longrightarrow> bit_length n \<le> k"
proof (cases "n = 0")
  case False
  assume "n < 2 ^ k"
  with False bit_length_bounds [of n] have "(2::nat) ^ (bit_length n - 1) < 2 ^ k" by linarith
  then have "bit_length n - 1 < k" by (simp add: power_strict_increasing_iff)
  then show ?thesis by linarith
qed simp

lemma len64: "LENGTH(64) = 64"
  by simp

lemma unat_dbl_make:
  assumes "ex < 2048" and "frac < 2 ^ 52"
  shows "unat (dbl_make neg ex frac) = (if neg then 2 ^ 63 else 0) + ex * 2 ^ 52 + frac"
proof -
  have "ex * 2 ^ 52 + frac < 2 ^ 63"
  proof -
    have "ex * 2 ^ 52 \<le> 2047 * (2::nat) ^ 52" using assms(1) by (intro mult_right_mono) auto
    then show ?thesis using assms(2) by simp
  qed
  then have "(if neg then 2 ^ 63 else 0) + ex * 2 ^ 52 + frac < (2::nat) ^ 64" by auto
  then show ?thesis
    unfolding dbl_make_def by (simp only: unsigned_of_nat of_nat_id len64 take_bit_nat_eq_self)
qed

lemma dbl_fields_make:
  assumes "ex < 2048" and "frac < 2 ^ 52"
  shows "dbl_exp (dbl_make neg ex frac) = ex" and "dbl_frac (dbl_make neg ex frac) = frac"
    and "dbl_neg (dbl_make neg ex frac) = neg"
proof -
  have u: "unat (dbl_make neg ex frac) = (if neg then 2048 else 0) * 2 ^ 52 + (ex * 2 ^ 52 + frac)"
    using unat_dbl_make [OF assms, of neg] by simp
  then have d: "unat (dbl_make neg ex frac) div 2 ^ 52 = (if neg then 2048 else 0) + ex"
    using assms(2) by simp
  show "dbl_exp (dbl_make neg ex frac) = ex" using d assms(1) by (simp add: dbl_exp_def)
  show "dbl_frac (dbl_make neg ex frac) = frac" using u assms(2) by (simp add: dbl_frac_def)
  have "bit (unat (dbl_make neg ex frac)) 63 \<longleftrightarrow> odd (unat (dbl_make neg ex frac) div 2 ^ 52 div 2 ^ 11)"
    by (simp add: bit_nat_iff bit_iff_odd div_mult2_eq [symmetric])
  also have "\<dots> \<longleftrightarrow> neg"
  proof -
    have "(2048 + ex) div 2048 = 1" using assms(1) by (intro div_nat_eqI) auto
    then show ?thesis unfolding d using assms(1) by (cases neg) auto
  qed
  finally show "dbl_neg (dbl_make neg ex frac) = neg"
    by (simp add: dbl_neg_def bit_unsigned_iff)
qed

lemma dbl_make_units:
  assumes "ex < 2047" and "frac < 2 ^ 52"
  shows "dbl_finite (dbl_make neg ex frac)"
    and "dbl_mag (dbl_make neg ex frac) =
       (if ex = 0 then frac else (2 ^ 52 + frac) * 2 ^ (ex - 1))"
    and "dbl_neg (dbl_make neg ex frac) = neg"
proof -
  have "ex < 2048" using assms(1) by simp
  note fields = dbl_fields_make [OF this assms(2), of neg]
  show "dbl_finite (dbl_make neg ex frac)" using fields(1) assms(1) by (simp add: dbl_finite_def)
  show "dbl_mag (dbl_make neg ex frac) =
       (if ex = 0 then frac else (2 ^ 52 + frac) * 2 ^ (ex - 1))"
    by (simp only: dbl_mag_def fields)
  show "dbl_neg (dbl_make neg ex frac) = neg" by (rule fields(3))
qed

text \<open>A magnitude that has at most 53 significant bits is represented exactly.\<close>

lemma dbl_encode_exact:
  assumes "q < 2 ^ 53" and "x = 0 \<or> 2 ^ 52 \<le> q" and "x < 2046"
  shows "dbl_finite (dbl_encode neg q x) \<and> dbl_mag (dbl_encode neg q x) = q * 2 ^ x \<and>
    dbl_neg (dbl_encode neg q x) = neg"
proof (cases "q < 2 ^ 52")
  case True
  with assms have enc: "dbl_encode neg q x = dbl_make neg 0 q" and "x = 0"
    by (auto simp: dbl_encode_def)
  show ?thesis using dbl_make_units [of 0 q neg] True enc \<open>x = 0\<close> by simp
next
  case False
  with assms have enc: "dbl_encode neg q x = dbl_make neg (Suc x) (q - 2 ^ 52)"
    by (auto simp: dbl_encode_def)
  have frac: "q - 2 ^ 52 < 2 ^ 52" using assms(1) by simp
  have "2 ^ 52 + (q - 2 ^ 52) = q" using False by simp
  then show ?thesis
    using dbl_make_units [of "Suc x" "q - 2 ^ 52" neg] frac assms(3) enc by simp
qed

lemma dbl_round_exact:
  assumes n: "n = q * 2 ^ x" and "q < 2 ^ 53" and "x = 0 \<or> 2 ^ 52 \<le> q" and "x < 2046"
  shows "dbl_finite (dbl_round neg n 1) \<and> dbl_mag (dbl_round neg n 1) = n \<and>
    dbl_neg (dbl_round neg n 1) = neg"
proof -
  have "bit_length n - 53 = x"
  proof (cases "2 ^ 52 \<le> q")
    case True
    then have "\<not> bit_length q \<le> 52"
      using bit_length_bounds [of q] power_increasing [of "bit_length q" 52 "2::nat"] by auto
    moreover have "bit_length q \<le> 53" using assms(2) by (rule bit_length_le)
    ultimately have "bit_length q = 53" by simp
    then show ?thesis using True n by (simp add: bit_length_mult_power)
  next
    case False
    then have "bit_length q \<le> 52" by (intro bit_length_le) simp
    then show ?thesis using False assms(3) n by simp
  qed
  moreover have "round_half_even n (2 ^ x) = q"
    by (simp add: round_half_even_def n Let_def)
  ultimately have "dbl_round neg n 1 = dbl_encode neg q x" by (simp add: dbl_round_def Let_def)
  then show ?thesis using dbl_encode_exact [OF assms(2-4), of neg] n by simp
qed

text \<open>\<open>static_cast<double>\<close> of an integer below \<open>2 ^ 53\<close> in magnitude is exact.\<close>

lemma normalise_53:
  fixes m :: nat
  assumes "0 < m" and "m < 2 ^ 53"
  obtains q x where "m * 2 ^ 1074 = q * 2 ^ x" "q < 2 ^ 53" "2 ^ 52 \<le> q" "x \<le> 1074" "1021 < x"
proof
  let ?l = "bit_length m"
  have l: "0 < ?l" "?l \<le> 53"
    using assms bit_length_le [of m 53] bit_length.simps [of m] by auto
  have b: "2 ^ (?l - 1) \<le> m" "m < 2 ^ ?l" using bit_length_bounds [OF assms(1)] by auto
  show "m * 2 ^ 1074 = (m * 2 ^ (53 - ?l)) * 2 ^ (1021 + ?l)"
    using l by (simp add: mult.assoc power_add [symmetric] del: power_Suc)
  have "m * 2 ^ (53 - ?l) < 2 ^ ?l * 2 ^ (53 - ?l)" using b(2) by simp
  also have "\<dots> = 2 ^ 53" using l by (simp add: power_add [symmetric] del: power_Suc)
  finally show "m * 2 ^ (53 - ?l) < 2 ^ 53" .
  have "(2::nat) ^ 52 = 2 ^ (?l - 1) * 2 ^ (53 - ?l)"
    using l by (simp add: power_add [symmetric] del: power_Suc)
  also have "\<dots> \<le> m * 2 ^ (53 - ?l)" using b(1) by simp
  finally show "2 ^ 52 \<le> m * 2 ^ (53 - ?l)" .
  show "1021 + ?l \<le> 1074" "1021 < 1021 + ?l" using l by auto
qed

lemma dbl_of_int_exact:
  assumes "\<bar>i\<bar> < 2 ^ 53"
  shows "dbl_finite (dbl_of_int i) \<and> dbl_units (dbl_of_int i) = i * 2 ^ 1074"
proof (cases "i = 0")
  case True
  have "dbl_round False 0 1 = dbl_encode False 0 0"
    by (simp add: dbl_round_def round_half_even_def)
  then show ?thesis
    using dbl_encode_exact [of 0 0 False] True by (simp add: dbl_of_int_def dbl_units_def)
next
  case False
  then have "0 < nat \<bar>i\<bar>" and "nat \<bar>i\<bar> < 2 ^ 53" using assms by auto
  then obtain q x where qx: "nat \<bar>i\<bar> * 2 ^ 1074 = q * 2 ^ x" "q < 2 ^ 53" "2 ^ 52 \<le> q"
      "x \<le> 1074" "1021 < x"
    by (rule normalise_53)
  have "dbl_finite (dbl_of_int i) \<and> dbl_mag (dbl_of_int i) = nat \<bar>i\<bar> * 2 ^ 1074 \<and>
      dbl_neg (dbl_of_int i) = (i < 0)"
    unfolding dbl_of_int_def using qx by (intro dbl_round_exact [of _ q x]) auto
  then show ?thesis by (auto simp: dbl_units_def)
qed

lemma dbl_trunc_of_int: "\<bar>i\<bar> < 2 ^ 53 \<Longrightarrow> dbl_trunc (dbl_of_int i) = i"
proof -
  assume "\<bar>i\<bar> < 2 ^ 53"
  then have u: "dbl_units (dbl_of_int i) = i * 2 ^ 1074" using dbl_of_int_exact by blast
  have mag: "int (dbl_mag (dbl_of_int i)) = \<bar>i\<bar> * 2 ^ 1074"
  proof -
    have "\<bar>dbl_units (dbl_of_int i)\<bar> = int (dbl_mag (dbl_of_int i))" by (simp add: dbl_units_def)
    then show ?thesis using u by (simp add: abs_mult)
  qed
  then have q: "int (dbl_mag (dbl_of_int i) div 2 ^ 1074) = \<bar>i\<bar>"
    by (simp add: zdiv_int)
  have "dbl_neg (dbl_of_int i) \<Longrightarrow> i \<le> 0" "\<not> dbl_neg (dbl_of_int i) \<Longrightarrow> 0 \<le> i"
    using u mag by (auto simp: dbl_units_def abs_if split: if_splits)
  then show ?thesis using q by (auto simp: dbl_trunc_def)
qed

lemma dbl_eq_of_int:
  "\<bar>i\<bar> < 2 ^ 53 \<Longrightarrow> \<bar>j\<bar> < 2 ^ 53 \<Longrightarrow> dbl_eq (dbl_of_int i) (dbl_of_int j) \<longleftrightarrow> i = j"
  using dbl_of_int_exact [of i] dbl_of_int_exact [of j]
  by (simp add: dbl_eq_def dbl_isnan_def dbl_isinf_def dbl_finite_def)

lemma dbl_lt_of_int:
  "\<bar>i\<bar> < 2 ^ 53 \<Longrightarrow> \<bar>j\<bar> < 2 ^ 53 \<Longrightarrow> dbl_lt (dbl_of_int i) (dbl_of_int j) \<longleftrightarrow> i < j"
  using dbl_of_int_exact [of i] dbl_of_int_exact [of j]
  by (simp add: dbl_lt_def dbl_isnan_def dbl_isinf_def dbl_finite_def)

end
