(* ===== verification/Rpc_Decimal.thy ===== *)
theory Rpc_Decimal
  imports Complex_Main Ieee_Double
begin

text \<open>
  \<open>RpcDecimal\<close> (\<open>rpcvalue.h\<close>, \<open>rpcvalue.cpp\<close>): a decimal number \<open>mantissa * 10 ^ exponent\<close>
  with a 64-bit mantissa and an exponent of 32 bits, whose sums and differences wrap around.  \<open>dec_value\<close> is the
  number it stands for; the lemmas relate normalisation, rescaling and the three-way comparison to it.
\<close>

record decimal =
  dec_mantissa :: int
  dec_exponent :: int

datatype strong_ordering = Less | Equal | Greater

definition decimal_wf :: "decimal \<Rightarrow> bool" where
  "decimal_wf d \<longleftrightarrow> in_s 64 (dec_mantissa d) \<and> in_s 32 (dec_exponent d)"

definition dec_value :: "decimal \<Rightarrow> rat" where
  "dec_value d = of_int (dec_mantissa d) * 10 powi dec_exponent d"

definition safeMul :: "int \<Rightarrow> int \<Rightarrow> int option" where
  "safeMul a b = (if in_s 64 (a * b) then Some (a * b) else None)"

definition pow10 :: "int \<Rightarrow> int option" where
  "pow10 n =
     (if n = 0 then Some 1
      else if n = 1 then Some 10
      else if n = 2 then Some 100
      else if n = 3 then Some 1000
      else if n = 4 then Some 10000
      else if n = 5 then Some 100000
      else if n = 6 then Some 1000000
      else if n = 7 then Some 10000000
      else if n = 8 then Some 100000000
      else None)"

text \<open>\<open>RpcDecimal()\<close> leaves \<open>m_num\<close> to \<open>Num()\<close>, which sets the exponent to -1.\<close>

definition RpcDecimal_default :: decimal where
  "RpcDecimal_default = \<lparr>dec_mantissa = 0, dec_exponent = -1\<rparr>"

definition RpcDecimal_of_places :: "int \<Rightarrow> decimal" where
  "RpcDecimal_of_places dec_places = \<lparr>dec_mantissa = 0, dec_exponent = s_wrap 32 (- dec_places)\<rparr>"

function normalize_loop :: "int \<Rightarrow> int \<Rightarrow> int \<times> int" where
  "normalize_loop m e =
     (if m \<noteq> 0 \<and> m smod 10 = 0 then normalize_loop (m sdiv 10) (s_wrap 32 (e + 1)) else (m, e))"
  by pat_completeness auto
termination
proof (relation "measure (\<lambda>(m, e). nat \<bar>m\<bar>)")
  fix m e :: int
  assume "m \<noteq> 0 \<and> m smod 10 = 0"
  then have "\<bar>m sdiv 10\<bar> < \<bar>m\<bar>"
    by (auto simp: signed_divide_int_def abs_mult abs_sgn_eq)
  then show "((m sdiv 10, s_wrap 32 (e + 1)), (m, e)) \<in> measure (\<lambda>(m, e). nat \<bar>m\<bar>)" by simp
qed simp

declare normalize_loop.simps [simp del]

definition RpcDecimal_normalize :: "decimal \<Rightarrow> decimal" where
  "RpcDecimal_normalize d =
     (if dec_mantissa d = 0 then \<lparr>dec_mantissa = 0, dec_exponent = 0\<rparr>
      else (let (m, e) = normalize_loop (dec_mantissa d) (dec_exponent d)
            in \<lparr>dec_mantissa = m, dec_exponent = e\<rparr>))"

fun div10_loop :: "nat \<Rightarrow> int \<Rightarrow> int" where
  "div10_loop 0 m = m"
| "div10_loop (Suc n) m = div10_loop n (m sdiv 10)"

definition RpcDecimal_setDecPlaces :: "int \<Rightarrow> decimal \<Rightarrow> decimal" where
  "RpcDecimal_setDecPlaces dec_places d =
     (let target_exp = s_wrap 32 (- dec_places)
      in if dec_exponent d > target_exp then
           (case pow10 (s_wrap 32 (dec_exponent d - target_exp)) of
              None \<Rightarrow> d
            | Some mul \<Rightarrow>
                (case safeMul (dec_mantissa d) mul of
                   None \<Rightarrow> d
                 | Some scaled \<Rightarrow> d\<lparr>dec_mantissa := scaled, dec_exponent := target_exp\<rparr>))
         else if dec_exponent d < target_exp then
           d\<lparr>dec_mantissa := div10_loop (nat (s_wrap 32 (target_exp - dec_exponent d))) (dec_mantissa d),
             dec_exponent := target_exp\<rparr>
         else d)"

fun mul10_times :: "nat \<Rightarrow> double \<Rightarrow> double" where
  "mul10_times 0 r = r"
| "mul10_times (Suc n) r = mul10_times n (dbl_mul_int r 10)"

fun div10_times :: "nat \<Rightarrow> double \<Rightarrow> double" where
  "div10_times 0 r = r"
| "div10_times (Suc n) r = div10_times n (dbl_div_int r 10)"

definition RpcDecimal_toDouble :: "decimal \<Rightarrow> double" where
  "RpcDecimal_toDouble d =
     (let ret = dbl_of_int (dec_mantissa d); ex = dec_exponent d
      in if ex > 0 then mul10_times (nat ex) ret else div10_times (nat (- ex)) ret)"

text \<open>\<open>None\<close>: \<open>std::lround\<close> has no representable result.\<close>

definition RpcDecimal_fromDouble :: "double \<Rightarrow> int \<Rightarrow> decimal option" where
  "RpcDecimal_fromDouble d round_to_dec_places =
     (let ex = s_wrap 32 (- round_to_dec_places);
          d' = (if round_to_dec_places > 0 then mul10_times (nat round_to_dec_places) d
                else div10_times (nat (- round_to_dec_places)) d)
      in map_option (\<lambda>m. \<lparr>dec_mantissa = m, dec_exponent = ex\<rparr>) (dbl_lround d'))"

definition RpcDecimal_setDouble :: "double \<Rightarrow> decimal \<Rightarrow> decimal option" where
  "RpcDecimal_setDouble x d =
     map_option (\<lambda>dc. d\<lparr>dec_mantissa := dec_mantissa dc\<rparr>)
       (RpcDecimal_fromDouble x (s_wrap 32 (- dec_exponent d)))"

definition compare_int :: "int \<Rightarrow> int \<Rightarrow> strong_ordering" where
  "compare_int a b = (if a < b then Less else if a = b then Equal else Greater)"

definition compare_double :: "decimal \<Rightarrow> decimal \<Rightarrow> strong_ordering" where
  "compare_double a b =
     (let da = RpcDecimal_toDouble a; db = RpcDecimal_toDouble b
      in if dbl_lt da db then Less else if dbl_lt db da then Greater else Equal)"

definition RpcDecimal_compare :: "decimal \<Rightarrow> decimal \<Rightarrow> strong_ordering" where
  "RpcDecimal_compare x y =
     (let a = RpcDecimal_normalize x; b = RpcDecimal_normalize y
      in if dec_exponent a = dec_exponent b then compare_int (dec_mantissa a) (dec_mantissa b)
         else
           (let scale_a = dec_exponent a > dec_exponent b;
                to_scale = (if scale_a then a else b);
                exponent_diff = s_wrap 32 \<bar>s_wrap 32 (dec_exponent a - dec_exponent b)\<bar>
            in case pow10 exponent_diff of
                 None \<Rightarrow> compare_double a b
               | Some multiply_by \<Rightarrow>
                   (case safeMul (dec_mantissa to_scale) multiply_by of
                      None \<Rightarrow> compare_double a b
                    | Some scaled \<Rightarrow>
                        (if scale_a then compare_int scaled (dec_mantissa b)
                         else compare_int (dec_mantissa a) scaled))))"

definition RpcDecimal_eq :: "decimal \<Rightarrow> decimal \<Rightarrow> bool" where
  "RpcDecimal_eq a b \<longleftrightarrow> RpcDecimal_compare a b = Equal"

section \<open>Normalisation\<close>

lemma smod_10_eq_0_iff: "(m::int) smod 10 = 0 \<longleftrightarrow> 10 dvd m"
  by (auto simp: signed_modulo_int_def signed_divide_int_def abs_if sgn_if)

lemma sdiv_10_exact: "10 dvd m \<Longrightarrow> 10 * (m sdiv 10) = (m::int)"
  by (auto simp: signed_divide_int_def sgn_if abs_if)

lemma normalize_loop_step:
  "m \<noteq> 0 \<Longrightarrow> 10 dvd m \<Longrightarrow> normalize_loop m e = normalize_loop (m sdiv 10) (s_wrap 32 (e + 1))"
  "\<not> (m \<noteq> 0 \<and> 10 dvd m) \<Longrightarrow> normalize_loop m e = (m, e)"
  using normalize_loop.simps [of m e] by (simp_all only: smod_10_eq_0_iff if_True if_False simp_thms)

lemma normalize_loop_mantissa:
  "normalize_loop m e = (m', e') \<Longrightarrow> \<bar>m'\<bar> \<le> \<bar>m\<bar> \<and> (m \<noteq> 0 \<longrightarrow> m' \<noteq> 0 \<and> \<not> 10 dvd m')"
proof (induction m e rule: normalize_loop.induct)
  case (1 m e)
  show ?case
  proof (cases "m \<noteq> 0 \<and> 10 dvd m")
    case True
    define k where "k = m sdiv 10"
    have m: "m = 10 * k" using True sdiv_10_exact [of m] by (simp add: k_def)
    have "normalize_loop k (s_wrap 32 (e + 1)) = (m', e')"
      using "1.prems" normalize_loop_step(1) [of m e] True by (simp add: k_def)
    with "1.IH" True have "\<bar>m'\<bar> \<le> \<bar>k\<bar>" "k \<noteq> 0 \<longrightarrow> m' \<noteq> 0 \<and> \<not> 10 dvd m'"
      unfolding k_def by (simp_all add: smod_10_eq_0_iff)
    then show ?thesis using True m by auto
  qed (use "1.prems" normalize_loop_step(2) [of m e] in auto)
qed

text \<open>The exponent grows by one for each zero at the end of the mantissa; it must have room for them.\<close>

lemma normalize_loop_value:
  "normalize_loop m e = (m', e') \<Longrightarrow> \<bar>m\<bar> < 10 ^ n \<Longrightarrow> in_s 32 e \<Longrightarrow> e + int n \<le> 2 ^ 31 \<Longrightarrow>
   (of_int m' :: rat) * 10 powi e' = of_int m * 10 powi e"
proof (induction n arbitrary: m e)
  case 0
  then show ?case using normalize_loop_step(2) [of m e] by simp
next
  case (Suc n)
  show ?case
  proof (cases "m \<noteq> 0 \<and> 10 dvd m")
    case True
    define k where "k = m sdiv 10"
    have m: "m = 10 * k" using True sdiv_10_exact [of m] by (simp add: k_def)
    then have "n \<noteq> 0" using Suc.prems(2) True by (intro notI) auto
    then have e: "in_s 32 (e + 1)" using Suc.prems(3,4) by (simp add: in_s_def)
    have "normalize_loop k (e + 1) = (m', e')"
      using Suc.prems(1) normalize_loop_step(1) [of m e] True s_wrap_id [OF e] by (simp add: k_def)
    then have "(of_int m' :: rat) * 10 powi e' = of_int k * 10 powi (e + 1)"
      by (rule Suc.IH [OF _ _ e]) (use Suc.prems(2,4) m in auto)
    also have "\<dots> = of_int m * 10 powi e" unfolding m by (simp add: power_int_add)
    finally show ?thesis .
  qed (use Suc.prems normalize_loop_step(2) [of m e] in auto)
qed

text \<open>A mantissa of 64 bits ends with 18 zeros at most.\<close>

definition exponent_room :: "decimal \<Rightarrow> bool" where
  "exponent_room d \<longleftrightarrow> decimal_wf d \<and> dec_exponent d + 18 < 2 ^ 31"

lemma normalize_value:
  assumes "exponent_room d"
  shows "dec_value (RpcDecimal_normalize d) = dec_value d"
proof (cases "dec_mantissa d = 0")
  case True
  then show ?thesis by (simp add: RpcDecimal_normalize_def dec_value_def)
next
  case False
  obtain m e where me: "normalize_loop (dec_mantissa d) (dec_exponent d) = (m, e)" by fastforce
  moreover have "\<bar>dec_mantissa d\<bar> < 10 ^ 19" "in_s 32 (dec_exponent d)" "dec_exponent d + int 19 \<le> 2 ^ 31"
    using assms by (auto simp: exponent_room_def decimal_wf_def in_s_def)
  ultimately have "(of_int m :: rat) * 10 powi e = of_int (dec_mantissa d) * 10 powi dec_exponent d"
    by (rule normalize_loop_value)
  then show ?thesis using False me by (simp add: RpcDecimal_normalize_def dec_value_def)
qed

lemma normalize_canonical:
  "dec_mantissa (RpcDecimal_normalize d) = 0 \<and> dec_exponent (RpcDecimal_normalize d) = 0 \<or>
   dec_mantissa (RpcDecimal_normalize d) \<noteq> 0 \<and> \<not> 10 dvd dec_mantissa (RpcDecimal_normalize d)"
  using normalize_loop_mantissa [of "dec_mantissa d" "dec_exponent d"]
  by (auto simp: RpcDecimal_normalize_def split: prod.splits)

lemma normalize_mantissa_in_range: "\<bar>dec_mantissa (RpcDecimal_normalize d)\<bar> \<le> \<bar>dec_mantissa d\<bar>"
  using normalize_loop_mantissa [of "dec_mantissa d" "dec_exponent d"]
  by (auto simp: RpcDecimal_normalize_def split: prod.splits)

section \<open>Comparison\<close>

lemma pow10_Some: "pow10 n = Some p \<Longrightarrow> 0 \<le> n \<and> n \<le> 8 \<and> p = 10 ^ nat n"
  by (auto simp: pow10_def split: if_splits)

lemma pow10_ex: "0 \<le> n \<Longrightarrow> n \<le> 8 \<Longrightarrow> pow10 n = Some (10 ^ nat n)"
proof -
  assume "0 \<le> n" "n \<le> 8"
  then have "n \<in> {0, 1, 2, 3, 4, 5, 6, 7, 8}" by auto
  then show ?thesis by (auto simp: pow10_def)
qed

text \<open>
  The comparison is exact when the exponents of the normalised operands are equal, or are at
  most 8 apart and the scaled mantissa fits 64 bits.
\<close>

definition exactly_comparable :: "decimal \<Rightarrow> decimal \<Rightarrow> bool" where
  "exactly_comparable x y \<longleftrightarrow>
     (let a = RpcDecimal_normalize x; b = RpcDecimal_normalize y; diff = dec_exponent a - dec_exponent b
      in \<bar>diff\<bar> \<le> 8 \<and>
         (diff > 0 \<longrightarrow> in_s 64 (dec_mantissa a * 10 ^ nat diff)) \<and>
         (diff < 0 \<longrightarrow> in_s 64 (dec_mantissa b * 10 ^ nat (- diff))))"

definition compare_rat :: "rat \<Rightarrow> rat \<Rightarrow> strong_ordering" where
  "compare_rat a b = (if a < b then Less else if a = b then Equal else Greater)"

lemma compare_rat_scaled:
  "compare_rat (of_int m * 10 powi e) (of_int n * 10 powi e) = compare_int m n"
  by (auto simp: compare_rat_def compare_int_def)

lemma dec_value_scaled:
  "0 \<le> k \<Longrightarrow> of_int m * 10 powi (e + k) = (of_int (m * 10 ^ nat k) :: rat) * 10 powi e"
proof -
  assume k: "0 \<le> k"
  have "(10::rat) powi (e + k) = 10 powi e * 10 powi k" by (simp add: power_int_add)
  also have "(10::rat) powi k = of_int (10 ^ nat k)" using k by (simp add: power_int_def)
  finally show ?thesis by simp
qed

lemma compare_exact:
  assumes "exactly_comparable x y" "exponent_room x" "exponent_room y"
  shows "RpcDecimal_compare x y = compare_rat (dec_value x) (dec_value y)"
proof -
  define a b where "a = RpcDecimal_normalize x" and "b = RpcDecimal_normalize y"
  define ma mb ea eb where "ma = dec_mantissa a" and "mb = dec_mantissa b"
    and "ea = dec_exponent a" and "eb = dec_exponent b"
  note ab = a_def [symmetric] b_def [symmetric]
    ma_def [symmetric] mb_def [symmetric] ea_def [symmetric] eb_def [symmetric]
  have x: "dec_value x = of_int ma * 10 powi ea" and y: "dec_value y = of_int mb * 10 powi eb"
    using normalize_value [OF assms(2)] normalize_value [OF assms(3)]
    by (simp_all only: dec_value_def ab)
  have H: "\<bar>ea - eb\<bar> \<le> 8" "ea > eb \<Longrightarrow> in_s 64 (ma * 10 ^ nat (ea - eb))"
    "ea < eb \<Longrightarrow> in_s 64 (mb * 10 ^ nat (eb - ea))"
    using assms(1) by (simp_all add: exactly_comparable_def Let_def ab)
  have "s_wrap 32 (ea - eb) = ea - eb" "s_wrap 32 \<bar>ea - eb\<bar> = \<bar>ea - eb\<bar>"
    using H(1) by (auto intro!: s_wrap_id simp: in_s_def)
  note diff = this
  note def' = RpcDecimal_compare_def [of x y, unfolded Let_def ab diff]
  consider "ea = eb" | "ea > eb" | "ea < eb" by linarith
  then show ?thesis
  proof cases
    case 1
    then show ?thesis by (simp add: def' x y compare_rat_scaled ab)
  next
    case 2
    then have "pow10 \<bar>ea - eb\<bar> = Some (10 ^ nat (ea - eb))" using H(1) by (simp add: pow10_ex)
    moreover have "dec_value x = of_int (ma * 10 ^ nat (ea - eb)) * 10 powi eb"
      using dec_value_scaled [of "ea - eb" ma eb] 2 by (simp add: x)
    ultimately show ?thesis
      using 2 H(2) by (simp add: def' ab safeMul_def y compare_rat_scaled del: of_int_mult)
  next
    case 3
    then have "pow10 \<bar>ea - eb\<bar> = Some (10 ^ nat (eb - ea))" using H(1) by (simp add: pow10_ex)
    moreover have "dec_value y = of_int (mb * 10 ^ nat (eb - ea)) * 10 powi ea"
      using dec_value_scaled [of "eb - ea" mb ea] 3 by (simp add: y)
    ultimately show ?thesis
      using 3 H(3) by (simp add: def' ab safeMul_def x compare_rat_scaled del: of_int_mult)
  qed
qed

section \<open>Rescaling\<close>

lemma sdiv_nonneg: "0 \<le> a \<Longrightarrow> 0 < b \<Longrightarrow> a sdiv b = a div (b::int)"
  by (cases "a = 0") (simp_all add: signed_divide_int_def sgn_if)

lemma sdiv_minus: "(- a) sdiv b = - (a sdiv (b::int))"
  by (simp add: signed_divide_int_def sgn_minus)

lemma sdiv_sdiv_10: "(m sdiv 10 ^ n) sdiv 10 = m sdiv (10 ^ Suc n :: int)"
proof -
  have nonneg: "(k sdiv 10 ^ n) sdiv 10 = k sdiv 10 ^ Suc n" if "0 \<le> k" for k :: int
    using that zdiv_zmult2_eq [of 10 k "10 ^ n"]
    by (simp add: sdiv_nonneg pos_imp_zdiv_nonneg_iff mult.commute)
  show ?thesis
  proof (cases "0 \<le> m")
    case False
    then have "0 \<le> - m" by simp
    from nonneg [OF this] show ?thesis by (simp add: sdiv_minus)
  qed (rule nonneg)
qed

lemma div10_loop_sdiv: "div10_loop n m = m sdiv 10 ^ n"
proof -
  have "div10_loop n (m sdiv 10 ^ k) = m sdiv 10 ^ (n + k)" for k
  proof (induction n arbitrary: k)
    case 0
    then show ?case by simp
  next
    case (Suc n)
    then show ?case by (simp only: div10_loop.simps sdiv_sdiv_10 Suc.IH) simp
  qed
  from this [of 0] show ?thesis by simp
qed

lemma setDecPlaces_widen_exact:
  assumes "dec_exponent d \<ge> - p" "in_s 32 (- p)" "in_s 32 (dec_exponent d + p)"
  shows "dec_value (RpcDecimal_setDecPlaces p d) = dec_value d"
proof (cases "dec_exponent d > - p")
  case True
  let ?k = "dec_exponent d + p"
  show ?thesis
  proof (cases "pow10 ?k")
    case None
    then show ?thesis using True assms(2,3) by (simp add: RpcDecimal_setDecPlaces_def Let_def s_wrap_id)
  next
    case (Some mul)
    then have mul: "mul = 10 ^ nat ?k" using pow10_Some by blast
    have "of_int (dec_mantissa d * 10 ^ nat ?k) * 10 powi (- p) = dec_value d"
      using dec_value_scaled [of ?k "dec_mantissa d" "- p"] True
      by (simp add: dec_value_def) metis
    then show ?thesis using Some True mul assms(2,3)
      by (auto simp: RpcDecimal_setDecPlaces_def s_wrap_id Let_def safeMul_def dec_value_def
          split: option.splits)
  qed
next
  case False
  then show ?thesis using assms by (simp add: RpcDecimal_setDecPlaces_def Let_def s_wrap_id)
qed

lemma setDecPlaces_narrow:
  assumes "dec_exponent d < - p" "in_s 32 (- p)" "in_s 32 (- p - dec_exponent d)"
  shows "RpcDecimal_setDecPlaces p d =
    \<lparr>dec_mantissa = dec_mantissa d sdiv 10 ^ nat (- p - dec_exponent d), dec_exponent = - p\<rparr>"
  using assms by (simp add: RpcDecimal_setDecPlaces_def Let_def div10_loop_sdiv s_wrap_id)

end
