(* ===== verification/Rpc_Value.thy ===== *)
theory Rpc_Value
  imports Std_Map Date_Time Rpc_Decimal
begin

text \<open>
  \<open>RpcValue\<close>, the dynamically typed value every SHV message is made of
  (\<open>rpcvalue.h\<close>, \<open>rpcvalue.cpp\<close>), with its containers \<open>RpcList\<close>, \<open>RpcMap\<close>,
  \<open>RpcIMap\<close> and its meta data \<open>RpcMetaData\<close>.  A value is an optional meta-data object and
  a variant; the copy-on-write pointers of the code have value semantics and leave no trace in
  the model.  Overloads on the key type are told apart by the suffixes \<open>_i\<close> (\<open>int\<close> keys)
  and \<open>_s\<close> (string keys).  What the code throws is a value of \<open>exn\<close>; of a
  \<open>ParseException\<close> the error code, the message, the position and the dump are left out,
  which no code reads but to print them.
\<close>

datatype exn =
    ShvException string
  | RuntimeError string
  | ParseException

datatype rpc_type =
    TInvalid | TNull | TUInt | TInt | TDouble | TBool | TBlob | TString | TDateTime | TList
  | TMap | TIMap | TDecimal

datatype rpc_value = RpcValue (rv_meta: "rpc_meta option") (rv_var: variant)
and variant =
    VInvalid
  | VNull
  | VUInt u64
  | VInt int
  | VDouble double
  | VBool bool
  | VBlob bytes
  | VString string
  | VDateTime date_time
  | VList "rpc_value list"
  | VMap "(string \<times> rpc_value) list"
  | VIMap "(int \<times> rpc_value) list"
  | VDecimal decimal
and rpc_meta = MetaData (md_imap: "(int \<times> rpc_value) list") (md_smap: "(string \<times> rpc_value) list")

type_synonym rpc_map = "(string, rpc_value) std_map"
type_synonym rpc_imap = "(int, rpc_value) std_map"
type_synonym rpc_list = "rpc_value list"

text \<open>The implicit constructors: a variant without meta data.\<close>

abbreviation rpc :: "variant \<Rightarrow> rpc_value" where
  "rpc v \<equiv> RpcValue None v"

abbreviation invalid_value :: rpc_value where
  "invalid_value \<equiv> rpc VInvalid"

lemma size_pair_mem [termination_simp]:
  "(k, v) \<in> set kvs \<Longrightarrow> size v < Suc (size_list (size_prod (\<lambda>_. 0) size) kvs)"
  by (induction kvs) auto

section \<open>Type tags\<close>

definition RpcValue_type :: "rpc_value \<Rightarrow> rpc_type" where
  "RpcValue_type v =
     (case rv_var v of
        VInvalid \<Rightarrow> TInvalid | VNull \<Rightarrow> TNull | VUInt _ \<Rightarrow> TUInt | VInt _ \<Rightarrow> TInt
      | VDouble _ \<Rightarrow> TDouble | VBool _ \<Rightarrow> TBool | VBlob _ \<Rightarrow> TBlob | VString _ \<Rightarrow> TString
      | VDateTime _ \<Rightarrow> TDateTime | VList _ \<Rightarrow> TList | VMap _ \<Rightarrow> TMap | VIMap _ \<Rightarrow> TIMap
      | VDecimal _ \<Rightarrow> TDecimal)"

definition RpcValue_fromType :: "rpc_type \<Rightarrow> rpc_value" where
  "RpcValue_fromType t =
     rpc (case t of
        TInvalid \<Rightarrow> VInvalid | TNull \<Rightarrow> VNull | TUInt \<Rightarrow> VUInt 0 | TInt \<Rightarrow> VInt 0
      | TDouble \<Rightarrow> VDouble 0 | TBool \<Rightarrow> VBool False | TString \<Rightarrow> VString [] | TBlob \<Rightarrow> VBlob []
      | TDateTime \<Rightarrow> VDateTime RpcDateTime_default | TList \<Rightarrow> VList [] | TMap \<Rightarrow> VMap []
      | TIMap \<Rightarrow> VIMap [] | TDecimal \<Rightarrow> VDecimal RpcDecimal_default)"

definition RpcValue_typeToName :: "rpc_type \<Rightarrow> string" where
  "RpcValue_typeToName t =
     (case t of
        TInvalid \<Rightarrow> ''INVALID'' | TNull \<Rightarrow> ''Null'' | TUInt \<Rightarrow> ''UInt'' | TInt \<Rightarrow> ''Int''
      | TDouble \<Rightarrow> ''Double'' | TBool \<Rightarrow> ''Bool'' | TString \<Rightarrow> ''String'' | TBlob \<Rightarrow> ''Blob''
      | TList \<Rightarrow> ''List'' | TMap \<Rightarrow> ''Map'' | TIMap \<Rightarrow> ''IMap'' | TDateTime \<Rightarrow> ''DateTime''
      | TDecimal \<Rightarrow> ''Decimal'')"

definition RpcValue_typeName :: "rpc_value \<Rightarrow> string" where
  "RpcValue_typeName v = RpcValue_typeToName (RpcValue_type v)"

text \<open>
  \<open>typeForName\<close> compares a prefix of the name: \<open>len\<close> characters, or as many as the
  candidate has when \<open>len\<close> is negative.
\<close>

definition type_name_mapping :: "(string \<times> rpc_type) list" where
  "type_name_mapping =
     [(''Null'', TNull), (''UInt'', TUInt), (''Int'', TInt), (''Double'', TDouble), (''Bool'', TBool),
      (''String'', TString), (''List'', TList), (''Map'', TMap), (''IMap'', TIMap),
      (''DateTime'', TDateTime), (''Decimal'', TDecimal)]"

definition RpcValue_typeForName :: "string \<Rightarrow> int \<Rightarrow> rpc_type" where
  "RpcValue_typeForName type_name len =
     (case find (\<lambda>(str_type, t).
              take (if len < 0 then length str_type else nat len) type_name = str_type)
            type_name_mapping of
        Some (_, t) \<Rightarrow> t
      | None \<Rightarrow> TInvalid)"

definition RpcValue_isValid :: "rpc_value \<Rightarrow> bool" where
  "RpcValue_isValid v \<longleftrightarrow> RpcValue_type v \<noteq> TInvalid"

definition RpcValue_isNull :: "rpc_value \<Rightarrow> bool" where
  "RpcValue_isNull v \<longleftrightarrow> RpcValue_type v = TNull"

definition RpcValue_isInt :: "rpc_value \<Rightarrow> bool" where
  "RpcValue_isInt v \<longleftrightarrow> RpcValue_type v = TInt"

definition RpcValue_isUInt :: "rpc_value \<Rightarrow> bool" where
  "RpcValue_isUInt v \<longleftrightarrow> RpcValue_type v = TUInt"

definition RpcValue_isDouble :: "rpc_value \<Rightarrow> bool" where
  "RpcValue_isDouble v \<longleftrightarrow> RpcValue_type v = TDouble"

definition RpcValue_isBool :: "rpc_value \<Rightarrow> bool" where
  "RpcValue_isBool v \<longleftrightarrow> RpcValue_type v = TBool"

definition RpcValue_isString :: "rpc_value \<Rightarrow> bool" where
  "RpcValue_isString v \<longleftrightarrow> RpcValue_type v = TString"

definition RpcValue_isBlob :: "rpc_value \<Rightarrow> bool" where
  "RpcValue_isBlob v \<longleftrightarrow> RpcValue_type v = TBlob"

definition RpcValue_isDecimal :: "rpc_value \<Rightarrow> bool" where
  "RpcValue_isDecimal v \<longleftrightarrow> RpcValue_type v = TDecimal"

definition RpcValue_isDateTime :: "rpc_value \<Rightarrow> bool" where
  "RpcValue_isDateTime v \<longleftrightarrow> RpcValue_type v = TDateTime"

definition RpcValue_isList :: "rpc_value \<Rightarrow> bool" where
  "RpcValue_isList v \<longleftrightarrow> RpcValue_type v = TList"

definition RpcValue_isMap :: "rpc_value \<Rightarrow> bool" where
  "RpcValue_isMap v \<longleftrightarrow> RpcValue_type v = TMap"

definition RpcValue_isIMap :: "rpc_value \<Rightarrow> bool" where
  "RpcValue_isIMap v \<longleftrightarrow> RpcValue_type v = TIMap"

definition RpcValue_isValueNotAvailable :: "rpc_value \<Rightarrow> bool" where
  "RpcValue_isValueNotAvailable v \<longleftrightarrow> \<not> RpcValue_isValid v \<or> RpcValue_isNull v"

lemmas type_test_defs =
  RpcValue_isValid_def RpcValue_isNull_def RpcValue_isInt_def RpcValue_isUInt_def
  RpcValue_isDouble_def RpcValue_isBool_def RpcValue_isString_def RpcValue_isBlob_def
  RpcValue_isDecimal_def RpcValue_isDateTime_def RpcValue_isList_def RpcValue_isMap_def
  RpcValue_isIMap_def RpcValue_isValueNotAvailable_def RpcValue_type_def

section \<open>Conversions\<close>

definition int_max32 :: int where "int_max32 = 2147483647"

definition int_min32 :: int where "int_min32 = -2147483648"

text \<open>\<open>RpcValue::Int\<close> is \<open>int\<close>: the saturation bounds are those of 32 bits.\<close>

definition convert_to_int :: "double \<Rightarrow> exn + int" where
  "convert_to_int d =
     (if dbl_isnan d then Inl (RuntimeError ''Can't convert NaN to int'')
      else if dbl_le (dbl_of_int int_max32) d then Inr int_max32
      else if dbl_le d (dbl_of_int int_min32) then Inr int_min32
      else Inr (s_wrap 32 (dbl_trunc d)))"

definition impl_to_int :: "(int \<Rightarrow> 'r) \<Rightarrow> variant \<Rightarrow> exn + 'r" where
  "impl_to_int static_cast v =
     (case v of
        VInt x \<Rightarrow> Inr (static_cast x)
      | VUInt x \<Rightarrow> Inr (static_cast (uint x))
      | VDouble x \<Rightarrow> map_sum id static_cast (convert_to_int x)
      | VDecimal x \<Rightarrow> map_sum id static_cast (convert_to_int (RpcDecimal_toDouble x))
      | VDateTime x \<Rightarrow> Inr (static_cast (RpcDateTime_msecsSinceEpoch x))
      | _ \<Rightarrow> Inr (static_cast 0))"

definition RpcValue_toInt :: "rpc_value \<Rightarrow> exn + int" where
  "RpcValue_toInt v = impl_to_int (s_wrap 32) (rv_var v)"

definition RpcValue_toUInt :: "rpc_value \<Rightarrow> exn + u32" where
  "RpcValue_toUInt v = impl_to_int word_of_int (rv_var v)"

definition RpcValue_toInt64 :: "rpc_value \<Rightarrow> exn + int" where
  "RpcValue_toInt64 v = impl_to_int (s_wrap 64) (rv_var v)"

definition RpcValue_toUInt64 :: "rpc_value \<Rightarrow> exn + u64" where
  "RpcValue_toUInt64 v = impl_to_int word_of_int (rv_var v)"

definition RpcValue_toDouble :: "rpc_value \<Rightarrow> double" where
  "RpcValue_toDouble v =
     (case rv_var v of
        VDecimal x \<Rightarrow> RpcDecimal_toDouble x
      | VDouble x \<Rightarrow> x
      | VInt x \<Rightarrow> dbl_of_int x
      | VUInt x \<Rightarrow> dbl_of_int (uint x)
      | _ \<Rightarrow> 0)"

definition RpcValue_toDecimal :: "rpc_value \<Rightarrow> decimal" where
  "RpcValue_toDecimal v = (case rv_var v of VDecimal x \<Rightarrow> x | _ \<Rightarrow> RpcDecimal_default)"

definition RpcValue_toBool :: "rpc_value \<Rightarrow> bool" where
  "RpcValue_toBool v =
     (case rv_var v of
        VDateTime x \<Rightarrow> RpcDateTime_msecsSinceEpoch x \<noteq> 0
      | VDecimal x \<Rightarrow> dec_mantissa x \<noteq> 0
      | VUInt x \<Rightarrow> x \<noteq> 0
      | VInt x \<Rightarrow> x \<noteq> 0
      | VDouble x \<Rightarrow> \<not> dbl_eq x 0
      | VBool x \<Rightarrow> x
      | _ \<Rightarrow> False)"

definition RpcValue_toDateTime :: "rpc_value \<Rightarrow> date_time" where
  "RpcValue_toDateTime v = (case rv_var v of VDateTime x \<Rightarrow> x | _ \<Rightarrow> RpcDateTime_default)"

definition RpcValue_blobToString :: "bytes \<Rightarrow> string" where
  "RpcValue_blobToString b = string_of_bytes b"

definition RpcValue_stringToBlob :: "string \<Rightarrow> bytes" where
  "RpcValue_stringToBlob s = bytes_of_string s"

definition RpcValue_asString :: "rpc_value \<Rightarrow> string" where
  "RpcValue_asString v = (case rv_var v of VString s \<Rightarrow> s | _ \<Rightarrow> [])"

definition RpcValue_toString :: "rpc_value \<Rightarrow> string" where
  "RpcValue_toString v =
     (case rv_var v of VBlob x \<Rightarrow> RpcValue_blobToString x | VString _ \<Rightarrow> RpcValue_asString v | _ \<Rightarrow> [])"

definition RpcValue_asBlob :: "rpc_value \<Rightarrow> bytes" where
  "RpcValue_asBlob v = (case rv_var v of VBlob b \<Rightarrow> b | _ \<Rightarrow> [])"

definition RpcValue_asList :: "rpc_value \<Rightarrow> rpc_list" where
  "RpcValue_asList v = (case rv_var v of VList l \<Rightarrow> l | _ \<Rightarrow> [])"

definition RpcValue_asMap :: "rpc_value \<Rightarrow> rpc_map" where
  "RpcValue_asMap v = (case rv_var v of VMap m \<Rightarrow> m | _ \<Rightarrow> [])"

definition RpcValue_asIMap :: "rpc_value \<Rightarrow> rpc_imap" where
  "RpcValue_asIMap v = (case rv_var v of VIMap m \<Rightarrow> m | _ \<Rightarrow> [])"

lemmas as_defs = RpcValue_asString_def RpcValue_asBlob_def RpcValue_asList_def RpcValue_asMap_def
  RpcValue_asIMap_def

definition RpcValue_isDefaultValue :: "rpc_value \<Rightarrow> exn + bool" where
  "RpcValue_isDefaultValue v =
     (case RpcValue_type v of
        TInvalid \<Rightarrow> Inr True
      | TNull \<Rightarrow> Inr (RpcValue_toBool v = False)
      | TBool \<Rightarrow> Inr (RpcValue_toBool v = False)
      | TInt \<Rightarrow> map_sum id (\<lambda>i. i = 0) (RpcValue_toInt v)
      | TUInt \<Rightarrow> map_sum id (\<lambda>i. i = 0) (RpcValue_toUInt v)
      | TDateTime \<Rightarrow> Inr (RpcDateTime_msecsSinceEpoch (RpcValue_toDateTime v) = 0)
      | TDecimal \<Rightarrow> Inr (dec_mantissa (RpcValue_toDecimal v) = 0)
      | TDouble \<Rightarrow> Inr (dbl_eq (RpcValue_toDouble v) 0)
      | TString \<Rightarrow> Inr (RpcValue_asString v = [])
      | TBlob \<Rightarrow> Inr (RpcValue_asBlob v = [])
      | TList \<Rightarrow> Inr (RpcValue_asList v = [])
      | TMap \<Rightarrow> Inr (RpcValue_asMap v = [])
      | TIMap \<Rightarrow> Inr (RpcValue_asIMap v = []))"

definition RpcValue_setDefaultValue :: "rpc_value \<Rightarrow> rpc_value" where
  "RpcValue_setDefaultValue v = RpcValue_fromType (RpcValue_type v)"

section \<open>Containers\<close>

definition RpcList_value :: "rpc_list \<Rightarrow> nat \<Rightarrow> rpc_value" where
  "RpcList_value l ix = (if ix \<ge> length l then invalid_value else l ! ix)"

definition RpcList_valref :: "rpc_list \<Rightarrow> nat \<Rightarrow> rpc_value" where
  "RpcList_valref l ix = (if ix \<ge> length l then invalid_value else l ! ix)"

definition RpcList_fromStringList :: "string list \<Rightarrow> rpc_list" where
  "RpcList_fromStringList sl = foldl (\<lambda>ret s. ret @ [rpc (VString s)]) [] sl"

definition RpcMap_value :: "rpc_map \<Rightarrow> string \<Rightarrow> rpc_value \<Rightarrow> rpc_value" where
  "RpcMap_value m key default_val = (case map_find m key of None \<Rightarrow> default_val | Some v \<Rightarrow> v)"

definition RpcMap_take :: "rpc_map \<Rightarrow> string \<Rightarrow> rpc_value \<Rightarrow> rpc_value \<times> rpc_map" where
  "RpcMap_take m key default_val =
     (case map_find m key of None \<Rightarrow> (default_val, m) | Some v \<Rightarrow> (v, map_erase key m))"

definition RpcMap_valref :: "rpc_map \<Rightarrow> string \<Rightarrow> rpc_value" where
  "RpcMap_valref m key = (case map_find m key of None \<Rightarrow> invalid_value | Some v \<Rightarrow> v)"

definition RpcMap_setValue :: "string \<Rightarrow> rpc_value \<Rightarrow> rpc_map \<Rightarrow> rpc_map" where
  "RpcMap_setValue key val m =
     (if RpcValue_isValid val then map_set key val m else map_erase key m)"

definition RpcMap_hasKey :: "rpc_map \<Rightarrow> string \<Rightarrow> bool" where
  "RpcMap_hasKey m key \<longleftrightarrow> map_find m key \<noteq> None"

definition RpcMap_keys :: "rpc_map \<Rightarrow> string list" where
  "RpcMap_keys m = map_keys m"

definition RpcIMap_value :: "rpc_imap \<Rightarrow> int \<Rightarrow> rpc_value \<Rightarrow> rpc_value" where
  "RpcIMap_value m key default_val = (case map_find m key of None \<Rightarrow> default_val | Some v \<Rightarrow> v)"

definition RpcIMap_valref :: "rpc_imap \<Rightarrow> int \<Rightarrow> rpc_value" where
  "RpcIMap_valref m key = (case map_find m key of None \<Rightarrow> invalid_value | Some v \<Rightarrow> v)"

definition RpcIMap_setValue :: "int \<Rightarrow> rpc_value \<Rightarrow> rpc_imap \<Rightarrow> rpc_imap" where
  "RpcIMap_setValue key val m =
     (if RpcValue_isValid val then map_set key val m else map_erase key m)"

definition RpcIMap_hasKey :: "rpc_imap \<Rightarrow> int \<Rightarrow> bool" where
  "RpcIMap_hasKey m key \<longleftrightarrow> map_find m key \<noteq> None"

definition RpcIMap_keys :: "rpc_imap \<Rightarrow> int list" where
  "RpcIMap_keys m = map_keys m"

definition RpcValue_count :: "rpc_value \<Rightarrow> nat" where
  "RpcValue_count v =
     (case rv_var v of VList l \<Rightarrow> length l | VIMap m \<Rightarrow> length m | VMap m \<Rightarrow> length m | _ \<Rightarrow> 0)"

text \<open>A negative list index counts from the end.\<close>

definition RpcValue_at_i :: "rpc_value \<Rightarrow> int \<Rightarrow> rpc_value \<Rightarrow> rpc_value" where
  "RpcValue_at_i v ix default_value =
     (case rv_var v of
        VList x \<Rightarrow>
          (let ix' = (if ix < 0 then int (length x) + ix else ix)
           in if ix' < 0 \<or> ix' \<ge> int (length x) then default_value else x ! nat ix')
      | VIMap x \<Rightarrow> (case map_find x ix of None \<Rightarrow> default_value | Some w \<Rightarrow> w)
      | _ \<Rightarrow> default_value)"

definition RpcValue_at_s :: "rpc_value \<Rightarrow> string \<Rightarrow> rpc_value \<Rightarrow> rpc_value" where
  "RpcValue_at_s v key default_value =
     (case rv_var v of
        VMap x \<Rightarrow> (case map_find x key of None \<Rightarrow> default_value | Some w \<Rightarrow> w)
      | _ \<Rightarrow> default_value)"

definition RpcValue_has_i :: "rpc_value \<Rightarrow> int \<Rightarrow> bool" where
  "RpcValue_has_i v ix \<longleftrightarrow> (case rv_var v of VIMap x \<Rightarrow> map_find x ix \<noteq> None | _ \<Rightarrow> False)"

definition RpcValue_has_s :: "rpc_value \<Rightarrow> string \<Rightarrow> bool" where
  "RpcValue_has_s v key \<longleftrightarrow> (case rv_var v of VMap x \<Rightarrow> map_find x key \<noteq> None | _ \<Rightarrow> False)"

text \<open>
  \<open>impl_set\<close>: an invalid value erases the key; a value that is no map of the right key type
  is left as it is (the code logs an error).
\<close>

definition RpcValue_set_i :: "int \<Rightarrow> rpc_value \<Rightarrow> rpc_value \<Rightarrow> rpc_value" where
  "RpcValue_set_i key val v =
     (case rv_var v of
        VIMap x \<Rightarrow> RpcValue (rv_meta v)
          (VIMap (if RpcValue_isValid val then map_set key val x else map_erase key x))
      | _ \<Rightarrow> v)"

definition RpcValue_set_s :: "string \<Rightarrow> rpc_value \<Rightarrow> rpc_value \<Rightarrow> rpc_value" where
  "RpcValue_set_s key val v =
     (case rv_var v of
        VMap x \<Rightarrow> RpcValue (rv_meta v)
          (VMap (if RpcValue_isValid val then map_set key val x else map_erase key x))
      | _ \<Rightarrow> v)"

definition RpcValue_append :: "rpc_value \<Rightarrow> rpc_value \<Rightarrow> rpc_value" where
  "RpcValue_append val v =
     (case rv_var v of VList x \<Rightarrow> RpcValue (rv_meta v) (VList (x @ [val])) | _ \<Rightarrow> v)"

section \<open>Meta data\<close>

definition meta_empty :: rpc_meta where
  "meta_empty = MetaData [] []"

definition Tag_MetaTypeId :: int where "Tag_MetaTypeId = 1"

definition Tag_MetaTypeNameSpaceId :: int where "Tag_MetaTypeNameSpaceId = 2"

definition Tag_USER :: int where "Tag_USER = 8"

definition RpcMetaData_iKeys :: "rpc_meta \<Rightarrow> int list" where
  "RpcMetaData_iKeys md = map_keys (md_imap md)"

definition RpcMetaData_sKeys :: "rpc_meta \<Rightarrow> string list" where
  "RpcMetaData_sKeys md = map_keys (md_smap md)"

definition RpcMetaData_hasKey_i :: "rpc_meta \<Rightarrow> int \<Rightarrow> bool" where
  "RpcMetaData_hasKey_i md key \<longleftrightarrow> map_find (md_imap md) key \<noteq> None"

definition RpcMetaData_hasKey_s :: "rpc_meta \<Rightarrow> string \<Rightarrow> bool" where
  "RpcMetaData_hasKey_s md key \<longleftrightarrow> map_find (md_smap md) key \<noteq> None"

definition RpcMetaData_value_i :: "rpc_meta \<Rightarrow> int \<Rightarrow> rpc_value \<Rightarrow> rpc_value" where
  "RpcMetaData_value_i md key def_val =
     (case map_find (md_imap md) key of Some v \<Rightarrow> v | None \<Rightarrow> def_val)"

definition RpcMetaData_value_s :: "rpc_meta \<Rightarrow> string \<Rightarrow> rpc_value \<Rightarrow> rpc_value" where
  "RpcMetaData_value_s md key def_val =
     (case map_find (md_smap md) key of Some v \<Rightarrow> v | None \<Rightarrow> def_val)"

definition RpcMetaData_valref_i :: "rpc_meta \<Rightarrow> int \<Rightarrow> rpc_value" where
  "RpcMetaData_valref_i md key =
     (case map_find (md_imap md) key of Some v \<Rightarrow> v | None \<Rightarrow> invalid_value)"

definition RpcMetaData_valref_s :: "rpc_meta \<Rightarrow> string \<Rightarrow> rpc_value" where
  "RpcMetaData_valref_s md key =
     (case map_find (md_smap md) key of Some v \<Rightarrow> v | None \<Rightarrow> invalid_value)"

definition RpcMetaData_setValue_i :: "int \<Rightarrow> rpc_value \<Rightarrow> rpc_meta \<Rightarrow> rpc_meta" where
  "RpcMetaData_setValue_i key val md =
     (if RpcValue_isValid val then MetaData (map_set key val (md_imap md)) (md_smap md)
      else MetaData (map_erase key (md_imap md)) (md_smap md))"

definition RpcMetaData_setValue_s :: "string \<Rightarrow> rpc_value \<Rightarrow> rpc_meta \<Rightarrow> rpc_meta" where
  "RpcMetaData_setValue_s key val md =
     (if RpcValue_isValid val then MetaData (md_imap md) (map_set key val (md_smap md))
      else MetaData (md_imap md) (map_erase key (md_smap md)))"

definition RpcMetaData_metaTypeId :: "rpc_meta \<Rightarrow> exn + int" where
  "RpcMetaData_metaTypeId md = RpcValue_toInt (RpcMetaData_value_i md Tag_MetaTypeId invalid_value)"

definition RpcMetaData_setMetaTypeId :: "int \<Rightarrow> rpc_meta \<Rightarrow> rpc_meta" where
  "RpcMetaData_setMetaTypeId i md = RpcMetaData_setValue_i Tag_MetaTypeId (rpc (VInt i)) md"

definition RpcMetaData_metaTypeNameSpaceId :: "rpc_meta \<Rightarrow> exn + int" where
  "RpcMetaData_metaTypeNameSpaceId md =
     RpcValue_toInt (RpcMetaData_value_i md Tag_MetaTypeNameSpaceId invalid_value)"

definition RpcMetaData_setMetaTypeNameSpaceId :: "int \<Rightarrow> rpc_meta \<Rightarrow> rpc_meta" where
  "RpcMetaData_setMetaTypeNameSpaceId i md =
     RpcMetaData_setValue_i Tag_MetaTypeNameSpaceId (rpc (VInt i)) md"

definition RpcMetaData_size :: "rpc_meta \<Rightarrow> nat" where
  "RpcMetaData_size md = length (md_imap md) + length (md_smap md)"

definition RpcMetaData_isEmpty :: "rpc_meta \<Rightarrow> bool" where
  "RpcMetaData_isEmpty md \<longleftrightarrow> RpcMetaData_size md = 0"

definition RpcMetaData_swap :: "rpc_meta \<Rightarrow> rpc_meta \<Rightarrow> rpc_meta \<times> rpc_meta" where
  "RpcMetaData_swap md o' = (o', md)"

definition RpcValue_metaData :: "rpc_value \<Rightarrow> rpc_meta" where
  "RpcValue_metaData v = (case rv_meta v of Some m \<Rightarrow> m | None \<Rightarrow> meta_empty)"

definition RpcValue_metaValue_i :: "rpc_value \<Rightarrow> int \<Rightarrow> rpc_value \<Rightarrow> rpc_value" where
  "RpcValue_metaValue_i v key default_value =
     RpcMetaData_value_i (RpcValue_metaData v) key default_value"

definition RpcValue_metaValue_s :: "rpc_value \<Rightarrow> string \<Rightarrow> rpc_value \<Rightarrow> rpc_value" where
  "RpcValue_metaValue_s v key default_value =
     RpcMetaData_value_s (RpcValue_metaData v) key default_value"

definition RpcValue_setMetaData :: "rpc_meta \<Rightarrow> rpc_value \<Rightarrow> exn + rpc_value" where
  "RpcValue_setMetaData md v =
     (if RpcValue_type v = TInvalid
      then Inl (ShvException ''Cannot set valid meta data to invalid ChainPack value!'')
      else Inr (RpcValue (Some md) (rv_var v)))"

definition RpcValue_setMetaValue_i :: "int \<Rightarrow> rpc_value \<Rightarrow> rpc_value \<Rightarrow> exn + rpc_value" where
  "RpcValue_setMetaValue_i key val v =
     (if RpcValue_type v = TInvalid
      then Inl (ShvException ''Cannot set valid meta value to invalid ChainPack value!'')
      else Inr (RpcValue (Some (RpcMetaData_setValue_i key val (RpcValue_metaData v))) (rv_var v)))"

definition RpcValue_setMetaValue_s :: "string \<Rightarrow> rpc_value \<Rightarrow> rpc_value \<Rightarrow> exn + rpc_value" where
  "RpcValue_setMetaValue_s key val v =
     (if RpcValue_type v = TInvalid
      then Inl (ShvException ''Cannot set valid meta value to invalid ChainPack value!'')
      else Inr (RpcValue (Some (RpcMetaData_setValue_s key val (RpcValue_metaData v))) (rv_var v)))"

definition RpcValue_metaTypeId :: "rpc_value \<Rightarrow> exn + int" where
  "RpcValue_metaTypeId v = RpcValue_toInt (RpcValue_metaValue_i v Tag_MetaTypeId invalid_value)"

definition RpcValue_metaTypeNameSpaceId :: "rpc_value \<Rightarrow> exn + int" where
  "RpcValue_metaTypeNameSpaceId v =
     RpcValue_toInt (RpcValue_metaValue_i v Tag_MetaTypeNameSpaceId invalid_value)"

definition RpcValue_setMetaTypeId :: "int \<Rightarrow> rpc_value \<Rightarrow> exn + rpc_value" where
  "RpcValue_setMetaTypeId i v = RpcValue_setMetaValue_i Tag_MetaTypeId (rpc (VInt i)) v"

definition RpcValue_setMetaTypeId_ns :: "int \<Rightarrow> int \<Rightarrow> rpc_value \<Rightarrow> exn + rpc_value" where
  "RpcValue_setMetaTypeId_ns ns i v =
     (case RpcValue_setMetaValue_i Tag_MetaTypeNameSpaceId (rpc (VInt ns)) v of
        Inl e \<Rightarrow> Inl e
      | Inr v' \<Rightarrow> RpcValue_setMetaValue_i Tag_MetaTypeId (rpc (VInt i)) v')"

definition RpcValue_takeMeta :: "rpc_value \<Rightarrow> rpc_meta \<times> rpc_value" where
  "RpcValue_takeMeta v =
     (case rv_meta v of
        Some m \<Rightarrow> (m, RpcValue None (rv_var v))
      | None \<Rightarrow> (meta_empty, v))"

section \<open>Equality: \<open>RpcValue::operator==\<close>\<close>

text \<open>
  The comparison ignores meta data, promotes numbers of different types, and compares
  containers element by element (\<open>std::vector\<close> and \<open>std::map\<close> equality).
\<close>

definition uint_int_eq :: "u64 \<Rightarrow> int \<Rightarrow> bool" where
  "uint_int_eq u i = (if uint u > 9223372036854775807 then False else s_wrap 64 (uint u) = i)"

definition scalar_eq :: "variant \<Rightarrow> variant \<Rightarrow> bool" where
  "scalar_eq x y =
     (case x of
        VInvalid \<Rightarrow> (case y of VInvalid \<Rightarrow> True | _ \<Rightarrow> False)
      | VNull \<Rightarrow> (case y of VNull \<Rightarrow> True | _ \<Rightarrow> False)
      | VBlob a \<Rightarrow> (case y of VBlob b \<Rightarrow> a = b | _ \<Rightarrow> False)
      | VString a \<Rightarrow> (case y of VString b \<Rightarrow> a = b | _ \<Rightarrow> False)
      | VDateTime a \<Rightarrow> (case y of VDateTime b \<Rightarrow> RpcDateTime_eq a b | _ \<Rightarrow> False)
      | VUInt a \<Rightarrow>
          (case y of VUInt b \<Rightarrow> a = b | VInt b \<Rightarrow> uint_int_eq a b | VBool b \<Rightarrow> (a \<noteq> 0) = b
           | VDouble b \<Rightarrow> dbl_eq (dbl_of_int (uint a)) b | _ \<Rightarrow> False)
      | VInt a \<Rightarrow>
          (case y of VInt b \<Rightarrow> a = b | VUInt b \<Rightarrow> uint_int_eq b a | VBool b \<Rightarrow> (a \<noteq> 0) = b
           | VDouble b \<Rightarrow> dbl_eq (dbl_of_int a) b | _ \<Rightarrow> False)
      | VBool a \<Rightarrow>
          (case y of VBool b \<Rightarrow> a = b | VUInt b \<Rightarrow> a = (b \<noteq> 0) | VInt b \<Rightarrow> a = (b \<noteq> 0)
           | VDouble b \<Rightarrow> dbl_eq (dbl_of_int (of_bool a)) b | _ \<Rightarrow> False)
      | VDouble a \<Rightarrow>
          (case y of VDouble b \<Rightarrow> dbl_eq a b | VUInt b \<Rightarrow> dbl_eq a (dbl_of_int (uint b))
           | VInt b \<Rightarrow> dbl_eq a (dbl_of_int b) | VBool b \<Rightarrow> dbl_eq a (dbl_of_int (of_bool b))
           | VDecimal b \<Rightarrow> dbl_eq (RpcDecimal_toDouble b) a | _ \<Rightarrow> False)
      | VDecimal a \<Rightarrow>
          (case y of VDecimal b \<Rightarrow> RpcDecimal_eq a b
           | VDouble b \<Rightarrow> dbl_eq (RpcDecimal_toDouble a) b | _ \<Rightarrow> False)
      | _ \<Rightarrow> False)"

definition apply_eq :: "('a \<Rightarrow> bool) list \<Rightarrow> 'a list \<Rightarrow> bool" where
  "apply_eq fs ys = list_all2 (\<lambda>f y. f y) fs ys"

definition apply_eq_pairs :: "('k \<times> ('a \<Rightarrow> bool)) list \<Rightarrow> ('k \<times> 'a) list \<Rightarrow> bool" where
  "apply_eq_pairs fs ys = list_all2 (\<lambda>(k, f) (l, y). k = l \<and> f y) fs ys"

primrec rv_eq :: "rpc_value \<Rightarrow> rpc_value \<Rightarrow> bool"
  and variant_eq :: "variant \<Rightarrow> variant \<Rightarrow> bool"
where
  "rv_eq (RpcValue m x) = (\<lambda>b. variant_eq x (rv_var b))"
| "variant_eq VInvalid = scalar_eq VInvalid"
| "variant_eq VNull = scalar_eq VNull"
| "variant_eq (VUInt a) = scalar_eq (VUInt a)"
| "variant_eq (VInt a) = scalar_eq (VInt a)"
| "variant_eq (VDouble a) = scalar_eq (VDouble a)"
| "variant_eq (VBool a) = scalar_eq (VBool a)"
| "variant_eq (VBlob a) = scalar_eq (VBlob a)"
| "variant_eq (VString a) = scalar_eq (VString a)"
| "variant_eq (VDateTime a) = scalar_eq (VDateTime a)"
| "variant_eq (VDecimal a) = scalar_eq (VDecimal a)"
| "variant_eq (VList xs) = (\<lambda>y. case y of VList ys \<Rightarrow> apply_eq (map rv_eq xs) ys | _ \<Rightarrow> False)"
| "variant_eq (VMap xs) =
     (\<lambda>y. case y of VMap ys \<Rightarrow> apply_eq_pairs (map (map_prod id rv_eq) xs) ys | _ \<Rightarrow> False)"
| "variant_eq (VIMap xs) =
     (\<lambda>y. case y of VIMap ys \<Rightarrow> apply_eq_pairs (map (map_prod id rv_eq) xs) ys | _ \<Rightarrow> False)"

definition RpcMetaData_eq :: "rpc_meta \<Rightarrow> rpc_meta \<Rightarrow> bool" where
  "RpcMetaData_eq a b \<longleftrightarrow>
     apply_eq_pairs (map (map_prod id rv_eq) (md_imap a)) (md_imap b) \<and>
     apply_eq_pairs (map (map_prod id rv_eq) (md_smap a)) (md_smap b)"

section \<open>A single value seen as a list: \<open>RpcValueGenList\<close>\<close>

definition RpcValueGenList_value :: "rpc_value \<Rightarrow> nat \<Rightarrow> rpc_value" where
  "RpcValueGenList_value m_val ix =
     (if RpcValue_isList m_val then RpcList_value (RpcValue_asList m_val) ix
      else if ix = 0 then m_val
      else invalid_value)"

definition RpcValueGenList_size :: "rpc_value \<Rightarrow> nat" where
  "RpcValueGenList_size m_val =
     (if RpcValue_isList m_val then length (RpcValue_asList m_val)
      else if RpcValue_isValid m_val then 1 else 0)"

definition RpcValueGenList_empty :: "rpc_value \<Rightarrow> bool" where
  "RpcValueGenList_empty m_val \<longleftrightarrow> RpcValueGenList_size m_val = 0"

definition RpcValueGenList_toList :: "rpc_value \<Rightarrow> rpc_list" where
  "RpcValueGenList_toList m_val =
     (if RpcValue_isList m_val then RpcValue_asList m_val
      else if RpcValue_isValid m_val then [m_val] else [])"

section \<open>The type invariant\<close>

text \<open>
  What the C++ types guarantee of every value: integers in the range of their type, maps in key
  order with \<open>int\<close> keys of 32 bits, bit-fields in range.
\<close>

primrec rpc_wf :: "rpc_value \<Rightarrow> bool"
  and variant_wf :: "variant \<Rightarrow> bool"
  and meta_wf :: "rpc_meta \<Rightarrow> bool"
where
  "rpc_wf (RpcValue m v) \<longleftrightarrow> pred_option id (map_option meta_wf m) \<and> variant_wf v"
| "variant_wf VInvalid = True"
| "variant_wf VNull = True"
| "variant_wf (VUInt u) = True"
| "variant_wf (VInt i) = in_s 64 i"
| "variant_wf (VDouble d) = True"
| "variant_wf (VBool b) = True"
| "variant_wf (VBlob b) = True"
| "variant_wf (VString s) = True"
| "variant_wf (VDateTime d) = date_time_wf d"
| "variant_wf (VDecimal d) = decimal_wf d"
| "variant_wf (VList l) = list_all id (map rpc_wf l)"
| "variant_wf (VMap m) \<longleftrightarrow> map_wf m \<and> list_all snd (map (map_prod id rpc_wf) m)"
| "variant_wf (VIMap m) \<longleftrightarrow>
     map_wf m \<and> list_all (\<lambda>(k, b). in_s 32 k \<and> b) (map (map_prod id rpc_wf) m)"
| "meta_wf (MetaData im sm) \<longleftrightarrow>
     map_wf im \<and> list_all (\<lambda>(k, b). in_s 32 k \<and> b) (map (map_prod id rpc_wf) im) \<and>
     map_wf sm \<and> list_all snd (map (map_prod id rpc_wf) sm)"

definition smap_ok :: "rpc_map \<Rightarrow> bool" where
  "smap_ok m \<longleftrightarrow> map_wf m \<and> (\<forall>(k, v) \<in> set m. rpc_wf v)"

definition imap_ok :: "rpc_imap \<Rightarrow> bool" where
  "imap_ok m \<longleftrightarrow> map_wf m \<and> (\<forall>(k, v) \<in> set m. in_s 32 k \<and> rpc_wf v)"

lemma variant_wf_containers [simp]:
  "variant_wf (VList l) \<longleftrightarrow> (\<forall>v \<in> set l. rpc_wf v)"
  "variant_wf (VMap sm) \<longleftrightarrow> smap_ok sm"
  "variant_wf (VIMap im) \<longleftrightarrow> imap_ok im"
  "meta_wf (MetaData im sm) \<longleftrightarrow> imap_ok im \<and> smap_ok sm"
  "rpc_wf (RpcValue m v) \<longleftrightarrow> (case m of None \<Rightarrow> True | Some md \<Rightarrow> meta_wf md) \<and> variant_wf v"
  by (auto simp: list_all_iff smap_ok_def imap_ok_def split: option.splits)

declare rpc_wf.simps [simp del] variant_wf.simps(11-13) [simp del] meta_wf.simps [simp del]

lemma set_map_set: "set (map_set k v m) \<subseteq> insert (k, v) (set m)"
  by (induction k v m rule: map_set.induct) auto

lemma set_map_erase: "set (map_erase k m) \<subseteq> set m"
  by (auto simp: map_erase_def)

lemma smap_ok_ops:
  "smap_ok []"
  "smap_ok m \<Longrightarrow> rpc_wf v \<Longrightarrow> smap_ok (map_set k v m)"
  "smap_ok m \<Longrightarrow> smap_ok (map_erase k m)"
  "smap_ok m \<Longrightarrow> map_find m k = Some w \<Longrightarrow> rpc_wf w"
  using set_map_set [of k v m] set_map_erase [of k m]
  by (auto simp: smap_ok_def map_wf_set map_wf_erase map_find_def dest!: map_of_SomeD)

lemma imap_ok_ops:
  "imap_ok []"
  "imap_ok m \<Longrightarrow> in_s 32 k \<Longrightarrow> rpc_wf v \<Longrightarrow> imap_ok (map_set k v m)"
  "imap_ok m \<Longrightarrow> imap_ok (map_erase k m)"
  "imap_ok m \<Longrightarrow> map_find m k = Some w \<Longrightarrow> rpc_wf w"
  using set_map_set [of k v m] set_map_erase [of k m]
  by (auto simp: imap_ok_def map_wf_set map_wf_erase map_find_def dest!: map_of_SomeD)

lemma meta_wf_iff: "meta_wf md \<longleftrightarrow> imap_ok (md_imap md) \<and> smap_ok (md_smap md)"
  by (cases md) simp

lemma rpc_wf_iff:
  "rpc_wf v \<longleftrightarrow> meta_wf (RpcValue_metaData v) \<and> variant_wf (rv_var v)"
  by (cases v) (auto simp: RpcValue_metaData_def meta_empty_def imap_ok_ops smap_ok_ops split: option.splits)

lemma meta_wf_setValue:
  "meta_wf md \<Longrightarrow> in_s 32 k \<Longrightarrow> rpc_wf v \<Longrightarrow> meta_wf (RpcMetaData_setValue_i k v md)"
  "meta_wf md \<Longrightarrow> rpc_wf v \<Longrightarrow> meta_wf (RpcMetaData_setValue_s s v md)"
  by (simp_all add: RpcMetaData_setValue_i_def RpcMetaData_setValue_s_def meta_wf_iff
      imap_ok_ops smap_ok_ops)

lemma rpc_wf_set:
  "rpc_wf w \<Longrightarrow> in_s 32 k \<Longrightarrow> rpc_wf v \<Longrightarrow> rpc_wf (RpcValue_set_i k v w)"
  "rpc_wf w \<Longrightarrow> rpc_wf v \<Longrightarrow> rpc_wf (RpcValue_set_s s v w)"
  "rpc_wf w \<Longrightarrow> rpc_wf v \<Longrightarrow> rpc_wf (RpcValue_append v w)"
  by (cases w; cases "rv_var w";
      auto simp: RpcValue_set_i_def RpcValue_set_s_def RpcValue_append_def imap_ok_ops smap_ok_ops)+

lemma rpc_wf_setMetaValue:
  "rpc_wf w \<Longrightarrow> in_s 32 k \<Longrightarrow> rpc_wf v \<Longrightarrow> RpcValue_setMetaValue_i k v w = Inr w' \<Longrightarrow> rpc_wf w'"
  "rpc_wf w \<Longrightarrow> rpc_wf v \<Longrightarrow> RpcValue_setMetaValue_s s v w = Inr w' \<Longrightarrow> rpc_wf w'"
  "rpc_wf w \<Longrightarrow> meta_wf md \<Longrightarrow> RpcValue_setMetaData md w = Inr w' \<Longrightarrow> rpc_wf w'"
  by (auto simp: RpcValue_setMetaValue_i_def RpcValue_setMetaValue_s_def RpcValue_setMetaData_def
      rpc_wf_iff RpcValue_metaData_def meta_wf_setValue split: if_splits)

section \<open>Reading back what was stored\<close>

lemma RpcMetaData_value_setValue:
  "RpcMetaData_value_i (RpcMetaData_setValue_i k v md) k' d =
     (if k' = k then (if RpcValue_isValid v then v else d) else RpcMetaData_value_i md k' d)"
  "RpcMetaData_hasKey_i (RpcMetaData_setValue_i k v md) k' =
     (if k' = k then RpcValue_isValid v else RpcMetaData_hasKey_i md k')"
  "RpcMetaData_value_s (RpcMetaData_setValue_s s v md) s' d =
     (if s' = s then (if RpcValue_isValid v then v else d) else RpcMetaData_value_s md s' d)"
  "RpcMetaData_value_s (RpcMetaData_setValue_i k v md) s' d = RpcMetaData_value_s md s' d"
  "RpcMetaData_value_i (RpcMetaData_setValue_s s v md) k' d = RpcMetaData_value_i md k' d"
  by (simp_all add: RpcMetaData_value_i_def RpcMetaData_value_s_def RpcMetaData_hasKey_i_def
      RpcMetaData_setValue_i_def RpcMetaData_setValue_s_def std_map_simps)

lemma at_set_i:
  "RpcValue_isIMap w \<Longrightarrow> RpcValue_at_i (RpcValue_set_i k v w) k' d =
     (if k' = k then (if RpcValue_isValid v then v else d) else RpcValue_at_i w k' d)"
  by (cases "rv_var w")
     (auto simp: RpcValue_at_i_def RpcValue_set_i_def type_test_defs std_map_simps)

lemma at_set_s:
  "RpcValue_isMap w \<Longrightarrow> RpcValue_at_s (RpcValue_set_s s v w) s' d =
     (if s' = s then (if RpcValue_isValid v then v else d) else RpcValue_at_s w s' d)"
  by (cases "rv_var w")
     (auto simp: RpcValue_at_s_def RpcValue_set_s_def type_test_defs std_map_simps)

text \<open>A negative index of a list reads from its end.\<close>

lemma at_i_negative:
  "0 < k \<Longrightarrow> k \<le> length xs \<Longrightarrow> RpcValue_at_i (RpcValue m (VList xs)) (- int k) d = rev xs ! (k - 1)"
  by (auto simp: RpcValue_at_i_def rev_nth Let_def nat_diff_distrib' of_nat_diff Suc_diff_Suc)

section \<open>Equality is symmetric\<close>

lemma compare_int_Equal: "compare_int a b = Equal \<longleftrightarrow> a = b"
  by (simp add: compare_int_def)

lemma compare_double_Equal_sym: "compare_double a b = Equal \<longleftrightarrow> compare_double b a = Equal"
  by (auto simp: compare_double_def Let_def dbl_lt_def)

lemma RpcDecimal_eq_sym: "RpcDecimal_eq a b \<longleftrightarrow> RpcDecimal_eq b a"
proof -
  have "RpcDecimal_compare b a = Equal" if "RpcDecimal_compare a b = Equal" for a b
  proof -
    define x y where "x = RpcDecimal_normalize a" and "y = RpcDecimal_normalize b"
    show ?thesis
    proof (cases "dec_exponent x = dec_exponent y")
      case True
      then show ?thesis using that
        by (auto simp: RpcDecimal_compare_def Let_def x_def y_def compare_int_Equal)
    next
      case False
      have "s_wrap 32 \<bar>s_wrap 32 (dec_exponent y - dec_exponent x)\<bar> = s_wrap 32 \<bar>s_wrap 32 (dec_exponent x - dec_exponent y)\<bar>"
        using s_wrap_of_abs [of 32 "dec_exponent x - dec_exponent y"] by simp
      with False that show ?thesis
        unfolding RpcDecimal_compare_def Let_def x_def [symmetric] y_def [symmetric]
        by (cases "dec_exponent x > dec_exponent y")
           (auto simp: compare_int_Equal compare_double_Equal_sym [of x y] split: option.splits)
    qed
  qed
  then show ?thesis unfolding RpcDecimal_eq_def by blast
qed

lemma dbl_eq_sym: "dbl_eq a b \<longleftrightarrow> dbl_eq b a"
  by (auto simp: dbl_eq_def)

lemma scalar_eq_sym: "scalar_eq x y \<Longrightarrow> scalar_eq y x"
  by (cases x; cases y)
     (auto simp: scalar_eq_def RpcDateTime_eq_def dest: RpcDecimal_eq_sym [THEN iffD1] dbl_eq_sym [THEN iffD1])

lemma apply_eq_simps [simp]:
  "apply_eq (map rv_eq xs) ys = list_all2 rv_eq xs ys"
  "apply_eq_pairs (map (map_prod id rv_eq) kxs) kys =
     list_all2 (\<lambda>(k, v) (l, w). k = l \<and> rv_eq v w) kxs kys"
  by (auto simp: apply_eq_def apply_eq_pairs_def list.rel_map case_prod_unfold)

lemma list_all2_flip_mem:
  "list_all2 R xs ys \<Longrightarrow> (\<And>x y. x \<in> set xs \<Longrightarrow> R x y \<Longrightarrow> S y x) \<Longrightarrow> list_all2 S ys xs"
  by (induction xs ys rule: list_all2_induct) auto

lemma pairs_flip_mem:
  assumes "list_all2 (\<lambda>(k, v) (l, w). k = l \<and> rv_eq v w) xs ys"
    and "\<And>kv w. kv \<in> set xs \<Longrightarrow> rv_eq (snd kv) w \<Longrightarrow> rv_eq w (snd kv)"
  shows "list_all2 (\<lambda>(k, v) (l, w). k = l \<and> rv_eq v w) ys xs"
  using assms(1) by (rule list_all2_flip_mem) (use assms(2) in fastforce)

lemma scalar_eq_variant_eq: "scalar_eq y x \<Longrightarrow> variant_eq y x"
  by (cases y) (simp_all add: scalar_eq_def)

lemma rv_eq_sym_aux:
  "rv_eq a b \<Longrightarrow> rv_eq b a"
  "variant_eq x y \<Longrightarrow> variant_eq y x"
  "RpcMetaData_eq m n \<Longrightarrow> RpcMetaData_eq n m"
proof (induction a and x and m arbitrary: b and y and n
    rule: rpc_value.induct variant.induct rpc_meta.induct)
  case (RpcValue m x)
  then show ?case by (cases b) simp
next
  case (VList xs)
  then show ?case by (cases y) (auto elim!: list_all2_flip_mem)
next
  case (VMap xs)
  then show ?case by (cases y) (auto elim!: pairs_flip_mem intro: VMap.IH snds.intros)
next
  case (VIMap xs)
  then show ?case by (cases y) (auto elim!: pairs_flip_mem intro: VIMap.IH snds.intros)
next
  case (MetaData im sm)
  then show ?case
    by (cases n) (auto simp: RpcMetaData_eq_def elim!: pairs_flip_mem intro: MetaData.IH snds.intros)
qed (simp, drule scalar_eq_sym, erule scalar_eq_variant_eq)+

end
