(* ===== verification/Access_Grant.thy ===== *)
theory Access_Grant
  imports Rpc_Value
begin

text \<open>
  Access levels and grants (\<open>accesslevel.h\<close>, \<open>accesslevel.cpp\<close>, \<open>accessgrant.h\<close>,
  \<open>accessgrant.cpp\<close>) and the login data that travels with a login request.  An access level is
  the \<open>int\<close> its enumerator stands for; \<open>access_level_cases\<close> lists the enumerators.
\<close>

section \<open>Access levels\<close>

type_synonym access_level = int

abbreviation AccessLevel_None :: access_level where "AccessLevel_None \<equiv> 0"
abbreviation AccessLevel_Browse :: access_level where "AccessLevel_Browse \<equiv> 1"
abbreviation AccessLevel_Read :: access_level where "AccessLevel_Read \<equiv> 8"
abbreviation AccessLevel_Write :: access_level where "AccessLevel_Write \<equiv> 16"
abbreviation AccessLevel_Command :: access_level where "AccessLevel_Command \<equiv> 24"
abbreviation AccessLevel_Config :: access_level where "AccessLevel_Config \<equiv> 32"
abbreviation AccessLevel_Service :: access_level where "AccessLevel_Service \<equiv> 40"
abbreviation AccessLevel_SuperService :: access_level where "AccessLevel_SuperService \<equiv> 48"
abbreviation AccessLevel_Devel :: access_level where "AccessLevel_Devel \<equiv> 56"
abbreviation AccessLevel_Admin :: access_level where "AccessLevel_Admin \<equiv> 63"

definition accessLevelToAccessString :: "access_level \<Rightarrow> string" where
  "accessLevelToAccessString level =
     (if level = AccessLevel_Browse then ''bws''
      else if level = AccessLevel_Read then ''rd''
      else if level = AccessLevel_Write then ''wr''
      else if level = AccessLevel_Command then ''cmd''
      else if level = AccessLevel_Config then ''cfg''
      else if level = AccessLevel_Service then ''srv''
      else if level = AccessLevel_SuperService then ''ssrv''
      else if level = AccessLevel_Devel then ''dev''
      else if level = AccessLevel_Admin then ''su''
      else [])"

definition accessLevelFromAccessString :: "string \<Rightarrow> access_level option" where
  "accessLevelFromAccessString s =
     (if s = ''bws'' then Some AccessLevel_Browse
      else if s = ''rd'' then Some AccessLevel_Read
      else if s = ''wr'' then Some AccessLevel_Write
      else if s = ''cmd'' then Some AccessLevel_Command
      else if s = ''cfg'' then Some AccessLevel_Config
      else if s = ''srv'' then Some AccessLevel_Service
      else if s = ''ssrv'' then Some AccessLevel_SuperService
      else if s = ''dev'' then Some AccessLevel_Devel
      else if s = ''su'' then Some AccessLevel_Admin
      else None)"

text \<open>None, Browse to Browse6, Read to Read7, ..., SuperService to SuperService7, Devel to Devel6, Admin.\<close>

definition access_level_cases :: "int list" where
  "access_level_cases =
     [0] @ [1, 2, 3, 4, 5, 6, 7] @ [8, 9, 10, 11, 12, 13, 14, 15] @ [16, 17, 18, 19, 20, 21, 22, 23]
     @ [24, 25, 26, 27, 28, 29, 30, 31] @ [32, 33, 34, 35, 36, 37, 38, 39]
     @ [40, 41, 42, 43, 44, 45, 46, 47] @ [48, 49, 50, 51, 52, 53, 54, 55]
     @ [56, 57, 58, 59, 60, 61, 62] @ [63]"

definition accessLevelFromInt :: "int \<Rightarrow> access_level option" where
  "accessLevelFromInt i = (if i \<in> set access_level_cases then Some i else None)"

section \<open>Grants\<close>

record access_grant =
  ag_level :: access_level
  ag_access :: string

definition AccessGrant_make :: "access_level option \<Rightarrow> string \<Rightarrow> access_grant" where
  "AccessGrant_make level access = \<lparr>ag_level = (case level of Some l \<Rightarrow> l | None \<Rightarrow> AccessLevel_None), ag_access = access\<rparr>"

text \<open>What the loop of \<open>fromShv2Access\<close> does with one piece of the comma-separated list.\<close>

definition shv2_piece :: "string \<Rightarrow> access_grant \<Rightarrow> access_grant" where
  "shv2_piece level_str ret =
     (if level_str = [] then ret
      else (case accessLevelFromAccessString level_str of
              Some level \<Rightarrow> if level > ag_level ret then ret\<lparr>ag_level := level\<rparr> else ret
            | None \<Rightarrow>
                ret\<lparr>ag_access := (if ag_access ret \<noteq> [] then ag_access ret @ '','' else ag_access ret) @ level_str\<rparr>))"

function shv2_loop :: "string \<Rightarrow> access_grant \<Rightarrow> access_grant" where
  "shv2_loop shv2_access ret =
     (if shv2_access = [] then ret
      else (let level_str = takeWhile (\<lambda>c. c \<noteq> CHR '','') shv2_access;
                rest = drop (length level_str) shv2_access;
                rest' = (if CHR '','' \<in> set shv2_access then drop 1 rest else rest)
            in shv2_loop rest' (shv2_piece level_str ret)))"
  by pat_completeness auto
termination
proof (relation "measure (\<lambda>(s, r). length s)")
  fix s :: string and ret :: access_grant and x xa xb
  assume "s \<noteq> []" "x = takeWhile (\<lambda>c. c \<noteq> CHR '','') s" "xa = drop (length x) s"
    "xb = (if CHR '','' \<in> set s then drop 1 xa else xa)"
  moreover have "CHR '','' \<notin> set s \<Longrightarrow> takeWhile (\<lambda>c. c \<noteq> CHR '','') s = s" by (rule takeWhile_eq_all_conv [THEN iffD2]) auto
  ultimately show "((xb, shv2_piece x ret), s, ret) \<in> measure (\<lambda>(s, r). length s)" by (cases s) auto
qed simp

declare shv2_loop.simps [simp del]

definition AccessGrant_fromShv2Access :: "string \<Rightarrow> int \<Rightarrow> access_grant" where
  "AccessGrant_fromShv2Access shv2_access level =
     shv2_loop shv2_access (AccessGrant_make (accessLevelFromInt level) [])"

definition AccessGrant_toShv2Access :: "access_grant \<Rightarrow> string" where
  "AccessGrant_toShv2Access g =
     (let level_str = accessLevelToAccessString (ag_level g)
      in if level_str \<noteq> [] then (if ag_access g \<noteq> [] then level_str @ '','' @ ag_access g else level_str)
         else [])"

definition AccessGrant_toPrettyString :: "access_grant \<Rightarrow> string" where
  "AccessGrant_toPrettyString g =
     (let s = accessLevelToAccessString (ag_level g);
          s' = (if s = [] then s @ ''('' @ to_string_int (ag_level g) @ '')'' else s)
      in if ag_access g \<noteq> [] then s' @ '','' @ ag_access g else s')"

section \<open>Logins\<close>

datatype login_type = LT_Invalid | LT_Plain | LT_Sha1 | LT_RsaOaep | LT_None | LT_AzureAccessToken | LT_Token

record user_login =
  ul_user :: string
  ul_password :: string
  ul_loginType :: login_type

definition toupper :: "char \<Rightarrow> char" where
  "toupper c = (let n = of_char c :: nat in if 97 \<le> n \<and> n \<le> 122 then char_of (n - 32) else c)"

text \<open>
  The misplaced parenthesis of \<open>toupper(c2 != toupper(s1[i]))\<close> leaves the comparison as it is:
  the first string is folded to upper case, the second is not.
\<close>

fun str_eq :: "string \<Rightarrow> string \<Rightarrow> bool" where
  "str_eq [] [] = True"
| "str_eq [] (c2 # s2) = False"
| "str_eq (c1 # s1) [] = False"
| "str_eq (c1 # s1) (c2 # s2) = (if c2 \<noteq> toupper c1 then False else str_eq s1 s2)"

definition UserLogin_isValid :: "user_login \<Rightarrow> bool" where
  "UserLogin_isValid u \<longleftrightarrow> ul_user u \<noteq> []"

definition UserLogin_loginTypeToString :: "login_type \<Rightarrow> string" where
  "UserLogin_loginTypeToString t =
     (case t of
        LT_None \<Rightarrow> ''NONE'' | LT_Plain \<Rightarrow> ''PLAIN'' | LT_Sha1 \<Rightarrow> ''SHA1'' | LT_RsaOaep \<Rightarrow> ''RSAOAEP''
      | LT_AzureAccessToken \<Rightarrow> ''AZURE'' | LT_Token \<Rightarrow> ''TOKEN'' | LT_Invalid \<Rightarrow> ''INVALID'')"

definition UserLogin_loginTypeFromString :: "string \<Rightarrow> login_type" where
  "UserLogin_loginTypeFromString s =
     (if str_eq s (UserLogin_loginTypeToString LT_None) then LT_None
      else if str_eq s (UserLogin_loginTypeToString LT_Plain) then LT_Plain
      else if str_eq s (UserLogin_loginTypeToString LT_Sha1) then LT_Sha1
      else if str_eq s (UserLogin_loginTypeToString LT_RsaOaep) then LT_RsaOaep
      else if str_eq s (UserLogin_loginTypeToString LT_AzureAccessToken) then LT_AzureAccessToken
      else if str_eq s (UserLogin_loginTypeToString LT_Token) then LT_Token
      else LT_Invalid)"

definition UserLogin_toRpcValueMap :: "user_login \<Rightarrow> rpc_value" where
  "UserLogin_toRpcValueMap u =
     rpc (VMap (map_set ''loginType'' (rpc (VString (UserLogin_loginTypeToString (ul_loginType u))))
       (map_set ''password'' (rpc (VString (ul_password u)))
         (map_set ''user'' (rpc (VString (ul_user u))) []))))"

text \<open>A default-constructed \<open>UserLogin\<close> leaves its login type unset; the caller gets it for a non-map.\<close>

definition UserLogin_fromRpcValue :: "user_login \<Rightarrow> rpc_value \<Rightarrow> user_login" where
  "UserLogin_fromRpcValue fresh val =
     (if RpcValue_isMap val then
        (let m = RpcValue_asMap val;
             user = RpcValue_toString (RpcMap_value m ''user'' invalid_value);
             lts = RpcValue_toString (RpcMap_value m ''type'' invalid_value);
             lt = (if lts = [] then LT_Sha1 else UserLogin_loginTypeFromString lts)
         in \<lparr>ul_user = user,
             ul_password = RpcValue_toString (RpcMap_value m (if lt = LT_Token then ''token'' else ''password'') invalid_value),
             ul_loginType = lt\<rparr>)
      else fresh)"

record user_login_result =
  ulr_passwordOk :: bool
  ulr_loginError :: string
  ulr_clientId :: int
  ulr_brokerId :: string
  ulr_userNameOverride :: "string option"

definition UserLoginResult_make :: "bool \<Rightarrow> string \<Rightarrow> user_login_result" where
  "UserLoginResult_make password_ok login_error =
     \<lparr>ulr_passwordOk = password_ok, ulr_loginError = login_error, ulr_clientId = 0, ulr_brokerId = [],
      ulr_userNameOverride = None\<rparr>"

definition UserLoginResult_toRpcValue :: "user_login_result \<Rightarrow> rpc_value" where
  "UserLoginResult_toRpcValue r =
     rpc (VMap (if ulr_passwordOk r \<and> ulr_clientId r > 0
                then map_set ''clientId'' (rpc (VInt (ulr_clientId r))) [] else []))"

section \<open>Levels and their names\<close>

lemma accessLevelFromInt_range: "accessLevelFromInt i = (if 0 \<le> i \<and> i \<le> 63 then Some i else None)"
proof -
  have "i \<in> set access_level_cases \<longleftrightarrow> i \<in> {0..63}"
    unfolding access_level_cases_def by (simp add: atLeastAtMost_iff) presburger
  then show ?thesis by (simp add: accessLevelFromInt_def)
qed

definition named_level :: "access_level \<Rightarrow> bool" where
  "named_level l \<longleftrightarrow> accessLevelToAccessString l \<noteq> []"

lemma level_name_roundtrip:
  "named_level l \<Longrightarrow> accessLevelFromAccessString (accessLevelToAccessString l) = Some l"
  by (auto simp: named_level_def accessLevelToAccessString_def accessLevelFromAccessString_def split: if_splits)

lemma level_of_name:
  "accessLevelFromAccessString s = Some l \<longleftrightarrow> s \<noteq> [] \<and> accessLevelToAccessString l = s"
  by (auto simp: accessLevelToAccessString_def accessLevelFromAccessString_def split: if_splits)

lemma level_name_no_comma: "CHR '','' \<notin> set (accessLevelToAccessString l)"
  by (simp add: accessLevelToAccessString_def)

lemma level_name_range: "accessLevelFromAccessString s = Some l \<Longrightarrow> 0 < l \<and> l \<le> 63"
  by (auto simp: accessLevelFromAccessString_def split: if_splits)

section \<open>What \<open>fromShv2Access\<close> computes\<close>

fun comma_split :: "string \<Rightarrow> string list" where
  "comma_split [] = [[]]"
| "comma_split (c # cs) =
     (if c = CHR '','' then [] # comma_split cs
      else (case comma_split cs of p # ps \<Rightarrow> (c # p) # ps | [] \<Rightarrow> [[c]]))"

fun comma_join :: "string list \<Rightarrow> string" where
  "comma_join [] = []"
| "comma_join [p] = p"
| "comma_join (p # q # ps) = p @ '','' @ comma_join (q # ps)"

lemma comma_split_nonempty: "comma_split s \<noteq> []"
  by (induction s) (auto split: list.splits)

lemma comma_split_no_comma: "CHR '','' \<notin> set s \<Longrightarrow> comma_split s = [s]"
  by (induction s) auto

lemma comma_split_append:
  "CHR '','' \<notin> set p \<Longrightarrow> comma_split (p @ CHR '','' # s) = p # comma_split s"
  by (induction p) auto

lemma comma_split_join:
  "ps \<noteq> [] \<Longrightarrow> (\<forall>p \<in> set ps. CHR '','' \<notin> set p) \<Longrightarrow> comma_split (comma_join ps) = ps"
  by (induction ps rule: comma_join.induct) (auto simp: comma_split_no_comma comma_split_append)

lemma takeWhile_comma_split:
  assumes "s \<noteq> []"
  defines "p \<equiv> takeWhile (\<lambda>c. c \<noteq> CHR '','') s"
  shows "if CHR '','' \<in> set s then s = p @ CHR '','' # drop 1 (drop (length p) s) else s = p"
proof (cases "CHR '','' \<in> set s")
  case True
  then obtain ys zs where s: "s = ys @ CHR '','' # zs" and ys: "CHR '','' \<notin> set ys"
    by (meson split_list_first)
  have "takeWhile (\<lambda>c. c \<noteq> CHR '','') (ys @ CHR '','' # zs) = ys"
    using ys by (induction ys) auto
  then show ?thesis using True by (simp add: p_def s)
next
  case False
  then have "takeWhile (\<lambda>c. c \<noteq> CHR '','') s = s" by (intro takeWhile_eq_all_conv [THEN iffD2]) auto
  then have "p = s" by (simp only: p_def)
  then show ?thesis using False by simp
qed

lemma shv2_loop_split: "shv2_loop s r = foldl (\<lambda>r p. shv2_piece p r) r (comma_split s)"
proof (induction s r rule: shv2_loop.induct)
  case (1 s r)
  show ?case
  proof (cases "s = []")
    case True
    then show ?thesis by (simp add: shv2_loop.simps [of "[]"] shv2_piece_def)
  next
    case False
    define p where "p = takeWhile (\<lambda>c. c \<noteq> CHR '','') s"
    define t where "t = (if CHR '','' \<in> set s then drop 1 (drop (length p) s) else drop (length p) s)"
    have rec: "shv2_loop s r = foldl (\<lambda>r p. shv2_piece p r) (shv2_piece p r) (comma_split t)"
      using "1.IH" [OF False p_def refl t_def] False
      unfolding shv2_loop.simps [of s r] Let_def p_def [symmetric] t_def [symmetric] by simp
    have pc: "CHR '','' \<notin> set p" unfolding p_def by (auto dest: set_takeWhileD)
    show ?thesis
    proof (cases "CHR '','' \<in> set s")
      case True
      then have "s = p @ CHR '','' # t" using takeWhile_comma_split [OF False] by (simp add: p_def t_def)
      then have "comma_split s = p # comma_split t" using pc by (metis comma_split_append)
      then show ?thesis using rec by simp
    next
      case F2: False
      then have "s = p" using takeWhile_comma_split [OF False] by (simp add: p_def)
      then show ?thesis using rec F2 pc by (simp add: t_def comma_split_no_comma shv2_piece_def)
    qed
  qed
qed

definition is_level_name :: "string \<Rightarrow> bool" where
  "is_level_name p \<longleftrightarrow> accessLevelFromAccessString p \<noteq> None"

lemma fold_shv2_level:
  "ag_level (foldl (\<lambda>r p. shv2_piece p r) r ps) =
     foldl max (ag_level r) (map (the \<circ> accessLevelFromAccessString) (filter is_level_name ps))"
proof (induction ps arbitrary: r)
  case (Cons p ps)
  have "\<not> is_level_name []" by (simp add: is_level_name_def accessLevelFromAccessString_def)
  then show ?case
    using Cons by (auto simp: shv2_piece_def is_level_name_def max_def split: option.splits)
qed simp

definition access_piece :: "string \<Rightarrow> bool" where
  "access_piece p \<longleftrightarrow> p \<noteq> [] \<and> \<not> is_level_name p"

lemma comma_join_snoc: "ps \<noteq> [] \<Longrightarrow> comma_join (ps @ [p]) = comma_join ps @ '','' @ p"
  by (induction ps rule: comma_join.induct) auto

lemma comma_join_empty_iff: "\<forall>p \<in> set ps. p \<noteq> [] \<Longrightarrow> comma_join ps = [] \<longleftrightarrow> ps = []"
  by (induction ps rule: comma_join.induct) auto

lemma fold_shv2_access:
  "\<forall>q \<in> set qs. access_piece q \<Longrightarrow> ag_access r = comma_join qs \<Longrightarrow>
   ag_access (foldl (\<lambda>r p. shv2_piece p r) r ps) = comma_join (qs @ filter access_piece ps)"
proof (induction ps arbitrary: r qs)
  case (Cons p ps)
  show ?case
  proof (cases "access_piece p")
    case True
    have "comma_join qs = [] \<longleftrightarrow> qs = []" using Cons.prems(1) by (intro comma_join_empty_iff) (auto simp: access_piece_def)
    then have "ag_access (shv2_piece p r) = comma_join (qs @ [p])"
      using True Cons.prems(2)
      by (cases "qs = []") (auto simp: access_piece_def is_level_name_def shv2_piece_def comma_join_snoc)
    then show ?thesis using Cons.IH [of "qs @ [p]" "shv2_piece p r"] Cons.prems(1) True by simp
  next
    case False
    then have "ag_access (shv2_piece p r) = ag_access r"
      by (auto simp: access_piece_def is_level_name_def shv2_piece_def split: option.splits)
    then show ?thesis using Cons False by simp
  qed
qed simp

text \<open>The highest level named and everything that is no level name, in order.\<close>

lemma fromShv2Access_spec:
  "ag_level (AccessGrant_fromShv2Access s l) =
     foldl max (case accessLevelFromInt l of Some b \<Rightarrow> b | None \<Rightarrow> AccessLevel_None)
       (map (the \<circ> accessLevelFromAccessString) (filter is_level_name (comma_split s)))"
  "ag_access (AccessGrant_fromShv2Access s l) = comma_join (filter access_piece (comma_split s))"
  by (simp_all add: AccessGrant_fromShv2Access_def shv2_loop_split fold_shv2_level AccessGrant_make_def
      fold_shv2_access [of "[]"])

text \<open>Grants that the text form can carry.\<close>

definition access_wf :: "string \<Rightarrow> bool" where
  "access_wf a \<longleftrightarrow> a = [] \<or> (\<forall>p \<in> set (comma_split a). access_piece p)"

lemma comma_join_Cons: "comma_join ((c # p) # ps) = c # comma_join (p # ps)"
  by (cases ps) simp_all

lemma comma_join_Nil_Cons: "ps \<noteq> [] \<Longrightarrow> comma_join ([] # ps) = CHR '','' # comma_join ps"
  by (cases ps) simp_all

lemma comma_join_split: "comma_join (comma_split s) = s"
  by (induction s) (auto split: list.splits simp: comma_split_nonempty comma_join_Cons comma_join_Nil_Cons)

lemma shv2_roundtrip_aux:
  assumes named: "named_level (ag_level g)" and acc: "access_wf (ag_access g)" and le: "l \<le> ag_level g"
  shows "AccessGrant_fromShv2Access (AccessGrant_toShv2Access g) l = g"
proof -
  define n where "n = accessLevelToAccessString (ag_level g)"
  have n: "n \<noteq> []" "CHR '','' \<notin> set n" "is_level_name n" "the (accessLevelFromAccessString n) = ag_level g"
    using named level_name_roundtrip [OF named] level_name_no_comma
    by (auto simp: n_def named_level_def is_level_name_def)
  define ps where "ps = (if ag_access g = [] then [] else comma_split (ag_access g))"
  have split: "comma_split (AccessGrant_toShv2Access g) = n # ps"
    using n by (auto simp: AccessGrant_toShv2Access_def n_def [symmetric] Let_def ps_def comma_split_no_comma
        comma_split_append)
  have ps: "filter is_level_name ps = []" "filter access_piece ps = ps"
    using acc by (auto simp: ps_def access_wf_def filter_empty_conv access_piece_def filter_id_conv)
  have join: "comma_join ps = ag_access g" by (auto simp: ps_def comma_join_split)
  have "(case accessLevelFromInt l of Some b \<Rightarrow> b | None \<Rightarrow> AccessLevel_None) \<le> ag_level g"
    using le level_name_range [of n "ag_level g"] n level_name_roundtrip [OF named]
    by (auto simp: accessLevelFromInt_range n_def split: if_splits)
  then show ?thesis
    using n ps join
    by (intro access_grant.equality) (simp_all add: fromShv2Access_spec split access_piece_def max_absorb2)
qed

section \<open>Login types\<close>

lemma str_eq_upper: "str_eq s t \<longleftrightarrow> map toupper s = t"
  by (induction s t rule: str_eq.induct) auto

lemma loginType_roundtrip: "UserLogin_loginTypeFromString (UserLogin_loginTypeToString t) = t"
  by (cases t) (simp_all add: UserLogin_loginTypeFromString_def UserLogin_loginTypeToString_def str_eq_upper
      toupper_def)

end
