(* ===== verification/Rpc_Message.thy ===== *)
theory Rpc_Message
  imports Access_Grant
begin

text \<open>
  RPC messages (\<open>rpcmessage.h\<close>, \<open>rpcmessage.cpp\<close>): a message is an \<open>IMap\<close> value whose meta
  data carry the routing fields (request id, path, method, caller ids, access) and whose entries
  carry parameters, result or error.  The static functions on \<open>MetaData\<close> have the suffix
  \<open>_m\<close>, the methods of \<open>RpcMessage\<close> have none.  The locale \<open>meta_field\<close> states what a pair of
  accessors of one meta-data tag promises and is interpreted for every tag; the locale
  \<open>id_stack\<close> is the contract of the caller-id list that routes a response back.
\<close>

section \<open>Tags and keys\<close>

abbreviation Tag_RequestId :: int where "Tag_RequestId \<equiv> 8"
abbreviation Tag_ShvPath :: int where "Tag_ShvPath \<equiv> 9"
abbreviation Tag_Method :: int where "Tag_Method \<equiv> 10"
abbreviation Tag_CallerIds :: int where "Tag_CallerIds \<equiv> 11"
abbreviation Tag_RevCallerIds :: int where "Tag_RevCallerIds \<equiv> 13"
abbreviation Tag_Access :: int where "Tag_Access \<equiv> 14"
abbreviation Tag_TunnelCtl :: int where "Tag_TunnelCtl \<equiv> 15"
abbreviation Tag_UserId :: int where "Tag_UserId \<equiv> 16"
abbreviation Tag_AccessLevel :: int where "Tag_AccessLevel \<equiv> 17"
abbreviation Tag_Source :: int where "Tag_Source \<equiv> 19"

abbreviation Key_Params :: int where "Key_Params \<equiv> 1"
abbreviation Key_Result :: int where "Key_Result \<equiv> 2"
abbreviation Key_Error :: int where "Key_Error \<equiv> 3"
abbreviation Key_Delay :: int where "Key_Delay \<equiv> 4"

definition RpcMessage_MetaType_ID :: int where "RpcMessage_MetaType_ID = 1"

type_synonym rpc_message = rpc_value

section \<open>Meta data of a message\<close>

definition RpcMessage_hasMethod_m :: "rpc_meta \<Rightarrow> bool" where
  "RpcMessage_hasMethod_m md = RpcMetaData_hasKey_i md Tag_Method"

definition RpcMessage_method_m :: "rpc_meta \<Rightarrow> rpc_value" where
  "RpcMessage_method_m md = RpcMetaData_value_i md Tag_Method invalid_value"

definition RpcMessage_setMethod_m :: "string \<Rightarrow> rpc_meta \<Rightarrow> rpc_meta" where
  "RpcMessage_setMethod_m met md = RpcMetaData_setValue_i Tag_Method (rpc (VString met)) md"

definition RpcMessage_hasRequestId_m :: "rpc_meta \<Rightarrow> bool" where
  "RpcMessage_hasRequestId_m md = RpcMetaData_hasKey_i md Tag_RequestId"

definition RpcMessage_requestId_m :: "rpc_meta \<Rightarrow> rpc_value" where
  "RpcMessage_requestId_m md = RpcMetaData_value_i md Tag_RequestId invalid_value"

definition RpcMessage_setRequestId_m :: "rpc_value \<Rightarrow> rpc_meta \<Rightarrow> rpc_meta" where
  "RpcMessage_setRequestId_m i md = RpcMetaData_setValue_i Tag_RequestId i md"

definition RpcMessage_isRequest_m :: "rpc_meta \<Rightarrow> bool" where
  "RpcMessage_isRequest_m md \<longleftrightarrow> RpcMessage_hasRequestId_m md \<and> RpcMessage_hasMethod_m md"

definition RpcMessage_isResponse_m :: "rpc_meta \<Rightarrow> bool" where
  "RpcMessage_isResponse_m md \<longleftrightarrow> RpcMessage_hasRequestId_m md \<and> \<not> RpcMessage_hasMethod_m md"

definition RpcMessage_isSignal_m :: "rpc_meta \<Rightarrow> bool" where
  "RpcMessage_isSignal_m md \<longleftrightarrow> \<not> RpcMessage_hasRequestId_m md \<and> RpcMessage_hasMethod_m md"

definition RpcMessage_shvPath_m :: "rpc_meta \<Rightarrow> rpc_value" where
  "RpcMessage_shvPath_m md = RpcMetaData_value_i md Tag_ShvPath invalid_value"

definition RpcMessage_setShvPath_m :: "string \<Rightarrow> rpc_meta \<Rightarrow> rpc_meta" where
  "RpcMessage_setShvPath_m path md = RpcMetaData_setValue_i Tag_ShvPath (rpc (VString path)) md"

definition RpcMessage_access_m :: "rpc_meta \<Rightarrow> string" where
  "RpcMessage_access_m md = RpcValue_asString (RpcMetaData_value_i md Tag_Access invalid_value)"

definition access_value :: "string \<Rightarrow> rpc_value" where
  "access_value access = (if access = [] then invalid_value else rpc (VString access))"

definition RpcMessage_setAccess_m :: "string \<Rightarrow> rpc_meta \<Rightarrow> rpc_meta" where
  "RpcMessage_setAccess_m access md = RpcMetaData_setValue_i Tag_Access (access_value access) md"

definition RpcMessage_accessLevel_m :: "rpc_meta \<Rightarrow> exn + int" where
  "RpcMessage_accessLevel_m md = RpcValue_toInt (RpcMetaData_value_i md Tag_AccessLevel invalid_value)"

definition access_level_value :: "access_level \<Rightarrow> rpc_value" where
  "access_level_value level = (if level = AccessLevel_None then invalid_value else rpc (VInt level))"

definition RpcMessage_setAccessLevel_m :: "access_level \<Rightarrow> rpc_meta \<Rightarrow> rpc_meta" where
  "RpcMessage_setAccessLevel_m level md = RpcMetaData_setValue_i Tag_AccessLevel (access_level_value level) md"

definition RpcMessage_accessGrant_m :: "rpc_meta \<Rightarrow> exn + access_grant" where
  "RpcMessage_accessGrant_m md =
     map_sum id (AccessGrant_fromShv2Access (RpcMessage_access_m md)) (RpcMessage_accessLevel_m md)"

definition RpcMessage_setAccessGrant_m :: "access_grant \<Rightarrow> rpc_meta \<Rightarrow> rpc_meta" where
  "RpcMessage_setAccessGrant_m ag md =
     RpcMessage_setAccess_m (AccessGrant_toShv2Access ag) (RpcMessage_setAccessLevel_m (ag_level ag) md)"

definition RpcMessage_tunnelCtl_m :: "rpc_meta \<Rightarrow> rpc_value" where
  "RpcMessage_tunnelCtl_m md = RpcMetaData_value_i md Tag_TunnelCtl invalid_value"

definition RpcMessage_setTunnelCtl_m :: "rpc_value \<Rightarrow> rpc_meta \<Rightarrow> rpc_meta" where
  "RpcMessage_setTunnelCtl_m tc md = RpcMetaData_setValue_i Tag_TunnelCtl tc md"

definition RpcMessage_callerIds_m :: "rpc_meta \<Rightarrow> rpc_value" where
  "RpcMessage_callerIds_m md = RpcMetaData_value_i md Tag_CallerIds invalid_value"

definition RpcMessage_setCallerIds_m :: "rpc_value \<Rightarrow> rpc_meta \<Rightarrow> rpc_meta" where
  "RpcMessage_setCallerIds_m ids md = RpcMetaData_setValue_i Tag_CallerIds ids md"

text \<open>The value \<open>pushCallerId\<close> stores; a single id is kept as a number, more of them as a list.\<close>

definition push_id :: "rpc_value \<Rightarrow> int \<Rightarrow> exn + rpc_value" where
  "push_id current caller_id =
     (if RpcValue_isList current then Inr (rpc (VList (RpcValue_asList current @ [rpc (VInt caller_id)])))
      else if RpcValue_isInt current \<or> RpcValue_isUInt current then
        map_sum id (\<lambda>i. rpc (VList [rpc (VInt i), rpc (VInt caller_id)])) (RpcValue_toInt current)
      else Inr (rpc (VInt caller_id)))"

definition RpcMessage_pushCallerId_m :: "int \<Rightarrow> rpc_meta \<Rightarrow> exn + rpc_meta" where
  "RpcMessage_pushCallerId_m caller_id md =
     map_sum id (\<lambda>ids. RpcMessage_setCallerIds_m ids md) (push_id (RpcMessage_callerIds_m md) caller_id)"

definition RpcMessage_popCallerId_v :: "rpc_value \<Rightarrow> exn + rpc_value \<times> int" where
  "RpcMessage_popCallerId_v caller_ids =
     (if RpcValue_isList caller_ids then
        (let array = RpcValue_asList caller_ids
         in if array = [] then Inr (rpc (VList array), 0)
            else map_sum id (\<lambda>i. (rpc (VList (butlast array)), i)) (RpcValue_toInt (last array)))
      else map_sum id (\<lambda>i. (invalid_value, i)) (RpcValue_toInt caller_ids))"

definition RpcMessage_popCallerId_m :: "rpc_meta \<Rightarrow> exn + int \<times> rpc_meta" where
  "RpcMessage_popCallerId_m md =
     map_sum id (\<lambda>(ids, i). (i, RpcMessage_setCallerIds_m ids md))
       (RpcMessage_popCallerId_v (RpcMessage_callerIds_m md))"

definition RpcMessage_peekCallerId_m :: "rpc_meta \<Rightarrow> exn + int" where
  "RpcMessage_peekCallerId_m md =
     (let caller_ids = RpcMessage_callerIds_m md
      in if RpcValue_isList caller_ids then
           (let array = RpcValue_asList caller_ids
            in if array = [] then Inr 0 else RpcValue_toInt (last array))
         else RpcValue_toInt caller_ids)"

definition RpcMessage_revCallerIds_m :: "rpc_meta \<Rightarrow> rpc_value" where
  "RpcMessage_revCallerIds_m md = RpcMetaData_value_i md Tag_RevCallerIds invalid_value"

definition RpcMessage_setRevCallerIds_m :: "rpc_value \<Rightarrow> rpc_meta \<Rightarrow> rpc_meta" where
  "RpcMessage_setRevCallerIds_m ids md = RpcMetaData_setValue_i Tag_RevCallerIds ids md"

definition RpcMessage_pushRevCallerId_m :: "int \<Rightarrow> rpc_meta \<Rightarrow> exn + rpc_meta" where
  "RpcMessage_pushRevCallerId_m caller_id md =
     map_sum id (\<lambda>ids. RpcMessage_setRevCallerIds_m ids md) (push_id (RpcMessage_revCallerIds_m md) caller_id)"

definition RpcMessage_isRegisterRevCallerIds_m :: "rpc_meta \<Rightarrow> bool" where
  "RpcMessage_isRegisterRevCallerIds_m md = RpcValue_isValid (RpcMessage_revCallerIds_m md)"

definition RpcMessage_userId_m :: "rpc_meta \<Rightarrow> rpc_value" where
  "RpcMessage_userId_m md = RpcMetaData_value_i md Tag_UserId invalid_value"

definition RpcMessage_setUserId_m :: "rpc_value \<Rightarrow> rpc_meta \<Rightarrow> rpc_meta" where
  "RpcMessage_setUserId_m user_id md = RpcMetaData_setValue_i Tag_UserId user_id md"

definition RpcMessage_source_m :: "rpc_meta \<Rightarrow> string" where
  "RpcMessage_source_m md = RpcValue_asString (RpcMetaData_value_i md Tag_Source invalid_value)"

definition RpcMessage_setSource_m :: "string \<Rightarrow> rpc_meta \<Rightarrow> rpc_meta" where
  "RpcMessage_setSource_m source md = RpcMetaData_setValue_i Tag_Source (rpc (VString source)) md"

lemmas meta_accessor_defs =
  RpcMessage_hasMethod_m_def RpcMessage_method_m_def RpcMessage_setMethod_m_def
  RpcMessage_hasRequestId_m_def RpcMessage_requestId_m_def RpcMessage_setRequestId_m_def
  RpcMessage_shvPath_m_def RpcMessage_setShvPath_m_def RpcMessage_access_m_def
  RpcMessage_setAccess_m_def RpcMessage_accessLevel_m_def RpcMessage_setAccessLevel_m_def
  RpcMessage_tunnelCtl_m_def RpcMessage_setTunnelCtl_m_def RpcMessage_callerIds_m_def
  RpcMessage_setCallerIds_m_def RpcMessage_revCallerIds_m_def RpcMessage_setRevCallerIds_m_def
  RpcMessage_userId_m_def RpcMessage_setUserId_m_def RpcMessage_source_m_def RpcMessage_setSource_m_def

section \<open>The contract of a meta-data field\<close>

locale meta_field =
  fixes tag :: int
    and put :: "'a \<Rightarrow> rpc_meta \<Rightarrow> rpc_meta"
    and get :: "rpc_meta \<Rightarrow> 'b"
    and view :: "'a \<Rightarrow> 'b"
    and ok :: "'a \<Rightarrow> bool"
  assumes get_put: "ok x \<Longrightarrow> get (put x md) = view x"
    and put_frame: "k \<noteq> tag \<Longrightarrow> map_find (md_imap (put x md)) k = map_find (md_imap md) k"
    and put_strings: "md_smap (put x md) = md_smap md"
    and get_local: "map_find (md_imap md) tag = map_find (md_imap md') tag \<Longrightarrow> get md = get md'"
    and put_wf: "ok x \<Longrightarrow> meta_wf md \<Longrightarrow> meta_wf (put x md)"
begin

lemma other_int: "k \<noteq> tag \<Longrightarrow> RpcMetaData_value_i (put x md) k d = RpcMetaData_value_i md k d"
  by (simp add: RpcMetaData_value_i_def put_frame)

lemma other_string: "RpcMetaData_value_s (put x md) s d = RpcMetaData_value_s md s d"
  by (simp add: RpcMetaData_value_s_def put_strings)

lemma get_other: "k \<noteq> tag \<Longrightarrow> get (RpcMetaData_setValue_i k v md) = get md"
  by (rule get_local) (simp add: RpcMetaData_setValue_i_def std_map_simps)

lemma put_last: "ok y \<Longrightarrow> get (put y (put x md)) = view y"
  by (rule get_put)

end

lemma setValue_i_frame:
  "k \<noteq> tag \<Longrightarrow> map_find (md_imap (RpcMetaData_setValue_i tag v md)) k = map_find (md_imap md) k"
  "md_smap (RpcMetaData_setValue_i tag v md) = md_smap md"
  by (simp_all add: RpcMetaData_setValue_i_def std_map_simps)

lemma value_i_setValue_i:
  "RpcMetaData_value_i (RpcMetaData_setValue_i k v md) k invalid_value = (if RpcValue_isValid v then v else invalid_value)"
  by (simp add: RpcMetaData_value_setValue)

lemma value_i_local:
  "map_find (md_imap md) k = map_find (md_imap md') k \<Longrightarrow> RpcMetaData_value_i md k d = RpcMetaData_value_i md' k d"
  by (simp add: RpcMetaData_value_i_def)

text \<open>A field that stores a value as it is; an invalid value clears it, with or without meta data of its own.\<close>

definition storable :: "rpc_value \<Rightarrow> bool" where
  "storable v \<longleftrightarrow> rpc_wf v \<and> (RpcValue_isValid v \<or> v = invalid_value)"

lemma raw_field: "in_s 32 tag \<Longrightarrow>
  meta_field tag (RpcMetaData_setValue_i tag) (\<lambda>md. RpcMetaData_value_i md tag invalid_value) (\<lambda>v. v) storable"
  by unfold_locales
     (auto simp: setValue_i_frame value_i_setValue_i storable_def meta_wf_setValue intro: value_i_local)

lemma rpc_wf_string [simp]: "rpc_wf (rpc (VString s))" "RpcValue_isValid (rpc (VString s))"
  by (simp_all add: type_test_defs)

lemma string_field: "in_s 32 tag \<Longrightarrow>
  meta_field tag (\<lambda>s. RpcMetaData_setValue_i tag (rpc (VString s))) (\<lambda>md. RpcMetaData_value_i md tag invalid_value)
    (\<lambda>s. rpc (VString s)) (\<lambda>_. True)"
  by unfold_locales (auto simp: setValue_i_frame value_i_setValue_i meta_wf_setValue intro: value_i_local)

interpretation requestId_field: meta_field Tag_RequestId RpcMessage_setRequestId_m RpcMessage_requestId_m "\<lambda>v. v" storable
  using raw_field [of 8] by (simp add: meta_accessor_defs [abs_def] in_s_def)

interpretation callerIds_field: meta_field Tag_CallerIds RpcMessage_setCallerIds_m RpcMessage_callerIds_m "\<lambda>v. v" storable
  using raw_field [of 11] by (simp add: meta_accessor_defs [abs_def] in_s_def)

interpretation revCallerIds_field: meta_field Tag_RevCallerIds RpcMessage_setRevCallerIds_m RpcMessage_revCallerIds_m
    "\<lambda>v. v" storable
  using raw_field [of 13] by (simp add: meta_accessor_defs [abs_def] in_s_def)

interpretation tunnelCtl_field: meta_field Tag_TunnelCtl RpcMessage_setTunnelCtl_m RpcMessage_tunnelCtl_m "\<lambda>v. v" storable
  using raw_field [of 15] by (simp add: meta_accessor_defs [abs_def] in_s_def)

interpretation userId_field: meta_field Tag_UserId RpcMessage_setUserId_m RpcMessage_userId_m "\<lambda>v. v" storable
  using raw_field [of 16] by (simp add: meta_accessor_defs [abs_def] in_s_def)

interpretation method_field: meta_field Tag_Method RpcMessage_setMethod_m RpcMessage_method_m "\<lambda>s. rpc (VString s)" "\<lambda>_. True"
  using string_field [of 10] by (simp add: meta_accessor_defs [abs_def] in_s_def)

interpretation shvPath_field: meta_field Tag_ShvPath RpcMessage_setShvPath_m RpcMessage_shvPath_m "\<lambda>s. rpc (VString s)" "\<lambda>_. True"
  using string_field [of 9] by (simp add: meta_accessor_defs [abs_def] in_s_def)

lemma access_fields:
  "RpcMessage_access_m (RpcMessage_setAccess_m a md) = a"
  "in_s 32 l \<Longrightarrow> RpcMessage_accessLevel_m (RpcMessage_setAccessLevel_m l md) = Inr l"
  "RpcMessage_source_m (RpcMessage_setSource_m a md) = a"
  by (auto simp: meta_accessor_defs value_i_setValue_i access_value_def access_level_value_def as_defs
      type_test_defs RpcValue_toInt_def impl_to_int_def s_wrap_id)

interpretation source_field: meta_field Tag_Source RpcMessage_setSource_m RpcMessage_source_m "\<lambda>s. s" "\<lambda>_. True"
proof unfold_locales
  fix x md
  show "meta_wf md \<Longrightarrow> meta_wf (RpcMessage_setSource_m x md)"
    by (auto simp: RpcMessage_setSource_m_def in_s_def intro!: meta_wf_setValue)
qed (auto simp: access_fields, auto simp: meta_accessor_defs setValue_i_frame RpcMetaData_value_i_def)

interpretation access_field: meta_field Tag_Access RpcMessage_setAccess_m RpcMessage_access_m "\<lambda>s. s" "\<lambda>_. True"
proof unfold_locales
  fix x md
  show "meta_wf md \<Longrightarrow> meta_wf (RpcMessage_setAccess_m x md)"
    by (auto simp: RpcMessage_setAccess_m_def access_value_def in_s_def intro!: meta_wf_setValue)
qed (auto simp: access_fields, auto simp: meta_accessor_defs setValue_i_frame RpcMetaData_value_i_def)

interpretation accessLevel_field: meta_field Tag_AccessLevel RpcMessage_setAccessLevel_m RpcMessage_accessLevel_m Inr "in_s 32"
proof unfold_locales
  fix x md
  show "in_s 32 x \<Longrightarrow> meta_wf md \<Longrightarrow> meta_wf (RpcMessage_setAccessLevel_m x md)"
    using in_s_mono [of 32 x 64]
    by (auto simp: RpcMessage_setAccessLevel_m_def access_level_value_def in_s_def intro!: meta_wf_setValue)
qed (auto simp: access_fields, auto simp: meta_accessor_defs setValue_i_frame RpcMetaData_value_i_def)

section \<open>Messages\<close>

text \<open>The constructor from a value.\<close>

definition RpcMessage_of_value :: "rpc_value \<Rightarrow> exn + rpc_message" where
  "RpcMessage_of_value val =
     (if \<not> RpcValue_isIMap val then Inl (ShvException ''Value is not IMap'') else Inr val)"

definition RpcMessage_empty :: rpc_message where
  "RpcMessage_empty = invalid_value"

text \<open>An unset message becomes an empty map with its meta type before anything is stored in it.\<close>

definition RpcMessage_checkMetaValues :: "rpc_message \<Rightarrow> rpc_message" where
  "RpcMessage_checkMetaValues m =
     (if \<not> RpcValue_isValid m
      then RpcValue (Some (RpcMetaData_setValue_i Tag_MetaTypeId (rpc (VInt RpcMessage_MetaType_ID)) meta_empty)) (VIMap [])
      else m)"

definition RpcMessage_isValid :: "rpc_message \<Rightarrow> bool" where
  "RpcMessage_isValid m = RpcValue_isValid m"

definition RpcMessage_hasKey :: "rpc_message \<Rightarrow> int \<Rightarrow> bool" where
  "RpcMessage_hasKey m key \<longleftrightarrow> map_find (RpcValue_asIMap m) key \<noteq> None"

definition RpcMessage_value :: "rpc_message \<Rightarrow> int \<Rightarrow> rpc_value" where
  "RpcMessage_value m key = RpcValue_at_i m key invalid_value"

definition RpcMessage_setValue :: "int \<Rightarrow> rpc_value \<Rightarrow> rpc_message \<Rightarrow> rpc_message" where
  "RpcMessage_setValue key val m = RpcValue_set_i key val (RpcMessage_checkMetaValues m)"

definition RpcMessage_metaData :: "rpc_message \<Rightarrow> rpc_meta" where
  "RpcMessage_metaData m = RpcValue_metaData m"

definition RpcMessage_metaValue_i :: "rpc_message \<Rightarrow> int \<Rightarrow> rpc_value" where
  "RpcMessage_metaValue_i m key = RpcValue_metaValue_i m key invalid_value"

definition RpcMessage_metaValue_s :: "rpc_message \<Rightarrow> string \<Rightarrow> rpc_value" where
  "RpcMessage_metaValue_s m key = RpcValue_metaValue_s m key invalid_value"

text \<open>
  \<open>setMetaValue\<close> stores into a value that \<open>checkMetaValues\<close> has made valid, so
  \<open>RpcValue::setMetaValue\<close> never throws here (lemma \<open>setMetaValue_no_throw\<close>).
\<close>

definition RpcMessage_setMetaValue_i :: "int \<Rightarrow> rpc_value \<Rightarrow> rpc_message \<Rightarrow> rpc_message" where
  "RpcMessage_setMetaValue_i key val m =
     (let m' = RpcMessage_checkMetaValues m
      in RpcValue (Some (RpcMetaData_setValue_i key val (RpcValue_metaData m'))) (rv_var m'))"

definition RpcMessage_setMetaValue_s :: "string \<Rightarrow> rpc_value \<Rightarrow> rpc_message \<Rightarrow> rpc_message" where
  "RpcMessage_setMetaValue_s key val m =
     (let m' = RpcMessage_checkMetaValues m
      in RpcValue (Some (RpcMetaData_setValue_s key val (RpcValue_metaData m'))) (rv_var m'))"

lemma setMetaValue_no_throw:
  "RpcValue_setMetaValue_i k v (RpcMessage_checkMetaValues m) = Inr (RpcMessage_setMetaValue_i k v m)"
  "RpcValue_setMetaValue_s s v (RpcMessage_checkMetaValues m) = Inr (RpcMessage_setMetaValue_s s v m)"
  by (auto simp: RpcValue_setMetaValue_i_def RpcValue_setMetaValue_s_def RpcMessage_setMetaValue_i_def
      RpcMessage_setMetaValue_s_def RpcMessage_checkMetaValues_def type_test_defs Let_def)

definition RpcMessage_requestId :: "rpc_message \<Rightarrow> rpc_value" where
  "RpcMessage_requestId m =
     (if RpcMessage_isValid m then RpcMessage_requestId_m (RpcMessage_metaData m) else invalid_value)"

definition RpcMessage_setRequestId :: "rpc_value \<Rightarrow> rpc_message \<Rightarrow> rpc_message" where
  "RpcMessage_setRequestId i m = RpcMessage_setMetaValue_i Tag_RequestId i (RpcMessage_checkMetaValues m)"

definition RpcMessage_hasRequestId :: "rpc_message \<Rightarrow> bool" where
  "RpcMessage_hasRequestId m = RpcMetaData_hasKey_i (RpcMessage_metaData m) Tag_RequestId"

definition RpcMessage_hasMethod :: "rpc_message \<Rightarrow> bool" where
  "RpcMessage_hasMethod m = RpcMetaData_hasKey_i (RpcMessage_metaData m) Tag_Method"

definition RpcMessage_method :: "rpc_message \<Rightarrow> rpc_value" where
  "RpcMessage_method m = RpcMessage_metaValue_i m Tag_Method"

definition RpcMessage_setMethod :: "string \<Rightarrow> rpc_message \<Rightarrow> rpc_message" where
  "RpcMessage_setMethod met m =
     RpcMessage_setMetaValue_i Tag_Method (rpc (VString met)) (RpcMessage_checkMetaValues m)"

definition RpcMessage_isRequest :: "rpc_message \<Rightarrow> bool" where
  "RpcMessage_isRequest m \<longleftrightarrow> RpcMessage_hasRequestId m \<and> RpcMessage_hasMethod m"

definition RpcMessage_isSignal :: "rpc_message \<Rightarrow> bool" where
  "RpcMessage_isSignal m \<longleftrightarrow> \<not> RpcMessage_hasRequestId m \<and> RpcMessage_hasMethod m"

definition RpcMessage_isResponse :: "rpc_message \<Rightarrow> bool" where
  "RpcMessage_isResponse m \<longleftrightarrow> RpcMessage_hasRequestId m \<and> \<not> RpcMessage_hasMethod m"

definition RpcMessage_shvPath :: "rpc_message \<Rightarrow> rpc_value" where
  "RpcMessage_shvPath m = RpcMessage_metaValue_i m Tag_ShvPath"

definition RpcMessage_setShvPath :: "string \<Rightarrow> rpc_message \<Rightarrow> rpc_message" where
  "RpcMessage_setShvPath path m = RpcMessage_setMetaValue_i Tag_ShvPath (rpc (VString path)) m"

definition RpcMessage_accessGrant :: "rpc_message \<Rightarrow> exn + access_grant" where
  "RpcMessage_accessGrant m = RpcMessage_accessGrant_m (RpcMessage_metaData m)"

definition RpcMessage_setAccess :: "string \<Rightarrow> rpc_message \<Rightarrow> rpc_message" where
  "RpcMessage_setAccess access m = RpcMessage_setMetaValue_i Tag_Access (access_value access) m"

definition RpcMessage_setAccessLevel :: "access_level \<Rightarrow> rpc_message \<Rightarrow> rpc_message" where
  "RpcMessage_setAccessLevel level m = RpcMessage_setMetaValue_i Tag_AccessLevel (access_level_value level) m"

definition RpcMessage_setAccessGrant :: "access_grant \<Rightarrow> rpc_message \<Rightarrow> rpc_message" where
  "RpcMessage_setAccessGrant ag m =
     RpcMessage_setAccess (AccessGrant_toShv2Access ag) (RpcMessage_setAccessLevel (ag_level ag) m)"

definition RpcMessage_tunnelCtl :: "rpc_message \<Rightarrow> rpc_value" where
  "RpcMessage_tunnelCtl m = RpcMessage_metaValue_i m Tag_TunnelCtl"

definition RpcMessage_setTunnelCtl :: "rpc_value \<Rightarrow> rpc_message \<Rightarrow> rpc_message" where
  "RpcMessage_setTunnelCtl tc m = RpcMessage_setMetaValue_i Tag_TunnelCtl tc m"

definition RpcMessage_callerIds :: "rpc_message \<Rightarrow> rpc_value" where
  "RpcMessage_callerIds m = RpcMessage_metaValue_i m Tag_CallerIds"

definition RpcMessage_setCallerIds :: "rpc_value \<Rightarrow> rpc_message \<Rightarrow> rpc_message" where
  "RpcMessage_setCallerIds ids m = RpcMessage_setMetaValue_i Tag_CallerIds ids m"

definition RpcMessage_popCallerId :: "rpc_message \<Rightarrow> exn + int \<times> rpc_message" where
  "RpcMessage_popCallerId m =
     map_sum id (\<lambda>(ids, i). (i, RpcMessage_setCallerIds ids m)) (RpcMessage_popCallerId_v (RpcMessage_callerIds m))"

definition RpcMessage_peekCallerId :: "rpc_message \<Rightarrow> exn + int" where
  "RpcMessage_peekCallerId m = RpcMessage_peekCallerId_m (RpcMessage_metaData m)"

definition RpcMessage_revCallerIds :: "rpc_message \<Rightarrow> rpc_value" where
  "RpcMessage_revCallerIds m = RpcMessage_metaValue_i m Tag_RevCallerIds"

definition RpcMessage_setRegisterRevCallerIds :: "rpc_message \<Rightarrow> rpc_message" where
  "RpcMessage_setRegisterRevCallerIds m = RpcMessage_setMetaValue_i Tag_RevCallerIds (rpc VNull) m"

definition RpcMessage_userId :: "rpc_message \<Rightarrow> rpc_value" where
  "RpcMessage_userId m = RpcMessage_metaValue_i m Tag_UserId"

definition RpcMessage_setUserId :: "rpc_value \<Rightarrow> rpc_message \<Rightarrow> rpc_message" where
  "RpcMessage_setUserId user_id m = RpcMessage_setMetaValue_i Tag_UserId user_id m"

definition RpcMessage_source :: "rpc_message \<Rightarrow> string" where
  "RpcMessage_source m = RpcValue_asString (RpcMessage_metaValue_i m Tag_Source)"

definition RpcMessage_setSource :: "string \<Rightarrow> rpc_message \<Rightarrow> rpc_message" where
  "RpcMessage_setSource source m = RpcMessage_setMetaValue_i Tag_Source (rpc (VString source)) m"

section \<open>Requests and signals\<close>

definition RpcRequest_setMethod :: "string \<Rightarrow> rpc_message \<Rightarrow> rpc_message" where
  "RpcRequest_setMethod met m = RpcMessage_setMetaValue_i Tag_Method (rpc (VString met)) m"

definition RpcRequest_params :: "rpc_message \<Rightarrow> rpc_value" where
  "RpcRequest_params m = RpcMessage_value m Key_Params"

definition RpcRequest_setParams :: "rpc_value \<Rightarrow> rpc_message \<Rightarrow> rpc_message" where
  "RpcRequest_setParams p m = RpcMessage_setValue Key_Params p m"

definition RpcRequest_setRequestId :: "int \<Rightarrow> rpc_message \<Rightarrow> rpc_message" where
  "RpcRequest_setRequestId i m = RpcMessage_setRequestId (rpc (VInt i)) m"

definition RpcSignal_signal :: "rpc_message \<Rightarrow> string" where
  "RpcSignal_signal m = RpcValue_asString (RpcMessage_method m)"

definition RpcSignal_setSignal :: "string \<Rightarrow> rpc_message \<Rightarrow> rpc_message" where
  "RpcSignal_setSignal name m = RpcRequest_setMethod name m"

definition RpcSignal_source :: "rpc_message \<Rightarrow> string" where
  "RpcSignal_source m = RpcValue_asString (RpcMessage_metaValue_i m Tag_Source)"

definition RpcSignal_setSource :: "string \<Rightarrow> rpc_message \<Rightarrow> rpc_message" where
  "RpcSignal_setSource name m = RpcMessage_setMetaValue_i Tag_Source (rpc (VString name)) m"

section \<open>Errors\<close>

abbreviation KeyCode :: int where "KeyCode \<equiv> 1"
abbreviation KeyMessage :: int where "KeyMessage \<equiv> 2"
abbreviation KeyData :: int where "KeyData \<equiv> 3"

type_synonym rpc_error = rpc_value

definition RpcError_empty :: rpc_error where
  "RpcError_empty = invalid_value"

definition RpcError_value :: "rpc_error \<Rightarrow> int \<Rightarrow> rpc_value" where
  "RpcError_value e key = RpcIMap_value (RpcValue_asIMap e) key invalid_value"

definition RpcError_setValue :: "int \<Rightarrow> rpc_value \<Rightarrow> rpc_error \<Rightarrow> rpc_error" where
  "RpcError_setValue key v e =
     RpcValue_set_i key v (if \<not> RpcValue_isIMap e then rpc (VIMap []) else e)"

definition RpcError_setMessage :: "string \<Rightarrow> rpc_error \<Rightarrow> rpc_error" where
  "RpcError_setMessage mess e = RpcError_setValue KeyMessage (rpc (VString mess)) e"

definition RpcError_setCode :: "int \<Rightarrow> rpc_error \<Rightarrow> rpc_error" where
  "RpcError_setCode c e = RpcError_setValue KeyCode (rpc (VInt c)) e"

definition RpcError_setData :: "rpc_value \<Rightarrow> rpc_error \<Rightarrow> rpc_error" where
  "RpcError_setData mv e = RpcError_setValue KeyData mv e"

definition RpcError_make :: "string \<Rightarrow> int \<Rightarrow> rpc_value \<Rightarrow> rpc_error" where
  "RpcError_make msg code data =
     RpcError_setData data (RpcError_setCode code (RpcError_setMessage msg RpcError_empty))"

definition RpcError_code :: "rpc_error \<Rightarrow> exn + int" where
  "RpcError_code e = RpcValue_toInt (RpcError_value e KeyCode)"

definition RpcError_message :: "rpc_error \<Rightarrow> string" where
  "RpcError_message e = RpcValue_asString (RpcError_value e KeyMessage)"

definition RpcError_data :: "rpc_error \<Rightarrow> rpc_value" where
  "RpcError_data e = RpcError_value e KeyData"

definition RpcError_errorCodeToString :: "int \<Rightarrow> string" where
  "RpcError_errorCodeToString code =
     (if code = 0 then ''NoError'' else if code = 1 then ''InvalidRequest''
      else if code = 2 then ''MethodNotFound'' else if code = 3 then ''InvalidParams''
      else if code = 4 then ''InternalError'' else if code = 5 then ''ParseError''
      else if code = 6 then ''SyncMethodCallTimeout'' else if code = 7 then ''SyncMethodCallCancelled''
      else if code = 8 then ''MethodCallException'' else if code = 11 then ''UserIdRequired''
      else if code = 9 then ''Unknown'' else to_string_int code)"

text \<open>The printing of the error's data as Cpon is an argument.\<close>

definition RpcError_toString :: "(rpc_value \<Rightarrow> string) \<Rightarrow> rpc_error \<Rightarrow> exn + string" where
  "RpcError_toString toCpon e =
     map_sum id (\<lambda>code.
       let ret = RpcError_errorCodeToString code @ '': '' @ RpcError_message e; d = RpcError_data e
       in if RpcValue_isValid d then ret @ '' data: '' @ toCpon d else ret) (RpcError_code e)"

definition RpcError_fromRpcValue :: "rpc_value \<Rightarrow> rpc_error" where
  "RpcError_fromRpcValue rv = (if RpcValue_isIMap rv then rv else RpcError_empty)"

definition RpcError_toRpcValue :: "rpc_error \<Rightarrow> rpc_value" where
  "RpcError_toRpcValue e = e"

definition RpcError_toJson :: "rpc_error \<Rightarrow> exn + rpc_map" where
  "RpcError_toJson e =
     map_sum id (\<lambda>c. map_emplace ''data'' (RpcError_data e)
        (map_emplace ''message'' (rpc (VString (RpcError_message e))) (map_emplace ''code'' (rpc (VInt c)) [])))
      (RpcError_code e)"

definition RpcError_fromJson :: "rpc_map \<Rightarrow> exn + rpc_error" where
  "RpcError_fromJson json =
     map_sum id (\<lambda>c. RpcError_fromRpcValue (rpc (VIMap
        (map_emplace KeyData (RpcMap_value json ''data'' invalid_value)
          (map_emplace KeyMessage (rpc (VString (RpcValue_asString (RpcMap_value json ''message'' invalid_value))))
            (map_emplace KeyCode (rpc (VInt c)) []))))))
      (RpcValue_toInt (RpcMap_value json ''code'' invalid_value))"

definition RpcError_create :: "int \<Rightarrow> string \<Rightarrow> rpc_value \<Rightarrow> rpc_error" where
  "RpcError_create c msg data =
     RpcError_setData data (RpcError_setMessage msg (RpcError_setCode c RpcError_empty))"

definition RpcError_createMethodCallExceptionError :: "string \<Rightarrow> rpc_error" where
  "RpcError_createMethodCallExceptionError msg =
     RpcError_create 8 (if msg = [] then ''Method call exception'' else msg) invalid_value"

definition RpcError_createInternalError :: "string \<Rightarrow> rpc_error" where
  "RpcError_createInternalError msg = RpcError_create 4 (if msg = [] then ''Internal error'' else msg) invalid_value"

definition RpcError_createSyncMethodCallTimeout :: "string \<Rightarrow> rpc_error" where
  "RpcError_createSyncMethodCallTimeout msg =
     RpcError_create 6 (if msg = [] then ''Sync method call timeout'' else msg) invalid_value"

definition RpcError_isValid :: "rpc_error \<Rightarrow> exn + bool" where
  "RpcError_isValid e = map_sum id (\<lambda>c. c \<noteq> 0) (RpcError_code e)"

section \<open>Responses\<close>

definition RpcResponse_setRequestId :: "rpc_value \<Rightarrow> rpc_message \<Rightarrow> rpc_message" where
  "RpcResponse_setRequestId i m = RpcMessage_setRequestId i m"

definition RpcResponse_forRequest :: "rpc_meta \<Rightarrow> rpc_message" where
  "RpcResponse_forRequest md =
     (let ret = RpcMessage_empty;
          i = RpcMessage_requestId_m md;
          ret = (if RpcValue_isValid i then RpcResponse_setRequestId i ret else ret);
          caller_id = RpcMessage_callerIds_m md
      in if RpcValue_isValid caller_id then RpcMessage_setCallerIds caller_id ret else ret)"

definition RpcRequest_makeResponse :: "rpc_message \<Rightarrow> rpc_message" where
  "RpcRequest_makeResponse rq = RpcResponse_forRequest (RpcMessage_metaData rq)"

definition RpcResponse_error :: "rpc_message \<Rightarrow> rpc_error" where
  "RpcResponse_error m = RpcError_fromRpcValue (RpcMessage_value m Key_Error)"

definition RpcResponse_setError :: "rpc_error \<Rightarrow> rpc_message \<Rightarrow> rpc_message" where
  "RpcResponse_setError err m = RpcMessage_setValue Key_Error (RpcError_toRpcValue err) m"

definition RpcResponse_result :: "rpc_message \<Rightarrow> rpc_value" where
  "RpcResponse_result m = RpcMessage_value m Key_Result"

definition RpcResponse_setResult :: "rpc_value \<Rightarrow> rpc_message \<Rightarrow> rpc_message" where
  "RpcResponse_setResult res m = RpcMessage_setValue Key_Result res m"

definition RpcResponse_isError :: "rpc_message \<Rightarrow> exn + bool" where
  "RpcResponse_isError m = RpcError_isValid (RpcResponse_error m)"

definition RpcResponse_isSuccess :: "rpc_message \<Rightarrow> exn + bool" where
  "RpcResponse_isSuccess m =
     (if RpcValue_isValid (RpcResponse_result m) then map_sum id Not (RpcResponse_isError m) else Inr False)"

definition RpcResponse_hasResult :: "rpc_message \<Rightarrow> exn + bool" where
  "RpcResponse_hasResult m =
     map_sum id (\<lambda>b. b \<or> RpcValue_isValid (RpcResponse_result m)) (RpcError_isValid (RpcResponse_error m))"

definition RpcResponse_errorString :: "(rpc_value \<Rightarrow> string) \<Rightarrow> rpc_message \<Rightarrow> exn + string" where
  "RpcResponse_errorString toCpon m =
     (case RpcResponse_isError m of
        Inl e \<Rightarrow> Inl e
      | Inr True \<Rightarrow> RpcError_toString toCpon (RpcResponse_error m)
      | Inr False \<Rightarrow>
          map_sum id (\<lambda>ok. if ok then [] else if RpcMessage_isValid m then ''Empty RPC message''
             else ''Invalid RPC message'') (RpcResponse_isSuccess m))"

definition RpcResponse_delay :: "rpc_message \<Rightarrow> double option" where
  "RpcResponse_delay m = map_option RpcValue_toDouble (map_find (RpcValue_asIMap m) Key_Delay)"

definition RpcResponse_setDelay :: "double \<Rightarrow> rpc_message \<Rightarrow> rpc_message" where
  "RpcResponse_setDelay d m = RpcMessage_setValue Key_Delay (rpc (VDouble d)) m"

section \<open>The message invariant and read-back\<close>

text \<open>A message is unset or an \<open>IMap\<close>; every setter keeps that, and what it stores is read back.\<close>

definition message_wf :: "rpc_message \<Rightarrow> bool" where
  "message_wf m \<longleftrightarrow> rpc_wf m \<and> (m = invalid_value \<or> RpcValue_isIMap m)"

lemma isIMap_iff: "RpcValue_isIMap v \<longleftrightarrow> (\<exists>im. rv_var v = VIMap im)"
  by (cases "rv_var v") (auto simp: type_test_defs)

lemma rpc_wf_int [simp]: "rpc_wf (rpc (VInt i)) = in_s 64 i"
  by simp

lemma checkMetaValues_wf: "message_wf m \<Longrightarrow> rpc_wf (RpcMessage_checkMetaValues m) \<and> RpcValue_isIMap (RpcMessage_checkMetaValues m)"
proof -
  have "meta_wf (RpcMetaData_setValue_i Tag_MetaTypeId (rpc (VInt RpcMessage_MetaType_ID)) meta_empty)"
    by (intro meta_wf_setValue) (auto simp: meta_empty_def imap_ok_ops smap_ok_ops Tag_MetaTypeId_def
        RpcMessage_MetaType_ID_def in_s_def)
  moreover assume "message_wf m"
  ultimately show ?thesis
    by (auto simp: message_wf_def RpcMessage_checkMetaValues_def isIMap_iff type_test_defs imap_ok_ops
        split: variant.splits)
qed

lemma checkMetaValues_valid: "RpcValue_isIMap (RpcMessage_checkMetaValues m) \<Longrightarrow> RpcMessage_checkMetaValues m \<noteq> invalid_value"
  by (auto simp: isIMap_iff)

lemma message_setters_wf:
  "message_wf m \<Longrightarrow> in_s 32 k \<Longrightarrow> rpc_wf v \<Longrightarrow> message_wf (RpcMessage_setMetaValue_i k v m)"
  "message_wf m \<Longrightarrow> rpc_wf v \<Longrightarrow> message_wf (RpcMessage_setMetaValue_s s v m)"
  "message_wf m \<Longrightarrow> in_s 32 k \<Longrightarrow> rpc_wf v \<Longrightarrow> message_wf (RpcMessage_setValue k v m)"
proof -
  assume m: "message_wf m" and v: "rpc_wf v"
  note c = checkMetaValues_wf [OF m]
  then have md: "meta_wf (RpcValue_metaData (RpcMessage_checkMetaValues m))"
    "variant_wf (rv_var (RpcMessage_checkMetaValues m))" using rpc_wf_iff by blast+
  show "in_s 32 k \<Longrightarrow> message_wf (RpcMessage_setMetaValue_i k v m)"
    using c md v meta_wf_setValue(1) [OF md(1) _ v, of k]
    by (auto simp: message_wf_def RpcMessage_setMetaValue_i_def Let_def isIMap_iff)
  show "message_wf (RpcMessage_setMetaValue_s s v m)"
    using c md v meta_wf_setValue(2) [OF md(1) v, of s]
    by (auto simp: message_wf_def RpcMessage_setMetaValue_s_def Let_def isIMap_iff)
  show "in_s 32 k \<Longrightarrow> message_wf (RpcMessage_setValue k v m)"
    using c rpc_wf_set(1) [of "RpcMessage_checkMetaValues m" k v] v
    by (auto simp: message_wf_def RpcMessage_setValue_def isIMap_iff RpcValue_set_i_def split: if_splits)
qed

lemma metaData_setMetaValue:
  "RpcMessage_metaData (RpcMessage_setMetaValue_i k v m) =
     RpcMetaData_setValue_i k v (RpcMessage_metaData (RpcMessage_checkMetaValues m))"
  by (simp add: RpcMessage_metaData_def RpcMessage_setMetaValue_i_def RpcValue_metaData_def Let_def)

lemma metaData_setValue:
  "RpcMessage_metaData (RpcMessage_setValue k v m) = RpcMessage_metaData (RpcMessage_checkMetaValues m)"
  by (cases "rv_var (RpcMessage_checkMetaValues m)")
     (simp_all add: RpcMessage_metaData_def RpcMessage_setValue_def RpcValue_set_i_def RpcValue_metaData_def)

lemma metaData_check:
  "k \<noteq> 1 \<Longrightarrow> RpcMetaData_value_i (RpcMessage_metaData (RpcMessage_checkMetaValues m)) k d =
    (if RpcValue_isValid m then RpcMetaData_value_i (RpcMessage_metaData m) k d else d)"
  "k \<noteq> 1 \<Longrightarrow> RpcMetaData_hasKey_i (RpcMessage_metaData (RpcMessage_checkMetaValues m)) k =
    (RpcValue_isValid m \<and> RpcMetaData_hasKey_i (RpcMessage_metaData m) k)"
  by (auto simp: RpcMessage_checkMetaValues_def RpcMessage_metaData_def RpcValue_metaData_def
      Tag_MetaTypeId_def RpcMetaData_setValue_i_def type_test_defs meta_empty_def RpcMetaData_value_i_def
      RpcMetaData_hasKey_i_def)

lemma check_setMetaValue: "RpcMessage_checkMetaValues (RpcMessage_setMetaValue_i k v m) = RpcMessage_setMetaValue_i k v m"
  by (cases "rv_var m")
     (auto simp: RpcMessage_setMetaValue_i_def RpcMessage_checkMetaValues_def type_test_defs Let_def)

lemma check_check [simp]: "RpcMessage_checkMetaValues (RpcMessage_checkMetaValues m) = RpcMessage_checkMetaValues m"
  by (auto simp: RpcMessage_checkMetaValues_def type_test_defs)

lemma setMetaValue_check [simp]:
  "RpcMessage_setMetaValue_i k v (RpcMessage_checkMetaValues m) = RpcMessage_setMetaValue_i k v m"
  by (simp add: RpcMessage_setMetaValue_i_def)

lemma message_value_setValue:
  assumes "message_wf m"
  shows "RpcMessage_value (RpcMessage_setValue k v m) k' =
    (if k' = k then (if RpcValue_isValid v then v else invalid_value) else RpcMessage_value m k')"
proof -
  have "RpcMessage_value (RpcMessage_checkMetaValues m) k' = RpcMessage_value m k'"
    using assms by (auto simp: RpcMessage_checkMetaValues_def RpcMessage_value_def RpcValue_at_i_def
        message_wf_def type_test_defs split: variant.splits)
  then show ?thesis
    using at_set_i [of "RpcMessage_checkMetaValues m" k v k' invalid_value] checkMetaValues_wf [OF assms]
    by (simp add: RpcMessage_value_def RpcMessage_setValue_def)
qed

lemma message_value_setMeta:
  assumes "message_wf m"
  shows "RpcMessage_value (RpcMessage_setMetaValue_i k v m) k' = RpcMessage_value m k'"
  using assms by (auto simp: RpcMessage_setMetaValue_i_def RpcMessage_checkMetaValues_def RpcMessage_value_def
      RpcValue_at_i_def message_wf_def type_test_defs Let_def split: variant.splits)

section \<open>The caller-id stack\<close>

text \<open>
  The ids a message has been routed through, oldest first.  The contract: what is pushed last is
  popped first, and everything below it stays.
\<close>

locale id_stack =
  fixes ids :: "'s \<Rightarrow> int list"
    and ok :: "'s \<Rightarrow> bool"
    and push :: "int \<Rightarrow> 's \<Rightarrow> exn + 's"
    and pop :: "'s \<Rightarrow> exn + int \<times> 's"
    and peek :: "'s \<Rightarrow> exn + int"
  assumes push: "ok s \<Longrightarrow> in_s 32 i \<Longrightarrow> \<exists>s'. push i s = Inr s' \<and> ok s' \<and> ids s' = ids s @ [i]"
    and pop: "ok s \<Longrightarrow> \<exists>s'. pop s = Inr (if ids s = [] then 0 else last (ids s), s') \<and> ok s' \<and> ids s' = butlast (ids s)"
    and peek: "ok s \<Longrightarrow> peek s = Inr (if ids s = [] then 0 else last (ids s))"
begin

lemma pop_push: "ok s \<Longrightarrow> in_s 32 i \<Longrightarrow> push i s = Inr s' \<Longrightarrow> \<exists>s''. pop s' = Inr (i, s'') \<and> ok s'' \<and> ids s'' = ids s"
  using push [of s i] pop [of s'] by auto

lemma peek_push: "ok s \<Longrightarrow> in_s 32 i \<Longrightarrow> push i s = Inr s' \<Longrightarrow> peek s' = Inr i"
  using push [of s i] peek [of s'] by auto

primrec push_all :: "int list \<Rightarrow> 's \<Rightarrow> exn + 's" where
  "push_all [] s = Inr s"
| "push_all (i # is) s = (case push i s of Inl e \<Rightarrow> Inl e | Inr s' \<Rightarrow> push_all is s')"

lemma push_all: "ok s \<Longrightarrow> (\<And>i. i \<in> set is \<Longrightarrow> in_s 32 i) \<Longrightarrow> \<exists>s'. push_all is s = Inr s' \<and> ok s' \<and> ids s' = ids s @ is"
proof (induction "is" arbitrary: s)
  case (Cons i "is")
  obtain s1 where s1: "push i s = Inr s1" "ok s1" "ids s1 = ids s @ [i]" using push Cons.prems by fastforce
  then show ?case using Cons.IH [of s1] Cons.prems by auto
qed simp

end

definition int_of_id :: "rpc_value \<Rightarrow> int" where
  "int_of_id v = (case RpcValue_toInt v of Inr i \<Rightarrow> i | Inl _ \<Rightarrow> 0)"

definition is_id :: "rpc_value \<Rightarrow> bool" where
  "is_id v \<longleftrightarrow> RpcValue_isInt v \<or> RpcValue_isUInt v"

text \<open>Ids are integers: a list of them, a single one, or none.\<close>

definition caller_ids_ok :: "rpc_value \<Rightarrow> bool" where
  "caller_ids_ok v \<longleftrightarrow>
     (case rv_var v of VList l \<Rightarrow> \<forall>x \<in> set l. is_id x | VInt _ \<Rightarrow> True | VUInt _ \<Rightarrow> True
      | VInvalid \<Rightarrow> True | VNull \<Rightarrow> True | _ \<Rightarrow> False)"

definition caller_stack :: "rpc_value \<Rightarrow> int list" where
  "caller_stack v =
     (case rv_var v of VList l \<Rightarrow> map int_of_id l | VInt _ \<Rightarrow> [int_of_id v] | VUInt _ \<Rightarrow> [int_of_id v] | _ \<Rightarrow> [])"

definition meta_ids :: "rpc_meta \<Rightarrow> int list" where
  "meta_ids md = caller_stack (RpcMessage_callerIds_m md)"

definition meta_ids_ok :: "rpc_meta \<Rightarrow> bool" where
  "meta_ids_ok md \<longleftrightarrow> caller_ids_ok (RpcMessage_callerIds_m md)"

lemma is_id_toInt: "is_id v \<Longrightarrow> RpcValue_toInt v = Inr (int_of_id v)"
  by (cases "rv_var v") (auto simp: is_id_def type_test_defs int_of_id_def RpcValue_toInt_def impl_to_int_def)

lemma callerIds_set:
  "RpcMessage_callerIds_m (RpcMessage_setCallerIds_m v md) = (if RpcValue_isValid v then v else invalid_value)"
  by (simp add: meta_accessor_defs value_i_setValue_i)

lemma push_id_stack:
  assumes "caller_ids_ok v" and "in_s 32 i"
  shows "\<exists>w. push_id v i = Inr w \<and> RpcValue_isValid w \<and> caller_ids_ok w \<and> caller_stack w = caller_stack v @ [i]"
proof (cases "rv_var v")
  case (VList l)
  then show ?thesis
    using assms by (auto simp: push_id_def caller_ids_ok_def caller_stack_def type_test_defs as_defs is_id_def
        int_of_id_def RpcValue_toInt_def impl_to_int_def s_wrap_id)
qed (use assms in \<open>auto simp: push_id_def caller_ids_ok_def caller_stack_def type_test_defs is_id_def
      int_of_id_def RpcValue_toInt_def impl_to_int_def s_wrap_id\<close>)

lemma pop_id_stack:
  assumes "caller_ids_ok v"
  shows "\<exists>w. RpcMessage_popCallerId_v v = Inr (w, if caller_stack v = [] then 0 else last (caller_stack v)) \<and>
    caller_ids_ok w \<and> (RpcValue_isValid w \<or> w = invalid_value) \<and> caller_stack w = butlast (caller_stack v)"
proof (cases "rv_var v")
  case (VList l)
  then have l: "x \<in> set l \<Longrightarrow> is_id x" for x using assms by (simp add: caller_ids_ok_def)
  show ?thesis
  proof (cases "l = []")
    case True
    then show ?thesis
      using VList by (auto simp: RpcMessage_popCallerId_v_def type_test_defs as_defs caller_ids_ok_def caller_stack_def)
  next
    case False
    then have "RpcValue_toInt (last l) = Inr (int_of_id (last l))" using l is_id_toInt by simp
    then show ?thesis
      using VList False l in_set_butlastD [of _ l]
      by (auto simp: RpcMessage_popCallerId_v_def type_test_defs as_defs caller_ids_ok_def caller_stack_def
          last_map map_butlast)
  qed
qed (use assms in \<open>auto simp: RpcMessage_popCallerId_v_def caller_ids_ok_def caller_stack_def type_test_defs
      int_of_id_def RpcValue_toInt_def impl_to_int_def s_wrap_def\<close>)

lemma peek_id_stack:
  "meta_ids_ok md \<Longrightarrow> RpcMessage_peekCallerId_m md = Inr (if meta_ids md = [] then 0 else last (meta_ids md))"
  using pop_id_stack [of "RpcMessage_callerIds_m md"]
  by (auto simp: RpcMessage_peekCallerId_m_def RpcMessage_popCallerId_v_def meta_ids_ok_def meta_ids_def Let_def
      split: if_splits sum.splits dest: sym) (auto simp: map_sum_def split: sum.splits)

interpretation caller: id_stack meta_ids meta_ids_ok RpcMessage_pushCallerId_m RpcMessage_popCallerId_m RpcMessage_peekCallerId_m
proof unfold_locales
  fix md i
  assume ok: "meta_ids_ok md"
  show "in_s 32 i \<Longrightarrow> \<exists>md'. RpcMessage_pushCallerId_m i md = Inr md' \<and> meta_ids_ok md' \<and> meta_ids md' = meta_ids md @ [i]"
    using push_id_stack [of "RpcMessage_callerIds_m md" i] ok
    by (auto simp: RpcMessage_pushCallerId_m_def meta_ids_ok_def meta_ids_def callerIds_set)
  show "\<exists>md'. RpcMessage_popCallerId_m md = Inr (if meta_ids md = [] then 0 else last (meta_ids md), md') \<and>
      meta_ids_ok md' \<and> meta_ids md' = butlast (meta_ids md)"
    using pop_id_stack [of "RpcMessage_callerIds_m md"] ok
    by (auto simp: RpcMessage_popCallerId_m_def meta_ids_ok_def meta_ids_def callerIds_set)
  show "RpcMessage_peekCallerId_m md = Inr (if meta_ids md = [] then 0 else last (meta_ids md))"
    using ok by (rule peek_id_stack)
qed

end
