(* ===== verification/Pack_Int.thy ===== *)
theory Pack_Int
  imports Rpc_Value
begin

text \<open>
  The variable-length integers of ChainPack (\<open>libshvchainpack/c/cchainpack.c\<close>), which carry
  every number, length and time stamp of the protocol.  A packing function returns the bytes it
  appends to the output (the C++ writer's overflow handler forwards every byte to its stream, so
  packing never fails); an unpacking function consumes a byte list and returns \<open>None\<close> where
  the input ends (\<open>CCPCP_RC_BUFFER_UNDERFLOW\<close>).  The locale \<open>byte_codec\<close> states what makes
  a pair of such functions a codec.
\<close>

section \<open>Codecs\<close>

locale byte_codec =
  fixes enc :: "'a \<Rightarrow> bytes"
    and dec :: "bytes \<Rightarrow> ('a \<times> bytes) option"
    and valid :: "'a \<Rightarrow> bool"
  assumes dec_enc: "valid x \<Longrightarrow> dec (enc x @ rest) = Some (x, rest)"
begin

lemma enc_inj: "valid x \<Longrightarrow> valid y \<Longrightarrow> enc x = enc y \<Longrightarrow> x = y"
  by (metis dec_enc option.inject prod.inject)

text \<open>No encoding is a proper prefix of another one.\<close>

lemma prefix_free: "valid x \<Longrightarrow> valid y \<Longrightarrow> enc x @ r = enc y @ s \<Longrightarrow> x = y \<and> r = s"
  by (metis dec_enc option.inject prod.inject)

end

section \<open>Packing\<close>

text \<open>\<open>64 - __builtin_clzll(n)\<close>, zero for zero.\<close>

definition significant_bits_part_length :: "u64 \<Rightarrow> nat" where
  "significant_bits_part_length n = (if n = 0 then 0 else bit_length (unat n))"

text \<open>The table-driven fallback for compilers without the builtin.\<close>

definition sig_table_4bit :: "nat list" where
  "sig_table_4bit = [0, 1, 2, 2, 3, 3, 3, 3, 4, 4, 4, 4, 4, 4, 4, 4]"

definition significant_bits_fallback :: "u64 \<Rightarrow> nat" where
  "significant_bits_fallback n =
     (let (len, n) = (if n AND 0xFFFFFFFF00000000 \<noteq> 0 then (32, drop_bit 32 n) else (0, n));
          (len, n) = (if n AND 0xFFFF0000 \<noteq> 0 then (len + 16, drop_bit 16 n) else (len, n));
          (len, n) = (if n AND 0xFF00 \<noteq> 0 then (len + 8, drop_bit 8 n) else (len, n));
          (len, n) = (if n AND 0xF0 \<noteq> 0 then (len + 4, drop_bit 4 n) else (len, n))
      in len + sig_table_4bit ! unat n)"

text \<open>C's division truncates, so \<open>(0 - 1) / 7 + 1\<close> is 1.\<close>

definition bytes_needed :: "nat \<Rightarrow> nat" where
  "bytes_needed bit_len =
     (if bit_len \<le> 28 then (bit_len - 1) div 7 + 1 else (bit_len - 1) div 8 + 2)"

definition expand_bit_len :: "nat \<Rightarrow> nat" where
  "expand_bit_len bit_len =
     (let byte_cnt = bytes_needed bit_len
      in if bit_len \<le> 28 then byte_cnt * (8 - 1) - 1 else (byte_cnt - 1) * 8 - 1)"

text \<open>The loop that fills \<open>bytes[byte_cnt - 1]\<close> down to \<open>bytes[0]\<close>.\<close>

fun be_bytes :: "nat \<Rightarrow> u64 \<Rightarrow> bytes" where
  "be_bytes 0 num = []"
| "be_bytes (Suc n) num = be_bytes n (drop_bit 8 num) @ [ucast (num AND 255)]"

definition head_byte :: "nat \<Rightarrow> nat \<Rightarrow> byte \<Rightarrow> byte" where
  "head_byte bit_len byte_cnt head =
     (if bit_len \<le> 28 then
        (let mask = word_of_nat (0xf0 * 2 ^ (4 - byte_cnt)) :: byte
         in (head AND NOT mask) OR push_bit 1 mask)
      else 0xf0 OR word_of_nat (byte_cnt - 5))"

definition pack_uint_data_helper :: "u64 \<Rightarrow> nat \<Rightarrow> bytes" where
  "pack_uint_data_helper num bit_len =
     (let byte_cnt = bytes_needed bit_len; bs = be_bytes byte_cnt num
      in head_byte bit_len byte_cnt (hd bs) # tl bs)"

definition cchainpack_pack_uint_data :: "u64 \<Rightarrow> bytes" where
  "cchainpack_pack_uint_data num = pack_uint_data_helper num (significant_bits_part_length num)"

text \<open>
  Sign and magnitude.  For \<open>snum = INT64_MIN\<close> the code negates out of range and shifts by 71;
  the model takes \<open>-snum\<close> modulo \<open>2 ^ 64\<close> and a shift out of the word as 0.
\<close>

definition cchainpack_pack_int_data :: "int \<Rightarrow> bytes" where
  "cchainpack_pack_int_data snum =
     (let num = word_of_int (if snum < 0 then - snum else snum) :: u64;
          bitlen = significant_bits_part_length num + 1;
          num' = (if snum < 0 then num OR push_bit (expand_bit_len bitlen) 1 else num)
      in pack_uint_data_helper num' bitlen)"

section \<open>Unpacking\<close>

fun take_be :: "nat \<Rightarrow> u64 \<Rightarrow> bytes \<Rightarrow> (u64 \<times> bytes) option" where
  "take_be 0 num inp = Some (num, inp)"
| "take_be (Suc n) num [] = None"
| "take_be (Suc n) num (r # inp) = take_be n (push_bit 8 num + ucast r) inp"

text \<open>Number, width in bits, rest of the input.\<close>

definition unpack_uint :: "bytes \<Rightarrow> ((u64 \<times> nat) \<times> bytes) option" where
  "unpack_uint inp =
     (case inp of
        [] \<Rightarrow> None
      | head # rest \<Rightarrow>
          (let (bytes_to_read_cnt, num, bitlen) =
             (if head AND 128 = 0 then (0, ucast (head AND 127), 7)
              else if head AND 64 = 0 then (1, ucast (head AND 63), 6 + 8)
              else if head AND 32 = 0 then (2, ucast (head AND 31), 5 + 2 * 8)
              else if head AND 16 = 0 then (3, ucast (head AND 15), 4 + 3 * 8)
              else (let n = unat (head AND 0xf) + 4 in (n, 0, n * 8)))
           in case take_be bytes_to_read_cnt num rest of
                None \<Rightarrow> None
              | Some (num', rest') \<Rightarrow>
                  Some ((if bitlen > 64 then -1 else num', bitlen), rest')))"

definition unpack_int :: "bytes \<Rightarrow> (int \<times> bytes) option" where
  "unpack_int inp =
     (case unpack_uint inp of
        None \<Rightarrow> None
      | Some ((num, bitlen), rest) \<Rightarrow>
          Some (if bitlen > 64 then 9223372036854775807
                else (let sign_bit_mask = push_bit (bitlen - 1) 1 :: u64
                      in if num AND sign_bit_mask \<noteq> 0
                         then s_wrap 64 (- sint (num AND NOT sign_bit_mask))
                         else sint num),
                rest))"

definition cchainpack_unpack_uint_data2 :: "bytes \<Rightarrow> (u64 \<times> bytes) option" where
  "cchainpack_unpack_uint_data2 inp = map_option (\<lambda>((n, _), rest). (n, rest)) (unpack_uint inp)"

section \<open>Big-endian byte strings\<close>

lemma length_be_bytes [simp]: "length (be_bytes n w) = n"
  by (induction n arbitrary: w) auto

lemma ucast_and_255: "(ucast (w AND 255 :: u64) :: byte) = ucast w"
proof -
  have "w AND 255 = take_bit 8 w" by (simp add: take_bit_eq_mask mask_eq_exp_minus_1)
  then show ?thesis by (simp add: bit_eq_iff bit_simps)
qed

lemma be_bytes_front:
  "be_bytes (Suc n) w = ucast (drop_bit (8 * n) w) # be_bytes n w"
proof (induction n arbitrary: w)
  case 0
  then show ?case by (simp add: ucast_and_255)
next
  case (Suc n)
  have "be_bytes (Suc (Suc n)) w = be_bytes (Suc n) (drop_bit 8 w) @ [ucast (w AND 255)]" by simp
  also have "\<dots> = ucast (drop_bit (8 * n) (drop_bit 8 w)) # be_bytes n (drop_bit 8 w) @ [ucast (w AND 255)]"
    using Suc.IH [of "drop_bit 8 w"] by simp
  also have "\<dots> = ucast (drop_bit (8 * Suc n) w) # be_bytes (Suc n) w"
    by (simp add: ac_simps)
  finally show ?case .
qed

lemma take_be_append:
  "length xs = n \<Longrightarrow>
   take_be n num (xs @ rest) = Some (foldl (\<lambda>a r. push_bit 8 a + ucast r) num xs, rest)"
  by (induction xs arbitrary: n num) auto

lemma push_take_bit_step:
  "push_bit 8 (take_bit (8 * n) (drop_bit 8 w)) + ucast (ucast w :: byte) = take_bit (8 * n + 8) (w::u64)"
proof -
  have low: "(ucast (ucast w :: byte) :: u64) = take_bit 8 w"
    by (simp add: bit_eq_iff bit_simps)
  have "push_bit 8 (take_bit (8 * n) (drop_bit 8 w)) + take_bit 8 w =
      push_bit 8 (take_bit (8 * n) (drop_bit 8 w)) OR take_bit 8 w"
    by (rule disjunctive_add) (auto simp: bit_simps)
  also have "\<dots> = take_bit (8 * n + 8) w"
    by (rule bit_word_eqI) (auto simp: bit_simps)
  finally show ?thesis by (simp add: low)
qed

lemma foldl_be_bytes:
  "foldl (\<lambda>a r. push_bit 8 a + ucast r) acc (be_bytes n w) =
     push_bit (8 * n) acc + take_bit (8 * n) w"
proof (induction n arbitrary: w)
  case 0
  then show ?case by simp
next
  case (Suc n)
  have "foldl (\<lambda>a r. push_bit 8 a + ucast r) acc (be_bytes (Suc n) w) =
      push_bit 8 (push_bit (8 * n) acc + take_bit (8 * n) (drop_bit 8 w)) + ucast (ucast w :: byte)"
    by (simp add: Suc ucast_and_255)
  also have "\<dots> = push_bit 8 (push_bit (8 * n) acc) + take_bit (8 * n + 8) w"
    by (simp only: push_bit_add add.assoc push_take_bit_step)
  also have "\<dots> = push_bit (8 * Suc n) acc + take_bit (8 * Suc n) w"
    by (simp add: ac_simps)
  finally show ?case .
qed

lemma take_be_be_bytes:
  "take_be n num (be_bytes n w @ rest) = Some (push_bit (8 * n) num + take_bit (8 * n) w, rest)"
  by (simp add: take_be_append foldl_be_bytes)

section \<open>The head byte\<close>

text \<open>The number of value bits a field of this width has on the wire.\<close>

definition field_bits :: "nat \<Rightarrow> nat" where
  "field_bits bit_len =
     (if bit_len \<le> 28 then 7 * bytes_needed bit_len else 8 * (bytes_needed bit_len - 1))"

lemma expand_bit_len_field: "expand_bit_len bl = field_bits bl - 1"
  by (simp add: expand_bit_len_def field_bits_def Let_def mult.commute)

lemma field_bits_ge: "bl \<le> field_bits bl"
  by (cases bl) (auto simp: field_bits_def bytes_needed_def)

lemma field_bits_le_64: "bl \<le> 64 \<Longrightarrow> field_bits bl \<le> 64"
  by (auto simp: field_bits_def bytes_needed_def)

lemma field_bits_pos: "0 < field_bits bl"
  by (auto simp: field_bits_def bytes_needed_def)

lemma bytes_needed_small: "bl \<le> 28 \<Longrightarrow> bytes_needed bl \<in> {1, 2, 3, 4}"
  by (auto simp: bytes_needed_def)

lemma bytes_needed_large: "28 < bl \<Longrightarrow> bl \<le> 64 \<Longrightarrow> bytes_needed bl \<in> {5, 6, 7, 8, 9}"
proof -
  assume "28 < bl" "bl \<le> 64"
  then have "3 \<le> (bl - 1) div 8" "(bl - 1) div 8 \<le> 7" by auto
  then have "(bl - 1) div 8 \<in> {3, 4, 5, 6, 7}" by auto
  then show ?thesis using \<open>28 < bl\<close> by (auto simp: bytes_needed_def)
qed

lemma and_mask_byte [simp]:
  "(h::byte) AND 127 = take_bit 7 h" "h AND 63 = take_bit 6 h" "h AND 31 = take_bit 5 h"
  "h AND 15 = take_bit 4 h"
  by (simp_all add: take_bit_eq_mask mask_eq_exp_minus_1)

lemma and_bit_byte [simp]:
  "(h::byte) AND 128 = 0 \<longleftrightarrow> \<not> bit h 7" "h AND 64 = 0 \<longleftrightarrow> \<not> bit h 6"
  "h AND 32 = 0 \<longleftrightarrow> \<not> bit h 5" "h AND 16 = 0 \<longleftrightarrow> \<not> bit h 4"
  using and_exp_eq_0_iff_not_bit [of h 7] and_exp_eq_0_iff_not_bit [of h 6]
    and_exp_eq_0_iff_not_bit [of h 5] and_exp_eq_0_iff_not_bit [of h 4] by simp_all

lemma head_byte_small:
  "head_byte bl 1 h = take_bit 7 h" "head_byte bl 2 h = take_bit 6 h OR 0x80"
  "head_byte bl 3 h = take_bit 5 h OR 0xC0" "head_byte bl 4 h = take_bit 4 h OR 0xE0"
  if "bl \<le> 28"
proof -
  have n: "NOT 0x80 = (0x7F::byte)" "NOT 0xC0 = (0x3F::byte)" "NOT 0xE0 = (0x1F::byte)"
    "NOT 0xF0 = (0x0F::byte)" by simp_all
  have k: "(word_of_nat (0xf0 * 2 ^ (4 - 1)) :: byte) = 0x80"
    "(word_of_nat (0xf0 * 2 ^ (4 - 2)) :: byte) = 0xC0"
    "(word_of_nat (0xf0 * 2 ^ (4 - 3)) :: byte) = 0xE0"
    "(word_of_nat (0xf0 * 2 ^ (4 - 4)) :: byte) = 0xF0" by simp_all
  have p: "push_bit 1 (0x80::byte) = 0" "push_bit 1 (0xC0::byte) = 0x80"
    "push_bit 1 (0xE0::byte) = 0xC0" "push_bit 1 (0xF0::byte) = 0xE0" by simp_all
  show "head_byte bl 1 h = take_bit 7 h" "head_byte bl 2 h = take_bit 6 h OR 0x80"
    "head_byte bl 3 h = take_bit 5 h OR 0xC0" "head_byte bl 4 h = take_bit 4 h OR 0xE0"
    by (simp_all only: head_byte_def Let_def that if_True k n p and_mask_byte or.right_neutral)
qed

section \<open>Round trip of the helper\<close>

lemma take_bit_id: "unat (w::u64) < 2 ^ k \<Longrightarrow> take_bit k w = w"
proof -
  assume "unat w < 2 ^ k"
  then have "take_bit k (unat w) = unat w" by (rule take_bit_nat_eq_self)
  then have "unat (take_bit k w) = unat w" by (simp add: unsigned_take_bit_eq)
  then show ?thesis by (simp add: word_unat_eq_iff)
qed

lemma unpack_small_head:
  fixes w :: u64
  assumes w: "take_bit (8 - c + 8 * (c - 1)) w = w"
    and c: "c \<in> {1, 2, 3, 4}" and bl: "bl \<le> 28"
  shows "unpack_uint (head_byte bl c (ucast (drop_bit (8 * (c - 1)) w)) # be_bytes (c - 1) w @ rest) =
    Some ((w, 7 * c), rest)"
proof -
  define h :: byte where "h = ucast (drop_bit (8 * (c - 1)) w)"
  have high: "bit w n \<longrightarrow> n < 8 - c + 8 * (c - 1)" for n
    using w by (metis bit_take_bit_iff)
  have sum: "push_bit (8 * (c - 1)) (ucast (take_bit (8 - c) h)) + take_bit (8 * (c - 1)) w = w"
  proof -
    have "push_bit (8 * (c - 1)) (ucast (take_bit (8 - c) h)) + take_bit (8 * (c - 1)) w =
        push_bit (8 * (c - 1)) (ucast (take_bit (8 - c) h)) OR take_bit (8 * (c - 1)) w"
      by (rule disjunctive_add) (auto simp: bit_simps)
    also have "\<dots> = w"
    proof (rule bit_word_eqI)
      fix n assume "n < LENGTH(64)"
      then show "bit (push_bit (8 * (c - 1)) (ucast (take_bit (8 - c) h)) OR take_bit (8 * (c - 1)) w) n
          = bit w n"
        using high [of n] c by (auto simp: bit_simps h_def not_le)
    qed
    finally show ?thesis .
  qed
  have heads: "take_bit 6 (take_bit 6 h OR 0x80) = take_bit 6 h"
    "take_bit 5 (take_bit 5 h OR 0xC0) = take_bit 5 h"
    "take_bit 4 (take_bit 4 h OR 0xE0) = take_bit 4 h"
    by (simp_all add: take_bit_or)
  from c bl sum show ?thesis
    unfolding h_def [symmetric]
    by (auto simp: unpack_uint_def Let_def head_byte_small head_byte_small(1) [unfolded One_nat_def]
        take_be_be_bytes bit_simps heads simp del: be_bytes.simps take_be.simps)
qed

lemma unpack_large_head:
  fixes w :: u64
  assumes w: "take_bit (8 * (c - 1)) w = w"
    and c: "c \<in> {5, 6, 7, 8, 9}" and bl: "28 < bl"
  shows "unpack_uint (head_byte bl c h # be_bytes (c - 1) w @ rest) = Some ((w, 8 * (c - 1)), rest)"
proof -
  have head: "head_byte bl c h = 0xf0 OR word_of_nat (c - 5)" using bl by (simp add: head_byte_def)
  from c have bits: "bit (head_byte bl c h) 7" "bit (head_byte bl c h) 6" "bit (head_byte bl c h) 5"
    "bit (head_byte bl c h) 4" and n: "unat (take_bit 4 (head_byte bl c h)) + 4 = c - 1"
    unfolding head by auto
  have le: "8 * (c - 1) \<le> 64" using c by auto
  show ?thesis
    using bits n le w by (simp add: unpack_uint_def Let_def take_be_be_bytes mult.commute)
qed

lemma unpack_pack_helper:
  assumes bl: "bl \<le> 64" and w: "unat w < 2 ^ field_bits bl"
  shows "unpack_uint (pack_uint_data_helper w bl @ rest) = Some ((w, field_bits bl), rest)"
proof -
  define c where "c = bytes_needed bl"
  have "0 < c" by (auto simp: c_def bytes_needed_def)
  then have bs: "be_bytes c w = ucast (drop_bit (8 * (c - 1)) w) # be_bytes (c - 1) w"
    using be_bytes_front [of "c - 1" w] by simp
  have id: "take_bit (field_bits bl) w = w" using w by (rule take_bit_id)
  show ?thesis
  proof (cases "bl \<le> 28")
    case True
    then have c4: "c \<in> {1, 2, 3, 4}" unfolding c_def by (rule bytes_needed_small)
    have "field_bits bl = 7 * c" using True by (simp add: field_bits_def c_def)
    moreover have "8 - c + 8 * (c - 1) = 7 * c" using c4 by auto
    ultimately show ?thesis
      using unpack_small_head [OF _ c4 True, of w rest] id
      by (simp add: pack_uint_data_helper_def Let_def c_def [symmetric] bs)
  next
    case False
    then have c9: "c \<in> {5, 6, 7, 8, 9}" using bl unfolding c_def by (intro bytes_needed_large) auto
    have "field_bits bl = 8 * (c - 1)" using False by (simp add: field_bits_def c_def)
    then show ?thesis
      using unpack_large_head [OF _ c9, of w bl _ rest] id False
      by (simp add: pack_uint_data_helper_def Let_def c_def [symmetric] bs)
  qed
qed

section \<open>Round trips of the two integer formats\<close>

lemma significant_bits_le_64: "significant_bits_part_length n \<le> 64"
proof -
  have "unat n < 2 ^ 64" using unsigned_less [of n, where ?'a = nat] by simp
  then show ?thesis unfolding significant_bits_part_length_def by (auto intro: bit_length_le)
qed

lemma significant_bits_bound: "unat n < 2 ^ significant_bits_part_length n"
  using bit_length_bounds [of "unat n"]
  by (cases "n = 0") (auto simp: significant_bits_part_length_def unat_gt_0)

lemma field_bits_mono_bound: "m < 2 ^ bl \<Longrightarrow> (m::nat) < 2 ^ field_bits bl"
  using field_bits_ge [of bl] by (meson less_le_trans one_le_numeral power_increasing)

lemma unpack_uint_pack:
  "unpack_uint (cchainpack_pack_uint_data n @ rest) =
     Some ((n, field_bits (significant_bits_part_length n)), rest)"
  unfolding cchainpack_pack_uint_data_def
  by (intro unpack_pack_helper significant_bits_le_64 field_bits_mono_bound significant_bits_bound)

text \<open>Sign and magnitude fit the field with one bit to spare.\<close>

lemma pack_int_field:
  assumes "\<bar>i\<bar> < 2 ^ 63"
  defines "m \<equiv> word_of_int \<bar>i\<bar> :: u64"
  defines "bl \<equiv> significant_bits_part_length m + 1"
  shows "unat m = nat \<bar>i\<bar>" and "bl \<le> 64" and "unat m < 2 ^ (field_bits bl - 1)"
proof -
  have "uint m = \<bar>i\<bar>" unfolding m_def using assms(1)
    by (simp add: uint_word_of_int_eq take_bit_int_eq_self)
  then show u: "unat m = nat \<bar>i\<bar>" by (metis nat_uint_eq)
  then have "unat m < 2 ^ 63" using assms(1) by auto
  then have "significant_bits_part_length m \<le> 63"
    unfolding significant_bits_part_length_def by (auto intro: bit_length_le)
  then show "bl \<le> 64" by (simp add: bl_def)
  have "bl \<le> field_bits bl" by (rule field_bits_ge)
  then have "(2::nat) ^ significant_bits_part_length m \<le> 2 ^ (field_bits bl - 1)"
    unfolding bl_def by (intro power_increasing) auto
  then show "unat m < 2 ^ (field_bits bl - 1)"
    using significant_bits_bound [of m] by (rule less_le_trans [rotated])
qed

lemma or_sign_bit:
  fixes m :: u64
  assumes m: "unat m < 2 ^ k" and k: "k < 64"
  shows "unat (m OR push_bit k 1) < 2 ^ Suc k" and "(m OR push_bit k 1) AND push_bit k 1 \<noteq> 0"
    and "(m OR push_bit k 1) AND NOT (push_bit k 1) = m" and "m AND push_bit k 1 = 0"
proof -
  have low: "take_bit k m = m" using m by (rule take_bit_id)
  have below: "bit m n \<Longrightarrow> n < k" for n by (metis low bit_take_bit_iff)
  then have nb: "\<not> bit m k" by blast
  have "take_bit (Suc k) (m OR push_bit k 1) = m OR push_bit k 1"
    using below by (intro bit_word_eqI) (auto simp: bit_simps dest: less_SucI)
  then show "unat (m OR push_bit k 1) < 2 ^ Suc k"
    by (metis unsigned_take_bit_eq take_bit_nat_less_exp)
  have "bit (push_bit k 1 :: u64) k" using k by (simp add: bit_push_bit_iff del: push_bit_of_1)
  then have "bit ((m OR push_bit k 1) AND push_bit k 1) k" by (simp add: bit_and_iff bit_or_iff del: push_bit_of_1)
  then show "(m OR push_bit k 1) AND push_bit k 1 \<noteq> 0"
    by (rule contrapos_pn) (simp only: bit_0_eq bot_apply bot_bool_def not_False_eq_True)
  show "(m OR push_bit k 1) AND NOT (push_bit k 1) = m"
    by (rule bit_word_eqI) (use nb k in \<open>auto simp: bit_simps bit_exp_iff\<close>)
  show "m AND push_bit k 1 = 0"
    by (rule bit_word_eqI) (use nb k in \<open>auto simp: bit_simps bit_exp_iff\<close>)
qed

lemma unpack_int_pack:
  assumes "\<bar>i\<bar> < 2 ^ 63"
  shows "unpack_int (cchainpack_pack_int_data i @ rest) = Some (i, rest)"
proof -
  define m :: u64 where "m = word_of_int \<bar>i\<bar>"
  define bl where "bl = significant_bits_part_length m + 1"
  note field = pack_int_field [OF assms, folded m_def, folded bl_def]
  define k where "k = field_bits bl - 1"
  have k: "field_bits bl = Suc k" "k < 64"
    using field_bits_pos [of bl] field_bits_le_64 [OF field(2)] by (auto simp: k_def)
  have m: "unat m < 2 ^ k" using field(3) by (simp add: k_def)
  note sign = or_sign_bit [OF m k(2)]
  have le: "\<not> field_bits bl > 64" using k by simp
  have sint_m: "sint m = \<bar>i\<bar>"
  proof -
    have u: "uint m = \<bar>i\<bar>" using field(1) by (metis abs_ge_zero int_nat_eq uint_nat)
    show ?thesis
      using assms by (simp add: sint_uint u signed_take_bit_int_eq_self)
  qed
  have abs: "(if i < 0 then - i else i) = \<bar>i\<bar>" by simp
  show ?thesis
  proof (cases "i < 0")
    case True
    have "unpack_uint (cchainpack_pack_int_data i @ rest) = Some ((m OR push_bit k 1, Suc k), rest)"
      using unpack_pack_helper [OF field(2), of "m OR push_bit k 1" rest] sign(1) True k
      unfolding cchainpack_pack_int_data_def Let_def abs m_def [symmetric] bl_def [symmetric]
      by (simp add: expand_bit_len_field k_def [symmetric])
    moreover have "in_s 64 i" using assms by (auto simp: in_s_def)
    ultimately show ?thesis
      using True sign(2,3) sint_m k by (simp add: unpack_int_def Let_def s_wrap_id)
  next
    case False
    have "unat m < 2 ^ Suc k" using m by simp
    then have "unpack_uint (cchainpack_pack_int_data i @ rest) = Some ((m, Suc k), rest)"
      using unpack_pack_helper [OF field(2), of m rest] False k
      unfolding cchainpack_pack_int_data_def Let_def abs m_def [symmetric] bl_def [symmetric]
      by simp
    then show ?thesis
      using False sign(4) sint_m k by (simp add: unpack_int_def Let_def)
  qed
qed

interpretation uint_codec: byte_codec cchainpack_pack_uint_data cchainpack_unpack_uint_data2 "\<lambda>_. True"
  by unfold_locales (simp add: cchainpack_unpack_uint_data2_def unpack_uint_pack)

interpretation int_codec: byte_codec cchainpack_pack_int_data unpack_int "\<lambda>i. \<bar>i\<bar> < 2 ^ 63"
  by unfold_locales (rule unpack_int_pack)

end
