(* ===== verification/Chain_Pack_Items.thy ===== *)
theory Chain_Pack_Items
  imports Pack_Int
begin

text \<open>
  The items of a ChainPack stream (\<open>libshvchainpack/c/cchainpack.c\<close>): the functions that
  pack one scalar or one container bracket, and \<open>cchainpack_unpack_next\<close>, which reads one
  item.  The reader's context is the last item read and the bytes still to come: string and blob
  items are delivered in chunks of at most 256 bytes, so the next call depends on whether the last
  chunk was delivered.  Packing returns the bytes that are appended to the output.  A failed
  unpack makes the C++ reader throw; the model returns the exception at once, which is what the
  sticky \<open>err_no\<close> of the context amounts to.
\<close>

section \<open>Packing schema\<close>

abbreviation CP_Null :: byte where "CP_Null \<equiv> 128"
abbreviation CP_UInt :: byte where "CP_UInt \<equiv> 129"
abbreviation CP_Int :: byte where "CP_Int \<equiv> 130"
abbreviation CP_Double :: byte where "CP_Double \<equiv> 131"
abbreviation CP_Bool :: byte where "CP_Bool \<equiv> 132"
abbreviation CP_Blob :: byte where "CP_Blob \<equiv> 133"
abbreviation CP_String :: byte where "CP_String \<equiv> 134"
abbreviation CP_List :: byte where "CP_List \<equiv> 136"
abbreviation CP_Map :: byte where "CP_Map \<equiv> 137"
abbreviation CP_IMap :: byte where "CP_IMap \<equiv> 138"
abbreviation CP_MetaMap :: byte where "CP_MetaMap \<equiv> 139"
abbreviation CP_Decimal :: byte where "CP_Decimal \<equiv> 140"
abbreviation CP_DateTime :: byte where "CP_DateTime \<equiv> 141"
abbreviation CP_CString :: byte where "CP_CString \<equiv> 142"
abbreviation CP_FALSE :: byte where "CP_FALSE \<equiv> 253"
abbreviation CP_TRUE :: byte where "CP_TRUE \<equiv> 254"
abbreviation CP_TERM :: byte where "CP_TERM \<equiv> 255"

definition PackingSchema_name :: "int \<Rightarrow> string" where
  "PackingSchema_name e =
     (if e = -1 then ''INVALID'' else if e = 253 then ''FALSE'' else if e = 254 then ''TRUE''
      else if e = 128 then ''Null'' else if e = 129 then ''UInt'' else if e = 130 then ''Int''
      else if e = 131 then ''Double'' else if e = 132 then ''Bool'' else if e = 133 then ''Blob''
      else if e = 134 then ''String'' else if e = 142 then ''CString'' else if e = 136 then ''List''
      else if e = 137 then ''Map'' else if e = 138 then ''IMap''
      else if e = 135 then ''DateTimeEpoch_depr'' else if e = 141 then ''DateTime''
      else if e = 139 then ''MetaMap'' else if e = 140 then ''Decimal''
      else if e = 255 then ''TERM'' else ''UNKNOWN'')"

definition SHV_EPOCH_MSEC :: int where "SHV_EPOCH_MSEC = 1517529600000"

section \<open>Packing one item\<close>

text \<open>Small numbers share the byte of their type tag.\<close>

definition cchainpack_pack_uint :: "u64 \<Rightarrow> bytes" where
  "cchainpack_pack_uint i =
     (if i < 64 then [ucast (i mod 64)] else CP_UInt # cchainpack_pack_uint_data i)"

definition cchainpack_pack_int :: "int \<Rightarrow> bytes" where
  "cchainpack_pack_int i =
     (if i \<ge> 0 \<and> i < 64 then [word_of_int (i mod 64 + 64)]
      else CP_Int # cchainpack_pack_int_data i)"

definition cchainpack_pack_decimal :: "int \<Rightarrow> int \<Rightarrow> bytes" where
  "cchainpack_pack_decimal i exponent =
     CP_Decimal # cchainpack_pack_int_data i @ cchainpack_pack_int_data exponent"

fun le_bytes :: "nat \<Rightarrow> u64 \<Rightarrow> bytes" where
  "le_bytes 0 w = []"
| "le_bytes (Suc n) w = ucast w # le_bytes n (drop_bit 8 w)"

definition cchainpack_pack_double :: "double \<Rightarrow> bytes" where
  "cchainpack_pack_double d = CP_Double # le_bytes 8 d"

text \<open>
  The signed products overflow for times more than about half a million years away; the model
  wraps there.
\<close>

definition date_time_data :: "int \<Rightarrow> int \<Rightarrow> int" where
  "date_time_data epoch_msecs min_from_utc =
     (let msecs = s_wrap 64 (epoch_msecs - SHV_EPOCH_MSEC);
          offset = (min_from_utc sdiv 15) AND 0x7F;
          ms = msecs smod 1000;
          msecs = (if ms = 0 then msecs sdiv 1000 else msecs);
          msecs = (if offset \<noteq> 0 then s_wrap 64 (msecs * 128) OR offset else msecs);
          msecs = s_wrap 64 (msecs * 4);
          msecs = (if offset \<noteq> 0 then msecs OR 1 else msecs)
      in if ms = 0 then msecs OR 2 else msecs)"

definition cchainpack_pack_date_time :: "int \<Rightarrow> int \<Rightarrow> bytes" where
  "cchainpack_pack_date_time epoch_msecs min_from_utc =
     CP_DateTime # cchainpack_pack_int_data (date_time_data epoch_msecs min_from_utc)"

definition cchainpack_pack_boolean :: "bool \<Rightarrow> bytes" where
  "cchainpack_pack_boolean b = (if b then [CP_TRUE] else [CP_FALSE])"

definition cchainpack_pack_blob :: "bytes \<Rightarrow> bytes" where
  "cchainpack_pack_blob buff = CP_Blob # cchainpack_pack_uint_data (word_of_nat (length buff)) @ buff"

definition cchainpack_pack_string :: "string \<Rightarrow> bytes" where
  "cchainpack_pack_string s =
     CP_String # cchainpack_pack_uint_data (word_of_nat (length s)) @ bytes_of_string s"

definition copy_bytes_cstring :: "bytes \<Rightarrow> bytes" where
  "copy_bytes_cstring str = concat (map (\<lambda>ch. if ch = 0 \<or> ch = 0x5C then [0x5C, ch] else [ch]) str)"

definition cchainpack_pack_cstring :: "bytes \<Rightarrow> bytes" where
  "cchainpack_pack_cstring buff = CP_CString # copy_bytes_cstring buff @ [0]"

section \<open>Unpacking one item\<close>

text \<open>
  The state of a string or blob that is being delivered: \<open>string_size\<close> is negative for a
  zero-terminated string; \<open>size_to_load\<close> counts down the bytes of the other kind.
\<close>

record cp_string =
  string_size :: int
  size_to_load :: nat
  chunk :: bytes
  last_chunk :: bool

datatype item =
    ItemInvalid
  | ItemNull
  | ItemBoolean bool
  | ItemInt int
  | ItemUInt u64
  | ItemDouble double
  | ItemDecimal int int
  | ItemBlob cp_string
  | ItemString cp_string
  | ItemDateTime int int
  | ItemList
  | ItemMap
  | ItemIMap
  | ItemMeta
  | ItemContainerEnd

definition chunk_buff_len :: nat where "chunk_buff_len = 256"

definition ccpcp_string_init :: "int \<Rightarrow> cp_string" where
  "ccpcp_string_init sz =
     \<lparr>string_size = sz, size_to_load = nat sz, chunk = [], last_chunk = False\<rparr>"

text \<open>Both loops: room left in the chunk buffer, chunk so far, input.  An escape ends the chunk.\<close>

fun cstring_loop :: "nat \<Rightarrow> bytes \<Rightarrow> bytes \<Rightarrow> (bytes \<times> bool \<times> bytes) option" where
  "cstring_loop 0 ch inp = Some (ch, False, inp)"
| "cstring_loop (Suc room) ch [] = None"
| "cstring_loop (Suc room) ch (p # inp) =
     (if p = 0x5C then
        (case inp of
           [] \<Rightarrow> None
         | q # inp' \<Rightarrow> Some (ch @ [if q = 0x5C then 0x5C else if q = 0x30 then 0 else q], False, inp'))
      else if p = 0 then Some (ch, True, inp)
      else cstring_loop room (ch @ [p]) inp)"

fun sized_loop :: "nat \<Rightarrow> nat \<Rightarrow> bytes \<Rightarrow> bytes \<Rightarrow> (bytes \<times> nat \<times> bytes) option" where
  "sized_loop 0 to_load ch inp = Some (ch, to_load, inp)"
| "sized_loop (Suc room) 0 ch inp = Some (ch, 0, inp)"
| "sized_loop (Suc room) (Suc to_load) ch [] = None"
| "sized_loop (Suc room) (Suc to_load) ch (p # inp) = sized_loop room to_load (ch @ [p]) inp"

definition unpack_string :: "cp_string \<Rightarrow> bytes \<Rightarrow> (cp_string \<times> bytes) option" where
  "unpack_string it inp =
     (if string_size it < 0 then
        (case cstring_loop chunk_buff_len [] inp of
           None \<Rightarrow> None
         | Some (ch, fin, inp') \<Rightarrow> Some (it\<lparr>chunk := ch, last_chunk := last_chunk it \<or> fin\<rparr>, inp'))
      else
        (case sized_loop chunk_buff_len (size_to_load it) [] inp of
           None \<Rightarrow> None
         | Some (ch, to_load, inp') \<Rightarrow>
             Some (it\<lparr>size_to_load := to_load, chunk := ch, last_chunk := (to_load = 0)\<rparr>, inp')))"

fun take_le :: "nat \<Rightarrow> bytes \<Rightarrow> (u64 \<times> bytes) option" where
  "take_le 0 inp = Some (0, inp)"
| "take_le (Suc n) [] = None"
| "take_le (Suc n) (b # inp) =
     map_option (\<lambda>(w, rest). (ucast b OR push_bit 8 w, rest)) (take_le n inp)"

definition unpack_decimal :: "bytes \<Rightarrow> (item \<times> bytes) option" where
  "unpack_decimal inp =
     (case unpack_int inp of
        None \<Rightarrow> None
      | Some (mant, inp') \<Rightarrow>
          (case unpack_int inp' of
             None \<Rightarrow> None
           | Some (ex, inp'') \<Rightarrow> Some (ItemDecimal mant (s_wrap 32 ex), inp'')))"

text \<open>The second component of a date-time item is the offset in minutes.\<close>

definition date_time_item :: "int \<Rightarrow> item option" where
  "date_time_item d =
     (let has_tz_offset = (d AND 1 \<noteq> 0);
          has_not_msec = (d AND 2 \<noteq> 0);
          d = drop_bit 2 d;
          offset = (if has_tz_offset then drop_bit 1 (s_wrap 8 (push_bit 1 (d AND 0x7F))) else 0);
          d = (if has_tz_offset then drop_bit 7 d else d)
      in if has_not_msec \<and> \<not> in_s 64 (d * 1000) then None
         else Some (ItemDateTime (s_wrap 64 ((if has_not_msec then d * 1000 else d) + SHV_EPOCH_MSEC))
                      (offset * 15)))"

definition unpack_date_time :: "bytes \<Rightarrow> (item \<times> bytes) option" where
  "unpack_date_time inp =
     (case unpack_int inp of
        None \<Rightarrow> None
      | Some (d, inp') \<Rightarrow> map_option (\<lambda>i. (i, inp')) (date_time_item d))"

text \<open>The length is read as \<open>uint64_t\<close> and stored as \<open>long\<close>.\<close>

definition unpack_sized :: "bytes \<Rightarrow> (cp_string \<times> bytes) option" where
  "unpack_sized inp =
     (case cchainpack_unpack_uint_data2 inp of
        None \<Rightarrow> None
      | Some (n, inp') \<Rightarrow> unpack_string (ccpcp_string_init (sint n)) inp')"

definition unpack_item :: "byte \<Rightarrow> bytes \<Rightarrow> (item \<times> bytes) option" where
  "unpack_item packing_schema inp =
     (if packing_schema < 128 then
        (if packing_schema AND 64 \<noteq> 0 then Some (ItemInt (uint (packing_schema AND 63)), inp)
         else Some (ItemUInt (ucast (packing_schema AND 63)), inp))
      else if packing_schema = CP_Null then Some (ItemNull, inp)
      else if packing_schema = CP_TRUE then Some (ItemBoolean True, inp)
      else if packing_schema = CP_FALSE then Some (ItemBoolean False, inp)
      else if packing_schema = CP_Int then map_option (map_prod ItemInt id) (unpack_int inp)
      else if packing_schema = CP_UInt then
        map_option (map_prod ItemUInt id) (cchainpack_unpack_uint_data2 inp)
      else if packing_schema = CP_Double then map_option (map_prod ItemDouble id) (take_le 8 inp)
      else if packing_schema = CP_Decimal then unpack_decimal inp
      else if packing_schema = CP_DateTime then unpack_date_time inp
      else if packing_schema = CP_MetaMap then Some (ItemMeta, inp)
      else if packing_schema = CP_Map then Some (ItemMap, inp)
      else if packing_schema = CP_IMap then Some (ItemIMap, inp)
      else if packing_schema = CP_List then Some (ItemList, inp)
      else if packing_schema = CP_TERM then Some (ItemContainerEnd, inp)
      else if packing_schema = CP_Blob then map_option (map_prod ItemBlob id) (unpack_sized inp)
      else if packing_schema = CP_String then map_option (map_prod ItemString id) (unpack_sized inp)
      else if packing_schema = CP_CString then
        map_option (map_prod ItemString id) (unpack_string (ccpcp_string_init (-1)) inp)
      else None)"

definition unpack_fresh :: "bytes \<Rightarrow> (item \<times> bytes) option" where
  "unpack_fresh inp = (case inp of [] \<Rightarrow> None | b # rest \<Rightarrow> unpack_item b rest)"

definition cchainpack_unpack_next :: "item \<Rightarrow> bytes \<Rightarrow> (item \<times> bytes) option" where
  "cchainpack_unpack_next it inp =
     (case it of
        ItemString s \<Rightarrow>
          if last_chunk s then unpack_fresh inp
          else map_option (map_prod ItemString id) (unpack_string s inp)
      | ItemBlob s \<Rightarrow>
          if last_chunk s then unpack_fresh inp
          else map_option (map_prod ItemBlob id) (unpack_string s inp)
      | _ \<Rightarrow> unpack_fresh inp)"

section \<open>An item consumes input\<close>

lemma cstring_loop_length:
  "cstring_loop room ch inp = Some (ch', fin, r) \<Longrightarrow>
     length r \<le> length inp \<and> (0 < room \<longrightarrow> length r < length inp)"
proof (induction room ch inp rule: cstring_loop.induct)
  case (3 room ch p inp)
  then show ?case by (auto split: if_splits list.splits)
qed auto

lemma sized_loop_length:
  "sized_loop room n ch inp = Some (ch', m, r) \<Longrightarrow>
     length r \<le> length inp \<and> (0 < room \<longrightarrow> m = 0 \<or> length r < length inp)"
  by (induction room n ch inp rule: sized_loop.induct) auto

lemma unpack_string_length:
  assumes "unpack_string it inp = Some (it', r)"
  shows "length r \<le> length inp" and "last_chunk it' \<or> length r < length inp"
  using assms
  by (auto simp: unpack_string_def chunk_buff_len_def split: if_splits option.splits
      dest!: cstring_loop_length sized_loop_length)

lemma take_be_length: "take_be n a inp = Some (b, r) \<Longrightarrow> length r \<le> length inp"
  by (induction n a inp rule: take_be.induct) auto

lemma take_le_length: "take_le n inp = Some (b, r) \<Longrightarrow> length r \<le> length inp"
  by (induction n inp arbitrary: b r rule: take_le.induct) (auto intro: le_SucI)

lemma unpack_uint_length: "unpack_uint inp = Some (x, r) \<Longrightarrow> length r < length inp"
  by (auto simp: unpack_uint_def Let_def split: list.splits option.splits if_splits
      dest!: take_be_length)

lemma unpack_int_length: "unpack_int inp = Some (x, r) \<Longrightarrow> length r < length inp"
  by (auto simp: unpack_int_def split: option.splits dest!: unpack_uint_length)

lemma unpack_uint_data2_length:
  "cchainpack_unpack_uint_data2 inp = Some (x, r) \<Longrightarrow> length r < length inp"
  by (auto simp: cchainpack_unpack_uint_data2_def dest!: unpack_uint_length)

lemma unpack_parts_length:
  "unpack_decimal inp = Some (x, r) \<Longrightarrow> length r \<le> length inp"
  "unpack_date_time inp = Some (x, r) \<Longrightarrow> length r \<le> length inp"
  "unpack_sized inp = Some (s, r) \<Longrightarrow> length r \<le> length inp"
  by (auto simp: unpack_decimal_def unpack_date_time_def unpack_sized_def split: option.splits
      dest!: unpack_int_length unpack_uint_data2_length unpack_string_length(1))

lemma unpack_item_length: "unpack_item b inp = Some (it, r) \<Longrightarrow> length r \<le> length inp"
  unfolding unpack_item_def
  by (auto split: if_split_asm dest: unpack_parts_length take_le_length
        unpack_int_length [THEN less_imp_le] unpack_uint_data2_length [THEN less_imp_le]
        unpack_string_length(1))

text \<open>No chunk is outstanding.\<close>

definition item_finished :: "item \<Rightarrow> bool" where
  "item_finished it =
     (case it of ItemString s \<Rightarrow> last_chunk s | ItemBlob s \<Rightarrow> last_chunk s | _ \<Rightarrow> True)"

lemma item_finished_simps [simp]:
  "item_finished ItemInvalid" "item_finished ItemNull" "item_finished (ItemBoolean b)"
  "item_finished (ItemInt i)" "item_finished (ItemUInt u)" "item_finished (ItemDouble d)"
  "item_finished (ItemDecimal m e)" "item_finished (ItemDateTime ms off)" "item_finished ItemList"
  "item_finished ItemMap" "item_finished ItemIMap" "item_finished ItemMeta"
  "item_finished ItemContainerEnd" "item_finished (ItemString s) = last_chunk s"
  "item_finished (ItemBlob s) = last_chunk s"
  by (simp_all add: item_finished_def)

lemma unpack_next_finished:
  "item_finished it \<Longrightarrow> cchainpack_unpack_next it inp = unpack_fresh inp"
  by (cases it) (auto simp: item_finished_def cchainpack_unpack_next_def)

lemma unpack_fresh_length: "unpack_fresh inp = Some (it, r) \<Longrightarrow> length r < length inp"
  by (cases inp) (auto simp: unpack_fresh_def dest!: unpack_item_length)

section \<open>Scalars read back\<close>

lemma unpack_uint_roundtrip: "unpack_fresh (cchainpack_pack_uint u @ r) = Some (ItemUInt u, r)"
proof (cases "u < 64")
  case True
  define b :: byte where "b = ucast u"
  have u: "unat u < 64" using True by (simp add: word_less_nat_alt)
  have ub: "unat b = unat u" using u by (simp add: b_def unsigned_ucast_eq take_bit_nat_eq_self)
  then have b64: "b < 64" using u by (simp add: word_less_nat_alt)
  have tb: "take_bit 6 b = b"
    using u ub by (simp add: word_unat_eq_iff unsigned_take_bit_eq take_bit_nat_eq_self)
  have "\<not> bit b 6"
    by (metis tb bit_take_bit_iff less_irrefl)
  moreover have "(ucast b :: u64) = u" using ub u by (simp add: word_unat_eq_iff unsigned_ucast_eq take_bit_nat_eq_self)
  moreover have "u mod 64 = u" using u by (simp add: word_unat_eq_iff unat_mod_distrib)
  moreover have "b < 128" using b64 by (rule less_trans) simp
  ultimately show ?thesis using True tb
    by (simp add: cchainpack_pack_uint_def unpack_fresh_def unpack_item_def flip: b_def)
next
  case False
  then show ?thesis
    using uint_codec.dec_enc [of u r]
    by (simp add: cchainpack_pack_uint_def unpack_fresh_def unpack_item_def)
qed

lemma unpack_int_roundtrip:
  assumes "\<bar>i\<bar> < 2 ^ 63"
  shows "unpack_fresh (cchainpack_pack_int i @ r) = Some (ItemInt i, r)"
proof (cases "0 \<le> i \<and> i < 64")
  case True
  define b :: byte where "b = word_of_int (i + 64)"
  have ub: "uint b = i + 64" unfolding b_def using True by (subst uint_word_of_int_eq) (simp add: take_bit_int_eq_self)
  have b128: "b < 128" using True ub by (simp add: word_less_alt)
  have "bit (uint b) 6" using True by (simp add: ub bit_iff_odd)
  then have "bit b 6" by (simp add: bit_uint_iff)
  moreover have "uint (take_bit 6 b) = i"
    using True ub by (simp only: unsigned_take_bit_eq) (simp add: take_bit_eq_mod)
  moreover have "cchainpack_pack_int i = [b]" using True by (simp add: cchainpack_pack_int_def b_def)
  ultimately show ?thesis using b128 by (simp add: unpack_fresh_def unpack_item_def)
next
  case False
  then have "cchainpack_pack_int i = CP_Int # cchainpack_pack_int_data i"
    by (auto simp: cchainpack_pack_int_def)
  then show ?thesis
    using int_codec.dec_enc [OF assms, of r] by (simp add: unpack_fresh_def unpack_item_def)
qed

lemma unpack_decimal_roundtrip:
  assumes "\<bar>m\<bar> < 2 ^ 63" and "in_s 32 e"
  shows "unpack_fresh (cchainpack_pack_decimal m e @ r) = Some (ItemDecimal m e, r)"
proof -
  have "\<bar>e\<bar> < 2 ^ 63" using assms(2) by (auto simp: in_s_def)
  then show ?thesis
    using assms int_codec.dec_enc [OF assms(1)] int_codec.dec_enc [of e]
    by (simp add: cchainpack_pack_decimal_def unpack_fresh_def unpack_item_def unpack_decimal_def
        s_wrap_id)
qed

lemma take_le_le_bytes: "take_le n (le_bytes n w @ r) = Some (take_bit (8 * n) w, r)"
proof (induction n arbitrary: w)
  case 0
  then show ?case by simp
next
  case (Suc n)
  have "ucast (ucast w :: byte) OR push_bit 8 (take_bit (8 * n) (drop_bit 8 w)) =
      (take_bit (8 * Suc n) w :: u64)"
    by (rule bit_word_eqI) (auto simp: bit_simps)
  then show ?case by (simp add: Suc)
qed

lemma unpack_double_roundtrip: "unpack_fresh (cchainpack_pack_double d @ r) = Some (ItemDouble d, r)"
proof -
  have "take_le 8 (le_bytes 8 d @ r) = Some (d, r)"
    using take_le_le_bytes [of 8 d r] by (simp add: take_bit_word_eq_self)
  then show ?thesis
    by (simp add: cchainpack_pack_double_def unpack_fresh_def unpack_item_def del: take_le.simps le_bytes.simps)
qed

subsection \<open>Date-time\<close>

lemma or_low_bits: "0 \<le> o' \<Longrightarrow> o' < 2 ^ k \<Longrightarrow> (x * 2 ^ k) OR o' = x * 2 ^ k + (o'::int)"
proof -
  assume "0 \<le> o'" "o' < 2 ^ k"
  then have o': "take_bit k o' = o'" by (simp add: take_bit_int_eq_self)
  have "push_bit k x + take_bit k o' = push_bit k x OR take_bit k o'"
    by (rule disjunctive_add) (auto simp: bit_simps)
  then show ?thesis by (simp only: o' push_bit_eq_mult)
qed

lemma sign_extend_7: "drop_bit 1 (s_wrap 8 (push_bit 1 (e AND 0x7F))) = s_wrap 7 (e::int)"
proof -
  have "e AND 0x7F = take_bit 7 e" by (simp add: take_bit_eq_mask mask_eq_exp_minus_1)
  moreover have "drop_bit 1 (signed_take_bit 7 (push_bit 1 (take_bit 7 e))) = signed_take_bit 6 e"
    by (rule bit_eqI) (auto simp: bit_simps min_def mult.commute [of _ 2] bit_double_iff)
  ultimately show ?thesis by (simp add: s_wrap_def)
qed

lemma s_wrap7_mod: "s_wrap 7 x = s_wrap 7 (x mod 128)"
proof -
  have "x AND 0x7F = x mod 128"
    using take_bit_eq_mod [of 7 x] by (simp add: take_bit_eq_mask mask_eq_exp_minus_1)
  then show ?thesis using s_wrap7_and_127 [of x] by simp
qed

lemma smod_1000_eq_0_iff: "(m::int) smod 1000 = 0 \<longleftrightarrow> 1000 dvd m"
  by (auto simp: signed_modulo_int_def sgn_if mod_eq_0_iff_dvd)

text \<open>What is packed: seconds or milliseconds, then the zone, then the two flags.\<close>

lemma date_time_data_value:
  fixes t m :: int
  defines "o' \<equiv> t mod 128"
  defines "q \<equiv> (if 1000 dvd m then m sdiv 1000 else m)"
  assumes m: "\<bar>m\<bar> < 2 ^ 54"
  shows "date_time_data (m + SHV_EPOCH_MSEC) (t * 15) =
    4 * (if o' \<noteq> 0 then q * 128 + o' else q) + of_bool (o' \<noteq> 0) + 2 * of_bool (1000 dvd m)"
    and "\<bar>date_time_data (m + SHV_EPOCH_MSEC) (t * 15)\<bar> < 2 ^ 63"
proof -
  have q: "\<bar>q\<bar> \<le> \<bar>m\<bar>"
    unfolding q_def by (auto simp: signed_divide_int_def abs_mult sgn_if intro: div_le_dividend)
  have "t AND 127 = take_bit 7 t" by (simp add: take_bit_eq_mask mask_eq_exp_minus_1)
  then have o': "0 \<le> o'" "o' < 2 ^ 7" "(t * 15) sdiv 15 AND 0x7F = o'"
    by (simp_all add: o'_def sdiv_15_mult take_bit_eq_mod)
  have r: "in_s 64 m" "in_s 64 (q * 128)" "in_s 64 (q * 4)" "in_s 64 ((q * 128 + o') * 4)"
    using m q o'(1,2) by (auto simp: in_s_def)
  have low: "q * 128 OR o' = q * 128 + o'" using o' or_low_bits [of o' 7 q] by simp
  have flags: "x * 4 OR 1 = x * 4 + 1" "x * 4 OR 2 = x * 4 + 2" "x * 4 + 1 OR 2 = x * 4 + 3" for x :: int
  proof -
    show one: "x * 4 OR 1 = x * 4 + 1" and "x * 4 OR 2 = x * 4 + 2"
      using or_low_bits [of 1 2 x] or_low_bits [of 2 2 x] by simp_all
    have "(x * 4 OR 1) OR 2 = x * 4 + 3"
      using or_low_bits [of 3 2 x] by (simp only: or.assoc) simp
    then show "x * 4 + 1 OR 2 = x * 4 + 3" by (simp only: one)
  qed
  show data: "date_time_data (m + SHV_EPOCH_MSEC) (t * 15) =
    4 * (if o' \<noteq> 0 then q * 128 + o' else q) + of_bool (o' \<noteq> 0) + 2 * of_bool (1000 dvd m)"
    unfolding date_time_data_def Let_def add_diff_cancel_right' s_wrap_id [OF r(1)] smod_1000_eq_0_iff
      q_def [symmetric] o'(3) s_wrap_id [OF r(2)] low
    by (cases "o' = 0"; cases "1000 dvd m")
       (simp_all only: s_wrap_id [OF r(3)] s_wrap_id [OF r(4)] flags if_True if_False simp_thms
         of_bool_eq)
  show "\<bar>date_time_data (m + SHV_EPOCH_MSEC) (t * 15)\<bar> < 2 ^ 63"
    unfolding data using m q o'(1,2) by (auto simp: abs_less_iff)
qed

lemma date_time_item_value:
  "date_time_item d =
    (let e = d div 4; f = (if odd d then e div 128 else e)
     in if odd (d div 2) \<and> \<not> in_s 64 (f * 1000) then None
        else Some (ItemDateTime (s_wrap 64 ((if odd (d div 2) then f * 1000 else f) + SHV_EPOCH_MSEC))
               ((if odd d then s_wrap 7 e else 0) * 15)))"
proof -
  have "d AND 1 \<noteq> 0 \<longleftrightarrow> odd d" by (simp add: and_one_eq odd_iff_mod_2_eq_one)
  moreover have "d AND 2 \<noteq> 0 \<longleftrightarrow> odd (d div 2)"
    using and_exp_eq_0_iff_not_bit [of d 1] by (simp add: bit_iff_odd)
  moreover have "drop_bit 2 d = d div 4" "drop_bit 7 x = x div 128" for x :: int
    by (simp_all add: drop_bit_eq_div)
  ultimately show ?thesis
    unfolding date_time_item_def Let_def sign_extend_7 by simp
qed

lemma date_time_item_data:
  assumes m: "\<bar>m\<bar> < 2 ^ 54" and t: "in_s 7 t"
  shows "date_time_item (date_time_data (m + SHV_EPOCH_MSEC) (t * 15)) =
    Some (ItemDateTime (m + SHV_EPOCH_MSEC) (t * 15))"
proof -
  define q where "q = (if 1000 dvd m then m sdiv 1000 else m)"
  define b where "b = (if t mod 128 \<noteq> 0 then q * 128 + t mod 128 else q)"
  define d where "d = date_time_data (m + SHV_EPOCH_MSEC) (t * 15)"
  have d: "d = 4 * b + of_bool (t mod 128 \<noteq> 0) + 2 * of_bool (1000 dvd m)"
    using date_time_data_value(1) [OF m, of t] by (simp add: d_def b_def q_def)
  have parts: "odd d \<longleftrightarrow> t mod 128 \<noteq> 0" "odd (d div 2) \<longleftrightarrow> 1000 dvd m" "d div 4 = b"
    unfolding d by (auto split: if_splits)
  have f: "(if t mod 128 \<noteq> 0 then b div 128 else b) = q" by (auto simp: b_def)
  have qm: "(if 1000 dvd m then q * 1000 else q) = m"
    by (auto simp: q_def signed_divide_int_def sgn_if)
  have "in_s 64 (m + SHV_EPOCH_MSEC)" "in_s 64 m" using m by (auto simp: in_s_def SHV_EPOCH_MSEC_def)
  moreover have "(if t mod 128 \<noteq> 0 then s_wrap 7 b else 0) = t"
  proof (cases "t mod 128 = 0")
    case True
    then have "128 dvd t" by (simp add: mod_eq_0_iff_dvd)
    then have "t = 0" using t zdvd_imp_le [of 128 t] zdvd_imp_le [of 128 "- t"] by (force simp: in_s_def)
    then show ?thesis by simp
  next
    case False
    have "b mod 128 = t mod 128" using False by (simp add: b_def)
    then show ?thesis using False s_wrap_id [OF t] by (metis s_wrap7_mod)
  qed
  ultimately show ?thesis
    unfolding d_def [symmetric] date_time_item_value Let_def parts f using qm
    by (auto simp: s_wrap_id)
qed

lemma unpack_date_time_roundtrip:
  assumes m: "\<bar>m - SHV_EPOCH_MSEC\<bar> < 2 ^ 54" and t: "in_s 7 t"
  shows "unpack_fresh (cchainpack_pack_date_time m (t * 15) @ r) = Some (ItemDateTime m (t * 15), r)"
proof -
  have "unpack_int (cchainpack_pack_int_data (date_time_data m (t * 15)) @ r) =
      Some (date_time_data m (t * 15), r)"
    using int_codec.dec_enc date_time_data_value(2) [OF m, of t] by simp
  then show ?thesis
    using date_time_item_data [OF m t]
    by (simp add: cchainpack_pack_date_time_def unpack_fresh_def unpack_item_def unpack_date_time_def)
qed

subsection \<open>Strings\<close>

lemma sized_loop_take:
  "n \<le> length inp \<Longrightarrow>
   sized_loop room n ch inp =
     Some (ch @ take (min room n) inp, n - min room n, drop (min room n) inp)"
  by (induction room n ch inp rule: sized_loop.induct) auto

lemma unpack_string_sized:
  assumes "0 \<le> string_size it" and "size_to_load it = length bs"
  shows "unpack_string it (bs @ r) =
    Some (it\<lparr>size_to_load := length bs - min 256 (length bs), chunk := take 256 bs,
            last_chunk := (length bs \<le> 256)\<rparr>, drop 256 bs @ r)"
  using assms by (auto simp: unpack_string_def chunk_buff_len_def sized_loop_take min_def)

end
