(* ===== verification/Chain_Pack_Writer.thy ===== *)
theory Chain_Pack_Writer
  imports Chain_Pack_Items
begin

text \<open>
  \<open>ChainPackWriter\<close> (\<open>chainpackwriter.h\<close>, \<open>chainpackwriter.cpp\<close>) and the buffered output of
  \<open>AbstractStreamWriter\<close> (\<open>abstractstreamwriter.cpp\<close>, the pack context of \<open>ccpcp.c\<close>).
  A \<open>write\<close> function returns the bytes it appends.  The last section shows that the 32-byte
  buffer with its overflow handler delivers exactly the bytes that are packed, in their order.
\<close>

section \<open>Writing a value\<close>

definition writeMapKey :: "string \<Rightarrow> bytes" where
  "writeMapKey key = cchainpack_pack_string key"

definition writeIMapKey :: "int \<Rightarrow> bytes" where
  "writeIMapKey key = cchainpack_pack_int key"

definition writeContainerBegin :: "rpc_type \<Rightarrow> exn + bytes" where
  "writeContainerBegin container_type =
     (case container_type of
        TList \<Rightarrow> Inr [CP_List]
      | TMap \<Rightarrow> Inr [CP_Map]
      | TIMap \<Rightarrow> Inr [CP_IMap]
      | _ \<Rightarrow> Inl (ShvException (''Cannot write begin of container type: '' @
               RpcValue_typeToName container_type)))"

definition writeContainerEnd :: bytes where
  "writeContainerEnd = [CP_TERM]"

text \<open>\<open>write_map_elements\<close> folds \<open>writeMapElement\<close> over pairs whose values are written already.\<close>

definition write_map_elements :: "(string \<times> bytes) list \<Rightarrow> bytes" where
  "write_map_elements kvs = concat (map (\<lambda>(k, v). writeMapKey k @ v) kvs)"

definition write_imap_elements :: "(int \<times> bytes) list \<Rightarrow> bytes" where
  "write_imap_elements kvs = concat (map (\<lambda>(k, v). writeIMapKey k @ v) kvs)"

text \<open>
  An invalid value is written as \<open>Null\<close> (\<open>WRITE_INVALID_AS_NULL\<close>); empty meta data is
  not written.
\<close>

primrec write_value :: "rpc_value \<Rightarrow> bytes"
  and write_variant :: "variant \<Rightarrow> bytes"
  and write_meta :: "rpc_meta \<Rightarrow> bytes"
where
  "write_value (RpcValue m v) =
     (case map_option write_meta m of None \<Rightarrow> [] | Some bs \<Rightarrow> bs) @ write_variant v"
| "write_variant VInvalid = [CP_Null]"
| "write_variant VNull = [CP_Null]"
| "write_variant (VUInt u) = cchainpack_pack_uint u"
| "write_variant (VInt i) = cchainpack_pack_int i"
| "write_variant (VDouble d) = cchainpack_pack_double d"
| "write_variant (VBool b) = cchainpack_pack_boolean b"
| "write_variant (VBlob b) = cchainpack_pack_blob b"
| "write_variant (VString s) = cchainpack_pack_string s"
| "write_variant (VDateTime d) =
     cchainpack_pack_date_time (RpcDateTime_msecsSinceEpoch d) (RpcDateTime_utcOffsetMin d)"
| "write_variant (VDecimal d) = cchainpack_pack_decimal (dec_mantissa d) (dec_exponent d)"
| "write_variant (VList l) = CP_List # concat (map write_value l) @ writeContainerEnd"
| "write_variant (VMap m) =
     CP_Map # write_map_elements (map (map_prod id write_value) m) @ writeContainerEnd"
| "write_variant (VIMap m) =
     CP_IMap # write_imap_elements (map (map_prod id write_value) m) @ writeContainerEnd"
| "write_meta (MetaData im sm) =
     (if im = [] \<and> sm = [] then []
      else CP_MetaMap # write_imap_elements (map (map_prod id write_value) im)
             @ write_map_elements (map (map_prod id write_value) sm) @ [CP_TERM])"

definition writeMapElement_s :: "string \<Rightarrow> rpc_value \<Rightarrow> bytes" where
  "writeMapElement_s key val = writeMapKey key @ write_value val"

definition writeMapElement_i :: "int \<Rightarrow> rpc_value \<Rightarrow> bytes" where
  "writeMapElement_i key val = writeIMapKey key @ write_value val"

lemma write_elements:
  "write_map_elements (map (map_prod id write_value) m) = concat (map (\<lambda>(k, v). writeMapElement_s k v) m)"
  "write_imap_elements (map (map_prod id write_value) n) = concat (map (\<lambda>(k, v). writeMapElement_i k v) n)"
  by (simp_all add: write_map_elements_def write_imap_elements_def writeMapElement_s_def
      writeMapElement_i_def comp_def case_prod_unfold)

section \<open>The buffered output\<close>

text \<open>\<open>pk_out\<close> is what the stream received, \<open>pk_buff\<close> the bytes between \<open>start\<close> and \<open>current\<close>.\<close>

record pack_ctx =
  pk_out :: bytes
  pk_buff :: bytes

definition packBuff_size :: nat where "packBuff_size = 32"

definition AbstractStreamWriter_init :: pack_ctx where
  "AbstractStreamWriter_init = \<lparr>pk_out = [], pk_buff = []\<rparr>"

definition pack_overflow_handler :: "pack_ctx \<Rightarrow> pack_ctx" where
  "pack_overflow_handler ctx = \<lparr>pk_out = pk_out ctx @ pk_buff ctx, pk_buff = []\<rparr>"

definition free_space :: "pack_ctx \<Rightarrow> nat" where
  "free_space ctx = packBuff_size - length (pk_buff ctx)"

definition ccpcp_pack_make_space :: "nat \<Rightarrow> pack_ctx \<Rightarrow> pack_ctx" where
  "ccpcp_pack_make_space size_hint ctx =
     (if free_space ctx < size_hint then pack_overflow_handler ctx else ctx)"

definition ccpcp_pack_copy_byte :: "byte \<Rightarrow> pack_ctx \<Rightarrow> pack_ctx" where
  "ccpcp_pack_copy_byte b ctx =
     (let ctx' = ccpcp_pack_make_space 1 ctx in ctx'\<lparr>pk_buff := pk_buff ctx' @ [b]\<rparr>)"

text \<open>\<open>len\<close> is the length of the whole string, which the code passes as the hint each time.
  A buffer without room sets \<open>err_no\<close> and stops; the lemmas below show that it never happens.\<close>

function copy_bytes_loop :: "nat \<Rightarrow> bytes \<Rightarrow> pack_ctx \<Rightarrow> pack_ctx" where
  "copy_bytes_loop len str ctx =
     (if str = [] then ctx
      else (let ctx' = ccpcp_pack_make_space len ctx;
                rest = min (length str) (free_space ctx')
            in if free_space ctx' = 0 then ctx'
               else copy_bytes_loop len (drop rest str) (ctx'\<lparr>pk_buff := pk_buff ctx' @ take rest str\<rparr>)))"
  by pat_completeness auto
termination
  by (relation "measure (\<lambda>(len, str, ctx). length str)")
     auto

declare copy_bytes_loop.simps [simp del]

definition ccpcp_pack_copy_bytes :: "bytes \<Rightarrow> pack_ctx \<Rightarrow> pack_ctx" where
  "ccpcp_pack_copy_bytes str ctx = copy_bytes_loop (length str) str ctx"

definition AbstractStreamWriter_flush :: "pack_ctx \<Rightarrow> pack_ctx" where
  "AbstractStreamWriter_flush ctx = pack_overflow_handler ctx"

definition pack_sent :: "pack_ctx \<Rightarrow> bytes" where
  "pack_sent ctx = pk_out ctx @ pk_buff ctx"

definition pack_ctx_ok :: "pack_ctx \<Rightarrow> bool" where
  "pack_ctx_ok ctx \<longleftrightarrow> length (pk_buff ctx) \<le> packBuff_size"

text \<open>The contract of a byte sink, and the buffered writer as its implementation.\<close>

locale byte_sink =
  fixes sent :: "'s \<Rightarrow> bytes"
    and ok :: "'s \<Rightarrow> bool"
    and put :: "byte \<Rightarrow> 's \<Rightarrow> 's"
    and put_all :: "bytes \<Rightarrow> 's \<Rightarrow> 's"
  assumes sent_put: "ok s \<Longrightarrow> sent (put b s) = sent s @ [b]"
    and ok_put: "ok s \<Longrightarrow> ok (put b s)"
    and sent_put_all: "ok s \<Longrightarrow> sent (put_all bs s) = sent s @ bs"
    and ok_put_all: "ok s \<Longrightarrow> ok (put_all bs s)"
begin

lemma fold_put: "ok s \<Longrightarrow> sent (fold put bs s) = sent s @ bs \<and> ok (fold put bs s)"
  by (induction bs arbitrary: s) (simp_all add: sent_put ok_put)

lemma sent_mixed:
  "ok s \<Longrightarrow> sent (put_all cs (fold put bs s)) = sent s @ bs @ cs"
  using fold_put by (simp add: sent_put_all)

end

lemma make_space_facts:
  "pack_sent (ccpcp_pack_make_space n ctx) = pack_sent ctx"
  "pack_ctx_ok ctx \<Longrightarrow> pack_ctx_ok (ccpcp_pack_make_space n ctx)"
  "0 < n \<Longrightarrow> 0 < free_space (ccpcp_pack_make_space n ctx)"
  by (auto simp: ccpcp_pack_make_space_def pack_overflow_handler_def pack_sent_def pack_ctx_ok_def
      free_space_def packBuff_size_def)

lemma append_buff_facts:
  "pack_sent (ctx\<lparr>pk_buff := pk_buff ctx @ bs\<rparr>) = pack_sent ctx @ bs"
  "length bs \<le> free_space ctx \<Longrightarrow> pack_ctx_ok ctx \<Longrightarrow> pack_ctx_ok (ctx\<lparr>pk_buff := pk_buff ctx @ bs\<rparr>)"
  by (auto simp: pack_sent_def pack_ctx_ok_def free_space_def)

lemma copy_bytes_loop_facts:
  "length str \<le> len \<Longrightarrow> pack_ctx_ok ctx \<Longrightarrow>
   pack_sent (copy_bytes_loop len str ctx) = pack_sent ctx @ str \<and>
   pack_ctx_ok (copy_bytes_loop len str ctx)"
proof (induction len str ctx rule: copy_bytes_loop.induct)
  case (1 len str ctx)
  show ?case
  proof (cases "str = []")
    case True
    then show ?thesis using 1 by (auto simp: copy_bytes_loop.simps [of len "[]" ctx])
  next
    case False
    define ctx' where "ctx' = ccpcp_pack_make_space len ctx"
    define n where "n = min (length str) (free_space ctx')"
    have room: "free_space ctx' \<noteq> 0"
      using False "1.prems"(1) make_space_facts(3) [of len ctx] by (cases str) (auto simp: ctx'_def)
    have "pack_ctx_ok (ctx'\<lparr>pk_buff := pk_buff ctx' @ take n str\<rparr>)"
      using "1.prems" by (intro append_buff_facts) (auto simp: n_def ctx'_def make_space_facts)
    moreover have "copy_bytes_loop len str ctx =
        copy_bytes_loop len (drop n str) (ctx'\<lparr>pk_buff := pk_buff ctx' @ take n str\<rparr>)"
      using False room by (subst copy_bytes_loop.simps) (simp add: Let_def ctx'_def n_def)
    moreover have "length (drop n str) \<le> len" using "1.prems"(1) by simp
    ultimately show ?thesis
      using "1.IH" [OF False ctx'_def n_def room]
      by (simp add: append_buff_facts) (simp add: ctx'_def make_space_facts)
  qed
qed

interpretation packer: byte_sink pack_sent pack_ctx_ok ccpcp_pack_copy_byte ccpcp_pack_copy_bytes
proof unfold_locales
  fix s b bs
  assume ok: "pack_ctx_ok s"
  show "pack_sent (ccpcp_pack_copy_byte b s) = pack_sent s @ [b]"
    by (simp add: ccpcp_pack_copy_byte_def Let_def append_buff_facts make_space_facts)
  show "pack_ctx_ok (ccpcp_pack_copy_byte b s)"
    unfolding ccpcp_pack_copy_byte_def Let_def
    using make_space_facts(3) [of 1 s] ok by (intro append_buff_facts make_space_facts) simp_all
  show "pack_sent (ccpcp_pack_copy_bytes bs s) = pack_sent s @ bs"
    and "pack_ctx_ok (ccpcp_pack_copy_bytes bs s)"
    using copy_bytes_loop_facts [of bs "length bs" s] ok by (simp_all add: ccpcp_pack_copy_bytes_def)
qed

lemma flush_sends_all: "pk_out (AbstractStreamWriter_flush ctx) = pack_sent ctx"
  by (simp add: AbstractStreamWriter_flush_def pack_overflow_handler_def pack_sent_def)

end
