(* ===== verification/Chain_Pack_Reader.thy ===== *)
theory Chain_Pack_Reader
  imports Chain_Pack_Writer
begin

text \<open>
  \<open>ChainPackReader\<close> (\<open>chainpackreader.h\<close>, \<open>chainpackreader.cpp\<close>) and the byte-wise input of
  \<open>AbstractStreamReader\<close> (\<open>abstractstreamreader.cpp\<close>).  The reader's state is the last item
  of the unpack context and the bytes still to come.  \<open>read\<close> and the four \<open>parse\<close> loops call each
  other on what earlier calls left over.  The model ties the knot with fuel: a loop takes the reader
  of the values inside it as an argument and a bound on its own iterations; \<open>None\<close> means that
  a bound was hit, \<open>Some (Inl e)\<close> that the code throws \<open>e\<close>.  With one more unit of fuel than
  there are input bytes no bound is ever hit (lemma \<open>rd_value_total\<close>): every nested read and
  every iteration consumes a byte.  The out-parameter \<open>val\<close> of \<open>read\<close> starts as the invalid
  value every caller passes.
\<close>

section \<open>Sequencing\<close>

definition bind_r :: "(exn + 'a) option \<Rightarrow> ('a \<Rightarrow> (exn + 'b) option) \<Rightarrow> (exn + 'b) option" where
  "bind_r m f = (case m of None \<Rightarrow> None | Some (Inl e) \<Rightarrow> Some (Inl e) | Some (Inr x) \<Rightarrow> f x)"

lemma bind_r_simps [simp]:
  "bind_r None f = None" "bind_r (Some (Inl e)) f = Some (Inl e)" "bind_r (Some (Inr x)) f = f x"
  by (simp_all add: bind_r_def)

lemma bind_r_Inr: "bind_r m f = Some (Inr y) \<longleftrightarrow> (\<exists>x. m = Some (Inr x) \<and> f x = Some (Inr y))"
  by (auto simp: bind_r_def split: option.splits sum.splits)

lemma bind_r_total: "m \<noteq> None \<Longrightarrow> (\<And>x. m = Some (Inr x) \<Longrightarrow> f x \<noteq> None) \<Longrightarrow> bind_r m f \<noteq> None"
  by (auto simp: bind_r_def split: option.splits sum.splits)

section \<open>Items\<close>

definition unpackNext :: "item \<Rightarrow> bytes \<Rightarrow> exn + item \<times> bytes" where
  "unpackNext it inp =
     (case cchainpack_unpack_next it inp of None \<Rightarrow> Inl ParseException | Some r \<Rightarrow> Inr r)"

text \<open>The type a peeked byte announces; small numbers and blobs are not among them.\<close>

definition peekNext :: "bytes \<Rightarrow> exn + item" where
  "peekNext inp =
     (case inp of
        [] \<Rightarrow> Inl ParseException
      | sch # _ \<Rightarrow> Inr
          (if sch = CP_Null then ItemNull
           else if sch = CP_UInt then ItemUInt 0
           else if sch = CP_Int then ItemInt 0
           else if sch = CP_Double then ItemDouble 0
           else if sch = CP_Bool then ItemBoolean False
           else if sch = CP_String then ItemString (ccpcp_string_init 0)
           else if sch = CP_List then ItemList
           else if sch = CP_Map then ItemMap
           else if sch = CP_IMap then ItemIMap
           else if sch = CP_MetaMap then ItemMeta
           else if sch = CP_Decimal then ItemDecimal 0 0
           else if sch = CP_DateTime then ItemDateTime 0 0
           else if sch = CP_CString then ItemString (ccpcp_string_init 0)
           else if sch = CP_FALSE \<or> sch = CP_TRUE then ItemBoolean False
           else if sch = CP_TERM then ItemContainerEnd
           else ItemInvalid))"

definition readUIntData :: "bytes \<Rightarrow> (u64 \<times> bytes) option" where
  "readUIntData inp = cchainpack_unpack_uint_data2 inp"

definition is_container_end :: "item \<Rightarrow> bool" where
  "is_container_end it = (case it of ItemContainerEnd \<Rightarrow> True | _ \<Rightarrow> False)"

text \<open>The loops that collect the chunks of a string or a blob.\<close>

definition chunk_item :: "bool \<Rightarrow> cp_string \<Rightarrow> item" where
  "chunk_item is_blob s = (if is_blob then ItemBlob s else ItemString s)"

definition dest_chunk :: "bool \<Rightarrow> item \<Rightarrow> cp_string option" where
  "dest_chunk is_blob it =
     (case it of ItemString s \<Rightarrow> if is_blob then None else Some s
      | ItemBlob s \<Rightarrow> if is_blob then Some s else None | _ \<Rightarrow> None)"

lemma unpackNext_chunk:
  "\<not> last_chunk s \<Longrightarrow> unpackNext (chunk_item is_blob s) inp =
    (case unpack_string s inp of None \<Rightarrow> Inl ParseException
     | Some (s', r) \<Rightarrow> Inr (chunk_item is_blob s', r))"
  by (auto simp: unpackNext_def chunk_item_def cchainpack_unpack_next_def split: option.splits)

lemma dest_chunk_item [simp]: "dest_chunk is_blob (chunk_item is_blob s) = Some s"
  by (simp add: dest_chunk_def chunk_item_def)

function chunk_loop :: "bool \<Rightarrow> bytes \<Rightarrow> cp_string \<Rightarrow> bytes \<Rightarrow> exn + bytes \<times> cp_string \<times> bytes" where
  "chunk_loop is_blob str it inp =
     (let str' = str @ chunk it
      in if last_chunk it then Inr (str', it, inp)
         else (case unpackNext (chunk_item is_blob it) inp of
                 Inl e \<Rightarrow> Inl e
               | Inr (nxt, inp') \<Rightarrow>
                   (case dest_chunk is_blob nxt of
                      None \<Rightarrow> Inl ParseException
                    | Some it' \<Rightarrow> chunk_loop is_blob str' it' inp')))"
  by pat_completeness auto
termination
proof (relation "measure (\<lambda>(b, str, it, inp). length inp + of_bool (\<not> last_chunk it))")
  fix is_blob str it inp x nxt y it'
  and str' :: bytes
  assume nl: "\<not> last_chunk it" and nx: "unpackNext (chunk_item is_blob it) inp = Inr x"
    and x: "(nxt, y) = x" and d: "dest_chunk is_blob nxt = Some it'"
  from nx x d have "unpack_string it inp = Some (it', y)"
    by (auto simp: unpackNext_chunk [OF nl] split: option.splits)
  then show "((is_blob, str', it', y), is_blob, str, it, inp) \<in>
      measure (\<lambda>(b, str, it, inp). length inp + of_bool (\<not> last_chunk it))"
    using nl unpack_string_length [of it inp it' y] by auto
qed simp

declare chunk_loop.simps [simp del]

section \<open>Reading a value\<close>

definition attach_meta :: "rpc_meta \<Rightarrow> rpc_value \<Rightarrow> exn + rpc_value" where
  "attach_meta md val =
     (if RpcMetaData_isEmpty md then Inr val
      else if \<not> RpcValue_isValid val then Inl ParseException
      else RpcValue_setMetaData md val)"

type_synonym reader = "item \<Rightarrow> bytes \<Rightarrow> (exn + rpc_value \<times> item \<times> bytes) option"

primrec parseList :: "reader \<Rightarrow> nat \<Rightarrow> rpc_list \<Rightarrow> item \<Rightarrow> bytes \<Rightarrow> (exn + rpc_list \<times> item \<times> bytes) option"
where
  "parseList rd 0 lst it inp = None"
| "parseList rd (Suc n) lst it inp =
     bind_r (rd it inp) (\<lambda>(v, it, inp).
       if is_container_end it then Some (Inr (lst, ItemInvalid, inp))
       else parseList rd n (lst @ [v]) it inp)"

text \<open>
  The three loops over key-value pairs are the same but for what an iteration does with its pair:
  \<open>read(key)\<close>, the test for the end of the container, \<open>read(val)\<close>, the step.
\<close>

primrec parse_pairs :: "reader \<Rightarrow> (rpc_value \<Rightarrow> rpc_value \<Rightarrow> 'a \<Rightarrow> exn + 'a) \<Rightarrow> nat \<Rightarrow> 'a \<Rightarrow> item \<Rightarrow> bytes \<Rightarrow>
    (exn + 'a \<times> item \<times> bytes) option"
where
  "parse_pairs rd step 0 acc it inp = None"
| "parse_pairs rd step (Suc n) acc it inp =
     bind_r (rd it inp) (\<lambda>(key, it, inp).
       if is_container_end it then Some (Inr (acc, ItemInvalid, inp))
       else bind_r (rd it inp) (\<lambda>(val, it, inp).
         bind_r (Some (step key val acc)) (\<lambda>acc'. parse_pairs rd step n acc' it inp)))"

definition meta_step :: "rpc_value \<Rightarrow> rpc_value \<Rightarrow> rpc_meta \<Rightarrow> exn + rpc_meta" where
  "meta_step key val meta_data =
     (if RpcValue_isString key then Inr (RpcMetaData_setValue_s (RpcValue_asString key) val meta_data)
      else map_sum id (\<lambda>k. RpcMetaData_setValue_i k val meta_data) (RpcValue_toInt key))"

definition map_step :: "rpc_value \<Rightarrow> rpc_value \<Rightarrow> rpc_map \<Rightarrow> exn + rpc_map" where
  "map_step key val m = Inr (map_set (RpcValue_asString key) val m)"

definition imap_step :: "rpc_value \<Rightarrow> rpc_value \<Rightarrow> rpc_imap \<Rightarrow> exn + rpc_imap" where
  "imap_step key val m = map_sum id (\<lambda>k. map_set k val m) (RpcValue_toInt key)"

definition parseMetaData :: "reader \<Rightarrow> nat \<Rightarrow> item \<Rightarrow> bytes \<Rightarrow> (exn + rpc_meta \<times> item \<times> bytes) option" where
  "parseMetaData rd n it inp = parse_pairs rd meta_step n meta_empty it inp"

definition parseMap :: "reader \<Rightarrow> nat \<Rightarrow> item \<Rightarrow> bytes \<Rightarrow> (exn + rpc_map \<times> item \<times> bytes) option" where
  "parseMap rd n it inp = parse_pairs rd map_step n [] it inp"

definition parseIMap :: "reader \<Rightarrow> nat \<Rightarrow> item \<Rightarrow> bytes \<Rightarrow> (exn + rpc_imap \<times> item \<times> bytes) option" where
  "parseIMap rd n it inp = parse_pairs rd imap_step n [] it inp"

text \<open>\<open>read(MetaData &)\<close>: nothing is read unless the next byte opens meta data.\<close>

definition read_meta :: "reader \<Rightarrow> item \<Rightarrow> bytes \<Rightarrow> (exn + rpc_meta \<times> item \<times> bytes) option" where
  "read_meta rd it inp =
     (case inp of
        [] \<Rightarrow> Some (Inr (meta_empty, it, inp))
      | b # _ \<Rightarrow>
          if b = CP_MetaMap
          then bind_r (Some (unpackNext it inp)) (\<lambda>(it, inp'). parseMetaData rd (length inp) it inp')
          else Some (Inr (meta_empty, it, inp)))"

text \<open>The switch of \<open>read(RpcValue &)\<close> on the item just read.\<close>

definition read_switch :: "reader \<Rightarrow> item \<Rightarrow> bytes \<Rightarrow> (exn + rpc_value \<times> item \<times> bytes) option" where
  "read_switch rd it inp =
     (case it of
        ItemInvalid \<Rightarrow> Some (Inr (invalid_value, it, inp))
      | ItemList \<Rightarrow>
          bind_r (parseList rd (Suc (length inp)) [] it inp) (\<lambda>(l, r). Some (Inr (rpc (VList l), r)))
      | ItemMap \<Rightarrow>
          bind_r (parseMap rd (Suc (length inp)) it inp) (\<lambda>(m, r). Some (Inr (rpc (VMap m), r)))
      | ItemIMap \<Rightarrow>
          bind_r (parseIMap rd (Suc (length inp)) it inp) (\<lambda>(m, r). Some (Inr (rpc (VIMap m), r)))
      | ItemContainerEnd \<Rightarrow> Some (Inr (invalid_value, it, inp))
      | ItemNull \<Rightarrow> Some (Inr (rpc VNull, it, inp))
      | ItemString s \<Rightarrow>
          Some (map_sum id (\<lambda>(str, s', r). (rpc (VString (string_of_bytes str)), ItemString s', r))
            (chunk_loop False [] s inp))
      | ItemBlob s \<Rightarrow>
          Some (map_sum id (\<lambda>(str, s', r). (rpc (VBlob str), ItemBlob s', r)) (chunk_loop True [] s inp))
      | ItemBoolean b \<Rightarrow> Some (Inr (rpc (VBool b), it, inp))
      | ItemInt i \<Rightarrow> Some (Inr (rpc (VInt i), it, inp))
      | ItemUInt u \<Rightarrow> Some (Inr (rpc (VUInt u), it, inp))
      | ItemDecimal m e \<Rightarrow>
          Some (Inr (rpc (VDecimal \<lparr>dec_mantissa = m, dec_exponent = e\<rparr>), it, inp))
      | ItemDouble d \<Rightarrow> Some (Inr (rpc (VDouble d), it, inp))
      | ItemDateTime ms off \<Rightarrow>
          Some (Inr (rpc (VDateTime (RpcDateTime_fromMSecsSinceEpoch ms off)), it, inp))
      | ItemMeta \<Rightarrow> Some (Inl ParseException))"

primrec rd_value :: "nat \<Rightarrow> reader" where
  "rd_value 0 = (\<lambda>it inp. None)"
| "rd_value (Suc n) = (\<lambda>it inp.
     bind_r (read_meta (rd_value n) it inp) (\<lambda>(md, it, inp).
     bind_r (Some (unpackNext it inp)) (\<lambda>(it, inp).
     bind_r (read_switch (rd_value n) it inp) (\<lambda>(val, r).
       Some (map_sum id (\<lambda>val'. (val', r)) (attach_meta md val))))))"

definition rd_fuel :: "bytes \<Rightarrow> nat" where
  "rd_fuel inp = Suc (length inp)"

definition run_rd :: "(exn + 'a) option \<Rightarrow> exn + 'a" where
  "run_rd r = (case r of None \<Rightarrow> Inl ParseException | Some x \<Rightarrow> x)"

definition ChainPackReader_read :: "item \<Rightarrow> bytes \<Rightarrow> exn + rpc_value \<times> item \<times> bytes" where
  "ChainPackReader_read it inp = run_rd (rd_value (rd_fuel inp) it inp)"

definition ChainPackReader_read_meta :: "item \<Rightarrow> bytes \<Rightarrow> exn + rpc_meta \<times> item \<times> bytes" where
  "ChainPackReader_read_meta it inp = run_rd (read_meta (rd_value (rd_fuel inp)) it inp)"

section \<open>Reading along a path\<close>

text \<open>
  The inner loop of \<open>readPath\<close>: entries are skipped until the key matches, which leaves the
  reader in front of its value, or until the container ends.  \<open>cont\<close> is the item that
  opened the container.
\<close>

definition path_key :: "item \<Rightarrow> rpc_value \<Rightarrow> exn + string" where
  "path_key cont map_key =
     (case cont of ItemMap \<Rightarrow> Inr (RpcValue_asString map_key)
      | _ \<Rightarrow> map_sum id to_string_int (RpcValue_toInt map_key))"

primrec find_key :: "nat \<Rightarrow> item \<Rightarrow> string \<Rightarrow> int \<Rightarrow> item \<Rightarrow> bytes \<Rightarrow> (exn + bool \<times> item \<times> bytes) option" where
  "find_key 0 cont requested_key index it inp = None"
| "find_key (Suc n) cont requested_key index it inp =
     bind_r (Some (peekNext inp)) (\<lambda>t.
       if is_container_end t then Some (Inr (False, it, inp))
       else if cont = ItemList then
         (if to_string_int index = requested_key then Some (Inr (True, it, inp))
          else bind_r (Some (ChainPackReader_read it inp)) (\<lambda>(skip, it, inp).
            find_key n cont requested_key (index + 1) it inp))
       else
         bind_r (Some (ChainPackReader_read it inp)) (\<lambda>(map_key, it, inp).
         bind_r (Some (path_key cont map_key)) (\<lambda>cmp.
           if cmp = requested_key then Some (Inr (True, it, inp))
           else bind_r (Some (ChainPackReader_read it inp)) (\<lambda>(skip, it, inp).
             find_key n cont requested_key index it inp))))"

text \<open>\<open>Inr None\<close>: \<open>readPath\<close> returned \<open>false\<close>.\<close>

primrec readPath :: "string list \<Rightarrow> item \<Rightarrow> bytes \<Rightarrow> exn + rpc_value option" where
  "readPath [] it inp = map_sum id (\<lambda>(val, _). Some val) (ChainPackReader_read it inp)"
| "readPath (requested_key # keys) it inp =
     (case ChainPackReader_read_meta it inp of
        Inl e \<Rightarrow> Inl e
      | Inr (md, it, inp) \<Rightarrow>
          (case unpackNext it inp of
             Inl e \<Rightarrow> Inl e
           | Inr (cont, inp) \<Rightarrow>
               if cont \<noteq> ItemMap \<and> cont \<noteq> ItemIMap \<and> cont \<noteq> ItemList then Inr None
               else (case run_rd (find_key (rd_fuel inp) cont requested_key 0 cont inp) of
                       Inl e \<Rightarrow> Inl e
                     | Inr (found, it, inp) \<Rightarrow> if found then readPath keys it inp else Inr None)))"

section \<open>The entry points of \<open>RpcValue\<close>\<close>

text \<open>
  \<open>toChainPack\<close> and the readers from a string.  With an error string \<open>err\<close> a parse error is
  reported there (second component \<open>True\<close>) and the result stays invalid.
\<close>

definition RpcValue_toChainPack :: "rpc_value \<Rightarrow> bytes" where
  "RpcValue_toChainPack v = write_value v"

definition RpcValue_fromChainPack :: "bytes \<Rightarrow> exn + rpc_value" where
  "RpcValue_fromChainPack str = map_sum id fst (ChainPackReader_read ItemInvalid str)"

definition RpcValue_fromChainPack_err :: "bytes \<Rightarrow> exn + rpc_value \<times> bool" where
  "RpcValue_fromChainPack_err str =
     (case RpcValue_fromChainPack str of
        Inl ParseException \<Rightarrow> Inr (invalid_value, True)
      | Inl e \<Rightarrow> Inl e
      | Inr v \<Rightarrow> Inr (v, False))"

definition RpcValue_fromChainPackWithPath :: "bytes \<Rightarrow> string list \<Rightarrow> exn + rpc_value option" where
  "RpcValue_fromChainPackWithPath str keys = readPath keys ItemInvalid str"

section \<open>Every value that is read is well-formed\<close>

definition item_wf :: "item \<Rightarrow> bool" where
  "item_wf it =
     (case it of ItemInt i \<Rightarrow> in_s 64 i | ItemDecimal m e \<Rightarrow> in_s 64 m \<and> in_s 32 e | _ \<Rightarrow> True)"

lemma unpack_int_range: "unpack_int inp = Some (i, r) \<Longrightarrow> in_s 64 i"
proof -
  have "in_s 64 (sint (w::u64))" for w
    using sint_less [of w] sint_ge [of w] by (simp add: in_s_def)
  moreover have "in_s 64 9223372036854775807" by (simp add: in_s_def)
  moreover assume "unpack_int inp = Some (i, r)"
  ultimately show ?thesis by (auto simp: unpack_int_def Let_def split: option.splits if_splits)
qed

lemma in_s_uint_byte: "in_s 64 (uint (b::byte))"
proof -
  have "uint b < 256" using uint_lt2p [of b] by simp
  moreover have "- 9223372036854775808 \<le> uint b" using uint_ge_0 [of b] by linarith
  ultimately show ?thesis by (simp add: in_s_def)
qed

lemma unpack_fresh_wf: "unpack_fresh inp = Some (it, r) \<Longrightarrow> item_wf it"
proof (cases inp)
  case (Cons b inp')
  assume "unpack_fresh inp = Some (it, r)"
  then have "unpack_item b inp' = Some (it, r)" by (simp add: unpack_fresh_def Cons)
  then show ?thesis
    unfolding unpack_item_def
    by (auto simp: item_wf_def unpack_decimal_def unpack_date_time_def date_time_item_def Let_def in_s_uint_byte
        split: if_split_asm option.split_asm dest!: unpack_int_range)
qed (simp add: unpack_fresh_def)

lemma map_sum_Inr: "map_sum f g x = Inr y \<longleftrightarrow> (\<exists>z. x = Inr z \<and> y = g z)"
  by (cases x) auto

lemma RpcValue_toInt_range: "RpcValue_toInt v = Inr k \<Longrightarrow> in_s 32 k"
  by (auto simp: RpcValue_toInt_def impl_to_int_def split: variant.splits sum.splits)
     (auto simp: map_sum_def split: sum.splits)

lemma unpackNext_sound:
  "item_finished it \<Longrightarrow> unpackNext it inp = Inr (it', r) \<Longrightarrow> item_wf it' \<and> length r < length inp"
  by (auto simp: unpackNext_def unpack_next_finished split: option.splits
      dest: unpack_fresh_wf unpack_fresh_length)

lemma chunk_loop_sound:
  "chunk_loop is_blob str it inp = Inr (str', it', r) \<Longrightarrow> last_chunk it' \<and> length r \<le> length inp"
proof (induction is_blob str it inp rule: chunk_loop.induct)
  case (1 is_blob str it inp)
  show ?case
  proof (cases "last_chunk it")
    case True
    then show ?thesis using "1.prems" by (simp add: chunk_loop.simps [of is_blob str it inp])
  next
    case False
    with "1.prems" obtain s' r' where s': "unpack_string it inp = Some (s', r')"
      and rec: "chunk_loop is_blob (str @ chunk it) s' r' = Inr (str', it', r)"
      by (subst (asm) chunk_loop.simps) (auto simp: unpackNext_chunk split: option.splits)
    have "last_chunk it' \<and> length r \<le> length r'"
      using "1.IH" [OF refl False _ refl _ rec] s' by (simp add: unpackNext_chunk [OF False])
    then show ?thesis using unpack_string_length(1) [OF s'] by simp
  qed
qed

lemma step_invariants:
  "smap_ok sm \<Longrightarrow> rpc_wf v \<Longrightarrow> map_step k v sm = Inr sm' \<Longrightarrow> smap_ok sm'"
  "imap_ok im \<Longrightarrow> rpc_wf v \<Longrightarrow> imap_step k v im = Inr im' \<Longrightarrow> imap_ok im'"
  "meta_wf md \<Longrightarrow> rpc_wf v \<Longrightarrow> meta_step k v md = Inr md' \<Longrightarrow> meta_wf md'"
  by (auto simp: map_step_def imap_step_def meta_step_def map_sum_Inr smap_ok_ops imap_ok_ops
      meta_wf_setValue dest: RpcValue_toInt_range split: if_splits)

lemma meta_wf_empty: "meta_wf meta_empty"
  by (simp add: meta_empty_def imap_ok_ops smap_ok_ops)

text \<open>What the loops rely on of the reader of the values inside them.\<close>

locale value_reader =
  fixes rd :: reader
  assumes rd_sound: "item_finished it \<Longrightarrow> rd it inp = Some (Inr (v, it', r)) \<Longrightarrow>
    item_finished it' \<and> length r < length inp \<and> rpc_wf v"
begin

lemma parseList_sound:
  "item_finished it \<Longrightarrow> (\<forall>v \<in> set lst. rpc_wf v) \<Longrightarrow> parseList rd n lst it inp = Some (Inr (l, it', r)) \<Longrightarrow>
   item_finished it' \<and> length r < length inp \<and> (\<forall>v \<in> set l. rpc_wf v)"
proof (induction n arbitrary: lst it inp)
  case (Suc n)
  then obtain v it1 r1 where rd: "rd it inp = Some (Inr (v, it1, r1))"
    by (auto simp: bind_r_Inr)
  note sound = rd_sound [OF Suc.prems(1) rd]
  show ?case
  proof (cases "is_container_end it1")
    case True
    then show ?thesis using Suc.prems sound rd by auto
  next
    case False
    then show ?thesis
      using Suc.prems(2,3) sound rd Suc.IH [of it1 "lst @ [v]" r1] by auto
  qed
qed simp

lemma parse_pairs_sound:
  assumes step: "\<And>k v a a'. I a \<Longrightarrow> rpc_wf k \<Longrightarrow> rpc_wf v \<Longrightarrow> step k v a = Inr a' \<Longrightarrow> I a'"
  shows "item_finished it \<Longrightarrow> I a \<Longrightarrow> parse_pairs rd step n a it inp = Some (Inr (a', it', r)) \<Longrightarrow>
    item_finished it' \<and> length r < length inp \<and> I a'"
proof (induction n arbitrary: a it inp)
  case (Suc n)
  then obtain k it1 r1 where rd1: "rd it inp = Some (Inr (k, it1, r1))"
    by (auto simp: bind_r_Inr)
  note sound1 = rd_sound [OF Suc.prems(1) rd1]
  show ?case
  proof (cases "is_container_end it1")
    case True
    then show ?thesis using Suc.prems sound1 rd1 by auto
  next
    case False
    then obtain v it2 r2 a2 where rd2: "rd it1 r1 = Some (Inr (v, it2, r2))"
      and a2: "step k v a = Inr a2" and rec: "parse_pairs rd step n a2 it2 r2 = Some (Inr (a', it', r))"
      using Suc.prems(3) rd1 by (auto simp: bind_r_Inr)
    note sound2 = rd_sound [OF conjunct1 [OF sound1] rd2]
    then show ?thesis
      using Suc.IH [OF _ _ rec] step [OF Suc.prems(2) _ _ a2] sound1 by auto
  qed
qed simp

lemma parse_maps_sound:
  "item_finished it \<Longrightarrow> parseMap rd n it inp = Some (Inr (sm, it', r)) \<Longrightarrow>
    item_finished it' \<and> length r < length inp \<and> smap_ok sm"
  "item_finished it \<Longrightarrow> parseIMap rd n it inp = Some (Inr (im, it', r)) \<Longrightarrow>
    item_finished it' \<and> length r < length inp \<and> imap_ok im"
  "item_finished it \<Longrightarrow> parseMetaData rd n it inp = Some (Inr (md, it', r)) \<Longrightarrow>
    item_finished it' \<and> length r < length inp \<and> meta_wf md"
proof -
  assume fin: "item_finished it"
  show "parseMap rd n it inp = Some (Inr (sm, it', r)) \<Longrightarrow>
      item_finished it' \<and> length r < length inp \<and> smap_ok sm"
    unfolding parseMap_def
    by (rule parse_pairs_sound [where I = smap_ok]) (use fin step_invariants(1) smap_ok_ops(1) in auto)
  show "parseIMap rd n it inp = Some (Inr (im, it', r)) \<Longrightarrow>
      item_finished it' \<and> length r < length inp \<and> imap_ok im"
    unfolding parseIMap_def
    by (rule parse_pairs_sound [where I = imap_ok]) (use fin step_invariants(2) imap_ok_ops(1) in auto)
  show "parseMetaData rd n it inp = Some (Inr (md, it', r)) \<Longrightarrow>
      item_finished it' \<and> length r < length inp \<and> meta_wf md"
    unfolding parseMetaData_def
    by (rule parse_pairs_sound [where I = meta_wf]) (use fin step_invariants(3) meta_wf_empty in auto)
qed

lemma read_meta_sound:
  assumes fin: "item_finished it" and eq: "read_meta rd it inp = Some (Inr (md, it', r))"
  shows "item_finished it' \<and> length r \<le> length inp \<and> meta_wf md"
proof (cases "\<exists>inp'. inp = CP_MetaMap # inp'")
  case True
  then obtain inp' where inp: "inp = CP_MetaMap # inp'" by blast
  with eq obtain it1 r1 where next': "unpackNext it inp = Inr (it1, r1)"
    and md: "parseMetaData rd (length inp) it1 r1 = Some (Inr (md, it', r))"
    by (auto simp: read_meta_def bind_r_Inr)
  have "it1 = ItemMeta" "r1 = inp'"
    using next' by (simp_all add: inp unpackNext_def unpack_next_finished [OF fin] unpack_fresh_def unpack_item_def)
  then show ?thesis using parse_maps_sound(3) [OF _ md] by (simp add: item_finished_def inp)
next
  case False
  with eq fin show ?thesis
    by (auto simp: read_meta_def meta_wf_empty split: list.splits if_splits)
qed

lemma read_switch_sound:
  "item_wf it \<Longrightarrow> read_switch rd it inp = Some (Inr (v, it', r)) \<Longrightarrow>
   item_finished it' \<and> length r \<le> length inp \<and> rpc_wf v"
  by (cases it)
     (auto simp: read_switch_def bind_r_Inr map_sum_Inr item_wf_def decimal_wf_def date_time_wf_setters
        simp del: parseList.simps
        dest: chunk_loop_sound parse_maps_sound [rotated] parseList_sound [rotated 2] less_imp_le)

end

section \<open>The fuel is enough\<close>

locale total_reader = value_reader +
  fixes N :: nat
  assumes rd_total: "item_finished it \<Longrightarrow> length inp < N \<Longrightarrow> rd it inp \<noteq> None"
begin

lemma parseList_total:
  "item_finished it \<Longrightarrow> length inp < n \<Longrightarrow> length inp < N \<Longrightarrow> parseList rd n lst it inp \<noteq> None"
proof (induction n arbitrary: lst it inp)
  case (Suc n)
  show ?case
    unfolding parseList.simps
  proof (rule bind_r_total)
    show "rd it inp \<noteq> None" using rd_total Suc.prems by blast
    fix x assume x: "rd it inp = Some (Inr x)"
    obtain v it1 r1 where xe: "x = (v, it1, r1)" by (metis prod_cases3)
    show "(case x of (v, it, inp) \<Rightarrow> if is_container_end it then Some (Inr (lst, ItemInvalid, inp))
        else parseList rd n (lst @ [v]) it inp) \<noteq> None"
      using rd_sound [OF Suc.prems(1) x [unfolded xe]] Suc.prems Suc.IH [of it1 r1 "lst @ [v]"]
      by (simp add: xe)
  qed
qed simp

lemma parse_pairs_total:
  "item_finished it \<Longrightarrow> length inp < n \<Longrightarrow> length inp < N \<Longrightarrow> parse_pairs rd step n a it inp \<noteq> None"
proof (induction n arbitrary: a it inp)
  case (Suc n)
  have "rd it inp \<noteq> None" using rd_total Suc.prems by blast
  then consider e where "rd it inp = Some (Inl e)"
    | k it1 r1 where "rd it inp = Some (Inr (k, it1, r1))"
    by (metis not_None_eq old.sum.exhaust prod_cases3)
  then show ?case
  proof cases
    case (2 k it1 r1)
    note sound1 = rd_sound [OF Suc.prems(1) 2]
    then have "rd it1 r1 \<noteq> None" using rd_total Suc.prems by (meson less_trans)
    then consider e where "rd it1 r1 = Some (Inl e)"
      | v it2 r2 where "rd it1 r1 = Some (Inr (v, it2, r2))"
      by (metis not_None_eq old.sum.exhaust prod_cases3)
    then show ?thesis
    proof cases
      case (2 v it2 r2)
      note sound2 = rd_sound [OF conjunct1 [OF sound1] 2]
      show ?thesis
        using sound1 sound2 Suc.prems Suc.IH [of it2 r2] 2 \<open>rd it inp = Some (Inr (k, it1, r1))\<close>
        by (cases "step k v a") auto
    qed (simp add: \<open>rd it inp = Some (Inr (k, it1, r1))\<close>)
  qed simp
qed simp

lemma read_meta_total:
  assumes fin: "item_finished it" and len: "length inp \<le> N"
  shows "read_meta rd it inp \<noteq> None"
proof (cases "\<exists>inp'. inp = CP_MetaMap # inp'")
  case True
  then obtain inp' where inp: "inp = CP_MetaMap # inp'" by blast
  have "unpackNext it inp = Inr (ItemMeta, inp')"
    by (simp add: inp unpackNext_def unpack_next_finished [OF fin] unpack_fresh_def unpack_item_def)
  then show ?thesis
    using len parse_pairs_total [of ItemMeta inp' "length inp" meta_step meta_empty]
    by (simp add: read_meta_def inp parseMetaData_def)
next
  case False
  then show ?thesis by (auto simp: read_meta_def split: list.splits)
qed

lemma read_switch_total: "length inp < N \<Longrightarrow> read_switch rd it inp \<noteq> None"
  using parseList_total [of it inp "Suc (length inp)" "[]"]
    parse_pairs_total [of it inp "Suc (length inp)" map_step "[]"]
    parse_pairs_total [of it inp "Suc (length inp)" imap_step "[]"]
  by (cases it)
     (auto simp: read_switch_def parseMap_def parseIMap_def bind_r_def simp del: parseList.simps
        parse_pairs.simps split: option.splits sum.splits)

end

lemma attach_meta_wf: "meta_wf md \<Longrightarrow> rpc_wf v \<Longrightarrow> attach_meta md v = Inr w \<Longrightarrow> rpc_wf w"
  by (auto simp: attach_meta_def rpc_wf_setMetaValue(3) split: if_splits)

lemma rd_value_reader: "value_reader (rd_value n)"
proof (induction n)
  case 0
  show ?case by unfold_locales simp_all
next
  case (Suc n)
  show ?case
  proof
    fix it inp v it' r
    assume fin: "item_finished it" and "rd_value (Suc n) it inp = Some (Inr (v, it', r))"
    then obtain md it1 r1 it2 r2 v3
      where md: "read_meta (rd_value n) it inp = Some (Inr (md, it1, r1))"
        and nx: "unpackNext it1 r1 = Inr (it2, r2)"
        and sw: "read_switch (rd_value n) it2 r2 = Some (Inr (v3, it', r))"
        and at: "attach_meta md v3 = Inr v"
      by (auto simp: bind_r_Inr map_sum_Inr)
    note s1 = value_reader.read_meta_sound [OF Suc fin md]
    note s2 = unpackNext_sound [OF conjunct1 [OF s1] nx]
    note s3 = value_reader.read_switch_sound [OF Suc conjunct1 [OF s2] sw]
    show "item_finished it' \<and> length r < length inp \<and> rpc_wf v"
      using s1 s2 s3 attach_meta_wf [OF _ _ at] by auto
  qed
qed

interpretation rdv: value_reader "rd_value n" for n
  by (rule rd_value_reader)

lemma rd_value_total: "total_reader (rd_value n) n"
proof (induction n)
  case 0
  show ?case by unfold_locales simp_all
next
  case (Suc n)
  show ?case
  proof
    fix it and inp :: bytes
    assume fin: "item_finished it" and len: "length inp < Suc n"
    show "rd_value (Suc n) it inp \<noteq> None"
      unfolding rd_value.simps
    proof (rule bind_r_total)
      show "read_meta (rd_value n) it inp \<noteq> None"
        using total_reader.read_meta_total [OF Suc fin] len by simp
      fix x assume x: "read_meta (rd_value n) it inp = Some (Inr x)"
      obtain md it1 r1 where xe: "x = (md, it1, r1)" by (metis prod_cases3)
      note s1 = rdv.read_meta_sound [OF fin x [unfolded xe]]
      show "(case x of (md, it, inp) \<Rightarrow>
          bind_r (Some (unpackNext it inp)) (\<lambda>(it, inp).
          bind_r (read_switch (rd_value n) it inp) (\<lambda>(val, r).
            Some (map_sum id (\<lambda>val'. (val', r)) (attach_meta md val))))) \<noteq> None"
        unfolding xe prod.case
      proof (rule bind_r_total)
        fix y assume "Some (unpackNext it1 r1) = Some (Inr y)"
        moreover obtain it2 r2 where ye: "y = (it2, r2)" by (cases y)
        ultimately have "length r2 < n" using unpackNext_sound [of it1 r1 it2 r2] s1 len by auto
        then show "(case y of (it, inp) \<Rightarrow> bind_r (read_switch (rd_value n) it inp) (\<lambda>(val, r).
            Some (map_sum id (\<lambda>val'. (val', r)) (attach_meta md val)))) \<noteq> None"
          unfolding ye prod.case
          by (intro bind_r_total total_reader.read_switch_total [OF Suc]) (auto split: prod.splits)
      qed simp
    qed
  qed
qed

interpretation rdt: total_reader "rd_value n" n for n
  by (rule rd_value_total)

lemma ChainPackReader_read_runs:
  "item_finished it \<Longrightarrow> rd_value (rd_fuel inp) it inp = Some (ChainPackReader_read it inp)"
  using rdt.rd_total [of it inp "rd_fuel inp"]
  by (auto simp: ChainPackReader_read_def run_rd_def rd_fuel_def split: option.splits)

lemma ChainPackReader_read_sound:
  "item_finished it \<Longrightarrow> ChainPackReader_read it inp = Inr (v, it', r) \<Longrightarrow>
   item_finished it' \<and> length r < length inp \<and> rpc_wf v"
  using ChainPackReader_read_runs [of it inp] by (auto dest: rdv.rd_sound)

end
