(* ===== verification/Chain_Pack_Roundtrip.thy ===== *)
theory Chain_Pack_Roundtrip
  imports Chain_Pack_Reader
begin

text \<open>
  ChainPack as a codec: what \<open>ChainPackWriter\<close> writes, \<open>ChainPackReader\<close> reads back, up to
  the two normalisations the writer makes (an invalid value is written as \<open>Null\<close>, empty
  meta data is not written).  \<open>cp_canon\<close> is that normal form and \<open>cp_packable\<close> names the
  values within the limits of the format: integers other than the least one of 64 bits, times
  within \<open>2 ^ 54\<close> milliseconds of the SHV epoch, strings shorter than \<open>2 ^ 63\<close> bytes.
\<close>

section \<open>Normal form and limits\<close>

definition drop_empty_meta :: "rpc_meta option \<Rightarrow> rpc_meta option" where
  "drop_empty_meta m =
     (case m of None \<Rightarrow> None | Some md \<Rightarrow> if RpcMetaData_isEmpty md then None else Some md)"

primrec cp_canon :: "rpc_value \<Rightarrow> rpc_value"
  and canon_variant :: "variant \<Rightarrow> variant"
  and canon_meta :: "rpc_meta \<Rightarrow> rpc_meta"
where
  "cp_canon (RpcValue m v) = RpcValue (drop_empty_meta (map_option canon_meta m)) (canon_variant v)"
| "canon_variant VInvalid = VNull"
| "canon_variant VNull = VNull"
| "canon_variant (VUInt u) = VUInt u"
| "canon_variant (VInt i) = VInt i"
| "canon_variant (VDouble d) = VDouble d"
| "canon_variant (VBool b) = VBool b"
| "canon_variant (VBlob b) = VBlob b"
| "canon_variant (VString s) = VString s"
| "canon_variant (VDateTime d) = VDateTime d"
| "canon_variant (VDecimal d) = VDecimal d"
| "canon_variant (VList l) = VList (map cp_canon l)"
| "canon_variant (VMap m) = VMap (map (map_prod id cp_canon) m)"
| "canon_variant (VIMap m) = VIMap (map (map_prod id cp_canon) m)"
| "canon_meta (MetaData im sm) =
     MetaData (map (map_prod id cp_canon) im) (map (map_prod id cp_canon) sm)"

definition short_key :: "string \<times> bool \<Rightarrow> bool" where
  "short_key kb \<longleftrightarrow> length (fst kb) < 2 ^ 63 \<and> snd kb"

primrec cp_packable :: "rpc_value \<Rightarrow> bool"
  and variant_packable :: "variant \<Rightarrow> bool"
  and meta_packable :: "rpc_meta \<Rightarrow> bool"
where
  "cp_packable (RpcValue m v) \<longleftrightarrow> pred_option id (map_option meta_packable m) \<and> variant_packable v"
| "variant_packable VInvalid = True"
| "variant_packable VNull = True"
| "variant_packable (VUInt u) = True"
| "variant_packable (VInt i) = (\<bar>i\<bar> < 2 ^ 63)"
| "variant_packable (VDouble d) = True"
| "variant_packable (VBool b) = True"
| "variant_packable (VBlob b) = (length b < 2 ^ 63)"
| "variant_packable (VString s) = (length s < 2 ^ 63)"
| "variant_packable (VDateTime d) = (\<bar>dt_msec d - SHV_EPOCH_MSEC\<bar> < 2 ^ 54)"
| "variant_packable (VDecimal d) = (\<bar>dec_mantissa d\<bar> < 2 ^ 63)"
| "variant_packable (VList l) = list_all id (map cp_packable l)"
| "variant_packable (VMap m) = list_all short_key (map (map_prod id cp_packable) m)"
| "variant_packable (VIMap m) = list_all snd (map (map_prod id cp_packable) m)"
| "meta_packable (MetaData im sm) \<longleftrightarrow>
     list_all snd (map (map_prod id cp_packable) im) \<and>
     list_all short_key (map (map_prod id cp_packable) sm)"

section \<open>Strings\<close>

lemma chunk_loop_sized:
  assumes "0 \<le> string_size it" and "size_to_load it = length bs" and "last_chunk it \<longleftrightarrow> bs = []"
  shows "\<exists>it'. chunk_loop b acc it (bs @ r) = Inr (acc @ chunk it @ bs, it', r) \<and> last_chunk it'"
  using assms
proof (induction "length bs" arbitrary: bs it acc rule: less_induct)
  case less
  show ?case
  proof (cases "bs = []")
    case True
    then show ?thesis using less.prems by (subst chunk_loop.simps) simp
  next
    case False
    define it1 where "it1 = it\<lparr>size_to_load := length bs - min 256 (length bs), chunk := take 256 bs,
        last_chunk := (length bs \<le> 256)\<rparr>"
    have step: "chunk_loop b acc it (bs @ r) = chunk_loop b (acc @ chunk it) it1 (drop 256 bs @ r)"
      using False less.prems
      by (subst chunk_loop.simps) (simp add: unpackNext_chunk unpack_string_sized it1_def)
    have "length (drop 256 bs) < length bs" using False by (cases bs) simp_all
    moreover have "0 \<le> string_size it1" "size_to_load it1 = length (drop 256 bs)"
      "last_chunk it1 \<longleftrightarrow> drop 256 bs = []"
      using less.prems by (auto simp: it1_def min_def)
    ultimately obtain it' where "chunk_loop b (acc @ chunk it) it1 (drop 256 bs @ r) =
        Inr ((acc @ chunk it) @ chunk it1 @ drop 256 bs, it', r)" "last_chunk it'"
      using less.hyps by blast
    then show ?thesis unfolding step by (auto simp: it1_def)
  qed
qed

lemma sint_length: "n < 2 ^ 63 \<Longrightarrow> sint (word_of_nat n :: u64) = int n"
proof -
  assume n: "n < 2 ^ 63"
  then have "uint (word_of_nat n :: u64) = int n"
    by (simp add: unsigned_of_nat take_bit_nat_eq_self)
  then show ?thesis using n by (simp add: sint_uint signed_take_bit_int_eq_self)
qed

lemma sized_roundtrip:
  assumes "length bs < 2 ^ 63"
  shows "\<exists>s1 s' r1. unpack_sized (cchainpack_pack_uint_data (word_of_nat (length bs)) @ bs @ r) = Some (s1, r1)
    \<and> chunk_loop b [] s1 r1 = Inr (bs, s', r) \<and> last_chunk s'"
proof -
  define s0 where "s0 = ccpcp_string_init (int (length bs))"
  define s1 where "s1 = s0\<lparr>size_to_load := length bs - min 256 (length bs), chunk := take 256 bs,
        last_chunk := (length bs \<le> 256)\<rparr>"
  have "unpack_sized (cchainpack_pack_uint_data (word_of_nat (length bs)) @ bs @ r) = unpack_string s0 (bs @ r)"
    using uint_codec.dec_enc [of "word_of_nat (length bs)" "bs @ r"] sint_length [OF assms]
    by (simp add: unpack_sized_def s0_def)
  also have "\<dots> = Some (s1, drop 256 bs @ r)"
    unfolding s1_def by (rule unpack_string_sized) (simp_all add: s0_def ccpcp_string_init_def)
  finally have "unpack_sized (cchainpack_pack_uint_data (word_of_nat (length bs)) @ bs @ r) =
      Some (s1, drop 256 bs @ r)" .
  moreover obtain s' where "chunk_loop b [] s1 (drop 256 bs @ r) = Inr ([] @ chunk s1 @ drop 256 bs, s', r)"
    "last_chunk s'"
  proof -
    have "0 \<le> string_size s1" "size_to_load s1 = length (drop 256 bs)" "last_chunk s1 \<longleftrightarrow> drop 256 bs = []"
      by (auto simp: s1_def s0_def ccpcp_string_init_def min_def)
    from chunk_loop_sized [OF this, of b "[]" r] show ?thesis using that by blast
  qed
  ultimately show ?thesis by (auto simp: s1_def)
qed

section \<open>What a reader reads\<close>

text \<open>From any finished state the bytes are read as the value, and nothing more is consumed.\<close>

definition reads :: "reader \<Rightarrow> bytes \<Rightarrow> rpc_value \<Rightarrow> bool" where
  "reads rd bs v \<longleftrightarrow> (\<forall>it rest. item_finished it \<longrightarrow>
     (\<exists>it'. rd it (bs @ rest) = Some (Inr (v, it', rest)) \<and> item_finished it' \<and> \<not> is_container_end it'))"

lemma readsE:
  assumes "reads rd bs v" and "item_finished it"
  obtains it' where "rd it (bs @ rest) = Some (Inr (v, it', rest))" "item_finished it'"
    "\<not> is_container_end it'"
  using assms unfolding reads_def by blast

text \<open>A reader that recognises the end of a container lets the loops read a sequence.\<close>

locale closing_reader =
  fixes rd :: reader
  assumes rd_term: "item_finished it \<Longrightarrow> rd it (CP_TERM # rest) = Some (Inr (invalid_value, ItemContainerEnd, rest))"
begin

lemma parseList_reads:
  "item_finished it \<Longrightarrow> length xs < n \<Longrightarrow> (\<And>x. x \<in> set xs \<Longrightarrow> reads rd (w x) (c x)) \<Longrightarrow>
   parseList rd n lst it (concat (map w xs) @ CP_TERM # rest) = Some (Inr (lst @ map c xs, ItemInvalid, rest))"
proof (induction xs arbitrary: n lst it)
  case Nil
  then show ?case by (cases n) (simp_all add: rd_term is_container_end_def)
next
  case (Cons x xs)
  then obtain n' where n: "n = Suc n'" by (cases n) auto
  have "reads rd (w x) (c x)" using Cons.prems by simp
  from readsE [OF this Cons.prems(1), of "concat (map w xs) @ CP_TERM # rest"]
  obtain it' where "rd it (w x @ concat (map w xs) @ CP_TERM # rest) =
      Some (Inr (c x, it', concat (map w xs) @ CP_TERM # rest))"
    "item_finished it'" "\<not> is_container_end it'" .
  then show ?case using Cons.IH [of it' n' "lst @ [c x]"] Cons.prems n by simp
qed

text \<open>A pair \<open>e\<close> is given by the bytes and the value of its key, and those of its value.\<close>

lemma parse_pairs_reads:
  "item_finished it \<Longrightarrow> length es < n \<Longrightarrow>
   (\<And>e. e \<in> set es \<Longrightarrow> reads rd (wk e) (ck e) \<and> reads rd (wv e) (cv e)) \<Longrightarrow>
   (\<And>e a. e \<in> set es \<Longrightarrow> step (ck e) (cv e) a = Inr (f e a)) \<Longrightarrow>
   parse_pairs rd step n a it (concat (map (\<lambda>e. wk e @ wv e) es) @ CP_TERM # rest) =
     Some (Inr (foldl (\<lambda>a e. f e a) a es, ItemInvalid, rest))"
proof (induction es arbitrary: n a it)
  case Nil
  then show ?case by (cases n) (simp_all add: rd_term is_container_end_def)
next
  case (Cons e es)
  then obtain n' where n: "n = Suc n'" by (cases n) auto
  define tl' where "tl' = concat (map (\<lambda>e. wk e @ wv e) es) @ CP_TERM # rest"
  have rk: "reads rd (wk e) (ck e)" and rv: "reads rd (wv e) (cv e)" using Cons.prems by simp_all
  obtain it1 where it1: "rd it (wk e @ wv e @ tl') = Some (Inr (ck e, it1, wv e @ tl'))"
    "item_finished it1" "\<not> is_container_end it1"
    by (rule readsE [OF rk Cons.prems(1)])
  obtain it2 where it2: "rd it1 (wv e @ tl') = Some (Inr (cv e, it2, tl'))" "item_finished it2"
    by (rule readsE [OF rv it1(2)])
  show ?case
    using Cons.IH [of it2 n' "f e a"] Cons.prems it1 it2 n by (simp add: tl'_def)
qed

end

lemma rd_value_item:
  assumes fin: "item_finished it" and item: "unpack_fresh inp = Some (it', r)" "it' \<noteq> ItemMeta"
  shows "rd_value (Suc n) it inp = read_switch (rd_value n) it' r"
proof -
  have "\<not> (\<exists>inp'. inp = CP_MetaMap # inp')"
    using item by (auto simp: unpack_fresh_def unpack_item_def)
  then have "read_meta (rd_value n) it inp = Some (Inr (meta_empty, it, inp))"
    by (auto simp: read_meta_def split: list.splits)
  then show ?thesis
    using item by (auto simp: unpackNext_def unpack_next_finished [OF fin] attach_meta_def meta_empty_def
        RpcMetaData_isEmpty_def RpcMetaData_size_def bind_r_def split: option.splits sum.splits)
qed

lemma rd_value_closing: "closing_reader (rd_value (Suc n))"
  by unfold_locales
     (simp add: rd_value_item unpack_fresh_def unpack_item_def read_switch_def del: rd_value.simps)

interpretation rdc: closing_reader "rd_value (Suc n)" for n
  by (rule rd_value_closing)

section \<open>Scalars\<close>

definition variant_reads :: "nat \<Rightarrow> variant \<Rightarrow> bool" where
  "variant_reads n v \<longleftrightarrow> (\<forall>rest. \<exists>it r it'.
     unpack_fresh (write_variant v @ rest) = Some (it, r) \<and> it \<noteq> ItemMeta \<and>
     read_switch (rd_value n) it r = Some (Inr (rpc (canon_variant v), it', rest)) \<and>
     item_finished it' \<and> \<not> is_container_end it')"

lemma variant_readsI:
  assumes "\<And>rest. unpack_fresh (write_variant v @ rest) = Some (it, rest)"
    and "\<And>rest. read_switch (rd_value n) it rest = Some (Inr (rpc (canon_variant v), it, rest))"
    and "item_finished it" "\<not> is_container_end it" "it \<noteq> ItemMeta"
  shows "variant_reads n v"
  unfolding variant_reads_def using assms by blast

lemma variant_reads_string: "length s < 2 ^ 63 \<Longrightarrow> variant_reads n (VString s)"
  unfolding variant_reads_def
proof
  fix rest
  assume len: "length s < 2 ^ 63"
  obtain s1 s' r1 where "unpack_sized (cchainpack_pack_uint_data (word_of_nat (length s)) @ bytes_of_string s @ rest)
      = Some (s1, r1)" "chunk_loop False [] s1 r1 = Inr (bytes_of_string s, s', rest)" "last_chunk s'"
    using sized_roundtrip [of "bytes_of_string s" rest False] len by auto
  then show "\<exists>it r it'. unpack_fresh (write_variant (VString s) @ rest) = Some (it, r) \<and> it \<noteq> ItemMeta \<and>
      read_switch (rd_value n) it r = Some (Inr (rpc (canon_variant (VString s)), it', rest)) \<and>
      item_finished it' \<and> \<not> is_container_end it'"
    by (intro exI [of _ "ItemString s1"] exI [of _ r1] exI [of _ "ItemString s'"])
       (simp add: unpack_fresh_def unpack_item_def cchainpack_pack_string_def read_switch_def is_container_end_def)
qed

lemma variant_reads_blob: "length bs < 2 ^ 63 \<Longrightarrow> variant_reads n (VBlob bs)"
  unfolding variant_reads_def
proof
  fix rest
  assume len: "length bs < 2 ^ 63"
  obtain s1 s' r1 where "unpack_sized (cchainpack_pack_uint_data (word_of_nat (length bs)) @ bs @ rest)
      = Some (s1, r1)" "chunk_loop True [] s1 r1 = Inr (bs, s', rest)" "last_chunk s'"
    using sized_roundtrip [OF len, of rest True] by auto
  then show "\<exists>it r it'. unpack_fresh (write_variant (VBlob bs) @ rest) = Some (it, r) \<and> it \<noteq> ItemMeta \<and>
      read_switch (rd_value n) it r = Some (Inr (rpc (canon_variant (VBlob bs)), it', rest)) \<and>
      item_finished it' \<and> \<not> is_container_end it'"
    by (intro exI [of _ "ItemBlob s1"] exI [of _ r1] exI [of _ "ItemBlob s'"])
       (simp add: unpack_fresh_def unpack_item_def cchainpack_pack_blob_def read_switch_def is_container_end_def)
qed

lemma variant_reads_int: "\<bar>i\<bar> < 2 ^ 63 \<Longrightarrow> variant_reads n (VInt i)"
  by (rule variant_readsI [of _ "ItemInt i"])
     (simp_all add: unpack_int_roundtrip read_switch_def is_container_end_def)

lemma variant_reads_null: "variant_reads n VInvalid" "variant_reads n VNull"
  by (rule variant_readsI [of _ ItemNull];
      simp add: unpack_fresh_def unpack_item_def read_switch_def is_container_end_def)+

lemma variant_reads_uint: "variant_reads n (VUInt u)"
  by (rule variant_readsI [of _ "ItemUInt u"])
     (simp_all add: unpack_uint_roundtrip read_switch_def is_container_end_def)

lemma variant_reads_double: "variant_reads n (VDouble d)"
  by (rule variant_readsI [of _ "ItemDouble d"])
     (simp_all add: unpack_double_roundtrip read_switch_def is_container_end_def)

lemma variant_reads_bool: "variant_reads n (VBool b)"
  by (rule variant_readsI [of _ "ItemBoolean b"])
     (simp_all add: cchainpack_pack_boolean_def unpack_fresh_def unpack_item_def read_switch_def
        is_container_end_def)

lemma variant_reads_decimal:
  "decimal_wf d \<Longrightarrow> \<bar>dec_mantissa d\<bar> < 2 ^ 63 \<Longrightarrow> variant_reads n (VDecimal d)"
  by (rule variant_readsI [of _ "ItemDecimal (dec_mantissa d) (dec_exponent d)"])
     (simp_all add: unpack_decimal_roundtrip decimal_wf_def read_switch_def is_container_end_def)

lemma variant_reads_date_time:
  "date_time_wf d \<Longrightarrow> \<bar>dt_msec d - SHV_EPOCH_MSEC\<bar> < 2 ^ 54 \<Longrightarrow> variant_reads n (VDateTime d)"
  by (rule variant_readsI [of _ "ItemDateTime (dt_msec d) (dt_tz d * 15)"])
     (simp_all add: unpack_date_time_roundtrip date_time_wf_def read_switch_def is_container_end_def
        RpcDateTime_msecsSinceEpoch_def RpcDateTime_utcOffsetMin_def
        fromMSecsSinceEpoch_readback [unfolded RpcDateTime_msecsSinceEpoch_def RpcDateTime_utcOffsetMin_def])

lemma reads_variant: "variant_reads n v \<Longrightarrow> reads (rd_value (Suc n)) (write_variant v) (rpc (canon_variant v))"
  unfolding reads_def variant_reads_def
  by (metis rd_value_item)

section \<open>Containers and meta data\<close>

lemma foldl_map_prod: "foldl (\<lambda>a e. map_set (fst e) (c (snd e)) a) acc m =
    foldl (\<lambda>a (k, v). map_set k v a) acc (map (map_prod id c) m)"
  by (induction m arbitrary: acc) auto

lemma map_wf_map_prod [simp]: "map_wf (map (map_prod id c) m) = map_wf m"
  by (simp add: map_wf_def comp_def)

lemma rebuild_map: "map_wf m \<Longrightarrow>
    foldl (\<lambda>a e. map_set (fst e) (c (snd e)) a) [] m = map (map_prod id c) m"
  using foldl_map_set_sorted [of "[]" "map (map_prod id c) m"] by (simp add: foldl_map_prod)

lemma write_variant_nonempty: "write_variant v \<noteq> []"
  by (cases v) (auto simp: cchainpack_pack_uint_def cchainpack_pack_int_def cchainpack_pack_double_def
      cchainpack_pack_boolean_def cchainpack_pack_blob_def cchainpack_pack_string_def
      cchainpack_pack_date_time_def cchainpack_pack_decimal_def)

lemma write_value_nonempty: "write_value v \<noteq> []"
  by (cases v) (simp add: write_variant_nonempty)

lemma length_le_concat: "(\<And>x. x \<in> set xs \<Longrightarrow> w x \<noteq> []) \<Longrightarrow> length xs \<le> length (concat (map w xs))"
proof (induction xs)
  case (Cons x xs)
  then have "1 \<le> length (w x)" and "length xs \<le> length (concat (map w xs))"
    by (simp_all add: Suc_le_eq)
  then show ?case by (simp only: list.map concat.simps length_append list.size)
qed simp

lemma canon_valid: "RpcValue_isValid (cp_canon v)"
  by (cases v; cases "rv_var v") (simp_all add: type_test_defs)

lemma reads_map_key: "length k < 2 ^ 63 \<Longrightarrow> reads (rd_value (Suc n)) (writeMapKey k) (rpc (VString k))"
  using reads_variant [OF variant_reads_string, of k n] by (simp add: writeMapKey_def)

lemma reads_imap_key: "in_s 32 k \<Longrightarrow> reads (rd_value (Suc n)) (writeIMapKey k) (rpc (VInt k))"
  using reads_variant [OF variant_reads_int, of k n] by (auto simp: writeIMapKey_def in_s_def)

lemma toInt_VInt: "in_s 32 k \<Longrightarrow> RpcValue_toInt (rpc (VInt k)) = Inr k"
  by (simp add: RpcValue_toInt_def impl_to_int_def s_wrap_id)

lemma variant_reads_list:
  assumes "\<And>x. x \<in> set l \<Longrightarrow> reads (rd_value (Suc n)) (write_value x) (cp_canon x)"
  shows "variant_reads (Suc n) (VList l)"
proof -
  have "parseList (rd_value (Suc n)) (Suc (length (concat (map write_value l) @ CP_TERM # rest))) [] ItemList
      (concat (map write_value l) @ CP_TERM # rest) = Some (Inr (map cp_canon l, ItemInvalid, rest))" for rest
    by (subst rdc.parseList_reads [where c = cp_canon])
       (use assms length_le_concat [of l write_value] in \<open>auto simp: write_value_nonempty simp del: rd_value.simps\<close>)
  then show ?thesis
    unfolding variant_reads_def
    by (auto simp: unpack_fresh_def unpack_item_def read_switch_def writeContainerEnd_def is_container_end_def
        simp del: parseList.simps rd_value.simps)
qed

lemma variant_reads_map:
  assumes "\<And>k v. (k, v) \<in> set m \<Longrightarrow> length k < 2 ^ 63 \<and> reads (rd_value (Suc n)) (write_value v) (cp_canon v)"
    and wf: "map_wf m"
  shows "variant_reads (Suc n) (VMap m)"
proof -
  define w where "w = (\<lambda>e::string \<times> rpc_value. writeMapKey (fst e) @ write_value (snd e))"
  have w: "write_map_elements (map (map_prod id write_value) m) = concat (map w m)"
    by (simp add: write_elements writeMapElement_s_def w_def case_prod_unfold)
  have "parseMap (rd_value (Suc n)) (Suc (length (concat (map w m) @ CP_TERM # rest))) ItemMap
      (concat (map w m) @ CP_TERM # rest) = Some (Inr (map (map_prod id cp_canon) m, ItemInvalid, rest))" for rest
    unfolding parseMap_def w_def
    by (subst rdc.parse_pairs_reads [where ck = "\<lambda>e. rpc (VString (fst e))" and cv = "\<lambda>e. cp_canon (snd e)"
          and f = "\<lambda>e. map_set (fst e) (cp_canon (snd e))"])
       (use assms length_le_concat [of m w] in \<open>auto simp: w_def write_value_nonempty reads_map_key
          map_step_def as_defs rebuild_map simp del: rd_value.simps\<close>)
  then show ?thesis
    unfolding variant_reads_def
    by (auto simp: unpack_fresh_def unpack_item_def read_switch_def writeContainerEnd_def is_container_end_def w
        simp del: rd_value.simps)
qed

lemma variant_reads_imap:
  assumes "\<And>k v. (k, v) \<in> set m \<Longrightarrow> in_s 32 k \<and> reads (rd_value (Suc n)) (write_value v) (cp_canon v)"
    and wf: "map_wf m"
  shows "variant_reads (Suc n) (VIMap m)"
proof -
  define w where "w = (\<lambda>e::int \<times> rpc_value. writeIMapKey (fst e) @ write_value (snd e))"
  have w: "write_imap_elements (map (map_prod id write_value) m) = concat (map w m)"
    by (simp add: write_elements writeMapElement_i_def w_def case_prod_unfold)
  have "parseIMap (rd_value (Suc n)) (Suc (length (concat (map w m) @ CP_TERM # rest))) ItemIMap
      (concat (map w m) @ CP_TERM # rest) = Some (Inr (map (map_prod id cp_canon) m, ItemInvalid, rest))" for rest
    unfolding parseIMap_def w_def
    by (subst rdc.parse_pairs_reads [where ck = "\<lambda>e. rpc (VInt (fst e))" and cv = "\<lambda>e. cp_canon (snd e)"
          and f = "\<lambda>e. map_set (fst e) (cp_canon (snd e))"])
       (use assms length_le_concat [of m w] in \<open>auto simp: w_def write_value_nonempty reads_imap_key
          imap_step_def toInt_VInt rebuild_map simp del: rd_value.simps\<close>)
  then show ?thesis
    unfolding variant_reads_def
    by (auto simp: unpack_fresh_def unpack_item_def read_switch_def writeContainerEnd_def is_container_end_def w
        simp del: rd_value.simps)
qed

text \<open>Meta data: the integer keys, then the string keys.\<close>

definition meta_key_bytes :: "(int \<times> rpc_value) + (string \<times> rpc_value) \<Rightarrow> bytes" where
  "meta_key_bytes e = (case e of Inl (k, v) \<Rightarrow> writeIMapKey k | Inr (k, v) \<Rightarrow> writeMapKey k)"

definition meta_key_value :: "(int \<times> rpc_value) + (string \<times> rpc_value) \<Rightarrow> rpc_value" where
  "meta_key_value e = (case e of Inl (k, v) \<Rightarrow> rpc (VInt k) | Inr (k, v) \<Rightarrow> rpc (VString k))"

definition meta_val :: "(int \<times> rpc_value) + (string \<times> rpc_value) \<Rightarrow> rpc_value" where
  "meta_val e = (case e of Inl (k, v) \<Rightarrow> v | Inr (k, v) \<Rightarrow> v)"

definition meta_put :: "(rpc_value \<Rightarrow> rpc_value) \<Rightarrow> (int \<times> rpc_value) + (string \<times> rpc_value) \<Rightarrow> rpc_meta \<Rightarrow> rpc_meta" where
  "meta_put c e md = (case e of
     Inl (k, v) \<Rightarrow> MetaData (map_set k (c v) (md_imap md)) (md_smap md)
   | Inr (k, v) \<Rightarrow> MetaData (md_imap md) (map_set k (c v) (md_smap md)))"

lemmas meta_elem_defs = meta_key_bytes_def meta_key_value_def meta_val_def meta_put_def

lemma foldl_meta_put:
  "foldl (\<lambda>a e. meta_put c e a) (MetaData i s) (map Inl im) =
     MetaData (foldl (\<lambda>a e. map_set (fst e) (c (snd e)) a) i im) s"
  "foldl (\<lambda>a e. meta_put c e a) (MetaData i s) (map Inr sm) =
     MetaData i (foldl (\<lambda>a e. map_set (fst e) (c (snd e)) a) s sm)"
  by (induction im arbitrary: i, simp_all add: meta_put_def case_prod_unfold)
     (induction sm arbitrary: s, simp_all add: meta_put_def case_prod_unfold)

lemma read_meta_reads:
  assumes i: "\<And>k v. (k, v) \<in> set im \<Longrightarrow> in_s 32 k \<and> reads (rd_value (Suc n)) (write_value v) (cp_canon v)"
    and s: "\<And>k v. (k, v) \<in> set sm \<Longrightarrow> length k < 2 ^ 63 \<and> reads (rd_value (Suc n)) (write_value v) (cp_canon v)"
    and wf: "map_wf im" "map_wf sm" and ne: "im \<noteq> [] \<or> sm \<noteq> []" and fin: "item_finished it"
  shows "read_meta (rd_value (Suc n)) it (write_meta (MetaData im sm) @ rest) =
    Some (Inr (canon_meta (MetaData im sm), ItemInvalid, rest))"
proof -
  define es where "es = map Inl im @ map Inr sm"
  define w where "w = (\<lambda>e. meta_key_bytes e @ write_value (meta_val e))"
  have bytes: "write_meta (MetaData im sm) @ rest = CP_MetaMap # concat (map w es) @ CP_TERM # rest"
    using ne by (simp add: es_def w_def write_elements writeMapElement_i_def writeMapElement_s_def
        meta_elem_defs case_prod_unfold comp_def)
  have in': "e \<in> set es \<Longrightarrow> reads (rd_value (Suc n)) (meta_key_bytes e) (meta_key_value e) \<and>
      reads (rd_value (Suc n)) (write_value (meta_val e)) (cp_canon (meta_val e))" for e
    using i s by (auto simp: es_def meta_elem_defs reads_imap_key reads_map_key simp del: rd_value.simps)
  have step: "e \<in> set es \<Longrightarrow> meta_step (meta_key_value e) (cp_canon (meta_val e)) a = Inr (meta_put cp_canon e a)" for e a
    using i s canon_valid by (auto simp: es_def meta_elem_defs meta_step_def toInt_VInt type_test_defs as_defs
        RpcMetaData_setValue_i_def RpcMetaData_setValue_s_def)
  have "parse_pairs (rd_value (Suc n)) meta_step
      (length (CP_MetaMap # concat (map w es) @ CP_TERM # rest)) meta_empty ItemMeta
      (concat (map w es) @ CP_TERM # rest) = Some (Inr (foldl (\<lambda>a e. meta_put cp_canon e a) meta_empty es, ItemInvalid, rest))"
    unfolding w_def
    by (rule rdc.parse_pairs_reads [where ck = meta_key_value and cv = "\<lambda>e. cp_canon (meta_val e)"])
       (use in' step length_le_concat [of es w] in \<open>auto simp: w_def write_value_nonempty\<close>)
  moreover have "foldl (\<lambda>a e. meta_put cp_canon e a) meta_empty es = canon_meta (MetaData im sm)"
    using wf by (simp add: es_def meta_empty_def foldl_meta_put rebuild_map)
  moreover have "unpackNext it (CP_MetaMap # x) = Inr (ItemMeta, x)" for x
    by (simp add: unpackNext_def unpack_next_finished [OF fin] unpack_fresh_def unpack_item_def)
  ultimately show ?thesis
    unfolding bytes
    by (simp add: read_meta_def parseMetaData_def del: rd_value.simps parse_pairs.simps canon_meta.simps)
qed

lemma reads_with_meta:
  assumes meta: "\<And>it rest. item_finished it \<Longrightarrow>
      read_meta (rd_value n) it (wm @ rest) = Some (Inr (md, ItemInvalid, rest))"
    and ne: "\<not> RpcMetaData_isEmpty md" and v: "variant_reads n v"
  shows "reads (rd_value (Suc n)) (wm @ write_variant v) (RpcValue (Some md) (canon_variant v))"
  unfolding reads_def
proof (intro allI impI)
  fix it rest
  assume fin: "item_finished it"
  obtain it1 r it' where "unpack_fresh (write_variant v @ rest) = Some (it1, r)"
    "read_switch (rd_value n) it1 r = Some (Inr (rpc (canon_variant v), it', rest))"
    "item_finished it'" "\<not> is_container_end it'"
    using v unfolding variant_reads_def by blast
  moreover have "attach_meta md (rpc (canon_variant v)) = Inr (RpcValue (Some md) (canon_variant v))"
    using ne canon_valid [of "rpc v"]
    by (auto simp: attach_meta_def RpcValue_setMetaData_def RpcValue_isValid_def RpcValue_type_def drop_empty_meta_def)
  ultimately show "\<exists>it'. rd_value (Suc n) it ((wm @ write_variant v) @ rest) =
      Some (Inr (RpcValue (Some md) (canon_variant v), it', rest)) \<and> item_finished it' \<and> \<not> is_container_end it'"
    using meta [OF fin, of "write_variant v @ rest"] by (simp add: unpackNext_def unpack_next_finished)
qed

section \<open>The round trip\<close>

lemma length_concat_member: "x \<in> set xs \<Longrightarrow> length (w x) \<le> length (concat (map w xs))"
  by (induction xs) auto

lemma container_lengths:
  "x \<in> set l \<Longrightarrow> length (write_value x) + 2 \<le> length (write_variant (VList l))"
  "(ks, x) \<in> set sm \<Longrightarrow> length (write_value x) + 2 \<le> length (write_variant (VMap sm))"
  "(ki, x) \<in> set im \<Longrightarrow> length (write_value x) + 2 \<le> length (write_variant (VIMap im))"
  using length_concat_member [of x l write_value]
    length_concat_member [of "(ks, x)" sm "\<lambda>(k, v). writeMapElement_s k v"]
    length_concat_member [of "(ki, x)" im "\<lambda>(k, v). writeMapElement_i k v"]
  by (simp_all add: write_elements writeContainerEnd_def writeMapElement_s_def writeMapElement_i_def)

lemma meta_lengths:
  "(ki, x) \<in> set im \<Longrightarrow> length (write_value x) + 2 \<le> length (write_meta (MetaData im sm))"
  "(ks, x) \<in> set sm \<Longrightarrow> length (write_value x) + 2 \<le> length (write_meta (MetaData im sm))"
  using length_concat_member [of "(ks, x)" sm "\<lambda>(k, v). writeMapElement_s k v"]
    length_concat_member [of "(ki, x)" im "\<lambda>(k, v). writeMapElement_i k v"]
  by (auto simp: write_elements writeMapElement_s_def writeMapElement_i_def)

lemma canon_meta_empty: "RpcMetaData_isEmpty (canon_meta md) = RpcMetaData_isEmpty md"
  by (cases md) (simp add: RpcMetaData_isEmpty_def RpcMetaData_size_def)

lemma write_meta_empty: "RpcMetaData_isEmpty md \<Longrightarrow> write_meta md = []"
  by (cases md) (simp add: RpcMetaData_isEmpty_def RpcMetaData_size_def)

lemma pairs_packable:
  "smap_ok sm \<Longrightarrow> list_all short_key (map (map_prod id cp_packable) sm) \<Longrightarrow> (ks, v) \<in> set sm \<Longrightarrow>
    rpc_wf v \<and> cp_packable v \<and> length ks < 2 ^ 63"
  "imap_ok im \<Longrightarrow> list_all snd (map (map_prod id cp_packable) im) \<Longrightarrow> (ki, v) \<in> set im \<Longrightarrow>
    rpc_wf v \<and> cp_packable v \<and> in_s 32 ki"
  by (fastforce simp: smap_ok_def imap_ok_def list_all_iff short_key_def)+

lemma write_reads_aux:
  "rpc_wf v \<Longrightarrow> cp_packable v \<Longrightarrow> length (write_value v) \<le> n \<Longrightarrow> reads (rd_value n) (write_value v) (cp_canon v)"
  "variant_wf x \<Longrightarrow> variant_packable x \<Longrightarrow> length (write_variant x) \<le> Suc n \<Longrightarrow> variant_reads n x"
  "meta_wf md \<Longrightarrow> meta_packable md \<Longrightarrow> \<not> RpcMetaData_isEmpty md \<Longrightarrow> length (write_meta md) \<le> Suc n \<Longrightarrow>
    item_finished it \<Longrightarrow> read_meta (rd_value n) it (write_meta md @ rest) = Some (Inr (canon_meta md, ItemInvalid, rest))"
proof (induction v and x and md arbitrary: n and n and n it rest
    rule: rpc_value.induct variant.induct rpc_meta.induct)
  case (RpcValue m x)
  have "0 < n" using RpcValue.prems(3) write_value_nonempty [of "RpcValue m x"] by (cases n) auto
  then obtain n' where n: "n = Suc n'" by (cases n) auto
  have x: "variant_reads n' x" using RpcValue by (auto simp: n split: option.splits)
  show ?case
  proof (cases "\<exists>md. m = Some md \<and> \<not> RpcMetaData_isEmpty md")
    case True
    then obtain md where md: "m = Some md" "\<not> RpcMetaData_isEmpty md" by blast
    have "read_meta (rd_value n') it (write_meta md @ rest) = Some (Inr (canon_meta md, ItemInvalid, rest))"
      if "item_finished it" for it rest
      using RpcValue.prems that md by (intro RpcValue.IH(1)) (auto simp: n)
    then have "reads (rd_value (Suc n')) (write_meta md @ write_variant x)
        (RpcValue (Some (canon_meta md)) (canon_variant x))"
      using md x by (intro reads_with_meta) (auto simp: canon_meta_empty)
    then show ?thesis using md by (simp add: n drop_empty_meta_def canon_meta_empty del: rd_value.simps)
  next
    case False
    then have "write_value (RpcValue m x) = write_variant x" "cp_canon (RpcValue m x) = rpc (canon_variant x)"
      by (auto simp: write_meta_empty drop_empty_meta_def canon_meta_empty split: option.splits)
    then show ?thesis using reads_variant [OF x] n by simp
  qed
next
  case (VList l)
  then obtain n' where n: "n = Suc n'" by (cases n) (auto simp: writeContainerEnd_def)
  have "reads (rd_value (Suc n')) (write_value x) (cp_canon x)" if "x \<in> set l" for x
    using VList.prems container_lengths(1) [OF that] that
    by (intro VList.IH) (auto simp: n list_all_iff simp del: write_variant.simps)
  then show ?case unfolding n by (rule variant_reads_list)
next
  case (VMap m)
  then obtain n' where n: "n = Suc n'" by (cases n) (auto simp: writeContainerEnd_def)
  have "length k < 2 ^ 63 \<and> reads (rd_value (Suc n')) (write_value v) (cp_canon v)" if "(k, v) \<in> set m" for k v
    using VMap.prems(3) pairs_packable(1) [OF _ _ that] VMap.prems(1,2) container_lengths(2) [OF that]
      VMap.IH [OF that, of v "Suc n'"]
    by (simp add: n del: write_variant.simps rd_value.simps)
  then show ?case unfolding n using VMap.prems(1) by (intro variant_reads_map) (auto simp: smap_ok_def)
next
  case (VIMap m)
  then obtain n' where n: "n = Suc n'" by (cases n) (auto simp: writeContainerEnd_def)
  have "in_s 32 k \<and> reads (rd_value (Suc n')) (write_value v) (cp_canon v)" if "(k, v) \<in> set m" for k v
    using VIMap.prems(3) pairs_packable(2) [OF _ _ that] VIMap.prems(1,2) container_lengths(3) [OF that]
      VIMap.IH [OF that, of v "Suc n'"]
    by (simp add: n del: write_variant.simps rd_value.simps)
  then show ?case unfolding n using VIMap.prems(1) by (intro variant_reads_imap) (auto simp: imap_ok_def)
next
  case (MetaData im sm)
  then have ne: "im \<noteq> [] \<or> sm \<noteq> []" by (auto simp: RpcMetaData_isEmpty_def RpcMetaData_size_def)
  with MetaData.prems obtain n' where n: "n = Suc n'" by (cases n) auto
  show ?case
    unfolding n
  proof (rule read_meta_reads)
    show "map_wf im" "map_wf sm" using MetaData.prems(1) by (auto simp: imap_ok_def smap_ok_def)
    show "in_s 32 k \<and> reads (rd_value (Suc n')) (write_value v) (cp_canon v)" if "(k, v) \<in> set im" for k v
      using MetaData.prems(1,2,4) pairs_packable(2) [OF _ _ that] meta_lengths(1) [OF that, of sm]
        MetaData.IH(1) [OF that, of v "Suc n'"]
      by (simp add: n del: write_meta.simps rd_value.simps)
    show "length k < 2 ^ 63 \<and> reads (rd_value (Suc n')) (write_value v) (cp_canon v)" if "(k, v) \<in> set sm" for k v
      using MetaData.prems(1,2,4) pairs_packable(1) [OF _ _ that] meta_lengths(2) [OF that, of im]
        MetaData.IH(2) [OF that, of v "Suc n'"]
      by (simp add: n del: write_meta.simps rd_value.simps)
  qed (use ne MetaData.prems in auto)
qed (simp_all add: variant_reads_null variant_reads_uint variant_reads_int variant_reads_double
    variant_reads_bool variant_reads_blob variant_reads_string variant_reads_date_time variant_reads_decimal)

text \<open>What holds of a writer and a reader from here on.\<close>

definition cp_ok :: "rpc_value \<Rightarrow> bool" where
  "cp_ok v \<longleftrightarrow> rpc_wf v \<and> cp_packable v"

lemma read_write:
  assumes "cp_ok v" and fin: "item_finished it"
  obtains it' where "ChainPackReader_read it (write_value v @ rest) = Inr (cp_canon v, it', rest)"
    "item_finished it'" "\<not> is_container_end it'"
proof -
  have "reads (rd_value (rd_fuel (write_value v @ rest))) (write_value v) (cp_canon v)"
    using assms by (intro write_reads_aux) (auto simp: rd_fuel_def cp_ok_def)
  from readsE [OF this fin, of rest] obtain it' where
    "rd_value (rd_fuel (write_value v @ rest)) it (write_value v @ rest) = Some (Inr (cp_canon v, it', rest))"
    "item_finished it'" "\<not> is_container_end it'" .
  then show thesis by (intro that) (simp add: ChainPackReader_read_def run_rd_def)
qed

definition read_codec :: "bytes \<Rightarrow> (rpc_value \<times> bytes) option" where
  "read_codec inp =
     (case ChainPackReader_read ItemInvalid inp of Inl e \<Rightarrow> None | Inr (v, it, r) \<Rightarrow> Some (v, r))"

interpretation value_codec: byte_codec write_value read_codec "\<lambda>v. cp_ok v \<and> cp_canon v = v"
proof unfold_locales
  fix v rest
  assume v: "cp_ok v \<and> cp_canon v = v"
  then show "read_codec (write_value v @ rest) = Some (v, rest)"
    using read_write [of v ItemInvalid rest] by (metis (no_types, lifting) item_finished_simps(1) old.sum.simps(6)
        prod.case read_codec_def)
qed

section \<open>Reading along a path is looking the path up\<close>

definition path_step :: "rpc_value \<Rightarrow> string \<Rightarrow> rpc_value option" where
  "path_step v key =
     (case rv_var v of
        VMap m \<Rightarrow> map_find m key
      | VIMap m \<Rightarrow> map_option snd (find (\<lambda>e. to_string_int (fst e) = key) m)
      | VList l \<Rightarrow> map_option snd (find (\<lambda>e. to_string_int (int (fst e)) = key) (enumerate 0 l))
      | _ \<Rightarrow> None)"

fun lookup_path :: "rpc_value \<Rightarrow> string list \<Rightarrow> rpc_value option" where
  "lookup_path v [] = Some v"
| "lookup_path v (key # keys) =
     (case path_step v key of None \<Rightarrow> None | Some w \<Rightarrow> lookup_path w keys)"

text \<open>
  The outcome of the inner loop on the bytes of a container: in front of the value found, or at
  the end.
\<close>

definition finds :: "(exn + bool \<times> item \<times> bytes) option \<Rightarrow> rpc_value option \<Rightarrow> bool" where
  "finds r w \<longleftrightarrow>
     (case w of
        None \<Rightarrow> (\<exists>it inp. r = Some (Inr (False, it, inp)))
      | Some v \<Rightarrow> (\<exists>it rest. r = Some (Inr (True, it, write_value v @ rest)) \<and> item_finished it))"

lemma peekNext_no_end:
  assumes "cp_ok v"
  shows "\<exists>t. peekNext (write_value v @ rest) = Inr t \<and> \<not> is_container_end t"
proof -
  obtain b bs where b: "write_value v = b # bs" using write_value_nonempty [of v] by (cases "write_value v") auto
  have "b \<noteq> CP_TERM"
  proof
    assume "b = CP_TERM"
    then have "rd_value (Suc n) ItemInvalid (write_value v) = Some (Inr (invalid_value, ItemContainerEnd, bs))" for n
      using rdc.rd_term [of ItemInvalid n bs] by (simp add: b del: rd_value.simps)
    moreover obtain it' where "ChainPackReader_read ItemInvalid (write_value v @ []) = Inr (cp_canon v, it', [])"
      "\<not> is_container_end it'"
      by (rule read_write [OF assms, of ItemInvalid "[]"]) simp
    ultimately show False
      by (auto simp: ChainPackReader_read_def rd_fuel_def run_rd_def is_container_end_def simp del: rd_value.simps)
  qed
  then show ?thesis by (auto simp: b peekNext_def is_container_end_def)
qed

lemma find_key_list:
  "item_finished it \<Longrightarrow> (\<And>x. x \<in> set xs \<Longrightarrow> cp_ok x) \<Longrightarrow> length xs < n \<Longrightarrow>
   finds (find_key n ItemList key (int i) it (concat (map write_value xs) @ CP_TERM # rest))
     (map_option snd (find (\<lambda>e. to_string_int (int (fst e)) = key) (enumerate i xs)))"
proof (induction xs arbitrary: i it n)
  case Nil
  then show ?case by (cases n) (auto simp: peekNext_def is_container_end_def finds_def)
next
  case (Cons x xs)
  then obtain n' where n: "n = Suc n'" by (cases n) auto
  have ok: "cp_ok x" using Cons.prems by simp
  obtain t where t: "peekNext (write_value x @ concat (map write_value xs) @ CP_TERM # rest) = Inr t"
    "\<not> is_container_end t"
    using peekNext_no_end [OF ok] by blast
  obtain it' where it': "ChainPackReader_read it (write_value x @ concat (map write_value xs) @ CP_TERM # rest) =
      Inr (cp_canon x, it', concat (map write_value xs) @ CP_TERM # rest)" "item_finished it'"
    by (rule read_write [OF ok Cons.prems(1)])
  show ?case
  proof (cases "to_string_int (int i) = key")
    case True
    then show ?thesis using Cons.prems(1) t by (auto simp: n finds_def)
  next
    case False
    then show ?thesis
      using Cons.IH [of it' n' "Suc i"] Cons.prems t it' by (simp add: n add.commute)
  qed
qed

text \<open>The two kinds of map differ in how a key is written and compared.\<close>

lemma find_key_pairs:
  assumes cont: "cont = ItemMap \<or> cont = ItemIMap"
  shows "item_finished it \<Longrightarrow>
   (\<And>e. e \<in> set es \<Longrightarrow> cp_ok (snd e) \<and> cp_ok (kv (fst e)) \<and> path_key cont (cp_canon (kv (fst e))) = Inr (ks (fst e))) \<Longrightarrow>
   length es < n \<Longrightarrow>
   finds (find_key n cont key i it (concat (map (\<lambda>e. write_value (kv (fst e)) @ write_value (snd e)) es) @ CP_TERM # rest))
     (map_option snd (find (\<lambda>e. ks (fst e) = key) es))"
proof (induction es arbitrary: it n)
  case Nil
  then show ?case by (cases n) (auto simp: peekNext_def is_container_end_def finds_def)
next
  case (Cons e es)
  then obtain n' where n: "n = Suc n'" by (cases n) auto
  have ok: "cp_ok (kv (fst e))" "cp_ok (snd e)" and pk: "path_key cont (cp_canon (kv (fst e))) = Inr (ks (fst e))"
    using Cons.prems by simp_all
  define tl' where "tl' = concat (map (\<lambda>e. write_value (kv (fst e)) @ write_value (snd e)) es) @ CP_TERM # rest"
  obtain t where t: "peekNext (write_value (kv (fst e)) @ write_value (snd e) @ tl') = Inr t" "\<not> is_container_end t"
    using peekNext_no_end [OF ok(1)] by blast
  obtain it1 where it1: "ChainPackReader_read it (write_value (kv (fst e)) @ write_value (snd e) @ tl') =
      Inr (cp_canon (kv (fst e)), it1, write_value (snd e) @ tl')" "item_finished it1"
    by (rule read_write [OF ok(1) Cons.prems(1)])
  obtain it2 where it2: "ChainPackReader_read it1 (write_value (snd e) @ tl') = Inr (cp_canon (snd e), it2, tl')"
    "item_finished it2"
    by (rule read_write [OF ok(2) it1(2)])
  have "cont \<noteq> ItemList" using cont by auto
  then show ?case
    using Cons.IH [of it2 n'] Cons.prems t it1 it2 pk
    by (cases "ks (fst e) = key") (auto simp: n finds_def tl'_def [symmetric])
qed

lemma cp_ok_variant: "cp_ok (RpcValue m x) \<Longrightarrow> variant_wf x \<and> variant_packable x"
  by (simp add: cp_ok_def)

lemma variant_reads_ok: "cp_ok (RpcValue m x) \<Longrightarrow> length (write_variant x) \<le> Suc n \<Longrightarrow> variant_reads n x"
  using cp_ok_variant by (intro write_reads_aux(2)) auto

lemma read_meta_write:
  assumes ok: "cp_ok (RpcValue m x)" and fin: "item_finished it"
  shows "\<exists>md it'. ChainPackReader_read_meta it (write_value (RpcValue m x) @ rest) = Inr (md, it', write_variant x @ rest)
    \<and> item_finished it'"
proof (cases "\<exists>md. m = Some md \<and> \<not> RpcMetaData_isEmpty md")
  case True
  then obtain md where md: "m = Some md" "\<not> RpcMetaData_isEmpty md" by blast
  define n where "n = rd_fuel (write_meta md @ write_variant x @ rest)"
  have "read_meta (rd_value n) it (write_meta md @ write_variant x @ rest) =
      Some (Inr (canon_meta md, ItemInvalid, write_variant x @ rest))"
    using ok md fin by (intro write_reads_aux(3)) (auto simp: cp_ok_def n_def rd_fuel_def)
  then show ?thesis using md by (simp add: ChainPackReader_read_meta_def run_rd_def n_def)
next
  case False
  then have w: "write_value (RpcValue m x) = write_variant x"
    by (auto simp: write_meta_empty split: option.splits)
  obtain it1 r where "unpack_fresh (write_variant x @ rest) = Some (it1, r)" "it1 \<noteq> ItemMeta"
    using variant_reads_ok [OF ok, of "length (write_variant x)"] unfolding variant_reads_def by fastforce
  then have "\<not> (\<exists>inp'. write_variant x @ rest = CP_MetaMap # inp')"
    by (auto simp: unpack_fresh_def unpack_item_def)
  then show ?thesis
    unfolding w ChainPackReader_read_meta_def read_meta_def using fin
    by (auto simp: run_rd_def split: list.splits)
qed

lemma unpack_scalar:
  assumes ok: "cp_ok (RpcValue m x)"
    and sc: "\<forall>l. x \<noteq> VList l" "\<forall>sm. x \<noteq> VMap sm" "\<forall>im. x \<noteq> VIMap im"
  shows "\<exists>it r. unpack_fresh (write_variant x @ rest) = Some (it, r) \<and> it \<noteq> ItemMap \<and> it \<noteq> ItemIMap \<and> it \<noteq> ItemList"
proof -
  obtain it r it' where it: "unpack_fresh (write_variant x @ rest) = Some (it, r)"
    and sw: "read_switch (rd_value (length (write_variant x))) it r = Some (Inr (rpc (canon_variant x), it', rest))"
    using variant_reads_ok [OF ok, of "length (write_variant x)"] unfolding variant_reads_def by fastforce
  have "\<forall>l. canon_variant x \<noteq> VList l" "\<forall>sm. canon_variant x \<noteq> VMap sm" "\<forall>im. canon_variant x \<noteq> VIMap im"
    using sc by (cases x; simp)+
  then have "it \<noteq> ItemMap \<and> it \<noteq> ItemIMap \<and> it \<noteq> ItemList"
    using sw by (auto simp: read_switch_def bind_r_Inr eq_commute [of _ "canon_variant x"] simp del: parseList.simps)
  then show ?thesis using it by blast
qed

lemma cp_ok_elements:
  "cp_ok (RpcValue m (VList l)) \<Longrightarrow> x \<in> set l \<Longrightarrow> cp_ok x"
  "cp_ok (RpcValue m (VMap sm)) \<Longrightarrow> (ks, x) \<in> set sm \<Longrightarrow> cp_ok x \<and> length ks < 2 ^ 63"
  "cp_ok (RpcValue m (VIMap im)) \<Longrightarrow> (ki, x) \<in> set im \<Longrightarrow> cp_ok x \<and> in_s 32 ki"
  using pairs_packable(1) [of sm ks x] pairs_packable(2) [of im ki x]
  by (auto simp: cp_ok_def list_all_iff)

lemma find_eq_map_find: "map_option snd (find (\<lambda>e. fst e = key) m) = map_find m key"
  by (induction m) auto

lemma path_keys:
  "length k < 2 ^ 63 \<Longrightarrow> cp_ok (rpc (VString k)) \<and> path_key ItemMap (cp_canon (rpc (VString k))) = Inr k"
  "in_s 32 i \<Longrightarrow> cp_ok (rpc (VInt i)) \<and> path_key ItemIMap (cp_canon (rpc (VInt i))) = Inr (to_string_int i)"
  by (auto simp: cp_ok_def path_key_def drop_empty_meta_def as_defs toInt_VInt in_s_def)

lemma find_key_map:
  assumes ok: "cp_ok (RpcValue m (VMap sm))"
  shows "finds (find_key (rd_fuel (write_map_elements (map (map_prod id write_value) sm) @ CP_TERM # rest)) ItemMap key 0 ItemMap
      (write_map_elements (map (map_prod id write_value) sm) @ CP_TERM # rest)) (map_find sm key)"
proof -
  define w where "w = (\<lambda>e::string \<times> rpc_value. write_value (rpc (VString (fst e))) @ write_value (snd e))"
  have w: "write_map_elements (map (map_prod id write_value) sm) = concat (map w sm)"
    by (simp add: write_elements writeMapElement_s_def writeMapKey_def w_def case_prod_unfold)
  have el: "e \<in> set sm \<Longrightarrow> cp_ok (snd e) \<and> cp_ok (rpc (VString (fst e))) \<and>
      path_key ItemMap (cp_canon (rpc (VString (fst e)))) = Inr (fst e)" for e
    using cp_ok_elements(2) [OF ok, of "fst e" "snd e"] path_keys(1) [of "fst e"] by auto
  have "length sm \<le> length (concat (map w sm))"
    by (rule length_le_concat) (simp add: w_def write_value_nonempty)
  then have len: "length sm < rd_fuel (concat (map w sm) @ CP_TERM # rest)" by (simp add: rd_fuel_def)
  show ?thesis
    unfolding w find_eq_map_find [symmetric]
    by (rule find_key_pairs [of ItemMap ItemMap sm "\<lambda>k. rpc (VString k)" "\<lambda>k. k", folded w_def, OF _ _ el len])
       simp_all
qed

lemma find_key_imap:
  assumes ok: "cp_ok (RpcValue m (VIMap im))"
  shows "finds (find_key (rd_fuel (write_imap_elements (map (map_prod id write_value) im) @ CP_TERM # rest)) ItemIMap key 0 ItemIMap
      (write_imap_elements (map (map_prod id write_value) im) @ CP_TERM # rest))
      (map_option snd (find (\<lambda>e. to_string_int (fst e) = key) im))"
proof -
  define w where "w = (\<lambda>e::int \<times> rpc_value. write_value (rpc (VInt (fst e))) @ write_value (snd e))"
  have w: "write_imap_elements (map (map_prod id write_value) im) = concat (map w im)"
    by (simp add: write_elements writeMapElement_i_def writeIMapKey_def w_def case_prod_unfold)
  have el: "e \<in> set im \<Longrightarrow> cp_ok (snd e) \<and> cp_ok (rpc (VInt (fst e))) \<and>
      path_key ItemIMap (cp_canon (rpc (VInt (fst e)))) = Inr (to_string_int (fst e))" for e
    using cp_ok_elements(3) [OF ok, of "fst e" "snd e"] path_keys(2) [of "fst e"] by auto
  have "length im \<le> length (concat (map w im))"
    by (rule length_le_concat) (simp add: w_def write_value_nonempty)
  then have len: "length im < rd_fuel (concat (map w im) @ CP_TERM # rest)" by (simp add: rd_fuel_def)
  show ?thesis
    unfolding w
    by (rule find_key_pairs [of ItemIMap ItemIMap im "\<lambda>k. rpc (VInt k)" to_string_int, folded w_def, OF _ _ el len])
       simp_all
qed

lemma find_key_container:
  assumes ok: "cp_ok (RpcValue m x)"
    and cont: "unpack_fresh (write_variant x @ rest) = Some (cont, r)" "cont = ItemMap \<or> cont = ItemIMap \<or> cont = ItemList"
  shows "finds (find_key (rd_fuel r) cont key 0 cont r) (path_step (RpcValue m x) key)"
proof (cases "(\<forall>l. x \<noteq> VList l) \<and> (\<forall>sm. x \<noteq> VMap sm) \<and> (\<forall>im. x \<noteq> VIMap im)")
  case True
  then show ?thesis using unpack_scalar [OF ok, of rest] cont by auto
next
  case False
  then consider l where "x = VList l" | sm where "x = VMap sm" | im where "x = VIMap im" by blast
  then show ?thesis
  proof cases
    case (1 l)
    then show ?thesis
      using cont find_key_list [of ItemList l "rd_fuel r" key 0 rest] cp_ok_elements(1) [of m l] ok
        length_le_concat [of l write_value]
      by (auto simp: unpack_fresh_def unpack_item_def writeContainerEnd_def path_step_def rd_fuel_def write_value_nonempty
          simp del: find_key.simps)
  next
    case (2 sm)
    then show ?thesis
      using cont find_key_map [of m sm rest key] ok
      by (auto simp: unpack_fresh_def unpack_item_def writeContainerEnd_def path_step_def simp del: find_key.simps)
  next
    case (3 im)
    then show ?thesis
      using cont find_key_imap [of m im rest key] ok
      by (auto simp: unpack_fresh_def unpack_item_def writeContainerEnd_def path_step_def simp del: find_key.simps)
  qed
qed

lemma finds_run:
  "finds r None \<Longrightarrow> \<exists>it inp. run_rd r = Inr (False, it, inp)"
  "finds r (Some v) \<Longrightarrow> \<exists>it rest. run_rd r = Inr (True, it, write_value v @ rest) \<and> item_finished it"
  by (auto simp: finds_def run_rd_def)

lemma find_in_set: "map_option snd (find P xs) = Some w \<Longrightarrow> \<exists>k. (k, w) \<in> set xs"
  by (induction xs) (auto split: if_splits)

lemma path_step_ok: "cp_ok v \<Longrightarrow> path_step v key = Some w \<Longrightarrow> cp_ok w"
proof -
  assume ok: "cp_ok v" and w: "path_step v key = Some w"
  obtain m x where v: "v = RpcValue m x" by (cases v)
  consider l where "x = VList l" | sm where "x = VMap sm" | im where "x = VIMap im"
    using w by (cases x) (auto simp: path_step_def v)
  then show ?thesis
  proof cases
    case (1 l)
    then have "w \<in> set l" using w find_in_set by (fastforce simp: path_step_def v in_set_enumerate_eq)
    then show ?thesis using ok 1 cp_ok_elements(1) v by blast
  next
    case (2 sm)
    then have "(key, w) \<in> set sm" using w by (auto simp: path_step_def v map_find_def dest: map_of_SomeD)
    then show ?thesis using ok 2 cp_ok_elements(2) v by blast
  next
    case (3 im)
    then have "\<exists>k. (k, w) \<in> set im" using w find_in_set by (fastforce simp: path_step_def v)
    then show ?thesis using ok 3 cp_ok_elements(3) v by blast
  qed
qed

lemma readPath_lookup:
  "cp_ok v \<Longrightarrow> item_finished it \<Longrightarrow>
   readPath keys it (write_value v @ rest) = Inr (map_option cp_canon (lookup_path v keys))"
proof (induction keys arbitrary: v it rest)
  case Nil
  obtain it' where "ChainPackReader_read it (write_value v @ rest) = Inr (cp_canon v, it', rest)"
    by (rule read_write [OF Nil])
  then show ?case by simp
next
  case (Cons key keys)
  obtain m x where v: "v = RpcValue m x" by (cases v)
  obtain md it1 where md: "ChainPackReader_read_meta it (write_value v @ rest) = Inr (md, it1, write_variant x @ rest)"
    "item_finished it1"
    using read_meta_write Cons.prems unfolding v by blast
  obtain cont r where cont: "unpack_fresh (write_variant x @ rest) = Some (cont, r)"
    using variant_reads_ok [of m x "length (write_variant x)"] Cons.prems(1)
    unfolding v variant_reads_def by fastforce
  then have nx: "unpackNext it1 (write_variant x @ rest) = Inr (cont, r)"
    by (simp add: unpackNext_def unpack_next_finished [OF md(2)])
  show ?case
  proof (cases "cont = ItemMap \<or> cont = ItemIMap \<or> cont = ItemList")
    case True
    note f = find_key_container [OF Cons.prems(1) [unfolded v] cont True, of key, folded v]
    show ?thesis
    proof (cases "path_step v key")
      case None
      then show ?thesis using finds_run(1) [OF f [unfolded None]] md nx True by auto
    next
      case (Some w)
      obtain it2 rest2 where "run_rd (find_key (rd_fuel r) cont key 0 cont r) = Inr (True, it2, write_value w @ rest2)"
        "item_finished it2"
        using finds_run(2) [OF f [unfolded Some]] by blast
      then show ?thesis
        using md nx True Some Cons.IH [OF path_step_ok [OF Cons.prems(1) Some]] by auto
    qed
  next
    case False
    moreover have "path_step v key = None"
    proof (rule ccontr)
      assume "path_step v key \<noteq> None"
      then have "cont = ItemMap \<or> cont = ItemIMap \<or> cont = ItemList"
        using cont unfolding v
        by (cases x) (auto simp: path_step_def unpack_fresh_def unpack_item_def)
      with False show False by blast
    qed
    ultimately show ?thesis using md nx by auto
  qed
qed

end
