(* ===== verification/Rpc_Frame.thy ===== *)
theory Rpc_Frame
  imports Rpc_Message Chain_Pack_Roundtrip
begin

text \<open>
  Frames (\<open>RpcFrame\<close> in \<open>rpcmessage.h\<close> and \<open>rpcmessage.cpp\<close>) and the drivers that move them
  (\<open>rpcdriver.cpp\<close>, \<open>socketrpcdriver.cpp\<close>).  A frame keeps the meta data unpacked, so that it can
  be routed, and the body packed; a message is split into the two and put together again.  The
  text format Cpon is an argument of the functions that can use it (\<open>cpon_ops\<close>).
\<close>

datatype protocol_type = PT_Invalid | PT_ChainPack | PT_Cpon

definition Rpc_protocolTypeToString :: "protocol_type \<Rightarrow> string" where
  "Rpc_protocolTypeToString pv =
     (case pv of PT_Cpon \<Rightarrow> ''Cpon'' | PT_ChainPack \<Rightarrow> ''ChainPack'' | PT_Invalid \<Rightarrow> ''Invalid'')"

definition protocol_byte :: "protocol_type \<Rightarrow> byte" where
  "protocol_byte p = (case p of PT_Invalid \<Rightarrow> 0 | PT_ChainPack \<Rightarrow> 1 | PT_Cpon \<Rightarrow> 2)"

record rpc_frame =
  fr_protocol :: protocol_type
  fr_meta :: rpc_meta
  fr_data :: bytes

text \<open>
  What the frame code calls of Cpon: printing meta data and values, reading a value (\<open>fromCpon\<close>)
  and reading meta data, which returns the rest of the input.
\<close>

record cpon_ops =
  cpon_write_meta :: "rpc_meta \<Rightarrow> bytes"
  cpon_write :: "rpc_value \<Rightarrow> bytes"
  cpon_read :: "bytes \<Rightarrow> exn + rpc_value"
  cpon_read_meta :: "bytes \<Rightarrow> exn + rpc_meta \<times> bytes"

definition RpcFrame_isValid :: "rpc_frame \<Rightarrow> bool" where
  "RpcFrame_isValid f \<longleftrightarrow> \<not> RpcMetaData_isEmpty (fr_meta f) \<and> fr_data f \<noteq> []"

definition RpcFrame_toFrameHead :: "cpon_ops \<Rightarrow> rpc_frame \<Rightarrow> exn + bytes" where
  "RpcFrame_toFrameHead cp f =
     (case fr_protocol f of
        PT_ChainPack \<Rightarrow> Inr (protocol_byte PT_ChainPack # write_meta (fr_meta f))
      | PT_Cpon \<Rightarrow> Inr (protocol_byte PT_Cpon # cpon_write_meta cp (fr_meta f))
      | PT_Invalid \<Rightarrow> Inl (RuntimeError ''Invalid protocol type''))"

definition RpcFrame_toFrameData :: "cpon_ops \<Rightarrow> rpc_frame \<Rightarrow> exn + bytes" where
  "RpcFrame_toFrameData cp f = map_sum id (\<lambda>ret. ret @ fr_data f) (RpcFrame_toFrameHead cp f)"

definition protocol_of_byte :: "byte \<Rightarrow> protocol_type option" where
  "protocol_of_byte b = (if b = 1 then Some PT_ChainPack else if b = 2 then Some PT_Cpon else None)"

text \<open>An empty input reads as the protocol \<open>EOF\<close>, which is as invalid as any other.\<close>

definition RpcFrame_fromFrameData :: "cpon_ops \<Rightarrow> bytes \<Rightarrow> exn + rpc_frame" where
  "RpcFrame_fromFrameData cp frame_data =
     (case frame_data of
        [] \<Rightarrow> Inl (RuntimeError ''Invalid protocol type'')
      | b # inp \<Rightarrow>
          (case protocol_of_byte b of
             None \<Rightarrow> Inl (RuntimeError ''Invalid protocol type'')
           | Some protocol \<Rightarrow>
               (case (if protocol = PT_ChainPack
                      then map_sum id (\<lambda>(md, it, rest). (md, rest)) (ChainPackReader_read_meta ItemInvalid inp)
                      else cpon_read_meta cp inp) of
                  Inl e \<Rightarrow> Inl e
                | Inr (meta, data) \<Rightarrow>
                    if RpcMetaData_isEmpty meta then Inl ParseException
                    else Inr \<lparr>fr_protocol = protocol, fr_meta = meta, fr_data = data\<rparr>)))"

text \<open>
  \<open>toRpcMessage\<close>.  The second component of the result tells whether \<open>errmsg\<close> is set; without
  \<open>errmsg\<close> a parse error is thrown.  A body that is no map is swallowed into an unset message.
\<close>

definition decode_body :: "cpon_ops \<Rightarrow> rpc_frame \<Rightarrow> exn + rpc_value" where
  "decode_body cp f =
     (case fr_protocol f of
        PT_ChainPack \<Rightarrow> RpcValue_fromChainPack (fr_data f)
      | PT_Cpon \<Rightarrow> cpon_read cp (fr_data f)
      | PT_Invalid \<Rightarrow> Inl (RuntimeError ''Invalid protocol type''))"

definition RpcFrame_toRpcMessage :: "cpon_ops \<Rightarrow> rpc_frame \<Rightarrow> exn + rpc_message" where
  "RpcFrame_toRpcMessage cp f =
     (case decode_body cp f of
        Inl e \<Rightarrow> Inl e
      | Inr val \<Rightarrow>
          (case RpcValue_setMetaData (fr_meta f) val of
             Inl e \<Rightarrow> Inl e
           | Inr val' \<Rightarrow>
               (case RpcMessage_of_value val' of Inl _ \<Rightarrow> Inr RpcMessage_empty | Inr m \<Rightarrow> Inr m)))"

definition RpcFrame_toRpcMessage_err :: "cpon_ops \<Rightarrow> rpc_frame \<Rightarrow> exn + rpc_message \<times> bool" where
  "RpcFrame_toRpcMessage_err cp f =
     (if fr_protocol f = PT_Invalid then Inr (RpcMessage_empty, True)
      else (case decode_body cp f of
              Inl ParseException \<Rightarrow> Inr (RpcMessage_empty, True)
            | Inl e \<Rightarrow> Inl e
            | Inr val \<Rightarrow>
                (case RpcValue_setMetaData (fr_meta f) val of
                   Inl e \<Rightarrow> Inl e
                 | Inr val' \<Rightarrow>
                     (case RpcMessage_of_value val' of
                        Inl _ \<Rightarrow> Inr (RpcMessage_empty, True)
                      | Inr m \<Rightarrow> Inr (m, False)))))"

definition RpcMessage_toRpcFrame :: "cpon_ops \<Rightarrow> protocol_type \<Rightarrow> rpc_message \<Rightarrow> exn + rpc_frame" where
  "RpcMessage_toRpcFrame cp protocol m =
     (let (meta, val) = RpcValue_takeMeta m
      in case protocol of
           PT_ChainPack \<Rightarrow> Inr \<lparr>fr_protocol = PT_ChainPack, fr_meta = meta, fr_data = RpcValue_toChainPack val\<rparr>
         | PT_Cpon \<Rightarrow> Inr \<lparr>fr_protocol = PT_Cpon, fr_meta = meta, fr_data = cpon_write cp val\<rparr>
         | PT_Invalid \<Rightarrow> Inl (RuntimeError ''Invalid protocol type''))"

section \<open>\<open>RpcDriver\<close>\<close>

text \<open>
  \<open>sendRpcFrame\<close> hands one frame to \<open>writeFrame\<close>; a frame of another protocol than the client's is
  converted first.  Exceptions are logged, so that the outcome is the frame written, if any.
\<close>

definition RpcDriver_sendRpcFrame :: "cpon_ops \<Rightarrow> protocol_type \<Rightarrow> rpc_frame \<Rightarrow> rpc_frame option" where
  "RpcDriver_sendRpcFrame cp client f =
     (if fr_protocol f \<noteq> client then
        (case RpcFrame_toRpcMessage_err cp f of
           Inl _ \<Rightarrow> None
         | Inr (msg, err) \<Rightarrow>
             if err then None
             else (case RpcMessage_toRpcFrame cp client msg of Inl _ \<Rightarrow> None | Inr f2 \<Rightarrow> Some f2))
      else Some f)"

definition RpcDriver_sendRpcMessage :: "cpon_ops \<Rightarrow> protocol_type \<Rightarrow> rpc_message \<Rightarrow> exn + rpc_frame option" where
  "RpcDriver_sendRpcMessage cp client msg =
     map_sum id (RpcDriver_sendRpcFrame cp client) (RpcMessage_toRpcFrame cp client msg)"

text \<open>The message delivered to \<open>onRpcMessageReceived\<close>, if any.\<close>

definition RpcDriver_onRpcFrameReceived :: "cpon_ops \<Rightarrow> rpc_frame \<Rightarrow> exn + rpc_message option" where
  "RpcDriver_onRpcFrameReceived cp f =
     map_sum id (\<lambda>(msg, err). if err then None else Some msg) (RpcFrame_toRpcMessage_err cp f)"

text \<open>The client's protocol is set before the frame is looked at, hence also when that throws.\<close>

definition RpcDriver_processRpcFrame :: "cpon_ops \<Rightarrow> protocol_type \<Rightarrow> rpc_frame \<Rightarrow> protocol_type \<times> (exn + rpc_message option)" where
  "RpcDriver_processRpcFrame cp client f =
     (if client = PT_Invalid then fr_protocol f else client, RpcDriver_onRpcFrameReceived cp f)"

section \<open>\<open>SocketRpcDriver\<close>\<close>

record socket_driver =
  sd_open :: bool
  sd_writeBuffer :: bytes
  sd_readBuffer :: bytes
  sd_readFrameSize :: nat

definition m_maxWriteBufferLength :: nat where "m_maxWriteBufferLength = 1024"

definition frame_length_data :: "bytes \<Rightarrow> bytes \<Rightarrow> bytes" where
  "frame_length_data frame_head data = cchainpack_pack_uint_data (word_of_nat (length frame_head + length data))"

text \<open>
  \<open>flush\<close>: the socket takes \<open>n\<close> bytes, where \<open>n\<close> is what \<open>::write\<close> returns for the buffer.
\<close>

definition SocketRpcDriver_flush :: "(bytes \<Rightarrow> int) \<Rightarrow> socket_driver \<Rightarrow> socket_driver \<times> bytes \<times> bool" where
  "SocketRpcDriver_flush wr d =
     (if sd_writeBuffer d = [] then (d, [], False)
      else (let n = wr (sd_writeBuffer d)
            in if n > 0 then (d\<lparr>sd_writeBuffer := drop (nat n) (sd_writeBuffer d)\<rparr>, take (nat n) (sd_writeBuffer d), True)
               else (d, [], False)))"

definition SocketRpcDriver_writeFrame :: "cpon_ops \<Rightarrow> (bytes \<Rightarrow> int) \<Rightarrow> rpc_frame \<Rightarrow> socket_driver \<Rightarrow> exn + socket_driver \<times> bytes" where
  "SocketRpcDriver_writeFrame cp wr frame d =
     (if \<not> sd_open d then Inr (d, [])
      else (case RpcFrame_toFrameHead cp frame of
              Inl e \<Rightarrow> Inl e
            | Inr frame_head \<Rightarrow>
                (let len_data = frame_length_data frame_head (fr_data frame)
                 in if length (sd_writeBuffer d) + length len_data + length frame_head + length (fr_data frame)
                       < m_maxWriteBufferLength
                    then (let (d', out, _) = SocketRpcDriver_flush wr
                                (d\<lparr>sd_writeBuffer := sd_writeBuffer d @ len_data @ frame_head @ fr_data frame\<rparr>)
                          in Inr (d', out))
                    else Inr (d, []))))"

definition SocketRpcDriver_closeConnection :: "socket_driver \<Rightarrow> socket_driver" where
  "SocketRpcDriver_closeConnection d = d\<lparr>sd_open := False\<rparr>"

text \<open>
  The inner loop of \<open>exec\<close> after bytes arrived: the frames handed to \<open>onFrameDataRead\<close>.  The
  code clears \<open>m_readFrameSize\<close> nowhere, so a second frame is cut with the size of the first.
\<close>

function read_frames :: "bytes list \<Rightarrow> socket_driver \<Rightarrow> socket_driver \<times> bytes list" where
  "read_frames frames d =
     (let d1 = (if sd_readFrameSize d = 0
                then (case readUIntData (sd_readBuffer d) of
                        None \<Rightarrow> None
                      | Some (frame_size, rest) \<Rightarrow>
                          Some (d\<lparr>sd_readBuffer := rest, sd_readFrameSize := unat frame_size\<rparr>))
                else Some d)
      in case d1 of
           None \<Rightarrow> (d, frames)
         | Some d \<Rightarrow>
             (let got = (sd_readFrameSize d > 0 \<and> sd_readFrameSize d \<le> length (sd_readBuffer d));
                  frames' = (if got then frames @ [take (sd_readFrameSize d) (sd_readBuffer d)] else frames);
                  d' = (if got then d\<lparr>sd_readBuffer := drop (sd_readFrameSize d) (sd_readBuffer d)\<rparr> else d)
              in if sd_readFrameSize d' = 0 \<or> sd_readFrameSize d' > length (sd_readBuffer d') then (d', frames')
                 else read_frames frames' d'))"
  by pat_completeness auto
termination
proof (relation "measure (\<lambda>(frames, d). length (sd_readBuffer d))")
  fix frames :: "bytes list" and d d1 :: socket_driver and x got xa d'
  assume x: "x = (if sd_readFrameSize d = 0
                then (case readUIntData (sd_readBuffer d) of
                        None \<Rightarrow> None
                      | Some (frame_size, rest) \<Rightarrow>
                          Some (d\<lparr>sd_readBuffer := rest, sd_readFrameSize := unat frame_size\<rparr>))
                else Some d)" and d1: "x = Some d1"
    and got: "got = (sd_readFrameSize d1 > 0 \<and> sd_readFrameSize d1 \<le> length (sd_readBuffer d1))"
    and d': "d' = (if got then d1\<lparr>sd_readBuffer := drop (sd_readFrameSize d1) (sd_readBuffer d1)\<rparr> else d1)"
    and more: "\<not> (sd_readFrameSize d' = 0 \<or> sd_readFrameSize d' > length (sd_readBuffer d'))"
  have "length (sd_readBuffer d1) \<le> length (sd_readBuffer d)"
    using x d1 by (auto simp: readUIntData_def split: if_splits option.splits dest: unpack_uint_data2_length)
  then show "((xa, d'), frames, d) \<in> measure (\<lambda>(frames, d). length (sd_readBuffer d))"
    using got d' more by (auto split: if_splits)
qed simp

declare read_frames.simps [simp del]

definition SocketRpcDriver_onBytesRead :: "bytes \<Rightarrow> socket_driver \<Rightarrow> socket_driver \<times> bytes list" where
  "SocketRpcDriver_onBytesRead inp d = read_frames [] (d\<lparr>sd_readBuffer := sd_readBuffer d @ inp\<rparr>)"

text \<open>
  \<open>onFrameDataRead\<close>: the client protocol, the message delivered and whether
  \<open>onParseDataException\<close> was called; other exceptions are logged.
\<close>

definition SocketRpcDriver_onFrameDataRead :: "cpon_ops \<Rightarrow> protocol_type \<Rightarrow> bytes \<Rightarrow> protocol_type \<times> rpc_message option \<times> bool" where
  "SocketRpcDriver_onFrameDataRead cp client frame_data =
     (case RpcFrame_fromFrameData cp frame_data of
        Inl e \<Rightarrow> (client, None, e = ParseException)
      | Inr frame \<Rightarrow>
          (case RpcDriver_processRpcFrame cp client frame of
             (client', Inl e) \<Rightarrow> (client', None, e = ParseException)
           | (client', Inr msg) \<Rightarrow> (client', msg, False)))"

text \<open>
  One round of the loop of \<open>exec\<close>, by what \<open>select\<close> and \<open>read\<close> report: the driver, the frames
  handed over and the bytes sent.  \<open>None\<close> is the return of \<open>exec\<close>.
\<close>

datatype sock_event =
    SelectFailed
  | SelectTimeout
  | ReadClosed
  | SockReady "bytes option" "(bytes \<Rightarrow> int) option"

definition SocketRpcDriver_exec_round :: "sock_event \<Rightarrow> socket_driver \<Rightarrow> socket_driver \<times> bytes list \<times> bytes \<times> bool" where
  "SocketRpcDriver_exec_round ev d =
     (case ev of
        SelectFailed \<Rightarrow> (d, [], [], False)
      | SelectTimeout \<Rightarrow> (d, [], [], True)
      | ReadClosed \<Rightarrow> (SocketRpcDriver_closeConnection d, [], [], False)
      | SockReady rd wr \<Rightarrow>
          (let (d1, frames) = (case rd of None \<Rightarrow> (d, []) | Some inp \<Rightarrow> SocketRpcDriver_onBytesRead inp d);
               (d2, out) = (case wr of None \<Rightarrow> (d1, [])
                            | Some w \<Rightarrow> (let (d', out, _) = SocketRpcDriver_flush w d1 in (d', out)))
           in (d2, frames, out, True)))"

definition SocketRpcDriver_sendResponse :: "cpon_ops \<Rightarrow> protocol_type \<Rightarrow> int \<Rightarrow> rpc_value \<Rightarrow> exn + rpc_frame option" where
  "SocketRpcDriver_sendResponse cp client request_id result =
     RpcDriver_sendRpcMessage cp client
       (RpcResponse_setResult result (RpcResponse_setRequestId (rpc (VInt request_id)) RpcMessage_empty))"

definition SocketRpcDriver_sendNotify :: "cpon_ops \<Rightarrow> protocol_type \<Rightarrow> string \<Rightarrow> rpc_value \<Rightarrow> exn + rpc_frame option" where
  "SocketRpcDriver_sendNotify cp client method result =
     RpcDriver_sendRpcMessage cp client
       (RpcRequest_setParams result (RpcRequest_setMethod method RpcMessage_empty))"

section \<open>A frame survives the wire\<close>

lemma read_meta_of_write:
  assumes "meta_wf md" "meta_packable md" "\<not> RpcMetaData_isEmpty md"
  shows "ChainPackReader_read_meta ItemInvalid (write_meta md @ data) = Inr (canon_meta md, ItemInvalid, data)"
proof -
  have "read_meta (rd_value (rd_fuel (write_meta md @ data))) ItemInvalid (write_meta md @ data) =
      Some (Inr (canon_meta md, ItemInvalid, data))"
    using assms by (intro write_reads_aux(3)) (auto simp: rd_fuel_def)
  then show ?thesis by (simp add: ChainPackReader_read_meta_def run_rd_def)
qed

lemma frame_roundtrip:
  assumes "fr_protocol f = PT_ChainPack"
    and "meta_wf (fr_meta f)" "meta_packable (fr_meta f)" "\<not> RpcMetaData_isEmpty (fr_meta f)"
    and "RpcFrame_toFrameData cp f = Inr bs"
  shows "RpcFrame_fromFrameData cp bs = Inr (f\<lparr>fr_meta := canon_meta (fr_meta f)\<rparr>)"
  using assms by (auto simp: RpcFrame_toFrameData_def RpcFrame_toFrameHead_def RpcFrame_fromFrameData_def
      protocol_byte_def protocol_of_byte_def read_meta_of_write canon_meta_empty)

text \<open>Body and meta data travel apart and are put together again.\<close>

lemma decode_write_value:
  assumes "cp_ok v"
  shows "RpcValue_fromChainPack (RpcValue_toChainPack v) = Inr (cp_canon v)"
proof -
  obtain it' where "ChainPackReader_read ItemInvalid (write_value v @ []) = Inr (cp_canon v, it', [])"
    using read_write [OF assms, of ItemInvalid "[]"] by auto
  then show ?thesis by (simp add: RpcValue_fromChainPack_def RpcValue_toChainPack_def)
qed

lemma message_split:
  assumes "RpcValue_isIMap m" "cp_ok m" "RpcMessage_toRpcFrame cp PT_ChainPack m = Inr f"
  shows "fr_protocol f = PT_ChainPack" "fr_meta f = RpcMessage_metaData m"
    and "decode_body cp f = Inr (RpcValue None (canon_variant (rv_var m)))"
proof -
  obtain mo x where m: "m = RpcValue mo x" by (cases m)
  have ok: "cp_ok (RpcValue None x)" using assms(2) by (simp add: m cp_ok_def)
  have f: "f = \<lparr>fr_protocol = PT_ChainPack, fr_meta = RpcMessage_metaData m, fr_data = RpcValue_toChainPack (RpcValue None x)\<rparr>"
    using assms(3) by (cases mo) (auto simp: RpcMessage_toRpcFrame_def RpcValue_takeMeta_def RpcMessage_metaData_def
        RpcValue_metaData_def m)
  show "fr_protocol f = PT_ChainPack" "fr_meta f = RpcMessage_metaData m" by (simp_all add: f)
  show "decode_body cp f = Inr (RpcValue None (canon_variant (rv_var m)))"
    using decode_write_value [OF ok] by (simp add: decode_body_def f m drop_empty_meta_def)
qed

lemma canon_isIMap: "RpcValue_isIMap v \<Longrightarrow> rv_var w = canon_variant (rv_var v) \<Longrightarrow> RpcValue_isIMap w"
  by (auto simp: isIMap_iff)

lemma message_frame_roundtrip:
  assumes m: "RpcValue_isIMap m" "cp_ok m" "\<not> RpcMetaData_isEmpty (RpcMessage_metaData m)"
    and f: "RpcMessage_toRpcFrame cp PT_ChainPack m = Inr f" "RpcFrame_toFrameData cp f = Inr bs"
  shows "\<exists>f'. RpcFrame_fromFrameData cp bs = Inr f' \<and> RpcFrame_toRpcMessage_err cp f' = Inr (cp_canon m, False)"
proof -
  note split = message_split [OF m(1,2) f(1)]
  obtain mo x where mx: "m = RpcValue mo x" by (cases m)
  then obtain md where md: "mo = Some md" using m(3)
    by (cases mo) (auto simp: RpcMessage_metaData_def RpcValue_metaData_def meta_empty_def RpcMetaData_isEmpty_def RpcMetaData_size_def)
  have "RpcFrame_fromFrameData cp bs = Inr (f\<lparr>fr_meta := canon_meta (fr_meta f)\<rparr>)"
    using m f split by (intro frame_roundtrip)
      (auto simp: mx md cp_ok_def RpcMessage_metaData_def RpcValue_metaData_def)
  moreover have "RpcFrame_toRpcMessage_err cp (f\<lparr>fr_meta := canon_meta (fr_meta f)\<rparr>) = Inr (cp_canon m, False)"
    using split m canon_isIMap [OF m(1)]
    by (auto simp: RpcFrame_toRpcMessage_err_def decode_body_def RpcValue_setMetaData_def mx md isIMap_iff
        RpcMessage_of_value_def type_test_defs RpcMessage_metaData_def RpcValue_metaData_def drop_empty_meta_def canon_meta_empty)
  ultimately show ?thesis by blast
qed

section \<open>The socket driver delivers what was written\<close>

text \<open>What one frame puts on the wire, and the frame as the receiver gets it.\<close>

definition frame_bytes :: "bytes \<Rightarrow> bytes \<Rightarrow> bytes" where
  "frame_bytes frame_head data = frame_length_data frame_head data @ frame_head @ data"

definition sd_write_ok :: "socket_driver \<Rightarrow> bool" where
  "sd_write_ok d \<longleftrightarrow> length (sd_writeBuffer d) < m_maxWriteBufferLength"

text \<open>A \<open>::write\<close> reports at most the length it was given.\<close>

definition write_contract :: "(bytes \<Rightarrow> int) \<Rightarrow> bool" where
  "write_contract wr \<longleftrightarrow> (\<forall>bs. wr bs \<le> int (length bs))"

lemma flush_facts:
  assumes "SocketRpcDriver_flush wr d = (d', out, res)"
  shows "out @ sd_writeBuffer d' = sd_writeBuffer d" "length (sd_writeBuffer d') \<le> length (sd_writeBuffer d)"
    and "sd_readBuffer d' = sd_readBuffer d" "sd_readFrameSize d' = sd_readFrameSize d" "sd_open d' = sd_open d"
    and "res \<longleftrightarrow> sd_writeBuffer d \<noteq> [] \<and> wr (sd_writeBuffer d) > 0"
  using assms by (auto simp: SocketRpcDriver_flush_def Let_def split: if_splits)

text \<open>Either the whole frame is queued behind what waits, or it is dropped and nothing changes.\<close>

lemma writeFrame_queues:
  assumes "RpcFrame_toFrameHead cp f = Inr h" "SocketRpcDriver_writeFrame cp wr f d = Inr (d', out)"
  shows "out @ sd_writeBuffer d' =
    sd_writeBuffer d @ (if sd_open d \<and> length (sd_writeBuffer d @ frame_bytes h (fr_data f)) < m_maxWriteBufferLength
      then frame_bytes h (fr_data f) else [])"
  using assms flush_facts(1)
  by (fastforce simp: SocketRpcDriver_writeFrame_def frame_bytes_def Let_def split: if_splits prod.splits)

lemma writeFrame_bound:
  assumes "sd_write_ok d" "SocketRpcDriver_writeFrame cp wr f d = Inr (d', out)"
  shows "sd_write_ok d'"
  using assms flush_facts(2)
  by (fastforce simp: SocketRpcDriver_writeFrame_def sd_write_ok_def Let_def split: if_splits prod.splits sum.splits)

lemma readUIntData_pack: "readUIntData (cchainpack_pack_uint_data u @ rest) = Some (u, rest)"
  using uint_codec.dec_enc [of u rest] by (simp add: readUIntData_def)

text \<open>Waiting for a frame of \<open>n\<close> bytes.\<close>

lemma read_frames_short:
  "sd_readFrameSize d > length (sd_readBuffer d) \<Longrightarrow> read_frames frames d = (d, frames)"
  by (subst read_frames.simps) (auto simp: Let_def)

lemma read_frames_take:
  assumes "sd_readFrameSize d = n" "0 < n" "n \<le> length (sd_readBuffer d)"
  shows "read_frames frames d =
    read_frames (frames @ [take n (sd_readBuffer d)]) (d\<lparr>sd_readBuffer := drop n (sd_readBuffer d)\<rparr>)"
proof (cases "n \<le> length (drop n (sd_readBuffer d))")
  case True
  then show ?thesis using assms by (subst read_frames.simps) (auto simp: Let_def)
next
  case False
  then show ?thesis using assms
    by (subst read_frames.simps, subst (2) read_frames_short) (auto simp: Let_def)
qed

lemma read_frames_length:
  assumes "sd_readFrameSize d = 0" "readUIntData (sd_readBuffer d) = Some (u, rest)" "u \<noteq> 0"
  shows "read_frames frames d = read_frames frames (d\<lparr>sd_readBuffer := rest, sd_readFrameSize := unat u\<rparr>)"
  using assms by (subst (1 2) read_frames.simps) (simp add: Let_def unat_eq_zero)

lemma unat_frame_size:
  "length h + length data < 2 ^ 64 \<Longrightarrow> unat (word_of_nat (length h + length data) :: u64) = length h + length data"
  using unat_of_nat [where 'a = 64, of "length h + length data"] by simp

lemma read_frames_frame:
  assumes "sd_readFrameSize d = 0" "sd_readBuffer d = frame_bytes h data @ rest" "h \<noteq> []" "length h + length data < 2 ^ 64"
  shows "read_frames frames d =
    read_frames (frames @ [h @ data]) (d\<lparr>sd_readBuffer := rest, sd_readFrameSize := length h + length data\<rparr>)"
proof -
  define u :: u64 where "u = word_of_nat (length h + length data)"
  have u: "unat u = length h + length data" using unat_frame_size [OF assms(4)] by (simp add: u_def)
  then have "u \<noteq> 0" using assms(3) by auto
  moreover have "readUIntData (sd_readBuffer d) = Some (u, h @ data @ rest)"
    by (simp add: assms(2) frame_bytes_def frame_length_data_def readUIntData_pack u_def)
  ultimately have "read_frames frames d =
      read_frames frames (d\<lparr>sd_readBuffer := h @ data @ rest, sd_readFrameSize := length h + length data\<rparr>)"
    using assms(1) u by (subst read_frames_length) auto
  then show ?thesis using assms(3) by (cases d) (subst (asm) (2) read_frames_take, auto)
qed

lemma socket_delivers:
  assumes "sd_readFrameSize d = 0" "sd_readBuffer d = []" "h \<noteq> []" "length h + length data < 2 ^ 64"
  shows "SocketRpcDriver_onBytesRead (frame_bytes h data) d = (d\<lparr>sd_readFrameSize := length h + length data\<rparr>, [h @ data])"
  unfolding SocketRpcDriver_onBytesRead_def
  using assms by (subst read_frames_frame [where rest = "[]"]) (auto simp: read_frames_short)

text \<open>
  The size of the first frame stays in \<open>m_readFrameSize\<close>, so what follows is cut into pieces of
  that size: a second frame is handed over together with its length prefix, and cut short.
\<close>

lemma socket_second_frame:
  assumes "sd_readFrameSize d = 0" "sd_readBuffer d = []" "h \<noteq> []" "length h + length data < 2 ^ 64"
    and "length h + length data \<le> length (frame_bytes h2 data2)"
    and "length (frame_bytes h2 data2) < 2 * (length h + length data)"
  shows "snd (SocketRpcDriver_onBytesRead (frame_bytes h data @ frame_bytes h2 data2) d) =
    [h @ data, take (length h + length data) (frame_bytes h2 data2)]"
  unfolding SocketRpcDriver_onBytesRead_def
  using assms
  by (subst read_frames_frame [where rest = "frame_bytes h2 data2"])
     (auto simp: read_frames_take read_frames_short)

end
