(* ===== verification/Rpc_Exchange.thy ===== *)
theory Rpc_Exchange
  imports Rpc_Frame
begin

text \<open>
  How requests, responses, errors and access grants fit together (\<open>rpcmessage.cpp\<close>): what a
  response takes over from its request, what a caller can read out of a response, and that an
  error and a grant survive the forms in which a message carries them.
\<close>

section \<open>Kinds of messages\<close>

lemma message_kinds:
  "RpcMessage_isRequest m \<or> RpcMessage_isResponse m \<or> RpcMessage_isSignal m \<longleftrightarrow>
     RpcMessage_hasRequestId m \<or> RpcMessage_hasMethod m"
  "\<not> (RpcMessage_isRequest m \<and> RpcMessage_isResponse m)" "\<not> (RpcMessage_isRequest m \<and> RpcMessage_isSignal m)"
  "\<not> (RpcMessage_isResponse m \<and> RpcMessage_isSignal m)"
  by (auto simp: RpcMessage_isRequest_def RpcMessage_isResponse_def RpcMessage_isSignal_def)

lemmas message_meta_defs = RpcMessage_requestId_def RpcMessage_setRequestId_def RpcMessage_hasRequestId_def
  RpcMessage_hasMethod_def RpcMessage_setCallerIds_def RpcMessage_callerIds_def RpcMessage_metaValue_i_def

lemma isValid_setMetaValue: "RpcValue_isValid (RpcMessage_setMetaValue_i k v m)"
  by (auto simp: RpcMessage_setMetaValue_i_def RpcMessage_checkMetaValues_def type_test_defs Let_def)

lemma metaValue_setMetaValue:
  "k' \<noteq> 1 \<Longrightarrow> RpcMessage_metaValue_i (RpcMessage_setMetaValue_i k v m) k' =
    (if k' = k then (if RpcValue_isValid v then v else invalid_value)
     else if RpcValue_isValid m then RpcMessage_metaValue_i m k' else invalid_value)"
  using metaData_setMetaValue [of k v m] metaData_check(1) [of k' m invalid_value]
  by (auto simp: RpcMessage_metaValue_i_def RpcValue_metaValue_i_def RpcMessage_metaData_def RpcMetaData_value_setValue)

lemma hasKey_setMetaValue:
  "k' \<noteq> 1 \<Longrightarrow> RpcMetaData_hasKey_i (RpcMessage_metaData (RpcMessage_setMetaValue_i k v m)) k' =
    (if k' = k then RpcValue_isValid v else RpcValue_isValid m \<and> RpcMetaData_hasKey_i (RpcMessage_metaData m) k')"
  by (simp add: metaData_setMetaValue metaData_check RpcMetaData_value_setValue)

lemma metaData_invalid [simp]: "RpcMessage_metaData RpcMessage_empty = meta_empty" "\<not> RpcValue_isValid RpcMessage_empty"
  "message_wf RpcMessage_empty"
  by (simp_all add: RpcMessage_metaData_def RpcMessage_empty_def RpcValue_metaData_def type_test_defs message_wf_def)

section \<open>A response answers its request\<close>

lemma forRequest_fields:
  assumes "RpcValue_isValid (RpcMessage_requestId_m md)"
  shows "RpcMessage_requestId (RpcResponse_forRequest md) = RpcMessage_requestId_m md"
    and "RpcMessage_callerIds (RpcResponse_forRequest md) =
      (if RpcValue_isValid (RpcMessage_callerIds_m md) then RpcMessage_callerIds_m md else invalid_value)"
    and "RpcMessage_isResponse (RpcResponse_forRequest md)"
proof -
  define i c where "i = RpcMessage_requestId_m md" and "c = RpcMessage_callerIds_m md"
  define r where "r = RpcMessage_setMetaValue_i Tag_RequestId i RpcMessage_empty"
  have i: "RpcValue_isValid i" using assms by (simp add: i_def)
  have r: "RpcResponse_forRequest md = (if RpcValue_isValid c then RpcMessage_setMetaValue_i Tag_CallerIds c r else r)"
    using i by (simp add: RpcResponse_forRequest_def i_def [symmetric] c_def [symmetric] Let_def
        RpcResponse_setRequestId_def RpcMessage_setRequestId_def RpcMessage_setCallerIds_def r_def)
  have rv: "RpcValue_isValid r" by (simp add: r_def isValid_setMetaValue)
  have req: "RpcMessage_requestId m = (if RpcValue_isValid m then RpcMessage_metaValue_i m Tag_RequestId else invalid_value)" for m
    by (simp add: RpcMessage_requestId_def RpcMessage_requestId_m_def RpcMessage_metaValue_i_def RpcValue_metaValue_i_def
        RpcMessage_metaData_def RpcMessage_isValid_def)
  show "RpcMessage_requestId (RpcResponse_forRequest md) = RpcMessage_requestId_m md"
    unfolding r i_def [symmetric] req
    using rv i by (auto simp: isValid_setMetaValue metaValue_setMetaValue r_def)
  show "RpcMessage_callerIds (RpcResponse_forRequest md) = (if RpcValue_isValid (RpcMessage_callerIds_m md) then RpcMessage_callerIds_m md else invalid_value)"
    unfolding r c_def [symmetric] RpcMessage_callerIds_def
    by (auto simp: metaValue_setMetaValue r_def)
  show "RpcMessage_isResponse (RpcResponse_forRequest md)"
    unfolding r using rv i
    by (auto simp: RpcMessage_isResponse_def RpcMessage_hasRequestId_def RpcMessage_hasMethod_def hasKey_setMetaValue r_def)
qed

lemma wf_meta_lookup: "meta_wf md \<Longrightarrow> rpc_wf (RpcMetaData_value_i md k invalid_value)"
  by (auto simp: RpcMetaData_value_i_def meta_wf_iff imap_ok_def map_find_def split: option.splits dest!: map_of_SomeD)

lemma forRequest_wf:
  assumes "meta_wf md"
  shows "message_wf (RpcResponse_forRequest md)"
proof -
  have "rpc_wf (RpcMessage_requestId_m md)" "rpc_wf (RpcMessage_callerIds_m md)"
    using wf_meta_lookup [OF assms] by (simp_all add: RpcMessage_requestId_m_def RpcMessage_callerIds_m_def)
  then show ?thesis
    by (auto simp: RpcResponse_forRequest_def Let_def RpcResponse_setRequestId_def RpcMessage_setRequestId_def
        RpcMessage_setCallerIds_def in_s_def intro!: message_setters_wf(1))
qed

section \<open>Results and errors\<close>

definition error_wf :: "rpc_error \<Rightarrow> bool" where
  "error_wf e \<longleftrightarrow> e = RpcError_empty \<or> RpcValue_isIMap e"

lemma RpcError_value_setValue:
  "error_wf e \<Longrightarrow> RpcError_value (RpcError_setValue k v e) k' =
    (if k' = k then (if RpcValue_isValid v then v else invalid_value) else RpcError_value e k')"
  "error_wf (RpcError_setValue k v e)" "RpcValue_isIMap (RpcError_setValue k v e)"
  by (cases "rv_var e";
      auto simp: RpcError_value_def RpcError_setValue_def RpcValue_set_i_def type_test_defs as_defs error_wf_def
        RpcError_empty_def RpcIMap_value_def std_map_simps)+

lemma error_wf_empty [simp]: "error_wf RpcError_empty" "RpcError_value RpcError_empty k = invalid_value"
  by (simp_all add: error_wf_def RpcError_value_def RpcError_empty_def as_defs RpcIMap_value_def)

lemma toInt_int: "in_s 32 c \<Longrightarrow> RpcValue_toInt (rpc (VInt c)) = Inr c"
  by (simp add: RpcValue_toInt_def impl_to_int_def s_wrap_id)

lemma valid_int [simp]: "RpcValue_isValid (rpc (VInt c))"
  by (simp add: type_test_defs)

lemma RpcError_make_fields:
  assumes "in_s 32 code"
  shows "RpcError_code (RpcError_make msg code data) = Inr code"
    and "RpcError_message (RpcError_make msg code data) = msg"
    and "RpcError_data (RpcError_make msg code data) = (if RpcValue_isValid data then data else invalid_value)"
    and "RpcValue_isIMap (RpcError_make msg code data)"
  using assms
  by (simp_all add: RpcError_make_def RpcError_setData_def RpcError_setCode_def RpcError_setMessage_def
      RpcError_code_def RpcError_message_def RpcError_data_def RpcError_value_setValue toInt_int as_defs)

lemma RpcError_json_fields:
  assumes "RpcError_toJson e = Inr js"
  shows "\<exists>e'. RpcError_fromJson js = Inr e' \<and> RpcError_code e' = RpcError_code e \<and>
    RpcError_message e' = RpcError_message e \<and> RpcError_data e' = RpcError_data e"
proof -
  obtain c where c: "RpcError_code e = Inr c" and js: "js = map_emplace ''data'' (RpcError_data e)
        (map_emplace ''message'' (rpc (VString (RpcError_message e))) (map_emplace ''code'' (rpc (VInt c)) []))"
    using assms by (auto simp: RpcError_toJson_def map_sum_Inr)
  have r: "in_s 32 c" using c by (auto simp: RpcError_code_def dest: RpcValue_toInt_range)
  have v: "RpcMap_value js ''code'' invalid_value = rpc (VInt c)"
    "RpcMap_value js ''message'' invalid_value = rpc (VString (RpcError_message e))"
    "RpcMap_value js ''data'' invalid_value = RpcError_data e"
    by (simp_all add: js RpcMap_value_def std_map_simps map_emplace_def)
  show ?thesis
    using r c by (auto simp: RpcError_fromJson_def v toInt_int RpcError_fromRpcValue_def type_test_defs as_defs
        RpcError_code_def RpcError_message_def RpcError_data_def RpcError_value_def RpcIMap_value_def std_map_simps map_emplace_def)
qed

lemma response_error_set:
  assumes "message_wf m" "in_s 32 code"
  shows "RpcResponse_error (RpcResponse_setError (RpcError_make msg code data) m) = RpcError_make msg code data"
    and "RpcResponse_isError (RpcResponse_setError (RpcError_make msg code data) m) = Inr (code \<noteq> 0)"
proof -
  have "RpcValue_isValid (RpcError_make msg code data)"
    by (cases "rv_var (RpcError_make msg code data)")
       (use RpcError_make_fields(4) [OF assms(2), of msg data] in \<open>auto simp: type_test_defs\<close>)
  then show e: "RpcResponse_error (RpcResponse_setError (RpcError_make msg code data) m) = RpcError_make msg code data"
    using RpcError_make_fields(4) [OF assms(2)]
    by (simp add: RpcResponse_error_def RpcResponse_setError_def message_value_setValue [OF assms(1)]
        RpcError_toRpcValue_def RpcError_fromRpcValue_def)
  show "RpcResponse_isError (RpcResponse_setError (RpcError_make msg code data) m) = Inr (code \<noteq> 0)"
    using RpcError_make_fields(1) [OF assms(2)] by (simp add: RpcResponse_isError_def e RpcError_isValid_def)
qed

lemma response_result_set:
  assumes "message_wf m" "RpcValue_isValid res"
  shows "RpcResponse_result (RpcResponse_setResult res m) = res"
    and "RpcResponse_error (RpcResponse_setResult res m) = RpcResponse_error m"
    and "RpcResponse_isSuccess (RpcResponse_setResult res m) = map_sum id Not (RpcResponse_isError m)"
  using assms
  by (simp_all add: RpcResponse_result_def RpcResponse_setResult_def message_value_setValue
      RpcResponse_error_def RpcResponse_isSuccess_def RpcResponse_isError_def)

section \<open>Access grants in meta data\<close>

text \<open>The level is stored in its own field and in front of the text form.\<close>

lemma accessGrant_read_back:
  assumes "in_s 32 (ag_level g)"
  shows "RpcMessage_accessGrant_m (RpcMessage_setAccessGrant_m g md) =
    Inr (AccessGrant_fromShv2Access (AccessGrant_toShv2Access g) (ag_level g))"
proof -
  have "RpcMessage_accessLevel_m (RpcMessage_setAccessGrant_m g md) = Inr (ag_level g)"
    unfolding RpcMessage_setAccessGrant_m_def
    using accessLevel_field.get_other [of Tag_Access] accessLevel_field.get_put [OF assms]
    by (simp add: RpcMessage_setAccess_m_def)
  then show ?thesis
    by (simp add: RpcMessage_accessGrant_m_def RpcMessage_setAccessGrant_m_def access_field.get_put)
qed

lemma named_level_range: "named_level l \<Longrightarrow> in_s 32 l"
  using level_name_roundtrip [of l] level_name_range [of "accessLevelToAccessString l" l] by (auto simp: in_s_def)

lemma accessGrant_roundtrip_aux:
  "named_level (ag_level g) \<Longrightarrow> access_wf (ag_access g) \<Longrightarrow>
    RpcMessage_accessGrant_m (RpcMessage_setAccessGrant_m g md) = Inr g"
  by (simp add: accessGrant_read_back named_level_range shv2_roundtrip_aux)

text \<open>A level without a name loses the access string on the way.\<close>

lemma accessGrant_unnamed:
  assumes "in_s 32 (ag_level g)" "\<not> named_level (ag_level g)"
  shows "\<exists>g'. RpcMessage_accessGrant_m (RpcMessage_setAccessGrant_m g md) = Inr g' \<and> ag_access g' = []"
  using assms
  by (auto simp: accessGrant_read_back fromShv2Access_spec AccessGrant_toShv2Access_def named_level_def
      access_piece_def Let_def split: if_splits)

end
