(* ===== verification/Rpc_Connection.thy ===== *)
theory Rpc_Connection
  imports Rpc_Exchange
begin

text \<open>
  \<open>IRpcConnection\<close> (\<open>irpcconnection.h\<close>, \<open>irpcconnection.cpp\<close>): the calls every connection offers.
  \<open>sendRpcMessage\<close> is left to the concrete connection; here it appends to what was handed to it
  (\<open>cn_sent\<close>).  The counter of request ids is a static \<open>int\<close> of the process; the model leaves
  the range of \<open>int\<close> where the program's behaviour is undefined.
\<close>

datatype shv_api_version = V2 | V3

record rpc_connection =
  cn_requestId :: int
  cn_apiVersion :: shv_api_version
  cn_sent :: "rpc_message list"

definition IRpcConnection_sendRpcMessage :: "rpc_message \<Rightarrow> rpc_connection \<Rightarrow> rpc_connection" where
  "IRpcConnection_sendRpcMessage msg c = c\<lparr>cn_sent := cn_sent c @ [msg]\<rparr>"

definition IRpcConnection_nextRequestId :: "rpc_connection \<Rightarrow> int \<times> rpc_connection" where
  "IRpcConnection_nextRequestId c = (cn_requestId c + 1, c\<lparr>cn_requestId := cn_requestId c + 1\<rparr>)"

definition IRpcConnection_sendShvSignal :: "string \<Rightarrow> string \<Rightarrow> rpc_value \<Rightarrow> rpc_connection \<Rightarrow> rpc_connection" where
  "IRpcConnection_sendShvSignal shv_path method params c =
     (let rq = RpcMessage_empty;
          rq = (if shv_path \<noteq> [] then RpcMessage_setShvPath shv_path rq else rq)
      in IRpcConnection_sendRpcMessage (RpcRequest_setParams params (RpcRequest_setMethod method rq)) c)"

definition IRpcConnection_sendSignal :: "string \<Rightarrow> rpc_value \<Rightarrow> rpc_connection \<Rightarrow> rpc_connection" where
  "IRpcConnection_sendSignal method params c = IRpcConnection_sendShvSignal [] method params c"

definition IRpcConnection_sendResponse :: "rpc_value \<Rightarrow> rpc_value \<Rightarrow> rpc_connection \<Rightarrow> rpc_connection" where
  "IRpcConnection_sendResponse request_id result c =
     IRpcConnection_sendRpcMessage
       (RpcResponse_setResult result (RpcResponse_setRequestId request_id RpcMessage_empty)) c"

definition IRpcConnection_sendError :: "rpc_value \<Rightarrow> rpc_error \<Rightarrow> rpc_connection \<Rightarrow> rpc_connection" where
  "IRpcConnection_sendError request_id error c =
     IRpcConnection_sendRpcMessage
       (RpcResponse_setError error (RpcResponse_setRequestId request_id RpcMessage_empty)) c"

text \<open>The request with the new id is built (\<open>rq'\<close>), and the one without it is sent.\<close>

definition IRpcConnection_callMethod :: "rpc_message \<Rightarrow> rpc_connection \<Rightarrow> exn + int \<times> rpc_connection" where
  "IRpcConnection_callMethod rq c =
     map_sum id (\<lambda>i.
       let (i, rq', c) = (if i = 0
             then (let (n, c') = IRpcConnection_nextRequestId c in (n, RpcRequest_setRequestId n rq, c'))
             else (i, rq, c))
       in (i, IRpcConnection_sendRpcMessage rq c)) (RpcValue_toInt (RpcMessage_requestId rq))"

definition shv_request :: "int \<Rightarrow> string \<Rightarrow> string \<Rightarrow> rpc_value \<Rightarrow> rpc_value \<Rightarrow> rpc_map \<Rightarrow> rpc_message" where
  "shv_request rq_id shv_path method params user_id extra_meta_data =
     (let rq = RpcRequest_setMethod method (RpcRequest_setRequestId rq_id RpcMessage_empty);
          rq = (if RpcValue_isValid params then RpcRequest_setParams params rq else rq);
          rq = (if RpcValue_isValid user_id then RpcMessage_setUserId user_id rq else rq);
          rq = (if shv_path \<noteq> [] then RpcMessage_setShvPath shv_path rq else rq)
      in foldl (\<lambda>rq (key, val). RpcMessage_setMetaValue_s key val rq) rq extra_meta_data)"

definition IRpcConnection_callShvMethod_id ::
  "int \<Rightarrow> string \<Rightarrow> string \<Rightarrow> rpc_value \<Rightarrow> rpc_value \<Rightarrow> rpc_map \<Rightarrow> rpc_connection \<Rightarrow> int \<times> rpc_connection" where
  "IRpcConnection_callShvMethod_id rq_id shv_path method params user_id extra_meta_data c =
     (rq_id, IRpcConnection_sendRpcMessage (shv_request rq_id shv_path method params user_id extra_meta_data) c)"

definition IRpcConnection_callShvMethod ::
  "string \<Rightarrow> string \<Rightarrow> rpc_value \<Rightarrow> rpc_value \<Rightarrow> rpc_connection \<Rightarrow> int \<times> rpc_connection" where
  "IRpcConnection_callShvMethod shv_path method params user_id c =
     (let (i, c) = IRpcConnection_nextRequestId c
      in IRpcConnection_callShvMethod_id i shv_path method params user_id [] c)"

abbreviation DIR_BROKER_APP :: string where "DIR_BROKER_APP \<equiv> ''.broker/app''"
abbreviation DIR_BROKER_CURRENTCLIENT :: string where "DIR_BROKER_CURRENTCLIENT \<equiv> ''.broker/currentClient''"
abbreviation METH_SUBSCRIBE :: string where "METH_SUBSCRIBE \<equiv> ''subscribe''"
abbreviation METH_UNSUBSCRIBE :: string where "METH_UNSUBSCRIBE \<equiv> ''unsubscribe''"

definition resource_id :: "string \<Rightarrow> string \<Rightarrow> string \<Rightarrow> string" where
  "resource_id shv_path method source =
     shv_path @ ''/**'' @ '':'' @ (if source = [] then ''*'' else source) @ '':'' @ (if method = [] then ''*'' else method)"

definition subscribe_map :: "string \<Rightarrow> string \<Rightarrow> string \<Rightarrow> rpc_value" where
  "subscribe_map shv_path method source =
     rpc (VMap (map_emplace ''source'' (rpc (VString source))
       (map_emplace ''method'' (rpc (VString method)) (map_emplace ''path'' (rpc (VString shv_path)) []))))"

definition IRpcConnection_makeSubscribeParams ::
  "shv_api_version \<Rightarrow> string \<Rightarrow> string \<Rightarrow> string \<Rightarrow> string \<times> rpc_value" where
  "IRpcConnection_makeSubscribeParams api_ver shv_path method source =
     (case api_ver of
        V3 \<Rightarrow> (DIR_BROKER_CURRENTCLIENT,
               rpc (VList [rpc (VString (resource_id shv_path method source)), rpc VNull]))
      | V2 \<Rightarrow> (DIR_BROKER_APP, subscribe_map shv_path method source))"

definition IRpcConnection_callMethodSubscribeGlob :: "string \<Rightarrow> rpc_connection \<Rightarrow> int \<times> rpc_connection" where
  "IRpcConnection_callMethodSubscribeGlob glob c =
     (let (rq_id, c) = IRpcConnection_nextRequestId c
      in case cn_apiVersion c of
           V3 \<Rightarrow> IRpcConnection_callShvMethod_id rq_id DIR_BROKER_CURRENTCLIENT METH_SUBSCRIBE
                   (rpc (VList [rpc (VString glob), rpc VNull])) invalid_value [] c
         | V2 \<Rightarrow> (0, c))"

definition IRpcConnection_callMethodSubscribe_id ::
  "int \<Rightarrow> string \<Rightarrow> string \<Rightarrow> string \<Rightarrow> rpc_connection \<Rightarrow> int \<times> rpc_connection" where
  "IRpcConnection_callMethodSubscribe_id rq_id shv_path method source c =
     (let (subscribe_path, params) = IRpcConnection_makeSubscribeParams (cn_apiVersion c) shv_path method source
      in IRpcConnection_callShvMethod_id rq_id subscribe_path METH_SUBSCRIBE params invalid_value [] c)"

definition IRpcConnection_callMethodSubscribe ::
  "string \<Rightarrow> string \<Rightarrow> string \<Rightarrow> rpc_connection \<Rightarrow> int \<times> rpc_connection" where
  "IRpcConnection_callMethodSubscribe shv_path method source c =
     (let (rq_id, c) = IRpcConnection_nextRequestId c
      in IRpcConnection_callMethodSubscribe_id rq_id shv_path method source c)"

definition IRpcConnection_callMethodUnsubscribe_id ::
  "int \<Rightarrow> string \<Rightarrow> string \<Rightarrow> string \<Rightarrow> rpc_connection \<Rightarrow> int \<times> rpc_connection" where
  "IRpcConnection_callMethodUnsubscribe_id rq_id shv_path method source c =
     (case cn_apiVersion c of
        V3 \<Rightarrow> IRpcConnection_callShvMethod_id rq_id DIR_BROKER_CURRENTCLIENT METH_UNSUBSCRIBE
                (rpc (VString (resource_id shv_path method source))) invalid_value [] c
      | V2 \<Rightarrow> IRpcConnection_callShvMethod_id rq_id DIR_BROKER_APP METH_UNSUBSCRIBE
                (subscribe_map shv_path method source) invalid_value [] c)"

definition IRpcConnection_callMethodUnsubscribe ::
  "string \<Rightarrow> string \<Rightarrow> string \<Rightarrow> rpc_connection \<Rightarrow> int \<times> rpc_connection" where
  "IRpcConnection_callMethodUnsubscribe shv_path method source c =
     (let (rq_id, c) = IRpcConnection_nextRequestId c
      in IRpcConnection_callMethodUnsubscribe_id rq_id shv_path method source c)"

section \<open>What a call puts on the wire\<close>

lemma metaValue_meta_i: "RpcMessage_metaValue_i m k = RpcMetaData_value_i (RpcMessage_metaData m) k invalid_value"
  by (simp add: RpcMessage_metaValue_i_def RpcValue_metaValue_i_def RpcMessage_metaData_def)

lemma requestId_meta: "RpcMessage_requestId m =
  (if RpcValue_isValid m then RpcMessage_metaValue_i m Tag_RequestId else invalid_value)"
  by (simp add: RpcMessage_requestId_def RpcMessage_requestId_m_def metaValue_meta_i RpcMessage_isValid_def)

lemma setMetaValue_s_facts:
  "RpcMessage_metaValue_i (RpcMessage_setMetaValue_s s v m) k = RpcMessage_metaValue_i (RpcMessage_checkMetaValues m) k"
  "RpcValue_isValid (RpcMessage_setMetaValue_s s v m)"
  "rv_var (RpcMessage_setMetaValue_s s v m) = rv_var (RpcMessage_checkMetaValues m)"
  by (auto simp: RpcMessage_setMetaValue_s_def Let_def RpcMessage_metaValue_i_def RpcValue_metaValue_i_def
      RpcValue_metaData_def RpcMetaData_value_setValue RpcMessage_checkMetaValues_def type_test_defs)

lemma check_valid: "RpcValue_isValid m \<Longrightarrow> RpcMessage_checkMetaValues m = m"
  by (simp add: RpcMessage_checkMetaValues_def)

lemma fold_extra_meta:
  fixes kvs :: rpc_map
  assumes "RpcValue_isValid m"
  defines "m' \<equiv> foldl (\<lambda>rq (key, val). RpcMessage_setMetaValue_s key val rq) m kvs"
  shows "RpcValue_isValid m' \<and> rv_var m' = rv_var m \<and> (\<forall>k. RpcMessage_metaValue_i m' k = RpcMessage_metaValue_i m k)"
  using assms(1) unfolding m'_def
proof (induction kvs arbitrary: m)
  case (Cons kv kvs)
  then show ?case
    using Cons.IH [of "RpcMessage_setMetaValue_s (fst kv) (snd kv) m"]
    by (auto simp: setMetaValue_s_facts check_valid case_prod_unfold)
qed simp

lemma isValid_setParams: "message_wf m \<Longrightarrow> RpcValue_isValid (RpcMessage_setValue k v m)"
  using checkMetaValues_wf [of m]
  by (auto simp: RpcMessage_setValue_def RpcValue_set_i_def isIMap_iff type_test_defs)

lemma metaValue_setValue:
  "RpcMessage_metaValue_i (RpcMessage_setValue k v m) k' = RpcMessage_metaValue_i (RpcMessage_checkMetaValues m) k'"
  by (simp add: metaValue_meta_i metaData_setValue)

lemma value_var: "rv_var m = rv_var m' \<Longrightarrow> RpcMessage_value m k = RpcMessage_value m' k"
  by (simp add: RpcMessage_value_def RpcValue_at_i_def)

lemma shv_request_fields:
  fixes path meth :: string and extra :: rpc_map
  assumes "in_s 32 i" "rpc_wf params" "rpc_wf user_id"
  defines "rq \<equiv> shv_request i path meth params user_id extra"
  shows "RpcMessage_requestId rq = rpc (VInt i)"
    and "RpcMessage_method rq = rpc (VString meth)"
    and "RpcMessage_shvPath rq = (if path = [] then invalid_value else rpc (VString path))"
    and "RpcMessage_userId rq = (if RpcValue_isValid user_id then user_id else invalid_value)"
    and "RpcRequest_params rq = (if RpcValue_isValid params then params else invalid_value)"
proof -
  define r1 where "r1 = RpcRequest_setMethod meth (RpcRequest_setRequestId i RpcMessage_empty)"
  define r2 where "r2 = (if RpcValue_isValid params then RpcRequest_setParams params r1 else r1)"
  define r3 where "r3 = (if RpcValue_isValid user_id then RpcMessage_setUserId user_id r2 else r2)"
  define r4 where "r4 = (if path \<noteq> [] then RpcMessage_setShvPath path r3 else r3)"
  have i64: "in_s 64 i" using assms(1) in_s_mono by fastforce
  note set_defs = RpcRequest_setMethod_def RpcRequest_setRequestId_def RpcMessage_setRequestId_def RpcRequest_setParams_def
    RpcMessage_setUserId_def RpcMessage_setShvPath_def
  have w1: "message_wf r1" using i64 by (auto simp: r1_def set_defs in_s_def intro!: message_setters_wf(1))
  have w2: "message_wf r2" using w1 assms(2) by (auto simp: r2_def set_defs in_s_def intro!: message_setters_wf(3))
  have w3: "message_wf r3" using w2 assms(3) by (auto simp: r3_def set_defs in_s_def intro!: message_setters_wf(1))
  have v1: "RpcValue_isValid r1" by (simp add: r1_def set_defs isValid_setMetaValue)
  have v2: "RpcValue_isValid r2" using v1 w1 by (simp add: r2_def set_defs isValid_setParams)
  have v3: "RpcValue_isValid r3" using v2 by (simp add: r3_def set_defs isValid_setMetaValue)
  have v4: "RpcValue_isValid r4" using v3 by (simp add: r4_def set_defs isValid_setMetaValue)
  have m1: "RpcMessage_metaValue_i r1 Tag_RequestId = rpc (VInt i)" "RpcMessage_metaValue_i r1 Tag_Method = rpc (VString meth)"
    "RpcMessage_metaValue_i r1 Tag_ShvPath = invalid_value" "RpcMessage_metaValue_i r1 Tag_UserId = invalid_value"
    by (simp_all add: r1_def set_defs metaValue_setMetaValue isValid_setMetaValue)
  have m2: "RpcMessage_metaValue_i r2 k = RpcMessage_metaValue_i r1 k" for k
    using v1 by (simp add: r2_def set_defs metaValue_setValue check_valid)
  have m3: "RpcMessage_metaValue_i r4 k = (if path \<noteq> [] \<and> k = Tag_ShvPath then rpc (VString path)
      else if RpcValue_isValid user_id \<and> k = Tag_UserId then user_id else RpcMessage_metaValue_i r1 k)" if "k \<noteq> 1" for k
    using v2 v3 that by (simp add: r4_def r3_def set_defs metaValue_setMetaValue isValid_setMetaValue m2)
  have rq: "rq = foldl (\<lambda>rq (key, val). RpcMessage_setMetaValue_s key val rq) r4 extra"
    by (simp add: rq_def shv_request_def Let_def r1_def r2_def r3_def r4_def)
  have f: "RpcValue_isValid rq" "rv_var rq = rv_var r4" "RpcMessage_metaValue_i rq k = RpcMessage_metaValue_i r4 k" for k
    using fold_extra_meta [OF v4, where kvs = extra] by (simp_all add: rq)
  show "RpcMessage_requestId rq = rpc (VInt i)" by (simp add: requestId_meta f m3 m1)
  show "RpcMessage_method rq = rpc (VString meth)" by (simp add: RpcMessage_method_def f m3 m1)
  show "RpcMessage_shvPath rq = (if path = [] then invalid_value else rpc (VString path))"
    by (simp add: RpcMessage_shvPath_def f m3 m1)
  show "RpcMessage_userId rq = (if RpcValue_isValid user_id then user_id else invalid_value)"
    by (simp add: RpcMessage_userId_def f m3 m1)
  have p: "RpcMessage_value rq k = RpcMessage_value r2 k" for k
    using w2 w3 value_var [OF f(2)] by (simp add: r4_def r3_def set_defs message_value_setMeta)
  have "RpcMessage_value r1 Key_Params = invalid_value"
    by (simp add: r1_def set_defs RpcMessage_setMetaValue_i_def Let_def RpcMessage_checkMetaValues_def RpcMessage_empty_def
        type_test_defs RpcMessage_value_def RpcValue_at_i_def)
  then show "RpcRequest_params rq = (if RpcValue_isValid params then params else invalid_value)"
    unfolding RpcRequest_params_def p using w1 by (simp add: r2_def set_defs message_value_setValue)
qed

text \<open>A call with a fresh id: the counter moves on, and the id returned is the one in the request.\<close>

lemma callShvMethod_sends:
  assumes "IRpcConnection_callShvMethod path method params user_id c = (i, c')"
  shows "i = cn_requestId c + 1" "cn_requestId c' = i"
    "cn_sent c' = cn_sent c @ [shv_request i path method params user_id []]"
  using assms
  by (auto simp: IRpcConnection_callShvMethod_def IRpcConnection_nextRequestId_def IRpcConnection_callShvMethod_id_def
      IRpcConnection_sendRpcMessage_def)

lemma callMethod_drops_id:
  assumes "RpcMessage_requestId rq = invalid_value" "IRpcConnection_callMethod rq c = Inr (i, c')"
  shows "i = cn_requestId c + 1" "cn_sent c' = cn_sent c @ [rq]"
  using assms by (auto simp: IRpcConnection_callMethod_def RpcValue_toInt_def impl_to_int_def s_wrap_def
      IRpcConnection_nextRequestId_def IRpcConnection_sendRpcMessage_def)

end
