(* ===== verification/Data_Change.thy ===== *)
theory Data_Change
  imports Rpc_Exchange
begin

text \<open>
  \<open>DataChange\<close> (\<open>datachange.h\<close>, \<open>datachange.cpp\<close>): a value with the time of its change and flags,
  packed into one \<open>RpcValue\<close> whose meta data carries time and flags.  A value with meta data of its
  own is wrapped into a list of one element; a list of that shape is marked, so that it is not
  taken for a wrapped value.
\<close>

abbreviation DataChange_MetaType_ID :: int where "DataChange_MetaType_ID \<equiv> 5"
abbreviation GlobalNS_ID :: int where "GlobalNS_ID \<equiv> 0"
abbreviation DC_Tag_DateTime :: int where "DC_Tag_DateTime \<equiv> 8"
abbreviation DC_Tag_ShortTime :: int where "DC_Tag_ShortTime \<equiv> 9"
abbreviation DC_Tag_ValueFlags :: int where "DC_Tag_ValueFlags \<equiv> 10"
abbreviation DC_Tag_SpecialListValue :: int where "DC_Tag_SpecialListValue \<equiv> 11"
abbreviation NO_SHORT_TIME :: int where "NO_SHORT_TIME \<equiv> -1"

datatype value_flag = Snapshot | Spontaneous | Provisional | ValueFlagCount

primrec flag_pos :: "value_flag \<Rightarrow> nat" where
  "flag_pos Snapshot = 0"
| "flag_pos Spontaneous = 1"
| "flag_pos Provisional = 2"
| "flag_pos ValueFlagCount = 3"

record data_change =
  dc_value :: rpc_value
  dc_dateTime :: date_time
  dc_shortTime :: int
  dc_valueFlags :: u32

definition DataChange_default :: data_change where
  "DataChange_default =
     \<lparr>dc_value = invalid_value, dc_dateTime = RpcDateTime_default, dc_shortTime = NO_SHORT_TIME, dc_valueFlags = 0\<rparr>"

primrec DataChange_valueFlagToString :: "value_flag \<Rightarrow> string" where
  "DataChange_valueFlagToString Snapshot = ''Snapshot''"
| "DataChange_valueFlagToString Spontaneous = ''Spontaneous''"
| "DataChange_valueFlagToString Provisional = ''Provisional''"
| "DataChange_valueFlagToString ValueFlagCount = ''ValueFlagCount''"

definition DataChange_testBit :: "u32 \<Rightarrow> nat \<Rightarrow> bool" where
  "DataChange_testBit n pos \<longleftrightarrow> n AND push_bit pos 1 \<noteq> 0"

definition DataChange_setBit :: "u32 \<Rightarrow> nat \<Rightarrow> bool \<Rightarrow> u32" where
  "DataChange_setBit n pos b =
     (let mask = push_bit pos 1; n' = n AND NOT mask in if b then n' OR mask else n')"

definition DataChange_valueFlagsToString :: "u32 \<Rightarrow> string" where
  "DataChange_valueFlagsToString st =
     foldl (\<lambda>ret flag. if st AND push_bit (flag_pos flag) 1 \<noteq> 0
         then (if ret = [] then [] else ret @ '','') @ DataChange_valueFlagToString flag else ret)
       [] [Snapshot, Spontaneous, Provisional]"

definition DataChange_isDataChange :: "rpc_value \<Rightarrow> exn + bool" where
  "DataChange_isDataChange rv =
     bind_e (RpcValue_metaTypeId rv) (\<lambda>i.
       if i = DataChange_MetaType_ID then map_sum id (\<lambda>ns. ns = GlobalNS_ID) (RpcValue_metaTypeNameSpaceId rv)
       else Inr False)"

definition DataChange_isValid :: "data_change \<Rightarrow> bool" where
  "DataChange_isValid dc = RpcValue_isValid (dc_value dc)"

text \<open>The warning about a nested change is only logged, but looking at the value may throw.\<close>

definition DataChange_setValue :: "rpc_value \<Rightarrow> data_change \<Rightarrow> exn + data_change" where
  "DataChange_setValue val dc = map_sum id (\<lambda>_. dc\<lparr>dc_value := val\<rparr>) (DataChange_isDataChange val)"

definition DataChange_make :: "rpc_value \<Rightarrow> date_time \<Rightarrow> int \<Rightarrow> exn + data_change" where
  "DataChange_make val date_time short_time =
     DataChange_setValue val (DataChange_default\<lparr>dc_dateTime := date_time, dc_shortTime := short_time\<rparr>)"

definition DataChange_make_short :: "rpc_value \<Rightarrow> u32 \<Rightarrow> exn + data_change" where
  "DataChange_make_short val short_time =
     DataChange_setValue val (DataChange_default\<lparr>dc_shortTime := s_wrap 32 (uint short_time)\<rparr>)"

definition DataChange_hasDateTime :: "data_change \<Rightarrow> bool" where
  "DataChange_hasDateTime dc \<longleftrightarrow> RpcDateTime_msecsSinceEpoch (dc_dateTime dc) > 0"

definition DataChange_dateTime :: "data_change \<Rightarrow> rpc_value" where
  "DataChange_dateTime dc = (if DataChange_hasDateTime dc then rpc (VDateTime (dc_dateTime dc)) else invalid_value)"

definition DataChange_setDateTime :: "rpc_value \<Rightarrow> data_change \<Rightarrow> data_change" where
  "DataChange_setDateTime dt dc =
     dc\<lparr>dc_dateTime := if RpcValue_isDateTime dt then RpcValue_toDateTime dt else RpcDateTime_default\<rparr>"

definition DataChange_epochMSec :: "data_change \<Rightarrow> int" where
  "DataChange_epochMSec dc = RpcDateTime_msecsSinceEpoch (dc_dateTime dc)"

definition DataChange_hasShortTime :: "data_change \<Rightarrow> bool" where
  "DataChange_hasShortTime dc \<longleftrightarrow> dc_shortTime dc > NO_SHORT_TIME"

definition short_time_value :: "data_change \<Rightarrow> rpc_value" where
  "short_time_value dc = rpc (VUInt (ucast (word_of_int (dc_shortTime dc) :: u32)))"

definition DataChange_shortTime :: "data_change \<Rightarrow> rpc_value" where
  "DataChange_shortTime dc = (if DataChange_hasShortTime dc then short_time_value dc else invalid_value)"

definition DataChange_setShortTime :: "rpc_value \<Rightarrow> data_change \<Rightarrow> exn + data_change" where
  "DataChange_setShortTime st dc =
     map_sum id (\<lambda>i. dc\<lparr>dc_shortTime := if RpcValue_isUInt st \<or> (RpcValue_isInt st \<and> i \<ge> 0) then i else NO_SHORT_TIME\<rparr>)
       (if RpcValue_isUInt st \<or> RpcValue_isInt st then RpcValue_toInt st else Inr 0)"

definition DataChange_hasValueflags :: "data_change \<Rightarrow> bool" where
  "DataChange_hasValueflags dc \<longleftrightarrow> dc_valueFlags dc \<noteq> 0"

definition DataChange_setValueFlags :: "u32 \<Rightarrow> data_change \<Rightarrow> data_change" where
  "DataChange_setValueFlags st dc = dc\<lparr>dc_valueFlags := st\<rparr>"

definition DataChange_isProvisional :: "data_change \<Rightarrow> bool" where
  "DataChange_isProvisional dc = DataChange_testBit (dc_valueFlags dc) (flag_pos Provisional)"

definition DataChange_setProvisional :: "bool \<Rightarrow> data_change \<Rightarrow> data_change" where
  "DataChange_setProvisional b dc = dc\<lparr>dc_valueFlags := DataChange_setBit (dc_valueFlags dc) (flag_pos Provisional) b\<rparr>"

definition DataChange_isSpontaneous :: "data_change \<Rightarrow> bool" where
  "DataChange_isSpontaneous dc = DataChange_testBit (dc_valueFlags dc) (flag_pos Spontaneous)"

definition DataChange_setSpontaneous :: "bool \<Rightarrow> data_change \<Rightarrow> data_change" where
  "DataChange_setSpontaneous b dc = dc\<lparr>dc_valueFlags := DataChange_setBit (dc_valueFlags dc) (flag_pos Spontaneous) b\<rparr>"

definition DataChange_isSnapshotValue :: "data_change \<Rightarrow> bool" where
  "DataChange_isSnapshotValue dc = DataChange_testBit (dc_valueFlags dc) (flag_pos Snapshot)"

definition DataChange_setIsSnaptshotValue :: "bool \<Rightarrow> data_change \<Rightarrow> data_change" where
  "DataChange_setIsSnaptshotValue b dc = dc\<lparr>dc_valueFlags := DataChange_setBit (dc_valueFlags dc) (flag_pos Snapshot) b\<rparr>"

text \<open>Whether the value is one that \<open>toRpcValue\<close> wrapped.\<close>

definition wrapped_value :: "rpc_value \<Rightarrow> rpc_value option" where
  "wrapped_value val =
     (if RpcValue_isList val \<and> length (RpcValue_asList val) = 1
      then (let wrapped_val = RpcList_value (RpcValue_asList val) 0
            in if \<not> RpcMetaData_isEmpty (RpcValue_metaData wrapped_val) \<and>
                  \<not> RpcValue_isValid (RpcValue_metaValue_i val DC_Tag_SpecialListValue invalid_value)
               then Some wrapped_val else None)
      else None)"

definition DataChange_fromRpcValue :: "rpc_value \<Rightarrow> exn + data_change" where
  "DataChange_fromRpcValue val =
     bind_e (DataChange_isDataChange val) (\<lambda>b.
       if b then
         bind_e (DataChange_setValue
                   (case wrapped_value val of Some w \<Rightarrow> w | None \<Rightarrow> snd (RpcValue_takeMeta val)) DataChange_default) (\<lambda>ret.
         bind_e (DataChange_setShortTime (RpcValue_metaValue_i val DC_Tag_ShortTime invalid_value)
                   (DataChange_setDateTime (RpcValue_metaValue_i val DC_Tag_DateTime invalid_value) ret)) (\<lambda>ret.
         map_sum id (\<lambda>st. DataChange_setValueFlags (word_of_int st) ret)
           (RpcValue_toInt (RpcValue_metaValue_i val DC_Tag_ValueFlags invalid_value))))
       else DataChange_make val RpcDateTime_default NO_SHORT_TIME)"

definition DataChange_toRpcValue :: "data_change \<Rightarrow> exn + rpc_value" where
  "DataChange_toRpcValue dc =
     (let v = dc_value dc in
      bind_e (if RpcValue_isValid v then
                (if RpcMetaData_isEmpty (RpcValue_metaData v) then
                   (let lst = RpcValue_asList v
                    in if length lst = 1 \<and> \<not> RpcMetaData_isEmpty (RpcValue_metaData (lst ! 0))
                       then RpcValue_setMetaValue_i DC_Tag_SpecialListValue (rpc (VBool True)) v
                       else Inr v)
                 else Inr (rpc (VList [v])))
              else Inr (rpc VNull)) (\<lambda>ret.
      bind_e (RpcValue_setMetaValue_i Tag_MetaTypeId (rpc (VInt DataChange_MetaType_ID)) ret) (\<lambda>ret.
      bind_e (if DataChange_hasDateTime dc
              then RpcValue_setMetaValue_i DC_Tag_DateTime (rpc (VDateTime (dc_dateTime dc))) ret else Inr ret) (\<lambda>ret.
      bind_e (if DataChange_hasShortTime dc
              then RpcValue_setMetaValue_i DC_Tag_ShortTime (short_time_value dc) ret else Inr ret) (\<lambda>ret.
      if dc_valueFlags dc \<noteq> 0
      then RpcValue_setMetaValue_i DC_Tag_ValueFlags (rpc (VInt (s_wrap 32 (uint (dc_valueFlags dc))))) ret
      else Inr ret)))))"

section \<open>Flags\<close>

lemma testBit_iff: "DataChange_testBit n pos = bit n pos"
  by (simp add: DataChange_testBit_def push_bit_eq_mult and_exp_eq_0_iff_not_bit)

lemma testBit_setBit:
  assumes "i < 32" "j < 32"
  shows "DataChange_testBit (DataChange_setBit n i b) j = (if i = j then b else DataChange_testBit n j)"
  using assms by (auto simp: testBit_iff DataChange_setBit_def Let_def bit_simps)

lemma flag_setters:
  "DataChange_isProvisional (DataChange_setProvisional b dc) = b"
  "DataChange_isSpontaneous (DataChange_setProvisional b dc) = DataChange_isSpontaneous dc"
  "DataChange_isSnapshotValue (DataChange_setProvisional b dc) = DataChange_isSnapshotValue dc"
  "DataChange_isSpontaneous (DataChange_setSpontaneous b dc) = b"
  "DataChange_isProvisional (DataChange_setSpontaneous b dc) = DataChange_isProvisional dc"
  "DataChange_isSnapshotValue (DataChange_setSpontaneous b dc) = DataChange_isSnapshotValue dc"
  "DataChange_isSnapshotValue (DataChange_setIsSnaptshotValue b dc) = b"
  "DataChange_isProvisional (DataChange_setIsSnaptshotValue b dc) = DataChange_isProvisional dc"
  "DataChange_isSpontaneous (DataChange_setIsSnaptshotValue b dc) = DataChange_isSpontaneous dc"
  by (simp_all add: DataChange_isProvisional_def DataChange_setProvisional_def DataChange_isSpontaneous_def
      DataChange_setSpontaneous_def DataChange_isSnapshotValue_def DataChange_setIsSnaptshotValue_def testBit_setBit)

section \<open>Packing and unpacking\<close>

text \<open>
  What comes back: empty meta data of the value is dropped, an invalid value comes back as
  \<open>Null\<close>, and times that count as not set come back as the default ones.
\<close>

definition dc_norm :: "data_change \<Rightarrow> data_change" where
  "dc_norm dc =
     \<lparr>dc_value = (if RpcValue_isValid (dc_value dc)
         then RpcValue (drop_empty_meta (rv_meta (dc_value dc))) (rv_var (dc_value dc)) else rpc VNull),
      dc_dateTime = (if DataChange_hasDateTime dc then dc_dateTime dc else RpcDateTime_default),
      dc_shortTime = (if DataChange_hasShortTime dc then dc_shortTime dc else NO_SHORT_TIME),
      dc_valueFlags = dc_valueFlags dc\<rparr>"

definition dc_ok :: "data_change \<Rightarrow> bool" where
  "dc_ok dc \<longleftrightarrow> in_s 32 (dc_shortTime dc) \<and> (\<exists>b. DataChange_isDataChange (dc_value dc) = Inr b)"

lemma word32_int_roundtrip: "word_of_int (s_wrap 32 (uint (w :: u32))) = w"
proof -
  have "s_wrap 32 (uint w) = sint w" by (simp add: s_wrap_def sint_uint)
  then show ?thesis by simp
qed

lemma short_time_roundtrip:
  "in_s 32 i \<Longrightarrow> 0 \<le> i \<Longrightarrow> s_wrap 32 (uint (ucast (word_of_int i :: u32) :: u64)) = i"
proof -
  assume i: "in_s 32 i" "0 \<le> i"
  then have "uint (word_of_int i :: u32) = i" by (simp add: unsigned_of_int take_bit_int_eq_self in_s_def)
  then have "uint (ucast (word_of_int i :: u32) :: u64) = i"
    using i by (simp add: unsigned_ucast_eq take_bit_int_eq_self in_s_def)
  then show ?thesis using i by (simp add: s_wrap_id)
qed

text \<open>The meta data that \<open>toRpcValue\<close> puts around a packed value.\<close>

definition dc_tags :: "data_change \<Rightarrow> rpc_meta \<Rightarrow> rpc_meta" where
  "dc_tags dc md =
     (let md = RpcMetaData_setValue_i Tag_MetaTypeId (rpc (VInt DataChange_MetaType_ID)) md;
          md = (if DataChange_hasDateTime dc
                then RpcMetaData_setValue_i DC_Tag_DateTime (rpc (VDateTime (dc_dateTime dc))) md else md);
          md = (if DataChange_hasShortTime dc then RpcMetaData_setValue_i DC_Tag_ShortTime (short_time_value dc) md else md)
      in if dc_valueFlags dc \<noteq> 0
         then RpcMetaData_setValue_i DC_Tag_ValueFlags (rpc (VInt (s_wrap 32 (uint (dc_valueFlags dc))))) md else md)"

definition dc_body :: "data_change \<Rightarrow> rpc_meta \<times> variant" where
  "dc_body dc =
     (let v = dc_value dc; lst = RpcValue_asList v in
      if \<not> RpcValue_isValid v then (meta_empty, VNull)
      else if \<not> RpcMetaData_isEmpty (RpcValue_metaData v) then (meta_empty, VList [v])
      else if length lst = 1 \<and> \<not> RpcMetaData_isEmpty (RpcValue_metaData (lst ! 0))
      then (RpcMetaData_setValue_i DC_Tag_SpecialListValue (rpc (VBool True)) meta_empty, rv_var v)
      else (meta_empty, rv_var v))"

lemma meta_isEmpty_iff: "RpcMetaData_isEmpty md \<longleftrightarrow> md = meta_empty"
  by (cases md) (auto simp: RpcMetaData_isEmpty_def RpcMetaData_size_def meta_empty_def)

lemma value_meta_empty [simp]: "RpcMetaData_value_i meta_empty k d = d"
  by (simp add: RpcMetaData_value_i_def meta_empty_def)

lemma setMetaValue_Inr:
  "RpcValue_isValid v \<Longrightarrow> RpcValue_setMetaValue_i k x v = Inr (RpcValue (Some (RpcMetaData_setValue_i k x (RpcValue_metaData v))) (rv_var v))"
  by (simp add: RpcValue_setMetaValue_i_def type_test_defs)

lemma metaData_RpcValue [simp]: "RpcValue_metaData (RpcValue (Some md) x) = md" "RpcValue_metaData (RpcValue None x) = meta_empty"
  by (simp_all add: RpcValue_metaData_def)

lemma isValid_RpcValue [simp]: "RpcValue_isValid (RpcValue m x) \<longleftrightarrow> x \<noteq> VInvalid"
  by (cases x) (simp_all add: type_test_defs)

lemma toRpcValue_parts:
  "DataChange_toRpcValue dc = Inr (RpcValue (Some (dc_tags dc (fst (dc_body dc)))) (snd (dc_body dc)))"
proof -
  obtain m x where v: "dc_value dc = RpcValue m x" by (cases "dc_value dc")
  show ?thesis
    by (cases x; simp add: DataChange_toRpcValue_def dc_body_def dc_tags_def v Let_def setMetaValue_Inr as_defs meta_isEmpty_iff)
qed

lemma dc_tags_lookup:
  "RpcMetaData_value_i (dc_tags dc md) Tag_MetaTypeId invalid_value = rpc (VInt DataChange_MetaType_ID)"
  "RpcMetaData_value_i (dc_tags dc md) Tag_MetaTypeNameSpaceId invalid_value = RpcMetaData_value_i md Tag_MetaTypeNameSpaceId invalid_value"
  "RpcMetaData_value_i (dc_tags dc md) DC_Tag_SpecialListValue invalid_value = RpcMetaData_value_i md DC_Tag_SpecialListValue invalid_value"
  "RpcMetaData_value_i (dc_tags dc md) DC_Tag_DateTime invalid_value =
    (if DataChange_hasDateTime dc then rpc (VDateTime (dc_dateTime dc)) else RpcMetaData_value_i md DC_Tag_DateTime invalid_value)"
  "RpcMetaData_value_i (dc_tags dc md) DC_Tag_ShortTime invalid_value =
    (if DataChange_hasShortTime dc then short_time_value dc else RpcMetaData_value_i md DC_Tag_ShortTime invalid_value)"
  "RpcMetaData_value_i (dc_tags dc md) DC_Tag_ValueFlags invalid_value =
    (if dc_valueFlags dc \<noteq> 0 then rpc (VInt (s_wrap 32 (uint (dc_valueFlags dc)))) else RpcMetaData_value_i md DC_Tag_ValueFlags invalid_value)"
  by (simp_all add: dc_tags_def Let_def RpcMetaData_value_setValue Tag_MetaTypeId_def Tag_MetaTypeNameSpaceId_def short_time_value_def)

lemma dc_body_lookup:
  "k \<noteq> DC_Tag_SpecialListValue \<Longrightarrow> RpcMetaData_value_i (fst (dc_body dc)) k invalid_value = invalid_value"
  by (auto simp: dc_body_def Let_def RpcMetaData_value_setValue)

lemma dc_body_ns: "RpcMetaData_value_i (fst (dc_body dc)) Tag_MetaTypeNameSpaceId invalid_value = invalid_value"
  by (rule dc_body_lookup) (simp add: Tag_MetaTypeNameSpaceId_def)

lemma toInt_invalid: "RpcValue_toInt invalid_value = Inr 0"
  by (simp add: RpcValue_toInt_def impl_to_int_def s_wrap_def)

lemma packed_isDataChange:
  "DataChange_isDataChange (RpcValue (Some (dc_tags dc (fst (dc_body dc)))) x) = Inr True"
  by (simp add: DataChange_isDataChange_def RpcValue_metaTypeId_def RpcValue_metaTypeNameSpaceId_def
      RpcValue_metaValue_i_def dc_tags_lookup dc_body_ns toInt_int in_s_def toInt_invalid)

lemma packed_value:
  "(case wrapped_value (RpcValue (Some (dc_tags dc (fst (dc_body dc)))) (snd (dc_body dc))) of
      Some w \<Rightarrow> w | None \<Rightarrow> RpcValue None (snd (dc_body dc))) = dc_value (dc_norm dc)"
proof -
  obtain m x where v: "dc_value dc = RpcValue m x" by (cases "dc_value dc")
  show ?thesis
    by (cases x; cases m; auto simp: wrapped_value_def RpcValue_metaValue_i_def dc_tags_lookup dc_body_def Let_def v
        dc_norm_def drop_empty_meta_def as_defs type_test_defs RpcList_value_def RpcMetaData_value_setValue meta_isEmpty_iff)
qed

lemma norm_value_shape: "\<exists>b. DataChange_isDataChange (dc_value dc) = Inr b \<Longrightarrow>
  \<exists>b. DataChange_isDataChange (dc_value (dc_norm dc)) = Inr b"
proof -
  obtain m x where v: "dc_value dc = RpcValue m x" by (cases "dc_value dc")
  assume "\<exists>b. DataChange_isDataChange (dc_value dc) = Inr b"
  then show ?thesis
    by (cases m; cases x)
       (auto simp: v dc_norm_def drop_empty_meta_def DataChange_isDataChange_def RpcValue_metaTypeId_def
        RpcValue_metaTypeNameSpaceId_def RpcValue_metaValue_i_def toInt_invalid meta_isEmpty_iff)
qed

lemma setShortTime_packed:
  assumes "in_s 32 (dc_shortTime dc)"
  shows "DataChange_setShortTime (if DataChange_hasShortTime dc then short_time_value dc else invalid_value) d =
    Inr (d\<lparr>dc_shortTime := dc_shortTime (dc_norm dc)\<rparr>)"
  using assms
  by (auto simp: DataChange_setShortTime_def short_time_value_def type_test_defs RpcValue_toInt_def impl_to_int_def
      short_time_roundtrip dc_norm_def DataChange_hasShortTime_def)

lemma data_change_roundtrip_aux:
  assumes "dc_ok dc" "DataChange_toRpcValue dc = Inr v"
  shows "DataChange_fromRpcValue v = Inr (dc_norm dc)"
proof -
  define md where "md = dc_tags dc (fst (dc_body dc))"
  have v: "v = RpcValue (Some md) (snd (dc_body dc))" using assms(2) by (simp add: toRpcValue_parts md_def)
  obtain b where b: "DataChange_isDataChange (dc_value (dc_norm dc)) = Inr b"
    using assms(1) norm_value_shape by (auto simp: dc_ok_def)
  have look: "RpcMetaData_value_i md DC_Tag_ShortTime invalid_value = (if DataChange_hasShortTime dc then short_time_value dc else invalid_value)"
    "RpcMetaData_value_i md DC_Tag_DateTime invalid_value = DataChange_dateTime dc"
    "RpcMetaData_value_i md DC_Tag_ValueFlags invalid_value =
      (if dc_valueFlags dc \<noteq> 0 then rpc (VInt (s_wrap 32 (uint (dc_valueFlags dc)))) else invalid_value)"
    by (simp_all add: md_def dc_tags_lookup dc_body_lookup DataChange_dateTime_def)
  have flags: "map_sum id (\<lambda>st. DataChange_setValueFlags (word_of_int st) r)
      (RpcValue_toInt (RpcMetaData_value_i md DC_Tag_ValueFlags invalid_value)) = Inr (r\<lparr>dc_valueFlags := dc_valueFlags dc\<rparr>)" for r
    by (simp add: look toInt_int toInt_invalid DataChange_setValueFlags_def word32_int_roundtrip)
  have time: "DataChange_setDateTime (DataChange_dateTime dc) r = r\<lparr>dc_dateTime := dc_dateTime (dc_norm dc)\<rparr>" for r
    by (simp add: DataChange_setDateTime_def DataChange_dateTime_def type_test_defs RpcValue_toDateTime_def dc_norm_def)
  have short: "in_s 32 (dc_shortTime dc)" using assms(1) by (simp add: dc_ok_def)
  have val: "(case wrapped_value v of Some w \<Rightarrow> w | None \<Rightarrow> snd (RpcValue_takeMeta v)) = dc_value (dc_norm dc)"
    using packed_value [of dc] by (simp add: v RpcValue_takeMeta_def md_def cong: option.case_cong)
  have "DataChange_isDataChange v = Inr True" by (simp add: v md_def packed_isDataChange)
  moreover have "RpcValue_metaValue_i v k invalid_value = RpcMetaData_value_i md k invalid_value" for k
    by (simp add: v RpcValue_metaValue_i_def)
  ultimately show ?thesis
    using b by (simp add: DataChange_fromRpcValue_def DataChange_setValue_def val flags time look(1,2)
        setShortTime_packed [OF short])
       (simp add: DataChange_default_def dc_norm_def)
qed

end
