(* ===== verification/Tunnel_Ctl.thy ===== *)
theory Tunnel_Ctl
  imports Rpc_Exchange
begin

text \<open>
  Tunnel control values (\<open>tunnelctl.h\<close>, \<open>tunnelctl.cpp\<close>): \<open>IMap\<close>s with the meta type \<open>TunnelCtl\<close> that
  client, broker and device exchange to set up a tunnel.  The accessors that the macro
  \<open>SHV_IMAP_FIELD_IMPL\<close> of \<open>utils.h\<close> expands to are one definition each, shared by the classes that
  declare the field.
\<close>

type_synonym tunnel_ctl = rpc_value

abbreviation TunnelCtl_MetaType_ID :: int where "TunnelCtl_MetaType_ID \<equiv> 3"
abbreviation TC_Key_State :: int where "TC_Key_State \<equiv> 1"
abbreviation TC_Key_Host :: int where "TC_Key_Host \<equiv> 2"
abbreviation TC_Key_Port :: int where "TC_Key_Port \<equiv> 3"
abbreviation TC_Key_Secret :: int where "TC_Key_Secret \<equiv> 4"
abbreviation TC_Key_RequestId :: int where "TC_Key_RequestId \<equiv> 5"
abbreviation TC_Key_CallerIds :: int where "TC_Key_CallerIds \<equiv> 6"

datatype tunnel_state = TS_Invalid | FindTunnelRequest | FindTunnelResponse | CreateTunnelRequest
  | CreateTunnelResponse | CloseTunnel

primrec tunnel_state_int :: "tunnel_state \<Rightarrow> int" where
  "tunnel_state_int TS_Invalid = 0"
| "tunnel_state_int FindTunnelRequest = 1"
| "tunnel_state_int FindTunnelResponse = 2"
| "tunnel_state_int CreateTunnelRequest = 3"
| "tunnel_state_int CreateTunnelResponse = 4"
| "tunnel_state_int CloseTunnel = 5"

definition TunnelCtl_state :: "tunnel_ctl \<Rightarrow> exn + int" where
  "TunnelCtl_state t = RpcValue_toInt (RpcValue_at_i t TC_Key_State (rpc (VInt (tunnel_state_int TS_Invalid))))"

definition TunnelCtl_setState :: "int \<Rightarrow> tunnel_ctl \<Rightarrow> tunnel_ctl" where
  "TunnelCtl_setState st t = RpcValue_set_i TC_Key_State (rpc (VInt st)) t"

definition TunnelCtl_host :: "tunnel_ctl \<Rightarrow> string" where
  "TunnelCtl_host t = RpcValue_asString (RpcValue_at_i t TC_Key_Host invalid_value)"

definition TunnelCtl_setHost :: "string \<Rightarrow> tunnel_ctl \<Rightarrow> tunnel_ctl" where
  "TunnelCtl_setHost s t = RpcValue_set_i TC_Key_Host (rpc (VString s)) t"

definition TunnelCtl_port :: "tunnel_ctl \<Rightarrow> exn + int" where
  "TunnelCtl_port t = RpcValue_toInt (RpcValue_at_i t TC_Key_Port invalid_value)"

definition TunnelCtl_setPort :: "int \<Rightarrow> tunnel_ctl \<Rightarrow> tunnel_ctl" where
  "TunnelCtl_setPort p t = RpcValue_set_i TC_Key_Port (rpc (VInt p)) t"

definition TunnelCtl_secret :: "tunnel_ctl \<Rightarrow> string" where
  "TunnelCtl_secret t = RpcValue_asString (RpcValue_at_i t TC_Key_Secret invalid_value)"

definition TunnelCtl_setSecret :: "string \<Rightarrow> tunnel_ctl \<Rightarrow> tunnel_ctl" where
  "TunnelCtl_setSecret s t = RpcValue_set_i TC_Key_Secret (rpc (VString s)) t"

definition TunnelCtl_requestId :: "tunnel_ctl \<Rightarrow> exn + int" where
  "TunnelCtl_requestId t = RpcValue_toInt (RpcValue_at_i t TC_Key_RequestId invalid_value)"

definition TunnelCtl_setRequestId :: "int \<Rightarrow> tunnel_ctl \<Rightarrow> tunnel_ctl" where
  "TunnelCtl_setRequestId i t = RpcValue_set_i TC_Key_RequestId (rpc (VInt i)) t"

definition TunnelCtl_callerIds :: "tunnel_ctl \<Rightarrow> rpc_value" where
  "TunnelCtl_callerIds t = RpcValue_at_i t TC_Key_CallerIds invalid_value"

definition TunnelCtl_setCallerIds :: "rpc_value \<Rightarrow> tunnel_ctl \<Rightarrow> tunnel_ctl" where
  "TunnelCtl_setCallerIds ids t = RpcValue_set_i TC_Key_CallerIds ids t"

definition TunnelCtl_make :: "tunnel_state \<Rightarrow> tunnel_ctl" where
  "TunnelCtl_make st =
     TunnelCtl_setState (tunnel_state_int st)
       (RpcValue (Some (RpcMetaData_setValue_i Tag_MetaTypeId (rpc (VInt TunnelCtl_MetaType_ID)) meta_empty)) (VIMap []))"

definition FindTunnelReqCtl :: tunnel_ctl where
  "FindTunnelReqCtl = TunnelCtl_make FindTunnelRequest"

definition FindTunnelRespCtl :: tunnel_ctl where
  "FindTunnelRespCtl = TunnelCtl_make FindTunnelResponse"

definition FindTunnelRespCtl_fromFindTunnelRequest :: "tunnel_ctl \<Rightarrow> exn + tunnel_ctl" where
  "FindTunnelRespCtl_fromFindTunnelRequest rq =
     map_sum id (\<lambda>port.
       TunnelCtl_setSecret (TunnelCtl_secret rq) (TunnelCtl_setCallerIds (TunnelCtl_callerIds rq)
         (TunnelCtl_setPort port (TunnelCtl_setHost (TunnelCtl_host rq) FindTunnelRespCtl)))) (TunnelCtl_port rq)"

definition CreateTunnelReqCtl :: tunnel_ctl where
  "CreateTunnelReqCtl = TunnelCtl_make CreateTunnelRequest"

definition CreateTunnelReqCtl_fromFindTunnelResponse :: "tunnel_ctl \<Rightarrow> exn + tunnel_ctl" where
  "CreateTunnelReqCtl_fromFindTunnelResponse resp =
     map_sum id (\<lambda>port.
       TunnelCtl_setCallerIds (TunnelCtl_callerIds resp) (TunnelCtl_setSecret (TunnelCtl_secret resp)
         (TunnelCtl_setPort port (TunnelCtl_setHost (TunnelCtl_host resp) CreateTunnelReqCtl)))) (TunnelCtl_port resp)"

definition CreateTunnelRespCtl :: tunnel_ctl where
  "CreateTunnelRespCtl = TunnelCtl_make CreateTunnelResponse"

text \<open>The constructor names the state of the create response.\<close>

definition CloseTunnelCtl :: tunnel_ctl where
  "CloseTunnelCtl = TunnelCtl_make CreateTunnelResponse"

section \<open>The fields travel through the handshake\<close>

lemma set_i_isIMap [simp]: "RpcValue_isIMap (RpcValue_set_i k v w) = RpcValue_isIMap w"
  by (cases "rv_var w") (auto simp: RpcValue_set_i_def type_test_defs)

lemma make_isIMap [simp]: "RpcValue_isIMap (TunnelCtl_make st)"
  by (simp add: TunnelCtl_make_def TunnelCtl_setState_def) (simp add: type_test_defs)

lemmas tunnel_set_defs = TunnelCtl_setState_def TunnelCtl_setHost_def TunnelCtl_setPort_def TunnelCtl_setSecret_def
  TunnelCtl_setRequestId_def TunnelCtl_setCallerIds_def
lemmas tunnel_get_defs = TunnelCtl_state_def TunnelCtl_host_def TunnelCtl_port_def TunnelCtl_secret_def
  TunnelCtl_requestId_def TunnelCtl_callerIds_def

lemma make_state: "TunnelCtl_state (TunnelCtl_make st) = Inr (tunnel_state_int st)"
proof -
  have "RpcValue_isIMap (RpcValue md (VIMap []))" for md by (simp add: type_test_defs)
  then show ?thesis
    by (cases st) (simp_all add: TunnelCtl_make_def tunnel_set_defs TunnelCtl_state_def at_set_i toInt_int in_s_def)
qed

lemma port_range: "TunnelCtl_port t = Inr p \<Longrightarrow> in_s 32 p"
  by (auto simp: TunnelCtl_port_def dest: RpcValue_toInt_range)

text \<open>What a peer reads of a control value, except its state.\<close>

definition same_tunnel :: "tunnel_ctl \<Rightarrow> tunnel_ctl \<Rightarrow> bool" where
  "same_tunnel t u \<longleftrightarrow> TunnelCtl_host t = TunnelCtl_host u \<and> TunnelCtl_port t = TunnelCtl_port u \<and>
     TunnelCtl_secret t = TunnelCtl_secret u \<and> TunnelCtl_callerIds t = TunnelCtl_callerIds u"

lemma tunnel_fields_set:
  fixes s h :: string
  assumes "RpcValue_isIMap t" "in_s 32 p" "RpcValue_isValid ids \<or> ids = invalid_value"
  defines "u \<equiv> TunnelCtl_setSecret s (TunnelCtl_setCallerIds ids (TunnelCtl_setPort p (TunnelCtl_setHost h t)))"
    and "u' \<equiv> TunnelCtl_setCallerIds ids (TunnelCtl_setSecret s (TunnelCtl_setPort p (TunnelCtl_setHost h t)))"
  shows "TunnelCtl_host u = h" "TunnelCtl_port u = Inr p" "TunnelCtl_secret u = s" "TunnelCtl_callerIds u = ids"
    "TunnelCtl_state u = TunnelCtl_state t"
    "TunnelCtl_host u' = h" "TunnelCtl_port u' = Inr p" "TunnelCtl_secret u' = s" "TunnelCtl_callerIds u' = ids"
    "TunnelCtl_state u' = TunnelCtl_state t"
  using assms(1-3)
  by (auto simp: u_def u'_def tunnel_set_defs tunnel_get_defs at_set_i toInt_int as_defs)

lemma handshake_fields:
  assumes "RpcValue_isValid (TunnelCtl_callerIds rq) \<or> TunnelCtl_callerIds rq = invalid_value"
    and resp: "FindTunnelRespCtl_fromFindTunnelRequest rq = Inr resp"
    and create: "CreateTunnelReqCtl_fromFindTunnelResponse resp = Inr cr"
  shows "same_tunnel resp rq \<and> same_tunnel cr rq \<and> TunnelCtl_state resp = Inr 2 \<and> TunnelCtl_state cr = Inr 3"
proof -
  obtain p where p: "TunnelCtl_port rq = Inr p" and r: "resp = TunnelCtl_setSecret (TunnelCtl_secret rq) (TunnelCtl_setCallerIds (TunnelCtl_callerIds rq)
         (TunnelCtl_setPort p (TunnelCtl_setHost (TunnelCtl_host rq) FindTunnelRespCtl)))"
    using resp by (auto simp: FindTunnelRespCtl_fromFindTunnelRequest_def map_sum_Inr)
  have im: "RpcValue_isIMap FindTunnelRespCtl" "RpcValue_isIMap CreateTunnelReqCtl"
    by (simp_all add: FindTunnelRespCtl_def CreateTunnelReqCtl_def)
  note f = tunnel_fields_set [OF im(1) port_range [OF p] assms(1), where s = "TunnelCtl_secret rq" and h = "TunnelCtl_host rq", folded r]
  have cr: "cr = TunnelCtl_setCallerIds (TunnelCtl_callerIds rq) (TunnelCtl_setSecret (TunnelCtl_secret rq)
         (TunnelCtl_setPort p (TunnelCtl_setHost (TunnelCtl_host rq) CreateTunnelReqCtl)))"
    using create f by (auto simp: CreateTunnelReqCtl_fromFindTunnelResponse_def)
  note g = tunnel_fields_set [OF im(2) port_range [OF p] assms(1), where s = "TunnelCtl_secret rq" and h = "TunnelCtl_host rq", folded cr]
  show ?thesis
    using f g p by (simp add: same_tunnel_def FindTunnelRespCtl_def CreateTunnelReqCtl_def make_state)
qed

end
