(* ===== verification/Meta_Method.thy ===== *)
theory Meta_Method
  imports Rpc_Exchange
begin

text \<open>
  Method descriptions (\<open>metamethod.h\<close>, \<open>metamethod.cpp\<close>): what a node says about a method it offers,
  and the four shapes in which such a description arrives.  The default constructor leaves the
  access level unset, so what it holds is an argument (\<open>level0\<close>) of the functions that start from it.
\<close>

datatype method_signature = VoidVoid | VoidParam | RetVoid | RetParam

record meta_method =
  mm_name :: string
  mm_flags :: u32
  mm_paramType :: string
  mm_resultType :: string
  mm_accessLevel :: access_level
  mm_signals :: rpc_map
  mm_label :: string
  mm_description :: string
  mm_extra :: rpc_map

abbreviation VOID_TYPE_NAME :: string where "VOID_TYPE_NAME \<equiv> ''Null''"
abbreviation KEY_NAME :: string where "KEY_NAME \<equiv> ''name''"
abbreviation KEY_RESULT :: string where "KEY_RESULT \<equiv> ''result''"
abbreviation KEY_PARAM :: string where "KEY_PARAM \<equiv> ''param''"
abbreviation KEY_FLAGS :: string where "KEY_FLAGS \<equiv> ''flags''"
abbreviation KEY_ACCESS :: string where "KEY_ACCESS \<equiv> ''access''"
abbreviation KEY_ACCESSGRANT :: string where "KEY_ACCESSGRANT \<equiv> ''accessGrant''"
abbreviation KEY_ACCESS_LEVEL :: string where "KEY_ACCESS_LEVEL \<equiv> ''accessLevel''"
abbreviation KEY_DESCRIPTION :: string where "KEY_DESCRIPTION \<equiv> ''description''"
abbreviation KEY_LABEL :: string where "KEY_LABEL \<equiv> ''label''"
abbreviation KEY_TAGS :: string where "KEY_TAGS \<equiv> ''tags''"
abbreviation KEY_SIGNALS :: string where "KEY_SIGNALS \<equiv> ''signals''"

definition MetaMethod_default :: "access_level \<Rightarrow> meta_method" where
  "MetaMethod_default level0 =
     \<lparr>mm_name = [], mm_flags = 0, mm_paramType = [], mm_resultType = [], mm_accessLevel = level0,
      mm_signals = [], mm_label = [], mm_description = [], mm_extra = []\<rparr>"

definition MetaMethod_make ::
  "string \<Rightarrow> u32 \<Rightarrow> string option \<Rightarrow> string option \<Rightarrow> access_level \<Rightarrow> (string \<times> string option) list \<Rightarrow>
   string \<Rightarrow> string \<Rightarrow> rpc_map \<Rightarrow> meta_method" where
  "MetaMethod_make name flags param result access_level signal_definitions description label extra =
     \<lparr>mm_name = name, mm_flags = flags,
      mm_paramType = (case param of Some p \<Rightarrow> p | None \<Rightarrow> VOID_TYPE_NAME),
      mm_resultType = (case result of Some p \<Rightarrow> p | None \<Rightarrow> VOID_TYPE_NAME),
      mm_accessLevel = access_level,
      mm_signals = foldl (\<lambda>m (n, t). map_emplace n (case t of Some s \<Rightarrow> rpc (VString s) | None \<Rightarrow> rpc VNull) m)
        [] signal_definitions,
      mm_label = label, mm_description = description, mm_extra = extra\<rparr>"

definition MetaMethod_make_shv2 ::
  "string \<Rightarrow> method_signature \<Rightarrow> u32 \<Rightarrow> string \<Rightarrow> string \<Rightarrow> rpc_map \<Rightarrow> meta_method" where
  "MetaMethod_make_shv2 name signature flags access_grant description extra =
     \<lparr>mm_name = name, mm_flags = flags,
      mm_paramType = (case signature of VoidVoid \<Rightarrow> VOID_TYPE_NAME | VoidParam \<Rightarrow> ''RpcValue''
                      | RetVoid \<Rightarrow> VOID_TYPE_NAME | RetParam \<Rightarrow> ''RpcValue''),
      mm_resultType = (case signature of VoidVoid \<Rightarrow> VOID_TYPE_NAME | VoidParam \<Rightarrow> VOID_TYPE_NAME
                       | RetVoid \<Rightarrow> ''RpcValue'' | RetParam \<Rightarrow> ''RpcValue''),
      mm_accessLevel = (case accessLevelFromAccessString access_grant of Some l \<Rightarrow> l | None \<Rightarrow> AccessLevel_Browse),
      mm_signals = [], mm_label = [], mm_description = description, mm_extra = extra\<rparr>"

definition MetaMethod_isValid :: "meta_method \<Rightarrow> bool" where
  "MetaMethod_isValid m \<longleftrightarrow> mm_name m \<noteq> []"

definition MetaMethod_hasResultType :: "meta_method \<Rightarrow> bool" where
  "MetaMethod_hasResultType m \<longleftrightarrow> \<not> (mm_resultType m = [] \<or> mm_resultType m = VOID_TYPE_NAME)"

definition MetaMethod_hasParamType :: "meta_method \<Rightarrow> bool" where
  "MetaMethod_hasParamType m \<longleftrightarrow> \<not> (mm_paramType m = [] \<or> mm_paramType m = VOID_TYPE_NAME)"

definition MetaMethod_setLabel :: "string \<Rightarrow> meta_method \<Rightarrow> meta_method" where
  "MetaMethod_setLabel label m = m\<lparr>mm_label := label\<rparr>"

definition MetaMethod_setAccessLevel :: "access_level option \<Rightarrow> meta_method \<Rightarrow> meta_method" where
  "MetaMethod_setAccessLevel level m =
     m\<lparr>mm_accessLevel := case level of Some l \<Rightarrow> l | None \<Rightarrow> AccessLevel_None\<rparr>"

definition MetaMethod_tag :: "meta_method \<Rightarrow> string \<Rightarrow> rpc_value \<Rightarrow> rpc_value" where
  "MetaMethod_tag m key default_value = RpcMap_value (mm_extra m) key default_value"

definition MetaMethod_setTag :: "string \<Rightarrow> rpc_value \<Rightarrow> meta_method \<Rightarrow> meta_method" where
  "MetaMethod_setTag key val m = m\<lparr>mm_extra := RpcMap_setValue key val (mm_extra m)\<rparr>"

abbreviation Ikey_Name :: int where "Ikey_Name \<equiv> 1"
abbreviation Ikey_Flags :: int where "Ikey_Flags \<equiv> 2"
abbreviation Ikey_ParamType :: int where "Ikey_ParamType \<equiv> 3"
abbreviation Ikey_ResultType :: int where "Ikey_ResultType \<equiv> 4"
abbreviation Ikey_AccessLevel :: int where "Ikey_AccessLevel \<equiv> 5"
abbreviation Ikey_Signals :: int where "Ikey_Signals \<equiv> 6"
abbreviation Ikey_Extra :: int where "Ikey_Extra \<equiv> 7"

text \<open>The extra map as it is sent: description and label first, then overridden by the extra values.\<close>

definition extra_out :: "meta_method \<Rightarrow> rpc_map" where
  "extra_out m =
     foldl (\<lambda>e (k, v). map_set k v e)
       (map_emplace KEY_LABEL (rpc (VString (mm_label m))) (map_emplace KEY_DESCRIPTION (rpc (VString (mm_description m))) []))
       (mm_extra m)"

definition MetaMethod_toRpcValue :: "meta_method \<Rightarrow> rpc_value" where
  "MetaMethod_toRpcValue m =
     rpc (VIMap (map_set Ikey_Extra (rpc (VMap (extra_out m)))
      (map_set Ikey_Signals (rpc (VMap (mm_signals m)))
      (map_set Ikey_AccessLevel (rpc (VInt (mm_accessLevel m)))
      (map_set Ikey_ResultType (rpc (VString (mm_resultType m)))
      (map_set Ikey_ParamType (rpc (VString (mm_paramType m)))
      (map_set Ikey_Flags (rpc (VUInt (ucast (mm_flags m))))
      (map_set Ikey_Name (rpc (VString (mm_name m))) []))))))))"

definition put_unless :: "bool \<Rightarrow> string \<Rightarrow> rpc_value \<Rightarrow> rpc_map \<Rightarrow> rpc_map" where
  "put_unless b k v m = (if b then m else map_set k v m)"

definition tags_out :: "meta_method \<Rightarrow> rpc_map" where
  "tags_out m =
     foldl (\<lambda>e (k, v). if k = KEY_LABEL then e else if k = KEY_DESCRIPTION then e else map_set k v e) [] (mm_extra m)"

definition MetaMethod_toMap :: "meta_method \<Rightarrow> rpc_map" where
  "MetaMethod_toMap m =
     (let access = accessLevelToAccessString (mm_accessLevel m); extra = tags_out m
      in put_unless (extra = []) KEY_TAGS (rpc (VMap extra))
        (put_unless (mm_description m = []) KEY_DESCRIPTION (rpc (VString (mm_description m)))
        (put_unless (mm_label m = []) KEY_LABEL (rpc (VString (mm_label m)))
        (put_unless (mm_signals m = []) KEY_SIGNALS (rpc (VMap (mm_signals m)))
        (put_unless (access = []) KEY_ACCESS (rpc (VString access))
        (put_unless (mm_resultType m = []) KEY_RESULT (rpc (VString (mm_resultType m)))
        (put_unless (mm_paramType m = []) KEY_PARAM (rpc (VString (mm_paramType m)))
        (map_set KEY_NAME (rpc (VString (mm_name m))) []))))))))"

text \<open>The keys are taken out of a copy of the map, which no later step reads again.\<close>

definition MetaMethod_applyAttributesMap :: "rpc_map \<Rightarrow> meta_method \<Rightarrow> exn + meta_method" where
  "MetaMethod_applyAttributesMap attr_map m =
     (let (rv, attrs) = RpcMap_take attr_map KEY_NAME invalid_value;
          m = (if RpcValue_isString rv then m\<lparr>mm_name := RpcValue_asString rv\<rparr> else m);
          (rv, attrs) = RpcMap_take attrs KEY_PARAM invalid_value;
          m = (if RpcValue_isString rv then m\<lparr>mm_paramType := RpcValue_asString rv\<rparr> else m);
          (rv, attrs) = RpcMap_take attrs KEY_RESULT invalid_value;
          m = (if RpcValue_isString rv then m\<lparr>mm_resultType := RpcValue_asString rv\<rparr> else m);
          (rv, attrs) = RpcMap_take attrs KEY_FLAGS invalid_value
      in bind_e (if RpcValue_isValid rv then map_sum id (\<lambda>i. m\<lparr>mm_flags := word_of_int i\<rparr>) (RpcValue_toInt rv) else Inr m) (\<lambda>m.
      let (rv, attrs) = RpcMap_take attrs KEY_ACCESS invalid_value;
          m = (if RpcValue_isString rv then MetaMethod_setAccessLevel (accessLevelFromAccessString (RpcValue_asString rv)) m else m);
          (rv, attrs) = RpcMap_take attrs KEY_ACCESSGRANT invalid_value;
          m = (if RpcValue_isString rv then MetaMethod_setAccessLevel (accessLevelFromAccessString (RpcValue_asString rv)) m else m);
          (rv, attrs) = RpcMap_take attrs KEY_ACCESS_LEVEL invalid_value
      in bind_e (if RpcValue_isInt rv then map_sum id (\<lambda>i. MetaMethod_setAccessLevel (accessLevelFromInt i) m) (RpcValue_toInt rv) else Inr m) (\<lambda>m.
      let (rv, attrs) = RpcMap_take attrs KEY_SIGNALS invalid_value;
          m = (if RpcValue_isMap rv then m\<lparr>mm_signals := RpcValue_asMap rv\<rparr> else m);
          (rv, attrs) = RpcMap_take attrs KEY_LABEL invalid_value;
          m = (if RpcValue_isString rv then m\<lparr>mm_label := RpcValue_asString rv\<rparr> else m);
          (rv, attrs) = RpcMap_take attrs KEY_DESCRIPTION invalid_value;
          m = (if RpcValue_isString rv then m\<lparr>mm_description := RpcValue_asString rv\<rparr> else m);
          (rv, attrs) = RpcMap_take attrs KEY_TAGS invalid_value
      in Inr (if RpcValue_isMap rv then m\<lparr>mm_extra := RpcValue_asMap rv\<rparr> else m))))"

definition MetaMethod_applyAttributesIMap :: "rpc_imap \<Rightarrow> meta_method \<Rightarrow> exn + meta_method" where
  "MetaMethod_applyAttributesIMap attr_map m =
     (let val = (\<lambda>k. RpcIMap_value attr_map k invalid_value);
          m = m\<lparr>mm_name := RpcValue_asString (val Ikey_Name)\<rparr>
      in bind_e (RpcValue_toInt (val Ikey_Flags)) (\<lambda>fl.
      let m = m\<lparr>mm_flags := word_of_int fl, mm_paramType := RpcValue_asString (val Ikey_ParamType),
                mm_resultType := RpcValue_asString (val Ikey_ResultType)\<rparr>;
          rv = val Ikey_AccessLevel;
          m = (if RpcValue_isString rv then MetaMethod_setAccessLevel (accessLevelFromAccessString (RpcValue_asString rv)) m else m)
      in bind_e (if RpcValue_isInt rv then map_sum id (\<lambda>i. MetaMethod_setAccessLevel (accessLevelFromInt i) m) (RpcValue_toInt rv) else Inr m) (\<lambda>m.
      let m = m\<lparr>mm_signals := RpcValue_asMap (val Ikey_Signals)\<rparr>; rv = val Ikey_Extra
      in Inr (if RpcValue_isMap rv
              then m\<lparr>mm_extra := RpcValue_asMap rv,
                     mm_description := RpcValue_asString (RpcMap_value (RpcValue_asMap rv) KEY_DESCRIPTION invalid_value),
                     mm_label := RpcValue_asString (RpcMap_value (RpcValue_asMap rv) KEY_LABEL invalid_value)\<rparr>
              else m))))"

definition MetaMethod_fromRpcValue :: "access_level \<Rightarrow> rpc_value \<Rightarrow> exn + meta_method" where
  "MetaMethod_fromRpcValue level0 rv =
     (let ret = MetaMethod_default level0 in
      if RpcValue_isString rv then Inr (ret\<lparr>mm_name := RpcValue_asString rv\<rparr>)
      else if RpcValue_isList rv then
        (let lst = RpcValue_asList rv
         in bind_e (RpcValue_toUInt (RpcList_value lst 2)) (\<lambda>fl.
            MetaMethod_applyAttributesMap (RpcValue_asMap (RpcList_value lst 5))
              ((MetaMethod_setAccessLevel (accessLevelFromAccessString (RpcValue_asString (RpcList_value lst 3)))
                 (ret\<lparr>mm_name := RpcValue_asString (RpcList_value lst 0), mm_flags := fl\<rparr>))
                \<lparr>mm_description := RpcValue_asString (RpcList_value lst 4)\<rparr>)))
      else if RpcValue_isMap rv then MetaMethod_applyAttributesMap (RpcValue_asMap rv) ret
      else if RpcValue_isIMap rv then MetaMethod_applyAttributesIMap (RpcValue_asIMap rv) ret
      else Inr ret)"

definition MetaMethod_signatureFromString :: "string \<Rightarrow> method_signature" where
  "MetaMethod_signatureFromString sigstr =
     (if sigstr = ''VoidParam'' then VoidParam else if sigstr = ''RetVoid'' then RetVoid
      else if sigstr = ''RetParam'' then RetParam else VoidVoid)"

primrec MetaMethod_signatureToString :: "method_signature \<Rightarrow> string" where
  "MetaMethod_signatureToString VoidVoid = ''VoidVoid''"
| "MetaMethod_signatureToString VoidParam = ''VoidParam''"
| "MetaMethod_signatureToString RetVoid = ''RetVoid''"
| "MetaMethod_signatureToString RetParam = ''RetParam''"

abbreviation Flag_IsSignal :: u32 where "Flag_IsSignal \<equiv> 1"
abbreviation Flag_IsGetter :: u32 where "Flag_IsGetter \<equiv> 2"
abbreviation Flag_IsSetter :: u32 where "Flag_IsSetter \<equiv> 4"

definition MetaMethod_flagsToString :: "u32 \<Rightarrow> string" where
  "MetaMethod_flagsToString flags =
     (let add_str = (\<lambda>str ret. if ret = [] then str else ret @ '','' @ str);
          ret = (if flags AND Flag_IsGetter \<noteq> 0 then add_str ''Getter'' [] else []);
          ret = (if flags AND Flag_IsSetter \<noteq> 0 then add_str ''Setter'' ret else ret)
      in if flags AND Flag_IsSignal \<noteq> 0 then add_str ''Signal'' ret else ret)"

section \<open>A description survives its \<open>IMap\<close> form\<close>

lemma signature_roundtrip: "MetaMethod_signatureFromString (MetaMethod_signatureToString s) = s"
  by (cases s) (simp_all add: MetaMethod_signatureFromString_def)

text \<open>The access levels that exist as enumerators.\<close>

definition mm_ok :: "meta_method \<Rightarrow> bool" where
  "mm_ok m \<longleftrightarrow> accessLevelFromInt (mm_accessLevel m) \<noteq> None \<and>
     map_find (mm_extra m) KEY_DESCRIPTION = None \<and> map_find (mm_extra m) KEY_LABEL = None"

lemma flags_roundtrip: "word_of_int (s_wrap 32 (uint (ucast (w :: u32) :: u64))) = w"
proof -
  have u: "uint (ucast w :: u64) = uint w" using unsigned_less [of w, where 'a = int]
    by (simp add: unsigned_ucast_eq take_bit_int_eq_self)
  have "s_wrap 32 (uint w) = sint w" by (simp add: s_wrap_def sint_uint)
  then show ?thesis by (simp add: u)
qed

lemma foldl_map_set_other:
  "k \<notin> fst ` set xs \<Longrightarrow> map_find (foldl (\<lambda>e (k, v). map_set k v e) acc xs) k = map_find acc k"
  by (induction xs arbitrary: acc) (auto simp: map_find_set)

lemma extra_out_find:
  assumes "mm_ok m"
  shows "map_find (extra_out m) KEY_DESCRIPTION = Some (rpc (VString (mm_description m)))"
    "map_find (extra_out m) KEY_LABEL = Some (rpc (VString (mm_label m)))"
  using assms
  by (simp_all add: extra_out_def foldl_map_set_other mm_ok_def map_find_None_iff)
     (simp_all add: map_emplace_def map_find_set)

lemma level_readback:
  assumes "accessLevelFromInt l \<noteq> None"
  shows "RpcValue_toInt (rpc (VInt l)) = Inr l" "accessLevelFromInt l = Some l"
  using assms by (auto simp: accessLevelFromInt_def access_level_cases_def toInt_int in_s_def split: if_splits)

lemma meta_method_roundtrip_aux:
  assumes "mm_ok m"
  shows "MetaMethod_fromRpcValue level0 (MetaMethod_toRpcValue m) = Inr (m\<lparr>mm_extra := extra_out m\<rparr>)"
proof -
  define im where "im = RpcValue_asIMap (MetaMethod_toRpcValue m)"
  have v: "RpcIMap_value im Ikey_Name invalid_value = rpc (VString (mm_name m))"
    "RpcIMap_value im Ikey_Flags invalid_value = rpc (VUInt (ucast (mm_flags m)))"
    "RpcIMap_value im Ikey_ParamType invalid_value = rpc (VString (mm_paramType m))"
    "RpcIMap_value im Ikey_ResultType invalid_value = rpc (VString (mm_resultType m))"
    "RpcIMap_value im Ikey_AccessLevel invalid_value = rpc (VInt (mm_accessLevel m))"
    "RpcIMap_value im Ikey_Signals invalid_value = rpc (VMap (mm_signals m))"
    "RpcIMap_value im Ikey_Extra invalid_value = rpc (VMap (extra_out m))"
    by (simp_all add: im_def MetaMethod_toRpcValue_def as_defs RpcIMap_value_def map_find_set)
  have fl: "RpcValue_toInt (rpc (VUInt (ucast (mm_flags m)))) = Inr (s_wrap 32 (uint (ucast (mm_flags m) :: u64)))"
    by (simp add: RpcValue_toInt_def impl_to_int_def)
  have lv: "RpcValue_toInt (rpc (VInt (mm_accessLevel m))) = Inr (mm_accessLevel m)"
    "accessLevelFromInt (mm_accessLevel m) = Some (mm_accessLevel m)"
    using level_readback [of "mm_accessLevel m"] assms by (simp_all add: mm_ok_def)
  have "MetaMethod_fromRpcValue level0 (MetaMethod_toRpcValue m) = MetaMethod_applyAttributesIMap im (MetaMethod_default level0)"
    by (simp add: MetaMethod_fromRpcValue_def im_def MetaMethod_toRpcValue_def type_test_defs)
  also have "\<dots> = Inr (m\<lparr>mm_extra := extra_out m\<rparr>)"
    unfolding MetaMethod_applyAttributesIMap_def Let_def v
    by (simp add: fl flags_roundtrip lv type_test_defs as_defs MetaMethod_setAccessLevel_def RpcMap_value_def
        extra_out_find [OF assms] MetaMethod_default_def)
  finally show ?thesis .
qed

text \<open>
  The \<open>Map\<close> form has no place for the flags, and a level without a name is not written: both come
  back as the default constructor leaves them.
\<close>

lemma RpcMap_take_eq: "RpcMap_take m k d = (RpcMap_value m k d, map_erase k m)"
proof (cases "map_find m k")
  case None
  then have "map_erase k m = m" by (auto simp: map_erase_def map_find_None_iff filter_id_conv)
  with None show ?thesis by (simp add: RpcMap_take_def RpcMap_value_def)
qed (simp add: RpcMap_take_def RpcMap_value_def)

lemma RpcMap_value_erase: "k \<noteq> k' \<Longrightarrow> RpcMap_value (map_erase k m) k' d = RpcMap_value m k' d"
  by (simp add: RpcMap_value_def map_find_erase)

lemma RpcMap_value_put:
  "RpcMap_value (put_unless b k v m) k' d = (if k' = k \<and> \<not> b then v else RpcMap_value m k' d)"
  "RpcMap_value (map_set k v m) k' d = (if k' = k then v else RpcMap_value m k' d)"
  by (simp_all add: put_unless_def RpcMap_value_def map_find_set)

lemma meta_method_map_aux:
  "MetaMethod_fromRpcValue level0 (rpc (VMap (MetaMethod_toMap m))) =
     Inr (m\<lparr>mm_flags := 0, mm_accessLevel := (if named_level (mm_accessLevel m) then mm_accessLevel m else level0),
            mm_extra := tags_out m\<rparr>)"
proof -
  define mp where "mp = MetaMethod_toMap m"
  define str where "str s = (if s = [] then invalid_value else rpc (VString s))" for s
  define sub where "sub e = (if e = [] then invalid_value else rpc (VMap e))" for e
  have nil: "RpcMap_value [(k0, x)] k d = (if k = k0 then x else d)" for k0 x k d by (simp add: RpcMap_value_def)
  have v: "RpcMap_value mp KEY_NAME invalid_value = rpc (VString (mm_name m))"
    "RpcMap_value mp KEY_PARAM invalid_value = str (mm_paramType m)"
    "RpcMap_value mp KEY_RESULT invalid_value = str (mm_resultType m)"
    "RpcMap_value mp KEY_FLAGS invalid_value = invalid_value"
    "RpcMap_value mp KEY_ACCESS invalid_value = str (accessLevelToAccessString (mm_accessLevel m))"
    "RpcMap_value mp KEY_ACCESSGRANT invalid_value = invalid_value"
    "RpcMap_value mp KEY_ACCESS_LEVEL invalid_value = invalid_value"
    "RpcMap_value mp KEY_SIGNALS invalid_value = sub (mm_signals m)"
    "RpcMap_value mp KEY_LABEL invalid_value = str (mm_label m)"
    "RpcMap_value mp KEY_DESCRIPTION invalid_value = str (mm_description m)"
    "RpcMap_value mp KEY_TAGS invalid_value = sub (tags_out m)"
    by (simp_all add: mp_def MetaMethod_toMap_def Let_def RpcMap_value_put nil str_def sub_def)
  have inv: "\<not> RpcValue_isValid invalid_value" "\<not> RpcValue_isInt invalid_value" "\<not> RpcValue_isString invalid_value"
    by (simp_all add: type_test_defs)
  have s: "RpcValue_isString (str t) \<longleftrightarrow> t \<noteq> []" "RpcValue_asString (str t) = t"
    "RpcValue_isString (rpc (VString t))" "RpcValue_asString (rpc (VString t)) = t" for t
    by (simp_all add: str_def type_test_defs as_defs)
  have e: "RpcValue_isMap (sub t) \<longleftrightarrow> t \<noteq> []" "RpcValue_asMap (sub t) = t" for t
    by (simp_all add: sub_def type_test_defs as_defs)
  have lv: "named_level (mm_accessLevel m) \<Longrightarrow>
      accessLevelFromAccessString (accessLevelToAccessString (mm_accessLevel m)) = Some (mm_accessLevel m)"
    by (rule level_name_roundtrip)
  have "MetaMethod_fromRpcValue level0 (rpc (VMap mp)) = MetaMethod_applyAttributesMap mp (MetaMethod_default level0)"
    by (simp add: MetaMethod_fromRpcValue_def type_test_defs as_defs)
  also have "\<dots> = Inr (m\<lparr>mm_flags := 0, mm_accessLevel := (if named_level (mm_accessLevel m) then mm_accessLevel m else level0),
            mm_extra := tags_out m\<rparr>)"
    unfolding MetaMethod_applyAttributesMap_def RpcMap_take_eq Let_def case_prod_conv
    using lv by (simp add: RpcMap_value_erase v inv s e named_level_def MetaMethod_setAccessLevel_def MetaMethod_default_def)
  finally show ?thesis by (simp add: mp_def)
qed

end
