(* ===== verification/Meta_Types.thy ===== *)
theory Meta_Types
  imports Rpc_Value
begin

text \<open>
  The registry of meta types (\<open>metatypes.h\<close>, \<open>metatypes.cpp\<close>): name spaces by id, types by id within
  a name space, and the names of tags and keys.  The code keeps pointers to name-space objects and
  changes the objects, so the registry has a store of objects by address; types do not change once
  constructed and are kept by value.
\<close>

record meta_info =
  mi_id :: int
  mi_name :: "string option"

definition MetaInfo_isValid :: "meta_info \<Rightarrow> bool" where
  "MetaInfo_isValid mi \<longleftrightarrow> (case mi_name mi of None \<Rightarrow> False | Some s \<Rightarrow> s \<noteq> [])"

record meta_type =
  mt_name :: "string option"
  mt_tags :: "(int, meta_info) std_map"
  mt_keys :: "(int, meta_info) std_map"

definition MetaType_make :: "string \<Rightarrow> meta_type" where
  "MetaType_make name = \<lparr>mt_name = Some name, mt_tags = [], mt_keys = []\<rparr>"

definition MetaType_isValid :: "meta_type \<Rightarrow> bool" where
  "MetaType_isValid t \<longleftrightarrow> (case mt_name t of None \<Rightarrow> False | Some s \<Rightarrow> s \<noteq> [])"

text \<open>
  \<open>operator[]\<close> on the embedded map adds a default entry for an id it lacks, which is what it
  returns for that id from then on.
\<close>

definition embeded_mi :: "(int, meta_info) std_map" where
  "embeded_mi =
     [(-1, \<lparr>mi_id = -1, mi_name = Some []\<rparr>), (1, \<lparr>mi_id = 1, mi_name = Some ''T''\<rparr>),
      (2, \<lparr>mi_id = 2, mi_name = Some ''NS''\<rparr>)]"

definition MetaType_tagById :: "meta_type \<Rightarrow> int \<Rightarrow> meta_info" where
  "MetaType_tagById t i =
     (if i \<le> 2 then (case map_find embeded_mi i of Some mi \<Rightarrow> mi | None \<Rightarrow> \<lparr>mi_id = 0, mi_name = None\<rparr>)
      else (case map_find (mt_tags t) i of Some mi \<Rightarrow> mi | None \<Rightarrow> \<lparr>mi_id = -1, mi_name = Some []\<rparr>))"

definition MetaType_keyById :: "meta_type \<Rightarrow> int \<Rightarrow> meta_info" where
  "MetaType_keyById t i = (case map_find (mt_keys t) i of Some mi \<Rightarrow> mi | None \<Rightarrow> \<lparr>mi_id = -1, mi_name = Some []\<rparr>)"

record meta_ns =
  ns_name :: "string option"
  ns_types :: "(int, meta_type) std_map"

definition MetaNameSpace_make :: "string \<Rightarrow> meta_ns" where
  "MetaNameSpace_make name = \<lparr>ns_name = Some name, ns_types = []\<rparr>"

definition MetaNameSpace_isValid :: "meta_ns \<Rightarrow> bool" where
  "MetaNameSpace_isValid ns \<longleftrightarrow> (case ns_name ns of None \<Rightarrow> False | Some s \<Rightarrow> s \<noteq> [])"

abbreviation GlobalNS_ID :: int where "GlobalNS_ID \<equiv> 0"
abbreviation ElesysNS_ID :: int where "ElesysNS_ID \<equiv> 1"

type_synonym ns_addr = nat

text \<open>The static objects: the two of \<open>initMetaTypes\<close> and the one of \<open>GlobalNS::registerMetaTypes\<close>.\<close>

abbreviation init_global_addr :: ns_addr where "init_global_addr \<equiv> 0"
abbreviation init_elesys_addr :: ns_addr where "init_elesys_addr \<equiv> 1"
abbreviation static_global_addr :: ns_addr where "static_global_addr \<equiv> 2"

record meta_registry =
  rg_init :: bool
  rg_globals :: bool
  rg_store :: "ns_addr \<Rightarrow> meta_ns"
  rg_ns :: "(int, ns_addr) std_map"

definition registry_start :: meta_registry where
  "registry_start =
     \<lparr>rg_init = False, rg_globals = False,
      rg_store = (\<lambda>a. MetaNameSpace_make (if a = init_elesys_addr then ''elesys'' else ''global'')), rg_ns = []\<rparr>"

text \<open>\<open>registerNameSpace\<close> calls \<open>initMetaTypes\<close> first, which sets its flag before it registers.\<close>

definition initMetaTypes :: "meta_registry \<Rightarrow> meta_registry" where
  "initMetaTypes rg =
     (if \<not> rg_init rg
      then rg\<lparr>rg_init := True, rg_ns := map_set ElesysNS_ID init_elesys_addr (map_set GlobalNS_ID init_global_addr (rg_ns rg))\<rparr>
      else rg)"

definition registerNameSpace :: "int \<Rightarrow> ns_addr option \<Rightarrow> meta_registry \<Rightarrow> meta_registry" where
  "registerNameSpace ns_id ns rg =
     (let rg = initMetaTypes rg
      in case ns of None \<Rightarrow> rg\<lparr>rg_ns := map_erase ns_id (rg_ns rg)\<rparr>
         | Some a \<Rightarrow> rg\<lparr>rg_ns := map_set ns_id a (rg_ns rg)\<rparr>)"

definition registerType :: "int \<Rightarrow> int \<Rightarrow> meta_type option \<Rightarrow> meta_registry \<Rightarrow> exn + meta_registry" where
  "registerType ns_id type_id type rg =
     (let rg = initMetaTypes rg
      in case map_find (rg_ns rg) ns_id of
           None \<Rightarrow> Inl (ShvException ''Unknown namespace id!'')
         | Some a \<Rightarrow>
             (let ns = rg_store rg a;
                  ns' = (case type of None \<Rightarrow> ns\<lparr>ns_types := map_erase type_id (ns_types ns)\<rparr>
                         | Some t \<Rightarrow> ns\<lparr>ns_types := map_set type_id t (ns_types ns)\<rparr>)
              in Inr (rg\<lparr>rg_store := (rg_store rg)(a := ns')\<rparr>)))"

definition registeredNameSpace :: "int \<Rightarrow> meta_registry \<Rightarrow> meta_ns \<times> meta_registry" where
  "registeredNameSpace ns_id rg =
     (let rg = initMetaTypes rg
      in (case map_find (rg_ns rg) ns_id of None \<Rightarrow> MetaNameSpace_make [] | Some a \<Rightarrow> rg_store rg a, rg))"

definition registeredType :: "int \<Rightarrow> int \<Rightarrow> meta_registry \<Rightarrow> meta_type \<times> meta_registry" where
  "registeredType ns_id type_id rg =
     (let (ns, rg) = registeredNameSpace ns_id rg
      in (if MetaNameSpace_isValid ns
          then (case map_find (ns_types ns) type_id of Some t \<Rightarrow> t | None \<Rightarrow> MetaType_make [])
          else MetaType_make [], rg))"

definition global_meta_types :: "(int \<times> string) list" where
  "global_meta_types =
     [(2, ''RpcConnectionParams''), (3, ''TunnelCtl''), (4, ''AccessGrant''), (5, ''DataChange''),
      (6, ''NodeDrop''), (9, ''NodePropertyMap'')]"

definition GlobalNS_registerMetaTypes :: "meta_registry \<Rightarrow> exn + meta_registry" where
  "GlobalNS_registerMetaTypes rg =
     (if \<not> rg_globals rg then
        (let (ns, rg) = registeredNameSpace GlobalNS_ID (rg\<lparr>rg_globals := True\<rparr>);
             rg = (if \<not> MetaNameSpace_isValid ns then registerNameSpace GlobalNS_ID (Some static_global_addr) rg else rg)
         in foldl (\<lambda>r (i, n). bind_e r (registerType GlobalNS_ID i (Some (MetaType_make n)))) (Inr rg) global_meta_types)
      else Inr rg)"

section \<open>What is registered is found\<close>

lemma init_idem [simp]: "initMetaTypes (initMetaTypes rg) = initMetaTypes rg"
  by (simp add: initMetaTypes_def)

lemma initMetaTypes_fixed: "rg_init rg \<Longrightarrow> initMetaTypes rg = rg"
  by (simp add: initMetaTypes_def)

lemma init_sets [simp]: "rg_init (initMetaTypes rg)"
  by (simp add: initMetaTypes_def)

definition named_ns :: "int \<Rightarrow> meta_registry \<Rightarrow> bool" where
  "named_ns ns_id rg \<longleftrightarrow> (case map_find (rg_ns rg) ns_id of None \<Rightarrow> False | Some a \<Rightarrow> MetaNameSpace_isValid (rg_store rg a))"

lemma registerType_facts:
  assumes "registerType ns i (Some t) rg = Inr rg'"
  obtains a where "map_find (rg_ns (initMetaTypes rg)) ns = Some a"
    "rg' = (initMetaTypes rg)\<lparr>rg_store := (rg_store (initMetaTypes rg))(a :=
       rg_store (initMetaTypes rg) a \<lparr>ns_types := map_set i t (ns_types (rg_store (initMetaTypes rg) a))\<rparr>)\<rparr>"
    "initMetaTypes rg' = rg'"
  using assms by (auto simp: registerType_def Let_def initMetaTypes_fixed split: option.splits)

lemma registeredType_registerType:
  assumes "registerType ns i (Some t) rg = Inr rg'" "named_ns ns (initMetaTypes rg)"
  shows "fst (registeredType ns j rg') = (if j = i then t else fst (registeredType ns j rg))"
  using assms(1)
proof (rule registerType_facts)
  fix a
  assume a: "map_find (rg_ns (initMetaTypes rg)) ns = Some a" and
    rg': "rg' = (initMetaTypes rg)\<lparr>rg_store := (rg_store (initMetaTypes rg))(a :=
       rg_store (initMetaTypes rg) a \<lparr>ns_types := map_set i t (ns_types (rg_store (initMetaTypes rg) a))\<rparr>)\<rparr>"
    and i: "initMetaTypes rg' = rg'"
  show ?thesis
    using assms(2) a
    by (simp add: registeredType_def registeredNameSpace_def Let_def i, simp add: rg' named_ns_def MetaNameSpace_isValid_def map_find_set)
qed

lemma registerType_unknown:
  "map_find (rg_ns (initMetaTypes rg)) ns = None \<Longrightarrow>
    registerType ns i t rg = Inl (ShvException ''Unknown namespace id!'')"
  by (simp add: registerType_def Let_def)

text \<open>A name space that shares no object with the one changed keeps its types.\<close>

lemma registerType_other_ns:
  assumes "registerType ns i (Some t) rg = Inr rg'"
    and "map_find (rg_ns (initMetaTypes rg)) ns' \<noteq> map_find (rg_ns (initMetaTypes rg)) ns"
  shows "fst (registeredType ns' j rg') = fst (registeredType ns' j rg)"
  using assms(1)
proof (rule registerType_facts)
  fix a
  assume a: "map_find (rg_ns (initMetaTypes rg)) ns = Some a" and
    rg': "rg' = (initMetaTypes rg)\<lparr>rg_store := (rg_store (initMetaTypes rg))(a :=
       rg_store (initMetaTypes rg) a \<lparr>ns_types := map_set i t (ns_types (rg_store (initMetaTypes rg) a))\<rparr>)\<rparr>"
    and i: "initMetaTypes rg' = rg'"
  show ?thesis
    using assms(2) a
    by (simp add: registeredType_def registeredNameSpace_def Let_def i, auto simp: rg' split: option.splits)
qed

lemma global_types_registered:
  "\<exists>rg. GlobalNS_registerMetaTypes registry_start = Inr rg \<and>
     (\<forall>(i, n) \<in> set global_meta_types. fst (registeredType GlobalNS_ID i rg) = MetaType_make n)"
  by (simp add: GlobalNS_registerMetaTypes_def registry_start_def registeredNameSpace_def initMetaTypes_def
      registerType_def global_meta_types_def MetaNameSpace_isValid_def MetaNameSpace_make_def registeredType_def Let_def)

end
