(* ===== verification/Chp_Utils.thy ===== *)
theory Chp_Utils
  imports Rpc_Value
begin

text \<open>
  The helpers of \<open>utils.h\<close> and \<open>utils.cpp\<close>: hexadecimal printing and parsing, dumps, and the merging of
  nested maps that layers configuration values (\<open>Utils::mergeMaps\<close>).
\<close>

section \<open>Hexadecimal text\<close>

definition hexNibble :: "byte \<Rightarrow> byte" where
  "hexNibble i = (if sint i < 10 then 48 + i else 65 + (i - 10))"

definition byteToHex :: "byte \<Rightarrow> string" where
  "byteToHex i = [char_of_byte (hexNibble (i div 16)), char_of_byte (hexNibble (i mod 16))]"

function intToHex_loop :: "u64 \<Rightarrow> nat \<Rightarrow> string \<Rightarrow> string" where
  "intToHex_loop n ix ret =
     (if n > 0 then
        (let arr = byteToHex (ucast n)
         in intToHex_loop (drop_bit 8 n) (ix - 2) (ret[ix - 1 := arr ! 1, ix - 2 := arr ! 0]))
      else ret)"
  by pat_completeness auto
termination
proof (relation "measure (\<lambda>(n, ix, ret). unat n)")
  fix n :: u64 and ix :: nat and ret arr :: string
  assume "n > 0"
  then have "0 < unat n" by (simp add: unat_gt_0)
  then have "unat n div 256 < unat n" by simp
  then show "((drop_bit 8 n, ix - 2, ret[ix - 1 := arr ! 1, ix - 2 := arr ! 0]), n, ix, ret)
      \<in> measure (\<lambda>(n, ix, ret). unat n)"
    by (simp add: drop_bit_eq_div unat_div)
qed simp

declare intToHex_loop.simps [simp del]

text \<open>The instance for \<open>size_t\<close>: sixteen digits.\<close>

definition intToHex :: "u64 \<Rightarrow> string" where
  "intToHex n = intToHex_loop n 16 (replicate 16 CHR ''0'')"

record dump_state =
  ds_ret :: string
  ds_hex :: string
  ds_str :: string
  ds_num :: string

definition hexDump_step :: "dump_state \<Rightarrow> nat \<times> byte \<Rightarrow> dump_state" where
  "hexDump_step st ic =
     (let (i, c) = ic;
          hex_l = ds_hex st @ byteToHex c;
          str_l = ds_str st @ [if sint c \<ge> 32 \<and> sint c < 127 then char_of_byte c else CHR ''.'']
      in if (i + 1) mod 16 = 0
         then \<lparr>ds_ret = ds_ret st @ ds_num st @ '' '' @ hex_l @ '' '' @ str_l @ [CHR 0x0A],
               ds_hex = [], ds_str = [], ds_num = intToHex (word_of_nat (i + 1))\<rparr>
         else st\<lparr>ds_hex := hex_l @ '' '', ds_str := str_l\<rparr>)"

definition hexDump :: "bytes \<Rightarrow> string" where
  "hexDump bs =
     (let st = foldl hexDump_step \<lparr>ds_ret = [], ds_hex = [], ds_str = [], ds_num = intToHex 0\<rparr> (enumerate 0 bs)
      in if ds_hex st \<noteq> []
         then ds_ret st @ ds_num st @ '' '' @ ds_hex st @ replicate (16 * 3 - length (ds_hex st)) CHR '' '' @ ds_str st
         else ds_ret st)"

definition hexArray :: "bytes \<Rightarrow> string" where
  "hexArray bs =
     foldl (\<lambda>ret (i, c). (if i > 0 then ret @ '','' else ret) @ ''0x'' @ byteToHex c) ''['' (enumerate (0::nat) bs) @ '']''"

definition Utils_binaryDump :: "bytes \<Rightarrow> string" where
  "Utils_binaryDump bs =
     foldl (\<lambda>ret (i, u). (if i > 0 then ret @ ''|'' else ret) @
         map (\<lambda>j. if u AND drop_bit j 128 \<noteq> 0 then CHR ''1'' else CHR ''0'') [0..<8]) [] (enumerate (0::nat) bs)"

text \<open>Positions are of type \<open>size_t\<close>, and \<open>start_pos + length\<close> wraps around.\<close>

definition Utils_toHex :: "bytes \<Rightarrow> u64 \<Rightarrow> u64 \<Rightarrow> string" where
  "Utils_toHex bs start_pos len =
     (let max_pos = min (length bs) (unat (start_pos + len))
      in concat (map (\<lambda>i. byteToHex (bs ! i)) [unat start_pos..<max_pos]))"

definition Utils_toHexElided :: "bytes \<Rightarrow> u64 \<Rightarrow> u64 \<Rightarrow> string" where
  "Utils_toHexElided bs start_pos max_len =
     (let hex = Utils_toHex bs start_pos (max_len + 1)
      in if length hex > 3 \<and> length hex > unat max_len
         then take (length hex - 4) hex @ ''...'' else hex)"

definition fromHex_char :: "char \<Rightarrow> byte" where
  "fromHex_char c =
     (let b = byte_of_char c
      in if b \<ge> 48 \<and> b \<le> 57 then b - 48
         else if b \<ge> 97 \<and> b \<le> 102 then b - 97 + 10
         else if b \<ge> 65 \<and> b \<le> 70 then b - 65 + 10
         else - 1)"

fun Utils_fromHex :: "string \<Rightarrow> bytes" where
  "Utils_fromHex [] = []"
| "Utils_fromHex [c] = [16 * fromHex_char c]"
| "Utils_fromHex (c # d # cs) = (16 * fromHex_char c + fromHex_char d) # Utils_fromHex cs"

definition size_max :: u64 where "size_max = 0xFFFFFFFFFFFFFFFF"

section \<open>Hexadecimal text and back\<close>

lemma unat_less_of_nat: "n < 256 \<Longrightarrow> unat (word_of_nat n :: byte) = n"
  by (simp add: unat_of_nat)

lemma nibble_roundtrip: "i < 16 \<Longrightarrow> fromHex_char (char_of_byte (hexNibble i)) = i"
proof -
  assume "i < 16"
  then have "unat i \<in> set [0..<16]" by (simp add: word_less_nat_alt)
  moreover have "\<forall>n \<in> set [0..<16]. fromHex_char (char_of_byte (hexNibble (word_of_nat n))) = word_of_nat n"
    unfolding fromHex_char_def hexNibble_def byte_of_char_of_byte by code_simp
  ultimately have "fromHex_char (char_of_byte (hexNibble (word_of_nat (unat i)))) = word_of_nat (unat i)" by blast
  then show ?thesis by simp
qed

lemma fromHex_byteToHex: "Utils_fromHex (byteToHex b @ cs) = b # Utils_fromHex cs"
proof -
  have "b div 16 < 16" "b mod 16 < 16"
    using unsigned_less [of b] by (simp_all add: word_less_nat_alt unat_div unat_mod_distrib div_less_iff_less_mult)
  moreover have "16 * (b div 16) + b mod 16 = b" by (metis mult.commute div_mult_mod_eq)
  ultimately show ?thesis by (simp add: byteToHex_def nibble_roundtrip)
qed

lemma toHex_all: "length bs < 2 ^ 64 \<Longrightarrow> Utils_toHex bs 0 size_max = concat (map byteToHex bs)"
proof -
  assume "length bs < 2 ^ 64"
  then have "min (length bs) (unat size_max) = length bs" by (simp add: size_max_def)
  moreover have "map (\<lambda>i. byteToHex (bs ! i)) [0..<length bs] = map byteToHex bs"
    by (rule nth_equalityI) simp_all
  ultimately show ?thesis by (simp add: Utils_toHex_def Let_def)
qed

lemma fromHex_concat: "Utils_fromHex (concat (map byteToHex bs)) = bs"
  by (induction bs) (simp_all add: fromHex_byteToHex)

section \<open>Merging maps\<close>

text \<open>
  \<open>mergeMaps(value_base, value_over)\<close> recurses over \<open>value_over\<close>.  The companions pair every key of
  the upper value with the merge of its element.  The merged value is a map, hence valid, so
  \<open>setMetaValue\<close> does not throw (lemma \<open>put_meta_no_throw\<close>).
\<close>

definition put_meta_i :: "rpc_value \<Rightarrow> int \<Rightarrow> rpc_value \<Rightarrow> rpc_value" where
  "put_meta_i w k v = (case RpcValue_setMetaValue_i k v w of Inl _ \<Rightarrow> w | Inr w' \<Rightarrow> w')"

definition put_meta_s :: "rpc_value \<Rightarrow> string \<Rightarrow> rpc_value \<Rightarrow> rpc_value" where
  "put_meta_s w k v = (case RpcValue_setMetaValue_s k v w of Inl _ \<Rightarrow> w | Inr w' \<Rightarrow> w')"

definition merge_into ::
  "(string \<times> (rpc_value \<Rightarrow> rpc_value)) list \<Rightarrow>
   (int \<times> (rpc_value \<Rightarrow> rpc_value)) list \<times> (string \<times> (rpc_value \<Rightarrow> rpc_value)) list \<Rightarrow> rpc_value \<Rightarrow> rpc_value" where
  "merge_into elems metas value_base =
     (let merged = foldl (\<lambda>w (k, f). RpcValue_set_s k (f (RpcValue_at_s w k invalid_value)) w) value_base elems;
          meta_base = RpcValue_metaData value_base;
          merged = foldl (\<lambda>w (k, f). put_meta_i w k (f (RpcMetaData_value_i meta_base k invalid_value))) merged (fst metas)
      in foldl (\<lambda>w (k, f). put_meta_s w k (f (RpcMetaData_value_s meta_base k invalid_value))) merged (snd metas))"

primrec merge_over :: "rpc_value \<Rightarrow> rpc_value \<Rightarrow> rpc_value"
  and merge_elems :: "variant \<Rightarrow> (string \<times> (rpc_value \<Rightarrow> rpc_value)) list option"
  and merge_metas :: "rpc_meta \<Rightarrow> (int \<times> (rpc_value \<Rightarrow> rpc_value)) list \<times> (string \<times> (rpc_value \<Rightarrow> rpc_value)) list"
where
  "merge_over (RpcValue m x) = (\<lambda>value_base.
     let fallback = (if RpcValue_isValid (RpcValue m x) then RpcValue m x else value_base)
     in case merge_elems x of
          Some elems \<Rightarrow>
            if RpcValue_isMap value_base
            then merge_into elems (case map_option merge_metas m of None \<Rightarrow> ([], []) | Some mm \<Rightarrow> mm) value_base
            else fallback
        | None \<Rightarrow> fallback)"
| "merge_elems VInvalid = None"
| "merge_elems VNull = None"
| "merge_elems (VUInt u) = None"
| "merge_elems (VInt i) = None"
| "merge_elems (VDouble d) = None"
| "merge_elems (VBool b) = None"
| "merge_elems (VBlob b) = None"
| "merge_elems (VString s) = None"
| "merge_elems (VDateTime d) = None"
| "merge_elems (VDecimal d) = None"
| "merge_elems (VList l) = None"
| "merge_elems (VMap m) = Some (map (map_prod id merge_over) m)"
| "merge_elems (VIMap m) = None"
| "merge_metas (MetaData im sm) = (map (map_prod id merge_over) im, map (map_prod id merge_over) sm)"

definition Utils_mergeMaps :: "rpc_value \<Rightarrow> rpc_value \<Rightarrow> rpc_value" where
  "Utils_mergeMaps value_base value_over = merge_over value_over value_base"

lemma put_meta_no_throw:
  "RpcValue_isMap w \<Longrightarrow> RpcValue_setMetaValue_i k v w = Inr (put_meta_i w k v)"
  "RpcValue_isMap w \<Longrightarrow> RpcValue_setMetaValue_s s v w = Inr (put_meta_s w s v)"
  by (auto simp: put_meta_i_def put_meta_s_def RpcValue_setMetaValue_i_def RpcValue_setMetaValue_s_def type_test_defs)

lemma put_meta_var [simp]: "rv_var (put_meta_i w k v) = rv_var w" "rv_var (put_meta_s w s v) = rv_var w"
  by (auto simp: put_meta_i_def put_meta_s_def RpcValue_setMetaValue_i_def RpcValue_setMetaValue_s_def)

lemma put_metas_var:
  "rv_var (foldl (\<lambda>w (k, f). put_meta_i w k (g k f)) w ims) = rv_var w"
  "rv_var (foldl (\<lambda>w (k, f). put_meta_s w k (h k f)) w sms) = rv_var w"
  by (induction ims arbitrary: w; simp add: case_prod_unfold) (induction sms arbitrary: w; simp add: case_prod_unfold)

lemma set_s_isMap [simp]: "RpcValue_isMap (RpcValue_set_s k v w) = RpcValue_isMap w"
  by (cases "rv_var w") (auto simp: RpcValue_set_s_def type_test_defs)

text \<open>Elements of the upper map are merged into those of the base, the others stay.\<close>

lemma merge_elems_at:
  assumes "RpcValue_isMap w" "distinct (map fst elems)"
  shows "RpcValue_at_s (foldl (\<lambda>w (k, f). RpcValue_set_s k (f (RpcValue_at_s w k invalid_value)) w) w elems) key invalid_value =
    (case map_of elems key of
       Some f \<Rightarrow> (let v = f (RpcValue_at_s w key invalid_value) in if RpcValue_isValid v then v else invalid_value)
     | None \<Rightarrow> RpcValue_at_s w key invalid_value)"
  using assms
proof (induction elems arbitrary: w)
  case (Cons kf elems)
  obtain k f where kf: "kf = (k, f)" by (cases kf)
  have k: "map_of elems k = None" using Cons.prems(2) by (simp add: kf map_of_eq_None_iff)
  show ?case
    using Cons.IH [of "RpcValue_set_s k (f (RpcValue_at_s w k invalid_value)) w"] Cons.prems k
    by (auto simp: kf at_set_s Let_def split: option.splits)
qed simp

lemma at_s_var: "rv_var v = rv_var w \<Longrightarrow> RpcValue_at_s v key d = RpcValue_at_s w key d"
  by (simp add: RpcValue_at_s_def)

lemma map_of_map_prod_id: "map_of (map (map_prod id f) m) k = map_option f (map_of m k)"
  by (induction m) auto

lemma mergeMaps_at:
  assumes base: "RpcValue_isMap b" and over: "rv_var v = VMap m" "map_wf m"
  shows "RpcValue_at_s (Utils_mergeMaps b v) key invalid_value =
    (case map_find m key of
       Some w \<Rightarrow> (let r = Utils_mergeMaps (RpcValue_at_s b key invalid_value) w in if RpcValue_isValid r then r else invalid_value)
     | None \<Rightarrow> RpcValue_at_s b key invalid_value)"
proof -
  obtain mo where v: "v = RpcValue mo (VMap m)" using over(1) by (cases v) simp
  define elems where "elems = map (map_prod id merge_over) m"
  have d: "distinct (map fst elems)"
    using over(2) by (simp add: elems_def map_wf_def strict_sorted_iff comp_def)
  have f: "map_of elems key = map_option merge_over (map_find m key)"
    by (simp add: elems_def map_find_def map_of_map_prod_id)
  have var: "rv_var (Utils_mergeMaps b v) =
      rv_var (foldl (\<lambda>w (k, f). RpcValue_set_s k (f (RpcValue_at_s w k invalid_value)) w) b elems)"
    using base by (simp add: Utils_mergeMaps_def v merge_into_def Let_def put_metas_var elems_def)
  show ?thesis
    unfolding at_s_var [OF var] merge_elems_at [OF base d] f
    by (simp add: Utils_mergeMaps_def split: option.splits)
qed

text \<open>Where one of the two is no map, a valid upper value replaces the base.\<close>

lemma mergeMaps_replace:
  "\<not> (RpcValue_isMap b \<and> RpcValue_isMap v) \<Longrightarrow> Utils_mergeMaps b v = (if RpcValue_isValid v then v else b)"
  by (cases v; cases "rv_var v") (auto simp: Utils_mergeMaps_def type_test_defs)

end
