(* ===== verification/Chain_Pack_Prefix.thy ===== *)
theory Chain_Pack_Prefix
  imports Chain_Pack_Roundtrip
begin

text \<open>
  Reading from a stream that is still growing.  What the ChainPack reader made of the bytes at
  hand it makes of them too when more bytes follow: only a parse error, which running out of input
  is, can turn into something else.  Hence a packed value that was cut short is always noticed,
  and the frame readers, which try again with every piece of data, cannot be misled by the
  place where the data was cut.
\<close>

section \<open>Results that survive more input\<close>

definition grows :: "bytes \<Rightarrow> (exn + 'a \<times> item \<times> bytes) option \<Rightarrow> (exn + 'a \<times> item \<times> bytes) option \<Rightarrow> bool" where
  "grows q a b =
     (case a of
        None \<Rightarrow> True
      | Some (Inl e) \<Rightarrow> e = ParseException \<or> b = Some (Inl e)
      | Some (Inr (x, it, r)) \<Rightarrow> b = Some (Inr (x, it, r @ q)))"

lemma growsI:
  assumes "\<And>x it r. a = Some (Inr (x, it, r)) \<Longrightarrow> b = Some (Inr (x, it, r @ q))"
    and "\<And>e. a = Some (Inl e) \<Longrightarrow> e \<noteq> ParseException \<Longrightarrow> b = Some (Inl e)"
  shows "grows q a b"
  using assms by (auto simp: grows_def split: option.split sum.split)

lemma grows_simps [simp]:
  "grows q None b" "grows q (Some (Inl ParseException)) b"
  "grows q (Some (Inr (x, it, r))) b \<longleftrightarrow> b = Some (Inr (x, it, r @ q))"
  "grows q (Some (Inl e)) (Some (Inl e))"
  by (simp_all add: grows_def)

lemma grows_bind:
  assumes "grows q a b" and "\<And>x it r. a = Some (Inr (x, it, r)) \<Longrightarrow> grows q (f (x, it, r)) (g (x, it, r @ q))"
  shows "grows q (bind_r a f) (bind_r b g)"
proof (cases a)
  case (Some y)
  then show ?thesis
  proof (cases y)
    case (Inl e)
    then show ?thesis using assms(1) Some by (auto simp: grows_def)
  next
    case (Inr z)
    obtain x it r where z: "z = (x, it, r)" by (metis prod_cases3)
    then show ?thesis using assms(1) assms(2) [of x it r] Some Inr by simp
  qed
qed simp

lemma grows_Inr: "grows q a b \<Longrightarrow> a = Some (Inr (x, it, r)) \<Longrightarrow> b = Some (Inr (x, it, r @ q))"
  by simp

lemma grows_Inl: "grows q a b \<Longrightarrow> a = Some (Inl e) \<Longrightarrow> e \<noteq> ParseException \<Longrightarrow> b = Some (Inl e)"
  by (auto simp: grows_def)

section \<open>Items\<close>

text \<open>
  As rewrite rules: with more input a function that has a result has the same one, and the rest
  of the input is longer.
\<close>

named_theorems more_input "results of the unpacking functions on longer input"

abbreviation longer :: "bytes \<Rightarrow> ('a \<times> bytes) option \<Rightarrow> ('a \<times> bytes) option" where
  "longer q \<equiv> map_option (map_prod id (\<lambda>r. r @ q))"

lemma take_be_more [more_input]: "take_be n w inp \<noteq> None \<Longrightarrow> take_be n w (inp @ q) = longer q (take_be n w inp)"
  by (induction n w inp rule: take_be.induct) auto

lemma take_le_more [more_input]: "take_le n inp \<noteq> None \<Longrightarrow> take_le n (inp @ q) = longer q (take_le n inp)"
  by (induction n inp rule: take_le.induct) (auto simp: option.map_comp comp_def case_prod_unfold)

lemma unpack_uint_more [more_input]: "unpack_uint inp \<noteq> None \<Longrightarrow> unpack_uint (inp @ q) = longer q (unpack_uint inp)"
  by (cases inp) (auto simp: unpack_uint_def Let_def more_input split: option.splits if_splits)

lemma unpack_int_more [more_input]: "unpack_int inp \<noteq> None \<Longrightarrow> unpack_int (inp @ q) = longer q (unpack_int inp)"
  by (auto simp: unpack_int_def more_input split: option.splits)

lemma unpack_uint_data2_more [more_input]:
  "cchainpack_unpack_uint_data2 inp \<noteq> None \<Longrightarrow>
   cchainpack_unpack_uint_data2 (inp @ q) = longer q (cchainpack_unpack_uint_data2 inp)"
  by (auto simp: cchainpack_unpack_uint_data2_def more_input)

lemma cstring_loop_more [more_input]:
  "cstring_loop room ch inp \<noteq> None \<Longrightarrow>
   cstring_loop room ch (inp @ q) = map_option (map_prod id (map_prod id (\<lambda>r. r @ q))) (cstring_loop room ch inp)"
  by (induction room ch inp rule: cstring_loop.induct) (auto split: list.splits)

lemma sized_loop_more [more_input]:
  "sized_loop room n ch inp \<noteq> None \<Longrightarrow>
   sized_loop room n ch (inp @ q) = map_option (map_prod id (map_prod id (\<lambda>r. r @ q))) (sized_loop room n ch inp)"
  by (induction room n ch inp rule: sized_loop.induct) auto

lemma unpack_string_more [more_input]:
  "unpack_string s inp \<noteq> None \<Longrightarrow> unpack_string s (inp @ q) = longer q (unpack_string s inp)"
  by (auto simp: unpack_string_def more_input split: if_splits option.splits)

lemma unpack_decimal_more [more_input]:
  "unpack_decimal inp \<noteq> None \<Longrightarrow> unpack_decimal (inp @ q) = longer q (unpack_decimal inp)"
  by (auto simp: unpack_decimal_def more_input split: option.splits)

lemma unpack_date_time_more [more_input]:
  "unpack_date_time inp \<noteq> None \<Longrightarrow> unpack_date_time (inp @ q) = longer q (unpack_date_time inp)"
  by (auto simp: unpack_date_time_def more_input split: option.splits)

lemma unpack_sized_more [more_input]:
  "unpack_sized inp \<noteq> None \<Longrightarrow> unpack_sized (inp @ q) = longer q (unpack_sized inp)"
  by (auto simp: unpack_sized_def more_input split: option.splits)

lemma longer_map [simp]: "longer q (map_option (map_prod f id) x) = map_option (map_prod f id) (longer q x)"
  by (simp add: option.map_comp prod.map_comp comp_def)

lemma unpack_item_more [more_input]:
  "unpack_item b inp \<noteq> None \<Longrightarrow> unpack_item b (inp @ q) = longer q (unpack_item b inp)"
  unfolding unpack_item_def by (auto simp: more_input split: if_split_asm)

lemma unpack_fresh_more [more_input]:
  "unpack_fresh inp \<noteq> None \<Longrightarrow> unpack_fresh (inp @ q) = longer q (unpack_fresh inp)"
  by (auto simp: unpack_fresh_def more_input split: list.splits)

lemma unpack_next_more [more_input]:
  "cchainpack_unpack_next it inp \<noteq> None \<Longrightarrow>
   cchainpack_unpack_next it (inp @ q) = longer q (cchainpack_unpack_next it inp)"
  by (cases it) (auto simp: cchainpack_unpack_next_def more_input split: if_splits)

lemma unpackNext_more: "unpackNext it inp = Inr (x, r) \<Longrightarrow> unpackNext it (inp @ q) = Inr (x, r @ q)"
  by (auto simp: unpackNext_def more_input split: option.splits)

lemma unpackNext_error: "unpackNext it inp = Inl e \<Longrightarrow> e = ParseException"
  by (auto simp: unpackNext_def split: option.splits)

lemma readUIntData_more: "readUIntData inp = Some (n, r) \<Longrightarrow> readUIntData (inp @ q) = Some (n, r @ q)"
  by (simp add: readUIntData_def more_input)

lemma chunk_loop_more:
  "chunk_loop is_blob str it inp = Inr (s, it', r) \<Longrightarrow> chunk_loop is_blob str it (inp @ q) = Inr (s, it', r @ q)"
proof (induction is_blob str it inp rule: chunk_loop.induct)
  case (1 is_blob str it inp)
  show ?case
  proof (cases "last_chunk it")
    case True
    then show ?thesis using "1.prems" by (auto simp: chunk_loop.simps [of is_blob str it'] chunk_loop.simps [of is_blob str it])
  next
    case False
    with "1.prems" obtain s' r' where s': "unpack_string it inp = Some (s', r')"
      and rec: "chunk_loop is_blob (str @ chunk it) s' r' = Inr (s, it', r)"
      by (subst (asm) chunk_loop.simps) (auto simp: unpackNext_chunk split: option.splits)
    have "chunk_loop is_blob (str @ chunk it) s' (r' @ q) = Inr (s, it', r @ q)"
      using "1.IH" [OF refl False _ refl _ rec] s' by (simp add: unpackNext_chunk [OF False])
    then show ?thesis
      using False s' by (subst chunk_loop.simps) (simp add: unpackNext_chunk more_input)
  qed
qed

lemma chunk_loop_error: "chunk_loop is_blob str it inp = Inl e \<Longrightarrow> e = ParseException"
proof (induction is_blob str it inp rule: chunk_loop.induct)
  case (1 is_blob str it inp)
  show ?case
  proof (cases "unpackNext (chunk_item is_blob it) inp")
    case (Inl e')
    then show ?thesis using "1.prems" unpackNext_error [OF Inl]
      by (subst (asm) chunk_loop.simps) (auto simp: Let_def split: if_splits)
  next
    case (Inr x)
    then show ?thesis using "1.prems" "1.IH" [OF refl _ Inr prod.collapse]
      by (subst (asm) chunk_loop.simps) (auto simp: Let_def split: if_splits option.splits prod.splits)
  qed
qed

section \<open>Values\<close>

locale growing_reader = value_reader +
  fixes rd' :: reader and q :: bytes
  assumes rd_grows: "item_finished it \<Longrightarrow> grows q (rd it inp) (rd' it (inp @ q))"
begin

lemma parseList_grows:
  "item_finished it \<Longrightarrow> n \<le> m \<Longrightarrow> grows q (parseList rd n lst it inp) (parseList rd' m lst it (inp @ q))"
proof (induction n arbitrary: m lst it inp)
  case (Suc n)
  then obtain m' where m: "m = Suc m'" "n \<le> m'" by (cases m) auto
  show ?case
    unfolding m parseList.simps
    by (rule grows_bind [OF rd_grows [OF Suc.prems(1)]])
       (use Suc.IH m(2) rd_sound [OF Suc.prems(1)] in auto)
qed simp

lemma grows_step:
  assumes "\<And>a'. s = Inr a' \<Longrightarrow> grows q (f a') (g a')"
  shows "grows q (bind_r (Some s) f) (bind_r (Some s) g)"
  using assms by (cases s) (auto simp: grows_def)

lemma parse_pairs_grows:
  "item_finished it \<Longrightarrow> n \<le> m \<Longrightarrow>
   grows q (parse_pairs rd step n a it inp) (parse_pairs rd' step m a it (inp @ q))"
proof (induction n arbitrary: m a it inp)
  case (Suc n)
  then obtain m' where m: "m = Suc m'" "n \<le> m'" by (cases m) auto
  show ?case
    unfolding m parse_pairs.simps
  proof (rule grows_bind [OF rd_grows [OF Suc.prems(1)]])
    fix key it1 r1 assume rd1: "rd it inp = Some (Inr (key, it1, r1))"
    note fin1 = conjunct1 [OF rd_sound [OF Suc.prems(1) rd1]]
    have "grows q
        (bind_r (rd it1 r1) (\<lambda>(val, it, inp). bind_r (Some (step key val a)) (\<lambda>a'. parse_pairs rd step n a' it inp)))
        (bind_r (rd' it1 (r1 @ q)) (\<lambda>(val, it, inp). bind_r (Some (step key val a)) (\<lambda>a'. parse_pairs rd' step m' a' it inp)))"
      by (rule grows_bind [OF rd_grows [OF fin1]])
         (auto intro!: grows_step Suc.IH m(2) dest: rd_sound [OF fin1] simp del: bind_r_simps)
    then show "grows q
        (case (key, it1, r1) of (key, it, inp) \<Rightarrow>
           if is_container_end it then Some (Inr (a, ItemInvalid, inp))
           else bind_r (rd it inp) (\<lambda>(val, it, inp). bind_r (Some (step key val a)) (\<lambda>a'. parse_pairs rd step n a' it inp)))
        (case (key, it1, r1 @ q) of (key, it, inp) \<Rightarrow>
           if is_container_end it then Some (Inr (a, ItemInvalid, inp))
           else bind_r (rd' it inp) (\<lambda>(val, it, inp). bind_r (Some (step key val a)) (\<lambda>a'. parse_pairs rd' step m' a' it inp)))"
      by simp
  qed
qed simp

lemma read_meta_grows:
  assumes fin: "item_finished it" and ne: "inp \<noteq> []"
  shows "grows q (read_meta rd it inp) (read_meta rd' it (inp @ q))"
proof (cases "\<exists>inp'. inp = CP_MetaMap # inp'")
  case True
  then obtain inp' where inp: "inp = CP_MetaMap # inp'" by blast
  have "unpackNext it (CP_MetaMap # r) = Inr (ItemMeta, r)" for r
    by (simp add: unpackNext_def unpack_next_finished [OF fin] unpack_fresh_def unpack_item_def)
  then show ?thesis
    using parse_pairs_grows [of ItemMeta "length inp" "length (inp @ q)" meta_step meta_empty inp']
    by (simp add: read_meta_def inp parseMetaData_def)
next
  case False
  with ne show ?thesis by (auto simp: read_meta_def split: list.splits)
qed

lemma grows_pair: "grows q a b \<Longrightarrow> grows q (bind_r a (\<lambda>(l, r). Some (Inr (f l, r)))) (bind_r b (\<lambda>(l, r). Some (Inr (f l, r))))"
  by (erule grows_bind) simp

lemma grows_chunks:
  "grows q (Some (map_sum id (\<lambda>(str, s', r). (f str, g s', r)) (chunk_loop is_blob [] s inp)))
     (Some (map_sum id (\<lambda>(str, s', r). (f str, g s', r)) (chunk_loop is_blob [] s (inp @ q))))"
  by (cases "chunk_loop is_blob [] s inp") (auto dest: chunk_loop_error chunk_loop_more [where q = q])

lemma read_switch_grows: "grows q (read_switch rd it inp) (read_switch rd' it (inp @ q))"
  by (cases it)
     (simp_all add: read_switch_def grows_pair parseList_grows parse_pairs_grows parseMap_def parseIMap_def grows_chunks
       del: parseList.simps parse_pairs.simps)

end

lemma grows_attach:
  "grows q (Some (map_sum id (\<lambda>v'. (v', it, r)) (attach_meta md v)))
     (Some (map_sum id (\<lambda>v'. (v', it, r @ q)) (attach_meta md v)))"
  by (cases "attach_meta md v") auto

lemma grows_unpackNext:
  assumes "\<And>it' r. unpackNext it inp = Inr (it', r) \<Longrightarrow> grows q (f (it', r)) (g (it', r @ q))"
  shows "grows q (bind_r (Some (unpackNext it inp)) f) (bind_r (Some (unpackNext it (inp @ q))) g)"
proof (cases "unpackNext it inp")
  case (Inl e)
  then show ?thesis using unpackNext_error [OF Inl] by simp
next
  case (Inr x)
  obtain it' r where x: "x = (it', r)" by (cases x)
  then show ?thesis using assms [of it' r] unpackNext_more [of it inp it' r q] Inr by simp
qed

lemma unpackNext_empty: "item_finished it \<Longrightarrow> unpackNext it [] = Inl ParseException"
  by (simp add: unpackNext_def unpack_next_finished unpack_fresh_def)

lemma rd_value_grows: "growing_reader (rd_value n) (rd_value (n + k)) q"
proof (induction n)
  case 0
  show ?case by unfold_locales simp_all
next
  case (Suc n)
  show ?case
  proof
    fix it inp
    assume fin: "item_finished it"
    show "grows q (rd_value (Suc n) it inp) (rd_value (Suc n + k) it (inp @ q))"
    proof (cases "inp = []")
      case True
      then show ?thesis by (simp add: read_meta_def unpackNext_empty [OF fin])
    next
      case False
      show ?thesis
        unfolding add_Suc rd_value.simps
        by (rule grows_bind [OF growing_reader.read_meta_grows [OF Suc fin False]], unfold prod.case,
            rule grows_unpackNext, unfold prod.case, rule grows_bind [OF growing_reader.read_switch_grows [OF Suc]])
           (simp add: grows_attach)
    qed
  qed
qed

interpretation rdg: growing_reader "rd_value n" "rd_value (n + k)" q for n k q
  by (rule rd_value_grows)

section \<open>Cut input\<close>

lemma ChainPackReader_read_grows:
  assumes "item_finished it"
  shows "grows q (Some (ChainPackReader_read it inp)) (Some (ChainPackReader_read it (inp @ q)))"
  using rdg.rd_grows [OF assms, where n = "rd_fuel inp" and k = "length q" and inp = inp and q = q]
  by (simp add: ChainPackReader_read_runs [OF assms, symmetric]) (simp add: rd_fuel_def)

lemma ChainPackReader_read_meta_grows:
  assumes "item_finished it" "inp \<noteq> []"
  shows "grows q (Some (ChainPackReader_read_meta it inp)) (Some (ChainPackReader_read_meta it (inp @ q)))"
proof -
  have run: "read_meta (rd_value (rd_fuel i)) it i = Some (ChainPackReader_read_meta it i)" for i
    using rdt.read_meta_total [OF assms(1), of i "rd_fuel i"]
    by (auto simp: ChainPackReader_read_meta_def run_rd_def rd_fuel_def split: option.splits)
  have "rd_fuel (inp @ q) = rd_fuel inp + length q" by (simp add: rd_fuel_def)
  then show ?thesis
    using rdg.read_meta_grows [OF assms, where n = "rd_fuel inp" and k = "length q" and q = q]
    unfolding run [symmetric] by simp
qed

text \<open>A reader that is given only a part of what was written throws a parse error.\<close>

lemma cut_read:
  assumes "grows q (Some x) (Some (Inr (v, it, r)))" and "length r < length q"
  shows "x = Inl ParseException"
proof (cases x)
  case (Inl e)
  then show ?thesis using assms(1) by (auto simp: grows_def)
next
  case (Inr y)
  obtain v' it' r' where "y = (v', it', r')" by (metis prod_cases3)
  then show ?thesis using assms Inr by simp
qed

lemma read_cut_value:
  assumes "cp_ok v" "item_finished it" "write_value v = p @ q" "q \<noteq> []"
  shows "ChainPackReader_read it p = Inl ParseException"
proof -
  obtain it' where "ChainPackReader_read it (write_value v @ []) = Inr (cp_canon v, it', [])"
    using read_write [OF assms(1,2)] by blast
  then have "grows q (Some (ChainPackReader_read it p)) (Some (Inr (cp_canon v, it', [])))"
    using ChainPackReader_read_grows [OF assms(2), of q p] assms(3) by simp
  then show ?thesis by (rule cut_read) (use assms(4) in simp)
qed

end
