(* ===== verification/Frame_Stream.thy ===== *)
theory Frame_Stream
  imports Rpc_Frame Chain_Pack_Prefix
begin

text \<open>
  The frame writers and readers of the Qt sockets (\<open>libshviotqt/src/rpc/socket.cpp\<close>,
  \<open>socket.h\<close>): the queue of a \<open>FrameWriter\<close>, the part all \<open>FrameReader\<close>s share, and the
  length-prefixed frames of TCP and local sockets (\<open>StreamFrameWriter\<close>, \<open>StreamFrameReader\<close>).
  The theorems are about any way the bytes may be cut into pieces on their way.
\<close>

section \<open>\<open>FrameReader\<close>\<close>

text \<open>
  \<open>m_protocol\<close> and \<open>m_meta\<close> are read only while \<open>m_dataStart\<close> has a value, and they are set
  together with it; the three are one field.  A derived reader extends the record.
\<close>

record frame_reader =
  m_frames :: "rpc_frame list"
  m_head :: "(protocol_type \<times> rpc_meta \<times> nat) option"

definition FrameReader_isEmpty :: "'a frame_reader_scheme \<Rightarrow> bool" where
  "FrameReader_isEmpty r \<longleftrightarrow> m_frames r = []"

definition FrameReader_takeFrames :: "'a frame_reader_scheme \<Rightarrow> rpc_frame list \<times> 'a frame_reader_scheme" where
  "FrameReader_takeFrames r = (m_frames r, r\<lparr>m_frames := []\<rparr>)"

definition FrameReader_resetCommunication :: "'a frame_reader_scheme \<Rightarrow> 'a frame_reader_scheme" where
  "FrameReader_resetCommunication r = r\<lparr>m_frames := [], m_head := None\<rparr>"

text \<open>
  Meta data at the front of \<open>inp\<close>, with the rest.  ChainPack meta data is taken as missing when no
  byte is there: the peek sets \<open>eofbit\<close> and \<open>readCount\<close> is \<open>-1\<close>, which the callers treat as they
  treat a parse error.
\<close>

definition read_head_meta :: "cpon_ops \<Rightarrow> protocol_type \<Rightarrow> bytes \<Rightarrow> exn + rpc_meta \<times> bytes" where
  "read_head_meta cp protocol inp =
     (if protocol = PT_ChainPack
      then (if inp = [] then Inl ParseException
            else map_sum id (\<lambda>(md, it, rest). (md, rest)) (ChainPackReader_read_meta ItemInvalid inp))
      else cpon_read_meta cp inp)"

text \<open>
  \<open>tryToReadMeta\<close>: \<open>in\<close> is a stream over \<open>len\<close> bytes of which \<open>inp\<close> is left.  The result is the id of
  the request a response answers, or 0.
\<close>

definition FrameReader_tryToReadMeta :: "cpon_ops \<Rightarrow> nat \<Rightarrow> bytes \<Rightarrow> 'a frame_reader_scheme \<Rightarrow> exn + int \<times> 'a frame_reader_scheme" where
  "FrameReader_tryToReadMeta cp len inp r =
     (case (m_head r, inp) of
        (None, b # inp') \<Rightarrow>
          (case protocol_of_byte b of
             None \<Rightarrow> Inr (0, r)
           | Some protocol \<Rightarrow>
               (case read_head_meta cp protocol inp' of
                  Inl e \<Rightarrow> if e = ParseException then Inr (0, r) else Inl e
                | Inr (md, rest) \<Rightarrow>
                    (let r' = r\<lparr>m_head := Some (protocol, md, len - length rest)\<rparr>
                     in if RpcMessage_isResponse_m md
                        then map_sum id (\<lambda>rqid. (if rqid > 0 then rqid else 0, r'))
                               (RpcValue_toInt64 (RpcMessage_requestId_m md))
                        else Inr (0, r'))))
      | _ \<Rightarrow> Inr (0, r))"

section \<open>\<open>FrameWriter\<close>\<close>

text \<open>
  The queue \<open>m_messageDataToWrite\<close> is a list of byte strings.  \<open>addFrameData\<close> is virtual: the
  encoder is an argument.  A frame that cannot be written is logged and dropped.
\<close>

definition FrameWriter_addFrame :: "cpon_ops \<Rightarrow> (bytes \<Rightarrow> bytes \<Rightarrow> bytes) \<Rightarrow> rpc_frame \<Rightarrow> bytes list \<Rightarrow> bytes list" where
  "FrameWriter_addFrame cp encode frame queue =
     (case RpcFrame_toFrameHead cp frame of
        Inl _ \<Rightarrow> queue
      | Inr frame_head \<Rightarrow> queue @ [encode frame_head (fr_data frame)])"

text \<open>
  \<open>flushToDevice\<close>: \<open>dev\<close> is the device's \<open>write\<close>, which reports how much it took; the bytes taken
  are collected.  The loop ends: every round removes a byte string from the queue or shortens one.
\<close>

function FrameWriter_flushToDevice :: "('d \<Rightarrow> bytes \<Rightarrow> int \<times> 'd) \<Rightarrow> bytes \<Rightarrow> bytes list \<Rightarrow> 'd \<Rightarrow> bytes \<times> bytes list \<times> 'd" where
  "FrameWriter_flushToDevice dev sent [] d = (sent, [], d)"
| "FrameWriter_flushToDevice dev sent (data # queue) d =
     (case dev d data of
        (n, d') \<Rightarrow>
          if n \<le> 0 then (sent, data # queue, d')
          else if nat n < length data
          then FrameWriter_flushToDevice dev (sent @ take (nat n) data) (drop (nat n) data # queue) d'
          else FrameWriter_flushToDevice dev (sent @ data) queue d')"
  by pat_completeness auto
termination
  by (relation "measure (\<lambda>(dev, sent, queue, d). sum_list (map (Suc \<circ> length) queue))") auto

definition FrameWriter_clear :: "bytes list \<Rightarrow> bytes list" where
  "FrameWriter_clear queue = []"

text \<open>A web socket takes a message as a whole or not at all.\<close>

primrec FrameWriter_flushToWebSocket :: "(bytes \<Rightarrow> int) \<Rightarrow> bytes \<Rightarrow> bytes list \<Rightarrow> bytes \<times> bytes list" where
  "FrameWriter_flushToWebSocket send sent [] = (sent, [])"
| "FrameWriter_flushToWebSocket send sent (data # queue) =
     (if send data \<noteq> int (length data) then (sent, data # queue)
      else FrameWriter_flushToWebSocket send (sent @ data) queue)"

lemma device_flush_in_order:
  "FrameWriter_flushToDevice dev sent queue d = (sent', queue', d') \<Longrightarrow>
   sent' @ concat queue' = sent @ concat queue"
proof (induction dev sent queue d rule: FrameWriter_flushToDevice.induct)
  case (2 dev sent data queue d)
  obtain n d1 where n: "dev d data = (n, d1)" by (cases "dev d data")
  show ?case
    using "2.prems" "2.IH" [OF n [symmetric]] by (auto simp: n split: if_splits)
qed simp

lemma device_flush_all:
  "(\<And>d bs. bs \<noteq> [] \<Longrightarrow> fst (dev d bs) > 0) \<Longrightarrow> [] \<notin> set queue \<Longrightarrow>
   fst (snd (FrameWriter_flushToDevice dev sent queue d)) = []"
proof (induction dev sent queue d rule: FrameWriter_flushToDevice.induct)
  case (2 dev sent data queue d)
  obtain n d1 where n: "dev d data = (n, d1)" by (cases "dev d data")
  have "n > 0" using "2.prems"(1) [of data d] "2.prems"(2) n by auto
  then show ?case
    using "2.IH" [OF n [symmetric]] "2.prems" by (auto simp: n)
qed simp

section \<open>\<open>StreamFrameWriter\<close> and \<open>StreamFrameReader\<close>\<close>

definition StreamFrameWriter_addFrameData :: "bytes \<Rightarrow> bytes \<Rightarrow> bytes" where
  "StreamFrameWriter_addFrameData frame_head frame_data =
     cchainpack_pack_uint_data (word_of_nat (length frame_head + length frame_data)) @ frame_head @ frame_data"

record stream_reader = frame_reader +
  m_readBuffer :: bytes

definition StreamFrameReader_resetCommunication :: "stream_reader \<Rightarrow> stream_reader" where
  "StreamFrameReader_resetCommunication r = FrameReader_resetCommunication (r\<lparr>m_readBuffer := []\<rparr>)"

text \<open>
  The bytes of the frame that ends at \<open>end_pos\<close> and whose data start at \<open>start\<close>.  The sum of the two
  lengths and the difference are computed in \<open>size_t\<close>: a difference below zero is a number beyond
  every length, for which \<open>std::string\<close> takes all there is.
\<close>

definition frame_end :: "nat \<Rightarrow> u64 \<Rightarrow> nat" where
  "frame_end frame_len_size frame_size = (frame_len_size + unat frame_size) mod 2 ^ 64"

definition cut_data :: "bytes \<Rightarrow> nat \<Rightarrow> nat \<Rightarrow> bytes" where
  "cut_data buf start end_pos = (if start \<le> end_pos then take (end_pos - start) (drop start buf) else drop start buf)"

text \<open>
  The loop of \<open>addData\<close>.  It need not end (\<open>None\<close>): a frame size for which the sum wraps around to 0
  takes nothing from the buffer.  \<open>readUIntData\<close> fails only for want of bytes, and \<open>tellg\<close> is positive
  after it succeeded, so the two checks that follow it in the code never throw.
\<close>

partial_function (option) stream_loop :: "cpon_ops \<Rightarrow> int list \<Rightarrow> stream_reader \<Rightarrow> (exn + int list \<times> stream_reader) option" where
  "stream_loop cp ids r =
     (case readUIntData (m_readBuffer r) of
        None \<Rightarrow> Some (Inr (ids, r))
      | Some (frame_size, inp) \<Rightarrow>
          (case FrameReader_tryToReadMeta cp (length (m_readBuffer r)) inp r of
             Inl e \<Rightarrow> Some (Inl e)
           | Inr (rqid, r') \<Rightarrow>
               (let ids' = (if rqid > 0 then ids @ [rqid] else ids);
                    end_pos = frame_end (length (m_readBuffer r) - length inp) frame_size
                in if end_pos \<le> length (m_readBuffer r)
                   then (case m_head r' of
                           None \<Rightarrow> Some (Inl (RuntimeError ''Read RPC message meta data error.''))
                         | Some (protocol, meta, start) \<Rightarrow>
                             stream_loop cp ids'
                               (r'\<lparr>m_frames := m_frames r' @
                                     [\<lparr>fr_protocol = protocol, fr_meta = meta, fr_data = cut_data (m_readBuffer r) start end_pos\<rparr>],
                                   m_head := None, m_readBuffer := drop end_pos (m_readBuffer r)\<rparr>))
                   else Some (Inr (ids', r')))))"

definition StreamFrameReader_addData :: "cpon_ops \<Rightarrow> bytes \<Rightarrow> stream_reader \<Rightarrow> (exn + int list \<times> stream_reader) option" where
  "StreamFrameReader_addData cp data r = stream_loop cp [] (r\<lparr>m_readBuffer := m_readBuffer r @ data\<rparr>)"

section \<open>The head of a frame\<close>

text \<open>
  What the theorems ask of a frame: it is in ChainPack, its meta data are not empty and within the
  limits of the format, and if it is a response, its request id is a number.
\<close>

definition response_id :: "rpc_meta \<Rightarrow> int" where
  "response_id md =
     (if RpcMessage_isResponse_m md
      then (case RpcValue_toInt64 (RpcMessage_requestId_m md) of Inl _ \<Rightarrow> 0 | Inr i \<Rightarrow> if i > 0 then i else 0)
      else 0)"

definition frame_ok :: "rpc_frame \<Rightarrow> bool" where
  "frame_ok f \<longleftrightarrow> fr_protocol f = PT_ChainPack \<and> meta_wf (fr_meta f) \<and> meta_packable (fr_meta f) \<and>
     \<not> RpcMetaData_isEmpty (fr_meta f) \<and>
     (RpcMessage_isResponse_m (canon_meta (fr_meta f)) \<longrightarrow>
        \<not> isl (RpcValue_toInt64 (RpcMessage_requestId_m (canon_meta (fr_meta f)))))"

text \<open>The frame as it arrives, and the request ids that are reported for it.\<close>

definition delivered :: "rpc_frame \<Rightarrow> rpc_frame" where
  "delivered f = f\<lparr>fr_meta := canon_meta (fr_meta f)\<rparr>"

definition reported :: "rpc_frame \<Rightarrow> int list" where
  "reported f = (let i = response_id (canon_meta (fr_meta f)) in if i > 0 then [i] else [])"

definition chp_head :: "rpc_frame \<Rightarrow> bytes" where
  "chp_head f = protocol_byte PT_ChainPack # write_meta (fr_meta f)"

lemma chp_head_toFrameHead: "fr_protocol f = PT_ChainPack \<Longrightarrow> RpcFrame_toFrameHead cp f = Inr (chp_head f)"
  by (simp add: RpcFrame_toFrameHead_def chp_head_def)

lemma delivered_alt:
  "frame_ok f \<Longrightarrow> delivered f = \<lparr>fr_protocol = PT_ChainPack, fr_meta = canon_meta (fr_meta f), fr_data = fr_data f\<rparr>"
  by (cases f) (simp add: delivered_def frame_ok_def)

lemma read_cut_meta:
  assumes "meta_wf md" "meta_packable md" "\<not> RpcMetaData_isEmpty md" "write_meta md = p @ q" "p \<noteq> []" "q \<noteq> []"
  shows "ChainPackReader_read_meta ItemInvalid p = Inl ParseException"
proof -
  have "grows q (Some (ChainPackReader_read_meta ItemInvalid p)) (Some (Inr (canon_meta md, ItemInvalid, [])))"
    using ChainPackReader_read_meta_grows [of ItemInvalid p q] read_meta_of_write [OF assms(1-3), of "[]"] assms(4,5)
    by (simp add: item_finished_def)
  then show ?thesis by (rule cut_read) (use assms(6) in simp)
qed

lemma write_meta_nonempty: "\<not> RpcMetaData_isEmpty md \<Longrightarrow> write_meta md \<noteq> []"
  by (cases md) (auto simp: RpcMetaData_isEmpty_def RpcMetaData_size_def)

lemma tryToReadMeta_cut:
  assumes "frame_ok f" "m_head r = None" "chp_head f = p @ q" "q \<noteq> []"
  shows "FrameReader_tryToReadMeta cp len p r = Inr (0, r)"
proof (cases p)
  case Nil
  then show ?thesis by (simp add: FrameReader_tryToReadMeta_def assms(2))
next
  case (Cons b p')
  then have b: "b = 1" and p': "write_meta (fr_meta f) = p' @ q" using assms(3) by (auto simp: chp_head_def protocol_byte_def)
  have "read_head_meta cp PT_ChainPack p' = Inl ParseException"
    using read_cut_meta [OF _ _ _ p'] assms(1,4) by (auto simp: read_head_meta_def frame_ok_def)
  then show ?thesis by (simp add: FrameReader_tryToReadMeta_def assms(2) Cons b protocol_of_byte_def)
qed

lemma tryToReadMeta_head:
  assumes "frame_ok f" "m_head r = None"
  shows "FrameReader_tryToReadMeta cp len (chp_head f @ rest) r =
    Inr (response_id (canon_meta (fr_meta f)),
      r\<lparr>m_head := Some (PT_ChainPack, canon_meta (fr_meta f), len - length rest)\<rparr>)"
proof -
  have "read_head_meta cp PT_ChainPack (write_meta (fr_meta f) @ rest) = Inr (canon_meta (fr_meta f), rest)"
    using assms(1) by (simp add: read_head_meta_def frame_ok_def read_meta_of_write write_meta_nonempty)
  then show ?thesis
    using assms by (auto simp: FrameReader_tryToReadMeta_def chp_head_def protocol_byte_def protocol_of_byte_def
        response_id_def frame_ok_def split: sum.splits)
qed

lemma tryToReadMeta_known: "m_head r \<noteq> None \<Longrightarrow> FrameReader_tryToReadMeta cp len inp r = Inr (0, r)"
  by (auto simp: FrameReader_tryToReadMeta_def)

section \<open>A link that carries frames\<close>

text \<open>Data arrive in pieces; every piece goes to \<open>addData\<close>.\<close>

primrec feed :: "(bytes \<Rightarrow> 'r \<Rightarrow> (exn + int list \<times> 'r) option) \<Rightarrow> bytes list \<Rightarrow> 'r \<Rightarrow> (exn + int list \<times> 'r) option" where
  "feed addData [] r = Some (Inr ([], r))"
| "feed addData (d # ds) r =
     (case addData d r of
        Some (Inr (ids, r')) \<Rightarrow> map_option (map_sum id (map_prod (\<lambda>ids'. ids @ ids') id)) (feed addData ds r')
      | res \<Rightarrow> res)"

text \<open>
  \<open>expects fs ids bs r\<close>: the reader is somewhere in a transmission; when the bytes \<open>bs\<close> have come, it
  will have delivered the frames \<open>fs\<close> and reported the ids \<open>ids\<close>.
\<close>

locale frame_link =
  fixes addData :: "bytes \<Rightarrow> 'r \<Rightarrow> (exn + int list \<times> 'r) option"
    and frames :: "'r \<Rightarrow> rpc_frame list"
    and expects :: "rpc_frame list \<Rightarrow> int list \<Rightarrow> bytes \<Rightarrow> 'r \<Rightarrow> bool"
  assumes addData_step: "expects fs ids (d @ bs) r \<Longrightarrow>
      \<exists>gs hs ids1 ids2 r'. addData d r = Some (Inr (ids1, r')) \<and> fs = gs @ hs \<and> ids = ids1 @ ids2 \<and>
        frames r' = frames r @ map delivered gs \<and> expects hs ids2 bs r'"
    and expects_end: "expects fs ids [] r \<Longrightarrow> fs = [] \<and> ids = []"
begin

theorem link_delivers:
  "expects fs ids (concat ds) r \<Longrightarrow>
   \<exists>r'. feed addData ds r = Some (Inr (ids, r')) \<and> frames r' = frames r @ map delivered fs \<and> expects [] [] [] r'"
proof (induction ds arbitrary: fs ids r)
  case Nil
  then show ?case using expects_end by fastforce
next
  case (Cons d ds)
  then obtain gs hs ids1 ids2 r1 where r1: "addData d r = Some (Inr (ids1, r1))" "fs = gs @ hs" "ids = ids1 @ ids2"
      "frames r1 = frames r @ map delivered gs" "expects hs ids2 (concat ds) r1"
    using addData_step [of fs ids d "concat ds" r] by auto
  then show ?case using Cons.IH [OF r1(5)] by auto
qed

end

section \<open>The stream link\<close>

definition stream_bytes :: "rpc_frame \<Rightarrow> bytes" where
  "stream_bytes f = StreamFrameWriter_addFrameData (chp_head f) (fr_data f)"

text \<open>
  Before the loop runs: the buffer and what is still to come are the coming frames, and the head of
  the first of them may have been read already.
\<close>

definition stream_pending :: "rpc_frame list \<Rightarrow> int list \<Rightarrow> bytes \<Rightarrow> stream_reader \<Rightarrow> bool" where
  "stream_pending fs ids bs r \<longleftrightarrow>
     (\<forall>f \<in> set fs. frame_ok f) \<and> m_readBuffer r @ bs = concat (map stream_bytes fs) \<and>
     length (concat (map stream_bytes fs)) < 2 ^ 64 \<and>
     (case m_head r of
        None \<Rightarrow> ids = concat (map reported fs)
      | Some (protocol, md, start) \<Rightarrow>
          (case fs of
             [] \<Rightarrow> False
           | f # gs \<Rightarrow> protocol = PT_ChainPack \<and> md = canon_meta (fr_meta f) \<and>
               start = length (stream_bytes f) - length (fr_data f) \<and> ids = concat (map reported gs)))"

definition stream_expects :: "rpc_frame list \<Rightarrow> int list \<Rightarrow> bytes \<Rightarrow> stream_reader \<Rightarrow> bool" where
  "stream_expects fs ids bs r \<longleftrightarrow> stream_pending fs ids bs r \<and>
     (case fs of [] \<Rightarrow> True | f # gs \<Rightarrow> length (m_readBuffer r) < length (stream_bytes f))"

lemma readUIntData_cut:
  assumes "cchainpack_pack_uint_data u = p @ q" "q \<noteq> []"
  shows "readUIntData p = None"
proof (rule ccontr)
  assume "readUIntData p \<noteq> None"
  then obtain n r where "readUIntData p = Some (n, r)" by auto
  then have "readUIntData (p @ q) = Some (n, r @ q)" by (rule readUIntData_more)
  moreover have "readUIntData (p @ q) = Some (u, [])" using readUIntData_pack [of u "[]"] assms(1) by simp
  ultimately show False using assms(2) by simp
qed

text \<open>The four places where the buffer can end in a frame.\<close>

lemma prefix_cases:
  assumes "buf @ bs = a @ h @ rest"
  obtains (in_a) q where "a = buf @ q" "q \<noteq> []"
    | (in_h) p q where "buf = a @ p" "h = p @ q" "q \<noteq> []"
    | (past) p where "buf = a @ h @ p" "p @ bs = rest"
proof -
  consider (1) "length buf < length a" | (2) "length a \<le> length buf" "length buf < length (a @ h)"
    | (3) "length (a @ h) \<le> length buf" by linarith
  then show ?thesis
  proof cases
    case 1
    have "a = buf @ drop (length buf) a" using assms 1
      by (metis append_eq_append_conv_if append_take_drop_id less_imp_le)
    then show ?thesis using in_a 1 by (metis append.right_neutral less_irrefl)
  next
    case 2
    have b: "buf = a @ drop (length a) buf" using assms 2(1) by (metis append_eq_append_conv_if append_take_drop_id)
    then have "drop (length a) buf @ bs = h @ rest" using assms by (metis append.assoc same_append_eq)
    then have "h = drop (length a) buf @ drop (length (drop (length a) buf)) h" using 2
      by (metis add_diff_inverse_nat append_eq_append_conv_if append_take_drop_id length_append length_drop less_imp_le
          nat_add_left_cancel_less not_less)
    then show ?thesis using in_h [OF b] 2 by (metis append.right_neutral b length_append less_irrefl)
  next
    case 3
    have "buf = (a @ h) @ drop (length (a @ h)) buf"
      using assms 3 by (metis append.assoc append_eq_append_conv_if append_take_drop_id)
    then show ?thesis using past assms by (metis append.assoc same_append_eq)
  qed
qed

lemma pending_frame:
  assumes "stream_pending (f # fs) ids bs r"
  defines "a \<equiv> cchainpack_pack_uint_data (word_of_nat (length (chp_head f) + length (fr_data f)))"
    and "n \<equiv> word_of_nat (length (chp_head f) + length (fr_data f)) :: u64"
  shows "m_readBuffer r @ bs = a @ chp_head f @ fr_data f @ concat (map stream_bytes fs)"
    and "stream_bytes f = a @ chp_head f @ fr_data f" "frame_ok f"
    and "frame_end (length a) n = length (stream_bytes f)"
    and "readUIntData (a @ x) = Some (n, x)"
proof -
  show sb: "stream_bytes f = a @ chp_head f @ fr_data f"
    by (simp add: stream_bytes_def StreamFrameWriter_addFrameData_def a_def)
  show "m_readBuffer r @ bs = a @ chp_head f @ fr_data f @ concat (map stream_bytes fs)"
    using assms(1) by (simp add: stream_pending_def sb)
  have "length (stream_bytes f) < 2 ^ 64"
    using assms(1) by (simp add: stream_pending_def)
  moreover from this have "unat n = length (chp_head f) + length (fr_data f)"
    unfolding n_def by (intro unat_frame_size) (simp add: sb)
  ultimately show "frame_end (length a) n = length (stream_bytes f)" by (simp add: frame_end_def sb)
  show "readUIntData (a @ x) = Some (n, x)" by (simp add: a_def n_def readUIntData_pack)
  show "frame_ok f" using assms(1) by (simp add: stream_pending_def)
qed

text \<open>The head is complete: afterwards it is known, and its id has been reported once.\<close>

lemma pending_head:
  assumes "stream_pending (f # fs) ids bs r" "length (m_readBuffer r) - length p = length (stream_bytes f) - length (fr_data f)"
  shows "\<exists>rqid r1 ids1. FrameReader_tryToReadMeta cp (length (m_readBuffer r)) (chp_head f @ p) r = Inr (rqid, r1) \<and>
    (\<forall>acc. (if rqid > 0 then acc @ [rqid] else acc) = acc @ ids1) \<and> ids = ids1 @ concat (map reported fs) \<and>
    r1 = r\<lparr>m_head := Some (PT_ChainPack, canon_meta (fr_meta f), length (stream_bytes f) - length (fr_data f))\<rparr>"
proof (cases "m_head r")
  case None
  have ids: "ids = reported f @ concat (map reported fs)" using assms(1) None by (simp add: stream_pending_def)
  show ?thesis
    using tryToReadMeta_head [OF pending_frame(3) [OF assms(1)] None, of cp "length (m_readBuffer r)" p] assms(2) ids
    by (auto simp: reported_def Let_def)
next
  case (Some hd)
  then show ?thesis
    using assms(1) tryToReadMeta_known [of r cp "length (m_readBuffer r)" "chp_head f @ p"]
    by (cases hd) (auto simp: stream_pending_def)
qed

lemma stream_loop_head:
  assumes pending: "stream_pending (f # fs) ids bs r"
    and p: "m_readBuffer r = cchainpack_pack_uint_data (word_of_nat (length (chp_head f) + length (fr_data f))) @ chp_head f @ p"
      "p @ bs = fr_data f @ concat (map stream_bytes fs)"
  defines "r1 \<equiv> r\<lparr>m_head := Some (PT_ChainPack, canon_meta (fr_meta f), length (stream_bytes f) - length (fr_data f))\<rparr>"
    and "r2 \<equiv> r\<lparr>m_frames := m_frames r @ [delivered f], m_head := None,
      m_readBuffer := drop (length (stream_bytes f)) (m_readBuffer r)\<rparr>"
  shows "\<exists>ids1. ids = ids1 @ concat (map reported fs) \<and>
    (\<forall>acc. stream_loop cp acc r =
       (if length (stream_bytes f) \<le> length (m_readBuffer r) then stream_loop cp (acc @ ids1) r2 else Some (Inr (acc @ ids1, r1))))"
    and "length (stream_bytes f) \<le> length (m_readBuffer r) \<Longrightarrow> stream_pending fs (concat (map reported fs)) bs r2"
    and "\<not> length (stream_bytes f) \<le> length (m_readBuffer r) \<Longrightarrow> stream_expects (f # fs) (concat (map reported fs)) bs r1"
proof -
  define n :: u64 where "n = word_of_nat (length (chp_head f) + length (fr_data f))"
  define a where "a = cchainpack_pack_uint_data n"
  note frame = pending_frame [OF pending, folded n_def, folded a_def]
  note p = p [folded n_def, folded a_def]
  have full: "p = fr_data f @ drop (length (fr_data f)) p" if "length (stream_bytes f) \<le> length (m_readBuffer r)"
  proof -
    have "length (fr_data f) \<le> length p" using that p(1) by (simp add: frame(2))
    then show ?thesis using p(2) by (metis append_eq_append_conv_if append_take_drop_id)
  qed
  obtain rqid ids1 where head: "FrameReader_tryToReadMeta cp (length (m_readBuffer r)) (chp_head f @ p) r = Inr (rqid, r1)"
      "\<And>acc. (if rqid > 0 then acc @ [rqid] else acc) = acc @ ids1" "ids = ids1 @ concat (map reported fs)"
    using pending_head [OF pending, of p cp] p(1) by (auto simp: r1_def frame(2))
  have ids1: "ids1 = (if rqid > 0 then [rqid] else [])" using head(2) [of "[]"] by (simp split: if_splits)
  have "cut_data (m_readBuffer r) (length (stream_bytes f) - length (fr_data f)) (length (stream_bytes f)) = take (length (fr_data f)) p"
    by (simp add: cut_data_def p(1) frame(2))
  moreover have "take (length (fr_data f)) p = fr_data f" if "length (stream_bytes f) \<le> length (m_readBuffer r)"
    using full [OF that] by (metis append_eq_conv_conj)
  moreover have "readUIntData (m_readBuffer r) = Some (n, chp_head f @ p)"
    "length (m_readBuffer r) - length (chp_head f @ p) = length a" by (simp_all add: p(1) frame(5))
  ultimately have "stream_loop cp acc r =
       (if length (stream_bytes f) \<le> length (m_readBuffer r) then stream_loop cp (acc @ ids1) r2 else Some (Inr (acc @ ids1, r1)))" for acc
    using head(1) frame(3,4)
    by (subst stream_loop.simps) (auto simp: r1_def r2_def delivered_alt ids1)
  with head(3) show "\<exists>ids1. ids = ids1 @ concat (map reported fs) \<and>
    (\<forall>acc. stream_loop cp acc r =
       (if length (stream_bytes f) \<le> length (m_readBuffer r) then stream_loop cp (acc @ ids1) r2 else Some (Inr (acc @ ids1, r1))))"
    by blast
  show "stream_pending fs (concat (map reported fs)) bs r2" if "length (stream_bytes f) \<le> length (m_readBuffer r)"
  proof -
    have "m_readBuffer r = stream_bytes f @ m_readBuffer r2" using p full [OF that] by (simp add: r2_def frame(2))
    then have "m_readBuffer r2 @ bs = concat (map stream_bytes fs)" using pending by (simp add: stream_pending_def)
    then show ?thesis using pending by (simp add: stream_pending_def r2_def)
  qed
  show "stream_expects (f # fs) (concat (map reported fs)) bs r1" if "\<not> length (stream_bytes f) \<le> length (m_readBuffer r)"
    using pending that by (simp add: stream_expects_def stream_pending_def r1_def)
qed

lemma stream_loop_delivers:
  "stream_pending fs ids bs r \<Longrightarrow>
   \<exists>gs hs ids1 ids2 r'. stream_loop cp acc r = Some (Inr (acc @ ids1, r')) \<and> fs = gs @ hs \<and> ids = ids1 @ ids2 \<and>
     m_frames r' = m_frames r @ map delivered gs \<and> stream_expects hs ids2 bs r'"
proof (induction fs arbitrary: ids r acc)
  case Nil
  then have "m_readBuffer r = []" by (simp add: stream_pending_def)
  moreover have "readUIntData [] = None" by (simp add: readUIntData_def cchainpack_unpack_uint_data2_def unpack_uint_def)
  ultimately show ?case using Nil by (subst stream_loop.simps) (simp add: stream_expects_def)
next
  case (Cons f fs)
  define n :: u64 where "n = word_of_nat (length (chp_head f) + length (fr_data f))"
  define a where "a = cchainpack_pack_uint_data n"
  note frame = pending_frame [OF Cons.prems, folded n_def, folded a_def]
  have stay: ?case if "stream_loop cp acc r = Some (Inr (acc, r))" "length (m_readBuffer r) < length (stream_bytes f)"
    using that Cons.prems by (intro exI [of _ "[]"] exI [of _ "f # fs"] exI [of _ ids] exI [of _ r]) (simp add: stream_expects_def)
  from frame(1) show ?case
  proof (cases rule: prefix_cases)
    case (in_a q)
    then have "readUIntData (m_readBuffer r) = None" using readUIntData_cut [of n] by (simp add: a_def)
    then show ?thesis by (intro stay) (use in_a in \<open>auto simp: frame(2) stream_loop.simps [of cp acc r]\<close>)
  next
    case (in_h p q)
    have "FrameReader_tryToReadMeta cp (length (m_readBuffer r)) p r = Inr (0, r)"
      using tryToReadMeta_cut [OF frame(3) _ in_h(2,3)] tryToReadMeta_known by blast
    then show ?thesis by (intro stay) (use in_h in \<open>auto simp: frame(2,4,5) stream_loop.simps [of cp acc r]\<close>)
  next
    case (past p)
    note head = stream_loop_head [OF Cons.prems past [unfolded a_def n_def]]
    obtain ids1 where ids1: "ids = ids1 @ concat (map reported fs)" and loop: "\<And>acc. stream_loop cp acc r =
       (if length (stream_bytes f) \<le> length (m_readBuffer r)
        then stream_loop cp (acc @ ids1) (r\<lparr>m_frames := m_frames r @ [delivered f], m_head := None,
               m_readBuffer := drop (length (stream_bytes f)) (m_readBuffer r)\<rparr>)
        else Some (Inr (acc @ ids1,
               r\<lparr>m_head := Some (PT_ChainPack, canon_meta (fr_meta f), length (stream_bytes f) - length (fr_data f))\<rparr>)))"
      using head(1) [of cp] by blast
    show ?thesis
    proof (cases "length (stream_bytes f) \<le> length (m_readBuffer r)")
      case False
      with head(3) loop ids1 show ?thesis
        by (intro exI [of _ "[]"] exI [of _ "f # fs"] exI [of _ ids1] exI [of _ "concat (map reported fs)"]) simp
    next
      case True
      from Cons.IH [OF head(2) [OF True], of "acc @ ids1"] obtain gs hs ids2 ids3 r'
        where rec: "stream_loop cp acc r = Some (Inr ((acc @ ids1) @ ids2, r'))" "fs = gs @ hs"
          "concat (map reported fs) = ids2 @ ids3" "m_frames r' = (m_frames r @ [delivered f]) @ map delivered gs" "stream_expects hs ids3 bs r'"
        using loop [of acc] True by auto
      show ?thesis
        by (intro exI [of _ "f # gs"] exI [of _ hs] exI [of _ "ids1 @ ids2"] exI [of _ ids3] exI [of _ r'])
           (use ids1 rec in simp)
    qed
  qed
qed

lemma addData_pending: "stream_expects fs ids (d @ bs) r \<Longrightarrow> stream_pending fs ids bs (r\<lparr>m_readBuffer := m_readBuffer r @ d\<rparr>)"
  by (auto simp: stream_expects_def stream_pending_def)

interpretation stream_link: frame_link "StreamFrameReader_addData cp" m_frames stream_expects
proof
  fix fs ids d bs and r :: stream_reader
  assume "stream_expects fs ids (d @ bs) r"
  from stream_loop_delivers [OF addData_pending [OF this], of cp "[]"]
  show "\<exists>gs hs ids1 ids2 r'. StreamFrameReader_addData cp d r = Some (Inr (ids1, r')) \<and> fs = gs @ hs \<and> ids = ids1 @ ids2 \<and>
      m_frames r' = m_frames r @ map delivered gs \<and> stream_expects hs ids2 bs r'"
    by (simp add: StreamFrameReader_addData_def)
next
  fix fs ids and r :: stream_reader
  assume "stream_expects fs ids [] r"
  then show "fs = [] \<and> ids = []"
    by (cases fs) (auto simp: stream_expects_def stream_pending_def split: option.splits)
qed

text \<open>What a device has taken, when it takes at least one byte at a time, is the whole queue.\<close>

lemma device_takes_all:
  assumes "\<And>d bs. bs \<noteq> [] \<Longrightarrow> fst (dev d bs) > 0" "[] \<notin> set queue"
  shows "\<exists>d'. FrameWriter_flushToDevice dev [] queue d = (concat queue, [], d')"
proof -
  obtain sent q d' where flush: "FrameWriter_flushToDevice dev [] queue d = (sent, q, d')"
    by (cases "FrameWriter_flushToDevice dev [] queue d")
  moreover have "fst (snd (FrameWriter_flushToDevice dev [] queue d)) = []" by (rule device_flush_all [OF assms])
  ultimately have "q = []" by simp
  with device_flush_in_order [OF flush] flush show ?thesis by simp
qed

lemma addFrame_queue:
  "\<forall>f \<in> set fs. frame_ok f \<Longrightarrow>
   fold (FrameWriter_addFrame cp encode) fs queue = queue @ map (\<lambda>f. encode (chp_head f) (fr_data f)) fs"
  by (induction fs arbitrary: queue) (auto simp: FrameWriter_addFrame_def frame_ok_def chp_head_toFrameHead)

text \<open>What a device took when it has taken the whole queue.\<close>

lemma flushed_frames:
  assumes "\<forall>f \<in> set fs. frame_ok f"
    and "FrameWriter_flushToDevice dev [] (fold (FrameWriter_addFrame cp encode) fs []) d = (sent, [], d')"
  shows "sent = concat (map (\<lambda>f. encode (chp_head f) (fr_data f)) fs)"
  using device_flush_in_order [OF assms(2)] by (simp add: addFrame_queue [OF assms(1)])

section \<open>A frame size that never ends\<close>

text \<open>
  The length prefix of \<open>2 ^ 64 - 9\<close> takes 9 bytes, so the end of the frame is computed as 0: the frame
  counts as complete, nothing is taken from the buffer, and the next round finds the same again.
\<close>

lemma length_prefix_9: "length (cchainpack_pack_uint_data (- 9)) = 9"
proof -
  define k where "k = significant_bits_part_length (- 9)"
  have u: "unat (- 9 :: u64) = 2 ^ 64 - 9" by simp
  then have "(2::nat) ^ 63 < 2 ^ k" using significant_bits_bound [of "- 9"] by (simp add: k_def)
  then have "63 < k" by (rule power_less_imp_less_exp [rotated]) simp
  then have "k = 64" using significant_bits_le_64 [of "- 9"] by (simp add: k_def)
  then show ?thesis
    by (simp add: cchainpack_pack_uint_data_def pack_uint_data_helper_def k_def [symmetric] bytes_needed_def Let_def)
qed

lemma stream_loop_hangs:
  assumes "frame_ok f" "m_head r = None" "m_readBuffer r = cchainpack_pack_uint_data (- 9) @ chp_head f @ bs"
  shows "stream_loop cp acc r = None"
proof -
  define bad where "bad r \<longleftrightarrow> m_head r = None \<and> m_readBuffer r = cchainpack_pack_uint_data (- 9) @ chp_head f @ bs" for r :: stream_reader
  have zero: "frame_end 9 (- 9) = 0" by (simp add: frame_end_def)
  have "\<not> bad r" if "stream_loop cp acc r = Some res" for res
  proof (rule stream_loop.raw_induct [OF _ that])
    fix loop cp' acc' r' res'
    assume IH: "\<And>cp acc r res. loop cp acc r = Some res \<Longrightarrow> \<not> bad r"
      and body: "(case readUIntData (m_readBuffer r') of
        None \<Rightarrow> Some (Inr (acc', r'))
      | Some (frame_size, inp) \<Rightarrow>
          (case FrameReader_tryToReadMeta cp' (length (m_readBuffer r')) inp r' of
             Inl e \<Rightarrow> Some (Inl e)
           | Inr (rqid, r'') \<Rightarrow>
               (let ids' = (if rqid > 0 then acc' @ [rqid] else acc');
                    end_pos = frame_end (length (m_readBuffer r') - length inp) frame_size
                in if end_pos \<le> length (m_readBuffer r')
                   then (case m_head r'' of
                           None \<Rightarrow> Some (Inl (RuntimeError ''Read RPC message meta data error.''))
                         | Some (protocol, meta, start) \<Rightarrow>
                             loop cp' ids'
                               (r''\<lparr>m_frames := m_frames r'' @
                                     [\<lparr>fr_protocol = protocol, fr_meta = meta, fr_data = cut_data (m_readBuffer r') start end_pos\<rparr>],
                                   m_head := None, m_readBuffer := drop end_pos (m_readBuffer r')\<rparr>))
                   else Some (Inr (ids', r''))))) = Some res'"
    show "\<not> bad r'"
    proof
      assume "bad r'"
      then show False
        using body tryToReadMeta_head [OF assms(1), of r']
        by (auto simp: readUIntData_pack length_prefix_9 Let_def zero bad_def dest!: IH)
    qed
  qed
  then show ?thesis using assms(2,3) by (cases "stream_loop cp acc r") (auto simp: bad_def)
qed

end
