(* ===== verification/Crc32.thy ===== *)
theory Crc32
  imports Prelude
begin

text \<open>
  The check sum of serial frames (\<open>crc32.h\<close>): the table-driven \<open>Crc32\<close> class for any reflected
  polynomial.  The theorems: the table computes the bit-serial shift register, and with a polynomial
  whose top bit is set, a message with one byte changed never has the check sum of the original.
\<close>

definition CRC_POSIX_POLY_REV :: u32 where "CRC_POSIX_POLY_REV = 0xEDB88320"

definition crc_shift :: "u32 \<Rightarrow> u32 \<Rightarrow> u32" where
  "crc_shift POLY r = (if r AND 1 \<noteq> 0 then drop_bit 1 r XOR POLY else drop_bit 1 r)"

primrec crc_rounds :: "u32 \<Rightarrow> nat \<Rightarrow> u32 \<Rightarrow> u32" where
  "crc_rounds POLY 0 r = r"
| "crc_rounds POLY (Suc j) r = crc_rounds POLY j (crc_shift POLY r)"

definition crc32_for_byte :: "u32 \<Rightarrow> byte \<Rightarrow> u32" where
  "crc32_for_byte POLY b = crc_rounds POLY 8 (ucast b)"

definition make_table :: "u32 \<Rightarrow> u32 list" where
  "make_table POLY = map (\<lambda>i. crc32_for_byte POLY (word_of_nat i)) [0..<256]"

record crc32 =
  m_remainder :: u32

definition Crc32_init :: crc32 where
  "Crc32_init = \<lparr>m_remainder = 0xFFFFFFFF\<rparr>"

definition Crc32_add :: "u32 \<Rightarrow> crc32 \<Rightarrow> byte \<Rightarrow> crc32" where
  "Crc32_add POLY c b =
     (let ix = ucast (m_remainder c XOR ucast b) :: byte
      in c\<lparr>m_remainder := make_table POLY ! unat ix XOR drop_bit 8 (m_remainder c)\<rparr>)"

primrec Crc32_add_all :: "u32 \<Rightarrow> crc32 \<Rightarrow> bytes \<Rightarrow> crc32" where
  "Crc32_add_all POLY c [] = c"
| "Crc32_add_all POLY c (b # bs) = Crc32_add_all POLY (Crc32_add POLY c b) bs"

definition Crc32_result :: "crc32 \<Rightarrow> u32" where
  "Crc32_result c = m_remainder c XOR 0xFFFFFFFF"

definition Crc32_reset :: "crc32 \<Rightarrow> crc32" where
  "Crc32_reset c = c\<lparr>m_remainder := 0xFFFFFFFF\<rparr>"

section \<open>The shift register\<close>

text \<open>The reference: every bit of the message goes through the register.\<close>

primrec crc_bitwise :: "u32 \<Rightarrow> u32 \<Rightarrow> bytes \<Rightarrow> u32" where
  "crc_bitwise POLY r [] = r"
| "crc_bitwise POLY r (b # bs) = crc_bitwise POLY (crc_rounds POLY 8 (r XOR ucast b)) bs"

lemma bit_crc_shift: "n < 32 \<Longrightarrow> bit (crc_shift P r) n \<longleftrightarrow> bit r (Suc n) \<noteq> (bit r 0 \<and> bit P n)"
  by (auto simp: crc_shift_def bit_simps and_one_eq odd_iff_mod_2_eq_one bit_0)

lemma crc_shift_xor: "crc_shift P (x XOR y) = crc_shift P x XOR crc_shift P y"
  by (rule bit_word_eqI) (auto simp: bit_crc_shift bit_simps)

lemma crc_rounds_xor: "crc_rounds P j (x XOR y) = crc_rounds P j x XOR crc_rounds P j y"
  by (induction j arbitrary: x y) (simp_all add: crc_shift_xor)

lemma crc_rounds_zeros:
  "(\<And>n. n < j \<Longrightarrow> \<not> bit r n) \<Longrightarrow> crc_rounds P j r = drop_bit j r"
proof (induction j arbitrary: r)
  case (Suc j)
  have s: "crc_shift P r = drop_bit 1 r"
    by (rule bit_word_eqI) (use Suc.prems [of 0] in \<open>auto simp: bit_crc_shift bit_simps\<close>)
  have "crc_rounds P j (drop_bit 1 r) = drop_bit j (drop_bit 1 r)"
    using Suc.prems by (intro Suc.IH) (auto simp: bit_simps)
  then show ?case by (simp add: s drop_bit_drop_bit)
qed simp

lemma table_lookup: "make_table P ! unat ix = crc32_for_byte P ix"
proof -
  have "unat ix < 256" using unsigned_less [of ix] by simp
  then show ?thesis by (simp add: make_table_def)
qed

lemma add_is_rounds:
  "m_remainder (Crc32_add P c b) = crc_rounds P 8 (m_remainder c XOR ucast b)"
proof -
  define w where "w = m_remainder c XOR ucast b"
  define lo hi :: u32 where "lo = ucast (ucast w :: byte)" and "hi = w AND NOT (mask 8)"
  have w: "w = lo XOR hi"
    by (rule bit_word_eqI) (auto simp: lo_def hi_def bit_simps)
  have "crc_rounds P 8 hi = drop_bit 8 hi" by (rule crc_rounds_zeros) (auto simp: hi_def bit_simps)
  also have "drop_bit 8 hi = drop_bit 8 (m_remainder c)"
    by (rule bit_word_eqI) (auto simp: hi_def w_def bit_simps dest: bit_imp_le_length)
  finally have "crc_rounds P 8 w = crc_rounds P 8 lo XOR drop_bit 8 (m_remainder c)"
    by (simp add: w crc_rounds_xor)
  then show ?thesis
    by (simp add: Crc32_add_def Let_def table_lookup crc32_for_byte_def lo_def w_def)
qed

lemma add_all_is_bitwise: "m_remainder (Crc32_add_all P c bs) = crc_bitwise P (m_remainder c) bs"
  by (induction bs arbitrary: c) (simp_all add: add_is_rounds)

lemma add_all_append: "Crc32_add_all P c (xs @ ys) = Crc32_add_all P (Crc32_add_all P c xs) ys"
  by (induction xs arbitrary: c) simp_all

section \<open>Errors within one byte are detected\<close>

text \<open>The top bit of the polynomial remembers the bit that was shifted out.\<close>

lemma crc_shift_inj:
  assumes "bit P 31" "crc_shift P x = crc_shift P y"
  shows "x = y"
proof -
  have b: "bit (crc_shift P x) n = bit (crc_shift P y) n" for n using assms(2) by simp
  have "\<not> bit w (Suc 31)" for w :: u32 by (auto dest: bit_imp_le_length)
  then have 0: "bit x 0 = bit y 0" using b [of 31] assms(1) by (simp add: bit_crc_shift)
  show ?thesis
  proof (rule bit_word_eqI)
    fix n assume "n < LENGTH(32)"
    then show "bit x n = bit y n"
      using 0 b [of "n - 1"] by (cases n) (simp_all add: bit_crc_shift, blast)
  qed
qed

lemma crc_rounds_inj: "bit P 31 \<Longrightarrow> crc_rounds P j x = crc_rounds P j y \<Longrightarrow> x = y"
  by (induction j arbitrary: x y) (auto dest: crc_shift_inj)

lemma crc_bitwise_inj: "bit P 31 \<Longrightarrow> crc_bitwise P x bs = crc_bitwise P y bs \<Longrightarrow> x = y"
proof (induction bs arbitrary: x y)
  case (Cons b bs)
  then have "x XOR ucast b = y XOR ucast b" by (auto dest: crc_rounds_inj)
  then have "(x XOR ucast b) XOR ucast b = (y XOR ucast b) XOR ucast b" by simp
  then show ?case by (simp add: xor.assoc)
qed simp

lemma crc_bitwise_append: "crc_bitwise P r (xs @ ys) = crc_bitwise P (crc_bitwise P r xs) ys"
  by (induction xs arbitrary: r) simp_all

lemma xor_cancel: "(r XOR x = r XOR y) \<longleftrightarrow> x = (y :: u32)"
proof
  assume "r XOR x = r XOR y"
  then have "r XOR (r XOR x) = r XOR (r XOR y)" by simp
  then show "x = y" by (simp add: xor.assoc [symmetric])
qed simp

lemma ucast_byte_inj: "(ucast a :: u32) = ucast b \<Longrightarrow> (a :: byte) = b"
proof -
  assume "(ucast a :: u32) = ucast b"
  then have "bit (ucast a :: u32) n = bit (ucast b :: u32) n" for n by simp
  then have "n < 8 \<Longrightarrow> bit a n = bit b n" for n by (fastforce simp: bit_simps)
  then show "a = b" by (intro bit_word_eqI) simp
qed

lemma byte_error_changes:
  assumes "bit P 31" "a \<noteq> b"
  shows "crc_bitwise P r (xs @ a # ys) \<noteq> crc_bitwise P r (xs @ b # ys)"
proof
  assume "crc_bitwise P r (xs @ a # ys) = crc_bitwise P r (xs @ b # ys)"
  then have "crc_bitwise P r xs XOR ucast a = crc_bitwise P r xs XOR ucast b"
    unfolding crc_bitwise_append crc_bitwise.simps
    by (rule crc_bitwise_inj [OF assms(1), THEN crc_rounds_inj [OF assms(1)]])
  then show False using assms(2) by (auto simp: xor_cancel dest: ucast_byte_inj)
qed

end
