(* ===== verification/Serial_Frame.thy ===== *)
theory Serial_Frame
  imports Frame_Stream Crc32
begin

text \<open>
  Frames on a serial line (\<open>libshviotqt/src/rpc/serialportsocket.cpp\<close>, \<open>serialportsocket.h\<close>): a frame
  stands between the bytes \<open>STX\<close> and \<open>ETX\<close>, these and two more are escaped inside it, and a check sum
  of the escaped bytes may follow.  \<open>SerialFrameReader\<close> is a state machine that is fed bytes as they come.
\<close>

section \<open>Escape codes\<close>

abbreviation STX :: byte where "STX \<equiv> 0xA2"
abbreviation ETX :: byte where "ETX \<equiv> 0xA3"
abbreviation ATX :: byte where "ATX \<equiv> 0xA4"
abbreviation ESC :: byte where "ESC \<equiv> 0xAA"
abbreviation ESTX :: byte where "ESTX \<equiv> 0x02"
abbreviation EETX :: byte where "EETX \<equiv> 0x03"
abbreviation EATX :: byte where "EATX \<equiv> 0x04"
abbreviation EESC :: byte where "EESC \<equiv> 0x0A"

section \<open>\<open>SerialFrameWriter\<close>\<close>

definition write_escaped :: "byte \<Rightarrow> bytes" where
  "write_escaped b =
     (if b = STX then [ESC, ESTX] else if b = ETX then [ESC, EETX]
      else if b = ATX then [ESC, EATX] else if b = ESC then [ESC, EESC] else [b])"

definition escape :: "bytes \<Rightarrow> bytes" where
  "escape bs = concat (map write_escaped bs)"

definition crc_bytes :: "u32 \<Rightarrow> bytes" where
  "crc_bytes crc = map (\<lambda>i. ucast (drop_bit ((3 - i) * 8) crc AND 0xff)) [0..<4]"

definition SerialFrameWriter_addFrameData :: "bool \<Rightarrow> bytes \<Rightarrow> bytes \<Rightarrow> bytes" where
  "SerialFrameWriter_addFrameData withCrcCheck frame_head frame_data =
     (let data_to_write = STX # escape frame_head @ escape frame_data @ [ETX];
          crc = Crc32_result (Crc32_add_all CRC_POSIX_POLY_REV Crc32_init (take (length data_to_write - 2) (tl data_to_write)))
      in if withCrcCheck then data_to_write @ escape (crc_bytes crc) else data_to_write)"

text \<open>The reset message is a frame with the one byte 0.\<close>

definition SerialFrameWriter_resetCommunication :: "bool \<Rightarrow> bytes list \<Rightarrow> bytes list" where
  "SerialFrameWriter_resetCommunication withCrcCheck queue = queue @ [SerialFrameWriter_addFrameData withCrcCheck [0] []]"

section \<open>\<open>SerialFrameReader\<close>\<close>

datatype read_state = WaitingForStx | WaitingForEtx | WaitingForCrc

text \<open>A response error is the request id with the check sums expected and received.\<close>

record serial_reader = frame_reader +
  sl_readState :: read_state
  sl_recentByte :: byte
  sl_readBuffer :: bytes
  sl_crcBuffer :: bytes
  sl_crcDigest :: crc32
  sl_withCrcCheck :: bool
  sl_responseErrors :: "(int \<times> u32 \<times> u32) list"

definition SerialFrameReader_make :: "bool \<Rightarrow> serial_reader" where
  "SerialFrameReader_make withCrcCheck =
     \<lparr>m_frames = [], m_head = None, sl_readState = WaitingForStx, sl_recentByte = 0, sl_readBuffer = [],
      sl_crcBuffer = [], sl_crcDigest = Crc32_init, sl_withCrcCheck = withCrcCheck, sl_responseErrors = []\<rparr>"

definition SerialFrameReader_setState :: "read_state \<Rightarrow> serial_reader \<Rightarrow> serial_reader" where
  "SerialFrameReader_setState state r =
     (let r = r\<lparr>sl_readState := state\<rparr>
      in case state of
           WaitingForStx \<Rightarrow> r
         | WaitingForEtx \<Rightarrow> r\<lparr>sl_readBuffer := [], m_head := None, sl_crcDigest := Crc32_reset (sl_crcDigest r)\<rparr>
         | WaitingForCrc \<Rightarrow> r\<lparr>sl_crcBuffer := []\<rparr>)"

definition SerialFrameReader_takeResponseErrors :: "serial_reader \<Rightarrow> (int \<times> u32 \<times> u32) list \<times> serial_reader" where
  "SerialFrameReader_takeResponseErrors r = (sl_responseErrors r, r\<lparr>sl_responseErrors := []\<rparr>)"

definition SerialFrameReader_resetCommunication :: "serial_reader \<Rightarrow> serial_reader" where
  "SerialFrameReader_resetCommunication r =
     FrameReader_resetCommunication
       (r\<lparr>sl_readState := WaitingForStx, sl_recentByte := 0, sl_readBuffer := [], sl_crcBuffer := [],
          sl_crcDigest := Crc32_init, sl_responseErrors := []\<rparr>)"

text \<open>\<open>add_byte\<close>: what is appended to the buffer; \<open>None\<close> is an invalid escape sequence.\<close>

definition add_byte :: "byte \<Rightarrow> byte \<Rightarrow> bytes option" where
  "add_byte recent b =
     (if recent = ESC then
        (if b = ESTX then Some [STX] else if b = EETX then Some [ETX]
         else if b = EATX then Some [ATX] else if b = EESC then Some [ESC] else None)
      else Some (if b \<noteq> ESC then [b] else []))"

definition msg_crc :: "bytes \<Rightarrow> u32" where
  "msg_crc bs = foldl (\<lambda>crc bb. push_bit 8 crc + ucast bb) 0 bs"

text \<open>The id for which a check sum error is reported: that of a response on its last hop.\<close>

definition failed_response :: "serial_reader \<Rightarrow> exn + int option" where
  "failed_response r =
     (case m_head r of
        None \<Rightarrow> Inr None
      | Some (_, md, _) \<Rightarrow>
          if \<not> RpcMessage_isResponse_m md then Inr None
          else bind_e (RpcMessage_peekCallerId_m md) (\<lambda>caller.
            let request_id = RpcMessage_requestId_m md
            in if caller = 0 \<and> (RpcValue_isInt request_id \<or> RpcValue_isUInt request_id)
               then map_sum id (\<lambda>i. if i > 0 then Some i else None) (RpcValue_toInt64 request_id)
               else Inr None))"

definition SerialFrameReader_finishFrame :: "serial_reader \<Rightarrow> exn + serial_reader" where
  "SerialFrameReader_finishFrame r =
     (if sl_withCrcCheck r \<and> Crc32_result (sl_crcDigest r) \<noteq> msg_crc (sl_crcBuffer r) then
        map_sum id (\<lambda>failed. SerialFrameReader_setState WaitingForStx
            (r\<lparr>sl_responseErrors := sl_responseErrors r @
                 (case failed of None \<Rightarrow> []
                  | Some i \<Rightarrow> [(i, Crc32_result (sl_crcDigest r), msg_crc (sl_crcBuffer r))])\<rparr>))
          (failed_response r)
      else
        (case m_head r of
           None \<Rightarrow> Inr (SerialFrameReader_setState WaitingForStx r)
         | Some (protocol, md, start) \<Rightarrow>
             Inr (SerialFrameReader_setState WaitingForStx
               (r\<lparr>m_frames := m_frames r @ [\<lparr>fr_protocol = protocol, fr_meta = md, fr_data = drop start (sl_readBuffer r)\<rparr>]\<rparr>))))"

definition check_response_id :: "cpon_ops \<Rightarrow> serial_reader \<Rightarrow> exn + int list \<times> serial_reader" where
  "check_response_id cp r =
     map_sum id (\<lambda>(rqid, r'). (if rqid > 0 then [rqid] else [], r'))
       (FrameReader_tryToReadMeta cp (length (sl_readBuffer r)) (sl_readBuffer r) r)"

definition check_and_finish :: "cpon_ops \<Rightarrow> serial_reader \<Rightarrow> exn + int list \<times> serial_reader" where
  "check_and_finish cp r =
     bind_e (check_response_id cp r) (\<lambda>(ids, r). map_sum id (\<lambda>r. (ids, r)) (SerialFrameReader_finishFrame r))"

text \<open>
  One round of the loop of \<open>addData\<close>.  The test for \<open>STX\<close> inside the state \<open>WaitingForStx\<close> is never
  reached with that byte.
\<close>

definition serial_step :: "cpon_ops \<Rightarrow> byte \<Rightarrow> serial_reader \<Rightarrow> exn + int list \<times> serial_reader" where
  "serial_step cp b r =
     (if b = STX then Inr ([], (SerialFrameReader_setState WaitingForEtx r)\<lparr>sl_recentByte := b\<rparr>)
      else if b = ATX then Inr ([], (SerialFrameReader_setState WaitingForStx r)\<lparr>sl_recentByte := b\<rparr>)
      else (case sl_readState r of
              WaitingForStx \<Rightarrow> Inr ([], r\<lparr>sl_recentByte := b\<rparr>)
            | WaitingForEtx \<Rightarrow>
                if b = ETX then
                  (if sl_withCrcCheck r then Inr ([], SerialFrameReader_setState WaitingForCrc r)
                   else check_and_finish cp r)
                else
                  (let r = r\<lparr>sl_crcDigest := Crc32_add CRC_POSIX_POLY_REV (sl_crcDigest r) b\<rparr>;
                       r = (case add_byte (sl_recentByte r) b of
                              None \<Rightarrow> SerialFrameReader_setState WaitingForStx r
                            | Some bs \<Rightarrow> r\<lparr>sl_readBuffer := sl_readBuffer r @ bs\<rparr>)
                   in Inr ([], r\<lparr>sl_recentByte := b\<rparr>))
            | WaitingForCrc \<Rightarrow>
                (let r = (case add_byte (sl_recentByte r) b of
                            None \<Rightarrow> SerialFrameReader_setState WaitingForStx r
                          | Some bs \<Rightarrow> r\<lparr>sl_crcBuffer := sl_crcBuffer r @ bs\<rparr>);
                     r = r\<lparr>sl_recentByte := b\<rparr>
                 in if length (sl_crcBuffer r) = 4 then check_and_finish cp r else Inr ([], r))))"

primrec serial_run :: "cpon_ops \<Rightarrow> bytes \<Rightarrow> serial_reader \<Rightarrow> exn + int list \<times> serial_reader" where
  "serial_run cp [] r = Inr ([], r)"
| "serial_run cp (b # bs) r =
     bind_e (serial_step cp b r) (\<lambda>(ids, r). map_sum id (map_prod (\<lambda>ids'. ids @ ids') id) (serial_run cp bs r))"

definition SerialFrameReader_addData :: "cpon_ops \<Rightarrow> bytes \<Rightarrow> serial_reader \<Rightarrow> exn + int list \<times> serial_reader" where
  "SerialFrameReader_addData cp data r =
     bind_e (serial_run cp data r) (\<lambda>(ids, r). map_sum id (map_prod (\<lambda>ids'. ids @ ids') id) (check_response_id cp r))"

section \<open>Escaping\<close>

lemma escape_simps [simp]:
  "escape [] = []" "escape (b # bs) = write_escaped b @ escape bs" "escape (xs @ ys) = escape xs @ escape ys"
  by (simp_all add: escape_def)

text \<open>
  The escaped bytes still to come after \<open>recent\<close>, when the plain bytes \<open>ys\<close> are still to come: if
  \<open>recent\<close> was \<open>ESC\<close>, the first of them is half read.
\<close>

definition esc_from :: "byte \<Rightarrow> bytes \<Rightarrow> bytes" where
  "esc_from recent ys = (if recent = ESC then tl (escape ys) else escape ys)"

definition esc_ok :: "byte \<Rightarrow> bytes \<Rightarrow> bool" where
  "esc_ok recent ys \<longleftrightarrow> (recent = ESC \<longrightarrow> ys \<noteq> [] \<and> length (write_escaped (hd ys)) = 2)"

lemma esc_ok_Nil: "esc_ok recent [] \<Longrightarrow> recent \<noteq> ESC"
  by (simp add: esc_ok_def)

text \<open>Every escaped byte is an ordinary one to the reader, and undoes what the writer did.\<close>

lemma esc_step:
  assumes "esc_ok recent ys" "ys \<noteq> []"
  obtains b new ys' where "esc_from recent ys = b # esc_from b ys'" "ys = new @ ys'" "add_byte recent b = Some new"
    "b \<noteq> STX" "b \<noteq> ETX" "b \<noteq> ATX" "esc_ok b ys'"
proof -
  obtain y ys1 where ys: "ys = y # ys1" using assms(2) by (cases ys) auto
  show ?thesis
  proof (cases "recent = ESC")
    case True
    then have "\<exists>e. write_escaped y = [ESC, e] \<and> add_byte ESC e = Some [y] \<and> e \<noteq> STX \<and> e \<noteq> ETX \<and> e \<noteq> ATX \<and> e \<noteq> ESC"
      using assms(1) by (auto simp: esc_ok_def ys write_escaped_def add_byte_def split: if_splits)
    then obtain e where "write_escaped y = [ESC, e]" "add_byte ESC e = Some [y]" "e \<noteq> STX" "e \<noteq> ETX" "e \<noteq> ATX" "e \<noteq> ESC" by blast
    then show ?thesis using True by (intro that [of e ys1 "[y]"]) (auto simp: esc_from_def ys esc_ok_def)
  next
    case False
    show ?thesis
    proof (cases "length (write_escaped y) = 2")
      case True
      then have "\<exists>e. write_escaped y = [ESC, e]" by (auto simp: write_escaped_def split: if_splits)
      then show ?thesis using True False
        by (intro that [of ESC "y # ys1" "[]"]) (auto simp: esc_from_def ys esc_ok_def add_byte_def)
    next
      case no: False
      then have "write_escaped y = [y]" "y \<noteq> STX" "y \<noteq> ETX" "y \<noteq> ATX" "y \<noteq> ESC"
        by (auto simp: write_escaped_def split: if_splits)
      then show ?thesis using False
        by (intro that [of y ys1 "[y]"]) (auto simp: esc_from_def ys esc_ok_def add_byte_def)
    qed
  qed
qed

lemma msg_crc_bytes: "msg_crc (crc_bytes crc) = crc"
proof -
  have ff: "(w AND 0xff :: u32) = take_bit 8 w" for w
    by (simp add: take_bit_eq_mask mask_eq_exp_minus_1)
  have uc: "(ucast (ucast (take_bit 8 w :: u32) :: byte) :: u32) = take_bit 8 w" for w
    by (simp add: bit_eq_iff bit_simps)
  have add: "push_bit 8 x + take_bit 8 y = push_bit 8 x OR take_bit 8 y" for x y :: u32
    by (rule disjunctive_add) (auto simp: bit_simps)
  have add2: "(push_bit 16 x OR push_bit 8 y) + take_bit 8 z = (push_bit 16 x OR push_bit 8 y) OR take_bit 8 z" for x y z :: u32
    by (rule disjunctive_add) (auto simp: bit_simps)
  have add3: "((push_bit 24 w OR push_bit 16 x) OR push_bit 8 y) + take_bit 8 z =
      ((push_bit 24 w OR push_bit 16 x) OR push_bit 8 y) OR take_bit 8 z" for w x y z :: u32
    by (rule disjunctive_add) (auto simp: bit_simps)
  have "[0..<4] = [0, 1, 2, 3::nat]" by (simp add: upt_rec)
  moreover have "bit (((push_bit 24 (take_bit 8 (drop_bit 24 crc)) OR push_bit 16 (take_bit 8 (drop_bit 16 crc))) OR
      push_bit 8 (take_bit 8 (drop_bit 8 crc))) OR take_bit 8 crc) n = bit crc n" if "n < 32" for n
    using that by (cases "n < 8"; cases "n < 16"; cases "n < 24") (auto simp: bit_simps)
  ultimately show ?thesis
    by (simp add: msg_crc_def crc_bytes_def ff uc add add2 add3) (rule bit_word_eqI, simp)
qed

lemma length_crc_bytes [simp]: "length (crc_bytes crc) = 4"
  by (simp add: crc_bytes_def)

section \<open>The serial link\<close>

definition frame_body :: "rpc_frame \<Rightarrow> bytes" where
  "frame_body f = chp_head f @ fr_data f"

definition body_crc :: "rpc_frame \<Rightarrow> u32" where
  "body_crc f = Crc32_result (Crc32_add_all CRC_POSIX_POLY_REV Crc32_init (escape (frame_body f)))"

definition serial_bytes :: "bool \<Rightarrow> rpc_frame \<Rightarrow> bytes" where
  "serial_bytes c f = SerialFrameWriter_addFrameData c (chp_head f) (fr_data f)"

definition crc_part :: "bool \<Rightarrow> rpc_frame \<Rightarrow> bytes" where
  "crc_part c f = (if c then escape (crc_bytes (body_crc f)) else [])"

lemma serial_bytes_eq: "serial_bytes c f = STX # escape (frame_body f) @ ETX # crc_part c f"
  by (simp add: serial_bytes_def SerialFrameWriter_addFrameData_def crc_part_def body_crc_def frame_body_def Let_def)

text \<open>
  Where the reader can be in a transmission.  Between two frames it has nothing to report; inside a
  frame \<open>f\<close> its buffer is a part of the body, and the head of \<open>f\<close> may have been read.
\<close>

definition head_known :: "rpc_frame \<Rightarrow> rpc_frame list \<Rightarrow> int list \<Rightarrow> serial_reader \<Rightarrow> bool" where
  "head_known f gs ids r \<longleftrightarrow> frame_ok f \<and>
     (case m_head r of
        None \<Rightarrow> ids = reported f @ concat (map reported gs)
      | Some h \<Rightarrow> h = (PT_ChainPack, canon_meta (fr_meta f), length (chp_head f)) \<and> ids = concat (map reported gs))"

definition between :: "bool \<Rightarrow> rpc_frame list \<Rightarrow> int list \<Rightarrow> bytes \<Rightarrow> serial_reader \<Rightarrow> bool" where
  "between c fs ids bs r \<longleftrightarrow> (m_head r \<noteq> None \<or> sl_readBuffer r = []) \<and>
     bs = concat (map (serial_bytes c) fs) \<and> ids = concat (map reported fs)"

definition in_body :: "bool \<Rightarrow> rpc_frame \<Rightarrow> rpc_frame list \<Rightarrow> int list \<Rightarrow> bytes \<Rightarrow> serial_reader \<Rightarrow> bool" where
  "in_body c f gs ids bs r \<longleftrightarrow> sl_readState r = WaitingForEtx \<and> head_known f gs ids r \<and>
     (\<exists>ys done. frame_body f = sl_readBuffer r @ ys \<and> esc_ok (sl_recentByte r) ys \<and>
        escape (frame_body f) = done @ esc_from (sl_recentByte r) ys \<and>
        sl_crcDigest r = Crc32_add_all CRC_POSIX_POLY_REV Crc32_init done \<and>
        bs = esc_from (sl_recentByte r) ys @ ETX # crc_part c f @ concat (map (serial_bytes c) gs))"

definition in_crc :: "bool \<Rightarrow> rpc_frame \<Rightarrow> rpc_frame list \<Rightarrow> int list \<Rightarrow> bytes \<Rightarrow> serial_reader \<Rightarrow> bool" where
  "in_crc c f gs ids bs r \<longleftrightarrow> c \<and> sl_readState r = WaitingForCrc \<and> head_known f gs ids r \<and>
     sl_readBuffer r = frame_body f \<and> Crc32_result (sl_crcDigest r) = body_crc f \<and>
     (\<exists>ys. crc_bytes (body_crc f) = sl_crcBuffer r @ ys \<and> ys \<noteq> [] \<and> esc_ok (sl_recentByte r) ys \<and>
        bs = esc_from (sl_recentByte r) ys @ concat (map (serial_bytes c) gs))"

definition serial_expects :: "bool \<Rightarrow> rpc_frame list \<Rightarrow> int list \<Rightarrow> bytes \<Rightarrow> serial_reader \<Rightarrow> bool" where
  "serial_expects c fs ids bs r \<longleftrightarrow> sl_withCrcCheck r = c \<and> (\<forall>f \<in> set fs. frame_ok f) \<and>
     (between c fs ids bs r \<or> (\<exists>f gs. fs = f # gs \<and> (in_body c f gs ids bs r \<or> in_crc c f gs ids bs r)))"

text \<open>\<open>check_response_id\<close> may come at any time: it reports the id of a frame at most once.\<close>

lemma check_head:
  assumes "head_known f gs ids r" "frame_body f = sl_readBuffer r @ ys"
  shows "\<exists>h ids1 ids2. check_response_id cp r = Inr (ids1, r\<lparr>m_head := h\<rparr>) \<and> ids = ids1 @ ids2 \<and> head_known f gs ids2 (r\<lparr>m_head := h\<rparr>) \<and>
    (ys = [] \<longrightarrow> h = Some (PT_ChainPack, canon_meta (fr_meta f), length (chp_head f)) \<and> ids2 = concat (map reported gs))"
proof (cases "m_head r")
  case (Some h)
  then show ?thesis using assms(1) tryToReadMeta_known [of r cp "length (sl_readBuffer r)" "sl_readBuffer r"]
    by (intro exI [of _ "Some h"] exI [of _ "[]"] exI [of _ ids]) (auto simp: check_response_id_def head_known_def)
next
  case None
  have ok: "frame_ok f" and ids: "ids = reported f @ concat (map reported gs)"
    using assms(1) None by (auto simp: head_known_def)
  have "sl_readBuffer r @ ys = [] @ chp_head f @ fr_data f" using assms(2) by (simp add: frame_body_def)
  then show ?thesis
  proof (cases rule: prefix_cases)
    case (in_h p q)
    then have "check_response_id cp r = Inr ([], r)"
      using tryToReadMeta_cut [OF ok None in_h(2,3)] by (simp add: check_response_id_def)
    moreover have "ys \<noteq> []" using in_h assms(2) by (auto simp: frame_body_def dest: arg_cong [where f = length])
    ultimately show ?thesis using assms(1) None
      by (intro exI [of _ None] exI [of _ "[]"] exI [of _ ids]) (simp add: head_known_def)
  next
    case (past p)
    then have "check_response_id cp r =
        Inr (reported f, r\<lparr>m_head := Some (PT_ChainPack, canon_meta (fr_meta f), length (chp_head f))\<rparr>)"
      using tryToReadMeta_head [OF ok None, of cp "length (sl_readBuffer r)" p]
      by (simp add: check_response_id_def reported_def Let_def)
    then show ?thesis using ok ids by (auto simp: head_known_def)
  qed simp
qed

lemma finish_delivers:
  assumes "head_known f gs ids r" "sl_readBuffer r = frame_body f"
    and "sl_withCrcCheck r \<Longrightarrow> Crc32_result (sl_crcDigest r) = body_crc f \<and> sl_crcBuffer r = crc_bytes (body_crc f)"
  shows "\<exists>ids1 r'. check_and_finish cp r = Inr (ids1, r') \<and> ids = ids1 @ concat (map reported gs) \<and>
    m_frames r' = m_frames r @ [delivered f] \<and> m_head r' \<noteq> None \<and> sl_withCrcCheck r' = sl_withCrcCheck r"
proof -
  obtain ids1 where chk: "check_response_id cp r =
      Inr (ids1, r\<lparr>m_head := Some (PT_ChainPack, canon_meta (fr_meta f), length (chp_head f))\<rparr>)"
      "ids = ids1 @ concat (map reported gs)"
    using check_head [OF assms(1), of "[]" cp] assms(2) by auto
  have "frame_ok f" using assms(1) by (simp add: head_known_def)
  then show ?thesis
    using chk assms(2,3)
    by (auto simp: check_and_finish_def SerialFrameReader_finishFrame_def SerialFrameReader_setState_def msg_crc_bytes
        delivered_alt frame_body_def)
qed

lemma step_in_body:
  assumes "in_body c f gs ids (b # bs) r" "sl_withCrcCheck r = c" "\<forall>g \<in> set gs. frame_ok g"
  shows "\<exists>fs hs ids1 ids2 r'. serial_step cp b r = Inr (ids1, r') \<and> f # gs = fs @ hs \<and> ids = ids1 @ ids2 \<and>
    m_frames r' = m_frames r @ map delivered fs \<and> serial_expects c hs ids2 bs r'"
proof -
  obtain ys dn where st: "sl_readState r = WaitingForEtx" and hk: "head_known f gs ids r"
    and body: "frame_body f = sl_readBuffer r @ ys" and ok: "esc_ok (sl_recentByte r) ys"
    and esc: "escape (frame_body f) = dn @ esc_from (sl_recentByte r) ys"
    and dig: "sl_crcDigest r = Crc32_add_all CRC_POSIX_POLY_REV Crc32_init dn"
    and bs: "b # bs = esc_from (sl_recentByte r) ys @ ETX # crc_part c f @ concat (map (serial_bytes c) gs)"
    using assms(1) by (auto simp: in_body_def)
  have fok: "frame_ok f" using hk by (simp add: head_known_def)
  show ?thesis
  proof (cases "ys = []")
    case True
    have b: "b = ETX" "bs = crc_part c f @ concat (map (serial_bytes c) gs)"
      and full: "sl_readBuffer r = frame_body f" "escape (frame_body f) = dn" "sl_recentByte r \<noteq> ESC"
      using bs body esc esc_ok_Nil ok True by (auto simp: esc_from_def split: if_splits)
    show ?thesis
    proof (cases c)
      case True
      define r' where "r' = SerialFrameReader_setState WaitingForCrc r"
      have "in_crc c f gs ids bs r'"
        using True hk full dig b by (auto simp: in_crc_def r'_def SerialFrameReader_setState_def body_crc_def head_known_def
            esc_ok_def esc_from_def crc_part_def crc_bytes_def)
      then have "serial_expects c (f # gs) ids bs r'"
        using assms(2,3) fok by (auto simp: serial_expects_def r'_def SerialFrameReader_setState_def)
      moreover have "serial_step cp b r = Inr ([], r')" using True st assms(2) by (simp add: serial_step_def b r'_def)
      ultimately show ?thesis
        by (intro exI [of _ "[]"] exI [of _ "f # gs"] exI [of _ ids] exI [of _ r']) (simp add: r'_def SerialFrameReader_setState_def)
    next
      case False
      then obtain ids1 r' where "check_and_finish cp r = Inr (ids1, r')" "ids = ids1 @ concat (map reported gs)"
          "m_frames r' = m_frames r @ [delivered f]" "m_head r' \<noteq> None" "sl_withCrcCheck r' = sl_withCrcCheck r"
        using finish_delivers [OF hk full(1), of cp] assms(2) by blast
      then show ?thesis using False st assms(2,3)
        by (intro exI [of _ "[f]"] exI [of _ gs] exI [of _ ids1] exI [of _ "concat (map reported gs)"] exI [of _ r'])
           (simp add: serial_step_def b serial_expects_def between_def crc_part_def)
    qed
  next
    case False
    from esc_step [OF ok this] obtain b' new ys'
      where e: "esc_from (sl_recentByte r) ys = b' # esc_from b' ys'" "ys = new @ ys'" "add_byte (sl_recentByte r) b' = Some new"
        "b' \<noteq> STX" "b' \<noteq> ETX" "b' \<noteq> ATX" "esc_ok b' ys'" .
    have b: "b' = b" "bs = esc_from b ys' @ ETX # crc_part c f @ concat (map (serial_bytes c) gs)" using bs e(1) by auto
    define r' where "r' = r\<lparr>sl_crcDigest := Crc32_add CRC_POSIX_POLY_REV (sl_crcDigest r) b,
      sl_readBuffer := sl_readBuffer r @ new, sl_recentByte := b\<rparr>"
    have "escape (frame_body f) = (dn @ [b]) @ esc_from b ys'" using esc e(1) b by simp
    moreover have "Crc32_add POLY (Crc32_add_all POLY x dn) b = Crc32_add_all POLY x (dn @ [b])" for POLY x
      by (simp add: add_all_append)
    ultimately have "in_body c f gs ids bs r'"
      using st hk body e b(2) dig unfolding in_body_def b(1)
      by (intro conjI exI [of _ ys'] exI [of _ "dn @ [b]"]) (simp_all add: r'_def head_known_def)
    then have "serial_expects c (f # gs) ids bs r'"
      using assms(2,3) fok by (auto simp: serial_expects_def r'_def)
    moreover have "serial_step cp b r = Inr ([], r')" using st e by (simp add: serial_step_def b r'_def Let_def)
    ultimately show ?thesis
      by (intro exI [of _ "[]"] exI [of _ "f # gs"] exI [of _ ids] exI [of _ r']) (simp add: r'_def)
  qed
qed

lemma step_in_crc:
  assumes "in_crc c f gs ids (b # bs) r" "sl_withCrcCheck r = c" "\<forall>g \<in> set gs. frame_ok g"
  shows "\<exists>fs hs ids1 ids2 r'. serial_step cp b r = Inr (ids1, r') \<and> f # gs = fs @ hs \<and> ids = ids1 @ ids2 \<and>
    m_frames r' = m_frames r @ map delivered fs \<and> serial_expects c hs ids2 bs r'"
proof -
  obtain ys where c: "c" and st: "sl_readState r = WaitingForCrc" and hk: "head_known f gs ids r"
    and body: "sl_readBuffer r = frame_body f" "Crc32_result (sl_crcDigest r) = body_crc f"
    and crc: "crc_bytes (body_crc f) = sl_crcBuffer r @ ys" "ys \<noteq> []" and ok: "esc_ok (sl_recentByte r) ys"
    and bs: "b # bs = esc_from (sl_recentByte r) ys @ concat (map (serial_bytes c) gs)"
    using assms(1) by (auto simp: in_crc_def)
  from esc_step [OF ok crc(2)] obtain b' new ys'
    where e: "esc_from (sl_recentByte r) ys = b' # esc_from b' ys'" "ys = new @ ys'" "add_byte (sl_recentByte r) b' = Some new"
      "b' \<noteq> STX" "b' \<noteq> ETX" "b' \<noteq> ATX" "esc_ok b' ys'" .
  have b: "b' = b" "bs = esc_from b ys' @ concat (map (serial_bytes c) gs)" using bs e(1) by auto
  define r' where "r' = r\<lparr>sl_crcBuffer := sl_crcBuffer r @ new, sl_recentByte := b\<rparr>"
  have hk': "head_known f gs ids r'" and buf: "crc_bytes (body_crc f) = sl_crcBuffer r' @ ys'"
    using hk crc e by (simp_all add: r'_def head_known_def)
  have len: "length (sl_crcBuffer r') = 4 \<longleftrightarrow> ys' = []"
    using length_crc_bytes [of "body_crc f"] unfolding buf by (cases ys') auto
  have step: "serial_step cp b r = (if ys' = [] then check_and_finish cp r' else Inr ([], r'))"
    using st e len by (simp add: serial_step_def b(1) r'_def)
  show ?thesis
  proof (cases "ys' = []")
    case True
    then obtain ids1 r2 where "check_and_finish cp r' = Inr (ids1, r2)" "ids = ids1 @ concat (map reported gs)"
        "m_frames r2 = m_frames r' @ [delivered f]" "m_head r2 \<noteq> None" "sl_withCrcCheck r2 = sl_withCrcCheck r'"
      using finish_delivers [OF hk', of cp] buf body by (auto simp: r'_def)
    moreover have "bs = concat (map (serial_bytes c) gs)" using b e(7) True by (simp add: esc_from_def esc_ok_def)
    ultimately show ?thesis using True step assms(2,3)
      by (intro exI [of _ "[f]"] exI [of _ gs] exI [of _ ids1] exI [of _ "concat (map reported gs)"] exI [of _ r2])
         (simp add: serial_expects_def between_def r'_def)
  next
    case False
    have "in_crc c f gs ids bs r'"
      using c st hk' body buf e(7) b False by (simp add: in_crc_def r'_def)
    then have "serial_expects c (f # gs) ids bs r'"
      using assms(2,3) hk by (simp add: serial_expects_def r'_def head_known_def)
    then show ?thesis using False step
      by (intro exI [of _ "[]"] exI [of _ "f # gs"] exI [of _ ids] exI [of _ r']) (simp add: r'_def)
  qed
qed

lemma step_between:
  assumes "b # bs = concat (map (serial_bytes c) fs)" "ids = concat (map reported fs)" "sl_withCrcCheck r = c"
    "\<forall>f \<in> set fs. frame_ok f"
  shows "\<exists>r'. serial_step cp b r = Inr ([], r') \<and> m_frames r' = m_frames r \<and> serial_expects c fs ids bs r'"
proof -
  obtain f gs where fs: "fs = f # gs" using assms(1) by (cases fs) auto
  have b: "b = STX" "bs = escape (frame_body f) @ ETX # crc_part c f @ concat (map (serial_bytes c) gs)"
    using assms(1) by (auto simp: fs serial_bytes_eq)
  define r' where "r' = (SerialFrameReader_setState WaitingForEtx r)\<lparr>sl_recentByte := b\<rparr>"
  have "in_body c f gs ids bs r'"
    using assms(2,4) unfolding in_body_def
    by (intro conjI exI [of _ "frame_body f"] exI [of _ "[]"])
       (simp_all add: b r'_def fs SerialFrameReader_setState_def esc_ok_def esc_from_def head_known_def Crc32_reset_def Crc32_init_def)
  then have "serial_expects c fs ids bs r'"
    using assms(3,4) by (auto simp: serial_expects_def fs r'_def SerialFrameReader_setState_def)
  then show ?thesis by (intro exI [of _ r']) (simp add: serial_step_def b r'_def SerialFrameReader_setState_def)
qed

lemma serial_step_delivers:
  assumes "serial_expects c fs ids (b # bs) r"
  shows "\<exists>gs hs ids1 ids2 r'. serial_step cp b r = Inr (ids1, r') \<and> fs = gs @ hs \<and> ids = ids1 @ ids2 \<and>
    m_frames r' = m_frames r @ map delivered gs \<and> serial_expects c hs ids2 bs r'"
proof -
  have wc: "sl_withCrcCheck r = c" and ok: "\<forall>f \<in> set fs. frame_ok f" using assms by (auto simp: serial_expects_def)
  from assms consider "between c fs ids (b # bs) r"
    | f gs where "fs = f # gs" "in_body c f gs ids (b # bs) r" | f gs where "fs = f # gs" "in_crc c f gs ids (b # bs) r"
    by (auto simp: serial_expects_def)
  then show ?thesis
  proof cases
    case 1
    then show ?thesis using step_between [of b bs c fs ids r cp] wc ok by (fastforce simp: between_def)
  next
    case 2
    then show ?thesis using step_in_body [OF 2(2) wc, of cp] ok by simp
  next
    case 3
    then show ?thesis using step_in_crc [OF 3(2) wc, of cp] ok by simp
  qed
qed

lemma serial_run_delivers:
  "serial_expects c fs ids (d @ bs) r \<Longrightarrow>
   \<exists>gs hs ids1 ids2 r'. serial_run cp d r = Inr (ids1, r') \<and> fs = gs @ hs \<and> ids = ids1 @ ids2 \<and>
     m_frames r' = m_frames r @ map delivered gs \<and> serial_expects c hs ids2 bs r'"
proof (induction d arbitrary: fs ids r)
  case Nil
  then show ?case by simp
next
  case (Cons b d)
  from serial_step_delivers [of c fs ids b "d @ bs" r cp] Cons.prems obtain gs1 fs1 ids1 ids' r1
    where s1: "serial_step cp b r = Inr (ids1, r1)" "fs = gs1 @ fs1" "ids = ids1 @ ids'"
      "m_frames r1 = m_frames r @ map delivered gs1" "serial_expects c fs1 ids' (d @ bs) r1" by auto
  from Cons.IH [OF s1(5)] obtain gs2 hs ids2 ids3 r2
    where s2: "serial_run cp d r1 = Inr (ids2, r2)" "fs1 = gs2 @ hs" "ids' = ids2 @ ids3"
      "m_frames r2 = m_frames r1 @ map delivered gs2" "serial_expects c hs ids3 bs r2" by blast
  show ?case
    by (intro exI [of _ "gs1 @ gs2"] exI [of _ hs] exI [of _ "ids1 @ ids2"] exI [of _ ids3] exI [of _ r2])
       (use s1 s2 in simp)
qed

lemma check_keeps:
  assumes "serial_expects c fs ids bs r"
  shows "\<exists>ids1 ids2 r'. check_response_id cp r = Inr (ids1, r') \<and> ids = ids1 @ ids2 \<and> m_frames r' = m_frames r \<and>
    serial_expects c fs ids2 bs r'"
proof -
  from assms consider "between c fs ids bs r"
    | f gs ys where "fs = f # gs" "in_body c f gs ids bs r \<or> in_crc c f gs ids bs r" "head_known f gs ids r"
        "frame_body f = sl_readBuffer r @ ys"
    by (force simp: serial_expects_def in_body_def in_crc_def)
  then show ?thesis
  proof cases
    case 1
    then have "check_response_id cp r = Inr ([], r)"
      using tryToReadMeta_known [of r cp "length (sl_readBuffer r)" "sl_readBuffer r"]
      by (cases "m_head r") (auto simp: between_def check_response_id_def FrameReader_tryToReadMeta_def)
    then show ?thesis using assms by auto
  next
    case (2 f gs ys)
    from check_head [OF 2(3,4), of cp] obtain h ids1 ids2 where
      h: "check_response_id cp r = Inr (ids1, r\<lparr>m_head := h\<rparr>)" "ids = ids1 @ ids2" "head_known f gs ids2 (r\<lparr>m_head := h\<rparr>)" by blast
    have "in_body c f gs ids2 bs (r\<lparr>m_head := h\<rparr>) \<or> in_crc c f gs ids2 bs (r\<lparr>m_head := h\<rparr>)"
      using 2(2) h(3) by (auto simp: in_body_def in_crc_def)
    then show ?thesis using h(1,2) 2(1) assms
      by (intro exI [of _ ids1] exI [of _ ids2] exI [of _ "r\<lparr>m_head := h\<rparr>"]) (simp add: serial_expects_def)
  qed
qed

interpretation serial_link: frame_link "\<lambda>d r. Some (SerialFrameReader_addData cp d r)" m_frames "serial_expects c"
proof
  fix fs ids d bs and r :: serial_reader
  assume "serial_expects c fs ids (d @ bs) r"
  from serial_run_delivers [OF this, of cp] obtain gs hs ids1 ids' r1
    where run: "serial_run cp d r = Inr (ids1, r1)" "fs = gs @ hs" "ids = ids1 @ ids'"
      "m_frames r1 = m_frames r @ map delivered gs" "serial_expects c hs ids' bs r1" by blast
  from check_keeps [OF run(5), of cp] obtain ids2 ids3 r2
    where chk: "check_response_id cp r1 = Inr (ids2, r2)" "ids' = ids2 @ ids3" "m_frames r2 = m_frames r1"
      "serial_expects c hs ids3 bs r2" by blast
  show "\<exists>gs hs ids1 ids2 r'. Some (SerialFrameReader_addData cp d r) = Some (Inr (ids1, r')) \<and> fs = gs @ hs \<and> ids = ids1 @ ids2 \<and>
      m_frames r' = m_frames r @ map delivered gs \<and> serial_expects c hs ids2 bs r'"
    by (intro exI [of _ gs] exI [of _ hs] exI [of _ "ids1 @ ids2"] exI [of _ ids3] exI [of _ r2])
       (use run chk in \<open>simp add: SerialFrameReader_addData_def\<close>)
next
  fix fs ids and r :: serial_reader
  assume "serial_expects c fs ids [] r"
  then show "fs = [] \<and> ids = []"
    by (cases fs) (auto simp: serial_expects_def between_def in_body_def in_crc_def serial_bytes_eq esc_ok_def esc_from_def
        write_escaped_def neq_Nil_conv split: if_splits)
qed

text \<open>\<open>STX\<close> starts afresh: what the reader received before does not matter.\<close>

lemma addData_resync:
  "SerialFrameReader_addData cp (STX # d) r = SerialFrameReader_addData cp (STX # d) (r\<lparr>sl_readBuffer := [], m_head := None\<rparr>)"
  by (simp add: SerialFrameReader_addData_def serial_step_def SerialFrameReader_setState_def)

lemma serial_delivers:
  assumes "\<forall>f \<in> set fs. frame_ok f" "sl_withCrcCheck r = c" "d \<noteq> []" "d @ concat ds = concat (map (serial_bytes c) fs)"
  shows "\<exists>r'. feed (\<lambda>d r. Some (SerialFrameReader_addData cp d r)) (d # ds) r = Some (Inr (concat (map reported fs), r')) \<and>
    m_frames r' = m_frames r @ map delivered fs"
proof -
  obtain f gs where fs: "fs = f # gs" using assms(3,4) by (cases fs) auto
  then obtain d' where d: "d = STX # d'" using assms(3,4) by (cases d) (auto simp: serial_bytes_eq)
  define r0 where "r0 = r\<lparr>sl_readBuffer := [], m_head := None\<rparr>"
  have "serial_expects c fs (concat (map reported fs)) (concat (d # ds)) r0"
    using assms by (simp add: serial_expects_def between_def r0_def)
  from serial_link.link_delivers [OF this, of cp] obtain r'
    where "feed (\<lambda>d r. Some (SerialFrameReader_addData cp d r)) (d # ds) r0 = Some (Inr (concat (map reported fs), r'))"
      "m_frames r' = m_frames r0 @ map delivered fs" by blast
  moreover have "feed (\<lambda>d r. Some (SerialFrameReader_addData cp d r)) (d # ds) r =
      feed (\<lambda>d r. Some (SerialFrameReader_addData cp d r)) (d # ds) r0"
    by (simp add: d r0_def addData_resync [of cp d' r])
  ultimately show ?thesis by (simp add: r0_def)
qed

section \<open>A corrupted byte\<close>

lemma escape_plain: "b \<in> set (escape bs) \<Longrightarrow> b \<noteq> STX \<and> b \<noteq> ETX \<and> b \<noteq> ATX"
  by (induction bs) (auto simp: write_escaped_def split: if_splits)

lemma escape_last: "bs \<noteq> [] \<Longrightarrow> escape bs \<noteq> [] \<and> last (escape bs) \<noteq> ESC"
proof (induction bs)
  case (Cons b bs)
  have "write_escaped b \<noteq> []" "last (write_escaped b) \<noteq> ESC" by (auto simp: write_escaped_def)
  then show ?case using Cons.IH by (cases "bs = []") auto
qed simp

lemma idle_run:
  "sl_readState r = WaitingForStx \<Longrightarrow> \<forall>b \<in> set w. b \<noteq> STX \<and> b \<noteq> ATX \<Longrightarrow>
   \<exists>x. serial_run cp w r = Inr ([], r\<lparr>sl_recentByte := x\<rparr>)"
proof (induction w arbitrary: r)
  case Nil
  show ?case by (rule exI [of _ "sl_recentByte r"]) simp
next
  case (Cons b w)
  have "serial_step cp b r = Inr ([], r\<lparr>sl_recentByte := b\<rparr>)" using Cons.prems by (simp add: serial_step_def)
  then show ?case using Cons.IH [of "r\<lparr>sl_recentByte := b\<rparr>"] Cons.prems by auto
qed

lemma body_run:
  "sl_readState r = WaitingForEtx \<Longrightarrow> \<forall>b \<in> set w. b \<noteq> STX \<and> b \<noteq> ETX \<and> b \<noteq> ATX \<Longrightarrow>
   \<exists>r'. serial_run cp w r = Inr ([], r') \<and> m_frames r' = m_frames r \<and> sl_withCrcCheck r' = sl_withCrcCheck r \<and>
     (sl_readState r' = WaitingForStx \<or>
      sl_readState r' = WaitingForEtx \<and> sl_crcDigest r' = Crc32_add_all CRC_POSIX_POLY_REV (sl_crcDigest r) w \<and>
        (w \<noteq> [] \<longrightarrow> sl_recentByte r' = last w))"
proof (induction w arbitrary: r)
  case (Cons b w)
  define r1 where "r1 = r\<lparr>sl_crcDigest := Crc32_add CRC_POSIX_POLY_REV (sl_crcDigest r) b, sl_recentByte := b\<rparr>"
  have plain: "b \<noteq> STX" "b \<noteq> ETX" "b \<noteq> ATX" "\<forall>b \<in> set w. b \<noteq> STX \<and> b \<noteq> ETX \<and> b \<noteq> ATX" using Cons.prems(2) by auto
  show ?case
  proof (cases "add_byte (sl_recentByte r) b")
    case None
    then have "serial_step cp b r = Inr ([], r1\<lparr>sl_readState := WaitingForStx\<rparr>)"
      using Cons.prems(1) plain by (simp add: serial_step_def r1_def SerialFrameReader_setState_def)
    moreover obtain x where "serial_run cp w (r1\<lparr>sl_readState := WaitingForStx\<rparr>) = Inr ([], (r1\<lparr>sl_readState := WaitingForStx\<rparr>)\<lparr>sl_recentByte := x\<rparr>)"
      using idle_run [of "r1\<lparr>sl_readState := WaitingForStx\<rparr>" w cp] plain(4) by auto
    ultimately show ?thesis by (simp add: r1_def)
  next
    case (Some new)
    then have "serial_step cp b r = Inr ([], r1\<lparr>sl_readBuffer := sl_readBuffer r @ new\<rparr>)"
      using Cons.prems(1) plain by (simp add: serial_step_def r1_def)
    then show ?thesis
      using Cons.IH [of "r1\<lparr>sl_readBuffer := sl_readBuffer r @ new\<rparr>"] Cons.prems(1) plain(4) by (auto simp: r1_def)
  qed
qed simp

lemma check_frames: "check_response_id cp r = Inr (ids, r') \<Longrightarrow> m_frames r' = m_frames r \<and> (\<exists>h. r' = r\<lparr>m_head := h\<rparr>)"
  by (auto simp: check_response_id_def FrameReader_tryToReadMeta_def map_sum_Inr Let_def
      split: option.splits list.splits sum.splits if_splits intro: exI [of _ "m_head r"])

lemma bad_crc_drops:
  assumes "sl_withCrcCheck r" "Crc32_result (sl_crcDigest r) \<noteq> msg_crc (sl_crcBuffer r)" "check_and_finish cp r = Inr (ids, r')"
  shows "m_frames r' = m_frames r \<and> sl_readState r' = WaitingForStx"
  using assms check_frames
  by (fastforce simp: check_and_finish_def bind_e_Inr map_sum_Inr SerialFrameReader_finishFrame_def SerialFrameReader_setState_def
      split: prod.splits)

lemma crc_run:
  "sl_readState r = WaitingForCrc \<Longrightarrow> sl_withCrcCheck r \<Longrightarrow> crc_bytes crc = sl_crcBuffer r @ ys \<Longrightarrow> ys \<noteq> [] \<Longrightarrow>
   esc_ok (sl_recentByte r) ys \<Longrightarrow> Crc32_result (sl_crcDigest r) \<noteq> crc \<Longrightarrow>
   serial_run cp (esc_from (sl_recentByte r) ys) r = Inr (ids, r') \<Longrightarrow> m_frames r' = m_frames r"
proof (induction "length (esc_from (sl_recentByte r) ys)" arbitrary: r ys ids rule: less_induct)
  case less
  from esc_step [OF less.prems(5,4)] obtain b new ys'
    where e: "esc_from (sl_recentByte r) ys = b # esc_from b ys'" "ys = new @ ys'" "add_byte (sl_recentByte r) b = Some new"
      "b \<noteq> STX" "b \<noteq> ETX" "b \<noteq> ATX" "esc_ok b ys'" .
  define r1 where "r1 = r\<lparr>sl_crcBuffer := sl_crcBuffer r @ new, sl_recentByte := b\<rparr>"
  have buf: "crc_bytes crc = sl_crcBuffer r1 @ ys'" using less.prems(3) e(2) by (simp add: r1_def)
  have len: "length (sl_crcBuffer r1) = 4 \<longleftrightarrow> ys' = []"
    using length_crc_bytes [of crc] unfolding buf by (cases ys') auto
  have step: "serial_step cp b r = (if ys' = [] then check_and_finish cp r1 else Inr ([], r1))"
    using less.prems(1) e len by (simp add: serial_step_def r1_def)
  show ?case
  proof (cases "ys' = []")
    case True
    have bad: "sl_withCrcCheck r1" "Crc32_result (sl_crcDigest r1) \<noteq> msg_crc (sl_crcBuffer r1)"
      using less.prems(2,6) buf True msg_crc_bytes [of crc] by (auto simp: r1_def)
    have "esc_from b ys' = []" using True e(7) by (simp add: esc_from_def esc_ok_def)
    then have "check_and_finish cp r1 = Inr (ids, r')"
      using less.prems(7) step True e(1) by (auto simp: bind_e_Inr map_sum_Inr)
    then show ?thesis using bad_crc_drops [OF bad] by (simp add: r1_def)
  next
    case False
    then have "\<exists>ids'. serial_run cp (esc_from (sl_recentByte r1) ys') r1 = Inr (ids', r')"
      using less.prems(7) step e(1) by (auto simp: bind_e_Inr map_sum_Inr r1_def)
    then show ?thesis
      using less.hyps [of r1 ys'] less.prems(1,2,6) e(1,7) buf False by (auto simp: r1_def)
  qed
qed

lemma serial_run_append:
  "serial_run cp (v @ w) r =
     bind_e (serial_run cp v r) (\<lambda>(ids, r). map_sum id (map_prod (\<lambda>ids'. ids @ ids') id) (serial_run cp w r))"
  by (induction v arbitrary: r)
     (auto simp: bind_e_def sum.map_comp prod.map_comp comp_def map_prod_def case_prod_unfold id_def sum.map_ident split: sum.splits)

lemma crc_changes:
  assumes "y \<noteq> y'"
  shows "Crc32_result (Crc32_add_all CRC_POSIX_POLY_REV Crc32_init (xs @ y' # zs)) \<noteq>
    Crc32_result (Crc32_add_all CRC_POSIX_POLY_REV Crc32_init (xs @ y # zs))"
proof -
  have "bit CRC_POSIX_POLY_REV 31" by (simp add: CRC_POSIX_POLY_REV_def)
  from byte_error_changes [OF this, of y' y "m_remainder Crc32_init" xs zs] assms show ?thesis
    by (simp add: Crc32_result_def add_all_is_bitwise) (metis xor_cancel xor.commute)
qed

lemma corrupted_frame_dropped:
  assumes r: "sl_withCrcCheck r" and body: "escape (frame_body f) = xs @ y # zs"
    and y': "y' \<noteq> y" "y' \<noteq> STX" "y' \<noteq> ETX" "y' \<noteq> ATX" "y' \<noteq> ESC"
    and run: "SerialFrameReader_addData cp (STX # (xs @ y' # zs) @ ETX # crc_part True f) r = Inr (ids, r')"
  shows "m_frames r' = m_frames r"
proof -
  define r0 where "r0 = (SerialFrameReader_setState WaitingForEtx r)\<lparr>sl_recentByte := STX\<rparr>"
  define w where "w = xs @ y' # zs"
  have plain: "\<forall>b \<in> set w. b \<noteq> STX \<and> b \<noteq> ETX \<and> b \<noteq> ATX"
    using y' escape_plain [of _ "frame_body f"] body by (auto simp: w_def)
  have r0: "sl_readState r0 = WaitingForEtx" "sl_crcDigest r0 = Crc32_init" "m_frames r0 = m_frames r" "sl_withCrcCheck r0"
    using r by (simp_all add: r0_def SerialFrameReader_setState_def Crc32_reset_def Crc32_init_def)
  from body_run [OF r0(1) plain, of cp] r0 obtain r1
    where r1: "serial_run cp w r0 = Inr ([], r1)" "m_frames r1 = m_frames r" "sl_withCrcCheck r1"
      "sl_readState r1 = WaitingForStx \<or> sl_readState r1 = WaitingForEtx \<and>
        sl_crcDigest r1 = Crc32_add_all CRC_POSIX_POLY_REV Crc32_init w \<and> sl_recentByte r1 = last w"
    by (auto simp: w_def)
  obtain ids1 r2 where r2: "serial_run cp (ETX # crc_part True f) r1 = Inr (ids1, r2)" and frames: "m_frames r' = m_frames r2"
    using run check_frames r1(1)
    by (fastforce simp: SerialFrameReader_addData_def serial_step_def bind_e_Inr map_sum_Inr serial_run_append w_def [symmetric] r0_def [symmetric])
  have "m_frames r2 = m_frames r1"
  proof (cases "sl_readState r1 = WaitingForStx")
    case True
    have "\<forall>b \<in> set (ETX # crc_part True f). b \<noteq> STX \<and> b \<noteq> ATX"
      using escape_plain [of _ "crc_bytes (body_crc f)"] by (auto simp: crc_part_def)
    then show ?thesis using idle_run [OF True, of "ETX # crc_part True f" cp] r2 by auto
  next
    case False
    define r3 where "r3 = SerialFrameReader_setState WaitingForCrc r1"
    have st: "sl_readState r3 = WaitingForCrc" "sl_withCrcCheck r3" "sl_crcBuffer r3 = []" "m_frames r3 = m_frames r1"
        "sl_crcDigest r3 = Crc32_add_all CRC_POSIX_POLY_REV Crc32_init w" "sl_recentByte r3 = last w"
      using r1 False by (auto simp: r3_def SerialFrameReader_setState_def)
    have "last w \<noteq> ESC"
      using escape_last [of "frame_body f"] y'(5) body by (cases "zs = []") (auto simp: w_def frame_body_def chp_head_def)
    then have "serial_run cp (esc_from (sl_recentByte r3) (crc_bytes (body_crc f))) r3 = Inr (ids1, r2)"
      using r2 False r1(3,4) st(6) by (auto simp: serial_step_def r3_def crc_part_def esc_from_def bind_e_Inr map_sum_Inr)
    moreover have "esc_ok (sl_recentByte r3) (crc_bytes (body_crc f))" using st(6) \<open>last w \<noteq> ESC\<close> by (simp add: esc_ok_def)
    moreover have "Crc32_result (sl_crcDigest r3) \<noteq> body_crc f"
      using crc_changes [of y y' xs zs] y'(1) by (simp add: st(5) body_crc_def body w_def)
    moreover have "crc_bytes (body_crc f) = sl_crcBuffer r3 @ crc_bytes (body_crc f)" "crc_bytes (body_crc f) \<noteq> []"
      using st(3) by (simp_all add: crc_bytes_def)
    ultimately have "m_frames r2 = m_frames r3" using crc_run [OF st(1,2)] by blast
    then show ?thesis using st(4) by simp
  qed
  then show ?thesis using frames r1(2) by simp
qed

end
