(* ===== verification/Samples.thy ===== *)
theory Samples
  imports Rpc_Connection Data_Change Tunnel_Ctl Meta_Method Meta_Types Chp_Utils Serial_Frame
begin

text \<open>
  Concrete values at which the properties of the development are instantiated, with the side
  conditions of those properties discharged by evaluation.
\<close>

definition sample_value :: rpc_value where
  "sample_value =
     RpcValue (Some (MetaData [(1, rpc (VInt 1))] [(''note'', rpc (VString ''m''))]))
       (VMap [(''a'', rpc (VInt (-5))),
              (''b'', rpc (VList [rpc (VString ''x''), rpc (VBool True), rpc (VUInt 300)])),
              (''c'', rpc (VIMap [(7, rpc VNull)]))])"

definition sample_message :: rpc_message where
  "sample_message =
     RpcValue (Some (MetaData [(1, rpc (VInt 1)), (8, rpc (VInt 42)), (9, rpc (VString ''test/node'')),
        (10, rpc (VString ''get''))] [])) (VIMap [(1, rpc (VInt 7))])"

definition sample_response :: rpc_frame where
  "sample_response = \<lparr>fr_protocol = PT_ChainPack,
     fr_meta = MetaData [(1, rpc (VInt 1)), (8, rpc (VInt 42))] [], fr_data = [0x8a, 0x42, 0xa2, 0xff]\<rparr>"

definition sample_grant :: access_grant where
  "sample_grant = \<lparr>ag_level = AccessLevel_Write, ag_access = ''foo,bar''\<rparr>"

definition sample_method :: meta_method where
  "sample_method = MetaMethod_make ''set'' 4 (Some ''Int'') None AccessLevel_Write [(''chng'', Some ''Int'')] ''sets it'' ''Set'' []"

definition no_cpon :: cpon_ops where
  "no_cpon = \<lparr>cpon_write_meta = (\<lambda>_. []), cpon_write = (\<lambda>_. []), cpon_read = (\<lambda>_. Inl ParseException),
     cpon_read_meta = (\<lambda>_. Inl ParseException)\<rparr>"

lemma sample_value_ok: "cp_ok sample_value"
  by (simp add: sample_value_def cp_ok_def rpc_wf.simps meta_wf.simps smap_ok_def imap_ok_def in_s_def short_key_def)

lemma sample_message_ok: "cp_ok sample_message" "RpcValue_isIMap sample_message"
  "\<not> RpcMetaData_isEmpty (RpcMessage_metaData sample_message)" "message_wf sample_message"
  by (simp_all add: sample_message_def cp_ok_def rpc_wf.simps meta_wf.simps smap_ok_def imap_ok_def in_s_def
      short_key_def type_test_defs RpcMessage_metaData_def RpcValue_metaData_def RpcMetaData_isEmpty_def
      RpcMetaData_size_def message_wf_def)

lemma sample_response_ok: "frame_ok sample_response"
proof -
  have "\<not> isl (RpcValue_toInt64 (RpcMessage_requestId_m (canon_meta (fr_meta sample_response))))" by code_simp
  moreover have "fr_protocol sample_response = PT_ChainPack \<and> meta_wf (fr_meta sample_response) \<and>
      meta_packable (fr_meta sample_response) \<and> \<not> RpcMetaData_isEmpty (fr_meta sample_response)"
    by (simp add: sample_response_def rpc_wf.simps meta_wf.simps smap_ok_def imap_ok_def in_s_def
        RpcMetaData_isEmpty_def RpcMetaData_size_def)
  ultimately show ?thesis by (simp add: frame_ok_def)
qed

lemma sample_grant_ok: "named_level (ag_level sample_grant)" "access_wf (ag_access sample_grant)"
  by (simp_all add: sample_grant_def named_level_def accessLevelToAccessString_def access_wf_def access_piece_def
      is_level_name_def accessLevelFromAccessString_def)

lemma sample_method_ok: "mm_ok sample_method"
  by (simp add: mm_ok_def sample_method_def MetaMethod_make_def accessLevelFromInt_def access_level_cases_def)

end
