(* ===== verification/Core_Utils.thy ===== *)
theory Core_Utils
  imports Chp_Utils
begin

text \<open>
  String helpers of \<open>libshvcore\<close>: \<open>src/utils.cpp\<close>, \<open>src/stringview.cpp\<close>.  A \<open>StringView\<close> is the
  string it shows; \<open>std::string::npos\<close> as the result of a search is \<open>None\<close>.
\<close>

section \<open>Splitting and joining\<close>

datatype SplitBehavior = KeepEmptyParts | SkipEmptyParts
datatype QuoteBehavior = KeepQuotes | RemoveQuotes

abbreviation NUL :: char where "NUL \<equiv> CHR 0x00"

fun token_loop :: "char \<Rightarrow> char \<Rightarrow> bool \<Rightarrow> string \<Rightarrow> string" where
  "token_loop delim quot in_quotes [] = []"
| "token_loop delim quot in_quotes (c # cs) =
     (if quot \<noteq> NUL \<and> c = quot then c # token_loop delim quot (\<not> in_quotes) cs
      else if c = delim \<and> \<not> in_quotes then []
      else c # token_loop delim quot in_quotes cs)"

definition getToken :: "string \<Rightarrow> char \<Rightarrow> char \<Rightarrow> string" where
  "getToken strv delim quot = token_loop delim quot False strv"

definition quoted :: "char \<Rightarrow> string \<Rightarrow> bool" where
  "quoted quot token \<longleftrightarrow> length token \<ge> 2 \<and> hd token = quot \<and> last token = quot"

definition unquote :: "string \<Rightarrow> string" where
  "unquote token = take (length token - 2) (drop 1 token)"

definition split_part :: "char \<Rightarrow> SplitBehavior \<Rightarrow> QuoteBehavior \<Rightarrow> string \<Rightarrow> string list" where
  "split_part quot split_behavior quotes_behavior token =
     (if split_behavior = KeepEmptyParts \<or> token \<noteq> []
      then [if quotes_behavior = RemoveQuotes \<and> quoted quot token then unquote token else token]
      else [])"

function split_loop :: "char \<Rightarrow> char \<Rightarrow> SplitBehavior \<Rightarrow> QuoteBehavior \<Rightarrow> string \<Rightarrow> string list" where
  "split_loop delim quot sb qb strv =
     (let token = getToken strv delim quot
      in split_part quot sb qb token @
         (if length token \<ge> length strv then [] else split_loop delim quot sb qb (drop (length token + 1) strv)))"
  by pat_completeness auto
termination
  by (relation "measure (\<lambda>(delim, quot, sb, qb, strv). length strv)") auto

declare split_loop.simps [simp del]

definition split_view :: "string \<Rightarrow> char \<Rightarrow> char \<Rightarrow> SplitBehavior \<Rightarrow> QuoteBehavior \<Rightarrow> string list" where
  "split_view strv delim quot sb qb = (if strv = [] then [] else split_loop delim quot sb qb strv)"

text \<open>The overload for \<open>std::string\<close>, which knows no quotes and takes the empty string as one part.\<close>

fun split_str :: "char \<Rightarrow> SplitBehavior \<Rightarrow> string \<Rightarrow> string \<Rightarrow> string list" where
  "split_str delim sb part [] = (if sb = KeepEmptyParts \<or> part \<noteq> [] then [part] else [])"
| "split_str delim sb part (c # cs) =
     (if c = delim then (if sb = KeepEmptyParts \<or> part \<noteq> [] then [part] else []) @ split_str delim sb [] cs
      else split_str delim sb (part @ [c]) cs)"

definition utils_split :: "string \<Rightarrow> char \<Rightarrow> SplitBehavior \<Rightarrow> string list" where
  "utils_split str delim sb = split_str delim sb [] str"

text \<open>\<open>utils::join\<close> puts the delimiter where the result so far is not empty, \<open>StringViewList::join\<close> between all.\<close>

definition utils_join :: "string list \<Rightarrow> string \<Rightarrow> string" where
  "utils_join lst delim = foldl (\<lambda>ret s. (if ret \<noteq> [] then ret @ delim else ret) @ s) [] lst"

fun StringViewList_join :: "string list \<Rightarrow> string \<Rightarrow> string" where
  "StringViewList_join [] delim = []"
| "StringViewList_join [s] delim = s"
| "StringViewList_join (s # t # lst) delim = s @ delim @ StringViewList_join (t # lst) delim"

definition StringViewList_value :: "string list \<Rightarrow> int \<Rightarrow> string" where
  "StringViewList_value lst i =
     (let ix = (if i < 0 then int (length lst) + i else i)
      in if ix < 0 \<or> ix \<ge> int (length lst) then [] else lst ! nat ix)"

primrec index_from :: "'a \<Rightarrow> int \<Rightarrow> 'a list \<Rightarrow> int" where
  "index_from str i [] = - 1"
| "index_from str i (sv # lst) = (if sv = str then i else index_from str (i + 1) lst)"

definition StringViewList_indexOf :: "string list \<Rightarrow> string \<Rightarrow> int" where
  "StringViewList_indexOf lst str = index_from str 0 lst"

text \<open>The end is compared in \<open>size_t\<close>; a start behind the end has no behaviour in C++ and is not given one.\<close>

definition StringViewList_mid :: "string list \<Rightarrow> u64 \<Rightarrow> u64 \<Rightarrow> string list option" where
  "StringViewList_mid lst start len =
     (let end_ix = (if unat (start + len) > length lst then length lst else unat (start + len))
      in if unat start \<le> end_ix then Some (take (end_ix - unat start) (drop (unat start) lst)) else None)"

fun StringViewList_startsWith :: "string list \<Rightarrow> string list \<Rightarrow> bool" where
  "StringViewList_startsWith xs [] \<longleftrightarrow> True"
| "StringViewList_startsWith [] (y # ys) \<longleftrightarrow> False"
| "StringViewList_startsWith (x # xs) (y # ys) \<longleftrightarrow> x = y \<and> StringViewList_startsWith xs ys"

section \<open>Searching and trimming\<close>

definition to_lower :: "char \<Rightarrow> char" where
  "to_lower c = (if 65 \<le> (of_char c :: nat) \<and> (of_char c :: nat) \<le> 90 then char_of (of_char c + 32 :: nat) else c)"

definition to_upper :: "char \<Rightarrow> char" where
  "to_upper c = (if 97 \<le> (of_char c :: nat) \<and> (of_char c :: nat) \<le> 122 then char_of (of_char c - 32 :: nat) else c)"

definition toLower :: "string \<Rightarrow> string" where "toLower s = map to_lower s"
definition toUpper :: "string \<Rightarrow> string" where "toUpper s = map to_upper s"

definition str_equal :: "bool \<Rightarrow> string \<Rightarrow> string \<Rightarrow> bool" where
  "str_equal case_insensitive a b \<longleftrightarrow>
     length a = length b \<and> list_all2 (\<lambda>x y. if case_insensitive then to_lower x = to_lower y else x = y) b a"

text \<open>\<open>find_at\<close> is \<open>std::search\<close> and \<open>std::string::find\<close>: the first place where the needle stands.\<close>

primrec find_at :: "(char \<Rightarrow> char \<Rightarrow> bool) \<Rightarrow> string \<Rightarrow> nat \<Rightarrow> string \<Rightarrow> nat option" where
  "find_at eq needle i [] = (if needle = [] then Some i else None)"
| "find_at eq needle i (c # cs) =
     (if length needle \<le> length (c # cs) \<and> list_all2 eq (take (length needle) (c # cs)) needle then Some i
      else find_at eq needle (i + 1) cs)"

definition utils_indexOf :: "string \<Rightarrow> string \<Rightarrow> bool \<Rightarrow> nat option" where
  "utils_indexOf haystack needle case_insensitive =
     (case find_at (\<lambda>x y. if case_insensitive then to_lower x = to_lower y else x = y) needle 0 haystack of
        None \<Rightarrow> None
      | Some i \<Rightarrow> if i = length haystack then None else Some i)"

definition utils_indexOf_char :: "string \<Rightarrow> char \<Rightarrow> nat option" where
  "utils_indexOf_char haystack needle =
     (let i = index_from needle 0 haystack in if i < 0 then None else Some (nat i))"

definition utils_mid :: "string \<Rightarrow> nat \<Rightarrow> nat \<Rightarrow> string" where
  "utils_mid str pos cnt = (if pos < length str then take cnt (drop pos str) else [])"

definition rtrim :: "string \<Rightarrow> string \<Rightarrow> string" where
  "rtrim s t = rev (dropWhile (\<lambda>c. c \<in> set t) (rev s))"

definition ltrim :: "string \<Rightarrow> string \<Rightarrow> string" where
  "ltrim s t = dropWhile (\<lambda>c. c \<in> set t) s"

definition trim :: "string \<Rightarrow> string \<Rightarrow> string" where
  "trim s t = ltrim (rtrim s t) t"

text \<open>\<open>start\<close> and the cut-off at the end are clamped to the string.\<close>

definition slice :: "string \<Rightarrow> int \<Rightarrow> int \<Rightarrow> string" where
  "slice s start end_off =
     (let n = int (length s);
          start = max 0 (min start n);
          e = max 0 (min (n + end_off) n);
          e = max e start
      in take (nat (e - start)) (drop (nat start) s))"

text \<open>
  \<open>replace\<close>: \<open>ret\<close> is what precedes \<open>pos\<close>.  With an empty \<open>from\<close> the loop finds it again and again
  and does not end.
\<close>

partial_function (option) replace_loop :: "string \<Rightarrow> string \<Rightarrow> int \<Rightarrow> string \<Rightarrow> string \<Rightarrow> (string \<times> int) option" where
  "replace_loop pat to n ret str =
     (case find_at (=) pat 0 str of
        None \<Rightarrow> Some (ret @ str, n)
      | Some i \<Rightarrow> replace_loop pat to (n + 1) (ret @ take i str @ to) (drop (i + length pat) str))"

definition utils_replace :: "string \<Rightarrow> string \<Rightarrow> string \<Rightarrow> (string \<times> int) option" where
  "utils_replace str pat to = replace_loop pat to 0 [] str"

definition utils_replace_char :: "string \<Rightarrow> char \<Rightarrow> char \<Rightarrow> string \<times> int" where
  "utils_replace_char str from to =
     (map (\<lambda>c. if c = from then to else c) str, int (length (List.filter (\<lambda>c. c = from) str)))"

section \<open>Paths\<close>

definition joinPath :: "string \<Rightarrow> string \<Rightarrow> string" where
  "joinPath p1 p2 =
     (let sv1 = rev (dropWhile (\<lambda>c. c = CHR ''/'') (rev p1));
          sv2 = dropWhile (\<lambda>c. c = CHR ''/'') p2
      in if sv2 = [] then sv1 else if sv1 = [] then sv2 else sv1 @ CHR ''/'' # sv2)"

definition simplify_step :: "string list \<Rightarrow> string \<Rightarrow> string list" where
  "simplify_step ret s =
     (if s = ''.'' then ret else if s = ''..'' then butlast ret else ret @ [s])"

definition Utils_simplifyPath :: "string \<Rightarrow> string" where
  "Utils_simplifyPath p =
     StringViewList_join (foldl simplify_step [] (split_view p (CHR ''/'') NUL SkipEmptyParts KeepQuotes)) ''/''"

section \<open>Version numbers\<close>

text \<open>\<open>std::getline\<close> until the end: a delimiter at the end of the string starts no further item.\<close>

fun getline_split :: "char \<Rightarrow> string \<Rightarrow> string \<Rightarrow> string list" where
  "getline_split delim item [] = (if item = [] then [] else [item])"
| "getline_split delim item (c # cs) =
     (if c = delim then item # getline_split delim [] cs else getline_split delim (item @ [c]) cs)"

definition is_space :: "char \<Rightarrow> bool" where
  "is_space c \<longleftrightarrow> c = CHR '' '' \<or> 9 \<le> (of_char c :: nat) \<and> (of_char c :: nat) \<le> 13"

text \<open>\<open>atoi\<close> is \<open>strtol\<close>, which saturates at 64 bits, cut to 32.\<close>

definition atoi :: "string \<Rightarrow> int" where
  "atoi s = s_wrap 32 (max (- (2 ^ 63)) (min (2 ^ 63 - 1)
     (case dropWhile is_space s of
        [] \<Rightarrow> 0
      | c # cs \<Rightarrow>
          if c = CHR ''-'' then - int (digits_value (takeWhile is_digit cs))
          else if c = CHR ''+'' then int (digits_value (takeWhile is_digit cs))
          else int (digits_value (takeWhile is_digit (c # cs))))))"

definition Utils_versionStringToInt :: "string \<Rightarrow> int" where
  "Utils_versionStringToInt version_string =
     foldl (\<lambda>ret s. s_wrap 32 (100 * ret + atoi s)) 0 (getline_split (CHR ''.'') [] version_string)"

function version_loop :: "int \<Rightarrow> string \<Rightarrow> string" where
  "version_loop ver ret =
     (if ver = 0 then ret
      else (let i = ver smod 100; ver = ver sdiv 100; s = to_string_int i
            in version_loop ver (if ret = [] then s else s @ CHR ''.'' # ret)))"
  by pat_completeness auto
termination
proof (relation "measure (\<lambda>(ver, ret). nat \<bar>ver\<bar>)")
  fix ver x y z :: int and ret :: string
  assume "ver \<noteq> 0" "y = ver sdiv 100"
  then have "\<bar>y\<bar> < \<bar>ver\<bar>" by (auto simp: signed_divide_int_def abs_mult sgn_if)
  then show "((y, ret'), ver, ret) \<in> measure (\<lambda>(ver, ret). nat \<bar>ver\<bar>)" for ret' by simp
qed auto

definition Utils_intToVersionString :: "int \<Rightarrow> string" where
  "Utils_intToVersionString ver = version_loop ver []"

section \<open>Hexadecimal text and folded maps\<close>

definition CoreUtils_toHex :: "bytes \<Rightarrow> string" where
  "CoreUtils_toHex bs = concat (map (\<lambda>b. [char_of_byte (hexNibble (b div 16)), char_of_byte (hexNibble (b mod 16))]) bs)"

definition unhex_char :: "char \<Rightarrow> byte" where
  "unhex_char c =
     (let b = byte_of_char c
      in if b \<ge> 48 \<and> b \<le> 57 then b - 48
         else if b \<ge> 97 \<and> b \<le> 102 then b - 97 + 10
         else if b \<ge> 65 \<and> b \<le> 70 then b - 65 + 10
         else 0)"

fun CoreUtils_fromHex :: "string \<Rightarrow> bytes" where
  "CoreUtils_fromHex [] = []"
| "CoreUtils_fromHex [c] = [16 * unhex_char c]"
| "CoreUtils_fromHex (c # d # cs) = (16 * unhex_char c + unhex_char d) # CoreUtils_fromHex cs"

fun create_key_val :: "string list \<Rightarrow> rpc_value \<Rightarrow> rpc_value \<Rightarrow> rpc_value" where
  "create_key_val [] val m = m"
| "create_key_val [key] val m = RpcValue_set_s key val m"
| "create_key_val (key # k2 # path) val m =
     (let mval = RpcValue_at_s m key (rpc VInvalid);
          mval = (if RpcValue_isMap mval then mval else rpc (VMap []))
      in RpcValue_set_s key (create_key_val (k2 # path) val mval) m)"

definition Utils_foldMap :: "rpc_map \<Rightarrow> char \<Rightarrow> rpc_value" where
  "Utils_foldMap plain_map key_delimiter =
     foldl (\<lambda>ret (key, val). create_key_val (split_view key key_delimiter NUL SkipEmptyParts KeepQuotes) val ret)
       (rpc (VMap [])) plain_map"

text \<open>
  \<open>getIntLE<T>\<close> with the unsigned type of \<open>T\<close> as the word type; for a signed \<open>T\<close> wider than the data
  the bytes above them are filled with ones.
\<close>

definition getIntLE :: "bool \<Rightarrow> bytes \<Rightarrow> 'w::len word" where
  "getIntLE is_signed buff =
     (let val = foldr (\<lambda>b val. val * 256 + ucast b) buff 0
      in if is_signed \<and> 8 * length buff < LENGTH('w) then val OR push_bit (8 * length buff) (- 1) else val)"

section \<open>Tokens\<close>

lemma token_loop_skip:
  "quot \<notin> set s \<Longrightarrow> in_quotes \<or> delim \<notin> set s \<Longrightarrow> token_loop delim quot in_quotes (s @ t) = s @ token_loop delim quot in_quotes t"
  by (induction s) auto

lemma token_loop_prefix: "\<exists>t. s = token_loop delim quot in_quotes s @ t"
  by (induction s arbitrary: in_quotes) auto

lemma length_getToken: "length (getToken s delim quot) \<le> length s"
  using token_loop_prefix [of s delim quot False] unfolding getToken_def by (metis le_add1 length_append)

text \<open>A token that is complete, and one that a delimiter ends.\<close>

lemma split_loop_last: "getToken s delim quot = s \<Longrightarrow> split_loop delim quot sb qb s = split_part quot sb qb s"
  by (simp add: split_loop.simps [of delim quot sb qb s])

lemma split_loop_token:
  "getToken (s @ delim # t) delim quot = s \<Longrightarrow>
   split_loop delim quot sb qb (s @ delim # t) = split_part quot sb qb s @ split_loop delim quot sb qb t"
  by (simp add: split_loop.simps [of delim quot sb qb "s @ delim # t"])

lemma split_loop_plain:
  "split_loop delim NUL sb KeepQuotes s = split_str delim sb [] s"
proof -
  have str: "split_str delim sb part s = (if sb = KeepEmptyParts \<or> part @ takeWhile (\<lambda>c. c \<noteq> delim) s \<noteq> []
      then [part @ takeWhile (\<lambda>c. c \<noteq> delim) s] else []) @
      (case dropWhile (\<lambda>c. c \<noteq> delim) s of [] \<Rightarrow> [] | _ # t \<Rightarrow> split_str delim sb [] t)" for part s
    by (induction s arbitrary: part) auto
  have token: "getToken s delim NUL = takeWhile (\<lambda>c. c \<noteq> delim) s" for s
    unfolding getToken_def by (induction s) auto
  show ?thesis
  proof (induction s rule: length_induct)
    case (1 s)
    show ?case
    proof (cases "dropWhile (\<lambda>c. c \<noteq> delim) s")
      case Nil
      then have all: "takeWhile (\<lambda>c. c \<noteq> delim) s = s" by (metis append_Nil2 takeWhile_dropWhile_id)
      show ?thesis by (subst str) (simp add: split_loop_last token all Nil split_part_def)
    next
      case (Cons d t)
      have d: "d = delim" using hd_dropWhile [of "\<lambda>c. c \<noteq> delim" s] Cons by simp
      then have s: "s = takeWhile (\<lambda>c. c \<noteq> delim) s @ delim # t"
        using takeWhile_dropWhile_id [of "\<lambda>c. c \<noteq> delim" s] Cons by simp
      then have "length t < length s" by (metis add_Suc_right length_Cons length_append less_add_Suc2)
      then have "split_loop delim NUL sb KeepQuotes t = split_str delim sb [] t" using 1 by blast
      moreover have "split_loop delim NUL sb KeepQuotes s =
          split_part NUL sb KeepQuotes (takeWhile (\<lambda>c. c \<noteq> delim) s) @ split_loop delim NUL sb KeepQuotes t"
        using split_loop_token [of "takeWhile (\<lambda>c. c \<noteq> delim) s" delim t NUL sb KeepQuotes] s token by metis
      ultimately show ?thesis by (subst str) (simp add: Cons split_part_def)
    qed
  qed
qed

text \<open>Without quotes the two overloads of \<open>split\<close> agree on every string but the empty one.\<close>

lemma split_view_plain:
  "s \<noteq> [] \<Longrightarrow> split_view s delim NUL sb KeepQuotes = utils_split s delim sb"
  by (simp add: split_view_def utils_split_def split_loop_plain)

lemma split_str_parts:
  "p \<in> set (split_str delim sb part s) \<Longrightarrow> delim \<notin> set part \<Longrightarrow> delim \<notin> set p \<and> (sb = SkipEmptyParts \<longrightarrow> p \<noteq> [])"
  by (induction s arbitrary: part) (auto split: if_splits; cases sb; force)+

lemma split_str_append:
  "delim \<notin> set s \<Longrightarrow> split_str delim sb part (s @ t) = split_str delim sb (part @ s) t"
  by (induction s arbitrary: part) auto

lemma split_str_join:
  "\<forall>d \<in> set ds. d \<noteq> [] \<and> delim \<notin> set d \<Longrightarrow> split_str delim SkipEmptyParts [] (StringViewList_join ds [delim]) = ds"
proof (induction ds "[delim]" rule: StringViewList_join.induct)
  case (2 s)
  then show ?case using split_str_append [of delim s SkipEmptyParts "[]" "[]"] by simp
qed (auto simp: split_str_append)

lemma split_view_join:
  assumes "\<forall>d \<in> set ds. d \<noteq> [] \<and> delim \<notin> set d"
  shows "split_view (StringViewList_join ds [delim]) delim NUL SkipEmptyParts KeepQuotes = ds"
  using split_str_join [OF assms] by (auto simp: split_view_def split_loop_plain)

section \<open>Simplified paths\<close>

lemma simplify_plain:
  "''.'' \<notin> set ds \<Longrightarrow> ''..'' \<notin> set ds \<Longrightarrow> foldl simplify_step ret ds = ret @ ds"
  by (induction ds arbitrary: ret) (auto simp: simplify_step_def)

lemma simplify_parts:
  "set (foldl simplify_step ret ds) \<subseteq> set ret \<union> (set ds - {''.'', ''..''})"
proof (induction ds arbitrary: ret)
  case (Cons d ds)
  have "set (simplify_step ret d) \<subseteq> set ret \<union> ({d} - {''.'', ''..''})"
    by (auto simp: simplify_step_def dest: in_set_butlastD)
  then show ?case using Cons [of "simplify_step ret d"] by fastforce
qed simp

lemma simplifyPath_normal:
  obtains ds where "Utils_simplifyPath p = StringViewList_join ds ''/''"
    "\<forall>d \<in> set ds. d \<noteq> [] \<and> CHR ''/'' \<notin> set d \<and> d \<noteq> ''.'' \<and> d \<noteq> ''..''"
proof
  define lst where "lst = split_view p (CHR ''/'') NUL SkipEmptyParts KeepQuotes"
  have "\<forall>d \<in> set lst. d \<noteq> [] \<and> CHR ''/'' \<notin> set d"
    using split_str_parts [of _ "CHR ''/''" SkipEmptyParts "[]" p] by (auto simp: lst_def split_view_def split_loop_plain)
  then show "\<forall>d \<in> set (foldl simplify_step [] lst). d \<noteq> [] \<and> CHR ''/'' \<notin> set d \<and> d \<noteq> ''.'' \<and> d \<noteq> ''..''"
    using simplify_parts [of "[]" lst] by auto
  show "Utils_simplifyPath p = StringViewList_join (foldl simplify_step [] lst) ''/''"
    by (simp add: Utils_simplifyPath_def lst_def)
qed

lemma simplifyPath_idem: "Utils_simplifyPath (Utils_simplifyPath p) = Utils_simplifyPath p"
proof -
  obtain ds where ds: "Utils_simplifyPath p = StringViewList_join ds ''/''"
    "\<forall>d \<in> set ds. d \<noteq> [] \<and> CHR ''/'' \<notin> set d \<and> d \<noteq> ''.'' \<and> d \<noteq> ''..''" by (rule simplifyPath_normal)
  then have "split_view (StringViewList_join ds ''/'') (CHR ''/'') NUL SkipEmptyParts KeepQuotes = ds"
    by (intro split_view_join) blast
  moreover have "foldl simplify_step [] ds = ds" using simplify_plain [of ds "[]"] ds(2) by auto
  ultimately show ?thesis unfolding ds(1) by (simp add: Utils_simplifyPath_def)
qed

section \<open>Version numbers and hexadecimal text\<close>

lemma digit_not_space: "is_digit c \<Longrightarrow> \<not> is_space c \<and> c \<noteq> CHR ''-'' \<and> c \<noteq> CHR ''+'' \<and> c \<noteq> CHR ''.''"
  by (auto simp: is_digit_def is_space_def)

lemma atoi_to_string:
  assumes "in_s 32 i"
  shows "atoi (to_string_int i) = i"
proof -
  have digits: "takeWhile is_digit (to_string_nat n) = to_string_nat n" for n
    using to_string_nat_is_digit [of n] by (simp add: takeWhile_eq_all_conv list_all_iff)
  obtain c cs where n: "to_string_nat (nat i) = c # cs" using to_string_nat_nonempty by (meson neq_Nil_conv)
  have "is_digit c" using to_string_nat_is_digit [of "nat i"] n by simp
  then have "atoi (to_string_nat (nat i)) = s_wrap 32 (max (- (2 ^ 63)) (min (2 ^ 63 - 1) (int (digits_value (to_string_nat (nat i))))))"
    using digits [of "nat i", unfolded n] digit_not_space [of c] by (simp only: n atoi_def dropWhile.simps list.case if_False if_True simp_thms)
  moreover have "\<not> is_space (CHR ''-'')" by (simp add: is_space_def)
  moreover have "max (- (2 ^ 63)) (min (2 ^ 63 - 1) i) = i" using assms by (simp add: in_s_def)
  ultimately show ?thesis
    using s_wrap_id [OF assms]
    by (simp add: to_string_int_def atoi_def [of "CHR ''-'' # _"] digits to_string_nat_value del: digits_value.simps)
qed

lemma to_string_no_dot: "CHR ''.'' \<notin> set (to_string_int i)" "to_string_int i \<noteq> []"
  using digit_not_space to_string_nat_nonempty to_string_nat_is_digit [unfolded list_all_iff] by (auto simp: to_string_int_def)

lemma getline_split_item:
  "delim \<notin> set s \<Longrightarrow> getline_split delim item (s @ t) = getline_split delim (item @ s) t"
  by (induction s arbitrary: item) auto

lemma getline_split_join:
  "\<forall>d \<in> set ds. d \<noteq> [] \<and> delim \<notin> set d \<Longrightarrow> getline_split delim [] (StringViewList_join ds [delim]) = ds"
proof (induction ds "[delim]" rule: StringViewList_join.induct)
  case (2 s)
  then show ?case using getline_split_item [of delim s "[]" "[]"] by simp
qed (auto simp: getline_split_item)

definition version_text :: "int list \<Rightarrow> string" where
  "version_text ds = StringViewList_join (map to_string_int ds) ''.''"

lemma version_text_Cons:
  "version_text (i # ds) = (if version_text ds = [] then to_string_int i else to_string_int i @ CHR ''.'' # version_text ds)"
  using to_string_no_dot(2) by (cases ds; cases "tl ds") (auto simp: version_text_def)

lemma version_loop_text:
  "\<exists>ds. version_loop v (version_text rest) = version_text (ds @ rest) \<and> foldl (\<lambda>ret i. 100 * ret + i) 0 ds = v \<and>
     (\<forall>d \<in> set ds. \<bar>d\<bar> < 100)"
proof (induction "nat \<bar>v\<bar>" arbitrary: v rest rule: less_induct)
  case less
  show ?case
  proof (cases "v = 0")
    case True
    then show ?thesis by (intro exI [of _ "[]"]) (simp add: version_loop.simps [of 0])
  next
    case False
    then have "nat \<bar>v sdiv 100\<bar> < nat \<bar>v\<bar>" by (auto simp: signed_divide_int_def abs_mult sgn_if)
    from less [OF this, of "(v smod 100) # rest"] obtain ds
      where ds: "version_loop (v sdiv 100) (version_text ((v smod 100) # rest)) = version_text (ds @ (v smod 100) # rest)"
        "foldl (\<lambda>ret i. 100 * ret + i) 0 ds = v sdiv 100" "\<forall>d \<in> set ds. \<bar>d\<bar> < 100" by blast
    have "version_loop v (version_text rest) = version_loop (v sdiv 100) (version_text ((v smod 100) # rest))"
      using False by (subst version_loop.simps) (simp add: Let_def version_text_Cons)
    moreover have "\<bar>v smod 100\<bar> < 100"
      using pos_mod_bound [of 100 v] pos_mod_bound [of 100 "- v"] pos_mod_sign [of 100 v] pos_mod_sign [of 100 "- v"]
      by (auto simp: signed_modulo_int_def signed_divide_int_def sgn_if abs_if minus_mult_div_eq_mod)
    ultimately show ?thesis using ds mult_sdiv_smod_eq [of 100 v] by (intro exI [of _ "ds @ [v smod 100]"]) simp
  qed
qed

lemma foldl_s_wrap:
  "foldl (\<lambda>ret i. s_wrap 32 (100 * ret + i)) (s_wrap 32 a) ds = s_wrap 32 (foldl (\<lambda>ret i. 100 * ret + i) a ds)"
proof (induction ds arbitrary: a)
  case (Cons i ds)
  have "take_bit 32 (signed_take_bit 31 a) = take_bit 32 a" by (simp add: take_bit_signed_take_bit)
  then have "take_bit 32 (100 * signed_take_bit 31 a + i) = take_bit 32 (100 * a + i)"
    unfolding take_bit_eq_mod by (intro mod_add_cong mod_mult_cong refl)
  then have "s_wrap 32 (100 * s_wrap 32 a + i) = s_wrap 32 (100 * a + i)"
    by (simp add: s_wrap_def signed_take_bit_eq_iff_take_bit_eq)
  then show ?case by (simp add: Cons.IH)
qed simp

lemma version_roundtrip:
  assumes "in_s 32 v"
  shows "Utils_versionStringToInt (Utils_intToVersionString v) = v"
proof -
  obtain ds where ds: "version_loop v (version_text []) = version_text ds" "foldl (\<lambda>ret i. 100 * ret + i) 0 ds = v"
      "\<forall>d \<in> set ds. \<bar>d\<bar> < 100"
    using version_loop_text [of v "[]"] by auto
  have "getline_split (CHR ''.'') [] (version_text ds) = map to_string_int ds"
    unfolding version_text_def by (rule getline_split_join) (use to_string_no_dot in auto)
  then have "Utils_versionStringToInt (version_text ds) = foldl (\<lambda>ret s. s_wrap 32 (100 * ret + atoi s)) 0 (map to_string_int ds)"
    by (simp add: Utils_versionStringToInt_def)
  also have "\<dots> = foldl (\<lambda>ret i. s_wrap 32 (100 * ret + i)) 0 ds"
  proof -
    have "atoi (to_string_int d) = d" if "d \<in> set ds" for d
      using ds(3) that by (intro atoi_to_string) (force simp: in_s_def)
    then show ?thesis unfolding foldl_map by (intro foldl_cong) auto
  qed
  also have "\<dots> = v" using foldl_s_wrap [of 0 ds] ds(2) s_wrap_id [OF assms] by (simp add: s_wrap_def)
  finally show ?thesis using ds(1) by (simp add: Utils_intToVersionString_def version_text_def [of "[]"])
qed

lemma core_hex_roundtrip: "CoreUtils_fromHex (CoreUtils_toHex bs) = bs"
proof -
  have nib: "16 * unhex_char (char_of_byte (hexNibble (b div 16))) + unhex_char (char_of_byte (hexNibble (b mod 16))) = b" for b :: byte
  proof -
    have unhex: "unhex_char (char_of_byte (hexNibble i)) = i" if "i < 16" for i :: byte
    proof -
      have "i \<noteq> - 1" using that by auto
      moreover have "unhex_char c = fromHex_char c \<or> fromHex_char c = - 1" for c
        by (simp add: unhex_char_def fromHex_char_def Let_def)
      ultimately show ?thesis using nibble_roundtrip [OF that] by metis
    qed
    have "b div 16 < 16" "b mod 16 < 16"
      using unsigned_less [of b] by (simp_all add: word_less_nat_alt unat_div unat_mod_distrib div_less_iff_less_mult)
    moreover have "16 * (b div 16) + b mod 16 = b" by (metis mult.commute div_mult_mod_eq)
    ultimately show ?thesis by (simp add: unhex)
  qed
  show ?thesis by (induction bs) (simp_all add: CoreUtils_toHex_def nib)
qed

text \<open>The fill with ones does not look at the sign: a positive number becomes negative.\<close>

lemma getIntLE_one: "sint (getIntLE True [1] :: 32 word) = - 255"
  by code_simp

text \<open>\<open>replace\<close> does not return for an empty pattern.\<close>

lemma replace_empty_pattern: "utils_replace str [] to = None"
proof -
  have find: "find_at (=) [] 0 s = Some 0" for s by (cases s) auto
  have "pat \<noteq> []" if "replace_loop pat to n ret str = Some res" for pat n ret str res
    by (rule replace_loop.raw_induct [OF _ that, where P = "\<lambda>pat to n ret str res. pat \<noteq> []"]) (fastforce simp: find)
  then show ?thesis unfolding utils_replace_def by (metis not_None_eq)
qed

end
