(* ===== verification/Shv_Path.thy ===== *)
theory Shv_Path
  imports Core_Utils "HOL-Library.Sublist"
begin

text \<open>
  Paths of the SHV tree (\<open>libshvcore/src/utils/shvpath.cpp\<close>, \<open>shvpath.h\<close>): splitting and
  joining, prefixes, wildcards, and the walk over a subtree of a map.  A directory whose name has a slash stands in quotes.
\<close>

abbreviation SHV_PATH_QUOTE :: char where "SHV_PATH_QUOTE \<equiv> CHR 0x27"
abbreviation SHV_PATH_DELIM :: char where "SHV_PATH_DELIM \<equiv> CHR ''/''"

section \<open>Operations\<close>

text \<open>The result with the position that is set: \<open>None\<close> is \<open>npos\<close>, set with the result false.\<close>

definition startsWithPath :: "string \<Rightarrow> string \<Rightarrow> nat option" where
  "startsWithPath str path =
     (if path = [] then Some 0
      else if take (length path) str = path then
        (if length str = length path then Some (length str)
         else if str ! length path = SHV_PATH_DELIM then Some (length path + 1)
         else if last path = SHV_PATH_DELIM then Some (length path)
         else None)
      else None)"

definition ShvPath_appendPath :: "string \<Rightarrow> string \<Rightarrow> string" where
  "ShvPath_appendPath m_str path = joinPath m_str path"

definition ShvPath_splitPath :: "string \<Rightarrow> string list" where
  "ShvPath_splitPath shv_path = split_view shv_path SHV_PATH_DELIM SHV_PATH_QUOTE SkipEmptyParts RemoveQuotes"

definition ShvPath_firstDir :: "string \<Rightarrow> string \<times> nat" where
  "ShvPath_firstDir shv_path =
     (let dir = getToken shv_path SHV_PATH_DELIM SHV_PATH_QUOTE;
          next_pos = min (length dir + 1) (length shv_path)
      in (if quoted SHV_PATH_QUOTE dir then unquote dir else dir, next_pos))"

definition ShvPath_takeFirsDir :: "string \<Rightarrow> string \<times> string" where
  "ShvPath_takeFirsDir shv_path = (case ShvPath_firstDir shv_path of (first, next_dir_pos) \<Rightarrow> (first, drop next_dir_pos shv_path))"

definition with_quotes :: "bool \<Rightarrow> string \<Rightarrow> string" where
  "with_quotes need s = (if need then SHV_PATH_QUOTE # s @ [SHV_PATH_QUOTE] else s)"

definition join_step :: "(string \<Rightarrow> bool) \<Rightarrow> string \<Rightarrow> string \<Rightarrow> string" where
  "join_step need ret s =
     (if s = [] then ret else (if ret \<noteq> [] then ret @ [SHV_PATH_DELIM] else ret) @ with_quotes (need s) s)"

text \<open>The overload for strings quotes every name with a slash, the one for views leaves quoted names alone.\<close>

definition ShvPath_joinDirs_s :: "string list \<Rightarrow> string" where
  "ShvPath_joinDirs_s dirs = foldl (join_step (\<lambda>s. SHV_PATH_DELIM \<in> set s)) [] dirs"

definition need_quotes :: "string \<Rightarrow> bool" where
  "need_quotes dir \<longleftrightarrow> SHV_PATH_DELIM \<in> set dir \<and> \<not> quoted SHV_PATH_QUOTE dir"

definition ShvPath_joinDirs :: "string list \<Rightarrow> string" where
  "ShvPath_joinDirs dirs = foldl (join_step need_quotes) [] dirs"

definition ShvPath_joinDirs2 :: "string \<Rightarrow> string \<Rightarrow> string" where
  "ShvPath_joinDirs2 dir1 dir2 = ShvPath_joinDirs [dir1, dir2]"

definition ShvPath_appendDir :: "string \<Rightarrow> string \<Rightarrow> string" where
  "ShvPath_appendDir path1 dir =
     (let path1 = rev (dropWhile (\<lambda>c. c = SHV_PATH_DELIM) (rev path1));
          dir_str = with_quotes (need_quotes dir) dir
      in if dir = [] then path1 else if path1 = [] then dir_str else path1 @ SHV_PATH_DELIM # dir_str)"

text \<open>
  \<open>matchWild\<close>: the two indices are the rests of the two lists.  After \<open>**\<close> the path is skipped up to
  the first segment that equals the next one of the pattern.
\<close>

function matchWild_list :: "string list \<Rightarrow> string list \<Rightarrow> bool" where
  "matchWild_list path_lst pattern_lst =
     (case (path_lst, pattern_lst) of
        ([], []) \<Rightarrow> True
      | (_ # _, []) \<Rightarrow> False
      | ([], pt # pts) \<Rightarrow> pts = [] \<and> pt = ''**''
      | (ph # phs, pt # pts) \<Rightarrow>
          if pt = ''*'' then matchWild_list phs pts
          else if pt = ''**'' then
            (case pts of
               [] \<Rightarrow> True
             | pt2 # pts2 \<Rightarrow>
                 (case dropWhile (\<lambda>ph. ph \<noteq> pt2) (ph # phs) of
                    [] \<Rightarrow> False
                  | _ # phs2 \<Rightarrow> matchWild_list phs2 pts2))
          else ph = pt \<and> matchWild_list phs pts)"
  by pat_completeness auto
termination
  by (relation "measure (\<lambda>(path_lst, pattern_lst). length pattern_lst)") auto

declare matchWild_list.simps [simp del]

lemma matchWild_list_simps [simp]:
  "matchWild_list [] []" "\<not> matchWild_list (ph # phs) []" "matchWild_list [] (pt # pts) \<longleftrightarrow> pts = [] \<and> pt = ''**''"
  "matchWild_list (ph # phs) (''*'' # pts) \<longleftrightarrow> matchWild_list phs pts"
  "matchWild_list (ph # phs) [''**'']"
  "matchWild_list (ph # phs) (''**'' # pt2 # pts) \<longleftrightarrow>
     (case dropWhile (\<lambda>ph. ph \<noteq> pt2) (ph # phs) of [] \<Rightarrow> False | _ # phs2 \<Rightarrow> matchWild_list phs2 pts)"
  "pt \<noteq> ''*'' \<Longrightarrow> pt \<noteq> ''**'' \<Longrightarrow> matchWild_list (ph # phs) (pt # pts) \<longleftrightarrow> ph = pt \<and> matchWild_list phs pts"
  by (subst matchWild_list.simps; simp)+

definition ShvPath_matchWild :: "string \<Rightarrow> string \<Rightarrow> bool" where
  "ShvPath_matchWild m_str pat =
     matchWild_list (split_view m_str SHV_PATH_DELIM NUL SkipEmptyParts KeepQuotes)
       (split_view pat SHV_PATH_DELIM NUL SkipEmptyParts KeepQuotes)"

text \<open>\<open>forEachDirAndSubdirs\<close>: from the lower bound of the root on, as long as the keys begin with it.\<close>

definition under_root :: "string \<Rightarrow> string \<Rightarrow> bool" where
  "under_root root_dir key \<longleftrightarrow> length key = length root_dir \<or> key ! length root_dir = CHR ''/''"

primrec dirs_loop :: "string \<Rightarrow> (string \<times> 'v) list \<Rightarrow> (string \<times> 'v) list" where
  "dirs_loop root_dir [] = []"
| "dirs_loop root_dir (kv # m) =
     (if prefix root_dir (fst kv)
      then (if under_root root_dir (fst kv) then [kv] else []) @ dirs_loop root_dir m
      else [])"

definition forEachDirAndSubdirs :: "(string, 'v) std_map \<Rightarrow> string \<Rightarrow> (string \<times> 'v) list" where
  "forEachDirAndSubdirs m root_dir = dirs_loop root_dir (dropWhile (\<lambda>(k, v). k < root_dir) m)"

primrec delete_loop :: "string \<Rightarrow> (string \<times> 'v \<Rightarrow> bool) \<Rightarrow> (string \<times> 'v) list \<Rightarrow> (string \<times> 'v) list" where
  "delete_loop root_dir fn [] = []"
| "delete_loop root_dir fn (kv # m) =
     (if prefix root_dir (fst kv)
      then (if under_root root_dir (fst kv) \<and> fn kv then [] else [kv]) @ delete_loop root_dir fn m
      else kv # m)"

definition forEachDirAndSubdirsDeleteIf :: "(string, 'v) std_map \<Rightarrow> string \<Rightarrow> (string \<times> 'v \<Rightarrow> bool) \<Rightarrow> (string, 'v) std_map" where
  "forEachDirAndSubdirsDeleteIf m root_dir fn =
     takeWhile (\<lambda>(k, v). k < root_dir) m @ delete_loop root_dir fn (dropWhile (\<lambda>(k, v). k < root_dir) m)"

section \<open>Prefixes\<close>

text \<open>Which paths begin with a path, and where the rest begins.\<close>

lemma startsWithPath_iff:
  "startsWithPath str path \<noteq> None \<longleftrightarrow>
   path = [] \<or> str = path \<or> prefix (path @ [SHV_PATH_DELIM]) str \<or> last path = SHV_PATH_DELIM \<and> prefix path str"
proof (cases "take (length path) str = path")
  case True
  then obtain rest where "str = path @ rest" by (metis append_take_drop_id)
  then show ?thesis by (cases rest) (auto simp: startsWithPath_def)
next
  case False
  then have "\<not> prefix path str" by (auto simp: prefix_def)
  moreover from this have "\<not> prefix (path @ [SHV_PATH_DELIM]) str" "str \<noteq> path" by (auto simp: prefix_def)
  ultimately show ?thesis using False by (auto simp: startsWithPath_def)
qed

lemma startsWithPath_rest:
  assumes "startsWithPath str path = Some pos" "path \<noteq> []" "last path \<noteq> SHV_PATH_DELIM"
  shows "str = path \<and> pos = length str \<or> str = path @ SHV_PATH_DELIM # drop pos str"
proof -
  have t: "take (length path) str = path" using assms(1,2) by (auto simp: startsWithPath_def split: if_splits)
  then obtain rest where "str = path @ rest" by (metis append_take_drop_id)
  then show ?thesis using assms by (cases rest) (auto simp: startsWithPath_def split: if_splits)
qed

section \<open>Splitting what was joined\<close>

lemma getToken_enc:
  assumes "SHV_PATH_QUOTE \<notin> set d" "need \<longleftrightarrow> SHV_PATH_DELIM \<in> set d"
  shows "getToken (with_quotes need d @ t) SHV_PATH_DELIM SHV_PATH_QUOTE = with_quotes need d @ getToken t SHV_PATH_DELIM SHV_PATH_QUOTE"
  using assms token_loop_skip [of SHV_PATH_QUOTE d True SHV_PATH_DELIM "SHV_PATH_QUOTE # t"]
    token_loop_skip [of SHV_PATH_QUOTE d False SHV_PATH_DELIM t]
  by (auto simp: getToken_def with_quotes_def)

lemma split_part_enc:
  "SHV_PATH_QUOTE \<notin> set d \<Longrightarrow> d \<noteq> [] \<Longrightarrow> split_part SHV_PATH_QUOTE SkipEmptyParts RemoveQuotes (with_quotes need d) = [d]"
  by (cases d) (auto simp: split_part_def with_quotes_def quoted_def unquote_def)

lemma join_foldl:
  "foldl (join_step need) ret dirs =
     (let encs = map (\<lambda>d. with_quotes (need d) d) (filter (\<lambda>d. d \<noteq> []) dirs)
      in if ret = [] then StringViewList_join encs [SHV_PATH_DELIM]
         else StringViewList_join (ret # encs) [SHV_PATH_DELIM])"
proof (induction dirs arbitrary: ret)
  case (Cons d dirs)
  have enc: "d \<noteq> [] \<Longrightarrow> with_quotes q d \<noteq> []" for q by (simp add: with_quotes_def)
  have join: "StringViewList_join ((ret @ SHV_PATH_DELIM # e) # es) [SHV_PATH_DELIM] = StringViewList_join (ret # e # es) [SHV_PATH_DELIM]"
    for e es by (cases es) auto
  have step: "foldl (join_step need) ret (d # dirs) = foldl (join_step need) (join_step need ret d) dirs" by simp
  show ?case
  proof (cases "d = []")
    case True
    then show ?thesis unfolding step by (simp add: join_step_def Cons)
  next
    case False
    then show ?thesis unfolding step by (simp add: join_step_def [of _ _ d] Cons enc join Let_def)
  qed
qed (simp add: Let_def)

lemma split_joined:
  "\<forall>d \<in> set ds. d \<noteq> [] \<and> SHV_PATH_QUOTE \<notin> set d \<and> (need d \<longleftrightarrow> SHV_PATH_DELIM \<in> set d) \<Longrightarrow>
   ShvPath_splitPath (StringViewList_join (map (\<lambda>d. with_quotes (need d) d) ds) [SHV_PATH_DELIM]) = ds"
proof (induction ds)
  case (Cons d ds)
  let ?split = "split_loop SHV_PATH_DELIM SHV_PATH_QUOTE SkipEmptyParts RemoveQuotes"
  let ?enc = "with_quotes (need d) d"
  have tok: "getToken (?enc @ t) SHV_PATH_DELIM SHV_PATH_QUOTE = ?enc @ getToken t SHV_PATH_DELIM SHV_PATH_QUOTE" for t
    using Cons.prems by (intro getToken_enc) auto
  have part: "split_part SHV_PATH_QUOTE SkipEmptyParts RemoveQuotes ?enc = [d]"
    using Cons.prems by (intro split_part_enc) auto
  have ne: "?enc \<noteq> []" using Cons.prems by (simp add: with_quotes_def)
  show ?case
  proof (cases ds)
    case Nil
    have "?split ?enc = [d]" using tok [of "[]"] by (subst split_loop_last) (simp_all add: getToken_def part)
    then show ?thesis using ne by (simp add: Nil ShvPath_splitPath_def split_view_def)
  next
    case [simp]: (Cons d' ds')
    let ?rest = "StringViewList_join (map (\<lambda>d. with_quotes (need d) d) ds) [SHV_PATH_DELIM]"
    have "ShvPath_splitPath ?rest = ds" using Cons.IH Cons.prems by simp
    moreover from this have "?rest \<noteq> []" by (auto simp: ShvPath_splitPath_def split_view_def simp del: StringViewList_join.simps)
    moreover have "?split (?enc @ SHV_PATH_DELIM # ?rest) = [d] @ ?split ?rest"
      using tok [of "SHV_PATH_DELIM # ?rest"] by (subst split_loop_token) (simp_all add: getToken_def part)
    ultimately show ?thesis by (simp add: ShvPath_splitPath_def split_view_def)
  qed
qed (simp add: ShvPath_splitPath_def split_view_def)

lemma split_joinDirs_s:
  assumes "\<forall>d \<in> set dirs. SHV_PATH_QUOTE \<notin> set d"
  shows "ShvPath_splitPath (ShvPath_joinDirs_s dirs) = filter (\<lambda>d. d \<noteq> []) dirs"
  unfolding ShvPath_joinDirs_s_def join_foldl Let_def if_P [OF refl] by (rule split_joined) (use assms in auto)

lemma need_quotes_iff: "SHV_PATH_QUOTE \<notin> set d \<Longrightarrow> need_quotes d \<longleftrightarrow> SHV_PATH_DELIM \<in> set d"
  by (cases d) (auto simp: need_quotes_def quoted_def)

lemma split_joinDirs:
  assumes "\<forall>d \<in> set dirs. SHV_PATH_QUOTE \<notin> set d"
  shows "ShvPath_splitPath (ShvPath_joinDirs dirs) = filter (\<lambda>d. d \<noteq> []) dirs"
  unfolding ShvPath_joinDirs_def join_foldl Let_def if_P [OF refl]
  by (rule split_joined) (use assms need_quotes_iff in auto)

text \<open>Taking the first directory again and again is splitting.\<close>

lemma splitPath_takeFirsDir:
  assumes "p \<noteq> []"
  shows "ShvPath_splitPath p =
    (case ShvPath_takeFirsDir p of (dir, rest) \<Rightarrow>
       (if hd p = SHV_PATH_DELIM then [] else [dir]) @ ShvPath_splitPath rest)"
proof -
  let ?tok = "getToken p SHV_PATH_DELIM SHV_PATH_QUOTE"
  have "?tok = [] \<longleftrightarrow> hd p = SHV_PATH_DELIM" using assms by (cases p) (auto simp: getToken_def)
  moreover have "split_loop SHV_PATH_DELIM SHV_PATH_QUOTE SkipEmptyParts RemoveQuotes [] = []"
    by (simp add: split_loop.simps getToken_def split_part_def)
  ultimately show ?thesis
    using assms length_getToken [of p SHV_PATH_DELIM SHV_PATH_QUOTE]
    by (simp add: ShvPath_splitPath_def split_view_def split_loop.simps [of SHV_PATH_DELIM SHV_PATH_QUOTE _ _ p]
        ShvPath_takeFirsDir_def ShvPath_firstDir_def Let_def split_part_def min_def)
qed

text \<open>Appending a directory to joined directories joins all of them.\<close>

lemma joined_last:
  assumes "\<forall>d \<in> set ds. d \<noteq> [] \<and> (SHV_PATH_DELIM \<in> set d \<longrightarrow> need d)" "ds \<noteq> []"
  shows "last (StringViewList_join (map (\<lambda>d. with_quotes (need d) d) ds) [SHV_PATH_DELIM]) \<noteq> SHV_PATH_DELIM \<and>
    StringViewList_join (map (\<lambda>d. with_quotes (need d) d) ds) [SHV_PATH_DELIM] \<noteq> []"
  using assms
proof (induction ds rule: induct_list012)
  case (2 d)
  then show ?case by (cases "need d"; cases d rule: rev_cases) (auto simp: with_quotes_def)
next
  case (3 d e ds)
  then show ?case by simp
qed simp

lemma appendDir_joinDirs:
  assumes "\<forall>d \<in> set dirs. SHV_PATH_QUOTE \<notin> set d"
  shows "ShvPath_appendDir (ShvPath_joinDirs dirs) dir = ShvPath_joinDirs (dirs @ [dir])"
proof -
  define ds where "ds = filter (\<lambda>d. d \<noteq> []) dirs"
  have join: "ShvPath_joinDirs dirs = StringViewList_join (map (\<lambda>d. with_quotes (need_quotes d) d) ds) [SHV_PATH_DELIM]"
    by (simp add: ShvPath_joinDirs_def join_foldl Let_def ds_def)
  have "rev (dropWhile (\<lambda>c. c = SHV_PATH_DELIM) (rev (ShvPath_joinDirs dirs))) = ShvPath_joinDirs dirs"
  proof (cases "ds = []")
    case False
    then have "last (ShvPath_joinDirs dirs) \<noteq> SHV_PATH_DELIM \<and> ShvPath_joinDirs dirs \<noteq> []"
      using joined_last [of ds need_quotes] assms need_quotes_iff by (auto simp: join ds_def)
    then show ?thesis by (cases "ShvPath_joinDirs dirs" rule: rev_cases) auto
  qed (simp add: join)
  moreover have "ShvPath_joinDirs (dirs @ [dir]) = join_step need_quotes (ShvPath_joinDirs dirs) dir"
    by (simp add: ShvPath_joinDirs_def)
  ultimately show ?thesis by (simp add: ShvPath_appendDir_def join_step_def Let_def)
qed

section \<open>Wildcards\<close>

text \<open>What a pattern means: \<open>*\<close> is one segment, \<open>**\<close> any number of them.\<close>

inductive wild_match :: "string list \<Rightarrow> string list \<Rightarrow> bool" where
  wm_end: "wild_match [] []"
| wm_one: "wild_match phs pts \<Longrightarrow> wild_match (ph # phs) (''*'' # pts)"
| wm_same: "pt \<noteq> ''*'' \<Longrightarrow> pt \<noteq> ''**'' \<Longrightarrow> wild_match phs pts \<Longrightarrow> wild_match (pt # phs) (pt # pts)"
| wm_many: "wild_match phs pts \<Longrightarrow> wild_match (skipped @ phs) (''**'' # pts)"

inductive_cases wild_match_NilE: "wild_match phs []"

lemma wild_match_step: "wild_match phs pts \<Longrightarrow> wild_match (pt # phs) (pt # pts)"
  using wm_one [of phs pts "''*''"] wm_same [of pt phs pts] wm_many [of phs pts "[pt]"] by fastforce

lemma matchWild_sound: "matchWild_list phs pts \<Longrightarrow> wild_match phs pts"
proof (induction phs pts rule: matchWild_list.induct)
  case (1 phs pts)
  consider "phs = []" "pts = []" | "phs = []" "pts = [''**'']"
    | ph phs' pts' where "phs = ph # phs'" "pts = ''*'' # pts'"
    | ph phs' where "phs = ph # phs'" "pts = [''**'']"
    | ph phs' pt pts' where "phs = ph # phs'" "pts = ''**'' # pt # pts'"
    | ph phs' pts' where "phs = ph # phs'" "pts = ph # pts'" "ph \<noteq> ''*''" "ph \<noteq> ''**''"
    using "1.prems" by (cases phs; cases pts; cases "tl pts"; cases "hd pts = ''*''"; cases "hd pts = ''**''") auto
  then show ?case
  proof cases
    case 5
    then obtain p phs2 where d: "dropWhile (\<lambda>ph. ph \<noteq> pt) phs = p # phs2" "matchWild_list phs2 pts'"
      using "1.prems" by (auto split: list.splits)
    then have "p = pt" using hd_dropWhile [of "\<lambda>ph. ph \<noteq> pt" phs] by simp
    then have phs: "phs = takeWhile (\<lambda>ph. ph \<noteq> pt) phs @ pt # phs2" using takeWhile_dropWhile_id [of "\<lambda>ph. ph \<noteq> pt" phs] d(1) by simp
    have "wild_match phs2 pts'" using "1.IH"(2) [OF _ 5(1,2)] 5 d by auto
    then show ?thesis using phs 5(2) wm_many wild_match_step by metis
  qed (use 1 in \<open>auto intro: wild_match.intros wm_many [of "[]" "[]", simplified, OF wm_end]\<close>)
qed

text \<open>The converse holds for a \<open>**\<close> at the end only.\<close>

lemma matchWild_complete: "wild_match phs pts \<Longrightarrow> ''**'' \<notin> set (butlast pts) \<Longrightarrow> matchWild_list phs pts"
proof (induction rule: wild_match.induct)
  case (wm_many phs pts skipped)
  then have "pts = []" by (cases pts) auto
  with wm_many.hyps have "phs = []" by (auto elim: wild_match_NilE)
  with \<open>pts = []\<close> show ?case by (cases skipped) auto
qed (auto split: if_splits)

lemma matchWild_iff:
  "''**'' \<notin> set (butlast pts) \<Longrightarrow> matchWild_list phs pts \<longleftrightarrow> wild_match phs pts"
  using matchWild_sound matchWild_complete by blast

text \<open>Inside a pattern the first candidate is final: \<open>**/x/z\<close> does not match \<open>x/y/x/z\<close>.\<close>

lemma matchWild_no_backtrack:
  assumes "x \<notin> {''*'', ''**''}" "z \<notin> {''*'', ''**''}" "y \<noteq> z"
  shows "wild_match [x, y, x, z] [''**'', x, z]" "\<not> matchWild_list [x, y, x, z] [''**'', x, z]"
proof -
  have "wild_match ([x, y] @ [x, z]) (''**'' # [x, z])"
    by (intro wm_many wild_match_step wm_end)
  then show "wild_match [x, y, x, z] [''**'', x, z]" by simp
  show "\<not> matchWild_list [x, y, x, z] [''**'', x, z]" using assms by simp
qed

section \<open>Subtrees of a map\<close>

lemma prefix_ge: "prefix r k \<Longrightarrow> (r :: string) \<le> k"
  by (induction r k rule: list_induct2') auto

lemma prefix_between: "(r :: string) \<le> k \<Longrightarrow> k \<le> r @ x \<Longrightarrow> prefix r k"
proof (induction r arbitrary: k)
  case (Cons c r)
  then show ?case by (cases k) (auto simp: le_less)
qed simp

lemma under_root_iff: "prefix r k \<and> under_root r k \<longleftrightarrow> k = r \<or> prefix (r @ ''/'') k"
  by (auto simp: under_root_def prefix_def nth_append) (metis list.exhaust nth_Cons_0)

lemma dropWhile_sorted_none:
  assumes "map_wf ((k, v) # m)" "r \<le> k" "\<not> prefix r (k :: string)" "kv \<in> set ((k, v) # m)"
  shows "\<not> prefix r (fst kv)"
proof
  assume "prefix r (fst kv)"
  then obtain x where "fst kv = r @ x" by (auto simp: prefix_def)
  moreover have "k \<le> fst kv" using assms(1,4) by (auto simp: map_wf_def)
  ultimately show False using prefix_between [OF assms(2)] assms(3) by metis
qed

lemma before_root:
  assumes "kv \<in> set (takeWhile (\<lambda>(k, v). k < r) m)" shows "\<not> prefix (r :: string) (fst kv)"
  using set_takeWhileD [OF assms] prefix_ge [of r "fst kv"] by auto

lemma dirs_loop_filter:
  "map_wf m \<Longrightarrow> \<forall>kv \<in> set m. r \<le> fst kv \<Longrightarrow>
   dirs_loop r m = filter (\<lambda>kv. fst kv = r \<or> prefix (r @ ''/'') (fst kv)) m"
proof (induction m)
  case (Cons kv m)
  obtain k v where kv: "kv = (k, v)" by (cases kv)
  show ?case
  proof (cases "prefix r k")
    case True
    then show ?thesis using Cons under_root_iff [of r k] by (auto simp: kv map_wf_def)
  next
    case False
    then have "\<forall>kv \<in> set ((k, v) # m). \<not> prefix r (fst kv)"
      using dropWhile_sorted_none [of k v m r] Cons.prems kv by auto
    then have "filter (\<lambda>kv. fst kv = r \<or> prefix (r @ ''/'') (fst kv)) ((k, v) # m) = []"
      using under_root_iff [of r] by (auto simp: filter_empty_conv)
    then show ?thesis using False by (simp add: kv)
  qed
qed simp

lemma delete_loop_filter:
  "map_wf m \<Longrightarrow> \<forall>kv \<in> set m. r \<le> fst kv \<Longrightarrow>
   delete_loop r fn m = filter (\<lambda>kv. \<not> ((fst kv = r \<or> prefix (r @ ''/'') (fst kv)) \<and> fn kv)) m"
proof (induction m)
  case (Cons kv m)
  obtain k v where kv: "kv = (k, v)" by (cases kv)
  show ?case
  proof (cases "prefix r k")
    case True
    then show ?thesis using Cons under_root_iff [of r k] by (auto simp: kv map_wf_def)
  next
    case False
    then have none: "\<forall>kv \<in> set ((k, v) # m). \<not> prefix r (fst kv)"
      using dropWhile_sorted_none [of k v m r] Cons.prems kv by auto
    have "filter (\<lambda>kv. \<not> ((fst kv = r \<or> prefix (r @ ''/'') (fst kv)) \<and> fn kv)) ((k, v) # m) = (k, v) # m"
      by (rule filter_True) (use none under_root_iff [of r] in auto)
    then show ?thesis using False by (simp add: kv)
  qed
qed simp

lemma lower_bound_split:
  fixes m :: "(string, 'v) std_map"
  assumes "map_wf m"
  shows "map_wf (dropWhile (\<lambda>(k, v). k < r) m)" "\<forall>kv \<in> set (dropWhile (\<lambda>(k, v). k < r) m). r \<le> fst kv"
proof -
  show wf: "map_wf (dropWhile (\<lambda>(k, v). k < r) m)"
    using assms sorted_wrt_drop [of "(<)" "map fst m"]
    by (simp add: map_wf_def dropWhile_eq_drop drop_map)
  show "\<forall>kv \<in> set (dropWhile (\<lambda>(k, v). k < r) m). r \<le> fst kv"
  proof (cases "dropWhile (\<lambda>(k, v). k < r) m")
    case Nil
    show ?thesis unfolding Nil by simp
  next
    case (Cons kv m')
    then have "r \<le> fst kv" using hd_dropWhile [of "\<lambda>(k, v). k < r" m] by (cases kv) auto
    then show ?thesis using wf unfolding Cons map_wf_def by force
  qed
qed

text \<open>The iterator loops visit the subtree: the root and what is below it.\<close>

lemma forEachDirAndSubdirs_filter:
  assumes "map_wf m"
  shows "forEachDirAndSubdirs m r = filter (\<lambda>kv. fst kv = r \<or> prefix (r @ ''/'') (fst kv)) m"
proof -
  have "filter (\<lambda>kv. fst kv = r \<or> prefix (r @ ''/'') (fst kv)) (takeWhile (\<lambda>(k, v). k < r) m) = []"
    using before_root [of _ r m] under_root_iff [of r] by (auto simp: filter_empty_conv)
  then show ?thesis
    using dirs_loop_filter [OF lower_bound_split [OF assms, of r]]
      filter_append [of _ "takeWhile (\<lambda>(k, v). k < r) m" "dropWhile (\<lambda>(k, v). k < r) m"]
    by (simp add: forEachDirAndSubdirs_def)
qed

lemma forEachDirAndSubdirsDeleteIf_filter:
  assumes "map_wf m"
  shows "forEachDirAndSubdirsDeleteIf m r fn = filter (\<lambda>kv. \<not> ((fst kv = r \<or> prefix (r @ ''/'') (fst kv)) \<and> fn kv)) m"
proof -
  have "filter (\<lambda>kv. \<not> ((fst kv = r \<or> prefix (r @ ''/'') (fst kv)) \<and> fn kv)) (takeWhile (\<lambda>(k, v). k < r) m) =
      takeWhile (\<lambda>(k, v). k < r) m"
    by (rule filter_True) (use before_root [of _ r m] under_root_iff [of r] in auto)
  then show ?thesis
    using delete_loop_filter [OF lower_bound_split [OF assms, of r]]
      filter_append [of _ "takeWhile (\<lambda>(k, v). k < r) m" "dropWhile (\<lambda>(k, v). k < r) m"]
    by (simp add: forEachDirAndSubdirsDeleteIf_def)
qed

end
