(* ===== verification/Acl_Types.thy ===== *)
theory Acl_Types
  imports Shv_Path Access_Grant
begin

text \<open>
  The access control data of the broker (\<open>libshviotqt/src/acl/\<close>): passwords, users, roles, mount
  points and access rules, with their forms as values.
\<close>

section \<open>\<open>AclPassword\<close>\<close>

datatype password_format = PF_Invalid | PF_Plain | PF_Sha1

record acl_password =
  apw_password :: string
  apw_format :: password_format

definition AclPassword_default :: acl_password where
  "AclPassword_default = \<lparr>apw_password = [], apw_format = PF_Invalid\<rparr>"

text \<open>Here both strings are folded, unlike in \<open>accessgrant.cpp\<close>.\<close>

fun acl_str_eq :: "string \<Rightarrow> string \<Rightarrow> bool" where
  "acl_str_eq [] [] = True"
| "acl_str_eq [] (c2 # s2) = False"
| "acl_str_eq (c1 # s1) [] = False"
| "acl_str_eq (c1 # s1) (c2 # s2) = (if toupper c2 \<noteq> toupper c1 then False else acl_str_eq s1 s2)"

text \<open>The regular expression \<open>[0-9a-f]{40}\<close>.\<close>

definition is_sha1_hex :: "string \<Rightarrow> bool" where
  "is_sha1_hex s \<longleftrightarrow> length s = 40 \<and>
     (\<forall>c \<in> set s. 48 \<le> (of_char c :: nat) \<and> (of_char c :: nat) \<le> 57 \<or> 97 \<le> (of_char c :: nat) \<and> (of_char c :: nat) \<le> 102)"

definition AclPassword_formatToString :: "password_format \<Rightarrow> string" where
  "AclPassword_formatToString f = (case f of PF_Plain \<Rightarrow> ''PLAIN'' | PF_Sha1 \<Rightarrow> ''SHA1'' | PF_Invalid \<Rightarrow> ''INVALID'')"

definition AclPassword_formatFromString :: "string \<Rightarrow> password_format" where
  "AclPassword_formatFromString s =
     (if acl_str_eq s (AclPassword_formatToString PF_Plain) then PF_Plain
      else if acl_str_eq s (AclPassword_formatToString PF_Sha1) then PF_Sha1
      else PF_Invalid)"

definition AclPassword_isValid :: "acl_password \<Rightarrow> bool" where
  "AclPassword_isValid p \<longleftrightarrow> apw_format p \<noteq> PF_Invalid"

definition AclPassword_toRpcValue :: "acl_password \<Rightarrow> rpc_value" where
  "AclPassword_toRpcValue p =
     rpc (VMap (map_set ''format'' (rpc (VString (AclPassword_formatToString (apw_format p))))
       (map_set ''password'' (rpc (VString (apw_password p))) [])))"

definition AclPassword_fromRpcValue :: "rpc_value \<Rightarrow> acl_password" where
  "AclPassword_fromRpcValue v =
     (if RpcValue_isString v then
        (let pw = RpcValue_toString v
         in \<lparr>apw_password = pw, apw_format = (if is_sha1_hex pw then PF_Sha1 else PF_Plain)\<rparr>)
      else if RpcValue_isMap v then
        (let m = RpcValue_asMap v;
             pw = RpcValue_asString (RpcMap_value m ''password'' invalid_value);
             f = AclPassword_formatFromString (RpcValue_asString (RpcMap_value m ''format'' invalid_value))
         in \<lparr>apw_password = pw,
             apw_format = (if f = PF_Invalid \<and> pw \<noteq> [] then (if is_sha1_hex pw then PF_Sha1 else PF_Plain) else f)\<rparr>)
      else AclPassword_default)"

section \<open>\<open>AclUser\<close>, \<open>AclRole\<close>, \<open>AclMountDef\<close>\<close>

record acl_user =
  au_password :: acl_password
  au_roles :: "string list"

definition AclUser_default :: acl_user where
  "AclUser_default = \<lparr>au_password = AclPassword_default, au_roles = []\<rparr>"

definition AclUser_isValid :: "acl_user \<Rightarrow> bool" where
  "AclUser_isValid u \<longleftrightarrow> AclPassword_isValid (au_password u)"

definition AclUser_toRpcValue :: "acl_user \<Rightarrow> rpc_value" where
  "AclUser_toRpcValue u =
     rpc (VMap (map_set ''roles'' (rpc (VList (RpcList_fromStringList (au_roles u))))
       (map_set ''password'' (AclPassword_toRpcValue (au_password u)) [])))"

text \<open>The roles under the key of today and, after them, those under the legacy key.\<close>

definition roles_of_map :: "rpc_map \<Rightarrow> string list" where
  "roles_of_map m =
     map RpcValue_toString (RpcValue_asList (RpcMap_valref m ''roles'')) @
     map RpcValue_toString (RpcValue_asList (RpcMap_valref m ''grants''))"

definition AclUser_fromRpcValue :: "rpc_value \<Rightarrow> acl_user" where
  "AclUser_fromRpcValue v =
     (if RpcValue_isMap v then
        (let m = RpcValue_asMap v
         in \<lparr>au_password = AclPassword_fromRpcValue (RpcMap_value m ''password'' invalid_value), au_roles = roles_of_map m\<rparr>)
      else AclUser_default)"

record acl_role =
  ar_roles :: "string list"
  ar_profile :: rpc_value

definition AclRole_default :: acl_role where
  "AclRole_default = \<lparr>ar_roles = [], ar_profile = invalid_value\<rparr>"

definition AclRole_toRpcValue :: "acl_role \<Rightarrow> rpc_value" where
  "AclRole_toRpcValue r =
     (let m = (if ar_roles r \<noteq> [] then map_set ''roles'' (rpc (VList (RpcList_fromStringList (ar_roles r)))) [] else []);
          m = (if RpcValue_isMap (ar_profile r) then map_set ''profile'' (ar_profile r) m else m)
      in rpc (VMap m))"

definition AclRole_fromRpcValue :: "rpc_value \<Rightarrow> exn + acl_role option" where
  "AclRole_fromRpcValue v =
     (if RpcValue_isMap v then
        (let m = RpcValue_asMap v; p = RpcMap_value m ''profile'' invalid_value
         in Inr (Some \<lparr>ar_roles = roles_of_map m, ar_profile = (if RpcValue_isMap p then p else invalid_value)\<rparr>))
      else if RpcValue_isNull v then Inr None
      else Inl (ShvException (''Invalid parameter type: '' @ RpcValue_typeName v)))"

record acl_mount_def =
  amd_mountPoint :: string
  amd_description :: string

definition AclMountDef_default :: acl_mount_def where
  "AclMountDef_default = \<lparr>amd_mountPoint = [], amd_description = []\<rparr>"

definition AclMountDef_isValid :: "acl_mount_def \<Rightarrow> bool" where
  "AclMountDef_isValid d \<longleftrightarrow> amd_mountPoint d \<noteq> []"

definition AclMountDef_toRpcValue :: "acl_mount_def \<Rightarrow> rpc_value" where
  "AclMountDef_toRpcValue d =
     (let m = map_set ''mountPoint'' (rpc (VString (amd_mountPoint d))) []
      in rpc (VMap (if amd_description d \<noteq> [] then map_set ''description'' (rpc (VString (amd_description d))) m else m)))"

definition AclMountDef_fromRpcValue :: "rpc_value \<Rightarrow> acl_mount_def" where
  "AclMountDef_fromRpcValue v =
     (if RpcValue_isString v then \<lparr>amd_mountPoint = RpcValue_toString v, amd_description = []\<rparr>
      else if RpcValue_isMap v then
        (let m = RpcValue_asMap v
         in \<lparr>amd_mountPoint = RpcValue_toString (RpcMap_value m ''mountPoint'' invalid_value),
             amd_description = RpcValue_toString (RpcMap_value m ''description'' invalid_value)\<rparr>)
      else AclMountDef_default)"

section \<open>Access rules\<close>

record acl_access_rule =
  aar_path :: string
  aar_method :: string
  aar_access :: string

definition AclAccessRule_toRpcValue :: "acl_access_rule \<Rightarrow> rpc_value" where
  "AclAccessRule_toRpcValue r =
     rpc (VMap (map_set ''pathPattern'' (rpc (VString (aar_path r)))
       (map_set ''method'' (rpc (VString (aar_method r)))
         (map_set ''role'' (rpc (VString (aar_access r))) []))))"

definition AclAccessRule_fromRpcValue :: "rpc_value \<Rightarrow> acl_access_rule" where
  "AclAccessRule_fromRpcValue v =
     \<lparr>aar_path = RpcValue_asString (RpcValue_at_s v ''pathPattern'' invalid_value),
      aar_method = RpcValue_asString (RpcValue_at_s v ''method'' invalid_value),
      aar_access = RpcValue_asString (RpcValue_at_s v ''role'' invalid_value)\<rparr>"

definition is_wild_card_pattern :: "string \<Rightarrow> bool" where
  "is_wild_card_pattern path \<longleftrightarrow> path = ''**'' \<or> suffix ''/**'' path"

definition AclAccessRule_isValid :: "acl_access_rule \<Rightarrow> bool" where
  "AclAccessRule_isValid r \<longleftrightarrow> aar_path r \<noteq> [] \<and> aar_access r \<noteq> []"

definition method_ok :: "acl_access_rule \<Rightarrow> string \<Rightarrow> bool" where
  "method_ok r meth \<longleftrightarrow> aar_method r = [] \<or> aar_method r = meth"

definition AclAccessRule_isPathMethodMatch :: "acl_access_rule \<Rightarrow> string \<Rightarrow> string \<Rightarrow> bool" where
  "AclAccessRule_isPathMethodMatch r shv_path meth =
     (if \<not> is_wild_card_pattern (aar_path r) then
        (if shv_path = aar_path r then method_ok r meth else False)
      else
        (let sub_path = take (length (aar_path r) - 2) (aar_path r);
             sub_path = (if sub_path \<noteq> [] then take (length sub_path - 1) sub_path else sub_path)
         in if startsWithPath shv_path sub_path \<noteq> None then method_ok r meth else False))"

definition AclRoleAccessRules_toRpcValue :: "acl_access_rule list \<Rightarrow> rpc_value" where
  "AclRoleAccessRules_toRpcValue rules = rpc (VList (map AclAccessRule_toRpcValue rules))"

definition AclRoleAccessRules_toRpcValue_legacy :: "acl_access_rule list \<Rightarrow> rpc_value" where
  "AclRoleAccessRules_toRpcValue_legacy rules =
     rpc (VMap (foldl (\<lambda>ret r. map_set (aar_path r @ (if aar_method r \<noteq> [] then CHR '':'' # aar_method r else []))
       (AclAccessRule_toRpcValue r) ret) [] rules))"

text \<open>\<open>find_last_of\<close> splits the key of a legacy rule at its last colon.\<close>

definition legacy_rule :: "string \<times> rpc_value \<Rightarrow> acl_access_rule" where
  "legacy_rule kv =
     (case kv of (key, v) \<Rightarrow>
        (let g = AclAccessRule_fromRpcValue v;
             meth = rev (takeWhile (\<lambda>c. c \<noteq> CHR '':'') (rev key))
         in if CHR '':'' \<notin> set key then g\<lparr>aar_path := key\<rparr>
            else g\<lparr>aar_path := take (length key - length meth - 1) key, aar_method := meth\<rparr>))"

definition AclRoleAccessRules_fromRpcValue :: "rpc_value \<Rightarrow> acl_access_rule list" where
  "AclRoleAccessRules_fromRpcValue v =
     (if RpcValue_isMap v then filter AclAccessRule_isValid (map legacy_rule (RpcValue_asMap v))
      else if RpcValue_isList v then filter AclAccessRule_isValid (map AclAccessRule_fromRpcValue (RpcValue_asList v))
      else [])"

section \<open>Round trips\<close>

lemma rule_roundtrip: "AclAccessRule_fromRpcValue (AclAccessRule_toRpcValue r) = r"
  by (cases r) (simp add: AclAccessRule_fromRpcValue_def AclAccessRule_toRpcValue_def RpcValue_at_s_def RpcValue_asString_def
      std_map_simps)

lemma rules_roundtrip:
  "AclRoleAccessRules_fromRpcValue (AclRoleAccessRules_toRpcValue rules) = filter AclAccessRule_isValid rules"
  by (simp add: AclRoleAccessRules_fromRpcValue_def AclRoleAccessRules_toRpcValue_def type_test_defs RpcValue_asList_def
      comp_def rule_roundtrip)

lemma format_roundtrip: "AclPassword_formatFromString (AclPassword_formatToString f) = f"
  by (cases f) (simp_all add: AclPassword_formatFromString_def AclPassword_formatToString_def toupper_def)

text \<open>A password comes back as it was; only one of unknown format that is not empty is given a format.\<close>

lemma password_roundtrip:
  assumes "AclPassword_isValid p \<or> apw_password p = []"
  shows "AclPassword_fromRpcValue (AclPassword_toRpcValue p) = p"
  using assms
  by (cases p) (auto simp: AclPassword_fromRpcValue_def AclPassword_toRpcValue_def type_test_defs RpcValue_asMap_def
      RpcMap_value_def RpcValue_asString_def std_map_simps format_roundtrip AclPassword_isValid_def)

lemma roles_of_strings: "map RpcValue_toString (RpcList_fromStringList rs) = rs"
proof -
  have "map RpcValue_toString (foldl (\<lambda>ret s. ret @ [rpc (VString s)]) acc rs) = map RpcValue_toString acc @ rs" for acc
    by (induction rs arbitrary: acc) (simp_all add: RpcValue_toString_def RpcValue_asString_def)
  then show ?thesis by (simp add: RpcList_fromStringList_def)
qed

lemma user_roundtrip:
  assumes "AclUser_isValid u"
  shows "AclUser_fromRpcValue (AclUser_toRpcValue u) = u"
proof -
  have "AclPassword_fromRpcValue (AclPassword_toRpcValue (au_password u)) = au_password u"
    using assms by (intro password_roundtrip) (simp add: AclUser_isValid_def)
  then show ?thesis
    by (cases u) (simp add: AclUser_fromRpcValue_def AclUser_toRpcValue_def type_test_defs RpcValue_asMap_def
        RpcMap_value_def RpcMap_valref_def roles_of_map_def RpcValue_asList_def std_map_simps roles_of_strings)
qed

lemma role_roundtrip:
  assumes "RpcValue_isMap (ar_profile r) \<or> ar_profile r = invalid_value"
  shows "AclRole_fromRpcValue (AclRole_toRpcValue r) = Inr (Some r)"
  using assms
  by (cases r) (auto simp: AclRole_fromRpcValue_def AclRole_toRpcValue_def type_test_defs RpcValue_asMap_def
      RpcMap_value_def RpcMap_valref_def roles_of_map_def RpcValue_asList_def std_map_simps roles_of_strings Let_def
      simp del: list.map)

lemma mount_def_roundtrip: "AclMountDef_fromRpcValue (AclMountDef_toRpcValue d) = d"
  by (cases d) (auto simp: AclMountDef_fromRpcValue_def AclMountDef_toRpcValue_def type_test_defs RpcValue_asMap_def
      RpcMap_value_def RpcValue_toString_def RpcValue_asString_def std_map_simps Let_def)

section \<open>What a rule matches\<close>

lemma wild_rule_sub_path:
  assumes "aar_path r = q @ ''/**''"
  shows "AclAccessRule_isPathMethodMatch r shv_path meth \<longleftrightarrow> method_ok r meth \<and> startsWithPath shv_path q \<noteq> None"
proof -
  have "is_wild_card_pattern (aar_path r)" by (simp add: assms is_wild_card_pattern_def suffix_def)
  then show ?thesis by (auto simp: AclAccessRule_isPathMethodMatch_def assms)
qed

lemma rule_match_iff:
  "AclAccessRule_isPathMethodMatch r shv_path meth \<longleftrightarrow>
   (aar_method r = [] \<or> aar_method r = meth) \<and>
   (if aar_path r = ''**'' then True
    else if suffix ''/**'' (aar_path r) then startsWithPath shv_path (take (length (aar_path r) - 3) (aar_path r)) \<noteq> None
    else shv_path = aar_path r)"
proof (cases "aar_path r = ''**''")
  case True
  then show ?thesis by (simp add: AclAccessRule_isPathMethodMatch_def is_wild_card_pattern_def method_ok_def startsWithPath_def)
next
  case False
  show ?thesis
  proof (cases "suffix ''/**'' (aar_path r)")
    case True
    then obtain q where "aar_path r = q @ ''/**''" by (auto simp: suffix_def)
    then show ?thesis using False True wild_rule_sub_path [of r q] by (auto simp: method_ok_def)
  qed (use False in \<open>auto simp: AclAccessRule_isPathMethodMatch_def is_wild_card_pattern_def method_ok_def\<close>)
qed

end
