(* ===== verification/Acl_Manager.thy ===== *)
theory Acl_Manager
  imports Acl_Types Chp_Utils
begin

text \<open>
  The access control of the broker (\<open>libshvbroker/src/aclmanager.cpp\<close>, \<open>aclmanager.h\<close>): \<open>AclManager\<close>
  keeps a cache in front of a source of definitions, resolves the roles of a user and grants access
  by the first rule that matches.  An operation takes the manager and returns its result, or the
  exception it throws, with the manager it leaves behind.
\<close>

section \<open>The source of definitions\<close>

text \<open>
  The virtual functions \<open>aclUsers\<close>, \<open>aclUser\<close>, \dots\ read configuration files or tables: each kind of
  definition is a finite map that may fail to load.  A name that is not defined gives the default.
\<close>

record acl_source =
  sc_mounts :: "exn + (string, acl_mount_def) std_map"
  sc_users :: "exn + (string, acl_user) std_map"
  sc_roles :: "exn + (string, exn + acl_role) std_map"
  sc_rules :: "exn + (string, acl_access_rule list) std_map"

definition find_or :: "'v \<Rightarrow> ('k, 'v) std_map \<Rightarrow> 'k \<Rightarrow> 'v" where
  "find_or d m k = (case map_find m k of None \<Rightarrow> d | Some v \<Rightarrow> v)"

definition aclMountDeviceIds :: "acl_source \<Rightarrow> exn + string list" where
  "aclMountDeviceIds sc = map_sum id map_keys (sc_mounts sc)"
definition aclMountDef :: "acl_source \<Rightarrow> string \<Rightarrow> exn + acl_mount_def" where
  "aclMountDef sc device_id = map_sum id (\<lambda>m. find_or AclMountDef_default m device_id) (sc_mounts sc)"
definition aclUsers :: "acl_source \<Rightarrow> exn + string list" where
  "aclUsers sc = map_sum id map_keys (sc_users sc)"
definition aclUser :: "acl_source \<Rightarrow> string \<Rightarrow> exn + acl_user" where
  "aclUser sc user_name = map_sum id (\<lambda>m. find_or AclUser_default m user_name) (sc_users sc)"
definition aclRoles :: "acl_source \<Rightarrow> exn + string list" where
  "aclRoles sc = map_sum id map_keys (sc_roles sc)"
definition aclRole :: "acl_source \<Rightarrow> string \<Rightarrow> exn + acl_role" where
  "aclRole sc role_name = bind_e (sc_roles sc) (\<lambda>m. find_or (Inr AclRole_default) m role_name)"
definition aclAccessRoles :: "acl_source \<Rightarrow> exn + string list" where
  "aclAccessRoles sc = map_sum id map_keys (sc_rules sc)"
definition aclAccessRoleRules :: "acl_source \<Rightarrow> string \<Rightarrow> exn + acl_access_rule list" where
  "aclAccessRoleRules sc role_name = map_sum id (\<lambda>m. find_or [] m role_name) (sc_rules sc)"

text \<open>
  \<open>AclManagerConfigFiles\<close>: the definitions are the values of configuration files, read once and kept
  in \<open>m_configFiles\<close>.  \<open>load\<close> opens and parses a file.
\<close>

definition AclManagerConfigFiles_aclConfig ::
  "(string \<Rightarrow> exn + rpc_value) \<Rightarrow> string \<Rightarrow> rpc_map \<Rightarrow> (exn + rpc_value) \<times> rpc_map" where
  "AclManagerConfigFiles_aclConfig load config_name files =
     (let config = RpcMap_value files config_name invalid_value
      in if RpcValue_isValid config then (Inr config, files)
         else (case load config_name of
                 Inl e \<Rightarrow> (Inl e, files)
               | Inr config \<Rightarrow>
                   (if RpcValue_isValid config then Inr config
                    else Inl (RuntimeError (''Config '' @ config_name @ '' does not exist.'')),
                    map_set config_name config files)))"

definition FILE_ACL_MOUNTS :: string where "FILE_ACL_MOUNTS = ''mounts.cpon''"
definition FILE_ACL_USERS :: string where "FILE_ACL_USERS = ''users.cpon''"
definition FILE_ACL_ROLES :: string where "FILE_ACL_ROLES = ''roles.cpon''"
definition FILE_ACL_ACCESS :: string where "FILE_ACL_ACCESS = ''access.cpon''"

definition ConfigFiles_aclMountDef :: "rpc_value \<Rightarrow> string \<Rightarrow> acl_mount_def" where
  "ConfigFiles_aclMountDef cfg device_id = AclMountDef_fromRpcValue (RpcMap_value (RpcValue_asMap cfg) device_id invalid_value)"
definition ConfigFiles_aclUser :: "rpc_value \<Rightarrow> string \<Rightarrow> acl_user" where
  "ConfigFiles_aclUser cfg user_name = AclUser_fromRpcValue (RpcMap_value (RpcValue_asMap cfg) user_name invalid_value)"
definition ConfigFiles_aclRole :: "rpc_value \<Rightarrow> string \<Rightarrow> exn + acl_role" where
  "ConfigFiles_aclRole cfg role_name =
     map_sum id (\<lambda>r. case r of None \<Rightarrow> AclRole_default | Some r \<Rightarrow> r)
       (AclRole_fromRpcValue (RpcMap_value (RpcValue_asMap cfg) role_name (rpc VNull)))"
definition ConfigFiles_aclAccessRoleRules :: "rpc_value \<Rightarrow> string \<Rightarrow> acl_access_rule list" where
  "ConfigFiles_aclAccessRoleRules cfg role_name =
     AclRoleAccessRules_fromRpcValue (RpcMap_value (RpcValue_asMap cfg) role_name invalid_value)"

definition config_table :: "(rpc_value \<Rightarrow> string \<Rightarrow> 'v) \<Rightarrow> rpc_value \<Rightarrow> (string, 'v) std_map" where
  "config_table def cfg = map (\<lambda>k. (k, def cfg k)) (map_keys (RpcValue_asMap cfg))"

definition config_source :: "(string \<Rightarrow> exn + rpc_value) \<Rightarrow> acl_source" where
  "config_source cfg =
     \<lparr>sc_mounts = map_sum id (config_table ConfigFiles_aclMountDef) (cfg FILE_ACL_MOUNTS),
      sc_users = map_sum id (config_table ConfigFiles_aclUser) (cfg FILE_ACL_USERS),
      sc_roles = map_sum id (config_table ConfigFiles_aclRole) (cfg FILE_ACL_ROLES),
      sc_rules = map_sum id (config_table ConfigFiles_aclAccessRoleRules) (cfg FILE_ACL_ACCESS)\<rparr>"

section \<open>The manager and its cache\<close>

record acl_manager =
  am_source :: acl_source
  am_mounts :: "(string, acl_mount_def) std_map"
  am_users :: "(string, acl_user) std_map"
  am_roles :: "(string, acl_role) std_map"
  am_rules :: "(string, acl_access_rule list \<times> bool) std_map"
  am_flat :: "(string, string list) std_map"
  am_azure :: "(string, string list) std_map"
  am_ldap :: "(string, string list) std_map"

type_synonym 'a acl_m = "acl_manager \<Rightarrow> (exn + 'a) \<times> acl_manager"

definition ret_m :: "'a \<Rightarrow> 'a acl_m" where
  "ret_m x st = (Inr x, st)"

definition bind_m :: "'a acl_m \<Rightarrow> ('a \<Rightarrow> 'b acl_m) \<Rightarrow> 'b acl_m" where
  "bind_m m f st = (case m st of (Inl e, st') \<Rightarrow> (Inl e, st') | (Inr x, st') \<Rightarrow> f x st')"

lemma bind_m_cases:
  "m st = (Inl e, st') \<Longrightarrow> bind_m m f st = (Inl e, st')" "m st = (Inr x, st') \<Longrightarrow> bind_m m f st = f x st'"
  by (simp_all add: bind_m_def)

text \<open>\<open>cache[id]\<close> for every id: names are entered with a default value.\<close>

definition fill_keys :: "'v \<Rightarrow> string list \<Rightarrow> (string, 'v) std_map \<Rightarrow> (string, 'v) std_map" where
  "fill_keys d ids m = foldl (\<lambda>m k. map_emplace k d m) m ids"

definition clearCache :: "acl_manager \<Rightarrow> acl_manager" where
  "clearCache st = st\<lparr>am_mounts := [], am_users := [], am_roles := [], am_rules := [], am_flat := []\<rparr>"

definition AclManager_reload :: "acl_manager \<Rightarrow> acl_manager" where
  "AclManager_reload st = clearCache st"

definition AclManager_mountDeviceIds :: "string list acl_m" where
  "AclManager_mountDeviceIds st =
     (if am_mounts st = [] then
        (case aclMountDeviceIds (am_source st) of
           Inl e \<Rightarrow> (Inl e, st)
         | Inr ids \<Rightarrow> (let m = fill_keys AclMountDef_default ids [] in (Inr (map_keys m), st\<lparr>am_mounts := m\<rparr>)))
      else (Inr (map_keys (am_mounts st)), st))"

definition AclManager_mountDef :: "string \<Rightarrow> acl_mount_def acl_m" where
  "AclManager_mountDef device_id =
     bind_m AclManager_mountDeviceIds (\<lambda>_ st.
       case map_find (am_mounts st) device_id of
         None \<Rightarrow> (Inr AclMountDef_default, st)
       | Some d \<Rightarrow>
           if AclMountDef_isValid d then (Inr d, st)
           else (case aclMountDef (am_source st) device_id of
                   Inl e \<Rightarrow> (Inl e, st)
                 | Inr d \<Rightarrow> (Inr d, st\<lparr>am_mounts := map_set device_id d (am_mounts st)\<rparr>)))"

definition AclManager_users :: "string list acl_m" where
  "AclManager_users st =
     (if am_users st = [] then
        (case aclUsers (am_source st) of
           Inl e \<Rightarrow> (Inl e, st)
         | Inr ids \<Rightarrow> (let m = fill_keys AclUser_default ids [] in (Inr (map_keys m), st\<lparr>am_users := m\<rparr>)))
      else (Inr (map_keys (am_users st)), st))"

definition AclManager_user :: "string \<Rightarrow> acl_user acl_m" where
  "AclManager_user user_name =
     bind_m AclManager_users (\<lambda>_ st.
       case map_find (am_users st) user_name of
         None \<Rightarrow> (Inr AclUser_default, st)
       | Some u \<Rightarrow>
           if AclUser_isValid u then (Inr u, st)
           else (case aclUser (am_source st) user_name of
                   Inl e \<Rightarrow> (Inl e, st)
                 | Inr u \<Rightarrow> (Inr u, st\<lparr>am_users := map_set user_name u (am_users st)\<rparr>)))"

definition AclManager_roles :: "string list acl_m" where
  "AclManager_roles st =
     (if am_roles st = [] then
        (case aclRoles (am_source st) of
           Inl e \<Rightarrow> (Inl e, st)
         | Inr ids \<Rightarrow> (let m = fill_keys AclRole_default ids [] in (Inr (map_keys m), st\<lparr>am_roles := m\<rparr>)))
      else (Inr (map_keys (am_roles st)), st))"

definition AclManager_role :: "string \<Rightarrow> acl_role acl_m" where
  "AclManager_role role_name =
     bind_m AclManager_roles (\<lambda>_ st.
       case map_find (am_roles st) role_name of
         None \<Rightarrow> (Inr AclRole_default, st)
       | Some _ \<Rightarrow>
           (case aclRole (am_source st) role_name of
              Inl e \<Rightarrow> (Inl e, st)
            | Inr r \<Rightarrow> (Inr r, st\<lparr>am_roles := map_set role_name r (am_roles st)\<rparr>)))"

definition AclManager_accessRoles :: "string list acl_m" where
  "AclManager_accessRoles st =
     (if am_rules st = [] then
        (case aclAccessRoles (am_source st) of
           Inl e \<Rightarrow> (Inl e, st)
         | Inr ids \<Rightarrow> (let m = fill_keys ([], False) ids [] in (Inr (map_keys m), st\<lparr>am_rules := m\<rparr>)))
      else (Inr (map_keys (am_rules st)), st))"

definition AclManager_accessRoleRules :: "string \<Rightarrow> acl_access_rule list acl_m" where
  "AclManager_accessRoleRules role_name =
     bind_m AclManager_accessRoles (\<lambda>_ st.
       case map_find (am_rules st) role_name of
         None \<Rightarrow> (Inr [], st)
       | Some (rules, loaded) \<Rightarrow>
           if loaded then (Inr rules, st)
           else (case aclAccessRoleRules (am_source st) role_name of
                   Inl e \<Rightarrow> (Inl e, st)
                 | Inr rules \<Rightarrow> (Inr rules, st\<lparr>am_rules := map_set role_name (rules, True) (am_rules st)\<rparr>)))"

text \<open>
  The setters first change the source by a virtual function (here a parameter \<open>store\<close>, which in the base
  class always throws), then drop what they make stale.
\<close>

definition AclManager_aclSetMountDef :: "string \<Rightarrow> acl_mount_def \<Rightarrow> acl_source \<Rightarrow> exn + acl_source" where
  "AclManager_aclSetMountDef device_id md sc = Inl (ShvException ''Mount points definition is read only.'')"
definition AclManager_aclSetUser :: "string \<Rightarrow> acl_user \<Rightarrow> acl_source \<Rightarrow> exn + acl_source" where
  "AclManager_aclSetUser user_name u sc = Inl (ShvException ''Users definition is read only.'')"
definition AclManager_aclSetRole :: "string \<Rightarrow> acl_role option \<Rightarrow> acl_source \<Rightarrow> exn + acl_source" where
  "AclManager_aclSetRole role_name r sc = Inl (ShvException ''Roles definition is read only.'')"
definition AclManager_aclSetAccessRoleRules :: "string \<Rightarrow> acl_access_rule list \<Rightarrow> acl_source \<Rightarrow> exn + acl_source" where
  "AclManager_aclSetAccessRoleRules role_name rp sc = Inl (ShvException ''Role paths definition is read only.'')"

definition AclManager_setMountDef :: "(acl_source \<Rightarrow> exn + acl_source) \<Rightarrow> unit acl_m" where
  "AclManager_setMountDef store st =
     (case store (am_source st) of
        Inl e \<Rightarrow> (Inl e, st)
      | Inr sc \<Rightarrow> (Inr (), st\<lparr>am_source := sc, am_mounts := []\<rparr>))"

definition AclManager_setUser :: "(acl_source \<Rightarrow> exn + acl_source) \<Rightarrow> unit acl_m" where
  "AclManager_setUser store st =
     (case store (am_source st) of
        Inl e \<Rightarrow> (Inl e, st)
      | Inr sc \<Rightarrow> (Inr (), st\<lparr>am_source := sc, am_users := [], am_flat := []\<rparr>))"

definition AclManager_setRole :: "(acl_source \<Rightarrow> exn + acl_source) \<Rightarrow> unit acl_m" where
  "AclManager_setRole store st =
     (case store (am_source st) of
        Inl e \<Rightarrow> (Inl e, st)
      | Inr sc \<Rightarrow> (Inr (), st\<lparr>am_source := sc, am_roles := [], am_flat := []\<rparr>))"

definition AclManager_setAccessRoleRules :: "(acl_source \<Rightarrow> exn + acl_source) \<Rightarrow> unit acl_m" where
  "AclManager_setAccessRoleRules store st =
     (case store (am_source st) of
        Inl e \<Rightarrow> (Inl e, st)
      | Inr sc \<Rightarrow> (Inr (), st\<lparr>am_source := sc, am_rules := []\<rparr>))"

definition AclManager_setGroupForAzureUser :: "string \<Rightarrow> string list \<Rightarrow> acl_manager \<Rightarrow> acl_manager" where
  "AclManager_setGroupForAzureUser user_name groups st = st\<lparr>am_azure := map_emplace user_name groups (am_azure st)\<rparr>"

definition AclManager_setGroupForLdapUser :: "string \<Rightarrow> string list \<Rightarrow> acl_manager \<Rightarrow> acl_manager" where
  "AclManager_setGroupForLdapUser user_name groups st = st\<lparr>am_ldap := map_emplace user_name groups (am_ldap st)\<rparr>"

section \<open>Flattening of roles\<close>

definition enqueue :: "string list \<Rightarrow> string list \<Rightarrow> string \<Rightarrow> string list" where
  "enqueue flat q role = (if role \<in> set flat \<or> role \<in> set q then q else q @ [role])"

lemma set_foldl_enqueue: "set (foldl (enqueue flat) q rs) = set q \<union> (set rs - set flat)"
  by (induction rs arbitrary: q) (auto simp: enqueue_def)

text \<open>The roles a source mentions below other roles: finitely many, so the loop ends.\<close>

definition all_subroles :: "acl_source \<Rightarrow> string set" where
  "all_subroles sc = (case sc_roles sc of Inl _ \<Rightarrow> {} | Inr m \<Rightarrow> (\<Union>(k, r) \<in> set m. case r of Inl _ \<Rightarrow> {} | Inr r \<Rightarrow> set (ar_roles r)))"

lemma finite_all_subroles: "finite (all_subroles sc)"
  by (auto simp: all_subroles_def split: sum.splits)

lemma aclRole_subroles:
  assumes "aclRole sc cur = Inr r"
  shows "set (ar_roles r) \<subseteq> all_subroles sc"
proof -
  obtain m where m: "sc_roles sc = Inr m" "find_or (Inr AclRole_default) m cur = Inr r"
    using assms by (auto simp: aclRole_def bind_e_Inr)
  show ?thesis
  proof (cases "map_find m cur")
    case None
    then show ?thesis using m(2) by (auto simp: find_or_def AclRole_default_def)
  next
    case (Some x)
    then have "(cur, Inr r) \<in> set m" using m(2) by (auto simp: find_or_def map_find_def dest: map_of_SomeD)
    then show ?thesis by (force simp: all_subroles_def m(1))
  qed
qed

function flatten_loop :: "acl_source \<Rightarrow> string list \<Rightarrow> string list \<Rightarrow> exn option \<times> string list" where
  "flatten_loop sc flat [] = (None, flat)"
| "flatten_loop sc flat (cur # q) =
     (case aclRole sc cur of
        Inl e \<Rightarrow> (Some e, flat @ [cur])
      | Inr r \<Rightarrow> flatten_loop sc (flat @ [cur]) (foldl (enqueue (flat @ [cur])) q (ar_roles r)))"
  by pat_completeness auto
termination
proof (relation "measures [\<lambda>(sc, flat, q). card (all_subroles sc - set flat - set q), \<lambda>(sc, flat, q). length q]")
  fix sc flat cur q r
  assume r: "aclRole sc cur = Inr r"
  let ?flat = "flat @ [cur]" and ?q = "foldl (enqueue (flat @ [cur])) q (ar_roles r)"
  have sub: "all_subroles sc - set ?flat - set ?q \<subseteq> all_subroles sc - set flat - set (cur # q)"
    by (auto simp: set_foldl_enqueue)
  show "((sc, ?flat, ?q), sc, flat, cur # q) \<in> measures [\<lambda>(sc, flat, q). card (all_subroles sc - set flat - set q), \<lambda>(sc, flat, q). length q]"
  proof (cases "set (ar_roles r) \<subseteq> set ?flat \<union> set q")
    case True
    then have "foldl (enqueue ?flat) q rs = q" if "set rs \<subseteq> set (ar_roles r)" for rs
      using that by (induction rs) (auto simp: enqueue_def)
    then have "?q = q" by blast
    then show ?thesis using card_mono [OF _ sub] finite_all_subroles by (auto simp: le_less)
  next
    case False
    then obtain x where "x \<in> set (ar_roles r)" "x \<notin> set ?flat" "x \<notin> set q" by auto
    then have "x \<in> all_subroles sc - set flat - set (cur # q)" "x \<notin> all_subroles sc - set ?flat - set ?q"
      using aclRole_subroles [OF r] by (auto simp: set_foldl_enqueue)
    then have "card (all_subroles sc - set ?flat - set ?q) < card (all_subroles sc - set flat - set (cur # q))"
      using sub finite_all_subroles by (intro psubset_card_mono) auto
    then show ?thesis by simp
  qed
qed simp

definition AclManager_userFlattenRoles :: "string \<Rightarrow> string list \<Rightarrow> string list acl_m" where
  "AclManager_userFlattenRoles user_name roles st =
     (case map_find (am_flat st) user_name of
        Some flat \<Rightarrow> (Inr flat, st)
      | None \<Rightarrow>
          (case flatten_loop (am_source st) [] (foldl (enqueue []) [] roles) of
             (err, flat) \<Rightarrow>
               (case err of None \<Rightarrow> Inr flat | Some e \<Rightarrow> Inl e, st\<lparr>am_flat := map_set user_name flat (am_flat st)\<rparr>)))"

definition AclManager_flattenRole :: "string \<Rightarrow> string list acl_m" where
  "AclManager_flattenRole role = AclManager_userFlattenRoles (''_Role#Key:'' @ role) [role]"

definition AclManager_ldapUserFlattenRoles :: "string \<Rightarrow> string list \<Rightarrow> string list acl_m" where
  "AclManager_ldapUserFlattenRoles user_name roles = AclManager_userFlattenRoles (''_Ldap#Key:'' @ user_name) roles"

definition AclManager_azureUserFlattenRoles :: "string \<Rightarrow> string list \<Rightarrow> string list acl_m" where
  "AclManager_azureUserFlattenRoles user_name roles = AclManager_userFlattenRoles (''_Azure#Key:'' @ user_name) roles"

primrec profile_loop :: "rpc_value \<Rightarrow> string list \<Rightarrow> rpc_value acl_m" where
  "profile_loop ret [] = ret_m ret"
| "profile_loop ret (rn # rns) =
     bind_m (AclManager_role rn) (\<lambda>r. profile_loop (Utils_mergeMaps ret (ar_profile r)) rns)"

definition AclManager_userProfile :: "string \<Rightarrow> rpc_value acl_m" where
  "AclManager_userProfile user_name =
     bind_m (AclManager_user user_name) (\<lambda>u.
       bind_m (AclManager_userFlattenRoles user_name (au_roles u)) (profile_loop invalid_value))"

definition AclManager_mountPointForDevice :: "rpc_value \<Rightarrow> string acl_m" where
  "AclManager_mountPointForDevice device_id =
     bind_m (AclManager_mountDef (RpcValue_asString device_id)) (\<lambda>d. ret_m (amd_mountPoint d))"

section \<open>Access\<close>

definition first_match :: "string \<Rightarrow> string \<Rightarrow> acl_access_rule list \<Rightarrow> acl_access_rule option" where
  "first_match shv_path meth rules = find (\<lambda>r. AclAccessRule_isPathMethodMatch r shv_path meth) rules"

primrec search_rules :: "string \<Rightarrow> string \<Rightarrow> string list \<Rightarrow> access_grant acl_m" where
  "search_rules shv_path meth [] = ret_m (AccessGrant_make None [])"
| "search_rules shv_path meth (role # roles) =
     bind_m (AclManager_accessRoleRules role) (\<lambda>rules.
       case first_match shv_path meth rules of
         Some r \<Rightarrow> ret_m (AccessGrant_fromShv2Access (aar_access r) 0)
       | None \<Rightarrow> search_rules shv_path meth roles)"

definition DIR_BROKER_APP :: string where "DIR_BROKER_APP = ''.broker/app''"
definition ROLE_MASTER_BROKER :: string where "ROLE_MASTER_BROKER = ''masterBroker''"
definition BROKER_CURRENT_CLIENT_SHV_PATH :: string where "BROKER_CURRENT_CLIENT_SHV_PATH = ''.broker/currentClient''"

text \<open>The roles of a user: of one that is defined, else of a member of an LDAP or Azure group.\<close>

definition client_roles :: "string \<Rightarrow> string list acl_m" where
  "client_roles user_name =
     bind_m (AclManager_user user_name) (\<lambda>user_def st.
       if AclUser_isValid user_def then AclManager_userFlattenRoles user_name (au_roles user_def) st
       else case map_find (am_ldap st) user_name of
              Some groups \<Rightarrow> AclManager_ldapUserFlattenRoles user_name groups st
            | None \<Rightarrow>
                (case map_find (am_azure st) user_name of
                   Some groups \<Rightarrow> AclManager_azureUserFlattenRoles user_name groups st
                 | None \<Rightarrow> (Inr [], st)))"

definition AclManager_accessGrantForShvPath ::
  "string \<Rightarrow> string \<Rightarrow> string \<Rightarrow> bool \<Rightarrow> access_grant \<Rightarrow> access_grant acl_m" where
  "AclManager_accessGrantForShvPath user_name shv_path meth is_request_from_master_broker grant =
     (if is_request_from_master_broker \<and> ag_level grant > AccessLevel_None then ret_m grant
      else if is_request_from_master_broker \<and> shv_path = DIR_BROKER_APP then ret_m (AccessGrant_make (Some AccessLevel_Write) [])
      else
        bind_m (if is_request_from_master_broker then AclManager_flattenRole ROLE_MASTER_BROKER else client_roles user_name)
          (\<lambda>flatten_user_roles.
             if shv_path = BROKER_CURRENT_CLIENT_SHV_PATH then ret_m (AccessGrant_make (Some AccessLevel_Write) [])
             else search_rules shv_path meth flatten_user_roles))"

section \<open>Reachable roles\<close>

definition subrole :: "acl_source \<Rightarrow> (string \<times> string) set" where
  "subrole sc = {(a, b). \<exists>r. aclRole sc a = Inr r \<and> b \<in> set (ar_roles r)}"

definition roles_fine :: "acl_source \<Rightarrow> bool" where
  "roles_fine sc \<longleftrightarrow> (\<forall>cur. \<not> isl (aclRole sc cur))"

lemma prefix_foldl_enqueue: "prefix q (foldl (enqueue flat) q rs)"
proof (induction rs arbitrary: q)
  case (Cons r rs)
  have "prefix q (enqueue flat q r)" by (simp add: enqueue_def)
  then show ?case using Cons [of "enqueue flat q r"] by (auto intro: prefix_order.trans)
qed simp

lemma distinct_foldl_enqueue: "distinct (flat @ q) \<Longrightarrow> distinct (flat @ foldl (enqueue flat) q rs)"
  by (induction rs arbitrary: q) (auto simp: enqueue_def)

text \<open>
  What is in the list or the queue keeps its place; the list has no duplicates, holds only what is
  reachable, and is closed.
\<close>

lemma flatten_loop_facts:
  "roles_fine sc \<Longrightarrow> distinct (flat @ q) \<Longrightarrow> \<forall>x \<in> set flat. subrole sc `` {x} \<subseteq> set (flat @ q) \<Longrightarrow>
   \<exists>flat'. flatten_loop sc flat q = (None, flat') \<and> distinct flat' \<and> prefix (flat @ q) flat' \<and>
     set flat' \<subseteq> set flat \<union> (subrole sc)\<^sup>* `` set q \<and> (\<forall>x \<in> set flat'. subrole sc `` {x} \<subseteq> set flat')"
proof (induction sc flat q rule: flatten_loop.induct)
  case (2 sc flat cur q)
  obtain r where r: "aclRole sc cur = Inr r"
    using "2.prems"(1) unfolding roles_fine_def by (cases "aclRole sc cur") (auto dest: spec [of _ cur])
  let ?q = "foldl (enqueue (flat @ [cur])) q (ar_roles r)"
  have sub: "subrole sc `` {cur} = set (ar_roles r)" using r by (auto simp: subrole_def)
  have d: "distinct ((flat @ [cur]) @ ?q)" using "2.prems"(2) by (intro distinct_foldl_enqueue) auto
  have "\<forall>x \<in> set (flat @ [cur]). subrole sc `` {x} \<subseteq> set ((flat @ [cur]) @ ?q)"
    using "2.prems"(3) sub by (auto simp: set_foldl_enqueue)
  from "2.IH" [OF r "2.prems"(1) d this] obtain flat'
    where f: "flatten_loop sc (flat @ [cur]) ?q = (None, flat')" "distinct flat'" "prefix ((flat @ [cur]) @ ?q) flat'"
      "set flat' \<subseteq> set (flat @ [cur]) \<union> (subrole sc)\<^sup>* `` set ?q" "\<forall>x \<in> set flat'. subrole sc `` {x} \<subseteq> set flat'" by blast
  have "prefix (flat @ cur # q) ((flat @ [cur]) @ ?q)"
    using prefix_foldl_enqueue [of q "flat @ [cur]" "ar_roles r"] by simp
  then have "prefix (flat @ cur # q) flat'" using f(3) by (rule prefix_order.trans)
  moreover have "(subrole sc)\<^sup>* `` set ?q \<subseteq> (subrole sc)\<^sup>* `` set (cur # q)"
  proof
    fix y assume "y \<in> (subrole sc)\<^sup>* `` set ?q"
    then obtain x where x: "x \<in> set ?q" "(x, y) \<in> (subrole sc)\<^sup>*" by auto
    show "y \<in> (subrole sc)\<^sup>* `` set (cur # q)"
    proof (cases "x \<in> set q")
      case False
      then have "(cur, x) \<in> subrole sc" using x(1) sub by (auto simp: set_foldl_enqueue)
      then show ?thesis using x(2) by (auto intro: converse_rtrancl_into_rtrancl)
    qed (use x in auto)
  qed
  moreover have "cur \<in> (subrole sc)\<^sup>* `` set (cur # q)" by auto
  ultimately have "prefix (flat @ cur # q) flat' \<and> set flat' \<subseteq> set flat \<union> (subrole sc)\<^sup>* `` set (cur # q)"
    using f(4) unfolding set_append list.set by blast
  then show ?case using f(1,2,5) r by auto
qed auto

definition flatten :: "acl_source \<Rightarrow> string list \<Rightarrow> string list" where
  "flatten sc roots = snd (flatten_loop sc [] (foldl (enqueue []) [] roots))"

lemma flatten_spec:
  assumes "roles_fine sc"
  shows "flatten_loop sc [] (foldl (enqueue []) [] roots) = (None, flatten sc roots)"
    and "distinct (flatten sc roots)" and "set (flatten sc roots) = (subrole sc)\<^sup>* `` set roots"
    and "prefix (foldl (enqueue []) [] roots) (flatten sc roots)"
proof -
  have "distinct ([] @ foldl (enqueue []) [] roots)" by (rule distinct_foldl_enqueue) simp
  from flatten_loop_facts [OF assms this] obtain flat where
    f: "flatten_loop sc [] (foldl (enqueue []) [] roots) = (None, flat)" "distinct flat" "prefix (foldl (enqueue []) [] roots) flat"
      "set flat \<subseteq> (subrole sc)\<^sup>* `` set roots" "\<forall>x \<in> set flat. subrole sc `` {x} \<subseteq> set flat"
    by (auto simp: set_foldl_enqueue)
  have "set roots \<subseteq> set flat" using set_mono_prefix [OF f(3)] by (simp add: set_foldl_enqueue)
  moreover have "y \<in> set flat" if "(x, y) \<in> (subrole sc)\<^sup>*" "x \<in> set flat" for x y
    using that by (induction rule: rtrancl_induct) (use f(5) in auto)
  ultimately have "set flat = (subrole sc)\<^sup>* `` set roots" using f(4) by blast
  moreover have "flatten sc roots = flat" by (simp add: flatten_def f(1))
  ultimately show "flatten_loop sc [] (foldl (enqueue []) [] roots) = (None, flatten sc roots)" "distinct (flatten sc roots)"
    "set (flatten sc roots) = (subrole sc)\<^sup>* `` set roots" "prefix (foldl (enqueue []) [] roots) (flatten sc roots)"
    using f by auto
qed

text \<open>
  A role that cannot be read ends the loop with an exception, but what was found so far stays in the
  cache and is the answer to the next call.
\<close>

lemma flatten_partial_cached:
  assumes "AclManager_userFlattenRoles user_name roles st = (Inl e, st')"
  shows "\<exists>flat. AclManager_userFlattenRoles user_name roles st' = (Inr flat, st')"
  using assms
  by (auto simp: AclManager_userFlattenRoles_def std_map_simps split: option.splits prod.splits)

section \<open>The cache shows the source\<close>

text \<open>
  What the answers depend on: the definitions and the groups of external users, not the cache.  A
  cached table has the names of its source; an entry that counts as loaded is the source's.
\<close>

type_synonym acl_defs = "acl_source \<times> (string, string list) std_map \<times> (string, string list) std_map"

definition defs :: "acl_manager \<Rightarrow> acl_defs" where
  "defs st = (am_source st, am_azure st, am_ldap st)"

definition table_ok :: "('c \<Rightarrow> 'v option) \<Rightarrow> exn + (string, 'v) std_map \<Rightarrow> (string, 'c) std_map \<Rightarrow> bool" where
  "table_ok loaded tbl c \<longleftrightarrow>
     (c \<noteq> [] \<longrightarrow> (\<exists>m. tbl = Inr m \<and> (\<forall>k. map_find c k = None \<longleftrightarrow> map_find m k = None) \<and>
        (\<forall>k x v. map_find c k = Some x \<longrightarrow> loaded x = Some v \<longrightarrow> map_find m k = Some v)))"

definition if_valid :: "('v \<Rightarrow> bool) \<Rightarrow> 'v \<Rightarrow> 'v option" where
  "if_valid P v = (if P v then Some v else None)"

definition user_spec :: "acl_defs \<Rightarrow> string \<Rightarrow> exn + acl_user" where
  "user_spec d user_name = aclUser (fst d) user_name"

text \<open>The roles for which a list of roles is kept under a key.\<close>

definition key_roots :: "acl_defs \<Rightarrow> string \<Rightarrow> string list option" where
  "key_roots d key =
     (case d of (sc, azure, ldap) \<Rightarrow>
        if prefix ''_Role#Key:'' key then Some [drop 10 key]
        else if prefix ''_Ldap#Key:'' key then map_find ldap (drop 10 key)
        else if prefix ''_Azure#Key:'' key then map_find azure (drop 11 key)
        else case aclUser sc key of Inl _ \<Rightarrow> None | Inr u \<Rightarrow> Some (au_roles u))"

definition manager_ok :: "acl_manager \<Rightarrow> bool" where
  "manager_ok st \<longleftrightarrow> roles_fine (am_source st) \<and>
     table_ok (if_valid AclMountDef_isValid) (sc_mounts (am_source st)) (am_mounts st) \<and>
     table_ok (if_valid AclUser_isValid) (sc_users (am_source st)) (am_users st) \<and>
     table_ok (\<lambda>_. None) (sc_roles (am_source st)) (am_roles st) \<and>
     table_ok (\<lambda>(rules, loaded). if loaded then Some rules else None) (sc_rules (am_source st)) (am_rules st) \<and>
     (\<forall>k flat. map_find (am_flat st) k = Some flat \<longrightarrow>
        (\<exists>roots. key_roots (defs st) k = Some roots \<and> flat = flatten (am_source st) roots))"

lemma map_find_fill: "map_find (fill_keys d ids c) k = (if map_find c k = None \<and> k \<in> set ids then Some d else map_find c k)"
  by (induction ids arbitrary: c) (auto simp: fill_keys_def map_emplace_def std_map_simps split: option.splits)

lemma find_keys: "k \<in> set (map_keys m) \<longleftrightarrow> map_find m k \<noteq> None"
  by (simp add: map_keys_def map_find_None_iff)

lemma table_ok_fill:
  "tbl = Inr m \<Longrightarrow> loaded d = None \<Longrightarrow> table_ok loaded tbl (fill_keys d (map_keys m) [])"
  by (auto simp: table_ok_def map_find_fill find_keys std_map_simps split: if_splits)

lemma table_ok_set:
  assumes "table_ok loaded (Inr m) c" "map_find c k = Some y" "\<And>v. loaded x = Some v \<Longrightarrow> map_find m k = Some v"
  shows "table_ok loaded (Inr m) (map_set k x c)"
proof -
  have "c \<noteq> []" using assms(2) by (auto simp: map_find_def)
  then have "\<And>k. map_find c k = None \<longleftrightarrow> map_find m k = None"
    and "\<And>k x v. map_find c k = Some x \<Longrightarrow> loaded x = Some v \<Longrightarrow> map_find m k = Some v"
    using assms(1) by (auto simp: table_ok_def)
  moreover from this(1) [of k] have "map_find m k \<noteq> None" using assms(2) by simp
  ultimately show ?thesis using assms(2,3) unfolding table_ok_def
    by (intro impI exI [of _ m] conjI allI) (auto simp: map_find_set split: if_splits)
qed

text \<open>The names are entered when the table is empty; afterwards it has the names of the source.\<close>

definition with_names :: "'c \<Rightarrow> (string, 'v) std_map \<Rightarrow> (string, 'c) std_map \<Rightarrow> (string, 'c) std_map" where
  "with_names d m c = (if c = [] then fill_keys d (map_keys m) [] else c)"

lemma with_names_ok:
  assumes "table_ok loaded (Inr m) c" "loaded d = None"
  shows "table_ok loaded (Inr m) (with_names d m c)" "map_find (with_names d m c) k = None \<longleftrightarrow> map_find m k = None"
    "map_find (with_names d m c) k = Some x \<Longrightarrow> loaded x = Some v \<Longrightarrow> map_find m k = Some v"
proof -
  show "table_ok loaded (Inr m) (with_names d m c)"
    using assms table_ok_fill [of "Inr m" m loaded d] by (simp add: with_names_def)
  show "map_find (with_names d m c) k = None \<longleftrightarrow> map_find m k = None"
    using assms(1) by (auto simp: with_names_def map_find_fill find_keys table_ok_def)
  show "map_find m k = Some v" if "map_find (with_names d m c) k = Some x" "loaded x = Some v"
    using assms that by (auto simp: with_names_def map_find_fill table_ok_def split: if_splits)
qed

text \<open>
  \<open>implements op spec\<close>: from every manager in order, \<open>op\<close> returns what \<open>spec\<close> computes from the
  definitions, and leaves a manager in order with the same definitions.
\<close>

definition implements :: "'a acl_m \<Rightarrow> (acl_defs \<Rightarrow> exn + 'a) \<Rightarrow> bool" where
  "implements op spec \<longleftrightarrow>
     (\<forall>st. manager_ok st \<longrightarrow> (\<exists>st'. op st = (spec (defs st), st') \<and> manager_ok st' \<and> defs st' = defs st))"

lemma implementsI:
  "(\<And>st. manager_ok st \<Longrightarrow> \<exists>st'. op st = (spec (defs st), st') \<and> manager_ok st' \<and> defs st' = defs st) \<Longrightarrow> implements op spec"
  by (simp add: implements_def)

lemma implementsD:
  "implements op spec \<Longrightarrow> manager_ok st \<Longrightarrow> \<exists>st'. op st = (spec (defs st), st') \<and> manager_ok st' \<and> defs st' = defs st"
  by (simp add: implements_def)

lemma implements_ret: "implements (ret_m x) (\<lambda>_. Inr x)"
  by (rule implementsI) (simp add: ret_m_def)

lemma implements_bind:
  assumes "implements m s" "\<And>x st. s (defs st) = Inr x \<Longrightarrow> manager_ok st \<Longrightarrow>
    \<exists>st'. f x st = (t x (defs st), st') \<and> manager_ok st' \<and> defs st' = defs st"
  shows "implements (bind_m m f) (\<lambda>d. bind_e (s d) (\<lambda>x. t x d))"
proof (rule implementsI)
  fix st assume "manager_ok st"
  from implementsD [OF assms(1) this] obtain st1
    where st1: "m st = (s (defs st), st1)" "manager_ok st1" "defs st1 = defs st" by blast
  show "\<exists>st'. bind_m m f st = (bind_e (s (defs st)) (\<lambda>x. t x (defs st)), st') \<and> manager_ok st' \<and> defs st' = defs st"
  proof (cases "s (defs st)")
    case (Inr x)
    then show ?thesis using st1 assms(2) [of st1 x] by (auto simp: bind_m_def)
  qed (use st1 in \<open>auto simp: bind_m_def\<close>)
qed

text \<open>A reader of one kind of definition, by name.\<close>

locale definition_reader =
  fixes look :: "string \<Rightarrow> 'v acl_m" and spec :: "acl_defs \<Rightarrow> string \<Rightarrow> exn + 'v"
  assumes look_implements: "implements (look k) (\<lambda>d. spec d k)"
begin

lemma look_st:
  "manager_ok st \<Longrightarrow> \<exists>st'. look k st = (spec (defs st) k, st') \<and> manager_ok st' \<and> defs st' = defs st"
  using look_implements by (rule implementsD)

text \<open>Asking again, whatever was asked in between, gives the same answer.\<close>

lemma look_again:
  assumes "manager_ok st" "look k st = (res, st1)" "op st1 = (res', st2)" "implements op s"
  shows "fst (look k st2) = res"
proof -
  have "manager_ok st1" "defs st1 = defs st" "res = spec (defs st) k" using look_st [OF assms(1), of k] assms(2) by auto
  moreover from this have "manager_ok st2" "defs st2 = defs st1" using implementsD [OF assms(4)] assms(3) by fastforce+
  ultimately show ?thesis using look_st [of st2 k] by auto
qed

lemma look_then:
  assumes "\<And>x. implements (f x) (t x)"
  shows "implements (bind_m (look k) f) (\<lambda>d. bind_e (spec d k) (\<lambda>x. t x d))"
  by (rule implements_bind [OF look_implements]) (rule implementsD [OF assms])

end

lemma manager_ok_tables:
  assumes "manager_ok st"
  shows "table_ok (if_valid AclUser_isValid) (sc_users (am_source st)) c \<Longrightarrow> manager_ok (st\<lparr>am_users := c\<rparr>)"
    and "table_ok (if_valid AclMountDef_isValid) (sc_mounts (am_source st)) c' \<Longrightarrow> manager_ok (st\<lparr>am_mounts := c'\<rparr>)"
    and "table_ok (\<lambda>_. None) (sc_roles (am_source st)) c'' \<Longrightarrow> manager_ok (st\<lparr>am_roles := c''\<rparr>)"
    and "table_ok (\<lambda>(rules, loaded). if loaded then Some rules else None) (sc_rules (am_source st)) c3 \<Longrightarrow>
      manager_ok (st\<lparr>am_rules := c3\<rparr>)"
  using assms by (simp_all add: manager_ok_def defs_def)

lemma defs_tables [simp]:
  "defs (st\<lparr>am_users := a\<rparr>) = defs st" "defs (st\<lparr>am_mounts := b\<rparr>) = defs st" "defs (st\<lparr>am_roles := c\<rparr>) = defs st"
  "defs (st\<lparr>am_rules := e\<rparr>) = defs st" "defs (st\<lparr>am_flat := f\<rparr>) = defs st"
  by (simp_all add: defs_def)

lemma invalid_defaults:
  "if_valid AclUser_isValid AclUser_default = None" "if_valid AclMountDef_isValid AclMountDef_default = None"
  by (simp_all add: if_valid_def AclUser_isValid_def AclUser_default_def AclPassword_isValid_def AclPassword_default_def
      AclMountDef_isValid_def AclMountDef_default_def)

lemma if_valid_Some: "if_valid P v = Some v' \<longleftrightarrow> P v \<and> v' = v"
  by (auto simp: if_valid_def)

lemma find_or_bind:
  "map_sum id (\<lambda>m. find_or d m k) t = bind_e t (\<lambda>m. case map_find m k of None \<Rightarrow> Inr d | Some v \<Rightarrow> Inr v)"
  by (cases t) (simp_all add: find_or_def split: option.splits)

text \<open>The four tables are kept in the same way: names first, a definition when it is asked for.\<close>

locale cached_table =
  fixes get :: "acl_manager \<Rightarrow> (string, 'c) std_map"
    and put :: "(string, 'c) std_map \<Rightarrow> acl_manager \<Rightarrow> acl_manager"
    and tbl :: "acl_source \<Rightarrow> exn + (string, 'v) std_map"
    and loaded :: "'c \<Rightarrow> 'v option"
    and result :: "'v \<Rightarrow> exn + 'w"
    and entry :: "'w \<Rightarrow> 'c"
    and blank :: 'c
    and dflt :: 'w
    and names :: "string list acl_m"
    and look :: "string \<Rightarrow> 'w acl_m"
    and def :: "acl_source \<Rightarrow> string \<Rightarrow> exn + 'w"
  assumes names_eq: "names st =
      (if get st = [] then
         (case tbl (am_source st) of
            Inl e \<Rightarrow> (Inl e, st)
          | Inr m \<Rightarrow> (Inr (map_keys (fill_keys blank (map_keys m) [])), put (fill_keys blank (map_keys m) []) st))
       else (Inr (map_keys (get st)), st))"
    and look_eq: "look k = bind_m names (\<lambda>_ st.
      case map_find (get st) k of
        None \<Rightarrow> (Inr dflt, st)
      | Some x \<Rightarrow>
          (case loaded x of
             Some v \<Rightarrow> (result v, st)
           | None \<Rightarrow> (case def (am_source st) k of Inl e \<Rightarrow> (Inl e, st) | Inr w \<Rightarrow> (Inr w, put (map_set k (entry w) (get st)) st))))"
    and def_eq: "def sc k = bind_e (tbl sc) (\<lambda>m. case map_find m k of None \<Rightarrow> Inr dflt | Some v \<Rightarrow> result v)"
    and ok_get: "manager_ok st \<Longrightarrow> table_ok loaded (tbl (am_source st)) (get st)"
    and ok_put: "manager_ok st \<Longrightarrow> table_ok loaded (tbl (am_source st)) c \<Longrightarrow> manager_ok (put c st)"
    and defs_put: "defs (put c st) = defs st"
    and get_put: "get (put c st) = c" "put c (put c' st) = put c st" "put (get st) st = st"
    and blank_entry: "loaded blank = None"
    and entry_loaded: "result v = Inr w \<Longrightarrow> loaded (entry w) = Some v' \<Longrightarrow> v' = v"
begin

lemma source_put: "am_source (put c st) = am_source st"
  using defs_put [of c st] by (simp add: defs_def)

lemma names_loaded:
  assumes "tbl (am_source st) = Inr m"
  shows "\<exists>ids. names st = (Inr ids, put (with_names blank m (get st)) st)"
  using assms by (simp add: names_eq with_names_def get_put)

lemma look_is_def: "implements (look k) (\<lambda>d. def (fst d) k)"
proof (rule implementsI)
  fix st assume ok: "manager_ok st"
  show "\<exists>st'. look k st = (def (fst (defs st)) k, st') \<and> manager_ok st' \<and> defs st' = defs st"
  proof (cases "tbl (am_source st)")
    case (Inl e)
    then have "get st = []" using ok_get [OF ok] by (auto simp: table_ok_def)
    then show ?thesis using ok Inl by (simp add: look_eq names_eq def_eq bind_m_def defs_def)
  next
    case (Inr m)
    define c where "c = with_names blank m (get st)"
    have "table_ok loaded (Inr m) (get st)" using ok_get [OF ok] Inr by simp
    note c = with_names_ok [OF this blank_entry, folded c_def]
    obtain ids where ids: "names st = (Inr ids, put c st)" using names_loaded [OF Inr] by (auto simp: c_def)
    have okc: "manager_ok (put c st)" using ok_put [OF ok] c(1) Inr by simp
    have def: "def (am_source st) k = (case map_find m k of None \<Rightarrow> Inr dflt | Some v \<Rightarrow> result v)"
      by (simp add: def_eq Inr)
    show ?thesis
    proof (cases "map_find c k")
      case None
      then have "map_find m k = None" using c(2) by simp
      then show ?thesis using None okc by (simp add: look_eq bind_m_def ids get_put defs_put def defs_def [of st])
    next
      case (Some x)
      then obtain v where v: "map_find m k = Some v" using c(2) [of k] by auto
      show ?thesis
      proof (cases "loaded x")
        case (Some v')
        then have "v' = v" using c(3) [OF \<open>map_find c k = Some x\<close>] v by simp
        then show ?thesis using Some \<open>map_find c k = Some x\<close> okc v
          by (simp add: look_eq bind_m_def ids get_put defs_put def defs_def [of st])
      next
        case None
        show ?thesis
        proof (cases "result v")
          case (Inl e)
          then show ?thesis using None Some okc v
            by (simp add: look_eq bind_m_def ids get_put defs_put source_put def defs_def [of st])
        next
          case (Inr w)
          have "table_ok loaded (Inr m) (map_set k (entry w) c)"
            by (rule table_ok_set [OF c(1) Some]) (use entry_loaded [OF Inr] v in auto)
          then have "manager_ok (put (map_set k (entry w) c) st)" using ok_put [OF ok] \<open>tbl (am_source st) = Inr m\<close> by simp
          then show ?thesis using None Some v Inr
            by (simp add: look_eq bind_m_def ids get_put defs_put source_put def defs_def [of st])
        qed
      qed
    qed
  qed
qed

end

sublocale cached_table \<subseteq> definition_reader look "\<lambda>d. def (fst d)"
  by unfold_locales (rule look_is_def)

interpretation user_table: cached_table am_users "\<lambda>c st. st\<lparr>am_users := c\<rparr>" sc_users "if_valid AclUser_isValid" Inr id
  AclUser_default AclUser_default AclManager_users AclManager_user aclUser
proof (unfold_locales, goal_cases)
  case (2 k)
  show ?case unfolding AclManager_user_def
    by (intro arg_cong [where f = "bind_m _"] ext) (auto simp: if_valid_def split: option.splits sum.splits)
qed (use manager_ok_tables in \<open>auto simp: AclManager_users_def aclUsers_def aclUser_def find_or_bind manager_ok_def Let_def
    invalid_defaults if_valid_Some split: sum.splits\<close>)

interpretation mount_table: cached_table am_mounts "\<lambda>c st. st\<lparr>am_mounts := c\<rparr>" sc_mounts "if_valid AclMountDef_isValid" Inr id
  AclMountDef_default AclMountDef_default AclManager_mountDeviceIds AclManager_mountDef aclMountDef
proof (unfold_locales, goal_cases)
  case (2 k)
  show ?case unfolding AclManager_mountDef_def
    by (intro arg_cong [where f = "bind_m _"] ext) (auto simp: if_valid_def split: option.splits sum.splits)
qed (use manager_ok_tables in \<open>auto simp: AclManager_mountDeviceIds_def aclMountDeviceIds_def aclMountDef_def find_or_bind
    manager_ok_def Let_def invalid_defaults if_valid_Some split: sum.splits\<close>)

interpretation role_table: cached_table am_roles "\<lambda>c st. st\<lparr>am_roles := c\<rparr>" sc_roles "\<lambda>_. None" id id
  AclRole_default AclRole_default AclManager_roles AclManager_role aclRole
proof (unfold_locales, goal_cases)
  case (2 k)
  show ?case unfolding AclManager_role_def
    by (intro arg_cong [where f = "bind_m _"] ext) (auto split: option.splits sum.splits)
qed (use manager_ok_tables in \<open>auto simp: AclManager_roles_def aclRoles_def aclRole_def find_or_def manager_ok_def Let_def
    split: sum.splits option.splits intro!: arg_cong [where f = "bind_e _"]\<close>)

interpretation rule_table: cached_table am_rules "\<lambda>c st. st\<lparr>am_rules := c\<rparr>" sc_rules
  "\<lambda>(rules, loaded). if loaded then Some rules else None" Inr "\<lambda>r. (r, True)" "([], False)" "[]"
  AclManager_accessRoles AclManager_accessRoleRules aclAccessRoleRules
proof (unfold_locales, goal_cases)
  case (2 k)
  show ?case unfolding AclManager_accessRoleRules_def
    by (intro arg_cong [where f = "bind_m _"] ext) (auto split: option.splits prod.splits)
qed (use manager_ok_tables in \<open>auto simp: AclManager_accessRoles_def aclAccessRoles_def aclAccessRoleRules_def find_or_bind
    manager_ok_def Let_def split: sum.splits\<close>)

section \<open>Roles and access from the definitions alone\<close>

lemma flatten_implements:
  assumes ok: "manager_ok st" and roots: "key_roots (defs st) key = Some roots"
  shows "\<exists>st'. AclManager_userFlattenRoles key roots st = (Inr (flatten (am_source st) roots), st') \<and> manager_ok st' \<and> defs st' = defs st"
proof -
  show ?thesis
  proof (cases "map_find (am_flat st) key")
    case (Some flat)
    then obtain rs where "key_roots (defs st) key = Some rs" "flat = flatten (am_source st) rs"
      using ok unfolding manager_ok_def by blast
    then have "flat = flatten (am_source st) roots" using roots by simp
    then show ?thesis using Some ok by (simp add: AclManager_userFlattenRoles_def)
  next
    case None
    have "roles_fine (am_source st)" using ok by (simp add: manager_ok_def)
    note fl = flatten_spec(1) [OF this, of roots]
    have "manager_ok (st\<lparr>am_flat := map_set key (flatten (am_source st) roots) (am_flat st)\<rparr>)"
      using ok roots by (auto simp: manager_ok_def map_find_set defs_def)
    then show ?thesis using None by (simp add: AclManager_userFlattenRoles_def fl)
  qed
qed

text \<open>The names of users do not look like the keys under which the roles of others are kept.\<close>

definition plain_name :: "string \<Rightarrow> bool" where
  "plain_name user_name \<longleftrightarrow> \<not> prefix ''_'' user_name"

lemma key_roots_cases:
  "key_roots d (''_Role#Key:'' @ r) = Some [r]"
  "key_roots d (''_Ldap#Key:'' @ r) = map_find (snd (snd d)) r"
  "key_roots d (''_Azure#Key:'' @ r) = map_find (fst (snd d)) r"
  "plain_name n \<Longrightarrow> key_roots d n = (case aclUser (fst d) n of Inl _ \<Rightarrow> None | Inr u \<Rightarrow> Some (au_roles u))"
  by (cases d; auto simp: key_roots_def plain_name_def prefix_def)+

definition role_roots :: "acl_defs \<Rightarrow> string \<Rightarrow> exn + string list" where
  "role_roots d user_name =
     map_sum id (\<lambda>u. if AclUser_isValid u then au_roles u
       else case map_find (snd (snd d)) user_name of
              Some groups \<Rightarrow> groups
            | None \<Rightarrow> (case map_find (fst (snd d)) user_name of Some groups \<Rightarrow> groups | None \<Rightarrow> []))
       (aclUser (fst d) user_name)"

lemma flatten_Nil [simp]: "flatten sc [] = []"
  by (simp add: flatten_def)

lemma client_roles_implements:
  assumes "plain_name user_name"
  shows "implements (client_roles user_name) (\<lambda>d. map_sum id (flatten (fst d)) (role_roots d user_name))"
proof -
  have "implements (client_roles user_name) (\<lambda>d. bind_e (aclUser (fst d) user_name) (\<lambda>u.
      Inr (flatten (fst d) (if AclUser_isValid u then au_roles u
       else case map_find (snd (snd d)) user_name of
              Some groups \<Rightarrow> groups
            | None \<Rightarrow> (case map_find (fst (snd d)) user_name of Some groups \<Rightarrow> groups | None \<Rightarrow> [])))))"
    unfolding client_roles_def
  proof (rule implements_bind [OF user_table.look_implements])
    fix u st assume u: "aclUser (fst (defs st)) user_name = Inr u" and ok: "manager_ok st"
    note fl = flatten_implements [OF ok]
    have src: "fst (defs st) = am_source st" "fst (snd (defs st)) = am_azure st" "snd (snd (defs st)) = am_ldap st"
      by (simp_all add: defs_def)
    have roots: "key_roots (defs st) user_name = Some (au_roles u)"
      "key_roots (defs st) (''_Ldap#Key:'' @ user_name) = map_find (am_ldap st) user_name"
      "key_roots (defs st) (''_Azure#Key:'' @ user_name) = map_find (am_azure st) user_name"
      using u key_roots_cases(4) [OF assms, of "defs st"] by (simp_all only: key_roots_cases(2,3) src sum.case)
    show "\<exists>st'. (if AclUser_isValid u then AclManager_userFlattenRoles user_name (au_roles u) st
        else case map_find (am_ldap st) user_name of
               None \<Rightarrow> (case map_find (am_azure st) user_name of None \<Rightarrow> (Inr [], st)
                 | Some groups \<Rightarrow> AclManager_azureUserFlattenRoles user_name groups st)
             | Some groups \<Rightarrow> AclManager_ldapUserFlattenRoles user_name groups st) =
        (Inr (flatten (fst (defs st)) (if AclUser_isValid u then au_roles u
          else case map_find (snd (snd (defs st))) user_name of
                 None \<Rightarrow> (case map_find (fst (snd (defs st))) user_name of None \<Rightarrow> [] | Some groups \<Rightarrow> groups)
               | Some groups \<Rightarrow> groups)), st') \<and> manager_ok st' \<and> defs st' = defs st"
      using fl [OF roots(1)] fl [of "''_Ldap#Key:'' @ user_name", unfolded roots(2)]
        fl [of "''_Azure#Key:'' @ user_name", unfolded roots(3)] ok
      unfolding src AclManager_ldapUserFlattenRoles_def AclManager_azureUserFlattenRoles_def
      by (cases "map_find (am_ldap st) user_name"; cases "map_find (am_azure st) user_name"; cases "AclUser_isValid u")
         (simp_all del: append.simps)
  qed
  moreover have "map_sum id (flatten (fst d)) (role_roots d user_name) = bind_e (aclUser (fst d) user_name) (\<lambda>u.
      Inr (flatten (fst d) (if AclUser_isValid u then au_roles u
       else case map_find (snd (snd d)) user_name of
              Some groups \<Rightarrow> groups
            | None \<Rightarrow> (case map_find (fst (snd d)) user_name of Some groups \<Rightarrow> groups | None \<Rightarrow> []))))" for d
    by (cases "aclUser (fst d) user_name") (simp_all add: role_roots_def)
  ultimately show ?thesis by simp
qed

definition search_spec :: "acl_defs \<Rightarrow> string \<Rightarrow> string \<Rightarrow> string list \<Rightarrow> exn + access_grant" where
  "search_spec d shv_path meth roles =
     (if roles = [] then Inr (AccessGrant_make None [])
      else map_sum id (\<lambda>tbl.
        (case first_match shv_path meth (concat (map (find_or [] tbl) roles)) of
           Some r \<Rightarrow> AccessGrant_fromShv2Access (aar_access r) 0
         | None \<Rightarrow> AccessGrant_make None [])) (sc_rules (fst d)))"

lemma first_match_Nil [simp]: "first_match p m [] = None"
  by (simp add: first_match_def)

lemma first_match_append:
  "first_match p m (xs @ ys) = (case first_match p m xs of None \<Rightarrow> first_match p m ys | Some r \<Rightarrow> Some r)"
  by (induction xs) (simp_all add: first_match_def)

lemma search_rules_implements: "implements (search_rules shv_path meth roles) (\<lambda>d. search_spec d shv_path meth roles)"
proof (induction roles)
  case Nil
  then show ?case using implements_ret by (simp add: search_spec_def)
next
  case (Cons role roles)
  have "implements (search_rules shv_path meth (role # roles)) (\<lambda>d. bind_e (aclAccessRoleRules (fst d) role) (\<lambda>rules.
      case first_match shv_path meth rules of
        Some r \<Rightarrow> Inr (AccessGrant_fromShv2Access (aar_access r) 0)
      | None \<Rightarrow> search_spec d shv_path meth roles))"
    unfolding search_rules.simps
    by (rule rule_table.look_then) (use Cons implements_ret in \<open>auto split: option.splits\<close>)
  moreover have "bind_e (aclAccessRoleRules (fst d) role) (\<lambda>rules.
      case first_match shv_path meth rules of
        Some r \<Rightarrow> Inr (AccessGrant_fromShv2Access (aar_access r) 0)
      | None \<Rightarrow> search_spec d shv_path meth roles) = search_spec d shv_path meth (role # roles)" for d
    by (cases "sc_rules (fst d)")
       (auto simp: search_spec_def aclAccessRoleRules_def first_match_append split: option.splits)
  ultimately show ?case by simp
qed

text \<open>The grant for a request, computed from the definitions.\<close>

definition grant_spec :: "acl_defs \<Rightarrow> string \<Rightarrow> string \<Rightarrow> string \<Rightarrow> bool \<Rightarrow> access_grant \<Rightarrow> exn + access_grant" where
  "grant_spec d user_name shv_path meth from_master grant =
     (if from_master \<and> ag_level grant > AccessLevel_None then Inr grant
      else if from_master \<and> shv_path = DIR_BROKER_APP then Inr (AccessGrant_make (Some AccessLevel_Write) [])
      else bind_e (if from_master then Inr [ROLE_MASTER_BROKER] else role_roots d user_name) (\<lambda>roots.
        if shv_path = BROKER_CURRENT_CLIENT_SHV_PATH then Inr (AccessGrant_make (Some AccessLevel_Write) [])
        else search_spec d shv_path meth (flatten (fst d) roots)))"

lemma flattenRole_implements: "implements (AclManager_flattenRole role) (\<lambda>d. Inr (flatten (fst d) [role]))"
  using flatten_implements [OF _ key_roots_cases(1)]
  by (intro implementsI) (simp add: AclManager_flattenRole_def defs_def)

theorem accessGrant_implements:
  assumes "plain_name user_name"
  shows "implements (AclManager_accessGrantForShvPath user_name shv_path meth from_master grant)
    (\<lambda>d. grant_spec d user_name shv_path meth from_master grant)"
proof -
  have tail: "implements (if shv_path = BROKER_CURRENT_CLIENT_SHV_PATH then ret_m (AccessGrant_make (Some AccessLevel_Write) [])
        else search_rules shv_path meth roles)
      (\<lambda>d. if shv_path = BROKER_CURRENT_CLIENT_SHV_PATH then Inr (AccessGrant_make (Some AccessLevel_Write) [])
        else search_spec d shv_path meth roles)" for roles
    by (simp add: implements_ret search_rules_implements)
  have head: "implements (if from_master then AclManager_flattenRole ROLE_MASTER_BROKER else client_roles user_name)
      (\<lambda>d. map_sum id (flatten (fst d)) (if from_master then Inr [ROLE_MASTER_BROKER] else role_roots d user_name))"
    using flattenRole_implements client_roles_implements [OF assms] by (cases from_master) simp_all
  have "implements (bind_m (if from_master then AclManager_flattenRole ROLE_MASTER_BROKER else client_roles user_name)
      (\<lambda>roles. if shv_path = BROKER_CURRENT_CLIENT_SHV_PATH then ret_m (AccessGrant_make (Some AccessLevel_Write) [])
        else search_rules shv_path meth roles))
      (\<lambda>d. bind_e (map_sum id (flatten (fst d)) (if from_master then Inr [ROLE_MASTER_BROKER] else role_roots d user_name)) (\<lambda>roles.
        if shv_path = BROKER_CURRENT_CLIENT_SHV_PATH then Inr (AccessGrant_make (Some AccessLevel_Write) [])
        else search_spec d shv_path meth roles))"
    by (rule implements_bind [OF head]) (rule implementsD [OF tail])
  moreover have bind_map: "bind_e (map_sum id f x) g = bind_e x (\<lambda>y. g (f y))" for f g and x :: "exn + string list"
    by (cases x) simp_all
  ultimately have main: "implements (bind_m (if from_master then AclManager_flattenRole ROLE_MASTER_BROKER else client_roles user_name)
      (\<lambda>roles. if shv_path = BROKER_CURRENT_CLIENT_SHV_PATH then ret_m (AccessGrant_make (Some AccessLevel_Write) [])
        else search_rules shv_path meth roles))
      (\<lambda>d. bind_e (if from_master then Inr [ROLE_MASTER_BROKER] else role_roots d user_name) (\<lambda>roots.
        if shv_path = BROKER_CURRENT_CLIENT_SHV_PATH then Inr (AccessGrant_make (Some AccessLevel_Write) [])
        else search_spec d shv_path meth (flatten (fst d) roots)))"
    by (simp only: bind_map)
  show ?thesis
  proof (cases "from_master \<and> (ag_level grant > AccessLevel_None \<or> shv_path = DIR_BROKER_APP)")
    case True
    then show ?thesis by (auto simp: AclManager_accessGrantForShvPath_def grant_spec_def implements_ret)
  next
    case False
    then have special: "\<not> (from_master \<and> ag_level grant > AccessLevel_None)" "\<not> (from_master \<and> shv_path = DIR_BROKER_APP)" by auto
    show ?thesis
      unfolding AclManager_accessGrantForShvPath_def grant_spec_def if_not_P [OF special(1)] if_not_P [OF special(2)] by (rule main)
  qed
qed

section \<open>The operations keep the manager in order\<close>

lemma profile_loop_keeps: "\<exists>spec. implements (profile_loop ret rns) spec"
proof (induction rns arbitrary: ret)
  case Nil
  show ?case unfolding profile_loop.simps by (rule exI) (rule implements_ret)
next
  case (Cons rn rns)
  then obtain t where t: "\<And>ret. implements (profile_loop ret rns) (t ret)" by metis
  show ?case unfolding profile_loop.simps by (rule exI) (rule role_table.look_then [OF t])
qed

lemma fresh_manager_ok:
  "roles_fine sc \<Longrightarrow> manager_ok \<lparr>am_source = sc, am_mounts = [], am_users = [], am_roles = [], am_rules = [], am_flat = [],
     am_azure = azure, am_ldap = ldap\<rparr>"
  by (simp add: manager_ok_def table_ok_def)

lemma clearCache_ok: "roles_fine (am_source st) \<Longrightarrow> manager_ok (AclManager_reload st)"
  by (simp add: manager_ok_def table_ok_def AclManager_reload_def clearCache_def)

text \<open>
  A setter leaves the manager in order, if its virtual function touches only the kind of definition
  it is for: everything else that was derived from that kind is dropped with it.
\<close>

lemma setUser_ok:
  assumes "manager_ok st" "AclManager_setUser store st = (Inr (), st')" "store (am_source st) = Inr sc"
    and "sc_mounts sc = sc_mounts (am_source st)" "sc_roles sc = sc_roles (am_source st)" "sc_rules sc = sc_rules (am_source st)"
  shows "manager_ok st' \<and> am_source st' = sc"
proof -
  have "aclRole sc = aclRole (am_source st)" by (rule ext) (simp add: aclRole_def assms(5))
  then show ?thesis using assms by (auto simp: AclManager_setUser_def manager_ok_def roles_fine_def table_ok_def)
qed

lemma setRole_ok:
  assumes "manager_ok st" "AclManager_setRole store st = (Inr (), st')" "store (am_source st) = Inr sc" "roles_fine sc"
    and "sc_mounts sc = sc_mounts (am_source st)" "sc_users sc = sc_users (am_source st)" "sc_rules sc = sc_rules (am_source st)"
  shows "manager_ok st' \<and> am_source st' = sc"
  using assms by (auto simp: AclManager_setRole_def manager_ok_def table_ok_def)

lemma flatten_cong: "sc_roles sc = sc_roles sc' \<Longrightarrow> flatten sc = flatten sc'"
proof -
  assume eq: "sc_roles sc = sc_roles sc'"
  have "aclRole sc x = aclRole sc' x" for x by (simp add: aclRole_def eq)
  then have "flatten_loop sc flat q = flatten_loop sc' flat q" for flat q
    by (induction sc flat q rule: flatten_loop.induct) (auto split: sum.splits)
  then show ?thesis by (simp add: fun_eq_iff flatten_def)
qed

lemma setRules_mounts_ok:
  assumes "manager_ok st" "sc_roles sc = sc_roles (am_source st)" "sc_users sc = sc_users (am_source st)"
  shows "store (am_source st) = Inr sc \<Longrightarrow> sc_mounts sc = sc_mounts (am_source st) \<Longrightarrow>
      AclManager_setAccessRoleRules store st = (Inr (), st') \<Longrightarrow> manager_ok st' \<and> am_source st' = sc"
    and "store (am_source st) = Inr sc \<Longrightarrow> sc_rules sc = sc_rules (am_source st) \<Longrightarrow>
      AclManager_setMountDef store st = (Inr (), st') \<Longrightarrow> manager_ok st' \<and> am_source st' = sc"
proof -
  have "aclRole sc = aclRole (am_source st)" by (rule ext) (simp add: aclRole_def assms(2))
  moreover have "key_roots (sc, a, l) k = key_roots (am_source st, a, l) k" for a l k
    by (simp add: key_roots_def aclUser_def assms(3))
  moreover note flatten_cong [OF assms(2)]
  ultimately show "store (am_source st) = Inr sc \<Longrightarrow> sc_mounts sc = sc_mounts (am_source st) \<Longrightarrow>
      AclManager_setAccessRoleRules store st = (Inr (), st') \<Longrightarrow> manager_ok st' \<and> am_source st' = sc"
    and "store (am_source st) = Inr sc \<Longrightarrow> sc_rules sc = sc_rules (am_source st) \<Longrightarrow>
      AclManager_setMountDef store st = (Inr (), st') \<Longrightarrow> manager_ok st' \<and> am_source st' = sc"
    using assms by (auto simp: AclManager_setAccessRoleRules_def AclManager_setMountDef_def manager_ok_def roles_fine_def
        table_ok_def [of _ _ "[]"] defs_def)
qed

lemma setGroup_ok:
  assumes "manager_ok st"
  shows "manager_ok (AclManager_setGroupForAzureUser u groups st)" "manager_ok (AclManager_setGroupForLdapUser u groups st)"
proof -
  have mono: "map_find m k = Some v \<Longrightarrow> map_find (map_emplace u groups m) k = Some v" for m k and v :: "string list"
    by (auto simp: map_emplace_def map_find_set split: option.splits)
  have "key_roots (sc, azure, ldap) k = Some r \<Longrightarrow> key_roots (sc, map_emplace u groups azure, ldap) k = Some r"
    "key_roots (sc, azure, ldap) k = Some r \<Longrightarrow> key_roots (sc, azure, map_emplace u groups ldap) k = Some r" for sc azure ldap k r
    by (auto simp: key_roots_def mono split: if_splits)
  then show "manager_ok (AclManager_setGroupForAzureUser u groups st)" "manager_ok (AclManager_setGroupForLdapUser u groups st)"
    using assms unfolding manager_ok_def AclManager_setGroupForAzureUser_def AclManager_setGroupForLdapUser_def defs_def
    by (auto 4 3)
qed

text \<open>The groups of an external user stay those of the first login.\<close>

lemma azure_groups_kept:
  "map_find (am_azure st) u = Some groups \<Longrightarrow> AclManager_setGroupForAzureUser u groups' st = st"
  by (simp add: AclManager_setGroupForAzureUser_def map_emplace_def)

section \<open>Configuration files\<close>

lemma find_config_table:
  "map_find (config_table f cfg) k = (if map_find (RpcValue_asMap cfg) k = None then None else Some (f cfg k))"
proof -
  have "map_of (map (\<lambda>k. (k, f cfg k)) ks) k = (if k \<in> set ks then Some (f cfg k) else None)" for ks
    by (induction ks) auto
  then show ?thesis using find_keys [of k "RpcValue_asMap cfg"] by (simp add: config_table_def map_find_def)
qed

text \<open>The definitions in the files: a name that is missing reads as the default.\<close>

lemmas config_defs = config_source_def find_or_def find_config_table RpcMap_value_def type_test_defs

lemma config_aclUser:
  "aclUser (config_source cfg) n = map_sum id (\<lambda>c. ConfigFiles_aclUser c n) (cfg FILE_ACL_USERS)"
  by (cases "cfg FILE_ACL_USERS")
     (simp_all add: aclUser_def ConfigFiles_aclUser_def AclUser_fromRpcValue_def config_defs split: option.splits)

lemma config_aclMountDef:
  "aclMountDef (config_source cfg) n = map_sum id (\<lambda>c. ConfigFiles_aclMountDef c n) (cfg FILE_ACL_MOUNTS)"
  by (cases "cfg FILE_ACL_MOUNTS")
     (simp_all add: aclMountDef_def ConfigFiles_aclMountDef_def AclMountDef_fromRpcValue_def config_defs split: option.splits)

lemma config_aclAccessRoleRules:
  "aclAccessRoleRules (config_source cfg) n = map_sum id (\<lambda>c. ConfigFiles_aclAccessRoleRules c n) (cfg FILE_ACL_ACCESS)"
  by (cases "cfg FILE_ACL_ACCESS")
     (simp_all add: aclAccessRoleRules_def ConfigFiles_aclAccessRoleRules_def AclRoleAccessRules_fromRpcValue_def config_defs
       split: option.splits)

lemma config_aclRole:
  "aclRole (config_source cfg) n = bind_e (cfg FILE_ACL_ROLES) (\<lambda>c. ConfigFiles_aclRole c n)"
  by (cases "cfg FILE_ACL_ROLES")
     (simp_all add: aclRole_def ConfigFiles_aclRole_def AclRole_fromRpcValue_def config_defs split: option.splits)

text \<open>A file that was read once is not read again.\<close>

lemma aclConfig_cached:
  assumes "AclManagerConfigFiles_aclConfig load n files = (Inr c, files')"
  shows "AclManagerConfigFiles_aclConfig load' n files' = (Inr c, files')"
  using assms
  by (auto simp: AclManagerConfigFiles_aclConfig_def Let_def RpcMap_value_def map_find_set split: if_splits sum.splits option.splits)

end
