(* ===== verification/Broker_Login.thy ===== *)
theory Broker_Login
  imports Acl_Manager Rpc_Exchange
begin

text \<open>
  Logging in: the parameters a client sends (\<open>libshviotqt/src/rpc/clientconnection.cpp\<close>,
  \<open>createLoginParams\<close>), the login phase of a connection on the broker (\<open>libshvbroker/src/rpc/serverconnection.cpp\<close>,
  \<open>clientconnectiononbroker.cpp\<close>), and the check of the password (\<open>AclManager::checkPassword\<close>).  The SHA-1
  digest in hexadecimal is a parameter \<open>sha1Hex\<close>.
\<close>

section \<open>The client\<close>

record client_login =
  cl_loginType :: login_type
  cl_user :: string
  cl_password :: string
  cl_options :: rpc_map
  cl_userAgent :: string
  cl_token :: "string option"

definition login_params :: "client_login \<Rightarrow> string \<Rightarrow> string \<Rightarrow> rpc_value" where
  "login_params cl user_name pass =
     (let connection_options = map_emplace ''userAgent'' (rpc (VString (cl_userAgent cl))) (cl_options cl);
          key = (if cl_loginType cl = LT_Token then ''token'' else ''password'');
          login = map_set ''type'' (rpc (VString (UserLogin_loginTypeToString (cl_loginType cl))))
            (map_set key (rpc (VString pass)) (map_set ''user'' (rpc (VString user_name)) []))
      in rpc (VMap (map_set ''options'' (rpc (VMap connection_options)) (map_set ''login'' (rpc (VMap login)) []))))"

text \<open>A password that looks like a digest is taken for one.\<close>

definition client_digest :: "(string \<Rightarrow> string) \<Rightarrow> string \<Rightarrow> string" where
  "client_digest sha1Hex pwd = (if is_sha1_hex pwd then pwd else sha1Hex pwd)"

text \<open>
  \<open>cl_token\<close> is the token of an OAuth dialogue that has been finished, or what the callback delivers;
  without either, a login with a token throws.
\<close>

definition ClientConnection_createLoginParams :: "(string \<Rightarrow> string) \<Rightarrow> client_login \<Rightarrow> rpc_value \<Rightarrow> exn + rpc_value" where
  "ClientConnection_createLoginParams sha1Hex cl server_hello =
     (if cl_loginType cl = LT_AzureAccessToken \<or> cl_loginType cl = LT_Token then
        (case cl_token cl of
           Some token \<Rightarrow> Inr (login_params cl [] token)
         | None \<Rightarrow> Inl (RuntimeError ''Can't do token login without setting a token login callback''))
      else
        (let server_nonce = RpcValue_toString (RpcMap_value (RpcValue_asMap server_hello) ''nonce'' invalid_value);
             pass = (if cl_loginType cl = LT_Sha1 then sha1Hex (server_nonce @ client_digest sha1Hex (cl_password cl))
                     else if cl_loginType cl = LT_Plain then cl_password cl
                     else [])
         in Inr (login_params cl (cl_user cl) pass)))"

section \<open>The check of the password\<close>

record user_login_context =
  ulc_serverNounce :: "string option"
  ulc_loginRequest :: rpc_message
  ulc_connectionId :: int

definition KEY_LOGIN :: string where "KEY_LOGIN = ''login''"
definition KEY_OPTIONS :: string where "KEY_OPTIONS = ''options''"
definition KEY_TUNNEL :: string where "KEY_TUNNEL = ''tunnel''"
definition KEY_SECRET :: string where "KEY_SECRET = ''secret''"
definition METH_HELLO :: string where "METH_HELLO = ''hello''"
definition METH_LOGIN :: string where "METH_LOGIN = KEY_LOGIN"
definition METH_WORKFLOWS :: string where "METH_WORKFLOWS = ''workflows''"

definition UserLoginContext_loginParams :: "user_login_context \<Rightarrow> rpc_map" where
  "UserLoginContext_loginParams ctx = RpcValue_asMap (RpcRequest_params (ulc_loginRequest ctx))"

definition UserLoginContext_userLogin :: "user_login \<Rightarrow> user_login_context \<Rightarrow> user_login" where
  "UserLoginContext_userLogin fresh ctx =
     UserLogin_fromRpcValue fresh (RpcMap_value (UserLoginContext_loginParams ctx) KEY_LOGIN invalid_value)"

definition login_ok :: user_login_result where "login_ok = UserLoginResult_make True []"
definition login_failed :: "string \<Rightarrow> user_login_result" where "login_failed = UserLoginResult_make False"

definition AclManager_checkPassword ::
  "(string \<Rightarrow> string) \<Rightarrow> user_login \<Rightarrow> user_login_context \<Rightarrow> user_login_result acl_m" where
  "AclManager_checkPassword sha1Hex fresh ctx =
     (let login = UserLoginContext_userLogin fresh ctx
      in bind_m (AclManager_user (ul_user login)) (\<lambda>acl_user. ret_m
           (if \<not> AclUser_isValid acl_user then login_failed ''Invalid user name.''
            else if apw_password (au_password acl_user) = [] then login_failed ''Empty password not allowed.''
            else
              (let acl_pwd = au_password acl_user;
                   usr_login_type = (if ul_loginType login = LT_Invalid then LT_Sha1 else ul_loginType login);
                   usr_pwd = ul_password login
               in if usr_login_type = LT_Plain \<and> apw_format acl_pwd = PF_Plain then
                    (if apw_password acl_pwd = usr_pwd then login_ok else login_failed ''Invalid password.'')
                  else if usr_login_type = LT_Plain \<and> apw_format acl_pwd = PF_Sha1 then
                    (if apw_password acl_pwd = sha1Hex usr_pwd then login_ok else login_failed ''Invalid password.'')
                  else if usr_login_type = LT_Sha1 then
                    (case ulc_serverNounce ctx of
                       None \<Rightarrow> login_failed ''Can't use SHA1 login without using `:hello` first''
                     | Some nonce \<Rightarrow>
                         (let password = (if apw_format acl_pwd = PF_Plain then sha1Hex (apw_password acl_pwd) else apw_password acl_pwd)
                          in if usr_pwd = sha1Hex (nonce @ password) then login_ok else login_failed ''Invalid password.''))
                  else login_failed ''Invalid login type.''))))"

text \<open>
  \<open>BrokerApp::checkLogin\<close>: tokens go to Azure, users that the manager does not know to LDAP; what these
  services answer comes back as a later event.
\<close>

datatype login_check = Decided user_login_result | AskAzure user_login | AskLdap user_login_context

definition AZURE_TOKEN_PREFIX :: string where "AZURE_TOKEN_PREFIX = ''oauth2-azure:''"

definition BrokerApp_checkLogin ::
  "(string \<Rightarrow> string) \<Rightarrow> user_login \<Rightarrow> bool \<Rightarrow> bool \<Rightarrow> user_login_context \<Rightarrow> login_check acl_m" where
  "BrokerApp_checkLogin sha1Hex fresh azureConfig ldapConfig ctx =
     (let login = UserLoginContext_userLogin fresh ctx;
          azure_token = ul_loginType login = LT_Token \<and> prefix AZURE_TOKEN_PREFIX (ul_password login);
          user_login = (if azure_token
            then login\<lparr>ul_loginType := LT_AzureAccessToken, ul_password := drop (length AZURE_TOKEN_PREFIX) (ul_password login)\<rparr>
            else login)
      in if ul_loginType login = LT_Token \<and> \<not> azure_token
         then ret_m (Decided (login_failed (''Unsupported token: '' @ [CHR 0x27] @ ul_password login @ [CHR 0x27])))
         else if ul_loginType user_login = LT_AzureAccessToken \<and> azureConfig then ret_m (AskAzure user_login)
         else bind_m (AclManager_checkPassword sha1Hex fresh ctx) (\<lambda>result.
           bind_m (AclManager_user (ul_user user_login)) (\<lambda>u.
             if AclUser_isValid u then ret_m (Decided result)
             else if ldapConfig \<and> ul_loginType user_login = LT_Plain then ret_m (AskLdap ctx)
             else ret_m (Decided (if ldapConfig
               then result\<lparr>ulr_loginError := ulr_loginError result @
                 '' Authentication over LDAP requires sending a plaintext password. Please use an SSL connection.''\<rparr>
               else result)))))"

section \<open>The login phase of a connection\<close>

record server_connection =
  sv_connectionId :: int
  sv_connectionName :: string
  sv_loginReceived :: bool
  sv_loginOk :: bool
  sv_context :: user_login_context
  sv_userLogin :: user_login
  sv_options :: rpc_value

datatype server_action =
    SendResponse rpc_value rpc_value
  | SendError rpc_value
  | SendRpcMessage rpc_message
  | CheckLogin user_login_context
  | ScheduleAbort
  | ScheduleClose
  | ClientLoggedIn
  | ToBroker rpc_message

definition ServerConnection_isLoginPhase :: "server_connection \<Rightarrow> bool" where
  "ServerConnection_isLoginPhase c \<longleftrightarrow> \<not> sv_loginOk c"

definition ServerConnection_isSlaveBrokerConnection :: "server_connection \<Rightarrow> bool" where
  "ServerConnection_isSlaveBrokerConnection c \<longleftrightarrow> RpcMap_hasKey (RpcValue_asMap (sv_options c)) ''broker''"

definition ServerConnection_setLoginResult :: "user_login_result \<Rightarrow> server_connection \<Rightarrow> server_action list \<times> server_connection" where
  "ServerConnection_setLoginResult result c =
     (let resp = RpcResponse_forRequest (RpcMessage_metaData (ulc_loginRequest (sv_context c)));
          resp = (if ulr_passwordOk result then RpcResponse_setResult (UserLoginResult_toRpcValue result) resp
                  else RpcResponse_setError (RpcError_createMethodCallExceptionError
                    (''Invalid authentication for user: '' @ ul_user (sv_userLogin c) @ '' reason: '' @ ulr_loginError result @
                     '' at: '' @ sv_connectionName c)) resp)
      in ([SendRpcMessage resp], c\<lparr>sv_loginOk := ulr_passwordOk result\<rparr>))"

definition ClientConnectionOnBroker_setLoginResult ::
  "user_login_result \<Rightarrow> server_connection \<Rightarrow> server_action list \<times> server_connection" where
  "ClientConnectionOnBroker_setLoginResult result c =
     (let login_result = result\<lparr>ulr_clientId := sv_connectionId c\<rparr>
      in case ServerConnection_setLoginResult login_result c of
           (acts, c) \<Rightarrow> (acts @ [if ulr_passwordOk login_result then ClientLoggedIn else ScheduleClose], c))"

text \<open>
  The login request of a client on the broker: a tunnel is let in by its secret, everybody else is
  handed to \<open>checkLogin\<close>, which answers later.  The watch dog timer is left out.
\<close>

definition ClientConnectionOnBroker_processLoginPhase ::
  "(string \<Rightarrow> bool) \<Rightarrow> server_connection \<Rightarrow> server_action list \<times> server_connection" where
  "ClientConnectionOnBroker_processLoginPhase checkTunnelSecret c =
     (let tunnelOptions = RpcMap_value (RpcValue_asMap (sv_options c)) KEY_TUNNEL invalid_value
      in if RpcValue_isMap tunnelOptions then
           ClientConnectionOnBroker_setLoginResult (UserLoginResult_make
             (checkTunnelSecret (RpcValue_asString (RpcMap_valref (RpcValue_asMap tunnelOptions) KEY_SECRET))) []) c
         else
           ([CheckLogin (sv_context c)],
            c\<lparr>sv_userLogin := UserLoginContext_userLogin (sv_userLogin c) (sv_context c)\<rparr>))"

definition ServerConnection_processLoginPhase ::
  "string \<Rightarrow> (string \<Rightarrow> bool) \<Rightarrow> rpc_value \<Rightarrow> rpc_message \<Rightarrow> server_connection \<Rightarrow> server_action list \<times> server_connection" where
  "ServerConnection_processLoginPhase nonce checkTunnelSecret workflows msg c =
     (let rqid = RpcMessage_requestId msg; meth = RpcValue_asString (RpcMessage_method msg)
      in if \<not> RpcMessage_isRequest msg then ([SendError rqid, ScheduleAbort], c)
         else if \<not> sv_loginReceived c \<and> meth = METH_HELLO then
           ([SendResponse rqid (rpc (VMap [(''nonce'', rpc (VString nonce))]))],
            c\<lparr>sv_context := (sv_context c)\<lparr>ulc_serverNounce := Some nonce\<rparr>\<rparr>)
         else if \<not> sv_loginReceived c \<and> meth = METH_WORKFLOWS then ([SendResponse rqid workflows], c)
         else if \<not> sv_loginReceived c \<and> meth = METH_LOGIN then
           ClientConnectionOnBroker_processLoginPhase checkTunnelSecret
             (c\<lparr>sv_loginReceived := True,
                sv_context := (sv_context c)\<lparr>ulc_loginRequest := msg, ulc_connectionId := sv_connectionId c\<rparr>,
                sv_options := RpcMap_value (RpcValue_asMap (RpcRequest_params msg)) KEY_OPTIONS invalid_value\<rparr>)
         else ([ScheduleAbort], c))"

definition ClientConnectionOnBroker_onRpcFrameReceived ::
  "string \<Rightarrow> (string \<Rightarrow> bool) \<Rightarrow> rpc_value \<Rightarrow> rpc_message \<Rightarrow> server_connection \<Rightarrow> server_action list \<times> server_connection" where
  "ClientConnectionOnBroker_onRpcFrameReceived nonce checkTunnelSecret workflows msg c =
     (if ServerConnection_isLoginPhase c then ServerConnection_processLoginPhase nonce checkTunnelSecret workflows msg c
      else ([ToBroker msg], c))"

text \<open>The function that is called with the outcome of \<open>checkLogin\<close>: a name that Azure or LDAP found replaces the one the client gave.\<close>

definition login_decided :: "user_login_result \<Rightarrow> server_connection \<Rightarrow> server_action list \<times> server_connection" where
  "login_decided result c =
     ClientConnectionOnBroker_setLoginResult result
       (case ulr_userNameOverride result of None \<Rightarrow> c | Some u \<Rightarrow> c\<lparr>sv_userLogin := (sv_userLogin c)\<lparr>ul_user := u\<rparr>\<rparr>)"

section \<open>Who is let in\<close>

lemmas login_lookup = login_params_def UserLoginContext_userLogin_def UserLoginContext_loginParams_def UserLogin_fromRpcValue_def
  RpcValue_asMap_def RpcMap_value_def type_test_defs RpcValue_toString_def RpcValue_asString_def KEY_LOGIN_def std_map_simps

text \<open>What the server reads of the parameters a client has made.\<close>

lemma client_login_read:
  assumes "RpcRequest_params (ulc_loginRequest ctx) = login_params cl user pass" "cl_loginType cl \<in> {LT_Plain, LT_Sha1}"
  shows "UserLoginContext_userLogin fresh ctx = \<lparr>ul_user = user, ul_password = pass, ul_loginType = cl_loginType cl\<rparr>"
proof -
  have t: "UserLogin_loginTypeToString (cl_loginType cl) \<noteq> []"
    "UserLogin_loginTypeFromString (UserLogin_loginTypeToString (cl_loginType cl)) = cl_loginType cl" "cl_loginType cl \<noteq> LT_Token"
    using assms(2) by (auto simp: UserLogin_loginTypeToString_def UserLogin_loginTypeFromString_def toupper_def)
  show ?thesis using t by (simp add: login_lookup assms(1) Let_def)
qed

text \<open>The digest the server keeps of a password.\<close>

definition stored_digest :: "(string \<Rightarrow> string) \<Rightarrow> acl_password \<Rightarrow> string" where
  "stored_digest sha1Hex p = (if apw_format p = PF_Plain then sha1Hex (apw_password p) else apw_password p)"

lemma sha1_login_decides:
  assumes st: "manager_ok st" "aclUser (am_source st) (cl_user cl) = Inr u" "AclUser_isValid u" "apw_password (au_password u) \<noteq> []"
    and cl: "cl_loginType cl = LT_Sha1" "server_hello = rpc (VMap [(''nonce'', rpc (VString nonce))])"
      "ClientConnection_createLoginParams sha1Hex cl server_hello = Inr params"
    and ctx: "RpcRequest_params (ulc_loginRequest ctx) = params" "ulc_serverNounce ctx = Some nonce"
  shows "\<exists>res st'. AclManager_checkPassword sha1Hex fresh ctx st = (Inr res, st') \<and>
    (ulr_passwordOk res \<longleftrightarrow>
       sha1Hex (nonce @ client_digest sha1Hex (cl_password cl)) = sha1Hex (nonce @ stored_digest sha1Hex (au_password u)))"
proof -
  have params: "params = login_params cl (cl_user cl) (sha1Hex (nonce @ client_digest sha1Hex (cl_password cl)))"
    using cl by (auto simp: ClientConnection_createLoginParams_def RpcValue_asMap_def RpcMap_value_def RpcValue_toString_def
        RpcValue_asString_def type_test_defs Let_def map_find_def)
  have read: "UserLoginContext_userLogin fresh ctx =
      \<lparr>ul_user = cl_user cl, ul_password = sha1Hex (nonce @ client_digest sha1Hex (cl_password cl)), ul_loginType = LT_Sha1\<rparr>"
    using client_login_read [of ctx cl] ctx(1) cl(1) by (simp add: params)
  obtain st' where "AclManager_user (cl_user cl) st = (Inr u, st')"
    using user_table.look_st [OF st(1), of "cl_user cl"] st(2) by (auto simp: defs_def)
  then show ?thesis using st(3,4) ctx(2)
    by (auto simp: AclManager_checkPassword_def read bind_m_def ret_m_def stored_digest_def login_ok_def login_failed_def
        UserLoginResult_make_def Let_def)
qed

text \<open>What proves that the client of a login knows the password of the user it names.\<close>

definition knows_password :: "(string \<Rightarrow> string) \<Rightarrow> user_login \<Rightarrow> acl_source \<Rightarrow> user_login_context \<Rightarrow> bool" where
  "knows_password sha1Hex fresh sc ctx \<longleftrightarrow>
     (let login = UserLoginContext_userLogin fresh ctx
      in \<exists>u. aclUser sc (ul_user login) = Inr u \<and> AclUser_isValid u \<and> apw_password (au_password u) \<noteq> [] \<and>
        (let pw = au_password u
         in ul_loginType login = LT_Plain \<and> (apw_format pw = PF_Plain \<and> ul_password login = apw_password pw \<or>
              apw_format pw = PF_Sha1 \<and> sha1Hex (ul_password login) = apw_password pw) \<or>
            ul_loginType login \<in> {LT_Sha1, LT_Invalid} \<and>
              (\<exists>nonce. ulc_serverNounce ctx = Some nonce \<and> ul_password login = sha1Hex (nonce @ stored_digest sha1Hex pw))))"

lemma checkPassword_needs_password:
  assumes st: "manager_ok st" and res: "AclManager_checkPassword sha1Hex fresh ctx st = (Inr res, st')" "ulr_passwordOk res"
  shows "knows_password sha1Hex fresh (am_source st) ctx \<and> ulr_userNameOverride res = None"
proof -
  let ?login = "UserLoginContext_userLogin fresh ctx"
  obtain st1 where look: "AclManager_user (ul_user ?login) st = (aclUser (am_source st) (ul_user ?login), st1)"
    using user_table.look_st [OF st, of "ul_user ?login"] by (auto simp: defs_def)
  show ?thesis
  proof (cases "aclUser (am_source st) (ul_user ?login)")
    case (Inr u)
    then show ?thesis using res look
      by (auto simp: AclManager_checkPassword_def bind_m_def ret_m_def stored_digest_def login_ok_def login_failed_def
          UserLoginResult_make_def Let_def knows_password_def split: if_splits option.splits)
  qed (use res look in \<open>auto simp: AclManager_checkPassword_def bind_m_def Let_def\<close>)
qed

lemma checkLogin_needs_password:
  assumes st: "manager_ok st" and res: "BrokerApp_checkLogin sha1Hex fresh azure ldap ctx st = (Inr (Decided res), st')" "ulr_passwordOk res"
  shows "knows_password sha1Hex fresh (am_source st) ctx \<and> ulr_userNameOverride res = None"
proof -
  obtain r st1 where "AclManager_checkPassword sha1Hex fresh ctx st = (Inr r, st1)" "ulr_passwordOk r"
      "ulr_userNameOverride res = ulr_userNameOverride r"
    using res by (auto simp: BrokerApp_checkLogin_def Let_def bind_m_def ret_m_def login_failed_def UserLoginResult_make_def
        split: if_splits sum.splits prod.splits)
  then show ?thesis using checkPassword_needs_password [OF st] by auto
qed

section \<open>Nothing passes before a login\<close>

text \<open>
  The runs of a connection.  \<open>login\<close> is what an empty \<open>UserLogin\<close> holds.  An event is a frame that came in, with
  the tunnel secrets that were good at that time, or the end of a check that was started: by the manager of the access
  rules, in the state it had then, or by Azure or LDAP, whose answer is an input.  A check ends once.
\<close>

datatype login_event =
    FrameIn "string \<Rightarrow> bool" rpc_message
  | Checked acl_manager user_login_context
  | Asked user_login_context user_login_result

primrec ends_check :: "login_event \<Rightarrow> bool" where
  "ends_check (FrameIn secrets msg) = False"
| "ends_check (Checked st ctx) = True"
| "ends_check (Asked ctx result) = True"

definition fresh_connection :: "int \<Rightarrow> string \<Rightarrow> user_login \<Rightarrow> rpc_message \<Rightarrow> server_connection" where
  "fresh_connection i name login no_request =
     \<lparr>sv_connectionId = i, sv_connectionName = name, sv_loginReceived = False, sv_loginOk = False,
      sv_context = \<lparr>ulc_serverNounce = None, ulc_loginRequest = no_request, ulc_connectionId = 0\<rparr>,
      sv_userLogin = login, sv_options = invalid_value\<rparr>"

inductive connection_run ::
    "(string \<Rightarrow> string) \<Rightarrow> user_login \<Rightarrow> server_connection \<Rightarrow> server_action list \<Rightarrow> login_event list \<Rightarrow> bool" for sha1Hex login where
  run_start: "connection_run sha1Hex login (fresh_connection i name login no_request) [] []"
| run_frame: "connection_run sha1Hex login c acts evs \<Longrightarrow>
    ClientConnectionOnBroker_onRpcFrameReceived nonce checkTunnelSecret workflows msg c = (acts', c') \<Longrightarrow>
    connection_run sha1Hex login c' (acts @ acts') (evs @ [FrameIn checkTunnelSecret msg])"
| run_checked: "connection_run sha1Hex login c acts evs \<Longrightarrow> CheckLogin ctx \<in> set acts \<Longrightarrow> \<forall>e \<in> set evs. \<not> ends_check e \<Longrightarrow>
    manager_ok st \<Longrightarrow> BrokerApp_checkLogin sha1Hex login azure ldap ctx st = (Inr (Decided result), st') \<Longrightarrow>
    login_decided result c = (acts', c') \<Longrightarrow>
    connection_run sha1Hex login c' (acts @ acts') (evs @ [Checked st ctx])"
| run_asked: "connection_run sha1Hex login c acts evs \<Longrightarrow> CheckLogin ctx \<in> set acts \<Longrightarrow> \<forall>e \<in> set evs. \<not> ends_check e \<Longrightarrow>
    BrokerApp_checkLogin sha1Hex login azure ldap ctx st = (Inr ask, st') \<Longrightarrow> (\<nexists>res. ask = Decided res) \<Longrightarrow>
    login_decided result c = (acts', c') \<Longrightarrow>
    connection_run sha1Hex login c' (acts @ acts') (evs @ [Asked ctx result])"

definition checks :: "server_action list \<Rightarrow> nat" where
  "checks acts = length (filter (\<lambda>a. case a of CheckLogin _ \<Rightarrow> True | _ \<Rightarrow> False) acts)"

definition passes :: "server_action list \<Rightarrow> bool" where
  "passes acts \<longleftrightarrow> (\<exists>m. ToBroker m \<in> set acts)"

text \<open>
  What entitles a login, told from what came in and from the definitions of the users, not from what the connection did:
  the login request named a tunnel secret that was good when it came; or the client knew the password of the
  user; or the service that was asked said so.  The user it entitles is \<open>None\<close> for a tunnel.
\<close>

definition named_secret :: "rpc_message \<Rightarrow> string option" where
  "named_secret rq =
     (let options = RpcMap_value (RpcValue_asMap (RpcRequest_params rq)) KEY_OPTIONS invalid_value;
          tunnel = RpcMap_value (RpcValue_asMap options) KEY_TUNNEL invalid_value
      in if RpcValue_isMap tunnel then Some (RpcValue_asString (RpcMap_valref (RpcValue_asMap tunnel) KEY_SECRET)) else None)"

definition entitles :: "(string \<Rightarrow> string) \<Rightarrow> user_login \<Rightarrow> login_event \<Rightarrow> rpc_message \<Rightarrow> string option \<Rightarrow> bool" where
  "entitles sha1Hex login ev rq user \<longleftrightarrow>
     (case ev of
        FrameIn secrets msg \<Rightarrow> msg = rq \<and> user = None \<and> RpcMessage_isRequest rq \<and> RpcValue_asString (RpcMessage_method rq) = METH_LOGIN \<and>
          (\<exists>s. named_secret rq = Some s \<and> secrets s)
      | Checked st ctx \<Rightarrow> ulc_loginRequest ctx = rq \<and> user = Some (ul_user (UserLoginContext_userLogin login ctx)) \<and>
          knows_password sha1Hex login (am_source st) ctx
      | Asked ctx result \<Rightarrow> ulc_loginRequest ctx = rq \<and> ulr_passwordOk result \<and>
          user = Some (case ulr_userNameOverride result of None \<Rightarrow> ul_user (UserLoginContext_userLogin login ctx) | Some u \<Rightarrow> u))"

lemma acts_simps [simp]:
  "checks [] = 0" "checks (a # acts) = (case a of CheckLogin _ \<Rightarrow> 1 | _ \<Rightarrow> 0) + checks acts" "checks (acts @ acts') = checks acts + checks acts'"
  "passes [] = False" "passes (a # acts) = ((case a of ToBroker _ \<Rightarrow> True | _ \<Rightarrow> False) \<or> passes acts)"
  "passes (acts @ acts') = (passes acts \<or> passes acts')"
  by (auto simp: checks_def passes_def split: server_action.splits)

lemma checks_pos: "0 < checks acts \<longleftrightarrow> (\<exists>ctx. CheckLogin ctx \<in> set acts)"
proof -
  have "(case a of CheckLogin _ \<Rightarrow> True | _ \<Rightarrow> False) \<longleftrightarrow> (\<exists>ctx. a = CheckLogin ctx)" for a by (cases a) auto
  then show ?thesis by (auto simp: checks_def filter_empty_conv)
qed

lemma setLoginResult_facts:
  assumes "ClientConnectionOnBroker_setLoginResult result c = (acts, c')"
  shows "c' = c\<lparr>sv_loginOk := ulr_passwordOk result\<rparr>" "checks acts = 0" "\<not> passes acts"
  using assms
  by (cases "ulr_passwordOk result";
      auto simp: ClientConnectionOnBroker_setLoginResult_def ServerConnection_setLoginResult_def Let_def)+

text \<open>A frame in the login phase: the login request is the only one that matters.\<close>

definition login_accepted :: "rpc_message \<Rightarrow> server_connection \<Rightarrow> bool" where
  "login_accepted msg c \<longleftrightarrow>
     \<not> sv_loginReceived c \<and> RpcMessage_isRequest msg \<and> RpcValue_asString (RpcMessage_method msg) = METH_LOGIN"

lemma login_phase_facts:
  assumes "ServerConnection_processLoginPhase nonce secrets workflows msg c = (acts, c')" "\<not> sv_loginOk c"
  shows "\<not> login_accepted msg c \<Longrightarrow> sv_loginOk c' = sv_loginOk c \<and> sv_loginReceived c' = sv_loginReceived c \<and>
      sv_userLogin c' = sv_userLogin c \<and> checks acts = 0 \<and> \<not> passes acts \<and> (sv_loginReceived c \<longrightarrow> sv_context c' = sv_context c)"
    and "login_accepted msg c \<Longrightarrow> sv_loginReceived c' \<and> ulc_loginRequest (sv_context c') = msg \<and> \<not> passes acts \<and>
      (case named_secret msg of
         Some s \<Rightarrow> (sv_loginOk c' \<longleftrightarrow> secrets s) \<and> checks acts = 0
       | None \<Rightarrow> \<not> sv_loginOk c' \<and> acts = [CheckLogin (sv_context c')] \<and>
           sv_userLogin c' = UserLoginContext_userLogin (sv_userLogin c) (sv_context c'))"
proof -
  show "sv_loginOk c' = sv_loginOk c \<and> sv_loginReceived c' = sv_loginReceived c \<and>
      sv_userLogin c' = sv_userLogin c \<and> checks acts = 0 \<and> \<not> passes acts \<and> (sv_loginReceived c \<longrightarrow> sv_context c' = sv_context c)"
    if "\<not> login_accepted msg c"
    using assms that by (auto simp: login_accepted_def ServerConnection_processLoginPhase_def Let_def split: if_splits)
  assume accepted: "login_accepted msg c"
  define c1 where "c1 = c\<lparr>sv_loginReceived := True,
      sv_context := (sv_context c)\<lparr>ulc_loginRequest := msg, ulc_connectionId := sv_connectionId c\<rparr>,
      sv_options := RpcMap_value (RpcValue_asMap (RpcRequest_params msg)) KEY_OPTIONS invalid_value\<rparr>"
  have "METH_LOGIN \<noteq> METH_HELLO" "METH_LOGIN \<noteq> METH_WORKFLOWS"
    by (simp_all add: METH_LOGIN_def METH_HELLO_def METH_WORKFLOWS_def KEY_LOGIN_def)
  then have phase: "ClientConnectionOnBroker_processLoginPhase secrets c1 = (acts, c')"
    using assms(1) accepted by (simp add: ServerConnection_processLoginPhase_def login_accepted_def c1_def Let_def)
  show "sv_loginReceived c' \<and> ulc_loginRequest (sv_context c') = msg \<and> \<not> passes acts \<and>
      (case named_secret msg of
         Some s \<Rightarrow> (sv_loginOk c' \<longleftrightarrow> secrets s) \<and> checks acts = 0
       | None \<Rightarrow> \<not> sv_loginOk c' \<and> acts = [CheckLogin (sv_context c')] \<and>
           sv_userLogin c' = UserLoginContext_userLogin (sv_userLogin c) (sv_context c'))"
  proof (cases "named_secret msg")
    case None
    then show ?thesis using phase assms(2)
      by (auto simp: ClientConnectionOnBroker_processLoginPhase_def named_secret_def Let_def c1_def split: if_splits)
  next
    case (Some s)
    then have "ClientConnectionOnBroker_setLoginResult (UserLoginResult_make (secrets s) []) c1 = (acts, c')"
      using phase by (auto simp: ClientConnectionOnBroker_processLoginPhase_def named_secret_def Let_def c1_def split: if_splits)
    from setLoginResult_facts [OF this] Some show ?thesis by (auto simp: c1_def UserLoginResult_make_def)
  qed
qed

text \<open>
  Whatever arrives, in whatever order: nothing goes to the broker before a login was entitled, and a connection
  gets one check of a password at most.
\<close>

definition entitled :: "(string \<Rightarrow> string) \<Rightarrow> user_login \<Rightarrow> server_connection \<Rightarrow> login_event list \<Rightarrow> bool" where
  "entitled sha1Hex login c evs \<longleftrightarrow>
     (\<exists>ev \<in> set evs. \<exists>user. entitles sha1Hex login ev (ulc_loginRequest (sv_context c)) user \<and>
        (case user of None \<Rightarrow> True | Some name \<Rightarrow> ul_user (sv_userLogin c) = name))"

definition run_ok :: "(string \<Rightarrow> string) \<Rightarrow> user_login \<Rightarrow> server_connection \<Rightarrow> server_action list \<Rightarrow> login_event list \<Rightarrow> bool" where
  "run_ok sha1Hex login c acts evs \<longleftrightarrow>
     (sv_loginOk c \<longrightarrow> sv_loginReceived c \<and> entitled sha1Hex login c evs) \<and> (passes acts \<longrightarrow> sv_loginOk c) \<and>
     (\<not> sv_loginReceived c \<longrightarrow> checks acts = 0 \<and> sv_userLogin c = login \<and> (\<forall>ev \<in> set evs. \<not> ends_check ev)) \<and>
     checks acts \<le> 1 \<and> (\<forall>ctx. CheckLogin ctx \<in> set acts \<longrightarrow> ctx = sv_context c) \<and>
     (0 < checks acts \<and> (\<forall>ev \<in> set evs. \<not> ends_check ev) \<longrightarrow>
        \<not> sv_loginOk c \<and> sv_userLogin c = UserLoginContext_userLogin login (sv_context c))"

lemma entitled_mono: "entitled sha1Hex login c evs \<Longrightarrow> entitled sha1Hex login c (evs @ evs')"
  by (auto simp: entitled_def)

lemma run_ok_frame:
  assumes ok: "run_ok sha1Hex login c acts evs"
    and step: "ClientConnectionOnBroker_onRpcFrameReceived nonce secrets workflows msg c = (acts', c')"
  shows "run_ok sha1Hex login c' (acts @ acts') (evs @ [FrameIn secrets msg])"
proof (cases "sv_loginOk c")
  case True
  then have "c' = c" "acts' = [ToBroker msg]"
    using step by (auto simp: ClientConnectionOnBroker_onRpcFrameReceived_def ServerConnection_isLoginPhase_def)
  then show ?thesis using True ok by (auto simp: run_ok_def entitled_mono)
next
  case False
  then have phase: "ServerConnection_processLoginPhase nonce secrets workflows msg c = (acts', c')"
    using step by (simp add: ClientConnectionOnBroker_onRpcFrameReceived_def ServerConnection_isLoginPhase_def)
  note facts = login_phase_facts [OF phase False]
  show ?thesis
  proof (cases "login_accepted msg c")
    case True
    then have before: "\<not> sv_loginReceived c" "checks acts = 0" "sv_userLogin c = login" "\<not> passes acts" "\<forall>ctx. CheckLogin ctx \<notin> set acts"
      using ok False checks_pos [of acts] by (auto simp: run_ok_def login_accepted_def)
    have "entitled sha1Hex login c' (evs @ [FrameIn secrets msg])" if "sv_loginOk c'"
      using facts(2) [OF True] True that
      by (auto simp: entitled_def entitles_def login_accepted_def split: option.splits intro!: bexI [of _ "FrameIn secrets msg"])
    then show ?thesis using facts(2) [OF True] before checks_pos [of acts'] by (auto simp: run_ok_def split: option.splits)
  next
    case no: False
    have "\<forall>ctx. CheckLogin ctx \<notin> set acts'" using facts(1) [OF no] checks_pos [of acts'] by auto
    moreover have "\<not> sv_loginReceived c \<Longrightarrow> \<forall>ctx. CheckLogin ctx \<notin> set acts" using ok checks_pos [of acts] by (auto simp: run_ok_def)
    ultimately show ?thesis using facts(1) [OF no] False ok by (auto simp: run_ok_def)
  qed
qed

lemma run_ok_decided:
  assumes ok: "run_ok sha1Hex login c acts evs" and check: "CheckLogin ctx \<in> set acts" "\<forall>ev \<in> set evs. \<not> ends_check ev"
    and step: "login_decided result c = (acts', c')" and ev: "ends_check ev"
    and entitles: "ulr_passwordOk result \<Longrightarrow> entitles sha1Hex login ev (ulc_loginRequest ctx)
      (Some (case ulr_userNameOverride result of None \<Rightarrow> ul_user (UserLoginContext_userLogin login ctx) | Some u \<Rightarrow> u))"
  shows "run_ok sha1Hex login c' (acts @ acts') (evs @ [ev])"
proof -
  have c: "ctx = sv_context c" "0 < checks acts" "\<not> sv_loginOk c" "sv_userLogin c = UserLoginContext_userLogin login ctx"
    "sv_loginReceived c" "\<not> passes acts" using ok check checks_pos [of acts] by (auto simp: run_ok_def)
  define c1 where "c1 = (case ulr_userNameOverride result of None \<Rightarrow> c | Some u \<Rightarrow> c\<lparr>sv_userLogin := (sv_userLogin c)\<lparr>ul_user := u\<rparr>\<rparr>)"
  have "ClientConnectionOnBroker_setLoginResult result c1 = (acts', c')" using step by (simp add: login_decided_def c1_def)
  note facts = setLoginResult_facts [OF this]
  have c1: "sv_context c1 = ctx" "sv_loginReceived c1"
    "ul_user (sv_userLogin c1) = (case ulr_userNameOverride result of None \<Rightarrow> ul_user (UserLoginContext_userLogin login ctx) | Some u \<Rightarrow> u)"
    using c by (auto simp: c1_def split: option.splits)
  have "entitled sha1Hex login c' (evs @ [ev])" if "ulr_passwordOk result"
    unfolding entitled_def using entitles [OF that] c1 facts(1) by (intro bexI [of _ ev] exI) auto
  moreover have "\<forall>ctx. CheckLogin ctx \<notin> set acts'" using facts(2) checks_pos [of acts'] by auto
  ultimately show ?thesis using facts c1 c(6) ok ev c(1) by (auto simp: run_ok_def)
qed

lemma connection_run_ok: "connection_run sha1Hex login c acts evs \<Longrightarrow> run_ok sha1Hex login c acts evs"
proof (induction rule: connection_run.induct)
  case (run_start i name no_request)
  then show ?case by (simp add: run_ok_def fresh_connection_def)
next
  case (run_frame c acts evs nonce checkTunnelSecret workflows msg acts' c')
  then show ?case by (intro run_ok_frame)
next
  case (run_checked c acts evs ctx st azure ldap result st' acts' c')
  then show ?case
    by (intro run_ok_decided) (auto simp: entitles_def dest: checkLogin_needs_password)
next
  case (run_asked c acts evs ctx azure ldap st ask st' result acts' c')
  then show ?case by (intro run_ok_decided) (auto simp: entitles_def)
qed

end
