(* ===== verification/Subscriptions.thy ===== *)
theory Subscriptions
  imports Acl_Manager
begin

text \<open>
  What the broker keeps per connection (\<open>libshvbroker/src/rpc/commonrpcclienthandle.cpp\<close>,
  \<open>masterbrokerconnection.cpp\<close>, \<open>clientconnectiononbroker.cpp\<close>): subscriptions, and the translation of
  paths between a broker and its master; and the secrets of tunnels (\<open>tunnelsecretlist.cpp\<close>).
\<close>

section \<open>Subscriptions\<close>

record subscription =
  sub_path :: string
  sub_method :: string
  sub_source :: string

text \<open>
  Leading and trailing slashes are counted on the whole path, and the second number is then used as
  the length of what follows the leading ones.
\<close>

definition Subscription_make :: "string \<Rightarrow> string \<Rightarrow> string \<Rightarrow> subscription" where
  "Subscription_make path meth source =
     (let ix1 = length (takeWhile (\<lambda>c. c = CHR ''/'') path);
          len = length path - length (takeWhile (\<lambda>c. c = CHR ''/'') (rev path))
      in \<lparr>sub_path = take len (drop ix1 path), sub_method = meth, sub_source = source\<rparr>)"

definition Subscription_cmpSubscribed :: "subscription \<Rightarrow> subscription \<Rightarrow> bool" where
  "Subscription_cmpSubscribed s o' \<longleftrightarrow>
     (if sub_path s = sub_path o' then sub_method s = sub_method o' \<and> sub_source s = sub_source o' else False)"

definition METH_GET :: string where "METH_GET = ''get''"

definition Subscription_match :: "subscription \<Rightarrow> string \<Rightarrow> string \<Rightarrow> string \<Rightarrow> bool" where
  "Subscription_match s signal_path signal_method signal_source =
     (if startsWithPath signal_path (sub_path s) \<noteq> None then
        (let signal_source = (if signal_source = [] then METH_GET else signal_source)
         in (sub_method s = [] \<or> sub_method s = signal_method) \<and> (sub_source s = [] \<or> sub_source s = signal_source))
      else False)"

definition Subscription_toString :: "subscription \<Rightarrow> string" where
  "Subscription_toString s = sub_path s @ CHR '':'' # sub_method s"

primrec find_ix :: "('a \<Rightarrow> bool) \<Rightarrow> nat \<Rightarrow> 'a list \<Rightarrow> nat option" where
  "find_ix P i [] = None"
| "find_ix P i (x # xs) = (if P x then Some i else find_ix P (i + 1) xs)"

definition addSubscription :: "subscription \<Rightarrow> subscription list \<Rightarrow> nat \<times> subscription list" where
  "addSubscription subs l =
     (case find_ix (Subscription_cmpSubscribed subs) 0 l of
        None \<Rightarrow> (length l, l @ [subs])
      | Some i \<Rightarrow> (i, l[i := subs]))"

definition erase_ix :: "nat \<Rightarrow> 'a list \<Rightarrow> 'a list" where
  "erase_ix i l = take i l @ drop (i + 1) l"

definition removeSubscription :: "subscription \<Rightarrow> subscription list \<Rightarrow> bool \<times> subscription list" where
  "removeSubscription subs l =
     (case find_ix (Subscription_cmpSubscribed subs) 0 l of
        None \<Rightarrow> (False, l)
      | Some i \<Rightarrow> (True, erase_ix i l))"

definition isSubscribed :: "subscription list \<Rightarrow> string \<Rightarrow> string \<Rightarrow> string \<Rightarrow> int" where
  "isSubscribed l shv_path meth source =
     (case find_ix (\<lambda>s. Subscription_match s shv_path meth source) 0 l of None \<Rightarrow> - 1 | Some i \<Rightarrow> int i)"

text \<open>
  A rejected signal: the first matching subscription without a method, or else the matching one with
  the longest path.
\<close>

fun most_explicit :: "(subscription \<Rightarrow> bool) \<Rightarrow> nat \<Rightarrow> int \<Rightarrow> nat \<Rightarrow> subscription list \<Rightarrow> int" where
  "most_explicit hit i best max_path_len [] = best"
| "most_explicit hit i best max_path_len (subs # l) =
     (if hit subs then
        (if sub_method subs = [] then int i
         else if length (sub_path subs) > max_path_len then most_explicit hit (i + 1) (int i) (length (sub_path subs)) l
         else most_explicit hit (i + 1) best max_path_len l)
      else most_explicit hit (i + 1) best max_path_len l)"

definition rejectNotSubscribedSignal :: "string \<Rightarrow> string \<Rightarrow> string \<Rightarrow> subscription list \<Rightarrow> bool \<times> subscription list" where
  "rejectNotSubscribedSignal path meth source l =
     (let ix = most_explicit (\<lambda>s. Subscription_match s path meth source) 0 (- 1) 0 l
      in if ix \<ge> 0 then (True, erase_ix (nat ix) l) else (False, l))"

section \<open>Paths of a master broker\<close>

definition DIR_BROKER :: string where "DIR_BROKER = ''.broker''"

definition masterExportedToLocalPath :: "string \<Rightarrow> string \<Rightarrow> string" where
  "masterExportedToLocalPath exported master_path =
     (if exported = [] then master_path
      else if startsWithPath master_path DIR_BROKER \<noteq> None then master_path
      else ShvPath_appendPath exported master_path)"

definition localPathToMasterExported :: "string \<Rightarrow> string \<Rightarrow> string" where
  "localPathToMasterExported exported local_path =
     (if exported = [] then local_path
      else case startsWithPath local_path exported of
             Some pos \<Rightarrow> drop pos local_path
           | None \<Rightarrow> local_path)"

definition MasterBrokerConnection_createSubscription :: "string \<Rightarrow> string \<Rightarrow> string \<Rightarrow> string \<Rightarrow> subscription" where
  "MasterBrokerConnection_createSubscription exported shv_path meth source =
     Subscription_make (masterExportedToLocalPath exported shv_path) meth source"

text \<open>A client may only subscribe to what it may read.\<close>

definition ClientConnectionOnBroker_createSubscription :: "string \<Rightarrow> string \<Rightarrow> string \<Rightarrow> string \<Rightarrow> subscription acl_m" where
  "ClientConnectionOnBroker_createSubscription user_name shv_path meth source =
     bind_m (AclManager_accessGrantForShvPath user_name shv_path meth False (AccessGrant_make None [])) (\<lambda>acg st.
       if ag_level acg < AccessLevel_Read
       then (Inl (ShvException (''Acces to shv signal '' @ CHR 0x27 # shv_path @ CHR ''/'' # meth @ ''()'' @ CHR 0x27 # '' not granted for user '' @ CHR 0x27 # user_name @ [CHR 0x27])), st)
       else (Inr (Subscription_make shv_path meth source), st))"

text \<open>
  The path under which a slave broker mounted at \<open>mount_point\<close> is asked to subscribe, if at all.
\<close>

definition propagateSubscriptionToSlaveBroker :: "bool \<Rightarrow> string \<Rightarrow> subscription \<Rightarrow> string option" where
  "propagateSubscriptionToSlaveBroker is_slave mount_point subs =
     (if \<not> is_slave then None
      else if startsWithPath (sub_path subs) mount_point \<noteq> None then
        (let slave_path = drop (length mount_point) (sub_path subs)
         in if slave_path \<noteq> [] \<and> hd slave_path \<noteq> CHR ''/'' then None else Some (drop 1 slave_path))
      else if startsWithPath mount_point (sub_path subs) \<noteq> None \<and>
          (length mount_point = length (sub_path subs) \<or> mount_point ! length (sub_path subs) = CHR ''/'')
      then Some []
      else None)"

section \<open>Tunnel secrets\<close>

record tunnel_secret =
  ts_createdMsec :: int
  ts_secret :: string
  ts_hitCnt :: byte

definition max_age_msec :: int where "max_age_msec = 10 * 1000"

definition secret_alive :: "int \<Rightarrow> tunnel_secret \<Rightarrow> bool" where
  "secret_alive now sc \<longleftrightarrow> (let age = now - ts_createdMsec sc in \<not> age < 0 \<and> \<not> age > max_age_msec)"

text \<open>The hit counter is an \<open>uint8_t\<close>.\<close>

fun checkSecret :: "int \<Rightarrow> string \<Rightarrow> tunnel_secret list \<Rightarrow> bool \<times> tunnel_secret list" where
  "checkSecret now s [] = (False, [])"
| "checkSecret now s (sc # l) =
     (if secret_alive now sc \<and> ts_secret sc = s then
        (let sc = sc\<lparr>ts_hitCnt := ts_hitCnt sc + 1\<rparr>
         in if ts_hitCnt sc \<le> 2 then (True, sc # l) else map_prod id (\<lambda>l. sc # l) (checkSecret now s l))
      else map_prod id (\<lambda>l. sc # l) (checkSecret now s l))"

definition removeOldSecrets :: "int \<Rightarrow> tunnel_secret list \<Rightarrow> tunnel_secret list" where
  "removeOldSecrets now l = filter (secret_alive now) l"

text \<open>\<open>digest\<close> is the SHA-1 of random data in hexadecimal.\<close>

definition createSecret :: "string \<Rightarrow> int \<Rightarrow> tunnel_secret list \<Rightarrow> string \<times> tunnel_secret list" where
  "createSecret digest now l =
     (digest, removeOldSecrets now l @ [\<lparr>ts_createdMsec = now, ts_secret = digest, ts_hitCnt = 0\<rparr>])"

section \<open>Lemmas on subscriptions\<close>

lemma slashes_split:
  assumes "body \<noteq> []" "hd body \<noteq> CHR ''/''" "last body \<noteq> CHR ''/''"
  shows "length (takeWhile (\<lambda>c. c = CHR ''/'') (replicate k (CHR ''/'') @ body @ replicate j (CHR ''/''))) = k"
    "length (takeWhile (\<lambda>c. c = CHR ''/'') (rev (replicate k (CHR ''/'') @ body @ replicate j (CHR ''/'')))) = j"
proof -
  obtain b bs where b: "body = b # bs" "b \<noteq> CHR ''/''" using assms by (cases body) auto
  obtain c cs where c: "body = cs @ [c]" "c \<noteq> CHR ''/''" using assms by (cases body rule: rev_cases) auto
  show "length (takeWhile (\<lambda>c. c = CHR ''/'') (replicate k (CHR ''/'') @ body @ replicate j (CHR ''/''))) = k"
    by (subst takeWhile_append2) (simp_all add: b)
  show "length (takeWhile (\<lambda>c. c = CHR ''/'') (rev (replicate k (CHR ''/'') @ body @ replicate j (CHR ''/'')))) = j"
    unfolding rev_append append_assoc by (subst takeWhile_append2) (simp_all add: c)
qed

text \<open>What the constructor leaves of a path: as many trailing slashes as there were leading ones.\<close>

lemma Subscription_path:
  assumes "body \<noteq> []" "hd body \<noteq> CHR ''/''" "last body \<noteq> CHR ''/''"
  shows "sub_path (Subscription_make (replicate k (CHR ''/'') @ body @ replicate j (CHR ''/'')) meth source) =
    body @ replicate (min k j) (CHR ''/'')"
proof -
  note n = slashes_split [OF assms, of k j]
  show ?thesis unfolding Subscription_make_def Let_def n by (simp add: min_def)
qed

lemma cmpSubscribed_iff: "Subscription_cmpSubscribed s t \<longleftrightarrow> s = t"
  by (cases s; cases t) (auto simp: Subscription_cmpSubscribed_def)

lemma find_ix_Some:
  "find_ix P i xs = Some n \<Longrightarrow> i \<le> n \<and> n - i < length xs \<and> P (xs ! (n - i)) \<and> (\<forall>k < n - i. \<not> P (xs ! k))"
proof (induction xs arbitrary: i)
  case (Cons x xs)
  show ?case
  proof (cases "P x")
    case True
    then show ?thesis using Cons.prems by auto
  next
    case False
    with Cons.prems have rec: "find_ix P (i + 1) xs = Some n" by simp
    note IH = Cons.IH [OF rec]
    then have "n - i = Suc (n - (i + 1))" by auto
    then show ?thesis using IH False by (auto simp: less_Suc_eq_0_disj)
  qed
qed simp

lemma find_ix_None: "find_ix P i xs = None \<longleftrightarrow> (\<forall>x \<in> set xs. \<not> P x)"
  by (induction xs arbitrary: i) auto

lemma list_update_same_value: "i < length l \<Longrightarrow> l ! i = x \<Longrightarrow> l[i := x] = l"
  by auto

lemma addSubscription_set: "snd (addSubscription s l) = (if s \<in> set l then l else l @ [s])"
proof (cases "find_ix (Subscription_cmpSubscribed s) 0 l")
  case None
  then have "s \<notin> set l" by (auto simp: find_ix_None cmpSubscribed_iff)
  then show ?thesis using None by (simp add: addSubscription_def)
next
  case (Some i)
  note f = find_ix_Some [OF Some, unfolded cmpSubscribed_iff]
  then have "s \<in> set l" by (metis minus_nat.diff_0 nth_mem)
  moreover have "l[i := s] = l" using f by (intro list_update_same_value) auto
  ultimately show ?thesis using Some by (simp add: addSubscription_def)
qed

lemma erase_ix_split: "i < length l \<Longrightarrow> l = take i l @ l ! i # drop (i + 1) l"
  by (simp add: id_take_nth_drop)

lemma removeSubscription_set:
  assumes "distinct l"
  shows "removeSubscription s l = (s \<in> set l, filter (\<lambda>x. x \<noteq> s) l)"
proof (cases "find_ix (Subscription_cmpSubscribed s) 0 l")
  case None
  then have "s \<notin> set l" by (auto simp: find_ix_None cmpSubscribed_iff)
  then have "filter (\<lambda>x. x \<noteq> s) l = l" by (auto simp: filter_id_conv)
  with \<open>s \<notin> set l\<close> show ?thesis using None by (simp add: removeSubscription_def)
next
  case (Some i)
  note f = find_ix_Some [OF Some, unfolded cmpSubscribed_iff]
  then have l: "l = take i l @ s # drop (i + 1) l" using erase_ix_split [of i l] by auto
  moreover from this have "s \<in> set l" by (metis in_set_conv_decomp)
  moreover have "filter (\<lambda>x. x \<noteq> s) l = take i l @ drop (i + 1) l"
  proof -
    have "s \<notin> set (take i l)" "s \<notin> set (drop (i + 1) l)" using assms l
      by (metis distinct_append disjoint_iff list.set_intros(1), metis distinct.simps(2) distinct_append)
    then have "filter (\<lambda>x. x \<noteq> s) (take i l) = take i l" "filter (\<lambda>x. x \<noteq> s) (drop (i + 1) l) = drop (i + 1) l"
      by (auto simp: filter_id_conv)
    then show ?thesis by (subst l) simp
  qed
  ultimately show ?thesis using Some by (simp add: removeSubscription_def erase_ix_def)
qed

lemma isSubscribed_iff: "0 \<le> isSubscribed l p m s \<longleftrightarrow> (\<exists>x \<in> set l. Subscription_match x p m s)"
  using find_ix_None [of "\<lambda>x. Subscription_match x p m s" 0 l] by (auto simp: isSubscribed_def split: option.splits)

text \<open>
  A rejected signal takes away one matching subscription, unless all that match have a method and
  the empty path: those the loop never takes for the most explicit one.
\<close>

lemma most_explicit_hit:
  "most_explicit hit i best m l = best \<or> (\<exists>k < length l. most_explicit hit i best m l = int (i + k) \<and> hit (l ! k))"
proof (induction l arbitrary: i best m)
  case (Cons s l)
  have later: "\<exists>k < length (s # l). ix = int (i + k) \<and> hit ((s # l) ! k)"
    if "\<exists>k < length l. ix = int (i + 1 + k) \<and> hit (l ! k)" for ix
    using that by (metis Suc_mono add_Suc_right add_Suc_shift Suc_eq_plus1 length_Cons nth_Cons_Suc)
  have now: "\<exists>k < length (s # l). int i = int (i + k) \<and> hit ((s # l) ! k)" if "hit s"
    using that by (intro exI [of _ 0]) simp
  show ?case
    using Cons.IH [of "i + 1" "int i" "length (sub_path s)"] Cons.IH [of "i + 1" best m] later now
    by (metis most_explicit.simps(2))
qed simp

lemma most_explicit_ge: "0 \<le> best \<Longrightarrow> 0 \<le> most_explicit hit i best m l"
  by (induction l arbitrary: i best m) auto

lemma most_explicit_none:
  "most_explicit hit i (- 1) 0 l < 0 \<longleftrightarrow> (\<forall>s \<in> set l. hit s \<longrightarrow> sub_method s \<noteq> [] \<and> sub_path s = [])"
  using most_explicit_ge by (induction l arbitrary: i) (auto simp: not_less)

lemma rejectNotSubscribedSignal_spec:
  "rejectNotSubscribedSignal p m src l =
     (if \<forall>s \<in> set l. Subscription_match s p m src \<longrightarrow> sub_method s \<noteq> [] \<and> sub_path s = [] then (False, l)
      else (True, snd (rejectNotSubscribedSignal p m src l)))"
  "\<not> (\<forall>s \<in> set l. Subscription_match s p m src \<longrightarrow> sub_method s \<noteq> [] \<and> sub_path s = []) \<Longrightarrow>
   \<exists>pre s post. l = pre @ s # post \<and> Subscription_match s p m src \<and> snd (rejectNotSubscribedSignal p m src l) = pre @ post"
proof -
  let ?hit = "\<lambda>s. Subscription_match s p m src"
  let ?ix = "most_explicit ?hit 0 (- 1) 0 l"
  note none = most_explicit_none [of ?hit 0 l]
  show "rejectNotSubscribedSignal p m src l =
     (if \<forall>s \<in> set l. Subscription_match s p m src \<longrightarrow> sub_method s \<noteq> [] \<and> sub_path s = [] then (False, l)
      else (True, snd (rejectNotSubscribedSignal p m src l)))"
    using none by (auto simp: rejectNotSubscribedSignal_def Let_def)
  assume "\<not> (\<forall>s \<in> set l. ?hit s \<longrightarrow> sub_method s \<noteq> [] \<and> sub_path s = [])"
  then have "0 \<le> ?ix" using none by linarith
  then obtain k where k: "k < length l" "?ix = int k" "?hit (l ! k)"
    using most_explicit_hit [of ?hit 0 "- 1" 0 l] by auto
  then show "\<exists>pre s post. l = pre @ s # post \<and> ?hit s \<and> snd (rejectNotSubscribedSignal p m src l) = pre @ post"
    using erase_ix_split [OF k(1)] by (intro exI [of _ "take k l"] exI [of _ "l ! k"] exI [of _ "drop (k + 1) l"])
      (auto simp: rejectNotSubscribedSignal_def Let_def erase_ix_def)
qed

section \<open>Lemmas on secrets\<close>

lemma checkSecret_unused:
  assumes "\<forall>x \<in> set l. ts_secret x \<noteq> s"
  shows "checkSecret now s (l @ r) = map_prod id (\<lambda>r. l @ r) (checkSecret now s r)"
  using assms by (induction l) (auto simp: prod.map_comp prod_eq_iff)

fun check_all :: "string \<Rightarrow> int list \<Rightarrow> tunnel_secret list \<Rightarrow> bool list" where
  "check_all s [] l = []"
| "check_all s (now # nows) l = (case checkSecret now s l of (ok, l') \<Rightarrow> ok # check_all s nows l')"

lemma hit_word: "((of_nat n :: byte) \<le> 2) \<longleftrightarrow> n mod 256 \<le> 2"
  by (simp add: word_le_nat_alt unat_of_nat)

lemma check_all_answers:
  assumes "\<forall>x \<in> set l. ts_secret x \<noteq> s" "\<forall>t \<in> set nows. created \<le> t \<and> t \<le> created + max_age_msec"
  shows "check_all s nows (l @ [\<lparr>ts_createdMsec = created, ts_secret = s, ts_hitCnt = of_nat n\<rparr>]) =
    map (\<lambda>i. (n + i) mod 256 \<le> 2) [1..<length nows + 1]"
  using assms(2)
proof (induction nows arbitrary: n)
  case (Cons t nows)
  let ?sc = "\<lambda>n. \<lparr>ts_createdMsec = created, ts_secret = s, ts_hitCnt = of_nat n :: byte\<rparr>"
  have alive: "secret_alive t (?sc n)" using Cons.prems by (auto simp: secret_alive_def)
  have "checkSecret t s (l @ [?sc n]) = (Suc n mod 256 \<le> 2, l @ [?sc (Suc n)])"
    using alive hit_word [of "Suc n"] by (auto simp: checkSecret_unused [OF assms(1)] add.commute)
  moreover have "map (\<lambda>i. (n + i) mod 256 \<le> 2) [1..<length (t # nows) + 1] =
      (Suc n mod 256 \<le> 2) # map (\<lambda>i. (Suc n + i) mod 256 \<le> 2) [1..<length nows + 1]"
    by (simp add: upt_conv_Cons map_Suc_upt [symmetric] del: upt_Suc)
  ultimately show ?case using Cons.IH [of "Suc n"] Cons.prems by simp
qed simp

lemma checkSecret_expired:
  "\<forall>x \<in> set l. ts_secret x = s \<longrightarrow> \<not> secret_alive now x \<Longrightarrow> checkSecret now s l = (False, l)"
  by (induction l) auto

section \<open>Lemmas on exported paths\<close>

lemma export_roundtrip:
  assumes "exported \<noteq> [] \<longrightarrow> last exported \<noteq> CHR ''/''" "path \<noteq> []" "hd path \<noteq> CHR ''/''"
    "startsWithPath path DIR_BROKER = None"
  shows "localPathToMasterExported exported (masterExportedToLocalPath exported path) = path"
proof (cases "exported = []")
  case False
  then obtain e c where e: "exported = e @ [c]" "c \<noteq> CHR ''/''" using assms(1) by (cases exported rule: rev_cases) auto
  obtain p ps where p: "path = p # ps" "p \<noteq> CHR ''/''" using assms(2,3) by (cases path) auto
  have "masterExportedToLocalPath exported path = exported @ CHR ''/'' # path"
    using assms(4) e p by (simp add: masterExportedToLocalPath_def ShvPath_appendPath_def joinPath_def)
  then show ?thesis using False by (simp add: localPathToMasterExported_def startsWithPath_def nth_append)
qed (simp add: localPathToMasterExported_def masterExportedToLocalPath_def)

text \<open>A client is given a subscription exactly for what its grant lets it read.\<close>

lemma createSubscription_needs_read:
  assumes "AclManager_accessGrantForShvPath user path m False (AccessGrant_make None []) st = (Inr acg, st')"
  shows "\<not> isl (fst (ClientConnectionOnBroker_createSubscription user path m src st)) \<longleftrightarrow> AccessLevel_Read \<le> ag_level acg"
  using assms by (simp add: ClientConnectionOnBroker_createSubscription_def bind_m_def)

end
