(* ===== verification/Shv_Node.thy ===== *)
theory Shv_Node
  imports Shv_Path Rpc_Exchange Meta_Method
begin

text \<open>
  The tree of nodes of a device or a broker (\<open>libshviotqt/src/node/shvnode.cpp\<close>, \<open>shvnodetree.cpp\<close>): finding
  the node of a path, the check of the access level before a method is called, the answer, and the
  methods \<open>dir\<close> and \<open>ls\<close> that every node has.
\<close>

section \<open>Nodes\<close>

datatype node_exn = RpcException int string | OtherException exn

text \<open>
  The classes of nodes: \<open>ShvNode\<close> itself, a table of methods, and descendants, which give their methods on a
  path below the node, the names there, and what a call of one of them does.
\<close>

record node_virtual =
  nv_methods :: "string list \<Rightarrow> exn + meta_method list"
  nv_childNames :: "string list \<Rightarrow> string list"
  nv_callMethod :: "string list \<Rightarrow> string \<Rightarrow> rpc_value \<Rightarrow> rpc_value \<Rightarrow> node_exn + rpc_value"

datatype node_class = PlainNode | MethodsTableNode "meta_method list option" | DescendantNode node_virtual

datatype shv_node = ShvNode (nd_nodeId: string) (nd_isSortedChildren: bool) (nd_class: node_class) (nd_children: "shv_node list")

definition METH_DIR :: string where "METH_DIR = ''dir''"
definition METH_LS :: string where "METH_LS = ''ls''"
definition SIG_COMMAND_LOGGED :: string where "SIG_COMMAND_LOGGED = ''cmdlog''"
definition LOCAL_NODE_HACK :: string where "LOCAL_NODE_HACK = ''.local''"
definition ADD_LOCAL_TO_LS_RESULT_HACK_META_KEY :: string where
  "ADD_LOCAL_TO_LS_RESULT_HACK_META_KEY = ''__add_local_to_ls_hack''"

definition methods_LS :: meta_method where
  "methods_LS = MetaMethod_make METH_LS 0 (Some ''LsParam'') (Some ''LsResult'') AccessLevel_Browse [] [] [] []"

definition methods_DIR :: meta_method where
  "methods_DIR = MetaMethod_make METH_DIR 0 (Some ''DirParam'') (Some ''DirResult'') AccessLevel_Browse [] [] [] []"

definition ShvNode_childNode :: "string \<Rightarrow> shv_node \<Rightarrow> shv_node option" where
  "ShvNode_childNode name nd = find (\<lambda>ch. nd_nodeId ch = name) (nd_children nd)"

text \<open>\<open>ids\<close> are the names from the node itself up to the child of the root.\<close>

definition ShvNode_shvPath :: "string list \<Rightarrow> string" where
  "ShvNode_shvPath ids = foldl (\<lambda>ret i. i @ (if ret \<noteq> [] then CHR ''/'' # ret else ret)) [] ids"

definition ShvNode_methods :: "string list \<Rightarrow> exn + meta_method list" where
  "ShvNode_methods shv_path = Inr (if shv_path = [] then [methods_DIR, methods_LS] else [])"

definition MethodsTableNode_methods :: "meta_method list option \<Rightarrow> string list \<Rightarrow> exn + meta_method list" where
  "MethodsTableNode_methods m_methods shv_path =
     (case m_methods of
        None \<Rightarrow> Inl (ShvException ''Methods table not set!'')
      | Some methods \<Rightarrow> if shv_path = [] then Inr methods else ShvNode_methods shv_path)"

definition node_methods :: "shv_node \<Rightarrow> string list \<Rightarrow> exn + meta_method list" where
  "node_methods nd shv_path =
     (case nd_class nd of
        PlainNode \<Rightarrow> ShvNode_methods shv_path
      | MethodsTableNode m \<Rightarrow> MethodsTableNode_methods m shv_path
      | DescendantNode v \<Rightarrow> nv_methods v shv_path)"

definition ShvNode_metaMethod :: "shv_node \<Rightarrow> string list \<Rightarrow> string \<Rightarrow> exn + meta_method option" where
  "ShvNode_metaMethod nd shv_path name = map_sum id (find (\<lambda>mm. name = mm_name mm)) (node_methods nd shv_path)"

section \<open>The methods of every node\<close>

definition own_childNames :: "shv_node \<Rightarrow> string list" where
  "own_childNames nd = (let ids = map nd_nodeId (nd_children nd) in if nd_isSortedChildren nd then sort ids else ids)"

definition direct_childNames :: "shv_node \<Rightarrow> string list" where
  "direct_childNames nd = (case nd_class nd of DescendantNode v \<Rightarrow> nv_childNames v [] | _ \<Rightarrow> own_childNames nd)"

definition ShvNode_childNames :: "shv_node \<Rightarrow> string list \<Rightarrow> string list" where
  "ShvNode_childNames nd shv_path =
     (case shv_path of
        [] \<Rightarrow> own_childNames nd
      | [d] \<Rightarrow> (case ShvNode_childNode d nd of Some ch \<Rightarrow> direct_childNames ch | None \<Rightarrow> [])
      | _ \<Rightarrow> [])"

definition ShvNode_hasChildren :: "shv_node \<Rightarrow> string list \<Rightarrow> bool" where
  "ShvNode_hasChildren nd shv_path =
     (case shv_path of
        [d] \<Rightarrow> (case ShvNode_childNode d nd of
                  Some ch \<Rightarrow> direct_childNames ch \<noteq> []
                | None \<Rightarrow> ShvNode_childNames nd shv_path \<noteq> [])
      | _ \<Rightarrow> ShvNode_childNames nd shv_path \<noteq> [])"

definition ShvNode_dir :: "shv_node \<Rightarrow> string list \<Rightarrow> rpc_value \<Rightarrow> exn + rpc_value" where
  "ShvNode_dir nd shv_path methods_params =
     map_sum id (\<lambda>mms.
       let method_name = RpcValue_asString methods_params
       in if method_name = [] then rpc (VList (map MetaMethod_toRpcValue mms))
          else (case find (\<lambda>mm. mm_name mm = method_name) mms of
                  Some mm \<Rightarrow> MetaMethod_toRpcValue mm
                | None \<Rightarrow> rpc VNull)) (node_methods nd shv_path)"

definition ShvNode_ls :: "shv_node \<Rightarrow> string list \<Rightarrow> rpc_value \<Rightarrow> rpc_value" where
  "ShvNode_ls nd shv_path methods_params =
     (let child_name = RpcValue_asString methods_params
      in if child_name = [] then rpc (VList (map (\<lambda>n. rpc (VString n)) (ShvNode_childNames nd shv_path)))
         else rpc (VBool (child_name \<in> set (ShvNode_childNames nd shv_path))))"

text \<open>\<open>toCpon\<close> prints a value; it only shows up in texts.\<close>

definition ShvNode_callMethod ::
  "(rpc_value \<Rightarrow> string) \<Rightarrow> string list \<Rightarrow> shv_node \<Rightarrow> string list \<Rightarrow> string \<Rightarrow> rpc_value \<Rightarrow> rpc_value \<Rightarrow> node_exn + rpc_value" where
  "ShvNode_callMethod toCpon ids nd shv_path meth params user_id =
     (if meth = METH_DIR then map_sum OtherException id (ShvNode_dir nd shv_path params)
      else if meth = METH_LS then Inr (ShvNode_ls nd shv_path params)
      else Inl (OtherException (ShvException (''Node: '' @ ShvNode_shvPath ids @ '' - method: '' @ meth @
             '' not exists on path: '' @ StringViewList_join shv_path ''/'' @ '' user id: '' @ toCpon user_id))))"

definition node_callMethod ::
  "(rpc_value \<Rightarrow> string) \<Rightarrow> string list \<Rightarrow> shv_node \<Rightarrow> string list \<Rightarrow> string \<Rightarrow> rpc_value \<Rightarrow> rpc_value \<Rightarrow> node_exn + rpc_value" where
  "node_callMethod toCpon ids nd shv_path meth params user_id =
     (case nd_class nd of
        DescendantNode v \<Rightarrow> nv_callMethod v shv_path meth params user_id
      | _ \<Rightarrow> ShvNode_callMethod toCpon ids nd shv_path meth params user_id)"

section \<open>Calling a method\<close>

text \<open>
  What the tree does besides returning: a method of a node is called, a command is logged, a
  message is emitted by the root.
\<close>

datatype node_effect =
    MethodCalled string "string list" meta_method rpc_message
  | CommandLogged string rpc_value string
  | Emitted rpc_message

definition user_id_string :: "(rpc_value \<Rightarrow> string) \<Rightarrow> rpc_value \<Rightarrow> string" where
  "user_id_string toCpon user_id =
     (if RpcValue_isValid user_id then (if RpcValue_isString user_id then RpcValue_asString user_id else toCpon user_id) else [])"

definition full_path :: "string list \<Rightarrow> rpc_message \<Rightarrow> string" where
  "full_path ids rq = joinPath (ShvNode_shvPath ids) (RpcValue_toString (RpcMessage_shvPath rq))"

abbreviation Flag_UserIDRequired :: u32 where "Flag_UserIDRequired \<equiv> 32"

definition quote_it :: "string \<Rightarrow> string" where
  "quote_it s = CHR 0x27 # s @ [CHR 0x27]"

definition command_signal :: "string \<Rightarrow> rpc_value \<Rightarrow> string \<Rightarrow> rpc_message" where
  "command_signal path val user =
     RpcMessage_setUserId (rpc (VString user)) (RpcRequest_setParams val
       (RpcMessage_setShvPath path (RpcRequest_setMethod SIG_COMMAND_LOGGED RpcMessage_empty)))"

definition ShvNode_processRpcRequest ::
  "(rpc_value \<Rightarrow> string) \<Rightarrow> string list \<Rightarrow> shv_node \<Rightarrow> rpc_message \<Rightarrow> node_effect list \<times> (node_exn + rpc_value)" where
  "ShvNode_processRpcRequest toCpon ids nd rq =
     (let shv_path = ShvPath_splitPath (RpcValue_asString (RpcMessage_shvPath rq));
          meth = RpcValue_asString (RpcMessage_method rq)
      in case ShvNode_metaMethod nd shv_path meth of
           Inl e \<Rightarrow> ([], Inl (OtherException e))
         | Inr None \<Rightarrow>
             ([], Inl (RpcException 2 (''Method: '' @ quote_it meth @ '' on path '' @ quote_it (full_path ids rq) @ '' doesn't exist'')))
         | Inr (Some mm) \<Rightarrow>
             (case RpcMessage_accessGrant rq of
                Inl e \<Rightarrow> ([], Inl (OtherException e))
              | Inr rq_grant \<Rightarrow>
                  (if mm_accessLevel mm > ag_level rq_grant then
                     ([], Inl (OtherException (ShvException (''Call method: '' @ quote_it meth @ '' on path '' @ quote_it (full_path ids rq) @
                            '' permission denied, grant: '' @ AccessGrant_toPrettyString rq_grant @
                            '' required: '' @ accessLevelToAccessString (mm_accessLevel mm)))))
                   else
                     (let user_id_str = user_id_string toCpon (RpcMessage_userId rq);
                          required = and (mm_flags mm) Flag_UserIDRequired \<noteq> 0
                      in if required \<and> user_id_str = [] then
                           ([], Inl (OtherException (ShvException (''Call method: '' @ quote_it meth @ '' on path '' @
                              quote_it (full_path ids rq) @ '' user id required.''))))
                         else
                           (let path = joinPath (ShvNode_shvPath ids) (RpcValue_asString (RpcMessage_shvPath rq));
                                val = rpc (VString (meth @ ''('' @ toCpon (RpcRequest_params rq) @ '')''));
                                log = (if mm_accessLevel mm > AccessLevel_Write \<or> required
                                       then [CommandLogged path val user_id_str, Emitted (command_signal path val user_id_str)] else [])
                            in (log @ [MethodCalled (ShvNode_shvPath ids) shv_path mm rq],
                                node_callMethod toCpon ids nd shv_path meth (RpcRequest_params rq) (RpcMessage_userId rq)))))))"

section \<open>Finding the node and answering\<close>

text \<open>The error an exception turns into; \<open>parse_error\<close> is the text of a parse error.\<close>

definition frame_error :: "string \<Rightarrow> string \<Rightarrow> string \<Rightarrow> node_exn \<Rightarrow> rpc_error" where
  "frame_error parse_error meth shv_path_str e =
     (case e of
        RpcException code msg \<Rightarrow> RpcError_make msg code invalid_value
      | OtherException (ShvException msg) \<Rightarrow> RpcError_make msg 1 invalid_value
      | OtherException (RuntimeError msg) \<Rightarrow>
          RpcError_make (''method: '' @ meth @ '' path: '' @ shv_path_str @ '' what: '' @ msg) 8 invalid_value
      | OtherException ParseException \<Rightarrow> RpcError_make parse_error 1 invalid_value)"

definition emitSendRpcMessage :: "rpc_message \<Rightarrow> exn + node_effect list" where
  "emitSendRpcMessage msg =
     (if RpcMessage_isResponse msg then
        map_sum id (\<lambda>i. if i = 0 then [] else [Emitted msg]) (RpcValue_toInt (RpcMessage_requestId msg))
      else Inr [Emitted msg])"

definition add_local :: "rpc_value \<Rightarrow> rpc_value" where
  "add_local result =
     (let res_list = RpcValue_asList result
      in rpc (VList ((if res_list \<noteq> [] \<and> \<not> RpcValue_isList (res_list ! 0) then rpc (VString LOCAL_NODE_HACK)
                      else rpc (VList [rpc (VString LOCAL_NODE_HACK), rpc (VBool True)])) # res_list)))"

definition frame_answer :: "bool \<Rightarrow> rpc_message \<Rightarrow> exn + node_effect list" where
  "frame_answer ls_hook resp =
     bind_e (RpcResponse_hasResult resp) (\<lambda>has.
       if has then
         bind_e (if ls_hook then RpcResponse_isSuccess resp else Inr False) (\<lambda>add.
           emitSendRpcMessage (if add then RpcResponse_setResult (add_local (RpcResponse_result resp)) resp else resp))
       else Inr [])"

definition process_frame ::
  "cpon_ops \<Rightarrow> (rpc_value \<Rightarrow> string) \<Rightarrow> string \<Rightarrow> string list \<Rightarrow> shv_node \<Rightarrow> rpc_frame \<Rightarrow> node_effect list \<times> (node_exn + rpc_value)" where
  "process_frame cp toCpon errmsg ids nd frame =
     (let meth = RpcValue_toString (RpcMessage_method_m (fr_meta frame));
          shv_path_str = RpcValue_toString (RpcMessage_shvPath_m (fr_meta frame))
      in case ShvNode_metaMethod nd (ShvPath_splitPath (RpcValue_asString (RpcMessage_shvPath_m (fr_meta frame)))) meth of
           Inl e \<Rightarrow> ([], Inl (OtherException e))
         | Inr None \<Rightarrow> ([], Inl (RpcException 2 (''Method: '' @ quote_it meth @ '' on path '' @
                            quote_it (joinPath (ShvNode_shvPath ids) shv_path_str) @ '' doesn't exist'')))
         | Inr (Some mm) \<Rightarrow>
             (case RpcFrame_toRpcMessage_err cp frame of
                Inl e \<Rightarrow> ([], Inl (OtherException e))
              | Inr (rpc_msg, True) \<Rightarrow> ([], Inl (OtherException (ShvException (''Decode RPC frame error: '' @ errmsg))))
              | Inr (rpc_msg, False) \<Rightarrow> ShvNode_processRpcRequest toCpon ids nd rpc_msg))"

definition respond :: "string \<Rightarrow> rpc_frame \<Rightarrow> node_exn + rpc_value \<Rightarrow> rpc_message" where
  "respond errmsg frame r =
     (let resp = RpcResponse_forRequest (fr_meta frame)
      in case r of
           Inr ret_val \<Rightarrow> if RpcValue_isValid ret_val then RpcResponse_setResult ret_val resp else resp
         | Inl e \<Rightarrow> RpcResponse_setError (frame_error errmsg (RpcValue_toString (RpcMessage_method_m (fr_meta frame)))
                      (RpcValue_toString (RpcMessage_shvPath_m (fr_meta frame))) e) resp)"

definition first_child :: "string list \<Rightarrow> shv_node \<Rightarrow> shv_node option" where
  "first_child shv_path nd = (case shv_path of [] \<Rightarrow> None | d # _ \<Rightarrow> ShvNode_childNode d nd)"

lemma childNode_size: "ShvNode_childNode d nd = Some ch \<Longrightarrow> size ch < size nd"
  by (cases nd) (auto simp: ShvNode_childNode_def find_Some_iff less_Suc_eq_le intro!: size_list_estimation')

lemma first_child_size [termination_simp]: "first_child p nd = Some ch \<Longrightarrow> size ch < size nd"
  by (cases p) (auto simp: first_child_def childNode_size)

text \<open>
  An exception that leaves a child is caught by the node above it.  The second component is the exception that
  leaves the root.
\<close>

definition answer_frame :: "string \<Rightarrow> rpc_frame \<Rightarrow> node_effect list \<times> (node_exn + rpc_value) \<Rightarrow> node_effect list \<times> exn option" where
  "answer_frame errmsg frame er =
     (case frame_answer (RpcMetaData_hasKey_s (fr_meta frame) ADD_LOCAL_TO_LS_RESULT_HACK_META_KEY) (respond errmsg frame (snd er)) of
        Inl e \<Rightarrow> (fst er, Some e)
      | Inr answer \<Rightarrow> (fst er @ answer, None))"

fun ShvNode_handleRpcFrame ::
  "cpon_ops \<Rightarrow> (rpc_value \<Rightarrow> string) \<Rightarrow> string \<Rightarrow> string list \<Rightarrow> shv_node \<Rightarrow> rpc_frame \<Rightarrow> node_effect list \<times> exn option" where
  "ShvNode_handleRpcFrame cp toCpon errmsg ids nd frame =
     (let shv_path_list = ShvPath_splitPath (RpcValue_asString (RpcMessage_shvPath_m (fr_meta frame)))
      in case first_child shv_path_list nd of
           Some ch \<Rightarrow>
             (case ShvNode_handleRpcFrame cp toCpon errmsg (nd_nodeId ch # ids) ch
                     (frame\<lparr>fr_meta := RpcMessage_setShvPath_m (ShvPath_joinDirs (tl shv_path_list)) (fr_meta frame)\<rparr>) of
                (effects, None) \<Rightarrow> (effects, None)
              | (effects, Some e) \<Rightarrow> answer_frame errmsg frame (effects, Inl (OtherException e)))
         | None \<Rightarrow> answer_frame errmsg frame (process_frame cp toCpon errmsg ids nd frame))"

declare ShvNode_handleRpcFrame.simps [simp del]

text \<open>A request that is already decoded.\<close>

fun ShvNode_handleRpcRequestImpl ::
  "(rpc_value \<Rightarrow> string) \<Rightarrow> string list \<Rightarrow> shv_node \<Rightarrow> rpc_message \<Rightarrow> node_effect list \<times> (node_exn + rpc_value)" where
  "ShvNode_handleRpcRequestImpl toCpon ids nd rq =
     (let shv_path = ShvPath_splitPath (RpcValue_asString (RpcMessage_shvPath rq))
      in case first_child shv_path nd of
           Some ch \<Rightarrow> ShvNode_handleRpcRequestImpl toCpon (nd_nodeId ch # ids) ch
             (RpcMessage_setShvPath (ShvPath_joinDirs (tl shv_path)) rq)
         | None \<Rightarrow> ShvNode_processRpcRequest toCpon ids nd rq)"

declare ShvNode_handleRpcRequestImpl.simps [simp del]

definition ShvNode_handleRpcRequest ::
  "(rpc_value \<Rightarrow> string) \<Rightarrow> string \<Rightarrow> string list \<Rightarrow> shv_node \<Rightarrow> rpc_message \<Rightarrow> node_effect list \<times> exn option" where
  "ShvNode_handleRpcRequest toCpon parse_error ids nd rq =
     (let resp = RpcResponse_forRequest (RpcMessage_metaData rq)
      in case ShvNode_handleRpcRequestImpl toCpon ids nd rq of
           (effects, r) \<Rightarrow>
             (let resp = (case r of
                  Inr ret_val \<Rightarrow> if RpcValue_isValid ret_val then RpcResponse_setResult ret_val resp else resp
                | Inl (RpcException code msg) \<Rightarrow> RpcResponse_setError (RpcError_make msg code invalid_value) resp
                | Inl (OtherException (ShvException msg)) \<Rightarrow> RpcResponse_setError (RpcError_make msg 8 invalid_value) resp
                | Inl (OtherException (RuntimeError msg)) \<Rightarrow> RpcResponse_setError (RpcError_make msg 8 invalid_value) resp
                | Inl (OtherException ParseException) \<Rightarrow> RpcResponse_setError (RpcError_make parse_error 8 invalid_value) resp)
              in case bind_e (RpcResponse_hasResult resp) (\<lambda>has. if has then emitSendRpcMessage resp else Inr []) of
                   Inl e \<Rightarrow> (effects, Some e)
                 | Inr answer \<Rightarrow> (effects @ answer, None)))"

text \<open>Called from the program itself, with the level of a service.\<close>

definition ShvNodeTree_invokeMethodThrow ::
  "(rpc_value \<Rightarrow> string) \<Rightarrow> shv_node \<Rightarrow> string \<Rightarrow> string \<Rightarrow> rpc_value \<Rightarrow> rpc_value \<Rightarrow> node_effect list \<times> (node_exn + rpc_value)" where
  "ShvNodeTree_invokeMethodThrow toCpon m_root shv_path meth params user_id =
     ShvNode_handleRpcRequestImpl toCpon [] m_root
       (RpcMessage_setAccessGrant (AccessGrant_make (Some AccessLevel_Service) [])
         (RpcMessage_setUserId user_id (RpcRequest_setParams params (RpcRequest_setMethod meth
           (RpcMessage_setShvPath shv_path RpcMessage_empty)))))"

definition ShvNodeTree_invokeMethod ::
  "(rpc_value \<Rightarrow> string) \<Rightarrow> shv_node \<Rightarrow> string \<Rightarrow> string \<Rightarrow> rpc_value \<Rightarrow> rpc_value \<Rightarrow> node_effect list \<times> rpc_value" where
  "ShvNodeTree_invokeMethod toCpon m_root shv_path meth params user_id =
     map_prod id (\<lambda>r. case r of Inr v \<Rightarrow> v | Inl _ \<Rightarrow> invalid_value)
       (ShvNodeTree_invokeMethodThrow toCpon m_root shv_path meth params user_id)"

section \<open>Growing the tree\<close>

definition new_dir :: "string \<Rightarrow> shv_node" where
  "new_dir name = ShvNode name True PlainNode []"

fun replace_child :: "string \<Rightarrow> shv_node \<Rightarrow> shv_node list \<Rightarrow> shv_node list" where
  "replace_child name ch' [] = []"
| "replace_child name ch' (ch # l) = (if nd_nodeId ch = name then ch' # l else ch # replace_child name ch' l)"

definition set_children :: "shv_node list \<Rightarrow> shv_node \<Rightarrow> shv_node" where
  "set_children l nd = ShvNode (nd_nodeId nd) (nd_isSortedChildren nd) (nd_class nd) l"

text \<open>
  \<open>mdcd\<close> walks along a path and, if asked to, creates what is missing: the tree, the names of the node it
  stops at, and the rest of the path.
\<close>

fun ShvNodeTree_mdcd :: "bool \<Rightarrow> string list \<Rightarrow> shv_node \<Rightarrow> shv_node \<times> string list \<times> string list" where
  "ShvNodeTree_mdcd create_dirs [] nd = (nd, [], [])"
| "ShvNodeTree_mdcd create_dirs (d # path) nd =
     (case ShvNode_childNode d nd of
        Some ch \<Rightarrow>
          (case ShvNodeTree_mdcd create_dirs path ch of
             (ch', pos, rest) \<Rightarrow> (set_children (replace_child d ch' (nd_children nd)) nd, d # pos, rest))
      | None \<Rightarrow>
          (if create_dirs then
             (case ShvNodeTree_mdcd create_dirs path (new_dir d) of
                (ch', pos, rest) \<Rightarrow> (set_children (nd_children nd @ [ch']) nd, d # pos, rest))
           else (nd, [], d # path)))"

definition ShvNodeTree_mkdir :: "string \<Rightarrow> shv_node \<Rightarrow> shv_node" where
  "ShvNodeTree_mkdir path m_root = fst (ShvNodeTree_mdcd True (ShvPath_splitPath path) m_root)"

definition ShvNodeTree_cd_rest :: "string \<Rightarrow> shv_node \<Rightarrow> string list \<times> string" where
  "ShvNodeTree_cd_rest path m_root =
     (case ShvNodeTree_mdcd False (ShvPath_splitPath path) m_root of (_, pos, rest) \<Rightarrow> (pos, utils_join rest ''/''))"

definition ShvNodeTree_cd :: "string \<Rightarrow> shv_node \<Rightarrow> string list option" where
  "ShvNodeTree_cd path m_root = (case ShvNodeTree_cd_rest path m_root of (pos, rest) \<Rightarrow> if rest = [] then Some pos else None)"

fun node_at :: "string list \<Rightarrow> shv_node \<Rightarrow> shv_node option" where
  "node_at [] nd = Some nd"
| "node_at (d # ds) nd = (case ShvNode_childNode d nd of None \<Rightarrow> None | Some ch \<Rightarrow> node_at ds ch)"

text \<open>A node is put under a parent, behind its children.\<close>

fun add_child :: "string list \<Rightarrow> shv_node \<Rightarrow> shv_node \<Rightarrow> shv_node" where
  "add_child [] ch nd = set_children (nd_children nd @ [ch]) nd"
| "add_child (d # ds) ch nd =
     (case ShvNode_childNode d nd of
        None \<Rightarrow> nd
      | Some nd' \<Rightarrow> set_children (replace_child d (add_child ds ch nd') (nd_children nd)) nd)"

definition setNodeId :: "string \<Rightarrow> shv_node \<Rightarrow> shv_node" where
  "setNodeId n nd = ShvNode n (nd_isSortedChildren nd) (nd_class nd) (nd_children nd)"

definition ShvNodeTree_mount :: "string \<Rightarrow> shv_node \<Rightarrow> shv_node \<Rightarrow> bool \<times> shv_node" where
  "ShvNodeTree_mount path node m_root =
     (let lst = ShvPath_splitPath path
      in if lst = [] then (False, m_root)
         else
           (let last_id = last lst; lst = butlast lst;
                m_root = (if lst = [] then m_root else fst (ShvNodeTree_mdcd True lst m_root))
            in case node_at (lst @ [last_id]) m_root of
                 Some ch \<Rightarrow> (False, m_root)
               | None \<Rightarrow> (True, add_child lst (setNodeId last_id node) m_root)))"

section \<open>A method is only called with the access it asks for\<close>

lemma decoded_meta: "RpcFrame_toRpcMessage_err cp f = Inr (m, False) \<Longrightarrow> RpcMessage_metaData m = fr_meta f"
  by (auto simp: RpcFrame_toRpcMessage_err_def RpcValue_setMetaData_def RpcMessage_of_value_def RpcMessage_metaData_def
      RpcValue_metaData_def split: if_splits sum.splits exn.splits)

lemma processRpcRequest_access:
  assumes "MethodCalled p sp mm m \<in> set (fst (ShvNode_processRpcRequest toCpon ids nd rq))"
  shows "m = rq \<and> (\<exists>g. RpcMessage_accessGrant rq = Inr g \<and> mm_accessLevel mm \<le> ag_level g)"
  using assms by (auto simp: ShvNode_processRpcRequest_def Let_def split: sum.splits option.splits if_splits)

lemma process_frame_access:
  assumes "MethodCalled p sp mm m \<in> set (fst (process_frame cp toCpon errmsg ids nd frame))"
  shows "\<exists>g. RpcMessage_accessGrant_m (fr_meta frame) = Inr g \<and> mm_accessLevel mm \<le> ag_level g"
proof -
  obtain m' where "RpcFrame_toRpcMessage_err cp frame = Inr (m', False)"
    "MethodCalled p sp mm m \<in> set (fst (ShvNode_processRpcRequest toCpon ids nd m'))"
    using assms by (auto simp: process_frame_def Let_def split: sum.splits option.splits bool.splits)
  then show ?thesis
    using processRpcRequest_access [of p sp mm m toCpon ids nd m'] decoded_meta [of cp frame m']
    by (auto simp: RpcMessage_accessGrant_def)
qed

lemma emit_only: "emitSendRpcMessage m = Inr es \<Longrightarrow> e \<in> set es \<Longrightarrow> e = Emitted m"
  by (cases "RpcValue_toInt (RpcMessage_requestId m)") (auto simp: emitSendRpcMessage_def split: if_splits)

lemma frame_answer_emits:
  "frame_answer hook resp = Inr es \<Longrightarrow> e \<in> set es \<Longrightarrow>
   e = Emitted resp \<or> e = Emitted (RpcResponse_setResult (add_local (RpcResponse_result resp)) resp)"
  by (auto simp: frame_answer_def bind_e_Inr split: if_splits dest: emit_only)

lemma answer_frame_effects:
  "e \<in> set (fst (answer_frame errmsg frame er)) \<Longrightarrow>
   e \<in> set (fst er) \<or> e = Emitted (respond errmsg frame (snd er)) \<or>
   e = Emitted (RpcResponse_setResult (add_local (RpcResponse_result (respond errmsg frame (snd er)))) (respond errmsg frame (snd er)))"
  by (auto simp: answer_frame_def split: sum.splits dest: frame_answer_emits)

lemma accessGrant_setShvPath: "RpcMessage_accessGrant_m (RpcMessage_setShvPath_m p md) = RpcMessage_accessGrant_m md"
  using access_field.get_other [of Tag_ShvPath] accessLevel_field.get_other [of Tag_ShvPath]
  by (simp add: RpcMessage_accessGrant_m_def RpcMessage_setShvPath_m_def)

lemma handleRpcFrame_access:
  "MethodCalled p sp mm m \<in> set (fst (ShvNode_handleRpcFrame cp toCpon errmsg ids nd frame)) \<Longrightarrow>
   \<exists>g. RpcMessage_accessGrant_m (fr_meta frame) = Inr g \<and> mm_accessLevel mm \<le> ag_level g"
proof (induction cp toCpon errmsg ids nd frame rule: ShvNode_handleRpcFrame.induct)
  case (1 cp toCpon errmsg ids nd frame)
  define dirs where "dirs = ShvPath_splitPath (RpcValue_asString (RpcMessage_shvPath_m (fr_meta frame)))"
  note step = ShvNode_handleRpcFrame.simps [of cp toCpon errmsg ids nd frame, folded dirs_def, unfolded Let_def]
  show ?case
  proof (cases "first_child dirs nd")
    case None
    then show ?thesis using "1.prems" process_frame_access by (auto simp: step dest!: answer_frame_effects)
  next
    case (Some ch)
    let ?frame = "frame\<lparr>fr_meta := RpcMessage_setShvPath_m (ShvPath_joinDirs (tl dirs)) (fr_meta frame)\<rparr>"
    obtain es r where es: "ShvNode_handleRpcFrame cp toCpon errmsg (nd_nodeId ch # ids) ch ?frame = (es, r)" by fastforce
    have "MethodCalled p sp mm m \<in> set es"
      using "1.prems" Some es by (cases r) (auto simp: step dest!: answer_frame_effects)
    then show ?thesis using "1.IH" [OF dirs_def Some] es by (simp add: accessGrant_setShvPath)
  qed
qed

section \<open>An answer belongs to its request\<close>

text \<open>The message answers the request with these meta data: it has its id and goes back the way the request came.\<close>

definition answers :: "rpc_meta \<Rightarrow> rpc_message \<Rightarrow> bool" where
  "answers md m \<longleftrightarrow> RpcValue_isValid m \<and> RpcMessage_isResponse m \<and> RpcMessage_requestId m = RpcMessage_requestId_m md \<and>
     RpcMessage_callerIds m = (if RpcValue_isValid (RpcMessage_callerIds_m md) then RpcMessage_callerIds_m md else invalid_value)"

lemma isValid_setValue: "RpcValue_isValid (RpcMessage_setValue k v m)"
  by (cases "rv_var m") (auto simp: RpcMessage_setValue_def RpcMessage_checkMetaValues_def RpcValue_set_i_def type_test_defs)

lemma checkMeta_valid: "RpcValue_isValid m \<Longrightarrow> RpcMessage_checkMetaValues m = m"
  by (simp add: RpcMessage_checkMetaValues_def)

lemma answers_setValue:
  assumes "answers md m"
  shows "answers md (RpcMessage_setValue k v m)"
proof -
  have m: "RpcValue_isValid m" using assms by (simp add: answers_def)
  have "RpcMessage_metaData (RpcMessage_setValue k v m) = RpcMessage_metaData m"
    by (simp add: metaData_setValue checkMeta_valid [OF m])
  then show ?thesis
    using assms m isValid_setValue [of k v m]
    by (simp add: answers_def RpcMessage_isResponse_def RpcMessage_hasRequestId_def RpcMessage_hasMethod_def RpcMessage_requestId_def
        RpcMessage_callerIds_def RpcMessage_isValid_def RpcMessage_metaValue_i_def RpcValue_metaValue_i_def
        RpcMessage_metaData_def [symmetric])
qed

lemma forRequest_valid: "RpcValue_isValid (RpcMessage_requestId_m md) \<Longrightarrow> RpcValue_isValid (RpcResponse_forRequest md)"
  by (auto simp: RpcResponse_forRequest_def Let_def RpcResponse_setRequestId_def RpcMessage_setRequestId_def
      RpcMessage_setCallerIds_def isValid_setMetaValue)

lemma answers_respond:
  assumes "RpcValue_isValid (RpcMessage_requestId_m (fr_meta frame))"
  shows "answers (fr_meta frame) (respond errmsg frame r)"
proof -
  have "answers (fr_meta frame) (RpcResponse_forRequest (fr_meta frame))"
    using forRequest_fields [OF assms] forRequest_valid [OF assms] by (simp add: answers_def)
  then show ?thesis
    by (auto simp: respond_def Let_def RpcResponse_setResult_def RpcResponse_setError_def answers_setValue split: sum.splits)
qed

lemma answers_setShvPath: "answers (RpcMessage_setShvPath_m p md) = answers md"
  by (auto simp: fun_eq_iff answers_def RpcMessage_setShvPath_m_def requestId_field.get_other callerIds_field.get_other)

lemma command_signal_no_response: "\<not> RpcMessage_isResponse (command_signal path val user)"
  by (simp add: command_signal_def RpcMessage_isResponse_def RpcMessage_hasMethod_def RpcMessage_setUserId_def RpcMessage_setShvPath_def
      RpcRequest_setMethod_def RpcRequest_setParams_def metaData_setMetaValue metaData_setValue hasKey_setMetaValue
      isValid_setMetaValue isValid_setValue metaData_check check_setMetaValue RpcMetaData_value_setValue)

lemma process_frame_emits:
  assumes "Emitted m \<in> set (fst (process_frame cp toCpon errmsg ids nd frame))"
  shows "\<not> RpcMessage_isResponse m"
  using assms command_signal_no_response
  by (auto simp: process_frame_def ShvNode_processRpcRequest_def Let_def split: sum.splits option.splits bool.splits if_splits)

lemma handleRpcFrame_answers:
  "Emitted m \<in> set (fst (ShvNode_handleRpcFrame cp toCpon errmsg ids nd frame)) \<Longrightarrow> RpcMessage_isResponse m \<Longrightarrow>
   RpcValue_isValid (RpcMessage_requestId_m (fr_meta frame)) \<Longrightarrow> answers (fr_meta frame) m"
proof (induction cp toCpon errmsg ids nd frame rule: ShvNode_handleRpcFrame.induct)
  case (1 cp toCpon errmsg ids nd frame)
  define dirs where "dirs = ShvPath_splitPath (RpcValue_asString (RpcMessage_shvPath_m (fr_meta frame)))"
  note step = ShvNode_handleRpcFrame.simps [of cp toCpon errmsg ids nd frame, folded dirs_def, unfolded Let_def]
  have answer: "answers (fr_meta frame) m"
    if "Emitted m \<in> set (fst (answer_frame errmsg frame er))" "Emitted m \<in> set (fst er) \<Longrightarrow> answers (fr_meta frame) m" for er
    using answer_frame_effects [OF that(1)] that(2) answers_respond [OF "1.prems"(3)]
    by (auto simp: RpcResponse_setResult_def answers_setValue)
  show ?case
  proof (cases "first_child dirs nd")
    case None
    let ?pf = "process_frame cp toCpon errmsg ids nd frame"
    have "Emitted m \<in> set (fst (answer_frame errmsg frame ?pf))" using "1.prems"(1) None by (simp add: step)
    moreover have "Emitted m \<notin> set (fst ?pf)" using process_frame_emits "1.prems"(2) by blast
    ultimately show ?thesis using answer [of ?pf] by blast
  next
    case (Some ch)
    let ?frame = "frame\<lparr>fr_meta := RpcMessage_setShvPath_m (ShvPath_joinDirs (tl dirs)) (fr_meta frame)\<rparr>"
    obtain es r where es: "ShvNode_handleRpcFrame cp toCpon errmsg (nd_nodeId ch # ids) ch ?frame = (es, r)" by fastforce
    have id: "RpcValue_isValid (RpcMessage_requestId_m (fr_meta ?frame))"
      using "1.prems"(3) by (simp add: RpcMessage_setShvPath_m_def requestId_field.get_other)
    have "Emitted m \<in> set es \<Longrightarrow> answers (fr_meta frame) m"
      using "1.IH" [OF dirs_def Some _ "1.prems"(2) id] es by (simp add: answers_setShvPath)
    then show ?thesis using "1.prems"(1) Some es answer [of "(es, Inl (OtherException (the r)))"]
      by (cases r) (auto simp: step)
  qed
qed

section \<open>Mounting\<close>

lemma replace_child_find:
  assumes "find (\<lambda>ch. nd_nodeId ch = d) l = Some ch" "nd_nodeId ch' = d"
  shows "find (\<lambda>ch. nd_nodeId ch = e) (replace_child d ch' l) = (if e = d then Some ch' else find (\<lambda>ch. nd_nodeId ch = e) l)"
  using assms by (induction l) auto

lemma append_child_find:
  assumes "find (\<lambda>ch. nd_nodeId ch = nd_nodeId ch') l = None"
  shows "find (\<lambda>ch. nd_nodeId ch = e) (l @ [ch']) = (if e = nd_nodeId ch' then Some ch' else find (\<lambda>ch. nd_nodeId ch = e) l)"
  using assms by (induction l) auto

lemma set_children_simps [simp]:
  "nd_nodeId (set_children l nd) = nd_nodeId nd" "nd_class (set_children l nd) = nd_class nd"
  "nd_children (set_children l nd) = l"
  by (simp_all add: set_children_def)

lemma childNode_replace:
  assumes "ShvNode_childNode d nd = Some ch" "nd_nodeId ch' = d"
  shows "ShvNode_childNode e (set_children (replace_child d ch' (nd_children nd)) nd) = (if e = d then Some ch' else ShvNode_childNode e nd)"
  using replace_child_find [OF _ assms(2)] assms(1) by (simp add: ShvNode_childNode_def)

lemma childNode_append:
  assumes "ShvNode_childNode (nd_nodeId ch') nd = None"
  shows "ShvNode_childNode e (set_children (nd_children nd @ [ch']) nd) = (if e = nd_nodeId ch' then Some ch' else ShvNode_childNode e nd)"
  using append_child_find [of ch' "nd_children nd" e] assms by (simp add: ShvNode_childNode_def)

lemma childNode_id: "ShvNode_childNode d nd = Some ch \<Longrightarrow> nd_nodeId ch = d"
  by (auto simp: ShvNode_childNode_def find_Some_iff)

text \<open>What a node is besides its children.\<close>

definition same_kind :: "shv_node option \<Rightarrow> shv_node option \<Rightarrow> bool" where
  "same_kind a b \<longleftrightarrow> (\<exists>x y. a = Some x \<and> b = Some y \<and> nd_nodeId x = nd_nodeId y \<and> nd_class x = nd_class y)"

lemma same_kind_refl: "a \<noteq> None \<Longrightarrow> same_kind a a"
  by (auto simp: same_kind_def)

definition keeps :: "shv_node \<Rightarrow> shv_node \<Rightarrow> bool" where
  "keeps nd nd' \<longleftrightarrow> (\<forall>q. node_at q nd \<noteq> None \<longrightarrow> same_kind (node_at q nd) (node_at q nd'))"

lemma keepsD: "keeps nd nd' \<Longrightarrow> node_at q nd \<noteq> None \<Longrightarrow> same_kind (node_at q nd) (node_at q nd')"
  by (simp add: keeps_def)

lemma keeps_refl [simp]: "keeps nd nd"
  by (simp add: keeps_def same_kind_refl)

lemma keeps_trans:
  assumes "keeps a b" "keeps b c"
  shows "keeps a c"
  unfolding keeps_def
proof (intro allI impI)
  fix q assume "node_at q a \<noteq> None"
  with keepsD [OF assms(1), of q] have ab: "same_kind (node_at q a) (node_at q b)" by simp
  then have "node_at q b \<noteq> None" by (auto simp: same_kind_def)
  with keepsD [OF assms(2), of q] ab show "same_kind (node_at q a) (node_at q c)" by (auto simp: same_kind_def)
qed

lemma keeps_kind: "keeps nd nd' \<Longrightarrow> nd_nodeId nd' = nd_nodeId nd \<and> nd_class nd' = nd_class nd"
  using keepsD [of nd nd' "[]"] by (simp add: same_kind_def)

lemma keeps_step:
  assumes "\<And>e. ShvNode_childNode e nd' = (if e = d then Some ch' else ShvNode_childNode e nd)"
    and "\<And>ch. ShvNode_childNode d nd = Some ch \<Longrightarrow> keeps ch ch'"
    and "nd_nodeId nd' = nd_nodeId nd" "nd_class nd' = nd_class nd"
  shows "keeps nd nd'"
  unfolding keeps_def
proof (intro allI impI)
  fix q assume q: "node_at q nd \<noteq> None"
  show "same_kind (node_at q nd) (node_at q nd')"
  proof (cases q)
    case Nil
    then show ?thesis using assms(3,4) by (simp add: same_kind_def)
  next
    case (Cons e qs)
    obtain ch where ch: "ShvNode_childNode e nd = Some ch" "node_at qs ch \<noteq> None"
      using q Cons by (auto split: option.splits)
    show ?thesis
    proof (cases "e = d")
      case True
      then show ?thesis using keepsD [OF assms(2), of ch qs] ch assms(1) Cons by simp
    next
      case False
      then show ?thesis using ch assms(1) Cons by (simp add: same_kind_refl)
    qed
  qed
qed

lemma mkdir_keeps:
  "ShvNodeTree_mdcd True path nd = (nd', pos, rest) \<Longrightarrow> pos = path \<and> rest = [] \<and> node_at path nd' \<noteq> None \<and> keeps nd nd'"
proof (induction path arbitrary: nd nd' pos rest)
  case (Cons d path)
  define ch where "ch = (case ShvNode_childNode d nd of Some ch \<Rightarrow> ch | None \<Rightarrow> new_dir d)"
  obtain ch' p r where rec: "ShvNodeTree_mdcd True path ch = (ch', p, r)" by (metis prod_cases3)
  note IH = Cons.IH [OF rec]
  have id: "nd_nodeId ch' = d"
    using keeps_kind [of ch ch'] IH childNode_id [of d nd] by (auto simp: ch_def new_dir_def split: option.splits)
  have nd': "pos = d # p" "rest = r" "nd_nodeId nd' = nd_nodeId nd" "nd_class nd' = nd_class nd"
    using Cons.prems rec by (auto simp: ch_def split: option.splits)
  have look: "ShvNode_childNode e nd' = (if e = d then Some ch' else ShvNode_childNode e nd)" for e
    using Cons.prems rec childNode_replace [OF _ id] childNode_append [of ch' nd, unfolded id]
    by (auto simp: ch_def split: option.splits)
  have "keeps nd nd'" by (rule keeps_step [OF look]) (use IH nd' in \<open>auto simp: ch_def\<close>)
  then show ?case using IH nd' look by simp
qed simp

lemma add_child_keeps:
  "node_at ps nd = Some par \<Longrightarrow> ShvNode_childNode (nd_nodeId ch) par = None \<Longrightarrow>
   node_at (ps @ [nd_nodeId ch]) (add_child ps ch nd) = Some ch \<and> keeps nd (add_child ps ch nd)"
proof (induction ps arbitrary: nd)
  case Nil
  then have "par = nd" by simp
  note look = childNode_append [of ch nd, OF Nil(2) [unfolded this]]
  have "keeps nd (add_child [] ch nd)"
    by (rule keeps_step [of _ "nd_nodeId ch" ch]) (use look Nil(2) \<open>par = nd\<close> in auto)
  then show ?case using look by simp
next
  case (Cons d ps)
  then obtain nd' where nd': "ShvNode_childNode d nd = Some nd'" "node_at ps nd' = Some par" by (auto split: option.splits)
  note IH = Cons.IH [OF nd'(2) Cons.prems(2)]
  have id: "nd_nodeId (add_child ps ch nd') = d" using keeps_kind [of nd' "add_child ps ch nd'"] IH childNode_id [OF nd'(1)] by simp
  note look = childNode_replace [OF nd'(1) id]
  have "keeps nd (add_child (d # ps) ch nd)"
    by (rule keeps_step [of _ d "add_child ps ch nd'"]) (use look nd'(1) IH in auto)
  then show ?case using IH nd'(1) look by simp
qed

lemma node_at_append: "node_at (ps @ qs) nd = (case node_at ps nd of None \<Rightarrow> None | Some x \<Rightarrow> node_at qs x)"
  by (induction ps arbitrary: nd) (auto split: option.splits)

text \<open>
  Mounting: it fails only on the empty path and where there is a node already; it puts the node where it
  says; and no other node is lost.
\<close>

lemma mount_spec:
  assumes "ShvNodeTree_mount path node m_root = (ok, m_root')"
  shows "ok \<longleftrightarrow> ShvPath_splitPath path \<noteq> [] \<and> node_at (ShvPath_splitPath path) (fst (ShvNodeTree_mdcd True (butlast (ShvPath_splitPath path)) m_root)) = None"
    and "ok \<Longrightarrow> node_at (ShvPath_splitPath path) m_root' = Some (setNodeId (last (ShvPath_splitPath path)) node)"
    and "keeps m_root m_root'"
proof -
  define lst where "lst = ShvPath_splitPath path"
  define dirs where "dirs = butlast lst"
  define r1 where "r1 = fst (ShvNodeTree_mdcd True dirs m_root)"
  have r1: "node_at dirs r1 \<noteq> None \<and> keeps m_root r1"
    using mkdir_keeps [of dirs m_root r1] by (metis r1_def prod.collapse)
  have dirs: "lst \<noteq> [] \<Longrightarrow> lst = dirs @ [last lst]" by (simp add: dirs_def)
  have m: "ShvNodeTree_mount path node m_root = (if lst = [] then (False, m_root) else
      (case node_at lst r1 of Some ch \<Rightarrow> (False, r1) | None \<Rightarrow> (True, add_child dirs (setNodeId (last lst) node) r1)))"
    using dirs by (auto simp: ShvNodeTree_mount_def Let_def lst_def [symmetric] dirs_def [symmetric] r1_def split: option.splits)
  show ok: "ok \<longleftrightarrow> ShvPath_splitPath path \<noteq> [] \<and> node_at (ShvPath_splitPath path) (fst (ShvNodeTree_mdcd True (butlast (ShvPath_splitPath path)) m_root)) = None"
    unfolding lst_def [symmetric] dirs_def [symmetric] r1_def [symmetric] using assms m by (auto split: option.splits if_splits)
  have add: "node_at lst m_root' = Some (setNodeId (last lst) node) \<and> keeps r1 m_root'" if ok
  proof -
    have l: "lst \<noteq> []" "node_at lst r1 = None" "m_root' = add_child dirs (setNodeId (last lst) node) r1"
      using that assms m by (auto split: option.splits if_splits)
    obtain par where par: "node_at dirs r1 = Some par" using r1 by blast
    have id: "nd_nodeId (setNodeId (last lst) node) = last lst" by (simp add: setNodeId_def)
    have "node_at (dirs @ [last lst]) r1 = None" using l(2) dirs [OF l(1)] by simp
    then have "ShvNode_childNode (last lst) par = None" using par by (simp add: node_at_append split: option.splits)
    then show ?thesis using add_child_keeps [OF par, of "setNodeId (last lst) node", unfolded id] l(3) dirs [OF l(1)] by simp
  qed
  then show "ok \<Longrightarrow> node_at (ShvPath_splitPath path) m_root' = Some (setNodeId (last (ShvPath_splitPath path)) node)"
    by (simp add: lst_def)
  show "keeps m_root m_root'"
    using add r1 assms m keeps_trans by (cases ok) (auto split: option.splits if_splits)
qed

end
