(* ===== verification/Broker_Routing.thy ===== *)
theory Broker_Routing
  imports Broker_Login Subscriptions Tunnel_Ctl Rpc_Connection Shv_Node
begin

text \<open>
  What the broker does with a frame (\<open>libshvbroker/src/brokerapp.cpp\<close>, \<open>onRpcFrameReceived\<close> and
  \<open>sendNotifyToSubscribers\<close>): a request is checked against the access rules and handed to the node tree,
  a response goes back to the connection on top of its caller ids, a signal to everybody who has
  subscribed to it; and the operations on subscriptions of the whole broker.
\<close>

section \<open>State\<close>

record client_connection = server_connection +
  cc_socketConnected :: bool
  cc_mountPoint :: string
  cc_apiVersion :: shv_api_version
  cc_subscriptions :: "subscription list"

record master_connection =
  mc_connectionId :: int
  mc_socketConnected :: bool
  mc_loginPhase :: bool
  mc_exportedShvPath :: string
  mc_subscriptions :: "subscription list"

datatype client_handle = Client client_connection | Master master_connection

text \<open>
  Clients are in the order of \<open>clientConnectionIds\<close>.  \<open>br_requestId\<close> is the counter of \<open>nextRequestId\<close>.
\<close>

record broker =
  br_clients :: "client_connection list"
  br_masters :: "master_connection list"
  br_acl :: acl_manager
  br_secrets :: "tunnel_secret list"
  br_requestId :: int

text \<open>
  What the broker asks its surroundings: options, its address and whether it is public, the port
  it listens on, the time, the digest of random data, and the text of a parse error.
\<close>

record broker_env =
  be_brokerId :: string
  be_ipAddress :: string
  be_isPublic :: bool
  be_serverPort :: int
  be_now :: int
  be_randomDigest :: string
  be_parseError :: string

text \<open>What a step sends: a frame into the node tree, a frame or a message to a connection.\<close>

datatype broker_effect =
    ToNodeTree rpc_frame
  | SendFrame int rpc_frame
  | SendMessage int rpc_message

definition exn_what :: "broker_env \<Rightarrow> exn \<Rightarrow> string" where
  "exn_what env e = (case e of ShvException m \<Rightarrow> m | RuntimeError m \<Rightarrow> m | ParseException \<Rightarrow> be_parseError env)"

definition BrokerApp_clientConnectionById :: "broker \<Rightarrow> int \<Rightarrow> client_connection option" where
  "BrokerApp_clientConnectionById br connection_id = find (\<lambda>c. sv_connectionId c = connection_id) (br_clients br)"

definition BrokerApp_masterBrokerConnectionById :: "broker \<Rightarrow> int \<Rightarrow> master_connection option" where
  "BrokerApp_masterBrokerConnectionById br connection_id = find (\<lambda>c. mc_connectionId c = connection_id) (br_masters br)"

definition BrokerApp_commonClientConnectionById :: "broker \<Rightarrow> int \<Rightarrow> client_handle option" where
  "BrokerApp_commonClientConnectionById br connection_id =
     (case BrokerApp_clientConnectionById br connection_id of
        Some c \<Rightarrow> Some (Client c)
      | None \<Rightarrow> map_option Master (BrokerApp_masterBrokerConnectionById br connection_id))"

definition BrokerApp_allClientConnections :: "broker \<Rightarrow> client_handle list" where
  "BrokerApp_allClientConnections br = map Client (br_clients br) @ map Master (br_masters br)"

primrec handle_connectionId :: "client_handle \<Rightarrow> int" where
  "handle_connectionId (Client c) = sv_connectionId c"
| "handle_connectionId (Master m) = mc_connectionId m"

primrec handle_isConnectedAndLoggedIn :: "client_handle \<Rightarrow> bool" where
  "handle_isConnectedAndLoggedIn (Client c) = (cc_socketConnected c \<and> sv_loginOk c)"
| "handle_isConnectedAndLoggedIn (Master m) = (mc_socketConnected m \<and> \<not> mc_loginPhase m)"

primrec handle_loggedUserName :: "client_handle \<Rightarrow> string" where
  "handle_loggedUserName (Client c) = ul_user (sv_userLogin c)"
| "handle_loggedUserName (Master m) = []"

primrec handle_isMasterBrokerConnection :: "client_handle \<Rightarrow> bool" where
  "handle_isMasterBrokerConnection (Client c) = False"
| "handle_isMasterBrokerConnection (Master m) = True"

primrec handle_subscriptions :: "client_handle \<Rightarrow> subscription list" where
  "handle_subscriptions (Client c) = cc_subscriptions c"
| "handle_subscriptions (Master m) = mc_subscriptions m"

primrec handle_toSubscribedPath :: "client_handle \<Rightarrow> string \<Rightarrow> string" where
  "handle_toSubscribedPath (Client c) signal_path = signal_path"
| "handle_toSubscribedPath (Master m) signal_path = localPathToMasterExported (mc_exportedShvPath m) signal_path"

definition ccb_isSlave :: "client_connection \<Rightarrow> bool" where
  "ccb_isSlave c = ServerConnection_isSlaveBrokerConnection (server_connection.truncate c)"

section \<open>Requests\<close>

definition KEY_SHV_USER :: string where "KEY_SHV_USER = ''shvUser''"
definition KEY_BROKER_ID :: string where "KEY_BROKER_ID = ''brokerId''"
definition METH_REJECT_NOT_SUBSCRIBED :: string where "METH_REJECT_NOT_SUBSCRIBED = ''rejectNotSubscribed''"
definition PAR_PATH :: string where "PAR_PATH = ''path''"
definition PAR_METHOD :: string where "PAR_METHOD = ''method''"

text \<open>A client cannot bring a grant, and its user id is filled in; a slave broker is trusted with both.\<close>

definition client_request :: "broker_env \<Rightarrow> client_connection \<Rightarrow> rpc_meta \<Rightarrow> exn + rpc_meta" where
  "client_request env c meta =
     (if ccb_isSlave c then Inr meta
      else case RpcMessage_accessGrant_m meta of
             Inl e \<Rightarrow> Inl e
           | Inr ag \<Rightarrow>
               (let meta = (if ag_level ag > AccessLevel_None
                            then RpcMessage_setAccessGrant_m (AccessGrant_make None []) meta else meta);
                    m = RpcValue_asMap (RpcMessage_userId_m meta);
                    m = map_set KEY_SHV_USER (rpc (VString (ul_user (sv_userLogin c)))) m;
                    m = map_set KEY_BROKER_ID (rpc (VString (be_brokerId env))) m
                in Inr (RpcMessage_setUserId_m (rpc (VMap m)) meta)))"

definition has_dot_local_access :: "rpc_meta \<Rightarrow> exn + bool" where
  "has_dot_local_access meta =
     map_sum id (\<lambda>access_grant.
       if ag_level access_grant < AccessLevel_SuperService
       then ''dot_local'' \<in> set (utils_split (ag_access access_grant) (CHR '','') SkipEmptyParts)
       else True) (RpcMessage_accessGrant_m meta)"

definition master_request :: "master_connection \<Rightarrow> string \<Rightarrow> rpc_meta \<Rightarrow> exn + rpc_meta" where
  "master_request mc shv_path meta =
     (if startsWithPath shv_path LOCAL_NODE_HACK \<noteq> None then
        (case has_dot_local_access meta of
           Inl e \<Rightarrow> Inl e
         | Inr True \<Rightarrow> Inr (RpcMessage_setShvPath_m (snd (ShvPath_takeFirsDir shv_path)) meta)
         | Inr False \<Rightarrow> Inl (RuntimeError (''Insufficient access rights to make call on node: '' @ LOCAL_NODE_HACK)))
      else
        (case (if shv_path = [] \<and> rv_eq (RpcMessage_method_m meta) (rpc (VString METH_LS))
               then has_dot_local_access meta else Inr False) of
           Inl e \<Rightarrow> Inl e
         | Inr add \<Rightarrow>
             (let meta = (if add then RpcMetaData_setValue_s ADD_LOCAL_TO_LS_RESULT_HACK_META_KEY (rpc (VBool True)) meta else meta)
              in Inr (RpcMessage_setShvPath_m (masterExportedToLocalPath (mc_exportedShvPath mc) shv_path) meta))))"

definition handle_request :: "broker_env \<Rightarrow> client_handle \<Rightarrow> string \<Rightarrow> rpc_meta \<Rightarrow> exn + rpc_meta" where
  "handle_request env h shv_path meta =
     (case h of Client c \<Rightarrow> client_request env c meta | Master mc \<Rightarrow> master_request mc shv_path meta)"

definition lift_m :: "exn + 'a \<Rightarrow> 'a acl_m" where
  "lift_m r st = (r, st)"

text \<open>The body of the \<open>try\<close> block: the meta data with which the request enters the node tree.\<close>

definition authorize_request :: "broker_env \<Rightarrow> int \<Rightarrow> client_handle \<Rightarrow> rpc_meta \<Rightarrow> rpc_meta acl_m" where
  "authorize_request env connection_id h meta0 =
     (let shv_path = RpcValue_toString (RpcMessage_shvPath_m meta0)
      in bind_m (lift_m (handle_request env h shv_path meta0)) (\<lambda>meta.
         bind_m (lift_m (RpcMessage_accessGrant_m meta)) (\<lambda>grant.
         bind_m (AclManager_accessGrantForShvPath (handle_loggedUserName h) shv_path
                   (RpcValue_asString (RpcMessage_method_m meta)) (handle_isMasterBrokerConnection h) grant) (\<lambda>acg.
           if ag_level acg > AccessLevel_None then
             (let meta = (if ag_level acg < AccessLevel_Write then RpcMessage_setUserId_m invalid_value meta else meta)
              in lift_m (RpcMessage_pushCallerId_m connection_id (RpcMessage_setAccessGrant_m acg meta)))
           else lift_m (Inl (RuntimeError (''Acces to shv path '' @ CHR 0x27 # shv_path @ CHR 0x27 #
                  '' not granted for user '' @ CHR 0x27 # handle_loggedUserName h @ [CHR 0x27])))))))"

text \<open>
  \<open>root_node\<close> is the root of the node tree, if there is one: what \<open>handleRpcFrame\<close> throws on a frame, if it throws.  The
  \<open>try\<close> block covers it, so that an exception out of the tree is answered with an error too.
\<close>

definition request_error :: "broker_env \<Rightarrow> rpc_meta \<Rightarrow> exn \<Rightarrow> rpc_message" where
  "request_error env meta e =
     RpcResponse_setError (RpcError_create 8 (exn_what env e) invalid_value) (RpcResponse_forRequest meta)"

definition BrokerApp_processRequest ::
    "broker_env \<Rightarrow> (rpc_frame \<Rightarrow> exn option) option \<Rightarrow> int \<Rightarrow> rpc_frame \<Rightarrow> broker \<Rightarrow> broker_effect list \<times> broker" where
  "BrokerApp_processRequest env root_node connection_id frame br =
     (let failed = (\<lambda>e. [SendMessage connection_id (request_error env (fr_meta frame) e)])
      in case BrokerApp_commonClientConnectionById br connection_id of
           None \<Rightarrow> ([], br)
         | Some h \<Rightarrow>
             (case authorize_request env connection_id h (fr_meta frame) (br_acl br) of
                (Inl e, acl) \<Rightarrow> (failed e, br\<lparr>br_acl := acl\<rparr>)
              | (Inr meta, acl) \<Rightarrow>
                  (case root_node of
                     None \<Rightarrow> failed (ShvException ''Device tree root node is NULL'')
                   | Some tree \<Rightarrow>
                       (let frame = frame\<lparr>fr_meta := meta\<rparr>
                        in ToNodeTree frame # (case tree frame of None \<Rightarrow> [] | Some e \<Rightarrow> failed e)),
                   br\<lparr>br_acl := acl\<rparr>)))"

section \<open>Responses\<close>

definition send_frame :: "broker \<Rightarrow> int \<Rightarrow> rpc_frame \<Rightarrow> broker_effect list" where
  "send_frame br connection_id frame =
     (if BrokerApp_commonClientConnectionById br connection_id \<noteq> None then [SendFrame connection_id frame] else [])"

definition send_message :: "broker \<Rightarrow> int \<Rightarrow> rpc_message \<Rightarrow> broker_effect list" where
  "send_message br connection_id msg =
     (if BrokerApp_commonClientConnectionById br connection_id \<noteq> None then [SendMessage connection_id msg] else [])"

text \<open>
  A request for a tunnel travels as a response: a public broker, or the last one on the way if no other
  has done it, offers itself as the host of the tunnel; the last one turns it into the answer.
\<close>

definition offer_tunnel ::
  "broker_env \<Rightarrow> bool \<Rightarrow> rpc_value \<Rightarrow> tunnel_ctl \<Rightarrow> broker \<Rightarrow> tunnel_ctl \<times> broker" where
  "offer_tunnel env last_broker orig_caller_ids rq br =
     (if be_isPublic env \<or> last_broker \<and> TunnelCtl_host rq = [] then
        (case createSecret (be_randomDigest env) (be_now env) (br_secrets br) of
           (secret, secrets) \<Rightarrow>
             (TunnelCtl_setSecret secret (TunnelCtl_setCallerIds orig_caller_ids
                (TunnelCtl_setPort (be_serverPort env) (TunnelCtl_setHost (be_ipAddress env) rq))),
              br\<lparr>br_secrets := secrets\<rparr>))
      else (rq, br))"

definition answer_tunnel :: "int \<Rightarrow> rpc_meta \<Rightarrow> tunnel_ctl \<Rightarrow> broker \<Rightarrow> exn + broker_effect list" where
  "answer_tunnel connection_id meta rq br =
     (case FindTunnelRespCtl_fromFindTunnelRequest rq of
        Inl e \<Rightarrow> Inl e
      | Inr find_tunnel_response \<Rightarrow>
          (let msg = RpcMessage_setRequestId (RpcMessage_requestId_m meta) RpcMessage_empty;
               msg = RpcMessage_setCallerIds (RpcMessage_revCallerIds_m meta) msg
           in case RpcMessage_popCallerId msg of
                Inl e \<Rightarrow> Inl e
              | Inr (top_connection_id, msg) \<Rightarrow>
                  (if top_connection_id \<noteq> connection_id then Inr []
                   else Inr (send_message br connection_id (RpcMessage_setTunnelCtl find_tunnel_response msg)))))"

definition BrokerApp_processResponse ::
  "broker_env \<Rightarrow> int \<Rightarrow> rpc_frame \<Rightarrow> broker \<Rightarrow> (exn + broker_effect list) \<times> broker" where
  "BrokerApp_processResponse env connection_id frame br =
     (let orig_caller_ids = RpcMessage_callerIds_m (fr_meta frame)
      in case RpcMessage_popCallerId_m (fr_meta frame) of
           Inl e \<Rightarrow> (Inl e, br)
         | Inr (caller_id, meta) \<Rightarrow>
             (if caller_id > 0 then
                (case TunnelCtl_state (RpcMessage_tunnelCtl_m meta) of
                   Inl e \<Rightarrow> (Inl e, br)
                 | Inr state \<Rightarrow>
                     (if state = tunnel_state_int FindTunnelRequest then
                        (let last_broker = RpcValueGenList_empty (RpcMessage_callerIds_m meta)
                         in case offer_tunnel env last_broker orig_caller_ids (RpcMessage_tunnelCtl_m meta) br of
                              (rq, br) \<Rightarrow>
                                (if last_broker then (answer_tunnel connection_id meta rq br, br)
                                 else (Inr (send_frame br caller_id (frame\<lparr>fr_meta := RpcMessage_setTunnelCtl_m rq meta\<rparr>)), br)))
                      else (Inr (send_frame br caller_id (frame\<lparr>fr_meta := meta\<rparr>)), br)))
              else (Inr [], br)))"

section \<open>Signals\<close>

definition notify_frame :: "rpc_frame \<Rightarrow> client_handle \<Rightarrow> broker_effect list" where
  "notify_frame frame h =
     (let shv_path = RpcMessage_shvPath_m (fr_meta frame);
          meth = RpcMessage_method_m (fr_meta frame);
          source = RpcMessage_source_m (fr_meta frame)
      in if handle_isConnectedAndLoggedIn h \<and>
            isSubscribed (handle_subscriptions h) (RpcValue_toString shv_path) (RpcValue_asString meth) source \<ge> 0
         then [SendFrame (handle_connectionId h) (frame\<lparr>fr_meta := RpcMessage_setShvPath_m
                 (handle_toSubscribedPath h (RpcValue_asString shv_path)) (fr_meta frame)\<rparr>)]
         else [])"

definition BrokerApp_sendNotifyToSubscribers_frame :: "broker \<Rightarrow> rpc_frame \<Rightarrow> bool \<times> broker_effect list" where
  "BrokerApp_sendNotifyToSubscribers_frame br frame =
     (let sent = concat (map (notify_frame frame) (BrokerApp_allClientConnections br)) in (sent \<noteq> [], sent))"

text \<open>
  The signal of the broker itself: the path of the signal is only set again where a connection sees another path.
\<close>

fun notify_loop :: "string \<Rightarrow> string \<Rightarrow> string \<Rightarrow> rpc_message \<Rightarrow> client_handle list \<Rightarrow> broker_effect list" where
  "notify_loop shv_path meth source sig [] = []"
| "notify_loop shv_path meth source sig (conn # l) =
     (if handle_isConnectedAndLoggedIn conn \<and> isSubscribed (handle_subscriptions conn) shv_path meth source \<ge> 0 then
        (let new_path = handle_toSubscribedPath conn shv_path;
             sig = (if new_path \<noteq> shv_path then RpcMessage_setShvPath new_path sig else sig)
         in SendMessage (handle_connectionId conn) sig # notify_loop shv_path meth source sig l)
      else notify_loop shv_path meth source sig l)"

definition broker_signal :: "string \<Rightarrow> string \<Rightarrow> string \<Rightarrow> rpc_value \<Rightarrow> rpc_message" where
  "broker_signal shv_path meth source params =
     RpcSignal_setSource (if source \<noteq> [] then source else METH_GET)
       (RpcRequest_setParams params (RpcRequest_setMethod meth (RpcMessage_setShvPath shv_path RpcMessage_empty)))"

definition BrokerApp_sendNotifyToSubscribers ::
  "broker \<Rightarrow> string \<Rightarrow> string \<Rightarrow> string \<Rightarrow> rpc_value \<Rightarrow> broker_effect list" where
  "BrokerApp_sendNotifyToSubscribers br shv_path meth source params =
     notify_loop shv_path meth source (broker_signal shv_path meth source params) (BrokerApp_allClientConnections br)"

definition reject_request :: "int \<Rightarrow> string \<Rightarrow> string \<Rightarrow> rpc_message" where
  "reject_request rq_id sig_shv_path meth =
     RpcMessage_setShvPath ''.broker/app''
       (RpcRequest_setParams (rpc (VMap (map_set PAR_METHOD (rpc (VString meth)) (map_set PAR_PATH (rpc (VString sig_shv_path)) []))))
         (RpcRequest_setMethod METH_REJECT_NOT_SUBSCRIBED (RpcRequest_setRequestId rq_id RpcMessage_empty)))"

definition BrokerApp_processSignal :: "int \<Rightarrow> rpc_frame \<Rightarrow> broker \<Rightarrow> broker_effect list \<times> broker" where
  "BrokerApp_processSignal connection_id frame br =
     (let sig_shv_path = RpcValue_asString (RpcMessage_shvPath_m (fr_meta frame));
          client_connection = BrokerApp_clientConnectionById br connection_id;
          full_shv_path = (case client_connection of None \<Rightarrow> sig_shv_path | Some c \<Rightarrow> cc_mountPoint c @ CHR ''/'' # sig_shv_path)
      in if full_shv_path = [] then ([], br)
         else
           (let frame = frame\<lparr>fr_meta := RpcMessage_setShvPath_m full_shv_path (fr_meta frame)\<rparr>
            in case BrokerApp_sendNotifyToSubscribers_frame br frame of
                 (sig_sent, effects) \<Rightarrow>
                   (case client_connection of
                      Some c \<Rightarrow>
                        (if \<not> sig_sent \<and> ccb_isSlave c then
                           (effects @ [SendMessage connection_id (reject_request (br_requestId br + 1) sig_shv_path
                                         (RpcValue_toString (RpcMessage_method_m (fr_meta frame))))],
                            br\<lparr>br_requestId := br_requestId br + 1\<rparr>)
                         else (effects, br))
                    | None \<Rightarrow> (effects, br))))"

section \<open>The dispatcher\<close>

definition BrokerApp_onRpcFrameReceived ::
  "broker_env \<Rightarrow> (rpc_frame \<Rightarrow> exn option) option \<Rightarrow> int \<Rightarrow> rpc_frame \<Rightarrow> broker \<Rightarrow> (exn + broker_effect list) \<times> broker" where
  "BrokerApp_onRpcFrameReceived env root_node connection_id frame br =
     (case (if RpcMessage_isRegisterRevCallerIds_m (fr_meta frame)
            then RpcMessage_pushRevCallerId_m connection_id (fr_meta frame) else Inr (fr_meta frame)) of
        Inl e \<Rightarrow> (Inl e, br)
      | Inr meta \<Rightarrow>
          (let frame = frame\<lparr>fr_meta := meta\<rparr>
           in if RpcMessage_isRequest_m meta then apfst Inr (BrokerApp_processRequest env root_node connection_id frame br)
              else if RpcMessage_isResponse_m meta then BrokerApp_processResponse env connection_id frame br
              else if RpcMessage_isSignal_m meta then apfst Inr (BrokerApp_processSignal connection_id frame br)
              else (Inr [], br)))"

text \<open>What the node tree sends by itself.\<close>

definition BrokerApp_onRootNodeSendRpcMesage :: "rpc_message \<Rightarrow> broker \<Rightarrow> exn + broker_effect list" where
  "BrokerApp_onRootNodeSendRpcMesage msg br =
     (if RpcMessage_isResponse msg then
        (case RpcMessage_popCallerId msg of
           Inl e \<Rightarrow> Inl e
         | Inr (connection_id, resp) \<Rightarrow> Inr (send_message br connection_id resp))
      else if RpcMessage_isSignal msg then
        Inr (BrokerApp_sendNotifyToSubscribers br (RpcValue_asString (RpcMessage_shvPath msg))
               (RpcValue_asString (RpcMessage_method msg)) (RpcSignal_source msg) (RpcRequest_params msg))
      else Inr [])"

section \<open>Subscriptions of the whole broker\<close>

definition handle_createSubscription :: "client_handle \<Rightarrow> string \<Rightarrow> string \<Rightarrow> string \<Rightarrow> subscription acl_m" where
  "handle_createSubscription h shv_path meth source =
     (case h of
        Client c \<Rightarrow> ClientConnectionOnBroker_createSubscription (ul_user (sv_userLogin c)) shv_path meth source
      | Master m \<Rightarrow> ret_m (MasterBrokerConnection_createSubscription (mc_exportedShvPath m) shv_path meth source))"

text \<open>A change of the subscriptions of the connection \<open>BrokerApp_commonClientConnectionById\<close> finds.\<close>

definition update_subscriptions :: "int \<Rightarrow> (subscription list \<Rightarrow> subscription list) \<Rightarrow> broker \<Rightarrow> broker" where
  "update_subscriptions connection_id f br =
     (if BrokerApp_clientConnectionById br connection_id \<noteq> None then
        br\<lparr>br_clients := map (\<lambda>c. if sv_connectionId c = connection_id
             then c\<lparr>cc_subscriptions := f (cc_subscriptions c)\<rparr> else c) (br_clients br)\<rparr>
      else
        br\<lparr>br_masters := map (\<lambda>m. if mc_connectionId m = connection_id
             then m\<lparr>mc_subscriptions := f (mc_subscriptions m)\<rparr> else m) (br_masters br)\<rparr>)"

definition propagate_to :: "subscription \<Rightarrow> client_connection \<Rightarrow> broker \<Rightarrow> broker_effect list \<times> broker" where
  "propagate_to subs c br =
     (case propagateSubscriptionToSlaveBroker (ccb_isSlave c) (cc_mountPoint c) subs of
        None \<Rightarrow> ([], br)
      | Some slave_path \<Rightarrow>
          (let cn = snd (IRpcConnection_callMethodSubscribe slave_path (sub_method subs) []
                 \<lparr>cn_requestId = br_requestId br, cn_apiVersion = cc_apiVersion c, cn_sent = []\<rparr>)
           in (map (SendMessage (sv_connectionId c)) (cn_sent cn), br\<lparr>br_requestId := cn_requestId cn\<rparr>)))"

fun propagate_all :: "subscription \<Rightarrow> client_connection list \<Rightarrow> broker \<Rightarrow> broker_effect list \<times> broker" where
  "propagate_all subs [] br = ([], br)"
| "propagate_all subs (c # l) br =
     (case propagate_to subs c br of
        (e1, br) \<Rightarrow> (case propagate_all subs l br of (e2, br) \<Rightarrow> (e1 @ e2, br)))"

definition BrokerApp_addSubscription ::
  "int \<Rightarrow> string \<Rightarrow> string \<Rightarrow> string \<Rightarrow> broker \<Rightarrow> (exn + broker_effect list) \<times> broker" where
  "BrokerApp_addSubscription client_id shv_path meth source br =
     (case BrokerApp_commonClientConnectionById br client_id of
        None \<Rightarrow> (Inl (ShvException ''Cannot create subscription, invalid connection ID.''), br)
      | Some h \<Rightarrow>
          (case handle_createSubscription h shv_path meth source (br_acl br) of
             (Inl e, acl) \<Rightarrow> (Inl e, br\<lparr>br_acl := acl\<rparr>)
           | (Inr subs, acl) \<Rightarrow>
               (let br = update_subscriptions client_id (\<lambda>l. snd (addSubscription subs l)) (br\<lparr>br_acl := acl\<rparr>)
                in apfst Inr (propagate_all subs (filter ccb_isSlave (br_clients br)) br))))"

definition BrokerApp_removeSubscription ::
  "int \<Rightarrow> string \<Rightarrow> string \<Rightarrow> string \<Rightarrow> broker \<Rightarrow> (exn + bool) \<times> broker" where
  "BrokerApp_removeSubscription client_id shv_path meth source br =
     (case BrokerApp_commonClientConnectionById br client_id of
        None \<Rightarrow> (Inl (ShvException ''Connot remove subscription, client doesn't exist.''), br)
      | Some h \<Rightarrow>
          (let subs = Subscription_make shv_path meth source
           in (Inr (fst (removeSubscription subs (handle_subscriptions h))),
               update_subscriptions client_id (\<lambda>l. snd (removeSubscription subs l)) br)))"

definition BrokerApp_rejectNotSubscribedSignal ::
  "int \<Rightarrow> string \<Rightarrow> string \<Rightarrow> string \<Rightarrow> broker \<Rightarrow> bool \<times> broker" where
  "BrokerApp_rejectNotSubscribedSignal client_id path meth source br =
     (case BrokerApp_masterBrokerConnectionById br client_id of
        None \<Rightarrow> (False, br)
      | Some m \<Rightarrow>
          (let local_path = masterExportedToLocalPath (mc_exportedShvPath m) path
           in (fst (rejectNotSubscribedSignal local_path meth source (mc_subscriptions m)),
               br\<lparr>br_masters := map (\<lambda>m'. if mc_connectionId m' = client_id
                    then m'\<lparr>mc_subscriptions := snd (rejectNotSubscribedSignal local_path meth source (mc_subscriptions m'))\<rparr>
                    else m') (br_masters br)\<rparr>)))"

fun propagate_subs :: "subscription list \<Rightarrow> client_connection \<Rightarrow> broker \<Rightarrow> broker_effect list \<times> broker" where
  "propagate_subs [] c br = ([], br)"
| "propagate_subs (subs # l) c br =
     (case propagate_to subs c br of
        (e1, br) \<Rightarrow> (case propagate_subs l c br of (e2, br) \<Rightarrow> (e1 @ e2, br)))"

definition BrokerApp_onClientConnected :: "int \<Rightarrow> broker \<Rightarrow> broker_effect list \<times> broker" where
  "BrokerApp_onClientConnected client_id br =
     (case BrokerApp_clientConnectionById br client_id of
        None \<Rightarrow> ([], br)
      | Some cc \<Rightarrow>
          (if ccb_isSlave cc then
             propagate_subs (concat (map handle_subscriptions
               (filter (\<lambda>ch. handle_connectionId ch \<noteq> client_id) (BrokerApp_allClientConnections br)))) cc br
           else ([], br)))"

section \<open>What a request carries into the node tree\<close>

text \<open>The specification of \<open>authorize_request\<close>: the same, on the definitions instead of the caches.\<close>

definition authorize_spec :: "broker_env \<Rightarrow> int \<Rightarrow> client_handle \<Rightarrow> rpc_meta \<Rightarrow> acl_defs \<Rightarrow> exn + rpc_meta" where
  "authorize_spec env connection_id h meta0 d =
     (let shv_path = RpcValue_toString (RpcMessage_shvPath_m meta0)
      in bind_e (handle_request env h shv_path meta0) (\<lambda>meta.
         bind_e (RpcMessage_accessGrant_m meta) (\<lambda>grant.
         bind_e (grant_spec d (handle_loggedUserName h) shv_path (RpcValue_asString (RpcMessage_method_m meta))
                  (handle_isMasterBrokerConnection h) grant) (\<lambda>acg.
           if ag_level acg > AccessLevel_None then
             RpcMessage_pushCallerId_m connection_id (RpcMessage_setAccessGrant_m acg
               (if ag_level acg < AccessLevel_Write then RpcMessage_setUserId_m invalid_value meta else meta))
           else Inl (RuntimeError (''Acces to shv path '' @ CHR 0x27 # shv_path @ CHR 0x27 #
                  '' not granted for user '' @ CHR 0x27 # handle_loggedUserName h @ [CHR 0x27]))))))"

lemma implements_lift: "implements (lift_m r) (\<lambda>_. r)"
  by (rule implementsI) (simp add: lift_m_def)

lemma implements_bind': "implements m s \<Longrightarrow> (\<And>x. implements (f x) (t x)) \<Longrightarrow> implements (bind_m m f) (\<lambda>d. bind_e (s d) (\<lambda>x. t x d))"
  by (rule implements_bind) (auto dest: implementsD)

lemma authorize_implements:
  assumes "plain_name (handle_loggedUserName h)"
  shows "implements (authorize_request env connection_id h meta) (authorize_spec env connection_id h meta)"
  unfolding authorize_request_def [abs_def] authorize_spec_def [abs_def] Let_def
  by (intro implements_bind' implements_lift accessGrant_implements [OF assms])
     (auto simp: implements_lift)

text \<open>The fields a routed request keeps: all but the user id, the grant and the caller ids.\<close>

definition same_but :: "int set \<Rightarrow> rpc_meta \<Rightarrow> rpc_meta \<Rightarrow> bool" where
  "same_but ks md md' \<longleftrightarrow> (\<forall>k. k \<notin> ks \<longrightarrow> map_find (md_imap md') k = map_find (md_imap md) k)"

lemma same_but_refl [simp]: "same_but ks md md"
  by (simp add: same_but_def)

lemma same_but_trans: "same_but ks a b \<Longrightarrow> same_but ks b c \<Longrightarrow> same_but ks a c"
  by (simp add: same_but_def)

lemma same_but_put:
  "Tag_UserId \<in> ks \<Longrightarrow> same_but ks md (RpcMessage_setUserId_m v md)"
  "Tag_CallerIds \<in> ks \<Longrightarrow> same_but ks md (RpcMessage_setCallerIds_m v md)"
  "Tag_ShvPath \<in> ks \<Longrightarrow> same_but ks md (RpcMessage_setShvPath_m p md)"
  "Tag_Access \<in> ks \<Longrightarrow> same_but ks md (RpcMessage_setAccess_m a md)"
  "Tag_AccessLevel \<in> ks \<Longrightarrow> same_but ks md (RpcMessage_setAccessLevel_m l md)"
  unfolding same_but_def
  using userId_field.put_frame callerIds_field.put_frame shvPath_field.put_frame access_field.put_frame
    accessLevel_field.put_frame by metis+

lemma same_but_grant:
  "Tag_Access \<in> ks \<Longrightarrow> Tag_AccessLevel \<in> ks \<Longrightarrow> same_but ks md (RpcMessage_setAccessGrant_m g md)"
  unfolding RpcMessage_setAccessGrant_m_def by (rule same_but_trans [OF same_but_put(5) same_but_put(4)])

lemma same_but_value: "same_but ks md md' \<Longrightarrow> k \<notin> ks \<Longrightarrow> RpcMetaData_value_i md' k d = RpcMetaData_value_i md k d"
  by (simp add: same_but_def RpcMetaData_value_i_def)

lemma pushCallerId_same_but: "RpcMessage_pushCallerId_m i md = Inr md' \<Longrightarrow> Tag_CallerIds \<in> ks \<Longrightarrow> same_but ks md md'"
  by (cases "push_id (RpcMessage_callerIds_m md) i") (auto simp: RpcMessage_pushCallerId_m_def same_but_put)

lemma client_request_same_but:
  assumes "client_request env c md = Inr md'" "{Tag_UserId, Tag_Access, Tag_AccessLevel} \<subseteq> ks"
  shows "same_but ks md md'"
  using assms by (auto simp: client_request_def Let_def same_but_put same_but_grant split: if_splits sum.splits
      intro: same_but_trans [OF same_but_grant same_but_put(1)])

lemma comma_split_pieces: "p \<in> set (comma_split s) \<Longrightarrow> CHR '','' \<notin> set p"
  by (induction s arbitrary: p) (auto split: if_splits list.splits)

lemma foldl_max_mem: "foldl max (a :: int) xs \<in> insert a (set xs)"
proof (induction xs arbitrary: a)
  case (Cons x xs)
  then show ?case using Cons.IH [of "max a x"] by (auto simp: max_def split: if_splits)
qed simp

text \<open>A grant read from a text can be written as one.\<close>

lemma grant_of_text_wf:
  "access_wf (ag_access (AccessGrant_fromShv2Access s l))"
  "0 < ag_level (AccessGrant_fromShv2Access s 0) \<Longrightarrow> named_level (ag_level (AccessGrant_fromShv2Access s 0))"
proof -
  let ?ps = "filter access_piece (comma_split s)"
  have "?ps \<noteq> [] \<Longrightarrow> comma_split (comma_join ?ps) = ?ps"
    by (rule comma_split_join) (auto dest: comma_split_pieces)
  then show "access_wf (ag_access (AccessGrant_fromShv2Access s l))"
    by (cases "?ps = []") (auto simp: fromShv2Access_spec access_wf_def)
  assume pos: "0 < ag_level (AccessGrant_fromShv2Access s 0)"
  let ?ls = "map (the \<circ> accessLevelFromAccessString) (filter is_level_name (comma_split s))"
  have "ag_level (AccessGrant_fromShv2Access s 0) = foldl max 0 ?ls"
    by (simp add: fromShv2Access_spec accessLevelFromInt_range)
  with pos foldl_max_mem [of 0 ?ls] have "ag_level (AccessGrant_fromShv2Access s 0) \<in> set ?ls" by auto
  then obtain p l where "accessLevelFromAccessString p = Some l" "ag_level (AccessGrant_fromShv2Access s 0) = l"
    by (auto simp: is_level_name_def)
  then show "named_level (ag_level (AccessGrant_fromShv2Access s 0))" by (auto simp: named_level_def level_of_name)
qed

lemma client_grant_wf:
  assumes "grant_spec d user path m False g = Inr acg" "AccessLevel_None < ag_level acg"
  shows "named_level (ag_level acg)" "access_wf (ag_access acg)"
proof -
  have "(\<exists>a. acg = AccessGrant_fromShv2Access a 0) \<or> acg = AccessGrant_make (Some AccessLevel_Write) [] \<or> acg = AccessGrant_make None []"
    using assms(1) by (cases "sc_rules (fst d)")
      (auto simp: grant_spec_def search_spec_def bind_e_Inr split: if_splits option.splits)
  moreover have "named_level AccessLevel_Write" by (simp add: named_level_def accessLevelToAccessString_def)
  ultimately show "named_level (ag_level acg)" "access_wf (ag_access acg)"
    using assms(2) grant_of_text_wf by (auto simp: AccessGrant_make_def access_wf_def [of "[]"])
qed

text \<open>The grant of a client does not depend on one that came with the request.\<close>

lemma client_grant_own: "grant_spec d user path m False g = grant_spec d user path m False (AccessGrant_make None [])"
  by (simp add: grant_spec_def)

lemma same_but_accessGrant:
  "same_but ks md md' \<Longrightarrow> Tag_Access \<notin> ks \<Longrightarrow> Tag_AccessLevel \<notin> ks \<Longrightarrow>
   RpcMessage_accessGrant_m md' = RpcMessage_accessGrant_m md"
  using access_field.get_local [of md' md] accessLevel_field.get_local [of md' md]
  by (simp add: same_but_def RpcMessage_accessGrant_m_def)

lemma grant_read_back:
  assumes "named_level (ag_level g)" "access_wf (ag_access g)"
    "RpcMessage_pushCallerId_m i (RpcMessage_setAccessGrant_m g md) = Inr md'"
  shows "RpcMessage_accessGrant_m md' = Inr g"
  using same_but_accessGrant [OF pushCallerId_same_but [OF assms(3), of "{Tag_CallerIds}"]]
    accessGrant_roundtrip_aux [OF assms(1,2)] by simp

lemma processRequest_spec:
  assumes "manager_ok (br_acl br)" "BrokerApp_commonClientConnectionById br connection_id = Some h"
    "plain_name (handle_loggedUserName h)"
  shows "\<exists>acl. manager_ok acl \<and> defs acl = defs (br_acl br) \<and>
    BrokerApp_processRequest env root_node connection_id frame br =
      (case authorize_spec env connection_id h (fr_meta frame) (defs (br_acl br)) of
         Inl e \<Rightarrow> [SendMessage connection_id (request_error env (fr_meta frame) e)]
       | Inr meta \<Rightarrow>
           (case root_node of
              None \<Rightarrow> [SendMessage connection_id (request_error env (fr_meta frame) (ShvException ''Device tree root node is NULL''))]
            | Some tree \<Rightarrow> ToNodeTree (frame\<lparr>fr_meta := meta\<rparr>) #
                (case tree (frame\<lparr>fr_meta := meta\<rparr>) of None \<Rightarrow> []
                 | Some e \<Rightarrow> [SendMessage connection_id (request_error env (fr_meta frame) e)])),
       br\<lparr>br_acl := acl\<rparr>)"
proof -
  obtain acl where "authorize_request env connection_id h (fr_meta frame) (br_acl br) =
      (authorize_spec env connection_id h (fr_meta frame) (defs (br_acl br)), acl)" "manager_ok acl" "defs acl = defs (br_acl br)"
    using implementsD [OF authorize_implements [OF assms(3)] assms(1)] by blast
  then show ?thesis
    using assms(2) by (intro exI [of _ acl]) (auto simp: BrokerApp_processRequest_def Let_def split: sum.splits option.splits)
qed

lemma meta_ids_same_but: "same_but ks md md' \<Longrightarrow> Tag_CallerIds \<notin> ks \<Longrightarrow> meta_ids md' = meta_ids md \<and> meta_ids_ok md' = meta_ids_ok md"
  using same_but_value [of ks md md' Tag_CallerIds] by (simp add: meta_ids_def meta_ids_ok_def RpcMessage_callerIds_m_def)

text \<open>
  What a client's request looks like in the node tree: the access rules gave it its grant, the
  connection is on top of the caller ids, and everything but the user id is as it was.
\<close>

lemma client_request_parts:
  assumes "authorize_spec env connection_id (Client c) md d = Inr md'"
  obtains md1 g where "client_request env c md = Inr md1"
    "grant_spec d (ul_user (sv_userLogin c)) (RpcValue_toString (RpcMessage_shvPath_m md))
        (RpcValue_asString (RpcMessage_method_m md)) False (AccessGrant_make None []) = Inr g"
    "AccessLevel_None < ag_level g"
    "RpcMessage_pushCallerId_m connection_id (RpcMessage_setAccessGrant_m g
       (if ag_level g < AccessLevel_Write then RpcMessage_setUserId_m invalid_value md1 else md1)) = Inr md'"
    "RpcMessage_accessGrant_m md' = Inr g"
proof -
  from assms obtain md1 g0 g where md1: "client_request env c md = Inr md1"
    and g: "grant_spec d (ul_user (sv_userLogin c)) (RpcValue_toString (RpcMessage_shvPath_m md))
        (RpcValue_asString (RpcMessage_method_m md1)) False g0 = Inr g"
    and pos: "AccessLevel_None < ag_level g"
    and push: "RpcMessage_pushCallerId_m connection_id (RpcMessage_setAccessGrant_m g
               (if ag_level g < AccessLevel_Write then RpcMessage_setUserId_m invalid_value md1 else md1)) = Inr md'"
    by (auto simp: authorize_spec_def Let_def handle_request_def bind_e_Inr split: if_splits)
  have "RpcMessage_method_m md1 = RpcMessage_method_m md"
    using same_but_value [OF client_request_same_but [OF md1], of "{Tag_UserId, Tag_Access, Tag_AccessLevel}" Tag_Method]
    by (simp add: RpcMessage_method_m_def)
  with md1 g [unfolded client_grant_own [of _ _ _ _ g0]] pos push grant_read_back [OF client_grant_wf [OF g pos] push]
  show thesis using that by simp
qed

lemma client_request_routed:
  assumes auth: "authorize_spec env connection_id (Client c) md d = Inr md'"
    and ids: "meta_ids_ok md" "in_s 32 connection_id"
  shows "\<exists>g. grant_spec d (ul_user (sv_userLogin c)) (RpcValue_toString (RpcMessage_shvPath_m md))
        (RpcValue_asString (RpcMessage_method_m md)) False (AccessGrant_make None []) = Inr g \<and>
      AccessLevel_None < ag_level g \<and> RpcMessage_accessGrant_m md' = Inr g \<and>
      meta_ids md' = meta_ids md @ [connection_id] \<and>
      same_but {Tag_UserId, Tag_Access, Tag_AccessLevel, Tag_CallerIds} md md'"
proof -
  let ?ks = "{Tag_UserId, Tag_Access, Tag_AccessLevel}" and ?ks' = "{Tag_UserId, Tag_Access, Tag_AccessLevel, Tag_CallerIds}"
  obtain md1 g where md1: "client_request env c md = Inr md1"
    and g: "grant_spec d (ul_user (sv_userLogin c)) (RpcValue_toString (RpcMessage_shvPath_m md))
        (RpcValue_asString (RpcMessage_method_m md)) False (AccessGrant_make None []) = Inr g"
    and pos: "AccessLevel_None < ag_level g"
    and push: "RpcMessage_pushCallerId_m connection_id (RpcMessage_setAccessGrant_m g
               (if ag_level g < AccessLevel_Write then RpcMessage_setUserId_m invalid_value md1 else md1)) = Inr md'"
    and rd: "RpcMessage_accessGrant_m md' = Inr g"
    by (rule client_request_parts [OF auth])
  define md2 where "md2 = RpcMessage_setAccessGrant_m g
    (if ag_level g < AccessLevel_Write then RpcMessage_setUserId_m invalid_value md1 else md1)"
  have s1: "same_but ?ks md md1" by (rule client_request_same_but [OF md1]) simp
  have "same_but ?ks md1 md2" unfolding md2_def
    by (rule same_but_trans [OF _ same_but_grant]) (auto simp: same_but_put)
  with s1 have s2: "same_but ?ks md md2" by (rule same_but_trans)
  then have s2': "same_but ?ks' md md2" by (simp add: same_but_def)
  have i2: "meta_ids md2 = meta_ids md" "meta_ids_ok md2" using meta_ids_same_but [OF s2] ids(1) by auto
  obtain md3 where md3: "RpcMessage_pushCallerId_m connection_id md2 = Inr md3" "meta_ids md3 = meta_ids md2 @ [connection_id]"
    using caller.push [OF i2(2) ids(2)] by blast
  have "md3 = md'" using push md3(1) by (simp add: md2_def)
  moreover have "same_but ?ks' md md'"
    using same_but_trans [OF s2' pushCallerId_same_but [OF md3(1)]] \<open>md3 = md'\<close> by simp
  ultimately show ?thesis using g pos rd md3(2) i2(1) by auto
qed

text \<open>The user id a client's request arrives with names the user who is logged in.\<close>

lemma client_request_user:
  assumes "authorize_spec env connection_id (Client c) md d = Inr md'" "\<not> ccb_isSlave c"
    "RpcMessage_accessGrant_m md' = Inr ag" "AccessLevel_Write \<le> ag_level ag"
  shows "RpcMap_value (RpcValue_asMap (RpcMessage_userId_m md')) KEY_SHV_USER invalid_value =
    rpc (VString (ul_user (sv_userLogin c)))"
proof -
  obtain md1 g where md1: "client_request env c md = Inr md1"
    and push: "RpcMessage_pushCallerId_m connection_id (RpcMessage_setAccessGrant_m g
               (if ag_level g < AccessLevel_Write then RpcMessage_setUserId_m invalid_value md1 else md1)) = Inr md'"
    and rd: "RpcMessage_accessGrant_m md' = Inr g"
    by (rule client_request_parts [OF assms(1)])
  have "ag = g" using rd assms(3) by simp
  then have push': "RpcMessage_pushCallerId_m connection_id (RpcMessage_setAccessGrant_m g md1) = Inr md'"
    using push assms(4) by simp
  let ?ks = "{Tag_Access, Tag_AccessLevel, Tag_CallerIds}"
  have "same_but ?ks md1 md'"
    by (rule same_but_trans [OF same_but_grant pushCallerId_same_but [OF push']]) simp_all
  from same_but_value [OF this, of Tag_UserId] have "RpcMessage_userId_m md' = RpcMessage_userId_m md1"
    by (simp add: RpcMessage_userId_m_def)
  moreover have "\<exists>m md0. md1 = RpcMessage_setUserId_m (rpc (VMap (map_set KEY_BROKER_ID (rpc (VString (be_brokerId env)))
      (map_set KEY_SHV_USER (rpc (VString (ul_user (sv_userLogin c)))) m)))) md0"
    using md1 assms(2) by (auto simp: client_request_def Let_def split: sum.splits)
  ultimately show ?thesis
    by (auto simp: RpcMessage_userId_m_def RpcMessage_setUserId_m_def value_i_setValue_i type_test_defs as_defs
        RpcMap_value_def KEY_SHV_USER_def KEY_BROKER_ID_def std_map_simps)
qed

lemma routed_request:
  assumes "manager_ok (br_acl br)" "BrokerApp_clientConnectionById br connection_id = Some c"
    and "plain_name (ul_user (sv_userLogin c))"
    and "ToNodeTree f \<in> set (fst (BrokerApp_processRequest env root_node connection_id frame br))"
  obtains md where "authorize_spec env connection_id (Client c) (fr_meta frame) (defs (br_acl br)) = Inr md" "f = frame\<lparr>fr_meta := md\<rparr>"
proof -
  have h: "BrokerApp_commonClientConnectionById br connection_id = Some (Client c)"
    using assms(2) by (simp add: BrokerApp_commonClientConnectionById_def)
  show thesis
    using processRequest_spec [OF assms(1) h, of env root_node frame] assms(3,4) that
    by (auto split: sum.splits option.splits)
qed

lemma client_granted:
  assumes "manager_ok (br_acl br)" "BrokerApp_clientConnectionById br connection_id = Some c"
    and "plain_name (ul_user (sv_userLogin c))"
    and "ToNodeTree f \<in> set (fst (BrokerApp_processRequest env root_node connection_id frame br))"
  shows "\<exists>g. grant_spec (defs (br_acl br)) (ul_user (sv_userLogin c)) (RpcValue_toString (RpcMessage_shvPath_m (fr_meta frame)))
      (RpcValue_asString (RpcMessage_method_m (fr_meta frame))) False (AccessGrant_make None []) = Inr g \<and>
    RpcMessage_accessGrant_m (fr_meta f) = Inr g"
proof -
  obtain md where "authorize_spec env connection_id (Client c) (fr_meta frame) (defs (br_acl br)) = Inr md" "f = frame\<lparr>fr_meta := md\<rparr>"
    using routed_request [OF assms] .
  then show ?thesis by (auto elim!: client_request_parts)
qed

text \<open>The answer to a request that failed.\<close>

definition error_answer :: "rpc_meta \<Rightarrow> string \<Rightarrow> rpc_message \<Rightarrow> bool" where
  "error_answer md what m \<longleftrightarrow> answers md m \<and> RpcResponse_isError m = Inr True \<and>
     RpcError_code (RpcResponse_error m) = Inr 8 \<and> RpcError_message (RpcResponse_error m) = what"

lemma forRequest_isIMap:
  assumes "RpcValue_isValid (RpcMessage_requestId_m md)"
  shows "RpcValue_isIMap (RpcResponse_forRequest md)"
proof -
  have set: "RpcValue_isIMap (RpcMessage_setMetaValue_i k v m)" if "RpcValue_isIMap m \<or> m = RpcMessage_empty" for k v m
    using that by (auto simp: RpcMessage_setMetaValue_i_def RpcMessage_checkMetaValues_def RpcMessage_empty_def Let_def isIMap_iff type_test_defs)
  show ?thesis using assms
    by (simp add: RpcResponse_forRequest_def Let_def RpcResponse_setRequestId_def RpcMessage_setRequestId_def RpcMessage_setCallerIds_def set)
qed

lemma request_error_answers:
  assumes "RpcValue_isValid (RpcMessage_requestId_m md)"
  shows "error_answer md (exn_what env e) (request_error env md e)"
proof -
  define err where "err = RpcError_create 8 (exn_what env e) invalid_value"
  have wf: "error_wf (RpcError_setCode 8 RpcError_empty)" by (simp add: RpcError_setCode_def RpcError_value_setValue)
  have fields: "RpcError_code err = Inr 8" "RpcError_message err = exn_what env e" "RpcValue_isIMap err"
    by (simp_all add: err_def RpcError_create_def RpcError_setData_def RpcError_setCode_def RpcError_setMessage_def RpcError_code_def
        RpcError_message_def RpcError_value_setValue toInt_int as_defs in_s_def)
  then have valid: "RpcValue_isValid err" by (auto simp: isIMap_iff type_test_defs)
  have im: "RpcValue_isIMap (RpcResponse_forRequest md)" by (rule forRequest_isIMap [OF assms])
  have "RpcMessage_value (RpcMessage_setValue Key_Error err (RpcResponse_forRequest md)) Key_Error = err"
    using im valid checkMeta_valid [OF forRequest_valid [OF assms]]
    by (auto simp: RpcMessage_value_def RpcMessage_setValue_def isIMap_iff RpcValue_set_i_def RpcValue_at_i_def map_find_set)
  then have e: "RpcResponse_error (request_error env md e) = err"
    using fields(3) by (simp add: request_error_def err_def [symmetric] RpcResponse_error_def RpcResponse_setError_def
        RpcError_toRpcValue_def RpcError_fromRpcValue_def)
  have "answers md (RpcResponse_forRequest md)"
    using forRequest_fields [OF assms] forRequest_valid [OF assms] by (simp add: answers_def)
  then have "answers md (request_error env md e)" by (simp add: request_error_def RpcResponse_setError_def answers_setValue)
  then show ?thesis using fields(1,2) by (simp add: error_answer_def e RpcResponse_isError_def RpcError_isValid_def)
qed

text \<open>A client's request is let into the tree if the rules grant it access and its own grant can be read.\<close>

lemma authorize_client_unfold:
  assumes "RpcMessage_accessGrant_m md = Inr g0"
  obtains md1 where "client_request env c md = Inr md1"
    "authorize_spec env connection_id (Client c) md d =
       bind_e (grant_spec d (ul_user (sv_userLogin c)) (RpcValue_toString (RpcMessage_shvPath_m md))
         (RpcValue_asString (RpcMessage_method_m md)) False (AccessGrant_make None [])) (\<lambda>acg.
       if ag_level acg > AccessLevel_None then
         RpcMessage_pushCallerId_m connection_id (RpcMessage_setAccessGrant_m acg
           (if ag_level acg < AccessLevel_Write then RpcMessage_setUserId_m invalid_value md1 else md1))
       else Inl (RuntimeError (''Acces to shv path '' @ CHR 0x27 # RpcValue_toString (RpcMessage_shvPath_m md) @ CHR 0x27 #
              '' not granted for user '' @ CHR 0x27 # ul_user (sv_userLogin c) @ [CHR 0x27])))"
proof -
  have "\<exists>md1. client_request env c md = Inr md1" using assms by (simp add: client_request_def Let_def)
  then obtain md1 where md1: "client_request env c md = Inr md1" by blast
  have user: "RpcMessage_accessGrant_m (RpcMessage_setUserId_m v m) = RpcMessage_accessGrant_m m" for v m
    by (rule same_but_accessGrant [OF same_but_put(1) [of "{Tag_UserId}"]]) simp_all
  have "in_s 32 (ag_level (AccessGrant_make None []))" by (simp add: AccessGrant_make_def in_s_def)
  from accessGrant_read_back [OF this]
  obtain g1 where g1: "RpcMessage_accessGrant_m md1 = Inr g1"
    using md1 assms by (auto simp: client_request_def Let_def user split: if_splits)
  have "RpcMessage_method_m md1 = RpcMessage_method_m md"
    using same_but_value [OF client_request_same_but [OF md1], of "{Tag_UserId, Tag_Access, Tag_AccessLevel}" Tag_Method]
    by (simp add: RpcMessage_method_m_def)
  then show thesis
    using client_grant_own [of d "ul_user (sv_userLogin c)" "RpcValue_toString (RpcMessage_shvPath_m md)"
        "RpcValue_asString (RpcMessage_method_m md)" g1]
    by (intro that [OF md1]) (simp add: authorize_spec_def handle_request_def Let_def md1 g1 cong: if_cong)
qed

lemma authorize_client_refused:
  assumes "authorize_spec env connection_id (Client c) md d = Inl e" "meta_ids_ok md" "in_s 32 connection_id"
  defines "granted \<equiv> grant_spec d (ul_user (sv_userLogin c)) (RpcValue_toString (RpcMessage_shvPath_m md))
      (RpcValue_asString (RpcMessage_method_m md)) False (AccessGrant_make None [])"
  shows "granted = Inl e \<or> (\<exists>e'. RpcMessage_accessGrant_m md = Inl e') \<or> (\<exists>g. granted = Inr g \<and> ag_level g \<le> AccessLevel_None)"
proof (cases "RpcMessage_accessGrant_m md")
  case (Inr g0)
  obtain md1 where md1: "client_request env c md = Inr md1"
    and auth: "authorize_spec env connection_id (Client c) md d =
       bind_e granted (\<lambda>acg.
       if ag_level acg > AccessLevel_None then
         RpcMessage_pushCallerId_m connection_id (RpcMessage_setAccessGrant_m acg
           (if ag_level acg < AccessLevel_Write then RpcMessage_setUserId_m invalid_value md1 else md1))
       else Inl (RuntimeError (''Acces to shv path '' @ CHR 0x27 # RpcValue_toString (RpcMessage_shvPath_m md) @ CHR 0x27 #
              '' not granted for user '' @ CHR 0x27 # ul_user (sv_userLogin c) @ [CHR 0x27])))"
    unfolding granted_def by (rule authorize_client_unfold [OF Inr])
  have push: "\<exists>md3. RpcMessage_pushCallerId_m connection_id (RpcMessage_setAccessGrant_m g
      (if ag_level g < AccessLevel_Write then RpcMessage_setUserId_m invalid_value md1 else md1)) = Inr md3" for g
  proof -
    let ?ks = "{Tag_UserId, Tag_Access, Tag_AccessLevel}"
    let ?md2 = "RpcMessage_setAccessGrant_m g (if ag_level g < AccessLevel_Write then RpcMessage_setUserId_m invalid_value md1 else md1)"
    have "same_but ?ks md md1" by (rule client_request_same_but [OF md1]) simp
    moreover have "same_but ?ks md1 ?md2"
      by (rule same_but_trans [OF _ same_but_grant]) (auto simp: same_but_put)
    ultimately have "same_but ?ks md ?md2" by (rule same_but_trans)
    then have "meta_ids_ok ?md2" using meta_ids_same_but [of ?ks md ?md2] assms(2) by auto
    then show ?thesis using caller.push [OF _ assms(3)] by blast
  qed
  show ?thesis
  proof (cases granted)
    case (Inl e0)
    then show ?thesis using auth assms(1) by simp
  next
    case (Inr g)
    then show ?thesis using auth assms(1) push [of g] by (auto split: if_splits)
  qed
qed simp

text \<open>
  What the broker does with a request of a client: \<open>routed_as\<close> says what the request is in the tree.
\<close>

definition routed_as :: "access_grant \<Rightarrow> client_connection \<Rightarrow> int \<Rightarrow> rpc_frame \<Rightarrow> rpc_frame \<Rightarrow> bool" where
  "routed_as g c connection_id frame f \<longleftrightarrow>
     RpcMessage_accessGrant_m (fr_meta f) = Inr g \<and>
     meta_ids (fr_meta f) = meta_ids (fr_meta frame) @ [connection_id] \<and>
     same_but {Tag_UserId, Tag_Access, Tag_AccessLevel, Tag_CallerIds} (fr_meta frame) (fr_meta f) \<and>
     fr_data f = fr_data frame \<and>
     (ccb_isSlave c \<or> ag_level g < AccessLevel_Write \<or>
      RpcMap_value (RpcValue_asMap (RpcMessage_userId_m (fr_meta f))) KEY_SHV_USER invalid_value =
        rpc (VString (ul_user (sv_userLogin c))))"

lemma request_effects:
  assumes "manager_ok (br_acl br)" "BrokerApp_clientConnectionById br connection_id = Some c"
    and "plain_name (ul_user (sv_userLogin c))" "meta_ids_ok (fr_meta frame)" "in_s 32 connection_id"
    and id: "RpcValue_isValid (RpcMessage_requestId_m (fr_meta frame))"
  defines "granted \<equiv> grant_spec (defs (br_acl br)) (ul_user (sv_userLogin c)) (RpcValue_toString (RpcMessage_shvPath_m (fr_meta frame)))
      (RpcValue_asString (RpcMessage_method_m (fr_meta frame))) False (AccessGrant_make None [])"
  shows "(\<exists>tree g f answer. root_node = Some tree \<and> granted = Inr g \<and> AccessLevel_None < ag_level g \<and>
      fst (BrokerApp_processRequest env root_node connection_id frame br) = ToNodeTree f # answer \<and> routed_as g c connection_id frame f \<and>
      (case tree f of None \<Rightarrow> answer = []
       | Some e \<Rightarrow> \<exists>msg. answer = [SendMessage connection_id msg] \<and> error_answer (fr_meta frame) (exn_what env e) msg)) \<or>
    (\<exists>msg e. fst (BrokerApp_processRequest env root_node connection_id frame br) = [SendMessage connection_id msg] \<and>
      error_answer (fr_meta frame) (exn_what env e) msg \<and>
      (root_node = None \<or> granted = Inl e \<or> (\<exists>e'. RpcMessage_accessGrant_m (fr_meta frame) = Inl e') \<or>
       (\<exists>g. granted = Inr g \<and> ag_level g \<le> AccessLevel_None)))"
proof -
  have h: "BrokerApp_commonClientConnectionById br connection_id = Some (Client c)"
    using assms(2) by (simp add: BrokerApp_commonClientConnectionById_def)
  let ?auth = "authorize_spec env connection_id (Client c) (fr_meta frame) (defs (br_acl br))"
  have effects: "fst (BrokerApp_processRequest env root_node connection_id frame br) =
      (case ?auth of
         Inl e \<Rightarrow> [SendMessage connection_id (request_error env (fr_meta frame) e)]
       | Inr meta \<Rightarrow>
           (case root_node of
              None \<Rightarrow> [SendMessage connection_id (request_error env (fr_meta frame) (ShvException ''Device tree root node is NULL''))]
            | Some tree \<Rightarrow> ToNodeTree (frame\<lparr>fr_meta := meta\<rparr>) #
                (case tree (frame\<lparr>fr_meta := meta\<rparr>) of None \<Rightarrow> []
                 | Some e \<Rightarrow> [SendMessage connection_id (request_error env (fr_meta frame) e)])))"
    using processRequest_spec [OF assms(1) h, of env root_node frame] assms(3) by auto
  show ?thesis
  proof (cases ?auth)
    case (Inl e)
    have "granted = Inl e \<or> (\<exists>e'. RpcMessage_accessGrant_m (fr_meta frame) = Inl e') \<or> (\<exists>g. granted = Inr g \<and> ag_level g \<le> AccessLevel_None)"
      unfolding granted_def by (rule authorize_client_refused [OF Inl assms(4,5)])
    then show ?thesis using Inl effects request_error_answers [OF id] by fastforce
  next
    case (Inr md)
    show ?thesis
    proof (cases root_node)
      case None
      then show ?thesis using Inr effects request_error_answers [OF id] by fastforce
    next
      case (Some tree)
      let ?f = "frame\<lparr>fr_meta := md\<rparr>"
      obtain g where g: "granted = Inr g" "AccessLevel_None < ag_level g" "RpcMessage_accessGrant_m md = Inr g"
          "meta_ids md = meta_ids (fr_meta frame) @ [connection_id]"
          "same_but {Tag_UserId, Tag_Access, Tag_AccessLevel, Tag_CallerIds} (fr_meta frame) md"
        using client_request_routed [OF Inr assms(4,5)] unfolding granted_def by blast
      have "routed_as g c connection_id frame ?f"
        using g(3-5) client_request_user [OF Inr _ g(3)] by (auto simp: routed_as_def linorder_not_le [symmetric])
      moreover have "fst (BrokerApp_processRequest env root_node connection_id frame br) = ToNodeTree ?f #
          (case tree ?f of None \<Rightarrow> [] | Some e \<Rightarrow> [SendMessage connection_id (request_error env (fr_meta frame) e)])"
        using effects Inr Some by simp
      ultimately show ?thesis using g(1,2) Some request_error_answers [OF id]
        by (intro disjI1 exI [of _ tree] exI [of _ g] exI [of _ ?f] exI conjI) (auto split: option.split)
    qed
  qed
qed

text \<open>Every request in the tree has the connection it came from on top of its caller ids.\<close>

lemma handle_request_same_but:
  "handle_request env h path md = Inr md' \<Longrightarrow> same_but {Tag_UserId, Tag_Access, Tag_AccessLevel, Tag_ShvPath} md md'"
proof (cases h)
  case (Client c)
  then show "handle_request env h path md = Inr md' \<Longrightarrow> ?thesis"
    using client_request_same_but [of env c md md'] by (auto simp: handle_request_def)
next
  case (Master mc)
  have "same_but ks m (RpcMetaData_setValue_s k v m)" for ks k v m by (simp add: same_but_def RpcMetaData_setValue_s_def)
  then show "handle_request env h path md = Inr md' \<Longrightarrow> ?thesis"
    using Master by (auto simp: handle_request_def master_request_def Let_def same_but_put split: if_splits sum.splits bool.splits
        intro: same_but_trans [OF _ same_but_put(3)])
qed

lemma routed_ids:
  assumes "ToNodeTree f \<in> set (fst (BrokerApp_processRequest env root_node connection_id frame br))"
    and "meta_ids_ok (fr_meta frame)" "in_s 32 connection_id"
  shows "meta_ids (fr_meta f) = meta_ids (fr_meta frame) @ [connection_id]"
proof -
  let ?ks = "{Tag_UserId, Tag_Access, Tag_AccessLevel, Tag_ShvPath}"
  obtain h md acl where auth: "authorize_request env connection_id h (fr_meta frame) (br_acl br) = (Inr md, acl)" and f: "f = frame\<lparr>fr_meta := md\<rparr>"
    using assms(1) by (auto simp: BrokerApp_processRequest_def Let_def split: option.splits sum.splits prod.splits)
  obtain md1 md2 where "handle_request env h (RpcValue_toString (RpcMessage_shvPath_m (fr_meta frame))) (fr_meta frame) = Inr md1"
      and md2: "same_but ?ks md1 md2" "RpcMessage_pushCallerId_m connection_id md2 = Inr md"
  proof -
    obtain md1 acg where "handle_request env h (RpcValue_toString (RpcMessage_shvPath_m (fr_meta frame))) (fr_meta frame) = Inr md1"
      "RpcMessage_pushCallerId_m connection_id (RpcMessage_setAccessGrant_m acg
         (if ag_level acg < AccessLevel_Write then RpcMessage_setUserId_m invalid_value md1 else md1)) = Inr md"
      using auth by (auto simp: authorize_request_def Let_def bind_m_def lift_m_def split: sum.splits prod.splits if_splits)
    moreover have "same_but ?ks md1 (RpcMessage_setAccessGrant_m acg
         (if ag_level acg < AccessLevel_Write then RpcMessage_setUserId_m invalid_value md1 else md1))"
      by (rule same_but_trans [OF _ same_but_grant]) (auto simp: same_but_put)
    ultimately show thesis using that by blast
  qed
  then have s: "same_but ?ks (fr_meta frame) md2" using handle_request_same_but same_but_trans by blast
  then have "meta_ids md2 = meta_ids (fr_meta frame)" "meta_ids_ok md2" using meta_ids_same_but [OF s] assms(2) by auto
  then show ?thesis using caller.push [OF _ assms(3)] md2(2) f by fastforce
qed

section \<open>Responses go back\<close>

lemma response_to_caller:
  assumes "meta_ids_ok (fr_meta frame)" "meta_ids (fr_meta frame) = ids @ [caller_id]" "caller_id > 0"
    and "TunnelCtl_state (RpcMessage_tunnelCtl_m (fr_meta frame)) = Inr st" "st \<noteq> tunnel_state_int FindTunnelRequest"
    and "BrokerApp_commonClientConnectionById br caller_id \<noteq> None"
  shows "\<exists>md. BrokerApp_processResponse env connection_id frame br = (Inr [SendFrame caller_id (frame\<lparr>fr_meta := md\<rparr>)], br) \<and>
    meta_ids md = ids \<and> same_but {Tag_CallerIds} (fr_meta frame) md"
proof -
  obtain md where md: "RpcMessage_popCallerId_m (fr_meta frame) = Inr (caller_id, md)" "meta_ids md = ids"
    using caller.pop [OF assms(1)] assms(2) by auto
  have "same_but {Tag_CallerIds} (fr_meta frame) md"
    using md(1) by (cases "RpcMessage_popCallerId_v (RpcMessage_callerIds_m (fr_meta frame))")
      (auto simp: RpcMessage_popCallerId_m_def same_but_put)
  moreover from same_but_value [OF this, of Tag_TunnelCtl]
  have "RpcMessage_tunnelCtl_m md = RpcMessage_tunnelCtl_m (fr_meta frame)" by (simp add: RpcMessage_tunnelCtl_m_def)
  ultimately show ?thesis
    using md assms(3-6) by (intro exI [of _ md]) (simp add: BrokerApp_processResponse_def send_frame_def)
qed

section \<open>Signals go to the subscribers\<close>

definition subscribed :: "client_handle \<Rightarrow> string \<Rightarrow> string \<Rightarrow> string \<Rightarrow> bool" where
  "subscribed h path meth source \<longleftrightarrow>
     handle_isConnectedAndLoggedIn h \<and> (\<exists>s \<in> set (handle_subscriptions h). Subscription_match s path meth source)"

lemma notify_frame_iff:
  "x \<in> set (notify_frame frame h) \<longleftrightarrow>
   subscribed h (RpcValue_toString (RpcMessage_shvPath_m (fr_meta frame))) (RpcValue_asString (RpcMessage_method_m (fr_meta frame)))
     (RpcMessage_source_m (fr_meta frame)) \<and>
   x = SendFrame (handle_connectionId h) (frame\<lparr>fr_meta := RpcMessage_setShvPath_m
         (handle_toSubscribedPath h (RpcValue_asString (RpcMessage_shvPath_m (fr_meta frame)))) (fr_meta frame)\<rparr>)"
  by (auto simp: notify_frame_def subscribed_def isSubscribed_iff Let_def)

lemma shvPath_set: "RpcValue_toString (RpcMessage_shvPath_m (RpcMessage_setShvPath_m p md)) = p"
  "RpcValue_asString (RpcMessage_shvPath_m (RpcMessage_setShvPath_m p md)) = p"
  by (simp_all add: shvPath_field.get_put as_defs RpcValue_toString_def type_test_defs)

lemma map_set_twice: "map_set k v (map_set k w m) = map_set k v m"
  by (induction k w m rule: map_set.induct) auto

lemma setShvPath_fields:
  "RpcMessage_method_m (RpcMessage_setShvPath_m p md) = RpcMessage_method_m md"
  "RpcMessage_source_m (RpcMessage_setShvPath_m p md) = RpcMessage_source_m md"
  "RpcMessage_setShvPath_m q (RpcMessage_setShvPath_m p md) = RpcMessage_setShvPath_m q md"
  by (auto simp: meta_accessor_defs RpcMetaData_setValue_i_def RpcMetaData_value_i_def std_map_simps map_set_twice)

text \<open>The signal of a client under its mount point.\<close>

lemma signal_to_subscribers:
  fixes frame :: rpc_frame and c :: client_connection
  assumes "BrokerApp_clientConnectionById br connection_id = Some c"
  defines "md \<equiv> fr_meta frame"
  defines "path \<equiv> cc_mountPoint c @ CHR ''/'' # RpcValue_asString (RpcMessage_shvPath_m md)"
  shows "SendFrame i f \<in> set (fst (BrokerApp_processSignal connection_id frame br)) \<longleftrightarrow>
    (\<exists>h \<in> set (BrokerApp_allClientConnections br).
       subscribed h path (RpcValue_asString (RpcMessage_method_m md)) (RpcMessage_source_m md) \<and> i = handle_connectionId h \<and>
       f = frame\<lparr>fr_meta := RpcMessage_setShvPath_m (handle_toSubscribedPath h path) md\<rparr>)"
proof -
  define fr where "fr = frame\<lparr>fr_meta := RpcMessage_setShvPath_m path md\<rparr>"
  have "SendFrame i f \<in> set (fst (BrokerApp_processSignal connection_id frame br)) \<longleftrightarrow>
      SendFrame i f \<in> set (snd (BrokerApp_sendNotifyToSubscribers_frame br fr))"
    using assms(1) by (auto simp: BrokerApp_processSignal_def Let_def fr_def md_def path_def split: prod.splits)
  also have "\<dots> \<longleftrightarrow> (\<exists>h \<in> set (BrokerApp_allClientConnections br). SendFrame i f \<in> set (notify_frame fr h))"
    by (simp add: BrokerApp_sendNotifyToSubscribers_frame_def Let_def)
  finally show ?thesis by (simp add: notify_frame_iff fr_def shvPath_set setShvPath_fields)
qed

text \<open>
  The signals of the broker itself: once a master has been told another path, everybody behind it is
  told that path.
\<close>

lemma notify_leaks_path:
  assumes "subscribed h1 path m src" "subscribed h2 path m src"
    and "handle_toSubscribedPath h1 path \<noteq> path" "handle_toSubscribedPath h2 path = path"
  shows "notify_loop path m src sig [h1, h2] =
    [SendMessage (handle_connectionId h1) (RpcMessage_setShvPath (handle_toSubscribedPath h1 path) sig),
     SendMessage (handle_connectionId h2) (RpcMessage_setShvPath (handle_toSubscribedPath h1 path) sig)]"
  using assms by (simp add: subscribed_def isSubscribed_iff Let_def)

text \<open>Everybody gets the path meant for them if there is at most one master.\<close>

lemma notify_loop_clients:
  assumes "\<forall>h \<in> set l. handle_toSubscribedPath h path = path"
  shows "notify_loop path m src sig l = map (\<lambda>h. SendMessage (handle_connectionId h) sig) (filter (\<lambda>h. subscribed h path m src) l)"
  using assms by (induction l) (auto simp: subscribed_def isSubscribed_iff Let_def)

lemma notify_loop_append:
  "\<forall>h \<in> set l. handle_toSubscribedPath h path = path \<Longrightarrow>
   notify_loop path m src sig (l @ r) = notify_loop path m src sig l @ notify_loop path m src sig r"
  by (induction l) (auto simp: Let_def)

lemma broker_signal_one_master:
  assumes "length (br_masters br) \<le> 1"
  shows "BrokerApp_sendNotifyToSubscribers br path m src params =
    map (\<lambda>h. SendMessage (handle_connectionId h)
           (if handle_toSubscribedPath h path = path then broker_signal path m src params
            else RpcMessage_setShvPath (handle_toSubscribedPath h path) (broker_signal path m src params)))
      (filter (\<lambda>h. subscribed h path m src) (BrokerApp_allClientConnections br))"
proof -
  have c: "\<forall>h \<in> set (map Client (br_clients br)). handle_toSubscribedPath h path = path" by auto
  have "br_masters br = [] \<or> (\<exists>mc. br_masters br = [mc])" using assms by (cases "br_masters br") auto
  then show ?thesis
    by (auto simp: BrokerApp_sendNotifyToSubscribers_def BrokerApp_allClientConnections_def notify_loop_append [OF c]
        notify_loop_clients [OF c] subscribed_def isSubscribed_iff Let_def filter_map comp_def)
qed

section \<open>Subscriptions of a master cannot be taken back\<close>

definition clean_path :: "string \<Rightarrow> bool" where
  "clean_path p \<longleftrightarrow> p \<noteq> [] \<and> hd p \<noteq> CHR ''/'' \<and> last p \<noteq> CHR ''/''"

lemma Subscription_clean: "clean_path p \<Longrightarrow> sub_path (Subscription_make p m s) = p"
  using Subscription_path [of p 0 0 m s] by (simp add: clean_path_def)

lemma master_subscription_path:
  assumes "clean_path exported" "clean_path p" "startsWithPath p DIR_BROKER = None"
  shows "sub_path (MasterBrokerConnection_createSubscription exported p m s) = exported @ CHR ''/'' # p"
proof -
  obtain e c where e: "exported = e @ [c]" "c \<noteq> CHR ''/''" using assms(1) by (cases exported rule: rev_cases) (auto simp: clean_path_def)
  obtain q ps where q: "p = q # ps" "q \<noteq> CHR ''/''" using assms(2) by (cases p) (auto simp: clean_path_def)
  have "masterExportedToLocalPath exported p = exported @ CHR ''/'' # p"
    using assms(3) e q by (simp add: masterExportedToLocalPath_def ShvPath_appendPath_def joinPath_def)
  moreover have "clean_path (exported @ CHR ''/'' # p)" using assms(1,2) by (auto simp: clean_path_def)
  ultimately show ?thesis by (simp add: MasterBrokerConnection_createSubscription_def Subscription_clean)
qed

lemma master_unsubscribe_fails:
  assumes "clean_path exported" "clean_path p" "startsWithPath p DIR_BROKER = None"
    and "Subscription_make p m s \<notin> set l"
  shows "removeSubscription (Subscription_make p m s) (snd (addSubscription (MasterBrokerConnection_createSubscription exported p m s) l)) =
    (False, snd (addSubscription (MasterBrokerConnection_createSubscription exported p m s) l))"
proof -
  let ?a = "MasterBrokerConnection_createSubscription exported p m s"
  have "?a \<noteq> Subscription_make p m s"
    using master_subscription_path [OF assms(1-3), of m s] Subscription_clean [OF assms(2), of m s]
    by (auto dest: arg_cong [of _ _ length])
  then have "Subscription_make p m s \<notin> set (snd (addSubscription ?a l))"
    using assms(4) by (auto simp: addSubscription_set)
  then have "find_ix (Subscription_cmpSubscribed (Subscription_make p m s)) 0 (snd (addSubscription ?a l)) = None"
    by (auto simp: find_ix_None cmpSubscribed_iff)
  then show ?thesis by (simp add: removeSubscription_def)
qed

lemma propagate_to_masters: "br_masters (snd (propagate_to subs c br)) = br_masters br \<and> br_clients (snd (propagate_to subs c br)) = br_clients br"
  by (simp add: propagate_to_def Let_def split: option.splits)

lemma propagate_all_masters: "br_masters (snd (propagate_all subs cs br)) = br_masters br \<and> br_clients (snd (propagate_all subs cs br)) = br_clients br"
  by (induction cs arbitrary: br) (simp_all add: case_prod_unfold propagate_to_masters)

lemma find_update:
  assumes "\<And>x. k (f x) = k x" "find (\<lambda>x. k x = i) xs = Some y"
  shows "find (\<lambda>x. k x = i) (map (\<lambda>x. if k x = i then f x else x) xs) = Some (f y)"
  using assms by (induction xs) (auto split: if_splits)

lemma update_master:
  assumes "BrokerApp_clientConnectionById br i = None" "BrokerApp_masterBrokerConnectionById br i = Some mc"
  shows "BrokerApp_clientConnectionById (update_subscriptions i f br) i = None"
    "BrokerApp_masterBrokerConnectionById (update_subscriptions i f br) i = Some (mc\<lparr>mc_subscriptions := f (mc_subscriptions mc)\<rparr>)"
  using assms find_update [of mc_connectionId "\<lambda>m. m\<lparr>mc_subscriptions := f (mc_subscriptions m)\<rparr>" i "br_masters br" mc]
  by (simp_all add: update_subscriptions_def BrokerApp_clientConnectionById_def BrokerApp_masterBrokerConnectionById_def)

lemma master_remove_fails:
  assumes "BrokerApp_clientConnectionById br i = None" "BrokerApp_masterBrokerConnectionById br i = Some mc"
    and "clean_path (mc_exportedShvPath mc)" "clean_path p" "startsWithPath p DIR_BROKER = None"
    and "Subscription_make p m s \<notin> set (mc_subscriptions mc)"
    and "BrokerApp_addSubscription i p m s br = (Inr effects, br')"
  shows "\<exists>br'' mc'. BrokerApp_removeSubscription i p m s br' = (Inr False, br'') \<and>
    BrokerApp_masterBrokerConnectionById br'' i = Some mc' \<and>
    MasterBrokerConnection_createSubscription (mc_exportedShvPath mc) p m s \<in> set (mc_subscriptions mc')"
proof -
  let ?a = "MasterBrokerConnection_createSubscription (mc_exportedShvPath mc) p m s"
  let ?l = "snd (addSubscription ?a (mc_subscriptions mc))"
  have h: "BrokerApp_commonClientConnectionById br i = Some (Master mc)"
    using assms(1,2) by (simp add: BrokerApp_commonClientConnectionById_def)
  let ?b = "update_subscriptions i (\<lambda>l. snd (addSubscription ?a l)) (br\<lparr>br_acl := br_acl br\<rparr>)"
  have "br' = snd (propagate_all ?a (filter ccb_isSlave (br_clients ?b)) ?b)"
    using assms(7) h by (auto simp: BrokerApp_addSubscription_def handle_createSubscription_def ret_m_def Let_def apfst_def map_prod_def
        split: prod.splits)
  then have same: "br_masters br' = br_masters ?b" "br_clients br' = br_clients ?b" using propagate_all_masters by auto
  note up = update_master [of "br\<lparr>br_acl := br_acl br\<rparr>" i mc "\<lambda>l. snd (addSubscription ?a l)"]
  have found: "BrokerApp_clientConnectionById br' i = None"
    "BrokerApp_masterBrokerConnectionById br' i = Some (mc\<lparr>mc_subscriptions := ?l\<rparr>)"
    using up assms(1,2) same
    by (simp_all add: BrokerApp_clientConnectionById_def BrokerApp_masterBrokerConnectionById_def)
  note fails = master_unsubscribe_fails [OF assms(3-6)]
  have "?a \<in> set ?l" by (simp add: addSubscription_set)
  then show ?thesis
    using found update_master [OF found, of "\<lambda>l. snd (removeSubscription (Subscription_make p m s) l)"] fails
    by (auto simp: BrokerApp_removeSubscription_def BrokerApp_commonClientConnectionById_def Let_def)
qed

end
