(* ===== verification/Cpon_Time.thy ===== *)
theory Cpon_Time
  imports Rpc_Decimal
begin

text \<open>
  The calendar of the text format (\<open>c/ccpon.c\<close>): \<open>ccpon_timegm\<close> counts the seconds from 1970 to a civil
  date, \<open>ccpon_gmtime\<close> is its inverse.  C divides towards zero (\<open>sdiv\<close>, \<open>smod\<close>); the days of a
  year are 32-bit integers.  The main lemma says that the two are inverse to each other from the year 1 on,
  in the proleptic Gregorian calendar.
\<close>

record tm =
  tm_year :: int
  tm_mon :: int
  tm_mday :: int
  tm_hour :: int
  tm_min :: int
  tm_sec :: int

definition is_leap :: "int \<Rightarrow> bool" where
  "is_leap y \<longleftrightarrow> y smod 4 = 0 \<and> (y smod 100 \<noteq> 0 \<or> y smod 400 = 0)"

definition days_from_0 :: "int \<Rightarrow> int" where
  "days_from_0 year =
     (let year = s_wrap 32 (year - 1) in s_wrap 32 (365 * year + year sdiv 400 - year sdiv 100 + year sdiv 4))"

definition days_from_1970 :: "int \<Rightarrow> int" where
  "days_from_1970 year = s_wrap 32 (days_from_0 year - days_from_0 1970)"

definition month_days :: "bool \<Rightarrow> int list" where
  "month_days leap =
     (if leap then [0, 31, 60, 91, 121, 152, 182, 213, 244, 274, 305, 335]
      else [0, 31, 59, 90, 120, 151, 181, 212, 243, 273, 304, 334])"

text \<open>\<open>None\<close>: the table is read outside its bounds.\<close>

definition days_from_1jan :: "int \<Rightarrow> int \<Rightarrow> int \<Rightarrow> int option" where
  "days_from_1jan year month mday =
     (if 0 \<le> month \<and> month < 12 then Some (s_wrap 32 (month_days (is_leap year) ! nat month + mday - 1))
      else None)"

definition ccpon_timegm :: "tm \<Rightarrow> int option" where
  "ccpon_timegm t =
     (let year = s_wrap 32 (tm_year t + 1900)
      in map_option (\<lambda>d. (((days_from_1970 year + d) * 24 + tm_hour t) * 60 + tm_min t) * 60 + tm_sec t)
           (days_from_1jan year (tm_mon t) (tm_mday t)))"

text \<open>Year, month from 0 and day of a number of days since 1970.\<close>

definition civil_from_days :: "int \<Rightarrow> int \<times> int \<times> int" where
  "civil_from_days z0 =
     (let z = z0 + 719468;
          era = (if z \<ge> 0 then z else z - 146096) sdiv 146097;
          doe = z - era * 146097;
          yoe = (doe - doe div 1460 + doe div 36524 - doe div 146096) div 365;
          y = s_wrap 32 (yoe + era * 400);
          doy = doe - (365 * yoe + yoe div 4 - yoe div 100);
          mp = (5 * doy + 2) div 153;
          d = doy - (153 * mp + 2) div 5 + 1;
          m = (if mp < 10 then mp + 3 else mp - 9)
      in (y + (if m \<le> 2 then 1 else 0), m - 1, d))"

definition ccpon_gmtime :: "int \<Rightarrow> tm" where
  "ccpon_gmtime epoch_sec =
     (let days0 = epoch_sec sdiv 86400; hms0 = epoch_sec - 86400 * days0;
          days_since_epoch = (if hms0 < 0 then days0 - 1 else days0);
          hms = (if hms0 < 0 then 86400 + hms0 else hms0);
          (y, m, d) = civil_from_days days_since_epoch;
          ms = hms smod 3600
      in \<lparr>tm_year = y - 1900, tm_mon = m, tm_mday = d, tm_hour = hms sdiv 3600, tm_min = ms sdiv 60, tm_sec = ms smod 60\<rparr>)"

section \<open>From days to a date and back\<close>

text \<open>Years of the computation begin in March; \<open>year_start\<close> is the first day of a year within its era of
  400 years.\<close>

definition year_start :: "int \<Rightarrow> int" where
  "year_start y = 365 * y + y div 4 - y div 100 + y div 400"

definition year_index :: "int \<Rightarrow> int" where
  "year_index doe = doe - doe div 1460 + doe div 36524 - doe div 146096"

lemma smod_pos: "0 \<le> (a::int) \<Longrightarrow> 0 < b \<Longrightarrow> a smod b = a mod b"
  by (cases "a = 0") (simp_all add: signed_modulo_int_def sgn_if)

lemma year_index_step: "0 \<le> d \<Longrightarrow> d < 146096 \<Longrightarrow> year_index d \<le> year_index (d + 1)"
proof -
  assume d: "0 \<le> d" "d < 146096"
  have "(d + 1) div 1460 \<le> d div 1460 + 1" by linarith
  moreover have "d div 36524 \<le> (d + 1) div 36524" by linarith
  moreover have "(d + 1) div 146096 = 0 \<and> d div 146096 = 0 \<or> d = 146095" using d by auto
  ultimately show ?thesis unfolding year_index_def using d by auto
qed

lemma year_index_mono: "a \<le> b \<Longrightarrow> 0 \<le> a \<Longrightarrow> b \<le> 146096 \<Longrightarrow> year_index a \<le> year_index b"
proof (induction b rule: int_ge_induct)
  case (step b)
  then show ?case using year_index_step [of b] by linarith
qed simp

text \<open>The ends of the 400 years of an era, and the 366 days of a year.\<close>

lemma year_ends:
  "list_all (\<lambda>y. 365 * y \<le> year_index (year_start y) \<and> year_index (year_start (y + 1) - 1) < 365 * (y + 1)) [0..399]"
  by code_simp

lemma year_start_bounds: "list_all (\<lambda>y. 0 \<le> year_start y \<and> year_start y \<le> 146097) [0..400]"
  by code_simp

definition month_index :: "int \<Rightarrow> int" where
  "month_index doy = (5 * doy + 2) div 153"

definition month_day :: "int \<Rightarrow> int" where
  "month_day doy = doy - (153 * month_index doy + 2) div 5 + 1"

definition month_place :: "int \<Rightarrow> int" where
  "month_place doy = (if month_index doy < 10 then month_index doy + 2 else month_index doy - 10)"

definition month_ok :: "int \<Rightarrow> bool" where
  "month_ok doy \<longleftrightarrow> 0 \<le> month_index doy \<and> month_index doy < 12 \<and> 1 \<le> month_day doy \<and> month_day doy \<le> 31 \<and>
     (month_index doy < 10 \<longleftrightarrow> doy < 306)"

definition month_sum :: "bool \<Rightarrow> int \<Rightarrow> bool" where
  "month_sum l doy \<longleftrightarrow>
     month_days l ! nat (month_place doy) + month_day doy - 1 =
       (if month_index doy < 10 then doy + 59 + of_bool l else doy - 306)"

lemma year_days: "list_all (\<lambda>doy. month_ok doy \<and> month_sum True doy \<and> month_sum False doy) [0..365]"
  by code_simp

lemma month_of_day: "0 \<le> doy \<Longrightarrow> doy < 366 \<Longrightarrow> month_ok doy \<and> month_sum l doy"
  using year_days by (cases l) (simp_all add: list_all_iff)

lemma year_of_day:
  assumes "0 \<le> doe" and "doe < 146097"
  defines "yoe \<equiv> year_index doe div 365"
  shows "0 \<le> yoe" and "yoe < 400" and "year_start yoe \<le> doe" and "doe < year_start (yoe + 1)"
proof -
  have low: "year_index 0 = 0" and high: "year_index 146096 = 145999" by (simp_all add: year_index_def)
  have "0 \<le> year_index doe" "year_index doe \<le> 145999"
    using year_index_mono [of 0 doe] year_index_mono [of doe 146096] assms(1,2) low high by linarith+
  then show yoe: "0 \<le> yoe" "yoe < 400" unfolding yoe_def by linarith+
  have ends: "365 * y \<le> year_index (year_start y)" "year_index (year_start (y + 1) - 1) < 365 * (y + 1)"
    if "0 \<le> y" "y < 400" for y
    using year_ends that by (auto simp: list_all_iff)
  have bounds: "0 \<le> year_start y" "year_start y \<le> 146097" if "0 \<le> y" "y \<le> 400" for y
    using year_start_bounds that by (auto simp: list_all_iff)
  have q: "365 * yoe \<le> year_index doe" "year_index doe < 365 * (yoe + 1)" 
    using mult_div_mod_eq [of 365 "year_index doe"] pos_mod_bound [of 365 "year_index doe"]
      pos_mod_sign [of 365 "year_index doe"]
    unfolding yoe_def distrib_left by linarith+
  show "year_start yoe \<le> doe"
  proof (rule ccontr)
    assume "\<not> year_start yoe \<le> doe"
    then have less: "doe \<le> year_start yoe - 1" by simp
    then have "0 < yoe" using yoe assms(1) by (cases "yoe = 0") (auto simp: year_start_def)
    then have "year_index doe < 365 * yoe"
      using ends(2) [of "yoe - 1"] year_index_mono [OF less assms(1)] bounds [of yoe] yoe by simp
    with q show False by simp
  qed
  show "doe < year_start (yoe + 1)"
  proof (rule ccontr)
    assume "\<not> doe < year_start (yoe + 1)"
    then have ge: "year_start (yoe + 1) \<le> doe" by simp
    then have "yoe + 1 < 400" using assms(2) yoe by (cases "yoe = 399") (auto simp: year_start_def)
    then have "365 * (yoe + 1) \<le> year_index doe"
      using ends(1) [of "yoe + 1"] year_index_mono [OF ge] bounds [of "yoe + 1"] yoe assms(2) by simp
    with q show False by simp
  qed
qed

lemma div_succ: "(y + 1) div k = y div k + of_bool (k dvd y + 1)" if k: "0 < k" for y k :: int
proof (cases "y mod k + 1 = k")
  case True
  have "y + 1 = k * (y div k + 1) + 0"
    using mult_div_mod_eq [of k y] True unfolding distrib_left by linarith
  then have "(y + 1) div k = y div k + 1" "k dvd y + 1" using k by simp_all
  then show ?thesis by simp
next
  case False
  then have r: "0 \<le> y mod k + 1" "y mod k + 1 < k" using pos_mod_bound [OF k, of y] pos_mod_sign [OF k, of y] by linarith+
  have eq: "y + 1 = k * (y div k) + (y mod k + 1)" using mult_div_mod_eq [of k y] by linarith
  then have "(y + 1) div k = y div k" by (rule int_div_pos_eq [OF _ r])
  moreover have "(y + 1) mod k = y mod k + 1" using eq r by (rule int_mod_pos_eq)
  moreover have "y mod k + 1 \<noteq> 0" using pos_mod_sign [OF k, of y] by linarith
  ultimately show ?thesis by (simp add: dvd_eq_mod_eq_0)
qed

text \<open>A year is a leap year by the three divisors; the sums below are linear in the quotients.\<close>

lemma leap_sum:
  "(c \<longrightarrow> b) \<Longrightarrow> (b \<longrightarrow> a) \<Longrightarrow> of_bool a - of_bool b + of_bool c = (of_bool (a \<and> (\<not> b \<or> c)) :: int)"
  by (cases a; cases b; cases c) simp_all

lemma quotient_sum:
  "a4' = a4 + x4 \<Longrightarrow> a100' = a100 + x100 \<Longrightarrow> a400' = a400 + x400 \<Longrightarrow> x4 - x100 + x400 = l \<Longrightarrow>
   365 * (y + 1) + a4' - a100' + a400' = 365 * y + a4 - a100 + a400 + 365 + (l::int)"
  by simp

lemma leap_dvd: "0 \<le> y \<Longrightarrow> is_leap y \<longleftrightarrow> 4 dvd y \<and> (\<not> 100 dvd y \<or> 400 dvd y)"
  by (simp only: is_leap_def smod_pos dvd_eq_mod_eq_0 zero_less_numeral)

lemma year_start_succ:
  assumes "0 \<le> y"
  shows "year_start (y + 1) = year_start y + 365 + of_bool (is_leap (y + 1))"
proof -
  have "400 dvd y + 1 \<longrightarrow> 100 dvd y + 1" using dvd_trans [of 100 400 "y + 1"] by simp
  moreover have "100 dvd y + 1 \<longrightarrow> 4 dvd y + 1" using dvd_trans [of 4 100 "y + 1"] by simp
  moreover have "0 \<le> y + 1" using assms by simp
  ultimately show ?thesis
    unfolding year_start_def
    by (intro quotient_sum [OF div_succ div_succ div_succ] zero_less_numeral) (simp only: leap_dvd leap_sum)
qed

text \<open>The eras are equally long, and \<open>days_from_0\<close> counts to the January before a year's March.\<close>

lemma year_start_era: "year_start (yoe + era * 400) = era * 146097 + year_start yoe"
proof -
  have "(yoe + era * 400) div 4 = yoe div 4 + era * 100" "(yoe + era * 400) div 100 = yoe div 100 + era * 4"
    "(yoe + era * 400) div 400 = yoe div 400 + era"
    using div_mult_self1 [of 4 yoe "era * 100"] div_mult_self1 [of 100 yoe "era * 4"] div_mult_self1 [of 400 yoe era]
    by (simp_all add: mult.assoc)
  then show ?thesis unfolding year_start_def by (simp only: distrib_left)
qed

definition year_ok :: "int \<Rightarrow> bool" where
  "year_ok y \<longleftrightarrow> 1 \<le> y \<and> y \<le> 5000000"

lemma div_le_self_int: "0 \<le> x \<Longrightarrow> 0 < k \<Longrightarrow> x div k \<le> x" for x k :: int
  using zdiv_mono2 [of x 1 k] by simp

lemma days_from_0_year_start: "year_ok y \<Longrightarrow> days_from_0 y = year_start (y - 1)"
proof -
  assume y: "year_ok y"
  then have wrap: "s_wrap 32 (y - 1) = y - 1" by (intro s_wrap_id) (simp add: in_s_def year_ok_def)
  have "0 \<le> y - 1" using y by (simp add: year_ok_def)
  then have "365 * (y - 1) + (y - 1) sdiv 400 - (y - 1) sdiv 100 + (y - 1) sdiv 4 = year_start (y - 1)"
    by (simp only: sdiv_nonneg zero_less_numeral year_start_def)
  moreover have "in_s 32 (year_start (y - 1))"
  proof -
    have "0 \<le> (y - 1) div 4" "(y - 1) div 4 \<le> y - 1" "0 \<le> (y - 1) div 100" "(y - 1) div 100 \<le> y - 1"
      "0 \<le> (y - 1) div 400" "(y - 1) div 400 \<le> y - 1"
      by (rule pos_imp_zdiv_nonneg_iff [THEN iffD2] div_le_self_int; use y in \<open>simp add: year_ok_def\<close>)+
    then show ?thesis using y unfolding year_start_def in_s_def year_ok_def by simp
  qed
  ultimately show ?thesis by (simp only: days_from_0_def Let_def wrap s_wrap_id)
qed

lemma days_from_1970_year_start: "year_ok y \<Longrightarrow> in_s 32 (year_start (y - 1) - 719162) \<Longrightarrow>
    days_from_1970 y = year_start (y - 1) - 719162"
proof -
  assume "year_ok y" and r: "in_s 32 (year_start (y - 1) - 719162)"
  moreover have "days_from_0 1970 = 719162" by code_simp
  ultimately show ?thesis by (simp add: days_from_1970_def days_from_0_year_start s_wrap_id)
qed

text \<open>The number of days of a date, and the date of a number of days.\<close>

lemma civil_from_days_year:
  assumes z: "- 719162 \<le> z" "z \<le> 1700000000"
  obtains era yoe doy where "civil_from_days z =
      (yoe + era * 400 + of_bool (306 \<le> doy), month_place doy, month_day doy)"
    "z + 719468 = year_start (yoe + era * 400) + doy" "0 \<le> doy" "doy < 366" "0 \<le> yoe + era * 400"
    "yoe + era * 400 < 5000000"
proof -
  define era where "era = (z + 719468) div 146097"
  define doe where "doe = z + 719468 - era * 146097"
  have doe: "doe = (z + 719468) mod 146097"
    unfolding doe_def era_def by (simp add: minus_div_mult_eq_mod)
  then have doe_b: "0 \<le> doe" "doe < 146097" by simp_all
  define yoe where "yoe = year_index doe div 365"
  define doy where "doy = doe - year_start yoe"
  note yr = year_of_day [OF doe_b, folded yoe_def]
  have doy: "0 \<le> doy" "doy < 366" using yr year_start_succ [of yoe] unfolding doy_def
    by (simp_all add: of_bool_def split: if_splits)
  have "0 \<le> era" "era * 146097 \<le> z + 719468" using z unfolding era_def by simp_all
  then have y: "0 \<le> yoe + era * 400" "yoe + era * 400 < 5000000" using yr(1,2) z(2) by linarith+
  then have wrap: "s_wrap 32 (yoe + era * 400) = yoe + era * 400" by (intro s_wrap_id) (simp add: in_s_def)
  have sdiv: "(if 0 \<le> z + 719468 then z + 719468 else z + 719468 - 146096) sdiv 146097 = era"
    using z(1) by (simp add: sdiv_nonneg era_def)
  have start: "365 * yoe + yoe div 4 - yoe div 100 = year_start yoe" using yr(1,2) by (simp add: year_start_def)
  have m: "month_ok doy" using month_of_day [OF doy] by blast
  have "civil_from_days z = (yoe + era * 400 + of_bool (306 \<le> doy), month_place doy, month_day doy)"
    using m unfolding civil_from_days_def Let_def sdiv doe_def [symmetric] year_index_def [symmetric] yoe_def [symmetric]
      wrap start doy_def [symmetric] month_index_def [symmetric] month_day_def [symmetric]
    by (auto simp: month_ok_def month_place_def)
  moreover have "z + 719468 = year_start (yoe + era * 400) + doy"
    unfolding year_start_era doy_def doe_def by simp
  ultimately show thesis using that doy y by blast
qed

lemma days_of_civil:
  assumes z: "- 719162 \<le> z" "z \<le> 1700000000" and c: "civil_from_days z = (y, m, d)"
  shows "year_ok y" and "0 \<le> m" "m < 12" "1 \<le> d" "d \<le> 31"
    and "\<exists>dj. days_from_1jan y m d = Some dj \<and> days_from_1970 y + dj = z"
proof -
  obtain era yoe doy where e':  "civil_from_days z = (yoe + era * 400 + of_bool (306 \<le> doy), month_place doy, month_day doy)"
    "z + 719468 = year_start (yoe + era * 400) + doy" "0 \<le> doy" "doy < 366" "0 \<le> yoe + era * 400"
    "yoe + era * 400 < 5000000"
    by (rule civil_from_days_year [OF z])
  define e where "e = yoe + era * 400"
  have e: "y = e + of_bool (306 \<le> doy)" "m = month_place doy" "d = month_day doy"
    "z + 719468 = year_start e + doy" "0 \<le> doy" "doy < 366" "0 \<le> e" "e < 5000000"
    using e' c by (simp_all add: e_def)
  have mo: "month_ok doy" and ms: "month_sum (is_leap y) doy" using month_of_day e(5,6) by blast+
  have "1 \<le> y"
  proof (cases "e = 0")
    case True
    then have "doy = z + 719468" using e(4) by (simp add: year_start_def)
    then show ?thesis using z(1) by (simp add: e(1) True)
  next
    case False
    then show ?thesis using e(7) by (simp add: e(1))
  qed
  then show y: "year_ok y" using e(1,8) by (simp add: year_ok_def of_bool_def split: if_splits)
  show md: "0 \<le> m" "m < 12" "1 \<le> d" "d \<le> 31" using mo e(2,3) by (auto simp: month_ok_def month_place_def)
  define dj where "dj = month_days (is_leap y) ! nat m + d - 1"
  have sum: "year_start (y - 1) + dj = year_start e + doy - 306 \<and> 0 \<le> dj \<and> dj \<le> 366"
  proof (cases "month_index doy < 10")
    case True
    then have "dj = doy + 59 + of_bool (is_leap y)" and yy: "y = (e - 1) + 1"
      using ms mo e by (simp_all add: month_sum_def month_ok_def dj_def)
    moreover have "year_start e = year_start (y - 1) + 365 + of_bool (is_leap y)"
      using year_start_succ [of "y - 1"] \<open>1 \<le> y\<close> yy by simp
    ultimately show ?thesis using True mo e(5) by (auto simp: month_ok_def)
  next
    case False
    then have "dj = doy - 306" and "y = e + 1"
      using ms mo e by (simp_all add: month_sum_def month_ok_def dj_def)
    then show ?thesis using e(6) mo False by (simp add: month_ok_def)
  qed
  then have "days_from_1jan y m d = Some dj"
    using md by (simp add: days_from_1jan_def dj_def [symmetric] s_wrap_id in_s_def)
  moreover have r: "in_s 32 (year_start (y - 1) - 719162)"
    using sum e(4) z unfolding in_s_def by simp
  then have "days_from_1970 y + dj = z"
    using sum e(4) by (simp add: days_from_1970_year_start [OF y r])
  ultimately show "\<exists>dj. days_from_1jan y m d = Some dj \<and> days_from_1970 y + dj = z" by blast
qed

section \<open>From seconds to a date and back\<close>

text \<open>The times from the year 1 on that the proofs cover: a \<open>RpcDateTime\<close> has 57 bits of milliseconds.\<close>

definition epoch_ok :: "int \<Rightarrow> bool" where
  "epoch_ok t \<longleftrightarrow> - 62135596800 \<le> t \<and> t < 2 ^ 47"

definition tm_ok :: "tm \<Rightarrow> bool" where
  "tm_ok t \<longleftrightarrow> year_ok (tm_year t + 1900) \<and> 0 \<le> tm_mon t \<and> tm_mon t < 12 \<and> 1 \<le> tm_mday t \<and> tm_mday t \<le> 31 \<and>
     0 \<le> tm_hour t \<and> tm_hour t < 24 \<and> 0 \<le> tm_min t \<and> tm_min t < 60 \<and> 0 \<le> tm_sec t \<and> tm_sec t < 60"

lemma floor_split:
  assumes "0 < (b::int)"
  shows "(if a - b * (a sdiv b) < 0 then a sdiv b - 1 else a sdiv b) = a div b"
    and "(if a - b * (a sdiv b) < 0 then b + (a - b * (a sdiv b)) else a - b * (a sdiv b)) = a mod b"
proof -
  have neg: "a sdiv b = - ((- a) div b)" if "a < 0"
    using sdiv_minus [of "- a" b] sdiv_nonneg [of "- a" b] that assms by simp
  have r: "(- a) mod b = - a - b * ((- a) div b)" by (simp add: minus_mult_div_eq_mod)
  show "(if a - b * (a sdiv b) < 0 then a sdiv b - 1 else a sdiv b) = a div b"
  proof (cases "a < 0")
    case True
    then show ?thesis
      using neg r zdiv_zminus1_eq_if [of b "- a"] pos_mod_sign [OF assms, of "- a"] assms by (auto split: if_splits)
  next
    case False
    then show ?thesis
      using sdiv_nonneg [of a b] minus_mult_div_eq_mod [of a b] pos_mod_sign [OF assms, of a] assms
      by (simp add: not_less)
  qed
  show "(if a - b * (a sdiv b) < 0 then b + (a - b * (a sdiv b)) else a - b * (a sdiv b)) = a mod b"
  proof (cases "a < 0")
    case True
    then show ?thesis
      using neg r zmod_zminus1_eq_if [of "- a" b] pos_mod_sign [OF assms, of "- a"] assms by (auto split: if_splits)
  next
    case False
    then show ?thesis
      using sdiv_nonneg [of a b] minus_mult_div_eq_mod [of a b] pos_mod_sign [OF assms, of a] assms by (simp add: not_less)
  qed
qed

lemma ccpon_gmtime_fields:
  assumes "civil_from_days (t div 86400) = (y, m, d)"
  shows "ccpon_gmtime t = \<lparr>tm_year = y - 1900, tm_mon = m, tm_mday = d, tm_hour = t mod 86400 div 3600,
    tm_min = t mod 86400 mod 3600 div 60, tm_sec = t mod 86400 mod 3600 mod 60\<rparr>"
  unfolding ccpon_gmtime_def Let_def floor_split [OF zero_less_numeral] assms prod.case
  by (simp add: sdiv_nonneg smod_pos)

lemma hms_split:
  assumes "0 \<le> h" "h < (86400::int)"
  shows "0 \<le> h div 3600" "h div 3600 < 24" "0 \<le> h mod 3600 div 60" "h mod 3600 div 60 < 60"
    "(h div 3600 * 60 + h mod 3600 div 60) * 60 + h mod 3600 mod 60 = h"
proof -
  define m where "m = h mod 3600"
  have "0 \<le> m" "m < 3600" unfolding m_def by simp_all
  then show "0 \<le> h mod 3600 div 60" "h mod 3600 div 60 < 60" unfolding m_def [symmetric] by linarith+
  show "0 \<le> h div 3600" "h div 3600 < 24" using assms by linarith+
  have "h = h div 3600 * 3600 + m" "m = m div 60 * 60 + m mod 60" unfolding m_def by simp_all
  then show "(h div 3600 * 60 + h mod 3600 div 60) * 60 + h mod 3600 mod 60 = h"
    unfolding m_def [symmetric] distrib_right by linarith
qed

lemma timegm_gmtime:
  assumes "epoch_ok t"
  shows "ccpon_timegm (ccpon_gmtime t) = Some t" and "tm_ok (ccpon_gmtime t)"
proof -
  define z where "z = t div 86400"
  have z: "- 719162 \<le> z" "z \<le> 1700000000" using assms unfolding epoch_ok_def z_def by (simp, linarith)+
  obtain y m d where c: "civil_from_days z = (y, m, d)" by (cases "civil_from_days z")
  note facts = days_of_civil [OF z c]
  obtain dj where dj: "days_from_1jan y m d = Some dj" "days_from_1970 y + dj = z" using facts(6) by blast
  have wrap: "s_wrap 32 y = y" using facts(1) by (intro s_wrap_id) (simp add: year_ok_def in_s_def)
  have h: "0 \<le> t mod 86400" "t mod 86400 < 86400" by simp_all
  have "((z * 24 + h div 3600) * 60 + h mod 3600 div 60) * 60 + h mod 3600 mod 60 =
      z * 86400 + ((h div 3600 * 60 + h mod 3600 div 60) * 60 + h mod 3600 mod 60)" for h :: int
    by (simp add: distrib_right)
  then have "((z * 24 + t mod 86400 div 3600) * 60 + t mod 86400 mod 3600 div 60) * 60 + t mod 86400 mod 3600 mod 60 = t"
    by (simp only: hms_split(5) [OF h] z_def div_mult_mod_eq)
  then show "ccpon_timegm (ccpon_gmtime t) = Some t"
    by (simp only: ccpon_gmtime_fields [OF c [unfolded z_def]] ccpon_timegm_def tm.select_convs Let_def
        diff_add_cancel wrap dj option.map)
  show "tm_ok (ccpon_gmtime t)"
    using facts hms_split [OF h]
    by (simp only: ccpon_gmtime_fields [OF c [unfolded z_def]] tm_ok_def tm.select_convs diff_add_cancel) simp
qed

end
