(* ===== verification/Cpon_Pack.thy ===== *)
theory Cpon_Pack
  imports Cpon_Time Rpc_Value
begin

text \<open>
  The text format, writing (\<open>c/ccpon.c\<close> and the decimal printing of \<open>c/ccpcp.c\<close>): numbers, times,
  strings and blobs as text, and the \<open>ccpon_pack\<close> functions, which append to the output of a pack
  context.  The context keeps the options, the nesting depth and the error code; \<open>cx_out\<close> is what was
  appended so far.  What the buffered output delivers is exactly that (theory \<open>Chain_Pack_Writer\<close>).
  An exception of the C++ writer or a call without a defined result ends the writing; both are sticky like the
  error code.
\<close>

section \<open>Decimal digits\<close>

definition hexify :: "nat \<Rightarrow> char" where
  "hexify b = (if b \<le> 9 then char_of (b + 48) else if b \<le> 15 then char_of (b - 10 + 97) else CHR ''?'')"

fun digits_rev :: "nat \<Rightarrow> string" where
  "digits_rev n = (if n = 0 then [] else char_of (48 + n mod 10) # digits_rev (n div 10))"

declare digits_rev.simps [simp del]

text \<open>
  The characters stored by \<open>uint_to_str\<close>.  Digits are produced from the least one up and reversed at the
  end, which is left out when they fill the buffer.
\<close>

definition uint_to_str :: "nat \<Rightarrow> nat \<Rightarrow> string" where
  "uint_to_str buff_len n =
     (let s = (if n = 0 then ''0'' else take buff_len (digits_rev n)) in if length s < buff_len then rev s else s)"

text \<open>Writing a string into a buffer at a position.\<close>

definition put_at :: "nat \<Rightarrow> string \<Rightarrow> string \<Rightarrow> string" where
  "put_at off s buff = take off buff @ s @ drop (off + length s) buff"

definition lpad_step :: "nat \<Rightarrow> nat \<Rightarrow> nat \<Rightarrow> char \<Rightarrow> nat \<Rightarrow> string \<Rightarrow> string" where
  "lpad_step off len width pad_char i buff =
     (let buff = buff[off + width - i - 1 := buff ! (off + len - i - 1)] in buff[off + len - i - 1 := pad_char])"

text \<open>The buffer from \<open>off\<close> on; the result is the buffer and the length.\<close>

definition uint_to_str_lpad :: "string \<Rightarrow> nat \<Rightarrow> nat \<Rightarrow> nat \<Rightarrow> nat \<Rightarrow> char \<Rightarrow> string \<times> nat" where
  "uint_to_str_lpad buff off buff_len n width pad_char =
     (let s = uint_to_str buff_len n; len = length s; buff = put_at off s buff
      in if len < width \<and> width \<le> buff_len then (fold (lpad_step off len width pad_char) [0..<len] buff, width)
         else (buff, len))"

definition uint_dot_uint_to_str :: "nat \<Rightarrow> nat \<Rightarrow> nat \<Rightarrow> string" where
  "uint_dot_uint_to_str buff_len n1 n2 =
     (let s = uint_to_str buff_len n1 @ ''.''
      in if n2 > 0
         then (let s = s @ uint_to_str (buff_len - length s) n2
               in if length s < buff_len then rev (dropWhile (\<lambda>c. c = CHR ''0'') (rev s)) else s)
         else s)"

text \<open>\<open>-n\<close> wraps for the least number, whose conversion to \<open>uint64_t\<close> is right again.\<close>

definition cpon_int_to_str :: "nat \<Rightarrow> int \<Rightarrow> string" where
  "cpon_int_to_str buff_len n =
     (if n < 0 then ''-'' @ uint_to_str buff_len (unat (word_of_int (s_wrap 64 (- n)) :: u64))
      else uint_to_str buff_len (nat n))"

section \<open>Doubles\<close>

text \<open>
  \<open>None\<close>: the call has no defined result, because a loop does not end (an infinite number is
  divided forever) or because a number without an \<open>unsigned\<close> value is converted to one.
\<close>

definition dbl_ten :: double where "dbl_ten = dbl_of_int 10"
definition dbl_one :: double where "dbl_one = dbl_of_int 1"

definition dbl_minus :: "double \<Rightarrow> double" where
  "dbl_minus d = d XOR 0x8000000000000000"

definition dbl_to_unsigned :: "double \<Rightarrow> nat option" where
  "dbl_to_unsigned d = (if dbl_finite d \<and> 0 \<le> dbl_trunc d \<and> dbl_trunc d < 2 ^ 32 then Some (nat (dbl_trunc d)) else None)"

definition dbl_mul_prec :: "double \<Rightarrow> double" where
  "dbl_mul_prec d = ((\<lambda>x. dbl_mul_int x 10) ^^ 6) d"

partial_function (option) prec_loop :: "double \<Rightarrow> double \<Rightarrow> (double \<times> double) option" where
  "prec_loop d myprec =
     (if dbl_le dbl_ten d then prec_loop (dbl_div_int d 10) (dbl_div_int myprec 10) else Some (d, myprec))"

partial_function (option) up_loop :: "double \<Rightarrow> int \<Rightarrow> (double \<times> int) option" where
  "up_loop d ex = (if dbl_lt d dbl_one then up_loop (dbl_mul_int d 10) (ex - 1) else Some (d, ex))"

partial_function (option) down_loop :: "double \<Rightarrow> int \<Rightarrow> (double \<times> int) option" where
  "down_loop d ex = (if dbl_le dbl_ten d then down_loop (dbl_div_int d 10) (ex + 1) else Some (d, ex))"

declare prec_loop.simps [code] up_loop.simps [code] down_loop.simps [code]

definition float_notation :: "nat \<Rightarrow> double \<Rightarrow> string option" where
  "float_notation buff_len d =
     (if dbl_lt d dbl_one
      then map_option (uint_dot_uint_to_str buff_len 0) (dbl_to_unsigned (dbl_mul_prec d))
      else Option.bind (prec_loop d dbl_one) (\<lambda>(d, myprec).
        Option.bind (dbl_to_unsigned (dbl_mul_prec d)) (\<lambda>ud.
        Option.bind (dbl_to_unsigned (dbl_mul_prec myprec)) (\<lambda>myprecnum.
          if myprecnum = 0 then None
          else Some (uint_dot_uint_to_str buff_len (ud div myprecnum) (ud mod myprecnum))))))"

definition exp_notation :: "nat \<Rightarrow> double \<Rightarrow> string option" where
  "exp_notation buff_len d =
     Option.bind (if dbl_lt d dbl_one then up_loop d 0 else down_loop d 0) (\<lambda>(d, ex).
       map_option (\<lambda>ud.
         let s = uint_dot_uint_to_str buff_len (ud div 1000000) (ud mod 1000000);
             s = (if length s < buff_len \<and> last s = CHR ''.'' then butlast s else s);
             s = s @ ''e''
         in s @ cpon_int_to_str (buff_len - length s) ex)
       (dbl_to_unsigned (dbl_mul_prec d)))"

definition double_to_str :: "nat \<Rightarrow> double \<Rightarrow> string option" where
  "double_to_str buff_len d =
     (if dbl_eq d 0 then Some ''0.''
      else (let neg = dbl_lt d 0; sign = (if neg then ''-'' else ''''); d = (if neg then dbl_minus d else d);
                buff_len = buff_len - length sign
            in map_option (\<lambda>s. sign @ s)
                 (if dbl_lt d (dbl_of_int 10000000) \<and> dbl_le (dbl_div_int dbl_one 10) d then float_notation buff_len d
                  else exp_notation buff_len d)))"

section \<open>Decimals\<close>

text \<open>
  The integer printing of \<open>ccpcp.c\<close>: the empty string when the buffer is too small.  For the least
  64-bit number the negation wraps and the digits come out negative.
\<close>

function sdigits_rev :: "int \<Rightarrow> string" where
  "sdigits_rev val = (if val = 0 then [] else char_of (nat ((48 + val smod 10) mod 256)) # sdigits_rev (val sdiv 10))"
  by pat_completeness auto
termination
  by (relation "measure (\<lambda>v. nat \<bar>v\<bar>)")
     (auto simp: signed_divide_int_def abs_mult nat_less_iff zdiv_int int_div_less_self sgn_if)

declare sdigits_rev.simps [simp del]

definition ccpcp_int_to_str :: "nat \<Rightarrow> int \<Rightarrow> string" where
  "ccpcp_int_to_str buff_len val =
     (let neg = val < 0; val = (if neg then s_wrap 64 (- val) else val);
          buff_len = (if neg then buff_len - 1 else buff_len);
          s = (if val = 0 then ''0'' else sdigits_rev val)
      in if buff_len < length s then [] else (if neg then ''-'' else '''') @ rev s)"

definition ccpcp_decimal_to_string :: "nat \<Rightarrow> int \<Rightarrow> int \<Rightarrow> string" where
  "ccpcp_decimal_to_string buff_len mantisa exponent =
     (let neg = mantisa < 0; mantisa = (if neg then s_wrap 64 (- mantisa) else mantisa);
          buff_len = (if neg then buff_len - 1 else buff_len);
          str = ccpcp_int_to_str buff_len mantisa; len = length str;
          dec_places = (if exponent < 0 then nat (- exponent) else 0);
          e = ccpcp_int_to_str (buff_len - len - 1) exponent;
          res = (if dec_places > 0 \<and> dec_places < len then take (len - dec_places) str @ ''.'' @ drop (len - dec_places) str
                 else if dec_places > 0 \<and> dec_places \<le> 3 then ''0.'' @ replicate (dec_places - len) CHR ''0'' @ str
                 else if exponent > 0 \<and> len + nat exponent \<le> 9 then str @ replicate (nat exponent) CHR ''0'' @ ''.''
                 else if exponent = 0 then str @ ''.''
                 else if e = [] then [] else str @ ''e'' @ e)
      in if str = [] \<or> res = [] then [] else (if neg then ''-'' else '''') @ res)"

section \<open>Times\<close>

datatype msec_policy = CCPON_Auto | CCPON_Always | CCPON_Never

definition DATETIME_STRING_LEN :: nat where "DATETIME_STRING_LEN = 32"

text \<open>
  The buffer is not initialised; nothing is read from it that was not written, except by the padding of the
  milliseconds, which meets what the date left there.
\<close>

definition date_field :: "char \<Rightarrow> int \<Rightarrow> string \<times> nat \<Rightarrow> string \<times> nat" where
  "date_field sep n = (\<lambda>(str, len).
     let str = (if len < DATETIME_STRING_LEN then str[len := sep] else str); len = len + 1;
         (str, l) = uint_to_str_lpad str len (DATETIME_STRING_LEN - len) (nat (n mod 2 ^ 32)) 2 CHR ''0''
     in (str, len + l))"

definition date_buffer :: "tm \<Rightarrow> string \<times> nat" where
  "date_buffer t =
     (date_field CHR '':'' (tm_sec t) \<circ> date_field CHR '':'' (tm_min t) \<circ> date_field CHR ''T'' (tm_hour t) \<circ>
      date_field CHR ''-'' (tm_mday t) \<circ> date_field CHR ''-'' (tm_mon t + 1))
       (uint_to_str_lpad (replicate DATETIME_STRING_LEN CHR 0x00) 0 DATETIME_STRING_LEN
          (nat ((tm_year t + 1900) mod 2 ^ 32)) 2 CHR ''0'')"

definition buffer_text :: "string \<times> nat \<Rightarrow> string" where
  "buffer_text b = (if snd b < DATETIME_STRING_LEN then take (snd b) (fst b) else [])"

definition zone_text :: "string \<Rightarrow> int \<Rightarrow> string" where
  "zone_text str min_from_utc =
     (if min_from_utc = 0 then ''Z''
      else (let sign = (if min_from_utc < 0 then ''-'' else ''+''); m = nat \<bar>min_from_utc\<bar>;
                (str, len) = uint_to_str_lpad str 0 DATETIME_STRING_LEN (m div 60) 2 CHR ''0''
            in if m mod 60 \<noteq> 0
               then (let (str, l) = uint_to_str_lpad str len (DATETIME_STRING_LEN - len) (m mod 60) 2 CHR ''0''
                     in sign @ buffer_text (str, len + l))
               else sign @ buffer_text (str, len)))"

definition date_time_text :: "int \<Rightarrow> int \<Rightarrow> msec_policy \<Rightarrow> bool \<Rightarrow> string" where
  "date_time_text epoch_msecs min_from_utc policy with_tz =
     (let (str, len) = date_buffer (ccpon_gmtime (epoch_msecs sdiv 1000 + min_from_utc * 60));
          msec = epoch_msecs smod 1000;
          (str', mlen) = uint_to_str_lpad str 0 DATETIME_STRING_LEN (nat (msec mod 2 ^ 32)) 3 CHR ''0'';
          has_msec = (msec > 0 \<and> policy = CCPON_Auto \<or> policy = CCPON_Always)
      in buffer_text (str, len) @ (if has_msec then ''.'' @ buffer_text (str', mlen) else [])
         @ (if with_tz then zone_text (if has_msec then str' else str) min_from_utc else []))"

section \<open>Strings and blobs\<close>

definition esc_char :: "char \<Rightarrow> string" where
  "esc_char ch =
     (if ch = CHR 0x00 then [CHR 0x5C, CHR ''0''] else if ch = CHR 0x5C then [CHR 0x5C, CHR 0x5C]
      else if ch = CHR 0x09 then [CHR 0x5C, CHR ''t''] else if ch = CHR 0x08 then [CHR 0x5C, CHR ''b'']
      else if ch = CHR 0x0D then [CHR 0x5C, CHR ''r''] else if ch = CHR 0x0A then [CHR 0x5C, CHR ''n'']
      else if ch = CHR 0x22 then [CHR 0x5C, CHR 0x22] else [ch])"

definition copy_data_escaped :: "string \<Rightarrow> string" where
  "copy_data_escaped str = concat (map esc_char str)"

definition esc_blob_char :: "char \<Rightarrow> string" where
  "esc_blob_char ch =
     (if ch = CHR 0x5C then [CHR 0x5C, CHR 0x5C] else if ch = CHR 0x09 then [CHR 0x5C, CHR ''t'']
      else if ch = CHR 0x0D then [CHR 0x5C, CHR ''r''] else if ch = CHR 0x0A then [CHR 0x5C, CHR ''n'']
      else if ch = CHR 0x22 then [CHR 0x5C, CHR 0x22]
      else if of_char ch < (32::nat) \<or> of_char ch \<ge> (127::nat)
      then [CHR 0x5C, hexify (of_char ch div 16), hexify (of_char ch mod 16)] else [ch])"

definition copy_blob_escaped :: "string \<Rightarrow> string" where
  "copy_blob_escaped str = concat (map esc_blob_char str)"

section \<open>The pack context\<close>

datatype pack_rc = CCPCP_RC_OK | CCPCP_RC_LOGICAL_ERROR | PackThrow exn | PackNoResult

record cpon_ctx =
  cx_indent :: "string option"
  cx_json :: bool
  cx_nest :: int
  cx_rc :: pack_rc
  cx_out :: string

definition cpon_put :: "string \<Rightarrow> 'a cpon_ctx_scheme \<Rightarrow> 'a cpon_ctx_scheme" where
  "cpon_put s ctx = (if cx_rc ctx = CCPCP_RC_OK then ctx\<lparr>cx_out := cx_out ctx @ s\<rparr> else ctx)"

definition when_ok :: "('a cpon_ctx_scheme \<Rightarrow> 'a cpon_ctx_scheme) \<Rightarrow> 'a cpon_ctx_scheme \<Rightarrow> 'a cpon_ctx_scheme" where
  "when_ok f ctx = (if cx_rc ctx = CCPCP_RC_OK then f ctx else ctx)"

definition start_block :: "'a cpon_ctx_scheme \<Rightarrow> 'a cpon_ctx_scheme" where
  "start_block ctx = ctx\<lparr>cx_nest := cx_nest ctx + 1\<rparr>"

definition indent_text :: "'a cpon_ctx_scheme \<Rightarrow> bool \<Rightarrow> bool \<Rightarrow> string" where
  "indent_text ctx is_oneliner is_first_field =
     (case cx_indent ctx of
        None \<Rightarrow> []
      | Some indent \<Rightarrow>
          if is_oneliner then (if is_first_field then [] else '' '')
          else CHR 0x0A # concat (replicate (nat (cx_nest ctx)) indent))"

definition indent_element :: "bool \<Rightarrow> bool \<Rightarrow> 'a cpon_ctx_scheme \<Rightarrow> 'a cpon_ctx_scheme" where
  "indent_element is_oneliner is_first_field ctx = cpon_put (indent_text ctx is_oneliner is_first_field) ctx"

definition end_block :: "bool \<Rightarrow> 'a cpon_ctx_scheme \<Rightarrow> 'a cpon_ctx_scheme" where
  "end_block is_oneliner ctx = (let ctx = ctx\<lparr>cx_nest := cx_nest ctx - 1\<rparr> in indent_element is_oneliner True ctx)"

definition fail_with :: "pack_rc \<Rightarrow> 'a cpon_ctx_scheme \<Rightarrow> 'a cpon_ctx_scheme" where
  "fail_with rc = when_ok (\<lambda>ctx. ctx\<lparr>cx_rc := rc\<rparr>)"

definition INT_STRING_LEN :: nat where "INT_STRING_LEN = 32"
definition DECIMAL_STRING_LEN :: nat where "DECIMAL_STRING_LEN = 64"
definition DOUBLE_STRING_LEN :: nat where "DOUBLE_STRING_LEN = 32"

definition ccpon_pack_uint :: "u64 \<Rightarrow> 'a cpon_ctx_scheme \<Rightarrow> 'a cpon_ctx_scheme" where
  "ccpon_pack_uint i = when_ok (\<lambda>ctx.
     let str = uint_to_str INT_STRING_LEN (unat i)
     in if length str \<ge> INT_STRING_LEN then ctx\<lparr>cx_rc := CCPCP_RC_LOGICAL_ERROR\<rparr>
        else (let ctx = cpon_put str ctx in if cx_json ctx then ctx else cpon_put ''u'' ctx))"

definition ccpon_pack_int :: "int \<Rightarrow> 'a cpon_ctx_scheme \<Rightarrow> 'a cpon_ctx_scheme" where
  "ccpon_pack_int i = when_ok (\<lambda>ctx.
     let str = cpon_int_to_str INT_STRING_LEN i
     in if length str \<ge> INT_STRING_LEN then ctx\<lparr>cx_rc := CCPCP_RC_LOGICAL_ERROR\<rparr> else cpon_put str ctx)"

definition ccpon_pack_decimal :: "int \<Rightarrow> int \<Rightarrow> 'a cpon_ctx_scheme \<Rightarrow> 'a cpon_ctx_scheme" where
  "ccpon_pack_decimal mantisa exponent ctx =
     (let buff = ccpcp_decimal_to_string DECIMAL_STRING_LEN mantisa exponent
      in if buff = [] then ctx\<lparr>cx_rc := CCPCP_RC_LOGICAL_ERROR\<rparr> else cpon_put buff ctx)"

definition ccpon_pack_double :: "double \<Rightarrow> 'a cpon_ctx_scheme \<Rightarrow> 'a cpon_ctx_scheme" where
  "ccpon_pack_double d = when_ok (\<lambda>ctx.
     case double_to_str DOUBLE_STRING_LEN d of
       None \<Rightarrow> ctx\<lparr>cx_rc := PackNoResult\<rparr>
     | Some str \<Rightarrow>
         if length str \<ge> DOUBLE_STRING_LEN then ctx\<lparr>cx_rc := CCPCP_RC_LOGICAL_ERROR\<rparr> else cpon_put str ctx)"

definition ccpon_pack_date_time_str :: "int \<Rightarrow> int \<Rightarrow> msec_policy \<Rightarrow> bool \<Rightarrow> 'a cpon_ctx_scheme \<Rightarrow> 'a cpon_ctx_scheme" where
  "ccpon_pack_date_time_str epoch_msecs min_from_utc policy with_tz =
     cpon_put (date_time_text epoch_msecs min_from_utc policy with_tz)"

definition ccpon_pack_date_time :: "int \<Rightarrow> int \<Rightarrow> 'a cpon_ctx_scheme \<Rightarrow> 'a cpon_ctx_scheme" where
  "ccpon_pack_date_time epoch_msecs min_from_utc =
     cpon_put [CHR 0x22] \<circ> ccpon_pack_date_time_str epoch_msecs min_from_utc CCPON_Auto True \<circ> cpon_put [CHR ''d'', CHR 0x22]"

definition ccpon_pack_null :: "'a cpon_ctx_scheme \<Rightarrow> 'a cpon_ctx_scheme" where
  "ccpon_pack_null = when_ok (cpon_put ''null'')"

definition ccpon_pack_boolean :: "bool \<Rightarrow> 'a cpon_ctx_scheme \<Rightarrow> 'a cpon_ctx_scheme" where
  "ccpon_pack_boolean b = when_ok (cpon_put (if b then ''true'' else ''false''))"

definition ccpon_pack_list_begin :: "'a cpon_ctx_scheme \<Rightarrow> 'a cpon_ctx_scheme" where
  "ccpon_pack_list_begin = when_ok (start_block \<circ> cpon_put ''['')"

definition ccpon_pack_list_end :: "bool \<Rightarrow> 'a cpon_ctx_scheme \<Rightarrow> 'a cpon_ctx_scheme" where
  "ccpon_pack_list_end is_oneliner = when_ok (cpon_put '']'' \<circ> end_block is_oneliner)"

definition ccpon_pack_map_begin :: "'a cpon_ctx_scheme \<Rightarrow> 'a cpon_ctx_scheme" where
  "ccpon_pack_map_begin = when_ok (start_block \<circ> cpon_put ''{'')"

definition ccpon_pack_map_end :: "bool \<Rightarrow> 'a cpon_ctx_scheme \<Rightarrow> 'a cpon_ctx_scheme" where
  "ccpon_pack_map_end is_oneliner = when_ok (cpon_put ''}'' \<circ> end_block is_oneliner)"

definition ccpon_pack_imap_begin :: "'a cpon_ctx_scheme \<Rightarrow> 'a cpon_ctx_scheme" where
  "ccpon_pack_imap_begin = when_ok (start_block \<circ> cpon_put ''i{'')"

definition ccpon_pack_imap_end :: "bool \<Rightarrow> 'a cpon_ctx_scheme \<Rightarrow> 'a cpon_ctx_scheme" where
  "ccpon_pack_imap_end is_oneliner = ccpon_pack_map_end is_oneliner"

definition ccpon_pack_meta_begin :: "'a cpon_ctx_scheme \<Rightarrow> 'a cpon_ctx_scheme" where
  "ccpon_pack_meta_begin = when_ok (start_block \<circ> cpon_put ''<'')"

definition ccpon_pack_meta_end :: "bool \<Rightarrow> 'a cpon_ctx_scheme \<Rightarrow> 'a cpon_ctx_scheme" where
  "ccpon_pack_meta_end is_oneliner = when_ok (cpon_put ''>'' \<circ> end_block is_oneliner)"

definition ccpon_pack_blob_start :: "string \<Rightarrow> 'a cpon_ctx_scheme \<Rightarrow> 'a cpon_ctx_scheme" where
  "ccpon_pack_blob_start buff = cpon_put (copy_blob_escaped buff) \<circ> cpon_put [CHR 0x22] \<circ> cpon_put ''b''"

definition ccpon_pack_blob_cont :: "string \<Rightarrow> 'a cpon_ctx_scheme \<Rightarrow> 'a cpon_ctx_scheme" where
  "ccpon_pack_blob_cont buff = cpon_put (copy_blob_escaped buff)"

definition ccpon_pack_blob_finish :: "'a cpon_ctx_scheme \<Rightarrow> 'a cpon_ctx_scheme" where
  "ccpon_pack_blob_finish = cpon_put [CHR 0x22]"

definition ccpon_pack_blob :: "bytes \<Rightarrow> 'a cpon_ctx_scheme \<Rightarrow> 'a cpon_ctx_scheme" where
  "ccpon_pack_blob buff = ccpon_pack_blob_finish \<circ> ccpon_pack_blob_cont (string_of_bytes buff) \<circ> ccpon_pack_blob_start []"

definition ccpon_pack_string_start :: "string \<Rightarrow> 'a cpon_ctx_scheme \<Rightarrow> 'a cpon_ctx_scheme" where
  "ccpon_pack_string_start buff = cpon_put (copy_data_escaped buff) \<circ> cpon_put [CHR 0x22]"

definition ccpon_pack_string_cont :: "string \<Rightarrow> 'a cpon_ctx_scheme \<Rightarrow> 'a cpon_ctx_scheme" where
  "ccpon_pack_string_cont buff = cpon_put (copy_data_escaped buff)"

definition ccpon_pack_string_finish :: "'a cpon_ctx_scheme \<Rightarrow> 'a cpon_ctx_scheme" where
  "ccpon_pack_string_finish = cpon_put [CHR 0x22]"

definition ccpon_pack_string :: "string \<Rightarrow> 'a cpon_ctx_scheme \<Rightarrow> 'a cpon_ctx_scheme" where
  "ccpon_pack_string s = cpon_put [CHR 0x22] \<circ> cpon_put (copy_data_escaped s) \<circ> cpon_put [CHR 0x22]"

definition ccpon_pack_field_delim :: "bool \<Rightarrow> bool \<Rightarrow> 'a cpon_ctx_scheme \<Rightarrow> 'a cpon_ctx_scheme" where
  "ccpon_pack_field_delim is_first_field is_oneliner ctx =
     indent_element is_oneliner is_first_field (if is_first_field then ctx else cpon_put '','' ctx)"

definition ccpon_pack_key_val_delim :: "'a cpon_ctx_scheme \<Rightarrow> 'a cpon_ctx_scheme" where
  "ccpon_pack_key_val_delim = cpon_put '':''"

end
