(* ===== verification/Cpon_Writer.thy ===== *)
theory Cpon_Writer
  imports Cpon_Pack Meta_Types
begin

text \<open>
  \<open>CponWriter\<close> (\<open>cponwriter.h\<close>, \<open>cponwriter.cpp\<close>): the pack context with the stack of open containers (its
  top first), the options, and the registry of meta types, which the names of \<open>translateIds\<close> come from.
  Writing a value is a state transformer; an exception and an access to the back of an empty stack stay in the
  context's code and end the output.
\<close>

section \<open>Options and containers\<close>

record cpon_options =
  opt_translateIds :: bool
  opt_hexBlob :: bool
  opt_indent :: string
  opt_jsonFormat :: bool

definition CponWriterOptions_default :: cpon_options where
  "CponWriterOptions_default = \<lparr>opt_translateIds = False, opt_hexBlob = False, opt_indent = [], opt_jsonFormat = False\<rparr>"

definition CponWriterOptions_setTranslateIds :: "bool \<Rightarrow> cpon_options \<Rightarrow> cpon_options" where
  "CponWriterOptions_setTranslateIds b o' = o'\<lparr>opt_translateIds := b\<rparr>"

definition CponWriterOptions_setHexBlob :: "bool \<Rightarrow> cpon_options \<Rightarrow> cpon_options" where
  "CponWriterOptions_setHexBlob b o' = o'\<lparr>opt_hexBlob := b\<rparr>"

definition CponWriterOptions_setIndent :: "string \<Rightarrow> cpon_options \<Rightarrow> cpon_options" where
  "CponWriterOptions_setIndent i o' = o'\<lparr>opt_indent := i\<rparr>"

definition CponWriterOptions_setJsonFormat :: "bool \<Rightarrow> cpon_options \<Rightarrow> cpon_options" where
  "CponWriterOptions_setJsonFormat b o' = o'\<lparr>opt_jsonFormat := b\<rparr>"

record container_state =
  containerType :: rpc_type
  elementCount :: int
  isOneLiner :: bool

definition ContainerState_make :: "rpc_type \<Rightarrow> bool \<Rightarrow> container_state" where
  "ContainerState_make t one_liner = \<lparr>containerType = t, elementCount = 0, isOneLiner = one_liner\<rparr>"

record cpon_writer = cpon_ctx +
  wr_translate :: bool
  wr_states :: "container_state list"
  wr_registry :: meta_registry

definition CponWriter_make :: "meta_registry \<Rightarrow> cpon_options \<Rightarrow> cpon_writer" where
  "CponWriter_make rg opts =
     \<lparr>cx_indent = (if opt_indent opts = [] then None else Some (opt_indent opts)), cx_json = opt_jsonFormat opts,
      cx_nest = 0, cx_rc = CCPCP_RC_OK, cx_out = [], wr_translate = opt_translateIds opts, wr_states = [],
      wr_registry = rg\<rparr>"

definition is_container_type :: "rpc_type \<Rightarrow> bool" where
  "is_container_type t \<longleftrightarrow> t = TMap \<or> t = TIMap \<or> t = TList"

definition is_oneline_list :: "rpc_value list \<Rightarrow> bool" where
  "is_oneline_list lst \<longleftrightarrow> length lst \<le> 10 \<and> list_all (\<lambda>it. \<not> is_container_type (RpcValue_type it)) lst"

definition is_oneline_map :: "('k \<times> rpc_value) list \<Rightarrow> bool" where
  "is_oneline_map m \<longleftrightarrow> length m \<le> 5 \<and> list_all (\<lambda>kv. \<not> is_container_type (RpcValue_type (snd kv))) m"

definition is_oneline_meta :: "rpc_meta \<Rightarrow> bool" where
  "is_oneline_meta meta \<longleftrightarrow> RpcMetaData_size meta \<le> 5 \<and>
     list_all (\<lambda>kv. \<not> is_container_type (RpcValue_type (snd kv))) (md_imap meta) \<and>
     list_all (\<lambda>kv. \<not> is_container_type (RpcValue_type (snd kv))) (md_smap meta)"

definition push_state :: "rpc_type \<Rightarrow> bool \<Rightarrow> cpon_writer \<Rightarrow> cpon_writer" where
  "push_state t is_oneliner w = w\<lparr>wr_states := ContainerState_make t is_oneliner # wr_states w\<rparr>"

definition writeMetaBegin :: "bool \<Rightarrow> cpon_writer \<Rightarrow> cpon_writer" where
  "writeMetaBegin is_oneliner w = push_state TInvalid is_oneliner (ccpon_pack_meta_begin w)"

definition writeMetaEnd :: "cpon_writer \<Rightarrow> cpon_writer" where
  "writeMetaEnd w =
     (case wr_states w of
        [] \<Rightarrow> fail_with PackNoResult w
      | cs # st \<Rightarrow> (ccpon_pack_meta_end (isOneLiner cs) w)\<lparr>wr_states := st\<rparr>)"

definition cpon_writeContainerBegin :: "rpc_type \<Rightarrow> bool \<Rightarrow> cpon_writer \<Rightarrow> cpon_writer" where
  "cpon_writeContainerBegin container_type is_oneliner w =
     (case container_type of
        TList \<Rightarrow> push_state container_type is_oneliner (ccpon_pack_list_begin w)
      | TMap \<Rightarrow> push_state container_type is_oneliner (ccpon_pack_map_begin w)
      | TIMap \<Rightarrow> push_state container_type is_oneliner (ccpon_pack_imap_begin w)
      | _ \<Rightarrow> fail_with (PackThrow (ShvException (''Cannot write begin of container type: '' @
               RpcValue_typeToName container_type))) w)"

definition cpon_writeContainerEnd :: "cpon_writer \<Rightarrow> cpon_writer" where
  "cpon_writeContainerEnd w =
     (case wr_states w of
        [] \<Rightarrow> fail_with PackNoResult w
      | cs # st \<Rightarrow>
          (case containerType cs of
             TList \<Rightarrow> (ccpon_pack_list_end (isOneLiner cs) w)\<lparr>wr_states := st\<rparr>
           | TMap \<Rightarrow> (ccpon_pack_map_end (isOneLiner cs) w)\<lparr>wr_states := st\<rparr>
           | TIMap \<Rightarrow> (ccpon_pack_imap_end (isOneLiner cs) w)\<lparr>wr_states := st\<rparr>
           | _ \<Rightarrow> fail_with (PackThrow (ShvException (''Cannot write end of container type: '' @
                    RpcValue_typeToName (containerType cs)))) w))"

text \<open>The delimiter in front of the next element of the open container.\<close>

definition next_field :: "cpon_writer \<Rightarrow> cpon_writer" where
  "next_field w =
     (case wr_states w of
        [] \<Rightarrow> fail_with PackNoResult w
      | cs # st \<Rightarrow> ccpon_pack_field_delim (elementCount cs = 0) (isOneLiner cs)
                     (w\<lparr>wr_states := cs\<lparr>elementCount := elementCount cs + 1\<rparr> # st\<rparr>))"

definition cpon_writeMapKey :: "string \<Rightarrow> cpon_writer \<Rightarrow> cpon_writer" where
  "cpon_writeMapKey key w = ccpon_pack_key_val_delim (ccpon_pack_string key (next_field w))"

definition cpon_writeIMapKey :: "int \<Rightarrow> cpon_writer \<Rightarrow> cpon_writer" where
  "cpon_writeIMapKey key w = ccpon_pack_key_val_delim (ccpon_pack_int key (next_field w))"

definition cpon_writeRawData :: "string \<Rightarrow> cpon_writer \<Rightarrow> cpon_writer" where
  "cpon_writeRawData data = cpon_put data"

section \<open>Names for ids\<close>

definition throwing :: "exn + 'a \<Rightarrow> ('a \<Rightarrow> cpon_writer \<Rightarrow> cpon_writer) \<Rightarrow> cpon_writer \<Rightarrow> cpon_writer" where
  "throwing r f w = (case r of Inl e \<Rightarrow> fail_with (PackThrow e) w | Inr x \<Rightarrow> f x w)"

text \<open>A name, or the number where the name is empty; a null pointer for a name has no result.\<close>

definition put_name :: "string option \<Rightarrow> int \<Rightarrow> cpon_writer \<Rightarrow> cpon_writer" where
  "put_name name i w =
     (case name of None \<Rightarrow> fail_with PackNoResult w | Some n \<Rightarrow> if n \<noteq> [] then cpon_put n w else ccpon_pack_int i w)"

definition put_info :: "meta_info \<Rightarrow> int \<Rightarrow> cpon_writer \<Rightarrow> cpon_writer" where
  "put_info mi key w =
     (if MetaInfo_isValid mi then cpon_put (case mi_name mi of None \<Rightarrow> [] | Some n \<Rightarrow> n) w else ccpon_pack_int key w)"

definition with_type :: "int \<Rightarrow> int \<Rightarrow> (meta_type \<Rightarrow> cpon_writer \<Rightarrow> cpon_writer) \<Rightarrow> cpon_writer \<Rightarrow> cpon_writer" where
  "with_type nsid mtid f w = (let (t, rg) = registeredType nsid mtid (wr_registry w) in f t (w\<lparr>wr_registry := rg\<rparr>))"

definition with_ns :: "int \<Rightarrow> (meta_ns \<Rightarrow> cpon_writer \<Rightarrow> cpon_writer) \<Rightarrow> cpon_writer \<Rightarrow> cpon_writer" where
  "with_ns nsid f w = (let (ns, rg) = registeredNameSpace nsid (wr_registry w) in f ns (w\<lparr>wr_registry := rg\<rparr>))"

text \<open>
  One integer entry of meta data with translation: the tag's name, and for the two tags that name
  the type its registered name.  \<open>wv\<close> writes the value.
\<close>

definition translated_tag :: "rpc_meta \<Rightarrow> int \<Rightarrow> rpc_value \<Rightarrow> (cpon_writer \<Rightarrow> cpon_writer) \<Rightarrow> cpon_writer \<Rightarrow> cpon_writer" where
  "translated_tag meta_data tag meta_val wv w =
     throwing (RpcMetaData_metaTypeNameSpaceId meta_data) (\<lambda>nsid.
     throwing (RpcMetaData_metaTypeId meta_data) (\<lambda>mtid.
       (if tag = Tag_MetaTypeNameSpaceId then
          throwing (RpcValue_toInt meta_val) (\<lambda>i. with_ns nsid (\<lambda>ns. put_name (ns_name ns) i))
        else if tag = Tag_MetaTypeId then
          throwing (RpcValue_toInt meta_val) (\<lambda>i. with_type nsid i (\<lambda>t. put_name (mt_name t) i))
        else wv) \<circ> ccpon_pack_key_val_delim \<circ> with_type nsid mtid (\<lambda>t. put_info (MetaType_tagById t tag) tag)))
     (next_field w)"

definition translated_key :: "rpc_meta \<Rightarrow> int \<Rightarrow> cpon_writer \<Rightarrow> cpon_writer" where
  "translated_key meta_data key w =
     throwing (RpcMetaData_metaTypeId meta_data) (\<lambda>mtid.
     throwing (RpcMetaData_metaTypeNameSpaceId meta_data) (\<lambda>nsid.
       ccpon_pack_key_val_delim \<circ> with_type nsid mtid (\<lambda>t. put_info (MetaType_keyById t key) key)))
     (next_field w)"

section \<open>Writing a value\<close>

text \<open>The loops over elements whose writing is given as a state transformer.\<close>

definition write_list_elements :: "(cpon_writer \<Rightarrow> cpon_writer) list \<Rightarrow> cpon_writer \<Rightarrow> cpon_writer" where
  "write_list_elements = fold (\<lambda>wv w. wv (next_field w))"

definition cpon_map_elements :: "(string \<times> (cpon_writer \<Rightarrow> cpon_writer)) list \<Rightarrow> cpon_writer \<Rightarrow> cpon_writer" where
  "cpon_map_elements = fold (\<lambda>(k, wv) w. wv (cpon_writeMapKey k w))"

definition cpon_imap_elements :: "rpc_meta \<Rightarrow> (int \<times> (cpon_writer \<Rightarrow> cpon_writer)) list \<Rightarrow> cpon_writer \<Rightarrow> cpon_writer" where
  "cpon_imap_elements meta_data =
     fold (\<lambda>(k, wv) w. wv (if wr_translate w then translated_key meta_data k w else cpon_writeIMapKey k w))"

definition meta_imap_elements :: "rpc_meta \<Rightarrow> ((int \<times> rpc_value) \<times> int \<times> (cpon_writer \<Rightarrow> cpon_writer)) list \<Rightarrow>
    cpon_writer \<Rightarrow> cpon_writer" where
  "meta_imap_elements meta_data =
     fold (\<lambda>((k, v), _, wv) w. if wr_translate w then translated_tag meta_data k v wv w else wv (cpon_writeIMapKey k w))"

primrec cw_value :: "rpc_value \<Rightarrow> cpon_writer \<Rightarrow> cpon_writer"
  and cw_variant :: "variant \<Rightarrow> rpc_meta \<Rightarrow> cpon_writer \<Rightarrow> cpon_writer"
  and cw_meta :: "rpc_meta \<Rightarrow> cpon_writer \<Rightarrow> cpon_writer"
where
  "cw_value (RpcValue m v) =
     (\<lambda>w. cw_variant v (case m of None \<Rightarrow> meta_empty | Some md \<Rightarrow> md)
            ((case map_option cw_meta m of None \<Rightarrow> id | Some wm \<Rightarrow> wm) w))"
| "cw_variant VInvalid = (\<lambda>md. ccpon_pack_null)"
| "cw_variant VNull = (\<lambda>md. ccpon_pack_null)"
| "cw_variant (VUInt u) = (\<lambda>md. ccpon_pack_uint u)"
| "cw_variant (VInt i) = (\<lambda>md. ccpon_pack_int i)"
| "cw_variant (VDouble d) = (\<lambda>md. ccpon_pack_double d)"
| "cw_variant (VBool b) = (\<lambda>md. ccpon_pack_boolean b)"
| "cw_variant (VBlob b) = (\<lambda>md. ccpon_pack_blob b)"
| "cw_variant (VString s) = (\<lambda>md. ccpon_pack_string s)"
| "cw_variant (VDateTime d) =
     (\<lambda>md. ccpon_pack_date_time (RpcDateTime_msecsSinceEpoch d) (RpcDateTime_utcOffsetMin d))"
| "cw_variant (VDecimal d) = (\<lambda>md. ccpon_pack_decimal (dec_mantissa d) (dec_exponent d))"
| "cw_variant (VList l) =
     (\<lambda>md w. cpon_writeContainerEnd (write_list_elements (map cw_value l)
               (cpon_writeContainerBegin TList (is_oneline_list l) w)))"
| "cw_variant (VMap m) =
     (\<lambda>md w. cpon_writeContainerEnd (cpon_map_elements (map (map_prod id cw_value) m)
               (cpon_writeContainerBegin TMap (is_oneline_map m) w)))"
| "cw_variant (VIMap m) =
     (\<lambda>md w. cpon_writeContainerEnd (cpon_imap_elements md (map (map_prod id cw_value) m)
               (cpon_writeContainerBegin TIMap (is_oneline_map m) w)))"
| "cw_meta (MetaData im sm) =
     (\<lambda>w. if im = [] \<and> sm = [] then w
           else writeMetaEnd (cpon_map_elements (map (map_prod id cw_value) sm)
                  (meta_imap_elements (MetaData im sm) (zip im (map (map_prod id cw_value) im))
                    (writeMetaBegin (is_oneline_meta (MetaData im sm)) w))))"

definition cpon_writeListElement :: "rpc_value \<Rightarrow> cpon_writer \<Rightarrow> cpon_writer" where
  "cpon_writeListElement val w = cw_value val (next_field w)"

definition cpon_writeMapElement_s :: "string \<Rightarrow> rpc_value \<Rightarrow> cpon_writer \<Rightarrow> cpon_writer" where
  "cpon_writeMapElement_s key val w = cw_value val (cpon_writeMapKey key w)"

definition cpon_writeMapElement_i :: "int \<Rightarrow> rpc_value \<Rightarrow> cpon_writer \<Rightarrow> cpon_writer" where
  "cpon_writeMapElement_i key val w = cw_value val (cpon_writeIMapKey key w)"

lemma cpon_elements:
  "write_list_elements (map cw_value l) = fold cpon_writeListElement l"
  "cpon_map_elements (map (map_prod id cw_value) m) = fold (\<lambda>(k, v). cpon_writeMapElement_s k v) m"
  by (auto simp: write_list_elements_def cpon_map_elements_def cpon_writeListElement_def [abs_def] cpon_writeMapElement_s_def [abs_def]
      fold_map comp_def case_prod_unfold fun_eq_iff)

section \<open>Values as text\<close>

text \<open>\<open>Inl\<close>: writing throws.  Otherwise the text, which ends early where a number has no text.\<close>

definition written :: "cpon_writer \<Rightarrow> exn + string" where
  "written w = (case cx_rc w of PackThrow e \<Rightarrow> Inl e | _ \<Rightarrow> Inr (cx_out w))"

definition RpcValue_toCpon :: "meta_registry \<Rightarrow> string \<Rightarrow> rpc_value \<Rightarrow> exn + string" where
  "RpcValue_toCpon rg indent v =
     written (cw_value v (CponWriter_make rg (CponWriterOptions_setIndent indent
       (CponWriterOptions_setTranslateIds False CponWriterOptions_default))))"

definition RpcValue_toPrettyString :: "meta_registry \<Rightarrow> string \<Rightarrow> rpc_value \<Rightarrow> exn + string" where
  "RpcValue_toPrettyString rg indent v =
     (if RpcValue_isValid v then
        written (cw_value v (CponWriter_make rg (CponWriterOptions_setIndent indent
          (CponWriterOptions_setTranslateIds True CponWriterOptions_default))))
      else Inr ''<invalid>'')"

definition RpcMetaData_toPrettyString :: "meta_registry \<Rightarrow> rpc_meta \<Rightarrow> exn + string" where
  "RpcMetaData_toPrettyString rg md =
     written (cw_meta md (CponWriter_make rg (CponWriterOptions_setTranslateIds True CponWriterOptions_default)))"

definition RpcMetaData_toString :: "meta_registry \<Rightarrow> string \<Rightarrow> rpc_meta \<Rightarrow> exn + string" where
  "RpcMetaData_toString rg indent md =
     written (cw_meta md (CponWriter_make rg (CponWriterOptions_setIndent indent
       (CponWriterOptions_setTranslateIds False CponWriterOptions_default))))"

end
