(* ===== verification/Cpon_Unpack.thy ===== *)
theory Cpon_Unpack
  imports Cpon_Time Rpc_Value
begin

text \<open>
  The text format, reading (\<open>c/ccpon.c\<close>): \<open>ccpon_unpack_next\<close> and its parts.  The state of the unpack
  context is the last item and the text still to come; a character that is put back (\<open>current--\<close>) is one
  that stays in it.  \<open>char\<close> is signed, so that characters from 128 on are negative.  The C++ reader throws
  on every error code, and at the end of the text; the model fails at once.  A call that dereferences
  the null pointer of the end of the input, or reads a table outside its bounds, is \<open>CponCrash\<close>.
  Line numbers are left out: they only appear in messages.
\<close>

datatype cpon_fail = CponThrow exn | CponCrash

abbreviation parse_fail :: "cpon_fail + 'a" where "parse_fail \<equiv> Inl (CponThrow ParseException)"

section \<open>Insignificant characters\<close>

datatype comment_end = CommentDone string | CommentCut | CommentCrash

fun block_comment :: "string \<Rightarrow> comment_end" where
  "block_comment [] = CommentCut"
| "block_comment (c # r) =
     (if c = CHR ''*'' then (case r of [] \<Rightarrow> CommentCrash | d # r' \<Rightarrow> if d = CHR ''/'' then CommentDone r' else block_comment r')
      else block_comment r)"

fun line_comment :: "string \<Rightarrow> comment_end" where
  "line_comment [] = CommentCut"
| "line_comment (c # r) = (if c = CHR 0x0A then CommentDone r else line_comment r)"

text \<open>
  The result of \<open>ccpon_unpack_skip_insignificant\<close>: the first significant character and what follows it; the end
  of the text, an error; or a null pointer without an error, after a slash that opens no comment
  and the character behind it.
\<close>

datatype skip_result = SkipChar char string | SkipEnd | SkipStray char string | SkipCrash

definition blank_char :: "char \<Rightarrow> bool" where
  "blank_char c \<longleftrightarrow> of_char c \<ge> (128::nat) \<or> of_char c \<le> (32::nat) \<or> c = CHR '':'' \<or> c = CHR '',''"

definition comment_of :: "char \<Rightarrow> string \<Rightarrow> comment_end" where
  "comment_of d r = (if d = CHR ''*'' then block_comment r else line_comment r)"

lemma block_comment_shrinks: "block_comment r = CommentDone r' \<Longrightarrow> length r' < length r"
  by (induction r rule: block_comment.induct) (fastforce split: if_splits list.splits)+

lemma line_comment_shrinks: "line_comment r = CommentDone r' \<Longrightarrow> length r' < length r"
  by (induction r rule: line_comment.induct) (auto split: if_splits)

lemma comment_of_shrinks: "comment_of d r = CommentDone r' \<Longrightarrow> length r' < length r"
  by (auto simp: comment_of_def dest: block_comment_shrinks line_comment_shrinks split: if_splits)

function skip_insignificant :: "string \<Rightarrow> skip_result" where
  "skip_insignificant [] = SkipEnd"
| "skip_insignificant (c # r) =
     (if blank_char c then skip_insignificant r
      else if c = CHR ''/'' then
        (case r of
           [] \<Rightarrow> SkipEnd
         | d # r' \<Rightarrow>
             if d = CHR ''*'' \<or> d = CHR ''/'' then
               (case comment_of d r' of
                  CommentDone r'' \<Rightarrow> skip_insignificant r''
                | CommentCut \<Rightarrow> SkipEnd
                | CommentCrash \<Rightarrow> SkipCrash)
             else SkipStray d r')
      else SkipChar c r)"
  by pat_completeness auto
termination
  by (relation "measure length") (auto dest: comment_of_shrinks)

declare skip_insignificant.simps(2) [simp del]

definition skip_shorter :: "nat \<Rightarrow> skip_result \<Rightarrow> bool" where
  "skip_shorter n res =
     (case res of SkipChar c r \<Rightarrow> length r < n | SkipStray c r \<Rightarrow> length r + 1 < n | _ \<Rightarrow> True)"

lemma skip_shorter_mono: "skip_shorter m res \<Longrightarrow> m \<le> n \<Longrightarrow> skip_shorter n res"
  by (auto simp: skip_shorter_def split: skip_result.splits)

lemma skip_shrinks: "skip_shorter (length inp) (skip_insignificant inp)"
proof (induction "length inp" arbitrary: inp rule: less_induct)
  case less
  show ?case
  proof (cases inp)
    case Nil
    then show ?thesis by (simp add: skip_shorter_def)
  next
    case (Cons c r)
    have "skip_shorter (Suc (length r)) (skip_insignificant r')" if "length r' \<le> length r" for r'
      using less.hyps [of r'] that by (auto simp: Cons intro: skip_shorter_mono)
    then show ?thesis
      by (auto simp: Cons skip_insignificant.simps(2) [of c r] skip_shorter_def [of _ "SkipChar c r" for c r]
          skip_shorter_def [of _ "SkipStray c r" for c r] skip_shorter_def [of _ SkipEnd] skip_shorter_def [of _ SkipCrash]
          dest!: comment_of_shrinks split: list.splits comment_end.splits)
  qed
qed

section \<open>Integers\<close>

record read_int_result =
  ri_value :: int
  ri_digit_cnt :: int
  ri_signum :: int
  ri_overflow :: bool

definition digit_of :: "int \<Rightarrow> char \<Rightarrow> int option" where
  "digit_of base c =
     (let b = (of_char c :: int)
      in if 48 \<le> b \<and> b \<le> 57 then Some (b - 48)
         else if 97 \<le> b \<and> b \<le> 102 \<and> base = 16 then Some (b - 97 + 10)
         else if 65 \<le> b \<and> b \<le> 70 \<and> base = 16 then Some (b - 65 + 10)
         else None)"

text \<open>A digit that would overflow is dropped and remembered.\<close>

definition add_digit :: "int \<Rightarrow> int \<Rightarrow> read_int_result \<Rightarrow> read_int_result" where
  "add_digit base digit res =
     (if \<not> in_s 64 (ri_value res * base) \<or> \<not> in_s 64 (ri_value res * base + digit) then res\<lparr>ri_overflow := True\<rparr>
      else res\<lparr>ri_value := ri_value res * base + digit, ri_digit_cnt := ri_digit_cnt res + 1\<rparr>)"

text \<open>\<open>n\<close> counts the characters taken.\<close>

fun int_loop :: "int \<Rightarrow> bool \<Rightarrow> nat \<Rightarrow> read_int_result \<Rightarrow> string \<Rightarrow> read_int_result \<times> nat \<times> string" where
  "int_loop base starts_with_signum n res [] = (res, n, [])"
| "int_loop base starts_with_signum n res (c # r) =
     (if c = CHR ''+'' \<or> c = CHR ''-'' then
        (if n \<noteq> 0 then (res, n, c # r)
         else int_loop base True (Suc n) (if c = CHR ''-'' then res\<lparr>ri_signum := -1\<rparr> else res) r)
      else if c = CHR ''x'' then
        (if n = (if starts_with_signum then 2 else 1) \<and> ri_value res = 0
         then int_loop 16 starts_with_signum (Suc n) (res\<lparr>ri_digit_cnt := 0\<rparr>) r
         else (res, n, c # r))
      else (case digit_of base c of
              None \<Rightarrow> (res, n, c # r)
            | Some digit \<Rightarrow> int_loop base starts_with_signum (Suc n) (add_digit base digit res) r))"

definition unpack_int_to_result :: "int \<Rightarrow> string \<Rightarrow> read_int_result \<times> nat \<times> string" where
  "unpack_int_to_result init_value inp =
     int_loop 10 False 0 \<lparr>ri_value = init_value, ri_digit_cnt = 0, ri_signum = 1, ri_overflow = False\<rparr> inp"

text \<open>The value, the number of characters and the rest.\<close>

definition cpon_unpack_int :: "string \<Rightarrow> int \<times> nat \<times> string" where
  "cpon_unpack_int inp = (let (res, n, r) = unpack_int_to_result 0 inp in (ri_value res * ri_signum res, n, r))"

lemma int_loop_shrinks: "int_loop base s n res inp = (res', n', r) \<Longrightarrow> length r \<le> length inp"
  by (induction base s n res inp rule: int_loop.induct)
     (auto split: if_splits option.splits intro: le_SucI)

lemma unpack_int_shrinks:
  "unpack_int_to_result v inp = (res, n, r) \<Longrightarrow> length r \<le> length inp"
  "cpon_unpack_int inp = (x, n, r) \<Longrightarrow> length r \<le> length inp"
  by (auto simp: unpack_int_to_result_def cpon_unpack_int_def Let_def split: prod.splits dest: int_loop_shrinks)

section \<open>Items\<close>

record cpon_string =
  cs_chunk :: string
  cs_chunk_cnt :: nat
  cs_last_chunk :: bool
  cs_blob_hex :: bool

datatype cpon_item =
    CInvalid
  | CNull
  | CBoolean bool
  | CInt int
  | CUInt u64
  | CDouble double
  | CDecimal int int
  | CBlob cpon_string
  | CString cpon_string
  | CDateTime int int
  | CList
  | CMap
  | CIMap
  | CMeta
  | CContainerEnd

section \<open>Times\<close>

text \<open>One integer field and the separator behind it (\<open>UNPACK_TAKE_BYTE\<close>): \<open>None\<close> is an error.\<close>

definition take_field :: "string \<Rightarrow> (int \<times> char \<times> string) option" where
  "take_field inp =
     (case cpon_unpack_int inp of
        (val, n, r) \<Rightarrow> if n = 0 then None else (case r of [] \<Rightarrow> None | c # r' \<Rightarrow> Some (s_wrap 32 val, c, r')))"

definition take_last_field :: "string \<Rightarrow> (int \<times> string) option" where
  "take_last_field inp =
     (case cpon_unpack_int inp of (val, n, r) \<Rightarrow> if n = 0 then None else Some (s_wrap 32 val, r))"

text \<open>
  Milliseconds: without a digit after the point the function returns without an item and without an
  error, which is \<open>Inr\<close> with the rest of the text.
\<close>

definition unpack_msec :: "string \<Rightarrow> (int \<times> string) + string" where
  "unpack_msec inp =
     (case inp of
        [] \<Rightarrow> Inl (0, [])
      | c # r \<Rightarrow>
          if c = CHR ''.'' then
            (case cpon_unpack_int r of (val, n, r') \<Rightarrow> if n = 0 then Inr r' else Inl (s_wrap 32 val, r'))
          else Inl (0, inp))"

definition unpack_zone :: "string \<Rightarrow> (int \<times> string) option" where
  "unpack_zone inp =
     (case inp of
        [] \<Rightarrow> Some (0, [])
      | c # r \<Rightarrow>
          if c = CHR ''Z'' then Some (0, r)
          else if c = CHR ''+'' \<or> c = CHR ''-'' then
            (case cpon_unpack_int r of
               (val, n, r') \<Rightarrow>
                 if n = 2 \<or> n = 4
                 then (let off = s_wrap 32 (if n = 2 then 60 * val else 60 * (val sdiv 100) + val smod 100)
                       in Some (if c = CHR ''-'' then s_wrap 32 (- off) else off, r'))
                 else None)
          else Some (0, inp))"

text \<open>The separators of hours, minutes and seconds are not looked at.\<close>

definition unpack_tm :: "string \<Rightarrow> (tm \<times> string) option" where
  "unpack_tm inp =
     Option.bind (take_field inp) (\<lambda>(year, c1, inp). if c1 \<noteq> CHR ''-'' then None else
     Option.bind (take_field inp) (\<lambda>(mon, c2, inp). if c2 \<noteq> CHR ''-'' then None else
     Option.bind (take_field inp) (\<lambda>(mday, c3, inp). if c3 \<noteq> CHR ''T'' \<and> c3 \<noteq> CHR '' '' then None else
     Option.bind (take_field inp) (\<lambda>(hour, c4, inp).
     Option.bind (take_field inp) (\<lambda>(minute, c5, inp).
       map_option (\<lambda>(sec, inp). (\<lparr>tm_year = s_wrap 32 (year - 1900), tm_mon = s_wrap 32 (mon - 1), tm_mday = mday,
           tm_hour = hour, tm_min = minute, tm_sec = sec\<rparr>, inp))
         (take_last_field inp))))))"

definition cpon_unpack_date_time :: "string \<Rightarrow> cpon_fail + cpon_item \<times> string" where
  "cpon_unpack_date_time inp =
     (case unpack_tm inp of
        None \<Rightarrow> parse_fail
      | Some (t, inp) \<Rightarrow>
          (case unpack_msec inp of
             Inr r \<Rightarrow> Inr (CInvalid, r)
           | Inl (msec, inp) \<Rightarrow>
               (case unpack_zone inp of
                  None \<Rightarrow> parse_fail
                | Some (utc_offset, inp) \<Rightarrow>
                    (case ccpon_timegm t of
                       None \<Rightarrow> Inl CponCrash
                     | Some epoch_sec \<Rightarrow>
                         Inr (CDateTime (s_wrap 64 ((epoch_sec - utc_offset * 60) * 1000 + msec)) utc_offset, inp)))))"

section \<open>Strings and blobs\<close>

definition unhex :: "char \<Rightarrow> int option" where
  "unhex c =
     (let b = (of_char c :: nat)
      in if 48 \<le> b \<and> b \<le> 57 then Some (int b - 48) else if 97 \<le> b \<and> b \<le> 102 then Some (int b - 97 + 10)
         else if 65 \<le> b \<and> b \<le> 70 then Some (int b - 65 + 10) else None)"

text \<open>
  The three loops: room left in the chunk buffer, chunk so far, text.  The result is the chunk, whether the
  closing quote was met, and the rest; \<open>None\<close> is an error.
\<close>

definition hex_char :: "int \<Rightarrow> int \<Rightarrow> char" where
  "hex_char hi lo = char_of (nat (16 * hi + lo))"

fun blob_hex_loop :: "nat \<Rightarrow> string \<Rightarrow> string \<Rightarrow> (string \<times> bool \<times> string) option" where
  "blob_hex_loop 0 ch inp = Some (ch, False, inp)"
| "blob_hex_loop (Suc room) ch [] = None"
| "blob_hex_loop (Suc room) ch (p # inp) =
     (if of_char p \<ge> (128::nat) \<or> of_char p \<le> (32::nat) then blob_hex_loop (Suc room) ch inp
      else if p = CHR 0x22 then Some (ch, True, inp)
      else (case unhex p of
              None \<Rightarrow> None
            | Some b1 \<Rightarrow>
                (case inp of
                   [] \<Rightarrow> None
                 | q # inp' \<Rightarrow>
                     (case unhex q of None \<Rightarrow> None | Some b2 \<Rightarrow> blob_hex_loop room (ch @ [hex_char b1 b2]) inp'))))"

fun blob_esc_loop :: "nat \<Rightarrow> string \<Rightarrow> string \<Rightarrow> (string \<times> bool \<times> string) option" where
  "blob_esc_loop 0 ch inp = Some (ch, False, inp)"
| "blob_esc_loop (Suc room) ch [] = None"
| "blob_esc_loop (Suc room) ch (b # inp) =
     (if b = CHR 0x22 then Some (ch, True, inp)
      else if b = CHR 0x5C then
        (case inp of
           [] \<Rightarrow> None
         | p # inp' \<Rightarrow>
             if p = CHR ''t'' then blob_esc_loop room (ch @ [CHR 0x09]) inp'
             else if p = CHR ''r'' then blob_esc_loop room (ch @ [CHR 0x0D]) inp'
             else if p = CHR ''n'' then blob_esc_loop room (ch @ [CHR 0x0A]) inp'
             else if p = CHR 0x22 \<or> p = CHR 0x5C then blob_esc_loop room (ch @ [p]) inp'
             else (case unhex p of
                     None \<Rightarrow> None
                   | Some hi \<Rightarrow>
                       (case inp' of
                          [] \<Rightarrow> None
                        | q # inp'' \<Rightarrow>
                            (case unhex q of None \<Rightarrow> None | Some lo \<Rightarrow> blob_esc_loop room (ch @ [hex_char hi lo]) inp''))))
      else if of_char b < (128::nat) then blob_esc_loop room (ch @ [b]) inp
      else None)"

definition unesc_char :: "char \<Rightarrow> char" where
  "unesc_char p =
     (if p = CHR ''b'' then CHR 0x08 else if p = CHR ''f'' then CHR 0x0C else if p = CHR ''n'' then CHR 0x0A
      else if p = CHR ''r'' then CHR 0x0D else if p = CHR ''t'' then CHR 0x09 else if p = CHR ''0'' then CHR 0x00
      else p)"

fun string_loop :: "nat \<Rightarrow> string \<Rightarrow> string \<Rightarrow> (string \<times> bool \<times> string) option" where
  "string_loop 0 ch inp = Some (ch, False, inp)"
| "string_loop (Suc room) ch [] = None"
| "string_loop (Suc room) ch (p # inp) =
     (if p = CHR 0x5C then (case inp of [] \<Rightarrow> None | q # inp' \<Rightarrow> string_loop room (ch @ [unesc_char q]) inp')
      else if p = CHR 0x22 then Some (ch, True, inp)
      else string_loop room (ch @ [p]) inp)"

definition CCPCP_STRING_CHUNK_BUFF_LEN :: nat where "CCPCP_STRING_CHUNK_BUFF_LEN = 256"

definition cpon_string_init :: "bool \<Rightarrow> cpon_string" where
  "cpon_string_init blob_hex = \<lparr>cs_chunk = [], cs_chunk_cnt = 0, cs_last_chunk = False, cs_blob_hex = blob_hex\<rparr>"

text \<open>What the three functions share: the opening quote before the first chunk, the loop, the counter.\<close>

definition unpack_chunk :: "(nat \<Rightarrow> string \<Rightarrow> string \<Rightarrow> (string \<times> bool \<times> string) option) \<Rightarrow> cpon_string \<Rightarrow> string \<Rightarrow>
    (cpon_string \<times> string) option" where
  "unpack_chunk loop it inp =
     Option.bind (if cs_chunk_cnt it = 0 then (case inp of [] \<Rightarrow> None | p # r \<Rightarrow> if p = CHR 0x22 then Some r else None)
                  else Some inp) (\<lambda>inp.
     map_option (\<lambda>(ch, fin, r).
         (it\<lparr>cs_chunk := ch, cs_chunk_cnt := cs_chunk_cnt it + 1, cs_last_chunk := cs_last_chunk it \<or> fin\<rparr>, r))
       (loop CCPCP_STRING_CHUNK_BUFF_LEN [] inp))"

definition ccpon_unpack_blob_hex :: "cpon_string \<Rightarrow> string \<Rightarrow> (cpon_string \<times> string) option" where
  "ccpon_unpack_blob_hex = unpack_chunk blob_hex_loop"

definition ccpon_unpack_blob_esc :: "cpon_string \<Rightarrow> string \<Rightarrow> (cpon_string \<times> string) option" where
  "ccpon_unpack_blob_esc = unpack_chunk blob_esc_loop"

definition ccpon_unpack_string :: "cpon_string \<Rightarrow> string \<Rightarrow> (cpon_string \<times> string) option" where
  "ccpon_unpack_string = unpack_chunk string_loop"

definition ccpon_unpack_blob :: "cpon_string \<Rightarrow> string \<Rightarrow> (cpon_string \<times> string) option" where
  "ccpon_unpack_blob it = (if cs_blob_hex it then ccpon_unpack_blob_hex it else ccpon_unpack_blob_esc it)"

section \<open>Numbers\<close>

definition INT64_MAX :: int where "INT64_MAX = 9223372036854775807"
definition INT64_MIN :: int where "INT64_MIN = -9223372036854775808"

definition int_item :: "bool \<Rightarrow> bool \<Rightarrow> int \<Rightarrow> cpon_item" where
  "int_item is_neg is_overflow mantissa =
     CInt (if is_overflow then (if is_neg then INT64_MIN else INT64_MAX) else if is_neg then - mantissa else mantissa)"

definition uint_item :: "bool \<Rightarrow> int \<Rightarrow> cpon_item" where
  "uint_item is_overflow mantissa = CUInt (word_of_int (if is_overflow then INT64_MAX else mantissa))"

definition decimal_item :: "bool \<Rightarrow> bool \<Rightarrow> int \<Rightarrow> int \<Rightarrow> int \<Rightarrow> cpon_item" where
  "decimal_item is_neg is_overflow mantissa dec_cnt exponent =
     (if is_overflow \<and> dec_cnt = 0 then CDecimal (if is_neg then INT64_MIN else INT64_MAX) 0
      else CDecimal (if is_neg then - mantissa else mantissa) (s_wrap 32 (exponent - dec_cnt)))"

text \<open>After an \<open>e\<close>: the exponent needs a digit.\<close>

definition unpack_exponent :: "bool \<Rightarrow> bool \<Rightarrow> int \<Rightarrow> int \<Rightarrow> string \<Rightarrow> cpon_fail + cpon_item \<times> string" where
  "unpack_exponent is_neg is_overflow mantissa dec_cnt inp =
     (case unpack_int_to_result 0 inp of
        (res, n, r) \<Rightarrow>
          if ri_digit_cnt res = 0 then parse_fail
          else Inr (decimal_item is_neg (is_overflow \<or> ri_overflow res) mantissa dec_cnt (ri_value res * ri_signum res), r))"

text \<open>After a point: the digits continue the mantissa.  A second point is swallowed.\<close>

definition unpack_fraction :: "bool \<Rightarrow> bool \<Rightarrow> int \<Rightarrow> string \<Rightarrow> cpon_fail + cpon_item \<times> string" where
  "unpack_fraction is_neg is_overflow mantissa inp =
     (case unpack_int_to_result mantissa inp of
        (res, n, r) \<Rightarrow>
          let is_overflow = (is_overflow \<or> ri_overflow res);
              item = decimal_item is_neg is_overflow (ri_value res) (ri_digit_cnt res) 0
          in (case r of
                [] \<Rightarrow> Inr (item, [])
              | p # r' \<Rightarrow>
                  if p = CHR ''e'' \<or> p = CHR ''E''
                  then unpack_exponent is_neg is_overflow (ri_value res) (ri_digit_cnt res) r'
                  else if p = CHR ''.'' then Inr (item, r') else Inr (item, r)))"

definition unpack_number :: "string \<Rightarrow> cpon_fail + cpon_item \<times> string" where
  "unpack_number inp =
     (case unpack_int_to_result 0 inp of
        (res, n, r) \<Rightarrow>
          let is_neg = (ri_signum res = -1); item = int_item is_neg (ri_overflow res) (ri_value res)
          in if ri_digit_cnt res = 0 then parse_fail
             else (case r of
                [] \<Rightarrow> Inr (item, [])
              | p # r' \<Rightarrow>
                  if p = CHR ''u'' then Inr (uint_item (ri_overflow res) (ri_value res), r')
                  else if p = CHR ''.'' then unpack_fraction is_neg (ri_overflow res) (ri_value res) r'
                  else if p = CHR ''e'' \<or> p = CHR ''E''
                  then unpack_exponent is_neg (ri_overflow res) (ri_value res) 0 r'
                  else Inr (item, r)))"

section \<open>The next item\<close>

definition of_opt :: "'a option \<Rightarrow> cpon_fail + 'a" where
  "of_opt x = (case x of None \<Rightarrow> parse_fail | Some y \<Rightarrow> Inr y)"

text \<open>The rest of a literal whose first character was taken.\<close>

definition take_literal :: "string \<Rightarrow> cpon_item \<Rightarrow> string \<Rightarrow> cpon_fail + cpon_item \<times> string" where
  "take_literal lit it inp = (if take (length lit) inp = lit then Inr (it, drop (length lit) inp) else parse_fail)"

definition take_quote :: "cpon_item \<Rightarrow> string \<Rightarrow> cpon_fail + cpon_item \<times> string" where
  "take_quote it inp = (case inp of [] \<Rightarrow> parse_fail | q # r \<Rightarrow> if q = CHR 0x22 then Inr (it, r) else parse_fail)"

definition unpack_quoted_time :: "string \<Rightarrow> cpon_fail + cpon_item \<times> string" where
  "unpack_quoted_time inp =
     (case inp of
        [] \<Rightarrow> parse_fail
      | p # r \<Rightarrow> if p = CHR 0x22 then bind_e (cpon_unpack_date_time r) (\<lambda>(it, r). take_quote it r) else parse_fail)"

definition number_start :: "char \<Rightarrow> bool" where
  "number_start c \<longleftrightarrow> 48 \<le> (of_char c :: nat) \<and> (of_char c :: nat) \<le> 57 \<or> c = CHR ''+'' \<or> c = CHR ''-''"

text \<open>The switch on the first significant character \<open>p\<close>, with the text behind it.\<close>

definition cpon_unpack_item :: "char \<Rightarrow> string \<Rightarrow> cpon_fail + cpon_item \<times> string" where
  "cpon_unpack_item p inp =
     (if p = CHR '']'' \<or> p = CHR ''}'' \<or> p = CHR ''>'' then Inr (CContainerEnd, inp)
      else if p = CHR ''<'' then Inr (CMeta, inp)
      else if p = CHR ''{'' then Inr (CMap, inp)
      else if p = CHR ''['' then Inr (CList, inp)
      else if p = CHR ''i'' then take_literal ''{'' CIMap inp
      else if p = CHR ''a'' then take_literal ''['' CList inp
      else if p = CHR ''d'' then unpack_quoted_time inp
      else if p = CHR ''n'' then take_literal ''ull'' CNull inp
      else if p = CHR ''f'' then take_literal ''alse'' (CBoolean False) inp
      else if p = CHR ''t'' then take_literal ''rue'' (CBoolean True) inp
      else if p = CHR ''x'' then
        map_sum id (map_prod CBlob id) (of_opt (ccpon_unpack_blob (cpon_string_init True) inp))
      else if p = CHR ''b'' then
        map_sum id (map_prod CBlob id) (of_opt (ccpon_unpack_blob (cpon_string_init False) inp))
      else if p = CHR 0x22 then
        map_sum id (map_prod CString id) (of_opt (ccpon_unpack_string (cpon_string_init False) (p # inp)))
      else if number_start p then unpack_number (p # inp)
      else parse_fail)"

definition cpon_unpack_fresh :: "string \<Rightarrow> cpon_fail + cpon_item \<times> string" where
  "cpon_unpack_fresh inp =
     (case skip_insignificant inp of
        SkipChar p r \<Rightarrow> cpon_unpack_item p r
      | SkipEnd \<Rightarrow> parse_fail
      | SkipStray p r \<Rightarrow> Inr (CInvalid, r)
      | SkipCrash \<Rightarrow> Inl CponCrash)"

definition ccpon_unpack_next :: "cpon_item \<Rightarrow> string \<Rightarrow> cpon_fail + cpon_item \<times> string" where
  "ccpon_unpack_next it inp =
     (case it of
        CString s \<Rightarrow> if cs_last_chunk s then cpon_unpack_fresh inp
          else map_sum id (map_prod CString id) (of_opt (ccpon_unpack_string s inp))
      | CBlob s \<Rightarrow> if cs_last_chunk s then cpon_unpack_fresh inp
          else map_sum id (map_prod CBlob id) (of_opt (ccpon_unpack_blob s inp))
      | _ \<Rightarrow> cpon_unpack_fresh inp)"

section \<open>An item consumes text\<close>

definition loop_shrinks :: "(nat \<Rightarrow> string \<Rightarrow> string \<Rightarrow> (string \<times> bool \<times> string) option) \<Rightarrow> bool" where
  "loop_shrinks loop \<longleftrightarrow> (\<forall>room ch inp ch' fin r. loop room ch inp = Some (ch', fin, r) \<longrightarrow>
     length r \<le> length inp \<and> (0 < room \<longrightarrow> length r < length inp))"

lemma blob_hex_loop_length:
  "blob_hex_loop room ch inp = Some (ch', fin, r) \<Longrightarrow> length r \<le> length inp \<and> (0 < room \<longrightarrow> length r < length inp)"
  by (induction room ch inp rule: blob_hex_loop.induct)
     (auto simp: less_Suc_eq_le split: if_split_asm list.split_asm option.split_asm intro: le_SucI less_imp_le, fastforce+)

lemma blob_esc_loop_length:
  "blob_esc_loop room ch inp = Some (ch', fin, r) \<Longrightarrow> length r \<le> length inp \<and> (0 < room \<longrightarrow> length r < length inp)"
  by (induction room ch inp rule: blob_esc_loop.induct)
     (auto simp: less_Suc_eq_le split: if_split_asm list.split_asm option.split_asm intro: le_SucI less_imp_le, fastforce+)

lemma string_loop_length:
  "string_loop room ch inp = Some (ch', fin, r) \<Longrightarrow> length r \<le> length inp \<and> (0 < room \<longrightarrow> length r < length inp)"
  by (induction room ch inp rule: string_loop.induct)
     (auto simp: less_Suc_eq_le split: if_splits list.splits intro: le_SucI less_imp_le)

lemma loops_shrink: "loop_shrinks blob_hex_loop" "loop_shrinks blob_esc_loop" "loop_shrinks string_loop"
  unfolding loop_shrinks_def using blob_hex_loop_length blob_esc_loop_length string_loop_length by blast+

lemma unpack_chunk_length:
  "loop_shrinks loop \<Longrightarrow> unpack_chunk loop it inp = Some (it', r) \<Longrightarrow> length r < length inp"
  by (fastforce simp: unpack_chunk_def loop_shrinks_def CCPCP_STRING_CHUNK_BUFF_LEN_def bind_eq_Some_conv
      split: if_splits list.splits)

lemma unpack_strings_length:
  "ccpon_unpack_blob it inp = Some (it', r) \<Longrightarrow> length r < length inp"
  "ccpon_unpack_string it inp = Some (it', r) \<Longrightarrow> length r < length inp"
  unfolding ccpon_unpack_blob_def ccpon_unpack_blob_hex_def ccpon_unpack_blob_esc_def ccpon_unpack_string_def
  by (auto split: if_splits intro: unpack_chunk_length loops_shrink)

lemma take_field_length:
  "take_field inp = Some (v, c, r) \<Longrightarrow> length r \<le> length inp"
  "take_last_field inp = Some (v, r) \<Longrightarrow> length r \<le> length inp"
  by (auto simp: take_field_def take_last_field_def split: prod.splits if_splits list.splits dest!: unpack_int_shrinks(2))

lemma unpack_tm_length: "unpack_tm inp = Some (t, r) \<Longrightarrow> length r \<le> length inp"
  by (auto simp: unpack_tm_def bind_eq_Some_conv split: prod.splits if_splits dest!: take_field_length)

lemma unpack_time_parts_length:
  "unpack_msec inp = Inl (v, r) \<Longrightarrow> length r \<le> length inp"
  "unpack_msec inp = Inr r \<Longrightarrow> length r \<le> length inp"
  "unpack_zone inp = Some (v, r) \<Longrightarrow> length r \<le> length inp"
  by (auto simp: unpack_msec_def unpack_zone_def Let_def split: prod.splits if_splits list.splits
      dest!: unpack_int_shrinks(2))

lemma cpon_unpack_date_time_length: "cpon_unpack_date_time inp = Inr (it, r) \<Longrightarrow> length r \<le> length inp"
proof -
  assume *: "cpon_unpack_date_time inp = Inr (it, r)"
  then obtain t r1 where t: "unpack_tm inp = Some (t, r1)"
    by (cases "unpack_tm inp") (auto simp: cpon_unpack_date_time_def)
  note l1 = unpack_tm_length [OF t]
  show ?thesis
  proof (cases "unpack_msec r1")
    case (Inr r2)
    then show ?thesis using * l1 unpack_time_parts_length(2) [OF Inr] by (simp add: cpon_unpack_date_time_def t)
  next
    case (Inl x)
    then obtain ms r2 where m: "unpack_msec r1 = Inl (ms, r2)" by (cases x) simp
    note l2 = unpack_time_parts_length(1) [OF m]
    with * obtain off r3 where z: "unpack_zone r2 = Some (off, r3)"
      by (cases "unpack_zone r2") (auto simp: cpon_unpack_date_time_def t m)
    have "r = r3"
    proof (cases "ccpon_timegm t")
      case (Some e)
      then show ?thesis using * by (simp only: cpon_unpack_date_time_def t m z prod.case option.case sum.case) simp
    qed (use * in \<open>simp add: cpon_unpack_date_time_def t m z\<close>)
    then show ?thesis using l1 l2 unpack_time_parts_length(3) [OF z] by simp
  qed
qed

lemma take_quote_Inr: "take_quote it inp = Inr (it', r) \<longleftrightarrow> it' = it \<and> inp = CHR 0x22 # r"
  by (auto simp: take_quote_def split: list.splits)

lemma unpack_quoted_time_length: "unpack_quoted_time inp = Inr (it, r) \<Longrightarrow> length r \<le> length inp"
proof -
  assume *: "unpack_quoted_time inp = Inr (it, r)"
  then obtain p r1 where inp: "inp = p # r1" by (cases inp) (simp_all add: unpack_quoted_time_def)
  with * have "cpon_unpack_date_time r1 = Inr (it, CHR 0x22 # r)"
    by (cases "p = CHR 0x22") (auto simp: unpack_quoted_time_def bind_e_Inr take_quote_Inr)
  from cpon_unpack_date_time_length [OF this] show ?thesis by (simp add: inp)
qed

lemma unpack_exponent_length: "unpack_exponent a b c d inp = Inr (it, r) \<Longrightarrow> length r \<le> length inp"
  by (auto simp: unpack_exponent_def split: prod.splits if_splits dest!: unpack_int_shrinks(1))

lemma unpack_fraction_length: "unpack_fraction a b c inp = Inr (it, r) \<Longrightarrow> length r \<le> length inp"
  by (auto simp: unpack_fraction_def Let_def split: prod.splits if_splits list.splits
      dest!: unpack_int_shrinks(1) unpack_exponent_length)

text \<open>A number takes at least its first digit.\<close>

lemma int_loop_digits:
  "int_loop base s n res inp = (res', n', r) \<Longrightarrow> ri_digit_cnt res' \<noteq> ri_digit_cnt res \<Longrightarrow> length r < length inp"
  by (cases inp) (auto split: if_splits option.splits dest!: int_loop_shrinks)

lemma unpack_number_length: "unpack_number inp = Inr (it, r) \<Longrightarrow> length r < length inp"
proof -
  assume *: "unpack_number inp = Inr (it, r)"
  obtain res n r1 where res: "unpack_int_to_result 0 inp = (res, n, r1)" by (metis prod_cases3)
  with * have "ri_digit_cnt res \<noteq> 0" by (auto simp: unpack_number_def)
  with res have "length r1 < length inp"
    unfolding unpack_int_to_result_def by (auto dest!: int_loop_digits)
  then show ?thesis
    using * res by (auto simp: unpack_number_def Let_def split: if_splits list.splits
        dest!: unpack_exponent_length unpack_fraction_length)
qed

lemma take_literal_length: "take_literal lit it inp = Inr (it', r) \<Longrightarrow> length r \<le> length inp"
  by (auto simp: take_literal_def split: if_splits)

lemma of_opt_Inr: "map_sum id (map_prod f id) (of_opt x) = Inr (it, r) \<longleftrightarrow> (\<exists>y. x = Some (y, r) \<and> it = f y)"
  by (cases x) (auto simp: of_opt_def)

lemma cpon_unpack_item_length: "cpon_unpack_item p inp = Inr (it, r) \<Longrightarrow> length r < Suc (length inp)"
  unfolding cpon_unpack_item_def
  by (auto simp: of_opt_Inr less_Suc_eq_le split: if_split_asm dest: take_literal_length unpack_quoted_time_length
      dest!: unpack_number_length unpack_strings_length)

lemma cpon_unpack_fresh_length: "cpon_unpack_fresh inp = Inr (it, r) \<Longrightarrow> length r < length inp"
  using skip_shrinks [of inp]
  by (auto simp: cpon_unpack_fresh_def skip_shorter_def split: skip_result.splits dest!: cpon_unpack_item_length)

end
