(* ===== verification/Cpon_Reader.thy ===== *)
theory Cpon_Reader
  imports Cpon_Unpack Chain_Pack_Reader
begin

text \<open>
  \<open>CponReader\<close> (\<open>cponreader.h\<close>, \<open>cponreader.cpp\<close>).  The state is the last item and the text still to come, as in
  the ChainPack reader, whose steps on meta data, maps and integer maps are the same.  Fuel bounds the
  nesting and the loops; with more fuel than characters no bound is hit (lemma \<open>crd_total\<close>).  A missing
  value is not an error here: a stray slash makes \<open>unpackNext\<close> return without an item, and the value stays
  invalid.
\<close>

section \<open>Sequencing\<close>

definition bind_c :: "('e + 'a) option \<Rightarrow> ('a \<Rightarrow> ('e + 'b) option) \<Rightarrow> ('e + 'b) option" where
  "bind_c m f = (case m of None \<Rightarrow> None | Some (Inl e) \<Rightarrow> Some (Inl e) | Some (Inr x) \<Rightarrow> f x)"

lemma bind_c_simps [simp]:
  "bind_c None f = None" "bind_c (Some (Inl e)) f = Some (Inl e)" "bind_c (Some (Inr x)) f = f x"
  by (simp_all add: bind_c_def)

lemma bind_c_Inr: "bind_c m f = Some (Inr y) \<longleftrightarrow> (\<exists>x. m = Some (Inr x) \<and> f x = Some (Inr y))"
  by (auto simp: bind_c_def split: option.splits sum.splits)

lemma bind_c_total: "m \<noteq> None \<Longrightarrow> (\<And>x. m = Some (Inr x) \<Longrightarrow> f x \<noteq> None) \<Longrightarrow> bind_c m f \<noteq> None"
  by (auto simp: bind_c_def split: option.splits sum.splits)

definition cthrow :: "exn + 'a \<Rightarrow> cpon_fail + 'a" where
  "cthrow r = map_sum CponThrow id r"

lemma cthrow_simps [simp]: "cthrow (Inl e) = Inl (CponThrow e)" "cthrow (Inr x) = Inr x"
  by (simp_all add: cthrow_def)

section \<open>Chunks\<close>

definition citem_finished :: "cpon_item \<Rightarrow> bool" where
  "citem_finished it = (case it of CString s \<Rightarrow> cs_last_chunk s | CBlob s \<Rightarrow> cs_last_chunk s | _ \<Rightarrow> True)"

lemma citem_finished_simps [simp]:
  "citem_finished CInvalid" "citem_finished CNull" "citem_finished (CBoolean b)" "citem_finished (CInt i)"
  "citem_finished (CUInt u)" "citem_finished (CDouble d)" "citem_finished (CDecimal m e)" "citem_finished (CDateTime x y)"
  "citem_finished CList" "citem_finished CMap" "citem_finished CIMap" "citem_finished CMeta"
  "citem_finished CContainerEnd" "citem_finished (CString s) = cs_last_chunk s" "citem_finished (CBlob s) = cs_last_chunk s"
  by (simp_all add: citem_finished_def)

lemma unpack_next_fresh: "citem_finished it \<Longrightarrow> ccpon_unpack_next it inp = cpon_unpack_fresh inp"
  by (cases it) (auto simp: citem_finished_def ccpon_unpack_next_def)

definition cchunk_item :: "bool \<Rightarrow> cpon_string \<Rightarrow> cpon_item" where
  "cchunk_item is_blob s = (if is_blob then CBlob s else CString s)"

definition cdest_chunk :: "bool \<Rightarrow> cpon_item \<Rightarrow> cpon_string option" where
  "cdest_chunk is_blob it =
     (case it of CString s \<Rightarrow> if is_blob then None else Some s
      | CBlob s \<Rightarrow> if is_blob then Some s else None | _ \<Rightarrow> None)"

definition next_chunk :: "bool \<Rightarrow> cpon_string \<Rightarrow> string \<Rightarrow> (cpon_string \<times> string) option" where
  "next_chunk is_blob s inp = (if is_blob then ccpon_unpack_blob s inp else ccpon_unpack_string s inp)"

lemma unpack_next_chunk:
  "\<not> cs_last_chunk s \<Longrightarrow> ccpon_unpack_next (cchunk_item is_blob s) inp =
    (case next_chunk is_blob s inp of None \<Rightarrow> parse_fail | Some (s', r) \<Rightarrow> Inr (cchunk_item is_blob s', r))"
  by (auto simp: ccpon_unpack_next_def cchunk_item_def next_chunk_def of_opt_def split: option.splits)

lemma cdest_chunk_item [simp]: "cdest_chunk is_blob (cchunk_item is_blob s) = Some s"
  by (simp add: cdest_chunk_def cchunk_item_def)

lemma next_chunk_length: "next_chunk is_blob s inp = Some (s', r) \<Longrightarrow> length r < length inp"
  by (auto simp: next_chunk_def dest: unpack_strings_length split: if_splits)

text \<open>The loops that collect the chunks of a string or a blob.\<close>

function cchunk_loop :: "bool \<Rightarrow> string \<Rightarrow> cpon_string \<Rightarrow> string \<Rightarrow> cpon_fail + string \<times> cpon_string \<times> string" where
  "cchunk_loop is_blob str it inp =
     (let str' = str @ cs_chunk it
      in if cs_last_chunk it then Inr (str', it, inp)
         else (case ccpon_unpack_next (cchunk_item is_blob it) inp of
                 Inl e \<Rightarrow> Inl e
               | Inr (nxt, inp') \<Rightarrow>
                   (case cdest_chunk is_blob nxt of
                      None \<Rightarrow> parse_fail
                    | Some it' \<Rightarrow> cchunk_loop is_blob str' it' inp')))"
  by pat_completeness auto
termination
proof (relation "measure (\<lambda>(b, str, it, inp). length inp)")
  fix is_blob str it inp x nxt y it'
  and str' :: string
  assume nl: "\<not> cs_last_chunk it" and nx: "ccpon_unpack_next (cchunk_item is_blob it) inp = Inr x"
    and x: "(nxt, y) = x" and d: "cdest_chunk is_blob nxt = Some it'"
  from nx x d have "next_chunk is_blob it inp = Some (it', y)"
    by (auto simp: unpack_next_chunk [OF nl] split: option.splits)
  then show "((is_blob, str', it', y), is_blob, str, it, inp) \<in> measure (\<lambda>(b, str, it, inp). length inp)"
    using next_chunk_length by auto
qed simp

declare cchunk_loop.simps [simp del]

section \<open>Reading a value\<close>

definition is_cend :: "cpon_item \<Rightarrow> bool" where
  "is_cend it \<longleftrightarrow> it = CContainerEnd"

type_synonym creader = "cpon_item \<Rightarrow> string \<Rightarrow> (cpon_fail + rpc_value \<times> cpon_item \<times> string) option"

primrec cparseList :: "creader \<Rightarrow> nat \<Rightarrow> rpc_list \<Rightarrow> cpon_item \<Rightarrow> string \<Rightarrow> (cpon_fail + rpc_list \<times> cpon_item \<times> string) option"
where
  "cparseList rd 0 lst it inp = None"
| "cparseList rd (Suc n) lst it inp =
     bind_c (rd it inp) (\<lambda>(v, it, inp).
       if is_cend it then Some (Inr (lst, CInvalid, inp)) else cparseList rd n (lst @ [v]) it inp)"

text \<open>The loop of \<open>parseMap\<close>, \<open>parseIMap\<close> and \<open>parseMetaData\<close>; \<open>step\<close> stores the pair.\<close>

primrec cparse_pairs :: "creader \<Rightarrow> (rpc_value \<Rightarrow> rpc_value \<Rightarrow> 'a \<Rightarrow> exn + 'a) \<Rightarrow> nat \<Rightarrow> 'a \<Rightarrow> cpon_item \<Rightarrow> string \<Rightarrow>
    (cpon_fail + 'a \<times> cpon_item \<times> string) option"
where
  "cparse_pairs rd step 0 acc it inp = None"
| "cparse_pairs rd step (Suc n) acc it inp =
     bind_c (rd it inp) (\<lambda>(key, it, inp).
       if is_cend it then Some (Inr (acc, CInvalid, inp))
       else bind_c (rd it inp) (\<lambda>(val, it, inp).
         bind_c (Some (cthrow (step key val acc))) (\<lambda>acc'. cparse_pairs rd step n acc' it inp)))"

definition cparseMetaData :: "creader \<Rightarrow> nat \<Rightarrow> cpon_item \<Rightarrow> string \<Rightarrow> (cpon_fail + rpc_meta \<times> cpon_item \<times> string) option" where
  "cparseMetaData rd n it inp = cparse_pairs rd meta_step n meta_empty it inp"

definition cparseMap :: "creader \<Rightarrow> nat \<Rightarrow> cpon_item \<Rightarrow> string \<Rightarrow> (cpon_fail + rpc_map \<times> cpon_item \<times> string) option" where
  "cparseMap rd n it inp = cparse_pairs rd map_step n [] it inp"

definition cparseIMap :: "creader \<Rightarrow> nat \<Rightarrow> cpon_item \<Rightarrow> string \<Rightarrow> (cpon_fail + rpc_imap \<times> cpon_item \<times> string) option" where
  "cparseIMap rd n it inp = cparse_pairs rd imap_step n [] it inp"

text \<open>
  \<open>read(MetaData &)\<close>: the character found is put back, also when no meta data follows.  At the end of the text
  the error code makes the next \<open>unpackNext\<close> throw, which the empty rest does here.
\<close>

definition cread_meta :: "creader \<Rightarrow> cpon_item \<Rightarrow> string \<Rightarrow> (cpon_fail + rpc_meta \<times> cpon_item \<times> string) option" where
  "cread_meta rd it inp =
     (case skip_insignificant inp of
        SkipChar c r \<Rightarrow>
          if c = CHR ''<''
          then bind_c (Some (ccpon_unpack_next it (c # r))) (\<lambda>(it, inp'). cparseMetaData rd (Suc (length inp')) it inp')
          else Some (Inr (meta_empty, it, c # r))
      | SkipStray c r \<Rightarrow> Some (Inr (meta_empty, it, c # r))
      | SkipEnd \<Rightarrow> Some (Inr (meta_empty, it, []))
      | SkipCrash \<Rightarrow> Some (Inl CponCrash))"

definition cread_switch :: "creader \<Rightarrow> cpon_item \<Rightarrow> string \<Rightarrow> (cpon_fail + rpc_value \<times> cpon_item \<times> string) option" where
  "cread_switch rd it inp =
     (case it of
        CInvalid \<Rightarrow> Some (Inr (invalid_value, it, inp))
      | CList \<Rightarrow> bind_c (cparseList rd (Suc (length inp)) [] it inp) (\<lambda>(l, r). Some (Inr (rpc (VList l), r)))
      | CMap \<Rightarrow> bind_c (cparseMap rd (Suc (length inp)) it inp) (\<lambda>(m, r). Some (Inr (rpc (VMap m), r)))
      | CIMap \<Rightarrow> bind_c (cparseIMap rd (Suc (length inp)) it inp) (\<lambda>(m, r). Some (Inr (rpc (VIMap m), r)))
      | CContainerEnd \<Rightarrow> Some (Inr (invalid_value, it, inp))
      | CNull \<Rightarrow> Some (Inr (rpc VNull, it, inp))
      | CBlob s \<Rightarrow>
          Some (map_sum id (\<lambda>(str, s', r). (rpc (VBlob (bytes_of_string str)), CBlob s', r)) (cchunk_loop True [] s inp))
      | CString s \<Rightarrow>
          Some (map_sum id (\<lambda>(str, s', r). (rpc (VString str), CString s', r)) (cchunk_loop False [] s inp))
      | CBoolean b \<Rightarrow> Some (Inr (rpc (VBool b), it, inp))
      | CInt i \<Rightarrow> Some (Inr (rpc (VInt i), it, inp))
      | CUInt u \<Rightarrow> Some (Inr (rpc (VUInt u), it, inp))
      | CDecimal m e \<Rightarrow> Some (Inr (rpc (VDecimal \<lparr>dec_mantissa = m, dec_exponent = e\<rparr>), it, inp))
      | CDouble d \<Rightarrow> Some (Inr (rpc (VDouble d), it, inp))
      | CDateTime ms off \<Rightarrow> Some (Inr (rpc (VDateTime (RpcDateTime_fromMSecsSinceEpoch ms off)), it, inp))
      | CMeta \<Rightarrow> Some parse_fail)"

primrec crd_value :: "nat \<Rightarrow> creader" where
  "crd_value 0 = (\<lambda>it inp. None)"
| "crd_value (Suc n) = (\<lambda>it inp.
     bind_c (cread_meta (crd_value n) it inp) (\<lambda>(md, it, inp).
     bind_c (Some (ccpon_unpack_next it inp)) (\<lambda>(it, inp).
     bind_c (cread_switch (crd_value n) it inp) (\<lambda>(val, r).
       Some (cthrow (map_sum id (\<lambda>val'. (val', r)) (attach_meta md val)))))))"

definition run_crd :: "(cpon_fail + 'a) option \<Rightarrow> cpon_fail + 'a" where
  "run_crd r = (case r of None \<Rightarrow> parse_fail | Some x \<Rightarrow> x)"

definition CponReader_read :: "cpon_item \<Rightarrow> string \<Rightarrow> cpon_fail + rpc_value \<times> cpon_item \<times> string" where
  "CponReader_read it inp = run_crd (crd_value (Suc (length inp)) it inp)"

definition CponReader_read_meta :: "cpon_item \<Rightarrow> string \<Rightarrow> cpon_fail + rpc_meta \<times> cpon_item \<times> string" where
  "CponReader_read_meta it inp = run_crd (cread_meta (crd_value (Suc (length inp))) it inp)"

text \<open>\<open>fromCpon\<close> with an error string catches the parse errors; what was read of the value stays out.\<close>

definition RpcValue_fromCpon :: "string \<Rightarrow> cpon_fail + rpc_value" where
  "RpcValue_fromCpon str = map_sum id fst (CponReader_read CInvalid str)"

definition RpcValue_fromCpon_err :: "string \<Rightarrow> cpon_fail + rpc_value \<times> bool" where
  "RpcValue_fromCpon_err str =
     (case RpcValue_fromCpon str of
        Inr v \<Rightarrow> Inr (v, False)
      | Inl e \<Rightarrow> if e = CponThrow ParseException then Inr (invalid_value, True) else Inl e)"

section \<open>Every value that is read is well-formed\<close>

definition citem_wf :: "cpon_item \<Rightarrow> bool" where
  "citem_wf it = (case it of CInt i \<Rightarrow> in_s 64 i | CDecimal m e \<Rightarrow> in_s 64 m \<and> in_s 32 e | _ \<Rightarrow> True)"

text \<open>The mantissa never leaves the non-negative range.\<close>

definition in_u63 :: "int \<Rightarrow> bool" where
  "in_u63 v \<longleftrightarrow> 0 \<le> v \<and> v \<le> INT64_MAX"

lemma digit_of_nonneg: "digit_of base c = Some d \<Longrightarrow> 0 \<le> d"
  by (auto simp: digit_of_def Let_def split: if_splits)

lemma add_digit_range: "in_u63 (ri_value res) \<Longrightarrow> 0 \<le> base \<Longrightarrow> 0 \<le> d \<Longrightarrow> in_u63 (ri_value (add_digit base d res))"
  by (auto simp: add_digit_def in_u63_def in_s_def INT64_MAX_def)

lemma int_loop_range:
  "int_loop base s n res inp = (res', n', r) \<Longrightarrow> 0 \<le> base \<Longrightarrow> in_u63 (ri_value res) \<Longrightarrow> in_u63 (ri_value res')"
  by (induction base s n res inp rule: int_loop.induct)
     (auto split: if_splits option.splits intro!: add_digit_range dest: digit_of_nonneg)

lemma unpack_int_to_result_range: "unpack_int_to_result v inp = (res, n, r) \<Longrightarrow> in_u63 v \<Longrightarrow> in_u63 (ri_value res)"
  unfolding unpack_int_to_result_def by (erule int_loop_range) simp_all

lemma in_u63_s: "in_u63 v \<Longrightarrow> in_s 64 v \<and> in_s 64 (- v)"
  by (simp add: in_u63_def INT64_MAX_def in_s_def)

lemma int64_limits: "in_s 64 INT64_MAX" "in_s 64 INT64_MIN"
  by (simp_all add: INT64_MIN_def INT64_MAX_def in_s_def)

lemma number_items_wf:
  "in_u63 m \<Longrightarrow> citem_wf (int_item neg ovf m)"
  "in_u63 m \<Longrightarrow> citem_wf (decimal_item neg ovf m c e)"
  "citem_wf (uint_item ovf m)"
  using in_u63_s [of m] int64_limits
  by (auto simp: citem_wf_def int_item_def decimal_item_def uint_item_def)

lemma unpack_exponent_wf: "in_u63 m \<Longrightarrow> unpack_exponent neg ovf m c inp = Inr (it, r) \<Longrightarrow> citem_wf it"
  by (auto simp: unpack_exponent_def number_items_wf split: prod.splits if_splits)

lemma unpack_fraction_wf: "in_u63 m \<Longrightarrow> unpack_fraction neg ovf m inp = Inr (it, r) \<Longrightarrow> citem_wf it"
  by (auto simp: unpack_fraction_def Let_def number_items_wf split: prod.splits if_splits list.splits
      dest: unpack_int_to_result_range unpack_exponent_wf [rotated])

lemma unpack_number_wf: "unpack_number inp = Inr (it, r) \<Longrightarrow> citem_wf it"
proof -
  assume *: "unpack_number inp = Inr (it, r)"
  obtain res n r1 where res: "unpack_int_to_result 0 inp = (res, n, r1)" by (metis prod_cases3)
  then have "in_u63 (ri_value res)" by (rule unpack_int_to_result_range) (simp add: in_u63_def INT64_MAX_def)
  then show ?thesis
    using * by (auto simp: unpack_number_def res Let_def number_items_wf split: if_splits list.splits
        dest: unpack_exponent_wf [rotated] unpack_fraction_wf [rotated])
qed

lemma citem_wf_simps [simp]:
  "citem_wf CInvalid" "citem_wf CNull" "citem_wf (CBoolean b)" "citem_wf (CUInt u)" "citem_wf (CDouble d)"
  "citem_wf (CDateTime x y)" "citem_wf CList" "citem_wf CMap" "citem_wf CIMap" "citem_wf CMeta"
  "citem_wf CContainerEnd" "citem_wf (CString s)" "citem_wf (CBlob s)"
  by (simp_all add: citem_wf_def)

lemma date_time_item_wf: "cpon_unpack_date_time inp = Inr (it, r) \<Longrightarrow> citem_wf it"
proof -
  assume *: "cpon_unpack_date_time inp = Inr (it, r)"
  then have "it = CInvalid \<or> (\<exists>x y. it = CDateTime x y)"
    unfolding cpon_unpack_date_time_def
    by (cases "unpack_tm inp"; simp; cases "unpack_msec (snd (the (unpack_tm inp)))"; simp split: prod.split_asm sum.split_asm
        option.split_asm; blast?)
  then show ?thesis by auto
qed

lemma quoted_time_wf: "unpack_quoted_time inp = Inr (it, r) \<Longrightarrow> citem_wf it"
  by (cases inp) (auto simp: unpack_quoted_time_def bind_e_Inr take_quote_Inr split: if_split_asm dest: date_time_item_wf)

lemma take_literal_wf: "take_literal lit it' inp = Inr (it, r) \<Longrightarrow> it = it'"
  by (auto simp: take_literal_def split: if_splits)

lemma cpon_unpack_item_wf: "cpon_unpack_item p inp = Inr (it, r) \<Longrightarrow> citem_wf it"
  unfolding cpon_unpack_item_def
  by (auto simp: of_opt_Inr split: if_split_asm dest!: take_literal_wf dest: unpack_number_wf quoted_time_wf)

lemma cpon_unpack_fresh_wf: "cpon_unpack_fresh inp = Inr (it, r) \<Longrightarrow> citem_wf it"
  by (auto simp: cpon_unpack_fresh_def split: skip_result.splits dest: cpon_unpack_item_wf)

lemma cunpack_sound:
  "citem_finished it \<Longrightarrow> ccpon_unpack_next it inp = Inr (it', r) \<Longrightarrow> citem_wf it' \<and> length r < length inp"
  by (simp add: unpack_next_fresh cpon_unpack_fresh_wf cpon_unpack_fresh_length)

lemma cchunk_loop_sound:
  "cchunk_loop is_blob str it inp = Inr (str', it', r) \<Longrightarrow> cs_last_chunk it' \<and> length r \<le> length inp"
proof (induction is_blob str it inp rule: cchunk_loop.induct)
  case (1 is_blob str it inp)
  show ?case
  proof (cases "cs_last_chunk it")
    case True
    then show ?thesis using "1.prems" by (simp add: cchunk_loop.simps [of is_blob str it inp])
  next
    case False
    with "1.prems" obtain s' r' where s': "next_chunk is_blob it inp = Some (s', r')"
      and rec: "cchunk_loop is_blob (str @ cs_chunk it) s' r' = Inr (str', it', r)"
      by (subst (asm) cchunk_loop.simps) (auto simp: unpack_next_chunk split: option.splits)
    have "cs_last_chunk it' \<and> length r \<le> length r'"
      using "1.IH" [OF refl False _ refl _ rec] s' by (simp add: unpack_next_chunk [OF False])
    then show ?thesis using next_chunk_length [OF s'] by simp
  qed
qed

text \<open>What the loops rely on of the reader of the values inside them.\<close>

locale cvalue_reader =
  fixes rd :: creader
  assumes rd_sound: "citem_finished it \<Longrightarrow> rd it inp = Some (Inr (v, it', r)) \<Longrightarrow>
    citem_finished it' \<and> length r < length inp \<and> rpc_wf v"
begin

lemma parseList_sound:
  "citem_finished it \<Longrightarrow> (\<forall>v \<in> set lst. rpc_wf v) \<Longrightarrow> cparseList rd n lst it inp = Some (Inr (l, it', r)) \<Longrightarrow>
   citem_finished it' \<and> length r < length inp \<and> (\<forall>v \<in> set l. rpc_wf v)"
proof (induction n arbitrary: lst it inp)
  case (Suc n)
  then obtain v it1 r1 where rd: "rd it inp = Some (Inr (v, it1, r1))"
    by (auto simp: bind_c_Inr)
  note sound = rd_sound [OF Suc.prems(1) rd]
  show ?case
  proof (cases "is_cend it1")
    case True
    then show ?thesis using Suc.prems sound rd by auto
  next
    case False
    then show ?thesis using Suc.prems(2,3) sound rd Suc.IH [of it1 "lst @ [v]" r1] by auto
  qed
qed simp

lemma parse_pairs_sound:
  assumes step: "\<And>k v a a'. I a \<Longrightarrow> rpc_wf k \<Longrightarrow> rpc_wf v \<Longrightarrow> step k v a = Inr a' \<Longrightarrow> I a'"
  shows "citem_finished it \<Longrightarrow> I a \<Longrightarrow> cparse_pairs rd step n a it inp = Some (Inr (a', it', r)) \<Longrightarrow>
    citem_finished it' \<and> length r < length inp \<and> I a'"
proof (induction n arbitrary: a it inp)
  case (Suc n)
  then obtain k it1 r1 where rd1: "rd it inp = Some (Inr (k, it1, r1))"
    by (auto simp: bind_c_Inr)
  note sound1 = rd_sound [OF Suc.prems(1) rd1]
  show ?case
  proof (cases "is_cend it1")
    case True
    then show ?thesis using Suc.prems sound1 rd1 by auto
  next
    case False
    then obtain v it2 r2 a2 where rd2: "rd it1 r1 = Some (Inr (v, it2, r2))"
      and a2: "step k v a = Inr a2" and rec: "cparse_pairs rd step n a2 it2 r2 = Some (Inr (a', it', r))"
      using Suc.prems(3) rd1 by (auto simp: bind_c_Inr cthrow_def map_sum_Inr)
    note sound2 = rd_sound [OF conjunct1 [OF sound1] rd2]
    then show ?thesis using Suc.IH [OF _ _ rec] step [OF Suc.prems(2) _ _ a2] sound1 by auto
  qed
qed simp

lemma parse_maps_sound:
  "citem_finished it \<Longrightarrow> cparseMap rd n it inp = Some (Inr (sm, it', r)) \<Longrightarrow>
    citem_finished it' \<and> length r < length inp \<and> smap_ok sm"
  "citem_finished it \<Longrightarrow> cparseIMap rd n it inp = Some (Inr (im, it', r)) \<Longrightarrow>
    citem_finished it' \<and> length r < length inp \<and> imap_ok im"
  "citem_finished it \<Longrightarrow> cparseMetaData rd n it inp = Some (Inr (md, it', r)) \<Longrightarrow>
    citem_finished it' \<and> length r < length inp \<and> meta_wf md"
proof -
  assume fin: "citem_finished it"
  show "cparseMap rd n it inp = Some (Inr (sm, it', r)) \<Longrightarrow>
      citem_finished it' \<and> length r < length inp \<and> smap_ok sm"
    unfolding cparseMap_def
    by (rule parse_pairs_sound [where I = smap_ok]) (use fin step_invariants(1) smap_ok_ops(1) in auto)
  show "cparseIMap rd n it inp = Some (Inr (im, it', r)) \<Longrightarrow>
      citem_finished it' \<and> length r < length inp \<and> imap_ok im"
    unfolding cparseIMap_def
    by (rule parse_pairs_sound [where I = imap_ok]) (use fin step_invariants(2) imap_ok_ops(1) in auto)
  show "cparseMetaData rd n it inp = Some (Inr (md, it', r)) \<Longrightarrow>
      citem_finished it' \<and> length r < length inp \<and> meta_wf md"
    unfolding cparseMetaData_def
    by (rule parse_pairs_sound [where I = meta_wf]) (use fin step_invariants(3) meta_wf_empty in auto)
qed

lemma read_meta_sound:
  assumes fin: "citem_finished it" and eq: "cread_meta rd it inp = Some (Inr (md, it', r))"
  shows "citem_finished it' \<and> length r \<le> length inp \<and> meta_wf md"
proof (cases "skip_insignificant inp")
  case (SkipChar c r1)
  have len: "length r1 < length inp" using skip_shrinks [of inp] by (simp add: SkipChar skip_shorter_def)
  show ?thesis
  proof (cases "c = CHR ''<''")
    case True
    with eq obtain it1 r2 where nx: "ccpon_unpack_next it (c # r1) = Inr (it1, r2)"
      and md: "cparseMetaData rd (Suc (length r2)) it1 r2 = Some (Inr (md, it', r))"
      by (auto simp: cread_meta_def SkipChar bind_c_Inr)
    have "citem_wf it1 \<and> length r2 < length (c # r1)" using cunpack_sound [OF fin nx] .
    moreover have "it1 = CMeta"
      using nx by (simp add: True unpack_next_fresh [OF fin] cpon_unpack_fresh_def skip_insignificant.simps(2)
          blank_char_def cpon_unpack_item_def)
    ultimately show ?thesis using parse_maps_sound(3) [OF _ md] len by simp
  next
    case False
    then show ?thesis using eq fin len by (auto simp: cread_meta_def SkipChar meta_wf_empty)
  qed
next
  case (SkipStray c r1)
  then show ?thesis using eq fin skip_shrinks [of inp] by (auto simp: cread_meta_def meta_wf_empty skip_shorter_def)
qed (use eq fin in \<open>auto simp: cread_meta_def meta_wf_empty\<close>)

lemma read_switch_sound:
  "citem_wf it \<Longrightarrow> cread_switch rd it inp = Some (Inr (v, it', r)) \<Longrightarrow>
   citem_finished it' \<and> length r \<le> length inp \<and> rpc_wf v"
  by (cases it)
     (auto simp: cread_switch_def bind_c_Inr map_sum_Inr citem_wf_def decimal_wf_def date_time_wf_setters
        simp del: cparseList.simps
        dest: cchunk_loop_sound parse_maps_sound [rotated] parseList_sound [rotated 2] less_imp_le)

end

section \<open>The fuel is enough\<close>

locale ctotal_reader = cvalue_reader +
  fixes N :: nat
  assumes rd_total: "citem_finished it \<Longrightarrow> length inp < N \<Longrightarrow> rd it inp \<noteq> None"
begin

lemma parseList_total:
  "citem_finished it \<Longrightarrow> length inp < n \<Longrightarrow> length inp < N \<Longrightarrow> cparseList rd n lst it inp \<noteq> None"
proof (induction n arbitrary: lst it inp)
  case (Suc n)
  show ?case
    unfolding cparseList.simps
  proof (rule bind_c_total)
    show "rd it inp \<noteq> None" using rd_total Suc.prems by blast
    fix x assume x: "rd it inp = Some (Inr x)"
    obtain v it1 r1 where xe: "x = (v, it1, r1)" by (metis prod_cases3)
    show "(case x of (v, it, inp) \<Rightarrow> if is_cend it then Some (Inr (lst, CInvalid, inp))
        else cparseList rd n (lst @ [v]) it inp) \<noteq> None"
      using rd_sound [OF Suc.prems(1) x [unfolded xe]] Suc.prems Suc.IH [of it1 r1 "lst @ [v]"]
      by (simp add: xe)
  qed
qed simp

lemma parse_pairs_total:
  "citem_finished it \<Longrightarrow> length inp < n \<Longrightarrow> length inp < N \<Longrightarrow> cparse_pairs rd step n a it inp \<noteq> None"
proof (induction n arbitrary: a it inp)
  case (Suc n)
  have "rd it inp \<noteq> None" using rd_total Suc.prems by blast
  then consider e where "rd it inp = Some (Inl e)"
    | k it1 r1 where "rd it inp = Some (Inr (k, it1, r1))"
    by (metis not_None_eq old.sum.exhaust prod_cases3)
  then show ?case
  proof cases
    case (2 k it1 r1)
    note sound1 = rd_sound [OF Suc.prems(1) 2]
    then have "rd it1 r1 \<noteq> None" using rd_total Suc.prems by (meson less_trans)
    then consider e where "rd it1 r1 = Some (Inl e)"
      | v it2 r2 where "rd it1 r1 = Some (Inr (v, it2, r2))"
      by (metis not_None_eq old.sum.exhaust prod_cases3)
    then show ?thesis
    proof cases
      case (2 v it2 r2)
      note sound2 = rd_sound [OF conjunct1 [OF sound1] 2]
      show ?thesis
        using sound1 sound2 Suc.prems Suc.IH [of it2 r2] 2 \<open>rd it inp = Some (Inr (k, it1, r1))\<close>
        by (cases "step k v a") auto
    qed (simp add: \<open>rd it inp = Some (Inr (k, it1, r1))\<close>)
  qed simp
qed simp

lemma read_meta_total:
  assumes fin: "citem_finished it" and len: "length inp \<le> N"
  shows "cread_meta rd it inp \<noteq> None"
proof (cases "skip_insignificant inp")
  case (SkipChar c r1)
  have "length r1 < length inp" using skip_shrinks [of inp] by (simp add: SkipChar skip_shorter_def)
  moreover have "ccpon_unpack_next it (CHR ''<'' # r1) = Inr (CMeta, r1)"
    by (simp add: unpack_next_fresh [OF fin] cpon_unpack_fresh_def skip_insignificant.simps(2) blank_char_def
        cpon_unpack_item_def)
  ultimately show ?thesis
    using len parse_pairs_total [of CMeta r1 "Suc (length r1)" meta_step meta_empty]
    by (simp add: cread_meta_def SkipChar cparseMetaData_def del: cparse_pairs.simps)
qed (simp_all add: cread_meta_def)

lemma read_switch_total: "length inp < N \<Longrightarrow> cread_switch rd it inp \<noteq> None"
  using parseList_total [of it inp "Suc (length inp)" "[]"]
    parse_pairs_total [of it inp "Suc (length inp)" map_step "[]"]
    parse_pairs_total [of it inp "Suc (length inp)" imap_step "[]"]
  by (cases it)
     (auto simp: cread_switch_def cparseMap_def cparseIMap_def bind_c_def simp del: cparseList.simps
        cparse_pairs.simps split: option.splits sum.splits)

end

lemma crd_value_reader: "cvalue_reader (crd_value n)"
proof (induction n)
  case 0
  show ?case by unfold_locales simp_all
next
  case (Suc n)
  show ?case
  proof
    fix it inp v it' r
    assume fin: "citem_finished it" and "crd_value (Suc n) it inp = Some (Inr (v, it', r))"
    then obtain md it1 r1 it2 r2 v3
      where md: "cread_meta (crd_value n) it inp = Some (Inr (md, it1, r1))"
        and nx: "ccpon_unpack_next it1 r1 = Inr (it2, r2)"
        and sw: "cread_switch (crd_value n) it2 r2 = Some (Inr (v3, it', r))"
        and at: "attach_meta md v3 = Inr v"
      by (auto simp: bind_c_Inr map_sum_Inr cthrow_def)
    note s1 = cvalue_reader.read_meta_sound [OF Suc fin md]
    note s2 = cunpack_sound [OF conjunct1 [OF s1] nx]
    note s3 = cvalue_reader.read_switch_sound [OF Suc conjunct1 [OF s2] sw]
    show "citem_finished it' \<and> length r < length inp \<and> rpc_wf v"
      using s1 s2 s3 attach_meta_wf [OF _ _ at] by auto
  qed
qed

interpretation crdv: cvalue_reader "crd_value n" for n
  by (rule crd_value_reader)

lemma crd_total: "ctotal_reader (crd_value n) n"
proof (induction n)
  case 0
  show ?case by unfold_locales simp_all
next
  case (Suc n)
  show ?case
  proof
    fix it and inp :: string
    assume fin: "citem_finished it" and len: "length inp < Suc n"
    show "crd_value (Suc n) it inp \<noteq> None"
      unfolding crd_value.simps
    proof (rule bind_c_total)
      show "cread_meta (crd_value n) it inp \<noteq> None"
        using ctotal_reader.read_meta_total [OF Suc fin] len by simp
      fix x assume x: "cread_meta (crd_value n) it inp = Some (Inr x)"
      obtain md it1 r1 where xe: "x = (md, it1, r1)" by (metis prod_cases3)
      note s1 = crdv.read_meta_sound [OF fin x [unfolded xe]]
      show "(case x of (md, it, inp) \<Rightarrow>
          bind_c (Some (ccpon_unpack_next it inp)) (\<lambda>(it, inp).
          bind_c (cread_switch (crd_value n) it inp) (\<lambda>(val, r).
            Some (cthrow (map_sum id (\<lambda>val'. (val', r)) (attach_meta md val)))))) \<noteq> None"
        unfolding xe prod.case
      proof (rule bind_c_total)
        fix y assume "Some (ccpon_unpack_next it1 r1) = Some (Inr y)"
        moreover obtain it2 r2 where ye: "y = (it2, r2)" by (cases y)
        ultimately have "length r2 < n" using cunpack_sound [of it1 r1 it2 r2] s1 len by auto
        then show "(case y of (it, inp) \<Rightarrow> bind_c (cread_switch (crd_value n) it inp) (\<lambda>(val, r).
            Some (cthrow (map_sum id (\<lambda>val'. (val', r)) (attach_meta md val))))) \<noteq> None"
          unfolding ye prod.case
          by (intro bind_c_total ctotal_reader.read_switch_total [OF Suc]) (auto split: prod.splits)
      qed simp
    qed
  qed
qed

interpretation crdt: ctotal_reader "crd_value n" n for n
  by (rule crd_total)

lemma CponReader_read_runs:
  "citem_finished it \<Longrightarrow> crd_value (Suc (length inp)) it inp = Some (CponReader_read it inp)"
  using crdt.rd_total [of it inp "Suc (length inp)"]
  by (auto simp: CponReader_read_def run_crd_def simp del: crd_value.simps split: option.splits)

lemma CponReader_read_sound:
  "citem_finished it \<Longrightarrow> CponReader_read it inp = Inr (v, it', r) \<Longrightarrow>
   citem_finished it' \<and> length r < length inp \<and> rpc_wf v"
  using CponReader_read_runs [of it inp] by (auto simp del: crd_value.simps dest: crdv.rd_sound)

end
