(* ===== verification/Cpon_Text.thy ===== *)
theory Cpon_Text
  imports Cpon_Writer Cpon_Reader
begin

text \<open>
  The scalars of the text format read back: digits, integers, decimals, strings, blobs and times.  A number
  reads back only if the text behind it does not continue it (\<open>stops\<close>), which holds of every
  delimiter and bracket the writer puts there.
\<close>

section \<open>Digits\<close>

definition digit_val :: "char \<Rightarrow> nat" where
  "digit_val c = of_char c - 48"

definition dval :: "nat \<Rightarrow> string \<Rightarrow> nat" where
  "dval a s = foldl (\<lambda>a c. 10 * a + digit_val c) a s"

lemma dval_simps [simp]: "dval a [] = a" "dval a (c # s) = dval (10 * a + digit_val c) s" "dval a (s @ t) = dval (dval a s) t"
  by (simp_all add: dval_def)

lemma dval_mono: "a \<le> dval a s"
proof (induction s arbitrary: a)
  case (Cons c s)
  have "a \<le> 10 * a + digit_val c" by simp
  also have "\<dots> \<le> dval (10 * a + digit_val c) s" by (rule Cons)
  finally show ?case by simp
qed simp

lemma dval_to_string: "dval 0 (to_string_nat n) = n"
  using to_string_nat_value [of n] by (simp add: dval_def digit_val_def)

lemma to_string_nat_less_10: "n < 10 \<Longrightarrow> to_string_nat n = [char_of (48 + n)]"
  by (subst to_string_nat.simps) simp

lemma to_string_nat_step: "10 \<le> n \<Longrightarrow> to_string_nat n = to_string_nat (n div 10) @ [char_of (48 + n mod 10)]"
  by (subst to_string_nat.simps) simp

lemma rev_digits_rev: "0 < n \<Longrightarrow> rev (digits_rev n) = to_string_nat n"
proof (induction n rule: digits_rev.induct)
  case (1 n)
  show ?case
  proof (cases "n < 10")
    case True
    then have "n div 10 = 0" by simp
    then show ?thesis using 1 True
      by (simp add: digits_rev.simps [of n] digits_rev.simps [of 0] to_string_nat_less_10)
  next
    case False
    then show ?thesis using 1 by (simp add: digits_rev.simps [of n] to_string_nat_step)
  qed
qed

lemma length_to_string: "n < 10 ^ k \<Longrightarrow> 0 < k \<Longrightarrow> length (to_string_nat n) \<le> k"
proof (induction k arbitrary: n)
  case (Suc k)
  show ?case
  proof (cases "n < 10")
    case False
    with Suc.prems have "0 < k" by (cases k) auto
    moreover have "n div 10 < 10 ^ k" using Suc.prems by (simp add: less_mult_imp_div_less mult.commute)
    ultimately show ?thesis using Suc.IH [of "n div 10"] False by (simp add: to_string_nat_step)
  qed (simp add: to_string_nat_less_10)
qed simp

lemma char_of_48 [simp]: "char_of (48::nat) = CHR ''0''"
  by (rule of_char_eqI [where 'a = nat]) simp

lemma uint_to_str_eq: "length (to_string_nat n) < L \<Longrightarrow> uint_to_str L n = to_string_nat n"
  using rev_digits_rev [of n] length_rev [of "digits_rev n"]
  by (cases "n = 0") (auto simp: uint_to_str_def to_string_nat_less_10)

lemma u64_digits: "n < 2 ^ 64 \<Longrightarrow> length (to_string_nat n) \<le> 20"
  by (rule length_to_string) simp_all

lemma sdigits_rev_eq: "0 \<le> v \<Longrightarrow> sdigits_rev v = digits_rev (nat v)"
proof (induction v rule: sdigits_rev.induct)
  case (1 v)
  show ?case
  proof (cases "v = 0")
    case False
    have "v smod 10 = v mod 10" "v sdiv 10 = v div 10" using "1.prems" by (simp_all add: smod_pos sdiv_nonneg)
    moreover have "nat ((48 + v mod 10) mod 256) = 48 + nat v mod 10"
      using "1.prems" by (simp add: nat_mod_distrib nat_add_distrib)
    moreover have "sdigits_rev (v div 10) = digits_rev (nat v div 10)"
      using "1.IH" [OF False] "1.prems" \<open>v sdiv 10 = v div 10\<close> by (simp add: nat_div_distrib pos_imp_zdiv_nonneg_iff)
    ultimately show ?thesis
      using False "1.prems" by (simp add: sdigits_rev.simps [of v] digits_rev.simps [of "nat v"])
  qed (simp add: sdigits_rev.simps [of 0] digits_rev.simps [of 0])
qed

text \<open>Evaluation by integers instead of unary numbers.\<close>

lemma digits_rev_code [code]: "digits_rev n = sdigits_rev (int n)"
  by (simp add: sdigits_rev_eq)

lemma ccpcp_int_to_str_nonneg:
  "0 \<le> v \<Longrightarrow> length (to_string_nat (nat v)) \<le> L \<Longrightarrow> ccpcp_int_to_str L v = to_string_nat (nat v)"
  using rev_digits_rev [of "nat v"] length_rev [of "digits_rev (nat v)"]
  by (cases "v = 0") (auto simp: ccpcp_int_to_str_def sdigits_rev_eq to_string_nat_less_10)

section \<open>Reading digits\<close>

text \<open>A character that ends a number, whatever was read before.\<close>

definition stop_char :: "char \<Rightarrow> bool" where
  "stop_char c \<longleftrightarrow> \<not> is_digit c \<and> c \<notin> set ''abcdefxABCDEF+-u.''"

definition stops :: "string \<Rightarrow> bool" where
  "stops r = (case r of [] \<Rightarrow> True | c # _ \<Rightarrow> stop_char c)"

text \<open>What ends a run of decimal digits.\<close>

definition digit_stop :: "string \<Rightarrow> bool" where
  "digit_stop r = (case r of [] \<Rightarrow> True | c # _ \<Rightarrow> \<not> is_digit c \<and> c \<noteq> CHR ''x'')"

lemma stops_digit_stop: "stops r \<Longrightarrow> digit_stop r"
  by (auto simp: stops_def digit_stop_def stop_char_def split: list.splits)

lemma digit_of_10: "digit_of 10 c = (if is_digit c then Some (int (digit_val c)) else None)"
proof -
  have "(of_char c :: int) = int (of_char c)" using of_nat_of_char [of c, where 'a = int] by simp
  then show ?thesis by (auto simp: digit_of_def is_digit_def digit_val_def Let_def)
qed

lemma not_digit_special: "is_digit c \<Longrightarrow> c \<noteq> CHR ''+'' \<and> c \<noteq> CHR ''-'' \<and> c \<noteq> CHR ''x''"
  by (auto simp: is_digit_def)

lemma int_loop_digit_run:
  "list_all is_digit s \<Longrightarrow> ri_value res = int v \<Longrightarrow> dval v s < 2 ^ 63 \<Longrightarrow>
   int_loop 10 sg n res (s @ r) =
     int_loop 10 sg (n + length s) (res\<lparr>ri_value := int (dval v s), ri_digit_cnt := ri_digit_cnt res + int (length s)\<rparr>) r"
proof (induction s arbitrary: v res n)
  case Nil
  then show ?case by (cases res) simp
next
  case (Cons c s)
  let ?v = "10 * v + digit_val c"
  have small: "?v < 2 ^ 63" using Cons.prems(3) dval_mono [of ?v s] by simp
  then have "in_s 64 (int v * 10)" "in_s 64 (int v * 10 + int (digit_val c))" by (simp_all add: in_s_def)
  then have "add_digit 10 (int (digit_val c)) res = res\<lparr>ri_value := int ?v, ri_digit_cnt := ri_digit_cnt res + 1\<rparr>"
    using Cons.prems(2) by (simp add: add_digit_def mult.commute)
  then show ?case
    using Cons.prems Cons.IH [of "res\<lparr>ri_value := int ?v, ri_digit_cnt := ri_digit_cnt res + 1\<rparr>" ?v "Suc n"]
      not_digit_special [of c]
    by (simp add: digit_of_10 add.assoc)
qed

lemma int_loop_stop: "digit_stop r \<Longrightarrow> 0 < n \<Longrightarrow> int_loop 10 sg n res r = (res, n, r)"
  by (cases r) (auto simp: digit_stop_def digit_of_10)

definition int_result :: "int \<Rightarrow> int \<Rightarrow> bool \<Rightarrow> read_int_result" where
  "int_result v cnt neg = \<lparr>ri_value = v, ri_digit_cnt = cnt, ri_signum = (if neg then -1 else 1), ri_overflow = False\<rparr>"

lemma unpack_digits:
  assumes "list_all is_digit s" and "dval v s < 2 ^ 63" and "digit_stop r" and "s \<noteq> []"
  shows "unpack_int_to_result (int v) (s @ r) = (int_result (int (dval v s)) (int (length s)) False, length s, r)"
    and "v = 0 \<Longrightarrow> unpack_int_to_result 0 (CHR ''-'' # s @ r) = (int_result (int (dval 0 s)) (int (length s)) True, Suc (length s), r)"
  using assms
  by (simp_all add: unpack_int_to_result_def int_loop_digit_run [where v = v] int_loop_digit_run [where v = 0]
      int_loop_stop int_result_def)

lemma unpack_no_digits:
  "(case r of [] \<Rightarrow> True | c # _ \<Rightarrow> \<not> is_digit c \<and> c \<noteq> CHR ''+'' \<and> c \<noteq> CHR ''-'' \<and> c \<noteq> CHR ''x'') \<Longrightarrow>
   unpack_int_to_result v r = (int_result v 0 False, 0, r)"
  by (cases r) (auto simp: unpack_int_to_result_def int_result_def digit_of_10)

text \<open>The integer as the text of it says.\<close>

lemma unpack_int_text:
  assumes "\<bar>i\<bar> < 2 ^ 63" and "digit_stop r"
  obtains cnt n where "unpack_int_to_result 0 (to_string_int i @ r) = (int_result \<bar>i\<bar> cnt (i < 0), n, r)" "0 < cnt"
proof -
  let ?s = "to_string_nat (nat \<bar>i\<bar>)"
  have "dval 0 ?s < 2 ^ 63" using assms(1) by (simp add: dval_to_string nat_less_iff)
  note u = unpack_digits [OF to_string_nat_is_digit this assms(2) to_string_nat_nonempty]
  have "0 < int (length ?s)" using to_string_nat_nonempty by simp
  moreover have "\<exists>n. unpack_int_to_result 0 (to_string_int i @ r) = (int_result \<bar>i\<bar> (int (length ?s)) (i < 0), n, r)"
    using u by (cases "i < 0") (simp_all add: to_string_int_def dval_to_string)
  ultimately show thesis using that by blast
qed

section \<open>Numbers\<close>

definition dot_stop :: "string \<Rightarrow> bool" where
  "dot_stop r = (case r of [] \<Rightarrow> True | c # _ \<Rightarrow> c \<noteq> CHR ''.'' \<and> c \<noteq> CHR ''e'' \<and> c \<noteq> CHR ''E'')"

lemma stops_dot: "stops r \<Longrightarrow> dot_stop r"
  by (auto simp: stops_def dot_stop_def stop_char_def split: list.splits)

lemma digit_stop_Cons: "digit_stop (c # r) \<longleftrightarrow> \<not> is_digit c \<and> c \<noteq> CHR ''x''"
  by (simp add: digit_stop_def)

lemma unpack_number_int:
  assumes "\<bar>i\<bar> < 2 ^ 63" and "stops r"
  shows "unpack_number (to_string_int i @ r) = Inr (CInt i, r)"
proof -
  obtain cnt n where u: "unpack_int_to_result 0 (to_string_int i @ r) = (int_result \<bar>i\<bar> cnt (i < 0), n, r)" "0 < cnt"
    using unpack_int_text [OF assms(1) stops_digit_stop [OF assms(2)]] .
  have "r = [] \<or> (\<exists>c r'. r = c # r' \<and> c \<noteq> CHR ''u'' \<and> c \<noteq> CHR ''.'' \<and> c \<noteq> CHR ''e'' \<and> c \<noteq> CHR ''E'')"
    using assms(2) by (cases r) (auto simp: stops_def stop_char_def)
  then show ?thesis using u(2) by (auto simp: unpack_number_def u(1) int_result_def int_item_def)
qed

lemma unpack_number_uint:
  assumes "unat u < 2 ^ 63"
  shows "unpack_number (to_string_nat (unat u) @ CHR ''u'' # r) = Inr (CUInt u, r)"
proof -
  have "dval 0 (to_string_nat (unat u)) < 2 ^ 63" using assms by (simp add: dval_to_string)
  from unpack_digits(1) [OF to_string_nat_is_digit this _ to_string_nat_nonempty, of "CHR ''u'' # r"]
  have "unpack_int_to_result 0 (to_string_nat (unat u) @ CHR ''u'' # r) =
      (int_result (int (unat u)) (int (length (to_string_nat (unat u)))) False, length (to_string_nat (unat u)), CHR ''u'' # r)"
    by (simp add: digit_stop_Cons is_digit_def dval_to_string)
  then show ?thesis using to_string_nat_nonempty by (simp add: unpack_number_def int_result_def uint_item_def)
qed

text \<open>The forms of a decimal: with a fraction, with a point at the end, with an exponent.\<close>

definition sign_text :: "bool \<Rightarrow> string" where
  "sign_text neg = (if neg then ''-'' else [])"

lemma unpack_sign_digits:
  assumes "list_all is_digit s" and "dval 0 s < 2 ^ 63" and "digit_stop r" and "s \<noteq> []"
  shows "\<exists>n. unpack_int_to_result 0 (sign_text neg @ s @ r) = (int_result (int (dval 0 s)) (int (length s)) neg, n, r)"
  using unpack_digits [of s 0 r] assms by (cases neg) (auto simp: sign_text_def)

definition signed :: "bool \<Rightarrow> nat \<Rightarrow> int" where
  "signed neg n = (if neg then - int n else int n)"

lemma unpack_number_fraction:
  assumes s: "list_all is_digit s" "s \<noteq> []" and f: "list_all is_digit f" "dval 0 (s @ f) < 2 ^ 63" and r: "stops r"
  shows "unpack_number (sign_text neg @ s @ CHR ''.'' # f @ r) =
    Inr (CDecimal (signed neg (dval 0 (s @ f))) (s_wrap 32 (- int (length f))), r)"
proof -
  have "dval 0 s < 2 ^ 63" using f(2) dval_mono [of "dval 0 s" f] by simp
  then obtain n where u: "unpack_int_to_result 0 (sign_text neg @ s @ CHR ''.'' # f @ r) =
      (int_result (int (dval 0 s)) (int (length s)) neg, n, CHR ''.'' # f @ r)"
    using unpack_sign_digits [OF s(1) _ _ s(2), of "CHR ''.'' # f @ r" neg] by (auto simp: digit_stop_Cons is_digit_def)
  have "unpack_int_to_result (int (dval 0 s)) (f @ r) = (int_result (int (dval 0 (s @ f))) (int (length f)) False, length f, r)"
  proof (cases "f = []")
    case True
    have "case r of [] \<Rightarrow> True | c # _ \<Rightarrow> \<not> is_digit c \<and> c \<noteq> CHR ''+'' \<and> c \<noteq> CHR ''-'' \<and> c \<noteq> CHR ''x''"
      using r by (auto simp: stops_def stop_char_def split: list.splits)
    from unpack_no_digits [OF this] show ?thesis by (simp add: True)
  next
    case False
    then show ?thesis using unpack_digits(1) [OF f(1) _ stops_digit_stop [OF r], of "dval 0 s"] f(2) by simp
  qed
  moreover have "r = [] \<or> (\<exists>c r'. r = c # r' \<and> c \<noteq> CHR ''.'' \<and> c \<noteq> CHR ''e'' \<and> c \<noteq> CHR ''E'')"
    using stops_dot [OF r] by (cases r) (auto simp: dot_stop_def)
  ultimately show ?thesis
    using s(2) by (auto simp: unpack_number_def u unpack_fraction_def Let_def int_result_def decimal_item_def signed_def)
qed

lemma unpack_number_exponent:
  assumes s: "list_all is_digit s" "s \<noteq> []" "dval 0 s < 2 ^ 63" and e: "in_s 32 e" and r: "stops r"
  shows "unpack_number (sign_text neg @ s @ CHR ''e'' # to_string_int e @ r) = Inr (CDecimal (signed neg (dval 0 s)) e, r)"
proof -
  obtain n where u: "unpack_int_to_result 0 (sign_text neg @ s @ CHR ''e'' # to_string_int e @ r) =
      (int_result (int (dval 0 s)) (int (length s)) neg, n, CHR ''e'' # to_string_int e @ r)"
    using unpack_sign_digits [OF s(1,3) _ s(2), of "CHR ''e'' # to_string_int e @ r" neg]
    by (auto simp: digit_stop_Cons is_digit_def)
  have "\<bar>e\<bar> < 2 ^ 63" using e by (auto simp: in_s_def)
  then obtain cnt n2 where v: "unpack_int_to_result 0 (to_string_int e @ r) = (int_result \<bar>e\<bar> cnt (e < 0), n2, r)" "0 < cnt"
    using unpack_int_text stops_digit_stop [OF r] by metis
  have "\<bar>e\<bar> * (if e < 0 then -1 else 1) = e" by simp
  then show ?thesis
    using s(2) v(2) e
    by (simp add: unpack_number_def u unpack_exponent_def v(1) int_result_def decimal_item_def signed_def s_wrap_id
        split: if_split_asm)
qed

section \<open>Decimals\<close>

text \<open>A positive exponent is written out as zeros when the number stays short; it reads back as that integer.\<close>

definition short_decimal :: "int \<Rightarrow> int \<Rightarrow> bool" where
  "short_decimal m e \<longleftrightarrow> 0 < e \<and> length (to_string_nat (nat \<bar>m\<bar>)) + nat e \<le> 9"

definition canon_mantissa :: "int \<Rightarrow> int \<Rightarrow> int" where
  "canon_mantissa m e = (if short_decimal m e then m * 10 ^ nat e else m)"

definition canon_exponent :: "int \<Rightarrow> int \<Rightarrow> int" where
  "canon_exponent m e = (if short_decimal m e then 0 else e)"

lemma dval_zeros [simp]: "dval a (replicate k CHR ''0'') = a * 10 ^ k"
  by (induction k arbitrary: a) (simp_all add: digit_val_def)

lemma zeros_digits [simp]: "list_all is_digit (replicate k CHR ''0'')"
  by (simp add: list_all_iff is_digit_def)

lemma digit_0 [simp]: "is_digit CHR ''0''"
  by (simp add: is_digit_def)

lemma digit_val_le: "is_digit c \<Longrightarrow> digit_val c \<le> 9"
  unfolding is_digit_def digit_val_def by linarith

lemma dval_less: "list_all is_digit s \<Longrightarrow> dval a s < (a + 1) * 10 ^ length s"
proof (induction s arbitrary: a)
  case (Cons c s)
  then have "10 * a + digit_val c + 1 \<le> 10 * (a + 1)" using digit_val_le [of c] by simp
  then have le: "(10 * a + digit_val c + 1) * 10 ^ length s \<le> 10 * (a + 1) * 10 ^ length s" by (rule mult_le_mono1)
  have "list_all is_digit s" using Cons.prems by simp
  from less_le_trans [OF Cons.IH [OF this] le] show ?case by (simp add: distrib_right mult.assoc mult.left_commute)
qed simp

lemma scaled_less: "n < 10 ^ l \<Longrightarrow> l + k \<le> 9 \<Longrightarrow> n * 10 ^ k < (10::nat) ^ 9"
proof -
  assume n: "n < 10 ^ l" and lk: "l + k \<le> 9"
  have "n * 10 ^ k < 10 ^ l * 10 ^ k" using n by simp
  also have "\<dots> = 10 ^ (l + k)" by (simp add: power_add)
  also have "\<dots> \<le> 10 ^ 9" using lk by (intro power_increasing) simp_all
  finally show ?thesis .
qed

lemma ccpcp_int_to_str_eq: "\<bar>v\<bar> < 2 ^ 63 \<Longrightarrow> 21 < L \<Longrightarrow> ccpcp_int_to_str L v = to_string_int v"
proof (cases "v < 0")
  case True
  assume v: "\<bar>v\<bar> < 2 ^ 63" and L: "21 < L"
  have len: "length (to_string_nat (nat (- v))) \<le> 20" using v True by (intro u64_digits) (simp add: nat_less_iff)
  have "s_wrap 64 (- v) = - v" using v by (intro s_wrap_id) (auto simp: in_s_def)
  moreover have "rev (sdigits_rev (- v)) = to_string_nat (nat (- v))"
    using True by (simp add: sdigits_rev_eq rev_digits_rev)
  moreover from this have "length (sdigits_rev (- v)) = length (to_string_nat (nat (- v)))" by (metis length_rev)
  ultimately show ?thesis using True len L by (simp add: ccpcp_int_to_str_def to_string_int_def Let_def)
next
  case False
  assume v: "\<bar>v\<bar> < 2 ^ 63" and L: "21 < L"
  have "length (to_string_nat (nat v)) \<le> 20" using v False by (intro u64_digits) (simp add: nat_less_iff)
  then show ?thesis using False L by (simp add: ccpcp_int_to_str_nonneg to_string_int_def)
qed

definition decimal_body :: "string \<Rightarrow> int \<Rightarrow> string" where
  "decimal_body str e =
     (let k = nat (- e); len = length str
      in if e < 0 \<and> k < len then take (len - k) str @ ''.'' @ drop (len - k) str
         else if e < 0 \<and> k \<le> 3 then ''0.'' @ replicate (k - len) CHR ''0'' @ str
         else if 0 < e \<and> len + nat e \<le> 9 then str @ replicate (nat e) CHR ''0'' @ ''.''
         else if e = 0 then str @ ''.'' else str @ ''e'' @ to_string_int e)"

lemma decimal_text:
  assumes "\<bar>m\<bar> < 2 ^ 63" and "in_s 32 e"
  shows "ccpcp_decimal_to_string 64 m e = sign_text (m < 0) @ decimal_body (to_string_nat (nat \<bar>m\<bar>)) e"
proof -
  define str where "str = to_string_nat (nat \<bar>m\<bar>)"
  have len: "length str \<le> 20" "str \<noteq> []"
    using assms(1) unfolding str_def by (auto intro!: u64_digits simp: nat_less_iff to_string_nat_nonempty)
  have wrap: "(if m < 0 then s_wrap 64 (- m) else m) = \<bar>m\<bar>"
    using assms(1) by (auto intro!: s_wrap_id simp: in_s_def)
  define L where "L = (if m < 0 then 64 - 1 else 64 :: nat)"
  have L: "20 \<le> L" "21 < L - length str - 1" using len(1) by (auto simp: L_def)
  have m: "ccpcp_int_to_str L \<bar>m\<bar> = str"
    using L(1) len(1) by (simp add: ccpcp_int_to_str_nonneg str_def)
  have "\<bar>e\<bar> < 2 ^ 63" using assms(2) by (auto simp: in_s_def)
  then have e: "ccpcp_int_to_str (L - length str - 1) e = to_string_int e" using L(2) by (rule ccpcp_int_to_str_eq)
  have ne: "to_string_int e \<noteq> []" by (simp add: to_string_int_def to_string_nat_nonempty)
  define k where "k = (if e < 0 then nat (- e) else 0)"
  have res: "(if k > 0 \<and> k < length str then take (length str - k) str @ ''.'' @ drop (length str - k) str
      else if k > 0 \<and> k \<le> 3 then ''0.'' @ replicate (k - length str) CHR ''0'' @ str
      else if e > 0 \<and> length str + nat e \<le> 9 then str @ replicate (nat e) CHR ''0'' @ ''.''
      else if e = 0 then str @ ''.'' else if to_string_int e = [] then [] else str @ ''e'' @ to_string_int e)
      = decimal_body str e"
    using ne by (cases "e < 0") (simp_all add: k_def decimal_body_def Let_def)
  have "decimal_body str e \<noteq> []" using len(2) by (simp add: decimal_body_def Let_def)
  then show ?thesis
    unfolding ccpcp_decimal_to_string_def Let_def wrap str_def [symmetric] L_def [symmetric] m e k_def [symmetric] res
    using len(2) by (simp add: sign_text_def)
qed

lemma unpack_decimal_body:
  assumes m: "n < 2 ^ 63" and e: "in_s 32 e" and r: "stops r"
  defines "str \<equiv> to_string_nat n"
  shows "unpack_number (sign_text neg @ decimal_body str e @ r) =
    Inr (CDecimal (if 0 < e \<and> length str + nat e \<le> 9 then signed neg (n * 10 ^ nat e) else signed neg n)
           (if 0 < e \<and> length str + nat e \<le> 9 then 0 else e), r)"
proof -
  have str: "list_all is_digit str" "str \<noteq> []" "dval 0 str = n"
    unfolding str_def by (simp_all add: to_string_nat_is_digit to_string_nat_nonempty dval_to_string)
  have wrap: "s_wrap 32 0 = 0" "s_wrap 32 e = e" using e by (simp_all add: s_wrap_id)
  consider (frac) "e < 0" "nat (- e) < length str" | (zero) "e < 0" "\<not> nat (- e) < length str" "nat (- e) \<le> 3"
    | (short) "0 < e" "length str + nat e \<le> 9" | (int) "e = 0"
    | (exp) "\<not> (e < 0 \<and> nat (- e) < length str)" "\<not> (e < 0 \<and> nat (- e) \<le> 3)" "\<not> (0 < e \<and> length str + nat e \<le> 9)" "e \<noteq> 0"
    by linarith
  then show ?thesis
  proof cases
    case frac
    define d where "d = length str - nat (- e)"
    have "list_all is_digit (take d str)" "list_all is_digit (drop d str)"
      using str(1) by (auto simp: list_all_iff dest: in_set_takeD in_set_dropD)
    moreover have "take d str \<noteq> []" "length (drop d str) = nat (- e)" using frac str(2) by (auto simp: d_def)
    moreover have "dval 0 (take d str @ drop d str) = n" using str(3) by simp
    ultimately show ?thesis
      using unpack_number_fraction [of "take d str" "drop d str" r neg] m r frac
      by (simp add: decimal_body_def d_def [symmetric] wrap del: dval_simps(3))
  next
    case zero
    then show ?thesis
      using unpack_number_fraction [of "''0''" "replicate (nat (- e) - length str) CHR ''0'' @ str" r neg] m r str
      by (simp add: decimal_body_def wrap digit_val_def)
  next
    case short
    have "n < 10 ^ length str"
      using dval_less [OF str(1), of 0] str(3) by simp
    moreover have "length str + nat e \<le> 9" by (rule short(2))
    ultimately have "n * 10 ^ nat e < 10 ^ 9" by (rule scaled_less)
    then show ?thesis
      using unpack_number_fraction [of "str @ replicate (nat e) CHR ''0''" "[]" r neg] r str short
      by (simp add: decimal_body_def wrap)
  next
    case int
    then show ?thesis
      using unpack_number_fraction [of str "[]" r neg] m r str by (simp add: decimal_body_def wrap)
  next
    case exp
    then show ?thesis
      using unpack_number_exponent [of str e r neg] m e r str by (auto simp: decimal_body_def)
  qed
qed

lemma unpack_number_decimal:
  assumes "\<bar>m\<bar> < 2 ^ 63" and "in_s 32 e" and "stops r"
  shows "unpack_number (ccpcp_decimal_to_string 64 m e @ r) = Inr (CDecimal (canon_mantissa m e) (canon_exponent m e), r)"
  using unpack_decimal_body [of "nat \<bar>m\<bar>" e r "m < 0"] assms
  by (auto simp: decimal_text canon_mantissa_def canon_exponent_def short_decimal_def signed_def nat_less_iff nat_mult_distrib)

section \<open>Strings and blobs\<close>

abbreviation quote :: char where "quote \<equiv> CHR 0x22"

lemma cchunk_loop_last: "cs_last_chunk it \<Longrightarrow> cchunk_loop b acc it t = Inr (acc @ cs_chunk it, it, t)"
  by (subst cchunk_loop.simps) simp

text \<open>A loop that undoes an escaping, one character for each, reads an escaped string in chunks.\<close>

locale escaped =
  fixes loop :: "nat \<Rightarrow> string \<Rightarrow> string \<Rightarrow> (string \<times> bool \<times> string) option"
    and esc :: "char \<Rightarrow> string"
    and is_blob :: bool
  assumes loop_0: "loop 0 ch t = Some (ch, False, t)"
    and loop_esc: "loop (Suc room) ch (esc c @ t) = loop room (ch @ [c]) t"
    and loop_quote: "loop (Suc room) ch (quote # t) = Some (ch, True, t)"
    and loop_chunk: "\<not> cs_blob_hex it \<Longrightarrow> next_chunk is_blob it inp = unpack_chunk loop it inp"
begin

lemma loop_text: "loop room ch (concat (map esc s) @ quote # t) =
    (if length s < room then Some (ch @ s, True, t)
     else Some (ch @ take room s, False, concat (map esc (drop room s)) @ quote # t))"
proof (induction s arbitrary: room ch)
  case Nil
  then show ?case by (cases room) (simp_all add: loop_0 loop_quote)
next
  case (Cons c s)
  then show ?case by (cases room) (simp_all add: loop_0 loop_esc)
qed

lemma next_chunk_text:
  assumes "\<not> cs_blob_hex it" and "\<not> cs_last_chunk it" and "cs_chunk_cnt it \<noteq> 0"
  shows "next_chunk is_blob it (concat (map esc s) @ quote # t) =
    Some (it\<lparr>cs_chunk := take 256 s, cs_chunk_cnt := cs_chunk_cnt it + 1, cs_last_chunk := length s < 256\<rparr>,
      if length s < 256 then t else concat (map esc (drop 256 s)) @ quote # t)"
  using assms by (cases "length s < 256") (simp_all add: loop_chunk unpack_chunk_def loop_text CCPCP_STRING_CHUNK_BUFF_LEN_def)

lemma first_chunk_text:
  "next_chunk is_blob (cpon_string_init False) (quote # concat (map esc s) @ quote # t) =
    Some ((cpon_string_init False)\<lparr>cs_chunk := take 256 s, cs_chunk_cnt := 1, cs_last_chunk := length s < 256\<rparr>,
      if length s < 256 then t else concat (map esc (drop 256 s)) @ quote # t)"
  by (cases "length s < 256") (simp_all add: loop_chunk unpack_chunk_def loop_text CCPCP_STRING_CHUNK_BUFF_LEN_def cpon_string_init_def)

lemma chunk_loop_text:
  "\<not> cs_blob_hex it \<Longrightarrow> cs_chunk_cnt it \<noteq> 0 \<Longrightarrow> (cs_last_chunk it \<longrightarrow> s = []) \<Longrightarrow>
   \<exists>it'. cchunk_loop is_blob acc it (if cs_last_chunk it then t else concat (map esc s) @ quote # t) =
      Inr (acc @ cs_chunk it @ s, it', t) \<and> cs_last_chunk it'"
proof (induction "length s" arbitrary: s it acc rule: less_induct)
  case less
  show ?case
  proof (cases "cs_last_chunk it")
    case True
    then show ?thesis using less.prems by (simp add: cchunk_loop_last)
  next
    case False
    define it1 where "it1 = it\<lparr>cs_chunk := take 256 s, cs_chunk_cnt := cs_chunk_cnt it + 1, cs_last_chunk := length s < 256\<rparr>"
    have step: "cchunk_loop is_blob acc it (concat (map esc s) @ quote # t) =
        cchunk_loop is_blob (acc @ cs_chunk it) it1 (if cs_last_chunk it1 then t else concat (map esc (drop 256 s)) @ quote # t)"
      using False less.prems by (subst cchunk_loop.simps) (simp add: unpack_next_chunk next_chunk_text it1_def)
    show ?thesis
    proof (cases "length s < 256")
      case True
      then show ?thesis using False cchunk_loop_last [of it1 is_blob "acc @ cs_chunk it" t] by (simp add: step, simp add: it1_def)
    next
      case long: False
      then have "length (drop 256 s) < length s" by simp
      moreover have "\<not> cs_blob_hex it1" "cs_chunk_cnt it1 \<noteq> 0" "cs_last_chunk it1 \<longrightarrow> drop 256 s = []"
        using less.prems long by (simp_all add: it1_def)
      ultimately obtain it' where "cchunk_loop is_blob (acc @ cs_chunk it) it1
          (if cs_last_chunk it1 then t else concat (map esc (drop 256 s)) @ quote # t) =
          Inr ((acc @ cs_chunk it) @ cs_chunk it1 @ drop 256 s, it', t)" "cs_last_chunk it'"
        using less.hyps by blast
      moreover have "cs_chunk it1 @ drop 256 s = s" by (simp add: it1_def)
      ultimately show ?thesis using False by (simp add: step del: append_assoc)
    qed
  qed
qed

lemma text_reads:
  "\<exists>s1 s' r1. next_chunk is_blob (cpon_string_init False) (quote # concat (map esc s) @ quote # t) = Some (s1, r1)
    \<and> cchunk_loop is_blob [] s1 r1 = Inr (s, s', t) \<and> cs_last_chunk s'"
proof -
  define s1 where "s1 = (cpon_string_init False)\<lparr>cs_chunk := take 256 s, cs_chunk_cnt := 1, cs_last_chunk := length s < 256\<rparr>"
  have "\<exists>s'. cchunk_loop is_blob [] s1 (if cs_last_chunk s1 then t else concat (map esc (drop 256 s)) @ quote # t) =
      Inr ([] @ cs_chunk s1 @ drop 256 s, s', t) \<and> cs_last_chunk s'"
    by (rule chunk_loop_text) (auto simp: s1_def cpon_string_init_def)
  then show ?thesis unfolding first_chunk_text by (auto simp: s1_def)
qed

end

lemma of_char_hexify: "k < 16 \<Longrightarrow> (of_char (hexify k) :: nat) = (if k \<le> 9 then k + 48 else k + 87)"
  by (simp add: hexify_def)

lemma hexify_16:
  assumes "k < 16"
  shows "unhex (hexify k) = Some (int k)" and "hexify k \<notin> {CHR ''t'', CHR ''r'', CHR ''n'', quote, CHR 0x5C}"
proof -
  show "unhex (hexify k) = Some (int k)"
    using assms by (simp add: unhex_def of_char_hexify)
  have "(of_char (hexify k) :: nat) \<notin> {116, 114, 110, 34, 92}" using assms by (auto simp: of_char_hexify split: if_splits)
  then show "hexify k \<notin> {CHR ''t'', CHR ''r'', CHR ''n'', quote, CHR 0x5C}" by auto
qed

lemma hex_char_split: "hex_char (int (of_char c div 16)) (int (of_char c mod 16)) = c"
proof -
  have "nat (16 * int (of_char c div 16) + int (of_char c mod 16)) = of_char c"
    by (simp add: nat_add_distrib nat_mult_distrib)
  then show ?thesis by (simp add: hex_char_def)
qed

lemma blob_esc_step: "blob_esc_loop (Suc room) ch (esc_blob_char c @ t) = blob_esc_loop room (ch @ [c]) t"
proof (cases "of_char c < (32::nat) \<or> of_char c \<ge> (127::nat)")
  case True
  have "(of_char c :: nat) mod 256 < 256" by simp
  then have "(of_char c :: nat) < 256" by (simp only: of_char_mod_256)
  then have "(of_char c :: nat) div 16 < 16" "(of_char c :: nat) mod 16 < 16" by linarith+
  note hex = hexify_16 [OF this(1)] hexify_16 [OF this(2)]
  then show ?thesis using True by (auto simp: esc_blob_char_def hex_char_split simp del: of_nat_div of_nat_mod)
qed (auto simp: esc_blob_char_def)

interpretation data_text: escaped string_loop esc_char False
proof unfold_locales
  fix room ch c t
  show "string_loop (Suc room) ch (esc_char c @ t) = string_loop room (ch @ [c]) t"
    by (simp add: esc_char_def unesc_char_def)
qed (simp_all add: next_chunk_def ccpon_unpack_string_def)

interpretation blob_text: escaped blob_esc_loop esc_blob_char True
  by unfold_locales
     (simp_all add: blob_esc_step next_chunk_def ccpon_unpack_blob_def ccpon_unpack_blob_esc_def)

section \<open>Times\<close>

text \<open>A number with at least two digits, as the padding leaves it.\<close>

definition pad2 :: "nat \<Rightarrow> string" where
  "pad2 n = (if n < 10 then CHR ''0'' # to_string_nat n else to_string_nat n)"

lemma pad2_facts: "list_all is_digit (pad2 n)" "dval 0 (pad2 n) = n" "pad2 n \<noteq> []" "2 \<le> length (pad2 n)"
proof -
  show "list_all is_digit (pad2 n)" "dval 0 (pad2 n) = n" "pad2 n \<noteq> []"
    by (simp_all add: pad2_def to_string_nat_is_digit dval_to_string to_string_nat_nonempty digit_val_def)
  have "2 \<le> length (to_string_nat n)" if "10 \<le> n"
    using to_string_nat_nonempty [of "n div 10"] by (cases "to_string_nat (n div 10)") (simp_all add: to_string_nat_step [OF that])
  then show "2 \<le> length (pad2 n)" by (simp add: pad2_def to_string_nat_less_10)
qed

lemma pad2_length: "n < 100 \<Longrightarrow> length (pad2 n) = 2"
  using length_to_string [of n 2] pad2_facts(4) [of n] by (simp add: pad2_def to_string_nat_less_10 split: if_splits)

text \<open>The buffer starts with a text of that length.\<close>

definition holds :: "string \<times> nat \<Rightarrow> string \<Rightarrow> bool" where
  "holds b t \<longleftrightarrow> length (fst b) = 32 \<and> length t = snd b \<and> take (snd b) (fst b) = t"

lemma holds_split: "holds (str, len) t \<longleftrightarrow> len = length t \<and> length str = 32 \<and> (\<exists>junk. str = t @ junk)"
  by (auto simp: holds_def) (metis append_take_drop_id)

lemma lpad2:
  assumes h: "holds (str, len) t" and n: "length (to_string_nat n) \<le> 20" "len + length (pad2 n) < 32"
  shows "case uint_to_str_lpad str len (32 - len) n 2 CHR ''0'' of (str', l) \<Rightarrow> holds (str', len + l) (t @ pad2 n)"
proof -
  obtain junk where str: "str = t @ junk" "len = length t" "length t + length junk = 32" using h by (auto simp: holds_split)
  have dig: "uint_to_str (32 - len) n = to_string_nat n"
    using n by (intro uint_to_str_eq) (auto simp: pad2_def split: if_splits)
  show ?thesis
  proof (cases "n < 10")
    case True
    then have one: "to_string_nat n = [char_of (48 + n)]" "pad2 n = [CHR ''0'', char_of (48 + n)]"
      by (simp_all add: to_string_nat_less_10 pad2_def)
    obtain x y junk' where junk: "junk = x # y # junk'"
      using n(2) str one by (cases junk; cases "tl junk") auto
    have "uint_to_str_lpad str len (32 - len) n 2 CHR ''0'' = (t @ CHR ''0'' # char_of (48 + n) # junk', 2)"
      using n(2) by (simp add: uint_to_str_lpad_def dig [unfolded one str(2)] one Let_def put_at_def lpad_step_def str junk
          nth_append list_update_append)
    then show ?thesis using str junk by (simp add: holds_split one)
  next
    case False
    then have "\<not> length (to_string_nat n) < 2" using pad2_facts(4) [of n] by (simp add: pad2_def)
    then have "uint_to_str_lpad str len (32 - len) n 2 CHR ''0'' =
        (t @ to_string_nat n @ drop (length (to_string_nat n)) junk, length (to_string_nat n))"
      using str(2) by (simp add: uint_to_str_lpad_def dig [unfolded str(2)] Let_def put_at_def str)
    then show ?thesis using str n(2) False by (simp add: holds_split pad2_def)
  qed
qed

lemma date_field_text:
  assumes h: "holds b t" and n: "0 \<le> n" "n < 100" and len: "length t < 28"
  shows "holds (date_field sep n b) (t @ sep # pad2 (nat n))"
proof -
  obtain str where b: "b = (str, length t)" using h by (cases b) (auto simp: holds_split)
  obtain x junk where str: "str = t @ x # junk" "length t + Suc (length junk) = 32"
    using h len by (cases "drop (length t) str") (auto simp: b holds_split)
  have h1: "holds (str[length t := sep], length t + 1) (t @ [sep])" using str by (simp add: holds_split)
  have "length (to_string_nat (nat n)) \<le> 20" by (rule u64_digits) (use n in simp)
  from lpad2 [OF h1 this] len pad2_length [of "nat n"] n
  have l: "case uint_to_str_lpad (str[length t := sep]) (length t + 1) (32 - (length t + 1)) (nat n) 2 CHR ''0'' of
      (str', l) \<Rightarrow> holds (str', length t + 1 + l) ((t @ [sep]) @ pad2 (nat n))" by simp
  have "n mod 4294967296 = n" using n by simp
  then show ?thesis
    using l len by (simp add: date_field_def b DATETIME_STRING_LEN_def Let_def case_prod_unfold)
qed

definition date_text :: "tm \<Rightarrow> string" where
  "date_text t = pad2 (nat (tm_year t + 1900)) @ CHR ''-'' # pad2 (nat (tm_mon t + 1)) @ CHR ''-'' # pad2 (nat (tm_mday t)) @
     CHR ''T'' # pad2 (nat (tm_hour t)) @ CHR '':'' # pad2 (nat (tm_min t)) @ CHR '':'' # pad2 (nat (tm_sec t))"

lemma date_buffer_text:
  assumes "tm_ok t"
  shows "holds (date_buffer t) (date_text t)" and "length (date_text t) < 23"
proof -
  define y where "y = nat (tm_year t + 1900)"
  have y: "y < 10000000" "nat ((tm_year t + 1900) mod 2 ^ 32) = y" using assms by (simp_all add: y_def tm_ok_def year_ok_def nat_less_iff)
  have leny: "length (to_string_nat y) \<le> 7" using y(1) by (intro length_to_string) simp_all
  then have leny2: "length (pad2 y) \<le> 7" by (simp add: pad2_def to_string_nat_less_10)
  have h0: "holds (replicate 32 CHR 0x00, 0) []" by (simp add: holds_split)
  define b0 where "b0 = uint_to_str_lpad (replicate 32 CHR 0x00) 0 32 y 2 CHR ''0''"
  have "holds b0 (pad2 y)"
    using lpad2 [OF h0, of y] leny leny2 by (simp add: b0_def case_prod_unfold)
  note f = date_field_text
  have lens: "length (pad2 (nat (tm_mon t + 1))) = 2" "length (pad2 (nat (tm_mday t))) = 2" "length (pad2 (nat (tm_hour t))) = 2"
    "length (pad2 (nat (tm_min t))) = 2" "length (pad2 (nat (tm_sec t))) = 2"
    by (rule pad2_length; use assms in \<open>simp add: tm_ok_def nat_less_iff\<close>)+
  have "holds (date_field CHR ''-'' (tm_mon t + 1) b0) (pad2 y @ CHR ''-'' # pad2 (nat (tm_mon t + 1)))"
    by (rule f) (use \<open>holds b0 (pad2 y)\<close> assms leny2 in \<open>auto simp: tm_ok_def\<close>)
  from f [OF this, of "tm_mday t" "CHR ''-''"] assms leny2
  have "holds (date_field CHR ''-'' (tm_mday t) (date_field CHR ''-'' (tm_mon t + 1) b0))
     ((pad2 y @ CHR ''-'' # pad2 (nat (tm_mon t + 1))) @ CHR ''-'' # pad2 (nat (tm_mday t)))"
    by (simp add: tm_ok_def lens)
  from f [OF this, of "tm_hour t" "CHR ''T''"] assms leny2
  have "holds (date_field CHR ''T'' (tm_hour t) (date_field CHR ''-'' (tm_mday t) (date_field CHR ''-'' (tm_mon t + 1) b0)))
     (((pad2 y @ CHR ''-'' # pad2 (nat (tm_mon t + 1))) @ CHR ''-'' # pad2 (nat (tm_mday t))) @ CHR ''T'' # pad2 (nat (tm_hour t)))"
    by (simp add: tm_ok_def lens)
  from f [OF this, of "tm_min t" "CHR '':''"] assms leny2
  have "holds (date_field CHR '':'' (tm_min t) (date_field CHR ''T'' (tm_hour t) (date_field CHR ''-'' (tm_mday t) (date_field CHR ''-'' (tm_mon t + 1) b0))))
     ((((pad2 y @ CHR ''-'' # pad2 (nat (tm_mon t + 1))) @ CHR ''-'' # pad2 (nat (tm_mday t))) @ CHR ''T'' # pad2 (nat (tm_hour t)))
        @ CHR '':'' # pad2 (nat (tm_min t)))"
    by (simp add: tm_ok_def lens)
  from f [OF this, of "tm_sec t" "CHR '':''"] assms leny2
  show "holds (date_buffer t) (date_text t)"
    by (simp add: tm_ok_def lens date_buffer_def DATETIME_STRING_LEN_def y(2) [simplified] b0_def [symmetric] date_text_def y_def [symmetric])
  show "length (date_text t) < 23"
    using leny2 assms by (simp add: date_text_def y_def [symmetric] lens)
qed

text \<open>Fields read back.\<close>

lemma cpon_unpack_int_digits:
  assumes "list_all is_digit s" and "s \<noteq> []" and "dval 0 s < 2 ^ 63" and "digit_stop r"
  shows "cpon_unpack_int (s @ r) = (int (dval 0 s), length s, r)"
  using unpack_digits(1) [OF assms(1) _ assms(4,2), of 0] assms(3)
  by (simp add: cpon_unpack_int_def int_result_def)

lemma take_field_pad2:
  assumes "0 \<le> n" "n < 10000000" and "\<not> is_digit c" "c \<noteq> CHR ''x''"
  shows "take_field (pad2 (nat n) @ c # r) = Some (n, c, r)"
proof -
  have "s_wrap 32 n = n" using assms by (intro s_wrap_id) (simp add: in_s_def)
  then show ?thesis
    using cpon_unpack_int_digits [of "pad2 (nat n)" "c # r"] pad2_facts [of "nat n"] assms
    by (simp add: take_field_def digit_stop_def nat_less_iff)
qed

lemma take_last_field_pad2:
  assumes "0 \<le> n" "n < 10000000" and "digit_stop r"
  shows "take_last_field (pad2 (nat n) @ r) = Some (n, r)"
proof -
  have "s_wrap 32 n = n" using assms by (intro s_wrap_id) (simp add: in_s_def)
  then show ?thesis
    using cpon_unpack_int_digits [of "pad2 (nat n)" r] pad2_facts [of "nat n"] assms
    by (simp add: take_last_field_def nat_less_iff)
qed

lemma unpack_tm_text:
  assumes "tm_ok t" and "digit_stop r"
  shows "unpack_tm (date_text t @ r) = Some (t, r)"
proof -
  have w: "s_wrap 32 (tm_year t + 1900 - 1900) = tm_year t" "s_wrap 32 (tm_mon t + 1 - 1) = tm_mon t"
    by (subst s_wrap_id; use assms(1) in \<open>simp add: tm_ok_def year_ok_def in_s_def\<close>)+
  note f = take_field_pad2 [unfolded is_digit_def]
  show ?thesis
    using assms unfolding unpack_tm_def date_text_def
    by (simp add: f take_last_field_pad2 tm_ok_def year_ok_def w [simplified])
qed

text \<open>The zone: hours, and minutes when there are any.\<close>

definition zone_string :: "int \<Rightarrow> string" where
  "zone_string off =
     (if off = 0 then ''Z''
      else (if off < 0 then CHR ''-'' else CHR ''+'') # pad2 (nat \<bar>off\<bar> div 60)
             @ (if nat \<bar>off\<bar> mod 60 \<noteq> 0 then pad2 (nat \<bar>off\<bar> mod 60) else []))"

lemma zone_text_string:
  assumes "length str = 32" and "\<bar>off\<bar> < 6000"
  shows "zone_text str off = zone_string off"
proof (cases "off = 0")
  case False
  define h where "h = nat \<bar>off\<bar> div 60"
  define m where "m = nat \<bar>off\<bar> mod 60"
  have hm: "h < 100" "m < 100" using assms(2) by (auto simp: h_def m_def less_mult_imp_div_less nat_less_iff)
  have dig: "length (to_string_nat h) \<le> 20" "length (to_string_nat m) \<le> 20" using hm by (auto intro!: u64_digits)
  have h0: "holds (str, 0) []" using assms(1) by (simp add: holds_split)
  obtain s1 l1 where 1: "uint_to_str_lpad str 0 32 h 2 CHR ''0'' = (s1, l1)" by force
  have H1: "holds (s1, l1) (pad2 h)" using lpad2 [OF h0 dig(1)] pad2_length [OF hm(1)] by (simp add: 1)
  then have l1: "l1 = 2" using pad2_length [OF hm(1)] by (simp add: holds_split)
  obtain s2 l2 where 2: "uint_to_str_lpad s1 l1 (32 - l1) m 2 CHR ''0'' = (s2, l2)" by force
  have "l1 + length (pad2 m) < 32" using l1 pad2_length [OF hm(2)] by simp
  from lpad2 [OF H1 dig(2) this] have "holds (s2, l1 + l2) (pad2 h @ pad2 m)" by (simp only: 2 prod.case)
  moreover have "uint_to_str_lpad s1 2 30 m 2 CHR ''0'' = (s2, l2)" using 2 l1 by simp
  ultimately show ?thesis
    using False H1 pad2_length hm
    by (auto simp: zone_text_def zone_string_def DATETIME_STRING_LEN_def Let_def h_def [symmetric] m_def [symmetric] 1
        buffer_text_def holds_def)
qed (simp add: zone_text_def zone_string_def)

lemma unpack_zone_digits:
  assumes "cpon_unpack_int r = (val, n, r')" and "n = 2 \<or> n = 4"
    and "(if n = 2 then 60 * val else 60 * (val sdiv 100) + val smod 100) = \<bar>off\<bar>" and "\<bar>off\<bar> < 6000"
  shows "unpack_zone ((if off < 0 then CHR ''-'' else CHR ''+'') # r) = Some (off, r')"
proof -
  have "s_wrap 32 \<bar>off\<bar> = \<bar>off\<bar>" "s_wrap 32 (- \<bar>off\<bar>) = - \<bar>off\<bar>"
    using assms(4) by (auto intro!: s_wrap_id simp: in_s_def)
  then show ?thesis using assms(1-3) by (cases "off < 0") (simp_all add: unpack_zone_def Let_def)
qed

lemma unpack_zone_string:
  assumes "\<bar>off\<bar> < 6000" and "digit_stop r"
  shows "unpack_zone (zone_string off @ r) = Some (off, r)"
proof (cases "off = 0")
  case False
  define h where "h = nat \<bar>off\<bar> div 60"
  define m where "m = nat \<bar>off\<bar> mod 60"
  define ds where "ds = pad2 h @ (if m \<noteq> 0 then pad2 m else [])"
  have hm: "h < 100" "m < 60" using assms(1) by (auto simp: h_def m_def less_mult_imp_div_less nat_less_iff)
  have off: "\<bar>off\<bar> = 60 * int h + int m" unfolding h_def m_def by (simp add: zdiv_int zmod_int)
  have zs: "zone_string off @ r = (if off < 0 then CHR ''-'' else CHR ''+'') # (ds @ r)"
    using False by (simp add: zone_string_def h_def m_def ds_def)
  have "\<exists>val n. cpon_unpack_int (ds @ r) = (val, n, r) \<and> (n = 2 \<or> n = 4) \<and>
      (if n = 2 then 60 * val else 60 * (val sdiv 100) + val smod 100) = 60 * int h + int m"
  proof (cases "m = 0")
    case True
    then have "cpon_unpack_int (ds @ r) = (int h, 2, r)"
      using cpon_unpack_int_digits [of "pad2 h" r] pad2_facts [of h] pad2_length [OF hm(1)] hm(1) assms(2) by (simp add: ds_def)
    then show ?thesis using True by simp
  next
    case m: False
    have "dval (dval 0 (pad2 h)) (pad2 m) = 100 * h + m"
    proof (cases "m < 10")
      case True
      then show ?thesis by (simp add: pad2_facts(2)) (simp add: pad2_def to_string_nat_less_10 digit_val_def)
    next
      case False
      then have "pad2 m = [char_of (48 + m div 10), char_of (48 + m mod 10)]"
        using hm(2) by (simp add: pad2_def to_string_nat_step to_string_nat_less_10)
      then show ?thesis using hm(2) by (simp add: pad2_facts(2) digit_val_def)
    qed
    then have "cpon_unpack_int (ds @ r) = (int (100 * h + m), 4, r)"
      using cpon_unpack_int_digits [of "pad2 h @ pad2 m" r] pad2_facts [of h] pad2_facts [of m] pad2_length hm assms(2) m
      by (simp add: ds_def)
    moreover have "int (100 * h + m) sdiv 100 = int h" "int (100 * h + m) smod 100 = int m"
      using hm by (simp_all add: sdiv_nonneg smod_pos)
    ultimately show ?thesis by (simp del: of_nat_add of_nat_mult)
  qed
  then show ?thesis unfolding zs using unpack_zone_digits [of "ds @ r" _ _ r off] off assms(1) by metis
qed (simp add: zone_string_def unpack_zone_def)

text \<open>
  Milliseconds take three digits.  For one digit the padding leaves the middle one to what the buffer
  holds there, the second digit of the year.
\<close>

lemma lpad3:
  "fold (lpad_step 0 1 3 p) [0..<1] (a # b # c # r) = p # b # a # r"
  "lpad_step 0 (Suc (Suc 0)) 3 p (Suc 0) (lpad_step 0 (Suc (Suc 0)) 3 p 0 (a # b # c # r)) = p # a # b # r"
  by (simp_all add: lpad_step_def Let_def numeral_eq_Suc)

lemma msec_buffer:
  assumes h: "holds (str, len) t" and t: "2 \<le> length t" and ms: "0 < ms" "ms < 1000"
    and second: "10 \<le> ms \<or> t ! 1 = CHR ''0''"
  obtains str' s3 where "uint_to_str_lpad str 0 32 (nat ms) 3 CHR ''0'' = (str', 3)" "length str' = 32"
    "take 3 str' = s3" "list_all is_digit s3" "length s3 = 3" "dval 0 s3 = nat ms"
proof -
  obtain c0 c1 c2 junk where str: "str = c0 # c1 # c2 # junk" "length junk = 29" "c1 = t ! 1"
  proof -
    obtain c0 c1 t' where "t = c0 # c1 # t'" using t by (cases t; cases "tl t") auto
    with h obtain junk where "str = c0 # c1 # t' @ junk" "length str = 32" by (auto simp: holds_split)
    then show thesis using that \<open>t = c0 # c1 # t'\<close> by (cases "t' @ junk") auto
  qed
  define n where "n = nat ms"
  have n: "0 < n" "n < 1000" using ms by (auto simp: n_def)
  have dig: "uint_to_str 32 n = to_string_nat n" using length_to_string [of n 3] n by (intro uint_to_str_eq) simp
  consider (1) "n < 10" | (2) "10 \<le> n" "n < 100" | (3) "100 \<le> n" by linarith
  then show thesis
  proof cases
    case 1
    then have "uint_to_str_lpad str 0 32 n 3 CHR ''0'' = (CHR ''0'' # c1 # char_of (48 + n) # junk, 3)"
      using lpad3(1) [of "CHR ''0''" "char_of (48 + n)" c1 c2 junk]
      by (simp add: uint_to_str_lpad_def dig to_string_nat_less_10 Let_def put_at_def str(1))
    moreover have "c1 = CHR ''0''" using second 1 str(3) ms by (auto simp: n_def)
    ultimately show ?thesis
      using str(2) 1 that [of "CHR ''0'' # CHR ''0'' # char_of (48 + n) # junk" "[CHR ''0'', CHR ''0'', char_of (48 + n)]"]
      by (simp add: n_def [symmetric] is_digit_def digit_val_def)
  next
    case 2
    then have ts: "to_string_nat n = [char_of (48 + n div 10), char_of (48 + n mod 10)]"
      by (simp add: to_string_nat_step to_string_nat_less_10)
    then have "uint_to_str_lpad str 0 32 n 3 CHR ''0'' = (CHR ''0'' # char_of (48 + n div 10) # char_of (48 + n mod 10) # junk, 3)"
      using lpad3(2) [of "CHR ''0''" "char_of (48 + n div 10)" "char_of (48 + n mod 10)" c2 junk]
      by (simp add: uint_to_str_lpad_def dig Let_def put_at_def str(1))
    moreover have "list_all is_digit (to_string_nat n)" "dval 0 (to_string_nat n) = n"
      by (simp_all add: to_string_nat_is_digit dval_to_string)
    ultimately show ?thesis
      using str(2) that [of "CHR ''0'' # char_of (48 + n div 10) # char_of (48 + n mod 10) # junk" "CHR ''0'' # to_string_nat n"]
      unfolding ts by (simp add: n_def [symmetric] digit_val_def)
  next
    case 3
    then have ts: "to_string_nat n = [char_of (48 + n div 100), char_of (48 + n div 10 mod 10), char_of (48 + n mod 10)]"
      using n(2) by (simp add: to_string_nat_step to_string_nat_less_10 div_mult2_eq [symmetric])
    then have "uint_to_str_lpad str 0 32 n 3 CHR ''0'' = (to_string_nat n @ junk, 3)"
      by (simp add: uint_to_str_lpad_def dig Let_def put_at_def str(1))
    moreover have "list_all is_digit (to_string_nat n)" "dval 0 (to_string_nat n) = n"
      by (simp_all add: to_string_nat_is_digit dval_to_string)
    moreover have "length (to_string_nat n) = 3" by (simp add: ts)
    ultimately show ?thesis
      using str(2) that [of "to_string_nat n @ junk" "to_string_nat n"] by (simp add: n_def [symmetric])
  qed
qed

text \<open>
  A time reads back: from the year 1 on, whole milliseconds not before 1970 or a full second, and where a
  single digit of milliseconds is written, a zero as the second digit of the year.
\<close>

definition time_prints :: "int \<Rightarrow> int \<Rightarrow> bool" where
  "time_prints ms off \<longleftrightarrow> epoch_ok (ms sdiv 1000 + off * 60) \<and> \<bar>off\<bar> < 6000 \<and> 0 \<le> ms smod 1000 \<and>
     (0 < ms smod 1000 \<and> ms smod 1000 < 10 \<longrightarrow> date_text (ccpon_gmtime (ms sdiv 1000 + off * 60)) ! 1 = CHR ''0'')"

lemma msec_split: "(ms sdiv 1000) * 1000 + ms smod 1000 = (ms :: int)" "ms smod 1000 < 1000"
proof -
  show "(ms sdiv 1000) * 1000 + ms smod 1000 = ms" by (rule sdiv_mult_smod_eq)
  have "ms smod 1000 \<le> \<bar>ms\<bar> mod 1000" by (simp add: signed_modulo_int_def signed_divide_int_def sgn_if)
  also have "\<dots> < 1000" by simp
  finally show "ms smod 1000 < 1000" .
qed

lemma unpack_time_text:
  assumes "time_prints ms off" and "in_s 64 ms" and r: "r = quote # r'"
  shows "cpon_unpack_date_time (date_time_text ms off CCPON_Auto True @ r) = Inr (CDateTime ms off, r)"
proof -
  define t where "t = ccpon_gmtime (ms sdiv 1000 + off * 60)"
  define msec where "msec = ms smod 1000"
  have ok: "tm_ok t" "ccpon_timegm t = Some (ms sdiv 1000 + off * 60)" "0 \<le> msec" "\<bar>off\<bar> < 6000"
    using assms(1) timegm_gmtime by (simp_all add: time_prints_def t_def msec_def)
  have msec: "msec < 1000" "(ms sdiv 1000) * 1000 + msec = ms" using msec_split [of ms] by (simp_all add: msec_def)
  obtain str len where b: "date_buffer t = (str, len)" by (cases "date_buffer t")
  note hb = date_buffer_text [OF ok(1), unfolded b]
  have lens: "length str = 32" "len = length (date_text t)" "take len str = date_text t" using hb(1) by (auto simp: holds_def)
  have buf: "buffer_text (str, len) = date_text t" using lens hb(2) by (simp add: buffer_text_def DATETIME_STRING_LEN_def)
  have stop: "digit_stop r" by (simp add: r digit_stop_def is_digit_def)
  have zone_stop: "digit_stop (zone_string off @ r)" by (simp add: zone_string_def digit_stop_def is_digit_def)
  have val: "s_wrap 64 ((ms sdiv 1000 + off * 60 - off * 60) * 1000 + msec) = ms" using assms(2) msec(2) by (simp add: s_wrap_id)
  show ?thesis
  proof (cases "msec = 0")
    case True
    have tx: "date_time_text ms off CCPON_Auto True = date_text t @ zone_string off"
      by (simp add: date_time_text_def Let_def t_def [symmetric] b msec_def [symmetric] True buf zone_text_string [OF lens(1) ok(4)]
          split: prod.split)
    have "unpack_msec (zone_string off @ r) = Inl (0, zone_string off @ r)" by (simp add: unpack_msec_def zone_string_def)
    then show ?thesis
      using val True
      by (simp add: tx cpon_unpack_date_time_def unpack_tm_text [OF ok(1) zone_stop] unpack_zone_string [OF ok(4) stop] ok(2)
          del: add_diff_cancel_right')
  next
    case False
    have "2 \<le> length (date_text t)" using pad2_facts(4) [of "nat (tm_year t + 1900)"] by (simp add: date_text_def)
    moreover have "10 \<le> msec \<or> date_text t ! 1 = CHR ''0''" "0 < msec" using assms(1) False ok(3) by (auto simp: time_prints_def msec_def t_def)
    ultimately obtain str' s3 where m: "uint_to_str_lpad str 0 32 (nat msec) 3 CHR ''0'' = (str', 3)" "length str' = 32"
      "take 3 str' = s3" "list_all is_digit s3" "length s3 = 3" "dval 0 s3 = nat msec"
      using msec_buffer [OF hb(1)] msec(1) by metis
    have "msec mod 2 ^ 32 = msec" using ok(3) msec(1) by simp
    then have tx: "date_time_text ms off CCPON_Auto True = date_text t @ CHR ''.'' # s3 @ zone_string off"
      using False ok(3) m(3)
      by (simp add: date_time_text_def Let_def t_def [symmetric] b msec_def [symmetric] DATETIME_STRING_LEN_def m(1) buf
          zone_text_string [OF m(2) ok(4)] buffer_text_def [of "(str', 3)"])
    have "digit_stop (CHR ''.'' # s3 @ zone_string off @ r)" by (simp add: digit_stop_def is_digit_def)
    moreover have "cpon_unpack_int (s3 @ zone_string off @ r) = (msec, 3, zone_string off @ r)"
    proof -
      have "s3 \<noteq> []" using m(5) by auto
      moreover have "dval 0 s3 < 2 ^ 63" using msec(1) by (simp add: m(6) nat_less_iff)
      ultimately show ?thesis using cpon_unpack_int_digits [OF m(4) _ _ zone_stop] m(5,6) ok(3) by simp
    qed
    moreover have "s_wrap 32 msec = msec" using ok(3) msec(1) by (intro s_wrap_id) (simp add: in_s_def)
    ultimately show ?thesis
      using val
      by (simp add: tx cpon_unpack_date_time_def unpack_tm_text [OF ok(1)] unpack_msec_def unpack_zone_string [OF ok(4) stop] ok(2)
          del: add_diff_cancel_right')
  qed
qed

end
