(* ===== verification/Cpon_Roundtrip.thy ===== *)
theory Cpon_Roundtrip
  imports Cpon_Text Chain_Pack_Roundtrip
begin

text \<open>
  The text format as a codec: what \<open>CponWriter\<close> writes without translating ids, \<open>CponReader\<close> reads back up to
  \<open>cpon_canon\<close>, for the values \<open>cpon_printable\<close> admits.  Not admitted are doubles (a text with a point is read as
  a decimal), unsigned numbers from \<open>2 ^ 63\<close> on (the reader saturates), and the times named in
  \<open>time_prints\<close>.  The indentation may be any text of insignificant characters.
\<close>

section \<open>Normal form and limits\<close>

primrec cpon_canon :: "rpc_value \<Rightarrow> rpc_value"
  and ccanon_variant :: "variant \<Rightarrow> variant"
  and ccanon_meta :: "rpc_meta \<Rightarrow> rpc_meta"
where
  "cpon_canon (RpcValue m v) = RpcValue (drop_empty_meta (map_option ccanon_meta m)) (ccanon_variant v)"
| "ccanon_variant VInvalid = VNull"
| "ccanon_variant VNull = VNull"
| "ccanon_variant (VUInt u) = VUInt u"
| "ccanon_variant (VInt i) = VInt i"
| "ccanon_variant (VDouble d) = VDouble d"
| "ccanon_variant (VBool b) = VBool b"
| "ccanon_variant (VBlob b) = VBlob b"
| "ccanon_variant (VString s) = VString s"
| "ccanon_variant (VDateTime d) = VDateTime d"
| "ccanon_variant (VDecimal d) =
     VDecimal \<lparr>dec_mantissa = canon_mantissa (dec_mantissa d) (dec_exponent d),
       dec_exponent = canon_exponent (dec_mantissa d) (dec_exponent d)\<rparr>"
| "ccanon_variant (VList l) = VList (map cpon_canon l)"
| "ccanon_variant (VMap m) = VMap (map (map_prod id cpon_canon) m)"
| "ccanon_variant (VIMap m) = VIMap (map (map_prod id cpon_canon) m)"
| "ccanon_meta (MetaData im sm) =
     MetaData (map (map_prod id cpon_canon) im) (map (map_prod id cpon_canon) sm)"

primrec cpon_printable :: "rpc_value \<Rightarrow> bool"
  and variant_printable :: "variant \<Rightarrow> bool"
  and meta_printable :: "rpc_meta \<Rightarrow> bool"
where
  "cpon_printable (RpcValue m v) \<longleftrightarrow> pred_option id (map_option meta_printable m) \<and> variant_printable v"
| "variant_printable VInvalid = True"
| "variant_printable VNull = True"
| "variant_printable (VUInt u) = (unat u < 2 ^ 63)"
| "variant_printable (VInt i) = (\<bar>i\<bar> < 2 ^ 63)"
| "variant_printable (VDouble d) = False"
| "variant_printable (VBool b) = True"
| "variant_printable (VBlob b) = True"
| "variant_printable (VString s) = True"
| "variant_printable (VDateTime d) = time_prints (RpcDateTime_msecsSinceEpoch d) (RpcDateTime_utcOffsetMin d)"
| "variant_printable (VDecimal d) = (\<bar>dec_mantissa d\<bar> < 2 ^ 63)"
| "variant_printable (VList l) = list_all id (map cpon_printable l)"
| "variant_printable (VMap m) = list_all snd (map (map_prod id cpon_printable) m)"
| "variant_printable (VIMap m) = list_all snd (map (map_prod id cpon_printable) m)"
| "meta_printable (MetaData im sm) \<longleftrightarrow>
     list_all snd (map (map_prod id cpon_printable) im) \<and> list_all snd (map (map_prod id cpon_printable) sm)"

section \<open>Blanks and brackets\<close>

abbreviation blanks :: "string \<Rightarrow> bool" where "blanks \<equiv> list_all blank_char"

lemma skip_blanks: "blanks p \<Longrightarrow> skip_insignificant (p @ s) = skip_insignificant s"
  by (induction p) (simp_all add: skip_insignificant.simps(2))

definition significant :: "string \<Rightarrow> bool" where
  "significant t = (case t of [] \<Rightarrow> False | c # _ \<Rightarrow> \<not> blank_char c \<and> c \<noteq> CHR ''/'')"

lemma skip_significant: "significant (c # s) \<Longrightarrow> skip_insignificant (c # s) = SkipChar c s"
  by (simp add: significant_def skip_insignificant.simps(2))

definition closing :: "char \<Rightarrow> bool" where
  "closing b \<longleftrightarrow> b = CHR '']'' \<or> b = CHR ''}'' \<or> b = CHR ''>''"

lemma blank_stop: "blank_char c \<Longrightarrow> stop_char c"
  by (auto simp: blank_char_def stop_char_def is_digit_def)

lemma stops_blanks: "blanks p \<Longrightarrow> p \<noteq> [] \<Longrightarrow> stops (p @ s)"
  by (cases p) (simp_all add: stops_def blank_stop)

lemma closing_stop: "closing b \<Longrightarrow> stop_char b"
  by (auto simp: closing_def stop_char_def is_digit_def)

lemma stops_closing: "blanks cws \<Longrightarrow> closing b \<Longrightarrow> stops (cws @ b # rest)"
  by (cases cws) (simp_all add: stops_def blank_stop closing_stop)

lemma crd_skip: "blanks p \<Longrightarrow> crd_value n it (p @ s) = crd_value n it s"
  by (cases n) (simp_all add: cread_meta_def skip_blanks)

section \<open>What a reader reads\<close>

definition creads :: "nat \<Rightarrow> string \<Rightarrow> rpc_value \<Rightarrow> bool" where
  "creads n t v \<longleftrightarrow> (\<forall>it rest. citem_finished it \<longrightarrow> stops rest \<longrightarrow>
     (\<exists>it'. crd_value n it (t @ rest) = Some (Inr (v, it', rest)) \<and> citem_finished it' \<and> \<not> is_cend it'))"

text \<open>With fuel for its length.\<close>

definition treads :: "string \<Rightarrow> rpc_value \<Rightarrow> bool" where
  "treads t v \<longleftrightarrow> (\<forall>n. length t \<le> n \<longrightarrow> creads n t v)"

lemma creadsE:
  assumes "creads n t v" and "citem_finished it" and "stops rest"
  obtains it' where "crd_value n it (t @ rest) = Some (Inr (v, it', rest))" "citem_finished it'" "\<not> is_cend it'"
  using assms unfolding creads_def by blast

definition opens :: "string \<Rightarrow> bool" where
  "opens t \<longleftrightarrow> significant t \<and> hd t \<noteq> CHR ''<''"

lemma cread_meta_none:
  assumes "opens t"
  shows "cread_meta rd it (t @ rest) = Some (Inr (meta_empty, it, t @ rest))"
proof -
  obtain c s where t: "t = c # s" using assms by (cases t) (auto simp: opens_def significant_def)
  have "significant (c # s @ rest)" using assms by (simp add: opens_def significant_def t)
  then show ?thesis using assms by (simp add: t cread_meta_def skip_significant opens_def)
qed

lemma unpack_significant: "significant (c # s) \<Longrightarrow> cpon_unpack_fresh (c # s) = cpon_unpack_item c s"
  by (simp add: cpon_unpack_fresh_def skip_significant)

text \<open>Reading the item \<open>it\<close> and what belongs to it gives the variant.\<close>

definition vreads :: "string \<Rightarrow> variant \<Rightarrow> bool" where
  "vreads t x \<longleftrightarrow> opens t \<and> (\<forall>n rest. length t \<le> Suc n \<longrightarrow> stops rest \<longrightarrow>
     (\<exists>it r it'. cpon_unpack_fresh (t @ rest) = Inr (it, r) \<and>
        cread_switch (crd_value n) it r = Some (Inr (rpc x, it', rest)) \<and> citem_finished it' \<and> \<not> is_cend it'))"

lemma attach_no_meta: "attach_meta meta_empty v = Inr v"
  by (simp add: attach_meta_def meta_empty_def RpcMetaData_isEmpty_def RpcMetaData_size_def)

lemma treads_variant: "vreads t x \<Longrightarrow> treads t (rpc x)"
  unfolding treads_def creads_def
proof (intro allI impI)
  fix n it rest
  assume v: "vreads t x" and len: "length t \<le> n" and fin: "citem_finished it" and st: "stops rest"
  have o: "opens t" using v by (simp add: vreads_def)
  then have "t \<noteq> []" by (auto simp: opens_def significant_def)
  with len obtain n' where n: "n = Suc n'" by (cases n) auto
  with v len st obtain it1 r it' where *: "cpon_unpack_fresh (t @ rest) = Inr (it1, r)"
    "cread_switch (crd_value n') it1 r = Some (Inr (rpc x, it', rest))" "citem_finished it'" "\<not> is_cend it'"
    unfolding vreads_def by blast
  then show "\<exists>it'. crd_value n it (t @ rest) = Some (Inr (rpc x, it', rest)) \<and> citem_finished it' \<and> \<not> is_cend it'"
    by (simp add: n cread_meta_none [OF o] unpack_next_fresh [OF fin] attach_no_meta)
qed

lemma rd_closing:
  assumes "blanks cws" and "closing b" and fin: "citem_finished it"
  shows "crd_value (Suc n) it (cws @ b # rest) = Some (Inr (invalid_value, CContainerEnd, rest))"
proof -
  have sig: "significant (b # rest)" "b \<noteq> CHR ''<''" using assms(2) by (auto simp: significant_def closing_def blank_char_def)
  have "cread_meta (crd_value n) it (cws @ b # rest) = Some (Inr (meta_empty, it, b # rest))"
    using sig by (simp add: cread_meta_def skip_blanks [OF assms(1)] skip_significant)
  moreover have "cpon_unpack_fresh (b # rest) = Inr (CContainerEnd, rest)"
    using assms(2) by (auto simp: unpack_significant [OF sig(1)] cpon_unpack_item_def closing_def)
  ultimately show ?thesis by (simp add: unpack_next_fresh [OF fin] cread_switch_def attach_no_meta)
qed

section \<open>Sequences\<close>

text \<open>Elements, each with the delimiter in front of it; only the first delimiter may be empty.\<close>

definition joined :: "(string \<times> string) list \<Rightarrow> string" where
  "joined es = concat (map (\<lambda>(p, t). p @ t) es)"

definition separated :: "(string \<times> string) list \<Rightarrow> bool" where
  "separated es \<longleftrightarrow> list_all (\<lambda>e. blanks (fst e)) es \<and> list_all (\<lambda>e. fst e \<noteq> []) (tl es)"

lemma joined_simps [simp]: "joined [] = []" "joined ((p, t) # es) = p @ t @ joined es" "joined (es @ fs) = joined es @ joined fs"
  by (simp_all add: joined_def)

lemma separated_tl: "separated (e # es) \<Longrightarrow> separated es"
  by (cases es) (auto simp: separated_def)

lemma stops_joined:
  "separated es \<Longrightarrow> (es \<noteq> [] \<Longrightarrow> fst (hd es) \<noteq> []) \<Longrightarrow> blanks cws \<Longrightarrow> closing b \<Longrightarrow> stops (joined es @ cws @ b # rest)"
  by (cases es) (auto simp: separated_def stops_closing intro: stops_blanks)

lemma stops_after: "separated (e # es) \<Longrightarrow> blanks cws \<Longrightarrow> closing b \<Longrightarrow> stops (joined es @ cws @ b # rest)"
  by (rule stops_joined) (auto dest: separated_tl, auto simp: separated_def list_all_iff dest: hd_in_set)

locale cpon_loops =
  fixes n :: nat and b :: char
  assumes close: "closing b"
begin

lemma parseList_reads:
  "citem_finished it \<Longrightarrow> length es < k \<Longrightarrow> separated es \<Longrightarrow> blanks cws \<Longrightarrow> list_all2 (\<lambda>x e. creads (Suc n) (snd e) (c x)) xs es \<Longrightarrow>
   cparseList (crd_value (Suc n)) k lst it (joined es @ cws @ b # rest) = Some (Inr (lst @ map c xs, CInvalid, rest))"
proof (induction es arbitrary: xs k lst it)
  case Nil
  then show ?case by (cases k) (simp_all add: rd_closing close is_cend_def del: crd_value.simps)
next
  case (Cons e es)
  obtain p t where e: "e = (p, t)" by (cases e)
  from Cons.prems obtain x xs' where xs: "xs = x # xs'" "creads (Suc n) t (c x)" "list_all2 (\<lambda>x e. creads (Suc n) (snd e) (c x)) xs' es"
    by (cases xs) (auto simp: e)
  obtain k' where k: "k = Suc k'" using Cons.prems(2) by (cases k) auto
  note st = stops_after [OF Cons.prems(3,4) close, of rest]
  obtain it' where it': "crd_value (Suc n) it (t @ joined es @ cws @ b # rest) = Some (Inr (c x, it', joined es @ cws @ b # rest))"
    "citem_finished it'" "\<not> is_cend it'"
    by (rule creadsE [OF xs(2) Cons.prems(1) st])
  have "blanks p" using Cons.prems(3) by (simp add: separated_def e)
  then show ?case
    using it' Cons.IH [of it' k' xs' "lst @ [c x]"] Cons.prems(2,4) separated_tl [OF Cons.prems(3)] xs
    by (simp add: e k crd_skip del: crd_value.simps)
qed

text \<open>A pair is a key, a colon and a value.\<close>

definition pair_reads :: "rpc_value \<Rightarrow> rpc_value \<Rightarrow> string \<Rightarrow> bool" where
  "pair_reads key val t \<longleftrightarrow> (\<exists>tk tv. t = tk @ CHR '':'' # tv \<and> creads (Suc n) tk key \<and> creads (Suc n) tv val)"

lemma parse_pairs_reads:
  assumes step: "\<And>x a. x \<in> set xs \<Longrightarrow> step (ck x) (cv x) a = Inr (f x a)"
  shows "citem_finished it \<Longrightarrow> length es < k \<Longrightarrow> separated es \<Longrightarrow> blanks cws \<Longrightarrow> list_all2 (\<lambda>x e. pair_reads (ck x) (cv x) (snd e)) xs es \<Longrightarrow>
   cparse_pairs (crd_value (Suc n)) step k a it (joined es @ cws @ b # rest) = Some (Inr (foldl (\<lambda>a x. f x a) a xs, CInvalid, rest))"
  using step
proof (induction es arbitrary: xs k a it)
  case Nil
  then show ?case by (cases k) (simp_all add: rd_closing close is_cend_def del: crd_value.simps)
next
  case (Cons e es)
  obtain p t where e: "e = (p, t)" by (cases e)
  from Cons.prems obtain x xs' where xs: "xs = x # xs'" "pair_reads (ck x) (cv x) t" "list_all2 (\<lambda>x e. pair_reads (ck x) (cv x) (snd e)) xs' es"
    by (cases xs) (auto simp: e)
  then obtain tk tv where t: "t = tk @ CHR '':'' # tv" "creads (Suc n) tk (ck x)" "creads (Suc n) tv (cv x)"
    by (auto simp: pair_reads_def)
  obtain k' where k: "k = Suc k'" using Cons.prems(2) by (cases k) auto
  define rest' where "rest' = joined es @ cws @ b # rest"
  have st: "stops rest'" unfolding rest'_def by (rule stops_after [OF Cons.prems(3,4) close])
  have colon: "stops (CHR '':'' # tv @ rest')" "blanks ''::''" by (simp_all add: stops_def stop_char_def is_digit_def blank_char_def)
  obtain it1 where it1: "crd_value (Suc n) it (tk @ CHR '':'' # tv @ rest') = Some (Inr (ck x, it1, CHR '':'' # tv @ rest'))"
    "citem_finished it1" "\<not> is_cend it1"
    by (rule creadsE [OF t(2) Cons.prems(1) colon(1)])
  obtain it2 where it2: "crd_value (Suc n) it1 (tv @ rest') = Some (Inr (cv x, it2, rest'))" "citem_finished it2" "\<not> is_cend it2"
    by (rule creadsE [OF t(3) it1(2) st])
  have it2': "crd_value (Suc n) it1 (CHR '':'' # tv @ rest') = Some (Inr (cv x, it2, rest'))"
    using crd_skip [of "'':''" "Suc n" it1 "tv @ rest'"] it2(1) colon(2) by (simp del: crd_value.simps)
  have "blanks p" using Cons.prems(3) by (simp add: separated_def e)
  then show ?case
    using it1 it2 it2' Cons.IH [of it2 k' xs' "f x a"] Cons.prems(2,4,6) separated_tl [OF Cons.prems(3)] xs
    by (simp add: e k crd_skip t(1) rest'_def del: crd_value.simps)
qed

end

interpretation list_loops: cpon_loops n "CHR '']''" for n
  by unfold_locales (simp add: closing_def)

interpretation map_loops: cpon_loops n "CHR ''}''" for n
  by unfold_locales (simp add: closing_def)

interpretation meta_loops: cpon_loops n "CHR ''>''" for n
  by unfold_locales (simp add: closing_def)

section \<open>What the writer puts\<close>

definition emit :: "string \<Rightarrow> 'a cpon_ctx_scheme \<Rightarrow> 'a cpon_ctx_scheme" where
  "emit t w = w\<lparr>cx_out := cx_out w @ t\<rparr>"

definition cw_ok :: "cpon_writer \<Rightarrow> bool" where
  "cw_ok w \<longleftrightarrow> cx_rc w = CCPCP_RC_OK \<and> \<not> wr_translate w \<and> \<not> cx_json w \<and> pred_option blanks (cx_indent w)"

lemma put_ok: "cx_rc w = CCPCP_RC_OK \<Longrightarrow> cpon_put t w = emit t w"
  by (simp add: cpon_put_def emit_def)

lemma emit_fields [simp]:
  "cx_rc (emit t w) = cx_rc w" "cx_indent (emit t w) = cx_indent w" "cx_json (emit t w) = cx_json w"
  "cx_nest (emit t w) = cx_nest w" "cx_out (emit t w) = cx_out w @ t"
  by (simp_all add: emit_def)

lemma emit_writer [simp]:
  "wr_translate (emit t w) = wr_translate w" "wr_states (emit t w) = wr_states w" "cw_ok (emit t w) = cw_ok w"
  "cw_ok (w\<lparr>wr_states := st\<rparr>) = cw_ok w" "cw_ok (w\<lparr>cx_nest := k\<rparr>) = cw_ok w"
  by (simp_all add: emit_def cw_ok_def)

lemma emit_emit [simp]: "emit t (emit s w) = emit (s @ t) w"
  by (simp add: emit_def)

lemma update_swap: "w\<lparr>wr_states := st, cx_out := x\<rparr> = w\<lparr>cx_out := x, wr_states := st\<rparr>"
  by (cases w) simp

lemma emit_update: "emit t (w\<lparr>wr_states := st\<rparr>) = (emit t w)\<lparr>wr_states := st\<rparr>"
  "emit t (w\<lparr>cx_nest := k\<rparr>) = (emit t w)\<lparr>cx_nest := k\<rparr>"
  by (simp_all add: emit_def)

lemma blanks_indent: "pred_option blanks (cx_indent w) \<Longrightarrow> blanks (indent_text w o' f)"
  by (cases "cx_indent w") (auto simp: indent_text_def blank_char_def list_all_iff)

lemma next_field_emits:
  assumes "cw_ok w" and "wr_states w = cs # S"
  obtains p where "next_field w = (emit p w)\<lparr>wr_states := cs\<lparr>elementCount := elementCount cs + 1\<rparr> # S\<rparr>"
    "blanks p" "elementCount cs \<noteq> 0 \<longrightarrow> p \<noteq> []"
proof -
  define f where "f = (elementCount cs = 0)"
  define p where "p = (if f then [] else '','') @ indent_text w (isOneLiner cs) f"
  have "next_field w = (emit p w)\<lparr>wr_states := cs\<lparr>elementCount := elementCount cs + 1\<rparr> # S\<rparr>"
    using assms by (cases "cx_indent w") (simp_all add: next_field_def ccpon_pack_field_delim_def indent_element_def
        cpon_put_def cw_ok_def p_def f_def [symmetric] emit_def indent_text_def update_swap)
  moreover have "blanks p" using assms(1) blanks_indent by (auto simp: p_def cw_ok_def blank_char_def)
  moreover have "elementCount cs \<noteq> 0 \<longrightarrow> p \<noteq> []" by (simp add: p_def f_def)
  ultimately show thesis by (rule that)
qed

lemma fields_text:
  assumes g: "\<And>x w. x \<in> set xs \<Longrightarrow> cw_ok w \<Longrightarrow> \<exists>t. g x w = emit t w \<and> P x t"
  shows "cw_ok w \<Longrightarrow> wr_states w = cs # S \<Longrightarrow> 0 \<le> elementCount cs \<Longrightarrow>
    \<exists>es. fold (\<lambda>x w. g x (next_field w)) xs w =
        (emit (joined es) w)\<lparr>wr_states := cs\<lparr>elementCount := elementCount cs + int (length xs)\<rparr> # S\<rparr> \<and>
      list_all2 (\<lambda>x e. P x (snd e)) xs es \<and> separated es \<and> (elementCount cs \<noteq> 0 \<longrightarrow> list_all (\<lambda>e. fst e \<noteq> []) es)"
  using g
proof (induction xs arbitrary: w cs)
  case Nil
  then show ?case by (intro exI [of _ "[]"]) (simp add: emit_def separated_def)
next
  case (Cons x xs)
  obtain p where nf: "next_field w = (emit p w)\<lparr>wr_states := cs\<lparr>elementCount := elementCount cs + 1\<rparr> # S\<rparr>"
    "blanks p" "elementCount cs \<noteq> 0 \<longrightarrow> p \<noteq> []"
    by (rule next_field_emits [OF Cons.prems(1,2)])
  have "cw_ok (next_field w)" using Cons.prems(1) by (simp add: nf(1))
  then obtain t where t: "g x (next_field w) = emit t (next_field w)" "P x t" using Cons.prems(4) by fastforce
  define w1 where "w1 = emit t (next_field w)"
  define cs1 where "cs1 = cs\<lparr>elementCount := elementCount cs + 1\<rparr>"
  have w1: "cw_ok w1" "wr_states w1 = cs1 # S" "0 \<le> elementCount cs1" "elementCount cs1 \<noteq> 0"
    using Cons.prems(1,3) by (simp_all add: w1_def nf(1) cs1_def)
  obtain es where es: "fold (\<lambda>x w. g x (next_field w)) xs w1 =
      (emit (joined es) w1)\<lparr>wr_states := cs1\<lparr>elementCount := elementCount cs1 + int (length xs)\<rparr> # S\<rparr>"
    "list_all2 (\<lambda>x e. P x (snd e)) xs es" "separated es" "list_all (\<lambda>e. fst e \<noteq> []) es"
    using Cons.IH [OF w1(1-3)] Cons.prems(4) w1(4) by auto
  have "fold (\<lambda>x w. g x (next_field w)) (x # xs) w = (emit (joined ((p, t) # es)) w)
      \<lparr>wr_states := cs\<lparr>elementCount := elementCount cs + int (length (x # xs))\<rparr> # S\<rparr>"
    using es(1) by (simp add: t(1) w1_def [symmetric]) (simp add: w1_def nf(1) cs1_def emit_update add.assoc)
  moreover have "separated ((p, t) # es)" using es(3,4) nf(2) by (simp add: separated_def)
  ultimately show ?case
    using es(2,4) nf(3) t(2) by (intro exI [of _ "(p, t) # es"]) simp
qed

section \<open>Scalars\<close>

lemma vreadsI:
  assumes "opens t" and "\<And>rest. stops rest \<Longrightarrow> cpon_unpack_fresh (t @ rest) = Inr (it, rest)"
    and "\<And>n rest. cread_switch (crd_value n) it rest = Some (Inr (rpc x, it, rest))"
    and "citem_finished it" "\<not> is_cend it"
  shows "vreads t x"
  unfolding vreads_def using assms by blast

lemma opens_Cons: "opens (c # s) \<longleftrightarrow> \<not> blank_char c \<and> c \<noteq> CHR ''/'' \<and> c \<noteq> CHR ''<''"
  by (auto simp: opens_def significant_def)

lemma fresh_item: "opens (c # s) \<Longrightarrow> cpon_unpack_fresh (c # s) = cpon_unpack_item c s"
  by (simp add: unpack_significant opens_def)

lemma number_first: "number_start c \<Longrightarrow> opens (c # s) \<and> cpon_unpack_item c s = unpack_number (c # s)"
proof -
  assume n: "number_start c"
  have "c \<notin> {CHR '']'', CHR ''}'', CHR ''>'', CHR ''<'', CHR ''{'', CHR ''['', CHR ''i'', CHR ''a'', CHR ''d'', CHR ''n'',
      CHR ''f'', CHR ''t'', CHR ''x'', CHR ''b'', quote, CHR '':'', CHR '','', CHR ''/''}"
    using n by (auto simp: number_start_def)
  moreover have "\<not> blank_char c" using n by (auto simp: number_start_def blank_char_def)
  ultimately show ?thesis using n by (simp add: opens_Cons cpon_unpack_item_def)
qed

lemma digit_number: "is_digit c \<Longrightarrow> number_start c"
  by (simp add: is_digit_def number_start_def)

lemma number_vreads:
  assumes t: "t \<noteq> []" "number_start (hd t)" and un: "\<And>rest. stops rest \<Longrightarrow> unpack_number (t @ rest) = Inr (it, rest)"
    and sw: "\<And>n rest. cread_switch (crd_value n) it rest = Some (Inr (rpc x, it, rest))"
    and it: "citem_finished it" "\<not> is_cend it"
  shows "vreads t x"
proof -
  obtain c s where c: "t = c # s" "number_start c" using t by (cases t) auto
  have "cpon_unpack_fresh (t @ rest) = Inr (it, rest)" if "stops rest" for rest
    using un [OF that] number_first [OF c(2), of "s @ rest"] by (simp add: c(1) fresh_item)
  moreover have "opens t" using number_first [OF c(2), of s] by (simp add: c(1))
  ultimately show ?thesis using sw it by (intro vreadsI) auto
qed

lemma to_string_nat_start: "to_string_nat n = c # s \<Longrightarrow> number_start c"
  using to_string_nat_is_digit [of n] digit_number [of c] by simp

lemma to_string_int_start: "to_string_int i \<noteq> [] \<and> number_start (hd (to_string_int i))"
  using to_string_nat_nonempty to_string_nat_start
  by (cases "to_string_nat (nat i)") (auto simp: to_string_int_def number_start_def)

lemma vreads_int: "\<bar>i\<bar> < 2 ^ 63 \<Longrightarrow> vreads (to_string_int i) (VInt i)"
  by (rule number_vreads [of _ "CInt i"])
     (simp_all add: to_string_int_start unpack_number_int cread_switch_def is_cend_def)

lemma vreads_uint:
  assumes "unat u < 2 ^ 63"
  shows "vreads (to_string_nat (unat u) @ ''u'') (VUInt u)"
proof (rule number_vreads [of _ "CUInt u"])
  obtain c s where c: "to_string_nat (unat u) = c # s" using to_string_nat_nonempty by (cases "to_string_nat (unat u)") auto
  then show "number_start (hd (to_string_nat (unat u) @ ''u''))" using to_string_nat_start [OF c] by simp
  show "unpack_number ((to_string_nat (unat u) @ ''u'') @ rest) = Inr (CUInt u, rest)" for rest
    using unpack_number_uint [OF assms, of rest] by simp
qed (simp_all add: cread_switch_def is_cend_def)

lemma decimal_body_start:
  assumes "list_all is_digit str" "str \<noteq> []"
  shows "decimal_body str e \<noteq> [] \<and> is_digit (hd (decimal_body str e))"
proof -
  obtain c s where str: "str = c # s" "is_digit c" using assms by (cases str) auto
  have "take k str \<noteq> [] \<and> hd (take k str) = c" if "0 < k" for k using that by (cases k) (simp_all add: str)
  then show ?thesis
    using str by (auto simp: decimal_body_def Let_def hd_append)
qed

lemma vreads_decimal:
  assumes "\<bar>m\<bar> < 2 ^ 63" and "in_s 32 e"
  shows "vreads (ccpcp_decimal_to_string 64 m e) (VDecimal \<lparr>dec_mantissa = canon_mantissa m e, dec_exponent = canon_exponent m e\<rparr>)"
proof (rule number_vreads [of _ "CDecimal (canon_mantissa m e) (canon_exponent m e)"])
  note body = decimal_body_start [OF to_string_nat_is_digit to_string_nat_nonempty, of "nat \<bar>m\<bar>" e]
  then show "ccpcp_decimal_to_string 64 m e \<noteq> []" "number_start (hd (ccpcp_decimal_to_string 64 m e))"
    by (auto simp: decimal_text [OF assms] sign_text_def digit_number, simp add: number_start_def)
qed (simp_all add: unpack_number_decimal [OF assms] cread_switch_def is_cend_def)

lemma vreads_literals: "vreads ''null'' VNull" "vreads ''true'' (VBool True)" "vreads ''false'' (VBool False)"
  by (rule vreadsI [of _ CNull] vreadsI [of _ "CBoolean True"] vreadsI [of _ "CBoolean False"];
      simp add: opens_Cons blank_char_def fresh_item cpon_unpack_item_def take_literal_def cread_switch_def is_cend_def)+

lemma vreads_string: "vreads (quote # concat (map esc_char s) @ [quote]) (VString s)"
  unfolding vreads_def
proof (intro conjI allI impI)
  show o: "opens (quote # concat (map esc_char s) @ [quote])" by (simp add: opens_Cons blank_char_def)
  fix n rest
  obtain s1 s' r1 where *: "next_chunk False (cpon_string_init False) (quote # concat (map esc_char s) @ quote # rest) = Some (s1, r1)"
    "cchunk_loop False [] s1 r1 = Inr (s, s', rest)" "cs_last_chunk s'"
    using data_text.text_reads [of s rest] by blast
  have "cpon_unpack_fresh ((quote # concat (map esc_char s) @ [quote]) @ rest) = Inr (CString s1, r1)"
    using *(1) by (simp add: fresh_item opens_Cons blank_char_def cpon_unpack_item_def next_chunk_def of_opt_def)
  then show "\<exists>it r it'. cpon_unpack_fresh ((quote # concat (map esc_char s) @ [quote]) @ rest) = Inr (it, r) \<and>
      cread_switch (crd_value n) it r = Some (Inr (rpc (VString s), it', rest)) \<and> citem_finished it' \<and> \<not> is_cend it'"
    using *(2,3) by (intro exI [of _ "CString s1"] exI [of _ r1] exI [of _ "CString s'"]) (simp add: cread_switch_def is_cend_def)
qed

lemma vreads_blob: "vreads (CHR ''b'' # quote # concat (map esc_blob_char (string_of_bytes bs)) @ [quote]) (VBlob bs)"
  unfolding vreads_def
proof (intro conjI allI impI)
  let ?t = "CHR ''b'' # quote # concat (map esc_blob_char (string_of_bytes bs)) @ [quote]"
  show o: "opens ?t" by (simp add: opens_Cons blank_char_def)
  fix n rest
  obtain s1 s' r1 where *: "next_chunk True (cpon_string_init False) (quote # concat (map esc_blob_char (string_of_bytes bs)) @ quote # rest) = Some (s1, r1)"
    "cchunk_loop True [] s1 r1 = Inr (string_of_bytes bs, s', rest)" "cs_last_chunk s'"
    using blob_text.text_reads [of "string_of_bytes bs" rest] by blast
  have "cpon_unpack_fresh (?t @ rest) = Inr (CBlob s1, r1)"
    using *(1) by (simp add: fresh_item opens_Cons blank_char_def cpon_unpack_item_def next_chunk_def of_opt_def)
  then show "\<exists>it r it'. cpon_unpack_fresh (?t @ rest) = Inr (it, r) \<and>
      cread_switch (crd_value n) it r = Some (Inr (rpc (VBlob bs), it', rest)) \<and> citem_finished it' \<and> \<not> is_cend it'"
    using *(2,3) by (intro exI [of _ "CBlob s1"] exI [of _ r1] exI [of _ "CBlob s'"]) (simp add: cread_switch_def is_cend_def)
qed

lemma vreads_date_time:
  assumes "date_time_wf d" and "time_prints (RpcDateTime_msecsSinceEpoch d) (RpcDateTime_utcOffsetMin d)"
  shows "vreads (CHR ''d'' # quote # date_time_text (RpcDateTime_msecsSinceEpoch d) (RpcDateTime_utcOffsetMin d) CCPON_Auto True @ [quote])
    (VDateTime d)"
proof (rule vreadsI [of _ "CDateTime (RpcDateTime_msecsSinceEpoch d) (RpcDateTime_utcOffsetMin d)"])
  have "in_s 57 (RpcDateTime_msecsSinceEpoch d)" using assms(1) by (simp add: date_time_wf_def RpcDateTime_msecsSinceEpoch_def)
  then have "in_s 64 (RpcDateTime_msecsSinceEpoch d)" by (rule in_s_mono) simp
  note u = unpack_time_text [OF assms(2) this refl]
  show "cpon_unpack_fresh ((CHR ''d'' # quote # date_time_text (RpcDateTime_msecsSinceEpoch d) (RpcDateTime_utcOffsetMin d) CCPON_Auto True @ [quote]) @ rest)
      = Inr (CDateTime (RpcDateTime_msecsSinceEpoch d) (RpcDateTime_utcOffsetMin d), rest)" for rest
    by (simp add: fresh_item opens_Cons blank_char_def cpon_unpack_item_def unpack_quoted_time_def u take_quote_def)
qed (simp_all add: opens_Cons blank_char_def cread_switch_def is_cend_def fromMSecsSinceEpoch_readback [OF assms(1)])

end
