(* ===== verification/Cpon_Codec.thy ===== *)
theory Cpon_Codec
  imports Cpon_Roundtrip
begin

text \<open>
  The text format as a codec, containers and whole values: what the writer puts for a container is its elements
  between brackets with blanks around them, the loops of the reader get the elements back, and by induction
  every printable value is read back in its normal form.
\<close>

section \<open>Scalars are put\<close>

lemma when_ok_simp: "cw_ok w \<Longrightarrow> when_ok f w = f w"
  by (simp add: when_ok_def cw_ok_def)

lemma cw_put: "cw_ok w \<Longrightarrow> cpon_put t w = emit t w"
  by (simp add: put_ok cw_ok_def)

lemma json_off: "cw_ok w \<Longrightarrow> \<not> cx_json w"
  by (simp add: cw_ok_def)

lemma unat_word_of_int: "0 \<le> j \<Longrightarrow> j < 2 ^ 63 \<Longrightarrow> unat (word_of_int j :: u64) = nat j"
  by (simp add: unsigned_of_int take_bit_int_eq_self)

lemma int_text: "\<bar>i\<bar> < 2 ^ 63 \<Longrightarrow> cpon_int_to_str 32 i = to_string_int i \<and> length (to_string_int i) < 32"
proof -
  assume i: "\<bar>i\<bar> < 2 ^ 63"
  have "nat \<bar>i\<bar> < 2 ^ 64" using i by (simp add: nat_less_iff)
  then have len: "length (to_string_nat (nat \<bar>i\<bar>)) \<le> 20" by (rule u64_digits)
  have "unat (word_of_int (s_wrap 64 (- i)) :: u64) = nat (- i)" if "i < 0"
  proof -
    have w: "s_wrap 64 (- i) = - i" using i that by (intro s_wrap_id) (simp add: in_s_def)
    show ?thesis unfolding w by (rule unat_word_of_int) (use i that in simp_all)
  qed
  then show ?thesis
    using len by (cases "i < 0") (simp_all add: cpon_int_to_str_def Let_def to_string_int_def uint_to_str_eq del: of_int_minus)
qed

lemma uint_text: "uint_to_str 32 (unat (u :: u64)) = to_string_nat (unat u) \<and> length (to_string_nat (unat u)) < 32"
proof -
  have "unat u < 2 ^ 64" using unsigned_less [of u, where 'a = nat] by simp
  from u64_digits [OF this] show ?thesis by (simp add: uint_to_str_eq)
qed

lemma decimal_text_nonempty:
  "\<bar>m\<bar> < 2 ^ 63 \<Longrightarrow> in_s 32 e \<Longrightarrow> ccpcp_decimal_to_string 64 m e \<noteq> []"
  using decimal_body_start [OF to_string_nat_is_digit to_string_nat_nonempty, of "nat \<bar>m\<bar>" e] by (simp add: decimal_text)

lemma emit_int: "cw_ok w \<Longrightarrow> \<bar>i\<bar> < 2 ^ 63 \<Longrightarrow> ccpon_pack_int i w = emit (to_string_int i) w"
  using int_text [of i] by (simp add: ccpon_pack_int_def when_ok_simp INT_STRING_LEN_def cw_put)

lemma emit_string: "cw_ok w \<Longrightarrow> ccpon_pack_string s w = emit (quote # concat (map esc_char s) @ [quote]) w"
  by (simp add: ccpon_pack_string_def copy_data_escaped_def cw_put)

text \<open>A variant is written as a text that reads back.\<close>

definition xwrites :: "variant \<Rightarrow> bool" where
  "xwrites x \<longleftrightarrow> (\<forall>md w. cw_ok w \<longrightarrow> (\<exists>t. cw_variant x md w = emit t w \<and> vreads t (ccanon_variant x)))"

lemma xwritesI: "(\<And>md w. cw_ok w \<Longrightarrow> cw_variant x md w = emit t w) \<Longrightarrow> vreads t (ccanon_variant x) \<Longrightarrow> xwrites x"
  unfolding xwrites_def by blast

lemma xwrites_uint: "unat u < 2 ^ 63 \<Longrightarrow> xwrites (VUInt u)"
  by (rule xwritesI [of _ "to_string_nat (unat u) @ ''u''"])
     (use uint_text [of u] in \<open>simp_all add: ccpon_pack_uint_def when_ok_simp INT_STRING_LEN_def cw_put vreads_uint json_off\<close>)

lemma xwrites_int: "\<bar>i\<bar> < 2 ^ 63 \<Longrightarrow> xwrites (VInt i)"
  by (rule xwritesI [of _ "to_string_int i"]) (simp_all add: emit_int vreads_int)

lemma xwrites_literals: "xwrites VNull" "xwrites VInvalid" "xwrites (VBool b)"
  by (rule xwritesI [of _ "''null''"] xwritesI [of _ "if b then ''true'' else ''false''"];
      simp add: ccpon_pack_null_def ccpon_pack_boolean_def when_ok_simp cw_put vreads_literals)+

lemma xwrites_string: "xwrites (VString s)"
  by (rule xwritesI [of _ "quote # concat (map esc_char s) @ [quote]"]) (simp_all add: emit_string vreads_string)

lemma xwrites_blob: "xwrites (VBlob b)"
  by (rule xwritesI [of _ "CHR ''b'' # quote # concat (map esc_blob_char (string_of_bytes b)) @ [quote]"])
     (simp_all add: vreads_blob ccpon_pack_blob_def ccpon_pack_blob_start_def ccpon_pack_blob_cont_def ccpon_pack_blob_finish_def
        copy_blob_escaped_def cw_put)

lemma xwrites_date_time:
  "date_time_wf d \<Longrightarrow> time_prints (RpcDateTime_msecsSinceEpoch d) (RpcDateTime_utcOffsetMin d) \<Longrightarrow> xwrites (VDateTime d)"
  by (rule xwritesI [of _ "CHR ''d'' # quote # date_time_text (RpcDateTime_msecsSinceEpoch d) (RpcDateTime_utcOffsetMin d) CCPON_Auto True @ [quote]"])
     (simp_all add: vreads_date_time ccpon_pack_date_time_def ccpon_pack_date_time_str_def cw_put)

lemma xwrites_decimal: "decimal_wf d \<Longrightarrow> \<bar>dec_mantissa d\<bar> < 2 ^ 63 \<Longrightarrow> xwrites (VDecimal d)"
  by (rule xwritesI [of _ "ccpcp_decimal_to_string 64 (dec_mantissa d) (dec_exponent d)"])
     (simp_all add: ccpon_pack_decimal_def DECIMAL_STRING_LEN_def decimal_wf_def decimal_text_nonempty cw_put vreads_decimal)

section \<open>Containers are put\<close>

definition opened :: "string \<Rightarrow> container_state \<Rightarrow> cpon_writer \<Rightarrow> cpon_writer" where
  "opened t cs w = (emit t w)\<lparr>cx_nest := cx_nest w + 1, wr_states := cs # wr_states w\<rparr>"

lemma opened_simps [simp]:
  "cw_ok (opened t cs w) = cw_ok w" "wr_states (opened t cs w) = cs # wr_states w"
  "(emit s (opened t cs w))\<lparr>wr_states := cs' # wr_states w\<rparr> = opened (t @ s) cs' w"
  by (simp_all add: opened_def cw_ok_def, cases w, simp add: emit_def)

lemma begin_opens:
  assumes "cw_ok w"
  shows "cpon_writeContainerBegin TList one w = opened ''['' (ContainerState_make TList one) w"
    "cpon_writeContainerBegin TMap one w = opened ''{'' (ContainerState_make TMap one) w"
    "cpon_writeContainerBegin TIMap one w = opened ''i{'' (ContainerState_make TIMap one) w"
    "writeMetaBegin one w = opened ''<'' (ContainerState_make TInvalid one) w"
  using assms
  by (simp_all add: cpon_writeContainerBegin_def writeMetaBegin_def push_state_def ccpon_pack_list_begin_def
      ccpon_pack_map_begin_def ccpon_pack_imap_begin_def ccpon_pack_meta_begin_def when_ok_simp cw_put start_block_def opened_def)

lemma end_emits:
  assumes "cw_ok w"
  shows "\<exists>cws. blanks cws \<and> (when_ok (cpon_put [b] \<circ> end_block one) (opened s cs w))\<lparr>wr_states := wr_states w\<rparr> = emit (s @ cws @ [b]) w"
proof (intro exI conjI)
  show "blanks (indent_text w one True)" using assms blanks_indent by (auto simp: cw_ok_def)
  show "(when_ok (cpon_put [b] \<circ> end_block one) (opened s cs w))\<lparr>wr_states := wr_states w\<rparr> = emit (s @ indent_text w one True @ [b]) w"
    using assms by (cases w; cases "cx_indent w") (simp_all add: when_ok_def cw_ok_def opened_def end_block_def indent_element_def
        cpon_put_def emit_def indent_text_def)
qed

lemma ends_close:
  assumes "cw_ok w"
  shows "containerType cs = TList \<Longrightarrow> \<exists>cws. blanks cws \<and> cpon_writeContainerEnd (opened s cs w) = emit (s @ cws @ '']'') w"
    "containerType cs = TMap \<or> containerType cs = TIMap \<Longrightarrow> \<exists>cws. blanks cws \<and> cpon_writeContainerEnd (opened s cs w) = emit (s @ cws @ ''}'') w"
    "\<exists>cws. blanks cws \<and> writeMetaEnd (opened s cs w) = emit (s @ cws @ ''>'') w"
  using end_emits [OF assms]
  by (auto simp: cpon_writeContainerEnd_def writeMetaEnd_def ccpon_pack_list_end_def ccpon_pack_map_end_def
      ccpon_pack_imap_end_def ccpon_pack_meta_end_def)

text \<open>A block of fields between its begin and its end.\<close>

lemma block_emits:
  assumes w: "cw_ok w"
    and g: "\<And>x w. x \<in> set xs \<Longrightarrow> cw_ok w \<Longrightarrow> \<exists>t. g x w = emit t w \<and> P x t"
    and E: "\<And>s cs. containerType cs = T \<Longrightarrow> \<exists>cws. blanks cws \<and> E (opened s cs w) = emit (s @ cws @ [b]) w"
  shows "\<exists>es cws. E (fold (\<lambda>x w. g x (next_field w)) xs (opened br (ContainerState_make T one) w)) = emit (br @ joined es @ cws @ [b]) w \<and>
    list_all2 (\<lambda>x e. P x (snd e)) xs es \<and> separated es \<and> blanks cws"
proof -
  let ?cs = "ContainerState_make T one"
  obtain es where es: "fold (\<lambda>x w. g x (next_field w)) xs (opened br ?cs w) =
      (emit (joined es) (opened br ?cs w))\<lparr>wr_states := ?cs\<lparr>elementCount := elementCount ?cs + int (length xs)\<rparr> # wr_states w\<rparr>"
    "list_all2 (\<lambda>x e. P x (snd e)) xs es" "separated es"
    using fields_text [where g = g and P = P and xs = xs and w = "opened br ?cs w" and cs = ?cs and S = "wr_states w"] w g
    by (auto simp: ContainerState_make_def)
  moreover obtain cws where "blanks cws"
    "E (opened (br @ joined es) (?cs\<lparr>elementCount := elementCount ?cs + int (length xs)\<rparr>) w) = emit ((br @ joined es) @ cws @ [b]) w"
    using E [of "?cs\<lparr>elementCount := elementCount ?cs + int (length xs)\<rparr>" "br @ joined es"] by (auto simp: ContainerState_make_def)
  ultimately show ?thesis by (intro exI [of _ es] exI [of _ cws]) simp
qed


section \<open>Elements\<close>

text \<open>A value is written as a text that reads back.\<close>

definition vwrites :: "rpc_value \<Rightarrow> bool" where
  "vwrites v \<longleftrightarrow> (\<forall>w. cw_ok w \<longrightarrow> (\<exists>t. cw_value v w = emit t w \<and> treads t (cpon_canon v)))"

text \<open>A pair is put as the text of its key, a colon and the text of its value.\<close>

definition pair_text :: "rpc_value \<Rightarrow> rpc_value \<Rightarrow> string \<Rightarrow> bool" where
  "pair_text key val t \<longleftrightarrow> (\<exists>tk tv. t = tk @ CHR '':'' # tv \<and> treads tk key \<and> treads tv val)"

lemma put_pair:
  assumes "cw_ok w" and k: "\<And>w. cw_ok w \<Longrightarrow> K w = emit tk w" "vreads tk x" and v: "vwrites v"
  shows "\<exists>t. cw_value v (ccpon_pack_key_val_delim (K w)) = emit t w \<and> pair_text (rpc x) (cpon_canon v) t"
proof -
  have "ccpon_pack_key_val_delim (K w) = emit (tk @ '':'') w"
    using assms(1) by (simp add: k(1) ccpon_pack_key_val_delim_def cw_put)
  moreover obtain tv where "cw_value v (emit (tk @ '':'') w) = emit tv (emit (tk @ '':'') w)" "treads tv (cpon_canon v)"
    using v assms(1) unfolding vwrites_def by (metis emit_writer(3))
  ultimately show ?thesis
    using treads_variant [OF k(2)] by (intro exI [of _ "tk @ CHR '':'' # tv"]) (auto simp: pair_text_def)
qed

lemmas put_string_pair = put_pair [OF _ emit_string vreads_string]

lemma put_int_pair:
  assumes "cw_ok w" "in_s 32 k" "vwrites v"
  shows "\<exists>t. cw_value v (ccpon_pack_key_val_delim (ccpon_pack_int k w)) = emit t w \<and> pair_text (rpc (VInt k)) (cpon_canon v) t"
proof -
  have k: "\<bar>k\<bar> < 2 ^ 63" using assms(2) by (auto simp: in_s_def)
  show ?thesis by (rule put_pair [OF assms(1) emit_int [OF _ k] vreads_int [OF k] assms(3)])
qed

lemma next_field_translate [simp]: "wr_translate (next_field w) = wr_translate w"
  by (cases "wr_states w"; cases w) (simp_all add: next_field_def fail_with_def when_ok_def ccpon_pack_field_delim_def
      indent_element_def cpon_put_def)

lemma fold_cong_step: "(\<And>x w. x \<in> set xs \<Longrightarrow> f x w = g x w) \<Longrightarrow> fold f xs w = fold g xs w"
  by (induction xs arbitrary: w) auto

lemma list_elements_fold: "write_list_elements (map cw_value l) w = fold (\<lambda>x w. cw_value x (next_field w)) l w"
  by (simp add: write_list_elements_def fold_map comp_def)

lemma map_elements_fold: "cpon_map_elements (map (map_prod id cw_value) m) w =
    fold (\<lambda>e w. cw_value (snd e) (ccpon_pack_key_val_delim (ccpon_pack_string (fst e) (next_field w)))) m w"
  by (simp add: cpon_map_elements_def fold_map comp_def case_prod_unfold cpon_writeMapKey_def)

text \<open>Integer keys, when ids are not translated.\<close>

definition imap_entry :: "(int \<Rightarrow> rpc_value \<Rightarrow> cpon_writer \<Rightarrow> cpon_writer) \<Rightarrow> int \<times> rpc_value \<Rightarrow> cpon_writer \<Rightarrow> cpon_writer" where
  "imap_entry tr e w = (if wr_translate w then tr (fst e) (snd e) w
     else cw_value (snd e) (ccpon_pack_key_val_delim (ccpon_pack_int (fst e) w)))"

lemma imap_elements_fold:
  obtains tr where "\<And>w. cpon_imap_elements md (map (map_prod id cw_value) m) w = fold (\<lambda>e w. imap_entry tr e (next_field w)) m w"
proof -
  define tr where "tr = (\<lambda>k v. cw_value v \<circ> throwing (RpcMetaData_metaTypeId md) (\<lambda>mtid.
     throwing (RpcMetaData_metaTypeNameSpaceId md) (\<lambda>nsid.
       ccpon_pack_key_val_delim \<circ> with_type nsid mtid (\<lambda>t. put_info (MetaType_keyById t k) k))))"
  have "cpon_imap_elements md (map (map_prod id cw_value) m) w = fold (\<lambda>e w. imap_entry tr e (next_field w)) m w" for w
    unfolding cpon_imap_elements_def fold_map
    by (rule fold_cong_step) (simp add: case_prod_unfold imap_entry_def tr_def translated_key_def cpon_writeIMapKey_def)
  then show thesis by (rule that)
qed

lemma meta_imap_fold:
  obtains tr where "\<And>w. meta_imap_elements md (zip im (map (map_prod id cw_value) im)) w = fold (\<lambda>e w. imap_entry tr e (next_field w)) im w"
proof -
  define tr where "tr = (\<lambda>k v. throwing (RpcMetaData_metaTypeNameSpaceId md) (\<lambda>nsid.
     throwing (RpcMetaData_metaTypeId md) (\<lambda>mtid.
       (if k = Tag_MetaTypeNameSpaceId then throwing (RpcValue_toInt v) (\<lambda>i. with_ns nsid (\<lambda>ns. put_name (ns_name ns) i))
        else if k = Tag_MetaTypeId then throwing (RpcValue_toInt v) (\<lambda>i. with_type nsid i (\<lambda>t. put_name (mt_name t) i))
        else cw_value v) \<circ> ccpon_pack_key_val_delim \<circ> with_type nsid mtid (\<lambda>t. put_info (MetaType_tagById t k) k))))"
  have "meta_imap_elements md (zip im (map (map_prod id cw_value) im)) w = fold (\<lambda>e w. imap_entry tr e (next_field w)) im w" for w
    unfolding meta_imap_elements_def zip_map2 zip_same_conv_map map_map fold_map
    by (rule fold_cong_step) (simp add: case_prod_unfold imap_entry_def tr_def translated_tag_def cpon_writeIMapKey_def)
  then show thesis by (rule that)
qed

lemma imap_entry_put:
  "cw_ok w \<Longrightarrow> in_s 32 (fst e) \<Longrightarrow> vwrites (snd e) \<Longrightarrow>
   \<exists>t. imap_entry tr e w = emit t w \<and> pair_text (rpc (VInt (fst e))) (cpon_canon (snd e)) t"
  using put_int_pair [of w "fst e" "snd e"] by (simp add: imap_entry_def cw_ok_def)

section \<open>Containers are read back\<close>

lemma treads_nonempty: "treads t v \<Longrightarrow> t \<noteq> []"
proof
  assume "treads t v" "t = []"
  then have "creads 0 [] v" by (simp add: treads_def)
  from creadsE [OF this, of CInvalid "[]"] show False by (simp add: stops_def)
qed

lemma joined_member: "e \<in> set es \<Longrightarrow> length (snd e) \<le> length (joined es)"
  by (induction es) auto

lemma length_joined: "(\<And>e. e \<in> set es \<Longrightarrow> snd e \<noteq> []) \<Longrightarrow> length es \<le> length (joined es)"
proof (induction es)
  case (Cons e es)
  moreover obtain p t where "e = (p, t)" by (cases e)
  moreover have "t \<noteq> []" using Cons.prems [of e] calculation(3) by simp
  ultimately show ?case by (cases t) auto
qed simp

lemma list_all2_snd: "list_all2 P xs ys \<Longrightarrow> y \<in> set ys \<Longrightarrow> \<exists>x. P x y"
  by (auto simp: list_all2_conv_all_nth in_set_conv_nth)

lemma creads_elements:
  assumes "list_all2 (\<lambda>x e. treads (snd e) (c x)) xs es" and "length (joined es) \<le> Suc n"
  shows "list_all2 (\<lambda>x e. creads (Suc n) (snd e) (c x)) xs es" "length es \<le> length (joined es)"
proof -
  have "creads (Suc n) (snd e) (c x)" if "e \<in> set es" "treads (snd e) (c x)" for x e
    using that joined_member [OF that(1)] assms(2) by (simp add: treads_def)
  then show "list_all2 (\<lambda>x e. creads (Suc n) (snd e) (c x)) xs es"
    by (rule list.rel_mono_strong [OF assms(1)])
  show "length es \<le> length (joined es)"
    by (rule length_joined) (use list_all2_snd [OF assms(1)] treads_nonempty in blast)
qed

lemma pair_text_nonempty: "pair_text k v t \<Longrightarrow> t \<noteq> []"
  by (auto simp: pair_text_def)

lemma pairs_elements:
  assumes "list_all2 (\<lambda>x e. pair_text (ck x) (cv x) (snd e)) xs es" and "length (joined es) \<le> Suc n"
  shows "list_all2 (\<lambda>x e. cpon_loops.pair_reads n (ck x) (cv x) (snd e)) xs es" "length es \<le> length (joined es)"
proof -
  have "cpon_loops.pair_reads n (ck x) (cv x) (snd e)" if e: "e \<in> set es" "pair_text (ck x) (cv x) (snd e)" for x e
  proof -
    obtain tk tv where "snd e = tk @ CHR '':'' # tv" "treads tk (ck x)" "treads tv (cv x)" using e(2) by (auto simp: pair_text_def)
    moreover from this have "length tk \<le> Suc n" "length tv \<le> Suc n" using joined_member [OF e(1)] assms(2) by simp_all
    ultimately show ?thesis unfolding list_loops.pair_reads_def treads_def by blast
  qed
  then show "list_all2 (\<lambda>x e. cpon_loops.pair_reads n (ck x) (cv x) (snd e)) xs es"
    by (rule list.rel_mono_strong [OF assms(1)])
  show "length es \<le> length (joined es)"
    by (rule length_joined) (use list_all2_snd [OF assms(1)] pair_text_nonempty in blast)
qed

lemma vreads_block:
  assumes "opens (br @ s)"
    and "\<And>n rest. length (br @ s) \<le> Suc (Suc n) \<Longrightarrow> \<exists>it r. cpon_unpack_fresh (br @ s @ rest) = Inr (it, r) \<and>
      cread_switch (crd_value (Suc n)) it r = Some (Inr (rpc x, CInvalid, rest))"
    and "2 \<le> length (br @ s)"
  shows "vreads (br @ s) x"
  unfolding vreads_def
proof (intro conjI allI impI)
  fix n rest
  assume "length (br @ s) \<le> Suc n"
  moreover from this obtain n' where n: "n = Suc n'" using assms(3) by (cases n) auto
  ultimately show "\<exists>it r it'. cpon_unpack_fresh ((br @ s) @ rest) = Inr (it, r) \<and>
      cread_switch (crd_value n) it r = Some (Inr (rpc x, it', rest)) \<and> citem_finished it' \<and> \<not> is_cend it'"
    using assms(2) [of n' rest] by (fastforce simp: n is_cend_def)
qed (rule assms(1))

lemma open_items [simp]:
  "cpon_unpack_fresh (CHR ''['' # s) = Inr (CList, s)" "cpon_unpack_fresh (CHR ''{'' # s) = Inr (CMap, s)"
  "cpon_unpack_fresh (CHR ''i'' # CHR ''{'' # s) = Inr (CIMap, s)" "cpon_unpack_fresh (CHR ''<'' # s) = Inr (CMeta, s)"
  by (simp_all add: cpon_unpack_fresh_def skip_insignificant.simps(2) blank_char_def cpon_unpack_item_def of_opt_def take_literal_def)

lemma vreads_list:
  assumes el: "list_all2 (\<lambda>x e. treads (snd e) (c x)) xs es" and sep: "separated es" and cws: "blanks cws"
  shows "vreads (''['' @ joined es @ cws @ '']'') (VList (map c xs))"
proof (rule vreads_block)
  fix n rest
  assume "length (''['' @ joined es @ cws @ '']'') \<le> Suc (Suc n)"
  then have len: "length (joined es) \<le> Suc n" by simp
  note el' = creads_elements [OF el len]
  have "cparseList (crd_value (Suc n)) (Suc (length (joined es @ cws @ '']'' @ rest))) [] CList (joined es @ cws @ '']'' @ rest) =
      Some (Inr (map c xs, CInvalid, rest))"
    using list_loops.parseList_reads [of CList es "Suc (length (joined es @ cws @ '']'' @ rest))" cws n c xs "[]" rest] el' sep cws
    by (simp del: crd_value.simps cparseList.simps)
  then show "\<exists>it r. cpon_unpack_fresh (''['' @ (joined es @ cws @ '']'') @ rest) = Inr (it, r) \<and>
      cread_switch (crd_value (Suc n)) it r = Some (Inr (rpc (VList (map c xs)), CInvalid, rest))"
    by (simp add: cread_switch_def del: crd_value.simps cparseList.simps)
qed (simp_all add: opens_Cons blank_char_def)

lemma vreads_map:
  assumes el: "list_all2 (\<lambda>x e. pair_text (rpc (VString (fst x))) (c (snd x)) (snd e)) m es"
    and sep: "separated es" and cws: "blanks cws" and wf: "map_wf m"
  shows "vreads (''{'' @ joined es @ cws @ ''}'') (VMap (map (map_prod id c) m))"
proof (rule vreads_block)
  fix n rest
  assume "length (''{'' @ joined es @ cws @ ''}'') \<le> Suc (Suc n)"
  then have len: "length (joined es) \<le> Suc n" by simp
  note el' = pairs_elements [OF el len]
  have "cparseMap (crd_value (Suc n)) (Suc (length (joined es @ cws @ ''}'' @ rest))) CMap (joined es @ cws @ ''}'' @ rest) =
      Some (Inr (map (map_prod id c) m, CInvalid, rest))"
    using map_loops.parse_pairs_reads [of m map_step "\<lambda>x. rpc (VString (fst x))" "\<lambda>x. c (snd x)" "\<lambda>x. map_set (fst x) (c (snd x))"
        CMap es "Suc (length (joined es @ cws @ ''}'' @ rest))" cws n "[]" rest] el' sep cws
    by (simp add: cparseMap_def map_step_def as_defs rebuild_map [OF wf] del: crd_value.simps cparse_pairs.simps)
  then show "\<exists>it r. cpon_unpack_fresh (''{'' @ (joined es @ cws @ ''}'') @ rest) = Inr (it, r) \<and>
      cread_switch (crd_value (Suc n)) it r = Some (Inr (rpc (VMap (map (map_prod id c) m)), CInvalid, rest))"
    by (simp add: cread_switch_def del: crd_value.simps)
qed (simp_all add: opens_Cons blank_char_def)

lemma vreads_imap:
  assumes el: "list_all2 (\<lambda>x e. pair_text (rpc (VInt (fst x))) (c (snd x)) (snd e)) m es"
    and keys: "\<And>x. x \<in> set m \<Longrightarrow> in_s 32 (fst x)"
    and sep: "separated es" and cws: "blanks cws" and wf: "map_wf m"
  shows "vreads (''i{'' @ joined es @ cws @ ''}'') (VIMap (map (map_prod id c) m))"
proof (rule vreads_block)
  fix n rest
  assume "length (''i{'' @ joined es @ cws @ ''}'') \<le> Suc (Suc n)"
  then have len: "length (joined es) \<le> Suc n" by simp
  note el' = pairs_elements [OF el len]
  have "cparseIMap (crd_value (Suc n)) (Suc (length (joined es @ cws @ ''}'' @ rest))) CIMap (joined es @ cws @ ''}'' @ rest) =
      Some (Inr (map (map_prod id c) m, CInvalid, rest))"
    using map_loops.parse_pairs_reads [of m imap_step "\<lambda>x. rpc (VInt (fst x))" "\<lambda>x. c (snd x)" "\<lambda>x. map_set (fst x) (c (snd x))"
        CIMap es "Suc (length (joined es @ cws @ ''}'' @ rest))" cws n "[]" rest] el' sep cws keys
    by (simp add: cparseIMap_def imap_step_def toInt_VInt rebuild_map [OF wf] del: crd_value.simps cparse_pairs.simps)
  then show "\<exists>it r. cpon_unpack_fresh (''i{'' @ (joined es @ cws @ ''}'') @ rest) = Inr (it, r) \<and>
      cread_switch (crd_value (Suc n)) it r = Some (Inr (rpc (VIMap (map (map_prod id c) m)), CInvalid, rest))"
    by (simp add: cread_switch_def del: crd_value.simps)
qed (simp_all add: opens_Cons blank_char_def)

text \<open>Meta data, read from the text of the value on.\<close>

definition mreads :: "string \<Rightarrow> rpc_meta \<Rightarrow> bool" where
  "mreads t md \<longleftrightarrow> 2 \<le> length t \<and> (\<forall>n it rest. length t \<le> Suc (Suc n) \<longrightarrow> citem_finished it \<longrightarrow>
     cread_meta (crd_value (Suc n)) it (t @ rest) = Some (Inr (md, CInvalid, rest)))"

lemma mreads_meta:
  assumes el: "list_all2 (\<lambda>x e. pair_text (meta_key_value x) (c (meta_val x)) (snd e)) (map Inl im @ map Inr sm) es"
    and keys: "\<And>x. x \<in> set im \<Longrightarrow> in_s 32 (fst x)" and valid: "\<And>v. RpcValue_isValid (c v)"
    and sep: "separated es" and cws: "blanks cws" and wf: "map_wf im" "map_wf sm"
  shows "mreads (''<'' @ joined es @ cws @ ''>'') (MetaData (map (map_prod id c) im) (map (map_prod id c) sm))"
  unfolding mreads_def
proof (intro conjI allI impI)
  fix n it rest
  let ?xs = "map Inl im @ map Inr sm" and ?r = "joined es @ cws @ ''>'' @ rest"
  assume "length (''<'' @ joined es @ cws @ ''>'') \<le> Suc (Suc n)" and fin: "citem_finished it"
  then have len: "length (joined es) \<le> Suc n" by simp
  note el' = pairs_elements [OF el len]
  have step: "meta_step (meta_key_value x) (c (meta_val x)) a = Inr (meta_put c x a)" if "x \<in> set ?xs" for x a
    using that keys valid by (fastforce simp: meta_elem_defs meta_step_def toInt_VInt type_test_defs as_defs
        RpcMetaData_setValue_i_def RpcMetaData_setValue_s_def)
  have "cparseMetaData (crd_value (Suc n)) (Suc (length ?r)) CMeta ?r = Some (Inr (foldl (\<lambda>a x. meta_put c x a) meta_empty ?xs, CInvalid, rest))"
    using meta_loops.parse_pairs_reads [of ?xs meta_step meta_key_value "\<lambda>x. c (meta_val x)" "meta_put c"
        CMeta es "Suc (length ?r)" cws n meta_empty rest] el' sep cws step
    by (simp add: cparseMetaData_def del: crd_value.simps cparse_pairs.simps)
  moreover have "foldl (\<lambda>a x. meta_put c x a) meta_empty ?xs = MetaData (map (map_prod id c) im) (map (map_prod id c) sm)"
    using wf by (simp add: meta_empty_def foldl_meta_put rebuild_map)
  ultimately show "cread_meta (crd_value (Suc n)) it ((''<'' @ joined es @ cws @ ''>'') @ rest) =
      Some (Inr (MetaData (map (map_prod id c) im) (map (map_prod id c) sm), CInvalid, rest))"
    by (simp add: cread_meta_def skip_insignificant.simps(2) blank_char_def unpack_next_fresh [OF fin] del: crd_value.simps)
qed simp

section \<open>The round trip\<close>

definition mwrites :: "rpc_meta \<Rightarrow> bool" where
  "mwrites md \<longleftrightarrow> (\<forall>w. cw_ok w \<longrightarrow> (\<exists>t. cw_meta md w = emit t w \<and> mreads t (ccanon_meta md)))"

lemma ccanon_valid: "RpcValue_isValid (cpon_canon v)"
  by (cases v; cases "rv_var v") (simp_all add: type_test_defs)

lemma treads_with_meta:
  assumes meta: "mreads tm md" and ne: "\<not> RpcMetaData_isEmpty md" and x: "vreads tx x" and xv: "RpcValue_isValid (rpc x)"
  shows "treads (tm @ tx) (RpcValue (Some md) x)"
  unfolding treads_def creads_def
proof (intro allI impI)
  fix n it rest
  assume len: "length (tm @ tx) \<le> n" and fin: "citem_finished it" and st: "stops rest"
  have "2 \<le> length tm" using meta by (simp add: mreads_def)
  with len obtain n' where n: "n = Suc (Suc n')" by (cases n; cases "n - 1") auto
  have m: "cread_meta (crd_value (Suc n')) it (tm @ tx @ rest) = Some (Inr (md, CInvalid, tx @ rest))"
    using meta len fin by (simp add: mreads_def n)
  from x len st obtain it1 r it' where *: "cpon_unpack_fresh (tx @ rest) = Inr (it1, r)"
    "cread_switch (crd_value (Suc n')) it1 r = Some (Inr (rpc x, it', rest))" "citem_finished it'" "\<not> is_cend it'"
  proof -
    have "length tx \<le> Suc (Suc n')" using len by (simp add: n)
    then show thesis using x st that unfolding vreads_def by blast
  qed
  moreover have "attach_meta md (rpc x) = Inr (RpcValue (Some md) x)"
    using ne xv by (auto simp: attach_meta_def RpcValue_setMetaData_def RpcValue_isValid_def RpcValue_type_def drop_empty_meta_def)
  ultimately show "\<exists>it'. crd_value n it ((tm @ tx) @ rest) = Some (Inr (RpcValue (Some md) x, it', rest)) \<and> citem_finished it' \<and> \<not> is_cend it'"
    using m by (simp add: n unpack_next_fresh del: crd_value.simps(2)) (simp add: crd_value.simps(2) [of "Suc n'"] unpack_next_fresh del: crd_value.simps(2))
qed

lemma xwrites_list:
  assumes "\<And>x. x \<in> set l \<Longrightarrow> vwrites x"
  shows "xwrites (VList l)"
  unfolding xwrites_def
proof (intro allI impI)
  fix md w
  assume w: "cw_ok w"
  obtain es cws where *: "cpon_writeContainerEnd (fold (\<lambda>x w. cw_value x (next_field w)) l
      (opened ''['' (ContainerState_make TList (is_oneline_list l)) w)) = emit (''['' @ joined es @ cws @ '']'') w"
    "list_all2 (\<lambda>x e. treads (snd e) (cpon_canon x)) l es" "separated es" "blanks cws"
    using block_emits [OF w, where g = cw_value and xs = l and P = "\<lambda>x t. treads t (cpon_canon x)" and T = TList
        and E = cpon_writeContainerEnd and br = "''[''" and one = "is_oneline_list l" and b = "CHR '']''"]
      assms [unfolded vwrites_def] ends_close(1) [OF w] by auto
  then show "\<exists>t. cw_variant (VList l) md w = emit t w \<and> vreads t (ccanon_variant (VList l))"
    using vreads_list [OF *(2-4)] by (intro exI [of _ "''['' @ joined es @ cws @ '']''"]) (simp add: list_elements_fold begin_opens [OF w])
qed

lemma xwrites_map:
  assumes "\<And>e. e \<in> set m \<Longrightarrow> vwrites (snd e)" and wf: "map_wf m"
  shows "xwrites (VMap m)"
  unfolding xwrites_def
proof (intro allI impI)
  fix md w
  assume w: "cw_ok w"
  let ?g = "\<lambda>e w. cw_value (snd e) (ccpon_pack_key_val_delim (ccpon_pack_string (fst e) w))"
  obtain es cws where *: "cpon_writeContainerEnd (fold (\<lambda>x w. ?g x (next_field w)) m
      (opened ''{'' (ContainerState_make TMap (is_oneline_map m)) w)) = emit (''{'' @ joined es @ cws @ ''}'') w"
    "list_all2 (\<lambda>x e. pair_text (rpc (VString (fst x))) (cpon_canon (snd x)) (snd e)) m es" "separated es" "blanks cws"
    using block_emits [OF w, where g = ?g and xs = m and P = "\<lambda>x t. pair_text (rpc (VString (fst x))) (cpon_canon (snd x)) t"
        and T = TMap and E = cpon_writeContainerEnd and br = "''{''" and one = "is_oneline_map m" and b = "CHR ''}''"]
      assms(1) ends_close(2) [OF w] put_string_pair by auto
  then show "\<exists>t. cw_variant (VMap m) md w = emit t w \<and> vreads t (ccanon_variant (VMap m))"
    using vreads_map [OF *(2-4) wf] by (intro exI [of _ "''{'' @ joined es @ cws @ ''}''"]) (simp add: map_elements_fold begin_opens [OF w])
qed

lemma xwrites_imap:
  assumes e: "\<And>e. e \<in> set m \<Longrightarrow> in_s 32 (fst e) \<and> vwrites (snd e)" and wf: "map_wf m"
  shows "xwrites (VIMap m)"
  unfolding xwrites_def
proof (intro allI impI)
  fix md w
  assume w: "cw_ok w"
  obtain tr where tr: "\<And>w. cpon_imap_elements md (map (map_prod id cw_value) m) w = fold (\<lambda>e w. imap_entry tr e (next_field w)) m w"
    using imap_elements_fold by blast
  obtain es cws where *: "cpon_writeContainerEnd (fold (\<lambda>x w. imap_entry tr x (next_field w)) m
      (opened ''i{'' (ContainerState_make TIMap (is_oneline_map m)) w)) = emit (''i{'' @ joined es @ cws @ ''}'') w"
    "list_all2 (\<lambda>x e. pair_text (rpc (VInt (fst x))) (cpon_canon (snd x)) (snd e)) m es" "separated es" "blanks cws"
    using block_emits [OF w, where g = "imap_entry tr" and xs = m and P = "\<lambda>x t. pair_text (rpc (VInt (fst x))) (cpon_canon (snd x)) t"
        and T = TIMap and E = cpon_writeContainerEnd and br = "''i{''" and one = "is_oneline_map m" and b = "CHR ''}''"]
      e ends_close(2) [OF w] imap_entry_put by auto
  then show "\<exists>t. cw_variant (VIMap m) md w = emit t w \<and> vreads t (ccanon_variant (VIMap m))"
    using vreads_imap [OF *(2) _ *(3,4) wf] e by (intro exI [of _ "''i{'' @ joined es @ cws @ ''}''"]) (simp add: tr begin_opens [OF w])
qed

text \<open>Meta data: both kinds of entries, in one run of fields.\<close>

lemma mwrites_meta:
  assumes i: "\<And>e. e \<in> set im \<Longrightarrow> in_s 32 (fst e) \<and> vwrites (snd e)" and s: "\<And>e. e \<in> set sm \<Longrightarrow> vwrites (snd e)"
    and wf: "map_wf im" "map_wf sm" and ne: "\<not> (im = [] \<and> sm = [])"
  shows "mwrites (MetaData im sm)"
  unfolding mwrites_def
proof (intro allI impI)
  fix w
  assume w: "cw_ok w"
  let ?md = "MetaData im sm"
  obtain tr where tr: "\<And>w. meta_imap_elements ?md (zip im (map (map_prod id cw_value) im)) w = fold (\<lambda>e w. imap_entry tr e (next_field w)) im w"
    using meta_imap_fold by blast
  define g where "g = case_sum (imap_entry tr) (\<lambda>e w. cw_value (snd e) (ccpon_pack_key_val_delim (ccpon_pack_string (fst e) w)))"
  have "\<exists>t. g x w = emit t w \<and> pair_text (meta_key_value x) (cpon_canon (meta_val x)) t"
    if "x \<in> set (map Inl im @ map Inr sm)" "cw_ok w" for x w
  proof (cases x)
    case (Inl e)
    then show ?thesis using that imap_entry_put [of w e tr] i by (auto simp: g_def meta_elem_defs case_prod_unfold)
  next
    case (Inr e)
    then show ?thesis using that put_string_pair [of w "snd e" "fst e"] s by (auto simp: g_def meta_elem_defs case_prod_unfold)
  qed
  then obtain es cws where *: "writeMetaEnd (fold (\<lambda>x w. g x (next_field w)) (map Inl im @ map Inr sm)
      (opened ''<'' (ContainerState_make TInvalid (is_oneline_meta ?md)) w)) = emit (''<'' @ joined es @ cws @ ''>'') w"
    "list_all2 (\<lambda>x e. pair_text (meta_key_value x) (cpon_canon (meta_val x)) (snd e)) (map Inl im @ map Inr sm) es" "separated es" "blanks cws"
    using block_emits [OF w, where g = g and xs = "map Inl im @ map Inr sm" and P = "\<lambda>x t. pair_text (meta_key_value x) (cpon_canon (meta_val x)) t"
        and T = TInvalid and E = writeMetaEnd and br = "''<''" and one = "is_oneline_meta ?md" and b = "CHR ''>''"]
      ends_close(3) [OF w] by auto
  moreover have "cw_meta ?md w = writeMetaEnd (fold (\<lambda>x w. g x (next_field w)) (map Inl im @ map Inr sm)
      (opened ''<'' (ContainerState_make TInvalid (is_oneline_meta ?md)) w))"
    using ne by (auto simp add: tr begin_opens [OF w] map_elements_fold g_def fold_map comp_def)
  ultimately show "\<exists>t. cw_meta ?md w = emit t w \<and> mreads t (ccanon_meta ?md)"
    using mreads_meta [of cpon_canon im sm es cws] * i ccanon_valid wf by (intro exI [of _ "''<'' @ joined es @ cws @ ''>''"]) simp
qed

lemma pairs_printable:
  "smap_ok sm \<Longrightarrow> list_all snd (map (map_prod id cpon_printable) sm) \<Longrightarrow> (ks, v) \<in> set sm \<Longrightarrow> rpc_wf v \<and> cpon_printable v"
  "imap_ok im \<Longrightarrow> list_all snd (map (map_prod id cpon_printable) im) \<Longrightarrow> (ki, v) \<in> set im \<Longrightarrow>
    rpc_wf v \<and> cpon_printable v \<and> in_s 32 ki"
  by (fastforce simp: smap_ok_def imap_ok_def list_all_iff)+

lemma ccanon_meta_empty: "RpcMetaData_isEmpty (ccanon_meta md) = RpcMetaData_isEmpty md"
  by (cases md) (simp add: RpcMetaData_isEmpty_def RpcMetaData_size_def)

lemma cw_meta_empty: "RpcMetaData_isEmpty md \<Longrightarrow> cw_meta md w = w"
  by (cases md) (simp add: RpcMetaData_isEmpty_def RpcMetaData_size_def)

lemma vwrites_value:
  assumes x: "xwrites x" and m: "\<And>md. m = Some md \<Longrightarrow> \<not> RpcMetaData_isEmpty md \<Longrightarrow> mwrites md"
  shows "vwrites (RpcValue m x)"
  unfolding vwrites_def
proof (intro allI impI)
  fix w
  assume w: "cw_ok w"
  let ?md = "case m of None \<Rightarrow> meta_empty | Some md \<Rightarrow> md"
  show "\<exists>t. cw_value (RpcValue m x) w = emit t w \<and> treads t (cpon_canon (RpcValue m x))"
  proof (cases "\<exists>md. m = Some md \<and> \<not> RpcMetaData_isEmpty md")
    case True
    then obtain md where md: "m = Some md" "\<not> RpcMetaData_isEmpty md" by blast
    obtain tm where tm: "cw_meta md w = emit tm w" "mreads tm (ccanon_meta md)" using m [OF md] w by (auto simp: mwrites_def)
    have "cw_ok (emit tm w)" using w by simp
    then obtain tx where tx: "cw_variant x md (emit tm w) = emit tx (emit tm w)" "vreads tx (ccanon_variant x)"
      using x unfolding xwrites_def by blast
    have "RpcValue_isValid (rpc (ccanon_variant x))" using ccanon_valid [of "rpc x"] by (simp add: drop_empty_meta_def)
    then have "treads (tm @ tx) (RpcValue (Some (ccanon_meta md)) (ccanon_variant x))"
      using tm(2) tx(2) md(2) by (intro treads_with_meta) (simp_all add: ccanon_meta_empty)
    then show ?thesis
      using md by (intro exI [of _ "tm @ tx"]) (simp add: tm(1) tx(1) drop_empty_meta_def ccanon_meta_empty)
  next
    case False
    then have "cw_value (RpcValue m x) w = cw_variant x ?md w" "cpon_canon (RpcValue m x) = rpc (ccanon_variant x)"
      by (auto simp: cw_meta_empty drop_empty_meta_def ccanon_meta_empty split: option.splits)
    then show ?thesis using x w treads_variant unfolding xwrites_def by metis
  qed
qed

lemma writes_aux:
  "rpc_wf v \<Longrightarrow> cpon_printable v \<Longrightarrow> vwrites v"
  "variant_wf x \<Longrightarrow> variant_printable x \<Longrightarrow> xwrites x"
  "meta_wf md \<Longrightarrow> meta_printable md \<Longrightarrow> \<not> RpcMetaData_isEmpty md \<Longrightarrow> mwrites md"
proof (induction v and x and md rule: rpc_value.induct variant.induct rpc_meta.induct)
  case (RpcValue m x)
  then show ?case by (intro vwrites_value) auto
next
  case (VList l)
  then show ?case by (intro xwrites_list) (auto simp: list_all_iff)
next
  case (VMap m)
  have "vwrites (snd e)" if "e \<in> set m" for e
    using VMap.IH [of e "snd e"] pairs_printable(1) [of m "fst e" "snd e"] VMap.prems that
    by (cases e) auto
  then show ?case using VMap.prems(1) by (intro xwrites_map) (auto simp: smap_ok_def)
next
  case (VIMap m)
  have "in_s 32 (fst e) \<and> vwrites (snd e)" if "e \<in> set m" for e
    using VIMap.IH [of e "snd e"] pairs_printable(2) [of m "fst e" "snd e"] VIMap.prems that
    by (cases e) auto
  then show ?case using VIMap.prems(1) by (intro xwrites_imap) (auto simp: imap_ok_def)
next
  case (MetaData im sm)
  have "in_s 32 (fst e) \<and> vwrites (snd e)" if "e \<in> set im" for e
    using MetaData.IH(1) [of e "snd e"] pairs_printable(2) [of im "fst e" "snd e"] MetaData.prems that
    by (cases e) auto
  moreover have "vwrites (snd e)" if "e \<in> set sm" for e
    using MetaData.IH(2) [of e "snd e"] pairs_printable(1) [of sm "fst e" "snd e"] MetaData.prems that
    by (cases e) auto
  ultimately show ?case using MetaData.prems
    by (intro mwrites_meta) (auto simp: imap_ok_def smap_ok_def RpcMetaData_isEmpty_def RpcMetaData_size_def)
qed (simp_all add: xwrites_literals xwrites_uint xwrites_int xwrites_blob xwrites_string xwrites_date_time xwrites_decimal)

text \<open>The round trip in front of anything that ends a number.\<close>

lemma text_reads_back:
  assumes "rpc_wf v" "cpon_printable v" and "blanks indent"
  obtains t where "RpcValue_toCpon rg indent v = Inr t"
    "\<And>rest. stops rest \<Longrightarrow> \<exists>it. CponReader_read CInvalid (t @ rest) = Inr (cpon_canon v, it, rest)"
proof -
  define w where "w = CponWriter_make rg (CponWriterOptions_setIndent indent (CponWriterOptions_setTranslateIds False CponWriterOptions_default))"
  have w: "cw_ok w" "cx_out w = []"
    using assms(3) by (simp_all add: w_def cw_ok_def CponWriter_make_def CponWriterOptions_setIndent_def
        CponWriterOptions_setTranslateIds_def CponWriterOptions_default_def)
  obtain t where t: "cw_value v w = emit t w" "treads t (cpon_canon v)"
    using writes_aux(1) [OF assms(1,2)] w(1) unfolding vwrites_def by blast
  have "RpcValue_toCpon rg indent v = Inr t"
    using t(1) w by (simp add: RpcValue_toCpon_def w_def [symmetric] written_def cw_ok_def)
  moreover have "\<exists>it. CponReader_read CInvalid (t @ rest) = Inr (cpon_canon v, it, rest)" if "stops rest" for rest
  proof -
    have "creads (Suc (length (t @ rest))) t (cpon_canon v)" using t(2) by (simp add: treads_def)
    from creadsE [OF this citem_finished_simps(1) that] obtain it
      where "crd_value (Suc (length (t @ rest))) CInvalid (t @ rest) = Some (Inr (cpon_canon v, it, rest))" .
    then show ?thesis unfolding CponReader_read_def run_crd_def by (intro exI [of _ it]) (simp del: crd_value.simps)
  qed
  ultimately show thesis by (rule that)
qed

section \<open>Unsigned numbers beyond the signed range\<close>

lemma add_digit_either:
  "ri_overflow res \<or> ri_value res = int v \<Longrightarrow> is_digit c \<Longrightarrow>
   ri_overflow (add_digit 10 (int (digit_val c)) res) \<or> ri_value (add_digit 10 (int (digit_val c)) res) = int (10 * v + digit_val c)"
  "ri_digit_cnt res \<le> ri_digit_cnt (add_digit 10 (int (digit_val c)) res)"
  "ri_signum (add_digit 10 (int (digit_val c)) res) = ri_signum res"
  by (auto simp: add_digit_def)

lemma int_loop_digits_either:
  "list_all is_digit s \<Longrightarrow> ri_overflow res \<or> ri_value res = int v \<Longrightarrow> \<exists>res'.
   int_loop 10 sg n res (s @ r) = int_loop 10 sg (n + length s) res' r \<and>
   (ri_overflow res' \<or> ri_value res' = int (dval v s)) \<and> ri_digit_cnt res \<le> ri_digit_cnt res' \<and> ri_signum res' = ri_signum res"
proof (induction s arbitrary: v res n)
  case Nil
  then show ?case by auto
next
  case (Cons c s)
  let ?res = "add_digit 10 (int (digit_val c)) res"
  have c: "is_digit c" "list_all is_digit s" using Cons.prems(1) by simp_all
  obtain res' where res': "int_loop 10 sg (Suc n) ?res (s @ r) = int_loop 10 sg (Suc n + length s) res' r"
    "ri_overflow res' \<or> ri_value res' = int (dval (10 * v + digit_val c) s)" "ri_digit_cnt ?res \<le> ri_digit_cnt res'"
    "ri_signum res' = ri_signum ?res"
    using Cons.IH [OF c(2) add_digit_either(1) [OF Cons.prems(2) c(1)]] by blast
  have "int_loop 10 sg n res ((c # s) @ r) = int_loop 10 sg (Suc n) ?res (s @ r)"
    using not_digit_special [OF c(1)] c(1) by (simp add: digit_of_10)
  then show ?case
    using res' add_digit_either(2) [where res = res and c = c] add_digit_either(3) [where res = res and c = c] by (intro exI [of _ res']) auto
qed

lemma unpack_big_digits:
  assumes s: "list_all is_digit s" "s \<noteq> []" and big: "2 ^ 63 \<le> dval 0 s" and r: "digit_stop r"
  shows "\<exists>res n. unpack_int_to_result 0 (s @ r) = (res, n, r) \<and> ri_overflow res \<and> 0 < ri_digit_cnt res"
proof -
  define res0 where "res0 = \<lparr>ri_value = 0, ri_digit_cnt = 0, ri_signum = 1, ri_overflow = False\<rparr>"
  obtain c s' where c: "s = c # s'" "is_digit c" "list_all is_digit s'" using s by (cases s) auto
  let ?res = "add_digit 10 (int (digit_val c)) res0"
  have d: "digit_val c \<le> 9" using digit_val_le [OF c(2)] .
  have r1: "ri_value ?res = int (digit_val c)" "ri_digit_cnt ?res = 1" using d by (simp_all add: add_digit_def res0_def in_s_def)
  then have "ri_overflow ?res \<or> ri_value ?res = int (digit_val c)" by simp
  from int_loop_digits_either [OF c(3) this] obtain res' where res': "int_loop 10 False 1 ?res (s' @ r) = int_loop 10 False (1 + length s') res' r"
    "ri_overflow res' \<or> ri_value res' = int (dval (digit_val c) s')" "ri_digit_cnt ?res \<le> ri_digit_cnt res'" by blast
  have "int_loop 10 False 0 res0 (s @ r) = int_loop 10 False 1 ?res (s' @ r)"
    using not_digit_special [OF c(2)] c(2) by (simp add: c(1) digit_of_10)
  then have u: "unpack_int_to_result 0 (s @ r) = (res', 1 + length s', r)"
    using res'(1) int_loop_stop [OF r, of "1 + length s'" False res'] by (simp add: unpack_int_to_result_def res0_def)
  have "in_u63 (ri_value res')" by (rule unpack_int_to_result_range [OF u]) (simp add: in_u63_def INT64_MAX_def)
  moreover have "dval (digit_val c) s' = dval 0 s" by (simp add: c(1))
  ultimately have "ri_overflow res'" using res'(2) big by (auto simp: in_u63_def INT64_MAX_def)
  then show ?thesis using u res'(3) r1(2) by auto
qed

lemma unpack_big_uint:
  assumes "2 ^ 63 \<le> unat u"
  shows "unpack_number (to_string_nat (unat u) @ CHR ''u'' # r) = Inr (CUInt (word_of_int INT64_MAX), r)"
proof -
  have "2 ^ 63 \<le> dval 0 (to_string_nat (unat u))" using assms by (simp add: dval_to_string)
  from unpack_big_digits [OF to_string_nat_is_digit to_string_nat_nonempty this, of "CHR ''u'' # r"] obtain res n where
    "unpack_int_to_result 0 (to_string_nat (unat u) @ CHR ''u'' # r) = (res, n, CHR ''u'' # r)" "ri_overflow res" "0 < ri_digit_cnt res"
    by (auto simp: digit_stop_Cons is_digit_def)
  then show ?thesis by (simp add: unpack_number_def uint_item_def)
qed

lemma big_uint_saturates:
  assumes "2 ^ 63 \<le> unat u" and "blanks indent"
  shows "\<exists>t. RpcValue_toCpon rg indent (rpc (VUInt u)) = Inr t \<and> RpcValue_fromCpon t = Inr (rpc (VUInt (word_of_int INT64_MAX)))"
proof -
  define w where "w = CponWriter_make rg (CponWriterOptions_setIndent indent (CponWriterOptions_setTranslateIds False CponWriterOptions_default))"
  let ?t = "to_string_nat (unat u) @ ''u''"
  have w: "cw_ok w" "cx_out w = []"
    using assms(2) by (simp_all add: w_def cw_ok_def CponWriter_make_def CponWriterOptions_setIndent_def
        CponWriterOptions_setTranslateIds_def CponWriterOptions_default_def)
  have "cw_value (rpc (VUInt u)) w = emit ?t w"
    using w(1) uint_text [of u] by (simp add: ccpon_pack_uint_def when_ok_simp INT_STRING_LEN_def cw_put json_off)
  then have "RpcValue_toCpon rg indent (rpc (VUInt u)) = Inr ?t"
    using w by (simp add: RpcValue_toCpon_def w_def [symmetric] written_def cw_ok_def)
  moreover have "vreads ?t (VUInt (word_of_int INT64_MAX))"
  proof (rule number_vreads [of _ "CUInt (word_of_int INT64_MAX)"])
    obtain c s where c: "to_string_nat (unat u) = c # s" using to_string_nat_nonempty by (cases "to_string_nat (unat u)") auto
    then show "number_start (hd ?t)" using to_string_nat_start [OF c] by simp
    show "unpack_number (?t @ rest) = Inr (CUInt (word_of_int INT64_MAX), rest)" for rest
      using unpack_big_uint [OF assms(1), of rest] by simp
  qed (simp_all add: cread_switch_def is_cend_def)
  then have "creads (Suc (length ?t)) ?t (rpc (VUInt (word_of_int INT64_MAX)))" using treads_variant by (simp add: treads_def)
  from creadsE [OF this citem_finished_simps(1), of "[]"] obtain it where
    "crd_value (Suc (length ?t)) CInvalid (?t @ []) = Some (Inr (rpc (VUInt (word_of_int INT64_MAX)), it, []))" by (auto simp: stops_def)
  then have "RpcValue_fromCpon ?t = Inr (rpc (VUInt (word_of_int INT64_MAX)))"
    by (simp add: RpcValue_fromCpon_def CponReader_read_def run_crd_def del: crd_value.simps)
  ultimately show ?thesis by blast
qed

end
