(* ===== verification/Value_Nodes.thy ===== *)
theory Value_Nodes
  imports Shv_Node Chp_Utils Cpon_Codec
begin

text \<open>
  Nodes that hold values (\<open>libshviotqt/src/node/shvnode.cpp\<close>): \<open>RpcValueMapNode\<close>, a tree of nested maps;
  \<open>RpcValueConfigNode\<close>, which layers the values a user has changed over a template and stores the difference; and
  \<open>ValueProxyShvNode\<close>, a property of another object.
\<close>

section \<open>Nested maps\<close>

definition METH_GET :: string where "METH_GET = ''get''"
definition METH_SET :: string where "METH_SET = ''set''"
definition M_LOAD :: string where "M_LOAD = ''loadFile''"
definition M_SAVE :: string where "M_SAVE = ''saveFile''"
definition M_COMMIT :: string where "M_COMMIT = ''commitChanges''"

abbreviation Flag_None :: u32 where "Flag_None \<equiv> 0"
abbreviation Flag_IsGetter :: u32 where "Flag_IsGetter \<equiv> 2"
abbreviation Flag_IsSetter :: u32 where "Flag_IsSetter \<equiv> 4"

definition mm5 :: "string \<Rightarrow> u32 \<Rightarrow> string \<Rightarrow> string \<Rightarrow> access_level \<Rightarrow> meta_method" where
  "mm5 name flags param result level = MetaMethod_make name flags (Some param) (Some result) level [] [] [] []"

definition meta_methods_value_map_root_node :: "meta_method list" where
  "meta_methods_value_map_root_node = [methods_DIR, methods_LS]"

definition meta_methods_value_map_node :: "meta_method list" where
  "meta_methods_value_map_node =
     [methods_DIR, methods_LS, mm5 METH_GET Flag_IsGetter [] ''RpcValue'' AccessLevel_Read,
      mm5 METH_SET Flag_IsSetter ''RpcValue'' ''Bool'' AccessLevel_Config]"

text \<open>\<open>valueOnPath\<close>: the whole path is in the text of the exception.\<close>

fun value_walk :: "rpc_value \<Rightarrow> string list \<Rightarrow> rpc_value" where
  "value_walk v [] = v"
| "value_walk v (dir # l) =
     (let v = RpcMap_value (RpcValue_asMap v) dir invalid_value in if RpcValue_isValid v then value_walk v l else v)"

definition valueOnPath_in :: "rpc_value \<Rightarrow> string list \<Rightarrow> bool \<Rightarrow> exn + rpc_value" where
  "valueOnPath_in val shv_path throw_exc =
     (let v = value_walk val shv_path
      in if shv_path \<noteq> [] \<and> \<not> RpcValue_isValid v \<and> throw_exc
         then Inl (ShvException (''Invalid path: '' @ StringViewList_join shv_path ''/''))
         else Inr v)"

text \<open>\<open>load\<close> is the virtual \<open>loadValues\<close>, where it returns.\<close>

record value_map_node =
  vm_valuesLoaded :: bool
  vm_values :: rpc_value
  vm_readOnly :: bool

definition RpcValueMapNode_loadValues :: "value_map_node \<Rightarrow> value_map_node" where
  "RpcValueMapNode_loadValues n = n\<lparr>vm_valuesLoaded := True\<rparr>"

definition RpcValueMapNode_values :: "('a value_map_node_scheme \<Rightarrow> 'a value_map_node_scheme) \<Rightarrow> 'a value_map_node_scheme \<Rightarrow> 'a value_map_node_scheme" where
  "RpcValueMapNode_values load n = (if \<not> vm_valuesLoaded n then load n else n)"

definition RpcValueMapNode_clearValuesCache :: "'a value_map_node_scheme \<Rightarrow> 'a value_map_node_scheme" where
  "RpcValueMapNode_clearValuesCache n = n\<lparr>vm_valuesLoaded := False\<rparr>"

definition RpcValueMapNode_valueOnPath ::
  "('a value_map_node_scheme \<Rightarrow> 'a value_map_node_scheme) \<Rightarrow> string list \<Rightarrow> bool \<Rightarrow> 'a value_map_node_scheme \<Rightarrow>
   (exn + rpc_value) \<times> 'a value_map_node_scheme" where
  "RpcValueMapNode_valueOnPath load shv_path throw_exc n =
     (let n = RpcValueMapNode_values load n in (valueOnPath_in (vm_values n) shv_path throw_exc, n))"

text \<open>
  \<open>setValueOnPath\<close> takes a copy of the values, walks down in it, and sets the key in what it has found: values
  are copied on write, so the local \<open>v\<close> is all that changes.  It is returned here beside the node.
\<close>

definition RpcValueMapNode_setValueOnPath ::
  "('a value_map_node_scheme \<Rightarrow> 'a value_map_node_scheme) \<Rightarrow> string list \<Rightarrow> rpc_value \<Rightarrow> 'a value_map_node_scheme \<Rightarrow>
   (exn + rpc_value) \<times> 'a value_map_node_scheme" where
  "RpcValueMapNode_setValueOnPath load shv_path val n =
     (let n = RpcValueMapNode_values load n
      in if shv_path = [] then (Inl (ShvException ''Empty path''), n)
         else
           (let v = value_walk (vm_values n) (butlast shv_path)
            in if butlast shv_path \<noteq> [] \<and> \<not> RpcValue_isValid v
               then (Inl (ShvException (''Invalid path: '' @ StringViewList_join shv_path ''/'')), n)
               else (Inr (RpcValue_set_s (last shv_path) val v), n)))"

definition RpcValueMapNode_isDir ::
  "('a value_map_node_scheme \<Rightarrow> 'a value_map_node_scheme) \<Rightarrow> string list \<Rightarrow> 'a value_map_node_scheme \<Rightarrow> (exn + bool) \<times> 'a value_map_node_scheme" where
  "RpcValueMapNode_isDir load shv_path n =
     map_prod (map_sum id RpcValue_isMap) id (RpcValueMapNode_valueOnPath load shv_path True n)"

definition RpcValueMapNode_methods ::
  "('a value_map_node_scheme \<Rightarrow> 'a value_map_node_scheme) \<Rightarrow> string list \<Rightarrow> 'a value_map_node_scheme \<Rightarrow>
   (exn + meta_method list) \<times> 'a value_map_node_scheme" where
  "RpcValueMapNode_methods load shv_path n =
     (if shv_path = [] then (Inr meta_methods_value_map_root_node, n)
      else (case RpcValueMapNode_isDir load shv_path n of
              (Inl e, n) \<Rightarrow> (Inl e, n)
            | (Inr True, n) \<Rightarrow> (Inr (take 2 meta_methods_value_map_node), n)
            | (Inr False, n) \<Rightarrow>
                (Inr (if vm_readOnly n then take (length meta_methods_value_map_node - 1) meta_methods_value_map_node
                      else meta_methods_value_map_node), n)))"

definition RpcValueMapNode_childNames ::
  "('a value_map_node_scheme \<Rightarrow> 'a value_map_node_scheme) \<Rightarrow> string list \<Rightarrow> 'a value_map_node_scheme \<Rightarrow>
   (exn + string list) \<times> 'a value_map_node_scheme" where
  "RpcValueMapNode_childNames load shv_path n =
     map_prod (map_sum id (\<lambda>val. map_keys (RpcValue_asMap val))) id (RpcValueMapNode_valueOnPath load shv_path True n)"

definition RpcValueMapNode_ls ::
  "('a value_map_node_scheme \<Rightarrow> 'a value_map_node_scheme) \<Rightarrow> string list \<Rightarrow> rpc_value \<Rightarrow> 'a value_map_node_scheme \<Rightarrow>
   (exn + rpc_value) \<times> 'a value_map_node_scheme" where
  "RpcValueMapNode_ls load shv_path params n =
     map_prod (map_sum id (\<lambda>names. let child_name = RpcValue_asString params
        in if child_name = [] then rpc (VList (map (\<lambda>n. rpc (VString n)) names)) else rpc (VBool (child_name \<in> set names)))) id
       (RpcValueMapNode_childNames load shv_path n)"

text \<open>\<open>save\<close> is the virtual \<open>saveValues\<close>; \<open>other\<close> the method of the base class for what is not listed.\<close>

definition RpcValueMapNode_callMethod ::
  "('a value_map_node_scheme \<Rightarrow> 'a value_map_node_scheme) \<Rightarrow> ('a value_map_node_scheme \<Rightarrow> (exn + unit) \<times> 'a value_map_node_scheme) \<Rightarrow>
   ('a value_map_node_scheme \<Rightarrow> (exn + rpc_value) \<times> 'a value_map_node_scheme) \<Rightarrow>
   string list \<Rightarrow> string \<Rightarrow> rpc_value \<Rightarrow> 'a value_map_node_scheme \<Rightarrow> (exn + rpc_value) \<times> 'a value_map_node_scheme" where
  "RpcValueMapNode_callMethod load save other shv_path meth params n =
     (if shv_path = [] \<and> meth = M_LOAD then
        (let n = RpcValueMapNode_values load (n\<lparr>vm_valuesLoaded := False\<rparr>) in (Inr (vm_values n), n))
      else if shv_path = [] \<and> meth = M_SAVE then
        map_prod (map_sum id (\<lambda>_. rpc (VBool True))) id (save (n\<lparr>vm_valuesLoaded := True, vm_values := params\<rparr>))
      else if shv_path = [] \<and> meth = M_COMMIT then map_prod (map_sum id (\<lambda>_. rpc (VBool True))) id (save n)
      else if meth = METH_GET then RpcValueMapNode_valueOnPath load shv_path True n
      else if meth = METH_SET then
        map_prod (map_sum id (\<lambda>_. rpc (VBool True))) id (RpcValueMapNode_setValueOnPath load shv_path params n)
      else other n)"

section \<open>A configuration over a template\<close>

lemma map_elem_size [termination_simp]:
  "rv_var u = VMap um \<Longrightarrow> (k, v) \<in> set um \<Longrightarrow> size v < size u"
proof -
  assume u: "rv_var u = VMap um" and "(k, v) \<in> set um"
  then have "size v < Suc (size_list (size_prod (\<lambda>_. 0) size) um)"
    by (intro le_imp_less_Suc size_list_estimation' [of "(k, v)"]) auto
  then show "size v < size u" using u by (cases u) auto
qed

function (sequential) cfg_mergeMaps :: "rpc_value \<Rightarrow> rpc_value \<Rightarrow> rpc_value" where
  "cfg_mergeMaps template_val user_val =
     (case (rv_var template_val, rv_var user_val) of
        (VMap template_map, VMap user_map) \<Rightarrow>
          rpc (VMap (foldl (\<lambda>m kv.
            (case map_find m (fst kv) of
               Some tv \<Rightarrow> map_set (fst kv) (cfg_mergeMaps tv (snd kv)) m
             | None \<Rightarrow> m)) template_map user_map))
      | _ \<Rightarrow> user_val)"
  by pat_completeness auto
termination by (relation "measure (\<lambda>(t, u). size u)") (auto intro: map_elem_size [OF sym])

declare cfg_mergeMaps.simps [simp del]

function (sequential) mergeTemplateMaps :: "rpc_value \<Rightarrow> rpc_value \<Rightarrow> rpc_value" where
  "mergeTemplateMaps template_base template_over =
     (case (rv_var template_over, rv_var template_base) of
        (VMap map_over, VMap map_base) \<Rightarrow>
          rpc (VMap (foldl (\<lambda>m kv. map_set (fst kv) (mergeTemplateMaps (RpcMap_value m (fst kv) invalid_value) (snd kv)) m)
            map_base map_over))
      | _ \<Rightarrow> template_over)"
  by pat_completeness auto
termination by (relation "measure (\<lambda>(b, v). size v)") (auto intro: map_elem_size [OF sym])

declare mergeTemplateMaps.simps [simp del]

function (sequential) diffMaps :: "rpc_value \<Rightarrow> rpc_value \<Rightarrow> rpc_value" where
  "diffMaps template_vals vals =
     (case (rv_var template_vals, rv_var vals) of
        (VMap templ_map, VMap vals_map) \<Rightarrow>
          (let m = foldl (\<lambda>m kv.
                 let v = diffMaps (snd kv) (RpcMap_value vals_map (fst kv) invalid_value)
                 in if RpcValue_isValid v then map_set (fst kv) v m else m) [] templ_map
           in if m = [] then invalid_value else rpc (VMap m))
      | _ \<Rightarrow> if rv_eq template_vals vals then invalid_value else vals)"
  by pat_completeness auto
termination by (relation "measure (\<lambda>(t, v). size t)") (auto intro: map_elem_size [OF sym])

declare diffMaps.simps [simp del]

text \<open>Files by their names: one that does not exist, one that cannot be opened, or its text.\<close>

datatype config_file = NoFile | Unreadable | TextFile string

definition BASED_ON :: string where "BASED_ON = ''basedOn''"

text \<open>A template may be based on another one; the recursion need not end.\<close>

partial_function (option) loadConfigTemplate ::
    "(string \<Rightarrow> config_file) \<Rightarrow> string \<Rightarrow> string \<Rightarrow> (cpon_fail + rpc_value) option" where
  "loadConfigTemplate fs template_dir file_name =
     (case fs file_name of
        TextFile txt \<Rightarrow>
          (case RpcValue_fromCpon_err txt of
             Inl e \<Rightarrow> Some (Inl e)
           | Inr (rv, err) \<Rightarrow>
               if err then Some (Inr invalid_value)
               else
                 (let m = RpcValue_asMap rv;
                      based_on = RpcValue_asString (RpcMap_valref m BASED_ON)
                  in if based_on \<noteq> [] then
                       Option.bind (loadConfigTemplate fs template_dir (template_dir @ CHR ''/'' # based_on))
                         (\<lambda>r2. Some (map_sum id (\<lambda>rv2. mergeTemplateMaps rv2 (rpc (VMap (map_erase BASED_ON m)))) r2))
                     else Some (Inr rv)))
      | _ \<Rightarrow> Some (Inr invalid_value))"

record config_node = value_map_node +
  cn_configName :: string
  cn_configDir :: string
  cn_userConfigName :: string
  cn_userConfigDir :: string
  cn_templateConfigName :: string
  cn_templateDir :: string
  cn_templateValues :: rpc_value

definition resolvedUserConfigName :: "config_node \<Rightarrow> string" where
  "resolvedUserConfigName n = (if cn_userConfigName n = [] then ''user.'' @ cn_configName n else cn_userConfigName n)"

definition resolvedUserConfigDir :: "config_node \<Rightarrow> string" where
  "resolvedUserConfigDir n = (if cn_userConfigDir n = [] then cn_configDir n else cn_userConfigDir n)"

definition user_file :: "config_node \<Rightarrow> string" where
  "user_file n = resolvedUserConfigDir n @ CHR ''/'' # resolvedUserConfigName n"

definition template_file :: "(string \<Rightarrow> config_file) \<Rightarrow> config_node \<Rightarrow> string" where
  "template_file fs n =
     (let cfg_file = cn_configDir n @ CHR ''/'' # cn_configName n
      in if fs cfg_file = NoFile \<and> cn_templateDir n \<noteq> [] \<and> cn_templateConfigName n \<noteq> []
         then cn_templateDir n @ CHR ''/'' # cn_templateConfigName n else cfg_file)"

definition map_or_empty :: "rpc_value \<Rightarrow> rpc_value" where
  "map_or_empty v = (if RpcValue_isMap v then v else rpc (VMap []))"

text \<open>
  Exceptions leave the node marked as loaded.  The template is read with an error slot for parse errors, the file of
  the user without.
\<close>

definition RpcValueConfigNode_loadValues ::
    "(string \<Rightarrow> config_file) \<Rightarrow> config_node \<Rightarrow> ((cpon_fail + unit) \<times> config_node) option" where
  "RpcValueConfigNode_loadValues fs n =
     map_option (\<lambda>val.
       let n = n\<lparr>vm_valuesLoaded := True\<rparr>
       in case val of
            Inl e \<Rightarrow> (Inl e, n)
          | Inr val \<Rightarrow>
              (let n = n\<lparr>cn_templateValues := map_or_empty val\<rparr>
               in case (case fs (user_file n) of TextFile txt \<Rightarrow> RpcValue_fromCpon txt | _ \<Rightarrow> Inr invalid_value) of
                    Inl e \<Rightarrow> (Inl e, n)
                  | Inr new_values \<Rightarrow> (Inr (), n\<lparr>vm_values := cfg_mergeMaps (cn_templateValues n) (map_or_empty new_values)\<rparr>)))
       (loadConfigTemplate fs (cn_templateDir n) (template_file fs n))"

text \<open>
  The file of the user is emptied when it is opened; \<open>writable\<close> says whether it can be.  What the writer has
  written up to an exception stays in the file.
\<close>

definition config_writer :: "meta_registry \<Rightarrow> cpon_writer" where
  "config_writer rg = CponWriter_make rg (CponWriterOptions_setIndent [CHR 0x09] CponWriterOptions_default)"

definition RpcValueConfigNode_saveValues ::
  "meta_registry \<Rightarrow> bool \<Rightarrow> config_node \<Rightarrow> (string \<Rightarrow> config_file) \<Rightarrow> (exn + unit) \<times> (string \<Rightarrow> config_file)" where
  "RpcValueConfigNode_saveValues rg writable n fs =
     (let new_values = diffMaps (cn_templateValues n) (vm_values n); cfg_file = user_file n
      in if writable then
           (let wr = cw_value new_values (config_writer rg)
            in (map_sum id (\<lambda>_. ()) (written wr), fs(cfg_file := TextFile (cx_out wr))))
         else (Inl (ShvException (''Cannot open file '' @ quote_it cfg_file @ '' for writing!'')), fs))"

definition METH_ORIG_VALUE :: string where "METH_ORIG_VALUE = ''origValue''"
definition METH_RESET_TO_ORIG_VALUE :: string where "METH_RESET_TO_ORIG_VALUE = ''resetValue''"

definition meta_methods_root_node :: "meta_method list" where
  "meta_methods_root_node =
     [methods_DIR, methods_LS, mm5 M_LOAD Flag_None [] ''RpcValue'' AccessLevel_Service,
      mm5 M_SAVE Flag_None ''RpcValue'' ''Bool'' AccessLevel_Admin, mm5 M_COMMIT Flag_None [] ''Bool'' AccessLevel_Admin]"

definition meta_methods_node :: "meta_method list" where
  "meta_methods_node =
     [methods_DIR, methods_LS, mm5 METH_GET Flag_IsGetter [] ''RpcValue'' AccessLevel_Config,
      mm5 METH_SET Flag_IsSetter ''RpcValue'' ''bool'' AccessLevel_Devel,
      mm5 METH_ORIG_VALUE Flag_IsGetter [] ''RpcValue'' AccessLevel_Read,
      mm5 METH_RESET_TO_ORIG_VALUE Flag_None ''RpcValue'' ''Bool'' AccessLevel_Write]"

definition RpcValueConfigNode_methods ::
  "(config_node \<Rightarrow> config_node) \<Rightarrow> string list \<Rightarrow> config_node \<Rightarrow> (exn + meta_method list) \<times> config_node" where
  "RpcValueConfigNode_methods load shv_path n =
     (if shv_path = [] then (Inr meta_methods_root_node, n)
      else map_prod (map_sum id (\<lambda>dir. if dir then take 2 meta_methods_node else meta_methods_node)) id
             (RpcValueMapNode_isDir load shv_path n))"

definition RpcValueConfigNode_callMethod ::
  "(config_node \<Rightarrow> config_node) \<Rightarrow> (config_node \<Rightarrow> (exn + unit) \<times> config_node) \<Rightarrow> (config_node \<Rightarrow> (exn + rpc_value) \<times> config_node) \<Rightarrow>
   string list \<Rightarrow> string \<Rightarrow> rpc_value \<Rightarrow> config_node \<Rightarrow> (exn + rpc_value) \<times> config_node" where
  "RpcValueConfigNode_callMethod load save other shv_path meth params n =
     (if meth = METH_ORIG_VALUE then (valueOnPath_in (cn_templateValues n) shv_path True, n)
      else if meth = METH_RESET_TO_ORIG_VALUE then
        (case valueOnPath_in (cn_templateValues n) shv_path True of
           Inl e \<Rightarrow> (Inl e, n)
         | Inr orig_val \<Rightarrow>
             map_prod (map_sum id (\<lambda>_. rpc (VBool True))) id (RpcValueMapNode_setValueOnPath load shv_path orig_val n))
      else if meth = METH_SET \<and> \<not> RpcValue_isValid params then
        (Inl (ShvException (''Invalid value to set on key: '' @ StringViewList_join shv_path ''/'')), n)
      else RpcValueMapNode_callMethod load save other shv_path meth params n)"

section \<open>A property of an object\<close>

text \<open>The type is a set of bits: readable, writeable, signalling.\<close>

definition meta_methods_pn :: "meta_method list" where
  "meta_methods_pn =
     [methods_DIR, methods_LS,
      MetaMethod_make METH_GET Flag_IsGetter (Some []) (Some ''RpcValue'') AccessLevel_Read [(''chng'', None)] [] [] [],
      mm5 METH_SET Flag_IsSetter ''RpcValue'' ''Bool'' AccessLevel_Write]"

definition isReadable :: "nat \<Rightarrow> bool" where "isReadable ty = bit ty 0"
definition isWriteable :: "nat \<Rightarrow> bool" where "isWriteable ty = bit ty 1"
definition isSignal :: "nat \<Rightarrow> bool" where "isSignal ty = bit ty 2"

definition method_indexes :: "nat \<Rightarrow> nat list option" where
  "method_indexes ty =
     map_of [(0, [0, 1]), (1, [0, 1, 2]), (2, [0, 1, 3]), (3, [0, 1, 2, 3]), (5, [0, 1, 2, 4]), (6, [0, 1, 3, 4]),
       (4, [0, 1, 4]), (7, [0, 1, 2, 3, 4])] ty"

definition ValueProxy_methodCount :: "nat \<Rightarrow> meta_method list \<Rightarrow> string list \<Rightarrow> nat" where
  "ValueProxy_methodCount ty extra shv_path =
     (if shv_path = [] then 2 + of_bool (isReadable ty) + of_bool (isWriteable ty) + of_bool (isSignal ty) + length extra else 0)"

text \<open>A read behind the end of a vector has no value.\<close>

datatype vector_read = ReadOk meta_method | ReadBehindEnd | ReadThrows exn

definition ValueProxy_metaMethod :: "nat \<Rightarrow> meta_method list \<Rightarrow> nat \<Rightarrow> vector_read" where
  "ValueProxy_metaMethod ty extra ix =
     (case method_indexes ty of
        None \<Rightarrow> ReadThrows (RuntimeError ''map::at'')
      | Some ixs \<Rightarrow>
          (if ix < length ixs then
             (if ixs ! ix < length meta_methods_pn then ReadOk (meta_methods_pn ! (ixs ! ix)) else ReadBehindEnd)
           else if ix - length ixs < length extra then ReadOk (extra ! (ix - length ixs))
           else ReadThrows (ShvException (''Invalid method index: '' @ to_string_int (int ix) @ '' on path: ''))))"

definition ValueProxy_callMethod ::
  "nat \<Rightarrow> string \<Rightarrow> rpc_value \<Rightarrow> (rpc_value \<Rightarrow> 's \<Rightarrow> 's) \<Rightarrow> (exn + rpc_value) \<Rightarrow> string list \<Rightarrow> string \<Rightarrow> rpc_value \<Rightarrow> 's \<Rightarrow>
   (exn + rpc_value) \<times> 's" where
  "ValueProxy_callMethod ty nodeId shvValue setShvValue other shv_path meth params st =
     (if shv_path = [] \<and> meth = METH_GET then
        (if isReadable ty then Inr shvValue else Inl (ShvException (''Property '' @ nodeId @ '' on path:  is not readable'')), st)
      else if shv_path = [] \<and> meth = METH_SET then
        (if isWriteable ty then (Inr (rpc (VBool True)), setShvValue params st)
         else (Inl (ShvException (''Property '' @ nodeId @ '' on path:  is not writeable'')), st))
      else (other, st))"

section \<open>What is saved is loaded again\<close>

text \<open>
  Values that a user may have: the keys of the template, no meta data, and a scalar is equal to
  that of the template only if it is the same.
\<close>

function (sequential) fits :: "rpc_value \<Rightarrow> rpc_value \<Rightarrow> bool" where
  "fits t v \<longleftrightarrow>
     RpcValue_isValid v \<and> rv_meta t = None \<and> rv_meta v = None \<and>
     (case (rv_var t, rv_var v) of
        (VMap tm, VMap vm) \<Rightarrow> map_wf tm \<and> map_wf vm \<and> map fst tm = map fst vm \<and>
          (\<forall>kv \<in> set tm. fits (snd kv) (RpcMap_value vm (fst kv) invalid_value))
      | _ \<Rightarrow> rv_eq t v \<longrightarrow> t = v)"
  by pat_completeness auto
termination by (relation "measure (\<lambda>(t, v). size t)") (auto intro: map_elem_size [OF sym])

declare fits.simps [simp del]

lemma map_find_step: "map_find ((k, v) # m) k' = (if k' = k then Some v else map_find m k')"
  by (simp add: map_find_def)

lemma map_find_none: "map_find [] k = None"
  by (simp add: map_find_def)

lemma map_find_None_wf: "map_wf ((k, v) # m) \<Longrightarrow> map_find m k = None"
  by (auto simp: map_find_def map_of_eq_None_iff)

lemma put_all_find:
  assumes "map_wf l"
  shows "map_find (foldl (\<lambda>m kv. if P kv then map_set (fst kv) (f kv) m else m) m0 l) k =
    (case map_find l k of Some x \<Rightarrow> if P (k, x) then Some (f (k, x)) else map_find m0 k | None \<Rightarrow> map_find m0 k)"
  using assms
proof (induction l arbitrary: m0)
  case (Cons kv l)
  obtain k' x where kv: "kv = (k', x)" by fastforce
  have "map_find l k' = None" "map_wf l" using Cons.prems by (auto simp: kv map_find_None_wf)
  then show ?case by (auto simp: Cons.IH kv map_find_step map_find_set split: option.splits)
qed (simp add: map_find_none)

lemma put_all_wf: "map_wf m0 \<Longrightarrow> map_wf (foldl (\<lambda>m kv. if P kv then map_set (fst kv) (f kv) m else m) m0 l)"
  by (induction l arbitrary: m0) (auto simp: map_wf_set)

lemma merge_all_find:
  assumes "map_wf l"
  shows "map_find (foldl (\<lambda>m kv. case map_find m (fst kv) of Some tv \<Rightarrow> map_set (fst kv) (g tv (snd kv)) m | None \<Rightarrow> m) m0 l) k =
    (case map_find l k of Some x \<Rightarrow> map_option (\<lambda>tv. g tv x) (map_find m0 k) | None \<Rightarrow> map_find m0 k)"
  using assms
proof (induction l arbitrary: m0)
  case (Cons kv l)
  obtain k' x where kv: "kv = (k', x)" by fastforce
  have "map_find l k' = None" "map_wf l" using Cons.prems by (auto simp: kv map_find_None_wf)
  then show ?case by (auto simp: Cons.IH kv map_find_step map_find_set split: option.splits)
qed (simp add: map_find_none)

lemma merge_all_wf:
  "map_wf m0 \<Longrightarrow> map_wf (foldl (\<lambda>m kv. case map_find m (fst kv) of Some tv \<Rightarrow> map_set (fst kv) (g tv (snd kv)) m | None \<Rightarrow> m) m0 l)"
  by (induction l arbitrary: m0) (auto simp: map_wf_set split: option.splits)

lemma find_map_keys: "map fst m = map fst n \<Longrightarrow> (map_find m k = None) = (map_find n k = None)"
  by (metis map_find_def map_of_eq_None_iff set_map)

lemma diff_merge_maps:
  assumes wf: "map_wf tm" "map_wf vm" and keys: "map fst tm = map fst vm"
    and elems: "\<And>k tv vv. map_find tm k = Some tv \<Longrightarrow> map_find vm k = Some vv \<Longrightarrow>
      if RpcValue_isValid (diffMaps tv vv) then cfg_mergeMaps tv (diffMaps tv vv) = vv else vv = tv"
  defines "dm \<equiv> foldl (\<lambda>m kv. let v = diffMaps (snd kv) (RpcMap_value vm (fst kv) invalid_value)
      in if RpcValue_isValid v then map_set (fst kv) v m else m) [] tm"
  shows "foldl (\<lambda>m kv. case map_find m (fst kv) of Some tv \<Rightarrow> map_set (fst kv) (cfg_mergeMaps tv (snd kv)) m | None \<Rightarrow> m) tm dm = vm"
proof -
  let ?d = "\<lambda>kv. diffMaps (snd kv) (RpcMap_value vm (fst kv) invalid_value)"
  let ?P = "\<lambda>kv. RpcValue_isValid (?d kv)"
  have dm: "map_wf dm" "map_find dm k = (case map_find tm k of
      Some tv \<Rightarrow> (let d = diffMaps tv (RpcMap_value vm k invalid_value) in if RpcValue_isValid d then Some d else None) | None \<Rightarrow> None)" for k
    using put_all_wf [of "[]" ?P ?d tm] put_all_find [OF wf(1), of ?P ?d "[]" k]
    by (simp_all add: dm_def Let_def map_find_none split: option.split)
  show ?thesis
  proof (rule map_wf_ext [OF merge_all_wf [OF wf(1)] wf(2)])
    fix k
    show "map_find (foldl (\<lambda>m kv. case map_find m (fst kv) of Some tv \<Rightarrow> map_set (fst kv) (cfg_mergeMaps tv (snd kv)) m | None \<Rightarrow> m) tm dm) k = map_find vm k"
    proof (cases "map_find tm k")
      case None
      then show ?thesis using find_map_keys [OF keys, of k] by (simp add: merge_all_find [OF dm(1)] dm(2))
    next
      case (Some tv)
      then obtain vv where vv: "map_find vm k = Some vv" using find_map_keys [OF keys, of k] by auto
      then have "RpcMap_value vm k invalid_value = vv" by (simp add: RpcMap_value_def)
      then show ?thesis using elems [OF Some vv] Some vv by (simp add: merge_all_find [OF dm(1)] dm(2) Let_def split: if_splits)
    qed
  qed
qed

lemma diff_merge:
  "fits t v \<Longrightarrow> if RpcValue_isValid (diffMaps t v) then cfg_mergeMaps t (diffMaps t v) = v else v = t"
proof (induction t v rule: fits.induct)
  case (1 t v)
  note fits = "1.prems" [unfolded fits.simps [of t v]]
  show ?case
  proof (cases "\<exists>tm vm. rv_var t = VMap tm \<and> rv_var v = VMap vm")
    case True
    then obtain tm vm where tm: "rv_var t = VMap tm" and vm: "rv_var v = VMap vm" by blast
    then have wf: "map_wf tm" "map_wf vm" "map fst tm = map fst vm"
      and sub: "\<forall>kv \<in> set tm. fits (snd kv) (RpcMap_value vm (fst kv) invalid_value)" using fits by simp_all
    define dm where "dm = foldl (\<lambda>m kv. let v = diffMaps (snd kv) (RpcMap_value vm (fst kv) invalid_value)
      in if RpcValue_isValid v then map_set (fst kv) v m else m) [] tm"
    have elems: "if RpcValue_isValid (diffMaps tv vv) then cfg_mergeMaps tv (diffMaps tv vv) = vv else vv = tv"
      if "map_find tm k = Some tv" "map_find vm k = Some vv" for k tv vv
    proof -
      have mem: "(k, tv) \<in> set tm" using that(1) by (auto simp: map_find_def dest: map_of_SomeD)
      have val: "RpcMap_value vm k invalid_value = vv" using that(2) by (simp add: RpcMap_value_def)
      then have "fits tv vv" using sub mem by force
      then show ?thesis using "1.IH" [OF refl tm vm mem] val by (simp split: if_splits)
    qed
    have merged: "foldl (\<lambda>m kv. case map_find m (fst kv) of Some tv \<Rightarrow> map_set (fst kv) (cfg_mergeMaps tv (snd kv)) m | None \<Rightarrow> m) tm dm = vm"
      unfolding dm_def by (rule diff_merge_maps [OF wf]) (rule elems)
    have diff: "diffMaps t v = (if dm = [] then invalid_value else rpc (VMap dm))"
      by (simp add: diffMaps.simps [of t v] tm vm dm_def)
    have v: "v = rpc (VMap vm)" and t: "t = rpc (VMap tm)"
      using tm vm fits by (auto intro: rpc_value.expand)
    show ?thesis
    proof (cases "dm = []")
      case True
      then show ?thesis using merged diff t v by (simp add: type_test_defs)
    next
      case False
      have "cfg_mergeMaps t (diffMaps t v) = v"
        unfolding diff using merged False by (simp add: cfg_mergeMaps.simps [of t] tm v)
      then show ?thesis using False diff by (simp add: type_test_defs)
    qed
  next
    case False
    then have scalar: "rv_eq t v \<longrightarrow> t = v" using fits by (auto split: variant.splits)
    have d: "diffMaps t v = (if rv_eq t v then invalid_value else v)" and m: "cfg_mergeMaps t v = v"
      using False by (auto simp: diffMaps.simps [of t v] cfg_mergeMaps.simps [of t v] split: variant.splits)
    show ?thesis using scalar fits by (auto simp: d m type_test_defs)
  qed
qed

text \<open>
  Values that the text format expresses: what it prints is read back, and read back as it was.  The difference to
  a template is made of parts of the values, so it is expressed if they are.
\<close>

definition expressible :: "rpc_value \<Rightarrow> bool" where
  "expressible v \<longleftrightarrow> rpc_wf v \<and> cpon_printable v \<and> cpon_canon v = v"

lemma expressible_elements:
  assumes "expressible v" "rv_var v = VMap m"
  shows "\<forall>kv \<in> set m. expressible (snd kv)"
proof -
  obtain md where v: "v = RpcValue md (VMap m)" using assms(2) by (cases v) auto
  have canon: "map (map_prod id cpon_canon) m = m"
    and ok: "smap_ok m" "list_all snd (map (map_prod id cpon_printable) m)"
    using assms(1) by (simp_all add: v expressible_def del: map_eq_conv)
  have "\<forall>kv \<in> set m. rpc_wf (snd kv) \<and> cpon_printable (snd kv)" using ok by (auto simp: smap_ok_def list_all_iff)
  moreover have "\<forall>kv \<in> set m. cpon_canon (snd kv) = snd kv" using canon by (induction m) auto
  ultimately show ?thesis by (simp add: expressible_def)
qed

lemma expressible_map: "map_wf m \<Longrightarrow> \<forall>kv \<in> set m. expressible (snd kv) \<Longrightarrow> expressible (rpc (VMap m))"
  by (auto simp: expressible_def list_all_iff drop_empty_meta_def smap_ok_def intro!: map_idI)

lemma put_all_values:
  assumes "\<forall>kv \<in> set m0. Q (snd kv)" "\<forall>kv \<in> set l. P kv \<longrightarrow> Q (f kv)"
  shows "\<forall>kv \<in> set (foldl (\<lambda>m kv. if P kv then map_set (fst kv) (f kv) m else m) m0 l). Q (snd kv)"
  using assms
proof (induction l arbitrary: m0)
  case (Cons kv l)
  then have "\<forall>kv' \<in> set (if P kv then map_set (fst kv) (f kv) m0 else m0). Q (snd kv')"
    by (auto dest!: set_map_set [THEN subsetD])
  then show ?case using Cons by simp
qed simp

lemma diffMaps_invalid: "\<not> RpcValue_isValid (diffMaps t invalid_value)"
  by (simp add: diffMaps.simps [of t invalid_value] type_test_defs split: variant.split)

lemma diff_expressible:
  "expressible v \<Longrightarrow> RpcValue_isValid (diffMaps t v) \<Longrightarrow> expressible (diffMaps t v)"
proof (induction t v rule: diffMaps.induct)
  case (1 t v)
  show ?case
  proof (cases "\<exists>tm vm. rv_var t = VMap tm \<and> rv_var v = VMap vm")
    case True
    then obtain tm vm where tm: "rv_var t = VMap tm" and vm: "rv_var v = VMap vm" by blast
    let ?d = "\<lambda>kv. diffMaps (snd kv) (RpcMap_value vm (fst kv) invalid_value)"
    define dm where "dm = foldl (\<lambda>m kv. if RpcValue_isValid (?d kv) then map_set (fst kv) (?d kv) m else m) [] tm"
    have diff: "diffMaps t v = (if dm = [] then invalid_value else rpc (VMap dm))"
      by (simp add: diffMaps.simps [of t v] tm vm dm_def Let_def)
    have "expressible (?d kv)" if "kv \<in> set tm" "RpcValue_isValid (?d kv)" for kv
    proof (cases "map_find vm (fst kv)")
      case None
      then show ?thesis using that(2) diffMaps_invalid [of "snd kv"] by (simp add: RpcMap_value_def)
    next
      case (Some vv)
      then have "(fst kv, vv) \<in> set vm" by (auto simp: map_find_def dest: map_of_SomeD)
      then have "expressible (RpcMap_value vm (fst kv) invalid_value)"
        using expressible_elements [OF "1.prems"(1) vm] Some by (auto simp: RpcMap_value_def)
      from "1.IH" [OF refl tm vm _ this] that show ?thesis by simp
    qed
    then have "\<forall>kv \<in> set dm. expressible (snd kv)" unfolding dm_def by (intro put_all_values) auto
    moreover have "map_wf dm" unfolding dm_def by (rule put_all_wf) simp
    ultimately show ?thesis using "1.prems"(2) expressible_map by (auto simp: diff type_test_defs)
  next
    case False
    then have "diffMaps t v = (if rv_eq t v then invalid_value else v)"
      by (auto simp: diffMaps.simps [of t v] split: variant.splits)
    then show ?thesis using "1.prems" by (auto simp: type_test_defs)
  qed
qed

text \<open>The values of a configuration node survive a save and a load.\<close>

lemma merge_empty: "rv_var t = VMap tm \<Longrightarrow> rv_meta t = None \<Longrightarrow> cfg_mergeMaps t (rpc (VMap [])) = t"
  by (auto simp: cfg_mergeMaps.simps [of t] intro: rpc_value.expand)

lemma config_text:
  assumes "rpc_wf v" "cpon_printable v"
  obtains t where "written (cw_value v (config_writer rg)) = Inr t" "cx_out (cw_value v (config_writer rg)) = t"
    "RpcValue_fromCpon t = Inr (cpon_canon v)"
proof -
  have "blanks [CHR 0x09]" by (simp add: blank_char_def)
  from text_reads_back [OF assms this, of rg] obtain t where t: "RpcValue_toCpon rg [CHR 0x09] v = Inr t"
    "\<And>rest. stops rest \<Longrightarrow> \<exists>it. CponReader_read CInvalid (t @ rest) = Inr (cpon_canon v, it, rest)" by blast
  have "written (cw_value v (config_writer rg)) = Inr t"
    using t(1) by (simp add: RpcValue_toCpon_def config_writer_def CponWriterOptions_setTranslateIds_def CponWriterOptions_default_def)
  moreover from this have "cx_out (cw_value v (config_writer rg)) = t" by (auto simp: written_def split: pack_rc.splits)
  moreover obtain it where "CponReader_read CInvalid (t @ []) = Inr (cpon_canon v, it, [])" using t(2) [of "[]"] by (auto simp: stops_def)
  then have "RpcValue_fromCpon t = Inr (cpon_canon v)" by (simp add: RpcValue_fromCpon_def)
  ultimately show thesis by (rule that)
qed

text \<open>A template read from the text that the writer makes of it.\<close>

lemma template_from_text:
  assumes "rpc_wf t" "cpon_printable t" "cpon_canon t = t" "RpcValue_asString (RpcMap_valref (RpcValue_asMap t) BASED_ON) = []"
  obtains tx where "RpcValue_toCpon rg [] t = Inr tx" "\<And>fs dir name. fs name = TextFile tx \<Longrightarrow> loadConfigTemplate fs dir name = Some (Inr t)"
proof -
  have "list_all blank_char []" by simp
  from text_reads_back [OF assms(1,2) this, of rg] obtain tx where tx: "RpcValue_toCpon rg [] t = Inr tx"
    "\<And>rest. stops rest \<Longrightarrow> \<exists>it. CponReader_read CInvalid (tx @ rest) = Inr (t, it, rest)" using assms(3) by metis
  obtain it where "CponReader_read CInvalid (tx @ []) = Inr (t, it, [])" using tx(2) [of "[]"] by (auto simp: stops_def)
  then have "RpcValue_fromCpon_err tx = Inr (t, False)" by (simp add: RpcValue_fromCpon_err_def RpcValue_fromCpon_def)
  then have "loadConfigTemplate fs dir name = Some (Inr t)" if "fs name = TextFile tx" for fs dir name
    using that assms(4) by (subst loadConfigTemplate.simps) simp
  with tx(1) show thesis by (rule that)
qed

lemma save_load:
  assumes fit: "fits (cn_templateValues n) (vm_values n)" and map: "RpcValue_isMap (cn_templateValues n)" "RpcValue_isMap (vm_values n)"
    and expr: "expressible (vm_values n)"
    and save: "RpcValueConfigNode_saveValues rg True n fs = (r, fs')"
    and templ: "loadConfigTemplate fs' (cn_templateDir n) (template_file fs' n) = Some (Inr (cn_templateValues n))"
  shows "r = Inr () \<and> (\<exists>n'. RpcValueConfigNode_loadValues fs' n = Some (Inr (), n') \<and> vm_values n' = vm_values n)"
proof -
  let ?t = "cn_templateValues n" and ?v = "vm_values n"
  let ?d = "diffMaps ?t ?v"
  obtain tm where tm: "rv_var ?t = VMap tm" using map(1) by (cases "rv_var ?t") (auto simp: type_test_defs)
  have meta: "rv_meta ?t = None" "rv_meta ?v = None" using fit by (simp_all add: fits.simps [of ?t])
  have dm: "RpcValue_isMap ?d \<longleftrightarrow> RpcValue_isValid ?d" "\<not> RpcValue_isValid ?d \<Longrightarrow> ?d = invalid_value"
    using map by (auto simp: diffMaps.simps [of ?t ?v] type_test_defs Let_def split: variant.splits)
  have "rpc_wf ?d \<and> cpon_printable ?d \<and> map_or_empty (cpon_canon ?d) = map_or_empty ?d"
    using diff_expressible [OF expr, of ?t] dm(2)
    by (cases "RpcValue_isValid ?d") (auto simp: expressible_def map_or_empty_def type_test_defs drop_empty_meta_def)
  then have d: "rpc_wf ?d" "cpon_printable ?d" "map_or_empty (cpon_canon ?d) = map_or_empty ?d" by simp_all
  obtain s where s: "written (cw_value ?d (config_writer rg)) = Inr s" "cx_out (cw_value ?d (config_writer rg)) = s"
    "RpcValue_fromCpon s = Inr (cpon_canon ?d)" using config_text [OF d(1,2)] by blast
  have fs': "r = Inr ()" "fs' (user_file n) = TextFile s"
    using save s by (auto simp: RpcValueConfigNode_saveValues_def Let_def)
  have u: "user_file (n\<lparr>vm_valuesLoaded := True, cn_templateValues := ?t\<rparr>) = user_file n"
    by (simp add: user_file_def resolvedUserConfigDir_def resolvedUserConfigName_def)
  have "cfg_mergeMaps ?t (map_or_empty ?d) = ?v"
    using diff_merge [OF fit] merge_empty [OF tm meta(1)] dm(1) by (auto simp: map_or_empty_def split: if_splits)
  then show ?thesis
    using templ map(1) fs' u s(3) d(3) by (simp add: RpcValueConfigNode_loadValues_def map_or_empty_def [of ?t] Let_def)
qed

section \<open>What does not work\<close>

text \<open>Setting a value says that it is done and changes nothing.\<close>

lemma set_changes_nothing:
  assumes "vm_valuesLoaded n" "RpcValueMapNode_callMethod load save other path METH_SET val n = (r, n')"
  shows "n' = n"
  using assms by (auto simp: RpcValueMapNode_callMethod_def METH_SET_def METH_GET_def M_LOAD_def M_SAVE_def M_COMMIT_def
      RpcValueMapNode_setValueOnPath_def RpcValueMapNode_values_def Let_def split: if_splits)

text \<open>A template that is based on itself is loaded forever.\<close>

lemma self_based_template_loops:
  assumes "fs (dir @ CHR ''/'' # name) = TextFile txt" "RpcValue_fromCpon_err txt = Inr (rv, False)"
    and "RpcValue_asString (RpcMap_valref (RpcValue_asMap rv) BASED_ON) = name" "name \<noteq> []"
  shows "loadConfigTemplate fs dir (dir @ CHR ''/'' # name) = None"
proof -
  have "\<not> (a = fs \<and> b = dir \<and> c = dir @ CHR ''/'' # name)" if "loadConfigTemplate a b c = Some y" for a b c y
    by (rule loadConfigTemplate.raw_induct [OF _ that, of "\<lambda>a b c y. \<not> (a = fs \<and> b = dir \<and> c = dir @ CHR ''/'' # name)"])
       (use assms in \<open>auto simp: Let_def Option.bind_eq_Some_conv split: config_file.splits if_splits; blast\<close>)
  then show ?thesis by (cases "loadConfigTemplate fs dir (dir @ CHR ''/'' # name)") auto
qed

text \<open>The methods of a property that signals its changes: the last one is read from behind the table.\<close>

lemma signal_property_reads_behind_end:
  assumes "isSignal ty" "ty \<le> 7"
  shows "\<exists>ix < ValueProxy_methodCount ty extra []. ValueProxy_metaMethod ty extra ix = ReadBehindEnd"
proof -
  have "ty \<in> {4, 5, 6, 7}"
  proof -
    have "ty \<in> {0, 1, 2, 3, 4, 5, 6, 7}" using assms(2) by auto
    then show ?thesis using assms(1) by (auto simp: isSignal_def bit_iff_odd)
  qed
  then show ?thesis
    by (elim insertE emptyE; intro exI [of _ "length (the (method_indexes ty)) - 1"])
       (auto simp: ValueProxy_methodCount_def ValueProxy_metaMethod_def method_indexes_def meta_methods_pn_def
         isReadable_def isWriteable_def isSignal_def bit_iff_odd)
qed

end
