(* ===== verification/Broker_Samples.thy ===== *)
theory Broker_Samples
  imports Broker_Routing Value_Nodes
begin

text \<open>
  A small broker at which the properties of the access rules, the routing and the node tree are
  instantiated: the user \<open>joe\<close> has the role \<open>op\<close>, which has \<open>guest\<close>, and may write below \<open>test\<close>.
\<close>

definition sample_source :: acl_source where
  "sample_source = \<lparr>sc_mounts = Inr [],
     sc_users = Inr [(''joe'', \<lparr>au_password = \<lparr>apw_password = ''pw'', apw_format = PF_Plain\<rparr>, au_roles = [''op'']\<rparr>)],
     sc_roles = Inr [(''op'', Inr \<lparr>ar_roles = [''guest''], ar_profile = invalid_value\<rparr>)],
     sc_rules = Inr [(''guest'', [\<lparr>aar_path = ''**'', aar_method = ''ls'', aar_access = ''bws''\<rparr>]),
       (''op'', [\<lparr>aar_path = ''test/**'', aar_method = [], aar_access = ''wr''\<rparr>])]\<rparr>"

definition sample_acl :: acl_manager where
  "sample_acl = \<lparr>am_source = sample_source, am_mounts = [], am_users = [], am_roles = [], am_rules = [], am_flat = [],
     am_azure = [], am_ldap = []\<rparr>"

definition sample_client :: client_connection where
  "sample_client = \<lparr>sv_connectionId = 5, sv_connectionName = ''c'', sv_loginReceived = True, sv_loginOk = True,
     sv_context = \<lparr>ulc_serverNounce = None, ulc_loginRequest = invalid_value, ulc_connectionId = 5\<rparr>,
     sv_userLogin = \<lparr>ul_user = ''joe'', ul_password = ''pw'', ul_loginType = LT_Plain\<rparr>, sv_options = invalid_value,
     cc_socketConnected = True, cc_mountPoint = ''shv/dev'', cc_apiVersion = V2,
     cc_subscriptions = [\<lparr>sub_path = ''shv'', sub_method = ''chng'', sub_source = []\<rparr>]\<rparr>"

definition sample_master :: "int \<Rightarrow> string \<Rightarrow> master_connection" where
  "sample_master i exported = \<lparr>mc_connectionId = i, mc_socketConnected = True, mc_loginPhase = False, mc_exportedShvPath = exported,
     mc_subscriptions = [\<lparr>sub_path = ''shv'', sub_method = [], sub_source = []\<rparr>]\<rparr>"

definition sample_broker :: broker where
  "sample_broker = \<lparr>br_clients = [sample_client], br_masters = [], br_acl = sample_acl, br_secrets = [], br_requestId = 0\<rparr>"

definition sample_env :: broker_env where
  "sample_env = \<lparr>be_brokerId = ''b1'', be_ipAddress = ''10.0.0.1'', be_isPublic = False, be_serverPort = 3755, be_now = 0,
     be_randomDigest = ''d'', be_parseError = ''parse error''\<rparr>"

definition sample_set :: meta_method where
  "sample_set = mm5 METH_SET Flag_IsSetter ''Int'' ''Bool'' AccessLevel_Write"

definition sample_tree :: shv_node where
  "sample_tree = ShvNode ''<ROOT>'' True PlainNode [ShvNode ''test'' True (DescendantNode
     \<lparr>nv_methods = (\<lambda>_. Inr [sample_set]), nv_childNames = (\<lambda>_. []), nv_callMethod = (\<lambda>_ _ _ _. Inr (rpc (VBool True)))\<rparr>) []]"

text \<open>A request \<open>test:set(7)\<close> that brings a grant of its own.\<close>

definition sample_request :: rpc_frame where
  "sample_request = \<lparr>fr_protocol = PT_ChainPack,
     fr_meta = MetaData [(1, rpc (VInt 1)), (8, rpc (VInt 42)), (9, rpc (VString ''test'')), (10, rpc (VString ''set'')),
       (14, rpc (VString ''su''))] [],
     fr_data = [0x8a, 0x41, 0x47, 0xff]\<rparr>"

definition sample_signal :: rpc_frame where
  "sample_signal = \<lparr>fr_protocol = PT_ChainPack,
     fr_meta = MetaData [(1, rpc (VInt 1)), (9, rpc (VString ''x'')), (10, rpc (VString ''chng''))] [],
     fr_data = [0x8a, 0x41, 0x47, 0xff]\<rparr>"

text \<open>The same request as it enters the node tree.\<close>

definition routed_request :: rpc_frame where
  "routed_request = \<lparr>fr_protocol = PT_ChainPack,
     fr_meta = MetaData [(1, rpc (VInt 1)), (8, rpc (VInt 42)), (9, rpc (VString ''test'')), (10, rpc (VString ''set'')),
       (11, rpc (VInt 5)), (14, rpc (VString ''wr'')),
       (16, rpc (VMap [(''brokerId'', rpc (VString ''b1'')), (''shvUser'', rpc (VString ''joe''))])), (17, rpc (VInt 16))] [],
     fr_data = [0x8a, 0x41, 0x47, 0xff]\<rparr>"

definition no_cpon_ops :: cpon_ops where
  "no_cpon_ops = \<lparr>cpon_write_meta = (\<lambda>_. []), cpon_write = (\<lambda>_. []), cpon_read = (\<lambda>_. Inl ParseException),
     cpon_read_meta = (\<lambda>_. Inl ParseException)\<rparr>"

definition no_cpon_text :: "rpc_value \<Rightarrow> string" where
  "no_cpon_text v = []"

lemma sample_acl_ok: "roles_fine sample_source" "manager_ok sample_acl"
proof -
  show r: "roles_fine sample_source"
    by (auto simp: roles_fine_def sample_source_def aclRole_def find_or_def map_find_def)
  show "manager_ok sample_acl" unfolding sample_acl_def by (rule fresh_manager_ok [OF r])
qed

lemma sample_broker_ok:
  "manager_ok (br_acl sample_broker)" "BrokerApp_clientConnectionById sample_broker 5 = Some sample_client"
  "plain_name (ul_user (sv_userLogin sample_client))" "in_s 32 (5 :: int)" "meta_ids_ok (fr_meta sample_request)"
  "RpcValue_isValid (RpcMessage_requestId_m (fr_meta sample_request))"
  by (simp_all add: sample_acl_ok sample_broker_def BrokerApp_clientConnectionById_def sample_client_def plain_name_def in_s_def
      sample_request_def meta_ids_ok_def caller_ids_ok_def RpcMessage_callerIds_m_def RpcMessage_requestId_m_def RpcMetaData_value_i_def
      map_find_def type_test_defs)

text \<open>The tree as the broker sees it: a function of the frame that may throw.\<close>

definition sample_root :: "rpc_frame \<Rightarrow> exn option" where
  "sample_root f = snd (ShvNode_handleRpcFrame no_cpon_ops no_cpon_text [] [] sample_tree f)"

lemma sample_routed:
  "fst (BrokerApp_processRequest sample_env (Some sample_root) 5 sample_request sample_broker) = [ToNodeTree routed_request]"
  by code_simp

lemma sample_routed_call:
  "\<exists>p sp m. MethodCalled p sp sample_set m \<in>
     set (fst (ShvNode_handleRpcFrame no_cpon_ops no_cpon_text [] [] sample_tree routed_request))"
proof -
  have "list_ex (\<lambda>e. case e of MethodCalled _ _ mm _ \<Rightarrow> mm = sample_set | _ \<Rightarrow> False)
    (fst (ShvNode_handleRpcFrame no_cpon_ops no_cpon_text [] [] sample_tree routed_request))"
    by code_simp
  then obtain e where "e \<in> set (fst (ShvNode_handleRpcFrame no_cpon_ops no_cpon_text [] [] sample_tree routed_request))"
    "case e of MethodCalled _ _ mm _ \<Rightarrow> mm = sample_set | _ \<Rightarrow> False" unfolding list_ex_iff by blast
  then show ?thesis by (cases e rule: node_effect.exhaust) auto
qed

text \<open>\<open>joe\<close> logs in with his password.\<close>

definition no_login :: user_login where
  "no_login = \<lparr>ul_user = [], ul_password = [], ul_loginType = LT_Invalid\<rparr>"

definition login_request :: rpc_message where
  "login_request = RpcRequest_setParams (rpc (VMap [(''login'', rpc (VMap [(''password'', rpc (VString ''pw'')),
       (''type'', rpc (VString ''PLAIN'')), (''user'', rpc (VString ''joe''))]))]))
     (RpcMessage_setMethod METH_LOGIN (RpcMessage_setRequestId (rpc (VInt 1)) RpcMessage_empty))"

definition call_request :: rpc_message where
  "call_request = RpcMessage_setMethod ''ls'' (RpcMessage_setRequestId (rpc (VInt 2)) RpcMessage_empty)"

definition login_context :: user_login_context where
  "login_context = \<lparr>ulc_serverNounce = None, ulc_loginRequest = login_request, ulc_connectionId = 5\<rparr>"

definition new_client :: server_connection where
  "new_client = fresh_connection 5 ''c'' no_login RpcMessage_empty"

definition waiting_client :: server_connection where
  "waiting_client = new_client\<lparr>sv_loginReceived := True, sv_context := login_context,
     sv_userLogin := \<lparr>ul_user = ''joe'', ul_password = ''pw'', ul_loginType = LT_Plain\<rparr>\<rparr>"

lemma sample_login_run:
  "\<exists>acts. connection_run rev no_login (waiting_client\<lparr>sv_loginOk := True\<rparr>) acts
     [FrameIn (\<lambda>_. False) login_request, Checked sample_acl login_context, FrameIn (\<lambda>_. False) call_request] \<and> passes acts"
proof -
  have frame: "ClientConnectionOnBroker_onRpcFrameReceived ''n'' (\<lambda>_. False) invalid_value login_request new_client =
      ([CheckLogin login_context], waiting_client)"
    by code_simp
  have check: "fst (BrokerApp_checkLogin rev no_login False False login_context sample_acl) = Inr (Decided login_ok)" by code_simp
  obtain st' where check': "BrokerApp_checkLogin rev no_login False False login_context sample_acl = (Inr (Decided login_ok), st')"
    using check by (cases "BrokerApp_checkLogin rev no_login False False login_context sample_acl") simp
  obtain resp where decided: "login_decided login_ok waiting_client = ([SendRpcMessage resp, ClientLoggedIn], waiting_client\<lparr>sv_loginOk := True\<rparr>)"
    by (simp add: login_decided_def login_ok_def UserLoginResult_make_def ClientConnectionOnBroker_setLoginResult_def
        ServerConnection_setLoginResult_def Let_def)
  have pass: "ClientConnectionOnBroker_onRpcFrameReceived ''n'' (\<lambda>_. False) invalid_value call_request (waiting_client\<lparr>sv_loginOk := True\<rparr>) =
      ([ToBroker call_request], waiting_client\<lparr>sv_loginOk := True\<rparr>)"
    by (simp add: ClientConnectionOnBroker_onRpcFrameReceived_def ServerConnection_isLoginPhase_def)
  have "connection_run rev no_login new_client [] []" unfolding new_client_def by (rule run_start)
  from run_frame [OF this frame]
  have "connection_run rev no_login waiting_client [CheckLogin login_context] [FrameIn (\<lambda>_. False) login_request]" by simp
  from run_checked [OF this _ _ sample_acl_ok(2) check' decided]
  have "connection_run rev no_login (waiting_client\<lparr>sv_loginOk := True\<rparr>)
      [CheckLogin login_context, SendRpcMessage resp, ClientLoggedIn]
      [FrameIn (\<lambda>_. False) login_request, Checked sample_acl login_context]"
    by simp
  from run_frame [OF this pass] show ?thesis by (intro exI conjI) auto
qed

end
