(* ===== verification/Cpon_Frame.thy ===== *)
theory Cpon_Frame
  imports Cpon_Codec Rpc_Frame
begin

text \<open>
  Frames whose meta data and body are CPON text: the operations the frame code takes as an argument
  (\<open>cpon_ops\<close>), given by the writer and the reader of the text format, and the round trip of a message in
  such a frame.  A text at which the reader dereferences the null pointer has no result; it is the error \<open>crash\<close> here.
\<close>

definition cpon_exn :: "cpon_fail \<Rightarrow> exn" where
  "cpon_exn e = (case e of CponThrow x \<Rightarrow> x | CponCrash \<Rightarrow> RuntimeError ''crash'')"

definition text_bytes :: "exn + string \<Rightarrow> bytes" where
  "text_bytes r = (case r of Inl e \<Rightarrow> [] | Inr t \<Rightarrow> bytes_of_string t)"

definition cpon_text_ops :: "meta_registry \<Rightarrow> cpon_ops" where
  "cpon_text_ops rg =
     \<lparr>cpon_write_meta = (\<lambda>md. text_bytes (RpcMetaData_toString rg [] md)),
      cpon_write = (\<lambda>v. text_bytes (RpcValue_toCpon rg [] v)),
      cpon_read = (\<lambda>bs. map_sum cpon_exn id (RpcValue_fromCpon (string_of_bytes bs))),
      cpon_read_meta = (\<lambda>bs. map_sum cpon_exn (\<lambda>(md, it, rest). (md, bytes_of_string rest))
        (CponReader_read_meta CInvalid (string_of_bytes bs)))\<rparr>"

text \<open>Meta data in front of any text.\<close>

lemma meta_text_reads_back:
  assumes "meta_wf md" "meta_printable md" "\<not> RpcMetaData_isEmpty md" and "blanks indent"
  obtains t where "RpcMetaData_toString rg indent md = Inr t"
    "\<And>rest. CponReader_read_meta CInvalid (t @ rest) = Inr (ccanon_meta md, CInvalid, rest)"
proof -
  define w where "w = CponWriter_make rg (CponWriterOptions_setIndent indent (CponWriterOptions_setTranslateIds False CponWriterOptions_default))"
  have w: "cw_ok w" "cx_out w = []"
    using assms(4) by (simp_all add: w_def cw_ok_def CponWriter_make_def CponWriterOptions_setIndent_def
        CponWriterOptions_setTranslateIds_def CponWriterOptions_default_def)
  obtain t where t: "cw_meta md w = emit t w" "mreads t (ccanon_meta md)"
    using writes_aux(3) [OF assms(1-3)] w(1) unfolding mwrites_def by blast
  have "RpcMetaData_toString rg indent md = Inr t"
    using t(1) w by (simp add: RpcMetaData_toString_def w_def [symmetric] written_def cw_ok_def)
  moreover have "CponReader_read_meta CInvalid (t @ rest) = Inr (ccanon_meta md, CInvalid, rest)" for rest
    using t(2) by (simp add: mreads_def CponReader_read_meta_def run_crd_def del: crd_value.simps)
  ultimately show thesis by (rule that)
qed

text \<open>A value as a frame body.\<close>

lemma body_reads_back:
  assumes "rpc_wf v" "cpon_printable v"
  shows "cpon_read (cpon_text_ops rg) (cpon_write (cpon_text_ops rg) v) = Inr (cpon_canon v)"
proof -
  obtain t where t: "RpcValue_toCpon rg [] v = Inr t"
    and r: "\<And>rest. stops rest \<Longrightarrow> \<exists>it. CponReader_read CInvalid (t @ rest) = Inr (cpon_canon v, it, rest)"
    using text_reads_back [OF assms, of "[]" rg] by auto
  obtain it where "CponReader_read CInvalid (t @ []) = Inr (cpon_canon v, it, [])" using r [of "[]"] by (auto simp: stops_def)
  then show ?thesis by (simp add: cpon_text_ops_def text_bytes_def t RpcValue_fromCpon_def)
qed

lemma canon_isIMap_c: "RpcValue_isIMap v \<Longrightarrow> rv_var w = ccanon_variant (rv_var v) \<Longrightarrow> RpcValue_isIMap w"
  by (auto simp: isIMap_iff)

lemma cpon_message_roundtrip:
  assumes m: "RpcValue_isIMap m" "rpc_wf m" "cpon_printable m" "\<not> RpcMetaData_isEmpty (RpcMessage_metaData m)"
    and f: "RpcMessage_toRpcFrame (cpon_text_ops rg) PT_Cpon m = Inr f" "RpcFrame_toFrameData (cpon_text_ops rg) f = Inr bs"
  shows "\<exists>f'. RpcFrame_fromFrameData (cpon_text_ops rg) bs = Inr f' \<and>
    RpcFrame_toRpcMessage_err (cpon_text_ops rg) f' = Inr (cpon_canon m, False)"
proof -
  let ?cp = "cpon_text_ops rg"
  obtain md x where mx: "m = RpcValue (Some md) x" using m(4)
    by (cases m; cases "rv_meta m") (auto simp: RpcMessage_metaData_def RpcValue_metaData_def meta_empty_def RpcMetaData_isEmpty_def
        RpcMetaData_size_def)
  have md: "meta_wf md" "meta_printable md" "\<not> RpcMetaData_isEmpty md"
    using m by (auto simp: mx RpcMessage_metaData_def RpcValue_metaData_def)
  have x: "rpc_wf (rpc x)" "cpon_printable (rpc x)" using m by (auto simp: mx)
  have ff: "f = \<lparr>fr_protocol = PT_Cpon, fr_meta = md, fr_data = cpon_write ?cp (rpc x)\<rparr>"
    using f(1) by (auto simp: RpcMessage_toRpcFrame_def RpcValue_takeMeta_def mx)
  obtain t where t: "RpcMetaData_toString rg [] md = Inr t"
    and r: "\<And>rest. CponReader_read_meta CInvalid (t @ rest) = Inr (ccanon_meta md, CInvalid, rest)"
    using meta_text_reads_back [OF md, of "[]" rg] by auto
  have bs: "bs = 2 # bytes_of_string t @ cpon_write ?cp (rpc x)"
    using f(2) by (simp add: ff RpcFrame_toFrameData_def RpcFrame_toFrameHead_def protocol_byte_def cpon_text_ops_def text_bytes_def t)
  have "cpon_read_meta ?cp (bytes_of_string t @ cpon_write ?cp (rpc x)) = Inr (ccanon_meta md, cpon_write ?cp (rpc x))"
    using r [of "string_of_bytes (cpon_write ?cp (rpc x))"]
    by (simp add: cpon_text_ops_def string_of_bytes_def bytes_of_string_def comp_def)
  then have "RpcFrame_fromFrameData ?cp bs = Inr (f\<lparr>fr_meta := ccanon_meta md\<rparr>)"
    using md(3) by (simp add: bs RpcFrame_fromFrameData_def protocol_of_byte_def ccanon_meta_empty ff)
  moreover have "RpcFrame_toRpcMessage_err ?cp (f\<lparr>fr_meta := ccanon_meta md\<rparr>) = Inr (cpon_canon m, False)"
    using body_reads_back [OF x, of rg] m canon_isIMap_c [OF m(1)]
    by (auto simp: RpcFrame_toRpcMessage_err_def decode_body_def ff RpcValue_setMetaData_def mx isIMap_iff
        RpcMessage_of_value_def type_test_defs drop_empty_meta_def ccanon_meta_empty md(3))
  ultimately show ?thesis by blast
qed

end
