(* ===== verification/Journal_Entry.thy ===== *)
theory Journal_Entry
  imports Data_Change
begin

text \<open>
  \<open>ShvJournalEntry\<close> (\<open>libshvcore/utils/shvjournalentry.h\<close>, \<open>shvjournalentry.cpp\<close>): one record of a journal, a value that
  a path had at a time, and its two representations as an \<open>RpcValue\<close>, a map for single entries and a row of a log.  What reading
  a row reports through its \<open>err\<close> argument is a value of \<open>row_error\<close>; its text is left out.  \<open>log_exn\<close> are the exceptions of the code
  that builds and reads logs: those of the value type, \<open>std::out_of_range\<close> and \<open>std::bad_optional_access\<close> of the containers, and a row error.
\<close>

datatype row_error = InvalidDateTime | PathDictCorrupted

datatype log_exn = LogRpc exn | LogOutOfRange | LogBadOptional | LogRow row_error

definition rpc_call :: "exn + 'a \<Rightarrow> log_exn + 'a" where
  "rpc_call r = map_sum LogRpc id r"

lemma rpc_call_simps [simp]: "rpc_call (Inr x) = Inr x" "rpc_call (Inl e) = Inl (LogRpc e)"
  by (simp_all add: rpc_call_def)

abbreviation JournalEntry_MetaType_ID :: int where "JournalEntry_MetaType_ID \<equiv> 8"

definition DOMAIN_VAL_CHANGE :: string where "DOMAIN_VAL_CHANGE = ''chng''"

definition DOMAIN_VAL_FASTCHANGE :: string where "DOMAIN_VAL_FASTCHANGE = ''fastchng''"

section \<open>The columns of a log\<close>

datatype log_column = ColTimestamp | ColPath | ColValue | ColShortTime | ColDomain | ColValueFlags | ColUserId

primrec Column_ix :: "log_column \<Rightarrow> nat" where
  "Column_ix ColTimestamp = 0"
| "Column_ix ColPath = 1"
| "Column_ix ColValue = 2"
| "Column_ix ColShortTime = 3"
| "Column_ix ColDomain = 4"
| "Column_ix ColValueFlags = 5"
| "Column_ix ColUserId = 6"

primrec Column_name :: "log_column \<Rightarrow> string" where
  "Column_name ColTimestamp = ''timestamp''"
| "Column_name ColPath = ''path''"
| "Column_name ColValue = ''value''"
| "Column_name ColShortTime = ''shortTime''"
| "Column_name ColDomain = ''domain''"
| "Column_name ColValueFlags = ''valueFlags''"
| "Column_name ColUserId = ''userId''"

section \<open>Entries\<close>

record journal_entry =
  je_epochMsec :: int
  je_path :: string
  je_value :: rpc_value
  je_shortTime :: int
  je_domain :: string
  je_valueFlags :: u32
  je_userId :: string

definition ShvJournalEntry_default :: journal_entry where
  "ShvJournalEntry_default =
     \<lparr>je_epochMsec = 0, je_path = [], je_value = invalid_value, je_shortTime = NO_SHORT_TIME, je_domain = [],
      je_valueFlags = 0, je_userId = []\<rparr>"

definition ShvJournalEntry_make :: "string \<Rightarrow> rpc_value \<Rightarrow> string \<Rightarrow> int \<Rightarrow> u32 \<Rightarrow> int \<Rightarrow> journal_entry" where
  "ShvJournalEntry_make p v d short_time flags epoch_msec =
     ShvJournalEntry_default
       \<lparr>je_epochMsec := epoch_msec, je_path := p, je_value := v, je_shortTime := short_time,
        je_domain := d, je_valueFlags := flags\<rparr>"

definition ShvJournalEntry_make_value :: "string \<Rightarrow> rpc_value \<Rightarrow> journal_entry" where
  "ShvJournalEntry_make_value p v = ShvJournalEntry_make p v DOMAIN_VAL_CHANGE NO_SHORT_TIME 0 0"

definition ShvJournalEntry_make_short :: "string \<Rightarrow> rpc_value \<Rightarrow> int \<Rightarrow> journal_entry" where
  "ShvJournalEntry_make_short p v short_time = ShvJournalEntry_make p v DOMAIN_VAL_FASTCHANGE short_time 0 0"

definition ShvJournalEntry_make_domain :: "string \<Rightarrow> rpc_value \<Rightarrow> string \<Rightarrow> journal_entry" where
  "ShvJournalEntry_make_domain p v d = ShvJournalEntry_make p v d NO_SHORT_TIME 0 0"

definition ShvJournalEntry_isValid :: "journal_entry \<Rightarrow> bool" where
  "ShvJournalEntry_isValid e \<longleftrightarrow> je_path e \<noteq> [] \<and> je_epochMsec e > 0"

definition ShvJournalEntry_isProvisional :: "journal_entry \<Rightarrow> bool" where
  "ShvJournalEntry_isProvisional e = DataChange_testBit (je_valueFlags e) (flag_pos Provisional)"

definition ShvJournalEntry_setProvisional :: "bool \<Rightarrow> journal_entry \<Rightarrow> journal_entry" where
  "ShvJournalEntry_setProvisional b e =
     e\<lparr>je_valueFlags := DataChange_setBit (je_valueFlags e) (flag_pos Provisional) b\<rparr>"

definition ShvJournalEntry_isSpontaneous :: "journal_entry \<Rightarrow> bool" where
  "ShvJournalEntry_isSpontaneous e = DataChange_testBit (je_valueFlags e) (flag_pos Spontaneous)"

definition ShvJournalEntry_setSpontaneous :: "bool \<Rightarrow> journal_entry \<Rightarrow> journal_entry" where
  "ShvJournalEntry_setSpontaneous b e =
     e\<lparr>je_valueFlags := DataChange_setBit (je_valueFlags e) (flag_pos Spontaneous) b\<rparr>"

definition ShvJournalEntry_isSnapshotValue :: "journal_entry \<Rightarrow> bool" where
  "ShvJournalEntry_isSnapshotValue e = DataChange_testBit (je_valueFlags e) (flag_pos Snapshot)"

definition ShvJournalEntry_setSnapshotValue :: "bool \<Rightarrow> journal_entry \<Rightarrow> journal_entry" where
  "ShvJournalEntry_setSnapshotValue b e =
     e\<lparr>je_valueFlags := DataChange_setBit (je_valueFlags e) (flag_pos Snapshot) b\<rparr>"

definition ShvJournalEntry_eq :: "journal_entry \<Rightarrow> journal_entry \<Rightarrow> bool" where
  "ShvJournalEntry_eq e o' \<longleftrightarrow>
     je_epochMsec e = je_epochMsec o' \<and> je_path e = je_path o' \<and> rv_eq (je_value e) (je_value o') \<and>
     je_shortTime e = je_shortTime o' \<and> je_domain e = je_domain o' \<and> je_valueFlags e = je_valueFlags o' \<and>
     je_userId e = je_userId o'"

definition ShvJournalEntry_dateTime :: "journal_entry \<Rightarrow> date_time" where
  "ShvJournalEntry_dateTime e = RpcDateTime_fromMSecsSinceEpoch (je_epochMsec e) 0"

definition ShvJournalEntry_toDataChange :: "journal_entry \<Rightarrow> exn + data_change" where
  "ShvJournalEntry_toDataChange e =
     (if je_domain e = DOMAIN_VAL_CHANGE
      then map_sum id (DataChange_setValueFlags (je_valueFlags e))
             (DataChange_make (je_value e) (RpcDateTime_fromMSecsSinceEpoch (je_epochMsec e) 0) (je_shortTime e))
      else Inr DataChange_default)"

section \<open>As a map\<close>

definition put_if :: "bool \<Rightarrow> string \<Rightarrow> rpc_value \<Rightarrow> rpc_map \<Rightarrow> rpc_map" where
  "put_if b key v m = (if b then map_set key v m else m)"

definition ShvJournalEntry_toRpcValueMap :: "journal_entry \<Rightarrow> rpc_map" where
  "ShvJournalEntry_toRpcValueMap e =
     (let m = map_set ''epochMsec'' (rpc (VInt (je_epochMsec e))) [];
          m = put_if (je_epochMsec e > 0) (Column_name ColTimestamp)
                (rpc (VDateTime (RpcDateTime_fromMSecsSinceEpoch (je_epochMsec e) 0))) m;
          m = put_if (je_path e \<noteq> []) (Column_name ColPath) (rpc (VString (je_path e))) m;
          m = put_if (RpcValue_isValid (je_value e)) (Column_name ColValue) (je_value e) m;
          m = put_if (je_shortTime e \<noteq> NO_SHORT_TIME) (Column_name ColShortTime) (rpc (VInt (je_shortTime e))) m;
          m = put_if (je_domain e \<noteq> []) (Column_name ColDomain) (rpc (VString (je_domain e))) m;
          m = put_if (je_valueFlags e \<noteq> 0) (Column_name ColValueFlags) (rpc (VUInt (ucast (je_valueFlags e)))) m
      in put_if (je_userId e \<noteq> []) (Column_name ColUserId) (rpc (VString (je_userId e))) m)"

definition ShvJournalEntry_toRpcValue :: "journal_entry \<Rightarrow> exn + rpc_value" where
  "ShvJournalEntry_toRpcValue e =
     RpcValue_setMetaValue_i Tag_MetaTypeId (rpc (VInt JournalEntry_MetaType_ID))
       (rpc (VMap (ShvJournalEntry_toRpcValueMap e)))"

definition ShvJournalEntry_isShvJournalEntry :: "rpc_value \<Rightarrow> exn + bool" where
  "ShvJournalEntry_isShvJournalEntry rv =
     bind_e (RpcValue_metaTypeId rv) (\<lambda>i.
       if i = JournalEntry_MetaType_ID
       then map_sum id (\<lambda>ns. ns = GlobalNS_ID) (RpcValue_metaTypeNameSpaceId rv) else Inr False)"

definition ShvJournalEntry_fromRpcValueMap :: "rpc_map \<Rightarrow> exn + journal_entry" where
  "ShvJournalEntry_fromRpcValueMap m =
     (let dt = RpcValue_toDateTime (RpcMap_value m (Column_name ColTimestamp) invalid_value) in
      bind_e (if RpcDateTime_msecsSinceEpoch dt \<noteq> 0 then Inr (RpcDateTime_msecsSinceEpoch dt)
              else RpcValue_toInt64 (RpcMap_value m ''epochMsec'' invalid_value)) (\<lambda>epochMsec.
      bind_e (RpcValue_toInt (RpcMap_value m (Column_name ColShortTime) (rpc (VInt NO_SHORT_TIME)))) (\<lambda>shortTime.
      bind_e (RpcValue_toUInt (RpcMap_value m (Column_name ColValueFlags) invalid_value)) (\<lambda>valueFlags.
      Inr \<lparr>je_epochMsec = epochMsec,
           je_path = RpcValue_asString (RpcMap_value m (Column_name ColPath) invalid_value),
           je_value = RpcMap_value m (Column_name ColValue) invalid_value,
           je_shortTime = shortTime,
           je_domain = RpcValue_asString (RpcMap_value m (Column_name ColDomain) invalid_value),
           je_valueFlags = valueFlags,
           je_userId = RpcValue_asString (RpcMap_value m (Column_name ColUserId) invalid_value)\<rparr>))))"

definition ShvJournalEntry_fromRpcValue :: "rpc_value \<Rightarrow> exn + journal_entry" where
  "ShvJournalEntry_fromRpcValue rv =
     bind_e (ShvJournalEntry_isShvJournalEntry rv) (\<lambda>b.
       if b then ShvJournalEntry_fromRpcValueMap (RpcValue_asMap rv) else Inr ShvJournalEntry_default)"

section \<open>As a row\<close>

definition ShvJournalEntry_toRpcValueList :: "(string \<Rightarrow> rpc_value) option \<Rightarrow> journal_entry \<Rightarrow> rpc_list" where
  "ShvJournalEntry_toRpcValueList map_path e =
     [rpc (VDateTime (RpcDateTime_fromMSecsSinceEpoch (je_epochMsec e) 0)),
      (case map_path of Some f \<Rightarrow> f (je_path e) | None \<Rightarrow> rpc (VString (je_path e))),
      je_value e,
      rpc (if je_shortTime e = NO_SHORT_TIME then VNull else VInt (je_shortTime e)),
      rpc (if je_domain e = [] \<or> je_domain e = DOMAIN_VAL_CHANGE then VNull else VString (je_domain e)),
      rpc (VUInt (ucast (je_valueFlags e))),
      rpc (if je_userId e = [] then VNull else VString (je_userId e))]"

text \<open>
  The result is the entry, or the row error with the default entry; looking up the path may throw, and so may a
  \<open>valueFlags\<close> that is not a number.
\<close>

definition ShvJournalEntry_fromRpcValueList ::
    "rpc_list \<Rightarrow> (rpc_value \<Rightarrow> log_exn + string) option \<Rightarrow> log_exn + (row_error option \<times> journal_entry)" where
  "ShvJournalEntry_fromRpcValueList row unmap_path =
     (let dt = RpcList_value row (Column_ix ColTimestamp) in
      if \<not> RpcValue_isDateTime dt then Inr (Some InvalidDateTime, ShvJournalEntry_default)
      else
        let p = RpcList_value row (Column_ix ColPath) in
        bind_e (case unmap_path of Some f \<Rightarrow> f p | None \<Rightarrow> Inr (RpcValue_asString p)) (\<lambda>path.
        if path = [] then Inr (Some PathDictCorrupted, ShvJournalEntry_default)
        else
          let st = RpcList_value row (Column_ix ColShortTime) in
          bind_e (rpc_call (if RpcValue_isInt st then RpcValue_toInt st else Inr NO_SHORT_TIME)) (\<lambda>short_time.
          let domain = RpcValue_asString (RpcList_value row (Column_ix ColDomain)) in
          bind_e (rpc_call (RpcValue_toUInt (RpcList_value row (Column_ix ColValueFlags)))) (\<lambda>flags.
          Inr (None,
               \<lparr>je_epochMsec = RpcDateTime_msecsSinceEpoch (RpcValue_toDateTime dt),
                je_path = path,
                je_value = RpcList_value row (Column_ix ColValue),
                je_shortTime = (if short_time \<ge> 0 then short_time else NO_SHORT_TIME),
                je_domain = (if domain = [] \<or> domain = ''C'' then DOMAIN_VAL_CHANGE else domain),
                je_valueFlags = flags,
                je_userId = RpcValue_asString (RpcList_value row (Column_ix ColUserId))\<rparr>)))))"

section \<open>What the C++ types guarantee\<close>

definition entry_wf :: "journal_entry \<Rightarrow> bool" where
  "entry_wf e \<longleftrightarrow> in_s 64 (je_epochMsec e) \<and> in_s 32 (je_shortTime e) \<and> rpc_wf (je_value e)"


section \<open>Flags\<close>

lemma entry_flags:
  "ShvJournalEntry_isSnapshotValue (ShvJournalEntry_setSnapshotValue b e) = b"
  "ShvJournalEntry_isSpontaneous (ShvJournalEntry_setSnapshotValue b e) = ShvJournalEntry_isSpontaneous e"
  "ShvJournalEntry_isProvisional (ShvJournalEntry_setSnapshotValue b e) = ShvJournalEntry_isProvisional e"
  "ShvJournalEntry_isSpontaneous (ShvJournalEntry_setSpontaneous b e) = b"
  "ShvJournalEntry_isSnapshotValue (ShvJournalEntry_setSpontaneous b e) = ShvJournalEntry_isSnapshotValue e"
  "ShvJournalEntry_isProvisional (ShvJournalEntry_setSpontaneous b e) = ShvJournalEntry_isProvisional e"
  "ShvJournalEntry_isProvisional (ShvJournalEntry_setProvisional b e) = b"
  "ShvJournalEntry_isSnapshotValue (ShvJournalEntry_setProvisional b e) = ShvJournalEntry_isSnapshotValue e"
  "ShvJournalEntry_isSpontaneous (ShvJournalEntry_setProvisional b e) = ShvJournalEntry_isSpontaneous e"
  by (simp_all add: ShvJournalEntry_isSnapshotValue_def ShvJournalEntry_setSnapshotValue_def
      ShvJournalEntry_isSpontaneous_def ShvJournalEntry_setSpontaneous_def ShvJournalEntry_isProvisional_def
      ShvJournalEntry_setProvisional_def testBit_setBit)

section \<open>Round trips\<close>

lemma toUInt_flags [simp]: "RpcValue_toUInt (rpc (VUInt (ucast (w :: u32)))) = Inr w"
proof -
  have "(ucast (ucast w :: u64) :: u32) = w" by (rule bit_word_eqI) (simp add: bit_simps)
  then show ?thesis by (simp add: RpcValue_toUInt_def impl_to_int_def)
qed

lemma int_toInt [simp]: "RpcValue_toInt (rpc (VInt i)) = Inr (s_wrap 32 i)"
  by (simp add: RpcValue_toInt_def impl_to_int_def)

lemma as_simps [simp]:
  "RpcValue_asString (rpc (VString s)) = s" "RpcValue_asString (rpc VNull) = []" "RpcValue_asString invalid_value = []"
  "RpcValue_toDateTime (rpc (VDateTime d)) = d" "RpcValue_isDateTime (rpc (VDateTime d))"
  "RpcValue_isInt (rpc (VInt i))" "\<not> RpcValue_isInt (rpc VNull)"
  by (simp_all add: as_defs RpcValue_toDateTime_def type_test_defs)

lemma msecs_fromMSecs [simp]:
  "RpcDateTime_msecsSinceEpoch (RpcDateTime_fromMSecsSinceEpoch ms m) = s_wrap 57 ms"
  by (simp add: RpcDateTime_msecsSinceEpoch_def access_simps)

text \<open>What a row cannot say: a negative short time other than \<open>NO_SHORT_TIME\<close>, an empty domain, the domain \<open>C\<close>.\<close>

definition row_norm :: "journal_entry \<Rightarrow> journal_entry" where
  "row_norm e = e\<lparr>je_epochMsec := s_wrap 57 (je_epochMsec e),
     je_shortTime := (if je_shortTime e < 0 then NO_SHORT_TIME else je_shortTime e),
     je_domain := (if je_domain e = [] \<or> je_domain e = ''C'' then DOMAIN_VAL_CHANGE else je_domain e)\<rparr>"

definition row_plain :: "journal_entry \<Rightarrow> bool" where
  "row_plain e \<longleftrightarrow> NO_SHORT_TIME \<le> je_shortTime e \<and> je_domain e \<noteq> [] \<and> je_domain e \<noteq> ''C''"

text \<open>What a row must say: a time of 57 bits, a path, and a short time that fits its type.\<close>

definition row_ok :: "journal_entry \<Rightarrow> bool" where
  "row_ok e \<longleftrightarrow> in_s 57 (je_epochMsec e) \<and> je_path e \<noteq> [] \<and> in_s 32 (je_shortTime e)"

lemma row_norm_id: "row_ok e \<Longrightarrow> row_plain e \<Longrightarrow> row_norm e = e"
  by (simp add: row_ok_def row_plain_def row_norm_def range_simps)

lemma row_norm_time: "row_ok e \<Longrightarrow> je_epochMsec (row_norm e) = je_epochMsec e"
  by (simp add: row_ok_def row_norm_def range_simps)

lemma row_norm_fields [simp]:
  "je_path (row_norm e) = je_path e" "je_value (row_norm e) = je_value e" "je_valueFlags (row_norm e) = je_valueFlags e"
  "je_epochMsec (row_norm e) = s_wrap 57 (je_epochMsec e)"
  by (simp_all add: row_norm_def)

lemma nth_row [simp]:
  "RpcList_value (x # xs) 0 = x" "RpcList_value (x # xs) (Suc n) = RpcList_value xs n"
  "RpcList_value (x # xs) (numeral k) = RpcList_value xs (pred_numeral k)" "RpcList_value (x # xs) 1 = RpcList_value xs 0"
  by (simp_all add: RpcList_value_def numeral_eq_Suc)

lemma fromRpcValueList_toRpcValueList:
  assumes "in_s 32 (je_shortTime e)" "je_path e \<noteq> []"
    and "(case um of Some f \<Rightarrow> f | None \<Rightarrow> (\<lambda>p. Inr (RpcValue_asString p)))
           (case mp of Some f \<Rightarrow> f (je_path e) | None \<Rightarrow> rpc (VString (je_path e))) = Inr (je_path e)"
  shows "ShvJournalEntry_fromRpcValueList (ShvJournalEntry_toRpcValueList mp e) um = Inr (None, row_norm e)"
proof -
  have "(case um of Some f \<Rightarrow> f p | None \<Rightarrow> Inr (RpcValue_asString p)) =
      (case um of Some f \<Rightarrow> f | None \<Rightarrow> (\<lambda>p. Inr (RpcValue_asString p))) p" for p
    by (cases um) simp_all
  then show ?thesis using assms
    by (simp add: ShvJournalEntry_fromRpcValueList_def ShvJournalEntry_toRpcValueList_def row_norm_def Let_def
        s_wrap_id DOMAIN_VAL_CHANGE_def)
qed

lemma map_find_put_if: "map_find (put_if b k v m) k' = (if b \<and> k' = k then Some v else map_find m k')"
  by (simp add: put_if_def map_find_set)

definition map_ok :: "journal_entry \<Rightarrow> bool" where
  "map_ok e \<longleftrightarrow> in_s 57 (je_epochMsec e) \<and> in_s 32 (je_shortTime e) \<and>
     (RpcValue_isValid (je_value e) \<or> je_value e = invalid_value)"

lemma toRpcValueMap_fields:
  "RpcMap_value (ShvJournalEntry_toRpcValueMap e) ''epochMsec'' d = rpc (VInt (je_epochMsec e))"
  "RpcMap_value (ShvJournalEntry_toRpcValueMap e) ''timestamp'' d =
     (if je_epochMsec e > 0 then rpc (VDateTime (RpcDateTime_fromMSecsSinceEpoch (je_epochMsec e) 0)) else d)"
  "RpcMap_value (ShvJournalEntry_toRpcValueMap e) ''path'' d = (if je_path e \<noteq> [] then rpc (VString (je_path e)) else d)"
  "RpcMap_value (ShvJournalEntry_toRpcValueMap e) ''value'' d = (if RpcValue_isValid (je_value e) then je_value e else d)"
  "RpcMap_value (ShvJournalEntry_toRpcValueMap e) ''shortTime'' d =
     (if je_shortTime e \<noteq> NO_SHORT_TIME then rpc (VInt (je_shortTime e)) else d)"
  "RpcMap_value (ShvJournalEntry_toRpcValueMap e) ''domain'' d = (if je_domain e \<noteq> [] then rpc (VString (je_domain e)) else d)"
  "RpcMap_value (ShvJournalEntry_toRpcValueMap e) ''valueFlags'' d =
     (if je_valueFlags e \<noteq> 0 then rpc (VUInt (ucast (je_valueFlags e))) else d)"
  "RpcMap_value (ShvJournalEntry_toRpcValueMap e) ''userId'' d = (if je_userId e \<noteq> [] then rpc (VString (je_userId e)) else d)"
  by (simp_all add: RpcMap_value_def ShvJournalEntry_toRpcValueMap_def Let_def map_find_put_if map_find_set)

lemma fromRpcValueMap_toRpcValueMap:
  assumes "map_ok e"
  shows "ShvJournalEntry_fromRpcValueMap (ShvJournalEntry_toRpcValueMap e) = Inr e"
proof -
  have e: "in_s 57 (je_epochMsec e)" "in_s 32 (je_shortTime e)" using assms by (simp_all add: map_ok_def)
  have w: "s_wrap 57 (je_epochMsec e) = je_epochMsec e" "s_wrap 64 (je_epochMsec e) = je_epochMsec e"
      "s_wrap 32 (je_shortTime e) = je_shortTime e"
    using e in_s_mono [OF e(1), of 64] by (simp_all add: s_wrap_id)
  have d: "RpcValue_toUInt invalid_value = Inr 0" "RpcValue_toDateTime invalid_value = RpcDateTime_default"
      "RpcDateTime_msecsSinceEpoch RpcDateTime_default = 0" "RpcValue_toInt64 (rpc (VInt i)) = Inr (s_wrap 64 i)" for i
    by (simp_all add: RpcValue_toUInt_def RpcValue_toInt64_def impl_to_int_def RpcValue_toDateTime_def
        RpcDateTime_default_def RpcDateTime_msecsSinceEpoch_def)
  have flags: "RpcValue_toUInt (if je_valueFlags e \<noteq> 0 then rpc (VUInt (ucast (je_valueFlags e))) else invalid_value) =
      Inr (je_valueFlags e)"
    by (simp add: d)
  have short: "RpcValue_toInt (if je_shortTime e \<noteq> NO_SHORT_TIME then rpc (VInt (je_shortTime e)) else rpc (VInt NO_SHORT_TIME)) =
      Inr (je_shortTime e)"
    by (simp add: w) (simp add: s_wrap_id in_s_def)
  have strings: "RpcValue_asString (if s \<noteq> [] then rpc (VString s) else invalid_value) = s" for s by simp
  have val: "(if RpcValue_isValid (je_value e) then je_value e else invalid_value) = je_value e"
    using assms by (auto simp: map_ok_def)
  show ?thesis
    by (cases "je_epochMsec e > 0")
       (simp_all add: ShvJournalEntry_fromRpcValueMap_def toRpcValueMap_fields flags short strings val Let_def w d
         del: if_not_P)
qed

lemma fromRpcValue_toRpcValue:
  assumes "map_ok e"
  shows "\<exists>rv. ShvJournalEntry_toRpcValue e = Inr rv \<and> ShvJournalEntry_fromRpcValue rv = Inr e"
proof -
  define rv where "rv = RpcValue (Some (RpcMetaData_setValue_i Tag_MetaTypeId (rpc (VInt JournalEntry_MetaType_ID)) meta_empty))
      (VMap (ShvJournalEntry_toRpcValueMap e))"
  have "ShvJournalEntry_toRpcValue e = Inr rv"
    by (simp add: ShvJournalEntry_toRpcValue_def RpcValue_setMetaValue_i_def RpcValue_type_def RpcValue_metaData_def rv_def)
  moreover have "ShvJournalEntry_isShvJournalEntry rv = Inr True"
    by (simp add: rv_def ShvJournalEntry_isShvJournalEntry_def RpcValue_metaTypeId_def RpcValue_metaTypeNameSpaceId_def
        RpcValue_metaValue_i_def RpcValue_metaData_def RpcMetaData_value_setValue type_test_defs Tag_MetaTypeId_def
        Tag_MetaTypeNameSpaceId_def s_wrap_id in_s_def)
       (simp add: RpcMetaData_value_i_def meta_empty_def RpcValue_toInt_def impl_to_int_def s_wrap_id)
  moreover have "RpcValue_asMap rv = ShvJournalEntry_toRpcValueMap e" by (simp add: rv_def as_defs)
  ultimately show ?thesis
    using fromRpcValueMap_toRpcValueMap [OF assms] by (simp add: ShvJournalEntry_fromRpcValue_def)
qed

end
