(* ===== verification/Log_Params.thy ===== *)
theory Log_Params
  imports Journal_Entry Shv_Path
begin

text \<open>
  What a client asks a log for: \<open>ShvGetLogParams\<close> (\<open>libshvcore/utils/shvgetlogparams.h\<close>, \<open>shvgetlogparams.cpp\<close>) and the two filters
  built from it, \<open>PatternMatcher\<close> (\<open>patternmatcher.cpp\<close>) and \<open>ShvLogFilter\<close> (\<open>shvlogfilter.cpp\<close>).  The regular
  expressions are those of \<open>std::regex\<close>, an argument of the definitions: \<open>rx_compile\<close> is its constructor, \<open>None\<close> where that throws
  \<open>std::regex_error\<close>.
\<close>

section \<open>Parameters\<close>

datatype pattern_type = WildCard | RegEx

record log_params =
  lp_since :: rpc_value
  lp_until :: rpc_value
  lp_pathPattern :: string
  lp_pathPatternType :: pattern_type
  lp_recordCountLimit :: int
  lp_withSnapshot :: bool
  lp_domainPattern :: string
  lp_withTypeInfo :: bool
  lp_withPathsDict :: bool

definition DEFAULT_GET_LOG_RECORD_COUNT_LIMIT :: int where "DEFAULT_GET_LOG_RECORD_COUNT_LIMIT = 10000"

definition ShvGetLogParams_default :: log_params where
  "ShvGetLogParams_default =
     \<lparr>lp_since = invalid_value, lp_until = invalid_value, lp_pathPattern = [], lp_pathPatternType = WildCard,
      lp_recordCountLimit = DEFAULT_GET_LOG_RECORD_COUNT_LIMIT, lp_withSnapshot = False, lp_domainPattern = [],
      lp_withTypeInfo = False, lp_withPathsDict = True\<rparr>"

definition HeaderOptions_BasicInfo :: u32 where "HeaderOptions_BasicInfo = 1"
definition HeaderOptions_FieldInfo :: u32 where "HeaderOptions_FieldInfo = 2"
definition HeaderOptions_TypeInfo :: u32 where "HeaderOptions_TypeInfo = 4"
definition HeaderOptions_PathsDict :: u32 where "HeaderOptions_PathsDict = 8"

lemmas header_option_defs = HeaderOptions_BasicInfo_def HeaderOptions_FieldInfo_def HeaderOptions_TypeInfo_def
  HeaderOptions_PathsDict_def

definition legacy_flags :: "log_params \<Rightarrow> u32" where
  "legacy_flags p =
     HeaderOptions_BasicInfo OR HeaderOptions_FieldInfo
       OR (if lp_withTypeInfo p then HeaderOptions_TypeInfo else 0)
       OR (if lp_withPathsDict p then HeaderOptions_PathsDict else 0)"

definition ShvGetLogParams_toRpcValue :: "bool \<Rightarrow> log_params \<Rightarrow> rpc_value" where
  "ShvGetLogParams_toRpcValue fill_legacy_fields p =
     (let m = put_if (RpcValue_isValid (lp_since p)) ''since'' (lp_since p) [];
          m = put_if (RpcValue_isValid (lp_until p)) ''until'' (lp_until p) m;
          m = put_if (lp_pathPattern p \<noteq> []) ''pathPattern'' (rpc (VString (lp_pathPattern p))) m;
          m = put_if (lp_pathPattern p \<noteq> [] \<and> lp_pathPatternType p = RegEx) ''pathPatternType'' (rpc (VString ''regex'')) m;
          m = put_if (lp_domainPattern p \<noteq> []) ''domainPattern'' (rpc (VString (lp_domainPattern p))) m;
          m = map_set ''recordCountLimit'' (rpc (VInt (lp_recordCountLimit p))) m;
          m = map_set ''withSnapshot'' (rpc (VBool (lp_withSnapshot p))) m;
          m = map_set ''withPathsDict'' (rpc (VBool (lp_withPathsDict p))) m;
          m = map_set ''withTypeInfo'' (rpc (VBool (lp_withTypeInfo p))) m;
          m = put_if fill_legacy_fields ''headerOptions'' (rpc (VUInt (ucast (legacy_flags p)))) m;
          m = put_if fill_legacy_fields ''maxRecordCount'' (rpc (VInt (lp_recordCountLimit p))) m
      in rpc (VMap m))"

definition ShvGetLogParams_fromRpcValue :: "rpc_value \<Rightarrow> exn + log_params" where
  "ShvGetLogParams_fromRpcValue v =
     (let m = RpcValue_asMap v in
      bind_e (RpcValue_toInt (RpcMap_value m ''recordCountLimit''
                (RpcMap_value m ''maxRecordCount'' (rpc (VInt DEFAULT_GET_LOG_RECORD_COUNT_LIMIT))))) (\<lambda>limit.
      bind_e (if RpcMap_hasKey m ''headerOptions''
              then map_sum id (\<lambda>flags. (flags AND HeaderOptions_TypeInfo \<noteq> 0, flags AND HeaderOptions_PathsDict \<noteq> 0))
                     (RpcValue_toUInt (RpcMap_value m ''headerOptions'' invalid_value))
              else Inr (lp_withTypeInfo ShvGetLogParams_default, lp_withPathsDict ShvGetLogParams_default))
        (\<lambda>(withTypeInfo, withPathsDict).
      Inr \<lparr>lp_since = RpcMap_value m ''since'' invalid_value,
           lp_until = RpcMap_value m ''until'' invalid_value,
           lp_pathPattern = RpcValue_toString (RpcMap_value m ''pathPattern'' invalid_value),
           lp_pathPatternType =
             (if RpcValue_toString (RpcMap_value m ''pathPatternType'' invalid_value) = ''regex'' then RegEx else WildCard),
           lp_recordCountLimit = limit,
           lp_withSnapshot =
             RpcValue_toBool (RpcMap_value m ''withSnapshot'' (rpc (VBool (lp_withSnapshot ShvGetLogParams_default)))),
           lp_domainPattern = RpcValue_toString (RpcMap_value m ''domainPattern'' invalid_value),
           lp_withTypeInfo = RpcValue_toBool (RpcMap_value m ''withTypeInfo'' (rpc (VBool withTypeInfo))),
           lp_withPathsDict = RpcValue_toBool (RpcMap_value m ''withPathsDict'' (rpc (VBool withPathsDict)))\<rparr>)))"

definition ShvGetLogParams_isSinceLast :: "log_params \<Rightarrow> bool" where
  "ShvGetLogParams_isSinceLast p \<longleftrightarrow>
     RpcValue_asString (lp_since p) = ''now'' \<or> RpcValue_asString (lp_since p) = ''last''"

section \<open>PatternMatcher\<close>

record 'rx regex_lib =
  rx_compile :: "string \<Rightarrow> 'rx option"
  rx_search :: "'rx \<Rightarrow> string \<Rightarrow> bool"
  rx_match :: "'rx \<Rightarrow> string \<Rightarrow> bool"

record 'rx pattern_matcher =
  pm_pathPatternRegEx :: "'rx option"
  pm_usePathPatternRegEx :: bool
  pm_pathPatternWildCard :: string
  pm_domainPatternRegEx :: "'rx option"
  pm_useDomainPatternregEx :: bool
  pm_regexError :: bool

definition PatternMatcher_default :: "'rx pattern_matcher" where
  "PatternMatcher_default =
     \<lparr>pm_pathPatternRegEx = None, pm_usePathPatternRegEx = False, pm_pathPatternWildCard = [],
      pm_domainPatternRegEx = None, pm_useDomainPatternregEx = False, pm_regexError = False\<rparr>"

definition set_path_pattern :: "'rx regex_lib \<Rightarrow> log_params \<Rightarrow> 'rx pattern_matcher \<Rightarrow> 'rx pattern_matcher" where
  "set_path_pattern rx p pm =
     (if lp_pathPattern p = [] then pm
      else if lp_pathPatternType p = RegEx then
        (case rx_compile rx (lp_pathPattern p) of
           Some r \<Rightarrow> pm\<lparr>pm_pathPatternRegEx := Some r, pm_usePathPatternRegEx := True\<rparr>
         | None \<Rightarrow> pm\<lparr>pm_regexError := True\<rparr>)
      else pm\<lparr>pm_pathPatternWildCard := lp_pathPattern p\<rparr>)"

definition set_domain_pattern :: "'rx regex_lib \<Rightarrow> log_params \<Rightarrow> 'rx pattern_matcher \<Rightarrow> 'rx pattern_matcher" where
  "set_domain_pattern rx p pm =
     (if lp_domainPattern p = [] then pm
      else (case rx_compile rx (lp_domainPattern p) of
              Some r \<Rightarrow> pm\<lparr>pm_domainPatternRegEx := Some r, pm_useDomainPatternregEx := True\<rparr>
            | None \<Rightarrow> pm\<lparr>pm_regexError := True\<rparr>))"

definition PatternMatcher_make :: "'rx regex_lib \<Rightarrow> log_params \<Rightarrow> 'rx pattern_matcher" where
  "PatternMatcher_make rx p = set_domain_pattern rx p (set_path_pattern rx p PatternMatcher_default)"

definition PatternMatcher_isRegexError :: "'rx pattern_matcher \<Rightarrow> bool" where
  "PatternMatcher_isRegexError pm = pm_regexError pm"

definition PatternMatcher_isEmpty :: "'rx pattern_matcher \<Rightarrow> bool" where
  "PatternMatcher_isEmpty pm \<longleftrightarrow>
     \<not> PatternMatcher_isRegexError pm \<and> \<not> pm_usePathPatternRegEx pm \<and> pm_pathPatternWildCard pm = [] \<and>
     \<not> pm_useDomainPatternregEx pm"

text \<open>A default-constructed \<open>std::regex\<close> matches nothing; the flags keep it from being asked.\<close>

definition path_matches :: "'rx regex_lib \<Rightarrow> 'rx pattern_matcher \<Rightarrow> string \<Rightarrow> bool" where
  "path_matches rx pm path =
     (if pm_usePathPatternRegEx pm
      then (case pm_pathPatternRegEx pm of Some r \<Rightarrow> rx_search rx r path | None \<Rightarrow> False)
      else if pm_pathPatternWildCard pm \<noteq> []
      then matchWild_list (ShvPath_splitPath path)
             (split_view (pm_pathPatternWildCard pm) SHV_PATH_DELIM NUL SkipEmptyParts KeepQuotes)
      else True)"

definition PatternMatcher_match_strings :: "'rx regex_lib \<Rightarrow> 'rx pattern_matcher \<Rightarrow> string \<Rightarrow> string \<Rightarrow> bool" where
  "PatternMatcher_match_strings rx pm path domain =
     (if PatternMatcher_isEmpty pm then True
      else if \<not> path_matches rx pm path then False
      else if pm_useDomainPatternregEx pm
      then (case pm_domainPatternRegEx pm of Some r \<Rightarrow> rx_match rx r domain | None \<Rightarrow> False)
      else True)"

definition PatternMatcher_match :: "'rx regex_lib \<Rightarrow> 'rx pattern_matcher \<Rightarrow> journal_entry \<Rightarrow> bool" where
  "PatternMatcher_match rx pm e = PatternMatcher_match_strings rx pm (je_path e) (je_domain e)"

section \<open>ShvLogFilter\<close>

record 'rx log_filter =
  lf_patternMatcher :: "'rx pattern_matcher"
  lf_sinceMsec :: int
  lf_untilMsec :: int

definition ShvLogFilter_make :: "'rx regex_lib \<Rightarrow> log_params \<Rightarrow> 'rx log_filter" where
  "ShvLogFilter_make rx p =
     \<lparr>lf_patternMatcher = PatternMatcher_make rx p,
      lf_sinceMsec = (if RpcValue_isDateTime (lp_since p)
        then RpcDateTime_msecsSinceEpoch (RpcValue_toDateTime (lp_since p)) else 0),
      lf_untilMsec = (if RpcValue_isDateTime (lp_until p)
        then RpcDateTime_msecsSinceEpoch (RpcValue_toDateTime (lp_until p)) else 0)\<rparr>"

definition ShvLogFilter_match :: "'rx regex_lib \<Rightarrow> 'rx log_filter \<Rightarrow> journal_entry \<Rightarrow> bool" where
  "ShvLogFilter_match rx f e =
     (if lf_sinceMsec f \<noteq> 0 \<and> je_epochMsec e < lf_sinceMsec f then False
      else if lf_untilMsec f \<noteq> 0 \<and> je_epochMsec e > lf_untilMsec f then False
      else PatternMatcher_match rx (lf_patternMatcher f) e)"


section \<open>Parameters come back\<close>

text \<open>Not sent are the type of an empty pattern, and values that are not valid.\<close>

definition sendable :: "rpc_value \<Rightarrow> bool" where
  "sendable v \<longleftrightarrow> RpcValue_isValid v \<or> v = invalid_value"

definition params_ok :: "log_params \<Rightarrow> bool" where
  "params_ok p \<longleftrightarrow> sendable (lp_since p) \<and> sendable (lp_until p) \<and> in_s 32 (lp_recordCountLimit p) \<and>
     (lp_pathPattern p = [] \<longrightarrow> lp_pathPatternType p = WildCard)"

lemma hasKey_value: "RpcMap_hasKey m k \<longleftrightarrow> map_find m k \<noteq> None"
  by (simp add: RpcMap_hasKey_def)

lemma toString_if [simp]: "RpcValue_toString (if s \<noteq> [] then rpc (VString s) else invalid_value) = s"
  by (simp add: RpcValue_toString_def as_defs)

lemma toBool_bool [simp]: "RpcValue_toBool (rpc (VBool b)) = b"
  by (simp add: RpcValue_toBool_def)

lemma params_fields:
  fixes p l defines "m \<equiv> RpcValue_asMap (ShvGetLogParams_toRpcValue l p)"
  shows "RpcMap_value m ''since'' d = (if RpcValue_isValid (lp_since p) then lp_since p else d)"
    "RpcMap_value m ''until'' d = (if RpcValue_isValid (lp_until p) then lp_until p else d)"
    "RpcMap_value m ''pathPattern'' d = (if lp_pathPattern p \<noteq> [] then rpc (VString (lp_pathPattern p)) else d)"
    "RpcMap_value m ''pathPatternType'' d =
       (if lp_pathPattern p \<noteq> [] \<and> lp_pathPatternType p = RegEx then rpc (VString ''regex'') else d)"
    "RpcMap_value m ''domainPattern'' d = (if lp_domainPattern p \<noteq> [] then rpc (VString (lp_domainPattern p)) else d)"
    "RpcMap_value m ''recordCountLimit'' d = rpc (VInt (lp_recordCountLimit p))"
    "RpcMap_value m ''withSnapshot'' d = rpc (VBool (lp_withSnapshot p))"
    "RpcMap_value m ''withPathsDict'' d = rpc (VBool (lp_withPathsDict p))"
    "RpcMap_value m ''withTypeInfo'' d = rpc (VBool (lp_withTypeInfo p))"
    "RpcMap_value m ''headerOptions'' d = (if l then rpc (VUInt (ucast (legacy_flags p))) else d)"
    "RpcMap_hasKey m ''headerOptions'' = l"
  by (simp_all add: m_def as_defs RpcMap_value_def RpcMap_hasKey_def ShvGetLogParams_toRpcValue_def Let_def
      map_find_put_if map_find_set)

lemma params_roundtrip:
  assumes "params_ok p"
  shows "ShvGetLogParams_fromRpcValue (ShvGetLogParams_toRpcValue l p) = Inr p"
proof -
  have "(if RpcValue_isValid (lp_since p) then lp_since p else invalid_value) = lp_since p"
      "(if RpcValue_isValid (lp_until p) then lp_until p else invalid_value) = lp_until p"
      "s_wrap 32 (lp_recordCountLimit p) = lp_recordCountLimit p"
    using assms by (auto simp: params_ok_def sendable_def s_wrap_id)
  moreover have "(if RpcValue_toString (if lp_pathPattern p \<noteq> [] \<and> lp_pathPatternType p = RegEx then rpc (VString ''regex'')
      else invalid_value) = ''regex'' then RegEx else WildCard) = lp_pathPatternType p"
    using assms by (cases "lp_pathPatternType p") (auto simp: params_ok_def RpcValue_toString_def as_defs)
  ultimately show ?thesis
    by (cases l) (simp_all add: ShvGetLogParams_fromRpcValue_def params_fields Let_def del: not_Cons_self2)
qed

section \<open>What matches\<close>

lemma match_no_pattern:
  "lp_pathPattern p = [] \<Longrightarrow> lp_domainPattern p = [] \<Longrightarrow> PatternMatcher_match rx (PatternMatcher_make rx p) e"
  by (simp add: PatternMatcher_match_def PatternMatcher_match_strings_def PatternMatcher_make_def set_domain_pattern_def
      set_path_pattern_def PatternMatcher_default_def PatternMatcher_isEmpty_def PatternMatcher_isRegexError_def)

text \<open>A pattern that does not compile leaves its filter out.\<close>

definition path_selected :: "'rx regex_lib \<Rightarrow> log_params \<Rightarrow> string \<Rightarrow> bool" where
  "path_selected rx p path \<longleftrightarrow>
     lp_pathPattern p = [] \<or>
     (if lp_pathPatternType p = RegEx
      then (case rx_compile rx (lp_pathPattern p) of Some r \<Rightarrow> rx_search rx r path | None \<Rightarrow> True)
      else matchWild_list (ShvPath_splitPath path) (split_view (lp_pathPattern p) SHV_PATH_DELIM NUL SkipEmptyParts KeepQuotes))"

definition domain_selected :: "'rx regex_lib \<Rightarrow> log_params \<Rightarrow> string \<Rightarrow> bool" where
  "domain_selected rx p domain \<longleftrightarrow>
     lp_domainPattern p = [] \<or>
     (case rx_compile rx (lp_domainPattern p) of Some r \<Rightarrow> rx_match rx r domain | None \<Rightarrow> True)"

lemma match_iff:
  "PatternMatcher_match rx (PatternMatcher_make rx p) e \<longleftrightarrow>
     path_selected rx p (je_path e) \<and> domain_selected rx p (je_domain e)"
  by (cases "lp_pathPatternType p"; cases "rx_compile rx (lp_pathPattern p)"; cases "rx_compile rx (lp_domainPattern p)")
     (simp_all add: PatternMatcher_match_def PatternMatcher_match_strings_def PatternMatcher_make_def set_domain_pattern_def
        set_path_pattern_def PatternMatcher_default_def PatternMatcher_isEmpty_def PatternMatcher_isRegexError_def
        path_selected_def domain_selected_def path_matches_def)

end
