(* ===== verification/Log_Header.thy ===== *)
theory Log_Header
  imports Log_Params
begin

text \<open>
  \<open>ShvLogHeader\<close> (\<open>libshvcore/utils/shvlogheader.h\<close>, \<open>shvlogheader.cpp\<close>), the meta data of a log, and
  \<open>ShvLogRpcValueReader\<close> (\<open>shvlogrpcvaluereader.cpp\<close>), which gives the entries of a log one after the other.  The type descriptions that a
  header may carry are values of a type \<open>'t\<close>, and their conversions are an argument \<open>ti\<close>: \<open>ShvTypeInfo\<close> is not modelled.
\<close>

record 't type_info_lib =
  ti_toRpcValue :: "'t \<Rightarrow> rpc_value"
  ti_fromRpcValue :: "rpc_value \<Rightarrow> exn + 't"

record 't log_header =
  lh_deviceType :: string
  lh_deviceId :: string
  lh_logVersion :: int
  lh_logParams :: log_params
  lh_recordCount :: int
  lh_recordCountLimit :: int
  lh_recordCountLimitHit :: bool
  lh_withSnapShot :: bool
  lh_withPathsDict :: bool
  lh_fields :: rpc_list
  lh_pathDict :: rpc_imap
  lh_dateTime :: rpc_value
  lh_since :: rpc_value
  lh_until :: rpc_value
  lh_typeInfos :: "(string, 't) std_map"

definition ShvLogHeader_default :: "'t log_header" where
  "ShvLogHeader_default =
     \<lparr>lh_deviceType = [], lh_deviceId = [], lh_logVersion = 2, lh_logParams = ShvGetLogParams_default, lh_recordCount = 0,
      lh_recordCountLimit = 0, lh_recordCountLimitHit = False, lh_withSnapShot = False, lh_withPathsDict = True,
      lh_fields = [], lh_pathDict = [], lh_dateTime = invalid_value, lh_since = invalid_value, lh_until = invalid_value,
      lh_typeInfos = []\<rparr>"

definition EMPTY_PREFIX_KEY :: string where "EMPTY_PREFIX_KEY = []"

definition ShvLogHeader_sinceMsec :: "'t log_header \<Rightarrow> int" where
  "ShvLogHeader_sinceMsec h = RpcDateTime_msecsSinceEpoch (RpcValue_toDateTime (lh_since h))"

definition ShvLogHeader_untilMsec :: "'t log_header \<Rightarrow> int" where
  "ShvLogHeader_untilMsec h = RpcDateTime_msecsSinceEpoch (RpcValue_toDateTime (lh_until h))"

primrec load_type_infos ::
    "'t type_info_lib \<Rightarrow> (string \<times> rpc_value) list \<Rightarrow> (string, 't) std_map \<Rightarrow> exn + (string, 't) std_map" where
  "load_type_infos ti [] m = Inr m"
| "load_type_infos ti (kv # kvs) m =
     bind_e (ti_fromRpcValue ti (snd kv)) (\<lambda>t. load_type_infos ti kvs (map_set (fst kv) t m))"

definition ShvLogHeader_fromMetaData :: "'t type_info_lib \<Rightarrow> rpc_meta \<Rightarrow> exn + 't log_header" where
  "ShvLogHeader_fromMetaData ti md =
     (let device = RpcValue_asMap (RpcMetaData_valref_s md ''device'');
          val = (\<lambda>key. RpcMetaData_value_s md key invalid_value) in
      bind_e (RpcValue_toInt (val ''logVersion'')) (\<lambda>logVersion.
      bind_e (ShvGetLogParams_fromRpcValue (val ''logParams'')) (\<lambda>params.
      bind_e (RpcValue_toInt (val ''recordCount'')) (\<lambda>recordCount.
      bind_e (RpcValue_toInt (val ''recordCountLimit'')) (\<lambda>recordCountLimit.
      bind_e (load_type_infos ti (RpcValue_asMap (RpcMetaData_valref_s md ''typeInfos'')) []) (\<lambda>infos.
      bind_e (if RpcValue_isMap (val ''typeInfo'')
              then map_sum id (\<lambda>t. map_set EMPTY_PREFIX_KEY t infos) (ti_fromRpcValue ti (val ''typeInfo''))
              else Inr infos) (\<lambda>infos.
      Inr \<lparr>lh_deviceType = RpcValue_asString (RpcMap_value device ''type'' invalid_value),
           lh_deviceId = RpcValue_asString (RpcMap_value device ''id'' invalid_value),
           lh_logVersion = logVersion,
           lh_logParams = params,
           lh_recordCount = recordCount,
           lh_recordCountLimit = recordCountLimit,
           lh_recordCountLimitHit = RpcValue_toBool (val ''recordCountLimitHit''),
           lh_withSnapShot = RpcValue_toBool (val ''withSnapshot''),
           lh_withPathsDict = RpcValue_toBool (RpcMetaData_value_s md ''withPathsDict'' (rpc (VBool True))),
           lh_fields = RpcValue_asList (val ''fields''),
           lh_pathDict = RpcValue_asIMap (val ''pathsDict''),
           lh_dateTime = val ''dateTime'',
           lh_since = val ''since'',
           lh_until = val ''until'',
           lh_typeInfos = infos\<rparr>)))))))"

definition set_if :: "bool \<Rightarrow> string \<Rightarrow> rpc_value \<Rightarrow> rpc_meta \<Rightarrow> rpc_meta" where
  "set_if b key v md = (if b then RpcMetaData_setValue_s key v md else md)"

definition set_type_infos :: "'t type_info_lib \<Rightarrow> (string, 't) std_map \<Rightarrow> rpc_meta \<Rightarrow> rpc_meta" where
  "set_type_infos ti infos md =
     (case infos of
        [] \<Rightarrow> md
      | [(k, t)] \<Rightarrow>
          if k = EMPTY_PREFIX_KEY then RpcMetaData_setValue_s ''typeInfo'' (ti_toRpcValue ti t) md
          else RpcMetaData_setValue_s ''typeInfos'' (rpc (VMap [(k, ti_toRpcValue ti t)])) md
      | infos \<Rightarrow> RpcMetaData_setValue_s ''typeInfos''
                   (rpc (VMap (foldl (\<lambda>m (k, t). map_set k (ti_toRpcValue ti t) m) [] infos))) md)"

definition ShvLogHeader_toMetaData :: "'t type_info_lib \<Rightarrow> 't log_header \<Rightarrow> rpc_meta" where
  "ShvLogHeader_toMetaData ti h =
     (let device = put_if (lh_deviceId h \<noteq> []) ''id'' (rpc (VString (lh_deviceId h))) [];
          device = put_if (lh_deviceType h \<noteq> []) ''type'' (rpc (VString (lh_deviceType h))) device;
          md = set_if (device \<noteq> []) ''device'' (rpc (VMap device)) meta_empty;
          md = RpcMetaData_setValue_s ''logVersion'' (rpc (VInt (lh_logVersion h))) md;
          md = RpcMetaData_setValue_s ''logParams'' (ShvGetLogParams_toRpcValue False (lh_logParams h)) md;
          md = RpcMetaData_setValue_s ''recordCount'' (rpc (VInt (lh_recordCount h))) md;
          md = RpcMetaData_setValue_s ''recordCountLimit'' (rpc (VInt (lh_recordCountLimit h))) md;
          md = RpcMetaData_setValue_s ''recordCountLimitHit'' (rpc (VBool (lh_recordCountLimitHit h))) md;
          md = RpcMetaData_setValue_s ''withSnapshot'' (rpc (VBool (lh_withSnapShot h))) md;
          md = RpcMetaData_setValue_s ''withPathsDict'' (rpc (VBool (lh_withPathsDict h))) md;
          md = set_if (lh_fields h \<noteq> []) ''fields'' (rpc (VList (lh_fields h))) md;
          md = set_if (lh_pathDict h \<noteq> []) ''pathsDict'' (rpc (VIMap (lh_pathDict h))) md;
          md = set_type_infos ti (lh_typeInfos h) md;
          md = RpcMetaData_setValue_s ''dateTime'' (lh_dateTime h) md;
          md = RpcMetaData_setValue_s ''since'' (lh_since h) md
      in RpcMetaData_setValue_s ''until'' (lh_until h) md)"

definition ShvLogHeader_copyTypeInfo :: "'t log_header \<Rightarrow> 't log_header \<Rightarrow> 't log_header" where
  "ShvLogHeader_copyTypeInfo source h = h\<lparr>lh_typeInfos := lh_typeInfos source\<rparr>"

definition ShvLogHeader_typeInfo :: "'t \<Rightarrow> string \<Rightarrow> 't log_header \<Rightarrow> 't" where
  "ShvLogHeader_typeInfo empty_info path_prefix h =
     (case map_find (lh_typeInfos h) path_prefix of None \<Rightarrow> empty_info | Some t \<Rightarrow> t)"

definition ShvLogHeader_setTypeInfo :: "'t \<Rightarrow> string \<Rightarrow> 't log_header \<Rightarrow> 't log_header" where
  "ShvLogHeader_setTypeInfo t path_prefix h = h\<lparr>lh_typeInfos := map_set path_prefix t (lh_typeInfos h)\<rparr>"

section \<open>Reading a log\<close>

record 't log_reader =
  lr_logHeader :: "'t log_header"
  lr_currentEntry :: journal_entry
  lr_log :: rpc_value
  lr_isThrowExceptions :: bool
  lr_currentIndex :: nat
  lr_snapshotMsec :: int

definition ShvLogRpcValueReader_make :: "'t type_info_lib \<Rightarrow> rpc_value \<Rightarrow> bool \<Rightarrow> log_exn + 't log_reader" where
  "ShvLogRpcValueReader_make ti l throw_exceptions =
     bind_e (rpc_call (ShvLogHeader_fromMetaData ti (RpcValue_metaData l))) (\<lambda>h.
       if \<not> RpcValue_isList l \<and> throw_exceptions then Inl (LogRpc (ShvException ''Log is corrupted!''))
       else Inr \<lparr>lr_logHeader = h, lr_currentEntry = ShvJournalEntry_default, lr_log = l,
                 lr_isThrowExceptions = throw_exceptions, lr_currentIndex = 0,
                 lr_snapshotMsec = (if lh_withSnapShot h then ShvLogHeader_sinceMsec h else -1)\<rparr>)"

definition reader_unmap_path :: "'t log_header \<Rightarrow> rpc_value \<Rightarrow> log_exn + string" where
  "reader_unmap_path h p =
     (if RpcValue_isInt p
      then bind_e (rpc_call (RpcValue_toInt p)) (\<lambda>i.
             Inr (RpcValue_asString (RpcIMap_value (lh_pathDict h) i invalid_value)))
      else Inr (RpcValue_asString p))"

text \<open>The loop of \<open>next\<close> over the rows from the current index on; the result says whether an entry was found.\<close>

primrec next_loop :: "'t log_reader \<Rightarrow> rpc_value list \<Rightarrow> log_exn + (bool \<times> 't log_reader)" where
  "next_loop r [] = Inr (False, r\<lparr>lr_currentEntry := ShvJournalEntry_default\<rparr>)"
| "next_loop r (val # rows) =
     (let r = r\<lparr>lr_currentIndex := lr_currentIndex r + 1\<rparr> in
      bind_e (ShvJournalEntry_fromRpcValueList (RpcValue_asList val) (Some (reader_unmap_path (lr_logHeader r))))
        (\<lambda>(err, entry).
           case err of
             Some er \<Rightarrow> if lr_isThrowExceptions r then Inl (LogRow er) else next_loop r rows
           | None \<Rightarrow> Inr (True, r\<lparr>lr_currentEntry := entry\<rparr>)))"

definition ShvLogRpcValueReader_next :: "'t log_reader \<Rightarrow> log_exn + (bool \<times> 't log_reader)" where
  "ShvLogRpcValueReader_next r = next_loop r (drop (lr_currentIndex r) (RpcValue_asList (lr_log r)))"

definition ShvLogRpcValueReader_isInSnapshot :: "'t log_reader \<Rightarrow> bool" where
  "ShvLogRpcValueReader_isInSnapshot r \<longleftrightarrow>
     lr_snapshotMsec r = je_epochMsec (lr_currentEntry r) \<or> ShvJournalEntry_isSnapshotValue (lr_currentEntry r)"

text \<open>
  What calling \<open>next\<close> until it answers \<open>false\<close> gives: the entries, each with the answer of \<open>isInSnapshot\<close>, ended by the exception
  where one is thrown.  \<open>next\<close> takes at least one row, so as many calls as there are rows suffice.
\<close>

primrec read_entries :: "nat \<Rightarrow> 't log_reader \<Rightarrow> (log_exn + (journal_entry \<times> bool)) list" where
  "read_entries 0 r = []"
| "read_entries (Suc n) r =
     (case ShvLogRpcValueReader_next r of
        Inl e \<Rightarrow> [Inl e]
      | Inr (found, r') \<Rightarrow>
          if found then Inr (lr_currentEntry r', ShvLogRpcValueReader_isInSnapshot r') # read_entries n r' else [])"

definition reader_run :: "'t log_reader \<Rightarrow> (log_exn + (journal_entry \<times> bool)) list" where
  "reader_run r = read_entries (length (RpcValue_asList (lr_log r)) - lr_currentIndex r) r"


section \<open>The reader walks the rows\<close>

lemma next_loop_props:
  "next_loop r rows = Inr (found, r') \<Longrightarrow>
   lr_log r' = lr_log r \<and> lr_logHeader r' = lr_logHeader r \<and> lr_snapshotMsec r' = lr_snapshotMsec r \<and>
   lr_isThrowExceptions r' = lr_isThrowExceptions r \<and> lr_currentIndex r \<le> lr_currentIndex r' \<and>
   (found \<longrightarrow> lr_currentIndex r < lr_currentIndex r') \<and> lr_currentIndex r' \<le> lr_currentIndex r + length rows"
proof (induction rows arbitrary: r)
  case Nil
  then show ?case by auto
next
  case (Cons val rows)
  show ?case
  proof (cases "ShvJournalEntry_fromRpcValueList (RpcValue_asList val) (Some (reader_unmap_path (lr_logHeader r)))")
    case (Inr x)
    then obtain err entry where "x = (err, entry)" by fastforce
    with Inr Cons.prems Cons.IH [of "r\<lparr>lr_currentIndex := lr_currentIndex r + 1\<rparr>"] show ?thesis
      by (cases err) (auto simp: Let_def split: if_splits)
  qed (use Cons.prems in \<open>simp add: Let_def\<close>)
qed

lemma read_entries_fuel:
  "length (RpcValue_asList (lr_log r)) - lr_currentIndex r \<le> n \<Longrightarrow>
   length (RpcValue_asList (lr_log r)) - lr_currentIndex r \<le> m \<Longrightarrow> read_entries n r = read_entries m r"
proof (induction n arbitrary: m r)
  case 0
  then have "ShvLogRpcValueReader_next r = Inr (False, r\<lparr>lr_currentEntry := ShvJournalEntry_default\<rparr>)"
    by (simp add: ShvLogRpcValueReader_next_def)
  then show ?case by (cases m) simp_all
next
  case (Suc n)
  show ?case
  proof (cases m)
    case 0
    then have "ShvLogRpcValueReader_next r = Inr (False, r\<lparr>lr_currentEntry := ShvJournalEntry_default\<rparr>)"
      using Suc.prems by (simp add: ShvLogRpcValueReader_next_def)
    then show ?thesis using 0 by simp
  next
    case m: (Suc k)
    have "read_entries n r' = read_entries k r'" if "ShvLogRpcValueReader_next r = Inr (True, r')" for r'
    proof -
      have "lr_log r' = lr_log r" "lr_currentIndex r < lr_currentIndex r'"
        using next_loop_props [of r _ True r'] that by (simp_all add: ShvLogRpcValueReader_next_def)
      then show ?thesis using Suc.prems m by (intro Suc.IH) simp_all
    qed
    then show ?thesis using m by (auto split: sum.splits)
  qed
qed

lemma read_entries_enough:
  "length (RpcValue_asList (lr_log r)) - lr_currentIndex r \<le> n \<Longrightarrow> read_entries n r = reader_run r"
  unfolding reader_run_def by (rule read_entries_fuel) simp_all

text \<open>A log of which every row converts is read to its end, row by row.\<close>

definition row_read :: "'t log_header \<Rightarrow> rpc_value \<Rightarrow> journal_entry \<Rightarrow> bool" where
  "row_read h val e \<longleftrightarrow>
     ShvJournalEntry_fromRpcValueList (RpcValue_asList val) (Some (reader_unmap_path h)) = Inr (None, e)"

definition in_snapshot :: "int \<Rightarrow> journal_entry \<Rightarrow> bool" where
  "in_snapshot ms e \<longleftrightarrow> ms = je_epochMsec e \<or> ShvJournalEntry_isSnapshotValue e"

lemma read_entries_rows:
  "list_all2 (row_read (lr_logHeader r)) (drop (lr_currentIndex r) (RpcValue_asList (lr_log r))) es \<Longrightarrow>
   read_entries (length es) r = map (\<lambda>e. Inr (e, in_snapshot (lr_snapshotMsec r) e)) es"
proof (induction es arbitrary: r)
  case (Cons e es)
  then obtain val rows where rows: "drop (lr_currentIndex r) (RpcValue_asList (lr_log r)) = val # rows"
      "row_read (lr_logHeader r) val e" "list_all2 (row_read (lr_logHeader r)) rows es"
    by (auto simp: list_all2_Cons2)
  define r' where "r' = r\<lparr>lr_currentIndex := lr_currentIndex r + 1, lr_currentEntry := e\<rparr>"
  have "ShvLogRpcValueReader_next r = Inr (True, r')"
    using rows(1,2) by (simp add: ShvLogRpcValueReader_next_def row_read_def r'_def Let_def)
  moreover have "drop (lr_currentIndex r') (RpcValue_asList (lr_log r')) = rows"
    using rows(1) by (simp add: r'_def) (metis drop_Suc list.sel(3) tl_drop)
  ultimately show ?case
    using Cons.IH [of r'] rows(3)
    by (simp add: r'_def in_snapshot_def ShvLogRpcValueReader_isInSnapshot_def)
qed simp

lemma reader_run_rows:
  assumes "list_all2 (row_read (lr_logHeader r)) (drop (lr_currentIndex r) (RpcValue_asList (lr_log r))) es"
  shows "reader_run r = map (\<lambda>e. Inr (e, in_snapshot (lr_snapshotMsec r) e)) es"
proof -
  have "length (RpcValue_asList (lr_log r)) - lr_currentIndex r = length es"
    using list_all2_lengthD [OF assms] by simp
  then show ?thesis using read_entries_rows [OF assms] by (simp add: reader_run_def)
qed


section \<open>Headers come back\<close>

text \<open>The type descriptions of a header have to survive their own conversions.\<close>

definition header_ok :: "'t type_info_lib \<Rightarrow> 't log_header \<Rightarrow> bool" where
  "header_ok ti h \<longleftrightarrow>
     params_ok (lh_logParams h) \<and> in_s 32 (lh_logVersion h) \<and> in_s 32 (lh_recordCount h) \<and> in_s 32 (lh_recordCountLimit h) \<and>
     sendable (lh_dateTime h) \<and> sendable (lh_since h) \<and> sendable (lh_until h) \<and> map_wf (lh_typeInfos h) \<and>
     (\<forall>(k, t) \<in> set (lh_typeInfos h). RpcValue_isMap (ti_toRpcValue ti t) \<and> ti_fromRpcValue ti (ti_toRpcValue ti t) = Inr t)"

lemma valref_value: "RpcMetaData_valref_s md k = RpcMetaData_value_s md k invalid_value"
  by (simp add: RpcMetaData_valref_s_def RpcMetaData_value_s_def)

lemma value_set_if:
  "RpcMetaData_value_s (set_if b s v md) s' d =
     (if b \<and> s' = s then (if RpcValue_isValid v then v else d) else RpcMetaData_value_s md s' d)"
  by (simp add: set_if_def RpcMetaData_value_setValue)

lemma set_type_infos_other:
  "s \<noteq> ''typeInfo'' \<Longrightarrow> s \<noteq> ''typeInfos'' \<Longrightarrow>
   RpcMetaData_value_s (set_type_infos ti infos md) s d = RpcMetaData_value_s md s d"
  by (cases infos; cases "tl infos") (simp_all add: set_type_infos_def RpcMetaData_value_setValue split_beta)

lemma foldl_map_values:
  "foldl (\<lambda>m (k, t). map_set k (f t) m) m infos = foldl (\<lambda>m (k, t). map_set k t m) m (map (map_prod id f) infos)"
  by (induction infos arbitrary: m) (auto simp: case_prod_unfold)

lemma load_type_infos_foldl:
  "\<forall>(k, t) \<in> set infos. ti_fromRpcValue ti (f t) = Inr t \<Longrightarrow>
   load_type_infos ti (map (map_prod id f) infos) m = Inr (foldl (\<lambda>m (k, t). map_set k t m) m infos)"
  by (induction infos arbitrary: m) (simp_all add: split_beta)

lemma map_wf_values: "map_wf (map (map_prod id f) m) = map_wf m"
  by (simp add: map_wf_def comp_def)

text \<open>What the reading half of the type descriptions finds.\<close>

lemma type_infos_back:
  assumes "map_wf infos"
    and "\<forall>(k, t) \<in> set infos. RpcValue_isMap (ti_toRpcValue ti t) \<and> ti_fromRpcValue ti (ti_toRpcValue ti t) = Inr t"
    and "RpcMetaData_value_s md ''typeInfo'' invalid_value = invalid_value"
    and "RpcMetaData_value_s md ''typeInfos'' invalid_value = invalid_value"
  defines "md' \<equiv> set_type_infos ti infos md"
  shows "bind_e (load_type_infos ti (RpcValue_asMap (RpcMetaData_value_s md' ''typeInfos'' invalid_value)) []) (\<lambda>infos.
      if RpcValue_isMap (RpcMetaData_value_s md' ''typeInfo'' invalid_value)
      then map_sum id (\<lambda>t. map_set EMPTY_PREFIX_KEY t infos) (ti_fromRpcValue ti (RpcMetaData_value_s md' ''typeInfo'' invalid_value))
      else Inr infos) = Inr infos"
proof -
  have none: "RpcValue_asMap invalid_value = []" "\<not> RpcValue_isMap invalid_value"
    by (simp_all add: as_defs type_test_defs)
  have many: ?thesis if md': "md' = RpcMetaData_setValue_s ''typeInfos''
      (rpc (VMap (foldl (\<lambda>m (k, t). map_set k (ti_toRpcValue ti t) m) [] infos))) md"
  proof -
    have "foldl (\<lambda>m (k, t). map_set k (ti_toRpcValue ti t) m) [] infos = map (map_prod id (ti_toRpcValue ti)) infos"
      using foldl_map_set_sorted [of "[]" "map (map_prod id (ti_toRpcValue ti)) infos"] assms(1)
      by (subst foldl_map_values) (simp add: map_wf_values)
    moreover have "load_type_infos ti (map (map_prod id (ti_toRpcValue ti)) infos) [] = Inr infos"
      using load_type_infos_foldl [of infos ti "ti_toRpcValue ti" "[]"] assms(2) foldl_map_set_sorted [of "[]" infos] assms(1)
      by (auto simp: split_beta)
    moreover have "RpcMetaData_value_s md' ''typeInfo'' invalid_value = invalid_value"
      using assms(3) by (simp add: md' RpcMetaData_value_setValue)
    moreover have "RpcMetaData_value_s md' ''typeInfos'' invalid_value =
        rpc (VMap (foldl (\<lambda>m (k, t). map_set k (ti_toRpcValue ti t) m) [] infos))"
      by (simp add: md' RpcMetaData_value_setValue type_test_defs)
    ultimately show ?thesis by (simp add: none as_defs)
  qed
  show ?thesis
  proof (cases infos)
    case Nil
    then show ?thesis using assms(3,4) none by (simp add: md'_def set_type_infos_def)
  next
    case (Cons kt rest)
    obtain k t where kt: "kt = (k, t)" by fastforce
    show ?thesis
    proof (cases "rest = [] \<and> k = EMPTY_PREFIX_KEY")
      case True
      then have m: "RpcValue_isMap (ti_toRpcValue ti t)" "ti_fromRpcValue ti (ti_toRpcValue ti t) = Inr t"
        using assms(2) Cons kt by auto
      then have "RpcValue_isValid (ti_toRpcValue ti t)" by (auto simp: type_test_defs)
      then show ?thesis using True Cons kt m assms(4) none
        by (simp add: md'_def set_type_infos_def RpcMetaData_value_setValue)
    next
      case False
      then show ?thesis using Cons kt
        by (intro many) (cases rest, auto simp: md'_def set_type_infos_def)
    qed
  qed
qed


lemma put_if_Nil: "put_if b k v m = [] \<longleftrightarrow> \<not> b \<and> m = []"
  by (cases m) (auto simp: put_if_def split: if_splits)

lemma device_fields:
  fixes a b
  defines "device \<equiv> put_if (b \<noteq> []) ''type'' (rpc (VString b)) (put_if (a \<noteq> []) ''id'' (rpc (VString a)) [])"
  shows "RpcValue_asString (RpcMap_value (RpcValue_asMap (if device \<noteq> [] then rpc (VMap device) else invalid_value)) ''type'' invalid_value) = b"
    "RpcValue_asString (RpcMap_value (RpcValue_asMap (if device \<noteq> [] then rpc (VMap device) else invalid_value)) ''id'' invalid_value) = a"
  by (auto simp: device_def put_if_Nil) (auto simp: as_defs RpcMap_value_def map_find_put_if put_if_def)

text \<open>The entries that are not touched by the type descriptions and the three times.\<close>

definition base_meta :: "'t log_header \<Rightarrow> rpc_meta" where
  "base_meta h =
     (let device = put_if (lh_deviceType h \<noteq> []) ''type'' (rpc (VString (lh_deviceType h)))
            (put_if (lh_deviceId h \<noteq> []) ''id'' (rpc (VString (lh_deviceId h))) []) in
      set_if (lh_pathDict h \<noteq> []) ''pathsDict'' (rpc (VIMap (lh_pathDict h)))
      (set_if (lh_fields h \<noteq> []) ''fields'' (rpc (VList (lh_fields h)))
      (RpcMetaData_setValue_s ''withPathsDict'' (rpc (VBool (lh_withPathsDict h)))
      (RpcMetaData_setValue_s ''withSnapshot'' (rpc (VBool (lh_withSnapShot h)))
      (RpcMetaData_setValue_s ''recordCountLimitHit'' (rpc (VBool (lh_recordCountLimitHit h)))
      (RpcMetaData_setValue_s ''recordCountLimit'' (rpc (VInt (lh_recordCountLimit h)))
      (RpcMetaData_setValue_s ''recordCount'' (rpc (VInt (lh_recordCount h)))
      (RpcMetaData_setValue_s ''logParams'' (ShvGetLogParams_toRpcValue False (lh_logParams h))
      (RpcMetaData_setValue_s ''logVersion'' (rpc (VInt (lh_logVersion h)))
      (set_if (device \<noteq> []) ''device'' (rpc (VMap device)) meta_empty))))))))))"

lemma toMetaData_base:
  "ShvLogHeader_toMetaData ti h =
     RpcMetaData_setValue_s ''until'' (lh_until h) (RpcMetaData_setValue_s ''since'' (lh_since h)
      (RpcMetaData_setValue_s ''dateTime'' (lh_dateTime h) (set_type_infos ti (lh_typeInfos h) (base_meta h))))"
  by (simp add: ShvLogHeader_toMetaData_def Let_def base_meta_def)

lemma meta_empty_value [simp]: "RpcMetaData_value_s meta_empty k d = d"
  by (simp add: RpcMetaData_value_s_def meta_empty_def)

lemma base_meta_fields:
  "RpcMetaData_value_s (base_meta h) ''typeInfo'' invalid_value = invalid_value"
  "RpcMetaData_value_s (base_meta h) ''typeInfos'' invalid_value = invalid_value"
  "RpcMetaData_value_s (base_meta h) ''logVersion'' invalid_value = rpc (VInt (lh_logVersion h))"
  "RpcMetaData_value_s (base_meta h) ''logParams'' invalid_value = ShvGetLogParams_toRpcValue False (lh_logParams h)"
  "RpcMetaData_value_s (base_meta h) ''recordCount'' invalid_value = rpc (VInt (lh_recordCount h))"
  "RpcMetaData_value_s (base_meta h) ''recordCountLimit'' invalid_value = rpc (VInt (lh_recordCountLimit h))"
  "RpcMetaData_value_s (base_meta h) ''recordCountLimitHit'' invalid_value = rpc (VBool (lh_recordCountLimitHit h))"
  "RpcMetaData_value_s (base_meta h) ''withSnapshot'' invalid_value = rpc (VBool (lh_withSnapShot h))"
  "RpcMetaData_value_s (base_meta h) ''withPathsDict'' (rpc (VBool True)) = rpc (VBool (lh_withPathsDict h))"
  "RpcMetaData_value_s (base_meta h) ''fields'' invalid_value = (if lh_fields h \<noteq> [] then rpc (VList (lh_fields h)) else invalid_value)"
  "RpcMetaData_value_s (base_meta h) ''pathsDict'' invalid_value = (if lh_pathDict h \<noteq> [] then rpc (VIMap (lh_pathDict h)) else invalid_value)"
  "RpcValue_asString (RpcMap_value (RpcValue_asMap (RpcMetaData_value_s (base_meta h) ''device'' invalid_value)) ''type'' invalid_value) = lh_deviceType h"
  "RpcValue_asString (RpcMap_value (RpcValue_asMap (RpcMetaData_value_s (base_meta h) ''device'' invalid_value)) ''id'' invalid_value) = lh_deviceId h"
proof -
  have valid: "RpcValue_isValid (rpc (VInt i))" "RpcValue_isValid (rpc (VBool b))" "RpcValue_isValid (rpc (VList l))"
      "RpcValue_isValid (rpc (VMap m))" "RpcValue_isValid (rpc (VIMap im))"
      "RpcValue_isValid (ShvGetLogParams_toRpcValue False p)" for i b l m im p
    by (simp_all add: type_test_defs ShvGetLogParams_toRpcValue_def Let_def)
  note val0 = value_set_if RpcMetaData_value_setValue valid
  define device where "device = put_if (lh_deviceType h \<noteq> []) ''type'' (rpc (VString (lh_deviceType h)))
      (put_if (lh_deviceId h \<noteq> []) ''id'' (rpc (VString (lh_deviceId h))) [])"
  have "RpcMetaData_value_s (base_meta h) ''device'' invalid_value = (if device \<noteq> [] then rpc (VMap device) else invalid_value)"
    by (simp add: base_meta_def device_def [symmetric] val0)
  note dev = device_fields [of "lh_deviceType h" "lh_deviceId h", folded device_def, folded this]
  show "RpcValue_asString (RpcMap_value (RpcValue_asMap (RpcMetaData_value_s (base_meta h) ''device'' invalid_value)) ''type'' invalid_value) = lh_deviceType h"
    "RpcValue_asString (RpcMap_value (RpcValue_asMap (RpcMetaData_value_s (base_meta h) ''device'' invalid_value)) ''id'' invalid_value) = lh_deviceId h"
    by (fact dev)+
qed (simp_all add: base_meta_def Let_def value_set_if RpcMetaData_value_setValue type_test_defs
    ShvGetLogParams_toRpcValue_def)

lemma header_roundtrip:
  assumes "header_ok ti h"
  shows "ShvLogHeader_fromMetaData ti (ShvLogHeader_toMetaData ti h) = Inr h"
proof -
  define md md1 where "md = ShvLogHeader_toMetaData ti h" and "md1 = set_type_infos ti (lh_typeInfos h) (base_meta h)"
  have md: "md = RpcMetaData_setValue_s ''until'' (lh_until h) (RpcMetaData_setValue_s ''since'' (lh_since h)
      (RpcMetaData_setValue_s ''dateTime'' (lh_dateTime h) md1))"
    by (simp add: md_def toMetaData_base md1_def)
  have ti: "RpcMetaData_value_s md ''typeInfo'' invalid_value = RpcMetaData_value_s md1 ''typeInfo'' invalid_value"
      "RpcMetaData_value_s md ''typeInfos'' invalid_value = RpcMetaData_value_s md1 ''typeInfos'' invalid_value"
    by (simp_all add: md RpcMetaData_value_setValue)
  have times: "RpcMetaData_value_s md ''until'' invalid_value = lh_until h"
      "RpcMetaData_value_s md ''since'' invalid_value = lh_since h"
      "RpcMetaData_value_s md ''dateTime'' invalid_value = lh_dateTime h"
    using assms by (auto simp: md RpcMetaData_value_setValue header_ok_def sendable_def)
  have rest: "RpcMetaData_value_s md k d = RpcMetaData_value_s (base_meta h) k d"
    if "k \<notin> {''typeInfo'', ''typeInfos'', ''until'', ''since'', ''dateTime''}" for k d
    using that by (simp add: md RpcMetaData_value_setValue md1_def set_type_infos_other)
  have conts: "RpcValue_asList (if l \<noteq> [] then rpc (VList l) else invalid_value) = l"
      "RpcValue_asIMap (if m \<noteq> [] then rpc (VIMap m) else invalid_value) = m" for l m
    by (simp_all add: as_defs)
  have ints: "s_wrap 32 (lh_logVersion h) = lh_logVersion h" "s_wrap 32 (lh_recordCount h) = lh_recordCount h"
      "s_wrap 32 (lh_recordCountLimit h) = lh_recordCountLimit h"
      "ShvGetLogParams_fromRpcValue (ShvGetLogParams_toRpcValue False (lh_logParams h)) = Inr (lh_logParams h)"
    using assms by (simp_all add: header_ok_def s_wrap_id params_roundtrip)
  have assoc: "bind_e (bind_e a g) f = bind_e a (\<lambda>x. bind_e (g x) f)" for a g f
    by (cases a) simp_all
  have infos_back: "bind_e (load_type_infos ti (RpcValue_asMap (RpcMetaData_value_s md ''typeInfos'' invalid_value)) []) (\<lambda>infos.
      bind_e (if RpcValue_isMap (RpcMetaData_value_s md ''typeInfo'' invalid_value)
      then map_sum id (\<lambda>t. map_set EMPTY_PREFIX_KEY t infos) (ti_fromRpcValue ti (RpcMetaData_value_s md ''typeInfo'' invalid_value))
      else Inr infos) f) = f (lh_typeInfos h)" for f :: "_ \<Rightarrow> exn + 'a log_header"
    unfolding ti assoc [symmetric] md1_def
    by (subst type_infos_back [OF _ _ base_meta_fields(1,2)]) (use assms in \<open>auto simp: header_ok_def\<close>)
  show ?thesis
    unfolding md_def [symmetric] ShvLogHeader_fromMetaData_def Let_def valref_value
    by (simp add: rest base_meta_fields times ints conts infos_back del: not_Cons_self2)
qed

end
