(* ===== verification/Get_Log.thy ===== *)
theory Get_Log
  imports Log_Header
begin

text \<open>
  \<open>getLog\<close> (\<open>libshvcore/utils/getlog.cpp\<close>) and the snapshots of \<open>AbstractShvJournal\<close> (\<open>abstractshvjournal.cpp\<close>): the
  entries of some readers, filtered by the parameters, as a log with a header.  A reader is what calling its \<open>next\<close> and \<open>entry\<close> gives:
  the list of its entries, ended by the exception if one is thrown, so that a reader that is not asked any more does not throw.
\<close>

section \<open>Snapshots\<close>

type_synonym shv_snapshot = "(string, journal_entry) std_map"

abbreviation NodeDrop_MetaType_ID :: int where "NodeDrop_MetaType_ID \<equiv> 6"

definition is_node_drop :: "rpc_value \<Rightarrow> exn + bool" where
  "is_node_drop v =
     bind_e (RpcValue_metaTypeNameSpaceId v) (\<lambda>ns.
       if ns = GlobalNS_ID then map_sum id (\<lambda>i. i = NodeDrop_MetaType_ID) (RpcValue_metaTypeId v) else Inr False)"

definition addToSnapshot :: "journal_entry \<Rightarrow> shv_snapshot \<Rightarrow> exn + shv_snapshot" where
  "addToSnapshot entry snapshot =
     (if je_domain entry \<noteq> DOMAIN_VAL_CHANGE then Inr snapshot
      else bind_e (is_node_drop (je_value entry)) (\<lambda>drop.
        if drop then Inr (forEachDirAndSubdirsDeleteIf snapshot (je_path entry) (\<lambda>_. True))
        else Inr (map_set (je_path entry) entry snapshot)))"

definition clearSnapshot :: "shv_snapshot \<Rightarrow> shv_snapshot" where
  "clearSnapshot snapshot = []"

section \<open>Rows\<close>

definition as_shared_path :: "string \<Rightarrow> rpc_map \<Rightarrow> rpc_value \<times> rpc_map" where
  "as_shared_path path path_map =
     (case map_find path_map path of
        None \<Rightarrow> (let ret = rpc (VInt (s_wrap 32 (int (length path_map)))) in (ret, map_set path ret path_map))
      | Some v \<Rightarrow> (v, path_map))"

definition append_log_entry :: "log_params \<Rightarrow> journal_entry \<Rightarrow> rpc_list \<times> rpc_map \<Rightarrow> rpc_list \<times> rpc_map" where
  "append_log_entry p e st =
     (let (log', pathCache) = st in
      if lp_withPathsDict p
      then let (v, pathCache) = as_shared_path (je_path e) pathCache in
           (log' @ [rpc (VList (ShvJournalEntry_toRpcValueList (Some (\<lambda>_. v)) e))], pathCache)
      else (log' @ [rpc (VList (ShvJournalEntry_toRpcValueList None e))], pathCache))"

definition snapshot_since :: "shv_snapshot \<Rightarrow> bool \<Rightarrow> int \<Rightarrow> int" where
  "snapshot_since snapshot since_last params_since_msec =
     (if since_last then foldl (\<lambda>since_res kv. max (je_epochMsec (snd kv)) since_res) params_since_msec snapshot
      else params_since_msec)"

definition snapshot_entry :: "int \<Rightarrow> journal_entry \<Rightarrow> journal_entry" where
  "snapshot_entry msec e =
     ShvJournalEntry_setSpontaneous False (ShvJournalEntry_setSnapshotValue True (e\<lparr>je_epochMsec := msec\<rparr>))"

definition snapshot_to_entries :: "log_params \<Rightarrow> shv_snapshot \<Rightarrow> bool \<Rightarrow> int \<Rightarrow> rpc_map \<Rightarrow> rpc_list \<times> rpc_map" where
  "snapshot_to_entries p snapshot since_last params_since_msec pathCache =
     (let since_res = snapshot_since snapshot since_last params_since_msec in
      foldl (\<lambda>st kv. append_log_entry p (snapshot_entry since_res (snd kv)) st) ([], pathCache) snapshot)"

section \<open>The entries of a vector\<close>

record vector_reader =
  vr_entries :: "journal_entry list"
  vr_entriesIter :: "nat option"

definition ShvLogVectorReader_make :: "journal_entry list \<Rightarrow> vector_reader" where
  "ShvLogVectorReader_make entries = \<lparr>vr_entries = entries, vr_entriesIter = None\<rparr>"

definition ShvLogVectorReader_next :: "vector_reader \<Rightarrow> bool \<times> vector_reader" where
  "ShvLogVectorReader_next r =
     (let it = (case vr_entriesIter r of None \<Rightarrow> 0 | Some i \<Rightarrow> i + 1) in
      (it \<noteq> length (vr_entries r), r\<lparr>vr_entriesIter := Some it\<rparr>))"

text \<open>\<open>None\<close> is the \<open>std::logic_error\<close> of a reader that was not advanced yet.\<close>

definition ShvLogVectorReader_entry :: "vector_reader \<Rightarrow> journal_entry option" where
  "ShvLogVectorReader_entry r = map_option (\<lambda>i. vr_entries r ! i) (vr_entriesIter r)"

primrec vector_entries :: "nat \<Rightarrow> vector_reader \<Rightarrow> journal_entry option list" where
  "vector_entries 0 r = []"
| "vector_entries (Suc n) r =
     (let (found, r') = ShvLogVectorReader_next r in
      if found then ShvLogVectorReader_entry r' # vector_entries n r' else [])"

lemma vector_entries_from:
  "i \<le> length es \<Longrightarrow>
   vector_entries (Suc (length es) - i) \<lparr>vr_entries = es, vr_entriesIter = (case i of 0 \<Rightarrow> None | Suc j \<Rightarrow> Some j)\<rparr> =
     map Some (drop i es)"
proof (induction "length es - i" arbitrary: i)
  case 0
  then have i: "i = length es" by simp
  have "(case (case i of 0 \<Rightarrow> None | Suc j \<Rightarrow> Some j) of None \<Rightarrow> 0 | Some j \<Rightarrow> j + 1) = i" by (cases i) simp_all
  then show ?case using i by (simp add: ShvLogVectorReader_next_def del: One_nat_def)
next
  case (Suc n)
  then have i: "i < length es" by simp
  have it: "(case (case i of 0 \<Rightarrow> None | Suc j \<Rightarrow> Some j) of None \<Rightarrow> 0 | Some j \<Rightarrow> j + 1) = i" by (cases i) simp_all
  have "vector_entries (Suc (length es) - Suc i) \<lparr>vr_entries = es, vr_entriesIter = Some i\<rparr> = map Some (drop (Suc i) es)"
    using Suc.hyps(1) [of "Suc i"] Suc.hyps(2) i by simp
  moreover have "Suc (length es) - i = Suc (length es - i)" using i by simp
  ultimately show ?case
    using i it by (simp add: ShvLogVectorReader_next_def ShvLogVectorReader_entry_def Cons_nth_drop_Suc [symmetric] del: One_nat_def)
qed

lemma vector_entries_all: "vector_entries (Suc (length es)) (ShvLogVectorReader_make es) = map Some es"
  using vector_entries_from [of 0 es] by (simp add: ShvLogVectorReader_make_def)


section \<open>The loop over the readers\<close>

record log_run =
  run_snapshot :: shv_snapshot
  run_log :: rpc_list
  run_pathCache :: rpc_map
  run_limitHit :: bool
  run_last_entry :: "journal_entry option"
  run_first_unmatching :: "journal_entry option"
  run_record_count :: int
  run_have_data_before_since :: bool

definition log_run_start :: log_run where
  "log_run_start =
     \<lparr>run_snapshot = [], run_log = [], run_pathCache = [], run_limitHit = False, run_last_entry = None,
      run_first_unmatching = None, run_record_count = 0, run_have_data_before_since = False\<rparr>"

definition differs_from_last :: "journal_entry \<Rightarrow> log_run \<Rightarrow> bool" where
  "differs_from_last entry st =
     (case run_last_entry st of
        None \<Rightarrow> False
      | Some l \<Rightarrow> \<not> RpcDateTime_eq (ShvJournalEntry_dateTime entry) (ShvJournalEntry_dateTime l))"

text \<open>An entry in the window; \<open>False\<close> leaves both loops.\<close>

definition take_entry :: "log_params \<Rightarrow> journal_entry \<Rightarrow> log_run \<Rightarrow> bool \<times> log_run" where
  "take_entry p entry st =
     (let hit = int (length (run_snapshot st)) + run_record_count st + 1 > lp_recordCountLimit p;
          st = (if hit then st\<lparr>run_limitHit := True\<rparr> else st) in
      if hit \<and> differs_from_last entry st then (False, st\<lparr>run_first_unmatching := Some entry\<rparr>)
      else
        let (log', pathCache) = append_log_entry p entry (run_log st, run_pathCache st) in
        (True, st\<lparr>run_log := log', run_pathCache := pathCache, run_record_count := run_record_count st + 1,
                  run_last_entry := Some entry\<rparr>))"

definition log_step ::
    "'rx regex_lib \<Rightarrow> 'rx pattern_matcher \<Rightarrow> log_params \<Rightarrow> int \<Rightarrow> int \<Rightarrow> journal_entry \<Rightarrow> log_run \<Rightarrow> log_exn + (bool \<times> log_run)" where
  "log_step rx pm p since_msec until_msec entry st =
     (if \<not> PatternMatcher_match rx pm entry then Inr (True, st)
      else
        bind_e (if ShvGetLogParams_isSinceLast p \<or> je_epochMsec entry \<le> since_msec
                then rpc_call (addToSnapshot entry (run_snapshot st)) else Inr (run_snapshot st)) (\<lambda>snapshot.
        let st = st\<lparr>run_snapshot := snapshot\<rparr> in
        if je_epochMsec entry \<ge> until_msec then Inr (False, st\<lparr>run_first_unmatching := Some entry\<rparr>)
        else if je_epochMsec entry > since_msec \<and> \<not> ShvGetLogParams_isSinceLast p then Inr (take_entry p entry st)
        else Inr (True, st\<lparr>run_have_data_before_since := True, run_last_entry := Some entry\<rparr>)))"

primrec reader_loop ::
    "(journal_entry \<Rightarrow> log_run \<Rightarrow> log_exn + (bool \<times> log_run)) \<Rightarrow> (log_exn + journal_entry) list \<Rightarrow> log_run
     \<Rightarrow> log_exn + (bool \<times> log_run)" where
  "reader_loop step [] st = Inr (True, st)"
| "reader_loop step (x # xs) st =
     (case x of
        Inl e \<Rightarrow> Inl e
      | Inr entry \<Rightarrow>
          bind_e (step entry st) (\<lambda>(go_on, st'). if go_on then reader_loop step xs st' else Inr (False, st')))"

primrec readers_loop ::
    "(journal_entry \<Rightarrow> log_run \<Rightarrow> log_exn + (bool \<times> log_run)) \<Rightarrow> (log_exn + journal_entry) list list \<Rightarrow> log_run
     \<Rightarrow> log_exn + (bool \<times> log_run)" where
  "readers_loop step [] st = Inr (True, st)"
| "readers_loop step (r # rs) st =
     bind_e (reader_loop step r st) (\<lambda>(go_on, st'). if go_on then readers_loop step rs st' else Inr (False, st'))"

section \<open>The answer\<close>

definition params_msec :: "rpc_value \<Rightarrow> int \<Rightarrow> int" where
  "params_msec v d = (if RpcValue_isDateTime v then RpcDateTime_msecsSinceEpoch (RpcValue_toDateTime v) else d)"

definition int64_max :: int where "int64_max = 2 ^ 63 - 1"

definition unmap_path :: "log_params \<Rightarrow> rpc_imap \<Rightarrow> rpc_value \<Rightarrow> log_exn + string" where
  "unmap_path p pathDict path =
     (if lp_withPathsDict p
      then bind_e (rpc_call (RpcValue_toInt path)) (\<lambda>i.
             case map_find pathDict i of None \<Rightarrow> Inl LogOutOfRange | Some v \<Rightarrow> Inr (RpcValue_asString v))
      else Inr (RpcValue_asString path))"

definition row_entry :: "log_params \<Rightarrow> rpc_imap \<Rightarrow> rpc_value \<Rightarrow> log_exn + journal_entry" where
  "row_entry p pathDict row =
     map_sum id snd (ShvJournalEntry_fromRpcValueList (RpcValue_asList row) (Some (unmap_path p pathDict)))"

definition make_path_dict :: "rpc_map \<Rightarrow> log_exn + rpc_imap" where
  "make_path_dict pathCache =
     foldl (\<lambda>dict kv. bind_e dict (\<lambda>d. bind_e (rpc_call (RpcValue_toInt (snd kv))) (\<lambda>i.
              Inr (map_set i (rpc (VString (fst kv))) d)))) (Inr []) pathCache"

primrec erase_at_time :: "log_params \<Rightarrow> rpc_imap \<Rightarrow> date_time \<Rightarrow> rpc_list \<Rightarrow> log_exn + rpc_list" where
  "erase_at_time p pathDict compare_with [] = Inr []"
| "erase_at_time p pathDict compare_with (row # rows) =
     bind_e (row_entry p pathDict row) (\<lambda>e.
     bind_e (erase_at_time p pathDict compare_with rows) (\<lambda>rows'.
       Inr (if RpcDateTime_eq (ShvJournalEntry_dateTime e) compare_with then rows' else row # rows')))"

text \<open>The rows of the answer before the result log: a snapshot, or the last entry.\<close>

definition snapshot_rows :: "log_params \<Rightarrow> int \<Rightarrow> log_run \<Rightarrow> rpc_list \<times> rpc_map" where
  "snapshot_rows p since_msec st =
     (if lp_withSnapshot p
      then snapshot_to_entries p (run_snapshot st) (ShvGetLogParams_isSinceLast p) since_msec (run_pathCache st)
      else (case run_last_entry st of
              Some e \<Rightarrow> if ShvGetLogParams_isSinceLast p then append_log_entry p e ([], run_pathCache st)
                        else ([], run_pathCache st)
            | None \<Rightarrow> ([], run_pathCache st)))"

text \<open>Which entry the answer ends before, and the rows without those of the last millisecond when they may still be incomplete.\<close>

definition settle_end ::
    "log_params \<Rightarrow> rpc_imap \<Rightarrow> date_time \<Rightarrow> rpc_list \<Rightarrow> rpc_list \<Rightarrow> rpc_list \<Rightarrow> journal_entry option
     \<Rightarrow> log_exn + (rpc_list \<times> journal_entry option)" where
  "settle_end p pathDict now snapshot_entries result_log result_entries first_unmatching =
     bind_e (if first_unmatching = None \<and> result_log = [] \<and> snapshot_entries \<noteq> []
             then map_sum id Some (row_entry p pathDict (last result_entries)) else Inr first_unmatching)
       (\<lambda>first_unmatching.
     if \<not> ShvGetLogParams_isSinceLast p \<and> result_entries \<noteq> [] \<and> first_unmatching = None then
       bind_e (row_entry p pathDict (last result_entries)) (\<lambda>e.
         if \<bar>RpcDateTime_msecsSinceEpoch (ShvJournalEntry_dateTime e) - RpcDateTime_msecsSinceEpoch now\<bar> < 1000
         then map_sum id (\<lambda>rows. (rows, Some e)) (erase_at_time p pathDict (ShvJournalEntry_dateTime e) result_entries)
         else Inr (result_entries, Some e))
     else Inr (result_entries, first_unmatching))"

definition since_until ::
    "log_params \<Rightarrow> bool \<Rightarrow> rpc_list \<Rightarrow> journal_entry option \<Rightarrow> log_exn + (rpc_value \<times> rpc_value)" where
  "since_until p have_data_before_since result_entries first_unmatching =
     (let front = RpcList_value (RpcValue_asList (hd result_entries)) (Column_ix ColTimestamp) in
      if result_entries = [] then
        Inr (if RpcValue_isValid (lp_since p) then lp_since p else lp_until p,
             if RpcValue_isValid (lp_until p) then lp_until p else lp_since p)
      else if ShvGetLogParams_isSinceLast p then Inr (front, front)
      else (case first_unmatching of
              None \<Rightarrow> Inl LogBadOptional
            | Some e \<Rightarrow> Inr (if have_data_before_since then lp_since p else front, rpc (VDateTime (ShvJournalEntry_dateTime e)))))"

datatype ignore_limit = IgnoreYes | IgnoreNo

definition answered_limit :: "ignore_limit \<Rightarrow> log_params \<Rightarrow> int" where
  "answered_limit ignore_record_count_limit p =
     (if ignore_record_count_limit = IgnoreYes then int_max32
      else min (lp_recordCountLimit p) DEFAULT_GET_LOG_RECORD_COUNT_LIMIT)"

text \<open>\<open>clock\<close> is what \<open>DateTime::now\<close> answers when the header is written.\<close>

definition impl_get_log ::
    "'rx regex_lib \<Rightarrow> 't type_info_lib \<Rightarrow> date_time \<Rightarrow> (log_exn + journal_entry) list list \<Rightarrow> log_params \<Rightarrow> date_time
     \<Rightarrow> ignore_limit \<Rightarrow> log_exn + rpc_value" where
  "impl_get_log rx ti clock readers orig_params now ignore_record_count_limit =
     (let p = (if lp_withSnapshot orig_params \<and> \<not> RpcValue_isValid (lp_since orig_params)
               then orig_params\<lparr>lp_withSnapshot := False\<rparr> else orig_params);
          pm = PatternMatcher_make rx p;
          since_msec = params_msec (lp_since p) 0;
          until_msec = params_msec (lp_until p) int64_max in
      bind_e (readers_loop (log_step rx pm p since_msec until_msec) readers log_run_start) (\<lambda>(_, st).
      let (snapshot_entries, pathCache) = snapshot_rows p since_msec st;
          result_entries = snapshot_entries @ run_log st in
      bind_e (if lp_withPathsDict p then make_path_dict pathCache else Inr []) (\<lambda>pathDict.
      bind_e (settle_end p pathDict now snapshot_entries (run_log st) result_entries (run_first_unmatching st))
        (\<lambda>(result_entries, first_unmatching).
      bind_e (since_until p (run_have_data_before_since st) result_entries first_unmatching) (\<lambda>(since, until).
      let log_header = (ShvLogHeader_default :: 't log_header)
            \<lparr>lh_recordCountLimit := answered_limit ignore_record_count_limit p, lh_withSnapShot := lp_withSnapshot p,
             lh_withPathsDict := lp_withPathsDict p, lh_recordCountLimitHit := run_limitHit st, lh_pathDict := pathDict,
             lh_since := since, lh_until := until, lh_dateTime := rpc (VDateTime clock), lh_logParams := orig_params,
             lh_recordCount := s_wrap 32 (int (length result_entries))\<rparr>
      in rpc_call (RpcValue_setMetaData (ShvLogHeader_toMetaData ti log_header) (rpc (VList result_entries))))))))"

definition getLog ::
    "'rx regex_lib \<Rightarrow> 't type_info_lib \<Rightarrow> date_time \<Rightarrow> journal_entry list \<Rightarrow> log_params \<Rightarrow> date_time \<Rightarrow> ignore_limit
     \<Rightarrow> log_exn + rpc_value" where
  "getLog rx ti clock entries p now ignore_record_count_limit =
     impl_get_log rx ti clock [map Inr entries] p now ignore_record_count_limit"

section \<open>The file to begin with\<close>

primrec newest_loop :: "int \<Rightarrow> nat \<Rightarrow> nat \<Rightarrow> int list \<Rightarrow> nat" where
  "newest_loop since_ms i last_matching [] = last_matching"
| "newest_loop since_ms i last_matching (f # fs) =
     (if f > since_ms then last_matching else newest_loop since_ms (i + 1) i fs)"

text \<open>An iterator is the index it points at.\<close>

definition newestMatchingFileIt :: "int list \<Rightarrow> log_params \<Rightarrow> nat" where
  "newestMatchingFileIt files p =
     (if (\<not> RpcValue_isDateTime (lp_since p) \<and> \<not> ShvGetLogParams_isSinceLast p) \<or> files = [] then 0
      else if ShvGetLogParams_isSinceLast p then length files - 1
      else
        let since_ms = RpcDateTime_msecsSinceEpoch (RpcValue_toDateTime (lp_since p)) in
        if hd files \<ge> since_ms then 0 else newest_loop since_ms 0 0 files)"


lemma newest_loop_spec:
  "sorted files \<Longrightarrow> hd files \<le> since_ms \<Longrightarrow> files \<noteq> [] \<Longrightarrow>
   newest_loop since_ms i l files = i + (length (filter (\<lambda>f. f \<le> since_ms) files) - 1)"
proof (induction files arbitrary: i l)
  case (Cons f fs)
  show ?case
  proof (cases "fs = [] \<or> since_ms < hd fs")
    case True
    then have "filter (\<lambda>f. f \<le> since_ms) fs = []" using Cons.prems(1) by (cases fs) (auto simp: filter_empty_conv)
    moreover have "newest_loop since_ms (i + 1) i fs = i" using True by (cases fs) auto
    ultimately show ?thesis using Cons.prems(2) by simp
  next
    case False
    then have "filter (\<lambda>f. f \<le> since_ms) fs \<noteq> []" by (cases fs) auto
    then show ?thesis using Cons False by (auto simp: Suc_diff_Suc)
  qed
qed simp

lemma filter_le_prefix:
  "sorted files \<Longrightarrow> i < length files \<Longrightarrow> files ! i \<le> (s :: int) \<longleftrightarrow> i < length (filter (\<lambda>f. f \<le> s) files)"
proof (induction files arbitrary: i)
  case (Cons f fs)
  show ?case
  proof (cases "f \<le> s")
    case True
    then show ?thesis using Cons by (cases i) auto
  next
    case False
    then have "filter (\<lambda>f. f \<le> s) (f # fs) = []" using Cons.prems(1) by (auto simp: filter_empty_conv)
    moreover have "f \<le> (f # fs) ! i" using Cons.prems by (cases i) auto
    ultimately show ?thesis using False by auto
  qed
qed simp

lemma newestMatchingFileIt_spec:
  assumes "sorted files" "files \<noteq> []" "RpcValue_isDateTime (lp_since p)"
  defines "i \<equiv> newestMatchingFileIt files p" and "s \<equiv> params_msec (lp_since p) 0"
  shows "i < length files" "(\<exists>f \<in> set files. f \<le> s) \<Longrightarrow> files ! i \<le> s" "f \<in> set files \<Longrightarrow> f \<le> s \<Longrightarrow> f \<le> files ! i"
    "(\<forall>f \<in> set files. s < f) \<Longrightarrow> i = 0"
proof -
  let ?n = "length (filter (\<lambda>f. f \<le> s) files)"
  have last: "\<not> ShvGetLogParams_isSinceLast p"
    using assms(3) by (cases "lp_since p"; cases "rv_var (lp_since p)") (auto simp: ShvGetLogParams_isSinceLast_def type_test_defs as_defs)
  have i: "i = (if hd files \<ge> s then 0 else ?n - 1)"
    using assms(1-3) last newest_loop_spec [of files s 0 0]
    by (simp add: i_def newestMatchingFileIt_def s_def params_msec_def Let_def)
  have len: "?n \<le> length files" by simp
  show i_less: "i < length files" using i assms(2) len by (cases "length files") auto
  have hd_le: "hd files \<le> f" if "f \<in> set files" for f using assms(1) that by (cases files) auto
  have hd_nth: "hd files = files ! 0" using assms(2) by (simp add: hd_conv_nth)
  show "files ! i \<le> s" if "\<exists>f \<in> set files. f \<le> s"
  proof (cases "hd files \<ge> s")
    case True
    then show ?thesis using that hd_le i hd_nth by fastforce
  next
    case False
    then have "0 < ?n" using assms(2) filter_le_prefix [OF assms(1), of 0 s] hd_nth by simp
    then show ?thesis using False i i_less filter_le_prefix [OF assms(1) i_less, of s] by simp
  qed
  show "f \<le> files ! i" if f: "f \<in> set files" "f \<le> s"
  proof (cases "hd files \<ge> s")
    case True
    then show ?thesis using f i hd_nth by simp
  next
    case False
    obtain k where k: "k < length files" "files ! k = f" using f(1) by (auto simp: in_set_conv_nth)
    then have "k < ?n" using filter_le_prefix [OF assms(1) k(1), of s] f(2) by simp
    then have "k \<le> i" using False i by simp
    then show ?thesis using sorted_nth_mono [OF assms(1) _ i_less] k(2) by blast
  qed
  show "i = 0" if "\<forall>f \<in> set files. s < f"
    using that i assms(2) by (cases files) auto
qed

end
