(* ===== verification/Log_Rows.thy ===== *)
theory Log_Rows
  imports Get_Log
begin

text \<open>
  The rows of a log and its path dictionary: writing entries fills the dictionary, and with the dictionary at the end of the
  log every row reads back as the entry it was written from, by \<open>getLog\<close> itself and by \<open>ShvLogRpcValueReader\<close>.
\<close>

section \<open>The path dictionary\<close>

text \<open>\<open>ps\<close> are the paths in the order of their numbers.\<close>

definition cache_is :: "string list \<Rightarrow> rpc_map \<Rightarrow> bool" where
  "cache_is ps c \<longleftrightarrow> map_wf c \<and> distinct ps \<and> fst ` set c = set ps \<and>
     (\<forall>i < length ps. map_find c (ps ! i) = Some (rpc (VInt (int i))))"

lemma cache_is_Nil: "cache_is [] []"
  by (simp add: cache_is_def)

lemma cache_is_length: "cache_is ps c \<Longrightarrow> length c = length ps"
proof -
  assume c: "cache_is ps c"
  then have "distinct (map fst c)" unfolding cache_is_def map_wf_def by (simp add: strict_sorted_iff)
  then have "length c = card (set (map fst c))" by (metis distinct_card length_map)
  also have "\<dots> = length ps" using c by (simp add: cache_is_def distinct_card)
  finally show ?thesis .
qed

lemma as_shared_path_known:
  "cache_is ps c \<Longrightarrow> i < length ps \<Longrightarrow> as_shared_path (ps ! i) c = (rpc (VInt (int i)), c)"
  by (simp add: as_shared_path_def cache_is_def)

lemma as_shared_path_new:
  assumes "cache_is ps c" "path \<notin> set ps" "int (length ps) < 2 ^ 31"
  shows "\<exists>c'. as_shared_path path c = (rpc (VInt (int (length ps))), c') \<and> cache_is (ps @ [path]) c'"
proof -
  have none: "map_find c path = None" using assms(1,2) by (simp add: map_find_None_iff cache_is_def)
  have "s_wrap 32 (int (length c)) = int (length ps)"
    using cache_is_length [OF assms(1)] assms(3) by (simp add: s_wrap_id in_s_def)
  then have "as_shared_path path c = (rpc (VInt (int (length ps))), map_set path (rpc (VInt (int (length ps)))) c)"
    using none by (simp add: as_shared_path_def Let_def)
  moreover have "cache_is (ps @ [path]) (map_set path (rpc (VInt (int (length ps)))) c)"
    using assms(1,2) by (auto simp: cache_is_def map_wf_set fst_set_map_set map_find_set nth_append less_Suc_eq)
  ultimately show ?thesis by blast
qed

section \<open>Rows stand for entries\<close>

definition row_for :: "log_params \<Rightarrow> string list \<Rightarrow> rpc_value \<Rightarrow> journal_entry \<Rightarrow> bool" where
  "row_for p ps row e \<longleftrightarrow>
     (if lp_withPathsDict p
      then \<exists>i < length ps. ps ! i = je_path e \<and> row = rpc (VList (ShvJournalEntry_toRpcValueList (Some (\<lambda>_. rpc (VInt (int i)))) e))
      else row = rpc (VList (ShvJournalEntry_toRpcValueList None e)))"

lemma row_for_mono: "row_for p ps row e \<Longrightarrow> row_for p (ps @ qs) row e"
  by (auto simp: row_for_def nth_append split: if_splits)

definition rows_for :: "log_params \<Rightarrow> string list \<Rightarrow> rpc_list \<times> rpc_map \<Rightarrow> journal_entry list \<Rightarrow> bool" where
  "rows_for p ps st es \<longleftrightarrow> list_all2 (row_for p ps) (fst st) es \<and> cache_is ps (snd st)"

lemma append_log_entry_rows:
  assumes "rows_for p ps st es" "int (length ps) < 2 ^ 31"
  shows "\<exists>qs. rows_for p (ps @ qs) (append_log_entry p e st) (es @ [e]) \<and> set qs \<subseteq> {je_path e}"
proof (cases "lp_withPathsDict p")
  case False
  then have "rows_for p (ps @ []) (append_log_entry p e st) (es @ [e])"
    using assms(1) by (cases st) (auto simp: rows_for_def append_log_entry_def row_for_def list_all2_appendI)
  then show ?thesis by (intro exI [of _ "[]"]) simp
next
  case True
  obtain rows c where st: "st = (rows, c)" by fastforce
  have c: "cache_is ps c" and rows: "list_all2 (row_for p ps) rows es" using assms(1) st by (simp_all add: rows_for_def)
  show ?thesis
  proof (cases "je_path e \<in> set ps")
    case True': True
    then obtain i where i: "i < length ps" "ps ! i = je_path e" by (auto simp: in_set_conv_nth)
    then have "as_shared_path (je_path e) c = (rpc (VInt (int i)), c)" using as_shared_path_known [OF c, of i] by simp
    then have "rows_for p (ps @ []) (append_log_entry p e st) (es @ [e])"
      using True rows c st i by (auto simp: rows_for_def append_log_entry_def row_for_def intro!: list_all2_appendI)
    then show ?thesis by (intro exI [of _ "[]"]) simp
  next
    case False
    obtain c' where c': "as_shared_path (je_path e) c = (rpc (VInt (int (length ps))), c')" "cache_is (ps @ [je_path e]) c'"
      using as_shared_path_new [OF c False assms(2)] by blast
    have "list_all2 (row_for p (ps @ [je_path e])) rows es"
      using rows by (rule list_all2_mono) (rule row_for_mono)
    moreover have "row_for p (ps @ [je_path e]) (rpc (VList (ShvJournalEntry_toRpcValueList (Some (\<lambda>_. rpc (VInt (int (length ps))))) e))) e"
      using True by (auto simp: row_for_def intro!: exI [of _ "length ps"])
    ultimately have "rows_for p (ps @ [je_path e]) (append_log_entry p e st) (es @ [e])"
      using True c' st by (simp add: rows_for_def append_log_entry_def list_all2_appendI)
    then show ?thesis by (intro exI [of _ "[je_path e]"]) simp
  qed
qed

lemma rows_for_mono_rows: "list_all2 (row_for p ps) rows es \<Longrightarrow> list_all2 (row_for p (ps @ qs)) rows es"
  by (erule list_all2_mono) (rule row_for_mono)

lemma append_entries_rows:
  assumes "rows_for p ps st es" "set ps \<subseteq> S" "je_path ` set new \<subseteq> S" "finite S" "int (card S) < 2 ^ 31"
  shows "\<exists>qs. rows_for p (ps @ qs) (foldl (\<lambda>st e. append_log_entry p e st) st new) (es @ new) \<and> set (ps @ qs) \<subseteq> S"
  using assms(1-3)
proof (induction new arbitrary: ps st es)
  case Nil
  then show ?case by (intro exI [of _ "[]"]) simp
next
  case (Cons e new)
  have "length ps \<le> card S"
    using Cons.prems(1,2) card_mono [OF assms(4), of "set ps"] by (simp add: rows_for_def cache_is_def distinct_card)
  then have "int (length ps) < 2 ^ 31" using assms(5) by linarith
  then obtain qs where qs: "rows_for p (ps @ qs) (append_log_entry p e st) (es @ [e])" "set qs \<subseteq> {je_path e}"
    using append_log_entry_rows [OF Cons.prems(1)] by blast
  have "set (ps @ qs) \<subseteq> S" using qs(2) Cons.prems(2,3) by auto
  then obtain qs' where "rows_for p ((ps @ qs) @ qs') (foldl (\<lambda>st e. append_log_entry p e st) (append_log_entry p e st) new) ((es @ [e]) @ new)"
      "set ((ps @ qs) @ qs') \<subseteq> S"
    using Cons.IH [OF qs(1)] Cons.prems(3) by auto
  then show ?case by (intro exI [of _ "qs @ qs'"]) simp
qed

section \<open>The dictionary that is sent\<close>

lemma make_path_dict_foldl:
  "\<forall>kv \<in> set c. \<exists>i. snd kv = rpc (VInt i) \<and> in_s 32 i \<Longrightarrow>
   foldl (\<lambda>dict kv. bind_e dict (\<lambda>d. bind_e (rpc_call (RpcValue_toInt (snd kv))) (\<lambda>i. Inr (map_set i (rpc (VString (fst kv))) d))))
     (Inr d) c =
   Inr (foldl (\<lambda>d kv. map_set (case rv_var (snd kv) of VInt i \<Rightarrow> i | _ \<Rightarrow> 0) (rpc (VString (fst kv))) d) d c)"
  by (induction c arbitrary: d) (auto simp: s_wrap_id)

lemma find_append: "find P (xs @ ys) = (case find P xs of None \<Rightarrow> find P ys | Some x \<Rightarrow> Some x)"
  by (induction xs) auto

lemma foldl_map_set_find:
  "map_find (foldl (\<lambda>d kv. map_set (f kv) (g kv) d) d c) i =
     (case find (\<lambda>kv. f kv = i) (rev c) of Some kv \<Rightarrow> Some (g kv) | None \<Rightarrow> map_find d i)"
proof (induction c arbitrary: d)
  case (Cons kv c)
  then show ?case
    by (cases "find (\<lambda>kv. f kv = i) (rev c)") (auto simp: map_find_set find_append split: option.splits)
qed simp

lemma cache_entry:
  assumes "cache_is ps c" "kv \<in> set c"
  shows "\<exists>i < length ps. kv = (ps ! i, rpc (VInt (int i)))"
proof -
  obtain k v where kv: "kv = (k, v)" by fastforce
  have "k \<in> set ps" using assms kv by (force simp: cache_is_def)
  then obtain i where i: "i < length ps" "ps ! i = k" by (auto simp: in_set_conv_nth)
  have "distinct (map fst c)" using assms(1) unfolding cache_is_def map_wf_def by (simp add: strict_sorted_iff)
  then have "map_find c k = Some v" using assms(2) kv by (simp add: map_find_def)
  then show ?thesis using i assms(1) kv by (auto simp: cache_is_def)
qed

lemma make_path_dict_ok:
  assumes "cache_is ps c" "int (length ps) < 2 ^ 31"
  shows "\<exists>d. make_path_dict c = Inr d \<and> (\<forall>i < length ps. map_find d (int i) = Some (rpc (VString (ps ! i))))"
proof -
  let ?ix = "\<lambda>kv :: string \<times> rpc_value. case rv_var (snd kv) of VInt i \<Rightarrow> i | _ \<Rightarrow> 0"
  let ?d = "foldl (\<lambda>d kv. map_set (?ix kv) (rpc (VString (fst kv))) d) [] c"
  have ints: "\<forall>kv \<in> set c. \<exists>i. snd kv = rpc (VInt i) \<and> in_s 32 i"
    using cache_entry [OF assms(1)] assms(2) by (fastforce simp: in_s_def)
  have "map_find ?d (int i) = Some (rpc (VString (ps ! i)))" if i: "i < length ps" for i
  proof -
    have "(ps ! i, rpc (VInt (int i))) \<in> set c"
      using assms(1) i by (auto simp: cache_is_def map_find_def dest!: map_of_SomeD)
    then have "\<exists>kv. kv \<in> set (rev c) \<and> ?ix kv = int i"
      by (intro exI [of _ "(ps ! i, rpc (VInt (int i)))"]) simp
    then have "find (\<lambda>kv. ?ix kv = int i) (rev c) \<noteq> None" unfolding find_None_iff by blast
    then obtain kv where kv: "find (\<lambda>kv. ?ix kv = int i) (rev c) = Some kv" by blast
    then have "kv \<in> set c" "?ix kv = int i" by (auto simp: find_Some_iff) (metis nth_mem set_rev length_rev)
    then have "fst kv = ps ! i" using cache_entry [OF assms(1)] by fastforce
    then show ?thesis using kv by (simp add: foldl_map_set_find)
  qed
  then show ?thesis unfolding make_path_dict_def make_path_dict_foldl [OF ints] by blast
qed


section \<open>Rows read back\<close>

definition dict_for :: "string list \<Rightarrow> rpc_imap \<Rightarrow> bool" where
  "dict_for ps d \<longleftrightarrow> int (length ps) < 2 ^ 31 \<and> (\<forall>i < length ps. map_find d (int i) = Some (rpc (VString (ps ! i))))"

lemma dict_index: "dict_for ps d \<Longrightarrow> i < length ps \<Longrightarrow> s_wrap 32 (int i) = int i"
  by (simp add: dict_for_def s_wrap_id in_s_def)

lemma asList_list [simp]: "RpcValue_asList (rpc (VList l)) = l"
  by (simp add: as_defs)

lemma unmap_path_dict:
  "lp_withPathsDict p \<Longrightarrow> dict_for ps d \<Longrightarrow> i < length ps \<Longrightarrow> unmap_path p d (rpc (VInt (int i))) = Inr (ps ! i)"
  by (simp add: unmap_path_def dict_index) (simp add: dict_for_def)

lemma unmap_path_plain: "\<not> lp_withPathsDict p \<Longrightarrow> unmap_path p d (rpc (VString s)) = Inr s"
  by (simp add: unmap_path_def)

lemma fromRpcValueList_converts:
  assumes "f (case mp of Some g \<Rightarrow> g (je_path e) | None \<Rightarrow> rpc (VString (je_path e))) = Inr s"
  shows "\<exists>x. ShvJournalEntry_fromRpcValueList (ShvJournalEntry_toRpcValueList mp e) (Some f) = Inr x"
  using assms by (simp add: ShvJournalEntry_fromRpcValueList_def ShvJournalEntry_toRpcValueList_def Let_def)

lemma row_entry_converts:
  assumes "row_for p ps row e" "lp_withPathsDict p \<Longrightarrow> dict_for ps d"
  shows "\<exists>x. row_entry p d row = Inr x"
proof (cases "lp_withPathsDict p")
  case True
  then obtain i where i: "i < length ps" "ps ! i = je_path e"
      "row = rpc (VList (ShvJournalEntry_toRpcValueList (Some (\<lambda>_. rpc (VInt (int i)))) e))"
    using assms(1) by (auto simp: row_for_def)
  then show ?thesis
    using fromRpcValueList_converts [where f = "unmap_path p d" and mp = "Some (\<lambda>_. rpc (VInt (int i)))" and e = e and s = "ps ! i"]
      unmap_path_dict [OF True assms(2) i(1)] True by (auto simp: row_entry_def)
next
  case False
  then have "row = rpc (VList (ShvJournalEntry_toRpcValueList None e))" using assms(1) by (simp add: row_for_def)
  then show ?thesis
    using fromRpcValueList_converts [where f = "unmap_path p d" and mp = None and e = e and s = "je_path e"] unmap_path_plain [OF False]
    by (auto simp: row_entry_def)
qed

lemma row_entry_back:
  assumes "row_for p ps row e" "lp_withPathsDict p \<Longrightarrow> dict_for ps d" "in_s 32 (je_shortTime e)" "je_path e \<noteq> []"
  shows "row_entry p d row = Inr (row_norm e)"
proof (cases "lp_withPathsDict p")
  case True
  then obtain i where i: "i < length ps" "ps ! i = je_path e"
      "row = rpc (VList (ShvJournalEntry_toRpcValueList (Some (\<lambda>_. rpc (VInt (int i)))) e))"
    using assms(1) by (auto simp: row_for_def)
  then show ?thesis
    using fromRpcValueList_toRpcValueList [OF assms(3,4), where um = "Some (unmap_path p d)" and mp = "Some (\<lambda>_. rpc (VInt (int i)))"]
      unmap_path_dict [OF True assms(2) i(1)] True by (simp add: row_entry_def)
next
  case False
  then have "row = rpc (VList (ShvJournalEntry_toRpcValueList None e))" using assms(1) by (simp add: row_for_def)
  then show ?thesis
    using fromRpcValueList_toRpcValueList [OF assms(3,4), where um = "Some (unmap_path p d)" and mp = None] unmap_path_plain [OF False]
    by (simp add: row_entry_def)
qed

lemma row_read_back:
  assumes "row_for p ps row e" "lp_withPathsDict p \<Longrightarrow> dict_for ps (lh_pathDict h)" "in_s 32 (je_shortTime e)" "je_path e \<noteq> []"
  shows "row_read h row (row_norm e)"
proof (cases "lp_withPathsDict p")
  case True
  then obtain i where i: "i < length ps" "ps ! i = je_path e"
      "row = rpc (VList (ShvJournalEntry_toRpcValueList (Some (\<lambda>_. rpc (VInt (int i)))) e))"
    using assms(1) by (auto simp: row_for_def)
  have "reader_unmap_path h (rpc (VInt (int i))) = Inr (ps ! i)"
    using dict_index [OF assms(2) [OF True] i(1)] assms(2) [OF True] i(1)
    by (simp add: reader_unmap_path_def RpcIMap_value_def) (simp add: dict_for_def)
  then show ?thesis
    using fromRpcValueList_toRpcValueList [OF assms(3,4), where um = "Some (reader_unmap_path h)" and mp = "Some (\<lambda>_. rpc (VInt (int i)))"] i
    by (simp add: row_read_def)
next
  case False
  then have "row = rpc (VList (ShvJournalEntry_toRpcValueList None e))" using assms(1) by (simp add: row_for_def)
  moreover have "reader_unmap_path h (rpc (VString s)) = Inr s" for s
    by (simp add: reader_unmap_path_def type_test_defs)
  ultimately show ?thesis
    using fromRpcValueList_toRpcValueList [OF assms(3,4), where um = "Some (reader_unmap_path h)" and mp = None]
    by (simp add: row_read_def)
qed

section \<open>Erasing the last millisecond\<close>

lemma erase_at_time_converts:
  "list_all2 (row_for p ps) rows es \<Longrightarrow> (lp_withPathsDict p \<Longrightarrow> dict_for ps d) \<Longrightarrow> \<exists>rows'. erase_at_time p d t rows = Inr rows'"
proof (induction rows es rule: list_all2_induct)
  case (Cons row rows e es)
  then show ?case using row_entry_converts [OF Cons.hyps(1) Cons.prems] by fastforce
qed simp

lemma erase_at_time_filter:
  assumes "list_all2 (row_for p ps) rows es" "lp_withPathsDict p \<Longrightarrow> dict_for ps d"
    and "\<forall>e \<in> set es. in_s 32 (je_shortTime e) \<and> je_path e \<noteq> [] \<and> in_s 57 (je_epochMsec e)" "in_s 57 ms"
  shows "\<exists>rows'. erase_at_time p d (RpcDateTime_fromMSecsSinceEpoch ms 0) rows = Inr rows' \<and>
    list_all2 (row_for p ps) rows' (filter (\<lambda>e. je_epochMsec e \<noteq> ms) es)"
  using assms(1,3)
proof (induction rows es rule: list_all2_induct)
  case (Cons row rows e es)
  then obtain rows' where rows': "erase_at_time p d (RpcDateTime_fromMSecsSinceEpoch ms 0) rows = Inr rows'"
      "list_all2 (row_for p ps) rows' (filter (\<lambda>e. je_epochMsec e \<noteq> ms) es)" by auto
  have "row_entry p d row = Inr (row_norm e)" using Cons by (intro row_entry_back [OF _ assms(2)]) auto
  moreover have "RpcDateTime_eq (ShvJournalEntry_dateTime (row_norm e)) (RpcDateTime_fromMSecsSinceEpoch ms 0) \<longleftrightarrow> je_epochMsec e = ms"
    using Cons.prems assms(4) by (simp add: RpcDateTime_eq_def ShvJournalEntry_dateTime_def access_simps s_wrap_id)
  ultimately show ?case using rows' Cons by auto
qed simp

end
