(* ===== verification/Log_Content.thy ===== *)
theory Log_Content
  imports Log_Rows
begin

text \<open>
  What the logs of \<open>getLog\<close> hold: the snapshot specification, the loop over the readers as a fold over the entries it takes, and
  the content of the log in terms of the entries of the readers.
\<close>

section \<open>Snapshots\<close>

definition readable :: "journal_entry \<Rightarrow> bool" where
  "readable e \<longleftrightarrow> is_node_drop (je_value e) = Inr True \<or> is_node_drop (je_value e) = Inr False"

definition drops :: "journal_entry \<Rightarrow> bool" where
  "drops e \<longleftrightarrow> is_node_drop (je_value e) = Inr True"

definition snap_add :: "journal_entry \<Rightarrow> shv_snapshot \<Rightarrow> shv_snapshot" where
  "snap_add e s =
     (if je_domain e \<noteq> DOMAIN_VAL_CHANGE then s
      else if drops e then forEachDirAndSubdirsDeleteIf s (je_path e) (\<lambda>_. True)
      else map_set (je_path e) e s)"

lemma addToSnapshot_ok: "readable e \<Longrightarrow> addToSnapshot e s = Inr (snap_add e s)"
  by (auto simp: addToSnapshot_def snap_add_def readable_def drops_def)

definition snapshot_of :: "journal_entry list \<Rightarrow> shv_snapshot" where
  "snapshot_of es = foldl (\<lambda>s e. snap_add e s) [] es"

text \<open>The entries that say something about the value at a path.\<close>

definition concerns :: "string \<Rightarrow> journal_entry \<Rightarrow> bool" where
  "concerns path e \<longleftrightarrow> je_domain e = DOMAIN_VAL_CHANGE \<and>
     (if drops e then path = je_path e \<or> prefix (je_path e @ ''/'') path else je_path e = path)"

lemma map_wf_filter: "map_wf m \<Longrightarrow> map_wf (filter P m)"
  by (induction m) auto

lemma map_find_filter_key: "map_find (filter (\<lambda>kv. Q (fst kv)) m) k = (if Q k then map_find m k else None)"
  by (induction m) (auto simp: map_find_def)

lemma snap_add_wf: "map_wf s \<Longrightarrow> map_wf (snap_add e s)"
  by (simp add: snap_add_def forEachDirAndSubdirsDeleteIf_filter map_wf_filter map_wf_set)

lemma snap_add_find:
  "map_wf s \<Longrightarrow> map_find (snap_add e s) path =
     (if concerns path e then (if drops e then None else Some e) else map_find s path)"
  using map_find_filter_key [of "\<lambda>k. \<not> (k = je_path e \<or> prefix (je_path e @ ''/'') k)" s path]
  by (auto simp: snap_add_def concerns_def forEachDirAndSubdirsDeleteIf_filter map_find_set)

lemma snapshot_of_wf: "map_wf (snapshot_of es)"
proof -
  have "map_wf s \<Longrightarrow> map_wf (foldl (\<lambda>s e. snap_add e s) s es)" for s
    by (induction es arbitrary: s) (simp_all add: snap_add_wf)
  then show ?thesis by (simp add: snapshot_of_def)
qed

lemma snapshot_of_snoc: "snapshot_of (es @ [e]) = snap_add e (snapshot_of es)"
  by (simp add: snapshot_of_def)

lemma last_with_snoc:
  "(\<exists>ys zs. es @ [x] = ys @ e # zs \<and> P \<and> (\<forall>z \<in> set zs. Q z)) \<longleftrightarrow>
     (x = e \<and> P) \<or> (Q x \<and> (\<exists>ys zs. es = ys @ e # zs \<and> P \<and> (\<forall>z \<in> set zs. Q z)))" (is "?L \<longleftrightarrow> ?R")
proof
  assume ?L
  then obtain ys zs where d: "es @ [x] = ys @ e # zs" P "\<forall>z \<in> set zs. Q z" by blast
  then show ?R by (cases zs rule: rev_cases) auto
next
  assume ?R
  then show ?L
  proof
    assume "x = e \<and> P"
    then show ?L by (intro exI [of _ es] exI [of _ "[]"]) simp
  next
    assume "Q x \<and> (\<exists>ys zs. es = ys @ e # zs \<and> P \<and> (\<forall>z \<in> set zs. Q z))"
    then obtain ys zs where "es = ys @ e # zs" P "\<forall>z \<in> set zs. Q z" "Q x" by blast
    then show ?L by (intro exI [of _ ys] exI [of _ "zs @ [x]"]) auto
  qed
qed

lemma snapshot_of_find:
  "map_find (snapshot_of es) path = Some e \<longleftrightarrow>
     (\<exists>ys zs. es = ys @ e # zs \<and> (concerns path e \<and> \<not> drops e) \<and> (\<forall>z \<in> set zs. \<not> concerns path z))"
proof (induction es rule: rev_induct)
  case Nil
  then show ?case by (simp add: snapshot_of_def)
next
  case (snoc x es)
  show ?case
    unfolding last_with_snoc snoc [symmetric]
    by (auto simp: snapshot_of_snoc snap_add_find snapshot_of_wf)
qed

lemma snapshot_of_values: "(k, e) \<in> set (snapshot_of es) \<Longrightarrow> e \<in> set es \<and> k = je_path e"
proof -
  assume "(k, e) \<in> set (snapshot_of es)"
  then have "map_find (snapshot_of es) k = Some e"
    using snapshot_of_wf [of es] by (simp add: map_find_def map_wf_def strict_sorted_iff)
  then show ?thesis by (auto simp: snapshot_of_find concerns_def)
qed

section \<open>The loop\<close>

lemma reader_loop_append:
  "reader_loop step (xs @ ys) st =
     bind_e (reader_loop step xs st) (\<lambda>(go_on, st'). if go_on then reader_loop step ys st' else Inr (False, st'))"
proof (induction xs arbitrary: st)
  case (Cons x xs)
  show ?case
  proof (cases x)
    case (Inr e)
    then show ?thesis by (cases "step e st") (auto simp: Cons.IH)
  qed simp
qed simp

lemma readers_loop_concat: "readers_loop step rs st = reader_loop step (concat rs) st"
  by (induction rs arbitrary: st) (auto simp: reader_loop_append intro!: arg_cong [where f = "bind_e _"])


text \<open>The state after taking the entries \<open>bf\<close> and stopping at the first of \<open>rest\<close>, when the limit is not reached.\<close>

definition window_state :: "log_params \<Rightarrow> int \<Rightarrow> journal_entry list \<Rightarrow> journal_entry list \<Rightarrow> log_run \<Rightarrow> log_run" where
  "window_state p since_msec bf rest st =
     (let news = filter (\<lambda>e. je_epochMsec e > since_msec) bf;
          rows = foldl (\<lambda>st e. append_log_entry p e st) (run_log st, run_pathCache st) news in
      st\<lparr>run_snapshot := foldl (\<lambda>s e. snap_add e s) (run_snapshot st)
           (filter (\<lambda>e. je_epochMsec e \<le> since_msec) (bf @ take 1 rest)),
         run_log := fst rows, run_pathCache := snd rows,
         run_last_entry := (if bf = [] then run_last_entry st else Some (last bf)),
         run_first_unmatching := (if rest = [] then run_first_unmatching st else Some (hd rest)),
         run_record_count := run_record_count st + int (length news),
         run_have_data_before_since := (run_have_data_before_since st \<or> (\<exists>e \<in> set bf. je_epochMsec e \<le> since_msec))\<rparr>)"

definition pass_old :: "journal_entry \<Rightarrow> log_run \<Rightarrow> log_run" where
  "pass_old e st = st\<lparr>run_snapshot := snap_add e (run_snapshot st), run_have_data_before_since := True, run_last_entry := Some e\<rparr>"

definition pass_new :: "log_params \<Rightarrow> journal_entry \<Rightarrow> log_run \<Rightarrow> log_run" where
  "pass_new p e st =
     (let rows = append_log_entry p e (run_log st, run_pathCache st) in
      st\<lparr>run_log := fst rows, run_pathCache := snd rows, run_record_count := run_record_count st + 1, run_last_entry := Some e\<rparr>)"

lemma window_state_Cons:
  "je_epochMsec e \<le> since \<Longrightarrow> window_state p since (e # bf) rest st = window_state p since bf rest (pass_old e st)"
  "\<not> je_epochMsec e \<le> since \<Longrightarrow> window_state p since (e # bf) rest st = window_state p since bf rest (pass_new p e st)"
  by (simp_all add: window_state_def pass_old_def pass_new_def Let_def)

lemma window_state_Nil: "window_state p since [] [] st = st"
  by (simp add: window_state_def)

lemma length_map_set: "length (map_set k v m) \<le> Suc (length m)"
  by (induction k v m rule: map_set.induct) auto

lemma length_delete_loop: "length (delete_loop r f m) \<le> length m"
  by (induction m) auto

lemma snap_add_length: "length (snap_add e s) \<le> Suc (length s)"
proof -
  have "length (takeWhile (\<lambda>(k, v). k < je_path e) s) + length (dropWhile (\<lambda>(k, v). k < je_path e) s) = length s"
    by (metis length_append takeWhile_dropWhile_id)
  then have "length (forEachDirAndSubdirsDeleteIf s (je_path e) (\<lambda>_. True)) \<le> length s"
    using length_delete_loop [of "je_path e" "\<lambda>_. True" "dropWhile (\<lambda>(k, v). k < je_path e) s"]
    by (simp add: forEachDirAndSubdirsDeleteIf_def)
  then show ?thesis by (simp add: snap_add_def length_map_set)
qed

lemma log_step_cases:
  assumes "\<not> ShvGetLogParams_isSinceLast p" "readable e" "PatternMatcher_match rx pm e"
  shows "je_epochMsec e \<ge> until \<Longrightarrow>
      log_step rx pm p since until e st = Inr (False, window_state p since [] [e] st)"
    "je_epochMsec e < until \<Longrightarrow> je_epochMsec e \<le> since \<Longrightarrow> log_step rx pm p since until e st = Inr (True, pass_old e st)"
    "je_epochMsec e < until \<Longrightarrow> \<not> je_epochMsec e \<le> since \<Longrightarrow> log_step rx pm p since until e st = Inr (take_entry p e st)"
  using assms
  by (simp_all add: log_step_def addToSnapshot_ok Let_def pass_old_def window_state_def)

lemma take_entry_in_limit:
  "int (length (run_snapshot st)) + run_record_count st + 1 \<le> lp_recordCountLimit p \<Longrightarrow> take_entry p e st = (True, pass_new p e st)"
  by (simp add: take_entry_def pass_new_def Let_def split_beta)

lemma loop_window:
  fixes rx :: "'rx regex_lib" and pm :: "'rx pattern_matcher" and until :: int
  assumes "\<not> ShvGetLogParams_isSinceLast p" "\<forall>e \<in> set es. readable e"
    and "int (length (run_snapshot st)) + run_record_count st + int (length es) \<le> lp_recordCountLimit p"
  defines "m \<equiv> PatternMatcher_match rx pm" and "b \<equiv> \<lambda>e. je_epochMsec e < until"
  shows "reader_loop (log_step rx pm p since until) (map Inr es) st =
    Inr (dropWhile b (filter m es) = [], window_state p since (takeWhile b (filter m es)) (dropWhile b (filter m es)) st)"
  using assms(2,3)
proof (induction es arbitrary: st)
  case Nil
  then show ?case by (simp add: window_state_Nil)
next
  case (Cons e es)
  have rest: "\<forall>e \<in> set es. readable e" and e: "readable e" using Cons.prems(1) by simp_all
  note step = log_step_cases [OF assms(1) e, of rx pm, folded m_def]
  consider "\<not> m e" | "m e" "\<not> b e" | "m e" "b e" "je_epochMsec e \<le> since" | "m e" "b e" "\<not> je_epochMsec e \<le> since" by blast
  then show ?case
  proof cases
    case 1
    then have "log_step rx pm p since until e st = Inr (True, st)" by (simp add: log_step_def m_def)
    then show ?thesis using Cons.IH [OF rest, of st] Cons.prems(2) 1 by simp
  next
    case 2
    then show ?thesis using step(1) by (simp add: b_def not_less window_state_def)
  next
    case 3
    have "int (length (run_snapshot (pass_old e st))) + run_record_count (pass_old e st) + int (length es) \<le> lp_recordCountLimit p"
      using Cons.prems(2) snap_add_length [of e "run_snapshot st"] by (simp add: pass_old_def)
    then show ?thesis using step(2) [of until since st] Cons.IH [OF rest] 3 by (simp add: b_def window_state_Cons)
  next
    case 4
    have "int (length (run_snapshot (pass_new p e st))) + run_record_count (pass_new p e st) + int (length es) \<le> lp_recordCountLimit p"
      using Cons.prems(2) by (simp add: pass_new_def Let_def)
    moreover have "take_entry p e st = (True, pass_new p e st)"
      using Cons.prems(2) by (intro take_entry_in_limit) simp
    ultimately show ?thesis using step(3) [of until since st] Cons.IH [OF rest] 4 by (simp add: b_def window_state_Cons)
  qed
qed


section \<open>Any limit\<close>

lemma take_entry_shapes:
  "take_entry p e st = (True, (if hit then st'\<lparr>run_limitHit := True\<rparr> else st')) \<and> st' = pass_new p e st \<or>
   take_entry p e st = (False, st\<lparr>run_limitHit := True, run_first_unmatching := Some e\<rparr>) \<and> differs_from_last e st"
  if "st' = pass_new p e st" "hit = (int (length (run_snapshot st)) + run_record_count st + 1 > lp_recordCountLimit p)"
  using that by (auto simp: take_entry_def pass_new_def Let_def split_beta differs_from_last_def split: option.splits)

definition tracks :: "log_params \<Rightarrow> journal_entry list \<Rightarrow> log_run \<Rightarrow> log_run \<Rightarrow> journal_entry list \<Rightarrow> journal_entry list \<Rightarrow> bool" where
  "tracks p es st st' taken seen \<longleftrightarrow>
     (run_log st', run_pathCache st') = foldl (\<lambda>st e. append_log_entry p e st) (run_log st, run_pathCache st) taken \<and>
     run_snapshot st' = foldl (\<lambda>s e. snap_add e s) (run_snapshot st) seen \<and> set taken \<subseteq> set es \<and> set seen \<subseteq> set es \<and>
     (run_last_entry st' = run_last_entry st \<or> (\<exists>e \<in> set es. run_last_entry st' = Some e))"

lemma tracks_trans:
  "tracks p es st st1 t s \<Longrightarrow> tracks p es' st1 st2 t' s' \<Longrightarrow> tracks p (es @ es') st st2 (t @ t') (s @ s')"
  unfolding tracks_def by auto

lemma step_tracks:
  assumes "readable e" "log_step rx pm p since until e st = Inr (go, st1)"
  shows "\<exists>taken seen. tracks p [e] st st1 taken seen"
proof -
  have init: "tracks p [e] st st [] []" for st by (simp add: tracks_def)
  note fields = tracks_def pass_new_def Let_def split_beta
  consider "\<not> PatternMatcher_match rx pm e"
    | "PatternMatcher_match rx pm e" "ShvGetLogParams_isSinceLast p \<or> je_epochMsec e \<le> since \<or> je_epochMsec e \<ge> until"
    | "PatternMatcher_match rx pm e" "\<not> ShvGetLogParams_isSinceLast p" "\<not> je_epochMsec e \<le> since" "\<not> je_epochMsec e \<ge> until"
    by blast
  then show ?thesis
  proof cases
    case 1
    then show ?thesis using assms(2) init [of st] by (auto simp: log_step_def)
  next
    case 2
    have "tracks p [e] st st1 [] [e] \<or> tracks p [e] st st1 [] []"
      using 2 assms(2) unfolding log_step_def
      by (auto simp: tracks_def addToSnapshot_ok [OF assms(1)] Let_def split: if_splits)
    then show ?thesis by blast
  next
    case 3
    then have "take_entry p e st = (go, st1)"
      using assms(2) by (simp add: log_step_def)
    with take_entry_shapes [OF refl refl, of p e st] show ?thesis
      by (intro exI [of _ "if go then [e] else []"] exI [of _ "[]"]) (auto simp: fields split: if_splits)
  qed
qed


text \<open>A step throws only where the meta type of a value cannot be read, and so does the loop.\<close>

lemma log_step_total: "readable e \<Longrightarrow> \<exists>go st1. log_step rx pm p since until e st = Inr (go, st1)"
  by (simp add: log_step_def addToSnapshot_ok Let_def) (metis surj_pair)

lemma loop_total:
  "\<forall>e \<in> set es. readable e \<Longrightarrow>
   \<exists>go st' taken seen. reader_loop (log_step rx pm p since until) (map Inr es) st = Inr (go, st') \<and> tracks p es st st' taken seen"
proof (induction es arbitrary: st)
  case Nil
  then show ?case
    by (intro exI [of _ True] exI [of _ st] exI [of _ "[]"]) (simp add: tracks_def)
next
  case (Cons e es)
  then have e: "readable e" and es: "\<forall>e \<in> set es. readable e" by simp_all
  obtain go st1 where step: "log_step rx pm p since until e st = Inr (go, st1)" using log_step_total [OF e] by blast
  obtain t s where first: "tracks p [e] st st1 t s" using step_tracks [OF e step] by blast
  show ?case
  proof (cases go)
    case True
    obtain go' st' t' s' where rest: "reader_loop (log_step rx pm p since until) (map Inr es) st1 = Inr (go', st')"
        "tracks p es st1 st' t' s'"
      using Cons.IH [OF es, of st1] by blast
    then show ?thesis using tracks_trans [OF first rest(2)] step True
      by (intro exI [of _ go'] exI [of _ st'] exI [of _ "t @ t'"] exI [of _ "s @ s'"]) simp
  next
    case False
    have "tracks p (e # es) st st1 t s" using first unfolding tracks_def by auto
    then show ?thesis using step False by (intro exI [of _ False] exI [of _ st1] exI [of _ t] exI [of _ s]) simp
  qed
qed


text \<open>
  Where the entries are in order of time, the entries taken are all the matching ones of the window, up to the time of the entry that
  ended the loop, if one did: an answer is never cut in the middle of a millisecond.
\<close>

definition selected :: "(journal_entry \<Rightarrow> bool) \<Rightarrow> int \<Rightarrow> journal_entry \<Rightarrow> bool" where
  "selected m since e \<longleftrightarrow> m e \<and> since < je_epochMsec e"

definition page_of :: "(journal_entry \<Rightarrow> bool) \<Rightarrow> int \<Rightarrow> int \<Rightarrow> journal_entry list \<Rightarrow> log_run \<Rightarrow> bool \<times> log_run \<Rightarrow> journal_entry list
    \<Rightarrow> journal_entry list \<Rightarrow> bool" where
  "page_of m since until es st res taken seen \<longleftrightarrow>
     (since < until \<longrightarrow> seen = filter (\<lambda>e. m e \<and> je_epochMsec e \<le> since) es) \<and>
     (if fst res
      then run_first_unmatching (snd res) = run_first_unmatching st \<and> taken = filter (selected m since) es
      else \<exists>u \<in> set es. m u \<and> run_first_unmatching (snd res) = Some u \<and>
             taken = filter (\<lambda>e. selected m since e \<and> je_epochMsec e < je_epochMsec u) es \<and>
             (\<forall>l. run_last_entry st = Some l \<and> je_epochMsec l < until \<and> je_epochMsec l \<le> je_epochMsec (hd es) \<longrightarrow>
                je_epochMsec l < je_epochMsec u))"

lemma page_of_stop:
  assumes "sorted (map je_epochMsec (e # es))" "m e" "run_first_unmatching st' = Some e"
    and "\<And>l. run_last_entry st = Some l \<Longrightarrow> je_epochMsec l < until \<Longrightarrow> je_epochMsec l \<le> je_epochMsec e \<Longrightarrow> je_epochMsec l < je_epochMsec e"
    and "since < until \<longrightarrow> seen = [] \<and> since < je_epochMsec e"
  shows "page_of m since until (e # es) st (False, st') [] seen"
proof -
  have "since < until \<longrightarrow> filter (\<lambda>e. m e \<and> je_epochMsec e \<le> since) (e # es) = []"
    using assms(1,5) by (auto simp: filter_empty_conv)
  moreover
  have "filter (\<lambda>x. selected m since x \<and> je_epochMsec x < je_epochMsec e) (e # es) = []"
    using assms(1) by (auto simp: filter_empty_conv)
  ultimately show ?thesis using assms(2-5) unfolding page_of_def by auto
qed

lemma page_of_go_on:
  assumes "page_of m since until es st1 res taken seen" "sorted (map je_epochMsec (e # es))"
    and "run_first_unmatching st1 = run_first_unmatching st"
    and "m e \<longrightarrow> run_last_entry st1 = Some e \<and> je_epochMsec e < until" "\<not> m e \<longrightarrow> run_last_entry st1 = run_last_entry st"
  shows "page_of m since until (e # es) st res (if selected m since e then e # taken else taken)
    ((if m e \<and> je_epochMsec e \<le> since then [e] else []) @ seen)"
proof (cases "fst res")
  case True
  then show ?thesis using assms(1,3) by (auto simp: page_of_def)
next
  case False
  then obtain u where u: "u \<in> set es" "m u" "run_first_unmatching (snd res) = Some u"
      "taken = filter (\<lambda>e. selected m since e \<and> je_epochMsec e < je_epochMsec u) es"
      "\<And>l. run_last_entry st1 = Some l \<Longrightarrow> je_epochMsec l < until \<Longrightarrow> je_epochMsec l \<le> je_epochMsec (hd es) \<Longrightarrow>
         je_epochMsec l < je_epochMsec u"
    using assms(1) by (auto simp: page_of_def)
  have "es \<noteq> []" using u(1) by auto
  then have e_le: "je_epochMsec e \<le> je_epochMsec (hd es)" using assms(2) by (cases es) auto
  have "je_epochMsec e < je_epochMsec u" if "m e" using u(5) assms(4) that e_le by blast
  moreover have "je_epochMsec l < je_epochMsec u"
    if "run_last_entry st = Some l" "je_epochMsec l < until" "je_epochMsec l \<le> je_epochMsec e" for l
    using u(5) [of l] that e_le assms(5) calculation by (cases "m e") auto
  moreover have "since < until \<longrightarrow> seen = filter (\<lambda>e. m e \<and> je_epochMsec e \<le> since) es"
    using assms(1) by (simp add: page_of_def)
  ultimately show ?thesis using False u(1-4) by (auto simp: page_of_def selected_def)
qed

lemma loop_page:
  assumes "\<not> ShvGetLogParams_isSinceLast p" "\<forall>e \<in> set es. readable e \<and> in_s 57 (je_epochMsec e)" "sorted (map je_epochMsec es)"
    and "\<And>l. run_last_entry st = Some l \<Longrightarrow> in_s 57 (je_epochMsec l)"
  shows "\<exists>go st' taken seen. reader_loop (log_step rx pm p since until) (map Inr es) st = Inr (go, st') \<and>
    tracks p es st st' taken seen \<and> page_of (PatternMatcher_match rx pm) since until es st (go, st') taken seen"
  using assms(2-4)
proof (induction es arbitrary: st)
  case Nil
  then show ?case
    by (intro exI [of _ True] exI [of _ st] exI [of _ "[]"]) (simp add: tracks_def page_of_def)
next
  case (Cons e es)
  let ?m = "PatternMatcher_match rx pm" and ?loop = "reader_loop (log_step rx pm p since until)"
  have e: "readable e" and es: "\<forall>e \<in> set es. readable e \<and> in_s 57 (je_epochMsec e)" and sorted: "sorted (map je_epochMsec es)"
    using Cons.prems(1,2) by auto
  note step = log_step_cases [OF assms(1) e, of rx pm until since st]
  have stop: ?case
    if "log_step rx pm p since until e st = Inr (False, st1)" "tracks p [e] st st1 [] seen" "?m e" "run_first_unmatching st1 = Some e"
      "\<And>l. run_last_entry st = Some l \<Longrightarrow> je_epochMsec l < until \<Longrightarrow> je_epochMsec l \<le> je_epochMsec e \<Longrightarrow> je_epochMsec l < je_epochMsec e"
      "since < until \<longrightarrow> seen = [] \<and> since < je_epochMsec e"
    for st1 seen
    using that(1,2) page_of_stop [where m = ?m and since = since, OF Cons.prems(2) that(3-6)]
    by (intro exI [of _ False] exI [of _ st1] exI [of _ "[]"] exI [of _ seen]) (auto simp: tracks_def)
  have go_on: ?case
    if st1: "log_step rx pm p since until e st = Inr (True, st1)"
      "tracks p [e] st st1 (if selected ?m since e then [e] else [])
        (if ?m e \<and> je_epochMsec e \<le> since then [e] else [])" "run_first_unmatching st1 = run_first_unmatching st"
      "?m e \<longrightarrow> run_last_entry st1 = Some e \<and> je_epochMsec e < until" "\<not> ?m e \<longrightarrow> run_last_entry st1 = run_last_entry st"
    for st1
  proof -
    have "\<And>l. run_last_entry st1 = Some l \<Longrightarrow> in_s 57 (je_epochMsec l)"
      using st1(4,5) Cons.prems(1,3) by (cases "?m e") auto
    from Cons.IH [OF es sorted this] obtain go st' t s where rest: "?loop (map Inr es) st1 = Inr (go, st')"
        "tracks p es st1 st' t s" "page_of ?m since until es st1 (go, st') t s" by blast
    show ?thesis
      using tracks_trans [OF st1(2) rest(2)] page_of_go_on [OF rest(3) Cons.prems(2) st1(3-5)] rest(1) st1(1)
      by (intro exI [of _ go] exI [of _ st'] exI [of _ "if selected ?m since e then e # t else t"] 
           exI [of _ "(if ?m e \<and> je_epochMsec e \<le> since then [e] else []) @ s"])
         (auto split: if_splits)
  qed
  show ?case
  proof (cases "?m e")
    case False
    then have "log_step rx pm p since until e st = Inr (True, st)" by (simp add: log_step_def)
    then show ?thesis using False by (intro go_on [of st]) (auto simp: tracks_def selected_def)
  next
    case True
    consider "je_epochMsec e \<ge> until" | "je_epochMsec e < until" "je_epochMsec e \<le> since" | "je_epochMsec e < until" "\<not> je_epochMsec e \<le> since"
      by linarith
    then show ?thesis
    proof cases
      case 1
      have "tracks p [e] st (window_state p since [] [e] st) [] (if je_epochMsec e \<le> since then [e] else [])"
        by (simp add: tracks_def window_state_def)
      then show ?thesis
        by (rule stop [OF step(1) [OF True 1] _ True]) (use 1 in \<open>auto simp: window_state_def\<close>)
    next
      case 2
      have "tracks p [e] st (pass_old e st) [] [e]" by (simp add: tracks_def pass_old_def)
      then show ?thesis
        by (intro go_on [OF step(2) [OF True 2]]) (use 2 True in \<open>auto simp: pass_old_def selected_def\<close>)
    next
      case 3
      consider st1 where "take_entry p e st = (True, st1)" "st1 = pass_new p e st \<or> st1 = (pass_new p e st)\<lparr>run_limitHit := True\<rparr>"
        | "take_entry p e st = (False, st\<lparr>run_limitHit := True, run_first_unmatching := Some e\<rparr>)" "differs_from_last e st"
        using take_entry_shapes [OF refl refl, of p e st] by (auto split: if_splits)
      then show ?thesis
      proof cases
        case st1: 1
        have "tracks p [e] st st1 [e] []" using st1(2) by (auto simp: tracks_def pass_new_def Let_def)
        then show ?thesis
          by (intro go_on [of st1]) (use 3 True st1 step(3) in \<open>auto simp: pass_new_def Let_def selected_def\<close>)
      next
        case 2
        show ?thesis
        proof (rule stop [of _ "[]"])
          show "log_step rx pm p since until e st = Inr (False, st\<lparr>run_limitHit := True, run_first_unmatching := Some e\<rparr>)"
            using step(3) True 3 2 by simp
          fix l assume l: "run_last_entry st = Some l" "je_epochMsec l \<le> je_epochMsec e"
          then have "in_s 57 (je_epochMsec l)" "in_s 57 (je_epochMsec e)" using Cons.prems(1,3) by auto
          then show "je_epochMsec l < je_epochMsec e"
            using 2(2) l by (auto simp: differs_from_last_def RpcDateTime_eq_def ShvJournalEntry_dateTime_def access_simps s_wrap_id)
        qed (use True 3 in \<open>auto simp: tracks_def\<close>)
      qed
    qed
  qed
qed

end
