(* ===== verification/Log_Answer.thy ===== *)
theory Log_Answer
  imports Log_Content
begin

text \<open>
  From the loop to the answer: \<open>getLog\<close> throws only where a meta type of a value cannot be read; the rows of its answer and the path dictionary in its
  header give back, through \<open>ShvLogRpcValueReader\<close>, the entries of the snapshot and of the window.
\<close>

section \<open>Rows and dictionary of the answer\<close>

definition snap_list :: "log_params \<Rightarrow> int \<Rightarrow> log_run \<Rightarrow> journal_entry list" where
  "snap_list p since_msec st =
     (if lp_withSnapshot p
      then map (\<lambda>kv. snapshot_entry (snapshot_since (run_snapshot st) (ShvGetLogParams_isSinceLast p) since_msec) (snd kv)) (run_snapshot st)
      else (case run_last_entry st of Some e \<Rightarrow> if ShvGetLogParams_isSinceLast p then [e] else [] | None \<Rightarrow> []))"

lemma foldl_over_map: "foldl f s (map g xs) = foldl (\<lambda>s x. f s (g x)) s xs"
  by (induction xs arbitrary: s) auto

lemma snapshot_rows_foldl:
  "snapshot_rows p since st = foldl (\<lambda>st e. append_log_entry p e st) ([], run_pathCache st) (snap_list p since st)"
  by (auto simp: snapshot_rows_def snap_list_def snapshot_to_entries_def foldl_over_map Let_def split: option.splits)

lemma snapshot_entry_fields [simp]:
  "je_path (snapshot_entry ms e) = je_path e" "je_epochMsec (snapshot_entry ms e) = ms" "je_shortTime (snapshot_entry ms e) = je_shortTime e"
  "je_domain (snapshot_entry ms e) = je_domain e"
  by (simp_all add: snapshot_entry_def ShvJournalEntry_setSpontaneous_def ShvJournalEntry_setSnapshotValue_def)

lemma snapshot_entry_flags:
  "ShvJournalEntry_isSnapshotValue (snapshot_entry ms e)" "\<not> ShvJournalEntry_isSpontaneous (snapshot_entry ms e)"
  by (simp_all add: snapshot_entry_def entry_flags)

lemma tracked_snapshot: "tracks p es log_run_start st taken seen \<Longrightarrow> run_snapshot st = snapshot_of seen"
  by (simp add: tracks_def snapshot_of_def log_run_start_def)

lemma snap_list_paths:
  assumes "tracks p es log_run_start st taken seen"
  shows "je_path ` set (snap_list p since st) \<subseteq> je_path ` set es"
proof -
  have "run_snapshot st = snapshot_of seen" "set seen \<subseteq> set es" "run_last_entry st = None \<or> (\<exists>e \<in> set es. run_last_entry st = Some e)"
    using assms tracked_snapshot [OF assms] by (auto simp: tracks_def log_run_start_def)
  then show ?thesis using snapshot_of_values by (fastforce simp: snap_list_def split: if_splits)
qed

lemma answer_rows:
  assumes "tracks p es log_run_start st taken seen" "int (length es) < 2 ^ 31"
  shows "\<exists>ps. list_all2 (row_for p ps) (fst (snapshot_rows p since st)) (snap_list p since st) \<and>
    list_all2 (row_for p ps) (run_log st) taken \<and> cache_is ps (snd (snapshot_rows p since st)) \<and> int (length ps) < 2 ^ 31"
proof -
  let ?S = "je_path ` set es"
  have card: "int (card ?S) < 2 ^ 31"
    using assms(2) card_image_le [of "set es" je_path] card_length [of es] by simp
  have "rows_for p [] ([], []) []" by (simp add: rows_for_def cache_is_Nil)
  moreover have "je_path ` set taken \<subseteq> ?S" using assms(1) by (auto simp: tracks_def)
  ultimately obtain ps where ps: "rows_for p ps (run_log st, run_pathCache st) taken" "set ps \<subseteq> ?S"
    using append_entries_rows [of p "[]" "([], [])" "[]" ?S taken] card assms(1) by (auto simp: tracks_def log_run_start_def)
  then have "rows_for p ps ([], run_pathCache st) []" by (simp add: rows_for_def)
  from append_entries_rows [OF this ps(2) snap_list_paths [OF assms(1), of since] _ card]
  obtain qs where qs: "rows_for p (ps @ qs) (snapshot_rows p since st) (snap_list p since st)" "set (ps @ qs) \<subseteq> ?S"
    by (auto simp: snapshot_rows_foldl)
  have "length (ps @ qs) = card (set (ps @ qs))" using qs(1) by (metis rows_for_def cache_is_def distinct_card)
  also have "\<dots> \<le> card ?S" using qs(2) by (intro card_mono) auto
  finally have "int (length (ps @ qs)) < 2 ^ 31" using card by linarith
  then show ?thesis using qs(1) rows_for_mono_rows [of p ps "run_log st" taken qs] ps(1)
    by (intro exI [of _ "ps @ qs"]) (simp add: rows_for_def)
qed

definition sent_dict :: "log_params \<Rightarrow> rpc_map \<Rightarrow> log_exn + rpc_imap" where
  "sent_dict p c = (if lp_withPathsDict p then make_path_dict c else Inr [])"

lemma sent_dict_ok:
  assumes "cache_is ps c" "int (length ps) < 2 ^ 31"
  shows "\<exists>d. sent_dict p c = Inr d \<and> (lp_withPathsDict p \<longrightarrow> dict_for ps d)"
  using make_path_dict_ok [OF assms] assms(2) by (auto simp: sent_dict_def dict_for_def)

section \<open>No exception of a container\<close>

lemma settle_end_total:
  assumes "list_all2 (row_for p ps) S snaps" "list_all2 (row_for p ps) L taken" "lp_withPathsDict p \<longrightarrow> dict_for ps d"
  shows "\<exists>rows fu'. settle_end p d now S L (S @ L) fu = Inr (rows, fu') \<and>
    (\<not> ShvGetLogParams_isSinceLast p \<and> rows \<noteq> [] \<longrightarrow> fu' \<noteq> None)"
proof -
  have all: "list_all2 (row_for p ps) (S @ L) (snaps @ taken)" using assms(1,2) by (rule list_all2_appendI)
  obtain rows' where erase: "\<And>t. \<exists>rows'. erase_at_time p d t (S @ L) = Inr rows'"
    using erase_at_time_converts [OF all] assms(3) by blast
  have last: "\<exists>e. row_entry p d (last (S @ L)) = Inr e" if "S @ L \<noteq> []"
  proof -
    have "length (S @ L) = length (snaps @ taken)" using all by (rule list_all2_lengthD)
    moreover have "length (S @ L) - 1 < length (S @ L)" using that by simp
    ultimately have "row_for p ps (last (S @ L)) ((snaps @ taken) ! (length (S @ L) - 1))"
      unfolding last_conv_nth [OF that] by (intro list_all2_nthD [OF all])
    then show ?thesis using row_entry_converts assms(3) by blast
  qed
  define R where "R = S @ L"
  show ?thesis
  proof (cases "R = []")
    case True
    then show ?thesis by (simp add: settle_end_def R_def)
  next
    case False
    then obtain e where e: "row_entry p d (last R) = Inr e" using last R_def by blast
    obtain rows' where rows': "erase_at_time p d (ShvJournalEntry_dateTime e) R = Inr rows'" using erase R_def by blast
    have "\<exists>rows fu'. settle_end p d now S L R fu = Inr (rows, fu') \<and>
        (\<not> ShvGetLogParams_isSinceLast p \<and> rows \<noteq> [] \<longrightarrow> fu' \<noteq> None)"
      by (cases fu; cases "L = [] \<and> S \<noteq> []"; cases "ShvGetLogParams_isSinceLast p") (simp_all add: settle_end_def e rows')
    then show ?thesis by (simp add: R_def)
  qed
qed

lemma since_until_total:
  "\<not> ShvGetLogParams_isSinceLast p \<and> rows \<noteq> [] \<longrightarrow> fu \<noteq> None \<Longrightarrow> \<exists>x. since_until p b rows fu = Inr x"
  by (cases fu) (auto simp: since_until_def Let_def)

definition effective_params :: "log_params \<Rightarrow> log_params" where
  "effective_params p = (if lp_withSnapshot p \<and> \<not> RpcValue_isValid (lp_since p) then p\<lparr>lp_withSnapshot := False\<rparr> else p)"

definition answer_header :: "ignore_limit \<Rightarrow> date_time \<Rightarrow> log_params \<Rightarrow> log_run \<Rightarrow> rpc_imap \<Rightarrow> rpc_list \<Rightarrow> rpc_value \<Rightarrow> rpc_value \<Rightarrow> 't log_header" where
  "answer_header ign clock orig st pathDict rows since until =
     ShvLogHeader_default
       \<lparr>lh_recordCountLimit := answered_limit ign (effective_params orig), lh_withSnapShot := lp_withSnapshot (effective_params orig),
        lh_withPathsDict := lp_withPathsDict orig, lh_recordCountLimitHit := run_limitHit st, lh_pathDict := pathDict,
        lh_since := since, lh_until := until, lh_dateTime := rpc (VDateTime clock), lh_logParams := orig,
        lh_recordCount := s_wrap 32 (int (length rows))\<rparr>"

lemma effective_params_fields:
  "lp_since (effective_params p) = lp_since p" "lp_until (effective_params p) = lp_until p"
  "lp_withPathsDict (effective_params p) = lp_withPathsDict p" "lp_recordCountLimit (effective_params p) = lp_recordCountLimit p"
  "ShvGetLogParams_isSinceLast (effective_params p) = ShvGetLogParams_isSinceLast p"
  "PatternMatcher_make rx (effective_params p) = PatternMatcher_make rx p"
  by (simp_all add: effective_params_def ShvGetLogParams_isSinceLast_def PatternMatcher_make_def set_domain_pattern_def
      set_path_pattern_def cong: option.case_cong)

lemma impl_get_log_result:
  fixes ti :: "'t type_info_lib" and orig :: log_params
  defines "p \<equiv> effective_params orig"
  assumes "readers_loop (log_step rx (PatternMatcher_make rx p) p (params_msec (lp_since p) 0) (params_msec (lp_until p) int64_max)) readers log_run_start = Inr (go, st)"
    and "snapshot_rows p (params_msec (lp_since p) 0) st = (S, c)" "sent_dict p c = Inr d"
    and "settle_end p d now S (run_log st) (S @ run_log st) (run_first_unmatching st) = Inr (rows, fu)"
    and "since_until p (run_have_data_before_since st) rows fu = Inr (since, until)"
  shows "impl_get_log rx ti clock readers orig now ign =
    Inr (RpcValue (Some (ShvLogHeader_toMetaData ti (answer_header ign clock orig st d rows since until))) (VList rows))"
  using assms(2-)
  unfolding impl_get_log_def effective_params_def [symmetric] p_def [symmetric] Let_def sent_dict_def [symmetric]
  by (simp add: RpcValue_setMetaData_def type_test_defs answer_header_def p_def effective_params_fields)

text \<open>
  Whatever is asked, an answer comes back if the meta types of the values can be read: no path number is missing in the
  dictionary (\<open>std::map::at\<close>), and there is an end of the window whenever one is sent (\<open>std::optional::value\<close>).
\<close>

lemma impl_get_log_total:
  assumes "\<forall>e \<in> set es. readable e" "int (length es) < 2 ^ 31" "concat readers = map Inr es"
  shows "\<exists>log'. impl_get_log rx ti clock readers orig now ign = Inr log'"
proof -
  define p since until where "p = effective_params orig" and "since = params_msec (lp_since p) 0"
    and "until = params_msec (lp_until p) int64_max"
  obtain go st taken seen where loop: "reader_loop (log_step rx (PatternMatcher_make rx p) p since until) (map Inr es) log_run_start = Inr (go, st)"
      "tracks p es log_run_start st taken seen"
    using loop_total [OF assms(1)] by blast
  obtain S c where sc: "snapshot_rows p since st = (S, c)" by fastforce
  obtain ps where ps: "list_all2 (row_for p ps) S (snap_list p since st)" "list_all2 (row_for p ps) (run_log st) taken"
      "cache_is ps c" "int (length ps) < 2 ^ 31"
    using answer_rows [OF loop(2) assms(2), of since] sc by auto
  obtain d where d: "sent_dict p c = Inr d" "lp_withPathsDict p \<longrightarrow> dict_for ps d" using sent_dict_ok [OF ps(3,4)] by blast
  obtain rows fu where fu: "settle_end p d now S (run_log st) (S @ run_log st) (run_first_unmatching st) = Inr (rows, fu)"
      "\<not> ShvGetLogParams_isSinceLast p \<and> rows \<noteq> [] \<longrightarrow> fu \<noteq> None"
    using settle_end_total [OF ps(1,2) d(2)] by blast
  obtain s u where "since_until p (run_have_data_before_since st) rows fu = Inr (s, u)"
    using since_until_total [OF fu(2)] by (metis surj_pair)
  have "readers_loop (log_step rx (PatternMatcher_make rx p) p (params_msec (lp_since p) 0) (params_msec (lp_until p) int64_max))
      readers log_run_start = Inr (go, st)"
    using loop(1) by (simp add: readers_loop_concat assms(3) since_def until_def)
  from impl_get_log_result [where orig = orig, folded p_def, OF this sc [unfolded since_def] d(1) fu(1) \<open>since_until p _ rows fu = _\<close>]
  show ?thesis by blast
qed


section \<open>The answer read back\<close>

definition settled :: "journal_entry option \<Rightarrow> int \<Rightarrow> journal_entry list \<Rightarrow> journal_entry list" where
  "settled fu now_ms taken =
     (if fu = None \<and> taken \<noteq> [] \<and> \<bar>je_epochMsec (last taken) - now_ms\<bar> < 1000
      then filter (\<lambda>e. je_epochMsec e \<noteq> je_epochMsec (last taken)) taken else taken)"

definition answer_end :: "journal_entry option \<Rightarrow> journal_entry list \<Rightarrow> journal_entry option" where
  "answer_end fu all_entries = (if fu = None \<and> all_entries \<noteq> [] then Some (row_norm (last all_entries)) else fu)"

lemma row_entry_last:
  assumes "list_all2 (row_for p ps) rows es" "rows \<noteq> []" "lp_withPathsDict p \<longrightarrow> dict_for ps d" "\<forall>e \<in> set es. row_ok e"
  shows "row_entry p d (last rows) = Inr (row_norm (last es))"
proof -
  have len: "length rows = length es" using assms(1) by (rule list_all2_lengthD)
  then have es: "es \<noteq> []" using assms(2) by auto
  have "length rows - 1 < length rows" using assms(2) by simp
  then have "row_for p ps (last rows) (last es)"
    unfolding last_conv_nth [OF assms(2)] last_conv_nth [OF es] len [symmetric] by (rule list_all2_nthD [OF assms(1)])
  moreover have "row_ok (last es)" using assms(4) es by simp
  ultimately show ?thesis
    using row_entry_back [of p ps "last rows" "last es" d] assms(3) by (simp add: row_ok_def)
qed

lemma settle_end_content:
  assumes "list_all2 (row_for p ps) S snaps" "list_all2 (row_for p ps) L taken" "lp_withPathsDict p \<longrightarrow> dict_for ps d"
    and "\<forall>e \<in> set (snaps @ taken). row_ok e" "\<not> ShvGetLogParams_isSinceLast p"
    and "\<forall>e \<in> set snaps. je_epochMsec e = since" "\<forall>e \<in> set taken. since < je_epochMsec e"
  shows "\<exists>rows. settle_end p d now S L (S @ L) fu = Inr (rows, answer_end fu (snaps @ taken)) \<and>
    list_all2 (row_for p ps) rows (snaps @ settled fu (RpcDateTime_msecsSinceEpoch now) taken)"
proof -
  define R where "R = S @ L"
  have R: "list_all2 (row_for p ps) R (snaps @ taken)" using assms(1,2) unfolding R_def by (rule list_all2_appendI)
  have len: "length S = length snaps" "length L = length taken" using assms(1,2) by (auto dest: list_all2_lengthD)
  have nil: "L = [] \<longleftrightarrow> taken = []" "S = [] \<longleftrightarrow> snaps = []" "R = [] \<longleftrightarrow> snaps @ taken = []" using len by (auto simp: R_def)
  have last: "row_entry p d (last R) = Inr (row_norm (last (snaps @ taken)))" if "R \<noteq> []"
    using row_entry_last [OF R that assms(3,4)] .
  have time: "ShvJournalEntry_dateTime (row_norm e) = RpcDateTime_fromMSecsSinceEpoch (je_epochMsec e) 0"
      "RpcDateTime_msecsSinceEpoch (ShvJournalEntry_dateTime (row_norm e)) = je_epochMsec e" if "e \<in> set (snaps @ taken)" for e
    using assms(4) that by (simp_all add: ShvJournalEntry_dateTime_def row_ok_def s_wrap_id)
  show ?thesis
  proof (cases "fu = None \<and> taken \<noteq> []")
    case False
    then show ?thesis
      unfolding R_def [symmetric]
      by (cases fu) (use R nil last in \<open>auto simp: settle_end_def answer_end_def settled_def assms(5)\<close>)
  next
    case True
    have all: "snaps @ taken \<noteq> []" "last (snaps @ taken) = last taken" "last taken \<in> set taken" using True by simp_all
    have row: "row_entry p d (last R) = Inr (row_norm (last taken))" "R \<noteq> []" using last all nil by auto
    have ms: "RpcDateTime_msecsSinceEpoch (ShvJournalEntry_dateTime (row_norm (last taken))) = je_epochMsec (last taken)"
      using time(2) all(3) by simp
    show ?thesis
    proof (cases "\<bar>je_epochMsec (last taken) - RpcDateTime_msecsSinceEpoch now\<bar> < 1000")
      case recent: True
      have "\<forall>e \<in> set (snaps @ taken). in_s 32 (je_shortTime e) \<and> je_path e \<noteq> [] \<and> in_s 57 (je_epochMsec e)"
          "in_s 57 (je_epochMsec (last taken))"
        using assms(4) all(3) by (auto simp: row_ok_def)
      from erase_at_time_filter [OF R _ this] assms(3) obtain rows' where
          rows': "erase_at_time p d (ShvJournalEntry_dateTime (row_norm (last taken))) R = Inr rows'"
          "list_all2 (row_for p ps) rows' (filter (\<lambda>e. je_epochMsec e \<noteq> je_epochMsec (last taken)) (snaps @ taken))"
        using time(1) [of "last taken"] all(3) by auto
      have "filter (\<lambda>e. je_epochMsec e \<noteq> je_epochMsec (last taken)) snaps = snaps"
        using assms(6,7) all(3) by (intro filter_True) fastforce
      then show ?thesis
        using rows' row ms recent True all nil
        by (simp add: settle_end_def settled_def answer_end_def assms(5) R_def [symmetric])
    next
      case False
      then show ?thesis
        using R row ms True all nil by (simp add: settle_end_def settled_def answer_end_def assms(5) R_def [symmetric])
    qed
  qed
qed

lemma reader_of_rows:
  assumes "header_ok ti h" "list_all2 (row_for p ps) rows es" "lp_withPathsDict p \<longrightarrow> dict_for ps (lh_pathDict h)" "\<forall>e \<in> set es. row_ok e"
  shows "\<exists>r. ShvLogRpcValueReader_make ti (RpcValue (Some (ShvLogHeader_toMetaData ti h)) (VList rows)) thr = Inr r \<and>
    lr_logHeader r = h \<and> map (map_sum id fst) (reader_run r) = map Inr (map row_norm es)"
proof -
  let ?log = "RpcValue (Some (ShvLogHeader_toMetaData ti h)) (VList rows)"
  define r where "r = \<lparr>lr_logHeader = h, lr_currentEntry = ShvJournalEntry_default, lr_log = ?log, lr_isThrowExceptions = thr,
      lr_currentIndex = 0, lr_snapshotMsec = (if lh_withSnapShot h then ShvLogHeader_sinceMsec h else -1)\<rparr>"
  have "ShvLogRpcValueReader_make ti ?log thr = Inr r"
    using header_roundtrip [OF assms(1)]
    by (simp add: ShvLogRpcValueReader_make_def RpcValue_metaData_def type_test_defs r_def)
  moreover have "list_all2 (\<lambda>row e. row_read h row (row_norm e)) rows es"
    using assms(2)
  proof (rule list.rel_mono_strong)
    fix row e assume "e \<in> set es" "row_for p ps row e"
    then show "row_read h row (row_norm e)"
      using row_read_back [of p ps row e h] assms(3,4) by (auto simp: row_ok_def)
  qed
  then have "list_all2 (row_read h) rows (map row_norm es)" by (simp add: list_all2_map2)
  then have "reader_run r = map (\<lambda>e. Inr (e, in_snapshot (lr_snapshotMsec r) e)) (map row_norm es)"
    by (intro reader_run_rows) (simp add: r_def as_defs)
  ultimately show ?thesis by (intro exI [of _ r]) (simp add: r_def)
qed


lemma answer_header_ok:
  "params_ok orig \<Longrightarrow> sendable since \<Longrightarrow> sendable until \<Longrightarrow> header_ok ti (answer_header ign clock orig st d rows since until)"
proof -
  assume ok: "params_ok orig" "sendable since" "sendable until"
  have "in_s 32 (answered_limit ign (effective_params orig))"
    using ok(1) by (auto simp: answered_limit_def params_ok_def effective_params_fields in_s_def int_max32_def
        DEFAULT_GET_LOG_RECORD_COUNT_LIMIT_def)
  moreover have "sendable (rpc (VDateTime clock))" by (simp add: sendable_def type_test_defs)
  moreover have "in_s 32 2" by (simp add: in_s_def)
  ultimately show ?thesis using ok by (simp add: header_ok_def answer_header_def ShvLogHeader_default_def)
qed

lemma row_timestamp:
  "row_for p ps row e \<Longrightarrow>
   RpcList_value (RpcValue_asList row) (Column_ix ColTimestamp) = rpc (VDateTime (ShvJournalEntry_dateTime e))"
  by (auto simp: row_for_def ShvJournalEntry_toRpcValueList_def ShvJournalEntry_dateTime_def split: if_splits)

lemma since_until_sendable:
  assumes "list_all2 (row_for p ps) rows es" "sendable (lp_since p)" "sendable (lp_until p)" "\<not> ShvGetLogParams_isSinceLast p"
    and "rows \<noteq> [] \<longrightarrow> fu \<noteq> None"
  shows "\<exists>s u. since_until p b rows fu = Inr (s, u) \<and> sendable s \<and> sendable u \<and>
    (rows \<noteq> [] \<longrightarrow> u = rpc (VDateTime (ShvJournalEntry_dateTime (the fu)))) \<and> (b \<and> rows \<noteq> [] \<longrightarrow> s = lp_since p)"
proof (cases rows)
  case Nil
  then show ?thesis using assms(2,3) by (auto simp: since_until_def Let_def)
next
  case (Cons row rows')
  then obtain e where "row_for p ps row e" using assms(1) by (cases es) auto
  then have front: "RpcList_value (RpcValue_asList row) (Column_ix ColTimestamp) = rpc (VDateTime (ShvJournalEntry_dateTime e))"
    by (rule row_timestamp)
  have valid: "sendable (rpc (VDateTime d))" for d by (simp add: sendable_def type_test_defs)
  from Cons assms(5) obtain u where "fu = Some u" by auto
  then show ?thesis using Cons front valid assms(2,4) by (simp add: since_until_def Let_def del: Column_ix.simps)
qed

lemma answer_read_back:
  fixes ti :: "'t type_info_lib" and orig :: log_params
  defines "p \<equiv> effective_params orig" and "since \<equiv> params_msec (lp_since orig) 0" and "until \<equiv> params_msec (lp_until orig) int64_max"
  assumes "reader_loop (log_step rx (PatternMatcher_make rx orig) p since until) (map Inr es) log_run_start = Inr (go, st)"
    and tracks: "tracks p es log_run_start st taken seen" and taken: "\<forall>e \<in> set taken. since < je_epochMsec e"
    and es: "\<forall>e \<in> set es. row_ok e" "int (length es) < 2 ^ 31" "concat readers = map Inr es"
    and params: "params_ok orig" "in_s 57 since" "\<not> ShvGetLogParams_isSinceLast orig"
  shows "\<exists>log' r. impl_get_log rx ti clock readers orig now ign = Inr log' \<and> ShvLogRpcValueReader_make ti log' thr = Inr r \<and>
    map (map_sum id fst) (reader_run r) =
      map Inr (map row_norm (snap_list p since st @ settled (run_first_unmatching st) (RpcDateTime_msecsSinceEpoch now) taken)) \<and>
    lh_recordCountLimitHit (lr_logHeader r) = run_limitHit st \<and>
    (snap_list p since st @ settled (run_first_unmatching st) (RpcDateTime_msecsSinceEpoch now) taken \<noteq> [] \<longrightarrow>
      lh_until (lr_logHeader r) =
        rpc (VDateTime (ShvJournalEntry_dateTime (the (answer_end (run_first_unmatching st) (snap_list p since st @ taken))))))"
proof -
  let ?snaps = "snap_list p since st" and ?recs = "settled (run_first_unmatching st) (RpcDateTime_msecsSinceEpoch now) taken"
  have last: "\<not> ShvGetLogParams_isSinceLast p" using params(3) by (simp add: p_def effective_params_fields)
  obtain S c where sc: "snapshot_rows p since st = (S, c)" by fastforce
  obtain ps where ps: "list_all2 (row_for p ps) S ?snaps" "list_all2 (row_for p ps) (run_log st) taken"
      "cache_is ps c" "int (length ps) < 2 ^ 31"
    using answer_rows [OF tracks es(2), of since] sc by auto
  obtain d where d: "sent_dict p c = Inr d" "lp_withPathsDict p \<longrightarrow> dict_for ps d" using sent_dict_ok [OF ps(3,4)] by blast
  have snaps: "\<forall>e \<in> set ?snaps. row_ok e \<and> je_epochMsec e = since"
  proof -
    have "run_snapshot st = snapshot_of seen" "set seen \<subseteq> set es"
      using tracked_snapshot [OF tracks] tracks by (simp_all add: tracks_def)
    then show ?thesis
      using snapshot_of_values es(1) params(2) last
      by (fastforce simp: snap_list_def snapshot_since_def row_ok_def split: if_splits option.splits)
  qed
  moreover have "set taken \<subseteq> set es" using tracks by (simp add: tracks_def)
  ultimately have ok: "\<forall>e \<in> set (?snaps @ taken). row_ok e" "\<forall>e \<in> set (?snaps @ ?recs). row_ok e"
    using es(1) by (auto simp: settled_def split: if_splits)
  from settle_end_content [OF ps(1,2) d(2) ok(1) last _ taken] snaps obtain rows where
      rows: "settle_end p d now S (run_log st) (S @ run_log st) (run_first_unmatching st) =
        Inr (rows, answer_end (run_first_unmatching st) (?snaps @ taken))"
      "list_all2 (row_for p ps) rows (?snaps @ ?recs)"
    by blast
  have nil: "rows = [] \<longleftrightarrow> ?snaps @ ?recs = []" using rows(2) by (auto dest: list_all2_lengthD)
  then have "rows \<noteq> [] \<longrightarrow> answer_end (run_first_unmatching st) (?snaps @ taken) \<noteq> None"
    by (auto simp: answer_end_def settled_def)
  moreover have "sendable (lp_since p)" "sendable (lp_until p)"
    using params(1) by (simp_all add: params_ok_def p_def effective_params_fields)
  ultimately obtain s u where su: "since_until p (run_have_data_before_since st) rows (answer_end (run_first_unmatching st) (?snaps @ taken)) = Inr (s, u)"
      "sendable s" "sendable u"
      "rows \<noteq> [] \<longrightarrow> u = rpc (VDateTime (ShvJournalEntry_dateTime (the (answer_end (run_first_unmatching st) (?snaps @ taken)))))"
    using since_until_sendable [OF rows(2) _ _ last, of _ "run_have_data_before_since st"] by blast
  let ?h = "answer_header ign clock orig st d rows s u"
  have "impl_get_log rx ti clock readers orig now ign = Inr (RpcValue (Some (ShvLogHeader_toMetaData ti ?h)) (VList rows))"
    using assms(4) sc d(1) rows(1) su(1) unfolding p_def since_def until_def
    by (intro impl_get_log_result) (simp_all add: readers_loop_concat es(3) effective_params_fields)
  moreover have "lp_withPathsDict p \<longrightarrow> dict_for ps (lh_pathDict ?h)" using d(2) by (simp add: answer_header_def)
  from reader_of_rows [OF answer_header_ok [OF params(1) su(2,3)] rows(2) this ok(2), of ti thr]
  obtain r where "ShvLogRpcValueReader_make ti (RpcValue (Some (ShvLogHeader_toMetaData ti ?h)) (VList rows)) thr = Inr r"
      "lr_logHeader r = ?h" "map (map_sum id fst) (reader_run r) = map Inr (map row_norm (?snaps @ ?recs))" by blast
  ultimately show ?thesis using su(4) nil
    by (intro exI [of _ "RpcValue (Some (ShvLogHeader_toMetaData ti ?h)) (VList rows)"] exI [of _ r]) (simp add: answer_header_def)
qed


section \<open>What is in the answer\<close>

lemma in_s_params_msec: "rpc_wf v \<Longrightarrow> in_s 57 (params_msec v 0)"
  by (cases v; cases "rv_var v")
     (auto simp: params_msec_def type_test_defs RpcValue_toDateTime_def RpcDateTime_msecsSinceEpoch_def date_time_wf_def)

text \<open>The snapshot of an answer that is not asked for with \<open>last\<close>.\<close>

definition log_snapshot :: "log_params \<Rightarrow> (journal_entry \<Rightarrow> bool) \<Rightarrow> int \<Rightarrow> journal_entry list \<Rightarrow> journal_entry list" where
  "log_snapshot p m since es =
     (if lp_withSnapshot p \<and> RpcValue_isValid (lp_since p)
      then map (\<lambda>kv. snapshot_entry since (snd kv)) (snapshot_of (filter (\<lambda>e. m e \<and> je_epochMsec e \<le> since) es)) else [])"

lemma snap_list_log_snapshot:
  assumes "run_snapshot st = snapshot_of (filter (\<lambda>e. m e \<and> je_epochMsec e \<le> since) es)" "\<not> ShvGetLogParams_isSinceLast p"
  shows "snap_list (effective_params p) since st = log_snapshot p m since es"
  using assms by (auto simp: snap_list_def log_snapshot_def effective_params_fields snapshot_since_def effective_params_def
      ShvGetLogParams_isSinceLast_def split: option.splits)

text \<open>The entries of the window, without those of the last time where these may be incomplete.\<close>

definition log_window :: "(journal_entry \<Rightarrow> bool) \<Rightarrow> int \<Rightarrow> int \<Rightarrow> int \<Rightarrow> journal_entry list \<Rightarrow> journal_entry list" where
  "log_window m since until now_ms es =
     (let w = filter (\<lambda>e. m e \<and> since < je_epochMsec e \<and> je_epochMsec e < until) es in
      if (\<forall>e \<in> set es. m e \<longrightarrow> je_epochMsec e < until) \<and> w \<noteq> [] \<and> \<bar>je_epochMsec (last w) - now_ms\<bar> < 1000
      then filter (\<lambda>e. je_epochMsec e \<noteq> je_epochMsec (last w)) w else w)"

lemma sorted_less_takeWhile:
  assumes "sorted (map f xs)"
  shows "takeWhile (\<lambda>x. f x < (u::int)) xs = filter (\<lambda>x. f x < u) xs"
    and "dropWhile (\<lambda>x. f x < u) xs = filter (\<lambda>x. \<not> f x < u) xs"
  using assms
proof (induction xs)
  case (Cons x xs)
  {
    case 1
    show ?case
    proof (cases "f x < u")
      case False
      then have "filter (\<lambda>x. f x < u) xs = []" using 1 by (auto simp: filter_empty_conv)
      then show ?thesis using False by simp
    qed (use Cons 1 in simp)
  next
    case 2
    show ?case
    proof (cases "f x < u")
      case False
      then have "filter (\<lambda>x. \<not> f x < u) xs = xs" using 2 by (auto simp: filter_id_conv)
      then show ?thesis using False by simp
    qed (use Cons 2 in simp)
  }
qed simp_all

lemma sorted_map_filter: "sorted (map f xs) \<Longrightarrow> sorted (map f (filter P xs))"
  by (rule sorted_filter)

lemma getLog_unlimited:
  fixes p rx
  defines "since \<equiv> params_msec (lp_since p) 0" and "until \<equiv> params_msec (lp_until p) int64_max"
    and "m \<equiv> PatternMatcher_match rx (PatternMatcher_make rx p)"
  assumes sorted: "sorted (map je_epochMsec es)" and es: "\<forall>e \<in> set es. readable e \<and> row_ok e"
    and limit: "int (length es) \<le> lp_recordCountLimit p"
    and params: "params_ok p" "rpc_wf (lp_since p)" "\<not> ShvGetLogParams_isSinceLast p" and window: "since < until"
  shows "\<exists>log' r. getLog rx ti clock es p now ign = Inr log' \<and> ShvLogRpcValueReader_make ti log' thr = Inr r \<and>
    map (map_sum id fst) (reader_run r) =
      map Inr (map row_norm (log_snapshot p m since es @ log_window m since until (RpcDateTime_msecsSinceEpoch now) es)) \<and>
    \<not> lh_recordCountLimitHit (lr_logHeader r)"
proof -
  define ms bf rest where "ms = filter m es" and "bf = filter (\<lambda>e. je_epochMsec e < until) ms"
    and "rest = filter (\<lambda>e. \<not> je_epochMsec e < until) ms"
  define taken where "taken = filter (\<lambda>e. since < je_epochMsec e) bf"
  define st where "st = window_state (effective_params p) since bf rest log_run_start"
  have sorted_ms: "sorted (map je_epochMsec ms)" using sorted by (simp add: ms_def sorted_map_filter)
  have "reader_loop (log_step rx (PatternMatcher_make rx p) (effective_params p) since until) (map Inr es) log_run_start =
      Inr (rest = [], st)"
    using loop_window [of "effective_params p" es log_run_start rx "PatternMatcher_make rx p" since until] es limit params(3)
    by (simp add: effective_params_fields log_run_start_def st_def ms_def [symmetric] m_def [symmetric] bf_def rest_def
        sorted_less_takeWhile [OF sorted_ms])
  moreover have old: "filter (\<lambda>e. je_epochMsec e \<le> since) (bf @ take 1 rest) = filter (\<lambda>e. m e \<and> je_epochMsec e \<le> since) es"
  proof -
    have "filter (\<lambda>e. je_epochMsec e \<le> since) (take 1 rest) = []"
      using window set_take_subset [of 1 rest] by (fastforce simp: filter_empty_conv rest_def)
    moreover have "filter (\<lambda>e. je_epochMsec e \<le> since) bf = filter (\<lambda>e. m e \<and> je_epochMsec e \<le> since) es"
      using window by (auto simp: bf_def ms_def intro!: filter_cong)
    ultimately show ?thesis by simp
  qed
  have snap: "run_snapshot st = foldl (\<lambda>s e. snap_add e s) [] (filter (\<lambda>e. m e \<and> je_epochMsec e \<le> since) es)"
    by (simp add: st_def window_state_def Let_def old log_run_start_def del: filter_append One_nat_def)
  have bf_es: "set bf \<subseteq> set es" by (auto simp: bf_def ms_def)
  have "bf = [] \<or> last bf \<in> set es" using last_in_set [of bf] bf_es by blast
  then have "run_last_entry st = run_last_entry log_run_start \<or> (\<exists>e \<in> set es. run_last_entry st = Some e)"
    by (auto simp: st_def window_state_def Let_def)
  then have "tracks (effective_params p) es log_run_start st taken (filter (\<lambda>e. m e \<and> je_epochMsec e \<le> since) es)"
    using bf_es by (auto simp: tracks_def snap log_run_start_def) (auto simp: st_def window_state_def Let_def taken_def log_run_start_def)
  ultimately obtain log' r where res: "getLog rx ti clock es p now ign = Inr log'" "ShvLogRpcValueReader_make ti log' thr = Inr r"
      "map (map_sum id fst) (reader_run r) = map Inr (map row_norm (snap_list (effective_params p) since st @
         settled (run_first_unmatching st) (RpcDateTime_msecsSinceEpoch now) taken))"
      "lh_recordCountLimitHit (lr_logHeader r) = run_limitHit st"
    using answer_read_back [where orig = p and rx = rx and es = es and st = st and taken = taken and go = "rest = []" and
        readers = "[map Inr es]" and ti = ti and clock = clock and now = now and ign = ign and thr = thr,
        folded since_def until_def] es limit params in_s_params_msec [OF params(2)]
    unfolding getLog_def by (fastforce simp: taken_def since_def params_ok_def in_s_def)
  have "snap_list (effective_params p) since st = log_snapshot p m since es"
    using snap by (intro snap_list_log_snapshot) (simp_all add: snapshot_of_def params(3))
  moreover have "settled (run_first_unmatching st) now_ms taken = log_window m since until now_ms es" for now_ms
  proof -
    have "taken = filter (\<lambda>e. m e \<and> since < je_epochMsec e \<and> je_epochMsec e < until) es"
      by (auto simp: taken_def bf_def ms_def intro!: filter_cong)
    moreover have "run_first_unmatching st = None \<longleftrightarrow> (\<forall>e \<in> set es. m e \<longrightarrow> je_epochMsec e < until)"
      by (auto simp: st_def window_state_def Let_def log_run_start_def rest_def ms_def filter_empty_conv)
    ultimately show ?thesis by (simp add: settled_def log_window_def Let_def)
  qed
  moreover have "\<not> run_limitHit st" by (simp add: st_def window_state_def Let_def log_run_start_def)
  ultimately show ?thesis using res by auto
qed


text \<open>
  Whatever the limit: the entries of an answer are all the matching ones after \<open>since\<close> and before the end the header tells, or up to this end
  where no matching ones come later.
\<close>

lemma sorted_le_last: "sorted (map f xs) \<Longrightarrow> x \<in> set xs \<Longrightarrow> (f x :: int) \<le> f (last xs)"
  by (induction xs) (auto split: if_splits)

lemma settled_page:
  fixes now_ms
  assumes "page_of m since until es log_run_start (go, st) taken seen" "sorted (map je_epochMsec es)"
  defines "recs \<equiv> settled (run_first_unmatching st) now_ms taken"
  shows "\<exists>u. (recs = filter (\<lambda>e. selected m since e \<and> je_epochMsec e < u) es \<or>
      recs = filter (selected m since) es \<and> (\<forall>e \<in> set recs. je_epochMsec e \<le> u)) \<and>
    (\<forall>snaps. (\<forall>e \<in> set snaps. je_epochMsec e = since) \<and> snaps @ recs \<noteq> [] \<longrightarrow>
       (\<exists>e \<in> set (snaps @ taken) \<union> set es. answer_end (run_first_unmatching st) (snaps @ taken) \<in> {Some e, Some (row_norm e)} \<and>
          je_epochMsec e = u))"
proof (cases go)
  case False
  then obtain u where u: "u \<in> set es" "run_first_unmatching st = Some u"
      "taken = filter (\<lambda>e. selected m since e \<and> je_epochMsec e < je_epochMsec u) es"
    using assms(1) by (auto simp: page_of_def)
  then show ?thesis
    by (intro exI [of _ "je_epochMsec u"]) (auto simp: recs_def settled_def answer_end_def)
next
  case True
  then have none: "run_first_unmatching st = None" and taken: "taken = filter (selected m since) es"
    using assms(1) by (auto simp: page_of_def log_run_start_def)
  show ?thesis
  proof (cases "taken = []")
    case True
    then show ?thesis using taken none
      by (intro exI [of _ since]) (auto simp: recs_def settled_def answer_end_def intro!: bexI [of _ "last _"])
  next
    case False
    have sorted: "sorted (map je_epochMsec taken)" using assms(2) by (simp add: taken sorted_map_filter)
    have le: "\<forall>e \<in> set taken. je_epochMsec e \<le> je_epochMsec (last taken)" using sorted_le_last [OF sorted] by blast
    have "recs = filter (\<lambda>e. selected m since e \<and> je_epochMsec e < je_epochMsec (last taken)) es \<or> recs = taken"
    proof (cases "\<bar>je_epochMsec (last taken) - now_ms\<bar> < 1000")
      case True
      have "recs = filter (\<lambda>e. je_epochMsec e \<noteq> je_epochMsec (last taken)) taken"
        using True False none by (simp add: recs_def settled_def)
      also have "\<dots> = filter (\<lambda>e. je_epochMsec e < je_epochMsec (last taken)) taken"
        using le by (intro filter_cong) auto
      finally show ?thesis by (simp add: taken conj_commute)
    qed (simp add: recs_def settled_def)
    then have "recs = filter (\<lambda>e. selected m since e \<and> je_epochMsec e < je_epochMsec (last taken)) es \<or>
        recs = filter (selected m since) es \<and> (\<forall>e \<in> set recs. je_epochMsec e \<le> je_epochMsec (last taken))"
      using le taken by blast
    moreover have "\<exists>e \<in> set (snaps @ taken) \<union> set es. answer_end (run_first_unmatching st) (snaps @ taken) \<in> {Some e, Some (row_norm e)} \<and>
        je_epochMsec e = je_epochMsec (last taken)" for snaps
      using none False by (intro bexI [of _ "last taken"]) (simp_all add: answer_end_def)
    ultimately show ?thesis by blast
  qed
qed

lemma getLog_page:
  fixes p rx
  defines "since \<equiv> params_msec (lp_since p) 0" and "until \<equiv> params_msec (lp_until p) int64_max"
    and "m \<equiv> PatternMatcher_match rx (PatternMatcher_make rx p)"
  assumes sorted: "sorted (map je_epochMsec es)" and es: "\<forall>e \<in> set es. readable e \<and> row_ok e" "int (length es) < 2 ^ 31"
    and params: "params_ok p" "rpc_wf (lp_since p)" "\<not> ShvGetLogParams_isSinceLast p" and window: "since < until"
  shows "\<exists>log' r recs u. getLog rx ti clock es p now ign = Inr log' \<and> ShvLogRpcValueReader_make ti log' thr = Inr r \<and>
    map (map_sum id fst) (reader_run r) = map Inr (map row_norm (log_snapshot p m since es @ recs)) \<and>
    (recs = filter (\<lambda>e. selected m since e \<and> je_epochMsec e < u) es \<or>
     recs = filter (selected m since) es \<and> (\<forall>e \<in> set recs. je_epochMsec e \<le> u)) \<and>
    (log_snapshot p m since es @ recs \<noteq> [] \<longrightarrow> ShvLogHeader_untilMsec (lr_logHeader r) = u)"
proof -
  have ok57: "\<forall>e \<in> set es. readable e \<and> in_s 57 (je_epochMsec e)" using es(1) by (auto simp: row_ok_def)
  obtain go st taken seen where run: "reader_loop (log_step rx (PatternMatcher_make rx p) (effective_params p) since until)
      (map Inr es) log_run_start = Inr (go, st)" "tracks (effective_params p) es log_run_start st taken seen"
      "page_of m since until es log_run_start (go, st) taken seen"
    using loop_page [of "effective_params p" es log_run_start rx "PatternMatcher_make rx p" since until] ok57 sorted params(3)
    by (auto simp: effective_params_fields log_run_start_def m_def)
  have taken: "\<forall>e \<in> set taken. since < je_epochMsec e"
    using run(3) by (auto simp: page_of_def selected_def split: if_splits)
  have snaps: "snap_list (effective_params p) since st = log_snapshot p m since es"
    using run(3) window params(3) tracked_snapshot [OF run(2)] by (intro snap_list_log_snapshot) (auto simp: page_of_def)
  define recs where "recs = settled (run_first_unmatching st) (RpcDateTime_msecsSinceEpoch now) taken"
  obtain log' r where res: "getLog rx ti clock es p now ign = Inr log'" "ShvLogRpcValueReader_make ti log' thr = Inr r"
      "map (map_sum id fst) (reader_run r) = map Inr (map row_norm (log_snapshot p m since es @ recs))"
      "log_snapshot p m since es @ recs \<noteq> [] \<longrightarrow> lh_until (lr_logHeader r) =
        rpc (VDateTime (ShvJournalEntry_dateTime (the (answer_end (run_first_unmatching st) (log_snapshot p m since es @ taken)))))"
    using answer_read_back [where orig = p and rx = rx and es = es and st = st and taken = taken and go = go and seen = seen and
        readers = "[map Inr es]" and ti = ti and clock = clock and now = now and ign = ign and thr = thr,
        folded since_def until_def, OF run(1,2) taken] es params in_s_params_msec [OF params(2)]
    unfolding getLog_def snaps recs_def [symmetric] by (auto simp: since_def)
  obtain u where u: "recs = filter (\<lambda>e. selected m since e \<and> je_epochMsec e < u) es \<or>
      recs = filter (selected m since) es \<and> (\<forall>e \<in> set recs. je_epochMsec e \<le> u)"
    "\<And>snaps. \<forall>e \<in> set snaps. je_epochMsec e = since \<Longrightarrow> snaps @ recs \<noteq> [] \<Longrightarrow>
       \<exists>e \<in> set (snaps @ taken) \<union> set es. answer_end (run_first_unmatching st) (snaps @ taken) \<in> {Some e, Some (row_norm e)} \<and> je_epochMsec e = u"
    using settled_page [OF run(3) sorted, of "RpcDateTime_msecsSinceEpoch now", folded recs_def] by blast
  have "ShvLogHeader_untilMsec (lr_logHeader r) = u" if "log_snapshot p m since es @ recs \<noteq> []"
  proof -
    have s: "\<forall>e \<in> set (log_snapshot p m since es). je_epochMsec e = since" by (auto simp: log_snapshot_def)
    from u(2) [OF s that] obtain e where e: "e \<in> set (log_snapshot p m since es @ taken) \<union> set es"
        "answer_end (run_first_unmatching st) (log_snapshot p m since es @ taken) \<in> {Some e, Some (row_norm e)}" "je_epochMsec e = u" by blast
    have "set taken \<subseteq> set es" using run(2) by (simp add: tracks_def)
    then have "in_s 57 u" using e(1,3) s ok57 in_s_params_msec [OF params(2)] by (auto simp: since_def)
    then show ?thesis
      using res(4) that e(2,3) by (auto simp: ShvLogHeader_untilMsec_def ShvJournalEntry_dateTime_def s_wrap_id)
  qed
  then show ?thesis using res(1-3) u(1) by blast
qed

end
