(* ===== verification/Memory_Journal.thy ===== *)
theory Memory_Journal
  imports Log_Answer
begin

text \<open>
  \<open>ShvMemoryJournal\<close> (\<open>libshvcore/utils/shvmemoryjournal.h\<close>, \<open>shvmemoryjournal.cpp\<close>): the entries of a journal in
  memory, kept in order of time, with the correction of the times by the 16-bit device clocks (\<open>shortTime\<close>).  \<open>std::upper_bound\<close> is modelled on what it is
  specified for, entries that are partitioned by the comparison.  \<open>now_ms\<close> is what \<open>DateTime::now\<close> answers in milliseconds; where
  several entries are appended, \<open>clock k\<close> is its answer at the \<open>k\<close>-th.
\<close>

record short_time =
  st_epochTime :: int
  st_recentShortTime :: "16 word"

definition ShortTime_default :: short_time where
  "ShortTime_default = \<lparr>st_epochTime = 0, st_recentShortTime = 0\<rparr>"

definition ShortTime_shortTimeDiff :: "16 word \<Rightarrow> short_time \<Rightarrow> 16 word" where
  "ShortTime_shortTimeDiff msec st = msec - st_recentShortTime st"

definition ShortTime_toEpochTime :: "16 word \<Rightarrow> short_time \<Rightarrow> int" where
  "ShortTime_toEpochTime msec st = st_epochTime st + uint (ShortTime_shortTimeDiff msec st)"

definition ShortTime_addShortTime :: "16 word \<Rightarrow> short_time \<Rightarrow> int \<times> short_time" where
  "ShortTime_addShortTime msec st =
     (let t = ShortTime_toEpochTime msec st in (t, \<lparr>st_epochTime = t, st_recentShortTime = msec\<rparr>))"

record 't memory_journal =
  mj_pathDictionary :: "(string, int) std_map"
  mj_logHeader :: "'t log_header"
  mj_entries :: "journal_entry list"
  mj_isShortTimeCorrection :: bool
  mj_recentShortTimes :: "(string, short_time) std_map"

definition ShvMemoryJournal_default :: "'t memory_journal" where
  "ShvMemoryJournal_default =
     \<lparr>mj_pathDictionary = [], mj_logHeader = ShvLogHeader_default, mj_entries = [], mj_isShortTimeCorrection = False,
      mj_recentShortTimes = []\<rparr>"

definition ShvMemoryJournal_setSince :: "rpc_value \<Rightarrow> 't memory_journal \<Rightarrow> 't memory_journal" where
  "ShvMemoryJournal_setSince since j = j\<lparr>mj_logHeader := (mj_logHeader j)\<lparr>lh_since := since\<rparr>\<rparr>"

definition ShvMemoryJournal_setUntil :: "rpc_value \<Rightarrow> 't memory_journal \<Rightarrow> 't memory_journal" where
  "ShvMemoryJournal_setUntil until j = j\<lparr>mj_logHeader := (mj_logHeader j)\<lparr>lh_until := until\<rparr>\<rparr>"

definition ShvMemoryJournal_setTypeInfo :: "'t \<Rightarrow> string \<Rightarrow> 't memory_journal \<Rightarrow> 't memory_journal" where
  "ShvMemoryJournal_setTypeInfo t path_prefix j =
     j\<lparr>mj_logHeader := ShvLogHeader_setTypeInfo t path_prefix (mj_logHeader j)\<rparr>"

definition ShvMemoryJournal_setDeviceId :: "string \<Rightarrow> 't memory_journal \<Rightarrow> 't memory_journal" where
  "ShvMemoryJournal_setDeviceId i j = j\<lparr>mj_logHeader := (mj_logHeader j)\<lparr>lh_deviceId := i\<rparr>\<rparr>"

definition ShvMemoryJournal_setDeviceType :: "string \<Rightarrow> 't memory_journal \<Rightarrow> 't memory_journal" where
  "ShvMemoryJournal_setDeviceType s j = j\<lparr>mj_logHeader := (mj_logHeader j)\<lparr>lh_deviceType := s\<rparr>\<rparr>"

definition ShvMemoryJournal_setShortTimeCorrection :: "bool \<Rightarrow> 't memory_journal \<Rightarrow> 't memory_journal" where
  "ShvMemoryJournal_setShortTimeCorrection b j = j\<lparr>mj_isShortTimeCorrection := b\<rparr>"

section \<open>Appending\<close>

definition MAX_SKEW :: int where "MAX_SKEW = 500"

definition correct_by_short_time :: "journal_entry \<Rightarrow> short_time \<Rightarrow> int \<times> short_time" where
  "correct_by_short_time entry st =
     (let epoch_msec = je_epochMsec entry;
          short_msec = (word_of_int (je_shortTime entry) :: 16 word);
          pin = (\<lambda>t. (t, \<lparr>st_epochTime = t, st_recentShortTime = short_msec\<rparr>)) in
      if je_shortTime entry = uint (st_recentShortTime st) then (epoch_msec, st\<lparr>st_epochTime := epoch_msec\<rparr>)
      else if st_epochTime st = 0 then pin epoch_msec
      else
        let dt_diff = ShortTime_toEpochTime short_msec st - epoch_msec in
        if dt_diff < - MAX_SKEW then pin (epoch_msec - MAX_SKEW)
        else if dt_diff > MAX_SKEW then pin (epoch_msec + MAX_SKEW)
        else ShortTime_addShortTime short_msec st)"

definition entry_time :: "int \<Rightarrow> journal_entry \<Rightarrow> 't memory_journal \<Rightarrow> int \<times> (string, short_time) std_map" where
  "entry_time now_ms entry j =
     (let sts = mj_recentShortTimes j in
      if je_epochMsec entry = 0 then (now_ms, sts)
      else if mj_isShortTimeCorrection j \<and> \<not> ShvJournalEntry_isSpontaneous entry \<and> je_shortTime entry \<noteq> NO_SHORT_TIME
      then
        let st = (case map_find sts (je_path entry) of None \<Rightarrow> ShortTime_default | Some st \<Rightarrow> st);
            (t, st') = correct_by_short_time entry st
        in (t, map_set (je_path entry) st' sts)
      else (je_epochMsec entry, sts))"

text \<open>The entry is inserted by the time it was given, \<open>entry\<close>, and carries the corrected one, \<open>e\<close>.\<close>

definition insert_entry :: "journal_entry \<Rightarrow> journal_entry \<Rightarrow> journal_entry list \<Rightarrow> journal_entry list" where
  "insert_entry entry e entries =
     (if je_epochMsec e < (if entries = [] then 0 else je_epochMsec (last entries))
      then takeWhile (\<lambda>x. \<not> je_epochMsec entry < je_epochMsec x) entries @ e #
           dropWhile (\<lambda>x. \<not> je_epochMsec entry < je_epochMsec x) entries
      else entries @ [e])"

definition ShvMemoryJournal_append :: "int \<Rightarrow> journal_entry \<Rightarrow> 't memory_journal \<Rightarrow> 't memory_journal" where
  "ShvMemoryJournal_append now_ms entry j =
     (let (t, sts) = entry_time now_ms entry j in
      j\<lparr>mj_recentShortTimes := sts,
        mj_pathDictionary :=
          (case map_find (mj_pathDictionary j) (je_path entry) of
             None \<Rightarrow> map_set (je_path entry) (s_wrap 32 (int (length (mj_pathDictionary j)) + 1)) (mj_pathDictionary j)
           | Some _ \<Rightarrow> mj_pathDictionary j),
        mj_entries := insert_entry entry (entry\<lparr>je_epochMsec := t\<rparr>) (mj_entries j)\<rparr>)"

section \<open>Loading a log\<close>

primrec append_run ::
    "(nat \<Rightarrow> int) \<Rightarrow> nat \<Rightarrow> (log_exn + (journal_entry \<times> bool)) list \<Rightarrow> 't memory_journal \<Rightarrow> log_exn + 't memory_journal" where
  "append_run clock k [] j = Inr j"
| "append_run clock k (x # xs) j =
     (case x of Inl e \<Rightarrow> Inl e | Inr (entry, _) \<Rightarrow> append_run clock (k + 1) xs (ShvMemoryJournal_append (clock k) entry j))"

definition ShvMemoryJournal_loadLog ::
    "'t type_info_lib \<Rightarrow> (nat \<Rightarrow> int) \<Rightarrow> rpc_value \<Rightarrow> bool \<Rightarrow> 't memory_journal \<Rightarrow> log_exn + 't memory_journal" where
  "ShvMemoryJournal_loadLog ti clock l append_records j =
     bind_e (ShvLogRpcValueReader_make ti l False) (\<lambda>rd.
       append_run clock 0 (reader_run rd)
         (if append_records then j else j\<lparr>mj_entries := [], mj_logHeader := lr_logHeader rd\<rparr>))"

text \<open>
  The other \<open>loadLog\<close> fills a snapshot that lacks some paths with default values: \<open>missing\<close> are the ones that the log did not
  give, put in when the snapshot part ends or the log does.
\<close>

definition default_entry :: "int \<Rightarrow> string \<times> rpc_value \<Rightarrow> journal_entry" where
  "default_entry since_ms kv =
     ShvJournalEntry_default\<lparr>je_epochMsec := since_ms, je_path := fst kv, je_value := snd kv\<rparr>"

definition append_defaults :: "(nat \<Rightarrow> int) \<Rightarrow> nat \<Rightarrow> rpc_map \<Rightarrow> 't memory_journal \<Rightarrow> 't memory_journal" where
  "append_defaults clock k missing j =
     foldl (\<lambda>j (i, kv). ShvMemoryJournal_append (clock i) (default_entry (ShvLogHeader_sinceMsec (mj_logHeader j)) kv) j) j
       (enumerate k missing)"

primrec append_run_defaults ::
    "(nat \<Rightarrow> int) \<Rightarrow> nat \<Rightarrow> rpc_map \<Rightarrow> (log_exn + (journal_entry \<times> bool)) list \<Rightarrow> 't memory_journal \<Rightarrow> log_exn + 't memory_journal" where
  "append_run_defaults clock k missing [] j = Inr (append_defaults clock k missing j)"
| "append_run_defaults clock k missing (x # xs) j =
     (case x of
        Inl e \<Rightarrow> Inl e
      | Inr (entry, is_snapshot) \<Rightarrow>
          if is_snapshot
          then append_run_defaults clock (k + 1) (map_erase (je_path entry) missing) xs (ShvMemoryJournal_append (clock k) entry j)
          else append_run_defaults clock (k + length missing + 1) [] xs
                 (ShvMemoryJournal_append (clock (k + length missing)) entry (append_defaults clock k missing j)))"

definition ShvMemoryJournal_loadLog_defaults ::
    "'t type_info_lib \<Rightarrow> (nat \<Rightarrow> int) \<Rightarrow> rpc_value \<Rightarrow> rpc_map \<Rightarrow> 't memory_journal \<Rightarrow> log_exn + 't memory_journal" where
  "ShvMemoryJournal_loadLog_defaults ti clock l default_snapshot_values j =
     bind_e (ShvLogRpcValueReader_make ti l False) (\<lambda>rd.
       append_run_defaults clock 0 default_snapshot_values (reader_run rd) (j\<lparr>mj_entries := [], mj_logHeader := lr_logHeader rd\<rparr>))"

section \<open>The other operations\<close>

definition ShvMemoryJournal_getLog ::
    "'rx regex_lib \<Rightarrow> 't type_info_lib \<Rightarrow> date_time \<Rightarrow> log_params \<Rightarrow> date_time \<Rightarrow> ignore_limit \<Rightarrow> 't memory_journal
     \<Rightarrow> log_exn + rpc_value" where
  "ShvMemoryJournal_getLog rx ti clock p now ign j = getLog rx ti clock (mj_entries j) p now ign"

definition ShvMemoryJournal_hasSnapshot :: "'t memory_journal \<Rightarrow> bool" where
  "ShvMemoryJournal_hasSnapshot j = lh_withSnapShot (mj_logHeader j)"

definition ShvMemoryJournal_isEmpty :: "'t memory_journal \<Rightarrow> bool" where
  "ShvMemoryJournal_isEmpty j \<longleftrightarrow> mj_entries j = []"

definition ShvMemoryJournal_at :: "nat \<Rightarrow> 't memory_journal \<Rightarrow> log_exn + journal_entry" where
  "ShvMemoryJournal_at ix j = (if ix < length (mj_entries j) then Inr (mj_entries j ! ix) else Inl LogOutOfRange)"

definition ShvMemoryJournal_clear :: "'t memory_journal \<Rightarrow> 't memory_journal" where
  "ShvMemoryJournal_clear j = j\<lparr>mj_entries := []\<rparr>"

definition ShvMemoryJournal_removeLastEntry :: "'t memory_journal \<Rightarrow> 't memory_journal" where
  "ShvMemoryJournal_removeLastEntry j = (if mj_entries j \<noteq> [] then j\<lparr>mj_entries := butlast (mj_entries j)\<rparr> else j)"

section \<open>The corrected time\<close>

text \<open>The correction stays near the time of the entry, and the clock of the path is set to the corrected time.\<close>

lemma correct_by_short_time_skew:
  "\<bar>fst (correct_by_short_time e st) - je_epochMsec e\<bar> \<le> MAX_SKEW"
  "st_epochTime (snd (correct_by_short_time e st)) = fst (correct_by_short_time e st)"
  by (auto simp: correct_by_short_time_def Let_def MAX_SKEW_def ShortTime_addShortTime_def)

lemma entry_time_skew:
  "je_epochMsec e \<noteq> 0 \<Longrightarrow> \<bar>fst (entry_time now_ms e j) - je_epochMsec e\<bar> \<le> MAX_SKEW"
  using correct_by_short_time_skew(1) by (auto simp: entry_time_def Let_def split_beta) (simp_all add: MAX_SKEW_def)

lemma entry_time_plain: "\<not> mj_isShortTimeCorrection j \<Longrightarrow> je_epochMsec e \<noteq> 0 \<Longrightarrow> fst (entry_time now_ms e j) = je_epochMsec e"
  by (simp add: entry_time_def Let_def)

section \<open>Order\<close>

definition after_equals :: "journal_entry \<Rightarrow> journal_entry list \<Rightarrow> journal_entry list" where
  "after_equals e es = filter (\<lambda>x. je_epochMsec x \<le> je_epochMsec e) es @ e # filter (\<lambda>x. \<not> je_epochMsec x \<le> je_epochMsec e) es"

lemma sorted_takeWhile_filter:
  "sorted (map f xs) \<Longrightarrow> takeWhile (\<lambda>x. f x \<le> (t::int)) xs = filter (\<lambda>x. f x \<le> t) xs \<and>
     dropWhile (\<lambda>x. f x \<le> t) xs = filter (\<lambda>x. \<not> f x \<le> t) xs"
proof (induction xs)
  case (Cons x xs)
  show ?case
  proof (cases "f x \<le> t")
    case False
    then have "filter (\<lambda>x. f x \<le> t) xs = []" "filter (\<lambda>x. \<not> f x \<le> t) xs = xs"
      using Cons.prems by (auto simp: filter_empty_conv filter_id_conv)
    then show ?thesis using False by simp
  qed (use Cons in simp)
qed simp

lemma insert_entry_sorted:
  assumes "sorted (map je_epochMsec es)"
  shows "insert_entry e e es = after_equals e es"
proof (cases "je_epochMsec e < (if es = [] then 0 else je_epochMsec (last es))")
  case True
  then show ?thesis
    using sorted_takeWhile_filter [OF assms, of "je_epochMsec e"] by (simp add: insert_entry_def after_equals_def not_less)
next
  case False
  have "\<forall>x \<in> set es. je_epochMsec x \<le> je_epochMsec e"
  proof
    fix x assume x: "x \<in> set es"
    then have ne: "es \<noteq> []" by auto
    have "je_epochMsec x \<le> je_epochMsec (last es)"
      using assms x ne by (induction es) (auto split: if_splits)
    then show "je_epochMsec x \<le> je_epochMsec e" using False ne by simp
  qed
  then have "filter (\<lambda>x. je_epochMsec x \<le> je_epochMsec e) es = es" "filter (\<lambda>x. \<not> je_epochMsec x \<le> je_epochMsec e) es = []"
    by (simp_all add: filter_empty_conv)
  then show ?thesis using False by (simp add: insert_entry_def after_equals_def)
qed

lemma after_equals_sorted: "sorted (map je_epochMsec es) \<Longrightarrow> sorted (map je_epochMsec (after_equals e es))"
  by (auto simp: after_equals_def sorted_append sorted_filter)


lemma append_entries:
  assumes "\<not> mj_isShortTimeCorrection j" "je_epochMsec e \<noteq> 0" "sorted (map je_epochMsec (mj_entries j))"
  shows "mj_entries (ShvMemoryJournal_append now_ms e j) = after_equals e (mj_entries j)"
    "mj_isShortTimeCorrection (ShvMemoryJournal_append now_ms e j) = mj_isShortTimeCorrection j"
  using entry_time_plain [OF assms(1,2), of now_ms] insert_entry_sorted [OF assms(3), of e]
  by (auto simp: ShvMemoryJournal_append_def split_beta Let_def)

text \<open>Loading entries that are in order of time, after those that are there, appends them.\<close>

lemma append_run_sorted:
  assumes "\<not> mj_isShortTimeCorrection j" "\<forall>e \<in> set es. je_epochMsec e \<noteq> 0" "sorted (map je_epochMsec (mj_entries j @ es))"
    and "map (map_sum id fst) run = map Inr es"
  shows "\<exists>j'. append_run clock k run j = Inr j' \<and> mj_entries j' = mj_entries j @ es \<and> mj_logHeader j' = mj_logHeader j"
  using assms
proof (induction run arbitrary: es j k)
  case Nil
  then show ?case by simp
next
  case (Cons x run)
  obtain e es' where es: "es = e # es'" "map_sum id fst x = Inr e" "map (map_sum id fst) run = map Inr es'"
    using Cons.prems(4) unfolding list.map by (auto simp only: Cons_eq_map_conv)
  then obtain b where x: "x = Inr (e, b)" by (cases x) auto
  let ?j = "ShvMemoryJournal_append (clock k) e j"
  have le: "\<forall>x \<in> set (mj_entries j). je_epochMsec x \<le> je_epochMsec e" using Cons.prems(3) es by (auto simp: sorted_append)
  have "sorted (map je_epochMsec (mj_entries j))" using Cons.prems(3) by (simp add: sorted_append)
  then have j: "mj_entries ?j = mj_entries j @ [e]" "\<not> mj_isShortTimeCorrection ?j"
    using append_entries [OF Cons.prems(1), of e] Cons.prems(1,2) es(1) le by (simp_all add: after_equals_def filter_id_conv)
  moreover have "mj_logHeader ?j = mj_logHeader j" by (simp add: ShvMemoryJournal_append_def split_beta)
  moreover have "\<exists>j'. append_run clock (k + 1) run ?j = Inr j' \<and> mj_entries j' = mj_entries ?j @ es' \<and> mj_logHeader j' = mj_logHeader ?j"
    using Cons.IH [OF j(2) _ _ es(3)] Cons.prems(2,3) es(1) j(1) by simp
  ultimately show ?case using x es(1) by simp
qed


lemma after_equals_same_time:
  "filter (\<lambda>x. je_epochMsec x = ms) (after_equals e es) = filter (\<lambda>x. je_epochMsec x = ms) (es @ [e])"
proof -
  have "filter (\<lambda>x. je_epochMsec x \<le> je_epochMsec e \<and> je_epochMsec x = ms) es =
      (if ms \<le> je_epochMsec e then filter (\<lambda>x. je_epochMsec x = ms) es else [])"
    "filter (\<lambda>x. \<not> je_epochMsec x \<le> je_epochMsec e \<and> je_epochMsec x = ms) es =
      (if ms \<le> je_epochMsec e then [] else filter (\<lambda>x. je_epochMsec x = ms) es)"
    by (auto simp: filter_empty_conv intro!: filter_cong)
  then show ?thesis by (auto simp: after_equals_def conj_commute)
qed

text \<open>A journal that loads the log of another one.\<close>

lemma getLog_loadLog:
  fixes j :: "'t memory_journal"
  assumes "sorted (map je_epochMsec (mj_entries j))" "\<forall>e \<in> set (mj_entries j). readable e \<and> row_ok e \<and> 0 < je_epochMsec e"
    and "\<forall>e \<in> set (mj_entries j). je_epochMsec e + 1000 \<le> RpcDateTime_msecsSinceEpoch now"
    and "int (length (mj_entries j)) \<le> n" "in_s 32 n" "\<not> mj_isShortTimeCorrection (j2 :: 't memory_journal)"
  shows "\<exists>log' j'. ShvMemoryJournal_getLog rx ti clock (ShvGetLogParams_default\<lparr>lp_recordCountLimit := n\<rparr>) now ign j = Inr log' \<and>
    ShvMemoryJournal_loadLog ti clock2 log' False j2 = Inr j' \<and> mj_entries j' = map row_norm (mj_entries j)"
proof -
  define p where "p = ShvGetLogParams_default\<lparr>lp_recordCountLimit := n\<rparr>"
  let ?m = "PatternMatcher_match rx (PatternMatcher_make rx p)" and ?es = "mj_entries j"
  have p: "params_ok p" "rpc_wf (lp_since p)" "\<not> ShvGetLogParams_isSinceLast p" "params_msec (lp_since p) 0 = 0"
      "params_msec (lp_until p) int64_max = int64_max" "lp_recordCountLimit p = n" "\<And>m s es. log_snapshot p m s es = []"
    using assms(5) by (simp_all add: p_def ShvGetLogParams_default_def params_ok_def sendable_def ShvGetLogParams_isSinceLast_def
        params_msec_def type_test_defs as_defs log_snapshot_def)
  have m: "?m e" for e by (rule match_no_pattern) (simp_all add: p_def ShvGetLogParams_default_def)
  have pos: "(0 :: int) < int64_max" by (simp add: int64_max_def)
  have before: "je_epochMsec e < int64_max" if "e \<in> set ?es" for e
    using assms(2) that by (auto simp: row_ok_def in_s_def int64_max_def)
  have "filter (\<lambda>e. ?m e \<and> 0 < je_epochMsec e \<and> je_epochMsec e < int64_max) ?es = ?es"
    using before assms(2) m by (intro filter_True) auto
  moreover have "\<not> \<bar>je_epochMsec (last ?es) - RpcDateTime_msecsSinceEpoch now\<bar> < 1000" if "?es \<noteq> []"
    using assms(3) last_in_set [OF that] by fastforce
  ultimately have window: "log_window ?m 0 int64_max (RpcDateTime_msecsSinceEpoch now) ?es = ?es"
    by (auto simp: log_window_def Let_def)
  obtain log' r where log': "getLog rx ti clock ?es p now ign = Inr log'" "ShvLogRpcValueReader_make ti log' False = Inr r"
      "map (map_sum id fst) (reader_run r) = map Inr (map row_norm ?es)"
    using getLog_unlimited [OF assms(1) _ _ p(1-3), of rx ti clock now ign False] assms(2,4) pos window p(4-7) by auto
  let ?j = "j2\<lparr>mj_entries := [], mj_logHeader := lr_logHeader r\<rparr>"
  have time: "map je_epochMsec (map row_norm ?es) = map je_epochMsec ?es" using assms(2) by (auto simp: row_norm_time simp del: row_norm_fields)
  have "\<forall>e \<in> set (map row_norm ?es). je_epochMsec e \<noteq> 0" using assms(2) by (auto simp: row_norm_time simp del: row_norm_fields)
  then obtain j' where "append_run clock2 0 (reader_run r) ?j = Inr j'" "mj_entries j' = map row_norm (mj_entries j)"
    using append_run_sorted [of ?j "map row_norm ?es" "reader_run r" clock2 0] assms(1,6) log'(3) time
    by (auto simp del: map_map row_norm_fields)
  then show ?thesis
    using log'(1,2) by (auto simp: ShvMemoryJournal_getLog_def ShvMemoryJournal_loadLog_def p_def [symmetric])
qed

end
