(* ===== verification/Log_Samples.thy ===== *)
theory Log_Samples
  imports Memory_Journal
begin

text \<open>A journal at which the properties of the logs are instantiated: no regular expressions, no type descriptions, three paths.\<close>

definition no_regex :: "unit regex_lib" where
  "no_regex = \<lparr>rx_compile = (\<lambda>_. None), rx_search = (\<lambda>_ _. False), rx_match = (\<lambda>_ _. False)\<rparr>"

definition no_types :: "unit type_info_lib" where
  "no_types = \<lparr>ti_toRpcValue = (\<lambda>_. rpc (VMap [])), ti_fromRpcValue = (\<lambda>_. Inr ())\<rparr>"

definition sample_entry :: "int \<Rightarrow> string \<Rightarrow> int \<Rightarrow> journal_entry" where
  "sample_entry ms path v = ShvJournalEntry_make path (rpc (VInt v)) DOMAIN_VAL_CHANGE NO_SHORT_TIME 0 ms"

definition sample_journal :: "journal_entry list" where
  "sample_journal = [sample_entry 1000 ''a/x'' 1, sample_entry 2000 ''a/y'' 2, sample_entry 3000 ''a/x'' 3, sample_entry 4000 ''b'' 4]"

definition at_time :: "int \<Rightarrow> rpc_value" where
  "at_time ms = rpc (VDateTime (RpcDateTime_fromMSecsSinceEpoch ms 0))"

definition late :: date_time where "late = RpcDateTime_fromMSecsSinceEpoch 1000000 0"

definition limited :: "int \<Rightarrow> log_params" where
  "limited n = ShvGetLogParams_default\<lparr>lp_recordCountLimit := n\<rparr>"

definition window_params :: log_params where
  "window_params = ShvGetLogParams_default\<lparr>lp_since := at_time 1500, lp_until := at_time 3500, lp_withSnapshot := True\<rparr>"

text \<open>The times in the answer to a query of the sample journal, and the end of the window that its header tells.\<close>

definition log_of :: "log_params \<Rightarrow> rpc_value" where
  "log_of p = projr (getLog no_regex no_types late sample_journal p late IgnoreNo)"

definition times_of :: "log_params \<Rightarrow> (log_exn + int) list" where
  "times_of p = (case getLog no_regex no_types late sample_journal p late IgnoreNo of
     Inl e \<Rightarrow> [Inl e]
   | Inr l \<Rightarrow> (case ShvLogRpcValueReader_make no_types l False of
       Inl e \<Rightarrow> [Inl e] | Inr r \<Rightarrow> map (map_sum id (je_epochMsec \<circ> fst)) (reader_run r)))"

definition end_of :: "log_params \<Rightarrow> rpc_value" where
  "end_of p = RpcMetaData_value_s (RpcValue_metaData (log_of p)) ''until'' invalid_value"

definition short_entry :: "int \<Rightarrow> string \<Rightarrow> int \<Rightarrow> journal_entry" where
  "short_entry ms path st = ShvJournalEntry_make path (rpc (VInt 0)) DOMAIN_VAL_CHANGE st 0 ms"

lemma sample_readable: "readable (sample_entry ms path v)"
  by (simp add: readable_def is_node_drop_def sample_entry_def ShvJournalEntry_make_def ShvJournalEntry_default_def
      RpcValue_metaTypeNameSpaceId_def RpcValue_metaTypeId_def RpcValue_metaValue_i_def RpcValue_metaData_def meta_empty_def
      RpcMetaData_value_i_def RpcValue_toInt_def impl_to_int_def s_wrap_id)

lemma sample_row_ok: "in_s 57 ms \<Longrightarrow> path \<noteq> [] \<Longrightarrow> row_ok (sample_entry ms path v)"
  by (simp add: row_ok_def sample_entry_def ShvJournalEntry_make_def ShvJournalEntry_default_def in_s_def)

lemma sample_row_norm: "in_s 57 ms \<Longrightarrow> path \<noteq> [] \<Longrightarrow> row_norm (sample_entry ms path v) = sample_entry ms path v"
  by (rule row_norm_id [OF sample_row_ok])
     (simp_all add: row_plain_def sample_entry_def ShvJournalEntry_make_def ShvJournalEntry_default_def DOMAIN_VAL_CHANGE_def)

lemma sample_entry_fields [simp]:
  "je_epochMsec (sample_entry ms path v) = ms" "je_path (sample_entry ms path v) = path"
  by (simp_all add: sample_entry_def ShvJournalEntry_make_def)

lemma sample_journal_ok:
  "\<forall>e \<in> set sample_journal. readable e \<and> row_ok e" "sorted (map je_epochMsec sample_journal)"
  by (simp_all add: sample_journal_def sample_readable sample_row_ok in_s_def)

lemma sample_journal_norm: "e \<in> set sample_journal \<Longrightarrow> row_norm e = e"
  by (auto simp: sample_journal_def sample_row_norm in_s_def)

lemma at_time_ok: "sendable (at_time ms)" "rpc_wf (at_time ms)" "RpcValue_asString (at_time ms) = []" "RpcValue_isValid (at_time ms)"
  "params_msec (at_time ms) d = s_wrap 57 ms"
  by (simp_all add: at_time_def sendable_def type_test_defs as_defs params_msec_def date_time_wf_setters)

lemma params_samples_ok:
  "in_s 32 n \<Longrightarrow> params_ok (limited n)" "rpc_wf (lp_since (limited n))" "\<not> ShvGetLogParams_isSinceLast (limited n)"
  "params_ok window_params" "rpc_wf (lp_since window_params)" "\<not> ShvGetLogParams_isSinceLast window_params"
  by (simp_all add: params_ok_def limited_def window_params_def ShvGetLogParams_default_def at_time_ok sendable_def
      ShvGetLogParams_isSinceLast_def DEFAULT_GET_LOG_RECORD_COUNT_LIMIT_def in_s_def)

end
