(* ===== verification/Spec2Isabelle.thy ===== *)
theory Spec2Isabelle
  imports Samples Broker_Samples Cpon_Frame Log_Samples
begin

text \<open>
  A verification library for SHV (Silicon Heaven), an RPC system of brokers, devices and clients: typed values, the binary
  wire format ChainPack and the text format CPON, messages, frames and transports (\<^verbatim>\<open>libshvchainpack\<close> and the frame classes of \<^verbatim>\<open>libshviotqt\<close>), paths and logs
  of values (\<^verbatim>\<open>libshvcore\<close>), the tree of nodes that serves requests (\<^verbatim>\<open>libshviotqt\<close>), and the broker with its access rules, logins,
  subscriptions and routing (\<^verbatim>\<open>libshvbroker\<close>).

  \<^bold>\<open>The program.\<close>  A value (\<^verbatim>\<open>RpcValue\<close>) is a scalar, a list or a map, with optional meta data at every
  level.  \<^verbatim>\<open>ChainPackWriter\<close> and \<^verbatim>\<open>ChainPackReader\<close> turn values into bytes and back, through the C functions
  of \<^verbatim>\<open>cchainpack.c\<close> and a small pack buffer.  An RPC message is a value with meta data that carry request
  id, method, path, caller ids and access grant; a frame is a message split into meta data and body.  Frames travel over sockets
  behind a length prefix, over serial lines between escape sequences and with a check sum.
  A request of a client passes the login phase of its connection, then \<^verbatim>\<open>BrokerApp::onRpcFrameReceived\<close>, which asks
  \<^verbatim>\<open>AclManager\<close> for the access grant of the user, writes it into the frame, pushes the connection on the caller ids and
  hands the frame to the tree of nodes; the node compares the grant with the level of the method and calls it; the response
  goes back along the caller ids.  Signals go to the connections that are subscribed to their path.
  Devices keep a journal of the changes of their values; \<^verbatim>\<open>getLog\<close> answers a request for a log from the entries of a journal, and
  \<^verbatim>\<open>ShvLogRpcValueReader\<close> reads the entries out of the answer.

  \<^bold>\<open>Theories and sources.\<close>  Of \<^verbatim>\<open>src/libshvchainpack/\<close>:

  \<^item> \<open>Prelude\<close>, \<open>Std_Map\<close>, \<open>Ieee_Double\<close>: what the code uses of C++: two's complement ranges and casts,
    \<^verbatim>\<open>std::map\<close> as a key-sorted association list, IEEE 754 doubles on 64-bit words.
  \<^item> \<open>Date_Time\<close>, \<open>Rpc_Decimal\<close>, \<open>Rpc_Value\<close>: \<^verbatim>\<open>src/rpcvalue.cpp\<close>.  \<open>rpc_value\<close> is the variant with its meta
    data; \<open>rpc_wf\<close> is the type invariant (integers in range, keys of maps strictly ascending).
  \<^item> \<open>Pack_Int\<close>, \<open>Chain_Pack_Items\<close>: \<^verbatim>\<open>c/cchainpack.c\<close>; the packing and unpacking of one item.
  \<^item> \<open>Chain_Pack_Writer\<close>: \<^verbatim>\<open>src/chainpackwriter.cpp\<close>, \<^verbatim>\<open>src/abstractstreamwriter.cpp\<close>, the pack half of
    \<^verbatim>\<open>c/ccpcp.c\<close>.  \<open>Chain_Pack_Reader\<close>: \<^verbatim>\<open>src/chainpackreader.cpp\<close>.  \<open>Chain_Pack_Roundtrip\<close>: the proofs that relate
    the two.  \<open>Chain_Pack_Prefix\<close>: what the reader does with data that were cut off.
  \<^item> \<open>Access_Grant\<close>: \<^verbatim>\<open>src/accesslevel.cpp\<close>, \<^verbatim>\<open>src/accessgrant.cpp\<close>.  \<open>Rpc_Message\<close>, \<open>Rpc_Exchange\<close>: \<^verbatim>\<open>src/rpcmessage.cpp\<close>.
  \<^item> \<open>Rpc_Frame\<close>: the frames of \<^verbatim>\<open>src/rpcmessage.cpp\<close>, \<^verbatim>\<open>src/rpcdriver.cpp\<close>, \<^verbatim>\<open>src/socketrpcdriver.cpp\<close>.
  \<^item> \<open>Cpon_Time\<close>, \<open>Cpon_Pack\<close>, \<open>Cpon_Unpack\<close>: \<^verbatim>\<open>c/ccpon.c\<close>, the text format CPON: calendar, printing and parsing of single items.
    \<open>Cpon_Writer\<close>, \<open>Cpon_Reader\<close>: \<^verbatim>\<open>src/cponwriter.cpp\<close>, \<^verbatim>\<open>src/cponreader.cpp\<close>.  \<open>Cpon_Text\<close> (scalars), \<open>Cpon_Roundtrip\<close> (sequences),
    \<open>Cpon_Codec\<close> (values): the proofs that relate the two.  \<open>Cpon_Frame\<close>: frames of the text format.
  \<^item> \<open>Data_Change\<close>, \<open>Crc32\<close>, \<open>Chp_Utils\<close>, \<open>Tunnel_Ctl\<close>, \<open>Meta_Method\<close>, \<open>Meta_Types\<close>, \<open>Rpc_Connection\<close>: the files of the
    same names.

  Of the other libraries:

  \<^item> \<open>Frame_Stream\<close>, \<open>Serial_Frame\<close>: \<^verbatim>\<open>libshviotqt/src/rpc/socket.cpp\<close> and \<^verbatim>\<open>serialportsocket.cpp\<close>, readers and writers of frames
    as state machines over pieces of input.
  \<^item> \<open>Core_Utils\<close>, \<open>Shv_Path\<close>: \<^verbatim>\<open>libshvcore/src/utils.cpp\<close>, \<^verbatim>\<open>stringview.cpp\<close> and \<^verbatim>\<open>utils/shvpath.cpp\<close>.
  \<^item> Of \<^verbatim>\<open>libshvcore/src/utils/\<close>: \<open>Journal_Entry\<close> is \<^verbatim>\<open>shvjournalentry.cpp\<close>; \<open>Log_Params\<close> are \<^verbatim>\<open>shvgetlogparams.cpp\<close>, \<^verbatim>\<open>patternmatcher.cpp\<close>
    and \<^verbatim>\<open>shvlogfilter.cpp\<close>, with regular expressions as an argument; \<open>Log_Header\<close> are \<^verbatim>\<open>shvlogheader.cpp\<close> and
    \<^verbatim>\<open>shvlogrpcvaluereader.cpp\<close>, with the conversions of type descriptions as an argument; \<open>Get_Log\<close> is \<^verbatim>\<open>getlog.cpp\<close> with the snapshots of
    \<^verbatim>\<open>abstractshvjournal.cpp\<close>, where a reader is the list of its entries, which an exception may end; \<open>Memory_Journal\<close> is
    \<^verbatim>\<open>shvmemoryjournal.cpp\<close>.  \<open>Log_Rows\<close> (an entry as a row and back), \<open>Log_Content\<close> (the loop of \<^verbatim>\<open>getLog\<close>) and \<open>Log_Answer\<close> (its
    answer as its reader sees it) are the proofs, \<open>Log_Samples\<close> a journal.
  \<^item> \<open>Shv_Node\<close>, \<open>Value_Nodes\<close>: \<^verbatim>\<open>libshviotqt/src/node/shvnode.cpp\<close> and \<^verbatim>\<open>shvnodetree.cpp\<close>.  A tree of nodes is a datatype; what
    a node of a class of the application answers is a field of it.  Configurations are read from and saved to files that hold CPON text.
  \<^item> \<open>Acl_Types\<close>: \<^verbatim>\<open>libshviotqt/src/acl/\<close>.  \<open>Acl_Manager\<close>: \<^verbatim>\<open>libshvbroker/src/aclmanager.cpp\<close>, a cache in front of a source of
    definitions; \<open>manager_ok\<close> is its invariant: the caches agree with the definitions, whatever part of them is cached, and every role that is
    configured can be read (where one cannot, \<open>flatten_partial_cached\<close> shows that the caches go wrong); \<open>implements\<close> says that an operation then
    shows the definitions and keeps the invariant, \<open>grant_spec\<close> is the specification of the access grants.
  \<^item> \<open>Broker_Login\<close>: the login phase of \<^verbatim>\<open>libshvbroker/src/rpc/serverconnection.cpp\<close> and \<^verbatim>\<open>clientconnectiononbroker.cpp\<close>, and the
    client's half in \<^verbatim>\<open>libshviotqt/src/rpc/clientconnection.cpp\<close>.  \<open>connection_run\<close> are the runs of a connection, told with the events that came
    in; \<open>entitles\<close> says of an event alone, and not of what the connection did with it, that it lets a login in.
  \<^item> \<open>Subscriptions\<close>: \<^verbatim>\<open>libshvbroker/src/rpc/commonrpcclienthandle.cpp\<close>, \<^verbatim>\<open>masterbrokerconnection.cpp\<close>, \<^verbatim>\<open>tunnelsecretlist.cpp\<close>.
  \<^item> \<open>Broker_Routing\<close>: \<^verbatim>\<open>libshvbroker/src/brokerapp.cpp\<close>, one function per kind of frame; what is sent is the list of effects it returns.  The tree
    of nodes is an argument, a function of the frame that may throw.
  \<^item> \<open>Samples\<close>, \<open>Broker_Samples\<close>: values, messages and a broker at which the properties are instantiated.

  \<^bold>\<open>Conventions.\<close>  An exception is the left injection of a sum; a member function that changes the object
  takes it as its last argument and returns the new one.  Machine integers are words in the coders
  and integers with explicit wrap-around (\<open>s_wrap\<close>, \<open>u_wrap\<close>) in the value type.  Suffixes \<open>_i\<close>, \<open>_s\<close>, \<open>_m\<close> tell
  the overloads for integer keys, string keys and bare meta data apart.  Time, random data, SHA-1, the text of parse errors, files and the
  outcome of system calls are arguments.

  \<^bold>\<open>What is shown.\<close>  Wire format: C1, C11, C12,
  C15, C19.  Text format: C2, C13, C30.  Transport: C4, C14, C20,
  C6, C7, C34.  Access and routing: C3, C5,
  C8, C10, C16, C17, C18, C29.  Nodes, paths and
  configurations: C21, C22, C28, C31, C32, C33.
  Logs: C9, C27, C23, C24, C25, C26.
  Where the code does not do what it means to: C35, C36,
  C39, C40; unnumbered theorems and the findings of the manifest show more.

  \<^bold>\<open>Fuel.\<close>  The reader recurses through the nesting of its input; \<open>rd_fuel\<close> is one more than the number of
  bytes left, and C11 shows that this, and anything larger, is enough for every input.  The reader of the text format is treated the same way (C13).  The reader of a log is asked for entries once for each row and once more, which
  \<open>read_entries_enough\<close> shows to be enough.
  Loops that need not end (a stream
  with a bad length, a template based on itself, the replacement of an empty string) are partial functions into \<open>option\<close>.

  \<^bold>\<open>Not modelled.\<close>  The refill of the read buffer and the conversions of date-times from ISO strings; of \<^verbatim>\<open>libshvcore\<close> type
  information, the files of journals, alarms and the command line;
  of \<^verbatim>\<open>libshviotqt\<close> and \<^verbatim>\<open>libshvbroker\<close> the timers and sockets of Qt, the nodes of the broker itself, the SQL source of access rules, and the requests to
  Azure and LDAP, whose outcome is an input; the widgets of \<^verbatim>\<open>libshvvisu\<close>.
\<close>
section \<open>ChainPack\<close>

text \<open>
  \<^bold>\<open>C1\<close> (round trip).  What \<open>ChainPackWriter\<close> writes for a value within the limits of the format,
  \<open>ChainPackReader\<close> reads back, followed by any bytes and leaving exactly those: the same value, with an
  invalid value as \<open>Null\<close> and without empty meta data (\<open>cp_canon\<close>).
\<close>

theorem chainpack_roundtrip:
  assumes "cp_ok v" and "item_finished it"
  shows "\<exists>it'. ChainPackReader_read it (write_value v @ rest) = Inr (cp_canon v, it', rest) \<and> item_finished it'"
  using assms by (rule read_write) blast

theorem chainpack_roundtrip_witness:
  "cp_ok sample_value \<and>
   (\<exists>it'. ChainPackReader_read ItemInvalid (write_value sample_value @ [1, 2]) = Inr (cp_canon sample_value, it', [1, 2]) \<and>
     item_finished it')"
  using chainpack_roundtrip [OF sample_value_ok, of ItemInvalid "[1, 2]"] sample_value_ok by simp

text \<open>
  \<^bold>\<open>C11\<close> (termination).  Reading a value from any bytes ends: the recursion of the reader is never
  deeper than the input is long, so the fuel \<open>rd_fuel\<close>, or any larger one, gives a result.
\<close>

theorem chainpack_read_terminates:
  assumes "item_finished it" and "length inp < n"
  shows "\<exists>res. rd_value n it inp = Some res"
  using rdt.rd_total [of it inp n] assms by auto

theorem chainpack_read_terminates_witness:
  "\<exists>res. rd_value 4 ItemInvalid [CP_List, CP_List, 0x41] = Some res"
  by (rule chainpack_read_terminates) simp_all

text \<open>
  \<^bold>\<open>C12\<close> (type).  Whatever bytes arrive, a value that is read without an error is well-formed (integers in
  range, keys of maps strictly ascending, at every level), at least one byte is consumed, and the
  reader is ready for the next value.
\<close>

theorem chainpack_read_wellformed:
  assumes "item_finished it" and "ChainPackReader_read it inp = Inr (v, it', rest)"
  shows "rpc_wf v \<and> length rest < length inp \<and> item_finished it'"
  using ChainPackReader_read_sound [OF assms] by simp

theorem chainpack_read_wellformed_witness:
  "ChainPackReader_read ItemInvalid [0x45] = Inr (rpc (VInt 5), ItemInt 5, []) \<and> rpc_wf (rpc (VInt 5))"
proof -
  have "ChainPackReader_read ItemInvalid [0x45] = Inr (rpc (VInt 5), ItemInt 5, [])" by code_simp
  from this chainpack_read_wellformed [OF _ this] show ?thesis by simp
qed

text \<open>
  \<^bold>\<open>C19\<close> (equivalence).  Reading a value out of packed data along a path (\<open>readPath\<close>), which skips what
  it does not need, finds what a lookup of the path in the unpacked value finds, and nothing when
  the path leads nowhere.
\<close>

theorem readPath_is_lookup:
  assumes "cp_ok v"
  shows "RpcValue_fromChainPackWithPath (RpcValue_toChainPack v @ rest) keys =
    Inr (map_option cp_canon (lookup_path v keys))"
  using readPath_lookup [OF assms, of ItemInvalid keys rest]
  by (simp add: RpcValue_fromChainPackWithPath_def RpcValue_toChainPack_def)

theorem readPath_is_lookup_witness:
  "RpcValue_fromChainPackWithPath (RpcValue_toChainPack sample_value @ []) [''b'', ''2''] = Inr (Some (rpc (VUInt 300)))"
proof -
  have "lookup_path sample_value [''b'', ''2''] = Some (rpc (VUInt 300))" by code_simp
  then show ?thesis
    using readPath_is_lookup [OF sample_value_ok, of "[]" "[''b'', ''2'']"] by (simp add: drop_empty_meta_def)
qed

text \<open>
  The variable-length form of an unsigned 64-bit number is read back for every
  number, and no encoding is a prefix of another.
\<close>

theorem uint_data_codec:
  "cchainpack_unpack_uint_data2 (cchainpack_pack_uint_data u @ rest) = Some (u, rest) \<and>
   (cchainpack_pack_uint_data u @ r = cchainpack_pack_uint_data w @ s \<longleftrightarrow> u = w \<and> r = s)"
  using uint_codec.dec_enc [of u rest] uint_codec.prefix_free [where x = u and y = w and r = r and s = s] by auto

text \<open>
  The signed form is read back for every 64-bit number but the least
  one, whose magnitude has no room in the format.
\<close>

theorem int_data_codec:
  assumes "\<bar>i\<bar> < 2 ^ 63"
  shows "unpack_int (cchainpack_pack_int_data i @ rest) = Some (i, rest)"
  using int_codec.dec_enc [OF assms] .

theorem int_data_codec_witness:
  "unpack_int (cchainpack_pack_int_data (- 9223372036854775807) @ [9]) = Some (- 9223372036854775807, [9])"
  by (rule int_data_codec) simp

text \<open>
  The buffered stream writer delivers all bytes in order: whatever strings are
  copied into its 32-byte buffer, after the final flush the stream has received their
  concatenation, and the buffer never overflows on the way.
\<close>

theorem stream_writer_delivers:
  "pk_out (AbstractStreamWriter_flush (fold ccpcp_pack_copy_bytes strs AbstractStreamWriter_init)) = concat strs \<and>
   length (pk_buff (fold ccpcp_pack_copy_bytes strs AbstractStreamWriter_init)) \<le> packBuff_size"
proof -
  have "pack_ctx_ok ctx \<Longrightarrow> pack_sent (fold ccpcp_pack_copy_bytes strs ctx) = pack_sent ctx @ concat strs \<and>
      pack_ctx_ok (fold ccpcp_pack_copy_bytes strs ctx)" for ctx
    by (induction strs arbitrary: ctx) (simp_all add: packer.sent_put_all packer.ok_put_all)
  from this [of AbstractStreamWriter_init] show ?thesis
    by (simp add: flush_sends_all AbstractStreamWriter_init_def pack_ctx_ok_def pack_sent_def)
qed

section \<open>Messages on the wire\<close>

text \<open>
  A message that is split into a frame, sent as bytes, parsed as a frame and put
  together again is the message that was sent (up to the normal form of C1).
\<close>

theorem message_frame_survives:
  assumes "RpcValue_isIMap m" "cp_ok m" "\<not> RpcMetaData_isEmpty (RpcMessage_metaData m)"
    and "RpcMessage_toRpcFrame cp PT_ChainPack m = Inr f" "RpcFrame_toFrameData cp f = Inr bs"
  shows "\<exists>f'. RpcFrame_fromFrameData cp bs = Inr f' \<and> RpcFrame_toRpcMessage_err cp f' = Inr (cp_canon m, False)"
  using assms by (rule message_frame_roundtrip)

lemma sample_frame:
  "\<exists>f bs. RpcMessage_toRpcFrame no_cpon PT_ChainPack sample_message = Inr f \<and> RpcFrame_toFrameData no_cpon f = Inr bs"
  by (auto simp: RpcMessage_toRpcFrame_def RpcFrame_toFrameData_def RpcFrame_toFrameHead_def split: prod.splits)

theorem message_frame_survives_witness:
  "\<exists>f bs f'. RpcMessage_toRpcFrame no_cpon PT_ChainPack sample_message = Inr f \<and> RpcFrame_toFrameData no_cpon f = Inr bs \<and>
     RpcFrame_fromFrameData no_cpon bs = Inr f' \<and> RpcFrame_toRpcMessage_err no_cpon f' = Inr (cp_canon sample_message, False)"
  using sample_frame message_frame_survives [OF sample_message_ok(2,1,3)] by blast

text \<open>
  \<^bold>\<open>C6\<close> (functional, composition).  End to end over a socket: a driver sends a message in ChainPack; the receiving driver is
  handed the bytes that went out, takes exactly one frame out of them, and delivers to \<open>onRpcMessageReceived\<close> the
  normal form of this message (\<open>cp_canon\<close>, as in C1: an invalid value inside comes as null, empty meta data is dropped, and so on).
  Conditions: the message is an \<open>IMap\<close> with meta data that are not empty and within the limits of the format (\<open>cp_ok\<close>); the frame with
  its length is shorter than the write buffer (\<open>m_maxWriteBufferLength\<close>, 1024 bytes: a longer one is dropped by the sender); the sender is
  open, has nothing queued, and its socket takes all bytes at once; and the receiver is between two frames, with an empty buffer.
\<close>

theorem message_over_socket:
  assumes msg: "RpcValue_isIMap m" "cp_ok m" "\<not> RpcMetaData_isEmpty (RpcMessage_metaData m)"
    and frame: "RpcMessage_toRpcFrame cp PT_ChainPack m = Inr f" "RpcFrame_toFrameHead cp f = Inr h"
    and sender: "sd_open d" "sd_writeBuffer d = []" "\<And>bs. wr bs = int (length bs)"
    and fits: "length (frame_bytes h (fr_data f)) < m_maxWriteBufferLength"
    and receiver: "sd_readFrameSize r = 0" "sd_readBuffer r = []"
  shows "\<exists>d' out r' fd. SocketRpcDriver_writeFrame cp wr f d = Inr (d', out) \<and> sd_writeBuffer d' = [] \<and>
    SocketRpcDriver_onBytesRead out r = (r', [fd]) \<and>
    SocketRpcDriver_onFrameDataRead cp PT_ChainPack fd = (PT_ChainPack, Some (cp_canon m), False)"
proof -
  have h: "h \<noteq> []" using frame(2) by (auto simp: RpcFrame_toFrameHead_def split: protocol_type.splits)
  have len: "length h + length (fr_data f) < 2 ^ 64"
    using fits by (simp add: frame_bytes_def m_maxWriteBufferLength_def)
  have "RpcFrame_toFrameData cp f = Inr (h @ fr_data f)" by (simp add: RpcFrame_toFrameData_def frame(2))
  then obtain f' where f': "RpcFrame_fromFrameData cp (h @ fr_data f) = Inr f'"
    "RpcFrame_toRpcMessage_err cp f' = Inr (cp_canon m, False)"
    using message_frame_roundtrip [OF msg frame(1)] by blast
  have w: "SocketRpcDriver_writeFrame cp wr f d = Inr (d, frame_bytes h (fr_data f))"
    using frame(2) sender fits h
    by (cases d; cases h) (auto simp: SocketRpcDriver_writeFrame_def SocketRpcDriver_flush_def frame_bytes_def Let_def)
  have "SocketRpcDriver_onFrameDataRead cp PT_ChainPack (h @ fr_data f) = (PT_ChainPack, Some (cp_canon m), False)"
    by (simp add: SocketRpcDriver_onFrameDataRead_def f' RpcDriver_processRpcFrame_def RpcDriver_onRpcFrameReceived_def)
  then show ?thesis using w sender(2) socket_delivers [OF receiver h len] by blast
qed

definition fresh_driver :: socket_driver where
  "fresh_driver = \<lparr>sd_open = True, sd_writeBuffer = [], sd_readBuffer = [], sd_readFrameSize = 0\<rparr>"

theorem message_over_socket_witness:
  "\<exists>f d' out r' fd. RpcMessage_toRpcFrame no_cpon PT_ChainPack sample_message = Inr f \<and>
    SocketRpcDriver_writeFrame no_cpon (\<lambda>bs. int (length bs)) f fresh_driver = Inr (d', out) \<and>
    SocketRpcDriver_onBytesRead out fresh_driver = (r', [fd]) \<and>
    SocketRpcDriver_onFrameDataRead no_cpon PT_ChainPack fd = (PT_ChainPack, Some (cp_canon sample_message), False)"
proof -
  define f where "f = \<lparr>fr_protocol = PT_ChainPack, fr_meta = RpcMessage_metaData sample_message,
    fr_data = RpcValue_toChainPack (RpcValue None (rv_var sample_message))\<rparr>"
  define h where "h = protocol_byte PT_ChainPack # write_meta (fr_meta f)"
  have f: "RpcMessage_toRpcFrame no_cpon PT_ChainPack sample_message = Inr f"
    by (simp add: RpcMessage_toRpcFrame_def RpcValue_takeMeta_def sample_message_def f_def RpcMessage_metaData_def
        RpcValue_metaData_def)
  have h: "RpcFrame_toFrameHead no_cpon f = Inr h" by (simp add: RpcFrame_toFrameHead_def f_def h_def)
  have "length (frame_bytes h (fr_data f)) < m_maxWriteBufferLength"
    unfolding f_def h_def by code_simp
  then show ?thesis
    using message_over_socket [OF sample_message_ok(2,1,3) f h, of fresh_driver "\<lambda>bs. int (length bs)" fresh_driver] f
    by (auto simp: fresh_driver_def)
qed

text \<open>
  \<^bold>\<open>C34\<close> (bounds, functional).  The write queue of the socket driver stays below its limit, and a
  frame is either queued whole behind what waits or dropped whole: what was sent and what waits
  are together the old queue with the frame's bytes, or the old queue.
\<close>

theorem write_queue_bounded:
  assumes "sd_write_ok d" "RpcFrame_toFrameHead cp f = Inr h" "SocketRpcDriver_writeFrame cp wr f d = Inr (d', out)"
  shows "sd_write_ok d' \<and> (out @ sd_writeBuffer d' = sd_writeBuffer d @ frame_bytes h (fr_data f) \<or>
    out @ sd_writeBuffer d' = sd_writeBuffer d)"
  using writeFrame_bound [OF assms(1,3)] writeFrame_queues [OF assms(2,3)] by (auto split: if_splits)

theorem write_queue_bounded_witness:
  "\<exists>d' out. SocketRpcDriver_writeFrame no_cpon (\<lambda>_. 3) \<lparr>fr_protocol = PT_ChainPack, fr_meta = meta_empty, fr_data = [1, 2, 3, 4]\<rparr> fresh_driver = Inr (d', out) \<and>
     sd_write_ok d' \<and> out = [5, 1, 1] \<and> sd_writeBuffer d' = [2, 3, 4]"
proof -
  define f where "f = \<lparr>fr_protocol = PT_ChainPack, fr_meta = meta_empty, fr_data = [1, 2, 3, 4 :: byte]\<rparr>"
  have w: "SocketRpcDriver_writeFrame no_cpon (\<lambda>_. 3) f fresh_driver = Inr (fresh_driver\<lparr>sd_writeBuffer := [2, 3, 4]\<rparr>, [5, 1, 1])"
    unfolding f_def by code_simp
  have "sd_write_ok fresh_driver" by code_simp
  moreover have "RpcFrame_toFrameHead no_cpon f = Inr [1]"
    unfolding f_def by code_simp
  ultimately show ?thesis using write_queue_bounded [OF _ _ w] w unfolding f_def by fastforce
qed

text \<open>
  \<^bold>\<open>C37\<close> (functional).  The caller ids of a message are a stack: after a push, peeking gives the id
  pushed, and popping gives it back and leaves the ids that were there before, whether they are
  kept as nothing, as a number or as a list.
\<close>

theorem caller_id_stack:
  assumes "meta_ids_ok md" and "in_s 32 i"
  shows "\<exists>md1 md2. RpcMessage_pushCallerId_m i md = Inr md1 \<and> RpcMessage_peekCallerId_m md1 = Inr i \<and>
    RpcMessage_popCallerId_m md1 = Inr (i, md2) \<and> meta_ids_ok md2 \<and> meta_ids md2 = meta_ids md"
proof -
  obtain md1 where push: "RpcMessage_pushCallerId_m i md = Inr md1" using caller.push [OF assms] by blast
  show ?thesis
    using push caller.peek_push [OF assms push] caller.pop_push [OF assms push] by blast
qed

theorem caller_id_stack_witness:
  "\<exists>md1 md2. RpcMessage_pushCallerId_m 7 (MetaData [(11, rpc (VInt 3))] []) = Inr md1 \<and> RpcMessage_peekCallerId_m md1 = Inr 7 \<and>
    RpcMessage_popCallerId_m md1 = Inr (7, md2) \<and> meta_ids md2 = [3]"
proof -
  have "meta_ids_ok (MetaData [(11, rpc (VInt 3))] [])" "meta_ids (MetaData [(11, rpc (VInt 3))] []) = [3]" by code_simp+
  then show ?thesis using caller_id_stack [of "MetaData [(11, rpc (VInt 3))] []" 7] by (auto simp: in_s_def)
qed

text \<open>
  The response made for a request is a response, carries the request's id, and
  the caller ids that route it back, and is a well-formed message.
\<close>

theorem response_answers_request:
  assumes "meta_wf md" and "RpcValue_isValid (RpcMessage_requestId_m md)"
  shows "RpcMessage_requestId (RpcResponse_forRequest md) = RpcMessage_requestId_m md \<and>
    RpcMessage_callerIds (RpcResponse_forRequest md) =
      (if RpcValue_isValid (RpcMessage_callerIds_m md) then RpcMessage_callerIds_m md else invalid_value) \<and>
    RpcMessage_isResponse (RpcResponse_forRequest md) \<and> message_wf (RpcResponse_forRequest md)"
  using forRequest_fields [OF assms(2)] forRequest_wf [OF assms(1)] by simp

theorem response_answers_request_witness:
  "RpcMessage_requestId (RpcResponse_forRequest (RpcMessage_metaData sample_message)) = rpc (VInt 42)"
proof -
  have "meta_wf (RpcMessage_metaData sample_message)"
    using sample_message_ok(4) by (simp add: message_wf_def rpc_wf_iff RpcMessage_metaData_def)
  moreover have "RpcMessage_requestId_m (RpcMessage_metaData sample_message) = rpc (VInt 42)" by code_simp
  ultimately show ?thesis using response_answers_request [of "RpcMessage_metaData sample_message"] by simp
qed

text \<open>
  \<open>fromShv2Access\<close> splits the text at commas: the level granted is the highest
  one named in it (or the numeric one, if higher), and the access string is everything that names
  no level, in order.
\<close>

theorem fromShv2Access_meaning:
  "ag_level (AccessGrant_fromShv2Access s l) =
     foldl max (case accessLevelFromInt l of Some b \<Rightarrow> b | None \<Rightarrow> AccessLevel_None)
       (map (the \<circ> accessLevelFromAccessString) (filter is_level_name (comma_split s))) \<and>
   ag_access (AccessGrant_fromShv2Access s l) = comma_join (filter access_piece (comma_split s))"
  using fromShv2Access_spec [of s l] by blast

text \<open>
  \<^bold>\<open>C29\<close> (round trip, safety).  A grant that is put into a message is the grant that is read out of it, level and access string,
  whatever other meta data the message has: nobody gains or loses access on the way.  Conditions: its level has a name (\<open>named_level\<close>), and
  its access string is empty or consists, between its commas, of pieces none of which is empty or is itself the name of a level
  (\<open>access_wf\<close>; such are the access strings that \<open>fromShv2Access\<close> makes).  Without the second condition access is gained: see
  \<open>accessGrant_escalates\<close>.
\<close>

theorem accessGrant_roundtrip:
  assumes "named_level (ag_level g)" "access_wf (ag_access g)"
  shows "RpcMessage_accessGrant_m (RpcMessage_setAccessGrant_m g md) = Inr g"
  using assms by (rule accessGrant_roundtrip_aux)

theorem accessGrant_roundtrip_witness:
  "RpcMessage_accessGrant_m (RpcMessage_setAccessGrant_m \<lparr>ag_level = 16, ag_access = ''foo,bar''\<rparr> meta_empty) =
    Inr \<lparr>ag_level = 16, ag_access = ''foo,bar''\<rparr>"
  using accessGrant_roundtrip [OF sample_grant_ok, of meta_empty] by (simp add: sample_grant_def)

text \<open>
  A grant whose access string is the name of a level is read back with this level: a grant to browse becomes one for everything.
\<close>

theorem accessGrant_escalates:
  "RpcMessage_accessGrant_m (RpcMessage_setAccessGrant_m \<lparr>ag_level = AccessLevel_Browse, ag_access = ''su''\<rparr> md) =
    Inr \<lparr>ag_level = AccessLevel_Admin, ag_access = []\<rparr>"
proof -
  have "AccessGrant_fromShv2Access (AccessGrant_toShv2Access \<lparr>ag_level = AccessLevel_Browse, ag_access = ''su''\<rparr>) AccessLevel_Browse =
      \<lparr>ag_level = AccessLevel_Admin, ag_access = []\<rparr>" by code_simp
  then show ?thesis by (simp add: accessGrant_read_back in_s_def)
qed

text \<open>
  A grant whose level has no name of its own loses its access string on that way:
  \<open>toShv2Access\<close> writes the string only behind a level name.
\<close>

theorem accessGrant_unnamed_loses_access:
  assumes "in_s 32 (ag_level g)" "\<not> named_level (ag_level g)"
  shows "\<exists>g'. RpcMessage_accessGrant_m (RpcMessage_setAccessGrant_m g md) = Inr g' \<and> ag_access g' = []"
  using assms by (rule accessGrant_unnamed)

theorem accessGrant_unnamed_loses_access_witness:
  "\<exists>g'. RpcMessage_accessGrant_m (RpcMessage_setAccessGrant_m \<lparr>ag_level = 17, ag_access = ''foo''\<rparr> meta_empty) = Inr g' \<and>
     ag_access g' = []"
  by (rule accessGrant_unnamed_loses_access)
     (simp_all add: in_s_def named_level_def accessLevelToAccessString_def)

text \<open>
  Every setter of a message keeps it a well-formed \<open>IMap\<close> message (or unset),
  and what it stores is read back, while the other fields stay.
\<close>

theorem message_setters:
  assumes "message_wf m" "rpc_wf v" "in_s 32 k"
  shows "message_wf (RpcMessage_setMetaValue_i k v m) \<and> message_wf (RpcMessage_setValue k v m) \<and>
    message_wf (RpcMessage_setMetaValue_s s v m) \<and>
    RpcMessage_value (RpcMessage_setValue k v m) k' =
      (if k' = k then (if RpcValue_isValid v then v else invalid_value) else RpcMessage_value m k') \<and>
    RpcMessage_value (RpcMessage_setMetaValue_i k v m) k' = RpcMessage_value m k'"
  using message_setters_wf [OF assms(1)] assms message_value_setValue [OF assms(1)] message_value_setMeta [OF assms(1)]
  by simp

theorem message_setters_witness:
  "RpcMessage_value (RpcMessage_setValue 1 (rpc (VString ''p'')) sample_message) 1 = rpc (VString ''p'') \<and>
   message_wf (RpcMessage_setValue 1 (rpc (VString ''p'')) sample_message)"
  using message_setters [OF sample_message_ok(4), of "rpc (VString ''p'')" 1 _ 1] by (simp add: in_s_def)

text \<open>
  An error set on a response is the error the caller reads, with its code, message
  and data, and the response counts as failed exactly when the code is not \<open>NoError\<close>.
\<close>

theorem response_error_read_back:
  fixes msg :: string and data :: rpc_value
  assumes "message_wf m" "in_s 32 code"
  defines "e \<equiv> RpcResponse_error (RpcResponse_setError (RpcError_make msg code data) m)"
  shows "RpcError_code e = Inr code \<and> RpcError_message e = msg \<and>
    RpcError_data e = (if RpcValue_isValid data then data else invalid_value) \<and>
    RpcResponse_isError (RpcResponse_setError (RpcError_make msg code data) m) = Inr (code \<noteq> 0)"
  using response_error_set [OF assms(1,2)] RpcError_make_fields [OF assms(2)] by (simp add: e_def)

theorem response_error_read_back_witness:
  "RpcError_code (RpcResponse_error (RpcResponse_setError (RpcError_make ''no such method'' 2 invalid_value) RpcMessage_empty)) = Inr 2"
  using response_error_read_back [of RpcMessage_empty 2] by (simp add: in_s_def)

text \<open>
  An error survives its JSON form: code, message and data are the same.
\<close>

theorem rpc_error_json_roundtrip:
  assumes "RpcError_toJson e = Inr js"
  shows "\<exists>e'. RpcError_fromJson js = Inr e' \<and> RpcError_code e' = RpcError_code e \<and>
    RpcError_message e' = RpcError_message e \<and> RpcError_data e' = RpcError_data e"
  using assms by (rule RpcError_json_fields)

theorem rpc_error_json_roundtrip_witness:
  "\<exists>js e'. RpcError_toJson (RpcError_make ''bad'' 8 (rpc (VInt 1))) = Inr js \<and> RpcError_fromJson js = Inr e' \<and>
     RpcError_code e' = Inr 8 \<and> RpcError_message e' = ''bad''"
proof -
  have c: "RpcError_code (RpcError_make ''bad'' 8 (rpc (VInt 1))) = Inr 8" "RpcError_message (RpcError_make ''bad'' 8 (rpc (VInt 1))) = ''bad''"
    using RpcError_make_fields [of 8] by (simp_all add: in_s_def)
  then obtain js where "RpcError_toJson (RpcError_make ''bad'' 8 (rpc (VInt 1))) = Inr js" by (simp add: RpcError_toJson_def)
  then show ?thesis using rpc_error_json_roundtrip [of _ js] c by fastforce
qed

section \<open>Data that travels in messages\<close>

text \<open>
  A data change packed into one value and unpacked again has the same value,
  time and flags, whatever the value is: with meta data of its own, a list of one element with
  meta data, or neither (\<open>dc_norm\<close> says what unset times and an invalid value come back as).
\<close>

theorem data_change_roundtrip:
  assumes "dc_ok dc"
  shows "\<exists>v. DataChange_toRpcValue dc = Inr v \<and> DataChange_fromRpcValue v = Inr (dc_norm dc)"
  using data_change_roundtrip_aux [OF assms] toRpcValue_parts [of dc] by simp

definition sample_change :: data_change where
  "sample_change = \<lparr>dc_value = rpc (VList [RpcValue (Some (MetaData [(1, rpc (VInt 9))] [])) (VInt 3)]),
     dc_dateTime = \<lparr>dt_tz = 4, dt_msec = 1700000000000\<rparr>, dc_shortTime = 12, dc_valueFlags = 5\<rparr>"

theorem data_change_roundtrip_witness:
  "\<exists>v. DataChange_toRpcValue sample_change = Inr v \<and> DataChange_fromRpcValue v = Inr sample_change"
proof -
  have "dc_ok sample_change" unfolding dc_ok_def by (rule conjI) (code_simp, rule exI [of _ False], code_simp)
  moreover have "dc_norm sample_change = sample_change" by code_simp
  ultimately show ?thesis using data_change_roundtrip [of sample_change] by simp
qed

text \<open>
  Each flag of a data change is stored in a bit of its own: setting one is read
  back and leaves the others.
\<close>

theorem data_change_flags:
  assumes "i < 32" "j < 32"
  shows "DataChange_testBit (DataChange_setBit n i b) j = (if i = j then b else DataChange_testBit n j)"
  using assms by (rule testBit_setBit)

theorem data_change_flags_witness:
  "DataChange_testBit (DataChange_setBit 5 (flag_pos Spontaneous) True) (flag_pos Spontaneous)"
  using data_change_flags [of "flag_pos Spontaneous" "flag_pos Spontaneous" 5 True] by simp

text \<open>
  The table-driven check sum is the bit-serial shift register, for every
  polynomial, and may be fed piecewise.
\<close>

theorem crc_table_is_shift_register:
  "Crc32_result (Crc32_add_all P (Crc32_add_all P Crc32_init xs) ys) =
     crc_bitwise P 0xFFFFFFFF (xs @ ys) XOR 0xFFFFFFFF"
  by (simp add: Crc32_result_def add_all_append [symmetric] add_all_is_bitwise Crc32_init_def)

text \<open>
  A message with one byte corrupted never has the check sum of the original.
\<close>

theorem crc_detects_byte_error:
  assumes "a \<noteq> b"
  shows "Crc32_result (Crc32_add_all CRC_POSIX_POLY_REV Crc32_init (xs @ a # ys)) \<noteq>
    Crc32_result (Crc32_add_all CRC_POSIX_POLY_REV Crc32_init (xs @ b # ys))"
proof -
  have "bit CRC_POSIX_POLY_REV 31" by code_simp
  then have "m_remainder (Crc32_add_all CRC_POSIX_POLY_REV Crc32_init (xs @ a # ys)) \<noteq>
      m_remainder (Crc32_add_all CRC_POSIX_POLY_REV Crc32_init (xs @ b # ys))"
    using byte_error_changes [OF _ assms] by (simp add: add_all_is_bitwise)
  then show ?thesis using xor_cancel [of "0xFFFFFFFF"] by (simp add: Crc32_result_def xor.commute)
qed

theorem crc_detects_byte_error_witness:
  "Crc32_result (Crc32_add_all CRC_POSIX_POLY_REV Crc32_init [1, 2, 3]) \<noteq>
    Crc32_result (Crc32_add_all CRC_POSIX_POLY_REV Crc32_init [1, 6, 3])"
  using crc_detects_byte_error [of 2 6 "[1]" "[3]"] by simp

text \<open>
  Hexadecimal text is read back as the bytes it was printed from.
\<close>

theorem hex_roundtrip:
  assumes "length bs < 2 ^ 64"
  shows "Utils_fromHex (Utils_toHex bs 0 size_max) = bs"
  using assms by (simp add: toHex_all fromHex_concat)

theorem hex_roundtrip_witness:
  "Utils_fromHex (Utils_toHex [0, 0x7F, 0xAB] 0 size_max) = [0, 0x7F, 0xAB]"
  by (rule hex_roundtrip) simp

text \<open>
  With a start position other than the first and the default length, the end of the
  range wraps around and \<open>toHex\<close> prints nothing at all.
\<close>

theorem toHex_from_offset_is_empty:
  assumes "0 < s"
  shows "Utils_toHex bs s size_max = []"
proof -
  have e: "s + size_max = s - 1" by (simp add: size_max_def)
  have "unat (s - 1) < unat s" using assms by (simp add: unat_minus_one word_gt_0 unat_gt_0)
  then show ?thesis unfolding Utils_toHex_def Let_def e by simp
qed

theorem toHex_from_offset_is_empty_witness:
  "Utils_toHex [1, 2, 3] 1 size_max = []"
  by (rule toHex_from_offset_is_empty) simp

text \<open>
  Merging maps: under a key of the upper map the element is the merge of both
  elements, under any other key it is that of the base.
\<close>

theorem mergeMaps_lookup:
  assumes "RpcValue_isMap b" "rv_var v = VMap m" "map_wf m"
  shows "RpcValue_at_s (Utils_mergeMaps b v) key invalid_value =
    (case map_find m key of
       Some w \<Rightarrow> (let r = Utils_mergeMaps (RpcValue_at_s b key invalid_value) w in if RpcValue_isValid r then r else invalid_value)
     | None \<Rightarrow> RpcValue_at_s b key invalid_value)"
  using assms by (rule mergeMaps_at)

theorem mergeMaps_lookup_witness:
  "RpcValue_at_s (Utils_mergeMaps (rpc (VMap [(''x'', rpc (VInt 1)), (''y'', rpc (VInt 2))])) (rpc (VMap [(''y'', rpc (VInt 3))])))
     ''y'' invalid_value = rpc (VInt 3) \<and>
   RpcValue_at_s (Utils_mergeMaps (rpc (VMap [(''x'', rpc (VInt 1)), (''y'', rpc (VInt 2))])) (rpc (VMap [(''y'', rpc (VInt 3))])))
     ''x'' invalid_value = rpc (VInt 1)"
proof -
  note m = mergeMaps_lookup [of "rpc (VMap [(''x'', rpc (VInt 1)), (''y'', rpc (VInt 2))])" "rpc (VMap [(''y'', rpc (VInt 3))])" "[(''y'', rpc (VInt 3))]"]
  show ?thesis
    using m [of "''x''"] m [of "''y''"]
    by (simp add: type_test_defs RpcValue_at_s_def Utils_mergeMaps_def)
qed

section \<open>Values\<close>

text \<open>
  \<^bold>\<open>C38\<close> (equivalence).  Decimals compare as the rational numbers they denote whenever their normalised exponents are at
  most 8 apart and the mantissa of the greater one, scaled to the exponent of the other, fits 64 bits (\<open>exactly_comparable\<close>); normalising a decimal
  does not change its value.  Condition: both have a mantissa of 64 bits, and an exponent of 32 bits that has room for the
  at most 18 zeros of a mantissa (\<open>exponent_room\<close>); above, the exponent overflows, see \<open>decimal_exponent_overflows\<close>.
\<close>

theorem decimal_compare_exact:
  assumes "exactly_comparable x y" "exponent_room x" "exponent_room y"
  shows "RpcDecimal_compare x y = compare_rat (dec_value x) (dec_value y) \<and>
    dec_value (RpcDecimal_normalize x) = dec_value x"
  using compare_exact [OF assms] normalize_value [OF assms(2)] by simp

theorem decimal_compare_exact_witness:
  "RpcDecimal_compare \<lparr>dec_mantissa = 1250, dec_exponent = -2\<rparr> \<lparr>dec_mantissa = 125, dec_exponent = -1\<rparr> =
    compare_rat (dec_value \<lparr>dec_mantissa = 1250, dec_exponent = -2\<rparr>) (dec_value \<lparr>dec_mantissa = 125, dec_exponent = -1\<rparr>)"
proof -
  have "exactly_comparable \<lparr>dec_mantissa = 1250, dec_exponent = -2\<rparr> \<lparr>dec_mantissa = 125, dec_exponent = -1\<rparr>"
    "exponent_room \<lparr>dec_mantissa = 1250, dec_exponent = -2\<rparr>" "exponent_room \<lparr>dec_mantissa = 125, dec_exponent = -1\<rparr>" by code_simp+
  then show ?thesis using decimal_compare_exact by blast
qed

text \<open>
  The greatest exponent overflows where a zero of the mantissa is taken off (undefined in C++, a wrap-around on the usual machines): the
  result has the least exponent.
\<close>

theorem decimal_exponent_overflows:
  "RpcDecimal_normalize \<lparr>dec_mantissa = 10, dec_exponent = 2147483647\<rparr> = \<lparr>dec_mantissa = 1, dec_exponent = -2147483648\<rparr>"
  by code_simp

text \<open>
  A date and time built from milliseconds and an offset fits its packed 57 and 7
  bits, and one that fits is rebuilt from what it reports.
\<close>

theorem date_time_packed:
  assumes "date_time_wf d"
  shows "RpcDateTime_fromMSecsSinceEpoch (RpcDateTime_msecsSinceEpoch d) (RpcDateTime_utcOffsetMin d) = d \<and>
    date_time_wf (RpcDateTime_fromMSecsSinceEpoch ms off)"
  using fromMSecsSinceEpoch_readback [OF assms] date_time_wf_setters(4) by blast

theorem date_time_packed_witness:
  "RpcDateTime_fromMSecsSinceEpoch (RpcDateTime_msecsSinceEpoch \<lparr>dt_tz = -8, dt_msec = 1517529600001\<rparr>)
     (RpcDateTime_utcOffsetMin \<lparr>dt_tz = -8, dt_msec = 1517529600001\<rparr>) = \<lparr>dt_tz = -8, dt_msec = 1517529600001\<rparr>"
  using date_time_packed [of "\<lparr>dt_tz = -8, dt_msec = 1517529600001\<rparr>"] by (simp add: date_time_wf_def in_s_def)

text \<open>
  Equality of values is symmetric, for nested containers, mixed integer types,
  decimals and doubles.
\<close>

theorem rpc_value_eq_symmetric:
  "rv_eq a b \<longleftrightarrow> rv_eq b a"
  using rv_eq_sym_aux(1) by blast

text \<open>
  Integers below \<open>2 ^ 53\<close> become doubles without loss, and keep their order.
\<close>

theorem int_to_double_exact:
  assumes "\<bar>i\<bar> < 2 ^ 53" "\<bar>j\<bar> < 2 ^ 53"
  shows "dbl_trunc (RpcValue_toDouble (rpc (VInt i))) = i \<and>
    (dbl_lt (RpcValue_toDouble (rpc (VInt i))) (RpcValue_toDouble (rpc (VInt j))) \<longleftrightarrow> i < j)"
  using dbl_trunc_of_int [OF assms(1)] dbl_lt_of_int [OF assms] by (simp add: RpcValue_toDouble_def)

theorem int_to_double_exact_witness:
  "dbl_trunc (RpcValue_toDouble (rpc (VInt (- 9007199254740991)))) = - 9007199254740991"
  using int_to_double_exact [of "- 9007199254740991" 0] by simp

section \<open>Control data\<close>

text \<open>
  Host, port, secret and caller ids of a tunnel request arrive unchanged in the
  find response made for it and in the create request made from that response, and each step
  carries its own state.
\<close>

theorem tunnel_handshake:
  assumes "RpcValue_isValid (TunnelCtl_callerIds rq) \<or> TunnelCtl_callerIds rq = invalid_value"
    and "FindTunnelRespCtl_fromFindTunnelRequest rq = Inr resp"
    and "CreateTunnelReqCtl_fromFindTunnelResponse resp = Inr cr"
  shows "same_tunnel resp rq \<and> same_tunnel cr rq \<and> TunnelCtl_state resp = Inr 2 \<and> TunnelCtl_state cr = Inr 3"
  using assms by (rule handshake_fields)

theorem tunnel_handshake_witness:
  "\<exists>resp cr. FindTunnelRespCtl_fromFindTunnelRequest (TunnelCtl_setPort 80 (TunnelCtl_setHost ''h'' FindTunnelReqCtl)) = Inr resp \<and>
     CreateTunnelReqCtl_fromFindTunnelResponse resp = Inr cr \<and> TunnelCtl_host cr = ''h'' \<and> TunnelCtl_port cr = Inr 80"
proof -
  define rq where "rq = TunnelCtl_setPort 80 (TunnelCtl_setHost ''h'' FindTunnelReqCtl)"
  have rq: "TunnelCtl_callerIds rq = invalid_value" "TunnelCtl_host rq = ''h''" "TunnelCtl_port rq = Inr 80"
    unfolding rq_def by code_simp+
  obtain resp where resp: "FindTunnelRespCtl_fromFindTunnelRequest rq = Inr resp"
    by (simp add: FindTunnelRespCtl_fromFindTunnelRequest_def rq)
  have "TunnelCtl_port resp = Inr 80"
    using resp tunnel_fields_set(2) [of FindTunnelRespCtl 80 invalid_value]
    by (auto simp: FindTunnelRespCtl_fromFindTunnelRequest_def rq FindTunnelRespCtl_def in_s_def)
  then obtain cr where cr: "CreateTunnelReqCtl_fromFindTunnelResponse resp = Inr cr"
    by (simp add: CreateTunnelReqCtl_fromFindTunnelResponse_def)
  show ?thesis using tunnel_handshake [OF _ resp cr] resp cr rq by (auto simp: same_tunnel_def rq_def)
qed

text \<open>
  A method description sent as an \<open>IMap\<close> is read back, with description and
  label also among the extra values.
\<close>

theorem meta_method_roundtrip:
  assumes "mm_ok m"
  shows "MetaMethod_fromRpcValue level0 (MetaMethod_toRpcValue m) = Inr (m\<lparr>mm_extra := extra_out m\<rparr>)"
  using assms by (rule meta_method_roundtrip_aux)

theorem meta_method_roundtrip_witness:
  "MetaMethod_fromRpcValue 0 (MetaMethod_toRpcValue sample_method) =
     Inr (sample_method\<lparr>mm_extra := [(''description'', rpc (VString ''sets it'')), (''label'', rpc (VString ''Set''))]\<rparr>)"
proof -
  have "extra_out sample_method = [(''description'', rpc (VString ''sets it'')), (''label'', rpc (VString ''Set''))]" by code_simp
  then show ?thesis using meta_method_roundtrip [OF sample_method_ok, of 0] by simp
qed

text \<open>
  Sent as a \<open>Map\<close>, a description loses its flags, and a level without a name comes
  back as whatever the default constructor left in place.
\<close>

theorem meta_method_map_form:
  "MetaMethod_fromRpcValue level0 (rpc (VMap (MetaMethod_toMap m))) =
     Inr (m\<lparr>mm_flags := 0, mm_accessLevel := (if named_level (mm_accessLevel m) then mm_accessLevel m else level0),
            mm_extra := tags_out m\<rparr>)"
  by (rule meta_method_map_aux)

text \<open>
  A meta type registered in a named name space is found under its id, and the
  other types of the name space stay.
\<close>

theorem registered_type_found:
  assumes "registerType ns i (Some t) rg = Inr rg'" "named_ns ns (initMetaTypes rg)"
  shows "fst (registeredType ns j rg') = (if j = i then t else fst (registeredType ns j rg))"
  using assms by (rule registeredType_registerType)

theorem registered_type_found_witness:
  "\<exists>rg'. registerType 0 5 (Some (MetaType_make ''DataChange'')) registry_start = Inr rg' \<and>
     fst (registeredType 0 5 rg') = MetaType_make ''DataChange''"
proof -
  obtain rg' where rg': "registerType 0 5 (Some (MetaType_make ''DataChange'')) registry_start = Inr rg'"
    by (simp add: registerType_def registry_start_def initMetaTypes_def Let_def)
  moreover have "named_ns 0 (initMetaTypes registry_start)"
    by (simp add: named_ns_def registry_start_def initMetaTypes_def MetaNameSpace_isValid_def MetaNameSpace_make_def)
  ultimately show ?thesis using registered_type_found [OF rg', of 5] by auto
qed

text \<open>
  A method call sends one request that carries the id returned to the caller, the
  method, the path, the parameters and the user id, and ids are handed out in ascending order.
\<close>

theorem call_shv_method_sends:
  assumes "IRpcConnection_callShvMethod path meth params user_id c = (i, c')"
    and "in_s 32 i" "rpc_wf params" "rpc_wf user_id"
  shows "\<exists>rq. cn_sent c' = cn_sent c @ [rq] \<and> cn_requestId c < i \<and> cn_requestId c' = i \<and>
    RpcMessage_requestId rq = rpc (VInt i) \<and> RpcMessage_method rq = rpc (VString meth) \<and>
    RpcMessage_shvPath rq = (if path = [] then invalid_value else rpc (VString path)) \<and>
    RpcRequest_params rq = (if RpcValue_isValid params then params else invalid_value) \<and>
    RpcMessage_userId rq = (if RpcValue_isValid user_id then user_id else invalid_value)"
  using callShvMethod_sends [OF assms(1)] shv_request_fields [OF assms(2-4), where path = path and meth = meth and extra = "[]"]
  by auto

theorem call_shv_method_sends_witness:
  "\<exists>c' rq. IRpcConnection_callShvMethod ''a/b'' ''get'' invalid_value invalid_value \<lparr>cn_requestId = 6, cn_apiVersion = V3, cn_sent = []\<rparr> = (7, c') \<and>
     cn_sent c' = [rq] \<and> RpcMessage_requestId rq = rpc (VInt 7)"
proof -
  obtain c' where c': "IRpcConnection_callShvMethod ''a/b'' ''get'' invalid_value invalid_value \<lparr>cn_requestId = 6, cn_apiVersion = V3, cn_sent = []\<rparr> = (7, c')"
    by (simp add: IRpcConnection_callShvMethod_def IRpcConnection_nextRequestId_def IRpcConnection_callShvMethod_id_def)
  show ?thesis using call_shv_method_sends [OF c'] c' by (auto simp: in_s_def)
qed

text \<open>
  \<open>callMethod\<close> on a request without an id returns a fresh id to the caller, but sends
  the request as it was given, without it.
\<close>

theorem call_method_sends_without_id:
  assumes "RpcMessage_requestId rq = invalid_value" "IRpcConnection_callMethod rq c = Inr (i, c')"
  shows "i = cn_requestId c + 1 \<and> cn_sent c' = cn_sent c @ [rq]"
  using callMethod_drops_id [OF assms] by simp

theorem call_method_sends_without_id_witness:
  "\<exists>c'. IRpcConnection_callMethod RpcMessage_empty \<lparr>cn_requestId = 0, cn_apiVersion = V2, cn_sent = []\<rparr> = Inr (1, c') \<and>
     cn_sent c' = [RpcMessage_empty]"
proof -
  have e: "RpcMessage_requestId RpcMessage_empty = invalid_value" by code_simp
  obtain c' where c': "IRpcConnection_callMethod RpcMessage_empty \<lparr>cn_requestId = 0, cn_apiVersion = V2, cn_sent = []\<rparr> = Inr (1, c')"
    by (simp add: IRpcConnection_callMethod_def e RpcValue_toInt_def impl_to_int_def s_wrap_def IRpcConnection_nextRequestId_def)
  show ?thesis using call_method_sends_without_id [OF e c'] c' by simp
qed

text \<open>
  The socket driver keeps the size of the first frame: a second frame that follows
  is handed over with its length prefix in front and cut to the size of the first.
\<close>

theorem second_frame_cut_wrong:
  assumes "sd_readFrameSize d = 0" "sd_readBuffer d = []" "h \<noteq> []" "length h + length data < 2 ^ 64"
    and "length h + length data \<le> length (frame_bytes h2 data2)"
    and "length (frame_bytes h2 data2) < 2 * (length h + length data)"
  shows "snd (SocketRpcDriver_onBytesRead (frame_bytes h data @ frame_bytes h2 data2) d) =
    [h @ data, take (length h + length data) (frame_bytes h2 data2)]"
  using assms by (rule socket_second_frame)

theorem second_frame_cut_wrong_witness:
  "snd (SocketRpcDriver_onBytesRead (frame_bytes [1, 2] [3] @ frame_bytes [1, 2] [4]) fresh_driver) = [[1, 2, 3], [3, 1, 2]]"
proof -
  have b: "frame_bytes [1, 2] [4] = [3, 1, 2, 4]" by code_simp
  have "snd (SocketRpcDriver_onBytesRead (frame_bytes [1, 2] [3] @ frame_bytes [1, 2] [4]) fresh_driver) =
      [[1, 2] @ [3], take (length [1 :: byte, 2] + length [3 :: byte]) (frame_bytes [1, 2] [4])]"
    by (rule second_frame_cut_wrong) (simp_all add: fresh_driver_def b)
  then show ?thesis by (simp add: b)
qed

section \<open>Frames on sockets and serial lines\<close>

text \<open>
  \<^bold>\<open>C15\<close> (safety).  Input that ends inside a value is never taken for a value: every proper prefix of
  what is written for a value is a parse error.
\<close>

theorem chainpack_cut_detected:
  assumes "cp_ok v" "item_finished it" "write_value v = p @ q" "q \<noteq> []"
  shows "ChainPackReader_read it p = Inl ParseException"
  using assms by (rule read_cut_value)

theorem chainpack_cut_detected_witness:
  "write_value (rpc (VString ''abc'')) = [0x86, 3, 97, 98] @ [99] \<and> ChainPackReader_read ItemInvalid [0x86, 3, 97, 98] = Inl ParseException"
proof -
  have ok: "cp_ok (rpc (VString ''abc''))"
    by (simp add: cp_ok_def rpc_wf.simps)
  have w: "write_value (rpc (VString ''abc'')) = [0x86, 3, 97, 98] @ [99]" by code_simp
  show ?thesis using chainpack_cut_detected [OF ok _ w] w by (simp add: item_finished_def)
qed

text \<open>
  \<^bold>\<open>C4\<close> (liveness, composition).  Frames over a TCP socket: frames are queued by \<open>addFrame\<close> and flushed
  to a device, in as many writes as the device needs.  However the bytes are cut into pieces on their
  way, \<open>addData\<close> returns for every piece, and in the end the reader has all frames in their order, the
  id of each response reported once, and an empty buffer.
\<close>

theorem frames_over_stream:
  assumes "\<forall>f \<in> set fs. frame_ok f"
    and "FrameWriter_flushToDevice dev [] (fold (FrameWriter_addFrame cp StreamFrameWriter_addFrameData) fs []) d = (sent, [], d')"
    and "concat ds = sent" "length sent < 2 ^ 64" "m_head r = None" "m_readBuffer r = []"
  shows "\<exists>r'. feed (StreamFrameReader_addData cp) ds r = Some (Inr (concat (map reported fs), r')) \<and>
    m_frames r' = m_frames r @ map delivered fs \<and> m_head r' = None \<and> m_readBuffer r' = []"
proof -
  have sent: "sent = concat (map stream_bytes fs)"
    using flushed_frames [OF assms(1,2)] by (simp add: stream_bytes_def [abs_def])
  then have "stream_expects fs (concat (map reported fs)) (concat ds) r"
    using assms by (cases fs) (auto simp: stream_expects_def stream_pending_def stream_bytes_def StreamFrameWriter_addFrameData_def chp_head_def)
  from stream_link.link_delivers [OF this, of cp] obtain r' where
    "feed (StreamFrameReader_addData cp) ds r = Some (Inr (concat (map reported fs), r'))"
    "m_frames r' = m_frames r @ map delivered fs" "stream_expects [] [] [] r'" by blast
  then show ?thesis by (auto simp: stream_expects_def stream_pending_def split: option.splits)
qed

definition fresh_stream :: stream_reader where
  "fresh_stream = \<lparr>m_frames = [], m_head = None, m_readBuffer = []\<rparr>"

theorem frames_over_stream_witness:
  "\<exists>sent d'. FrameWriter_flushToDevice (\<lambda>d bs. (1, d)) []
       (fold (FrameWriter_addFrame no_cpon StreamFrameWriter_addFrameData) [sample_response, sample_response] []) () = (sent, [], d') \<and>
     (\<exists>r'. feed (StreamFrameReader_addData no_cpon) (map (\<lambda>b. [b]) sent) fresh_stream = Some (Inr ([42, 42], r')) \<and>
       m_frames r' = [sample_response, sample_response])"
proof -
  define fs where "fs = [sample_response, sample_response]"
  define q where "q = fold (FrameWriter_addFrame no_cpon StreamFrameWriter_addFrameData) fs []"
  have fs: "\<forall>f \<in> set fs. frame_ok f" using sample_response_ok by (simp add: fs_def)
  have q_eq: "q = map stream_bytes fs" using addFrame_queue [OF fs] by (simp add: q_def stream_bytes_def [abs_def])
  then have "[] \<notin> set q" by (auto simp: stream_bytes_def StreamFrameWriter_addFrameData_def chp_head_def)
  then obtain d' where d': "FrameWriter_flushToDevice (\<lambda>d bs. (1, d)) [] q () = (concat q, [], d')"
    using device_takes_all [of "\<lambda>d bs. (1, d)" q "()"] by auto
  have "length (stream_bytes sample_response) < 100" by code_simp
  then have len: "length (concat q) < 2 ^ 64" by (simp add: q_eq fs_def)
  have pieces: "concat (map (\<lambda>b. [b]) (concat q)) = concat q" by (simp add: concat_map_singleton)
  have "reported sample_response = [42]" "delivered sample_response = sample_response" by code_simp+
  then show ?thesis
    using frames_over_stream [OF fs d' [unfolded q_def] pieces [unfolded q_def] len [unfolded q_def], of fresh_stream] d'
    by (auto simp: fresh_stream_def q_def fs_def)
qed

text \<open>
  \<^bold>\<open>C35\<close> (error, termination).  The frame length is added to the length of its prefix without a check: a
  peer that sends the length \<open>2 ^ 64 - 9\<close> and any valid head makes the sum 0, and \<open>addData\<close> never
  returns.
\<close>

theorem stream_reader_hangs:
  assumes "frame_ok f" "m_head r = None" "m_readBuffer r = []"
  shows "StreamFrameReader_addData cp (cchainpack_pack_uint_data (- 9) @ chp_head f @ bs) r = None"
  unfolding StreamFrameReader_addData_def by (rule stream_loop_hangs [OF assms(1)]) (use assms in simp_all)

theorem stream_reader_hangs_witness:
  "StreamFrameReader_addData no_cpon (cchainpack_pack_uint_data (- 9) @ chp_head sample_response) fresh_stream = None"
  using stream_reader_hangs [OF sample_response_ok, of fresh_stream no_cpon "[]"] by (simp add: fresh_stream_def)

text \<open>
  \<^bold>\<open>C14\<close> (liveness, composition).  Frames over a serial line, with or without check sums: whatever state
  earlier traffic left the reader in and however the bytes are cut into pieces, all frames are
  delivered in their order, and the id of each response is reported once.
\<close>

theorem frames_over_serial:
  assumes "\<forall>f \<in> set fs. frame_ok f" "sl_withCrcCheck r = c"
    and "FrameWriter_flushToDevice dev [] (fold (FrameWriter_addFrame cp (SerialFrameWriter_addFrameData c)) fs []) dv = (sent, [], dv')"
    and "d \<noteq> []" "concat (d # ds) = sent"
  shows "\<exists>r'. feed (\<lambda>d r. Some (SerialFrameReader_addData cp d r)) (d # ds) r = Some (Inr (concat (map reported fs), r')) \<and>
    m_frames r' = m_frames r @ map delivered fs"
proof (rule serial_delivers [OF assms(1,2,4)])
  show "d @ concat ds = concat (map (serial_bytes c) fs)"
    using flushed_frames [OF assms(1,3)] assms(5) by (simp add: serial_bytes_def [abs_def])
qed

theorem frames_over_serial_witness:
  "\<exists>sent r'. concat (fold (FrameWriter_addFrame no_cpon (SerialFrameWriter_addFrameData True)) [sample_response] []) = sent \<and>
     feed (\<lambda>d r. Some (SerialFrameReader_addData no_cpon d r)) [take 5 sent, drop 5 sent] (SerialFrameReader_make True) = Some (Inr ([42], r')) \<and>
     m_frames r' = [sample_response]"
proof -
  have fs: "\<forall>f \<in> set [sample_response]. frame_ok f" using sample_response_ok by simp
  have make: "sl_withCrcCheck (SerialFrameReader_make True) = True" "m_frames (SerialFrameReader_make True) = []"
    by (simp_all add: SerialFrameReader_make_def)
  define q where "q = fold (FrameWriter_addFrame no_cpon (SerialFrameWriter_addFrameData True)) [sample_response] []"
  define sent where "sent = concat q"
  have one: "q = [SerialFrameWriter_addFrameData True (chp_head sample_response) (fr_data sample_response)]"
    using addFrame_queue [OF fs, of no_cpon "SerialFrameWriter_addFrameData True" "[]"] by (simp add: q_def)
  then have "[] \<notin> set q" and "take 5 sent \<noteq> []" by (simp_all add: sent_def SerialFrameWriter_addFrameData_def Let_def)
  then obtain d' where q: "FrameWriter_flushToDevice (\<lambda>d bs. (int (length bs), d)) [] q () = (sent, [], d')"
    using device_takes_all [of "\<lambda>d bs. (int (length bs), d)" q "()"] by (auto simp: sent_def)
  from frames_over_serial [OF fs make(1) q [unfolded q_def] \<open>take 5 sent \<noteq> []\<close>, of "[drop 5 sent]"] make(2)
  have "\<exists>r'. feed (\<lambda>d r. Some (SerialFrameReader_addData no_cpon d r)) [take 5 sent, drop 5 sent] (SerialFrameReader_make True) =
     Some (Inr (reported sample_response, r')) \<and> m_frames r' = [delivered sample_response]" by (simp del: feed.simps)
  moreover have "reported sample_response = [42]" "delivered sample_response = sample_response" by code_simp+
  ultimately show ?thesis using sent_def q_def by auto
qed

text \<open>
  \<^bold>\<open>C20\<close> (safety).  A frame in which one byte between \<open>STX\<close> and \<open>ETX\<close> was changed on the line, into anything
  but a control byte, is never delivered: the check sum does not match.
\<close>

theorem corrupted_serial_frame:
  assumes "sl_withCrcCheck r" and "escape (frame_body f) = xs @ y # zs"
    and "y' \<noteq> y" "y' \<noteq> STX" "y' \<noteq> ETX" "y' \<noteq> ATX" "y' \<noteq> ESC"
  shows "case SerialFrameReader_addData cp (STX # (xs @ y' # zs) @ ETX # crc_part True f) r of
      Inl _ \<Rightarrow> True
    | Inr (ids, r') \<Rightarrow> m_frames r' = m_frames r"
  using corrupted_frame_dropped [OF assms] by (auto split: sum.splits)

theorem corrupted_serial_frame_witness:
  "case SerialFrameReader_addData no_cpon (STX # 2 # tl (escape (frame_body sample_response)) @ ETX # crc_part True sample_response)
        (SerialFrameReader_make True) of
     Inl _ \<Rightarrow> True
   | Inr (ids, r') \<Rightarrow> m_frames r' = []"
proof -
  have body: "escape (frame_body sample_response) = [] @ 1 # tl (escape (frame_body sample_response))"
    by (simp add: frame_body_def chp_head_def protocol_byte_def write_escaped_def)
  have make: "sl_withCrcCheck (SerialFrameReader_make True)" "m_frames (SerialFrameReader_make True) = []"
    by (simp_all add: SerialFrameReader_make_def)
  show ?thesis using corrupted_serial_frame [OF make(1) body, of 2 no_cpon] unfolding make(2) by simp
qed

section \<open>Access rules, logins and routing in the broker\<close>

text \<open>
  \<^bold>\<open>C3\<close> (safety, composition).  No method is called without the access it asks for: if the broker lets
  a request of a client through to its node tree, and a tree, whatever its nodes are, calls a method for what
  it was handed, then the access rules that are configured for that user, path and method grant at least the level of
  that method, whatever grant, user id and caller ids the client put into the request.  Conditions: what the
  manager of the access rules has cached agrees with what is configured, and no role that is configured fails to be
  read (\<open>manager_ok\<close>; a manager with empty caches is such, and its own operations keep it); and the name of
  the user is not one under which the manager caches the roles of Azure and LDAP groups (\<open>plain_name\<close>).
\<close>

theorem method_call_authorized:
  assumes "manager_ok (br_acl br)" "BrokerApp_clientConnectionById br connection_id = Some c"
    and "plain_name (ul_user (sv_userLogin c))"
    and "ToNodeTree f \<in> set (fst (BrokerApp_processRequest env root_node connection_id frame br))"
    and "MethodCalled p sp mm m \<in> set (fst (ShvNode_handleRpcFrame cp toCpon errmsg [] m_root f))"
  shows "\<exists>g. grant_spec (defs (br_acl br)) (ul_user (sv_userLogin c)) (RpcValue_toString (RpcMessage_shvPath_m (fr_meta frame)))
      (RpcValue_asString (RpcMessage_method_m (fr_meta frame))) False (AccessGrant_make None []) = Inr g \<and>
    mm_accessLevel mm \<le> ag_level g"
  using client_granted [OF assms(1-4)] handleRpcFrame_access [OF assms(5)] by auto

theorem method_call_authorized_witness:
  "\<exists>g. grant_spec (defs (br_acl sample_broker)) ''joe'' ''test'' ''set'' False (AccessGrant_make None []) = Inr g \<and>
     AccessLevel_Write \<le> ag_level g"
proof -
  obtain p sp m where call: "MethodCalled p sp sample_set m \<in>
      set (fst (ShvNode_handleRpcFrame no_cpon_ops no_cpon_text [] [] sample_tree routed_request))" using sample_routed_call by blast
  have "ToNodeTree routed_request \<in> set (fst (BrokerApp_processRequest sample_env (Some sample_root) 5 sample_request sample_broker))"
    by (simp add: sample_routed)
  from method_call_authorized [OF sample_broker_ok(1-3) this call] show ?thesis
    by (simp add: sample_request_def RpcMessage_shvPath_m_def RpcMessage_method_m_def RpcMetaData_value_i_def map_find_def
        RpcValue_toString_def RpcValue_asString_def sample_client_def sample_set_def mm5_def MetaMethod_make_def type_test_defs)
qed



text \<open>
  \<^bold>\<open>C5\<close> (refinement).  The grants of the access rules: \<open>accessGrantForShvPath\<close> returns what the
  definitions say (\<open>grant_spec\<close>: the first rule that matches path and method, among the rules of the user's roles in
  the order of flattening, and the errors of reading the definitions of the user and of the rules), and leaves the caches in
  order and the definitions as they were.  Conditions: the caches hold only what the definitions say, whatever part of it, and no
  role that is configured fails to be read (\<open>manager_ok\<close>; where one fails, \<open>flatten_partial_cached\<close> shows that
  the list of roles found so far stays in the cache and later calls answer from it); and the name of the user is none of the keys under which
  the roles of Azure and LDAP groups are cached (\<open>plain_name\<close>).
\<close>

theorem acl_grant_refines:
  assumes "plain_name user_name" "manager_ok st"
  shows "\<exists>st'. AclManager_accessGrantForShvPath user_name shv_path meth from_master grant st =
      (grant_spec (defs st) user_name shv_path meth from_master grant, st') \<and> manager_ok st' \<and> defs st' = defs st"
  using implementsD [OF accessGrant_implements [OF assms(1)] assms(2)] .

theorem acl_grant_refines_witness:
  "\<exists>st'. AclManager_accessGrantForShvPath ''joe'' ''test/a'' ''get'' False (AccessGrant_make None []) sample_acl =
     (Inr \<lparr>ag_level = AccessLevel_Write, ag_access = []\<rparr>, st') \<and> manager_ok st'"
proof -
  have "fst (AclManager_accessGrantForShvPath ''joe'' ''test/a'' ''get'' False (AccessGrant_make None []) sample_acl) =
      Inr \<lparr>ag_level = AccessLevel_Write, ag_access = []\<rparr>" by code_simp
  then show ?thesis
    using acl_grant_refines [OF _ sample_acl_ok(2), of "''joe''" "''test/a''" "''get''" False "AccessGrant_make None []"]
    by (auto simp: plain_name_def)
qed

text \<open>
  \<^bold>\<open>C16\<close> (functional, termination).  The roles of a user: the loop over the queue of roles ends even if roles
  contain each other, every role that can be reached is in the result once, and the roles the user has directly
  come first.
\<close>

theorem roles_flattened:
  assumes "roles_fine sc"
  shows "\<exists>flat. flatten_loop sc [] (foldl (enqueue []) [] roots) = (None, flat) \<and> distinct flat \<and>
    set flat = (subrole sc)\<^sup>* `` set roots \<and> prefix (foldl (enqueue []) [] roots) flat"
  using flatten_spec [OF assms] by blast

theorem roles_flattened_witness:
  "set (snd (flatten_loop sample_source [] [''op''])) = (subrole sample_source)\<^sup>* `` {''op''} \<and>
   snd (flatten_loop sample_source [] [''op'']) = [''op'', ''guest'']"
proof -
  have "snd (flatten_loop sample_source [] [''op'']) = [''op'', ''guest'']" by code_simp
  moreover have q: "foldl (enqueue []) [] [''op''] = [''op'']" by (simp add: enqueue_def)
  obtain flat where "flatten_loop sample_source [] [''op''] = (None, flat)" "set flat = (subrole sample_source)\<^sup>* `` set [''op'']"
    using roles_flattened [OF sample_acl_ok(1), of "[''op'']", unfolded q] by blast
  ultimately show ?thesis by simp
qed



text \<open>
  The SHA-1 login of client and broker together: the parameters a client
  computes from the nonce and its password are accepted by \<open>checkPassword\<close> exactly if the digests agree, for a
  plain password as for a stored digest.
\<close>

theorem sha1_login:
  assumes "manager_ok st" "aclUser (am_source st) (cl_user cl) = Inr u" "AclUser_isValid u" "apw_password (au_password u) \<noteq> []"
    and "cl_loginType cl = LT_Sha1" "server_hello = rpc (VMap [(''nonce'', rpc (VString nonce))])"
    and "ClientConnection_createLoginParams sha1Hex cl server_hello = Inr params"
    and "RpcRequest_params (ulc_loginRequest ctx) = params" "ulc_serverNounce ctx = Some nonce"
  shows "\<exists>res st'. AclManager_checkPassword sha1Hex fresh ctx st = (Inr res, st') \<and>
    (ulr_passwordOk res \<longleftrightarrow>
       sha1Hex (nonce @ client_digest sha1Hex (cl_password cl)) = sha1Hex (nonce @ stored_digest sha1Hex (au_password u)))"
  by (rule sha1_login_decides [OF assms])

definition sample_login :: client_login where
  "sample_login = \<lparr>cl_loginType = LT_Sha1, cl_user = ''joe'', cl_password = ''pw'', cl_options = [], cl_userAgent = ''a'', cl_token = None\<rparr>"

theorem sha1_login_witness:
  "\<exists>params res st'. ClientConnection_createLoginParams rev sample_login (rpc (VMap [(''nonce'', rpc (VString ''n''))])) = Inr params \<and>
     AclManager_checkPassword rev \<lparr>ul_user = [], ul_password = [], ul_loginType = LT_Invalid\<rparr>
       \<lparr>ulc_serverNounce = Some ''n'', ulc_loginRequest = RpcRequest_setParams params RpcMessage_empty, ulc_connectionId = 5\<rparr> sample_acl =
       (Inr res, st') \<and> ulr_passwordOk res"
proof -
  let ?hello = "rpc (VMap [(''nonce'', rpc (VString ''n''))])"
  define params where "params = login_params sample_login ''joe'' (rev (''n'' @ rev ''pw''))"
  have p: "ClientConnection_createLoginParams rev sample_login ?hello = Inr params" unfolding params_def by code_simp
  have valid: "RpcValue_isValid params" unfolding params_def by code_simp
  have rq: "RpcRequest_params (RpcRequest_setParams params RpcMessage_empty) = params"
    using valid by (simp add: RpcRequest_params_def RpcRequest_setParams_def message_value_setValue)
  have u: "aclUser (am_source sample_acl) (cl_user sample_login) =
      Inr \<lparr>au_password = \<lparr>apw_password = ''pw'', apw_format = PF_Plain\<rparr>, au_roles = [''op'']\<rparr>" by code_simp
  from sha1_login [OF sample_acl_ok(2) u _ _ _ refl p,
      of "\<lparr>ulc_serverNounce = Some ''n'', ulc_loginRequest = RpcRequest_setParams params RpcMessage_empty, ulc_connectionId = 5\<rparr>"
        "\<lparr>ul_user = [], ul_password = [], ul_loginType = LT_Invalid\<rparr>"]
  show ?thesis using p rq
    by (auto simp: sample_login_def AclUser_isValid_def AclPassword_isValid_def client_digest_def stored_digest_def is_sha1_hex_def)
qed




text \<open>
  \<^bold>\<open>C18\<close> (functional).  A signal of a client goes, under the client's mount point, to every connection that is
  logged in and has a subscription that matches, and to nobody else, with the path as that connection sees it.
\<close>

theorem signals_to_subscribers:
  assumes "BrokerApp_clientConnectionById br connection_id = Some c"
  shows "SendFrame i f \<in> set (fst (BrokerApp_processSignal connection_id frame br)) \<longleftrightarrow>
    (\<exists>h \<in> set (BrokerApp_allClientConnections br).
       subscribed h (cc_mountPoint c @ CHR ''/'' # RpcValue_asString (RpcMessage_shvPath_m (fr_meta frame)))
         (RpcValue_asString (RpcMessage_method_m (fr_meta frame))) (RpcMessage_source_m (fr_meta frame)) \<and>
       i = handle_connectionId h \<and>
       f = frame\<lparr>fr_meta := RpcMessage_setShvPath_m (handle_toSubscribedPath h
             (cc_mountPoint c @ CHR ''/'' # RpcValue_asString (RpcMessage_shvPath_m (fr_meta frame)))) (fr_meta frame)\<rparr>)"
  by (rule signal_to_subscribers [OF assms])

theorem signals_to_subscribers_witness:
  "\<exists>f. SendFrame 5 f \<in> set (fst (BrokerApp_processSignal 5 sample_signal sample_broker))"
proof -
  have "subscribed (Client sample_client) ''shv/dev/x'' ''chng'' []"
    unfolding subscribed_def by code_simp
  moreover have "Client sample_client \<in> set (BrokerApp_allClientConnections sample_broker)"
    by (simp add: BrokerApp_allClientConnections_def sample_broker_def)
  moreover have "RpcValue_asString (RpcMessage_shvPath_m (fr_meta sample_signal)) = ''x''"
    "RpcValue_asString (RpcMessage_method_m (fr_meta sample_signal)) = ''chng''" "RpcMessage_source_m (fr_meta sample_signal) = []"
    "cc_mountPoint sample_client = ''shv/dev''" "handle_connectionId (Client sample_client) = 5" by code_simp+
  ultimately show ?thesis
    using signals_to_subscribers [OF sample_broker_ok(2), of 5 _ sample_signal] by (auto intro!: exI bexI [of _ "Client sample_client"])
qed

section \<open>Nodes, paths and configurations\<close>

text \<open>
  \<^bold>\<open>C21\<close> (functional).  Who gets the answer: whatever a node tree of any depth does with a request, and whatever its
  methods return or throw, a response it emits has the id and the caller ids of that request.
\<close>

theorem node_answers:
  assumes "Emitted m \<in> set (fst (ShvNode_handleRpcFrame cp toCpon errmsg ids nd frame))" "RpcMessage_isResponse m"
    and "RpcValue_isValid (RpcMessage_requestId_m (fr_meta frame))"
  shows "answers (fr_meta frame) m"
  by (rule handleRpcFrame_answers [OF assms])

theorem node_answers_witness:
  "\<exists>m. Emitted m \<in> set (fst (ShvNode_handleRpcFrame no_cpon_ops no_cpon_text [] [] sample_tree routed_request)) \<and>
     answers (fr_meta routed_request) m"
proof -
  have "list_ex (\<lambda>e. case e of Emitted m \<Rightarrow> RpcMessage_isResponse m | _ \<Rightarrow> False)
    (fst (ShvNode_handleRpcFrame no_cpon_ops no_cpon_text [] [] sample_tree routed_request))" by code_simp
  then obtain e where e: "e \<in> set (fst (ShvNode_handleRpcFrame no_cpon_ops no_cpon_text [] [] sample_tree routed_request))"
    "case e of Emitted m \<Rightarrow> RpcMessage_isResponse m | _ \<Rightarrow> False" unfolding list_ex_iff by blast
  have valid: "RpcValue_isValid (RpcMessage_requestId_m (fr_meta routed_request))" by code_simp
  from e obtain m where "Emitted m \<in> set (fst (ShvNode_handleRpcFrame no_cpon_ops no_cpon_text [] [] sample_tree routed_request))"
    "RpcMessage_isResponse m" by (cases e rule: node_effect.exhaust) auto
  with node_answers [OF this valid] show ?thesis by blast
qed

text \<open>
  \<^bold>\<open>C22\<close> (invariant).  Mounting a node never takes away or changes a node that is there: directories that are missing
  on the way are made, the mount succeeds exactly if the place is free, and then the node is found under its path.
\<close>

theorem mount_keeps:
  assumes "ShvNodeTree_mount path node m_root = (ok, m_root')"
  shows "keeps m_root m_root' \<and>
    (ok \<longleftrightarrow> ShvPath_splitPath path \<noteq> [] \<and>
       node_at (ShvPath_splitPath path) (fst (ShvNodeTree_mdcd True (butlast (ShvPath_splitPath path)) m_root)) = None) \<and>
    (ok \<longrightarrow> node_at (ShvPath_splitPath path) m_root' = Some (setNodeId (last (ShvPath_splitPath path)) node))"
  using mount_spec [OF assms] by blast

theorem mount_keeps_witness:
  "\<exists>r. ShvNodeTree_mount ''a/b'' (ShvNode [] True PlainNode []) sample_tree = (True, r) \<and> keeps sample_tree r \<and>
     node_at [''a'', ''b''] r = Some (ShvNode ''b'' True PlainNode [])"
proof -
  obtain ok r where r: "ShvNodeTree_mount ''a/b'' (ShvNode [] True PlainNode []) sample_tree = (ok, r)" by fastforce
  have "fst (ShvNodeTree_mount ''a/b'' (ShvNode [] True PlainNode []) sample_tree)" by code_simp
  moreover have "ShvPath_splitPath ''a/b'' = [''a'', ''b'']" by code_simp
  ultimately show ?thesis using mount_keeps [OF r] r by (simp add: setNodeId_def)
qed

text \<open>
  \<^bold>\<open>C28\<close> (round trip).  A configuration node writes only what differs from the template, as CPON text, to the file of the user:
  saving succeeds, and loading reads this text and the template and merges them to the values that were saved, for maps nested to any
  depth.  Conditions: values and template have the same keys in all maps, at all levels, and no meta data, and a scalar that is equal to that of the template is the
  same value (\<open>fits\<close>); both are maps; the values can be told by CPON (\<open>expressible\<close>: well-formed, without
  doubles, unsigned numbers from \<open>2 ^ 63\<close> on and the times that do not print, and in the normal form of
  C2); the file of the user can be written; and the template is what its files hold after the save.  What is not expressible is
  lost, as text in general (\<open>cpon_uint_saturates\<close>, \<open>cpon_fraction_loses_zeros\<close>).
\<close>

theorem config_save_load:
  assumes "fits (cn_templateValues n) (vm_values n)" "RpcValue_isMap (cn_templateValues n)" "RpcValue_isMap (vm_values n)"
    and "expressible (vm_values n)"
    and "RpcValueConfigNode_saveValues rg True n fs = (r, fs')"
    and "loadConfigTemplate fs' (cn_templateDir n) (template_file fs' n) = Some (Inr (cn_templateValues n))"
  shows "r = Inr () \<and> (\<exists>n'. RpcValueConfigNode_loadValues fs' n = Some (Inr (), n') \<and> vm_values n' = vm_values n)"
  by (rule save_load [OF assms])

definition sample_template :: rpc_value where
  "sample_template = rpc (VMap [(''a'', rpc (VMap [(''x'', rpc (VInt 1)), (''y'', rpc (VInt 2))])), (''b'', rpc (VBool False))])"

definition sample_values :: rpc_value where
  "sample_values = rpc (VMap [(''a'', rpc (VMap [(''x'', rpc (VInt 1)), (''y'', rpc (VInt 5))])), (''b'', rpc (VBool False))])"

definition sample_config :: config_node where
  "sample_config = \<lparr>vm_valuesLoaded = True, vm_values = sample_values, vm_readOnly = False, cn_configName = ''c'', cn_configDir = ''d'',
     cn_userConfigName = [], cn_userConfigDir = [], cn_templateConfigName = [], cn_templateDir = [], cn_templateValues = sample_template\<rparr>"

definition sample_files :: "string \<Rightarrow> string \<Rightarrow> config_file" where
  "sample_files tx = (\<lambda>_. NoFile)(''d/c'' := TextFile tx)"

theorem config_save_load_witness:
  "\<exists>tx fs' n'. RpcValue_toCpon registry_start [] sample_template = Inr tx \<and>
     RpcValueConfigNode_saveValues registry_start True sample_config (sample_files tx) = (Inr (), fs') \<and>
     RpcValueConfigNode_loadValues fs' sample_config = Some (Inr (), n') \<and> vm_values n' = sample_values \<and>
     (\<exists>s. fs' ''d/user.c'' = TextFile s \<and> RpcValue_fromCpon s = Inr (rpc (VMap [(''a'', rpc (VMap [(''y'', rpc (VInt 5))]))])))"
proof -
  let ?d = "rpc (VMap [(''a'', rpc (VMap [(''y'', rpc (VInt 5))]))])"
  have ok: "rpc_wf sample_template" "cpon_printable sample_template" "cpon_canon sample_template = sample_template"
      "RpcValue_asString (RpcMap_valref (RpcValue_asMap sample_template) BASED_ON) = []" "expressible sample_values" "expressible ?d"
    by (simp_all add: expressible_def sample_values_def sample_template_def drop_empty_meta_def smap_ok_def in_s_def BASED_ON_def
        RpcValue_asMap_def RpcMap_valref_def RpcValue_asString_def map_find_def type_test_defs)
  obtain tx where tx: "RpcValue_toCpon registry_start [] sample_template = Inr tx"
      "\<And>fs dir name. fs name = TextFile tx \<Longrightarrow> loadConfigTemplate fs dir name = Some (Inr sample_template)"
    using template_from_text [OF ok(1-4)] by blast
  have d: "diffMaps sample_template sample_values = ?d" and fit: "fits sample_template sample_values" by code_simp+
  obtain s where s: "cx_out (cw_value ?d (config_writer registry_start)) = s" "RpcValue_fromCpon s = Inr ?d"
    using config_text [of ?d registry_start] ok(6) unfolding expressible_def by metis
  obtain r fs' where save: "RpcValueConfigNode_saveValues registry_start True sample_config (sample_files tx) = (r, fs')" by fastforce
  then have fs': "fs' = (sample_files tx)(''d/user.c'' := TextFile s)"
    using d s(1) by (auto simp: RpcValueConfigNode_saveValues_def sample_config_def user_file_def resolvedUserConfigDir_def
        resolvedUserConfigName_def Let_def)
  have templ: "loadConfigTemplate fs' (cn_templateDir sample_config) (template_file fs' sample_config) =
      Some (Inr (cn_templateValues sample_config))"
    using tx(2) [of fs' "template_file fs' sample_config"] by (simp add: fs' template_file_def sample_config_def sample_files_def)
  have map: "RpcValue_isMap (cn_templateValues sample_config)" "RpcValue_isMap (vm_values sample_config)"
    by (simp_all add: sample_config_def sample_template_def sample_values_def type_test_defs)
  have fe: "fits (cn_templateValues sample_config) (vm_values sample_config)" "expressible (vm_values sample_config)"
    using fit ok(5) by (simp_all add: sample_config_def)
  from config_save_load [OF fe(1) map fe(2) save templ] show ?thesis
    using tx(1) save s(2) fs' by (auto simp: sample_config_def)
qed

text \<open>
  \<^bold>\<open>C31\<close> (equivalence).  Wildcards in paths: the loop of \<open>matchWild\<close> over both lists decides the declarative
  relation (\<open>*\<close> stands for one directory, \<open>**\<close> for any number), as long as \<open>**\<close> is only at the end of the pattern.
\<close>

theorem wildcard_matching:
  assumes "''**'' \<notin> set (butlast (split_view pat SHV_PATH_DELIM NUL SkipEmptyParts KeepQuotes))"
  shows "ShvPath_matchWild path pat \<longleftrightarrow>
    wild_match (split_view path SHV_PATH_DELIM NUL SkipEmptyParts KeepQuotes) (split_view pat SHV_PATH_DELIM NUL SkipEmptyParts KeepQuotes)"
  unfolding ShvPath_matchWild_def by (rule matchWild_iff [OF assms])

theorem wildcard_matching_witness:
  "wild_match (split_view ''a/b/c/d'' SHV_PATH_DELIM NUL SkipEmptyParts KeepQuotes)
     (split_view ''a/*/**'' SHV_PATH_DELIM NUL SkipEmptyParts KeepQuotes)"
proof -
  have "ShvPath_matchWild ''a/b/c/d'' ''a/*/**''" by code_simp
  moreover have "''**'' \<notin> set (butlast (split_view ''a/*/**'' SHV_PATH_DELIM NUL SkipEmptyParts KeepQuotes))" by code_simp
  ultimately show ?thesis using wildcard_matching by blast
qed

text \<open>
  Elsewhere in a pattern the first candidate for what follows \<open>**\<close> is final: \<open>**/x/z\<close> does not match
  \<open>x/y/x/z\<close>, which it describes.
\<close>

theorem wildcard_no_backtrack:
  assumes "x \<notin> {''*'', ''**''}" "z \<notin> {''*'', ''**''}" "y \<noteq> z"
  shows "wild_match [x, y, x, z] [''**'', x, z] \<and> \<not> matchWild_list [x, y, x, z] [''**'', x, z]"
  using matchWild_no_backtrack [OF assms] by blast

theorem wildcard_no_backtrack_witness:
  "\<not> matchWild_list [''x'', ''y'', ''x'', ''z''] [''**'', ''x'', ''z'']"
  using wildcard_no_backtrack [of "''x''" "''z''" "''y''"] by simp

text \<open>
  \<^bold>\<open>C32\<close> (round trip).  Paths: splitting a path that \<open>joinDirs\<close> made of directories gives the directories back, also if
  they contain slashes, except for empty ones, which are lost.  Condition: no directory contains the quote character
  \<open>'\<close>; such names do not come back, see \<open>path_quote_lost\<close>.
\<close>

theorem path_roundtrip:
  assumes "\<forall>d \<in> set dirs. SHV_PATH_QUOTE \<notin> set d"
  shows "ShvPath_splitPath (ShvPath_joinDirs dirs) = filter (\<lambda>d. d \<noteq> []) dirs"
  by (rule split_joinDirs [OF assms])

theorem path_roundtrip_witness:
  "ShvPath_splitPath (ShvPath_joinDirs [''shv'', ''a/b'', ''c'']) = [''shv'', ''a/b'', ''c'']"
  using path_roundtrip [of "[''shv'', ''a/b'', ''c'']"] by simp

text \<open>A quote within a name: the directories \<open>it's\<close> and \<open>b\<close> come back as one.\<close>

theorem path_quote_lost:
  "ShvPath_splitPath (ShvPath_joinDirs [''it'' @ CHR 0x27 # ''s'', ''b'']) \<noteq> [''it'' @ CHR 0x27 # ''s'', ''b'']"
  by code_simp

text \<open>
  \<^bold>\<open>C33\<close> (roundtrip).  The access rules of a role, written as an RPC value and read again: every rule that is valid
  comes back, in the same order, and the others are dropped.
\<close>

theorem acl_rules_roundtrip:
  "AclRoleAccessRules_fromRpcValue (AclRoleAccessRules_toRpcValue rules) = filter AclAccessRule_isValid rules"
  by (rule rules_roundtrip)

section \<open>What the code does not do\<close>

text \<open>
  \<^bold>\<open>C36\<close> (bounds).  The secret of a tunnel is meant to be good for two uses within ten seconds; the counter of its uses is
  one byte and wraps around, so that use number \<open>i\<close> is accepted exactly if \<open>i mod 256 \<le> 2\<close>.
\<close>

theorem tunnel_secret_answers:
  assumes "\<forall>x \<in> set l. ts_secret x \<noteq> digest" "\<forall>t \<in> set nows. now \<le> t \<and> t \<le> now + max_age_msec"
  shows "check_all (fst (createSecret digest now l)) nows (snd (createSecret digest now l)) =
    map (\<lambda>i. i mod 256 \<le> 2) [1..<length nows + 1]"
  using check_all_answers [of "removeOldSecrets now l" digest nows now 0] assms
  by (auto simp: createSecret_def removeOldSecrets_def)

theorem tunnel_secret_answers_witness:
  "last (check_all ''s'' (replicate 256 5) (snd (createSecret ''s'' 0 [])))"
  using tunnel_secret_answers [of "[]" "''s''" "replicate 256 5" 0]
  by (simp add: max_age_msec_def createSecret_def last_map)

text \<open>
  \<open>set\<close> on a node of a configuration, once the values are loaded, changes nothing, whatever it
  answers: the value is set in a copy.
\<close>

theorem config_set_no_effect:
  assumes "vm_valuesLoaded n" "RpcValueMapNode_callMethod load save other path METH_SET val n = (r, n')"
  shows "n' = n"
  by (rule set_changes_nothing [OF assms])

theorem config_set_no_effect_witness:
  "\<exists>n'. RpcValueMapNode_callMethod id (Pair (Inr ())) (Pair (Inr invalid_value)) [''b''] METH_SET (rpc (VBool True)) sample_config =
     (Inr (rpc (VBool True)), n') \<and> RpcMap_value (RpcValue_asMap (vm_values n')) ''b'' invalid_value = rpc (VBool False)"
proof -
  let ?r = "RpcValueMapNode_callMethod id (Pair (Inr ())) (Pair (Inr invalid_value)) [''b''] METH_SET (rpc (VBool True)) sample_config"
  have "fst ?r = Inr (rpc (VBool True))" by code_simp
  moreover have "snd ?r = sample_config"
    by (rule config_set_no_effect [OF _ prod.collapse [symmetric]]) (simp add: sample_config_def)
  moreover have "RpcMap_value (RpcValue_asMap (vm_values sample_config)) ''b'' invalid_value = rpc (VBool False)" by code_simp
  ultimately show ?thesis by (metis prod.collapse)
qed

text \<open>
  A property node whose property signals its changes has a method, below its own count, that is
  read from behind the end of the table of methods.
\<close>

theorem property_reads_behind_end:
  assumes "isSignal ty" "ty \<le> 7"
  shows "\<exists>ix < ValueProxy_methodCount ty extra []. ValueProxy_metaMethod ty extra ix = ReadBehindEnd"
  by (rule signal_property_reads_behind_end [OF assms])

theorem property_reads_behind_end_witness:
  "\<exists>ix < 5. ValueProxy_metaMethod 7 [] ix = ReadBehindEnd"
  using property_reads_behind_end [of 7 "[]"]
  by (simp add: isSignal_def isReadable_def isWriteable_def ValueProxy_methodCount_def bit_iff_odd)


definition sample_masters :: broker where
  "sample_masters = \<lparr>br_clients = [], br_masters = [sample_master 7 ''shv/dev'', sample_master 8 ''shv''], br_acl = sample_acl,
     br_secrets = [], br_requestId = 0\<rparr>"


text \<open>
  \<^bold>\<open>C40\<close> (safety).  A signal of the broker itself to two masters that are subscribed: if the first sees the path changed and
  the second as it is, the second gets it with the path that was meant for the first.
\<close>

theorem broker_signal_leaks_path:
  assumes "br_clients br = []" "br_masters br = [m1, m2]" "subscribed (Master m1) path m src" "subscribed (Master m2) path m src"
    and "handle_toSubscribedPath (Master m1) path \<noteq> path" "handle_toSubscribedPath (Master m2) path = path"
  shows "BrokerApp_sendNotifyToSubscribers br path m src params =
    [SendMessage (mc_connectionId m1) (RpcMessage_setShvPath (handle_toSubscribedPath (Master m1) path) (broker_signal path m src params)),
     SendMessage (mc_connectionId m2) (RpcMessage_setShvPath (handle_toSubscribedPath (Master m1) path) (broker_signal path m src params))]"
  using notify_leaks_path [OF assms(3-6), of "broker_signal path m src params"] assms(1,2)
  by (simp add: BrokerApp_sendNotifyToSubscribers_def BrokerApp_allClientConnections_def handle_connectionId_def)

theorem broker_signal_leaks_path_witness:
  "\<exists>msg1 msg2. BrokerApp_sendNotifyToSubscribers
       (sample_masters\<lparr>br_masters := [sample_master 7 ''shv/dev'', sample_master 8 []]\<rparr>) ''shv/dev/x'' ''chng'' [] (rpc (VInt 1)) =
     [SendMessage 7 msg1, SendMessage 8 msg2] \<and> RpcMessage_shvPath msg2 = rpc (VString ''x'')"
proof -
  let ?br = "sample_masters\<lparr>br_masters := [sample_master 7 ''shv/dev'', sample_master 8 []]\<rparr>"
  have h: "br_clients ?br = []" "br_masters ?br = [sample_master 7 ''shv/dev'', sample_master 8 []]"
    by (simp_all add: sample_masters_def)
  have s: "subscribed (Master (sample_master 7 ''shv/dev'')) ''shv/dev/x'' ''chng'' []"
    "subscribed (Master (sample_master 8 [])) ''shv/dev/x'' ''chng'' []" unfolding subscribed_def by code_simp+
  have p: "handle_toSubscribedPath (Master (sample_master 7 ''shv/dev'')) ''shv/dev/x'' = ''x''"
    "handle_toSubscribedPath (Master (sample_master 8 [])) ''shv/dev/x'' = ''shv/dev/x''" by code_simp+
  have "RpcMessage_shvPath (RpcMessage_setShvPath ''x'' (broker_signal ''shv/dev/x'' ''chng'' [] (rpc (VInt 1)))) = rpc (VString ''x'')"
    by code_simp
  with broker_signal_leaks_path [OF h s, of "rpc (VInt 1)", unfolded p] show ?thesis
    by (simp add: sample_master_def)
qed

section \<open>The text format\<close>

text \<open>
  \<^bold>\<open>C2\<close> (round trip).  What \<open>CponWriter\<close> writes for a value, indented by any blank text, \<open>CponReader\<close> reads back, whatever
  follows that does not continue a number: the same value in its normal form (\<open>cpon_canon\<close>).  Doubles, unsigned numbers
  from \<open>2 ^ 63\<close> on and some times are not printable, see below.
\<close>

theorem cpon_roundtrip:
  assumes "rpc_wf v" "cpon_printable v" and "list_all blank_char indent" and "stops rest"
  shows "\<exists>t it. RpcValue_toCpon rg indent v = Inr t \<and> CponReader_read CInvalid (t @ rest) = Inr (cpon_canon v, it, rest)"
  using text_reads_back [OF assms(1-3), of rg] assms(4) by metis

lemma sample_printable: "rpc_wf sample_value" "cpon_printable sample_value" "rpc_wf sample_message" "cpon_printable sample_message"
  using sample_value_ok sample_message_ok(1) by (simp_all add: cp_ok_def sample_value_def sample_message_def)

theorem cpon_roundtrip_witness:
  "\<exists>t it. RpcValue_toCpon registry_start ''  '' sample_value = Inr t \<and>
     CponReader_read CInvalid (t @ '', 1'') = Inr (cpon_canon sample_value, it, '', 1'')"
  using cpon_roundtrip [OF sample_printable(1,2), of "''  ''" "'', 1''" registry_start]
  by (simp add: blank_char_def stops_def stop_char_def is_digit_def)

text \<open>
  \<^bold>\<open>C7\<close> (round trip).  A message in a frame of the text format, with the reader and the writer of that format as the operations of
  the frame code: split into a frame, sent as bytes, parsed and put together again, it is the normal form of the message that was sent
  (\<open>cpon_canon\<close>, as in C2: an invalid value comes as null, empty meta data are dropped).  Conditions: the message is a
  well-formed \<open>IMap\<close> with meta data that are not empty, and printable (\<open>cpon_printable\<close>): it holds, at any depth, no double, no unsigned number
  from \<open>2 ^ 63\<close> on, no signed number or mantissa of \<open>-2 ^ 63\<close>, and only times that print (\<open>time_prints\<close>: from the year 1 on, with a millisecond
  part that is not negative and not cut, and an offset of less than 6000 minutes).
\<close>

theorem cpon_frame_survives:
  assumes "RpcValue_isIMap m" "rpc_wf m" "cpon_printable m" "\<not> RpcMetaData_isEmpty (RpcMessage_metaData m)"
    and "RpcMessage_toRpcFrame (cpon_text_ops rg) PT_Cpon m = Inr f" "RpcFrame_toFrameData (cpon_text_ops rg) f = Inr bs"
  shows "\<exists>f'. RpcFrame_fromFrameData (cpon_text_ops rg) bs = Inr f' \<and>
    RpcFrame_toRpcMessage_err (cpon_text_ops rg) f' = Inr (cpon_canon m, False)"
  using assms by (rule cpon_message_roundtrip)

theorem cpon_frame_survives_witness:
  "\<exists>f bs f'. RpcMessage_toRpcFrame (cpon_text_ops registry_start) PT_Cpon sample_message = Inr f \<and>
     RpcFrame_toFrameData (cpon_text_ops registry_start) f = Inr bs \<and> RpcFrame_fromFrameData (cpon_text_ops registry_start) bs = Inr f' \<and>
     RpcFrame_toRpcMessage_err (cpon_text_ops registry_start) f' = Inr (cpon_canon sample_message, False)"
proof -
  obtain f bs where "RpcMessage_toRpcFrame (cpon_text_ops registry_start) PT_Cpon sample_message = Inr f"
    "RpcFrame_toFrameData (cpon_text_ops registry_start) f = Inr bs"
    by (simp add: RpcMessage_toRpcFrame_def RpcFrame_toFrameData_def RpcFrame_toFrameHead_def case_prod_unfold Let_def)
  with cpon_frame_survives [OF sample_message_ok(2) sample_printable(3,4) sample_message_ok(3)] show ?thesis by blast
qed

text \<open>
  \<^bold>\<open>C13\<close> (termination).  Reading any text ends, with fuel for its length or more; what is read without an error is
  well-formed, and at least one character is taken.
\<close>

theorem cpon_read_terminates:
  assumes "citem_finished it" and "length inp < n"
  shows "(\<exists>res. crd_value n it inp = Some res) \<and>
    (\<forall>v it' rest. CponReader_read it inp = Inr (v, it', rest) \<longrightarrow> rpc_wf v \<and> length rest < length inp)"
  using crdt.rd_total [of it inp n] CponReader_read_sound [of it inp] assms by auto

theorem cpon_read_terminates_witness:
  "(\<exists>res. crd_value 9 CInvalid ''[1, <'' = Some res) \<and>
   CponReader_read CInvalid ''[1] x'' = Inr (rpc (VList [rpc (VInt 1)]), CInvalid, '' x'') \<and> rpc_wf (rpc (VList [rpc (VInt 1)]))"
proof -
  have r: "CponReader_read CInvalid ''[1] x'' = Inr (rpc (VList [rpc (VInt 1)]), CInvalid, '' x'')" by code_simp
  show ?thesis using cpon_read_terminates [of CInvalid "''[1, <''" 9] cpon_read_terminates [of CInvalid "''[1] x''" 9] r by simp
qed

text \<open>
  \<^bold>\<open>C30\<close> (round trip).  The calendar of the text format: from the year 1 on, the broken-down time of a second is a valid
  one, and its second is the one it came from.
\<close>

theorem calendar_roundtrip:
  assumes "epoch_ok t"
  shows "tm_ok (ccpon_gmtime t) \<and> ccpon_timegm (ccpon_gmtime t) = Some t"
  using timegm_gmtime [OF assms] by simp

theorem calendar_roundtrip_witness:
  "tm_year (ccpon_gmtime 951782400) = 100 \<and> tm_mon (ccpon_gmtime 951782400) = 1 \<and> tm_mday (ccpon_gmtime 951782400) = 29 \<and>
   ccpon_timegm (ccpon_gmtime 951782400) = Some 951782400"
proof -
  have "tm_year (ccpon_gmtime 951782400) = 100 \<and> tm_mon (ccpon_gmtime 951782400) = 1 \<and> tm_mday (ccpon_gmtime 951782400) = 29" by code_simp
  then show ?thesis using calendar_roundtrip [of 951782400] by (simp add: epoch_ok_def)
qed

text \<open>
  Doubles lose the zeros between the point and the first digit of the fraction: the fraction is printed as a whole
  number, so that one ten times as large looks the same, and \<open>12.05\<close> is written as \<open>12.5\<close>.
\<close>

theorem cpon_fraction_loses_zeros:
  assumes "0 < b" "length (to_string_nat a) + length (to_string_nat (10 * b)) + 1 < buff_len"
  shows "uint_dot_uint_to_str buff_len a (10 * b) = uint_dot_uint_to_str buff_len a b"
proof -
  have ts: "to_string_nat (10 * b) = to_string_nat b @ ''0''"
    using assms(1) by (subst to_string_nat.simps) simp
  have "uint_to_str buff_len a = to_string_nat a" using assms(2) by (intro uint_to_str_eq) simp
  moreover have "uint_to_str (buff_len - Suc (length (to_string_nat a))) (10 * b) = to_string_nat b @ ''0''"
    "uint_to_str (buff_len - Suc (length (to_string_nat a))) b = to_string_nat b"
    using assms(2) ts by (simp_all add: uint_to_str_eq)
  ultimately show ?thesis using assms ts by (simp add: uint_dot_uint_to_str_def)
qed

theorem cpon_fraction_loses_zeros_witness:
  "uint_dot_uint_to_str 32 12 5 = ''12.5'' \<and> uint_dot_uint_to_str 32 12 50 = ''12.5''"
proof -
  have "uint_dot_uint_to_str 32 12 5 = ''12.5''"
    by code_simp
  moreover have "length (to_string_nat 12) + length (to_string_nat (10 * 5)) + 1 < 32" by code_simp
  ultimately show ?thesis using cpon_fraction_loses_zeros [of 5 12 32] by simp
qed

text \<open>
  Unsigned numbers from \<open>2 ^ 63\<close> on do not survive: what the writer puts for any of them, the reader takes for the
  greatest signed number.
\<close>

theorem cpon_uint_saturates:
  assumes "2 ^ 63 \<le> unat u"
  shows "\<exists>t. RpcValue_toCpon rg [] (rpc (VUInt u)) = Inr t \<and> RpcValue_fromCpon t = Inr (rpc (VUInt (word_of_int INT64_MAX)))"
  using big_uint_saturates [OF assms, of "[]" rg] by simp

theorem cpon_uint_saturates_witness:
  "\<exists>t. RpcValue_toCpon registry_start [] (rpc (VUInt 0x8000000000000001)) = Inr t \<and>
     RpcValue_fromCpon t = Inr (rpc (VUInt (word_of_int INT64_MAX)))"
  by (rule cpon_uint_saturates) simp

text \<open>
  Two more: a number of milliseconds below ten takes its middle digit from the year, and a text that ends behind the star of
  a comment crashes the reader.
\<close>

theorem cpon_msec_from_year: "date_time_text 915148800005 0 CCPON_Auto True = ''1999-01-01T00:00:00.095Z''"
  by code_simp

theorem cpon_comment_crashes: "RpcValue_fromCpon ''1 /* *'' = Inr (rpc (VInt 1)) \<and> RpcValue_fromCpon ''/* *'' = Inl CponCrash"
  by code_simp

section \<open>Journals and logs\<close>

text \<open>
  \<^bold>\<open>C9\<close> (functional).  The log of entries that are in order of time, when the limit of records is not reached: read by
  \<open>ShvLogRpcValueReader\<close>, it holds a snapshot at \<open>since\<close>, if one was asked for (\<open>log_snapshot\<close>), and the entries that match the
  patterns and lie strictly between \<open>since\<close> and \<open>until\<close> (\<open>log_window\<close>).  Only where the log ends with the
  entries, less than a second away from \<open>now\<close>, those of the last time are left out, as more of them may come.  Each entry comes
  back as it was but for what a row of a log cannot say (\<open>row_norm\<close>): an empty domain and the domain \<open>C\<close> come back as \<open>chng\<close>, a
  negative short time as none.  Conditions: the entries are sorted by time, the meta types of their values can be read as numbers (\<open>readable\<close>),
  and each has a time of 57 bits, a path that is not empty and a short time of 32 bits (\<open>row_ok\<close>); the limit of records is at least the number
  of entries; the parameters have values that can be sent and a limit of 32 bits (\<open>params_ok\<close>), \<open>since\<close> is
  well-formed, is not the word \<open>last\<close>, and is before \<open>until\<close> (a missing \<open>since\<close> counts as 0, a missing \<open>until\<close> as the greatest time).
\<close>

theorem getlog_content:
  assumes "sorted (map je_epochMsec es)" "\<forall>e \<in> set es. readable e \<and> row_ok e" "int (length es) \<le> lp_recordCountLimit p"
    and "params_ok p" "rpc_wf (lp_since p)" "\<not> ShvGetLogParams_isSinceLast p" "params_msec (lp_since p) 0 < params_msec (lp_until p) int64_max"
  shows "\<exists>log' r. getLog rx ti clock es p now ign = Inr log' \<and> ShvLogRpcValueReader_make ti log' thr = Inr r \<and>
    map (map_sum id fst) (reader_run r) =
      map Inr (map row_norm (log_snapshot p (PatternMatcher_match rx (PatternMatcher_make rx p)) (params_msec (lp_since p) 0) es @
        log_window (PatternMatcher_match rx (PatternMatcher_make rx p)) (params_msec (lp_since p) 0) (params_msec (lp_until p) int64_max)
          (RpcDateTime_msecsSinceEpoch now) es)) \<and>
    \<not> lh_recordCountLimitHit (lr_logHeader r)"
  using assms by (rule getLog_unlimited)

theorem getlog_content_witness:
  "\<exists>log' r. getLog no_regex no_types late sample_journal window_params late IgnoreNo = Inr log' \<and>
     ShvLogRpcValueReader_make no_types log' False = Inr r \<and>
     map (map_sum id fst) (reader_run r) =
       map Inr [snapshot_entry 1500 (sample_entry 1000 ''a/x'' 1), sample_entry 2000 ''a/y'' 2, sample_entry 3000 ''a/x'' 3]"
proof -
  have "log_snapshot window_params (PatternMatcher_match no_regex (PatternMatcher_make no_regex window_params))
      (params_msec (lp_since window_params) 0) sample_journal = [snapshot_entry 1500 (sample_entry 1000 ''a/x'' 1)]"
    by code_simp
  moreover have "log_window (PatternMatcher_match no_regex (PatternMatcher_make no_regex window_params)) (params_msec (lp_since window_params) 0)
      (params_msec (lp_until window_params) int64_max) (RpcDateTime_msecsSinceEpoch late) sample_journal =
      [sample_entry 2000 ''a/y'' 2, sample_entry 3000 ''a/x'' 3]"
    by code_simp
  moreover have "int (length sample_journal) \<le> lp_recordCountLimit window_params"
      "params_msec (lp_since window_params) 0 < params_msec (lp_until window_params) int64_max"
    by code_simp+
  moreover have "map row_norm [snapshot_entry 1500 (sample_entry 1000 ''a/x'' 1), sample_entry 2000 ''a/y'' 2, sample_entry 3000 ''a/x'' 3] =
      [snapshot_entry 1500 (sample_entry 1000 ''a/x'' 1), sample_entry 2000 ''a/y'' 2, sample_entry 3000 ''a/x'' 3]"
    by code_simp
  ultimately show ?thesis
    using getlog_content [OF sample_journal_ok(2,1) _ params_samples_ok(4-6), of no_regex no_types late late IgnoreNo False]
    by fastforce
qed

text \<open>
  \<^bold>\<open>C27\<close> (safety).  Whatever is asked of \<open>getLog\<close>, it answers: of the exceptions its containers could throw
  (\<open>std::map::at\<close> for a path that is not in the dictionary, \<open>std::optional::value\<close> for the end of the window) none is thrown, if
  the meta types of the values of the entries can be read as numbers.
\<close>

theorem getlog_answers:
  assumes "\<forall>e \<in> set es. readable e" "int (length es) < 2 ^ 31"
  shows "\<exists>log'. getLog rx ti clock es p now ign = Inr log'"
  using impl_get_log_total [OF assms, of "[map Inr es]"] by (simp add: getLog_def)

theorem getlog_answers_witness:
  "\<exists>log'. getLog no_regex no_types late sample_journal (ShvGetLogParams_default\<lparr>lp_since := rpc (VString ''last''), lp_withSnapshot := True\<rparr>) late IgnoreYes
     = Inr log'"
  by (rule getlog_answers) (simp_all add: sample_journal_ok(1), simp add: sample_journal_def)

text \<open>
  \<^bold>\<open>C23\<close> (functional).  The end of the window in the header of an answer that is not empty is true, whatever the limit of records: the
  entries of the answer are all the matching ones after \<open>since\<close> and before this end, or up to this end where no matching ones come later.  So an
  answer that was cut by the limit is never cut between entries of the same time.  For an empty answer the
  header repeats \<open>until\<close> of the parameters, and nothing is said of it (see \<open>getlog_empty_page_end\<close> below).  Entries are read back up to what a
  row cannot say (\<open>row_norm\<close>, as in C9).  Conditions: the entries are sorted by time, fewer than \<open>2 ^ 31\<close>, with
  meta types that can be read (\<open>readable\<close>), each with a time of 57 bits, a path and a short time of 32 bits (\<open>row_ok\<close>); the parameters can
  be sent (\<open>params_ok\<close>), \<open>since\<close> is well-formed, not the word \<open>last\<close>, and before \<open>until\<close>.
\<close>

theorem getlog_page:
  fixes rx :: "'rx regex_lib" and p :: log_params
  assumes "sorted (map je_epochMsec es)" "\<forall>e \<in> set es. readable e \<and> row_ok e" "int (length es) < 2 ^ 31"
    and "params_ok p" "rpc_wf (lp_since p)" "\<not> ShvGetLogParams_isSinceLast p" "params_msec (lp_since p) 0 < params_msec (lp_until p) int64_max"
  defines "sel \<equiv> selected (PatternMatcher_match rx (PatternMatcher_make rx p)) (params_msec (lp_since p) 0)"
    and "snaps \<equiv> log_snapshot p (PatternMatcher_match rx (PatternMatcher_make rx p)) (params_msec (lp_since p) 0) es"
  shows "\<exists>log' r recs u. getLog rx ti clock es p now ign = Inr log' \<and> ShvLogRpcValueReader_make ti log' thr = Inr r \<and>
    map (map_sum id fst) (reader_run r) = map Inr (map row_norm (snaps @ recs)) \<and>
    (recs = filter (\<lambda>e. sel e \<and> je_epochMsec e < u) es \<or> recs = filter sel es \<and> (\<forall>e \<in> set recs. je_epochMsec e \<le> u)) \<and>
    (snaps @ recs \<noteq> [] \<longrightarrow> ShvLogHeader_untilMsec (lr_logHeader r) = u)"
  using getLog_page [OF assms(1-7)] unfolding sel_def snaps_def .

theorem getlog_page_witness:
  "\<exists>log' r recs u. getLog no_regex no_types late sample_journal (limited 2) late IgnoreNo = Inr log' \<and>
     ShvLogRpcValueReader_make no_types log' False = Inr r \<and> map (map_sum id fst) (reader_run r) = map Inr recs \<and>
     (recs = filter (\<lambda>e. je_epochMsec e < u) sample_journal \<or> recs = sample_journal \<and> (\<forall>e \<in> set recs. je_epochMsec e \<le> u)) \<and>
     (recs \<noteq> [] \<longrightarrow> ShvLogHeader_untilMsec (lr_logHeader r) = u)"
proof -
  have limited: "PatternMatcher_match no_regex (PatternMatcher_make no_regex (limited 2)) e" for e
    by (rule match_no_pattern) (simp_all add: limited_def ShvGetLogParams_default_def)
  have none: "log_snapshot (limited 2) m s es = []" for m s es
    by (simp add: log_snapshot_def limited_def ShvGetLogParams_default_def)
  have zero: "params_msec (lp_since (limited 2)) 0 = 0" by code_simp
  have all: "filter (\<lambda>e. selected (PatternMatcher_match no_regex (PatternMatcher_make no_regex (limited 2))) 0 e \<and> P e) sample_journal =
      filter P sample_journal" for P
    by (rule filter_cong) (auto simp: selected_def limited sample_journal_def)
  have "in_s 32 2" "int (length sample_journal) < 2 ^ 31" "(0 :: int) < params_msec (lp_until (limited 2)) int64_max"
    by (simp add: in_s_def) (code_simp, code_simp)
  then obtain log' r recs u where "getLog no_regex no_types late sample_journal (limited 2) late IgnoreNo = Inr log'"
      "ShvLogRpcValueReader_make no_types log' False = Inr r" "map (map_sum id fst) (reader_run r) = map Inr (map row_norm recs)"
      "recs = filter (\<lambda>e. je_epochMsec e < u) sample_journal \<or> recs = sample_journal \<and> (\<forall>e \<in> set recs. je_epochMsec e \<le> u)"
      "recs \<noteq> [] \<longrightarrow> ShvLogHeader_untilMsec (lr_logHeader r) = u"
    using getlog_page [OF sample_journal_ok(2,1) _ params_samples_ok(1-3), of 2 no_regex no_types late late IgnoreNo False]
    unfolding zero none all all [of "\<lambda>_. True", simplified] append_Nil by blast
  moreover from this have "map row_norm recs = recs" by (intro map_idI sample_journal_norm) auto
  ultimately show ?thesis by metis
qed

text \<open>
  \<^bold>\<open>C24\<close> (refinement).  The snapshot after a sequence of entries maps a path to the last entry that concerns it, unless this entry
  drops the node or one above it: \<open>concerns\<close> is the specification.
\<close>

theorem snapshot_last_value:
  assumes "\<forall>e \<in> set es. readable e"
  shows "\<exists>s. foldl (\<lambda>s e. bind_e s (addToSnapshot e)) (Inr []) es = Inr s \<and> map_wf s \<and>
    (\<forall>path e. map_find s path = Some e \<longleftrightarrow>
       (\<exists>ys zs. es = ys @ e # zs \<and> (concerns path e \<and> \<not> drops e) \<and> (\<forall>z \<in> set zs. \<not> concerns path z)))"
proof -
  have "foldl (\<lambda>s e. bind_e s (addToSnapshot e)) (Inr s) es = Inr (foldl (\<lambda>s e. snap_add e s) s es)" for s
    using assms by (induction es arbitrary: s) (simp_all add: addToSnapshot_ok)
  then show ?thesis using snapshot_of_find [of es] snapshot_of_wf [of es] by (simp add: snapshot_of_def)
qed

theorem snapshot_last_value_witness:
  "\<exists>s. foldl (\<lambda>s e. bind_e s (addToSnapshot e)) (Inr []) sample_journal = Inr s \<and>
     map_find s ''a/x'' = Some (sample_entry 3000 ''a/x'' 3)"
proof -
  obtain s where s: "foldl (\<lambda>s e. bind_e s (addToSnapshot e)) (Inr []) sample_journal = Inr s"
      "\<And>path e. map_find s path = Some e \<longleftrightarrow>
       (\<exists>ys zs. sample_journal = ys @ e # zs \<and> (concerns path e \<and> \<not> drops e) \<and> (\<forall>z \<in> set zs. \<not> concerns path z))"
    using snapshot_last_value [of sample_journal] sample_journal_ok(1) by blast
  have "concerns ''a/x'' (sample_entry 3000 ''a/x'' 3) \<and> \<not> drops (sample_entry 3000 ''a/x'' 3) \<and> \<not> concerns ''a/x'' (sample_entry 4000 ''b'' 4)"
    by code_simp
  then have "map_find s ''a/x'' = Some (sample_entry 3000 ''a/x'' 3)"
    unfolding s(2) by (intro exI [of _ "[sample_entry 1000 ''a/x'' 1, sample_entry 2000 ''a/y'' 2]"] exI [of _ "[sample_entry 4000 ''b'' 4]"])
      (simp add: sample_journal_def)
  with s(1) show ?thesis by blast
qed

text \<open>
  \<^bold>\<open>C25\<close> (invariant).  A journal in memory that is in order of time stays so, whatever the order in which entries with a time come, and
  loses none: the entries of any one time are those that were appended with it, in the order of their coming.  Conditions: the correction
  of short times is off, and every entry that comes has a time other than 0.  An entry with the time 0 is given the
  present time but inserted by the time 0, which breaks the order (\<open>zero_time_breaks_order\<close>, below), as does the correction
  (\<open>short_time_breaks_order\<close>).
\<close>

theorem memory_journal_sorted:
  assumes "\<not> mj_isShortTimeCorrection j" "sorted (map je_epochMsec (mj_entries j))" "\<forall>e \<in> set es. je_epochMsec e \<noteq> 0"
  shows "sorted (map je_epochMsec (mj_entries (foldl (\<lambda>j e. ShvMemoryJournal_append now_ms e j) j es))) \<and>
    filter (\<lambda>e. je_epochMsec e = ms) (mj_entries (foldl (\<lambda>j e. ShvMemoryJournal_append now_ms e j) j es)) =
      filter (\<lambda>e. je_epochMsec e = ms) (mj_entries j @ es)"
  using assms by (induction es arbitrary: j) (simp_all add: append_entries after_equals_sorted after_equals_same_time)

theorem memory_journal_sorted_witness:
  "sorted (map je_epochMsec (mj_entries (foldl (\<lambda>j e. ShvMemoryJournal_append 0 e j)
     (ShvMemoryJournal_default :: unit memory_journal) (rev sample_journal))))"
  using memory_journal_sorted [of "ShvMemoryJournal_default :: unit memory_journal" "rev sample_journal" 0 0]
  by (simp add: ShvMemoryJournal_default_def sample_journal_def)

text \<open>
  \<^bold>\<open>C26\<close> (round trip).  A journal in memory that gives its log for the default parameters with a limit that is not less than its size, and
  another that loads this log: the second holds the entries of the first, up to what a row of a log cannot say (\<open>row_norm\<close>, as in
  C9).  Conditions: the first journal is sorted by time; its entries have positive times of 57 bits, a path,
  a short time of 32 bits and meta types that can be read, and are at least a second older than the time at which the
  log is made (newer ones at the end are left out of a log); the limit is of 32 bits; and the second journal does not correct short times.
\<close>

theorem memory_journal_reload:
  assumes "sorted (map je_epochMsec (mj_entries j))" "\<forall>e \<in> set (mj_entries j). readable e \<and> row_ok e \<and> 0 < je_epochMsec e"
    and "\<forall>e \<in> set (mj_entries j). je_epochMsec e + 1000 \<le> RpcDateTime_msecsSinceEpoch now"
    and "int (length (mj_entries j)) \<le> n" "in_s 32 n" "\<not> mj_isShortTimeCorrection j2"
  shows "\<exists>log' j'. ShvMemoryJournal_getLog rx ti clock (ShvGetLogParams_default\<lparr>lp_recordCountLimit := n\<rparr>) now ign j = Inr log' \<and>
    ShvMemoryJournal_loadLog ti clock2 log' False j2 = Inr j' \<and> mj_entries j' = map row_norm (mj_entries j)"
  using assms by (rule getLog_loadLog)

theorem memory_journal_reload_witness:
  "\<exists>log' j'. ShvMemoryJournal_getLog no_regex no_types late (limited 10) late IgnoreNo (ShvMemoryJournal_default\<lparr>mj_entries := sample_journal\<rparr>) = Inr log' \<and>
    ShvMemoryJournal_loadLog no_types (\<lambda>_. 0) log' False ShvMemoryJournal_default = Inr j' \<and> mj_entries j' = sample_journal"
proof -
  have "map row_norm sample_journal = sample_journal" by (intro map_idI sample_journal_norm)
  then show ?thesis
    using memory_journal_reload [of "ShvMemoryJournal_default\<lparr>mj_entries := sample_journal\<rparr>" late 10
        "ShvMemoryJournal_default :: unit memory_journal" no_regex no_types late IgnoreNo "\<lambda>_. 0"] sample_journal_ok
    by (simp add: limited_def [symmetric]) (simp add: sample_journal_def late_def s_wrap_id in_s_def ShvMemoryJournal_default_def)
qed

text \<open>
  \<open>newestMatchingFileIt\<close> on journal files in order of their first times points at a file with the greatest
  time that is not after \<open>since\<close>, so that no entry after \<open>since\<close> is in a file before it; if there is none, at the first one.
\<close>

theorem newest_file:
  assumes "sorted files" "files \<noteq> []" "RpcValue_isDateTime (lp_since p)"
  shows "newestMatchingFileIt files p < length files \<and>
    (if \<forall>f \<in> set files. params_msec (lp_since p) 0 < f then newestMatchingFileIt files p = 0
     else files ! newestMatchingFileIt files p = Max {f \<in> set files. f \<le> params_msec (lp_since p) 0})"
proof (cases "\<forall>f \<in> set files. params_msec (lp_since p) 0 < f")
  case False
  have "Max {f \<in> set files. f \<le> params_msec (lp_since p) 0} = files ! newestMatchingFileIt files p"
    using newestMatchingFileIt_spec(1-3) [OF assms] False by (intro Max_eqI) (auto simp: not_less)
  then show ?thesis using newestMatchingFileIt_spec(1) [OF assms] False by auto
qed (use newestMatchingFileIt_spec [OF assms] in auto)

theorem newest_file_witness:
  "newestMatchingFileIt [10, 20, 30] (ShvGetLogParams_default\<lparr>lp_since := at_time 25\<rparr>) < 3"
  using newest_file [of "[10, 20, 30]" "ShvGetLogParams_default\<lparr>lp_since := at_time 25\<rparr>"]
  by (simp add: at_time_def type_test_defs)

text \<open>
  The parameters of a log survive their conversion, with the fields for older devices or
  without; the header of a log its conversion to meta data, the type descriptions as far as they survive their own; an entry of a
  journal its conversion to a map.
\<close>

theorem log_header_survives:
  "(params_ok p \<longrightarrow> ShvGetLogParams_fromRpcValue (ShvGetLogParams_toRpcValue legacy p) = Inr p) \<and>
   (header_ok ti h \<longrightarrow> ShvLogHeader_fromMetaData ti (ShvLogHeader_toMetaData ti h) = Inr h) \<and>
   (map_ok e \<longrightarrow> (\<exists>rv. ShvJournalEntry_toRpcValue e = Inr rv \<and> ShvJournalEntry_fromRpcValue rv = Inr e))"
  using params_roundtrip [of p legacy] header_roundtrip [of ti h] fromRpcValue_toRpcValue [of e] by simp

theorem log_header_survives_witness:
  "ShvGetLogParams_fromRpcValue (ShvGetLogParams_toRpcValue True window_params) = Inr window_params \<and>
   ShvLogHeader_fromMetaData no_types (ShvLogHeader_toMetaData no_types
     (ShvLogHeader_default\<lparr>lh_deviceId := ''dev'', lh_since := at_time 5, lh_typeInfos := [([], ())]\<rparr>)) =
   Inr (ShvLogHeader_default\<lparr>lh_deviceId := ''dev'', lh_since := at_time 5, lh_typeInfos := [([], ())]\<rparr>) \<and>
   (\<exists>rv. ShvJournalEntry_toRpcValue (sample_entry 1000 ''a'' 1) = Inr rv \<and>
      ShvJournalEntry_fromRpcValue rv = Inr (sample_entry 1000 ''a'' 1))"
proof -
  have "header_ok no_types (ShvLogHeader_default\<lparr>lh_deviceId := ''dev'', lh_since := at_time 5, lh_typeInfos := [([], ())]\<rparr>)"
    by (simp add: header_ok_def ShvLogHeader_default_def no_types_def params_ok_def ShvGetLogParams_default_def at_time_ok
        DEFAULT_GET_LOG_RECORD_COUNT_LIMIT_def in_s_def) (simp add: sendable_def type_test_defs)
  moreover have "map_ok (sample_entry 1000 ''a'' 1)"
    by (simp add: map_ok_def sample_entry_def ShvJournalEntry_make_def ShvJournalEntry_default_def type_test_defs in_s_def)
  ultimately show ?thesis using params_samples_ok(4) by (simp add: log_header_survives)
qed

text \<open>
  Things the code does not do as it means to.  Asking for the rest of a log that was cut by the limit, from the end that its
  header tells, leaves out the entries at this end, as both ends of a window are open: of the journal with the times 1000, 2000, 3000 and
  4000 the first page holds 1000 and 2000, the next one 4000.  And where the next page is asked for with the same limit, it is empty and
  ends where it begins: the entries before \<open>since\<close> count against the limit, one for each path, even where no snapshot is asked for.
\<close>

theorem getlog_pages_lose_an_entry:
  "times_of (limited 2) = [Inr 1000, Inr 2000] \<and> times_of ((limited 10)\<lparr>lp_since := end_of (limited 2)\<rparr>) = [Inr 4000]"
  by (rule conjI) (code_simp, code_simp)

theorem getlog_page_stuck:
  "times_of ((limited 2)\<lparr>lp_since := at_time 2500\<rparr>) = [] \<and> end_of ((limited 2)\<lparr>lp_since := at_time 2500\<rparr>) = at_time 2500"
  by (rule conjI) (code_simp, code_simp)

text \<open>
  An answer that is empty only because the one entry of its window is too recent tells the end that was asked for, 9000, although that entry, at
  4000, is not in it: who goes on from this end never gets it.
\<close>

theorem getlog_empty_page_end:
  "\<exists>log' r. getLog no_regex no_types (RpcDateTime_fromMSecsSinceEpoch 4500 0) sample_journal
       ((limited 10)\<lparr>lp_since := at_time 3500, lp_until := at_time 9000\<rparr>) (RpcDateTime_fromMSecsSinceEpoch 4500 0) IgnoreNo = Inr log' \<and>
     ShvLogRpcValueReader_make no_types log' False = Inr r \<and> reader_run r = [] \<and> lh_until (lr_logHeader r) = at_time 9000"
proof -
  define log1 where "log1 = projr (getLog no_regex no_types (RpcDateTime_fromMSecsSinceEpoch 4500 0) sample_journal
    ((limited 10)\<lparr>lp_since := at_time 3500, lp_until := at_time 9000\<rparr>) (RpcDateTime_fromMSecsSinceEpoch 4500 0) IgnoreNo)"
  define r1 where "r1 = projr (ShvLogRpcValueReader_make no_types log1 False)"
  have "getLog no_regex no_types (RpcDateTime_fromMSecsSinceEpoch 4500 0) sample_journal
      ((limited 10)\<lparr>lp_since := at_time 3500, lp_until := at_time 9000\<rparr>) (RpcDateTime_fromMSecsSinceEpoch 4500 0) IgnoreNo = Inr log1"
    unfolding log1_def by code_simp
  moreover have "ShvLogRpcValueReader_make no_types log1 False = Inr r1" unfolding r1_def log1_def by code_simp
  moreover have "reader_run r1 = [] \<and> lh_until (lr_logHeader r1) = at_time 9000" unfolding r1_def log1_def by code_simp
  ultimately show ?thesis by blast
qed

text \<open>
  \<open>IgnoreRecordCountLimit::Yes\<close> only changes the limit that the header tells: the loop compares with the one of the parameters.
\<close>

theorem ignore_limit_has_no_effect:
  "\<exists>log' r. getLog no_regex no_types late sample_journal (limited 2) late IgnoreYes = Inr log' \<and>
     ShvLogRpcValueReader_make no_types log' False = Inr r \<and> length (reader_run r) = 2 \<and>
     lh_recordCountLimitHit (lr_logHeader r) \<and> lh_recordCountLimit (lr_logHeader r) = 2147483647"
proof -
  define log1 where "log1 = projr (getLog no_regex no_types late sample_journal (limited 2) late IgnoreYes)"
  define r1 where "r1 = projr (ShvLogRpcValueReader_make no_types log1 False)"
  have "getLog no_regex no_types late sample_journal (limited 2) late IgnoreYes = Inr log1" unfolding log1_def by code_simp
  moreover have "ShvLogRpcValueReader_make no_types log1 False = Inr r1" unfolding r1_def log1_def by code_simp
  moreover have "length (reader_run r1) = 2 \<and> lh_recordCountLimitHit (lr_logHeader r1) \<and> lh_recordCountLimit (lr_logHeader r1) = 2147483647"
    unfolding r1_def log1_def by code_simp
  ultimately show ?thesis by blast
qed

text \<open>
  With the correction of short times an entry is inserted by the time it was given and not by the corrected one: the journal gets out of order.
\<close>

theorem short_time_breaks_order:
  "map je_epochMsec (mj_entries (foldl (\<lambda>j e. ShvMemoryJournal_append 0 e j)
       (ShvMemoryJournal_setShortTimeCorrection True (ShvMemoryJournal_default :: unit memory_journal))
       [short_entry 1000 ''a'' 100, short_entry 1300 ''b'' 7, short_entry 2000 ''b'' 707, short_entry 1500 ''a'' 200])) =
     [1000, 1300, 1100, 2000]"
  by code_simp

text \<open>
  An entry without a time is inserted as one of the time 0, although it carries the present time, here 1000.
\<close>

theorem zero_time_breaks_order:
  "map je_epochMsec (mj_entries (foldl (\<lambda>j e. ShvMemoryJournal_append 1000 e j) (ShvMemoryJournal_default :: unit memory_journal)
       [sample_entry 500 ''a'' 1, sample_entry 5000 ''a'' 2, sample_entry 0 ''a'' 3])) = [1000, 500, 5000]"
  by code_simp

end
